(* ===== verification/Supex_Prelude.thy ===== *)
theory Supex_Prelude
  imports Main "HOL-Library.Word" "HOL-Library.Monad_Syntax"
begin

text \<open>
  Shared vocabulary of the development: machine integers, byte buffers with
  checked access, big- and little-endian integer layouts, the doubly linked lists
  used as sequences of addresses, and the generic interfaces (codecs, bounded
  queues, state machines, key-value stores) the components are proved against.

  Undefined behaviour of the C code (an access outside a buffer, a null
  dereference, a spin that never ends) is the value \<^term>\<open>None\<close> of an option type;
  the do-notation of the option monad threads it.
\<close>

unbundle bit_operations_syntax

type_synonym byte = "8 word"
type_synonym u16 = "16 word"
type_synonym u32 = "32 word"
type_synonym u64 = "64 word"
type_synonym bytes = "byte list"

named_theorems mem_simps \<open>rewriting of checked buffer accesses\<close>
named_theorems wire_simps \<open>rewriting of integer wire layouts\<close>

section \<open>Machine integers\<close>

text \<open>The value a C \<^verbatim>\<open>int\<close> holds after an operation whose exact result is \<open>x\<close>:
  two's complement wrap-around at 32 bits.\<close>

definition s32 :: "int \<Rightarrow> int" where
  "s32 x = signed_take_bit 31 x"

definition asserting :: "bool \<Rightarrow> unit option" where
  "asserting b = (if b then Some () else None)"

section \<open>Byte buffers\<close>

text \<open>A buffer is the list of its bytes; an access outside it is undefined.\<close>

definition mread :: "'a list \<Rightarrow> int \<Rightarrow> 'a option" where
  "mread m i = (if 0 \<le> i \<and> i < int (length m) then Some (m ! nat i) else None)"

definition mreads :: "'a list \<Rightarrow> int \<Rightarrow> int \<Rightarrow> 'a list option" where
  "mreads m i n = (if 0 \<le> i \<and> 0 \<le> n \<and> i + n \<le> int (length m)
     then Some (take (nat n) (drop (nat i) m)) else None)"

definition mwrite :: "'a list \<Rightarrow> int \<Rightarrow> 'a \<Rightarrow> 'a list option" where
  "mwrite m i b = (if 0 \<le> i \<and> i < int (length m) then Some (m[nat i := b]) else None)"

definition mwrites :: "'a list \<Rightarrow> int \<Rightarrow> 'a list \<Rightarrow> 'a list option" where
  "mwrites m i bs = (if 0 \<le> i \<and> i + int (length bs) \<le> int (length m)
     then Some (take (nat i) m @ bs @ drop (nat i + length bs) m) else None)"

section \<open>Integer layouts\<close>

primrec le_bytes :: "nat \<Rightarrow> 'a::len word \<Rightarrow> bytes" where
  "le_bytes 0 w = []"
| "le_bytes (Suc n) w = ucast w # le_bytes n (drop_bit 8 w)"

primrec of_le :: "bytes \<Rightarrow> 'a::len word" where
  "of_le [] = 0"
| "of_le (b # bs) = ucast b OR push_bit 8 (of_le bs)"

definition be16 :: "u16 \<Rightarrow> bytes" where
  "be16 w = rev (le_bytes 2 w)"

definition be32 :: "u32 \<Rightarrow> bytes" where
  "be32 w = rev (le_bytes 4 w)"

definition le64 :: "u64 \<Rightarrow> bytes" where
  "le64 w = le_bytes 8 w"

definition of_be16 :: "bytes \<Rightarrow> u16 option" where
  "of_be16 bs = (if length bs = 2 then Some (of_le (rev bs)) else None)"

definition of_be32 :: "bytes \<Rightarrow> u32 option" where
  "of_be32 bs = (if length bs = 4 then Some (of_le (rev bs)) else None)"

definition of_le64 :: "bytes \<Rightarrow> u64 option" where
  "of_le64 bs = (if length bs = 8 then Some (of_le bs) else None)"

section \<open>Lemmas on machine integers\<close>

lemma s32_id [simp]: "- 2147483648 \<le> x \<Longrightarrow> x \<le> 2147483647 \<Longrightarrow> s32 x = x"
  by (simp add: s32_def signed_take_bit_int_eq_self)

lemma s32_bounds: "- 2147483648 \<le> s32 x \<and> s32 x \<le> 2147483647"
  using signed_take_bit_int_greater_eq_minus_exp [of 31 x] signed_take_bit_int_less_exp [of 31 x]
  by (simp add: s32_def)

lemma asserting_Some [simp]: "asserting b = Some u \<longleftrightarrow> b"
  by (simp add: asserting_def)

lemma asserting_True [simp]: "asserting True = Some ()"
  by (simp add: asserting_def)

lemma asserting_False [simp]: "asserting False = None"
  by (simp add: asserting_def)

section \<open>Lemmas on buffers\<close>

lemma mread_Some [mem_simps]:
  "mread m i = Some b \<longleftrightarrow> 0 \<le> i \<and> i < int (length m) \<and> b = m ! nat i"
  by (auto simp: mread_def)

lemma mread_append [mem_simps]:
  "mread (xs @ y # ys) (int (length xs)) = Some y"
  by (simp add: mread_def)

lemma mreads_append [mem_simps]:
  "mreads (xs @ ys @ zs) (int (length xs)) (int (length ys)) = Some ys"
  by (simp add: mreads_def)

lemma mreads_length: "mreads m i n = Some bs \<Longrightarrow> int (length bs) = n"
  by (auto simp: mreads_def split: if_splits)

lemma mwrite_length: "mwrite m i b = Some m' \<Longrightarrow> length m' = length m"
  by (auto simp: mwrite_def split: if_splits)

lemma mwrites_length: "mwrites m i bs = Some m' \<Longrightarrow> length m' = length m"
  by (auto simp: mwrites_def split: if_splits)

lemma mwrites_append [mem_simps]:
  "length zs = length ys \<Longrightarrow>
   mwrites (xs @ zs @ rest) (int (length xs)) ys = Some (xs @ ys @ rest)"
  by (simp add: mwrites_def)

lemma mwrite_append [mem_simps]:
  "mwrite (xs @ z # rest) (int (length xs)) y = Some (xs @ y # rest)"
  by (simp add: mwrite_def)

section \<open>Lemmas on layouts\<close>

lemma length_le_bytes [simp]: "length (le_bytes n w) = n"
  by (induction n arbitrary: w) simp_all

lemma length_be [simp]: "length (be16 x) = 2" "length (be32 y) = 4" "length (le64 z) = 8"
  by (simp_all add: be16_def be32_def le64_def)

text \<open>Reassembling the \<open>n\<close> low bytes of a word gives its \<open>8 * n\<close> low bits.\<close>

lemma of_le_step: "ucast (ucast w :: byte) OR push_bit 8 (take_bit n (drop_bit 8 w)) = take_bit (8 + n) w"
  by (rule bit_word_eqI) (auto simp: bit_simps)

lemma of_le_le_bytes [wire_simps]: "of_le (le_bytes n w) = take_bit (8 * n) w"
proof (induction n arbitrary: w)
  case 0
  show ?case by simp
next
  case (Suc n)
  have "of_le (le_bytes (Suc n) w) = ucast (ucast w :: byte) OR push_bit 8 (take_bit (8 * n) (drop_bit 8 w))"
    by (simp add: Suc.IH)
  also have "\<dots> = take_bit (8 + 8 * n) w"
    by (rule of_le_step)
  finally show ?case by simp
qed

lemma of_be16_be16 [wire_simps]: "of_be16 (be16 w) = Some w"
  by (simp add: be16_def of_be16_def of_le_le_bytes take_bit_word_eq_self)

lemma of_be32_be32 [wire_simps]: "of_be32 (be32 w) = Some w"
  by (simp add: be32_def of_be32_def of_le_le_bytes take_bit_word_eq_self)

lemma of_le64_le64 [wire_simps]: "of_le64 (le64 w) = Some w"
  by (simp add: le64_def of_le64_def of_le_le_bytes take_bit_word_eq_self)

section \<open>Interface: codecs\<close>

text \<open>A codec turns the values it accepts into a wire form that decodes to them.\<close>

locale codec =
  fixes valid :: "'a \<Rightarrow> bool"
    and enc :: "'a \<Rightarrow> 'w"
    and dec :: "'w \<Rightarrow> 'a option"
  assumes dec_enc: "valid x \<Longrightarrow> dec (enc x) = Some x"
begin

lemma enc_inject: "valid x \<Longrightarrow> valid y \<Longrightarrow> enc x = enc y \<Longrightarrow> x = y"
  by (metis dec_enc option.inject)

lemma enc_inj_on: "inj_on enc {x. valid x}"
  by (auto intro!: inj_onI dest: enc_inject)

end

interpretation be32_codec: codec "\<lambda>_. True" be32 of_be32
  by unfold_locales (rule of_be32_be32)

interpretation be16_codec: codec "\<lambda>_. True" be16 of_be16
  by unfold_locales (rule of_be16_be16)

interpretation le64_codec: codec "\<lambda>_. True" le64 of_le64
  by unfold_locales (rule of_le64_le64)

section \<open>Interface: bounded first-in first-out queues\<close>

text \<open>Pushing a list of values, and pulling a given number of them.\<close>

primrec fifo_push_all :: "('q \<Rightarrow> 'a \<Rightarrow> ('q \<times> int) option) \<Rightarrow> 'q \<Rightarrow> 'a list \<Rightarrow> 'q option" where
  "fifo_push_all push q [] = Some q"
| "fifo_push_all push q (x # xs) = Option.bind (push q x) (\<lambda>(q', _). fifo_push_all push q' xs)"

primrec fifo_pull_n ::
  "('q \<Rightarrow> ('q \<times> 'a option \<times> int) option) \<Rightarrow> 'q \<Rightarrow> nat \<Rightarrow> ('q \<times> 'a list) option" where
  "fifo_pull_n pull q 0 = Some (q, [])"
| "fifo_pull_n pull q (Suc n) = Option.bind (pull q) (\<lambda>(q', x, _).
     Option.bind (fifo_pull_n pull q' n) (\<lambda>(q'', xs). Some (q'', (case x of None \<Rightarrow> xs | Some y \<Rightarrow> y # xs))))"

text \<open>A bounded queue over a list of the elements it holds: a push appends while there
  is room and is refused otherwise, a pull takes the oldest element or reports that
  there is none. The return code of both operations is 0 or -1.\<close>

locale bounded_fifo =
  fixes inv :: "'q \<Rightarrow> bool"
    and elems :: "'q \<Rightarrow> 'a list"
    and cap :: nat
    and push :: "'q \<Rightarrow> 'a \<Rightarrow> ('q \<times> int) option"
    and pull :: "'q \<Rightarrow> ('q \<times> 'a option \<times> int) option"
  assumes push_room: "inv q \<Longrightarrow> length (elems q) < cap \<Longrightarrow>
      \<exists>q'. push q x = Some (q', 0) \<and> inv q' \<and> elems q' = elems q @ [x]"
    and push_full: "inv q \<Longrightarrow> length (elems q) \<ge> cap \<Longrightarrow> push q x = Some (q, -1)"
    and pull_some: "inv q \<Longrightarrow> elems q = x # xs \<Longrightarrow>
      \<exists>q'. pull q = Some (q', Some x, 0) \<and> inv q' \<and> elems q' = xs"
    and pull_none: "inv q \<Longrightarrow> elems q = [] \<Longrightarrow> pull q = Some (q, None, -1)"
    and room: "inv q \<Longrightarrow> length (elems q) \<le> cap"
begin

lemma push_all_elems:
  "inv q \<Longrightarrow> length (elems q) + length xs \<le> cap \<Longrightarrow>
   \<exists>q'. fifo_push_all push q xs = Some q' \<and> inv q' \<and> elems q' = elems q @ xs"
proof (induction xs arbitrary: q)
  case Nil
  then show ?case by simp
next
  case (Cons x xs)
  then obtain q1 where q1: "push q x = Some (q1, 0)" "inv q1" "elems q1 = elems q @ [x]"
    using push_room [of q x] by auto
  with Cons.IH [of q1] Cons.prems show ?case by auto
qed

lemma pull_n_elems:
  "inv q \<Longrightarrow> n \<le> length (elems q) \<Longrightarrow>
   \<exists>q'. fifo_pull_n pull q n = Some (q', take n (elems q)) \<and> inv q' \<and> elems q' = drop n (elems q)"
proof (induction n arbitrary: q)
  case 0
  then show ?case by simp
next
  case (Suc n)
  then obtain x xs where xs: "elems q = x # xs" by (cases "elems q") auto
  then obtain q1 where q1: "pull q = Some (q1, Some x, 0)" "inv q1" "elems q1 = xs"
    using pull_some [of q x xs] Suc.prems by auto
  with Suc.IH [of q1] Suc.prems xs show ?case by auto
qed

lemma fifo_order:
  assumes "inv q" "elems q = []" "length xs \<le> cap"
  shows "\<exists>q1 q2. fifo_push_all push q xs = Some q1
    \<and> fifo_pull_n pull q1 (length xs) = Some (q2, xs) \<and> elems q2 = []"
proof -
  obtain q1 where q1: "fifo_push_all push q xs = Some q1" "inv q1" "elems q1 = xs"
    using push_all_elems [of q xs] assms by auto
  with pull_n_elems [of q1 "length xs"] show ?thesis by auto
qed

end

end
