(* ===== verification/Cq_List.thy ===== *)
theory Cq_List
  imports Supex_Prelude
begin

text \<open>
  The cycle queue of the release server (\<^verbatim>\<open>programs/releaseServer/src/cq_list.c\<close>): a ring
  of \<open>CQ_LEN + 1\<close> slots between a producer thread and a worker thread, guarded by a
  compare-and-swap spin lock. The operations are modelled twice: as the functions a
  single thread runs (a spin on a lock nobody releases is \<^term>\<open>None\<close>), and as a step
  relation in which any number of threads interleave at the granularity of the
  shared accesses.
\<close>

section \<open>The queue and its operations\<close>

definition CQ_LEN :: nat where
  "CQ_LEN = 500"

definition CQ_LOCK :: int where
  "CQ_LOCK = 1"

definition CQ_UNLOCK :: int where
  "CQ_UNLOCK = 0"

text \<open>The slots hold \<^verbatim>\<open>void *\<close> values, null in a fresh queue.\<close>

record 'a cq =
  slots :: "'a option list"
  head :: nat
  rear :: nat
  lock :: int

definition cq_zero :: "'a cq" where
  "cq_zero = \<lparr>slots = replicate (CQ_LEN + 1) None, head = 0, rear = 0, lock = 0\<rparr>"

text \<open>\<open>handle\<close> is whether the caller's \<^verbatim>\<open>void **\<close> is non-null, \<open>mem\<close> whether \<^verbatim>\<open>calloc\<close>
  finds memory.\<close>

definition cqu_init :: "bool \<Rightarrow> bool \<Rightarrow> 'a cq option \<times> int" where
  "cqu_init handle mem =
     (if \<not> handle then (None, -1)
      else if \<not> mem then (None, -1)
      else (Some (cq_zero\<lparr>head := 0, rear := 0, lock := 0\<rparr>), 0))"

definition cqu_isempty :: "'a cq \<Rightarrow> int" where
  "cqu_isempty q = (if head q = rear q then 1 else 0)"

definition cqu_isfull :: "'a cq \<Rightarrow> int" where
  "cqu_isfull q = (if (rear q + 1) mod (CQ_LEN + 1) = head q then 1 else 0)"

text \<open>\<^verbatim>\<open>__sync_bool_compare_and_swap(&q->lock, old, new)\<close>.\<close>

definition cas_lock :: "'a cq \<Rightarrow> int \<Rightarrow> int \<Rightarrow> 'a cq \<times> bool" where
  "cas_lock q old new = (if lock q = old then (q\<lparr>lock := new\<rparr>, True) else (q, False))"

definition spin_lock :: "'a cq \<Rightarrow> 'a cq option" where
  "spin_lock q = (case cas_lock q CQ_UNLOCK CQ_LOCK of (q', ok) \<Rightarrow> if ok then Some q' else None)"

definition release_lock :: "'a cq \<Rightarrow> 'a cq option" where
  "release_lock q = (case cas_lock q CQ_LOCK CQ_UNLOCK of (q', ok) \<Rightarrow> if ok then Some q' else None)"

definition cqu_push :: "'a cq \<Rightarrow> 'a \<Rightarrow> ('a cq \<times> int) option" where
  "cqu_push q0 data = do {
     q \<leftarrow> spin_lock q0;
     if cqu_isfull q \<noteq> 0 then do {
       q1 \<leftarrow> release_lock q;
       Some (q1, -1)
     } else do {
       arr \<leftarrow> mwrite (slots q) (int (rear q)) (Some data);
       let q1 = q\<lparr>slots := arr\<rparr>;
       let q2 = q1\<lparr>rear := (rear q1 + 1) mod (CQ_LEN + 1)\<rparr>;
       q3 \<leftarrow> release_lock q2;
       Some (q3, 0)
     }
   }"

text \<open>The out parameter \<^verbatim>\<open>*data\<close> is written only when there is an element.\<close>

definition cqu_pull :: "'a cq \<Rightarrow> ('a cq \<times> 'a option \<times> int) option" where
  "cqu_pull q0 = do {
     q \<leftarrow> spin_lock q0;
     if cqu_isempty q \<noteq> 0 then do {
       q1 \<leftarrow> release_lock q;
       Some (q1, None, -1)
     } else do {
       data \<leftarrow> mread (slots q) (int (head q));
       let q1 = q\<lparr>head := (head q + 1) mod (CQ_LEN + 1)\<rparr>;
       q2 \<leftarrow> release_lock q1;
       Some (q2, data, 0)
     }
   }"

section \<open>Threads interleaving on one queue\<close>

text \<open>
  Program counters inside \<^verbatim>\<open>cqu_push\<close> and \<^verbatim>\<open>cqu_pull\<close>: spinning on the lock, holding it
  before the full or empty test, before the write of the slot, before the update of
  the index, and before the release, with the value to return.
\<close>

datatype 'a cq_pc =
    Idle
  | PushSpin 'a | PushTest 'a | PushStore 'a | PushRear 'a | PushRelease 'a int
  | PullSpin | PullTest | PullLoad | PullHead "'a option" | PullRelease "'a option" int

record ('t, 'a) cq_sys =
  queue :: "'a cq"
  pcs :: "'t \<Rightarrow> 'a cq_pc"
  hist :: "'a list"   \<comment> \<open>accepted pushes not yet pulled, in the order of the index updates\<close>

fun holds_lock :: "'a cq_pc \<Rightarrow> bool" where
  "holds_lock Idle = False"
| "holds_lock (PushSpin _) = False"
| "holds_lock PullSpin = False"
| "holds_lock _ = True"

inductive cq_step :: "('t, 'a) cq_sys \<Rightarrow> ('t, 'a) cq_sys \<Rightarrow> bool" where
  call_push: "pcs s t = Idle \<Longrightarrow> cq_step s (s\<lparr>pcs := (pcs s)(t := PushSpin x)\<rparr>)"
| call_pull: "pcs s t = Idle \<Longrightarrow> cq_step s (s\<lparr>pcs := (pcs s)(t := PullSpin)\<rparr>)"
| spin_push: "pcs s t = PushSpin x \<Longrightarrow> cas_lock (queue s) CQ_UNLOCK CQ_LOCK = (q, False) \<Longrightarrow>
    cq_step s (s\<lparr>queue := q\<rparr>)"
| spin_pull: "pcs s t = PullSpin \<Longrightarrow> cas_lock (queue s) CQ_UNLOCK CQ_LOCK = (q, False) \<Longrightarrow>
    cq_step s (s\<lparr>queue := q\<rparr>)"
| lock_push: "pcs s t = PushSpin x \<Longrightarrow> cas_lock (queue s) CQ_UNLOCK CQ_LOCK = (q, True) \<Longrightarrow>
    cq_step s (s\<lparr>queue := q, pcs := (pcs s)(t := PushTest x)\<rparr>)"
| lock_pull: "pcs s t = PullSpin \<Longrightarrow> cas_lock (queue s) CQ_UNLOCK CQ_LOCK = (q, True) \<Longrightarrow>
    cq_step s (s\<lparr>queue := q, pcs := (pcs s)(t := PullTest)\<rparr>)"
| test_push_full: "pcs s t = PushTest x \<Longrightarrow> cqu_isfull (queue s) \<noteq> 0 \<Longrightarrow>
    cq_step s (s\<lparr>pcs := (pcs s)(t := PushRelease x (-1))\<rparr>)"
| test_push: "pcs s t = PushTest x \<Longrightarrow> cqu_isfull (queue s) = 0 \<Longrightarrow>
    cq_step s (s\<lparr>pcs := (pcs s)(t := PushStore x)\<rparr>)"
| store: "pcs s t = PushStore x \<Longrightarrow>
    mwrite (slots (queue s)) (int (rear (queue s))) (Some x) = Some arr \<Longrightarrow>
    cq_step s (s\<lparr>queue := (queue s)\<lparr>slots := arr\<rparr>, pcs := (pcs s)(t := PushRear x)\<rparr>)"
| advance_rear: "pcs s t = PushRear x \<Longrightarrow>
    cq_step s (s\<lparr>queue := (queue s)\<lparr>rear := (rear (queue s) + 1) mod (CQ_LEN + 1)\<rparr>,
                 pcs := (pcs s)(t := PushRelease x 0), hist := hist s @ [x]\<rparr>)"
| release_push: "pcs s t = PushRelease x r \<Longrightarrow> release_lock (queue s) = Some q \<Longrightarrow>
    cq_step s (s\<lparr>queue := q, pcs := (pcs s)(t := Idle)\<rparr>)"
| test_pull_empty: "pcs s t = PullTest \<Longrightarrow> cqu_isempty (queue s) \<noteq> 0 \<Longrightarrow>
    cq_step s (s\<lparr>pcs := (pcs s)(t := PullRelease None (-1))\<rparr>)"
| test_pull: "pcs s t = PullTest \<Longrightarrow> cqu_isempty (queue s) = 0 \<Longrightarrow>
    cq_step s (s\<lparr>pcs := (pcs s)(t := PullLoad)\<rparr>)"
| load: "pcs s t = PullLoad \<Longrightarrow> mread (slots (queue s)) (int (head (queue s))) = Some d \<Longrightarrow>
    cq_step s (s\<lparr>pcs := (pcs s)(t := PullHead d)\<rparr>)"
| advance_head: "pcs s t = PullHead d \<Longrightarrow>
    cq_step s (s\<lparr>queue := (queue s)\<lparr>head := (head (queue s) + 1) mod (CQ_LEN + 1)\<rparr>,
                 pcs := (pcs s)(t := PullRelease d 0), hist := tl (hist s)\<rparr>)"
| release_pull: "pcs s t = PullRelease d r \<Longrightarrow> release_lock (queue s) = Some q \<Longrightarrow>
    cq_step s (s\<lparr>queue := q, pcs := (pcs s)(t := Idle)\<rparr>)"

definition cq_start :: "('t, 'a) cq_sys" where
  "cq_start = \<lparr>queue = cq_zero, pcs = (\<lambda>_. Idle), hist = []\<rparr>"

inductive cq_reach :: "('t, 'a) cq_sys \<Rightarrow> bool" where
  start: "cq_reach cq_start"
| step: "cq_reach s \<Longrightarrow> cq_step s s' \<Longrightarrow> cq_reach s'"

section \<open>What a queue holds\<close>

definition cq_count :: "'a cq \<Rightarrow> nat" where
  "cq_count q = (rear q + (CQ_LEN + 1) - head q) mod (CQ_LEN + 1)"

definition cq_elems :: "'a cq \<Rightarrow> 'a list" where
  "cq_elems q = map (\<lambda>i. the (slots q ! ((head q + i) mod (CQ_LEN + 1)))) [0..<cq_count q]"

text \<open>Well-formed indices and slots, whatever the lock says.\<close>

definition cq_wf :: "'a cq \<Rightarrow> bool" where
  "cq_wf q \<longleftrightarrow> length (slots q) = CQ_LEN + 1 \<and> head q \<le> CQ_LEN \<and> rear q \<le> CQ_LEN
     \<and> (\<forall>i < cq_count q. slots q ! ((head q + i) mod (CQ_LEN + 1)) \<noteq> None)"

definition cq_inv :: "'a cq \<Rightarrow> bool" where
  "cq_inv q \<longleftrightarrow> cq_wf q \<and> lock q = CQ_UNLOCK"

section \<open>Ring arithmetic\<close>

lemma cq_count_le: "cq_count q \<le> CQ_LEN"
proof -
  have "cq_count q < CQ_LEN + 1" unfolding cq_count_def by (rule mod_less_divisor) simp
  then show ?thesis by simp
qed

lemma cq_count_cases:
  assumes "head q \<le> CQ_LEN" "rear q \<le> CQ_LEN"
  shows "cq_count q = (if head q \<le> rear q then rear q - head q else rear q + CQ_LEN + 1 - head q)"
proof (cases "head q \<le> rear q")
  case True
  then have "rear q + (CQ_LEN + 1) - head q = (rear q - head q) + (CQ_LEN + 1)" by simp
  then have "cq_count q = (rear q - head q) mod (CQ_LEN + 1)"
    by (simp only: cq_count_def mod_add_self2)
  moreover have "(rear q - head q) mod (CQ_LEN + 1) = rear q - head q"
    using assms by (intro mod_less) simp
  ultimately show ?thesis using True by simp
next
  case False
  then show ?thesis using assms by (simp add: cq_count_def)
qed

lemma cq_full_iff:
  assumes "head q \<le> CQ_LEN" "rear q \<le> CQ_LEN"
  shows "cqu_isfull q \<noteq> 0 \<longleftrightarrow> cq_count q = CQ_LEN"
  using assms by (cases "rear q = CQ_LEN") (auto simp: cqu_isfull_def cq_count_cases)

lemma cq_empty_iff:
  assumes "head q \<le> CQ_LEN" "rear q \<le> CQ_LEN"
  shows "cqu_isempty q \<noteq> 0 \<longleftrightarrow> cq_count q = 0"
  using assms by (auto simp: cqu_isempty_def cq_count_cases)

lemma ring_index_rear:
  assumes "head q \<le> CQ_LEN" "rear q \<le> CQ_LEN"
  shows "(head q + cq_count q) mod (CQ_LEN + 1) = rear q"
proof -
  have "(rear q + (CQ_LEN + 1)) mod (CQ_LEN + 1) = rear q"
    using assms by (simp only: mod_add_self2) simp
  then show ?thesis using assms by (auto simp: cq_count_cases)
qed

lemma ring_index_inj:
  assumes "(h + i) mod n = (h + j) mod n" "i < n" "j < n" "h < (n::nat)"
  shows "i = j"
proof -
  have "(int (h + i) - int (h + j)) mod int n = 0"
    using assms(1) by (metis int_ops(9) mod_eq_dvd_iff mod_eq_0_iff_dvd)
  then have "int n dvd int i - int j" by (simp add: mod_eq_0_iff_dvd)
  moreover have "\<bar>int i - int j\<bar> < int n" using assms(2,3) by linarith
  ultimately have "int i - int j = 0" by (metis dvd_imp_le_int abs_of_nat linorder_not_le)
  then show ?thesis by simp
qed

lemma ring_index_ne_rear:
  assumes "head q \<le> CQ_LEN" "rear q \<le> CQ_LEN" "i < cq_count q"
  shows "(head q + i) mod (CQ_LEN + 1) \<noteq> rear q"
proof
  assume eq: "(head q + i) mod (CQ_LEN + 1) = rear q"
  have "i = cq_count q"
  proof (rule ring_index_inj)
    show "(head q + i) mod (CQ_LEN + 1) = (head q + cq_count q) mod (CQ_LEN + 1)"
      using eq ring_index_rear [OF assms(1,2)] by simp
  qed (use assms cq_count_le [of q] in simp_all)
  with assms(3) show False by simp
qed

section \<open>The operations on well-formed queues\<close>

lemma cq_wf_zero: "cq_wf cq_zero"
  by (simp add: cq_wf_def cq_zero_def cq_count_def)

lemma cq_elems_zero [simp]: "cq_elems cq_zero = []"
  by (simp add: cq_elems_def cq_zero_def cq_count_def)

lemma length_cq_elems [simp]: "length (cq_elems q) = cq_count q"
  by (simp add: cq_elems_def)

lemma cq_wf_lock [simp]: "cq_wf (q\<lparr>lock := l\<rparr>) = cq_wf q"
  by (simp add: cq_wf_def cq_count_def)

lemma cq_elems_lock [simp]: "cq_elems (q\<lparr>lock := l\<rparr>) = cq_elems q"
  by (simp add: cq_elems_def cq_count_def)

text \<open>Writing the slot at \<open>rear\<close> is invisible until \<open>rear\<close> moves over it.\<close>

lemma cq_count_slots [simp]: "cq_count (q\<lparr>slots := a\<rparr>) = cq_count q"
  by (simp add: cq_count_def)

lemma cq_store_slot:
  assumes "cq_wf q" "i < cq_count q"
  shows "(slots q)[rear q := v] ! ((head q + i) mod (CQ_LEN + 1)) = slots q ! ((head q + i) mod (CQ_LEN + 1))"
  using assms ring_index_ne_rear [of q i] by (auto simp: cq_wf_def)

lemma cq_store:
  assumes "cq_wf q"
  shows "cq_wf (q\<lparr>slots := (slots q)[rear q := v]\<rparr>)"
    and "cq_elems (q\<lparr>slots := (slots q)[rear q := v]\<rparr>) = cq_elems q"
proof -
  note keep = cq_store_slot [OF assms]
  show "cq_wf (q\<lparr>slots := (slots q)[rear q := v]\<rparr>)"
    using assms keep by (simp add: cq_wf_def)
  show "cq_elems (q\<lparr>slots := (slots q)[rear q := v]\<rparr>) = cq_elems q"
    using keep by (auto simp: cq_elems_def)
qed

lemma cq_count_advance_rear:
  assumes "head q \<le> CQ_LEN" "rear q \<le> CQ_LEN" "cqu_isfull q = 0"
  shows "cq_count (q\<lparr>rear := (rear q + 1) mod (CQ_LEN + 1)\<rparr>) = cq_count q + 1"
  using assms by (cases "rear q = CQ_LEN") (auto simp: cqu_isfull_def cq_count_cases split: if_splits)

lemma cq_advance_rear:
  assumes wf: "cq_wf q" and room: "cqu_isfull q = 0" and slot: "slots q ! rear q = Some x"
  shows "cq_wf (q\<lparr>rear := (rear q + 1) mod (CQ_LEN + 1)\<rparr>)"
    and "cq_elems (q\<lparr>rear := (rear q + 1) mod (CQ_LEN + 1)\<rparr>) = cq_elems q @ [x]"
proof -
  let ?q = "q\<lparr>rear := (rear q + 1) mod (CQ_LEN + 1)\<rparr>"
  have b: "head q \<le> CQ_LEN" "rear q \<le> CQ_LEN" "length (slots q) = CQ_LEN + 1"
    using wf by (simp_all add: cq_wf_def)
  have c: "cq_count ?q = cq_count q + 1" by (rule cq_count_advance_rear [OF b(1,2) room])
  have r: "(head q + cq_count q) mod (CQ_LEN + 1) = rear q" by (rule ring_index_rear [OF b(1,2)])
  have "(rear q + 1) mod (CQ_LEN + 1) < CQ_LEN + 1" by (rule mod_less_divisor) simp
  then show "cq_wf ?q" using wf c r slot by (auto simp: cq_wf_def less_Suc_eq)
  show "cq_elems ?q = cq_elems q @ [x]" using c r slot by (simp add: cq_elems_def)
qed

lemma cq_count_advance_head:
  assumes "head q \<le> CQ_LEN" "rear q \<le> CQ_LEN" "cqu_isempty q = 0"
  shows "cq_count q = Suc (cq_count (q\<lparr>head := (head q + 1) mod (CQ_LEN + 1)\<rparr>))"
  using assms by (cases "head q = CQ_LEN") (auto simp: cqu_isempty_def cq_count_cases split: if_splits)

lemma cq_advance_head:
  assumes wf: "cq_wf q" and some: "cqu_isempty q = 0"
  shows "cq_wf (q\<lparr>head := (head q + 1) mod (CQ_LEN + 1)\<rparr>)"
    and "\<exists>x. slots q ! head q = Some x
      \<and> cq_elems q = x # cq_elems (q\<lparr>head := (head q + 1) mod (CQ_LEN + 1)\<rparr>)"
proof -
  let ?q = "q\<lparr>head := (head q + 1) mod (CQ_LEN + 1)\<rparr>"
  have b: "head q \<le> CQ_LEN" "rear q \<le> CQ_LEN" "length (slots q) = CQ_LEN + 1"
    using wf by (simp_all add: cq_wf_def)
  have c: "cq_count q = Suc (cq_count ?q)" by (rule cq_count_advance_head [OF b(1,2) some])
  have sh: "((head q + 1) mod (CQ_LEN + 1) + i) mod (CQ_LEN + 1) = (head q + Suc i) mod (CQ_LEN + 1)" for i
    by (simp add: mod_simps)
  have "(head q + 1) mod (CQ_LEN + 1) < CQ_LEN + 1" by (rule mod_less_divisor) simp
  moreover have "slots q ! ((head q + Suc i) mod (CQ_LEN + 1)) \<noteq> None" if "i < cq_count ?q" for i
    using wf that c by (auto simp: cq_wf_def)
  ultimately show "cq_wf ?q" using b sh by (auto simp: cq_wf_def)
  have "slots q ! ((head q + 0) mod (CQ_LEN + 1)) \<noteq> None" using wf c by (auto simp: cq_wf_def)
  then obtain x where x: "slots q ! head q = Some x" using b by auto
  have "cq_elems q = the (slots q ! head q) # cq_elems ?q"
    unfolding cq_elems_def c using sh b(1)
    by (simp add: upt_conv_Cons map_Suc_upt [symmetric] comp_def del: upt_Suc map_Suc_upt)
  with x show "\<exists>x. slots q ! head q = Some x \<and> cq_elems q = x # cq_elems ?q" by auto
qed

lemmas cq_lock_defs = spin_lock_def release_lock_def cas_lock_def CQ_LOCK_def CQ_UNLOCK_def

lemma cq_wf_bounds:
  "cq_wf q \<Longrightarrow> head q \<le> CQ_LEN" "cq_wf q \<Longrightarrow> rear q \<le> CQ_LEN" "cq_wf q \<Longrightarrow> length (slots q) = CQ_LEN + 1"
  by (simp_all add: cq_wf_def)

lemma cqu_push_room:
  assumes "cq_inv q" "cq_count q < CQ_LEN"
  shows "\<exists>q'. cqu_push q x = Some (q', 0) \<and> cq_inv q' \<and> cq_elems q' = cq_elems q @ [x]"
proof -
  define q1 where "q1 = q\<lparr>lock := CQ_LOCK\<rparr>"
  define q2 where "q2 = q1\<lparr>slots := (slots q1)[rear q1 := Some x]\<rparr>"
  have wf: "cq_wf q1" using assms(1) by (simp add: cq_inv_def q1_def)
  note b = cq_wf_bounds [OF wf]
  have wf2: "cq_wf q2" and el2: "cq_elems q2 = cq_elems q1"
    unfolding q2_def by (rule cq_store [OF wf])+
  have c2: "cq_count q2 = cq_count q" by (simp add: q2_def q1_def cq_count_def)
  have room: "cqu_isfull q1 = 0" "cqu_isfull q2 = 0"
    using cq_full_iff [OF b(1,2)] cq_full_iff [OF cq_wf_bounds(1,2) [OF wf2]] c2 assms(2)
    by (auto simp: q1_def cq_count_def)
  have slot: "slots q2 ! rear q2 = Some x" using b by (simp add: q2_def)
  note adv = cq_advance_rear [OF wf2 room(2) slot]
  have "cqu_push q x = Some (q2\<lparr>rear := (rear q2 + 1) mod (CQ_LEN + 1), lock := CQ_UNLOCK\<rparr>, 0)"
    using assms(1) room(1) b
    by (simp add: cqu_push_def cq_lock_defs cq_inv_def q1_def q2_def mwrite_def)
  moreover have "cq_elems q1 = cq_elems q" by (simp add: q1_def)
  ultimately show ?thesis using adv el2 by (simp add: cq_inv_def)
qed

lemma cqu_push_full:
  assumes "cq_inv q" "cq_count q \<ge> CQ_LEN"
  shows "cqu_push q x = Some (q, -1)"
proof -
  have "cq_count q = CQ_LEN" using assms(2) cq_count_le [of q] by simp
  then have "cqu_isfull q \<noteq> 0"
    using assms(1) cq_full_iff [of q] by (simp add: cq_inv_def cq_wf_def)
  then show ?thesis
    using assms(1) by (simp add: cqu_push_def cq_lock_defs cq_inv_def cqu_isfull_def)
qed

lemma cqu_pull_some:
  assumes "cq_inv q" "cq_elems q = x # xs"
  shows "\<exists>q'. cqu_pull q = Some (q', Some x, 0) \<and> cq_inv q' \<and> cq_elems q' = xs"
proof -
  define q1 where "q1 = q\<lparr>lock := CQ_LOCK\<rparr>"
  have wf: "cq_wf q1" and el: "cq_elems q1 = x # xs" using assms by (simp_all add: cq_inv_def q1_def)
  note b = cq_wf_bounds [OF wf]
  have "cq_count q1 \<noteq> 0" using el by (metis length_cq_elems length_0_conv list.discI)
  then have some: "cqu_isempty q1 = 0" using cq_empty_iff [OF b(1,2)] by simp
  note adv = cq_advance_head [OF wf some]
  obtain y where y: "slots q1 ! head q1 = Some y"
    "cq_elems q1 = y # cq_elems (q1\<lparr>head := (head q1 + 1) mod (CQ_LEN + 1)\<rparr>)" using adv(2) by blast
  then have yx: "y = x" "cq_elems (q1\<lparr>head := (head q1 + 1) mod (CQ_LEN + 1)\<rparr>) = xs" using el by auto
  have "cqu_pull q = Some (q1\<lparr>head := (head q1 + 1) mod (CQ_LEN + 1), lock := CQ_UNLOCK\<rparr>, Some x, 0)"
    using assms(1) some b y(1) yx(1)
    by (simp add: cqu_pull_def cq_lock_defs cq_inv_def q1_def mread_def)
  then show ?thesis using adv(1) yx by (simp add: cq_inv_def)
qed

lemma cqu_pull_none:
  assumes "cq_inv q" "cq_elems q = []"
  shows "cqu_pull q = Some (q, None, -1)"
proof -
  have "cq_count q = 0" using assms(2) by (metis length_cq_elems list.size(3))
  then have "cqu_isempty q \<noteq> 0"
    using assms(1) cq_empty_iff [of q] by (simp add: cq_inv_def cq_wf_def)
  then show ?thesis
    using assms(1) by (simp add: cqu_pull_def cq_lock_defs cq_inv_def cqu_isempty_def)
qed

interpretation cqf: bounded_fifo cq_inv cq_elems CQ_LEN cqu_push cqu_pull
  by unfold_locales (simp_all add: cqu_push_room cqu_push_full cqu_pull_some cqu_pull_none cq_count_le)

section \<open>The interleaved system\<close>

fun pc_ok :: "'a cq \<Rightarrow> 'a cq_pc \<Rightarrow> bool" where
  "pc_ok q (PushStore x) = (cqu_isfull q = 0)"
| "pc_ok q (PushRear x) = (cqu_isfull q = 0 \<and> slots q ! rear q = Some x)"
| "pc_ok q PullLoad = (cqu_isempty q = 0)"
| "pc_ok q (PullHead d) = (cqu_isempty q = 0 \<and> d = slots q ! head q)"
| "pc_ok q _ = True"

definition cq_sys_inv :: "('t, 'a) cq_sys \<Rightarrow> bool" where
  "cq_sys_inv s \<longleftrightarrow> cq_wf (queue s) \<and> hist s = cq_elems (queue s)
     \<and> lock (queue s) \<in> {0, 1} \<and> (lock (queue s) = 1 \<longleftrightarrow> (\<exists>t. holds_lock (pcs s t)))
     \<and> (\<forall>t u. holds_lock (pcs s t) \<longrightarrow> holds_lock (pcs s u) \<longrightarrow> t = u)
     \<and> (\<forall>t. pc_ok (queue s) (pcs s t))"

lemma pc_ok_idle: "\<not> holds_lock pc \<Longrightarrow> pc_ok q pc"
  by (cases pc) auto

lemma pc_ok_lock [simp]: "pc_ok (q\<lparr>lock := l\<rparr>) pc = pc_ok q pc"
  by (cases pc) (auto simp: cqu_isfull_def cqu_isempty_def)

lemma cq_sys_inv_start: "cq_sys_inv cq_start"
  by (simp add: cq_sys_inv_def cq_start_def cq_wf_zero) (simp add: cq_zero_def)

text \<open>A step of the thread that holds the lock: the others do not, so the invariant
  only has to be shown again for the queue and for the thread that moved.\<close>

lemma cq_inv_holder_step:
  assumes "cq_sys_inv s" "holds_lock (pcs s t)" "holds_lock pc'"
    and "cq_wf q'" "h' = cq_elems q'" "lock q' = lock (queue s)" "pc_ok q' pc'"
  shows "cq_sys_inv (s\<lparr>queue := q', pcs := (pcs s)(t := pc'), hist := h'\<rparr>)"
proof -
  have only: "\<not> holds_lock (pcs s u)" if "u \<noteq> t" for u
    using assms(1,2) that unfolding cq_sys_inv_def by blast
  have "lock (queue s) = 1" using assms(1,2) by (auto simp: cq_sys_inv_def)
  then show ?thesis using assms only pc_ok_idle by (auto simp: cq_sys_inv_def)
qed

lemma cq_inv_release:
  assumes "cq_sys_inv s" "holds_lock (pcs s t)" "release_lock (queue s) = Some q"
  shows "cq_sys_inv (s\<lparr>queue := q, pcs := (pcs s)(t := Idle)\<rparr>)"
proof -
  have only: "\<not> holds_lock (pcs s u)" if "u \<noteq> t" for u
    using assms(1,2) that unfolding cq_sys_inv_def by blast
  have "q = (queue s)\<lparr>lock := 0\<rparr>"
    using assms(3) by (auto simp: cq_lock_defs split: if_splits)
  then show ?thesis using assms(1,2) only pc_ok_idle by (auto simp: cq_sys_inv_def)
qed

lemma cq_inv_acquire:
  assumes "cq_sys_inv s" "cas_lock (queue s) CQ_UNLOCK CQ_LOCK = (q, True)"
    and "holds_lock pc'" "\<And>q'. pc_ok q' pc'"
  shows "cq_sys_inv (s\<lparr>queue := q, pcs := (pcs s)(t := pc')\<rparr>)"
proof -
  have q: "q = (queue s)\<lparr>lock := 1\<rparr>" "lock (queue s) = 0"
    using assms(2) by (auto simp: cq_lock_defs split: if_splits)
  then have "\<not> holds_lock (pcs s u)" for u using assms(1) by (auto simp: cq_sys_inv_def)
  with q assms(1,3,4) show ?thesis by (auto simp: cq_sys_inv_def)
qed

lemma cq_inv_move:
  assumes "cq_sys_inv s" "holds_lock (pcs s t)" "holds_lock pc'" "pc_ok (queue s) pc'"
  shows "cq_sys_inv (s\<lparr>pcs := (pcs s)(t := pc')\<rparr>)"
proof -
  have "cq_wf (queue s)" "hist s = cq_elems (queue s)" using assms(1) by (simp_all add: cq_sys_inv_def)
  then have "cq_sys_inv (s\<lparr>queue := queue s, pcs := (pcs s)(t := pc'), hist := hist s\<rparr>)"
    by (intro cq_inv_holder_step [OF assms(1,2,3)] refl assms(4))
  then show ?thesis by simp
qed

lemma cq_inv_unlocked_move:
  assumes "cq_sys_inv s" "\<not> holds_lock (pcs s t)" "\<not> holds_lock pc'"
  shows "cq_sys_inv (s\<lparr>pcs := (pcs s)(t := pc')\<rparr>)"
proof -
  have "holds_lock (((pcs s)(t := pc')) u) = holds_lock (pcs s u)" for u
    using assms(2,3) by simp
  then show ?thesis using assms(1) pc_ok_idle [OF assms(3)]
    by (simp add: cq_sys_inv_def del: fun_upd_apply) auto
qed

lemma cq_step_inv: "cq_step s s' \<Longrightarrow> cq_sys_inv s \<Longrightarrow> cq_sys_inv s'"
proof (induction rule: cq_step.induct)
  case (call_push s t x)
  then show ?case by (intro cq_inv_unlocked_move) auto
next
  case (call_pull s t)
  then show ?case by (intro cq_inv_unlocked_move) auto
next
  case (spin_push s t x q)
  then have "q = queue s" by (auto simp: cas_lock_def split: if_splits)
  with spin_push show ?case by simp
next
  case (spin_pull s t q)
  then have "q = queue s" by (auto simp: cas_lock_def split: if_splits)
  with spin_pull show ?case by simp
next
  case (store s t x arr)
  have wf: "cq_wf (queue s)" and room: "cqu_isfull (queue s) = 0"
    using store by (auto simp: cq_sys_inv_def dest: spec [of _ t])
  have arr: "arr = (slots (queue s))[rear (queue s) := Some x]"
    using store.hyps(2) by (auto simp: mwrite_def split: if_splits)
  let ?q = "(queue s)\<lparr>slots := arr\<rparr>"
  have "cq_sys_inv (s\<lparr>queue := ?q, pcs := (pcs s)(t := PushRear x), hist := hist s\<rparr>)"
    using store cq_store [OF wf, of "Some x"] cq_wf_bounds [OF wf] room
    by (intro cq_inv_holder_step) (auto simp: arr cq_sys_inv_def cqu_isfull_def)
  then show ?case by simp
next
  case (advance_rear s t x)
  have wf: "cq_wf (queue s)" and room: "cqu_isfull (queue s) = 0"
    and slot: "slots (queue s) ! rear (queue s) = Some x"
    using advance_rear by (auto simp: cq_sys_inv_def dest: spec [of _ t])
  show ?case
    using advance_rear cq_advance_rear [OF wf room slot]
    by (intro cq_inv_holder_step) (auto simp: cq_sys_inv_def)
next
  case (advance_head s t d)
  have wf: "cq_wf (queue s)" and some: "cqu_isempty (queue s) = 0"
    using advance_head by (auto simp: cq_sys_inv_def dest: spec [of _ t])
  show ?case
    using advance_head cq_advance_head [OF wf some]
    by (intro cq_inv_holder_step) (auto simp: cq_sys_inv_def)
next
  case (load s t d)
  have "cqu_isempty (queue s) = 0" using load by (auto simp: cq_sys_inv_def dest: spec [of _ t])
  with load show ?case by (intro cq_inv_move) (auto simp: mread_def split: if_splits)
qed (auto intro!: cq_inv_release cq_inv_acquire cq_inv_move)

lemma cq_reach_inv: "cq_reach s \<Longrightarrow> cq_sys_inv s"
  by (induction rule: cq_reach.induct) (auto intro: cq_sys_inv_start cq_step_inv)

section \<open>Properties\<close>

lemma cqu_init_ok: "cqu_init True True = (Some cq_zero, 0)"
  by (simp add: cqu_init_def cq_zero_def)

lemma cq_inv_zero: "cq_inv cq_zero"
  by (simp add: cq_inv_def cq_wf_zero) (simp add: cq_zero_def CQ_UNLOCK_def)

text \<open>the queue a successful \<^verbatim>\<open>cqu_init\<close> hands out is first-in first-out: any list of at
  most \<open>CQ_LEN\<close> values pushed into it one after the other is pulled out again in the
  same order, every call returns, and the queue is empty afterwards.\<close>

lemma cq_fifo:
  assumes "cqu_init True True = (Some q, r)" and "length xs \<le> CQ_LEN"
  shows "\<exists>q1 q2. fifo_push_all cqu_push q xs = Some q1
    \<and> fifo_pull_n cqu_pull q1 (length xs) = Some (q2, xs) \<and> cq_elems q2 = []"
  using assms by (intro cqf.fifo_order) (auto simp: cqu_init_ok cq_inv_zero)

lemma cq_fifo_witness:
  "\<exists>q1 q2. fifo_push_all cqu_push cq_zero [7, 8, 9::int] = Some q1
    \<and> fifo_pull_n cqu_pull q1 (length [7, 8, 9::int]) = Some (q2, [7, 8, 9]) \<and> cq_elems q2 = []"
  by (rule cq_fifo [OF cqu_init_ok]) (simp add: CQ_LEN_def)

text \<open>C29: however the threads interleave, at most one of them is inside the critical
  section, the queue holds exactly the accepted and not yet pulled values in order,
  it never holds more than \<open>CQ_LEN\<close> of them, and the value a pull has loaded is the
  oldest one.\<close>

theorem cq_interleaving_safe:
  assumes "cq_reach s"
  shows "(\<forall>t u. holds_lock (pcs s t) \<and> holds_lock (pcs s u) \<longrightarrow> t = u)
    \<and> cq_elems (queue s) = hist s \<and> length (hist s) \<le> CQ_LEN
    \<and> (\<forall>t d. pcs s t = PullHead d \<longrightarrow> (\<exists>x xs. d = Some x \<and> hist s = x # xs))"
proof -
  have inv: "cq_sys_inv s" using assms by (rule cq_reach_inv)
  have "\<exists>x xs. d = Some x \<and> hist s = x # xs" if "pcs s t = PullHead d" for t d
  proof -
    have "cqu_isempty (queue s) = 0" "d = slots (queue s) ! head (queue s)" "cq_wf (queue s)"
      using inv that by (auto simp: cq_sys_inv_def dest: spec [of _ t])
    then show ?thesis using cq_advance_head(2) [of "queue s"] inv by (auto simp: cq_sys_inv_def)
  qed
  then show ?thesis using inv cq_count_le [of "queue s"] by (auto simp: cq_sys_inv_def)
qed

definition cq_demo :: "(nat, int) cq_sys" where
  "cq_demo = cq_start\<lparr>queue := cq_zero\<lparr>lock := 1\<rparr>, pcs := (\<lambda>_. Idle)(0 := PushTest 5)\<rparr>"

lemma cq_demo_reach: "cq_reach cq_demo"
proof -
  have 1: "cq_reach (cq_start\<lparr>pcs := (pcs cq_start)(0 := PushSpin (5::int))\<rparr> :: (nat, int) cq_sys)"
    by (rule cq_reach.step [OF cq_reach.start call_push]) (simp add: cq_start_def)
  have "cq_step (cq_start\<lparr>pcs := (pcs cq_start)(0 := PushSpin 5)\<rparr>) cq_demo"
  proof -
    have "cas_lock (queue (cq_start\<lparr>pcs := (pcs cq_start)(0 := PushSpin 5)\<rparr> :: (nat, int) cq_sys)) CQ_UNLOCK CQ_LOCK
        = (cq_zero\<lparr>lock := 1\<rparr>, True)"
      by (simp add: cq_start_def cas_lock_def CQ_LOCK_def CQ_UNLOCK_def cq_zero_def)
    from lock_push [OF _ this, of 0 5] show ?thesis by (simp add: cq_demo_def cq_start_def)
  qed
  with 1 show ?thesis by (rule cq_reach.step)
qed

theorem cq_interleaving_safe_witness:
  "cq_reach cq_demo \<and> cq_elems (queue cq_demo) = hist cq_demo \<and> length (hist cq_demo) \<le> CQ_LEN"
  using cq_interleaving_safe [OF cq_demo_reach] cq_demo_reach by blast

text \<open>a thread that holds the lock is never stuck: it always has a step of its own
  (the slot it reads or writes exists, and the assertion on the release of the lock
  holds).\<close>

lemma cq_holder_progress:
  assumes "cq_reach s" and "holds_lock (pcs s t)"
  shows "\<exists>s'. cq_step s s' \<and> pcs s' t \<noteq> pcs s t"
proof -
  have inv: "cq_sys_inv s" using assms(1) by (rule cq_reach_inv)
  then have b: "head (queue s) \<le> CQ_LEN" "rear (queue s) \<le> CQ_LEN" "length (slots (queue s)) = CQ_LEN + 1"
    by (auto simp: cq_sys_inv_def cq_wf_def)
  have "lock (queue s) = 1" using inv assms(2) by (auto simp: cq_sys_inv_def)
  then obtain q where q: "release_lock (queue s) = Some q" by (simp add: cq_lock_defs)
  have st: "mwrite (slots (queue s)) (int (rear (queue s))) v \<noteq> None"
    and ld: "mread (slots (queue s)) (int (head (queue s))) \<noteq> None" for v
    using b by (simp_all add: mwrite_def mread_def)
  show ?thesis
  proof (cases "pcs s t")
    case (PushTest x)
    then show ?thesis using test_push [OF PushTest] test_push_full [OF PushTest]
      by (cases "cqu_isfull (queue s) = 0") fastforce+
  next
    case (PushStore x)
    obtain arr where "mwrite (slots (queue s)) (int (rear (queue s))) (Some x) = Some arr" using st by auto
    from store [OF PushStore this] PushStore show ?thesis by fastforce
  next
    case (PushRear x)
    from advance_rear [OF this] PushRear show ?thesis by fastforce
  next
    case (PushRelease x r)
    from release_push [OF this q] PushRelease show ?thesis by fastforce
  next
    case PullTest
    then show ?thesis using test_pull [OF PullTest] test_pull_empty [OF PullTest]
      by (cases "cqu_isempty (queue s) = 0") fastforce+
  next
    case PullLoad
    obtain d where "mread (slots (queue s)) (int (head (queue s))) = Some d" using ld by auto
    from load [OF PullLoad this] PullLoad show ?thesis by fastforce
  next
    case (PullHead d)
    from advance_head [OF this] PullHead show ?thesis by fastforce
  next
    case (PullRelease d r)
    from release_pull [OF this q] PullRelease show ?thesis by fastforce
  qed (use assms(2) in simp_all)
qed

lemma cq_holder_progress_witness: "\<exists>s'. cq_step cq_demo s' \<and> pcs s' 0 \<noteq> pcs cq_demo 0"
  by (rule cq_holder_progress [OF cq_demo_reach]) (simp add: cq_demo_def)

end
