(* ===== verification/Mfptp_Utils.thy ===== *)
theory Mfptp_Utils
  imports Supex_Prelude
begin

text \<open>
  The cipher and compression wrappers of the MFPTP library
  (\<^verbatim>\<open>lib/libmfptp/mfptp_utils.c\<close>). OpenSSL and zlib are not part of the repository: the
  calls the wrappers make on them are the fields of two records, \<open>evp\<close> and \<open>zlib\<close>, that
  every definition takes as a parameter. What the code relies on is stated as the
  predicates \<open>evp_roundtrip\<close> and \<open>zlib_roundtrip\<close>: decrypting with the key the data was
  encrypted with, and inflating what was deflated, give the data back.
\<close>

section \<open>The libraries the wrappers call\<close>

datatype cipher = EVP_aes_128_ecb | EVP_idea_ecb

text \<open>An update call takes the bytes the input pointer points to and the length argument;
  it returns the context, the bytes written at the output pointer (whose number is
  stored through \<^verbatim>\<open>outl\<close>) and the status.\<close>

record 'x evp =
  EVP_EncryptInit_ex :: "cipher \<Rightarrow> bytes \<Rightarrow> 'x"
  EVP_EncryptUpdate :: "'x \<Rightarrow> bytes \<Rightarrow> int \<Rightarrow> 'x \<times> bytes \<times> int"
  EVP_EncryptFinal_ex :: "'x \<Rightarrow> bytes \<times> int"
  EVP_DecryptInit_ex :: "cipher \<Rightarrow> bytes \<Rightarrow> 'x"
  EVP_DecryptUpdate :: "'x \<Rightarrow> bytes \<Rightarrow> int \<Rightarrow> 'x \<times> bytes \<times> int"
  EVP_DecryptFinal_ex :: "'x \<Rightarrow> bytes \<times> int"

definition Z_OK :: int where "Z_OK = 0"

definition Z_STREAM_END :: int where "Z_STREAM_END = 1"

definition MAX_WBITS :: int where "MAX_WBITS = 15"

definition Z_DEFAULT_STRATEGY :: int where "Z_DEFAULT_STRATEGY = 0"

text \<open>A stream call takes the input bytes, the length put in \<^verbatim>\<open>avail_in\<close> and the room put in
  \<^verbatim>\<open>avail_out\<close>, and returns the stream, the output bytes (\<^verbatim>\<open>total_out\<close> is their number) and
  the status. The window bits select the container: plain bits the zlib one, sixteen
  more the gzip one.\<close>

record 'z zlib =
  deflateInit :: "int \<Rightarrow> 'z \<times> int"
  deflateInit2 :: "int \<Rightarrow> int \<Rightarrow> int \<Rightarrow> int \<Rightarrow> int \<Rightarrow> 'z \<times> int"
  deflate :: "'z \<Rightarrow> bytes \<Rightarrow> int \<Rightarrow> int \<Rightarrow> 'z \<times> bytes \<times> int"
  deflateEnd :: "'z \<Rightarrow> int"
  inflateInit :: "'z \<times> int"
  inflateInit2 :: "int \<Rightarrow> 'z \<times> int"
  inflate :: "'z \<Rightarrow> bytes \<Rightarrow> int \<Rightarrow> int \<Rightarrow> 'z \<times> bytes \<times> int"
  inflateEnd :: "'z \<Rightarrow> int"

section \<open>Cipher wrappers\<close>

text \<open>Each wrapper returns its C return value and the bytes it left in the output buffer.
  The key length argument is not used by the code.\<close>

definition mfptp_aes_ecb_encrypt_evp :: "'x evp \<Rightarrow> bytes \<Rightarrow> bytes \<Rightarrow> int \<Rightarrow> int \<times> bytes" where
  "mfptp_aes_ecb_encrypt_evp ssl key crypted len =
     (let ctx = EVP_EncryptInit_ex ssl EVP_aes_128_ecb key;
          (ctx1, out1, rv1) = EVP_EncryptUpdate ssl ctx crypted len
      in if rv1 \<noteq> 1 then (-1, out1)
         else let (out2, rv2) = EVP_EncryptFinal_ex ssl ctx1
              in if rv2 \<noteq> 1 then (-1, out1 @ out2)
                 else (int (length out1) + int (length out2), out1 @ out2))"

definition mfptp_aes_ecb_decrypt_evp :: "'x evp \<Rightarrow> bytes \<Rightarrow> bytes \<Rightarrow> int \<Rightarrow> int \<times> bytes" where
  "mfptp_aes_ecb_decrypt_evp ssl key crypted len =
     (let ctx = EVP_DecryptInit_ex ssl EVP_aes_128_ecb key;
          (ctx1, out1, rv1) = EVP_DecryptUpdate ssl ctx crypted len
      in if rv1 \<noteq> 1 then (-1, out1)
         else let (out2, rv2) = EVP_DecryptFinal_ex ssl ctx1
              in if rv2 \<noteq> 1 then (-1, out1 @ out2)
                 else (int (length out1) + int (length out2), out1 @ out2))"

definition mfptp_idea_ecb_encrypt_evp :: "'x evp \<Rightarrow> bytes \<Rightarrow> bytes \<Rightarrow> int \<Rightarrow> int \<times> bytes" where
  "mfptp_idea_ecb_encrypt_evp ssl key crypted len =
     (let ctx = EVP_EncryptInit_ex ssl EVP_idea_ecb key;
          (ctx1, out1, rv1) = EVP_EncryptUpdate ssl ctx crypted len
      in if rv1 \<noteq> 1 then (-1, out1)
         else let (out2, rv2) = EVP_EncryptFinal_ex ssl ctx1
              in if rv2 \<noteq> 1 then (-1, out1 @ out2)
                 else (int (length out1) + int (length out2), out1 @ out2))"

definition mfptp_idea_ecb_decrypt_evp :: "'x evp \<Rightarrow> bytes \<Rightarrow> bytes \<Rightarrow> int \<Rightarrow> int \<times> bytes" where
  "mfptp_idea_ecb_decrypt_evp ssl key crypted len =
     (let ctx = EVP_DecryptInit_ex ssl EVP_idea_ecb key;
          (ctx1, out1, rv1) = EVP_DecryptUpdate ssl ctx crypted len
      in if rv1 \<noteq> 1 then (-1, out1)
         else let (out2, rv2) = EVP_DecryptFinal_ex ssl ctx1
              in if rv2 \<noteq> 1 then (-1, out1 @ out2)
                 else (int (length out1) + int (length out2), out1 @ out2))"

section \<open>Compression wrappers\<close>

definition mfptp_ungzip :: "'z zlib \<Rightarrow> bytes \<Rightarrow> int \<Rightarrow> int \<Rightarrow> int \<times> bytes" where
  "mfptp_ungzip zl gz_buf gzlen ungz_buf_len =
     (let (s, rc) = inflateInit zl
      in if rc \<noteq> Z_OK then (-1, [])
         else let (s1, out, rc1) = inflate zl s gz_buf gzlen ungz_buf_len
              in if rc1 \<noteq> Z_STREAM_END then (-1, out)
                 else if inflateEnd zl s1 \<noteq> Z_OK then (-1, out)
                 else (int (length out), out))"

definition mfptp_gzip :: "'z zlib \<Rightarrow> int \<Rightarrow> bytes \<Rightarrow> int \<Rightarrow> int \<times> bytes" where
  "mfptp_gzip zl len_def buf_undef len_undef =
     (let (s, rc) = deflateInit zl 6
      in if rc \<noteq> Z_OK then (-1, [])
         else let (s1, out, rc1) = deflate zl s buf_undef len_undef len_def
              in if rc1 \<noteq> Z_STREAM_END then (-1, out)
                 else if deflateEnd zl s1 \<noteq> Z_OK then (-1, out)
                 else (int (length out), out))"

definition mfptp_unzip :: "'z zlib \<Rightarrow> bytes \<Rightarrow> int \<Rightarrow> int \<Rightarrow> int \<times> bytes" where
  "mfptp_unzip zl z_buf zlen unz_buf_len =
     (let (s, rc) = inflateInit2 zl (MAX_WBITS + 16)
      in if rc \<noteq> Z_OK then (-1, [])
         else let (s1, out, rc1) = inflate zl s z_buf zlen unz_buf_len
              in if rc1 \<noteq> Z_STREAM_END then (-1, out)
                 else if inflateEnd zl s1 \<noteq> Z_OK then (-1, out)
                 else (int (length out), out))"

definition mfptp_zip :: "'z zlib \<Rightarrow> int \<Rightarrow> bytes \<Rightarrow> int \<Rightarrow> int \<times> bytes" where
  "mfptp_zip zl len_def buf_undef len_undef =
     (let (s, rc) = deflateInit2 zl 6 8 (MAX_WBITS + 16) 8 Z_DEFAULT_STRATEGY
      in if rc \<noteq> Z_OK then (-1, [])
         else let (s1, out, rc1) = deflate zl s buf_undef len_undef len_def
              in if rc1 \<noteq> Z_STREAM_END then (-1, out)
                 else if deflateEnd zl s1 \<noteq> Z_OK then (-1, out)
                 else (int (length out), out))"

section \<open>The session key\<close>

text \<open>\<open>rnd\<close> is what \<^verbatim>\<open>RAND_bytes(key, 16)\<close> returns and writes, \<open>rands\<close> the values of the
  sixteen calls of \<^verbatim>\<open>rand()\<close> the fallback makes.\<close>

definition mfptp_set_user_secret_key :: "int \<times> bytes \<Rightarrow> int list \<Rightarrow> bytes \<Rightarrow> bytes option" where
  "mfptp_set_user_secret_key rnd rands key =
     (if fst rnd = 1 then mwrites key 0 (take 16 (snd rnd))
      else mwrites key 0 (map (\<lambda>r. word_of_int (r mod 255)) (take 16 rands)))"

section \<open>What the libraries document\<close>

definition evp_roundtrip :: "'x evp \<Rightarrow> cipher \<Rightarrow> bytes \<Rightarrow> bytes \<Rightarrow> bool" where
  "evp_roundtrip ssl c key data \<longleftrightarrow>
     (let (e1, o1, r1) = EVP_EncryptUpdate ssl (EVP_EncryptInit_ex ssl c key) data (int (length data));
          (o2, r2) = EVP_EncryptFinal_ex ssl e1;
          (d1, p1, q1) = EVP_DecryptUpdate ssl (EVP_DecryptInit_ex ssl c key) (o1 @ o2) (int (length (o1 @ o2)));
          (p2, q2) = EVP_DecryptFinal_ex ssl d1
      in r1 = 1 \<and> r2 = 1 \<and> q1 = 1 \<and> q2 = 1 \<and> p1 @ p2 = data)"

text \<open>For one container (given by the results of the two initialisation calls): the stream
  fits the room, and inflating it with the same room gives the data back.\<close>

definition zlib_roundtrip :: "'z zlib \<Rightarrow> 'z \<times> int \<Rightarrow> 'z \<times> int \<Rightarrow> int \<Rightarrow> bytes \<Rightarrow> bool" where
  "zlib_roundtrip zl di ii room data \<longleftrightarrow>
     snd di = Z_OK \<and> snd ii = Z_OK \<and>
     (let (s1, o1, r1) = deflate zl (fst di) data (int (length data)) room;
          (s2, o2, r2) = inflate zl (fst ii) o1 (int (length o1)) room
      in r1 = Z_STREAM_END \<and> deflateEnd zl s1 = Z_OK \<and> int (length o1) \<le> room
         \<and> r2 = Z_STREAM_END \<and> inflateEnd zl s2 = Z_OK \<and> o2 = data)"

section \<open>The wrappers undo each other\<close>

lemma aes_undo:
  assumes "evp_roundtrip ssl EVP_aes_128_ecb key data"
    and "mfptp_aes_ecb_encrypt_evp ssl key data (int (length data)) = (n, out)"
  shows "n = int (length out) \<and> mfptp_aes_ecb_decrypt_evp ssl key out n = (int (length data), data)"
  using assms
  by (auto simp: evp_roundtrip_def mfptp_aes_ecb_encrypt_evp_def mfptp_aes_ecb_decrypt_evp_def
      Let_def split: prod.splits if_splits)

lemma idea_undo:
  assumes "evp_roundtrip ssl EVP_idea_ecb key data"
    and "mfptp_idea_ecb_encrypt_evp ssl key data (int (length data)) = (n, out)"
  shows "n = int (length out) \<and> mfptp_idea_ecb_decrypt_evp ssl key out n = (int (length data), data)"
  using assms
  by (auto simp: evp_roundtrip_def mfptp_idea_ecb_encrypt_evp_def mfptp_idea_ecb_decrypt_evp_def
      Let_def split: prod.splits if_splits)

lemma gzip_undo:
  assumes "zlib_roundtrip zl (deflateInit zl 6) (inflateInit zl) room data"
    and "mfptp_gzip zl room data (int (length data)) = (n, out)"
  shows "n = int (length out) \<and> n \<le> room \<and> mfptp_ungzip zl out n room = (int (length data), data)"
  using assms
  by (auto simp: zlib_roundtrip_def mfptp_gzip_def mfptp_ungzip_def Let_def split: prod.splits if_splits)

lemma zip_undo:
  assumes "zlib_roundtrip zl (deflateInit2 zl 6 8 (MAX_WBITS + 16) 8 Z_DEFAULT_STRATEGY) (inflateInit2 zl (MAX_WBITS + 16)) room data"
    and "mfptp_zip zl room data (int (length data)) = (n, out)"
  shows "n = int (length out) \<and> n \<le> room \<and> mfptp_unzip zl out n room = (int (length data), data)"
  using assms
  by (auto simp: zlib_roundtrip_def mfptp_zip_def mfptp_unzip_def Let_def split: prod.splits if_splits)

lemma secret_key_length: "mfptp_set_user_secret_key rnd rands key = Some key' \<Longrightarrow> length key' = length key"
  by (auto simp: mfptp_set_user_secret_key_def split: if_splits dest: mwrites_length)

end
