(* ===== verification/Mfptp_Pack.thy ===== *)
theory Mfptp_Pack
  imports Mfptp_Utils
begin

text \<open>
  The packing half of the MFPTP library (\<^verbatim>\<open>lib/libmfptp/mfptp_pack.c\<close>): the message header
  and the frames of a message are written into a caller's buffer, either call by call
  at an offset the control structure keeps (\<^verbatim>\<open>mfptp_pack_frames_with_packages\<close>) or with the
  offset left to the caller (\<^verbatim>\<open>mfptp_pack_hdr\<close>, \<^verbatim>\<open>mfptp_pack_frame\<close>). A write outside the
  destination or the scratch buffers is \<^term>\<open>None\<close>.
\<close>

section \<open>Control structure\<close>

definition MFPTP_PACK_INIT :: int where "MFPTP_PACK_INIT = 0"
definition MFPTP_PACK_HEAD :: int where "MFPTP_PACK_HEAD = 1"
definition MFPTP_PACK_PACKAGE :: int where "MFPTP_PACK_PACKAGE = 2"
definition MFPTP_PACK_OVER :: int where "MFPTP_PACK_OVER = 3"
definition MFPTP_PACK_ERROR :: int where "MFPTP_PACK_ERROR = 4"

definition MFPTP_FRAME_MAX_LEN :: int where "MFPTP_FRAME_MAX_LEN = 1024 * 1024 * 6"

record mfptp_pack =
  pk_version :: int
  pk_sub_version :: int
  pk_method :: byte
  pk_compress :: byte
  pk_encrypt :: byte
  pk_packages :: byte
  pk_step :: int
  pk_doptr :: int
  pk_index :: int
  pk_key :: bytes

text \<open>What a call depends on besides its arguments: the two libraries and whether its two
  allocations succeed.\<close>

record ('x, 'z) mfptp_env =
  env_ssl :: "'x evp"
  env_zlib :: "'z zlib"
  env_malloc1 :: bool
  env_malloc2 :: bool

definition mfptp_pack_len :: "int \<Rightarrow> int" where
  "mfptp_pack_len len = s32 (len + 128)"

definition mfptp_init_pack_info :: "mfptp_pack \<Rightarrow> mfptp_pack" where
  "mfptp_init_pack_info p = p\<lparr>pk_compress := 0, pk_encrypt := 0, pk_method := 0, pk_packages := 0,
     pk_sub_version := 0, pk_version := 0, pk_step := 0, pk_doptr := 0\<rparr>"

definition mfptp_pack_set_packages :: "int \<Rightarrow> mfptp_pack \<Rightarrow> mfptp_pack" where
  "mfptp_pack_set_packages count p = p\<lparr>pk_packages := word_of_int count\<rparr>"

section \<open>Header bytes\<close>

definition mfptp_magic :: bytes where
  "mfptp_magic = [0x23, 0x4D, 0x46, 0x50, 0x54, 0x50]"   \<comment> \<open>\<^verbatim>\<open>#MFPTP\<close>\<close>

text \<open>The compression and the encryption code share one byte, as do the two halves of
  the version.\<close>

definition pack_compress_byte :: "mfptp_pack \<Rightarrow> byte" where
  "pack_compress_byte p =
     (let p_compress = push_bit 4 (pk_compress p) OR 0x0f;
          encry = pk_encrypt p OR 0xf0
      in p_compress AND encry)"

definition pack_version_byte :: "mfptp_pack \<Rightarrow> byte" where
  "pack_version_byte p =
     (let p_version = push_bit 4 (word_of_int (pk_version p)) OR 0x0f;
          ver = (pk_sub_version p) OR 0xf0
      in p_version AND word_of_int ver)"

section \<open>Frames\<close>

text \<open>\<open>byte_of_int k x\<close> is byte \<open>k\<close> of the little-endian representation of an \<^verbatim>\<open>int\<close>, the
  \<^verbatim>\<open>*(p + k)\<close> of the source.\<close>

definition byte_of_int :: "nat \<Rightarrow> int \<Rightarrow> byte" where
  "byte_of_int k x = word_of_int (x div 2 ^ (8 * k))"

text \<open>Compression, then encryption, through the scratch buffers \<^verbatim>\<open>buf\<close> and \<^verbatim>\<open>buf1\<close> of
  \<open>MFPTP_FRAME_MAX_LEN\<close> bytes: the resulting length and the bytes of \<^verbatim>\<open>buf1\<close>.\<close>

definition scratch_copy :: "bytes \<Rightarrow> int \<Rightarrow> bytes option" where
  "scratch_copy src n = do { asserting (n \<le> MFPTP_FRAME_MAX_LEN); mreads src 0 n }"

text \<open>The ciphers are not told the size of \<^verbatim>\<open>buf1\<close>: output of more than \<open>MFPTP_FRAME_MAX_LEN\<close> bytes
  is written past its end.\<close>

definition scratch_fits :: "int \<times> bytes \<Rightarrow> (int \<times> bytes) option" where
  "scratch_fits r = do { asserting (int (length (snd r)) \<le> MFPTP_FRAME_MAX_LEN); Some r }"

definition pack_payload :: "('x, 'z) mfptp_env \<Rightarrow> mfptp_pack \<Rightarrow> bytes \<Rightarrow> int \<Rightarrow> (int \<times> bytes) option" where
  "pack_payload env p src len = do {
     (de_len, buf) \<leftarrow>
       (if pk_compress p = 2 then Some (mfptp_gzip (env_zlib env) MFPTP_FRAME_MAX_LEN src len)
        else if pk_compress p = 1 then Some (mfptp_zip (env_zlib env) MFPTP_FRAME_MAX_LEN src len)
        else do { b \<leftarrow> scratch_copy src len; Some (len, b) });
     (if pk_encrypt p = 2 then scratch_fits (mfptp_aes_ecb_encrypt_evp (env_ssl env) (pk_key p) buf de_len)
      else if pk_encrypt p = 1 then scratch_fits (mfptp_idea_ecb_encrypt_evp (env_ssl env) (pk_key p) buf de_len)
      else do { b \<leftarrow> scratch_copy buf de_len; Some (de_len, b) })
   }"

text \<open>Writing bytes one after the other, moving the offset along (\<^verbatim>\<open>PTR_MOVE\<close>).\<close>

fun put_bytes :: "bytes \<Rightarrow> int \<Rightarrow> bytes \<Rightarrow> (bytes \<times> int) option" where
  "put_bytes dst off [] = Some (dst, off)"
| "put_bytes dst off (b # bs) = do { dst1 \<leftarrow> mwrite dst off b; put_bytes dst1 (off + 1) bs }"

text \<open>One frame: the control byte (\<open>base\<close> is 4 when more frames follow, 0 otherwise, the low
  bits the number of size bytes less one), the size, most significant byte first, and
  the \<open>out_len\<close> bytes of \<^verbatim>\<open>buf1\<close>.\<close>

definition frame_prefix :: "byte \<Rightarrow> int \<Rightarrow> bytes" where
  "frame_prefix base out_len =
     (if out_len < 255 then [base, byte_of_int 0 out_len]
      else if out_len \<le> 65535 then [base OR 0x01, byte_of_int 1 out_len, byte_of_int 0 out_len]
      else [base OR 0x02, byte_of_int 2 out_len, byte_of_int 1 out_len, byte_of_int 0 out_len])"

definition put_frame :: "bytes \<Rightarrow> int \<Rightarrow> byte \<Rightarrow> int \<Rightarrow> bytes \<Rightarrow> (bytes \<times> int) option" where
  "put_frame dst off base out_len buf1 = do {
     (dst1, off1) \<leftarrow> put_bytes dst off (frame_prefix base out_len);
     data \<leftarrow> mreads buf1 0 out_len;
     dst2 \<leftarrow> mwrites dst1 off1 data;
     Some (dst2, off1 + out_len)
   }"

section \<open>Packing at the offset the structure keeps\<close>

text \<open>The local \<^verbatim>\<open>offset\<close> and \<^verbatim>\<open>p_info->doptr\<close> start equal and move together, so one field
  stands for both. The magic is copied to the start of the destination, not to the
  offset, as in the source.\<close>

definition pack_head_step :: "bytes \<Rightarrow> mfptp_pack \<Rightarrow> (bytes \<times> mfptp_pack) option" where
  "pack_head_step dst p = do {
     dst1 \<leftarrow> mwrites dst 0 mfptp_magic;
     (dst2, off) \<leftarrow> put_bytes dst1 (pk_doptr p + 6)
        [pack_version_byte p, pack_compress_byte p, pk_method p, pk_packages p];
     Some (dst2, p\<lparr>pk_doptr := off, pk_step := MFPTP_PACK_PACKAGE\<rparr>)
   }"

definition pack_package_step ::
  "('x, 'z) mfptp_env \<Rightarrow> bytes \<Rightarrow> int \<Rightarrow> int \<Rightarrow> bytes \<Rightarrow> mfptp_pack \<Rightarrow> (bytes \<times> mfptp_pack \<times> int) option" where
  "pack_package_step env src len more_flag dst p = do {
     (out_len, buf1) \<leftarrow> pack_payload env p src len;
     if more_flag = 0 then do {
       (dst1, off) \<leftarrow> put_frame dst (pk_doptr p) 0 out_len buf1;
       let p1 = p\<lparr>pk_doptr := off, pk_packages := pk_packages p - 1\<rparr>;
       (if pk_packages p1 = 0
        then Some (dst1, p1\<lparr>pk_index := pk_doptr p1, pk_doptr := 0, pk_step := 0\<rparr>, MFPTP_PACK_OVER)
        else Some (dst1, p1, MFPTP_PACK_PACKAGE))
     } else do {
       (dst1, off) \<leftarrow> put_frame dst (pk_doptr p) 4 out_len buf1;
       Some (dst1, p\<lparr>pk_doptr := off\<rparr>, MFPTP_PACK_PACKAGE)
     }
   }"

text \<open>The loop runs the header step at most once before the frame step returns. The last
  component counts the blocks allocated and not freed by the call.\<close>

definition mfptp_pack_frames_with_packages ::
  "('x, 'z) mfptp_env \<Rightarrow> bytes \<Rightarrow> int \<Rightarrow> bytes \<Rightarrow> int \<Rightarrow> mfptp_pack \<Rightarrow> (bytes \<times> mfptp_pack \<times> int \<times> nat) option" where
  "mfptp_pack_frames_with_packages env src len dst more_flag p =
     (if \<not> env_malloc1 env then Some (dst, p, MFPTP_PACK_ERROR, 0)
      else if \<not> env_malloc2 env then Some (dst, p, MFPTP_PACK_ERROR, 0)
      else if pk_step p = MFPTP_PACK_INIT \<or> pk_step p = MFPTP_PACK_HEAD then do {
        (dst1, p1) \<leftarrow> pack_head_step dst p;
        (dst2, p2, ret) \<leftarrow> pack_package_step env src len more_flag dst1 p1;
        Some (dst2, p2, ret, 0)
      } else if pk_step p = MFPTP_PACK_PACKAGE then do {
        (dst1, p1, ret) \<leftarrow> pack_package_step env src len more_flag dst p;
        Some (dst1, p1, ret, 0)
      } else if pk_step p = MFPTP_PACK_OVER then Some (dst, p, MFPTP_PACK_OVER, 0)
      else Some (dst, p, MFPTP_PACK_ERROR, 0))"

section \<open>Packing with the offset left to the caller\<close>

text \<open>\<open>dst\<close> and the offset \<open>at\<close> stand for the pointer the caller passes.\<close>

definition mfptp_pack_hdr :: "bytes \<Rightarrow> int \<Rightarrow> mfptp_pack \<Rightarrow> (bytes \<times> int) option" where
  "mfptp_pack_hdr dst at p = do {
     (dst1, _) \<leftarrow> put_bytes dst at
        (mfptp_magic @ [pack_version_byte p, pack_compress_byte p, pk_method p, pk_packages p]);
     Some (dst1, 10)
   }"

definition mfptp_pack_frame ::
  "('x, 'z) mfptp_env \<Rightarrow> bytes \<Rightarrow> int \<Rightarrow> bytes \<Rightarrow> int \<Rightarrow> int \<Rightarrow> mfptp_pack \<Rightarrow> (bytes \<times> int \<times> nat) option" where
  "mfptp_pack_frame env src len dst at more_flag p =
     (if \<not> env_malloc1 env then Some (dst, MFPTP_PACK_ERROR, 0)
      else if \<not> env_malloc2 env then Some (dst, MFPTP_PACK_ERROR, 0)
      else do {
        (out_len, buf1) \<leftarrow> pack_payload env p src len;
        let base = (if more_flag \<noteq> 0 then 4 else 0);
        (dst1, off) \<leftarrow> put_frame dst at base out_len buf1;
        Some (dst1, off - at, 2)
      })"

section \<open>Packing a whole message\<close>

text \<open>A message is a list of packages, a package a list of frames. The frames are packed in
  order, each with the flag that says whether its package goes on.\<close>

fun package_calls :: "bytes list \<Rightarrow> (bytes \<times> int) list" where
  "package_calls [] = []"
| "package_calls [f] = [(f, 0)]"
| "package_calls (f # g # fs) = (f, 1) # package_calls (g # fs)"

definition message_calls :: "bytes list list \<Rightarrow> (bytes \<times> int) list" where
  "message_calls pkgs = concat (map package_calls pkgs)"

fun pack_calls ::
  "('x, 'z) mfptp_env \<Rightarrow> bytes \<Rightarrow> mfptp_pack \<Rightarrow> (bytes \<times> int) list \<Rightarrow> (bytes \<times> mfptp_pack \<times> int list) option" where
  "pack_calls env dst p [] = Some (dst, p, [])"
| "pack_calls env dst p ((src, mf) # cs) = do {
     (dst1, p1, ret, _) \<leftarrow> mfptp_pack_frames_with_packages env src (int (length src)) dst mf p;
     (dst2, p2, rets) \<leftarrow> pack_calls env dst1 p1 cs;
     Some (dst2, p2, ret # rets)
   }"

text \<open>The same message with the caller keeping the offset, as the library's own test does.\<close>

fun pack_frames_at ::
  "('x, 'z) mfptp_env \<Rightarrow> bytes \<Rightarrow> int \<Rightarrow> mfptp_pack \<Rightarrow> (bytes \<times> int) list \<Rightarrow> (bytes \<times> int \<times> nat) option" where
  "pack_frames_at env dst at p [] = Some (dst, at, 0)"
| "pack_frames_at env dst at p ((src, mf) # cs) = do {
     (dst1, n, leak) \<leftarrow> mfptp_pack_frame env src (int (length src)) dst at mf p;
     (dst2, at2, leaks) \<leftarrow> pack_frames_at env dst1 (at + n) p cs;
     Some (dst2, at2, leak + leaks)
   }"

section \<open>The wire format\<close>

definition frame_wire :: "int \<Rightarrow> bytes \<Rightarrow> bytes" where
  "frame_wire mf g = frame_prefix (if mf \<noteq> 0 then 4 else 0) (int (length g)) @ g"

definition header_wire :: "mfptp_pack \<Rightarrow> bytes" where
  "header_wire p = mfptp_magic @ [pack_version_byte p, pack_compress_byte p, pk_method p, pk_packages p]"

definition frames_wire :: "(bytes \<times> int) list \<Rightarrow> bytes" where
  "frames_wire cs = concat (map (\<lambda>(g, mf). frame_wire mf g) cs)"

text \<open>The payload of a frame and what goes on the wire for it.\<close>

definition payload_to :: "('x, 'z) mfptp_env \<Rightarrow> mfptp_pack \<Rightarrow> bytes \<Rightarrow> bytes \<Rightarrow> bool" where
  "payload_to env p f g \<longleftrightarrow> pack_payload env p f (int (length f)) = Some (int (length g), g)"

lemma length_header_wire [simp]: "length (header_wire p) = 10"
  by (simp add: header_wire_def mfptp_magic_def)

lemma length_frame_prefix: "length (frame_prefix b n) = (if n < 255 then 2 else if n \<le> 65535 then 3 else 4)"
  by (simp add: frame_prefix_def)

lemma put_bytes_append [mem_simps]:
  "length zs = length ys \<Longrightarrow>
   put_bytes (xs @ zs @ rest) (int (length xs)) ys = Some (xs @ ys @ rest, int (length xs) + int (length ys))"
proof (induction ys arbitrary: xs zs)
  case Nil
  then show ?case by simp
next
  case (Cons y ys)
  then obtain z zs' where zs: "zs = z # zs'" "length zs' = length ys" by (cases zs) auto
  have "put_bytes ((xs @ [y]) @ zs' @ rest) (int (length (xs @ [y]))) ys
      = Some ((xs @ [y]) @ ys @ rest, int (length (xs @ [y])) + int (length ys))"
    by (rule Cons.IH) (rule zs(2))
  then show ?case using zs by (simp add: mwrite_append add.commute)
qed

lemma put_frame_append [mem_simps]:
  assumes "length zs = length (frame_wire mf g)" and "base = (if mf \<noteq> 0 then 4 else 0)"
  shows "put_frame (xs @ zs @ rest) (int (length xs)) base (int (length g)) g
    = Some (xs @ frame_wire mf g @ rest, int (length xs) + int (length (frame_wire mf g)))"
proof -
  let ?pre = "frame_prefix base (int (length g))"
  define z1 where "z1 = take (length ?pre) zs"
  define z2 where "z2 = drop (length ?pre) zs"
  have z: "zs = z1 @ z2" "length z1 = length ?pre" "length z2 = length g"
    using assms by (auto simp: z1_def z2_def frame_wire_def)
  have p: "put_bytes (xs @ z1 @ z2 @ rest) (int (length xs)) ?pre
      = Some (xs @ ?pre @ z2 @ rest, int (length xs) + int (length ?pre))"
    by (rule put_bytes_append [OF z(2)])
  have w: "mwrites ((xs @ ?pre) @ z2 @ rest) (int (length (xs @ ?pre))) g = Some ((xs @ ?pre) @ g @ rest)"
    by (rule mwrites_append [OF z(3)])
  have r: "mreads g 0 (int (length g)) = Some g" by (simp add: mreads_def)
  show ?thesis using p w r z(1) assms(2) by (simp add: put_frame_def frame_wire_def add.assoc)
qed

section \<open>Packing produces the wire format\<close>

definition package_ends :: "(bytes \<times> int) list \<Rightarrow> nat" where
  "package_ends cs = length (filter (\<lambda>c. snd c = 0) cs)"

text \<open>The calls of a message and the frames that go on the wire for them.\<close>

definition calls_to ::
  "('x, 'z) mfptp_env \<Rightarrow> mfptp_pack \<Rightarrow> (bytes \<times> int) list \<Rightarrow> (bytes \<times> int) list \<Rightarrow> bool" where
  "calls_to env p cs ds \<longleftrightarrow> list_all2 (\<lambda>(f, mf) (g, mf'). mf = mf' \<and> payload_to env p f g) cs ds"

lemma payload_to_cong:
  assumes "pk_compress p' = pk_compress p" "pk_encrypt p' = pk_encrypt p" "pk_key p' = pk_key p"
  shows "payload_to env p' f g = payload_to env p f g"
  unfolding payload_to_def pack_payload_def assms ..

lemma calls_to_cong:
  "pk_compress p' = pk_compress p \<Longrightarrow> pk_encrypt p' = pk_encrypt p \<Longrightarrow> pk_key p' = pk_key p \<Longrightarrow>
   calls_to env p' cs ds = calls_to env p cs ds"
  by (simp add: calls_to_def payload_to_cong [of p' p])

lemma pack_package_step_wire:
  assumes "payload_to env p f g" "pk_doptr p = int (length xs)" "length zs = length (frame_wire mf g)"
  shows "pack_package_step env f (int (length f)) mf (xs @ zs @ rest) p = Some (xs @ frame_wire mf g @ rest,
    (let off = int (length xs) + int (length (frame_wire mf g)) in
     if mf = 0 then
       (if pk_packages p - 1 = 0
        then (p\<lparr>pk_doptr := 0, pk_packages := 0, pk_index := off, pk_step := 0\<rparr>, MFPTP_PACK_OVER)
        else (p\<lparr>pk_doptr := off, pk_packages := pk_packages p - 1\<rparr>, MFPTP_PACK_PACKAGE))
     else (p\<lparr>pk_doptr := off\<rparr>, MFPTP_PACK_PACKAGE)))"
  using assms(1,2) put_frame_append [OF assms(3), of 0 xs rest] put_frame_append [OF assms(3), of 4 xs rest]
  by (auto simp: pack_package_step_def payload_to_def Let_def)

lemma package_ends_Cons [simp]:
  "package_ends [] = 0"
  "package_ends (c # cs) = (if snd c = 0 then Suc (package_ends cs) else package_ends cs)"
  by (simp_all add: package_ends_def)

lemma package_ends_pos: "cs \<noteq> [] \<Longrightarrow> snd (last cs) = 0 \<Longrightarrow> 0 < package_ends cs"
  using last_in_set [of cs] by (auto simp: package_ends_def filter_empty_conv)

lemma packages_pred:
  "0 < n \<Longrightarrow> n \<le> 255 \<Longrightarrow> (of_nat n :: byte) - 1 = of_nat (n - 1)"
  by (cases n) simp_all

lemma packages_zero_iff: "n \<le> 255 \<Longrightarrow> (of_nat n :: byte) = 0 \<longleftrightarrow> n = 0"
  by (simp add: word_of_nat_eq_0_iff) presburger

lemma pack_calls_wire:
  assumes "calls_to env p cs ds" "cs \<noteq> []" "snd (last cs) = 0" "package_ends cs \<le> 255"
    and "env_malloc1 env" "env_malloc2 env"
    and "pk_step p = MFPTP_PACK_PACKAGE" "pk_packages p = of_nat (package_ends cs)"
    and "pk_doptr p = int (length xs)" "length zs = length (frames_wire ds)"
  shows "\<exists>p'. pack_calls env (xs @ zs @ rest) p cs
      = Some (xs @ frames_wire ds @ rest, p', replicate (length cs - 1) MFPTP_PACK_PACKAGE @ [MFPTP_PACK_OVER])
    \<and> pk_index p' = int (length (xs @ frames_wire ds)) \<and> pk_doptr p' = 0 \<and> pk_step p' = 0"
  using assms
proof (induction cs arbitrary: ds p xs zs)
  case Nil
  then show ?case by simp
next
  case (Cons c cs)
  obtain f mf where c: "c = (f, mf)" by (cases c)
  obtain g ds' where ds: "ds = (g, mf) # ds'" and pf: "payload_to env p f g" and rel: "calls_to env p cs ds'"
    using Cons.prems(1) c by (auto simp: calls_to_def list_all2_Cons1)
  define w where "w = frame_wire mf g"
  define z1 where "z1 = take (length w) zs"
  define z2 where "z2 = drop (length w) zs"
  have z: "zs = z1 @ z2" "length z1 = length w" "length z2 = length (frames_wire ds')"
    using Cons.prems(10) ds by (auto simp: z1_def z2_def w_def frames_wire_def)
  have fw: "frames_wire ds = w @ frames_wire ds'" by (simp add: ds frames_wire_def w_def)
  note st = pack_package_step_wire [OF pf Cons.prems(9), of z1 mf "z2 @ rest"]
  show ?case
  proof (cases "cs = []")
    case True
    then have "mf = 0" "ds' = []" using Cons.prems(3) c rel by (auto simp: calls_to_def)
    with True Cons.prems st z c fw w_def show ?thesis
      by (simp add: mfptp_pack_frames_with_packages_def Let_def frames_wire_def
          MFPTP_PACK_PACKAGE_def MFPTP_PACK_INIT_def MFPTP_PACK_HEAD_def)
  next
    case False
    have last: "snd (last cs) = 0" using Cons.prems(3) False by simp
    then have pos: "0 < package_ends cs" using False by (rule package_ends_pos [rotated])
    define p1 where "p1 = (if mf = 0 then p\<lparr>pk_doptr := int (length (xs @ w)), pk_packages := pk_packages p - 1\<rparr>
      else p\<lparr>pk_doptr := int (length (xs @ w))\<rparr>)"
    have pk: "pk_packages p1 = of_nat (package_ends cs)"
      using Cons.prems(4,8) c by (simp add: p1_def packages_pred)
    have one: "mfptp_pack_frames_with_packages env f (int (length f)) (xs @ zs @ rest) mf p
        = Some ((xs @ w) @ z2 @ rest, p1, MFPTP_PACK_PACKAGE, 0)"
      using st z Cons.prems(4-8) c pos packages_zero_iff [of "package_ends cs"]
      by (auto simp: mfptp_pack_frames_with_packages_def Let_def w_def p1_def packages_pred
          MFPTP_PACK_PACKAGE_def MFPTP_PACK_INIT_def MFPTP_PACK_HEAD_def)
    have "\<exists>p'. pack_calls env ((xs @ w) @ z2 @ rest) p1 cs
      = Some ((xs @ w) @ frames_wire ds' @ rest, p', replicate (length cs - 1) MFPTP_PACK_PACKAGE @ [MFPTP_PACK_OVER])
      \<and> pk_index p' = int (length ((xs @ w) @ frames_wire ds')) \<and> pk_doptr p' = 0 \<and> pk_step p' = 0"
    proof (rule Cons.IH)
      have "pk_compress p1 = pk_compress p" "pk_encrypt p1 = pk_encrypt p" "pk_key p1 = pk_key p"
        by (simp_all add: p1_def)
      then show "calls_to env p1 cs ds'" using rel by (simp add: calls_to_cong [of p1 p])
      show "package_ends cs \<le> 255" using Cons.prems(4) by (simp split: if_splits)
    qed (use Cons.prems False last pk z in \<open>simp_all add: p1_def\<close>)
    with one c fw False show ?thesis by (cases cs) auto
  qed
qed

lemma package_ends_append [simp]: "package_ends (xs @ ys) = package_ends xs + package_ends ys"
  by (simp add: package_ends_def)

lemma package_calls_shape:
  "fs \<noteq> [] \<Longrightarrow> package_ends (package_calls fs) = 1 \<and> package_calls fs \<noteq> [] \<and> snd (last (package_calls fs)) = 0"
proof (induction fs rule: package_calls.induct)
  case (3 f g fs)
  then show ?case by (cases "package_calls (g # fs)") auto
qed simp_all

lemma message_calls_shape:
  "[] \<notin> set pkgs \<Longrightarrow> package_ends (message_calls pkgs) = length pkgs
     \<and> (pkgs \<noteq> [] \<longrightarrow> message_calls pkgs \<noteq> [] \<and> snd (last (message_calls pkgs)) = 0)"
proof (induction pkgs)
  case Nil
  then show ?case by (simp add: message_calls_def)
next
  case (Cons fs pkgs)
  then show ?case using package_calls_shape [of fs]
    by (cases "pkgs = []") (auto simp: message_calls_def)
qed

lemma pack_head_step_wire:
  assumes "length zs = 10" "pk_doptr p = 0"
  shows "pack_head_step (zs @ rest) p
    = Some (header_wire p @ rest, p\<lparr>pk_doptr := 10, pk_step := MFPTP_PACK_PACKAGE\<rparr>)"
proof -
  define z1 where "z1 = take 6 zs"
  define z2 where "z2 = drop 6 zs"
  have z: "zs = z1 @ z2" "length z1 = length mfptp_magic" "length z2 = 4"
    using assms(1) by (auto simp: z1_def z2_def mfptp_magic_def)
  have w: "mwrites (z1 @ z2 @ rest) 0 mfptp_magic = Some (mfptp_magic @ z2 @ rest)"
    using mwrites_append [OF z(2), of "[]" "z2 @ rest"] by simp
  let ?tail = "[pack_version_byte p, pack_compress_byte p, pk_method p, pk_packages p]"
  have "put_bytes (mfptp_magic @ z2 @ rest) (int (length mfptp_magic)) ?tail
      = Some (mfptp_magic @ ?tail @ rest, int (length mfptp_magic) + int (length ?tail))"
    by (rule put_bytes_append) (simp add: z(3))
  then have b: "put_bytes (mfptp_magic @ z2 @ rest) 6 ?tail = Some (header_wire p @ rest, 10)"
    by (simp add: mfptp_magic_def header_wire_def del: put_bytes.simps)
  show ?thesis
    using w b assms(2) z(1) by (simp add: pack_head_step_def del: put_bytes.simps)
qed

lemma pack_calls_first:
  assumes "pk_step p = MFPTP_PACK_INIT" "env_malloc1 env" "env_malloc2 env"
    and "pack_head_step dst p = Some (dst1, p1)" "pk_step p1 = MFPTP_PACK_PACKAGE" "cs \<noteq> []"
  shows "pack_calls env dst p cs = pack_calls env dst1 p1 cs"
  using assms
  by (cases cs) (auto simp: mfptp_pack_frames_with_packages_def MFPTP_PACK_PACKAGE_def
      MFPTP_PACK_INIT_def MFPTP_PACK_HEAD_def)

text \<open>A fresh control structure, set up for a message of the given packages.\<close>

definition pack_ready :: "('x, 'z) mfptp_env \<Rightarrow> mfptp_pack \<Rightarrow> bytes list list \<Rightarrow> bool" where
  "pack_ready env p pkgs \<longleftrightarrow> env_malloc1 env \<and> env_malloc2 env
     \<and> pk_step p = MFPTP_PACK_INIT \<and> pk_doptr p = 0
     \<and> pkgs \<noteq> [] \<and> [] \<notin> set pkgs \<and> length pkgs \<le> 255 \<and> pk_packages p = of_nat (length pkgs)"

lemma pack_message_wire:
  assumes "pack_ready env p pkgs" "calls_to env p (message_calls pkgs) ds"
    and "length zs = 10 + length (frames_wire ds)"
  shows "\<exists>p'. pack_calls env (zs @ rest) p (message_calls pkgs)
      = Some (header_wire p @ frames_wire ds @ rest, p',
              replicate (length (message_calls pkgs) - 1) MFPTP_PACK_PACKAGE @ [MFPTP_PACK_OVER])
    \<and> pk_index p' = 10 + int (length (frames_wire ds)) \<and> pk_doptr p' = 0 \<and> pk_step p' = 0"
proof -
  define z1 where "z1 = take 10 zs"
  define z2 where "z2 = drop 10 zs"
  have z: "zs = z1 @ z2" "length z1 = 10" "length z2 = length (frames_wire ds)"
    using assms(3) by (auto simp: z1_def z2_def)
  let ?p1 = "p\<lparr>pk_doptr := 10, pk_step := MFPTP_PACK_PACKAGE\<rparr>" and ?cs = "message_calls pkgs"
  note sh = message_calls_shape [of pkgs]
  have h: "pack_head_step (zs @ rest) p = Some (header_wire p @ z2 @ rest, ?p1)"
    using assms(1) z pack_head_step_wire [OF z(2), of p "z2 @ rest"] by (simp add: pack_ready_def)
  have f: "pack_calls env (zs @ rest) p ?cs = pack_calls env (header_wire p @ z2 @ rest) ?p1 ?cs"
    using assms(1) h sh by (intro pack_calls_first) (auto simp: pack_ready_def)
  have "calls_to env ?p1 ?cs ds" using assms(2) by (simp add: calls_to_cong [of ?p1 p])
  then have "\<exists>p'. pack_calls env (header_wire p @ z2 @ rest) ?p1 ?cs
      = Some (header_wire p @ frames_wire ds @ rest, p', replicate (length ?cs - 1) MFPTP_PACK_PACKAGE @ [MFPTP_PACK_OVER])
    \<and> pk_index p' = int (length (header_wire p @ frames_wire ds)) \<and> pk_doptr p' = 0 \<and> pk_step p' = 0"
    using assms(1) sh z(3) by (intro pack_calls_wire) (auto simp: pack_ready_def)
  with f show ?thesis by simp
qed

lemma mfptp_pack_hdr_wire:
  assumes "length zs = 10"
  shows "mfptp_pack_hdr (zs @ rest) 0 p = Some (header_wire p @ rest, 10)"
proof -
  have "put_bytes ([] @ zs @ rest) (int (length ([] :: bytes))) (header_wire p)
      = Some ([] @ header_wire p @ rest, int (length ([] :: bytes)) + int (length (header_wire p)))"
    by (rule put_bytes_append) (simp add: assms)
  then show ?thesis by (simp add: mfptp_pack_hdr_def header_wire_def)
qed

lemma pack_frames_at_wire:
  assumes "calls_to env p cs ds" "env_malloc1 env" "env_malloc2 env" "length zs = length (frames_wire ds)"
  shows "pack_frames_at env (xs @ zs @ rest) (int (length xs)) p cs
    = Some (xs @ frames_wire ds @ rest, int (length (xs @ frames_wire ds)), 2 * length cs)"
  using assms
proof (induction cs arbitrary: ds xs zs)
  case Nil
  then show ?case by (simp add: calls_to_def frames_wire_def)
next
  case (Cons c cs)
  obtain f mf where c: "c = (f, mf)" by (cases c)
  obtain g ds' where ds: "ds = (g, mf) # ds'" and pf: "payload_to env p f g" and rel: "calls_to env p cs ds'"
    using Cons.prems(1) c by (auto simp: calls_to_def list_all2_Cons1)
  define w where "w = frame_wire mf g"
  define z1 where "z1 = take (length w) zs"
  define z2 where "z2 = drop (length w) zs"
  have z: "zs = z1 @ z2" "length z1 = length w" "length z2 = length (frames_wire ds')"
    using Cons.prems(4) ds by (auto simp: z1_def z2_def w_def frames_wire_def)
  have "mfptp_pack_frame env f (int (length f)) (xs @ z1 @ z2 @ rest) (int (length xs)) mf p
      = Some ((xs @ w) @ z2 @ rest, int (length w), 2)"
    using pf Cons.prems(2,3) put_frame_append [OF z(2) [unfolded w_def], of _ xs "z2 @ rest"]
    by (simp add: mfptp_pack_frame_def payload_to_def w_def)
  moreover note Cons.IH [OF rel Cons.prems(2,3) z(3), of "xs @ w"]
  ultimately show ?case by (simp add: c ds z(1) frames_wire_def w_def)
qed

lemma plain_payload:
  assumes "pk_compress p = 0" "pk_encrypt p = 0" "int (length f) \<le> MFPTP_FRAME_MAX_LEN"
  shows "payload_to env p f f"
  using assms by (simp add: payload_to_def pack_payload_def scratch_copy_def mreads_def)

lemma plain_calls_to:
  assumes "pk_compress p = 0" "pk_encrypt p = 0"
    and "\<And>f mf. (f, mf) \<in> set cs \<Longrightarrow> int (length f) \<le> MFPTP_FRAME_MAX_LEN"
  shows "calls_to env p cs cs"
  using assms by (auto simp: calls_to_def intro!: list_all2_refl plain_payload list.rel_refl_strong)

section \<open>Properties\<close>

text \<open>C11: the two packing interfaces agree. Packing the frames of a message one after the other
  with \<^verbatim>\<open>mfptp_pack_frames_with_packages\<close> into a buffer with room for it returns
  \<open>MFPTP_PACK_PACKAGE\<close> for every frame but the last and \<open>MFPTP_PACK_OVER\<close> for the last, and leaves the
  same bytes, and in \<^verbatim>\<open>index\<close> the same length, as \<^verbatim>\<open>mfptp_pack_hdr\<close> followed by
  \<^verbatim>\<open>mfptp_pack_frame\<close> at offsets the caller adds up. (The frames, compressed and encrypted, stay
  within the 6 MB scratch blocks, past which both interfaces write unchecked.) The second interface keeps two
  scratch blocks allocated per frame; the first frees them.\<close>

theorem pack_apis_agree:
  assumes "pack_ready env p pkgs" "calls_to env p (message_calls pkgs) ds"
    and "length dst \<ge> 10 + length (frames_wire ds)"
  shows "\<exists>dst' p' dst1.
      pack_calls env dst p (message_calls pkgs) = Some (dst', p',
        replicate (length (message_calls pkgs) - 1) MFPTP_PACK_PACKAGE @ [MFPTP_PACK_OVER])
    \<and> mfptp_pack_hdr dst 0 p = Some (dst1, 10)
    \<and> pack_frames_at env dst1 10 p (message_calls pkgs)
        = Some (dst', pk_index p', 2 * length (message_calls pkgs))"
proof -
  let ?n = "length (frames_wire ds)"
  define z1 where "z1 = take 10 dst"
  define z2 where "z2 = take ?n (drop 10 dst)"
  define rest where "rest = drop (10 + ?n) dst"
  have d: "dst = z1 @ z2 @ rest" "length z1 = 10" "length z2 = ?n"
    using assms(3) by (auto simp: z1_def z2_def rest_def add.commute
        simp flip: take_add drop_drop append_assoc)
  obtain p' where p': "pack_calls env ((z1 @ z2) @ rest) p (message_calls pkgs)
      = Some (header_wire p @ frames_wire ds @ rest, p',
          replicate (length (message_calls pkgs) - 1) MFPTP_PACK_PACKAGE @ [MFPTP_PACK_OVER])"
    "pk_index p' = 10 + int ?n"
    using pack_message_wire [OF assms(1,2), of "z1 @ z2" rest] d by auto
  have h: "mfptp_pack_hdr dst 0 p = Some (header_wire p @ z2 @ rest, 10)"
    using mfptp_pack_hdr_wire [OF d(2), of "z2 @ rest" p] d(1) by simp
  have "pack_frames_at env (header_wire p @ z2 @ rest) (int (length (header_wire p))) p (message_calls pkgs)
      = Some (header_wire p @ frames_wire ds @ rest, int (length (header_wire p @ frames_wire ds)),
              2 * length (message_calls pkgs))"
    using assms(1) by (intro pack_frames_at_wire [OF assms(2) _ _ d(3)]) (simp_all add: pack_ready_def)
  with h p' d(1) show ?thesis by auto
qed

definition demo_env :: "(unit, unit) mfptp_env" where
  "demo_env = \<lparr>env_ssl = \<lparr>EVP_EncryptInit_ex = (\<lambda>_ _. ()), EVP_EncryptUpdate = (\<lambda>_ b _. ((), b, 1)),
       EVP_EncryptFinal_ex = (\<lambda>_. ([], 1)), EVP_DecryptInit_ex = (\<lambda>_ _. ()),
       EVP_DecryptUpdate = (\<lambda>_ b _. ((), b, 1)), EVP_DecryptFinal_ex = (\<lambda>_. ([], 1))\<rparr>,
     env_zlib = \<lparr>deflateInit = (\<lambda>_. ((), 0)), deflateInit2 = (\<lambda>_ _ _ _ _. ((), 0)),
       deflate = (\<lambda>_ b _ _. ((), b, 1)), deflateEnd = (\<lambda>_. 0), inflateInit = ((), 0),
       inflateInit2 = (\<lambda>_. ((), 0)), inflate = (\<lambda>_ b _ _. ((), b, 1)), inflateEnd = (\<lambda>_. 0)\<rparr>,
     env_malloc1 = True, env_malloc2 = True\<rparr>"

definition demo_pack :: mfptp_pack where
  "demo_pack = \<lparr>pk_version = 0, pk_sub_version = 1, pk_method = 2, pk_compress = 0, pk_encrypt = 0,
     pk_packages = 2, pk_step = 0, pk_doptr = 0, pk_index = 0, pk_key = replicate 18 0\<rparr>"

theorem pack_apis_agree_witness:
  "\<exists>dst' p' dst1.
      pack_calls demo_env (replicate 40 0) demo_pack (message_calls [[[1, 2], [3]], [[4]]]) = Some (dst', p',
        replicate (length (message_calls [[[1, 2], [3]], [[4]]]) - 1) MFPTP_PACK_PACKAGE @ [MFPTP_PACK_OVER])
    \<and> mfptp_pack_hdr (replicate 40 0) 0 demo_pack = Some (dst1, 10)
    \<and> pack_frames_at demo_env dst1 10 demo_pack (message_calls [[[1, 2], [3]], [[4]]])
        = Some (dst', pk_index p', 2 * length (message_calls [[[1, 2], [3]], [[4]]]))"
proof (rule pack_apis_agree)
  show "pack_ready demo_env demo_pack [[[1, 2], [3]], [[4]]]"
    by (simp add: pack_ready_def demo_env_def demo_pack_def MFPTP_PACK_INIT_def)
  show "calls_to demo_env demo_pack (message_calls [[[1, 2], [3]], [[4]]]) (message_calls [[[1, 2], [3]], [[4]]])"
    by (rule plain_calls_to) (auto simp: demo_pack_def message_calls_def MFPTP_FRAME_MAX_LEN_def)
  show "10 + length (frames_wire (message_calls [[[1, 2], [3]], [[4]]])) \<le> length (replicate 40 (0::byte))"
    by (simp add: message_calls_def frames_wire_def frame_wire_def frame_prefix_def)
qed

end
