(* ===== verification/Mfptp_Parser.thy ===== *)
theory Mfptp_Parser
  imports Mfptp_Utils
begin

text \<open>
  The parsing half of the MFPTP library (\<^verbatim>\<open>lib/libmfptp/mfptp_parser.c\<close>). The receive
  buffer is the list of its bytes, of which \<^verbatim>\<open>get_size\<close> have been received; a read outside
  it is \<^term>\<open>None\<close>. \<^verbatim>\<open>int\<close> values keep their 32-bit wrap-around where the size fields of a
  hostile message can make them overflow. Callbacks are names of a type \<open>'f\<close>; the
  parameter \<open>call\<close> says what calling one does to the parser information and to the
  world \<open>'w\<close> outside it, given the bytes of the buffer. The parse loop takes fuel; running
  out of it is a value of its own, so that termination is a theorem.
\<close>

section \<open>Constants and structures\<close>

definition MFPTP_PARSE_NODATA :: int where "MFPTP_PARSE_NODATA = -2"
definition MFPTP_PARSE_ILEGAL :: int where "MFPTP_PARSE_ILEGAL = -1"
definition MFPTP_PARSE_INIT :: int where "MFPTP_PARSE_INIT = 0"
definition MFPTP_PARSE_HEAD :: int where "MFPTP_PARSE_HEAD = 1"
definition MFPTP_PARSE_PACKAGE :: int where "MFPTP_PARSE_PACKAGE = 2"
definition MFPTP_PARSE_OVER :: int where "MFPTP_PARSE_OVER = 3"
definition MFPTP_PARSE_MOREDATA :: int where "MFPTP_PARSE_MOREDATA = 4"

lemmas mfptp_parse_codes = MFPTP_PARSE_NODATA_def MFPTP_PARSE_ILEGAL_def MFPTP_PARSE_INIT_def
  MFPTP_PARSE_HEAD_def MFPTP_PARSE_PACKAGE_def MFPTP_PARSE_OVER_def MFPTP_PARSE_MOREDATA_def

definition MAX_REQ_SIZE :: int where "MAX_REQ_SIZE = 10485760"
definition MAX_FRAMES_PER_PACKAGE :: nat where "MAX_FRAMES_PER_PACKAGE = 13"
definition MFPTP_BURST_HEADER_LEN :: int where "MFPTP_BURST_HEADER_LEN = 10"
definition HEARTBEAT_METHOD :: byte where "HEARTBEAT_METHOD = 9"
definition FP_CONTROL_SIZE :: int where "FP_CONTROL_SIZE = 1"

text \<open>\<^verbatim>\<open>complete\<close> is declared \<^verbatim>\<open>bool\<close>, which the header defines as \<^verbatim>\<open>int\<close>. A frame pointer
  is its offset in the buffer, \<^term>\<open>None\<close> for null.\<close>

record mfptp_package =
  pkg_complete :: int
  pkg_frames :: int
  pkg_dsizes :: "int list"
  pkg_ptrs :: "int option list"

record 'f mfptp_parser =
  ps_version :: int
  ps_sub_version :: int
  ps_method :: byte
  ps_compress :: byte
  ps_encrypt :: byte
  ps_packages :: byte
  ps_pos_frame_start :: int
  ps_func :: "'f option"

record mfptp_status =
  st_step :: int
  st_index :: int
  st_doptr :: int
  st_sharp_pos :: int
  st_package :: mfptp_package

text \<open>\<^verbatim>\<open>buf\<close> and \<^verbatim>\<open>buf1\<close> point to scratch blocks only while a callback runs: a block carries the
  bytes written to it so far, and once it is freed the pointer dangles.\<close>

datatype scratch = Null | Block bytes | Freed

record 'f mfptp_parser_info =
  pi_parser :: "'f mfptp_parser"
  pi_status :: mfptp_status
  pi_key :: bytes
  pi_force_login :: int
  pi_who :: bytes
  pi_buf :: scratch
  pi_buf1 :: scratch
  pi_out_len :: int
  pi_de_len :: int
  pi_snd_flg :: int
  pi_send :: "'f option"

definition package_zero :: mfptp_package where
  "package_zero = \<lparr>pkg_complete = 0, pkg_frames = 0,
     pkg_dsizes = replicate MAX_FRAMES_PER_PACKAGE 0, pkg_ptrs = replicate MAX_FRAMES_PER_PACKAGE None\<rparr>"

section \<open>Set-up\<close>

definition mfptp_send_callback :: "'f mfptp_parser_info \<Rightarrow> 'f option \<Rightarrow> 'f mfptp_parser_info" where
  "mfptp_send_callback p fn = p\<lparr>pi_send := fn\<rparr>"

definition mfptp_register_callback :: "'f mfptp_parser_info \<Rightarrow> 'f option \<Rightarrow> 'f mfptp_parser_info" where
  "mfptp_register_callback p fn = p\<lparr>pi_parser := (pi_parser p)\<lparr>ps_func := fn\<rparr>\<rparr>"

definition mfptp_init_parser_info :: "'f mfptp_parser_info \<Rightarrow> 'f mfptp_parser_info" where
  "mfptp_init_parser_info p = p\<lparr>
     pi_parser := (pi_parser p)\<lparr>ps_compress := 0, ps_encrypt := 0, ps_func := None, ps_method := 0,
        ps_packages := 0, ps_pos_frame_start := 0, ps_sub_version := 0, ps_version := 0\<rparr>,
     pi_status := (pi_status p)\<lparr>st_index := 0,
        st_package := (st_package (pi_status p))\<lparr>pkg_complete := 1, pkg_frames := 0\<rparr>,
        st_step := 0, st_doptr := 0\<rparr>\<rparr>"

section \<open>The state of a call\<close>

text \<open>The locals of \<^verbatim>\<open>mfptp_parse\<close> that live across iterations, with the buffer, the structure
  the caller passed and the world.\<close>

record ('f, 'w) parse_state =
  p_buf :: bytes
  p_offset :: int
  p_length_over :: int
  p_info :: "'f mfptp_parser_info"
  p_world :: 'w

abbreviation status :: "('f, 'w) parse_state \<Rightarrow> mfptp_status" where
  "status s \<equiv> pi_status (p_info s)"

abbreviation parser :: "('f, 'w) parse_state \<Rightarrow> 'f mfptp_parser" where
  "parser s \<equiv> pi_parser (p_info s)"

definition upd_status :: "(mfptp_status \<Rightarrow> mfptp_status) \<Rightarrow> ('f, 'w) parse_state \<Rightarrow> ('f, 'w) parse_state" where
  "upd_status u s = s\<lparr>p_info := (p_info s)\<lparr>pi_status := u (status s)\<rparr>\<rparr>"

definition upd_parser :: "('f mfptp_parser \<Rightarrow> 'f mfptp_parser) \<Rightarrow> ('f, 'w) parse_state \<Rightarrow> ('f, 'w) parse_state" where
  "upd_parser u s = s\<lparr>p_info := (p_info s)\<lparr>pi_parser := u (parser s)\<rparr>\<rparr>"

definition upd_package :: "(mfptp_package \<Rightarrow> mfptp_package) \<Rightarrow> ('f, 'w) parse_state \<Rightarrow> ('f, 'w) parse_state" where
  "upd_package u = upd_status (\<lambda>st. st\<lparr>st_package := u (st_package st)\<rparr>)"

text \<open>\<^verbatim>\<open>PTR_MOVE\<close>.\<close>

definition ptr_move :: "int \<Rightarrow> ('f, 'w) parse_state \<Rightarrow> ('f, 'w) parse_state" where
  "ptr_move len s = upd_status (\<lambda>st. st\<lparr>st_doptr := s32 (st_doptr st + len)\<rparr>)
     (s\<lparr>p_offset := s32 (p_offset s + len)\<rparr>)"

text \<open>One iteration goes on with a state or returns a code and a state.\<close>

type_synonym ('f, 'w) iter = "('f, 'w) parse_state + int \<times> ('f, 'w) parse_state"

section \<open>CHECK_SIZE\<close>

text \<open>The tail of \<^verbatim>\<open>CHECK_SIZE\<close> when an oversized message is cut: the packages already
  delivered are taken off the count and the position is wound back.\<close>

definition rewind :: "('f, 'w) parse_state \<Rightarrow> ('f, 'w) parse_state" where
  "rewind s = (upd_status (\<lambda>st. st\<lparr>st_index := 0, st_doptr := s32 (st_doptr st - p_length_over s)\<rparr>)
     (upd_parser (\<lambda>p. p\<lparr>ps_packages := ps_packages p - word_of_int (st_index (status s) - 1)\<rparr>) s))
     \<lparr>p_length_over := 0\<rparr>"

text \<open>The byte-by-byte copy \<^verbatim>\<open>*begin++ = *left_data++\<close>.\<close>

fun copy_forward :: "nat \<Rightarrow> bytes \<Rightarrow> int \<Rightarrow> int \<Rightarrow> bytes option" where
  "copy_forward 0 m dst src = Some m"
| "copy_forward (Suc n) m dst src = do {
     b \<leftarrow> mread m src;
     m1 \<leftarrow> mwrite m dst b;
     copy_forward n m1 (dst + 1) (src + 1)
   }"

definition check_size :: "int \<Rightarrow> int \<Rightarrow> int \<Rightarrow> ('f, 'w) parse_state \<Rightarrow> ('f, 'w) iter option" where
  "check_size get_size a b s =
     (if s32 (a + b) > get_size then
        (if st_step (status s) = MFPTP_PARSE_PACKAGE \<and> st_index (status s) > 0 \<and> s32 (a + b) > MAX_REQ_SIZE then
           (let left_len = s32 (MAX_REQ_SIZE - a)
            in if left_len \<le> 0 then Some (Inr (st_step (status s), rewind s))
               else do {
                 m \<leftarrow> copy_forward (nat left_len) (p_buf s) (ps_pos_frame_start (parser s)) (p_offset s);
                 Some (Inr (st_step (status s), rewind (s\<lparr>p_buf := m\<rparr>)))
               })
         else Some (Inr (st_step (status s), s)))
      else Some (Inl s))"

section \<open>One iteration\<close>

text \<open>\<^verbatim>\<open>strncmp(a, b, n)\<close> on the buffer: zero or not, reading no further than the first
  difference.\<close>

fun strneq :: "bytes \<Rightarrow> int \<Rightarrow> bytes \<Rightarrow> bool option" where
  "strneq m i [] = Some True"
| "strneq m i (c # cs) = do {
     b \<leftarrow> mread m i;
     if b = c then strneq m (i + 1) cs else Some False
   }"

definition mfptp_head_magic :: bytes where
  "mfptp_head_magic = [0x23, 0x4D, 0x46, 0x50, 0x54, 0x50]"

text \<open>The fields of the header. The version byte is shifted left and right again as an \<^verbatim>\<open>int\<close>
  stored in a \<^verbatim>\<open>short\<close>, the compression byte as a \<^verbatim>\<open>uint8_t\<close>.\<close>

definition sub_version_of :: "byte \<Rightarrow> int" where
  "sub_version_of b = (uint b * 16) div 16"

definition encrypt_of :: "byte \<Rightarrow> byte" where
  "encrypt_of b = drop_bit 4 (push_bit 4 b)"

definition head_step :: "int \<Rightarrow> ('f, 'w) parse_state \<Rightarrow> ('f, 'w) iter option" where
  "head_step get_size s0 = do {
     r \<leftarrow> check_size get_size (p_offset s0) MFPTP_BURST_HEADER_LEN s0;
     case r of Inr ret \<Rightarrow> Some (Inr ret) | Inl s1 \<Rightarrow> do {
       magic \<leftarrow> strneq (p_buf s1) (p_offset s1) mfptp_head_magic;
       if \<not> magic then Some (Inr (MFPTP_PARSE_ILEGAL, s1)) else do {
         let s2 = ptr_move 6 s1;
         v \<leftarrow> mread (p_buf s2) (p_offset s2);
         let s3 = ptr_move 1 (upd_parser (\<lambda>p. p\<lparr>ps_version := uint v div 16, ps_sub_version := sub_version_of v\<rparr>) s2);
         c \<leftarrow> mread (p_buf s3) (p_offset s3);
         let s4 = ptr_move 1 (upd_parser (\<lambda>p. p\<lparr>ps_compress := drop_bit 4 c, ps_encrypt := encrypt_of c\<rparr>) s3);
         m \<leftarrow> mread (p_buf s4) (p_offset s4);
         let s5 = ptr_move 1 (upd_parser (\<lambda>p. p\<lparr>ps_method := m\<rparr>) s4);
         if m = HEARTBEAT_METHOD then Some (Inr (MFPTP_PARSE_OVER, ptr_move 1 s5)) else do {
           n \<leftarrow> mread (p_buf s5) (p_offset s5);
           let s6 = upd_parser (\<lambda>p. p\<lparr>ps_packages := n\<rparr>) s5;
           if n = 0 then Some (Inr (MFPTP_PARSE_NODATA, s6)) else do {
             let s7 = ptr_move 1 s6;
             Some (Inl (upd_package (\<lambda>k. k\<lparr>pkg_frames := 0\<rparr>)
               (upd_parser (\<lambda>p. p\<lparr>ps_pos_frame_start := p_offset s7\<rparr>)
                 (upd_status (\<lambda>st. st\<lparr>st_step := MFPTP_PARSE_PACKAGE\<rparr>) s7))))
           }
         }
       }
     }
   }"

text \<open>The size field: \<open>n\<close> bytes after the control byte, most significant first, added up
  with the shifts of \<^verbatim>\<open>int\<close>.\<close>

fun read_frame_size :: "bytes \<Rightarrow> int \<Rightarrow> nat \<Rightarrow> int \<Rightarrow> int option" where
  "read_frame_size m i 0 acc = Some acc"
| "read_frame_size m i (Suc n) acc = do {
     b \<leftarrow> mread m i;
     read_frame_size m (i + 1) n (s32 (acc + s32 (uint b * 2 ^ (8 * n))))
   }"

text \<open>What happens when the last frame of a package is in: the callback runs, and after the
  last package the rest of the buffer moves to its start. \<^verbatim>\<open>memcpy\<close> is undefined on
  overlapping ranges.\<close>

definition shift_rest :: "int \<Rightarrow> ('f, 'w) parse_state \<Rightarrow> ('f, 'w) parse_state option" where
  "shift_rest get_size s =
     (let d = st_doptr (status s); len = s32 (get_size - d)
      in if len > 0 then do {
           asserting (len \<le> d);
           bs \<leftarrow> mreads (p_buf s) d len;
           m \<leftarrow> mwrites (p_buf s) 0 bs;
           Some (upd_status (\<lambda>st. st\<lparr>st_doptr := 0\<rparr>) (s\<lparr>p_buf := m\<rparr>))
         } else if len = 0 then Some (upd_status (\<lambda>st. st\<lparr>st_doptr := 0\<rparr>) s)
         else Some s)"

definition run_callback ::
  "('f \<Rightarrow> bytes \<Rightarrow> 'f mfptp_parser_info \<times> 'w \<Rightarrow> ('f mfptp_parser_info \<times> 'w) option) \<Rightarrow>
   ('f, 'w) parse_state \<Rightarrow> ('f, 'w) parse_state option" where
  "run_callback call s =
     (case ps_func (parser s) of
        Some fn \<Rightarrow> (if ps_method (parser s) \<noteq> HEARTBEAT_METHOD then do {
            (i, w) \<leftarrow> call fn (p_buf s) (p_info s, p_world s);
            Some (s\<lparr>p_info := i, p_world := w\<rparr>)
          } else Some s)
      | None \<Rightarrow> Some s)"

definition record_frame :: "int \<Rightarrow> int \<Rightarrow> ('f, 'w) parse_state \<Rightarrow> ('f, 'w) parse_state option" where
  "record_frame size_f_size frame_size s =
     (let k = st_package (status s); i = pkg_frames k - 1
      in if ps_method (parser s) \<noteq> HEARTBEAT_METHOD then do {
           ptrs \<leftarrow> mwrite (pkg_ptrs k) i (Some (p_offset s + size_f_size + 1));
           dsizes \<leftarrow> mwrite (pkg_dsizes k) i frame_size;
           Some (upd_package (\<lambda>k. k\<lparr>pkg_ptrs := ptrs, pkg_dsizes := dsizes\<rparr>) s)
         } else Some (upd_package (\<lambda>k. k\<lparr>pkg_frames := pkg_frames k - 1\<rparr>) s))"

text \<open>A frame whose bytes are in the buffer.\<close>

definition frame_arrived ::
  "('f \<Rightarrow> bytes \<Rightarrow> 'f mfptp_parser_info \<times> 'w \<Rightarrow> ('f mfptp_parser_info \<times> 'w) option) \<Rightarrow>
   int \<Rightarrow> int \<Rightarrow> int \<Rightarrow> ('f, 'w) parse_state \<Rightarrow> ('f, 'w) iter option" where
  "frame_arrived call get_size size_f_size frame_size s3 = do {
     let s4 = upd_package (\<lambda>k. k\<lparr>pkg_frames := s32 (pkg_frames k + 1)\<rparr>) s3;
     if pkg_frames (st_package (status s4)) > int MAX_FRAMES_PER_PACKAGE
     then Some (Inr (MFPTP_PARSE_MOREDATA, ptr_move (s32 (1 + size_f_size + frame_size)) s4))
     else do {
       s5 \<leftarrow> record_frame size_f_size frame_size s4;
       let size = s32 (FP_CONTROL_SIZE + size_f_size + frame_size);
       let s6 = s5\<lparr>p_length_over := s32 (p_length_over s5 + size)\<rparr>;
       if pkg_complete (st_package (status s6)) = 0 then do {
         s8 \<leftarrow> run_callback call (upd_status (\<lambda>st. st\<lparr>st_index := s32 (st_index st + 1)\<rparr>) s6);
         if st_index (status s8) = uint (ps_packages (parser s8)) then do {
           s9 \<leftarrow> shift_rest get_size (ptr_move size s8);
           Some (Inr (MFPTP_PARSE_OVER, s9))
         } else Some (Inl (ptr_move size (upd_package (\<lambda>_. package_zero) s8)))
       } else Some (Inl (ptr_move size s6))
     }
   }"

text \<open>The control byte: the number of size bytes, and whether more frames follow.\<close>

definition get_low01 :: "byte \<Rightarrow> int" where
  "get_low01 ctrl = uint (ctrl AND 0x03)"

definition get_low23 :: "byte \<Rightarrow> int" where
  "get_low23 ctrl = uint (drop_bit 2 (ctrl AND 0x0C))"

definition package_step ::
  "('f \<Rightarrow> bytes \<Rightarrow> 'f mfptp_parser_info \<times> 'w \<Rightarrow> ('f mfptp_parser_info \<times> 'w) option) \<Rightarrow>
   int \<Rightarrow> ('f, 'w) parse_state \<Rightarrow> ('f, 'w) iter option" where
  "package_step call get_size s0 = do {
     r \<leftarrow> check_size get_size (p_offset s0) 1 s0;
     case r of Inr ret \<Rightarrow> Some (Inr ret) | Inl s1 \<Rightarrow> do {
       ctrl \<leftarrow> mread (p_buf s1) (p_offset s1);
       let size_f_size = get_low01 ctrl + 1;
       let s2 = upd_package (\<lambda>k. k\<lparr>pkg_complete := get_low23 ctrl\<rparr>) s1;
       if get_low23 ctrl > 1 then Some (Inr (MFPTP_PARSE_ILEGAL, s2)) else do {
         frame_size \<leftarrow> read_frame_size (p_buf s2) (p_offset s2 + 1) (nat size_f_size) 0;
         r2 \<leftarrow> check_size get_size (p_offset s2) (s32 (size_f_size + frame_size)) s2;
         case r2 of Inr ret \<Rightarrow> Some (Inr ret)
         | Inl s3 \<Rightarrow> frame_arrived call get_size size_f_size frame_size s3
       }
     }
   }"

text \<open>A step outside the cases of the \<^verbatim>\<open>switch\<close> changes nothing, and the loop goes round
  for ever.\<close>

definition parse_iter ::
  "('f \<Rightarrow> bytes \<Rightarrow> 'f mfptp_parser_info \<times> 'w \<Rightarrow> ('f mfptp_parser_info \<times> 'w) option) \<Rightarrow>
   int \<Rightarrow> ('f, 'w) parse_state \<Rightarrow> ('f, 'w) iter option" where
  "parse_iter call get_size s =
     (let step = st_step (status s)
      in if step = MFPTP_PARSE_ILEGAL \<or> step = MFPTP_PARSE_INIT \<or> step = MFPTP_PARSE_HEAD then head_step get_size s
         else if step = MFPTP_PARSE_PACKAGE then package_step call get_size s
         else if step = MFPTP_PARSE_OVER then Some (Inr (MFPTP_PARSE_OVER, s))
         else Some (Inl s))"

section \<open>The parser\<close>

datatype 'a run = Returns 'a | OutOfFuel

fun parse_loop ::
  "nat \<Rightarrow> ('f \<Rightarrow> bytes \<Rightarrow> 'f mfptp_parser_info \<times> 'w \<Rightarrow> ('f mfptp_parser_info \<times> 'w) option) \<Rightarrow>
   int \<Rightarrow> ('f, 'w) parse_state \<Rightarrow> (int \<times> ('f, 'w) parse_state) run option" where
  "parse_loop 0 call get_size s = Some OutOfFuel"
| "parse_loop (Suc n) call get_size s = do {
     r \<leftarrow> parse_iter call get_size s;
     case r of Inl s' \<Rightarrow> parse_loop n call get_size s' | Inr ret \<Rightarrow> Some (Returns ret)
   }"

text \<open>The result: the return code, the buffer, the parser information and the world.\<close>

definition mfptp_parse ::
  "nat \<Rightarrow> ('f \<Rightarrow> bytes \<Rightarrow> 'f mfptp_parser_info \<times> 'w \<Rightarrow> ('f mfptp_parser_info \<times> 'w) option) \<Rightarrow>
   bytes \<Rightarrow> int \<Rightarrow> 'f mfptp_parser_info \<Rightarrow> 'w \<Rightarrow> (int \<times> ('f, 'w) parse_state) run option" where
  "mfptp_parse fuel call buf get_size info w =
     parse_loop fuel call get_size
       \<lparr>p_buf = buf, p_offset = st_doptr (pi_status info), p_length_over = 0, p_info = info, p_world = w\<rparr>"

end
