(* ===== verification/Mfptp_Callbacks.thy ===== *)
theory Mfptp_Callbacks
  imports Mfptp_Pack Mfptp_Parser
begin

text \<open>
  The two callbacks the MFPTP library offers for a parsed package
  (\<^verbatim>\<open>lib/libmfptp/mfptp_parser.c\<close>): \<^verbatim>\<open>mfptp_drift_out_callback\<close> decrypts and decompresses
  every frame into scratch buffers, \<^verbatim>\<open>mfptp_auth_callback\<close> reads the login frame. Both get the
  bytes of the receive buffer, into which the frame pointers of the package point, and
  return the changed parser information (the first also what its scratch buffers held frame by
  frame, before it freed them); a read or write outside a buffer is \<^term>\<open>None\<close>.
\<close>

section \<open>Forwarding a package\<close>

definition NO_ENCRYPTION :: byte where "NO_ENCRYPTION = 0"
definition IDEA_ENCRYPTION :: byte where "IDEA_ENCRYPTION = 1"
definition AES_ENCRYPTION :: byte where "AES_ENCRYPTION = 2"
definition ZIP_COMPRESSION :: byte where "ZIP_COMPRESSION = 1"
definition GZIP_COMPRESSION :: byte where "GZIP_COMPRESSION = 2"

lemmas mfptp_format_codes = NO_ENCRYPTION_def IDEA_ENCRYPTION_def AES_ENCRYPTION_def
  ZIP_COMPRESSION_def GZIP_COMPRESSION_def

text \<open>The bytes of frame \<open>i\<close> of a package, through its pointer and size.\<close>

definition frame_bytes :: "bytes \<Rightarrow> mfptp_package \<Rightarrow> int \<Rightarrow> bytes option" where
  "frame_bytes m k i = do {
     ptr \<leftarrow> mread (pkg_ptrs k) i;
     off \<leftarrow> ptr;
     n \<leftarrow> mread (pkg_dsizes k) i;
     mreads m off n
   }"

text \<open>The cipher stage writes \<^verbatim>\<open>me->buf\<close>, the decompression stage \<^verbatim>\<open>me->buf1\<close>; both return the C
  return value and the bytes written, which have to fit the scratch buffer. A failed decryption
  leaves -1 in \<^verbatim>\<open>out_len\<close>, which the decompressor takes for a length of four gigabytes and \<^verbatim>\<open>memcpy\<close>
  for more.\<close>

definition drift_decrypt :: "('x, 'z) mfptp_env \<Rightarrow> bytes \<Rightarrow> byte \<Rightarrow> bytes \<Rightarrow> (int \<times> bytes) option" where
  "drift_decrypt env key encrypt data = do {
     let (out_len, buf) =
       (if encrypt = IDEA_ENCRYPTION then mfptp_idea_ecb_decrypt_evp (env_ssl env) key data (int (length data))
        else if encrypt = AES_ENCRYPTION then mfptp_aes_ecb_decrypt_evp (env_ssl env) key data (int (length data))
        else (int (length data), data));
     asserting (int (length buf) \<le> MFPTP_FRAME_MAX_LEN);
     Some (out_len, buf)
   }"

definition drift_decompress :: "('x, 'z) mfptp_env \<Rightarrow> byte \<Rightarrow> int \<Rightarrow> bytes \<Rightarrow> (int \<times> bytes) option" where
  "drift_decompress env compress out_len buf =
     (if compress = ZIP_COMPRESSION then do {
        asserting (0 \<le> out_len);
        Some (mfptp_unzip (env_zlib env) buf out_len MFPTP_FRAME_MAX_LEN)
      } else if compress = GZIP_COMPRESSION then do {
        asserting (0 \<le> out_len);
        Some (mfptp_ungzip (env_zlib env) buf out_len MFPTP_FRAME_MAX_LEN)
      } else do { b \<leftarrow> mreads buf 0 out_len; Some (out_len, b) })"

definition drift_frame ::
  "('x, 'z) mfptp_env \<Rightarrow> bytes \<Rightarrow> int \<Rightarrow> int \<Rightarrow> 'f mfptp_parser_info \<Rightarrow> 'f mfptp_parser_info option" where
  "drift_frame env m cnt i me = do {
     let flg = (if i = cnt - 1 then 0 else 1);
     data \<leftarrow> frame_bytes m (st_package (pi_status me)) i;
     (out_len, buf) \<leftarrow> drift_decrypt env (pi_key me) (ps_encrypt (pi_parser me)) data;
     (de_len, buf1) \<leftarrow> drift_decompress env (ps_compress (pi_parser me)) out_len buf;
     Some (me\<lparr>pi_snd_flg := flg, pi_out_len := out_len, pi_buf := Block buf, pi_de_len := de_len, pi_buf1 := Block buf1\<rparr>)
   }"

text \<open>At the end of an iteration the plain frame is in \<^verbatim>\<open>me->buf1\<close>, which the next iteration
  overwrites and the end of the call frees; the calls \<^verbatim>\<open>me->p_send(data)\<close> that would pass it on there
  are commented out. The second result lists what such a call would find: \<^verbatim>\<open>snd_flg\<close>, \<^verbatim>\<open>de_len\<close> and
  the block \<^verbatim>\<open>buf1\<close>, for every frame.\<close>

fun drift_frames ::
  "('x, 'z) mfptp_env \<Rightarrow> bytes \<Rightarrow> int \<Rightarrow> nat \<Rightarrow> nat \<Rightarrow> 'f mfptp_parser_info \<Rightarrow>
   ('f mfptp_parser_info \<times> (int \<times> int \<times> scratch) list) option" where
  "drift_frames env m cnt i 0 me = Some (me, [])"
| "drift_frames env m cnt i (Suc n) me = do {
     me1 \<leftarrow> drift_frame env m cnt (int i) me;
     (me2, outs) \<leftarrow> drift_frames env m cnt (Suc i) n me1;
     Some (me2, (pi_snd_flg me1, pi_de_len me1, pi_buf1 me1) # outs)
   }"

definition mfptp_drift_out_callback ::
  "('x, 'z) mfptp_env \<Rightarrow> bytes \<Rightarrow> 'f mfptp_parser_info \<Rightarrow>
   ('f mfptp_parser_info \<times> (int \<times> int \<times> scratch) list) option" where
  "mfptp_drift_out_callback env m me0 =
     (let cnt = pkg_frames (st_package (pi_status me0));
          me = me0\<lparr>pi_de_len := 0, pi_out_len := 0, pi_buf := Null, pi_buf1 := Null\<rparr>
      in if \<not> env_malloc1 env then Some (me, [])
         else if \<not> env_malloc2 env then Some (me\<lparr>pi_buf1 := Freed\<rparr>, [])
         else do {
           (me1, outs) \<leftarrow> drift_frames env m cnt 0 (nat cnt) (me\<lparr>pi_buf1 := Block [], pi_buf := Block []\<rparr>);
           Some (me1\<lparr>pi_buf1 := Freed, pi_buf := Freed\<rparr>, outs)
         })"

section \<open>Reading a login\<close>

definition MFPTP_UID_MAX_LEN :: int where "MFPTP_UID_MAX_LEN = 63"
definition MFPTP_INVALID_UID :: bytes where "MFPTP_INVALID_UID = replicate 6 0x31"

text \<open>The flag is read through a \<^verbatim>\<open>char\<close> pointer, sixteen bytes into the frame whatever its
  size.\<close>

definition mfptp_auth_callback :: "bytes \<Rightarrow> 'f mfptp_parser_info \<Rightarrow> 'f mfptp_parser_info option" where
  "mfptp_auth_callback m me =
     (let k = st_package (pi_status me)
      in if pkg_frames k = 1 then do {
           n \<leftarrow> mread (pkg_dsizes k) 0;
           if n > 0 \<and> n < MFPTP_UID_MAX_LEN then do {
             ptr \<leftarrow> mread (pkg_ptrs k) 0;
             off \<leftarrow> ptr;
             uid \<leftarrow> mreads m off (n - 1);
             who \<leftarrow> mwrites (pi_who me) 0 uid;
             flag \<leftarrow> mread m (off + 15);
             Some (me\<lparr>pi_who := who, pi_force_login := sint flag\<rparr>)
           } else do {
             who \<leftarrow> mwrites (pi_who me) 0 MFPTP_INVALID_UID;
             Some (me\<lparr>pi_who := who\<rparr>)
           }
         } else do {
           who \<leftarrow> mwrites (pi_who me) 0 MFPTP_INVALID_UID;
           Some (me\<lparr>pi_who := who\<rparr>)
         })"

end
