(* ===== verification/Mfptp_Protocol.thy ===== *)
theory Mfptp_Protocol
  imports Mfptp_Callbacks
begin

text \<open>
  The MFPTP protocol as a whole: the parser of \<open>Mfptp_Parser\<close> against the wire format the
  packer of \<open>Mfptp_Pack\<close> produces. The interface \<open>delivery\<close> says what a package callback has to
  promise; the parser's run over a well-formed message is proved once against it and
  used for the recording callback and for the library's own callbacks.
\<close>

section \<open>One frame on the wire\<close>

lemma uint_byte_of_int: "uint (byte_of_int k x) = (x div 2 ^ (8 * k)) mod 256"
  by (simp add: byte_of_int_def unsigned_of_int take_bit_eq_mod)

lemma two_bytes: "0 \<le> n \<Longrightarrow> n < 65536 \<Longrightarrow> (n div 256) mod 256 * 256 + n mod 256 = (n::int)"
proof -
  assume "0 \<le> n" "n < 65536"
  then have "(n div 256) mod 256 = n div 256" by simp
  then show ?thesis by (simp add: div_mult_mod_eq)
qed

lemma three_bytes:
  assumes "0 \<le> n" "n < 16777216"
  shows "(n div 65536) mod 256 * 65536 + ((n div 256) mod 256 * 256 + n mod 256) = (n::int)"
proof -
  define q where "q = n div 256"
  have q: "n = q * 256 + n mod 256" unfolding q_def by simp
  have "n div 65536 = q div 256" using zdiv_zmult2_eq [of 256 n 256] by (simp add: q_def)
  moreover have "(q div 256) mod 256 = q div 256" using assms by (simp add: q_def)
  ultimately have "(n div 65536) mod 256 * 65536 + ((n div 256) mod 256 * 256 + n mod 256)
      = (q div 256 * 256 + q mod 256) * 256 + n mod 256"
    unfolding q_def [symmetric] by (simp only: distrib_right)
  also have "\<dots> = n" using q by (simp only: div_mult_mod_eq)
  finally show ?thesis .
qed

lemma mread_append_nth:
  "i = int (length xs) + int j \<Longrightarrow> j < length ys \<Longrightarrow> mread (xs @ ys @ zs) i = Some (ys ! j)"
  by (auto simp: mread_def nth_append nat_add_distrib)

lemma prefix_decode:
  fixes g :: bytes and mf :: int
  assumes "length g < 16777216"
  defines "c \<equiv> hd (frame_wire mf g)" and "k \<equiv> int (length (frame_prefix (if mf \<noteq> 0 then 4 else 0) (int (length g)))) - 1"
  shows "mread (xs @ frame_wire mf g @ ys) (int (length xs)) = Some c"
    and "get_low01 c + 1 = k"
    and "get_low23 c = (if mf \<noteq> 0 then 1 else 0)"
    and "read_frame_size (xs @ frame_wire mf g @ ys) (int (length xs) + 1) (nat k) 0 = Some (int (length g))"
    and "int (length (frame_wire mf g)) = 1 + k + int (length g)" and "1 \<le> k" and "k \<le> 3"
proof -
  let ?n = "int (length g)" and ?m = "xs @ frame_wire mf g @ ys" and ?b = "if mf \<noteq> 0 then 4 else (0::byte)"
  have len: "0 \<le> ?n" "?n < 16777216" using assms(1) by simp_all
  have c: "c = hd (frame_prefix ?b ?n)" by (auto simp: c_def frame_wire_def frame_prefix_def)
  have rd: "mread ?m (int (length xs) + int j) = Some (frame_prefix ?b ?n ! j)"
    if "j < length (frame_prefix ?b ?n)" for j
  proof -
    have "mread (xs @ frame_prefix ?b ?n @ (g @ ys)) (int (length xs) + int j) = Some (frame_prefix ?b ?n ! j)"
      by (rule mread_append_nth) (use that in simp_all)
    then show ?thesis by (simp add: frame_wire_def)
  qed
  note r = rd [of 0] rd [of 1] rd [of 2] rd [of 3]
  show "mread ?m (int (length xs)) = Some c"
    using r(1) by (auto simp: c frame_prefix_def split: if_splits)
  show "get_low01 c + 1 = k" "get_low23 c = (if mf \<noteq> 0 then 1 else 0)"
    by (auto simp: c k_def frame_prefix_def get_low01_def get_low23_def drop_bit_eq_div)
  show "int (length (frame_wire mf g)) = 1 + k + int (length g)" "1 \<le> k" "k \<le> 3"
    by (auto simp: k_def frame_wire_def frame_prefix_def)
  consider (one) "?n < 255" | (two) "255 \<le> ?n" "?n \<le> 65535" | (three) "65535 < ?n" by linarith
  then show "read_frame_size ?m (int (length xs) + 1) (nat k) 0 = Some ?n"
  proof cases
    case one
    then have "nat k = Suc 0" by (simp add: k_def frame_prefix_def)
    with one r(2) show ?thesis by (simp add: frame_prefix_def uint_byte_of_int)
  next
    case two
    then have k: "nat k = Suc (Suc 0)" by (simp add: k_def frame_prefix_def)
    have "mread ?m (int (length xs) + 1) = Some (byte_of_int 1 ?n)" "mread ?m (int (length xs) + 2) = Some (byte_of_int 0 ?n)"
      using two r(2,3) by (simp_all add: frame_prefix_def)
    with two show ?thesis unfolding k using two_bytes [of ?n] by (simp add: uint_byte_of_int add.assoc)
  next
    case three
    then have k: "nat k = Suc (Suc (Suc 0))" by (simp add: k_def frame_prefix_def)
    have "mread ?m (int (length xs) + 1) = Some (byte_of_int 2 ?n)" "mread ?m (int (length xs) + 2) = Some (byte_of_int 1 ?n)"
        "mread ?m (int (length xs) + 3) = Some (byte_of_int 0 ?n)"
      using three r(2,3,4) by (simp_all add: frame_prefix_def numeral_3_eq_3)
    with three len show ?thesis unfolding k using three_bytes [of ?n] by (simp add: uint_byte_of_int add.assoc)
  qed
qed


section \<open>What a callback is shown\<close>

text \<open>The package under construction holds the frames \<open>gs\<close>: their number, and a pointer and a
  size for each that select its bytes in the buffer.\<close>

definition package_view :: "bytes \<Rightarrow> mfptp_package \<Rightarrow> bytes list \<Rightarrow> bool" where
  "package_view m k gs \<longleftrightarrow> pkg_frames k = int (length gs)
     \<and> length (pkg_ptrs k) = MAX_FRAMES_PER_PACKAGE \<and> length (pkg_dsizes k) = MAX_FRAMES_PER_PACKAGE
     \<and> (\<forall>i < length gs. frame_bytes m k (int i) = Some (gs ! i))"

lemma package_view_zero [simp]: "package_view m package_zero []"
  by (simp add: package_view_def package_zero_def)

definition add_frame :: "int \<Rightarrow> int \<Rightarrow> int \<Rightarrow> mfptp_package \<Rightarrow> mfptp_package" where
  "add_frame complete off n k = k\<lparr>pkg_complete := complete, pkg_frames := pkg_frames k + 1,
     pkg_ptrs := (pkg_ptrs k)[nat (pkg_frames k) := Some off],
     pkg_dsizes := (pkg_dsizes k)[nat (pkg_frames k) := n]\<rparr>"

lemma package_view_add_frame:
  assumes "package_view m k gs" "length gs < MAX_FRAMES_PER_PACKAGE" "mreads m off (int (length g)) = Some g"
  shows "package_view m (add_frame c off (int (length g)) k) (gs @ [g])"
proof -
  have "frame_bytes m (add_frame c off (int (length g)) k) (int i) = Some ((gs @ [g]) ! i)"
    if "i < length (gs @ [g])" for i
  proof (cases "i = length gs")
    case True
    then show ?thesis using assms
      by (simp add: package_view_def frame_bytes_def add_frame_def mread_def)
  next
    case False
    then have i: "i < length gs" using that by simp
    have "frame_bytes m (add_frame c off (int (length g)) k) (int i) = frame_bytes m k (int i)"
      using assms(1) i by (simp add: package_view_def frame_bytes_def add_frame_def mread_def)
    then show ?thesis using assms(1) i by (simp add: package_view_def nth_append)
  qed
  then show ?thesis using assms(1) by (simp add: package_view_def add_frame_def)
qed

section \<open>One iteration over a frame\<close>

text \<open>The state in the middle of a message: \<open>xs\<close> is behind the position.\<close>

definition at_frame :: "bytes \<Rightarrow> bytes \<Rightarrow> ('f, 'w) parse_state \<Rightarrow> bool" where
  "at_frame m xs s \<longleftrightarrow> p_buf s = m \<and> p_offset s = int (length xs) \<and> st_doptr (status s) = int (length xs)
     \<and> st_step (status s) = MFPTP_PARSE_PACKAGE \<and> ps_method (parser s) \<noteq> HEARTBEAT_METHOD"

definition take_frame :: "int \<Rightarrow> bytes \<Rightarrow> ('f, 'w) parse_state \<Rightarrow> ('f, 'w) parse_state" where
  "take_frame mf g s =
     upd_package (add_frame (if mf \<noteq> 0 then 1 else 0)
         (p_offset s + int (length (frame_wire mf g)) - int (length g)) (int (length g)))
       (s\<lparr>p_length_over := s32 (p_length_over s + int (length (frame_wire mf g)))\<rparr>)"

lemma frame_arrived_recorded:
  fixes s :: "('f, 'w) parse_state"
  assumes fr: "0 \<le> pkg_frames (st_package (status s))" "pkg_frames (st_package (status s)) < int MAX_FRAMES_PER_PACKAGE"
    and len: "length (pkg_ptrs (st_package (status s))) = MAX_FRAMES_PER_PACKAGE"
      "length (pkg_dsizes (st_package (status s))) = MAX_FRAMES_PER_PACKAGE"
    and meth: "ps_method (parser s) \<noteq> HEARTBEAT_METHOD"
    and n: "s32 (1 + k + n) = n1" "n1 = 1 + k + n" and off: "off = p_offset s + k + 1"
  shows "frame_arrived call get_size k n (upd_package (\<lambda>k. k\<lparr>pkg_complete := c\<rparr>) s) =
    (let s6 = upd_package (add_frame c off n) (s\<lparr>p_length_over := s32 (p_length_over s + n1)\<rparr>) in
     if c \<noteq> 0 then Some (Inl (ptr_move n1 s6))
     else do {
       s8 \<leftarrow> run_callback call (upd_status (\<lambda>st. st\<lparr>st_index := s32 (st_index st + 1)\<rparr>) s6);
       if st_index (status s8) = uint (ps_packages (parser s8)) then do {
         s9 \<leftarrow> shift_rest get_size (ptr_move n1 s8);
         Some (Inr (MFPTP_PARSE_OVER, s9))
       } else Some (Inl (ptr_move n1 (upd_package (\<lambda>_. package_zero) s8)))
     })"
proof -
  define s4 where "s4 = upd_package (\<lambda>k. k\<lparr>pkg_frames := s32 (pkg_frames k + 1)\<rparr>) (upd_package (\<lambda>k. k\<lparr>pkg_complete := c\<rparr>) s)"
  define s5 where "s5 = upd_package (add_frame c off n) s"
  have f: "s32 (pkg_frames (st_package (status s)) + 1) = pkg_frames (st_package (status s)) + 1"
    using fr by (simp add: MAX_FRAMES_PER_PACKAGE_def)
  then have s4: "pkg_frames (st_package (status s4)) = pkg_frames (st_package (status s)) + 1"
    by (simp add: s4_def upd_package_def upd_status_def)
  have "record_frame k n s4 = Some s5"
    using fr len meth f off
    by (simp add: record_frame_def s4_def s5_def add_frame_def upd_package_def upd_status_def mwrite_def Let_def)
  moreover have "pkg_complete (st_package (status (s5\<lparr>p_length_over := x\<rparr>))) = c" for x
    by (simp add: s5_def upd_package_def upd_status_def add_frame_def)
  moreover have "s5\<lparr>p_length_over := s32 (p_length_over s5 + n1)\<rparr>
      = upd_package (add_frame c off n) (s\<lparr>p_length_over := s32 (p_length_over s + n1)\<rparr>)"
    by (simp add: s5_def upd_package_def upd_status_def)
  ultimately show ?thesis
    using fr(2) by (simp add: frame_arrived_def s4 n(1) FP_CONTROL_SIZE_def Let_def flip: s4_def)
qed

text \<open>\<open>get_size\<close> may be one less than the bytes of the frame need: the second size check does not
  count the control byte.\<close>

lemma package_step_frame:
  fixes s :: "('f, 'w) parse_state"
  assumes at: "at_frame (xs @ frame_wire mf g @ ys) xs s"
    and size: "int (length xs + length (frame_wire mf g)) \<le> get_size + 1" "1 + int (length xs) \<le> get_size"
    and small: "length g < 16777216" "int (length xs) \<le> 1073741824"
    and fr: "0 \<le> pkg_frames (st_package (status s))" "pkg_frames (st_package (status s)) < int MAX_FRAMES_PER_PACKAGE"
    and len: "length (pkg_ptrs (st_package (status s))) = MAX_FRAMES_PER_PACKAGE"
      "length (pkg_dsizes (st_package (status s))) = MAX_FRAMES_PER_PACKAGE"
  shows "package_step call get_size s =
    (let n = int (length (frame_wire mf g)); s6 = take_frame mf g s in
     if mf \<noteq> 0 then Some (Inl (ptr_move n s6))
     else do {
       s8 \<leftarrow> run_callback call (upd_status (\<lambda>st. st\<lparr>st_index := s32 (st_index st + 1)\<rparr>) s6);
       if st_index (status s8) = uint (ps_packages (parser s8)) then do {
         s9 \<leftarrow> shift_rest get_size (ptr_move n s8);
         Some (Inr (MFPTP_PARSE_OVER, s9))
       } else Some (Inl (ptr_move n (upd_package (\<lambda>_. package_zero) s8)))
     })"
proof -
  define c where "c = hd (frame_wire mf g)"
  define k where "k = int (length (frame_prefix (if mf \<noteq> 0 then 4 else 0) (int (length g)))) - 1"
  note d = prefix_decode [OF small(1), where mf = mf, folded c_def k_def]
  have buf: "p_buf s = xs @ frame_wire mf g @ ys" "p_offset s = int (length xs)"
    "ps_method (pi_parser (p_info s)) \<noteq> HEARTBEAT_METHOD"
    using at by (simp_all add: at_frame_def)
  have k: "s32 (k + int (length g)) = k + int (length g)"
    "s32 (int (length xs) + (k + int (length g))) = int (length xs) + (k + int (length g))"
    "s32 (int (length xs) + 1) = int (length xs) + 1"
    "s32 (1 + k + int (length g)) = 1 + k + int (length g)"
    "s32 (pkg_frames (st_package (status s)) + 1) = pkg_frames (st_package (status s)) + 1"
    using d(6,7) small fr by (simp_all add: MAX_FRAMES_PER_PACKAGE_def)
  have c1: "check_size get_size (int (length xs)) 1 s' = Some (Inl s')" for s' :: "('f, 'w) parse_state"
    using size(2) k by (simp add: check_size_def)
  have c2: "check_size get_size (int (length xs)) (k + int (length g)) s' = Some (Inl s')" for s' :: "('f, 'w) parse_state"
    using size(1) k d(5) by (simp add: check_size_def)
  define c' where "c' = (if mf \<noteq> 0 then 1 else (0::int))"
  define s2 where "s2 = upd_package (\<lambda>k. k\<lparr>pkg_complete := get_low23 c\<rparr>) s"
  have s2: "p_buf s2 = xs @ frame_wire mf g @ ys" "p_offset s2 = int (length xs)"
    by (simp_all add: s2_def upd_package_def upd_status_def buf)
  have "\<not> get_low23 c > 1" by (simp add: d(3))
  then have "package_step call get_size s = frame_arrived call get_size k (int (length g)) s2"
    unfolding package_step_def
    by (simp add: c1 buf(1,2) d(1,2,4) s2 c2 k(1) Let_def flip: s2_def)
  also have "\<dots> = frame_arrived call get_size k (int (length g))
      (upd_package (\<lambda>k. k\<lparr>pkg_complete := c'\<rparr>) s)"
    by (simp add: s2_def d(3) c'_def)
  also have "\<dots> = (let n = int (length (frame_wire mf g)); s6 = take_frame mf g s in
     if c' \<noteq> 0 then Some (Inl (ptr_move n s6))
     else do {
       s8 \<leftarrow> run_callback call (upd_status (\<lambda>st. st\<lparr>st_index := s32 (st_index st + 1)\<rparr>) s6);
       if st_index (status s8) = uint (ps_packages (parser s8)) then do {
         s9 \<leftarrow> shift_rest get_size (ptr_move n s8);
         Some (Inr (MFPTP_PARSE_OVER, s9))
       } else Some (Inl (ptr_move n (upd_package (\<lambda>_. package_zero) s8)))
     })"
    unfolding take_frame_def c'_def [symmetric] Let_def
    by (rule frame_arrived_recorded [OF fr len buf(3), unfolded Let_def]) (use k(4) d(5) in simp_all)
  finally show ?thesis by (simp add: c'_def Let_def)
qed

lemma message_calls_Cons: "message_calls (fs # ps) = package_calls fs @ message_calls ps"
  by (simp add: message_calls_def)

lemma frames_wire_append: "frames_wire (cs @ ds) = frames_wire cs @ frames_wire ds"
  by (simp add: frames_wire_def)

section \<open>The header\<close>

text \<open>The parser fields after the header of a message packed with \<open>p\<close>.\<close>

definition parsed_header :: "mfptp_pack \<Rightarrow> 'f mfptp_parser \<Rightarrow> 'f mfptp_parser" where
  "parsed_header p pr = pr\<lparr>ps_version := uint (pack_version_byte p) div 16,
     ps_sub_version := sub_version_of (pack_version_byte p),
     ps_compress := drop_bit 4 (pack_compress_byte p), ps_encrypt := encrypt_of (pack_compress_byte p),
     ps_method := pk_method p, ps_packages := pk_packages p, ps_pos_frame_start := 10\<rparr>"

text \<open>The array fields have the sizes they are declared with.\<close>

definition wf_info :: "'f mfptp_parser_info \<Rightarrow> bool" where
  "wf_info i \<longleftrightarrow> length (pkg_ptrs (st_package (pi_status i))) = MAX_FRAMES_PER_PACKAGE
     \<and> length (pkg_dsizes (st_package (pi_status i))) = MAX_FRAMES_PER_PACKAGE \<and> length (pi_who i) = 64"

text \<open>Ready for a message at the start of the buffer, as after \<^verbatim>\<open>mfptp_init_parser_info\<close>.\<close>

definition ready :: "'f mfptp_parser_info \<Rightarrow> bool" where
  "ready i \<longleftrightarrow> wf_info i \<and> st_index (pi_status i) = 0 \<and> st_doptr (pi_status i) = 0
     \<and> st_step (pi_status i) \<in> {MFPTP_PARSE_ILEGAL, MFPTP_PARSE_INIT, MFPTP_PARSE_HEAD}"

lemma ready_init: "wf_info i \<Longrightarrow> ready (mfptp_init_parser_info i)"
  by (simp add: ready_def wf_info_def mfptp_init_parser_info_def mfptp_parse_codes)

lemma ready_register: "ready i \<Longrightarrow> ready (mfptp_register_callback i f)"
  by (simp add: ready_def wf_info_def mfptp_register_callback_def)

lemma magic_matches: "strneq (mfptp_magic @ ys) 0 mfptp_head_magic = Some True"
  by (simp add: mfptp_magic_def mfptp_head_magic_def mread_def)

lemma header_reads:
  "mread (header_wire p @ ys) 6 = Some (pack_version_byte p)"
  "mread (header_wire p @ ys) 7 = Some (pack_compress_byte p)"
  "mread (header_wire p @ ys) 8 = Some (pk_method p)"
  "mread (header_wire p @ ys) 9 = Some (pk_packages p)"
  by (simp_all add: header_wire_def mfptp_magic_def mread_def)

lemma head_step_header:
  fixes s :: "('f, 'w) parse_state"
  assumes "p_buf s = header_wire p @ ys" "p_offset s = 0" "st_doptr (status s) = 0"
    and "10 \<le> get_size" "pk_method p \<noteq> HEARTBEAT_METHOD" "pk_packages p \<noteq> 0"
  shows "head_step get_size s = Some (Inl (s\<lparr>p_offset := 10, p_info := (p_info s)\<lparr>
     pi_parser := parsed_header p (parser s),
     pi_status := (status s)\<lparr>st_doptr := 10, st_step := MFPTP_PARSE_PACKAGE,
       st_package := (st_package (status s))\<lparr>pkg_frames := 0\<rparr>\<rparr>\<rparr>\<rparr>))"
proof -
  have "strneq (header_wire p @ ys) 0 mfptp_head_magic = Some True"
    using magic_matches [of "[pack_version_byte p, pack_compress_byte p, pk_method p, pk_packages p] @ ys"]
    by (simp add: header_wire_def)
  then show ?thesis using assms header_reads [of p ys]
    by (simp add: head_step_def check_size_def MFPTP_BURST_HEADER_LEN_def ptr_move_def upd_status_def
        upd_parser_def upd_package_def parsed_header_def Let_def)
qed

lemma nibble_bits: "w < (16::byte) \<Longrightarrow> 4 \<le> n \<Longrightarrow> \<not> bit w n"
proof -
  assume "w < 16" "4 \<le> n"
  then have "take_bit 4 w = w" by (simp add: take_bit_eq_mod mod_word_less)
  with \<open>4 \<le> n\<close> show "\<not> bit w n" by (metis bit_take_bit_iff linorder_not_less)
qed

lemma nibble_masks:
  assumes "n < 8"
  shows "bit (0x0f::int) n \<longleftrightarrow> n < 4" "bit (0xf0::int) n \<longleftrightarrow> 4 \<le> n"
proof -
  have "n = 0 \<or> n = 1 \<or> n = 2 \<or> n = 3 \<or> n = 4 \<or> n = 5 \<or> n = 6 \<or> n = 7" using assms by linarith
  then show "bit (0x0f::int) n \<longleftrightarrow> n < 4" "bit (0xf0::int) n \<longleftrightarrow> 4 \<le> n"
    by (elim disjE; simp)+
qed

lemma compress_byte_fields:
  assumes "pk_compress p < 16" "pk_encrypt p < 16"
  shows "drop_bit 4 (pack_compress_byte p) = pk_compress p" "encrypt_of (pack_compress_byte p) = pk_encrypt p"
proof -
  have b: "bit (pack_compress_byte p) n \<longleftrightarrow> (if n < 4 then bit (pk_encrypt p) n else n < 8 \<and> bit (pk_compress p) (n - 4))" for n
    using nibble_bits [OF assms(2), of n] nibble_masks [of n]
    by (cases "n < 8") (auto simp: pack_compress_byte_def Let_def bit_and_iff bit_or_iff bit_push_bit_iff dest: bit_imp_le_length)
  show "drop_bit 4 (pack_compress_byte p) = pk_compress p"
    using nibble_bits [OF assms(1)]
    by (intro bit_word_eqI) (auto simp: bit_drop_bit_eq b, metis linorder_not_less)
  show "encrypt_of (pack_compress_byte p) = pk_encrypt p"
    unfolding encrypt_of_def
    by (rule bit_word_eqI) (use nibble_bits [OF assms(2)] in \<open>auto simp: bit_drop_bit_eq bit_push_bit_iff b not_less\<close>)
qed

section \<open>Interface: package callbacks\<close>

text \<open>Positions inside a message, \<open>j\<close> packages delivered, \<open>gs\<close> the frames of the current one.\<close>

definition mid :: "'f mfptp_parser \<Rightarrow> bytes \<Rightarrow> bytes \<Rightarrow> nat \<Rightarrow> bytes list \<Rightarrow> ('f, 'w) parse_state \<Rightarrow> bool" where
  "mid pr m xs j gs s \<longleftrightarrow> at_frame m xs s \<and> parser s = pr \<and> st_index (status s) = int j
     \<and> package_view m (st_package (status s)) gs"

lemma frame_payload_read:
  "mreads (xs @ frame_wire mf g @ ys) (int (length xs) + int (length (frame_wire mf g)) - int (length g)) (int (length g)) = Some g"
  using mreads_append [of "xs @ frame_prefix (if mf \<noteq> 0 then 4 else 0) (int (length g))" g ys]
  by (simp add: frame_wire_def)

lemma length_frame_wire_gt: "Suc (length g) < length (frame_wire mf g)"
  by (simp add: frame_wire_def length_frame_prefix)

lemma mid_package_step:
  assumes "mid pr m xs j gs s" "m = xs @ frame_wire mf g @ ys"
    and "int (length xs + length (frame_wire mf g)) \<le> get_size + 1" "get_size \<le> 1073741824"
    and "length g < 16777216" "length gs < MAX_FRAMES_PER_PACKAGE"
  shows "package_step call get_size s =
    (let n = int (length (frame_wire mf g)); s6 = take_frame mf g s in
     if mf \<noteq> 0 then Some (Inl (ptr_move n s6))
     else do {
       s8 \<leftarrow> run_callback call (upd_status (\<lambda>st. st\<lparr>st_index := s32 (st_index st + 1)\<rparr>) s6);
       if st_index (status s8) = uint (ps_packages (parser s8)) then do {
         s9 \<leftarrow> shift_rest get_size (ptr_move n s8);
         Some (Inr (MFPTP_PARSE_OVER, s9))
       } else Some (Inl (ptr_move n (upd_package (\<lambda>_. package_zero) s8)))
     })"
  using assms length_frame_wire_gt [of g mf]
  by (intro package_step_frame) (auto simp: mid_def package_view_def)

lemma mid_parse_iter: "mid pr m xs j gs s \<Longrightarrow> parse_iter call get_size s = package_step call get_size s"
  by (simp add: parse_iter_def mid_def at_frame_def mfptp_parse_codes)

lemma mid_take_frame:
  assumes "mid pr m xs j gs s" "m = xs @ frame_wire mf g @ ys" "length gs < MAX_FRAMES_PER_PACKAGE"
  shows "mid pr m xs j (gs @ [g]) (take_frame mf g s)"
  using assms package_view_add_frame [OF _ assms(3) frame_payload_read [of xs mf g ys]]
  by (auto simp: mid_def at_frame_def take_frame_def upd_package_def upd_status_def)

lemma mid_ptr_move:
  assumes "mid pr m xs j gs s" "int (length (xs @ w)) \<le> 1073741825"
  shows "mid pr m (xs @ w) j gs (ptr_move (int (length w)) s)"
  using assms by (auto simp: mid_def at_frame_def ptr_move_def upd_status_def)

text \<open>What a callback promises for the packages \<open>pkgs\<close> of a message in the buffer \<open>m\<close>: shown
  package \<open>j\<close> in a world where \<open>J j\<close> holds, it returns, establishes \<open>J (Suc j)\<close> and leaves the parser's
  own fields alone. \<open>J\<close> says nothing of the parser's progress.\<close>

locale delivery =
  fixes call :: "'f \<Rightarrow> bytes \<Rightarrow> 'f mfptp_parser_info \<times> 'w \<Rightarrow> ('f mfptp_parser_info \<times> 'w) option"
    and fn :: 'f
    and pr :: "'f mfptp_parser"
    and J :: "nat \<Rightarrow> 'f mfptp_parser_info \<times> 'w \<Rightarrow> bool"
    and m :: bytes
    and pkgs :: "bytes list list"
  assumes J_status: "J j (i, w) \<Longrightarrow> J j (i\<lparr>pi_status := st\<rparr>, w)"
    and deliver: "j < length pkgs \<Longrightarrow> J j (i, w) \<Longrightarrow> pi_parser i = pr \<Longrightarrow>
      package_view m (st_package (pi_status i)) (pkgs ! j) \<Longrightarrow>
      \<exists>i' w'. call fn m (i, w) = Some (i', w') \<and> J (Suc j) (i', w') \<and> pi_parser i' = pr \<and> pi_status i' = pi_status i"
begin

lemma callback_runs:
  assumes "j < length pkgs" "J j (p_info s, p_world s)" "parser s = pr" "p_buf s = m"
    and "ps_func pr = Some fn" "ps_method pr \<noteq> HEARTBEAT_METHOD"
    and "package_view m (st_package (status s)) (pkgs ! j)"
  shows "\<exists>s'. run_callback call s = Some s' \<and> J (Suc j) (p_info s', p_world s') \<and> parser s' = pr
    \<and> status s' = status s \<and> p_buf s' = m \<and> p_offset s' = p_offset s"
  using deliver [of j "p_info s" "p_world s"] assms by (auto simp: run_callback_def)

lemma J_upd: "J j (p_info s, p_world s) \<Longrightarrow> J j (p_info (upd_status u s), p_world (upd_status u s))"
  by (simp add: upd_status_def J_status)

lemma frame_more:
  assumes mid: "mid pr m xs j gs s" and m: "m = xs @ frame_wire mf g @ ys" "mf \<noteq> 0"
    and size: "int (length xs + length (frame_wire mf g)) \<le> get_size + 1" "get_size \<le> 1073741824"
    and small: "length g < 16777216" "length gs < MAX_FRAMES_PER_PACKAGE"
    and J: "J j (p_info s, p_world s)"
  shows "\<exists>s'. parse_iter call get_size s = Some (Inl s') \<and> mid pr m (xs @ frame_wire mf g) j (gs @ [g]) s'
    \<and> J j (p_info s', p_world s')"
proof -
  let ?s = "ptr_move (int (length (frame_wire mf g))) (take_frame mf g s)"
  have "parse_iter call get_size s = Some (Inl ?s)"
    using mid_parse_iter [OF mid] mid_package_step [OF mid m(1) size small] m(2) by simp
  moreover have "mid pr m (xs @ frame_wire mf g) j (gs @ [g]) ?s"
    using mid_ptr_move [OF mid_take_frame [OF mid m(1) small(2)]] size by simp
  moreover have "J j (p_info ?s, p_world ?s)"
    using J by (simp add: ptr_move_def take_frame_def upd_package_def upd_status_def J_status)
  ultimately show ?thesis by blast
qed

text \<open>The last frame of package \<open>j\<close>: the callback runs; then either the message is over or the
  next package starts.\<close>

lemma frame_last:
  assumes mid: "mid pr m xs j gs s" and m: "m = xs @ frame_wire 0 g @ ys"
    and size: "int (length xs + length (frame_wire 0 g)) \<le> get_size + 1" "get_size \<le> 1073741824"
    and small: "length g < 16777216" "length gs < MAX_FRAMES_PER_PACKAGE"
    and J: "J j (p_info s, p_world s)" and pkg: "j < length pkgs" "pkgs ! j = gs @ [g]"
    and pr: "ps_func pr = Some fn" "ps_packages pr = of_nat (length pkgs)" "length pkgs \<le> 255"
  shows "\<exists>s' gs'. mid pr m (xs @ frame_wire 0 g) (Suc j) gs' s' \<and> J (Suc j) (p_info s', p_world s')
    \<and> parse_iter call get_size s =
      (if Suc j = length pkgs then do { s9 \<leftarrow> shift_rest get_size s'; Some (Inr (MFPTP_PARSE_OVER, s9)) }
       else Some (Inl (upd_package (\<lambda>_. package_zero) s')))"
proof -
  let ?n = "int (length (frame_wire 0 g))"
  let ?s7 = "upd_status (\<lambda>st. st\<lparr>st_index := s32 (st_index st + 1)\<rparr>) (take_frame 0 g s)"
  have t: "mid pr m xs j (gs @ [g]) (take_frame 0 g s)" by (rule mid_take_frame [OF mid m small(2)])
  have "st_index (status (take_frame 0 g s)) = int j" using t by (simp add: mid_def)
  then have idx: "s32 (st_index (status (take_frame 0 g s)) + 1) = int (Suc j)" using pkg(1) pr(3) by simp
  have m7: "mid pr m xs (Suc j) (gs @ [g]) ?s7"
    using t idx by (auto simp: mid_def at_frame_def upd_status_def)
  have "J j (p_info ?s7, p_world ?s7)"
    using J by (simp add: take_frame_def upd_package_def upd_status_def J_status)
  then obtain s8 where s8: "run_callback call ?s7 = Some s8" "J (Suc j) (p_info s8, p_world s8)" "parser s8 = pr"
      "status s8 = status ?s7" "p_buf s8 = m" "p_offset s8 = p_offset ?s7"
    using callback_runs [OF pkg(1), of ?s7] m7 pkg(2) pr(1) by (auto simp: mid_def at_frame_def)
  then have m8: "mid pr m xs (Suc j) (gs @ [g]) s8" using m7 by (auto simp: mid_def at_frame_def)
  have "st_index (status s8) = uint (ps_packages (parser s8)) \<longleftrightarrow> Suc j = length pkgs"
    using m8 pr(2,3) s8(3) by (simp add: mid_def unsigned_of_nat take_bit_nat_eq_self) linarith
  then have step: "parse_iter call get_size s =
      (if Suc j = length pkgs then do { s9 \<leftarrow> shift_rest get_size (ptr_move ?n s8); Some (Inr (MFPTP_PARSE_OVER, s9)) }
       else Some (Inl (ptr_move ?n (upd_package (\<lambda>_. package_zero) s8))))"
    using mid_parse_iter [OF mid] mid_package_step [OF mid m(1) size small] s8(1) by (simp add: Let_def)
  have "ptr_move ?n (upd_package (\<lambda>_. package_zero) s8) = upd_package (\<lambda>_. package_zero) (ptr_move ?n s8)"
    by (simp add: ptr_move_def upd_package_def upd_status_def)
  moreover have "mid pr m (xs @ frame_wire 0 g) (Suc j) (gs @ [g]) (ptr_move ?n s8)"
    using mid_ptr_move [OF m8] size by simp
  moreover have "J (Suc j) (p_info (ptr_move ?n s8), p_world (ptr_move ?n s8))"
    using s8(2) by (simp add: ptr_move_def upd_status_def J_status)
  ultimately show ?thesis using step by metis
qed

text \<open>One package, \<open>gs\<close> of its frames already in.\<close>

lemma package_run:
  assumes "mid pr m xs j gs s" "m = xs @ frames_wire (package_calls fs) @ ys"
    and "int (length xs + length (frames_wire (package_calls fs))) \<le> get_size + 1" "get_size \<le> 1073741824"
    and "\<forall>f \<in> set fs. length f < 16777216" "length (gs @ fs) \<le> MAX_FRAMES_PER_PACKAGE" "fs \<noteq> []"
    and "J j (p_info s, p_world s)" "j < length pkgs" "pkgs ! j = gs @ fs"
    and pr: "ps_func pr = Some fn" "ps_packages pr = of_nat (length pkgs)" "length pkgs \<le> 255"
  shows "\<exists>s' gs'. mid pr m (xs @ frames_wire (package_calls fs)) (Suc j) gs' s' \<and> J (Suc j) (p_info s', p_world s')
    \<and> (\<forall>n. parse_loop (length fs + n) call get_size s =
      (if Suc j = length pkgs then do { s9 \<leftarrow> shift_rest get_size s'; Some (Returns (MFPTP_PARSE_OVER, s9)) }
       else parse_loop n call get_size (upd_package (\<lambda>_. package_zero) s')))"
  using assms(1-10)
proof (induction fs arbitrary: xs gs s rule: package_calls.induct)
  case 1
  then show ?case by simp
next
  case (2 f)
  then have w: "frames_wire (package_calls [f]) = frame_wire 0 f" by (simp add: frames_wire_def)
  obtain s' gs' where s': "mid pr m (xs @ frame_wire 0 f) (Suc j) gs' s'" "J (Suc j) (p_info s', p_world s')"
    "parse_iter call get_size s = (if Suc j = length pkgs then do { s9 \<leftarrow> shift_rest get_size s'; Some (Inr (MFPTP_PARSE_OVER, s9)) }
       else Some (Inl (upd_package (\<lambda>_. package_zero) s')))"
    using frame_last [of xs j gs s f ys get_size] 2 pr w by auto
  then show ?case unfolding w by (intro exI [of _ s'] exI [of _ gs']) (auto simp: Option.bind_assoc)
next
  case (3 f g fs)
  have w: "frames_wire (package_calls (f # g # fs)) = frame_wire 1 f @ frames_wire (package_calls (g # fs))"
    by (simp add: frames_wire_def)
  obtain s1 where s1: "parse_iter call get_size s = Some (Inl s1)" "mid pr m (xs @ frame_wire 1 f) j (gs @ [f]) s1"
      "J j (p_info s1, p_world s1)"
    using frame_more [of xs j gs s 1 f "frames_wire (package_calls (g # fs)) @ ys" get_size] "3.prems" w by auto
  obtain s' gs' where "mid pr m ((xs @ frame_wire 1 f) @ frames_wire (package_calls (g # fs))) (Suc j) gs' s'"
    "J (Suc j) (p_info s', p_world s')" and
    "\<forall>n. parse_loop (length (g # fs) + n) call get_size s1 =
      (if Suc j = length pkgs then do { s9 \<leftarrow> shift_rest get_size s'; Some (Returns (MFPTP_PARSE_OVER, s9)) }
       else parse_loop n call get_size (upd_package (\<lambda>_. package_zero) s'))"
    using "3.IH" [OF s1(2)] s1(3) "3.prems" w by auto
  then show ?case using s1(1) unfolding w by (intro exI [of _ s'] exI [of _ gs']) simp
qed

lemma message_run:
  assumes "mid pr m xs j [] s" "m = xs @ frames_wire (message_calls (drop j pkgs)) @ ys"
    and "int (length xs + length (frames_wire (message_calls (drop j pkgs)))) \<le> get_size + 1" "get_size \<le> 1073741824"
    and "J j (p_info s, p_world s)" "j < length pkgs"
    and pk: "\<forall>fs \<in> set pkgs. fs \<noteq> [] \<and> length fs \<le> MAX_FRAMES_PER_PACKAGE \<and> (\<forall>f \<in> set fs. length f < 16777216)"
    and pr: "ps_func pr = Some fn" "ps_packages pr = of_nat (length pkgs)" "length pkgs \<le> 255"
  shows "\<exists>s' gs'. mid pr m (xs @ frames_wire (message_calls (drop j pkgs))) (length pkgs) gs' s' \<and> J (length pkgs) (p_info s', p_world s')
    \<and> parse_loop (length (concat (drop j pkgs)) + n) call get_size s =
      do { s9 \<leftarrow> shift_rest get_size s'; Some (Returns (MFPTP_PARSE_OVER, s9)) }"
  using assms(1-6)
proof (induction "length pkgs - j" arbitrary: xs j s)
  case 0
  then show ?case by simp
next
  case (Suc d)
  have dr: "drop j pkgs = pkgs ! j # drop (Suc j) pkgs" using Suc.prems(6) by (rule Cons_nth_drop_Suc [symmetric])
  have p: "pkgs ! j \<noteq> []" "length (pkgs ! j) \<le> MAX_FRAMES_PER_PACKAGE" "\<forall>f \<in> set (pkgs ! j). length f < 16777216"
    using pk Suc.prems(6) by auto
  let ?w = "frames_wire (package_calls (pkgs ! j))" and ?r = "frames_wire (message_calls (drop (Suc j) pkgs))"
  have w: "frames_wire (message_calls (drop j pkgs)) = ?w @ ?r"
    by (simp add: dr message_calls_Cons frames_wire_append)
  obtain s1 gs1 where s1: "mid pr m (xs @ ?w) (Suc j) gs1 s1" "J (Suc j) (p_info s1, p_world s1)"
    and loop: "\<And>n. parse_loop (length (pkgs ! j) + n) call get_size s =
      (if Suc j = length pkgs then do { s9 \<leftarrow> shift_rest get_size s1; Some (Returns (MFPTP_PARSE_OVER, s9)) }
       else parse_loop n call get_size (upd_package (\<lambda>_. package_zero) s1))"
    using package_run [of xs j "[]" s "pkgs ! j" "?r @ ys" get_size] Suc.prems w p pr by auto
  show ?case
  proof (cases "Suc j = length pkgs")
    case True
    then show ?thesis using s1 loop [of n] w dr by (auto simp: message_calls_def frames_wire_def)
  next
    case False
    let ?s = "upd_package (\<lambda>_. package_zero) s1"
    have "mid pr m (xs @ ?w) (Suc j) [] ?s"
      using s1(1) by (auto simp: mid_def at_frame_def upd_package_def upd_status_def)
    moreover have "J (Suc j) (p_info ?s, p_world ?s)" using s1(2) by (simp add: upd_package_def J_upd)
    ultimately have "\<exists>s' gs'. mid pr m ((xs @ ?w) @ ?r) (length pkgs) gs' s' \<and> J (length pkgs) (p_info s', p_world s')
      \<and> parse_loop (length (concat (drop (Suc j) pkgs)) + n) call get_size ?s =
        do { s9 \<leftarrow> shift_rest get_size s'; Some (Returns (MFPTP_PARSE_OVER, s9)) }"
      using Suc.hyps(1) [of "Suc j" "xs @ ?w" ?s] Suc.hyps(2) Suc.prems w False by simp
    then show ?thesis using False loop [of "length (concat (drop (Suc j) pkgs)) + n"] w
      by (simp add: dr add.assoc)
  qed
qed

text \<open>The whole message: the loop comes to its end, when the received bytes are all of the
  message or all but its last byte.\<close>

lemma message_reached:
  assumes rdy: "ready info" and pr: "pr = parsed_header p (pi_parser info)" "ps_func pr = Some fn"
    and m: "m = header_wire p @ frames_wire (message_calls pkgs) @ ys"
    and small: "length m \<le> 1073741824"
    and pk: "\<forall>fs \<in> set pkgs. fs \<noteq> [] \<and> length fs \<le> MAX_FRAMES_PER_PACKAGE \<and> (\<forall>f \<in> set fs. length f < 16777216)"
    and p: "pk_method p \<noteq> HEARTBEAT_METHOD" "pk_packages p = of_nat (length pkgs)" "pkgs \<noteq> []" "length pkgs \<le> 255"
    and J: "J 0 (info\<lparr>pi_parser := pr\<rparr>, w)"
    and get: "int (10 + length (frames_wire (message_calls pkgs))) \<le> get_size + 1" "10 \<le> get_size" "get_size \<le> int (length m)"
  shows "\<exists>s' gs'. mid pr m (header_wire p @ frames_wire (message_calls pkgs)) (length pkgs) gs' s'
    \<and> J (length pkgs) (p_info s', p_world s')
    \<and> mfptp_parse (Suc (length (concat pkgs)) + n) call m get_size info w
      = do { s9 \<leftarrow> shift_rest get_size s'; Some (Returns (MFPTP_PARSE_OVER, s9)) }"
proof -
  let ?body = "frames_wire (message_calls pkgs)" and ?h = "header_wire p"
  define s0 where "s0 = \<lparr>p_buf = m, p_offset = 0, p_length_over = 0, p_info = info, p_world = w\<rparr>"
  define s1 where "s1 = s0\<lparr>p_offset := 10, p_info := info\<lparr>pi_parser := pr,
     pi_status := (pi_status info)\<lparr>st_doptr := 10, st_step := MFPTP_PARSE_PACKAGE,
       st_package := (st_package (pi_status info))\<lparr>pkg_frames := 0\<rparr>\<rparr>\<rparr>\<rparr>"
  have np: "pk_packages p \<noteq> 0" using p by (simp add: packages_zero_iff)
  have "head_step get_size s0 = Some (Inl s1)"
    using head_step_header [of s0 p "?body @ ys" get_size] np p(1) get m rdy pr(1)
    by (simp add: s0_def s1_def ready_def)
  then have first: "mfptp_parse (Suc (length (concat pkgs)) + n) call m get_size info w
      = parse_loop (length (concat pkgs) + n) call get_size s1"
    using rdy by (auto simp: mfptp_parse_def parse_iter_def s0_def ready_def)
  have "mid pr m ?h 0 [] s1"
    using rdy p(1) pr(1) by (auto simp: mid_def at_frame_def s1_def s0_def package_view_def ready_def wf_info_def parsed_header_def)
  moreover have "J 0 (p_info s1, p_world s1)" using J_status [OF J] by (simp add: s1_def s0_def)
  moreover have "ps_packages pr = of_nat (length pkgs)" using pr(1) p(2) by (simp add: parsed_header_def)
  ultimately show ?thesis unfolding first
    using message_run [of ?h 0 s1 ys get_size n] m small get pk p pr(2) by auto
qed

lemma message_parsed:
  assumes rdy: "ready info" and pr: "pr = parsed_header p (pi_parser info)" "ps_func pr = Some fn"
    and m: "m = header_wire p @ frames_wire (message_calls pkgs) @ rest @ slack"
    and small: "length m \<le> 1073741824" "length rest \<le> 10 + length (frames_wire (message_calls pkgs))"
    and pk: "\<forall>fs \<in> set pkgs. fs \<noteq> [] \<and> length fs \<le> MAX_FRAMES_PER_PACKAGE \<and> (\<forall>f \<in> set fs. length f < 16777216)"
    and p: "pk_method p \<noteq> HEARTBEAT_METHOD" "pk_packages p = of_nat (length pkgs)" "pkgs \<noteq> []" "length pkgs \<le> 255"
    and J: "J 0 (info\<lparr>pi_parser := pr\<rparr>, w)"
    and get: "get_size = int (10 + length (frames_wire (message_calls pkgs)) + length rest)"
  shows "\<exists>s'. mfptp_parse (Suc (length (concat pkgs)) + n) call m get_size info w = Some (Returns (MFPTP_PARSE_OVER, s'))
    \<and> J (length pkgs) (p_info s', p_world s') \<and> parser s' = pr \<and> st_index (status s') = int (length pkgs)
    \<and> st_doptr (status s') = 0 \<and> st_step (status s') = MFPTP_PARSE_PACKAGE \<and> take (length rest) (p_buf s') = rest"
proof -
  let ?body = "frames_wire (message_calls pkgs)" and ?h = "header_wire p"
  obtain s' gs' where s': "mid pr m (?h @ ?body) (length pkgs) gs' s'" "J (length pkgs) (p_info s', p_world s')"
      "mfptp_parse (Suc (length (concat pkgs)) + n) call m get_size info w
        = do { s9 \<leftarrow> shift_rest get_size s'; Some (Returns (MFPTP_PARSE_OVER, s9)) }"
    using message_reached [OF rdy pr m small(1) pk p J, of get_size n] get m by auto
  let ?d = "int (length (?h @ ?body))"
  have d: "st_doptr (status s') = ?d" "p_buf s' = (?h @ ?body) @ rest @ slack"
    using s'(1) m by (auto simp: mid_def at_frame_def)
  have len: "s32 (get_size - ?d) = int (length rest)" using get small m by simp
  define s9 where "s9 = upd_status (\<lambda>st. st\<lparr>st_doptr := 0\<rparr>)
    (if rest = [] then s' else s'\<lparr>p_buf := rest @ drop (length rest) (p_buf s')\<rparr>)"
  have "shift_rest get_size s' = Some s9"
  proof (cases "rest = []")
    case True
    then show ?thesis using len d by (simp add: shift_rest_def s9_def)
  next
    case False
    have r: "mreads (p_buf s') ?d (int (length rest)) = Some rest" unfolding d(2) by (rule mreads_append)
    have w: "mwrites (p_buf s') 0 rest = Some (rest @ drop (length rest) (p_buf s'))"
      by (simp add: mwrites_def d(2))
    show ?thesis using False len small r w unfolding shift_rest_def d(1) by (simp add: s9_def Let_def)
  qed
  then have "mfptp_parse (Suc (length (concat pkgs)) + n) call m get_size info w = Some (Returns (MFPTP_PARSE_OVER, s9))"
    using s'(3) by simp
  moreover have "J (length pkgs) (p_info s9, p_world s9)" using s'(2) by (simp add: s9_def upd_status_def J_status)
  ultimately show ?thesis using s'(1)
    by (intro exI [of _ s9]) (auto simp: s9_def upd_status_def mid_def at_frame_def)
qed

text \<open>The same bytes with the last one not received: the rest has length -1 and nothing is moved.\<close>

lemma message_parsed_short:
  assumes rdy: "ready info" and pr: "pr = parsed_header p (pi_parser info)" "ps_func pr = Some fn"
    and m: "m = header_wire p @ frames_wire (message_calls pkgs) @ slack"
    and small: "length m \<le> 1073741824"
    and pk: "\<forall>fs \<in> set pkgs. fs \<noteq> [] \<and> length fs \<le> MAX_FRAMES_PER_PACKAGE \<and> (\<forall>f \<in> set fs. length f < 16777216)"
    and p: "pk_method p \<noteq> HEARTBEAT_METHOD" "pk_packages p = of_nat (length pkgs)" "pkgs \<noteq> []" "length pkgs \<le> 255"
    and J: "J 0 (info\<lparr>pi_parser := pr\<rparr>, w)"
    and get: "get_size + 1 = int (10 + length (frames_wire (message_calls pkgs)))" "10 \<le> get_size"
  shows "\<exists>s'. mfptp_parse (Suc (length (concat pkgs)) + n) call m get_size info w = Some (Returns (MFPTP_PARSE_OVER, s'))
    \<and> J (length pkgs) (p_info s', p_world s') \<and> st_doptr (status s') = get_size + 1"
proof -
  let ?body = "frames_wire (message_calls pkgs)" and ?h = "header_wire p"
  obtain s' gs' where s': "mid pr m (?h @ ?body) (length pkgs) gs' s'" "J (length pkgs) (p_info s', p_world s')"
      "mfptp_parse (Suc (length (concat pkgs)) + n) call m get_size info w
        = do { s9 \<leftarrow> shift_rest get_size s'; Some (Returns (MFPTP_PARSE_OVER, s9)) }"
    using message_reached [OF rdy pr m small(1) pk p J, of get_size n] get m by auto
  have d: "st_doptr (status s') = get_size + 1" using s'(1) get by (auto simp: mid_def at_frame_def)
  then have "shift_rest get_size s' = Some s'" by (simp add: shift_rest_def)
  with s' d show ?thesis by auto
qed

end

section \<open>A callback that records what it is shown\<close>

definition package_payloads :: "bytes \<Rightarrow> mfptp_package \<Rightarrow> bytes list option" where
  "package_payloads m k = those (map (\<lambda>i. frame_bytes m k (int i)) [0..<nat (pkg_frames k)])"

definition record_package ::
  "'f \<Rightarrow> bytes \<Rightarrow> 'f mfptp_parser_info \<times> bytes list list \<Rightarrow> ('f mfptp_parser_info \<times> bytes list list) option" where
  "record_package fn m iw = do {
     fs \<leftarrow> package_payloads m (st_package (pi_status (fst iw)));
     Some (fst iw, snd iw @ [fs])
   }"

lemma those_map_Some: "(\<And>i. i \<in> set is \<Longrightarrow> f i = Some (g i)) \<Longrightarrow> those (map f is) = Some (map g is)"
  by (induction "is") auto

lemma package_payloads_view:
  assumes "package_view m k gs"
  shows "package_payloads m k = Some gs"
proof -
  have "those (map (\<lambda>i. frame_bytes m k (int i)) [0..<length gs]) = Some (map ((!) gs) [0..<length gs])"
    using assms by (intro those_map_Some) (auto simp: package_view_def)
  then show ?thesis using assms by (simp add: package_payloads_def package_view_def map_nth)
qed

interpretation rec: delivery record_package fn pr "\<lambda>j iw. snd iw = take j pkgs" m pkgs for fn pr m pkgs
proof
  fix j and i :: "'a mfptp_parser_info" and w st
  show "snd (i, w) = take j pkgs \<Longrightarrow> snd (i\<lparr>pi_status := st\<rparr>, w) = take j pkgs" by simp
next
  fix j and i :: "'a mfptp_parser_info" and w
  assume "j < length pkgs" "snd (i, w) = take j pkgs" "pi_parser i = pr"
    "package_view m (st_package (pi_status i)) (pkgs ! j)"
  then show "\<exists>i' w'. record_package fn m (i, w) = Some (i', w') \<and> snd (i', w') = take (Suc j) pkgs
      \<and> pi_parser i' = pr \<and> pi_status i' = pi_status i"
    by (simp add: record_package_def package_payloads_view take_Suc_conv_app_nth)
qed

section \<open>Undoing a frame's compression and encryption\<close>

text \<open>What goes into the encryption of a frame, and what the libraries have to satisfy for it:
  the containers and the cipher in use are inverted by their counterparts.\<close>

definition compressed_bytes :: "('x, 'z) mfptp_env \<Rightarrow> mfptp_pack \<Rightarrow> bytes \<Rightarrow> bytes" where
  "compressed_bytes env p f =
     (if pk_compress p = 2 then snd (mfptp_gzip (env_zlib env) MFPTP_FRAME_MAX_LEN f (int (length f)))
      else if pk_compress p = 1 then snd (mfptp_zip (env_zlib env) MFPTP_FRAME_MAX_LEN f (int (length f)))
      else f)"

definition libraries_invert :: "('x, 'z) mfptp_env \<Rightarrow> mfptp_pack \<Rightarrow> bytes \<Rightarrow> bool" where
  "libraries_invert env p f \<longleftrightarrow>
     (pk_compress p = 2 \<longrightarrow> zlib_roundtrip (env_zlib env) (deflateInit (env_zlib env) 6) (inflateInit (env_zlib env))
        MFPTP_FRAME_MAX_LEN f)
   \<and> (pk_compress p = 1 \<longrightarrow> zlib_roundtrip (env_zlib env)
        (deflateInit2 (env_zlib env) 6 8 (MAX_WBITS + 16) 8 Z_DEFAULT_STRATEGY)
        (inflateInit2 (env_zlib env) (MAX_WBITS + 16)) MFPTP_FRAME_MAX_LEN f)
   \<and> (pk_encrypt p = 2 \<longrightarrow> evp_roundtrip (env_ssl env) EVP_aes_128_ecb (pk_key p) (compressed_bytes env p f))
   \<and> (pk_encrypt p = 1 \<longrightarrow> evp_roundtrip (env_ssl env) EVP_idea_ecb (pk_key p) (compressed_bytes env p f))"

text \<open>The first stage on its own.\<close>

lemma compress_stage:
  assumes "libraries_invert env p f" "payload_to env p f g"
  defines "c \<equiv> compressed_bytes env p f"
  shows "int (length c) \<le> MFPTP_FRAME_MAX_LEN"
    and "drift_decompress env (pk_compress p) (int (length c)) c = Some (int (length f), f)"
    and "(if pk_encrypt p = 2 then scratch_fits (mfptp_aes_ecb_encrypt_evp (env_ssl env) (pk_key p) c (int (length c)))
      else if pk_encrypt p = 1 then scratch_fits (mfptp_idea_ecb_encrypt_evp (env_ssl env) (pk_key p) c (int (length c)))
      else do { b \<leftarrow> scratch_copy c (int (length c)); Some (int (length c), b) }) = Some (int (length g), g)"
proof -
  consider (gz) "pk_compress p = 2" | (z) "pk_compress p = 1" | (no) "pk_compress p \<noteq> 2" "pk_compress p \<noteq> 1" by blast
  then have *: "int (length c) \<le> MFPTP_FRAME_MAX_LEN
    \<and> drift_decompress env (pk_compress p) (int (length c)) c = Some (int (length f), f)
    \<and> (if pk_encrypt p = 2 then scratch_fits (mfptp_aes_ecb_encrypt_evp (env_ssl env) (pk_key p) c (int (length c)))
      else if pk_encrypt p = 1 then scratch_fits (mfptp_idea_ecb_encrypt_evp (env_ssl env) (pk_key p) c (int (length c)))
      else do { b \<leftarrow> scratch_copy c (int (length c)); Some (int (length c), b) }) = Some (int (length g), g)"
  proof cases
    case gz
    obtain n out where o: "mfptp_gzip (env_zlib env) MFPTP_FRAME_MAX_LEN f (int (length f)) = (n, out)" by force
    have u: "n = int (length out)" "n \<le> MFPTP_FRAME_MAX_LEN"
        "mfptp_ungzip (env_zlib env) out n MFPTP_FRAME_MAX_LEN = (int (length f), f)"
      using gzip_undo [OF _ o] assms(1) gz unfolding libraries_invert_def by blast+
    have c: "c = out" using gz o by (simp add: c_def compressed_bytes_def)
    show ?thesis unfolding c using assms(2) gz o u
      by (simp add: drift_decompress_def mfptp_format_codes payload_to_def pack_payload_def)
  next
    case z
    obtain n out where o: "mfptp_zip (env_zlib env) MFPTP_FRAME_MAX_LEN f (int (length f)) = (n, out)" by force
    have u: "n = int (length out)" "n \<le> MFPTP_FRAME_MAX_LEN"
        "mfptp_unzip (env_zlib env) out n MFPTP_FRAME_MAX_LEN = (int (length f), f)"
      using zip_undo [OF _ o] assms(1) z unfolding libraries_invert_def by blast+
    have c: "c = out" using z o by (simp add: c_def compressed_bytes_def)
    show ?thesis unfolding c using assms(2) z o u
      by (simp add: drift_decompress_def mfptp_format_codes payload_to_def pack_payload_def)
  next
    case no
    then have "c = f" by (simp add: c_def compressed_bytes_def)
    moreover have "int (length f) \<le> MFPTP_FRAME_MAX_LEN"
      using no assms(2) by (auto simp: payload_to_def pack_payload_def scratch_copy_def bind_eq_Some_conv)
    ultimately show ?thesis using no assms(2)
      by (auto simp: drift_decompress_def mfptp_format_codes payload_to_def pack_payload_def scratch_copy_def
          mreads_def split: if_splits)
  qed
  then show "int (length c) \<le> MFPTP_FRAME_MAX_LEN" by blast
  from * show "drift_decompress env (pk_compress p) (int (length c)) c = Some (int (length f), f)" by blast
  from * show "(if pk_encrypt p = 2 then scratch_fits (mfptp_aes_ecb_encrypt_evp (env_ssl env) (pk_key p) c (int (length c)))
      else if pk_encrypt p = 1 then scratch_fits (mfptp_idea_ecb_encrypt_evp (env_ssl env) (pk_key p) c (int (length c)))
      else do { b \<leftarrow> scratch_copy c (int (length c)); Some (int (length c), b) }) = Some (int (length g), g)" by blast
qed

lemma payload_undone:
  assumes "libraries_invert env p f" "payload_to env p f g"
  shows "drift_decrypt env (pk_key p) (pk_encrypt p) g \<bind> (\<lambda>(out_len, buf). drift_decompress env (pk_compress p) out_len buf)
    = Some (int (length f), f)"
proof -
  define c where "c = compressed_bytes env p f"
  note st = compress_stage [OF assms, folded c_def]
  have "drift_decrypt env (pk_key p) (pk_encrypt p) g = Some (int (length c), c)"
  proof -
    consider (aes) "pk_encrypt p = 2" | (idea) "pk_encrypt p = 1" | (no) "pk_encrypt p \<noteq> 2" "pk_encrypt p \<noteq> 1" by blast
    then show ?thesis
    proof cases
      case aes
      then have "mfptp_aes_ecb_decrypt_evp (env_ssl env) (pk_key p) g (int (length g)) = (int (length c), c)"
        using aes_undo [of "env_ssl env" "pk_key p" c "int (length g)" g] st(3) assms(1)
        by (auto simp: libraries_invert_def c_def scratch_fits_def bind_eq_Some_conv)
      with aes st(1) show ?thesis by (simp add: drift_decrypt_def mfptp_format_codes)
    next
      case idea
      then have "mfptp_idea_ecb_decrypt_evp (env_ssl env) (pk_key p) g (int (length g)) = (int (length c), c)"
        using idea_undo [of "env_ssl env" "pk_key p" c "int (length g)" g] st(3) assms(1)
        by (auto simp: libraries_invert_def c_def scratch_fits_def bind_eq_Some_conv)
      with idea st(1) show ?thesis by (simp add: drift_decrypt_def mfptp_format_codes)
    next
      case no
      then have "g = c" using st(3) by (auto simp: scratch_copy_def mreads_def bind_eq_Some_conv)
      with no st(1) show ?thesis by (simp add: drift_decrypt_def mfptp_format_codes)
    qed
  qed
  then show ?thesis using st(2) by simp
qed

section \<open>The forwarding callback\<close>

text \<open>The frames \<open>fs\<close> went on the wire as \<open>gs\<close>, and the libraries invert what they did to them.\<close>

definition sent_as :: "('x, 'z) mfptp_env \<Rightarrow> mfptp_pack \<Rightarrow> bytes list \<Rightarrow> bytes list \<Rightarrow> bool" where
  "sent_as env p fs gs \<longleftrightarrow> list_all2 (\<lambda>f g. payload_to env p f g \<and> libraries_invert env p f) fs gs"

text \<open>The receiver's parser fields and key agree with the sender's.\<close>

definition same_format :: "mfptp_pack \<Rightarrow> 'f mfptp_parser_info \<Rightarrow> bool" where
  "same_format p i \<longleftrightarrow> ps_encrypt (pi_parser i) = pk_encrypt p \<and> ps_compress (pi_parser i) = pk_compress p
     \<and> pi_key i = pk_key p"

text \<open>What the scratch buffer holds, frame by frame, for a package of plain frames: the flag that
  says whether more follow, the length and the bytes.\<close>

definition plain_frames :: "bytes list \<Rightarrow> (int \<times> int \<times> scratch) list" where
  "plain_frames fs = map (\<lambda>i. (if Suc i = length fs then 0 else 1, int (length (fs ! i)), Block (fs ! i))) [0..<length fs]"

lemma drift_frame_plain:
  assumes "package_view m (st_package (pi_status me)) gs" "sent_as env p fs gs" "same_format p me" "i < length gs"
  shows "\<exists>me'. drift_frame env m cnt (int i) me = Some me' \<and> pi_parser me' = pi_parser me \<and> pi_status me' = pi_status me
    \<and> pi_key me' = pi_key me \<and> pi_buf1 me' = Block (fs ! i) \<and> pi_de_len me' = int (length (fs ! i))
    \<and> pi_snd_flg me' = (if int i = cnt - 1 then 0 else 1)"
proof -
  have fb: "frame_bytes m (st_package (pi_status me)) (int i) = Some (gs ! i)"
    using assms(1,4) by (simp add: package_view_def)
  have "drift_decrypt env (pk_key p) (pk_encrypt p) (gs ! i) \<bind> (\<lambda>(out_len, buf). drift_decompress env (pk_compress p) out_len buf)
      = Some (int (length (fs ! i)), fs ! i)"
    using assms(2,4) by (intro payload_undone) (auto simp: sent_as_def list_all2_conv_all_nth)
  then obtain ol b where "drift_decrypt env (pk_key p) (pk_encrypt p) (gs ! i) = Some (ol, b)"
    "drift_decompress env (pk_compress p) ol b = Some (int (length (fs ! i)), fs ! i)"
    by (auto simp: bind_eq_Some_conv)
  then show ?thesis using fb assms(3) by (simp add: drift_frame_def same_format_def Let_def)
qed

lemma drift_frames_plain:
  assumes "package_view m (st_package (pi_status me)) gs" "sent_as env p fs gs" "same_format p me" "i + n = length gs"
  shows "\<exists>me'. drift_frames env m (int (length gs)) i n me = Some (me', drop i (plain_frames fs))
    \<and> pi_parser me' = pi_parser me \<and> pi_status me' = pi_status me \<and> pi_key me' = pi_key me"
  using assms
proof (induction n arbitrary: i me)
  case 0
  then have "length fs = i" by (simp add: sent_as_def list_all2_lengthD)
  then show ?case by (simp add: plain_frames_def)
next
  case (Suc n)
  have len: "length fs = length gs" using Suc.prems(2) by (simp add: sent_as_def list_all2_lengthD)
  obtain m1 where m1: "drift_frame env m (int (length gs)) (int i) me = Some m1" "pi_parser m1 = pi_parser me" "pi_status m1 = pi_status me"
      "pi_key m1 = pi_key me" "pi_buf1 m1 = Block (fs ! i)" "pi_de_len m1 = int (length (fs ! i))"
      "pi_snd_flg m1 = (if int i = int (length gs) - 1 then 0 else 1)"
    using drift_frame_plain [OF Suc.prems(1-3), of i "int (length gs)"] Suc.prems(4) by auto
  obtain m2 where m2: "drift_frames env m (int (length gs)) (Suc i) n m1 = Some (m2, drop (Suc i) (plain_frames fs))"
      "pi_parser m2 = pi_parser m1" "pi_status m2 = pi_status m1" "pi_key m2 = pi_key m1"
    using Suc.IH [of m1 "Suc i"] Suc.prems m1 by (auto simp: same_format_def)
  have "drop i (plain_frames fs) = (pi_snd_flg m1, pi_de_len m1, pi_buf1 m1) # drop (Suc i) (plain_frames fs)"
    using Suc.prems(4) m1 len by (subst Cons_nth_drop_Suc [symmetric]) (auto simp: plain_frames_def)
  then show ?case using m1 m2 by simp
qed

text \<open>The callback as \<^verbatim>\<open>mfptp_parse\<close> runs it, the world collecting what its scratch buffer held.\<close>

definition drift_call ::
  "('x, 'z) mfptp_env \<Rightarrow> 'f \<Rightarrow> bytes \<Rightarrow> 'f mfptp_parser_info \<times> (int \<times> int \<times> scratch) list list \<Rightarrow>
   ('f mfptp_parser_info \<times> (int \<times> int \<times> scratch) list list) option" where
  "drift_call env fn m iw = map_option (\<lambda>(i, outs). (i, snd iw @ [outs])) (mfptp_drift_out_callback env m (fst iw))"

definition drift_inv ::
  "('x, 'z) mfptp_env \<Rightarrow> mfptp_pack \<Rightarrow> 'f mfptp_parser \<Rightarrow> bytes list list \<Rightarrow> bytes list list \<Rightarrow> nat \<Rightarrow>
   'f mfptp_parser_info \<times> (int \<times> int \<times> scratch) list list \<Rightarrow> bool" where
  "drift_inv env p pr pkgs wire j iw \<longleftrightarrow> env_malloc1 env \<and> env_malloc2 env \<and> list_all2 (sent_as env p) pkgs wire
     \<and> ps_encrypt pr = pk_encrypt p \<and> ps_compress pr = pk_compress p \<and> pi_key (fst iw) = pk_key p
     \<and> snd iw = map plain_frames (take j pkgs)
     \<and> (0 < j \<longrightarrow> pi_buf (fst iw) = Freed \<and> pi_buf1 (fst iw) = Freed)"

interpretation drift: delivery "drift_call env" fn pr "drift_inv env p pr pkgs wire" m wire
  for env fn pr p pkgs wire m
proof
  fix j and i :: "'c mfptp_parser_info" and w st
  show "drift_inv env p pr pkgs wire j (i, w) \<Longrightarrow> drift_inv env p pr pkgs wire j (i\<lparr>pi_status := st\<rparr>, w)"
    by (simp add: drift_inv_def)
next
  fix j and i :: "'c mfptp_parser_info" and w :: "(int \<times> int \<times> scratch) list list"
  assume j: "j < length wire" and inv: "drift_inv env p pr pkgs wire j (i, w)" and pr: "pi_parser i = pr"
    and view: "package_view m (st_package (pi_status i)) (wire ! j)"
  let ?me = "i\<lparr>pi_de_len := 0, pi_out_len := 0, pi_buf1 := Block [], pi_buf := Block []\<rparr>"
  have sa: "sent_as env p (pkgs ! j) (wire ! j)" using inv j by (auto simp: drift_inv_def list_all2_conv_all_nth)
  have jp: "j < length pkgs" using inv j by (auto simp: drift_inv_def dest: list_all2_lengthD)
  have cnt: "pkg_frames (st_package (pi_status i)) = int (length (wire ! j))" using view by (simp add: package_view_def)
  obtain me where me: "drift_frames env m (int (length (wire ! j))) 0 (length (wire ! j)) ?me = Some (me, plain_frames (pkgs ! j))"
    "pi_parser me = pi_parser ?me" "pi_status me = pi_status ?me" "pi_key me = pi_key ?me"
    using drift_frames_plain [of m ?me "wire ! j" env p "pkgs ! j" 0 "length (wire ! j)"]
      view sa inv pr by (auto simp: same_format_def drift_inv_def)
  have "mfptp_drift_out_callback env m i = Some (me\<lparr>pi_buf1 := Freed, pi_buf := Freed\<rparr>, plain_frames (pkgs ! j))"
    using me(1) cnt inv by (simp add: mfptp_drift_out_callback_def drift_inv_def)
  moreover have "drift_inv env p pr pkgs wire (Suc j) (me\<lparr>pi_buf1 := Freed, pi_buf := Freed\<rparr>, w @ [plain_frames (pkgs ! j)])"
    using inv me(4) jp by (simp add: drift_inv_def take_Suc_conv_app_nth)
  ultimately show "\<exists>i' w'. drift_call env fn m (i, w) = Some (i', w') \<and> drift_inv env p pr pkgs wire (Suc j) (i', w')
      \<and> pi_parser i' = pr \<and> pi_status i' = pi_status i"
    using me(2,3) pr by (simp add: drift_call_def)
qed

end
