(* ===== verification/Mfptp_Correct.thy ===== *)
theory Mfptp_Correct
  imports Mfptp_Protocol
begin

text \<open>
  The properties of the MFPTP library: what is packed is what the parser delivers, with
  and without encryption and compression; its loop is bounded whatever bytes it is given;
  and where it departs from the protocol.
\<close>

section \<open>The parser returns\<close>

text \<open>A callback that leaves the parser's own fields alone.\<close>

locale package_callback =
  fixes call :: "'f \<Rightarrow> bytes \<Rightarrow> 'f mfptp_parser_info \<times> 'w \<Rightarrow> ('f mfptp_parser_info \<times> 'w) option"
  assumes keeps: "call fn m (i, w) = Some (i', w') \<Longrightarrow> pi_parser i' = pi_parser i \<and> pi_status i' = pi_status i"
begin

lemma run_callback_keeps:
  "run_callback call s = Some s' \<Longrightarrow> parser s' = parser s \<and> status s' = status s \<and> p_buf s' = p_buf s \<and> p_offset s' = p_offset s"
  by (auto simp: run_callback_def bind_eq_Some_conv split: option.splits if_splits dest: keeps)

end

text \<open>Before the header no package is counted; inside a message fewer packages are delivered
  than announced, and the current one has at most the frames it can hold.\<close>

definition live :: "('f, 'w) parse_state \<Rightarrow> bool" where
  "live s \<longleftrightarrow> (st_step (status s) \<in> {MFPTP_PARSE_ILEGAL, MFPTP_PARSE_INIT, MFPTP_PARSE_HEAD} \<and> st_index (status s) = 0)
     \<or> (st_step (status s) = MFPTP_PARSE_PACKAGE \<and> ps_method (parser s) \<noteq> HEARTBEAT_METHOD
        \<and> 0 \<le> st_index (status s) \<and> st_index (status s) < uint (ps_packages (parser s))
        \<and> 0 \<le> pkg_frames (st_package (status s)) \<and> pkg_frames (st_package (status s)) \<le> 13)
     \<or> st_step (status s) = MFPTP_PARSE_OVER"

definition budget :: "('f, 'w) parse_state \<Rightarrow> nat" where
  "budget s = (if st_step (status s) = MFPTP_PARSE_PACKAGE
     then nat (14 * (uint (ps_packages (parser s)) - st_index (status s)) + (13 - pkg_frames (st_package (status s)))) + 1
     else if st_step (status s) = MFPTP_PARSE_OVER then 1 else 3600)"

lemma ptr_move_fields [simp]:
  "p_buf (ptr_move n s) = p_buf s" "parser (ptr_move n s) = parser s" "st_step (status (ptr_move n s)) = st_step (status s)"
  "st_index (status (ptr_move n s)) = st_index (status s)" "st_package (status (ptr_move n s)) = st_package (status s)"
  by (simp_all add: ptr_move_def upd_status_def)

lemma upd_parser_fields [simp]:
  "p_buf (upd_parser u s) = p_buf s" "p_offset (upd_parser u s) = p_offset s" "parser (upd_parser u s) = u (parser s)"
  "status (upd_parser u s) = status s"
  by (simp_all add: upd_parser_def)

lemma upd_status_fields [simp]:
  "p_buf (upd_status u s) = p_buf s" "p_offset (upd_status u s) = p_offset s" "parser (upd_status u s) = parser s"
  "status (upd_status u s) = u (status s)"
  by (simp_all add: upd_status_def)

lemma upd_package_fields [simp]:
  "p_buf (upd_package u s) = p_buf s" "p_offset (upd_package u s) = p_offset s" "parser (upd_package u s) = parser s"
  "st_step (status (upd_package u s)) = st_step (status s)" "st_index (status (upd_package u s)) = st_index (status s)"
  "st_package (status (upd_package u s)) = u (st_package (status s))"
  by (simp_all add: upd_package_def)

lemma check_size_Inl: "check_size g a b s = Some (Inl s') \<Longrightarrow> s' = s"
  by (auto simp: check_size_def bind_eq_Some_conv Let_def split: if_splits)

lemma head_step_live:
  assumes "head_step get_size s = Some (Inl s')" "live s" "st_step (status s) \<noteq> MFPTP_PARSE_PACKAGE" "st_step (status s) \<noteq> MFPTP_PARSE_OVER"
  shows "live s' \<and> budget s' < 3600"
proof -
  obtain n where n: "n \<noteq> 0" "st_step (status s') = MFPTP_PARSE_PACKAGE" "ps_packages (parser s') = n"
      "ps_method (parser s') \<noteq> HEARTBEAT_METHOD" "st_index (status s') = st_index (status s)" "pkg_frames (st_package (status s')) = 0"
    using assms(1)
    by (auto simp: head_step_def Let_def split: bind_split_asm sum.split_asm if_split_asm dest!: check_size_Inl)
  have "st_index (status s) = 0" using assms(2-4) by (auto simp: live_def)
  moreover have "0 < uint n" "uint n < 256"
    using n(1) uint_bounded [of n] unsigned_eq_0_iff [of n] uint_nonnegative [of n] by (auto simp: order_less_le)
  ultimately show ?thesis using n by (simp add: live_def budget_def)
qed

lemma record_frame_fields:
  "record_frame k n s = Some s' \<Longrightarrow> ps_method (parser s) \<noteq> HEARTBEAT_METHOD \<Longrightarrow>
   parser s' = parser s \<and> st_step (status s') = st_step (status s) \<and> st_index (status s') = st_index (status s)
   \<and> pkg_frames (st_package (status s')) = pkg_frames (st_package (status s))"
  by (auto simp: record_frame_def Let_def split: bind_split_asm if_split_asm)

context package_callback
begin

lemma frame_arrived_live:
  assumes "frame_arrived call get_size k n s = Some (Inl s')" "live s" "st_step (status s) = MFPTP_PARSE_PACKAGE"
  shows "live s' \<and> budget s' < budget s"
proof -
  let ?P = "uint (ps_packages (parser s))" and ?I = "st_index (status s)" and ?F = "pkg_frames (st_package (status s))"
  have l: "ps_method (parser s) \<noteq> HEARTBEAT_METHOD" "0 \<le> ?I" "?I < ?P" "0 \<le> ?F" "?F \<le> 13"
    using assms(2,3) by (auto simp: live_def mfptp_parse_codes)
  have P: "?P < 256" using uint_bounded [of "ps_packages (parser s)"] by simp
  have s32: "s32 (?F + 1) = ?F + 1" "s32 (?I + 1) = ?I + 1" using l P by simp_all
  have "parser s' = parser s \<and> st_step (status s') = MFPTP_PARSE_PACKAGE \<and> ?F + 1 \<le> 13
    \<and> ((st_index (status s') = ?I \<and> pkg_frames (st_package (status s')) = ?F + 1)
      \<or> (st_index (status s') = ?I + 1 \<and> ?I + 1 \<noteq> ?P \<and> pkg_frames (st_package (status s')) = 0))"
    using assms(1,3) l(1) s32
    by (auto simp: frame_arrived_def Let_def MAX_FRAMES_PER_PACKAGE_def package_zero_def
        split: bind_split_asm if_split_asm dest!: record_frame_fields run_callback_keeps)
  then show ?thesis using l P assms(3) by (auto simp: live_def budget_def)
qed

lemma parse_iter_live:
  assumes "parse_iter call get_size s = Some (Inl s')" "live s"
  shows "live s' \<and> budget s' < budget s"
proof (cases "st_step (status s) = MFPTP_PARSE_PACKAGE")
  case True
  then have "package_step call get_size s = Some (Inl s')" using assms(1) by (simp add: parse_iter_def mfptp_parse_codes)
  then obtain c k n where "frame_arrived call get_size k n (upd_package (\<lambda>k. k\<lparr>pkg_complete := c\<rparr>) s) = Some (Inl s')"
    by (auto simp: package_step_def Let_def split: bind_split_asm sum.split_asm if_split_asm dest!: check_size_Inl)
  moreover have "live (upd_package (\<lambda>k. k\<lparr>pkg_complete := c\<rparr>) s)" using assms(2) by (simp add: live_def)
  moreover have "budget (upd_package (\<lambda>k. k\<lparr>pkg_complete := c\<rparr>) s) = budget s" by (simp add: budget_def)
  ultimately show ?thesis using frame_arrived_live True by fastforce
next
  case False
  then have "head_step get_size s = Some (Inl s')" "st_step (status s) \<noteq> MFPTP_PARSE_OVER"
    using assms by (auto simp: parse_iter_def live_def mfptp_parse_codes split: if_splits)
  with head_step_live [OF this(1) assms(2) False] False show ?thesis by (auto simp: budget_def)
qed

lemma parse_loop_returns:
  "live s \<Longrightarrow> budget s \<le> fuel \<Longrightarrow> parse_loop fuel call get_size s \<noteq> Some OutOfFuel"
proof (induction fuel arbitrary: s)
  case 0
  then show ?case by (simp add: budget_def split: if_splits)
next
  case (Suc fuel)
  show ?case
  proof
    assume "parse_loop (Suc fuel) call get_size s = Some OutOfFuel"
    then obtain s' where s': "parse_iter call get_size s = Some (Inl s')" "parse_loop fuel call get_size s' = Some OutOfFuel"
      by (auto split: bind_split_asm sum.split_asm)
    then show False using parse_iter_live [OF s'(1) Suc.prems(1)] Suc.IH [of s'] Suc.prems(2) by simp
  qed
qed

end

interpretation rec_cb: package_callback record_package
  by unfold_locales (auto simp: record_package_def bind_eq_Some_conv)

lemma drift_frame_keeps: "drift_frame env m cnt i me = Some me' \<Longrightarrow> pi_parser me' = pi_parser me \<and> pi_status me' = pi_status me"
  by (auto simp: drift_frame_def Let_def split: bind_split_asm)

lemma drift_frames_keeps:
  "drift_frames env m cnt i n me = Some (me', outs) \<Longrightarrow> pi_parser me' = pi_parser me \<and> pi_status me' = pi_status me"
  by (induction n arbitrary: i me outs) (auto split: bind_split_asm dest!: drift_frame_keeps)

interpretation drift_cb: package_callback "drift_call env" for env
  by unfold_locales (auto simp: drift_call_def mfptp_drift_out_callback_def Let_def split: if_splits bind_split_asm dest!: drift_frames_keeps)

definition auth_call :: "'f \<Rightarrow> bytes \<Rightarrow> 'f mfptp_parser_info \<times> 'w \<Rightarrow> ('f mfptp_parser_info \<times> 'w) option" where
  "auth_call fn m iw = map_option (\<lambda>i. (i, snd iw)) (mfptp_auth_callback m (fst iw))"

interpretation auth_cb: package_callback auth_call
  by unfold_locales (auto simp: auth_call_def mfptp_auth_callback_def Let_def split: if_splits bind_split_asm)

section \<open>What is packed is what is delivered\<close>

definition frames_fit :: "bytes list list \<Rightarrow> bool" where
  "frames_fit wire \<longleftrightarrow> (\<forall>fs \<in> set wire. length fs \<le> MAX_FRAMES_PER_PACKAGE \<and> (\<forall>f \<in> set fs. length f < 16777216))"

lemma package_calls_rel:
  "list_all2 R fs gs \<Longrightarrow>
   list_all2 (\<lambda>(f, mf) (g, mf'). mf = mf' \<and> R f g) (package_calls fs) (package_calls gs)"
proof (induction fs arbitrary: gs rule: package_calls.induct)
  case (3 f f' fs)
  then obtain g g' gs' where "gs = g # g' # gs'" by (auto simp: list_all2_Cons1)
  with 3 show ?case by simp
qed (auto simp: list_all2_Cons1)

lemma message_calls_rel:
  "list_all2 (list_all2 (payload_to env p)) pkgs wire \<Longrightarrow> calls_to env p (message_calls pkgs) (message_calls wire)"
  by (induction rule: list_all2_induct)
    (auto simp: calls_to_def message_calls_def intro!: list_all2_appendI package_calls_rel)

lemma concat_rel_length: "list_all2 (list_all2 R) xss yss \<Longrightarrow> length (concat xss) = length (concat yss)"
  by (induction rule: list_all2_induct) (auto dest: list_all2_lengthD)

text \<open>The sender's side of a round trip: a message laid out in the buffer.\<close>

lemma packed_message:
  assumes "pack_ready env p pkgs" "list_all2 (list_all2 (payload_to env p)) pkgs wire"
    and "10 + length (frames_wire (message_calls wire)) \<le> length dst"
  shows "\<exists>p'. pack_calls env dst p (message_calls pkgs)
      = Some (header_wire p @ frames_wire (message_calls wire) @ drop (10 + length (frames_wire (message_calls wire))) dst, p',
              replicate (length (message_calls pkgs) - 1) MFPTP_PACK_PACKAGE @ [MFPTP_PACK_OVER])
    \<and> pk_index p' = 10 + int (length (frames_wire (message_calls wire)))"
proof -
  let ?n = "10 + length (frames_wire (message_calls wire))"
  have "take ?n dst @ drop ?n dst = dst" by simp
  then show ?thesis
    using pack_message_wire [OF assms(1) message_calls_rel [OF assms(2)], of "take ?n dst" "drop ?n dst"] assms(3) by auto
qed

lemma wire_nonempty:
  "list_all2 (list_all2 R) pkgs wire \<Longrightarrow> [] \<notin> set pkgs \<Longrightarrow> frames_fit wire \<Longrightarrow>
   \<forall>fs \<in> set wire. fs \<noteq> [] \<and> length fs \<le> MAX_FRAMES_PER_PACKAGE \<and> (\<forall>f \<in> set fs. length f < 16777216)"
proof -
  assume a: "list_all2 (list_all2 R) pkgs wire" "[] \<notin> set pkgs" "frames_fit wire"
  from a(1,2) have "[] \<notin> set wire" by (induction rule: list_all2_induct) auto
  then show ?thesis using a(3) by (auto simp: frames_fit_def)
qed

lemma fuel_split: "Suc k \<le> fuel \<Longrightarrow> \<exists>n. fuel = Suc k + n"
  using le_Suc_ex by blast

text \<open>C1: the MFPTP round trip. A message of packages packed frame by frame with
  \<^verbatim>\<open>mfptp_pack_frames_with_packages\<close> into a buffer with room for it, and handed to
  \<^verbatim>\<open>mfptp_parse\<close> with the length the packer left in \<^verbatim>\<open>index\<close>, is parsed in one call: the
  parser returns \<open>MFPTP_PARSE_OVER\<close>, its callback has been shown exactly the packages, in
  order, each with exactly the frames that went on the wire, and the compression, encryption,
  method and package-count fields of the header are those of the sender (nothing is said here
  of the version fields). Packages have at most 13 frames, the method is not the heartbeat's,
  and compression and encryption stay within the packer's 6 MB scratch blocks (\<open>payload_to\<close>).\<close>

theorem mfptp_roundtrip:
  assumes "pack_ready env p pkgs" "list_all2 (list_all2 (payload_to env p)) pkgs wire" "frames_fit wire"
    and "pk_method p \<noteq> HEARTBEAT_METHOD" "pk_compress p < 16" "pk_encrypt p < 16"
    and "10 + length (frames_wire (message_calls wire)) \<le> length dst" "length dst \<le> 1073741824"
    and "ready info" "ps_func (pi_parser info) = Some fn" "Suc (length (concat pkgs)) \<le> fuel"
  shows "\<exists>dst' p' rets s'. pack_calls env dst p (message_calls pkgs) = Some (dst', p', rets)
    \<and> mfptp_parse fuel record_package dst' (pk_index p') info [] = Some (Returns (MFPTP_PARSE_OVER, s'))
    \<and> p_world s' = wire
    \<and> ps_compress (parser s') = pk_compress p \<and> ps_encrypt (parser s') = pk_encrypt p
    \<and> ps_method (parser s') = pk_method p \<and> ps_packages (parser s') = pk_packages p"
proof -
  let ?n = "10 + length (frames_wire (message_calls wire))" and ?pr = "parsed_header p (pi_parser info)"
  define m where "m = header_wire p @ frames_wire (message_calls wire) @ [] @ drop ?n dst"
  obtain p' where p': "pack_calls env dst p (message_calls pkgs)
      = Some (m, p', replicate (length (message_calls pkgs) - 1) MFPTP_PACK_PACKAGE @ [MFPTP_PACK_OVER])" "pk_index p' = int ?n"
    using packed_message [OF assms(1,2,7)] by (auto simp: m_def)
  have len: "length wire = length pkgs" "length (concat wire) = length (concat pkgs)"
    using assms(2) by (simp_all add: list_all2_lengthD concat_rel_length)
  obtain n where n: "fuel = Suc (length (concat pkgs)) + n" using fuel_split assms(11) by blast
  have "\<exists>s'. mfptp_parse (Suc (length (concat wire)) + n) record_package m (int ?n) info [] = Some (Returns (MFPTP_PARSE_OVER, s'))
    \<and> snd (p_info s', p_world s') = take (length wire) wire \<and> parser s' = ?pr
    \<and> st_index (status s') = int (length wire) \<and> st_doptr (status s') = 0 \<and> st_step (status s') = MFPTP_PARSE_PACKAGE
    \<and> take (length ([] :: bytes)) (p_buf s') = []"
  proof (rule rec.message_parsed [where p = p and rest = "[]" and slack = "drop ?n dst" and fn = fn])
    show "\<forall>fs\<in>set wire. fs \<noteq> [] \<and> length fs \<le> MAX_FRAMES_PER_PACKAGE \<and> (\<forall>f\<in>set fs. length f < 16777216)"
      using assms(1) by (intro wire_nonempty [OF assms(2) _ assms(3)]) (simp add: pack_ready_def)
    show "pk_packages p = of_nat (length wire)" "wire \<noteq> []" "length wire \<le> 255"
      using assms(1) len(1) by (auto simp: pack_ready_def)
  qed (use assms m_def in \<open>simp_all add: parsed_header_def\<close>)
  then obtain s' where "mfptp_parse fuel record_package m (int ?n) info [] = Some (Returns (MFPTP_PARSE_OVER, s'))"
      "p_world s' = wire" "parser s' = ?pr"
    unfolding n len(2) by auto
  with p' compress_byte_fields [OF assms(5,6)] show ?thesis by (auto simp: parsed_header_def)
qed
definition demo_info :: "nat mfptp_parser_info" where
  "demo_info = mfptp_register_callback (mfptp_init_parser_info
     \<lparr>pi_parser = \<lparr>ps_version = 0, ps_sub_version = 0, ps_method = 0, ps_compress = 0, ps_encrypt = 0, ps_packages = 0,
         ps_pos_frame_start = 0, ps_func = None\<rparr>,
       pi_status = \<lparr>st_step = 0, st_index = 0, st_doptr = 0, st_sharp_pos = 0, st_package = package_zero\<rparr>,
       pi_key = replicate 18 5, pi_force_login = 0, pi_who = replicate 64 0, pi_buf = Null, pi_buf1 = Null,
       pi_out_len = 0, pi_de_len = 0, pi_snd_flg = 0, pi_send = None\<rparr>) (Some 0)"

lemma demo_info_ready: "ready demo_info" "ps_func (pi_parser demo_info) = Some 0" "pi_key demo_info = replicate 18 5"
  by (simp_all add: demo_info_def mfptp_register_callback_def mfptp_init_parser_info_def ready_def wf_info_def
      package_zero_def mfptp_parse_codes)

abbreviation demo_msg :: "bytes list list" where
  "demo_msg \<equiv> [[[1, 2], [3]], [[4]]]"

lemma demo_msg_layout: "length (frames_wire (message_calls demo_msg)) = 10"
  by (simp add: message_calls_def frames_wire_def frame_wire_def frame_prefix_def)

theorem mfptp_roundtrip_witness:
  "\<exists>dst' p' rets s'. pack_calls demo_env (replicate 40 0) demo_pack (message_calls demo_msg) = Some (dst', p', rets)
    \<and> mfptp_parse 4 record_package dst' (pk_index p') demo_info [] = Some (Returns (MFPTP_PARSE_OVER, s'))
    \<and> p_world s' = demo_msg
    \<and> ps_compress (parser s') = pk_compress demo_pack \<and> ps_encrypt (parser s') = pk_encrypt demo_pack
    \<and> ps_method (parser s') = pk_method demo_pack \<and> ps_packages (parser s') = pk_packages demo_pack"
proof (rule mfptp_roundtrip)
  show "pack_ready demo_env demo_pack demo_msg"
    by (simp add: pack_ready_def demo_env_def demo_pack_def MFPTP_PACK_INIT_def)
  show "list_all2 (list_all2 (payload_to demo_env demo_pack)) demo_msg demo_msg"
    by (simp add: plain_payload demo_pack_def MFPTP_FRAME_MAX_LEN_def)
  show "10 + length (frames_wire (message_calls demo_msg)) \<le> length (replicate 40 (0::byte))"
    by (simp add: demo_msg_layout)
qed (simp_all add: demo_info_ready frames_fit_def demo_pack_def MAX_FRAMES_PER_PACKAGE_def HEARTBEAT_METHOD_def)

text \<open>C6: the encrypted and compressed round trip. With \<^verbatim>\<open>mfptp_drift_out_callback\<close> registered and
  the sender's key, parsing what was packed under any compression and encryption code of the
  header returns \<open>MFPTP_PARSE_OVER\<close>, and the callback has decoded every frame of every package, in
  order: where the call of \<^verbatim>\<open>p_send\<close> is commented out, \<^verbatim>\<open>buf1\<close> held the plain bytes that were sent,
  \<^verbatim>\<open>de_len\<close> their number and \<^verbatim>\<open>snd_flg\<close> 0 for the last frame of a package and 1 for the others.
  When the parser returns both scratch blocks are freed and the pointers to them dangle, so
  the bytes can only be used there. OpenSSL and zlib are assumed to invert their own output for
  the frames of the message (\<open>sent_as\<close>), and no stage to produce more than the 6 MB of a scratch
  block, past which the packer writes unchecked.\<close>

theorem mfptp_forward_roundtrip:
  assumes "pack_ready env p pkgs" "list_all2 (sent_as env p) pkgs wire" "frames_fit wire"
    and "pk_method p \<noteq> HEARTBEAT_METHOD" "pk_compress p < 16" "pk_encrypt p < 16"
    and "10 + length (frames_wire (message_calls wire)) \<le> length dst" "length dst \<le> 1073741824"
    and "ready info" "ps_func (pi_parser info) = Some fn" "pi_key info = pk_key p" "Suc (length (concat pkgs)) \<le> fuel"
  shows "\<exists>dst' p' rets s'. pack_calls env dst p (message_calls pkgs) = Some (dst', p', rets)
    \<and> mfptp_parse fuel (drift_call env) dst' (pk_index p') info [] = Some (Returns (MFPTP_PARSE_OVER, s'))
    \<and> p_world s' = map plain_frames pkgs
    \<and> pi_buf (p_info s') = Freed \<and> pi_buf1 (p_info s') = Freed"
proof -
  let ?n = "10 + length (frames_wire (message_calls wire))" and ?pr = "parsed_header p (pi_parser info)"
  have rel: "list_all2 (list_all2 (payload_to env p)) pkgs wire"
    by (rule list_all2_mono [OF assms(2)]) (auto simp: sent_as_def elim: list_all2_mono)
  define m where "m = header_wire p @ frames_wire (message_calls wire) @ [] @ drop ?n dst"
  obtain p' where p': "pack_calls env dst p (message_calls pkgs)
      = Some (m, p', replicate (length (message_calls pkgs) - 1) MFPTP_PACK_PACKAGE @ [MFPTP_PACK_OVER])" "pk_index p' = int ?n"
    using packed_message [OF assms(1) rel assms(7)] by (auto simp: m_def)
  have len: "length wire = length pkgs" "length (concat wire) = length (concat pkgs)"
    using rel by (simp_all add: list_all2_lengthD concat_rel_length)
  obtain n where n: "fuel = Suc (length (concat pkgs)) + n" using fuel_split assms(12) by blast
  have "\<exists>s'. mfptp_parse (Suc (length (concat wire)) + n) (drift_call env) m (int ?n) info [] = Some (Returns (MFPTP_PARSE_OVER, s'))
    \<and> drift_inv env p ?pr pkgs wire (length wire) (p_info s', p_world s') \<and> parser s' = ?pr
    \<and> st_index (status s') = int (length wire) \<and> st_doptr (status s') = 0 \<and> st_step (status s') = MFPTP_PARSE_PACKAGE
    \<and> take (length ([] :: bytes)) (p_buf s') = []"
  proof (rule drift.message_parsed [where p = p and rest = "[]" and slack = "drop ?n dst" and fn = fn])
    show "\<forall>fs\<in>set wire. fs \<noteq> [] \<and> length fs \<le> MAX_FRAMES_PER_PACKAGE \<and> (\<forall>f\<in>set fs. length f < 16777216)"
      using assms(1) by (intro wire_nonempty [OF rel _ assms(3)]) (simp add: pack_ready_def)
    show "pk_packages p = of_nat (length wire)" "wire \<noteq> []" "length wire \<le> 255"
      using assms(1) len(1) by (auto simp: pack_ready_def)
    show "drift_inv env p ?pr pkgs wire 0 (info\<lparr>pi_parser := ?pr\<rparr>, [])"
      using assms compress_byte_fields [OF assms(5,6)] by (simp add: drift_inv_def pack_ready_def parsed_header_def)
  qed (use assms m_def in \<open>simp_all add: parsed_header_def\<close>)
  then obtain s' where s': "mfptp_parse fuel (drift_call env) m (int ?n) info [] = Some (Returns (MFPTP_PARSE_OVER, s'))"
      "drift_inv env p ?pr pkgs wire (length pkgs) (p_info s', p_world s')"
    unfolding n len by auto
  have "pkgs \<noteq> []" using assms(1) by (simp add: pack_ready_def)
  with s' p' show ?thesis by (auto simp: drift_inv_def)
qed

text \<open>A cipher and a container simple enough to evaluate: every byte is combined with the
  first byte of the key, and a compressed stream carries one leading byte.\<close>

definition xor_env :: "(bytes, unit) mfptp_env" where
  "xor_env = \<lparr>env_ssl = \<lparr>EVP_EncryptInit_ex = (\<lambda>_ k. k), EVP_EncryptUpdate = (\<lambda>k b _. (k, map ((XOR) (hd k)) b, 1)),
       EVP_EncryptFinal_ex = (\<lambda>_. ([], 1)), EVP_DecryptInit_ex = (\<lambda>_ k. k),
       EVP_DecryptUpdate = (\<lambda>k b _. (k, map ((XOR) (hd k)) b, 1)), EVP_DecryptFinal_ex = (\<lambda>_. ([], 1))\<rparr>,
     env_zlib = \<lparr>deflateInit = (\<lambda>_. ((), 0)), deflateInit2 = (\<lambda>_ _ _ _ _. ((), 0)),
       deflate = (\<lambda>_ b _ _. ((), 0x78 # b, 1)), deflateEnd = (\<lambda>_. 0), inflateInit = ((), 0),
       inflateInit2 = (\<lambda>_. ((), 0)), inflate = (\<lambda>_ b _ _. ((), tl b, 1)), inflateEnd = (\<lambda>_. 0)\<rparr>,
     env_malloc1 = True, env_malloc2 = True\<rparr>"

definition xor_pack :: mfptp_pack where
  "xor_pack = demo_pack\<lparr>pk_compress := 2, pk_encrypt := 2, pk_key := replicate 18 5\<rparr>"

abbreviation xor_wire :: "bytes list list" where
  "xor_wire \<equiv> [[[0x7D, 4, 7], [0x7D, 6]], [[0x7D, 1]]]"

lemma xor_sent: "list_all2 (sent_as xor_env xor_pack) demo_msg xor_wire"
  by (simp add: sent_as_def payload_to_def pack_payload_def scratch_fits_def libraries_invert_def compressed_bytes_def xor_env_def xor_pack_def
      demo_pack_def mfptp_gzip_def mfptp_aes_ecb_encrypt_evp_def zlib_roundtrip_def evp_roundtrip_def Z_OK_def Z_STREAM_END_def
      MFPTP_FRAME_MAX_LEN_def)

theorem mfptp_forward_roundtrip_witness:
  "\<exists>dst' p' rets s'. pack_calls xor_env (replicate 40 0) xor_pack (message_calls demo_msg) = Some (dst', p', rets)
    \<and> mfptp_parse 4 (drift_call xor_env) dst' (pk_index p') demo_info [] = Some (Returns (MFPTP_PARSE_OVER, s'))
    \<and> p_world s' = map plain_frames demo_msg
    \<and> pi_buf (p_info s') = Freed \<and> pi_buf1 (p_info s') = Freed"
proof (rule mfptp_forward_roundtrip)
  show "pack_ready xor_env xor_pack demo_msg"
    by (simp add: pack_ready_def xor_env_def xor_pack_def demo_pack_def MFPTP_PACK_INIT_def)
  show "list_all2 (sent_as xor_env xor_pack) demo_msg xor_wire" by (rule xor_sent)
  show "10 + length (frames_wire (message_calls xor_wire)) \<le> length (replicate 40 (0::byte))"
    by (simp add: message_calls_def frames_wire_def frame_wire_def frame_prefix_def)
qed (simp_all add: demo_info_ready frames_fit_def xor_pack_def demo_pack_def MAX_FRAMES_PER_PACKAGE_def HEARTBEAT_METHOD_def)
section \<open>Messages that arrive in pieces\<close>

lemma mid_package_zero: "mid pr m xs j gs s \<Longrightarrow> mid pr m xs j [] (upd_package (\<lambda>_. package_zero) s)"
  by (auto simp: mid_def at_frame_def upd_package_def upd_status_def)

lemma mid_stops:
  assumes "mid pr m xs j [] s" "get_size = int (length xs)" "get_size < MAX_REQ_SIZE"
  shows "parse_loop (Suc n) call get_size s = Some (Returns (MFPTP_PARSE_PACKAGE, s))"
  using assms by (simp add: mid_parse_iter [OF assms(1)] package_step_def check_size_def)
    (auto simp: mid_def at_frame_def MAX_REQ_SIZE_def)

lemma message_calls_append: "message_calls (a @ b) = message_calls a @ message_calls b"
  by (simp add: message_calls_def)

context delivery
begin

text \<open>The first packages of a message, up to number \<open>k\<close>.\<close>

lemma prefix_run:
  assumes "mid pr m xs j [] s" "m = xs @ frames_wire (message_calls (drop j (take k pkgs))) @ ys"
    and "int (length xs + length (frames_wire (message_calls (drop j (take k pkgs))))) \<le> get_size" "get_size \<le> 1073741824"
    and "J j (p_info s, p_world s)" "j \<le> k" "k < length pkgs"
    and pk: "\<forall>fs \<in> set pkgs. fs \<noteq> [] \<and> length fs \<le> MAX_FRAMES_PER_PACKAGE \<and> (\<forall>f \<in> set fs. length f < 16777216)"
    and pr: "ps_func pr = Some fn" "ps_packages pr = of_nat (length pkgs)" "length pkgs \<le> 255"
  shows "\<exists>s'. mid pr m (xs @ frames_wire (message_calls (drop j (take k pkgs)))) k [] s' \<and> J k (p_info s', p_world s')
    \<and> (\<forall>n. parse_loop (length (concat (drop j (take k pkgs))) + n) call get_size s = parse_loop n call get_size s')"
  using assms(1-7)
proof (induction "k - j" arbitrary: xs j s)
  case 0
  then show ?case by (auto simp: message_calls_def frames_wire_def)
next
  case (Suc d)
  then have jk: "j < k" by simp
  have dr: "drop j (take k pkgs) = pkgs ! j # drop (Suc j) (take k pkgs)"
    using Suc.prems(7) jk Cons_nth_drop_Suc [of j "take k pkgs"] by simp
  have p: "pkgs ! j \<noteq> []" "length (pkgs ! j) \<le> MAX_FRAMES_PER_PACKAGE" "\<forall>f \<in> set (pkgs ! j). length f < 16777216"
    using pk Suc.prems(7) jk by auto
  let ?w = "frames_wire (package_calls (pkgs ! j))" and ?r = "frames_wire (message_calls (drop (Suc j) (take k pkgs)))"
  have w: "frames_wire (message_calls (drop j (take k pkgs))) = ?w @ ?r"
    by (simp add: dr message_calls_Cons frames_wire_append)
  obtain s1 gs1 where s1: "mid pr m (xs @ ?w) (Suc j) gs1 s1" "J (Suc j) (p_info s1, p_world s1)"
    and loop: "\<And>n. parse_loop (length (pkgs ! j) + n) call get_size s =
      (if Suc j = length pkgs then do { s9 \<leftarrow> shift_rest get_size s1; Some (Returns (MFPTP_PARSE_OVER, s9)) }
       else parse_loop n call get_size (upd_package (\<lambda>_. package_zero) s1))"
    using package_run [of xs j "[]" s "pkgs ! j" "?r @ ys" get_size] Suc.prems jk w p pr by auto
  let ?s = "upd_package (\<lambda>_. package_zero) s1"
  have "J (Suc j) (p_info ?s, p_world ?s)" using J_upd [OF s1(2)] by (simp add: upd_package_def)
  moreover have "d = k - Suc j" using Suc.hyps(2) by simp
  ultimately obtain s' where s': "mid pr m ((xs @ ?w) @ ?r) k [] s'" "J k (p_info s', p_world s')"
      "\<forall>n. parse_loop (length (concat (drop (Suc j) (take k pkgs))) + n) call get_size ?s = parse_loop n call get_size s'"
    using Suc.hyps(1) [of "Suc j" "xs @ ?w" ?s] mid_package_zero [OF s1(1)] Suc.prems w jk by auto
  then show ?case using loop jk Suc.prems(7) w dr by (intro exI [of _ s']) (simp add: add.assoc)
qed

text \<open>From the header on.\<close>

lemma header_run:
  assumes "ready info" "pr = parsed_header p (pi_parser info)" "m = header_wire p @ ys" "10 \<le> get_size"
    and "pk_method p \<noteq> HEARTBEAT_METHOD" "pk_packages p \<noteq> 0" "J 0 (info\<lparr>pi_parser := pr\<rparr>, w)"
  shows "\<exists>s. mid pr m (header_wire p) 0 [] s \<and> J 0 (p_info s, p_world s)
    \<and> (\<forall>n. mfptp_parse (Suc n) call m get_size info w = parse_loop n call get_size s)"
proof -
  define s0 where "s0 = \<lparr>p_buf = m, p_offset = 0, p_length_over = 0, p_info = info, p_world = w\<rparr>"
  define s1 where "s1 = s0\<lparr>p_offset := 10, p_info := info\<lparr>pi_parser := pr,
     pi_status := (pi_status info)\<lparr>st_doptr := 10, st_step := MFPTP_PARSE_PACKAGE,
       st_package := (st_package (pi_status info))\<lparr>pkg_frames := 0\<rparr>\<rparr>\<rparr>\<rparr>"
  have "head_step get_size s0 = Some (Inl s1)"
    using head_step_header [of s0 p ys get_size] assms by (simp add: s0_def s1_def ready_def)
  then have "\<forall>n. mfptp_parse (Suc n) call m get_size info w = parse_loop n call get_size s1"
    using assms(1) by (auto simp: mfptp_parse_def parse_iter_def s0_def ready_def)
  moreover have "mid pr m (header_wire p) 0 [] s1"
    using assms by (auto simp: mid_def at_frame_def s1_def s0_def package_view_def ready_def wf_info_def parsed_header_def)
  moreover have "J 0 (p_info s1, p_world s1)" using J_status [OF assms(7)] by (simp add: s1_def s0_def)
  ultimately show ?thesis by blast
qed

end

lemma mid_restart:
  assumes "mid pr m xs j [] s" "m' = xs @ ys"
  shows "mid pr m' xs j [] \<lparr>p_buf = m', p_offset = st_doptr (status s), p_length_over = 0, p_info = p_info s, p_world = w\<rparr>"
  using assms by (auto simp: mid_def at_frame_def package_view_def)

text \<open>C10: a message may arrive in pieces cut at package boundaries. Called when only the
  packages \<open>a\<close> of a message have arrived, whatever bytes lie behind them in the buffer,
  \<^verbatim>\<open>mfptp_parse\<close> delivers exactly those and returns \<open>MFPTP_PARSE_PACKAGE\<close>; called again with the
  structure it left and the whole message in the buffer, it delivers the packages \<open>b\<close> that
  were missing, none twice, and returns \<open>MFPTP_PARSE_OVER\<close>.\<close>

theorem mfptp_parse_resumes:
  assumes "ready info" "ps_func (pi_parser info) = Some fn"
    and "m = header_wire p @ frames_wire (message_calls a) @ frames_wire (message_calls b)"
    and "m1 = header_wire p @ frames_wire (message_calls a) @ garbage" "int (length m) < MAX_REQ_SIZE"
    and "frames_fit (a @ b)" "[] \<notin> set (a @ b)" "b \<noteq> []" "length (a @ b) \<le> 255"
    and "pk_method p \<noteq> HEARTBEAT_METHOD" "pk_packages p = of_nat (length (a @ b))"
    and "length (concat (a @ b)) + 2 \<le> fuel"
  shows "\<exists>s1 s2. mfptp_parse fuel record_package m1 (int (10 + length (frames_wire (message_calls a)))) info []
        = Some (Returns (MFPTP_PARSE_PACKAGE, s1)) \<and> p_world s1 = a
    \<and> mfptp_parse fuel record_package m (int (length m)) (p_info s1) (p_world s1) = Some (Returns (MFPTP_PARSE_OVER, s2))
    \<and> p_world s2 = a @ b"
proof -
  let ?pr = "parsed_header p (pi_parser info)" and ?h = "header_wire p" and ?k = "length a"
  let ?A = "frames_wire (message_calls a)" and ?B = "frames_wire (message_calls b)"
  let ?g1 = "int (10 + length ?A)" and ?g2 = "int (length m)"
  have pk: "\<forall>fs \<in> set (a @ b). fs \<noteq> [] \<and> length fs \<le> MAX_FRAMES_PER_PACKAGE \<and> (\<forall>f \<in> set fs. length f < 16777216)"
    using assms(6,7) by (auto simp: frames_fit_def)
  have sz: "?g1 < MAX_REQ_SIZE" "?g2 \<le> 1073741824" "?g1 \<le> ?g2" "?g2 = int (10 + length ?A + length ?B)"
    using assms(3,5) by (auto simp: MAX_REQ_SIZE_def)
  have np: "pk_packages p \<noteq> 0" using assms(8,9,11) packages_zero_iff [of "length (a @ b)"] by simp
  have pr: "ps_func ?pr = Some fn" "ps_packages ?pr = of_nat (length (a @ b))" using assms(2,11) by (simp_all add: parsed_header_def)
  obtain s0 where s0: "mid ?pr m1 ?h 0 [] s0" "snd (p_info s0, p_world s0) = take 0 (a @ b)"
      "\<forall>n. mfptp_parse (Suc n) record_package m1 ?g1 info [] = parse_loop n record_package ?g1 s0"
    using rec.header_run [where info = info and p = p and m = m1 and ys = "?A @ garbage" and get_size = ?g1 and pkgs = "a @ b" and w = "[]"] assms(1,4,10) np by auto
  obtain s1 where s1: "mid ?pr m1 (?h @ ?A) ?k [] s1" "snd (p_info s1, p_world s1) = take ?k (a @ b)"
      "\<forall>n. parse_loop (length (concat a) + n) record_package ?g1 s0 = parse_loop n record_package ?g1 s1"
    using rec.prefix_run [OF s0(1), where k = ?k and pkgs = "a @ b" and ys = garbage and get_size = ?g1 and fn = fn] s0(2) assms(4,8,9) pk pr sz by auto
  obtain n where n: "fuel = Suc (length (concat a) + Suc n)"
    using assms(12) le_Suc_ex [of "length (concat a) + 2" fuel] by auto
  have w: "p_world s1 = a" using s1(2) by simp
  have one: "mfptp_parse fuel record_package m1 ?g1 info [] = Some (Returns (MFPTP_PARSE_PACKAGE, s1))"
    unfolding n using s0(3) s1(3) mid_stops [OF s1(1), of ?g1 n record_package] sz(1)
    by (simp del: parse_loop.simps add_Suc_right)
  let ?s = "\<lparr>p_buf = m, p_offset = st_doptr (status s1), p_length_over = 0, p_info = p_info s1, p_world = a\<rparr>"
  have "mid ?pr m (?h @ ?A) ?k [] ?s" by (rule mid_restart [OF s1(1)]) (simp add: assms(3))
  then obtain s2 gs2 where s2: "mid ?pr m ((?h @ ?A) @ ?B) (length (a @ b)) gs2 s2"
      "snd (p_info s2, p_world s2) = take (length (a @ b)) (a @ b)"
      "parse_loop (length (concat b) + (fuel - length (concat b))) record_package ?g2 ?s
        = do { s9 \<leftarrow> shift_rest ?g2 s2; Some (Returns (MFPTP_PARSE_OVER, s9)) }"
    using rec.message_run [where pr = ?pr and m = m and xs = "?h @ ?A" and j = ?k and s = ?s and pkgs = "a @ b" and ys = "[]"
        and get_size = ?g2 and fn = fn and n = "fuel - length (concat b)"] assms(3,8,9) pk pr sz by auto
  have "st_doptr (status s2) = ?g2" using s2(1) assms(3) by (auto simp: mid_def at_frame_def)
  then have "shift_rest ?g2 s2 = Some (upd_status (\<lambda>st. st\<lparr>st_doptr := 0\<rparr>) s2)" by (simp add: shift_rest_def)
  with s2(3) assms(12) have "mfptp_parse fuel record_package m ?g2 (p_info s1) a
      = Some (Returns (MFPTP_PARSE_OVER, upd_status (\<lambda>st. st\<lparr>st_doptr := 0\<rparr>) s2))"
    by (simp add: mfptp_parse_def)
  moreover have "p_world (upd_status u s2) = a @ b" for u using s2(2) by (simp add: upd_status_def)
  ultimately show ?thesis using one w by blast
qed

theorem mfptp_parse_resumes_witness:
  "\<exists>s1 s2. mfptp_parse 5 record_package (header_wire demo_pack @ frames_wire (message_calls [[[1, 2], [3]]]) @ [0xFF])
         (int (10 + length (frames_wire (message_calls [[[1, 2], [3]]])))) demo_info []
        = Some (Returns (MFPTP_PARSE_PACKAGE, s1)) \<and> p_world s1 = [[[1, 2], [3]]]
    \<and> mfptp_parse 5 record_package (header_wire demo_pack @ frames_wire (message_calls [[[1, 2], [3]]]) @ frames_wire (message_calls [[[4]]]))
         (int (length (header_wire demo_pack @ frames_wire (message_calls [[[1, 2], [3]]]) @ frames_wire (message_calls [[[4]]]))))
         (p_info s1) (p_world s1) = Some (Returns (MFPTP_PARSE_OVER, s2))
    \<and> p_world s2 = [[[1, 2], [3]]] @ [[[4]]]"
  by (rule mfptp_parse_resumes [OF demo_info_ready(1,2) refl refl])
    (simp_all add: message_calls_def frames_wire_def frame_wire_def frame_prefix_def MAX_REQ_SIZE_def frames_fit_def
      MAX_FRAMES_PER_PACKAGE_def demo_pack_def HEARTBEAT_METHOD_def)

text \<open>Messages that follow each other in the buffer are kept. When the bytes behind a
  message are no more than the message itself, \<^verbatim>\<open>mfptp_parse\<close> delivers the message and moves
  them to the start of the buffer, with the position back at 0. (With more of them the
  ranges of its \<^verbatim>\<open>memcpy\<close> overlap.)\<close>

lemma mfptp_parse_keeps_rest:
  assumes "ready info" "ps_func (pi_parser info) = Some fn"
    and "m = header_wire p @ frames_wire (message_calls pkgs) @ rest @ slack" "length m \<le> 1073741824"
    and "length rest \<le> 10 + length (frames_wire (message_calls pkgs))"
    and "frames_fit pkgs" "[] \<notin> set pkgs" "pkgs \<noteq> []" "length pkgs \<le> 255"
    and "pk_method p \<noteq> HEARTBEAT_METHOD" "pk_packages p = of_nat (length pkgs)" "Suc (length (concat pkgs)) \<le> fuel"
  shows "\<exists>s'. mfptp_parse fuel record_package m (int (10 + length (frames_wire (message_calls pkgs)) + length rest)) info []
      = Some (Returns (MFPTP_PARSE_OVER, s'))
    \<and> p_world s' = pkgs \<and> take (length rest) (p_buf s') = rest \<and> st_doptr (status s') = 0"
proof -
  obtain n where n: "fuel = Suc (length (concat pkgs)) + n" using fuel_split assms(12) by blast
  have "\<forall>fs\<in>set pkgs. fs \<noteq> [] \<and> length fs \<le> MAX_FRAMES_PER_PACKAGE \<and> (\<forall>f\<in>set fs. length f < 16777216)"
    using assms(6,7) by (auto simp: frames_fit_def)
  then show ?thesis unfolding n
    using rec.message_parsed [where info = info and p = p and pkgs = pkgs and rest = rest and slack = slack and fn = fn and w = "[]" and n = n
        and m = m and pr = "parsed_header p (pi_parser info)"] assms by (auto simp: parsed_header_def)
qed

lemma mfptp_parse_keeps_rest_witness:
  "\<exists>s'. mfptp_parse 4 record_package (header_wire demo_pack @ frames_wire (message_calls demo_msg) @ [0x23, 0x4D] @ [7])
        (int (10 + length (frames_wire (message_calls demo_msg)) + length [0x23, 0x4D :: byte])) demo_info []
      = Some (Returns (MFPTP_PARSE_OVER, s'))
    \<and> p_world s' = demo_msg \<and> take (length [0x23, 0x4D :: byte]) (p_buf s') = [0x23, 0x4D] \<and> st_doptr (status s') = 0"
  by (rule mfptp_parse_keeps_rest [OF demo_info_ready(1,2) refl])
    (simp_all add: demo_msg_layout frames_fit_def MAX_FRAMES_PER_PACKAGE_def demo_pack_def HEARTBEAT_METHOD_def)

text \<open>The loop is bounded. From a state that is \<open>live\<close> (as after \<^verbatim>\<open>mfptp_init_parser_info\<close>, or inside a
  message) and on any bytes, \<^verbatim>\<open>mfptp_parse\<close> goes round its loop at most 3600 times, a message having at
  most 255 packages of 13 frames: by then it has returned, or, on a hostile size field, reached
  outside a buffer. It does not spin, not even when a size field moves the position backwards.\<close>

lemma live_ready: "ready info \<Longrightarrow>
  live \<lparr>p_buf = buf, p_offset = st_doptr (pi_status info), p_length_over = 0, p_info = info, p_world = w\<rparr>"
  by (auto simp: live_def ready_def)

lemma mfptp_parse_bounded:
  fixes w :: "(int \<times> int \<times> scratch) list list"
  assumes "live \<lparr>p_buf = buf, p_offset = st_doptr (pi_status info), p_length_over = 0, p_info = info, p_world = w\<rparr>"
    and "3600 \<le> fuel"
  shows "mfptp_parse fuel (drift_call env) buf get_size info w \<noteq> Some OutOfFuel
    \<and> mfptp_parse fuel auth_call buf get_size info w \<noteq> Some OutOfFuel"
proof -
  let ?s = "\<lparr>p_buf = buf, p_offset = st_doptr (pi_status info), p_length_over = 0, p_info = info, p_world = w\<rparr>"
  have "uint (ps_packages (pi_parser info)) < 256" using uint_bounded [of "ps_packages (pi_parser info)"] by simp
  then have "budget ?s \<le> fuel" using assms by (auto simp: budget_def live_def mfptp_parse_codes)
  then show ?thesis
    using drift_cb.parse_loop_returns [OF assms(1)] auth_cb.parse_loop_returns [OF assms(1)] by (simp add: mfptp_parse_def)
qed

lemma version_byte:
  assumes "0 \<le> v" "v < 16" "0 \<le> sv" "sv < 16" "pk_version p = v" "pk_sub_version p = sv"
  shows "uint (pack_version_byte p) = 16 * v + sv"
proof -
  have "v \<in> {0..15}" "sv \<in> {0..15}" using assms by auto
  moreover have "{0..15::int} = {0,1,2,3,4,5,6,7,8,9,10,11,12,13,14,15}" by (intro set_eqI) (simp, presburger)
  ultimately have "v \<in> {0,1,2,3,4,5,6,7,8,9,10,11,12,13,14,15}" "sv \<in> {0,1,2,3,4,5,6,7,8,9,10,11,12,13,14,15}" by simp_all
  then show ?thesis unfolding pack_version_byte_def assms(5,6) Let_def
    by (elim insertE emptyE; simp)
qed

text \<open>the header. After \<^verbatim>\<open>mfptp_parse\<close> has read the header of a packed message, the version is
  the sender's, but the sub-version is not: the byte is shifted as an \<^verbatim>\<open>int\<close>, so the version
  stays in the upper half of the sub-version field.\<close>

lemma mfptp_header_version:
  fixes s :: "('f, 'w) parse_state"
  assumes "p_buf s = header_wire p @ ys" "p_offset s = 0" "st_doptr (status s) = 0" "10 \<le> get_size"
    and "pk_method p \<noteq> HEARTBEAT_METHOD" "pk_packages p \<noteq> 0"
    and "0 \<le> pk_version p" "pk_version p < 16" "0 \<le> pk_sub_version p" "pk_sub_version p < 16"
  shows "\<exists>s'. head_step get_size s = Some (Inl s') \<and> ps_version (parser s') = pk_version p
    \<and> ps_sub_version (parser s') = 16 * pk_version p + pk_sub_version p"
  using head_step_header [OF assms(1-6)] version_byte [OF assms(7-10) refl refl] assms(9,10)
  by (simp add: parsed_header_def sub_version_of_def)

lemma mfptp_header_version_witness:
  "\<exists>s'. head_step 10 \<lparr>p_buf = header_wire (demo_pack\<lparr>pk_version := 1\<rparr>) @ [], p_offset = 0, p_length_over = 0,
        p_info = demo_info, p_world = ()\<rparr> = Some (Inl s')
    \<and> ps_version (parser s') = pk_version (demo_pack\<lparr>pk_version := 1\<rparr>)
    \<and> ps_sub_version (parser s') = 16 * pk_version (demo_pack\<lparr>pk_version := 1\<rparr>) + pk_sub_version (demo_pack\<lparr>pk_version := 1\<rparr>)"
  using demo_info_ready(1)
  by (intro mfptp_header_version) (simp_all add: demo_pack_def HEARTBEAT_METHOD_def ready_def)

lemma mreads_take: "mreads m off n = Some bs \<Longrightarrow> 0 \<le> k \<Longrightarrow> k \<le> n \<Longrightarrow> mreads m off k = Some (take (nat k) bs)"
  by (auto simp: mreads_def split: if_splits)

lemma mreads_nth: "mreads m off n = Some bs \<Longrightarrow> 0 \<le> i \<Longrightarrow> i < n \<Longrightarrow> mread m (off + i) = Some (bs ! nat i)"
  by (auto simp: mreads_def mread_def nat_add_distrib split: if_splits)

lemma frame_bytes_fields:
  assumes "frame_bytes m k i = Some bs"
  shows "\<exists>off. mread (pkg_ptrs k) i = Some (Some off) \<and> mread (pkg_dsizes k) i = Some (int (length bs))
    \<and> mreads m off (int (length bs)) = Some bs"
  using assms mreads_length by (fastforce simp: frame_bytes_def bind_eq_Some_conv)

lemma invalid_uid_stored:
  "wf_info me \<Longrightarrow> \<exists>who. mwrites (pi_who me) 0 MFPTP_INVALID_UID = Some who \<and> take 6 who = MFPTP_INVALID_UID \<and> length who = 64"
  by (simp add: wf_info_def mwrites_def MFPTP_INVALID_UID_def)

lemma auth_accepts:
  assumes "wf_info me" "package_view m (st_package (pi_status me)) [uid @ [flag]]" "length uid = 15"
  shows "\<exists>me'. mfptp_auth_callback m me = Some me'
      \<and> take 15 (pi_who me') = uid \<and> length (pi_who me') = 64 \<and> pi_force_login me' = sint flag"
proof -
  let ?k = "st_package (pi_status me)"
  have "frame_bytes m ?k 0 = Some (uid @ [flag])" "pkg_frames ?k = 1" using assms(2) by (auto simp: package_view_def)
  then obtain off where off: "mread (pkg_ptrs ?k) 0 = Some (Some off)" "mread (pkg_dsizes ?k) 0 = Some 16"
      "mreads m off 16 = Some (uid @ [flag])"
    using frame_bytes_fields [of m ?k 0] assms(3) by fastforce
  have "mreads m off 15 = Some uid" "mread m (off + 15) = Some flag"
    using mreads_take [OF off(3), of 15] mreads_nth [OF off(3), of 15] assms(3) by (simp_all add: nth_append)
  moreover have "mwrites (pi_who me) 0 uid = Some (uid @ drop 15 (pi_who me))"
    using assms(1,3) by (simp add: wf_info_def mwrites_def)
  ultimately show ?thesis using off(1,2) \<open>pkg_frames ?k = 1\<close> assms(1,3)
    by (simp add: mfptp_auth_callback_def MFPTP_UID_MAX_LEN_def wf_info_def)
qed

lemma auth_refuses:
  assumes "wf_info me" "package_view m (st_package (pi_status me)) gs" "length gs \<noteq> 1 \<or> length (hd gs) = 0 \<or> 63 \<le> length (hd gs)"
  shows "\<exists>me'. mfptp_auth_callback m me = Some me'
      \<and> take 6 (pi_who me') = MFPTP_INVALID_UID \<and> length (pi_who me') = 64 \<and> pi_force_login me' = pi_force_login me"
proof (cases "length gs = 1")
  case True
  then obtain g where g: "gs = [g]" by (cases gs) auto
  let ?k = "st_package (pi_status me)"
  have "frame_bytes m ?k 0 = Some g" "pkg_frames ?k = 1" using assms(2) g by (auto simp: package_view_def)
  then have "mread (pkg_dsizes ?k) 0 = Some (int (length g))" using frame_bytes_fields by blast
  then show ?thesis using \<open>pkg_frames ?k = 1\<close> assms(3) g invalid_uid_stored [OF assms(1)]
    by (auto simp: mfptp_auth_callback_def MFPTP_UID_MAX_LEN_def)
next
  case False
  then have "pkg_frames (st_package (pi_status me)) \<noteq> 1" using assms(2) by (simp add: package_view_def)
  then show ?thesis using invalid_uid_stored [OF assms(1)] by (auto simp: mfptp_auth_callback_def)
qed

text \<open>the login callback. Shown a package of the one frame the protocol provides for, fifteen
  bytes of identity and a flag, \<^verbatim>\<open>mfptp_auth_callback\<close> stores the identity in \<^verbatim>\<open>who\<close> and the flag,
  sign-extended, in \<^verbatim>\<open>force_login\<close>; shown any other number of frames, or a frame that is empty or
  of 63 bytes or more, it stores the invalid identity and leaves the flag.\<close>

lemma mfptp_auth_login:
  assumes "wf_info me" "package_view m (st_package (pi_status me)) gs"
  shows "(\<forall>uid flag. gs = [uid @ [flag]] \<and> length uid = 15 \<longrightarrow> (\<exists>me'. mfptp_auth_callback m me = Some me'
      \<and> take 15 (pi_who me') = uid \<and> length (pi_who me') = 64 \<and> pi_force_login me' = sint flag))
    \<and> (length gs \<noteq> 1 \<or> length (hd gs) = 0 \<or> 63 \<le> length (hd gs) \<longrightarrow> (\<exists>me'. mfptp_auth_callback m me = Some me'
      \<and> take 6 (pi_who me') = MFPTP_INVALID_UID \<and> length (pi_who me') = 64 \<and> pi_force_login me' = pi_force_login me))"
  using auth_accepts auth_refuses assms by blast

definition demo_login :: "nat mfptp_parser_info" where
  "demo_login = demo_info\<lparr>pi_status := (pi_status demo_info)\<lparr>st_package := add_frame 0 2 16 package_zero\<rparr>\<rparr>"

lemma demo_login_view:
  "wf_info demo_login" "package_view ([0, 0] @ replicate 15 0x39 @ [1]) (st_package (pi_status demo_login)) [replicate 15 0x39 @ [1]]"
  using demo_info_ready(1)
  by (simp_all add: demo_login_def wf_info_def ready_def package_view_def add_frame_def package_zero_def MAX_FRAMES_PER_PACKAGE_def
      frame_bytes_def mread_def mreads_def)

lemma mfptp_auth_login_witness:
  "\<exists>me'. mfptp_auth_callback ([0, 0] @ replicate 15 0x39 @ [1]) demo_login = Some me'
      \<and> take 15 (pi_who me') = replicate 15 0x39 \<and> pi_force_login me' = 1"
  using mfptp_auth_login [OF demo_login_view] by fastforce
section \<open>Where the size checks fall short\<close>

definition one_pack :: mfptp_pack where
  "one_pack = demo_pack\<lparr>pk_packages := 1\<rparr>"

definition outcome :: "(int \<times> ('f, 'w) parse_state) run option \<Rightarrow> (int \<times> 'w \<times> int) option" where
  "outcome r = (case r of Some (Returns (ret, s)) \<Rightarrow> Some (ret, p_world s, st_doptr (status s)) | _ \<Rightarrow> None)"

text \<open>C40: the size check is one byte short. Whatever message lies in the receive buffer, when all its
  bytes but the last have been received \<^verbatim>\<open>mfptp_parse\<close> does not wait for it: it returns
  \<open>MFPTP_PARSE_OVER\<close>, its callback has been shown every package, the last frame ending in the byte that
  happens to lie in the buffer (or, for an empty last frame, its size read from that byte), and the
  position is left one byte behind the received data.\<close>

theorem mfptp_short_message_accepted:
  assumes "ready info" "ps_func (pi_parser info) = Some fn"
    and "m = header_wire p @ frames_wire (message_calls pkgs) @ slack" "length m \<le> 1073741824"
    and "frames_fit pkgs" "[] \<notin> set pkgs" "pkgs \<noteq> []" "length pkgs \<le> 255"
    and "pk_method p \<noteq> HEARTBEAT_METHOD" "pk_packages p = of_nat (length pkgs)" "Suc (length (concat pkgs)) \<le> fuel"
    and "received + 1 = int (10 + length (frames_wire (message_calls pkgs)))"
  shows "\<exists>s'. mfptp_parse fuel record_package m received info [] = Some (Returns (MFPTP_PARSE_OVER, s'))
    \<and> p_world s' = pkgs \<and> st_doptr (status s') = received + 1"
proof -
  obtain n where n: "fuel = Suc (length (concat pkgs)) + n" using fuel_split assms(11) by blast
  have pk: "\<forall>fs\<in>set pkgs. fs \<noteq> [] \<and> length fs \<le> MAX_FRAMES_PER_PACKAGE \<and> (\<forall>f\<in>set fs. length f < 16777216)"
    using assms(5,6) by (auto simp: frames_fit_def)
  have "message_calls pkgs \<noteq> []" using message_calls_shape assms(6,7) by blast
  then have "0 < length (frames_wire (message_calls pkgs))"
    by (cases "message_calls pkgs") (auto simp: frames_wire_def frame_wire_def frame_prefix_def)
  then have "10 \<le> received" using assms(12) by linarith
  then show ?thesis unfolding n
    using rec.message_parsed_short [where info = info and p = p and pkgs = pkgs and slack = slack and fn = fn and w = "[]" and n = n
        and m = m and pr = "parsed_header p (pi_parser info)" and get_size = received] assms pk by (auto simp: parsed_header_def)
qed

theorem mfptp_short_message_accepted_witness:
  "\<exists>s'. mfptp_parse 4 record_package (header_wire one_pack @ frames_wire (message_calls [[[1, 2, 0x63]]]) @ []) 14 demo_info []
       = Some (Returns (MFPTP_PARSE_OVER, s')) \<and> p_world s' = [[[1, 2, 0x63]]] \<and> st_doptr (status s') = 14 + 1"
  by (rule mfptp_short_message_accepted [OF demo_info_ready(1,2) refl])
    (simp_all add: message_calls_def frames_wire_def frame_wire_def frame_prefix_def frames_fit_def MAX_FRAMES_PER_PACKAGE_def
      one_pack_def demo_pack_def HEARTBEAT_METHOD_def)

definition sizes_call :: "'f \<Rightarrow> bytes \<Rightarrow> 'f mfptp_parser_info \<times> int list \<Rightarrow> ('f mfptp_parser_info \<times> int list) option" where
  "sizes_call fn m iw = Some (fst iw, snd iw @ take (nat (pkg_frames (st_package (pi_status (fst iw))))) (pkg_dsizes (st_package (pi_status (fst iw)))))"

text \<open>a four-byte size field can be negative. A frame that announces \<open>0xFFFFFFFB\<close> bytes passes the
  size check and is delivered to the callback with size \<open>-5\<close>.\<close>

lemma mfptp_negative_size_accepted:
  "outcome (mfptp_parse 4 sizes_call (header_wire one_pack @ [3, 0xFF, 0xFF, 0xFF, 0xFB]) 15 demo_info [])
     = Some (MFPTP_PARSE_OVER, [-5], 0)"
  by code_simp

end
