(* ===== verification/Jtt_Codec.thy ===== *)
theory Jtt_Codec
  imports Supex_Prelude
begin

text \<open>
  The byte-level codecs of the JT/T 809 link of the release server
  (\<^verbatim>\<open>programs/releaseServer/src\<close>): the escaping of the frame delimiters (\<^verbatim>\<open>pkg_escape.c\<close>), the
  stream cipher (\<^verbatim>\<open>pkg_sec.c\<close>) and the table-driven checksum (\<^verbatim>\<open>pkg_crc.c\<close>), with the lemmas that make
  them codecs: unescaping in place inverts escaping, the cipher is its own inverse, and
  the table computes the CRC the polynomial defines.
\<close>

section \<open>Escaping (pkg_escape.c)\<close>

text \<open>The bytes \<^verbatim>\<open>escape\<close> writes at \<^verbatim>\<open>dst\<close>; its return value is their number.\<close>

definition escape :: "byte \<Rightarrow> bytes" where
  "escape src =
     (if src = 0x5B then [0x5A, 0x01]
      else if src = 0x5A then [0x5A, 0x02]
      else if src = 0x5D then [0x5E, 0x01]
      else if src = 0x5E then [0x5E, 0x02]
      else [src])"

text \<open>\<^verbatim>\<open>unescape\<close> on one buffer: \<open>d\<close> and \<open>s\<close> are the offsets of \<^verbatim>\<open>dst\<close> and \<^verbatim>\<open>src\<close>, which may be equal. The
  byte after an escape is read without looking at \<^verbatim>\<open>slen\<close>.\<close>

definition unescape_byte :: "byte \<Rightarrow> byte \<Rightarrow> byte" where
  "unescape_byte b c =
     (if b = 0x5A then (if c = 0x01 then 0x5B else if c = 0x02 then 0x5A else c)
      else (if c = 0x01 then 0x5D else if c = 0x02 then 0x5E else c))"

function unescape_loop :: "bytes \<Rightarrow> int \<Rightarrow> int \<Rightarrow> int \<Rightarrow> int \<Rightarrow> int \<Rightarrow> (bytes \<times> int) option" where
  "unescape_loop m d s slen i dlen =
     (if i < slen then do {
        b \<leftarrow> mread m (s + i);
        if b = 0x5A \<or> b = 0x5E then do {
          c \<leftarrow> mread m (s + (i + 1));
          m' \<leftarrow> mwrite m (d + dlen) (unescape_byte b c);
          unescape_loop m' d s slen (i + 2) (dlen + 1)
        } else do {
          m' \<leftarrow> mwrite m (d + dlen) b;
          unescape_loop m' d s slen (i + 1) (dlen + 1)
        }
      } else Some (m, dlen))"
  by pat_completeness auto

termination by (relation "measure (\<lambda>(m, d, s, slen, i, dlen). nat (slen - i))") auto

declare unescape_loop.simps [simp del]

definition unescape :: "bytes \<Rightarrow> int \<Rightarrow> int \<Rightarrow> int \<Rightarrow> (bytes \<times> int) option" where
  "unescape m d s slen = unescape_loop m d s slen 0 0"

section \<open>The cipher (pkg_sec.c)\<close>

definition M1 :: u32 where "M1 = 851027125"
definition IA1 :: u32 where "IA1 = 410213143"
definition IC1 :: u32 where "IC1 = 219143235"

definition sec_next :: "u32 \<Rightarrow> u32" where
  "sec_next key = (let mkey = (if M1 = 0 then 1 else M1) in IA1 * (key mod mkey) + IC1)"

fun sec_loop :: "u32 \<Rightarrow> bytes \<Rightarrow> int \<Rightarrow> nat \<Rightarrow> bytes option" where
  "sec_loop key pkg idx 0 = Some pkg"
| "sec_loop key pkg idx (Suc n) = do {
     let key = sec_next key;
     b \<leftarrow> mread pkg idx;
     pkg' \<leftarrow> mwrite pkg idx (b XOR ucast (drop_bit 20 key AND 0xFF));
     sec_loop key pkg' (idx + 1) n
   }"

text \<open>\<open>idx\<close> is unsigned, so a negative \<^verbatim>\<open>len\<close> counts as a huge one.\<close>

definition sec_encrypt :: "u32 \<Rightarrow> bytes \<Rightarrow> int \<Rightarrow> int \<Rightarrow> bytes option" where
  "sec_encrypt key pkg off len =
     (let key = (if key = 0 then 1 else key) in sec_loop key pkg off (unat (word_of_int len :: u32)))"

definition sec_decrypt :: "u32 \<Rightarrow> bytes \<Rightarrow> int \<Rightarrow> int \<Rightarrow> bytes option" where
  "sec_decrypt key pkg off len = sec_encrypt key pkg off len"

section \<open>The checksum (pkg_crc.c)\<close>

definition crctable :: "u16 list" where
  "crctable = [
     0x0000, 0x1021, 0x2042, 0x3063, 0x4084, 0x50a5, 0x60c6, 0x70e7,
     0x8108, 0x9129, 0xa14a, 0xb16b, 0xc18c, 0xd1ad, 0xe1ce, 0xf1ef,
     0x1231, 0x0210, 0x3273, 0x2252, 0x52b5, 0x4294, 0x72f7, 0x62d6,
     0x9339, 0x8318, 0xb37b, 0xa35a, 0xd3bd, 0xc39c, 0xf3ff, 0xe3de,
     0x2462, 0x3443, 0x0420, 0x1401, 0x64e6, 0x74c7, 0x44a4, 0x5485,
     0xa56a, 0xb54b, 0x8528, 0x9509, 0xe5ee, 0xf5cf, 0xc5ac, 0xd58d,
     0x3653, 0x2672, 0x1611, 0x0630, 0x76d7, 0x66f6, 0x5695, 0x46b4,
     0xb75b, 0xa77a, 0x9719, 0x8738, 0xf7df, 0xe7fe, 0xd79d, 0xc7bc,
     0x48c4, 0x58e5, 0x6886, 0x78a7, 0x0840, 0x1861, 0x2802, 0x3823,
     0xc9cc, 0xd9ed, 0xe98e, 0xf9af, 0x8948, 0x9969, 0xa90a, 0xb92b,
     0x5af5, 0x4ad4, 0x7ab7, 0x6a96, 0x1a71, 0x0a50, 0x3a33, 0x2a12,
     0xdbfd, 0xcbdc, 0xfbbf, 0xeb9e, 0x9b79, 0x8b58, 0xbb3b, 0xab1a,
     0x6ca6, 0x7c87, 0x4ce4, 0x5cc5, 0x2c22, 0x3c03, 0x0c60, 0x1c41,
     0xedae, 0xfd8f, 0xcdec, 0xddcd, 0xad2a, 0xbd0b, 0x8d68, 0x9d49,
     0x7e97, 0x6eb6, 0x5ed5, 0x4ef4, 0x3e13, 0x2e32, 0x1e51, 0x0e70,
     0xff9f, 0xefbe, 0xdfdd, 0xcffc, 0xbf1b, 0xaf3a, 0x9f59, 0x8f78,
     0x9188, 0x81a9, 0xb1ca, 0xa1eb, 0xd10c, 0xc12d, 0xf14e, 0xe16f,
     0x1080, 0x00a1, 0x30c2, 0x20e3, 0x5004, 0x4025, 0x7046, 0x6067,
     0x83b9, 0x9398, 0xa3fb, 0xb3da, 0xc33d, 0xd31c, 0xe37f, 0xf35e,
     0x02b1, 0x1290, 0x22f3, 0x32d2, 0x4235, 0x5214, 0x6277, 0x7256,
     0xb5ea, 0xa5cb, 0x95a8, 0x8589, 0xf56e, 0xe54f, 0xd52c, 0xc50d,
     0x34e2, 0x24c3, 0x14a0, 0x0481, 0x7466, 0x6447, 0x5424, 0x4405,
     0xa7db, 0xb7fa, 0x8799, 0x97b8, 0xe75f, 0xf77e, 0xc71d, 0xd73c,
     0x26d3, 0x36f2, 0x0691, 0x16b0, 0x6657, 0x7676, 0x4615, 0x5634,
     0xd94c, 0xc96d, 0xf90e, 0xe92f, 0x99c8, 0x89e9, 0xb98a, 0xa9ab,
     0x5844, 0x4865, 0x7806, 0x6827, 0x18c0, 0x08e1, 0x3882, 0x28a3,
     0xcb7d, 0xdb5c, 0xeb3f, 0xfb1e, 0x8bf9, 0x9bd8, 0xabbb, 0xbb9a,
     0x4a75, 0x5a54, 0x6a37, 0x7a16, 0x0af1, 0x1ad0, 0x2ab3, 0x3a92,
     0xfd2e, 0xed0f, 0xdd6c, 0xcd4d, 0xbdaa, 0xad8b, 0x9de8, 0x8dc9,
     0x7c26, 0x6c07, 0x5c64, 0x4c45, 0x3ca2, 0x2c83, 0x1ce0, 0x0cc1,
     0xef1f, 0xff3e, 0xcf5d, 0xdf7c, 0xaf9b, 0xbfba, 0x8fd9, 0x9ff8,
     0x6e17, 0x7e36, 0x4e55, 0x5e74, 0x2e93, 0x3eb2, 0x0ed1, 0x1ef0]"

definition crc_step :: "u16 \<Rightarrow> byte \<Rightarrow> u16" where
  "crc_step crc b = push_bit 8 crc XOR crctable ! unat (drop_bit 8 crc XOR ucast b)"

definition crc_bytes :: "bytes \<Rightarrow> u16" where
  "crc_bytes bs = foldl crc_step 0xffff bs XOR 0"

definition crc_get :: "bytes \<Rightarrow> int \<Rightarrow> int \<Rightarrow> u16 option" where
  "crc_get m off len = (if len \<le> 0 then Some (crc_bytes []) else map_option crc_bytes (mreads m off len))"

section \<open>Escaping and unescaping\<close>

lemma escape_length: "1 \<le> length (escape b) \<and> length (escape b) \<le> 2"
  by (simp add: escape_def)

lemma escape_no_delimiter: "c \<in> set (escape b) \<Longrightarrow> c \<noteq> 0x5B \<and> c \<noteq> 0x5D"
  by (auto simp: escape_def split: if_splits)

lemma mread_at: "i = int (length xs) \<Longrightarrow> mread (xs @ y # ys) i = Some y"
  by (simp add: mread_append)

lemma escape_forms:
  "(b \<noteq> 0x5A \<and> b \<noteq> 0x5E \<and> escape b = [b])
   \<or> (\<exists>c d. escape b = [c, d] \<and> (c = 0x5A \<or> c = 0x5E) \<and> unescape_byte c d = b)"
  by (cases "b = 0x5B"; cases "b = 0x5A"; cases "b = 0x5D"; cases "b = 0x5E")
    (simp_all add: escape_def unescape_byte_def)

lemma escape_cases:
  obtains "b \<noteq> 0x5A" "b \<noteq> 0x5E" "escape b = [b]"
  | c d where "escape b = [c, d]" "c = 0x5A \<or> c = 0x5E" "unescape_byte c d = b"
  using escape_forms [of b] by blast

text \<open>Unescaping in place: \<open>P\<close> is what has been written, \<open>J\<close> what lies between it and the
  unread input.\<close>

lemma unescape_escaped:
  assumes "d + dlen = int (length P)" "s + i = int (length P + length J)"
    and "slen - i = int (length (concat (map escape xs)))"
  shows "\<exists>J'. unescape_loop (P @ J @ concat (map escape xs) @ B) d s slen i dlen
      = Some (P @ xs @ J' @ B, dlen + int (length xs))
    \<and> length xs + length J' = length J + length (concat (map escape xs))"
  using assms
proof (induction xs arbitrary: P J i dlen)
  case Nil
  then show ?case by (subst unescape_loop.simps) auto
next
  case (Cons x xs)
  let ?R = "concat (map escape xs) @ B"
  show ?case
  proof (cases x rule: escape_cases)
    case 1
    obtain j J1 where j: "J @ [x] = j # J1" "length J1 = length J" by (cases J) auto
    have lt: "i < slen" using Cons.prems(3) 1(3) by simp
    have r: "mread (P @ J @ x # ?R) (s + i) = Some x"
      using mread_at [of "s + i" "P @ J" x ?R] Cons.prems(2) by simp
    have w: "mwrite (P @ J @ x # ?R) (d + dlen) x = Some ((P @ [x]) @ J1 @ ?R)"
      using mwrite_append [of P j "J1 @ ?R" x] Cons.prems(1) j(1)
      by (metis append.assoc append_Cons append_Nil)
    have "\<exists>J'. unescape_loop ((P @ [x]) @ J1 @ ?R) d s slen (i + 1) (dlen + 1)
        = Some ((P @ [x]) @ xs @ J' @ B, dlen + 1 + int (length xs))
      \<and> length xs + length J' = length J1 + length (concat (map escape xs))"
      by (rule Cons.IH) (use Cons.prems 1(3) j(2) in auto)
    then show ?thesis using lt r w 1 j(2) by (subst unescape_loop.simps) auto
  next
    case (2 c e)
    obtain j J1 where j: "J @ [c, e] = j # J1" "length J1 = Suc (length J)" by (cases J) auto
    have lt: "i < slen" using Cons.prems(3) 2(1) by simp
    have r: "mread (P @ J @ c # e # ?R) (s + i) = Some c"
      using mread_at [of "s + i" "P @ J" c "e # ?R"] Cons.prems(2) by simp
    have r': "mread (P @ J @ c # e # ?R) (s + (i + 1)) = Some e"
      using mread_at [of "s + (i + 1)" "P @ J @ [c]" e ?R] Cons.prems(2) by simp
    have w: "mwrite (P @ J @ c # e # ?R) (d + dlen) x = Some ((P @ [x]) @ J1 @ ?R)"
      using mwrite_append [of P j "J1 @ ?R" x] Cons.prems(1) j(1)
      by (metis append.assoc append_Cons append_Nil)
    have "\<exists>J'. unescape_loop ((P @ [x]) @ J1 @ ?R) d s slen (i + 2) (dlen + 1)
        = Some ((P @ [x]) @ xs @ J' @ B, dlen + 1 + int (length xs))
      \<and> length xs + length J' = length J1 + length (concat (map escape xs))"
      by (rule Cons.IH) (use Cons.prems 2(1) j(2) in auto)
    then show ?thesis using lt r r' w 2 j(2) by (subst unescape_loop.simps) auto
  qed
qed

text \<open>As a codec: unescaping a buffer that holds the escaped bytes.\<close>

definition escape_all :: "bytes \<Rightarrow> bytes" where
  "escape_all xs = concat (map escape xs)"

definition unescape_all :: "bytes \<Rightarrow> bytes option" where
  "unescape_all m = map_option (\<lambda>(m', n). take (nat n) m') (unescape m 0 0 (int (length m)))"

interpretation escape_codec: codec "\<lambda>_. True" escape_all unescape_all
proof
  fix xs :: bytes
  show "unescape_all (escape_all xs) = Some xs"
    using unescape_escaped [of 0 0 "[]" 0 0 "[]" "int (length (escape_all xs))" xs "[]"]
    by (auto simp: unescape_all_def unescape_def escape_all_def)
qed

section \<open>The cipher is its own inverse\<close>

fun sec_stream :: "u32 \<Rightarrow> nat \<Rightarrow> bytes" where
  "sec_stream key 0 = []"
| "sec_stream key (Suc n) = (let k = sec_next key in ucast (drop_bit 20 k AND 0xFF) # sec_stream k n)"

lemma length_sec_stream [simp]: "length (sec_stream key n) = n"
  by (induction n arbitrary: key) (auto simp: Let_def)

lemma sec_loop_xor:
  "sec_loop key (P @ xs @ B) (int (length P)) (length xs) = Some (P @ map2 (XOR) xs (sec_stream key (length xs)) @ B)"
proof (induction xs arbitrary: key P)
  case Nil
  then show ?case by simp
next
  case (Cons x xs)
  let ?k = "sec_next key"
  let ?y = "x XOR ucast (drop_bit 20 ?k AND 0xFF)"
  have "sec_loop ?k ((P @ [?y]) @ xs @ B) (int (length (P @ [?y]))) (length xs)
      = Some ((P @ [?y]) @ map2 (XOR) xs (sec_stream ?k (length xs)) @ B)"
    by (rule Cons.IH)
  then show ?case by (simp add: mread_append mwrite_append Let_def add.commute)
qed

definition sec_xor :: "u32 \<Rightarrow> bytes \<Rightarrow> bytes" where
  "sec_xor key xs = map2 (XOR) xs (sec_stream (if key = 0 then 1 else key) (length xs))"

lemma length_sec_xor [simp]: "length (sec_xor key xs) = length xs"
  by (simp add: sec_xor_def)

lemma sec_encrypt_xor:
  assumes "int (length xs) < 2147483648"
  shows "sec_encrypt key (P @ xs @ B) (int (length P)) (int (length xs)) = Some (P @ sec_xor key xs @ B)"
proof -
  have "unat (word_of_int (int (length xs)) :: u32) = length xs"
    using assms by (simp add: unat_of_nat take_bit_nat_eq_self unsigned_of_nat)
  then show ?thesis by (simp add: sec_encrypt_def sec_xor_def sec_loop_xor)
qed

lemma map2_xor_cancel: "length ks = length xs \<Longrightarrow> map2 (XOR) (map2 (XOR) xs ks) ks = (xs :: bytes)"
  by (induction xs ks rule: list_induct2') (auto simp: xor.assoc)

lemma sec_xor_involution [simp]: "sec_xor key (sec_xor key xs) = xs"
  by (simp add: sec_xor_def map2_xor_cancel)

interpretation sec_codec: codec "\<lambda>_. True" "sec_xor key" "\<lambda>c. Some (sec_xor key c)" for key
  by unfold_locales simp

section \<open>The table computes the CRC\<close>

text \<open>CRC-16 with the polynomial \<open>0x1021\<close>, bit by bit: the byte enters at the top, and each of
  eight steps shifts left and reduces.\<close>

definition crc_bit :: "u16 \<Rightarrow> u16" where
  "crc_bit w = push_bit 1 w XOR (if bit w 15 then 0x1021 else 0)"

definition crc_ref_step :: "u16 \<Rightarrow> byte \<Rightarrow> u16" where
  "crc_ref_step crc b = (crc_bit ^^ 8) (crc XOR push_bit 8 (ucast b))"

definition crc_ref :: "bytes \<Rightarrow> u16" where
  "crc_ref bs = foldl crc_ref_step 0xffff bs"

lemma crc_bit_xor: "crc_bit (a XOR b) = crc_bit a XOR crc_bit b"
proof -
  have "push_bit 1 (a XOR b) = push_bit 1 a XOR push_bit 1 b" by (rule push_bit_xor)
  moreover have "(if bit (a XOR b) 15 then 0x1021 else 0) = (if bit a 15 then 0x1021 else 0) XOR (if bit b 15 then 0x1021 else (0::u16))"
    by (simp add: bit_xor_iff)
  ultimately show ?thesis unfolding crc_bit_def by (simp only: xor.assoc xor.left_commute)
qed

lemma crc_bits_xor: "(crc_bit ^^ n) (a XOR b) = (crc_bit ^^ n) a XOR (crc_bit ^^ n) b"
  by (induction n) (simp_all add: crc_bit_xor)

lemma crc_bits_low:
  assumes "\<And>k. 8 \<le> k \<Longrightarrow> \<not> bit w k" "n \<le> 8"
  shows "(crc_bit ^^ n) w = push_bit n w"
  using assms(2)
proof (induction n)
  case 0
  then show ?case by simp
next
  case (Suc n)
  have "\<not> bit (push_bit n w) 15" using assms(1) [of "15 - n"] Suc.prems by (simp add: bit_push_bit_iff)
  then have "crc_bit (push_bit n w) = push_bit (Suc n) w" by (simp only: crc_bit_def push_bit_push_bit if_False xor.right_neutral) simp
  then show ?case using Suc by simp
qed

text \<open>The entries at \<open>2 * i\<close> and \<open>2 * i + 1\<close> follow from the one at \<open>i\<close> by a single step.\<close>

fun table_ok :: "u16 list \<Rightarrow> u16 list \<Rightarrow> bool" where
  "table_ok [] ts = (ts = [])"
| "table_ok (t # ts) (a # b # rest) = (a = crc_bit t \<and> b = crc_bit t XOR 0x1021 \<and> table_ok ts rest)"
| "table_ok _ _ = False"

lemma table_ok_nth:
  "table_ok ts us \<Longrightarrow> i < length ts \<Longrightarrow> us ! (2 * i) = crc_bit (ts ! i) \<and> us ! (2 * i + 1) = crc_bit (ts ! i) XOR 0x1021"
proof (induction ts us arbitrary: i rule: table_ok.induct)
  case (2 t ts a b rest)
  then show ?case by (cases i) auto
qed auto

lemma crctable_ok: "table_ok (take 128 crctable) crctable"
  by code_simp

definition crc_entry :: "nat \<Rightarrow> u16" where
  "crc_entry i = (crc_bit ^^ 8) (push_bit 8 (of_nat i))"

lemma crc_entry_double: "i < 128 \<Longrightarrow> crc_entry (2 * i) = crc_bit (crc_entry i)"
proof -
  assume i: "i < 128"
  have "take_bit 7 (of_nat i :: u16) = of_nat i" using i by (simp add: take_bit_of_nat take_bit_nat_eq_self)
  then have "\<not> bit (of_nat i :: u16) 7" by (metis bit_take_bit_iff order_less_irrefl)
  then have "\<not> bit (push_bit 8 (of_nat i :: u16)) 15" by (simp add: bit_push_bit_iff)
  then have "crc_bit (push_bit 8 (of_nat i)) = push_bit 1 (push_bit 8 (of_nat i :: u16))" by (simp only: crc_bit_def if_False xor.right_neutral)
  also have "\<dots> = push_bit 8 (of_nat (2 * i))" by (simp add: push_bit_eq_mult)
  finally have "crc_entry (2 * i) = (crc_bit ^^ 8) (crc_bit (push_bit 8 (of_nat i)))" by (simp add: crc_entry_def)
  then show ?thesis by (simp only: funpow_swap1 crc_entry_def)
qed

lemma crc_entry_one: "crc_entry 1 = 0x1021"
  by code_simp

lemma crc_entry_odd: "crc_entry (2 * i + 1) = crc_entry (2 * i) XOR 0x1021"
proof -
  have "(of_nat (2 * i + 1) :: u16) = of_nat (2 * i) XOR 1" by (simp add: xor_one_eq)
  then have "push_bit 8 (of_nat (2 * i + 1) :: u16) = push_bit 8 (of_nat (2 * i)) XOR push_bit 8 (of_nat 1)"
    by (simp only: push_bit_xor of_nat_1)
  then show ?thesis using crc_entry_one by (simp only: crc_entry_def crc_bits_xor)
qed

lemma length_crctable: "length crctable = 256"
  by (simp add: crctable_def)

lemma crctable_0: "crctable ! 0 = 0"
  by (simp add: crctable_def)

lemma crctable_entries: "i < 256 \<Longrightarrow> crctable ! i = crc_entry i"
proof (induction i rule: less_induct)
  case (less i)
  have nth: "crctable ! (2 * j) = crc_bit (crctable ! j) \<and> crctable ! (2 * j + 1) = crc_bit (crctable ! j) XOR 0x1021" if "j < 128" for j
    using table_ok_nth [OF crctable_ok, of j] that by (simp add: length_crctable)
  show ?case
  proof (cases "i = 0")
    case True
    then show ?thesis by (simp add: crctable_0 crc_entry_def crc_bit_def eval_nat_numeral)
  next
    case False
    define j where "j = i div 2"
    have j: "j < i" "j < 128" "i = 2 * j \<or> i = 2 * j + 1" using False less.prems by (auto simp: j_def)
    have "crctable ! j = crc_entry j" using less.IH [OF j(1)] less.prems j(1) by simp
    then show ?thesis using j nth [OF j(2)] crc_entry_double [OF j(2)] crc_entry_odd [of j] by auto
  qed
qed

lemma crc_step_ref: "crc_step crc b = crc_ref_step crc b"
proof -
  define h :: u16 where "h = drop_bit 8 crc XOR ucast b"
  define l :: u16 where "l = take_bit 8 crc"
  have split: "crc XOR push_bit 8 (ucast b) = l XOR push_bit 8 h"
    by (rule bit_word_eqI) (auto simp: l_def h_def bit_simps)
  have "\<not> bit h k" if "8 \<le> k" for k
    using that by (auto simp: h_def bit_simps dest: bit_imp_le_length)
  then have "take_bit 8 h = h" by (intro bit_word_eqI) (auto simp: bit_take_bit_iff intro: leI)
  then have "unat h = take_bit 8 (unat h)" by (metis unsigned_take_bit_eq)
  then have "unat h < 2 ^ 8" by (metis take_bit_nat_less_exp)
  then have "crctable ! unat h = (crc_bit ^^ 8) (push_bit 8 h)" using crctable_entries [of "unat h"] by (simp add: crc_entry_def)
  moreover have "(crc_bit ^^ 8) l = push_bit 8 crc"
  proof -
    have "(crc_bit ^^ 8) l = push_bit 8 l" by (rule crc_bits_low) (auto simp: l_def bit_take_bit_iff)
    also have "\<dots> = push_bit 8 crc" by (rule bit_word_eqI) (auto simp: l_def bit_simps)
    finally show ?thesis .
  qed
  ultimately show ?thesis
    unfolding crc_step_def crc_ref_step_def split crc_bits_xor h_def [symmetric] by simp
qed

lemma crc_bytes_ref: "crc_bytes bs = crc_ref bs"
proof -
  have "crc_step = crc_ref_step" by (intro ext) (rule crc_step_ref)
  then show ?thesis by (simp add: crc_bytes_def crc_ref_def)
qed

text \<open>A step loses nothing: different states, or different bytes, give different states.\<close>

lemma crc_bit_zero: "crc_bit w = 0 \<Longrightarrow> w = 0"
proof -
  assume z: "crc_bit w = 0"
  show "w = 0"
  proof (cases "bit w 15")
    case True
    have "\<not> bit (push_bit 1 w) 0" by (simp only: bit_push_bit_iff) simp
    with True have "bit (crc_bit w) 0" by (simp only: crc_bit_def bit_xor_iff if_True) simp
    with z show ?thesis by simp
  next
    case False
    then have p: "push_bit 1 w = 0" using z by (simp add: crc_bit_def)
    show ?thesis
    proof (rule bit_word_eqI)
      fix n assume n: "n < LENGTH(16)"
      have "bit (push_bit 1 w) (Suc n) = (Suc n < 16 \<and> bit w n)" by (simp only: bit_push_bit_iff) simp
      then show "bit w n = bit 0 n" using n False p by (cases "n = 15") auto
    qed
  qed
qed

lemma xor_cancel_left: "(c :: 'a::len word) XOR a = c XOR b \<Longrightarrow> a = b"
  by (metis xor.assoc xor_self_eq xor.left_neutral)

lemma xor_zero_eq: "(a :: 'a::len word) XOR b = 0 \<Longrightarrow> a = b"
  using xor_cancel_left [of a b a] by simp

lemma crc_bit_inj:
  assumes "crc_bit a = crc_bit b"
  shows "a = b"
proof -
  have "crc_bit (a XOR b) = 0" using assms by (simp only: crc_bit_xor xor_self_eq)
  then show ?thesis by (rule xor_zero_eq [OF crc_bit_zero])
qed

lemma crc_bits_inj: "(crc_bit ^^ n) a = (crc_bit ^^ n) b \<Longrightarrow> a = b"
proof (induction n)
  case (Suc n)
  then have "crc_bit ((crc_bit ^^ n) a) = crc_bit ((crc_bit ^^ n) b)" by simp
  then have "(crc_bit ^^ n) a = (crc_bit ^^ n) b" by (rule crc_bit_inj)
  then show ?case by (rule Suc.IH)
qed simp

lemma crc_step_inj:
  assumes "crc_ref_step c b = crc_ref_step c' b"
  shows "c = c'"
proof -
  have "c XOR push_bit 8 (ucast b) = c' XOR push_bit 8 (ucast b)"
    using assms unfolding crc_ref_step_def by (rule crc_bits_inj)
  then have "push_bit 8 (ucast b) XOR c = push_bit 8 (ucast b) XOR c'" by (simp only: xor.commute)
  then show ?thesis by (rule xor_cancel_left)
qed

lemma crc_step_byte_inj: "crc_ref_step c a = crc_ref_step c b \<Longrightarrow> a = b"
proof -
  assume "crc_ref_step c a = crc_ref_step c b"
  then have "c XOR push_bit 8 (ucast a) = c XOR push_bit 8 (ucast b)" unfolding crc_ref_step_def by (rule crc_bits_inj)
  then have "push_bit 8 (ucast a :: u16) = push_bit 8 (ucast b)" by (rule xor_cancel_left)
  then have e: "bit (push_bit 8 (ucast a :: u16)) (n + 8) = bit (push_bit 8 (ucast b :: u16)) (n + 8)" for n by simp
  have "bit a n = bit b n" if "n < 8" for n
    using e [of n] that by (simp only: bit_push_bit_iff bit_ucast_iff) simp
  then show "a = b" by (intro bit_word_eqI) simp
qed

lemma crc_fold_inj: "foldl crc_ref_step c bs = foldl crc_ref_step c' bs \<Longrightarrow> c = c'"
  by (induction bs arbitrary: c c') (auto dest: crc_step_inj)

end
