(* ===== verification/Jtt_Package.thy ===== *)
theory Jtt_Package
  imports Jtt_Codec
begin

text \<open>
  JT/T 809 packages (\<^verbatim>\<open>programs/releaseServer/src/jtt_package.c\<close>): \<^verbatim>\<open>pkg_encode\<close> builds header, body and
  checksum and escapes them between the two delimiters, \<^verbatim>\<open>pkg_decode\<close> undoes it in place.
  Packages and buffers are lists of bytes; a write outside a buffer is \<^term>\<open>None\<close>. The header is
  a packed structure, so its layout is the concatenation of its fields in network order.
\<close>

section \<open>Structures\<close>

record pkg_user =
  pu_encrypt :: byte
  pu_msg_enterid :: u32
  pu_msg_sz :: u32
  pu_head_flag :: byte
  pu_end_flag :: byte
  pu_version :: bytes

text \<open>\<^verbatim>\<open>body\<close> is the bytes the pointer points to, \<^term>\<open>None\<close> for a null pointer.\<close>

record pkg_body =
  pb_msg_id :: u32
  pb_body :: "bytes option"
  pb_blen :: u32

definition JTT_HEAD_SIZE :: int where "JTT_HEAD_SIZE = 23"

definition jtt_head :: "pkg_user \<Rightarrow> u32 \<Rightarrow> pkg_body \<Rightarrow> bytes" where
  "jtt_head user key body =
     [pu_head_flag user]
     @ be32 (23 + pb_blen body + 3)
     @ be32 (pu_msg_sz user)
     @ be16 (ucast (pb_msg_id body))
     @ be32 (pu_msg_enterid user)
     @ take 3 (pu_version user)
     @ [pu_encrypt user]
     @ be32 key"

section \<open>pkg_encode\<close>

text \<open>The package before escaping, without the end flag. \<open>key\<close> is the result of \<^verbatim>\<open>sec_key_get\<close>, the
  memory the pointer leads to has to hold \<^verbatim>\<open>blen\<close> bytes.\<close>

definition pkg_content :: "pkg_user \<Rightarrow> u32 \<Rightarrow> pkg_body \<Rightarrow> bytes option" where
  "pkg_content user key body = do {
     let head = jtt_head user key body;
     data \<leftarrow> (case pb_body body of
         Some b \<Rightarrow> (if pb_blen body > 0 then do {
             d \<leftarrow> mreads b 0 (uint (pb_blen body));
             if pu_encrypt user = 1
             then map_option (drop (length head)) (sec_encrypt key (head @ d) JTT_HEAD_SIZE (uint (pb_blen body)))
             else Some d
           } else Some [])
       | None \<Rightarrow> Some []);
     let crc = crc_bytes (tl (head @ data));
     Some (head @ data @ [ucast (drop_bit 8 crc), ucast crc])
   }"

text \<open>The escape loop: a byte is written before the room for it is checked.\<close>

fun escape_loop :: "bytes \<Rightarrow> bytes \<Rightarrow> int \<Rightarrow> int \<Rightarrow> (bytes \<times> int \<times> bool) option" where
  "escape_loop [] pkg k plen = Some (pkg, k, True)"
| "escape_loop (b # bs) pkg k plen = do {
     pkg1 \<leftarrow> mwrites pkg k (escape b);
     let n = int (length (escape b));
     if k + n \<ge> plen then Some (pkg1, k, False)
     else escape_loop bs pkg1 (k + n) plen
   }"

text \<open>The result: the buffer, \<^verbatim>\<open>*plen\<close>, the user structure with its sequence number moved on, and the
  return value. \<open>alloc\<close> says whether \<^verbatim>\<open>calloc\<close> succeeds.\<close>

definition pkg_encode ::
  "bool \<Rightarrow> u32 \<Rightarrow> pkg_user \<Rightarrow> bytes \<Rightarrow> int \<Rightarrow> pkg_body \<Rightarrow> (bytes \<times> int \<times> pkg_user \<times> int) option" where
  "pkg_encode alloc key user pkg plen body =
     (let user1 = user\<lparr>pu_msg_sz := pu_msg_sz user + 1\<rparr>
      in if \<not> alloc then Some (pkg, plen, user1, -1)
         else do {
           tmp \<leftarrow> pkg_content user key body;
           pkg0 \<leftarrow> mwrite pkg 0 (hd tmp);
           (pkg1, k, fits) \<leftarrow> escape_loop (tl tmp) pkg0 1 plen;
           if \<not> fits then Some (pkg1, plen, user1, -1)
           else do {
             pkg2 \<leftarrow> mwrite pkg1 k (pu_end_flag user);
             Some (pkg2, k + 1, user1, 0)
           }
         })"

section \<open>pkg_decode\<close>

text \<open>The delimiters are compared as \<^verbatim>\<open>unsigned char\<close> against \<^verbatim>\<open>char\<close>.\<close>

definition flag_matches :: "byte \<Rightarrow> byte \<Rightarrow> bool" where
  "flag_matches b flag \<longleftrightarrow> uint b = sint flag"

definition pkg_decode :: "pkg_user \<Rightarrow> bytes \<Rightarrow> int \<Rightarrow> (bytes \<times> int \<times> int) option" where
  "pkg_decode user pkg pkg_len = do {
     b0 \<leftarrow> mread pkg 0;
     bn \<leftarrow> mread pkg (pkg_len - 1);
     if \<not> flag_matches b0 (pu_head_flag user) \<or> \<not> flag_matches bn (pu_end_flag user)
     then Some (pkg, pkg_len, -1)
     else do {
       (pkg1, n) \<leftarrow> unescape pkg 1 1 (pkg_len - 2);
       bn1 \<leftarrow> mread pkg1 (pkg_len - 1);
       pkg2 \<leftarrow> mwrite pkg1 (1 + n) bn1;
       let len = 2 + n;
       crc \<leftarrow> crc_get pkg2 1 (len - 4);
       c1 \<leftarrow> mread pkg2 (len - 3);
       c2 \<leftarrow> mread pkg2 (len - 2);
       let org_crc = push_bit 8 (ucast c1) OR ucast c2;
       if crc \<noteq> org_crc then Some (pkg2, len, -1)
       else do {
         e \<leftarrow> mread pkg2 18;
         if e = 1 then do {
           kb \<leftarrow> mreads pkg2 19 4;
           key \<leftarrow> of_be32 kb;
           pkg3 \<leftarrow> sec_decrypt key pkg2 JTT_HEAD_SIZE (len - JTT_HEAD_SIZE - 3);
           Some (pkg3, len, 0)
         } else Some (pkg2, len, 0)
       }
     }
   }"

section \<open>Layout lemmas\<close>

lemma length_jtt_head: "length (pu_version user) = 3 \<Longrightarrow> length (jtt_head user key body) = 23"
  by (simp add: jtt_head_def)

lemma jtt_head_Cons: "jtt_head user key body = pu_head_flag user # tl (jtt_head user key body)"
  by (simp add: jtt_head_def)

lemma jtt_head_encrypt: "length (pu_version user) = 3 \<Longrightarrow> jtt_head user key body ! 18 = pu_encrypt user"
  by (simp add: jtt_head_def nth_append)

lemma jtt_head_key: "length (pu_version user) = 3 \<Longrightarrow> drop 19 (jtt_head user key body) = be32 key"
  by (simp add: jtt_head_def)

text \<open>What is in a package: the body as it travels and its checksum.\<close>

definition travel_body :: "pkg_user \<Rightarrow> u32 \<Rightarrow> bytes \<Rightarrow> bytes" where
  "travel_body user key d = (if pu_encrypt user = 1 then sec_xor key d else d)"

lemma length_travel_body [simp]: "length (travel_body user key d) = length d"
  by (simp add: travel_body_def)

definition crc_field :: "bytes \<Rightarrow> bytes" where
  "crc_field bs = be16 (crc_bytes bs)"

lemma crc_field_bytes: "crc_field bs = [ucast (drop_bit 8 (crc_bytes bs)), ucast (crc_bytes bs)]"
  by (simp add: crc_field_def be16_def numeral_2_eq_2)

lemma crc_field_value: "crc_field bs = [a, b] \<Longrightarrow> push_bit 8 (ucast a) OR ucast b = crc_bytes bs"
proof -
  assume "crc_field bs = [a, b]"
  then have "a = ucast (drop_bit 8 (crc_bytes bs))" "b = ucast (crc_bytes bs)" by (simp_all add: crc_field_bytes)
  then show ?thesis by (intro bit_word_eqI) (auto simp: bit_simps)
qed

lemma pkg_content_eq:
  assumes "length (pu_version user) = 3" "pb_body body = Some d" "pb_blen body = of_nat (length d)" "length d < 2147483648"
  shows "pkg_content user key body = Some (jtt_head user key body @ travel_body user key d
    @ crc_field (tl (jtt_head user key body @ travel_body user key d)))"
proof -
  let ?h = "jtt_head user key body"
  have len: "uint (pb_blen body) = int (length d)"
    using assms(3,4) by (simp add: unsigned_of_nat take_bit_nat_eq_self)
  have pos: "pb_blen body > 0 \<longleftrightarrow> d \<noteq> []"
    using len by (simp add: word_less_def)
  have rd: "mreads d 0 (int (length d)) = Some d" by (simp add: mreads_def)
  have enc: "sec_encrypt key (?h @ d) JTT_HEAD_SIZE (int (length d)) = Some (?h @ sec_xor key d)"
    using sec_encrypt_xor [of d key ?h "[]"] assms(1,4) by (simp add: length_jtt_head JTT_HEAD_SIZE_def)
  show ?thesis
    using assms(1,2) len pos rd enc
    by (cases "d = []") (simp_all add: pkg_content_def travel_body_def crc_field_bytes length_jtt_head sec_xor_def Let_def)
qed

lemma escape_loop_fits:
  assumes "k = int (length P)" "int (length P + length (escape_all bs)) < plen" "length zs = length (escape_all bs)"
  shows "escape_loop bs (P @ zs @ R) k plen = Some (P @ escape_all bs @ R, k + int (length (escape_all bs)), True)"
  using assms
proof (induction bs arbitrary: P k zs)
  case Nil
  then show ?case by (simp add: escape_all_def)
next
  case (Cons b bs)
  define z1 where "z1 = take (length (escape b)) zs"
  define z2 where "z2 = drop (length (escape b)) zs"
  have z: "zs = z1 @ z2" "length z1 = length (escape b)" "length z2 = length (escape_all bs)"
    using Cons.prems(3) by (auto simp: z1_def z2_def escape_all_def)
  have "mwrites (P @ z1 @ z2 @ R) k (escape b) = Some ((P @ escape b) @ z2 @ R)"
    using mwrites_append [OF z(2), of P "z2 @ R"] Cons.prems(1) by simp
  moreover have "escape_loop bs ((P @ escape b) @ z2 @ R) (k + int (length (escape b))) plen
      = Some ((P @ escape b) @ escape_all bs @ R, k + int (length (escape b)) + int (length (escape_all bs)), True)"
    by (rule Cons.IH) (use Cons.prems z in \<open>auto simp: escape_all_def\<close>)
  ultimately show ?case using Cons.prems(1,2) z(1) by (simp add: escape_all_def)
qed

section \<open>Encoding and decoding\<close>

definition HEAD_FLAG :: byte where "HEAD_FLAG = 0x5B"
definition END_FLAG :: byte where "END_FLAG = 0x5D"

text \<open>A user structure as the configuration sets it up, and a body whose length field is right.\<close>

definition user_ok :: "pkg_user \<Rightarrow> bool" where
  "user_ok user \<longleftrightarrow> length (pu_version user) = 3 \<and> pu_head_flag user = HEAD_FLAG \<and> pu_end_flag user = END_FLAG"

definition body_of :: "pkg_body \<Rightarrow> bytes \<Rightarrow> bool" where
  "body_of body d \<longleftrightarrow> pb_body body = Some d \<and> pb_blen body = of_nat (length d) \<and> length d < 2147483648"

text \<open>The package between the delimiters before escaping.\<close>

definition inner :: "pkg_user \<Rightarrow> u32 \<Rightarrow> pkg_body \<Rightarrow> bytes \<Rightarrow> bytes" where
  "inner user key body d = tl (jtt_head user key body @ travel_body user key d)
     @ crc_field (tl (jtt_head user key body @ travel_body user key d))"

lemma length_inner: "user_ok user \<Longrightarrow> length (inner user key body d) = 24 + length d"
  by (simp add: inner_def user_ok_def length_jtt_head crc_field_bytes)

lemma pkg_encode_wire:
  assumes "user_ok user" "body_of body d" "int (1 + length (escape_all (inner user key body d))) < plen" "plen \<le> int (length pkg)"
  defines "n \<equiv> length (escape_all (inner user key body d))"
  shows "pkg_encode True key user pkg plen body
    = Some (HEAD_FLAG # escape_all (inner user key body d) @ END_FLAG # drop (2 + n) pkg, int (2 + n),
            user\<lparr>pu_msg_sz := pu_msg_sz user + 1\<rparr>, 0)"
proof -
  let ?T = "inner user key body d"
  have c: "pkg_content user key body = Some (HEAD_FLAG # ?T)"
    using pkg_content_eq [of user body d key] jtt_head_Cons [of user key body] assms(1,2)
    by (simp add: user_ok_def body_of_def inner_def) (metis append_Cons list.sel(3))
  obtain p0 ps where ps: "pkg = p0 # ps" using assms(3,4) by (cases pkg) auto
  define zs where "zs = take n ps"
  obtain e R where R: "drop n ps = e # R" using assms(3,4) ps n_def by (cases "drop n ps") auto
  have zs: "ps = zs @ e # R" "length zs = n"
    using R assms(3,4) ps n_def by (simp_all add: zs_def) (metis append_take_drop_id R)
  have w0: "mwrite pkg 0 HEAD_FLAG = Some ([HEAD_FLAG] @ zs @ e # R)" using ps zs by (simp add: mwrite_def)
  have l: "escape_loop ?T ([HEAD_FLAG] @ zs @ e # R) 1 plen
      = Some ([HEAD_FLAG] @ escape_all ?T @ e # R, 1 + int n, True)"
    using escape_loop_fits [of 1 "[HEAD_FLAG]" ?T plen zs "e # R"] assms(3) zs(2) n_def by simp
  have w1: "mwrite ([HEAD_FLAG] @ escape_all ?T @ e # R) (1 + int n) END_FLAG = Some (([HEAD_FLAG] @ escape_all ?T) @ END_FLAG # R)"
    using mwrite_append [of "[HEAD_FLAG] @ escape_all ?T" e R END_FLAG] n_def by simp
  have "drop (2 + n) pkg = R" using ps zs by simp
  then show ?thesis using c w0 l w1 assms(1) by (simp add: pkg_encode_def user_ok_def)
qed

lemma mwrite_over: "J \<noteq> [] \<Longrightarrow> mwrite (P @ J) (int (length P)) x = Some (P @ x # tl J)"
  by (cases J) (simp_all add: mwrite_append)

lemma unescape_package:
  fixes e :: byte
  assumes "m = h # escape_all T @ e # R"
  shows "\<exists>m1 R2. unescape m 1 1 (int (length (escape_all T))) = Some (m1, int (length T))
    \<and> mread m1 (1 + int (length (escape_all T))) = Some e \<and> mwrite m1 (1 + int (length T)) e = Some (h # T @ e # R2)"
proof -
  obtain J where J: "unescape m 1 1 (int (length (escape_all T))) = Some ([h] @ T @ J @ e # R, int (length T))"
      "length T + length J = length (escape_all T)"
    using unescape_escaped [of 1 0 "[h]" 1 0 "[]" "int (length (escape_all T))" T "e # R"] assms
    by (auto simp: unescape_def escape_all_def)
  have r: "mread ([h] @ T @ J @ e # R) (1 + int (length (escape_all T))) = Some e"
    using mread_at [of "1 + int (length (escape_all T))" "[h] @ T @ J" e R] J(2) by simp
  have w: "mwrite ([h] @ T @ J @ e # R) (1 + int (length T)) e = Some (([h] @ T) @ e # tl (J @ e # R))"
    using mwrite_over [of "J @ e # R" "[h] @ T" e] by simp
  show ?thesis by (intro exI [of _ "[h] @ T @ J @ e # R"] exI [of _ "tl (J @ e # R)"]) (use J(1) r w in simp)
qed

lemma pkg_decode_wire:
  fixes user key body d
  assumes "user_ok user" "length d < 2147483648"
  defines "T \<equiv> inner user key body d" and "h \<equiv> jtt_head user key body"
  shows "\<exists>R'. pkg_decode user (HEAD_FLAG # escape_all T @ END_FLAG # R) (int (2 + length (escape_all T)))
    = Some (h @ d @ crc_field (tl (h @ travel_body user key d)) @ END_FLAG # R', int (26 + length d), 0)"
proof -
  let ?m = "HEAD_FLAG # escape_all T @ END_FLAG # R" and ?t = "travel_body user key d"
  let ?c = "crc_field (tl (h @ ?t))"
  have u: "pu_head_flag user = HEAD_FLAG" "pu_end_flag user = END_FLAG" "length (pu_version user) = 3"
    using assms(1) by (simp_all add: user_ok_def)
  have flags: "flag_matches HEAD_FLAG HEAD_FLAG" "flag_matches END_FLAG END_FLAG"
    by (simp_all add: flag_matches_def HEAD_FLAG_def END_FLAG_def)
  obtain m1 R2 where m1: "unescape ?m 1 1 (int (length (escape_all T))) = Some (m1, int (length T))"
      "mread m1 (1 + int (length (escape_all T))) = Some END_FLAG" "mwrite m1 (1 + int (length T)) END_FLAG = Some (HEAD_FLAG # T @ END_FLAG # R2)"
    using unescape_package [OF refl, of HEAD_FLAG T END_FLAG R] by blast
  have lh: "length h = 23" using u(3) by (simp add: h_def length_jtt_head)
  have lT: "int (length T) = 24 + int (length d)" using length_inner [OF assms(1)] by (simp add: T_def)
  have pk: "HEAD_FLAG # T @ END_FLAG # R2 = h @ ?t @ ?c @ END_FLAG # R2"
    using jtt_head_Cons [of user key body] u(1) by (simp add: T_def h_def inner_def) (metis append_Cons list.sel(3))
  define pkg2 where "pkg2 = h @ ?t @ ?c @ END_FLAG # R2"
  obtain c1 c2 where c: "?c = [c1, c2]" by (simp add: crc_field_bytes)
  have rd: "mread ?m 0 = Some HEAD_FLAG" "mread ?m (1 + int (length (escape_all T))) = Some END_FLAG"
    using mread_at [of 0 "[]" HEAD_FLAG "escape_all T @ END_FLAG # R"]
      mread_at [of "1 + int (length (escape_all T))" "HEAD_FLAG # escape_all T" END_FLAG R] by simp_all
  have hc: "h = hd h # tl h" using lh by (cases h) auto
  have crc: "crc_get pkg2 1 (22 + int (length d)) = Some (crc_bytes (tl (h @ ?t)))"
    using mreads_append [of "[hd h]" "tl h @ ?t" "?c @ END_FLAG # R2"] lh hc
    by (simp add: crc_get_def pkg2_def) (metis append_Cons tl_append2 list.distinct(1))
  have rc: "mread pkg2 (23 + int (length d)) = Some c1" "mread pkg2 (24 + int (length d)) = Some c2"
    using mread_at [of "23 + int (length d)" "h @ ?t" c1 "c2 # END_FLAG # R2"]
      mread_at [of "24 + int (length d)" "h @ ?t @ [c1]" c2 "END_FLAG # R2"] lh c by (simp_all add: pkg2_def)
  have re: "mread pkg2 18 = Some (pu_encrypt user)" "mreads pkg2 19 4 = Some (be32 key)"
    using lh jtt_head_encrypt [OF u(3), of key body] jtt_head_key [OF u(3), of key body]
    by (simp_all add: pkg2_def mread_def mreads_def nth_append h_def)
  have dec: "sec_decrypt key pkg2 JTT_HEAD_SIZE (int (length d)) = Some (h @ sec_xor key ?t @ ?c @ END_FLAG # R2)"
    using sec_encrypt_xor [of ?t key h "?c @ END_FLAG # R2"] assms(2) lh by (simp add: sec_decrypt_def pkg2_def JTT_HEAD_SIZE_def)
  show ?thesis
    unfolding pkg_decode_def u
    using rd flags m1 pk [folded pkg2_def] crc rc re dec crc_field_value [OF c] lT
    by (auto simp: travel_body_def JTT_HEAD_SIZE_def of_be32_be32 pkg2_def Let_def)
qed

section \<open>Properties\<close>

text \<open>C16: the JT/T 809 round trip. A package that fits the buffer is encoded; the sequence
  number of the user moves on by one; and \<^verbatim>\<open>pkg_decode\<close> on the encoded bytes accepts it and leaves
  header, plain body, checksum and end flag in place, whatever bytes the body holds, delimiters
  and escapes included, and whether or not the link is encrypted.\<close>

theorem pkg_roundtrip:
  assumes "user_ok user" "body_of body d"
    and "int (1 + length (escape_all (inner user key body d))) < plen" "plen \<le> int (length pkg)"
  shows "\<exists>pkg' plen' user' pkg''. pkg_encode True key user pkg plen body = Some (pkg', plen', user', 0)
    \<and> pu_msg_sz user' = pu_msg_sz user + 1
    \<and> pkg_decode user' pkg' plen' = Some (pkg'', int (26 + length d), 0)
    \<and> take (23 + length d) pkg'' = jtt_head user key body @ d \<and> pkg'' ! (25 + length d) = END_FLAG"
proof -
  let ?T = "inner user key body d" and ?h = "jtt_head user key body"
  let ?u = "user\<lparr>pu_msg_sz := pu_msg_sz user + 1\<rparr>" and ?R = "drop (2 + length (escape_all ?T)) pkg"
  let ?c = "crc_field (tl (?h @ travel_body user key d))"
  have e: "pkg_encode True key user pkg plen body = Some (HEAD_FLAG # escape_all ?T @ END_FLAG # ?R, int (2 + length (escape_all ?T)), ?u, 0)"
    by (rule pkg_encode_wire [OF assms])
  obtain R' where "pkg_decode user (HEAD_FLAG # escape_all ?T @ END_FLAG # ?R) (int (2 + length (escape_all ?T)))
      = Some (?h @ d @ ?c @ END_FLAG # R', int (26 + length d), 0)"
    using pkg_decode_wire [OF assms(1), of d key body ?R] assms(2) by (auto simp: body_of_def)
  moreover have "pkg_decode ?u m n = pkg_decode user m n" for m n by (simp add: pkg_decode_def)
  moreover have "length ?h = 23" "length ?c = 2"
    using assms(1) by (simp_all add: length_jtt_head user_ok_def crc_field_bytes)
  ultimately show ?thesis using e by (auto simp: nth_append)
qed

definition demo_user :: pkg_user where
  "demo_user = \<lparr>pu_encrypt = 1, pu_msg_enterid = 7, pu_msg_sz = 0, pu_head_flag = 0x5B, pu_end_flag = 0x5D, pu_version = [1, 2, 15]\<rparr>"

definition demo_body :: pkg_body where
  "demo_body = \<lparr>pb_msg_id = 0x1200, pb_body = Some [0x5B, 0x5D, 0x41], pb_blen = 3\<rparr>"

lemma length_escape_all_le: "length (escape_all bs) \<le> 2 * length bs"
proof (induction bs)
  case (Cons b bs)
  then show ?case using escape_length [of b] by (simp add: escape_all_def)
qed (simp add: escape_all_def)

lemma demo_user_ok: "user_ok demo_user" "body_of demo_body [0x5B, 0x5D, 0x41]"
  by (simp_all add: user_ok_def body_of_def demo_user_def demo_body_def HEAD_FLAG_def END_FLAG_def)

lemma demo_fits: "int (1 + length (escape_all (inner demo_user 9 demo_body [0x5B, 0x5D, 0x41]))) < 100"
  using length_escape_all_le [of "inner demo_user 9 demo_body [0x5B, 0x5D, 0x41]"] length_inner [OF demo_user_ok(1), of 9 demo_body "[0x5B, 0x5D, 0x41]"]
  by simp

theorem pkg_roundtrip_witness:
  "\<exists>pkg' plen' user' pkg''. pkg_encode True 9 demo_user (replicate 100 0) 100 demo_body = Some (pkg', plen', user', 0)
    \<and> pu_msg_sz user' = pu_msg_sz demo_user + 1
    \<and> pkg_decode user' pkg' plen' = Some (pkg'', int (26 + length [0x5B, 0x5D, 0x41 :: byte]), 0)
    \<and> take (23 + length [0x5B, 0x5D, 0x41 :: byte]) pkg'' = jtt_head demo_user 9 demo_body @ [0x5B, 0x5D, 0x41]
    \<and> pkg'' ! (25 + length [0x5B, 0x5D, 0x41 :: byte]) = END_FLAG"
  by (rule pkg_roundtrip [OF demo_user_ok demo_fits]) simp

text \<open>C20: framing. The bytes of an encoded package between its first and its last contain
  neither delimiter, so a receiver can cut the stream at the delimiters.\<close>

theorem pkg_encode_framing:
  assumes "user_ok user" "body_of body d"
    and "int (1 + length (escape_all (inner user key body d))) < plen" "plen \<le> int (length pkg)"
  shows "\<exists>pkg' n user'. pkg_encode True key user pkg plen body = Some (pkg', int n, user', 0)
    \<and> n \<le> length pkg' \<and> length pkg' = length pkg \<and> pkg' ! 0 = HEAD_FLAG \<and> pkg' ! (n - 1) = END_FLAG
    \<and> (\<forall>i. 0 < i \<and> i < n - 1 \<longrightarrow> pkg' ! i \<noteq> HEAD_FLAG \<and> pkg' ! i \<noteq> END_FLAG)"
proof -
  let ?E = "escape_all (inner user key body d)"
  define n where "n = 2 + length ?E"
  define pkg' where "pkg' = HEAD_FLAG # ?E @ END_FLAG # drop n pkg"
  have e: "pkg_encode True key user pkg plen body = Some (pkg', int n, user\<lparr>pu_msg_sz := pu_msg_sz user + 1\<rparr>, 0)"
    using pkg_encode_wire [OF assms] by (simp add: pkg'_def n_def)
  have "pkg' ! i \<noteq> HEAD_FLAG \<and> pkg' ! i \<noteq> END_FLAG" if "0 < i" "i < n - 1" for i
  proof -
    have "pkg' ! i \<in> set ?E" using that by (cases i) (auto simp: pkg'_def n_def nth_append)
    then show ?thesis by (auto simp: escape_all_def HEAD_FLAG_def END_FLAG_def dest!: escape_no_delimiter)
  qed
  moreover have "length pkg' = length pkg" "n \<le> length pkg'" using assms(3,4) by (auto simp: pkg'_def n_def)
  moreover have "pkg' ! 0 = HEAD_FLAG" "pkg' ! (n - 1) = END_FLAG" by (auto simp: pkg'_def n_def nth_append)
  ultimately show ?thesis using e by blast
qed

theorem pkg_encode_framing_witness:
  "\<exists>pkg' n user'. pkg_encode True 9 demo_user (replicate 100 0) 100 demo_body = Some (pkg', int n, user', 0)
    \<and> n \<le> length pkg' \<and> length pkg' = length (replicate 100 (0::byte)) \<and> pkg' ! 0 = HEAD_FLAG \<and> pkg' ! (n - 1) = END_FLAG
    \<and> (\<forall>i. 0 < i \<and> i < n - 1 \<longrightarrow> pkg' ! i \<noteq> HEAD_FLAG \<and> pkg' ! i \<noteq> END_FLAG)"
  by (rule pkg_encode_framing [OF demo_user_ok demo_fits]) simp

text \<open>C25: the checksum. The table-driven \<^verbatim>\<open>crc_get\<close> computes the bit-by-bit CRC-16 of polynomial
  \<open>0x1021\<close> and start value \<open>0xffff\<close> of the bytes it is given, and two packages that differ in
  one byte have different checksums.\<close>

theorem crc_get_is_crc16:
  assumes "i < length bs" "x \<noteq> bs ! i"
  shows "crc_get bs 0 (int (length bs)) = Some (crc_ref bs)
    \<and> crc_get (bs[i := x]) 0 (int (length bs)) \<noteq> crc_get bs 0 (int (length bs))"
proof -
  have g: "crc_get cs 0 (int (length cs)) = Some (crc_ref cs)" for cs
    by (cases cs) (simp_all add: crc_get_def mreads_def crc_bytes_ref)
  have sp: "bs = take i bs @ bs ! i # drop (Suc i) bs" using assms(1) by (rule id_take_nth_drop)
  have up: "bs[i := x] = take i bs @ x # drop (Suc i) bs" using assms(1) by (rule upd_conv_take_nth_drop)
  have "crc_ref (bs[i := x]) \<noteq> crc_ref bs"
  proof
    assume "crc_ref (bs[i := x]) = crc_ref bs"
    then have "foldl crc_ref_step (crc_ref_step (foldl crc_ref_step 0xffff (take i bs)) x) (drop (Suc i) bs)
        = foldl crc_ref_step (crc_ref_step (foldl crc_ref_step 0xffff (take i bs)) (bs ! i)) (drop (Suc i) bs)"
      unfolding crc_ref_def up by (subst (asm) sp) simp
    then show False using assms(2) by (auto dest!: crc_fold_inj crc_step_byte_inj)
  qed
  then show ?thesis using g [of bs] g [of "bs[i := x]"] by simp
qed

theorem crc_get_is_crc16_witness:
  "crc_get [1, 2, 3] 0 (int (length [1, 2, 3 :: byte])) = Some (crc_ref [1, 2, 3])
    \<and> crc_get ([1, 2, 3][1 := 7]) 0 (int (length [1, 2, 3 :: byte])) \<noteq> crc_get [1, 2, 3] 0 (int (length [1, 2, 3 :: byte]))"
  by (rule crc_get_is_crc16) simp_all

text \<open>the room check of the escape loop is late. With a buffer of exactly \<^verbatim>\<open>*plen\<close> bytes, a package whose
  escaped form reaches its last byte with an escape pair writes behind the buffer before the
  loop returns an error.\<close>

lemma escape_loop_overruns:
  "escape_loop [0x41, 0x5B] (replicate 3 0) 1 3 = None
   \<and> escape_loop [0x41, 0x5B] (replicate 4 0) 1 3 = Some ([0, 0x41, 0x5A, 0x01], 2, False)"
  by code_simp

text \<open>A received package of the two delimiters alone makes \<^verbatim>\<open>pkg_decode\<close> read the checksum in front of the
  buffer.\<close>

lemma decode_short_package: "pkg_decode demo_user [0x5B, 0x5D] 2 = None"
  by code_simp

section \<open>Reading what the peer sends\<close>

text \<open>How many bytes \<^verbatim>\<open>unescape\<close> makes of the bytes between the delimiters.\<close>

fun unescaped_length :: "bytes \<Rightarrow> nat" where
  "unescaped_length [] = 0"
| "unescaped_length (b # bs) = Suc (unescaped_length (if b = 0x5A \<or> b = 0x5E then drop 1 bs else bs))"

text \<open>A received piece between delimiters has to hold at least the 22 bytes of a header behind its
  delimiter and the checksum; \<^verbatim>\<open>pkg_decode\<close> does not check it.\<close>

definition long_enough :: "bytes \<Rightarrow> bool" where
  "long_enough bs \<longleftrightarrow> (hd bs = HEAD_FLAG \<and> last bs = END_FLAG \<longrightarrow> 24 \<le> unescaped_length (butlast (tl bs)))"

lemma unescaped_length_bound: "unescaped_length bs \<le> length bs"
proof (induction bs rule: unescaped_length.induct)
  case (2 b bs)
  define cs where "cs = (if b = 0x5A \<or> b = 0x5E then drop 1 bs else bs)"
  have "length cs \<le> length bs" "unescaped_length cs \<le> length cs" using 2 by (simp_all add: cs_def)
  then show ?case by (simp add: cs_def [symmetric])
qed simp

lemma mread_in: "0 \<le> i \<Longrightarrow> i < int (length m) \<Longrightarrow> mread m i = Some (m ! nat i)"
  by (simp add: mread_def)

lemma mwrite_in: "0 \<le> i \<Longrightarrow> i < int (length m) \<Longrightarrow> mwrite m i b = Some (m[nat i := b])"
  by (simp add: mwrite_def)

lemma drop_step: "k < length m \<Longrightarrow> drop k m = m ! k # drop (Suc k) m"
  by (simp add: Cons_nth_drop_Suc)

lemma unescape_loop_total:
  assumes "0 \<le> dlen" "dlen \<le> i" "1 + slen < int (length m)"
  shows "\<exists>m'. unescape_loop m 1 1 slen i dlen =
      Some (m', dlen + int (unescaped_length (take (nat (slen - i)) (drop (nat (1 + i)) m)))) \<and> length m' = length m"
  using assms
proof (induction "nat (slen - i)" arbitrary: m i dlen rule: less_induct)
  case less
  show ?case
  proof (cases "i < slen")
    case False
    then show ?thesis by (subst unescape_loop.simps) simp
  next
    case True
    define k b where "k = nat i" and "b = m ! Suc k"
    have k: "i = int k" "nat (1 + i) = Suc k" using less.prems by (simp_all add: k_def nat_add_distrib)
    have r: "mread m (1 + i) = Some b" "mread m (1 + (i + 1)) = Some (m ! Suc (Suc k))"
      using True less.prems k by (simp_all add: mread_in b_def nat_add_distrib)
    have dr: "drop (Suc k) m = b # drop (Suc (Suc k)) m" using True less.prems k by (simp add: drop_step b_def)
    define n where "n = (if b = 0x5A \<or> b = 0x5E then 2 else 1::int)"
    define c where "c = (if b = 0x5A \<or> b = 0x5E then unescape_byte b (m ! Suc (Suc k)) else b)"
    define m1 where "m1 = m[nat (1 + dlen) := c]"
    have w: "mwrite m (1 + dlen) c = Some m1" using True less.prems by (simp add: mwrite_in m1_def)
    have l1: "length m1 = length m" by (simp add: m1_def)
    have n: "1 \<le> n" by (simp add: n_def)
    have step: "unescape_loop m 1 1 slen i dlen = unescape_loop m1 1 1 slen (i + n) (dlen + 1)"
      using True r w by (subst unescape_loop.simps) (cases "b = 0x5A \<or> b = 0x5E"; auto simp: n_def c_def)
    have "nat (slen - (i + n)) < nat (slen - i)" using True n by linarith
    then obtain m' where m': "unescape_loop m1 1 1 slen (i + n) (dlen + 1) =
        Some (m', dlen + 1 + int (unescaped_length (take (nat (slen - (i + n))) (drop (nat (1 + (i + n))) m1)))) \<and> length m' = length m1"
      using less.hyps [of "i + n" "dlen + 1" m1] less.prems n l1 by auto
    have "nat (1 + dlen) < nat (1 + (i + n))" using less.prems n by linarith
    then have "drop (nat (1 + (i + n))) m1 = drop (nat (1 + (i + n))) m" by (simp add: m1_def)
    moreover have "take (nat (slen - i)) (drop (nat (1 + i)) m) = b # take (nat (slen - (i + 1))) (drop (Suc (Suc k)) m)"
    proof -
      have "nat (slen - i) = Suc (nat (slen - (i + 1)))" using True by linarith
      then show ?thesis unfolding k(2) dr by simp
    qed
    moreover have "drop 1 (take (nat (slen - (i + 1))) (drop (Suc (Suc k)) m)) = take (nat (slen - (i + 2))) (drop (nat (1 + (i + 2))) m)"
    proof -
      have "nat (slen - (i + 1)) - 1 = nat (slen - (i + 2))" "Suc (Suc (Suc k)) = nat (1 + (i + 2))" using k(1) by linarith+
      then show ?thesis by (simp add: drop_take)
    qed
    ultimately show ?thesis using step m' l1 k by (auto simp: n_def nat_add_distrib numeral_3_eq_3)
  qed
qed

lemma sec_loop_total: "0 \<le> idx \<Longrightarrow> idx + int n \<le> int (length pkg) \<Longrightarrow> \<exists>pkg'. sec_loop key pkg idx n = Some pkg' \<and> length pkg' = length pkg"
proof (induction n arbitrary: key pkg idx)
  case (Suc n)
  then show ?case using Suc.IH [of "idx + 1" "pkg[nat idx := pkg ! nat idx XOR ucast (drop_bit 20 (sec_next key) AND 0xFF)]" "sec_next key"]
    by (simp add: mread_in mwrite_in Let_def)
qed simp

text \<open>On such a piece, in a buffer that is not smaller, \<^verbatim>\<open>pkg_decode\<close> stays within the buffer.\<close>

lemma pkg_decode_total:
  assumes "user_ok user" "long_enough bs" "bs \<noteq> []" "length bs + length R < 2147483648" "24 \<le> length (bs @ R)"
  shows "\<exists>m n r. pkg_decode user (bs @ R) (int (length bs)) = Some (m, n, r) \<and> length m = length (bs @ R)"
proof -
  let ?m = "bs @ R" and ?l = "int (length bs)"
  have l: "0 < ?l" using assms(3) by simp
  have l2: "0 < int (length bs) + int (length R)" using l by linarith
  have rd: "mread ?m 0 = Some (hd bs)" "mread ?m (?l - 1) = Some (last bs)"
    using assms(3) l2 by (simp_all add: mread_def nth_append hd_conv_nth last_conv_nth nat_diff_distrib')
  show ?thesis
  proof (cases "hd bs = HEAD_FLAG \<and> last bs = END_FLAG")
    case False
    have "flag_matches x HEAD_FLAG \<longleftrightarrow> x = HEAD_FLAG" "flag_matches x END_FLAG \<longleftrightarrow> x = END_FLAG" for x
      by (simp_all add: flag_matches_def HEAD_FLAG_def END_FLAG_def word_uint_eq_iff)
    then show ?thesis using rd assms(1) False by (auto simp: pkg_decode_def user_ok_def)
  next
    case True
    define u where "u = unescaped_length (butlast (tl bs))"
    have u: "24 \<le> u" "u \<le> length bs - 2" using assms(2) True unescaped_length_bound [of "butlast (tl bs)"]
      by (simp_all add: long_enough_def u_def)
    have "take (nat (?l - 2)) (drop (nat 1) ?m) = butlast (tl bs)"
      using u by (simp add: drop_Suc butlast_conv_take nat_diff_distrib' numeral_2_eq_2)
    then obtain m1 where m1: "unescape ?m 1 1 (?l - 2) = Some (m1, int u)" "length m1 = length ?m"
      using unescape_loop_total [of 0 0 "?l - 2" ?m] by (auto simp: unescape_def u_def)
    define m2 where "m2 = m1[nat (1 + int u) := m1 ! nat (?l - 1)]"
    have b: "mread m1 (?l - 1) = Some (m1 ! nat (?l - 1))" "mwrite m1 (1 + int u) (m1 ! nat (?l - 1)) = Some m2"
      using m1(2) u l by (simp_all add: mread_in mwrite_in m2_def)
    have l2: "length m2 = length ?m" by (simp add: m2_def m1(2))
    have c: "\<exists>v. crc_get m2 1 (int u - 2) = Some v" using u l2 by (simp add: crc_get_def mreads_def)
    have d: "\<exists>v. mread m2 (int u - 1) = Some v" "\<exists>v. mread m2 (int u) = Some v" "\<exists>v. mread m2 18 = Some v"
      using u l2 by (simp_all add: mread_in)
    have k: "\<exists>kb. mreads m2 19 4 = Some kb \<and> length kb = 4" using u l2 by (simp add: mreads_def)
    have "int u - 24 = int (u - 24)" using u by simp
    then have len: "unat (word_of_int (int u - 24) :: u32) = u - 24" using u assms(4)
      by (simp only: of_int_of_nat_eq unsigned_of_nat) (simp add: take_bit_nat_eq_self)
    have s: "\<exists>m3. sec_decrypt key m2 JTT_HEAD_SIZE (int u - 24) = Some m3 \<and> length m3 = length ?m" for key
    proof -
      have "sec_decrypt key m2 JTT_HEAD_SIZE (int u - 24) = sec_loop (if key = 0 then 1 else key) m2 23 (u - 24)"
        unfolding sec_decrypt_def sec_encrypt_def len Let_def JTT_HEAD_SIZE_def ..
      moreover have "23 + int (u - 24) \<le> int (length m2)" using u l2 by simp
      ultimately show ?thesis using sec_loop_total [of 23 "u - 24" m2] l2 by simp
    qed
    have key: "\<exists>key. of_be32 kb = Some key" if "length kb = 4" for kb using that by (simp add: of_be32_def)
    have f: "flag_matches (hd bs) (pu_head_flag user)" "flag_matches (last bs) (pu_end_flag user)"
      using True assms(1) by (simp_all add: flag_matches_def user_ok_def HEAD_FLAG_def END_FLAG_def)
    obtain v v1 v2 e kb k0 where o: "crc_get m2 1 (int u - 2) = Some v" "mread m2 (int u - 1) = Some v1" "mread m2 (int u) = Some v2"
      "mread m2 18 = Some e" "mreads m2 19 4 = Some kb" "of_be32 kb = Some k0" using c d k key by metis
    obtain m3 where "sec_decrypt k0 m2 JTT_HEAD_SIZE (int u - 24) = Some m3" "length m3 = length ?m" using s by blast
    then show ?thesis using rd f m1(1) b o l2 by (simp add: pkg_decode_def JTT_HEAD_SIZE_def Let_def)
  qed
qed

end
