(* ===== verification/Jtt_Link.thy ===== *)
theory Jtt_Link
  imports Jtt_Package
begin

text \<open>
  The JT/T 809 link of the release server above the package codec
  (\<^verbatim>\<open>programs/releaseServer/src\<close>): the message bodies (\<^verbatim>\<open>jtt_body.c\<close>), sending and receiving
  (\<^verbatim>\<open>jtt_client.c\<close>), the messages of the protocol (\<^verbatim>\<open>jtt_comm.c\<close>) and the login state machine
  (\<^verbatim>\<open>async_comm.c\<close>). The operating system is a record of calls over a state \<open>'o\<close>; beside it the
  model keeps the bytes each socket has accepted and the sockets opened and closed. Time-outs appear only through what \<^verbatim>\<open>select\<close>
  returns.
\<close>

section \<open>Bodies (jtt_body.c)\<close>

definition UP_CONNECT_REQ :: u32 where "UP_CONNECT_REQ = 0x1001"
definition UP_LINKTEST_REQ :: u32 where "UP_LINKTEST_REQ = 0x1005"
definition UP_EXG_MSG :: u32 where "UP_EXG_MSG = 0x1200"
definition UP_EXG_MSG_REAL_LOCATION :: u16 where "UP_EXG_MSG_REAL_LOCATION = 0x1202"
definition UP_EXG_MSG_HISTORY_LOCATION :: u16 where "UP_EXG_MSG_HISTORY_LOCATION = 0x1203"

record body_user =
  bu_online :: int
  bu_conn_time :: int
  bu_logon_time :: int
  bu_logout_time :: int
  bu_sd_space :: "int \<times> int"
  bu_last_space :: "int \<times> int"
  bu_srv_id :: bytes
  bu_heart_cnt :: int
  bu_ip :: bytes
  bu_port :: int
  bu_sockfd :: int
  bu_uid :: u32
  bu_passwd :: bytes

record body_gps =
  gp_imei :: bytes
  gp_date :: bytes
  gp_time :: bytes
  gp_lon :: u32
  gp_lat :: u32
  gp_vec1 :: u16
  gp_direction :: u16
  gp_altitude :: u16
  gp_state :: u32

text \<open>The packed request structures are the bytes the setters leave in them.\<close>

definition body_conn_set :: "body_user \<Rightarrow> bytes" where
  "body_conn_set user = be32 (bu_uid user) @ take 8 (bu_passwd user) @ replicate 32 0 @ be16 0"

definition body_disconn_set :: "body_user \<Rightarrow> bytes" where
  "body_disconn_set user = be32 (bu_uid user) @ take 8 (bu_passwd user)"

text \<open>\<^verbatim>\<open>strcpy\<close> of a 16-byte array into a zeroed 21-byte one; an array without a terminator is read
  beyond its end.\<close>

definition vehicle_no :: "bytes \<Rightarrow> bytes option" where
  "vehicle_no imei = do {
     asserting (0 \<in> set imei \<and> length imei \<le> 16);
     let s = takeWhile (\<lambda>b. b \<noteq> 0) imei;
     Some (s @ replicate (21 - length s) 0)
   }"

definition BODY_GPS_BODY_SIZE :: int where "BODY_GPS_BODY_SIZE = 36"
definition BODY_GPS_EXTRA_HEAD_SIZE :: int where "BODY_GPS_EXTRA_HEAD_SIZE = 29"

definition gps_body :: "body_gps \<Rightarrow> u32 \<Rightarrow> bytes" where
  "gps_body gps state = [0] @ take 4 (gp_date gps) @ take 3 (gp_time gps) @ be32 (gp_lon gps) @ be32 (gp_lat gps)
     @ be16 (gp_vec1 gps) @ be16 0 @ be32 0 @ be16 (gp_direction gps) @ be16 (gp_altitude gps) @ be32 state @ be32 0"

definition body_gps_set :: "body_gps \<Rightarrow> (bytes \<times> int) option" where
  "body_gps_set gps = do {
     no \<leftarrow> vehicle_no (gp_imei gps);
     Some (no @ [0] @ be16 UP_EXG_MSG_REAL_LOCATION @ be32 36 @ gps_body gps (gp_state gps), 0)
   }"

text \<open>The points of a supplementary message: the buffer, the length and the return value. Every
  point gets the state of the first one (\<^verbatim>\<open>gps->state\<close>).\<close>

fun extra_loop :: "bytes \<Rightarrow> int \<Rightarrow> body_gps list \<Rightarrow> u32 \<Rightarrow> int \<Rightarrow> nat \<Rightarrow> nat \<Rightarrow> (bytes \<times> int \<times> bool) option" where
  "extra_loop buf hlen gps state len i 0 = Some (buf, len, True)"
| "extra_loop buf hlen gps state len i (Suc n) =
     (if len + BODY_GPS_BODY_SIZE > hlen then Some (buf, len, False)
      else do {
        g \<leftarrow> mread gps (int i);
        buf1 \<leftarrow> mwrites buf len (gps_body g state);
        extra_loop buf1 hlen gps state (len + BODY_GPS_BODY_SIZE) (Suc i) n
      })"

definition body_extra_gps_set :: "bytes \<Rightarrow> int \<Rightarrow> body_gps list \<Rightarrow> int \<Rightarrow> (bytes \<times> int \<times> int) option" where
  "body_extra_gps_set buf hlen gps n =
     (if n \<le> 0 \<or> n > 5 \<or> BODY_GPS_EXTRA_HEAD_SIZE > hlen then Some (buf, hlen, -1)
      else do {
        g0 \<leftarrow> mread gps 0;
        no \<leftarrow> vehicle_no (gp_imei g0);
        buf1 \<leftarrow> mwrites buf 0 (no @ [0] @ be16 UP_EXG_MSG_HISTORY_LOCATION
            @ be32 (word_of_int (1 + n * BODY_GPS_BODY_SIZE)) @ [word_of_int n]);
        (buf2, len, fits) \<leftarrow> extra_loop buf1 hlen gps (gp_state g0) BODY_GPS_EXTRA_HEAD_SIZE 0 (nat n);
        if fits then Some (buf2, len, 0) else Some (buf2, hlen, -1)
      })"

section \<open>The operating system\<close>

text \<open>\<^verbatim>\<open>send\<close> returns its result and whether \<^verbatim>\<open>errno\<close> is \<^verbatim>\<open>EAGAIN\<close> or \<^verbatim>\<open>EINTR\<close>, \<^verbatim>\<open>connect\<close> its result and
  whether \<^verbatim>\<open>errno\<close> is \<^verbatim>\<open>EINPROGRESS\<close>, \<^verbatim>\<open>recv\<close> its result and the bytes it wrote.\<close>

record 'o os =
  os_calloc :: "'o \<Rightarrow> bool \<times> 'o"
  os_rand :: "'o \<Rightarrow> u32 \<times> 'o"
  os_time :: "'o \<Rightarrow> int \<times> 'o"
  os_select_w :: "int \<Rightarrow> 'o \<Rightarrow> int \<times> 'o"
  os_select_r :: "int \<Rightarrow> 'o \<Rightarrow> int \<times> 'o"
  os_send :: "int \<Rightarrow> bytes \<Rightarrow> 'o \<Rightarrow> (int \<times> bool) \<times> 'o"
  os_recv :: "int \<Rightarrow> int \<Rightarrow> 'o \<Rightarrow> (int \<times> bytes) \<times> 'o"
  os_so_error :: "int \<Rightarrow> 'o \<Rightarrow> int \<times> 'o"
  os_gethostbyname :: "bytes \<Rightarrow> 'o \<Rightarrow> bytes option \<times> 'o"
  os_socket :: "'o \<Rightarrow> int \<times> 'o"
  os_connect :: "int \<Rightarrow> bytes \<Rightarrow> int \<Rightarrow> 'o \<Rightarrow> (int \<times> bool) \<times> 'o"
  os_close :: "int \<Rightarrow> 'o \<Rightarrow> 'o"

record 'o net =
  nt_os :: 'o
  nt_sent :: "int \<Rightarrow> bytes"
  nt_opened :: "int list"
  nt_closed :: "int list"

definition sys :: "('o \<Rightarrow> 'a \<times> 'o) \<Rightarrow> 'o net \<Rightarrow> 'a \<times> 'o net" where
  "sys f net = (let (r, o') = f (nt_os net) in (r, net\<lparr>nt_os := o'\<rparr>))"

section \<open>Sending and receiving (jtt_client.c)\<close>

definition OUT_WR_TRY_TIMES :: nat where "OUT_WR_TRY_TIMES = 3"

text \<open>0: handshake not finished, 1: finished, -1: error.\<close>

definition is_ok_connect :: "'o os \<Rightarrow> int \<Rightarrow> 'o net \<Rightarrow> int \<times> 'o net" where
  "is_ok_connect os fd net =
     (let (ret, net1) = sys (os_select_w os fd) net
      in if ret = 0 then (0, net1)
         else let (err, net2) = sys (os_so_error os fd) net1
              in if err = 0 then (1, net2) else (-1, net2))"

text \<open>The result: the return value and \<^verbatim>\<open>*sockfd\<close>.\<close>

definition jtt_connect :: "'o os \<Rightarrow> bytes \<Rightarrow> int \<Rightarrow> 'o net \<Rightarrow> (int \<times> int) \<times> 'o net" where
  "jtt_connect os ip port net =
     (let (fd, net1) = sys (os_socket os) net
      in if fd = -1 then ((-1, fd), net1)
         else let ((ret, inprogress), net2) = sys (os_connect os fd ip port) (net1\<lparr>nt_opened := nt_opened net1 @ [fd]\<rparr>)
              in if ret = -1 \<and> \<not> inprogress then ((-1, fd), net2) else ((0, fd), net2))"

definition sys_close :: "'o os \<Rightarrow> int \<Rightarrow> 'o net \<Rightarrow> 'o net" where
  "sys_close os fd net = net\<lparr>nt_os := os_close os fd (nt_os net), nt_closed := nt_closed net @ [fd]\<rparr>"

definition jtt_disconnect :: "'o os \<Rightarrow> int \<Rightarrow> 'o net \<Rightarrow> int \<times> 'o net" where
  "jtt_disconnect os fd net = (0, sys_close os fd net)"

definition accept_bytes :: "int \<Rightarrow> bytes \<Rightarrow> 'o net \<Rightarrow> 'o net" where
  "accept_bytes fd bs net = net\<lparr>nt_sent := (nt_sent net)(fd := nt_sent net fd @ bs)\<rparr>"

text \<open>\<open>tms\<close> is the number of tries left. \<^verbatim>\<open>left > 0 && tms--\<close> leaves -1 in \<^verbatim>\<open>tms\<close> only when it stops the
  loop.\<close>

fun sendn_loop :: "'o os \<Rightarrow> int \<Rightarrow> bytes \<Rightarrow> int \<Rightarrow> int \<Rightarrow> nat \<Rightarrow> 'o net \<Rightarrow> (int \<times> 'o net) option" where
  "sendn_loop os fd buf len left 0 net = (if left > 0 then Some (-2, net) else Some (0, net))"
| "sendn_loop os fd buf len left (Suc tms) net =
     (if left > 0 then
        (let (ret, net1) = sys (os_select_w os fd) net
         in if ret = -1 then Some (-1, net1)
            else if ret = 0 then sendn_loop os fd buf len left tms net1
            else do {
              data \<leftarrow> mreads buf (len - left) left;
              let ((ret, again), net2) = sys (os_send os fd data) net1;
              if ret = -1 then
                (if again then sendn_loop os fd buf len left tms net2 else Some (-1, net2))
              else sendn_loop os fd buf len (left - ret) tms (accept_bytes fd (take (nat ret) data) net2)
            })
      else Some (0, net))"

definition sendn :: "'o os \<Rightarrow> int \<Rightarrow> bytes \<Rightarrow> int \<Rightarrow> 'o net \<Rightarrow> (int \<times> 'o net) option" where
  "sendn os fd buf len net = sendn_loop os fd buf len len OUT_WR_TRY_TIMES net"

definition jtt_send :: "'o os \<Rightarrow> int \<Rightarrow> bytes \<Rightarrow> int \<Rightarrow> 'o net \<Rightarrow> (int \<times> 'o net) option" where
  "jtt_send os fd buf len net = do {
     (ret, net1) \<leftarrow> sendn os fd buf len net;
     Some (if ret = -1 then -1 else if ret = -2 then -2 else 0, net1)
   }"

text \<open>Received bytes are written at the start of the buffer; the result holds the return value,
  the buffer and \<^verbatim>\<open>*len\<close>.\<close>

definition recvn :: "'o os \<Rightarrow> int \<Rightarrow> bytes \<Rightarrow> int \<Rightarrow> 'o net \<Rightarrow> ((int \<times> bytes \<times> int) \<times> 'o net) option" where
  "recvn os fd buf len net =
     (let (ret, net1) = sys (os_select_r os fd) net
      in if ret = -1 then Some ((-1, buf, len), net1)
         else if ret = 0 then Some ((-2, buf, len), net1)
         else do {
           let ((ret, bs), net2) = sys (os_recv os fd len) net1;
           if ret = -1 \<or> ret = 0 then Some ((-1, buf, len), net2)
           else do {
             buf1 \<leftarrow> mwrites buf 0 bs;
             Some ((0, buf1, ret), net2)
           }
         })"

definition jtt_recv :: "'o os \<Rightarrow> int \<Rightarrow> bytes \<Rightarrow> int \<Rightarrow> 'o net \<Rightarrow> ((int \<times> bytes \<times> int) \<times> 'o net) option" where
  "jtt_recv os fd buf len net = do {
     ((ret, buf1, len1), net1) \<leftarrow> recvn os fd buf len net;
     Some ((if ret = -1 then -1 else if ret = -2 then -2 else 0, buf1, len1), net1)
   }"

section \<open>The messages (jtt_comm.c)\<close>

definition GPS_PKG_LEN :: int where "GPS_PKG_LEN = 1024 * 5"
definition HEART_COUNT :: int where "HEART_COUNT = 3"

text \<open>Encoding into a zeroed buffer of \<open>GPS_PKG_LEN\<close> bytes, with the key and the allocation coming from
  the system.\<close>

definition encode_fresh ::
  "'o os \<Rightarrow> pkg_user \<Rightarrow> pkg_body \<Rightarrow> 'o net \<Rightarrow> ((bytes \<times> int \<times> pkg_user \<times> int) \<times> 'o net) option" where
  "encode_fresh os user body net = do {
     let (key, net1) = sys (os_rand os) net;
     let (alloc, net2) = sys (os_calloc os) net1;
     r \<leftarrow> pkg_encode alloc key user (replicate (nat GPS_PKG_LEN) 0) GPS_PKG_LEN body;
     Some (r, net2)
   }"

fun jtt_real_loop ::
  "'o os \<Rightarrow> pkg_user \<Rightarrow> body_user \<Rightarrow> body_gps list \<Rightarrow> nat \<Rightarrow> nat \<Rightarrow> 'o net \<Rightarrow> ((int \<times> pkg_user) \<times> 'o net) option" where
  "jtt_real_loop os pu bu gps i 0 net = Some ((0, pu), net)"
| "jtt_real_loop os pu bu gps i (Suc n) net = do {
     g \<leftarrow> mread gps (int i);
     (req, r) \<leftarrow> body_gps_set g;
     if r = -1 then Some ((-1, pu), net) else do {
       ((pkg, plen, pu1, r), net1) \<leftarrow> encode_fresh os pu \<lparr>pb_msg_id = UP_EXG_MSG, pb_body = Some req, pb_blen = of_nat (length req)\<rparr> net;
       if r = -1 then Some ((-1, pu1), net1) else do {
         (r, net2) \<leftarrow> jtt_send os (bu_sockfd bu) pkg plen net1;
         if r = -1 then Some ((-1, pu1), net2)
         else jtt_real_loop os pu1 bu gps (Suc i) n net2
       }
     }
   }"

definition jtt_real_send ::
  "'o os \<Rightarrow> pkg_user \<Rightarrow> body_user \<Rightarrow> body_gps list \<Rightarrow> int \<Rightarrow> 'o net \<Rightarrow> ((int \<times> pkg_user) \<times> 'o net) option" where
  "jtt_real_send os pu bu gps n net = jtt_real_loop os pu bu gps 0 (nat n) net"

text \<open>The loop of \<^verbatim>\<open>jtt_extra_send\<close>: \<open>data\<close> and \<open>dlen\<close> live across the rounds.\<close>

function jtt_extra_loop ::
  "'o os \<Rightarrow> pkg_user \<Rightarrow> body_user \<Rightarrow> body_gps list \<Rightarrow> int \<Rightarrow> int \<Rightarrow> bytes \<Rightarrow> int \<Rightarrow> 'o net \<Rightarrow> ((int \<times> pkg_user) \<times> 'o net) option" where
  "jtt_extra_loop os pu bu extra n left data dlen net =
     (if left > 0 then do {
        let i = (if left \<ge> 5 then 5 else left);
        (data1, dlen1, r) \<leftarrow> body_extra_gps_set data dlen (drop (nat (n - left)) extra) i;
        if r = -1 then Some ((-1, pu), net) else do {
          ((pkg, plen, pu1, r), net1) \<leftarrow> encode_fresh os pu \<lparr>pb_msg_id = UP_EXG_MSG, pb_body = Some data1, pb_blen = word_of_int dlen1\<rparr> net;
          if r = -1 then Some ((-1, pu1), net1) else do {
            (r, net2) \<leftarrow> jtt_send os (bu_sockfd bu) pkg plen net1;
            if r = -1 then Some ((-1, pu1), net2)
            else jtt_extra_loop os pu1 bu extra n (left - i) data1 dlen1 net2
          }
        }
      } else Some ((0, pu), net))"
  by pat_completeness auto

termination by (relation "measure (\<lambda>(os, pu, bu, extra, n, left, data, dlen, net). nat left)") auto

declare jtt_extra_loop.simps [simp del]

definition jtt_extra_send ::
  "'o os \<Rightarrow> pkg_user \<Rightarrow> body_user \<Rightarrow> body_gps list \<Rightarrow> int \<Rightarrow> 'o net \<Rightarrow> ((int \<times> pkg_user) \<times> 'o net) option" where
  "jtt_extra_send os pu bu extra n net =
     jtt_extra_loop os pu bu extra n n (replicate (nat GPS_PKG_LEN) 0) GPS_PKG_LEN net"

text \<open>The first half of \<^verbatim>\<open>jtt_heart\<close>: the answer to the last heartbeat. The count is that of
  unanswered heartbeats; \<^term>\<open>None\<close> in the middle means that the function returns.\<close>

definition heart_answer :: "'o os \<Rightarrow> body_user \<Rightarrow> 'o net \<Rightarrow> ((bool \<times> body_user) \<times> 'o net) option" where
  "heart_answer os bu net =
     (if bu_heart_cnt bu \<noteq> 0 then do {
        ((ret, _, _), net1) \<leftarrow> jtt_recv os (bu_sockfd bu) (replicate (nat GPS_PKG_LEN) 0) GPS_PKG_LEN net;
        if ret = -1 \<or> ret = -2 then
          (if bu_heart_cnt bu = HEART_COUNT then Some ((False, bu\<lparr>bu_heart_cnt := 0\<rparr>), net1)
           else Some ((True, bu\<lparr>bu_heart_cnt := bu_heart_cnt bu + 1\<rparr>), net1))
        else Some ((True, bu\<lparr>bu_heart_cnt := 1\<rparr>), net1)
      } else Some ((True, bu\<lparr>bu_heart_cnt := 1\<rparr>), net))"

definition jtt_heart ::
  "'o os \<Rightarrow> pkg_user \<Rightarrow> body_user \<Rightarrow> 'o net \<Rightarrow> ((int \<times> pkg_user \<times> body_user) \<times> 'o net) option" where
  "jtt_heart os pu bu net = do {
     ((go, bu1), net1) \<leftarrow> heart_answer os bu net;
     if \<not> go then Some ((-1, pu, bu1), net1) else do {
       ((pkg, plen, pu1, r), net2) \<leftarrow> encode_fresh os pu \<lparr>pb_msg_id = UP_LINKTEST_REQ, pb_body = Some [], pb_blen = 0\<rparr> net1;
       if r = -1 then Some ((-1, pu1, bu1\<lparr>bu_heart_cnt := 0\<rparr>), net2) else do {
         (r, net3) \<leftarrow> jtt_send os (bu_sockfd bu1) pkg plen net2;
         if r = -1 then Some ((-1, pu1, bu1\<lparr>bu_heart_cnt := 0\<rparr>), net3)
         else Some ((0, pu1, bu1), net3)
       }
     }
   }"

section \<open>Logging in (async_comm.c)\<close>

definition ASYNC_CONNECT_TIME :: int where "ASYNC_CONNECT_TIME = 10"
definition RECONNECT_SPACE :: int where "RECONNECT_SPACE = 3"
definition LOGON_RESP_SPACE :: int where "LOGON_RESP_SPACE = 3"

definition async_user_init :: "body_user \<Rightarrow> body_user" where
  "async_user_init u = u\<lparr>bu_sockfd := -1, bu_online := -1, bu_conn_time := 0, bu_logon_time := 0, bu_logout_time := 0\<rparr>"

definition async_user_reset :: "'o os \<Rightarrow> body_user \<Rightarrow> 'o net \<Rightarrow> body_user \<times> 'o net" where
  "async_user_reset os u net =
     (let (u1, net1) = (if bu_sockfd u \<noteq> -1
        then (u\<lparr>bu_sockfd := -1\<rparr>, sys_close os (bu_sockfd u) net) else (u, net));
          (tm, net2) = sys (os_time os) net1
      in (u1\<lparr>bu_online := 0, bu_conn_time := 0, bu_logon_time := 0, bu_logout_time := tm\<rparr>, net2))"

definition async_user_is_online :: "body_user \<Rightarrow> int" where
  "async_user_is_online u = (if bu_online u = 4 then 1 else 0)"

text \<open>1: handshake not finished, 0: finished, -1: error.\<close>

definition async_is_connect :: "'o os \<Rightarrow> int \<Rightarrow> 'o net \<Rightarrow> int \<times> 'o net" where
  "async_is_connect os fd net =
     (let (ret, net1) = sys (os_select_w os fd) net
      in if ret = 0 then (1, net1)
         else let (err, net2) = sys (os_so_error os fd) net1
              in if err = 0 then (0, net2) else (-1, net2))"

definition ip_get_from_domain :: "'o os \<Rightarrow> bytes \<Rightarrow> 'o net \<Rightarrow> (int \<times> bytes) \<times> 'o net" where
  "ip_get_from_domain os domain net =
     (let (r, net1) = sys (os_gethostbyname os domain) net
      in case r of None \<Rightarrow> ((-1, []), net1) | Some ip \<Rightarrow> ((0, ip), net1))"

text \<open>One round of the login loop goes on with the new state or returns.\<close>

datatype ('a, 'b) round = Again 'a | Return 'b

type_synonym 'o login_state = "bool \<times> pkg_user \<times> body_user \<times> 'o net"
type_synonym 'o login_round = "('o login_state, int \<times> pkg_user \<times> body_user \<times> 'o net) round"

definition fail_login :: "'o os \<Rightarrow> pkg_user \<Rightarrow> body_user \<Rightarrow> 'o net \<Rightarrow> 'o login_round" where
  "fail_login os pu u net = (let (u1, net1) = async_user_reset os u net in Return (-1, pu, u1, net1))"

definition login_offline :: "'o os \<Rightarrow> bool \<Rightarrow> pkg_user \<Rightarrow> body_user \<Rightarrow> 'o net \<Rightarrow> 'o login_round" where
  "login_offline os start pu u net =
     (let (tm, net1) = sys (os_time os) net
      in if \<not> start \<and> tm - bu_logout_time u < RECONNECT_SPACE then Return (1, pu, u, net1)
         else let ((r, ip), net2) = ip_get_from_domain os (bu_ip u) net1
              in if r = -1 then fail_login os pu u net2
                 else let ((r, fd), net3) = jtt_connect os ip (bu_port u) net2; u1 = u\<lparr>bu_sockfd := fd\<rparr>
                      in if r = -1 then fail_login os pu u1 net3
                         else let (tm, net4) = sys (os_time os) net3
                              in Again (start, pu, u1\<lparr>bu_conn_time := tm, bu_online := 1\<rparr>, net4))"

definition login_connecting :: "'o os \<Rightarrow> bool \<Rightarrow> pkg_user \<Rightarrow> body_user \<Rightarrow> 'o net \<Rightarrow> 'o login_round" where
  "login_connecting os start pu u net =
     (let (r, net1) = async_is_connect os (bu_sockfd u) net
      in if r = 0 then Again (start, pu, u\<lparr>bu_online := 2\<rparr>, net1)
         else if r = 1 then
           (let (tm, net2) = sys (os_time os) net1
            in if tm - bu_conn_time u > ASYNC_CONNECT_TIME then fail_login os pu u net2
               else Return (1, pu, u, net2))
         else fail_login os pu u net1)"

definition login_connected :: "'o os \<Rightarrow> bool \<Rightarrow> pkg_user \<Rightarrow> body_user \<Rightarrow> 'o net \<Rightarrow> 'o login_round option" where
  "login_connected os start pu u net = do {
     let req = body_conn_set u;
     ((pkg, plen, pu1, r), net1) \<leftarrow> encode_fresh os pu \<lparr>pb_msg_id = UP_CONNECT_REQ, pb_body = Some req, pb_blen = of_nat (length req)\<rparr> net;
     if r = -1 then Some (fail_login os pu1 u net1) else do {
       (r, net2) \<leftarrow> jtt_send os (bu_sockfd u) pkg plen net1;
       if r \<noteq> 0 then Some (fail_login os pu1 u net2)
       else do {
         let (tm, net3) = sys (os_time os) net2;
         Some (Again (start, pu1, u\<lparr>bu_online := 3, bu_logon_time := tm\<rparr>, net3))
       }
     }
   }"

definition login_requested :: "'o os \<Rightarrow> pkg_user \<Rightarrow> body_user \<Rightarrow> 'o net \<Rightarrow> 'o login_round option" where
  "login_requested os pu u net = do {
     ((r, pkg, plen), net1) \<leftarrow> jtt_recv os (bu_sockfd u) (replicate (nat GPS_PKG_LEN) 0) GPS_PKG_LEN net;
     if r \<noteq> 0 then
       (let (tm, net2) = sys (os_time os) net1
        in if tm - bu_logon_time u > LOGON_RESP_SPACE then Some (fail_login os pu u net2)
           else Some (Return (1, pu, u, net2)))
     else do {
       (pkg1, _, r) \<leftarrow> pkg_decode pu pkg plen;
       if r = -1 then Some (fail_login os pu u net1)
       else do {
         result \<leftarrow> mread pkg1 JTT_HEAD_SIZE;
         if result \<noteq> 0 then Some (fail_login os pu u net1)
         else Some (Return (0, pu, u\<lparr>bu_online := 4\<rparr>, net1))
       }
     }
   }"

definition login_round :: "'o os \<Rightarrow> 'o login_state \<Rightarrow> 'o login_round option" where
  "login_round os st = (let (start, pu, u, net) = st
     in if bu_online u = -1 then Some (Again (True, pu, u\<lparr>bu_online := 0\<rparr>, net))
        else if bu_online u = 0 then Some (login_offline os start pu u net)
        else if bu_online u = 1 then Some (login_connecting os start pu u net)
        else if bu_online u = 2 then login_connected os start pu u net
        else if bu_online u = 3 then login_requested os pu u net
        else if bu_online u = 4 then Some (Return (0, pu, u, net))
        else Some (Again st))"

fun login_loop :: "nat \<Rightarrow> 'o os \<Rightarrow> 'o login_state \<Rightarrow> (int \<times> pkg_user \<times> body_user \<times> 'o net) option" where
  "login_loop 0 os st = (let (start, pu, u, net) = st in Some (0, pu, u, net))"
| "login_loop (Suc i) os st = do {
     r \<leftarrow> login_round os st;
     case r of Again st' \<Rightarrow> login_loop i os st' | Return x \<Rightarrow> Some x
   }"

definition async_user_connect ::
  "'o os \<Rightarrow> pkg_user \<Rightarrow> body_user \<Rightarrow> 'o net \<Rightarrow> (int \<times> pkg_user \<times> body_user \<times> 'o net) option" where
  "async_user_connect os pu u net = login_loop 5 os (False, pu, u, net)"

section \<open>Heartbeats of the users of a thread (jtt_business.c)\<close>

record user_info =
  ui_thread_idx :: int
  ui_pkg :: pkg_user
  ui_body :: body_user

fun jtt809_do_heart :: "'o os \<Rightarrow> int \<Rightarrow> user_info list \<Rightarrow> 'o net \<Rightarrow> (user_info list \<times> 'o net) option" where
  "jtt809_do_heart os idx [] net = Some ([], net)"
| "jtt809_do_heart os idx (ui # uis) net = do {
     (ui1, net1) \<leftarrow>
       (if idx = ui_thread_idx ui \<and> async_user_is_online (ui_body ui) = 1 then do {
          ((r, pu, bu), net') \<leftarrow> jtt_heart os (ui_pkg ui) (ui_body ui) net;
          if r = -1 then (let (bu1, net'') = async_user_reset os bu net'
            in Some (ui\<lparr>ui_pkg := pu, ui_body := bu1\<rparr>, net''))
          else Some (ui\<lparr>ui_pkg := pu, ui_body := bu\<rparr>, net')
        } else Some (ui, net));
     (uis1, net2) \<leftarrow> jtt809_do_heart os idx uis net1;
     Some (ui1 # uis1, net2)
   }"

section \<open>Sending\<close>

text \<open>The system's \<^verbatim>\<open>send\<close> accepts no more than it is given.\<close>

definition send_bounded :: "'o os \<Rightarrow> bool" where
  "send_bounded os \<longleftrightarrow> (\<forall>fd bs o'. case os_send os fd bs o' of ((r, _), _) \<Rightarrow> -1 \<le> r \<and> r \<le> int (length bs))"

lemma sys_sent [simp]: "sys f net = (r, net') \<Longrightarrow> nt_sent net' = nt_sent net"
  by (auto simp: sys_def split: prod.splits)

lemma sendn_loop_prefix:
  assumes ok: "send_bounded os" and "len \<le> int (length buf)" "0 \<le> left" "left \<le> len"
    and "nt_sent net fd = base @ take (nat (len - left)) buf" "\<forall>fd'. fd' \<noteq> fd \<longrightarrow> nt_sent net fd' = other fd'"
  shows "\<exists>r net' k. sendn_loop os fd buf len left tms net = Some (r, net') \<and> k \<le> nat len
    \<and> nt_sent net' fd = base @ take k buf \<and> (\<forall>fd'. fd' \<noteq> fd \<longrightarrow> nt_sent net' fd' = other fd')
    \<and> r \<in> {0, -1, -2} \<and> (r = 0 \<longrightarrow> k = nat len)"
  using assms(2-)
proof (induction tms arbitrary: left net)
  case 0
  then show ?case by (auto intro!: exI [of _ "nat (len - left)"])
next
  case (Suc tms)
  show ?case
  proof (cases "left > 0")
    case False
    then show ?thesis using Suc.prems by auto
  next
    case True
    obtain ret net1 where n1: "sys (os_select_w os fd) net = (ret, net1)" by force
    have s1: "nt_sent net1 = nt_sent net" using n1 by simp
    define data where "data = take (nat left) (drop (nat (len - left)) buf)"
    have rd: "mreads buf (len - left) left = Some data" using Suc.prems True by (simp add: mreads_def data_def)
    obtain r again net2 where n2: "sys (os_send os fd data) net1 = ((r, again), net2)" by (metis prod.exhaust)
    have s2: "nt_sent net2 = nt_sent net" using n2 s1 by simp
    have ld: "length data = nat left" using Suc.prems True by (simp add: data_def)
    obtain o2 where "os_send os fd data (nt_os net1) = ((r, again), o2)" using n2 by (auto simp: sys_def split: prod.splits)
    then have r: "-1 \<le> r" "r \<le> left" using ok ld True unfolding send_bounded_def by (fastforce split: prod.splits)+
    let ?k = "nat (len - left)"
    have stop: "?k \<le> nat len" "nt_sent net fd = base @ take ?k buf" using Suc.prems by simp_all
    have acc: "nt_sent (accept_bytes fd (take (nat r) data) net2) fd = base @ take (nat (len - (left - r))) buf" if "0 \<le> r"
    proof -
      have "take (nat r) data = take (nat r) (drop ?k buf)" using r that by (simp add: data_def)
      then show ?thesis using s2 stop(2) that Suc.prems
        by (simp add: accept_bytes_def take_add [symmetric] nat_add_distrib [symmetric] algebra_simps)
    qed
    have oth: "\<forall>fd'. fd' \<noteq> fd \<longrightarrow> nt_sent (accept_bytes fd (take (nat r) data) net2) fd' = other fd'"
      using s2 Suc.prems(5) by (simp add: accept_bytes_def)
    show ?thesis
    proof (cases "ret = -1 \<or> (ret \<noteq> 0 \<and> r = -1 \<and> \<not> again)")
      case True
      then have "\<exists>net'. sendn_loop os fd buf len left (Suc tms) net = Some (-1, net') \<and> nt_sent net' = nt_sent net"
        using n1 n2 rd s1 s2 \<open>left > 0\<close> by auto
      then obtain net' where net': "sendn_loop os fd buf len left (Suc tms) net = Some (-1, net')" "nt_sent net' = nt_sent net" by blast
      show ?thesis unfolding net'(1) using net'(2) stop Suc.prems(5)
        by (intro exI [of _ "-1"] exI [of _ net'] exI [of _ ?k]) simp
    next
      case False
      then consider "ret = 0" | "ret \<noteq> 0" "r = -1" again | "ret \<noteq> 0" "0 \<le> r" using r by linarith
      then show ?thesis
      proof cases
        case 1
        then show ?thesis using Suc.IH [of left net1] Suc.prems s1 n1 True by simp
      next
        case 2
        then show ?thesis using Suc.IH [of left net2] Suc.prems s2 n1 n2 rd True False by simp
      next
        case 3
        then show ?thesis using Suc.IH [of "left - r" "accept_bytes fd (take (nat r) data) net2"] Suc.prems acc oth r n1 n2 rd True False
          by simp
      qed
    qed
  qed
qed

text \<open>The sockets a step opens and closes.\<close>

definition same_socks :: "'o net \<Rightarrow> 'o net \<Rightarrow> bool" where
  "same_socks net net' \<longleftrightarrow> nt_opened net' = nt_opened net \<and> nt_closed net' = nt_closed net"

lemma same_socks_refl [simp]: "same_socks net net"
  by (simp add: same_socks_def)

lemma same_socks_trans: "same_socks a b \<Longrightarrow> same_socks b c \<Longrightarrow> same_socks a c"
  by (simp add: same_socks_def)

lemma sys_socks: "sys f net = (r, net') \<Longrightarrow> same_socks net net'"
  by (auto simp: sys_def same_socks_def split: prod.splits)

lemma accept_socks: "same_socks net (accept_bytes fd bs net)"
  by (simp add: accept_bytes_def same_socks_def)

lemma sendn_loop_socks: "sendn_loop os fd buf len left tms net = Some (r, net') \<Longrightarrow> same_socks net net'"
proof (induction tms arbitrary: left net)
  case 0
  then show ?case by (auto split: if_splits)
next
  case (Suc tms)
  obtain ret net1 where n1: "sys (os_select_w os fd) net = (ret, net1)" by force
  have s1: "same_socks net net1" by (rule sys_socks [OF n1])
  show ?case
  proof (cases "left > 0 \<and> ret \<noteq> -1 \<and> ret \<noteq> 0")
    case False
    then show ?thesis using Suc.prems n1 s1 Suc.IH same_socks_trans [OF s1] by (auto split: if_splits)
  next
    case True
    then obtain data where d: "mreads buf (len - left) left = Some data" using Suc.prems n1 by (auto split: bind_split_asm)
    obtain v again net2 where n2: "sys (os_send os fd data) net1 = ((v, again), net2)" by (metis prod.exhaust)
    have s2: "same_socks net net2" by (rule same_socks_trans [OF s1 sys_socks [OF n2]])
    have s3: "same_socks net (accept_bytes fd (take (nat v) data) net2)" by (rule same_socks_trans [OF s2 accept_socks])
    show ?thesis using Suc.prems n1 n2 d True s2 Suc.IH same_socks_trans [OF s2] same_socks_trans [OF s3]
      by (auto split: if_splits)
  qed
qed

lemma jtt_send_socks: "jtt_send os fd buf len net = Some (r, net') \<Longrightarrow> same_socks net net'"
  by (auto simp: jtt_send_def sendn_def dest: sendn_loop_socks split: bind_split_asm)

lemma encode_fresh_socks: "encode_fresh os pu body net = Some (x, net') \<Longrightarrow> same_socks net net'"
  using same_socks_trans [OF sys_socks sys_socks] by (auto simp: encode_fresh_def Let_def split: bind_split_asm prod.splits)

lemma jtt_recv_socks: "jtt_recv os fd buf len net = Some (x, net') \<Longrightarrow> same_socks net net'"
  using sys_socks same_socks_trans [OF sys_socks sys_socks]
  by (auto simp: jtt_recv_def recvn_def Let_def split: bind_split_asm prod.splits if_splits)

section \<open>Logging in\<close>

text \<open>What \<^verbatim>\<open>recv\<close> promises: it writes as many bytes as it returns, no more than it was asked for. And what the
  login relies on of the peer beside it: a piece between delimiters is not shorter than a header and a
  checksum.\<close>

definition recv_bounded :: "'o os \<Rightarrow> bool" where
  "recv_bounded os \<longleftrightarrow> (\<forall>fd n o'. case os_recv os fd n o' of ((r, bs), _) \<Rightarrow> r = -1 \<or> 0 \<le> r \<and> r \<le> n \<and> r = int (length bs))"

definition long_packages :: "'o os \<Rightarrow> bool" where
  "long_packages os \<longleftrightarrow> (\<forall>fd n o'. case os_recv os fd n o' of ((r, bs), _) \<Rightarrow> 0 < r \<longrightarrow> long_enough bs)"

lemma pkg_decode_sz: "pkg_decode (pu\<lparr>pu_msg_sz := x\<rparr>) m n = pkg_decode pu m n"
  by (simp add: pkg_decode_def)

lemma encode_fresh_total:
  assumes "user_ok pu" "body_of body d" "2 * length d \<le> 5000"
  shows "\<exists>pkg plen r net'. encode_fresh os pu body net = Some ((pkg, plen, pu\<lparr>pu_msg_sz := pu_msg_sz pu + 1\<rparr>, r), net')
    \<and> 0 \<le> plen \<and> plen \<le> int (length pkg)"
proof -
  obtain key net1 where k: "sys (os_rand os) net = (key, net1)" by force
  obtain al net2 where a: "sys (os_calloc os) net1 = (al, net2)" by force
  have "length (escape_all (inner pu key body d)) \<le> 2 * (24 + length d)"
    using length_escape_all_le [of "inner pu key body d"] length_inner [OF assms(1), of key body d] by simp
  then have fits: "int (1 + length (escape_all (inner pu key body d))) < GPS_PKG_LEN"
      "GPS_PKG_LEN \<le> int (length (replicate (nat GPS_PKG_LEN) (0::byte)))" using assms(3) by (simp_all add: GPS_PKG_LEN_def)
  show ?thesis
  proof (cases al)
    case True
    then show ?thesis using k a pkg_encode_wire [OF assms(1,2) fits] by (simp add: encode_fresh_def)
  next
    case False
    then show ?thesis using k a by (simp add: encode_fresh_def pkg_encode_def GPS_PKG_LEN_def)
  qed
qed

lemma jtt_send_total:
  assumes "send_bounded os" "0 \<le> plen" "plen \<le> int (length pkg)"
  shows "\<exists>r net'. jtt_send os fd pkg plen net = Some (r, net')"
  using sendn_loop_prefix [OF assms(1,3,2) order_refl, where base = "nt_sent net fd" and other = "nt_sent net" and net = net and fd = fd
      and tms = OUT_WR_TRY_TIMES]
  by (auto simp: jtt_send_def sendn_def)

text \<open>How a login attempt may end.\<close>

definition login_outcome :: "int \<Rightarrow> body_user \<Rightarrow> bool" where
  "login_outcome ret u \<longleftrightarrow> (ret = 0 \<and> bu_online u = 4) \<or> (ret = 1 \<and> bu_online u \<in> {0, 1, 3})
     \<or> (ret = -1 \<and> bu_online u = 0 \<and> bu_sockfd u = -1)"

text \<open>The sockets of a user in some steps: those it had and opened are those it closed and has.\<close>

definition owned :: "body_user \<Rightarrow> int list" where
  "owned u = (if bu_sockfd u = -1 then [] else [bu_sockfd u])"

definition no_leak :: "body_user \<Rightarrow> 'o net \<Rightarrow> body_user \<Rightarrow> 'o net \<Rightarrow> bool" where
  "no_leak u net u' net' \<longleftrightarrow> (\<exists>new old. nt_opened net' = nt_opened net @ new \<and> nt_closed net' = nt_closed net @ old \<and>
     owned u @ new = old @ owned u')"

lemma no_leak_same: "same_socks net net' \<Longrightarrow> bu_sockfd u' = bu_sockfd u \<Longrightarrow> no_leak u net u' net'"
  by (auto simp: no_leak_def same_socks_def owned_def)

lemma no_leak_trans: "no_leak u net u' net' \<Longrightarrow> no_leak u' net' u'' net'' \<Longrightarrow> no_leak u net u'' net''"
  unfolding no_leak_def by (metis append.assoc)

text \<open>A round either moves to the next state or ends the attempt.\<close>

definition offline_closed :: "body_user \<Rightarrow> bool" where
  "offline_closed u \<longleftrightarrow> (bu_online u \<le> 0 \<longrightarrow> bu_sockfd u = -1)"

definition round_ok :: "pkg_user \<Rightarrow> body_user \<Rightarrow> 'o net \<Rightarrow> 'o login_round \<Rightarrow> bool" where
  "round_ok pu u net r \<longleftrightarrow> (case r of
     Again (start, pu', u', net') \<Rightarrow> bu_online u' = bu_online u + 1 \<and> bu_online u < 3 \<and> (user_ok pu \<longrightarrow> user_ok pu') \<and>
       length (bu_passwd u') = 8 \<and> offline_closed u' \<and> no_leak u net u' net'
   | Return (ret, pu', u', net') \<Rightarrow> login_outcome ret u' \<and> no_leak u net u' net')"

lemma user_ok_sz [simp]: "user_ok (pu\<lparr>pu_msg_sz := x\<rparr>) = user_ok pu"
  by (simp add: user_ok_def)

lemma round_ok_simps:
  "round_ok pu u net (Again (start, pu', u', net')) \<longleftrightarrow> bu_online u' = bu_online u + 1 \<and> bu_online u < 3 \<and>
     (user_ok pu \<longrightarrow> user_ok pu') \<and> length (bu_passwd u') = 8 \<and> offline_closed u' \<and> no_leak u net u' net'"
  "round_ok pu u net (Return (ret, pu', u', net')) \<longleftrightarrow> login_outcome ret u' \<and> no_leak u net u' net'"
  by (simp_all add: round_ok_def)

lemma fail_login_ok:
  assumes "no_leak u net u1 net1"
  shows "round_ok pu u net (fail_login os pu' u1 net1)"
proof -
  obtain u2 net2 where c: "async_user_reset os u1 net1 = (u2, net2)" by force
  have "no_leak u1 net1 u2 net2" "login_outcome (-1) u2"
    using c sys_socks [of "os_time os"]
    by (auto simp: async_user_reset_def Let_def no_leak_def owned_def same_socks_def sys_close_def login_outcome_def split: prod.splits if_splits)
  then show ?thesis using c no_leak_trans [OF assms] by (auto simp: fail_login_def round_ok_def)
qed

lemma connect_socks:
  "jtt_connect os ip port net = ((r, fd), net') \<Longrightarrow> bu_sockfd u = -1 \<Longrightarrow> no_leak u net (u\<lparr>bu_sockfd := fd\<rparr>) net'"
  using sys_socks [of "os_socket os"] sys_socks [of "os_connect os fd ip port"]
  by (auto simp: jtt_connect_def Let_def no_leak_def owned_def same_socks_def split: prod.splits if_splits)

lemma no_leak_sys: "no_leak u net u' net' \<Longrightarrow> sys f net' = (x, net'') \<Longrightarrow> bu_sockfd u'' = bu_sockfd u' \<Longrightarrow> no_leak u net u'' net''"
  using no_leak_trans no_leak_same sys_socks by metis

lemma login_offline_ok:
  assumes "length (bu_passwd u) = 8" "bu_online u = 0" "bu_sockfd u = -1"
  shows "round_ok pu u net (login_offline os start pu u net)"
proof -
  obtain tm net1 where n1: "sys (os_time os) net = (tm, net1)" by force
  obtain r0 ip net2 where n2: "ip_get_from_domain os (bu_ip u) net1 = ((r0, ip), net2)" by (metis prod.exhaust)
  obtain r fd net3 where n3: "jtt_connect os ip (bu_port u) net2 = ((r, fd), net3)" by (metis prod.exhaust)
  obtain tm' net4 where n4: "sys (os_time os) net3 = (tm', net4)" by force
  have k1: "no_leak u net u net1" using n1 by (simp add: no_leak_same sys_socks)
  have "same_socks net1 net2" using n2 sys_socks by (auto simp: ip_get_from_domain_def Let_def split: prod.splits option.splits)
  then have k2: "no_leak u net u net2" using no_leak_trans [OF k1] by (simp add: no_leak_same)
  have k3: "no_leak u net (u\<lparr>bu_sockfd := fd\<rparr>) net3" by (rule no_leak_trans [OF k2 connect_socks [OF n3 assms(3)]])
  have k4: "no_leak u net (u\<lparr>bu_sockfd := fd, bu_conn_time := tm', bu_online := 1\<rparr>) net4" by (rule no_leak_sys [OF k3 n4]) simp
  show ?thesis
    using n1 n2 n3 n4 fail_login_ok [OF k2] fail_login_ok [OF k3] k1 k4 assms
    by (simp add: login_offline_def Let_def round_ok_simps login_outcome_def offline_closed_def)
qed

lemma login_connecting_ok:
  assumes "length (bu_passwd u) = 8" "bu_online u = 1"
  shows "round_ok pu u net (login_connecting os start pu u net)"
proof -
  obtain r net1 where n1: "async_is_connect os (bu_sockfd u) net = (r, net1)" by force
  obtain tm net2 where n2: "sys (os_time os) net1 = (tm, net2)" by force
  have s: "same_socks net net1" using n1 sys_socks same_socks_trans [OF sys_socks sys_socks]
    by (auto simp: async_is_connect_def Let_def split: prod.splits if_splits)
  have k1: "no_leak u net u net1" "no_leak u net (u\<lparr>bu_online := 2\<rparr>) net1" using s by (simp_all add: no_leak_same)
  have k2: "no_leak u net u net2" by (rule no_leak_sys [OF k1(1) n2]) simp
  show ?thesis
    using n1 n2 fail_login_ok [OF k2] fail_login_ok [OF k1(1)] k1 k2 assms
    by (simp add: login_connecting_def Let_def round_ok_simps login_outcome_def offline_closed_def)
qed

lemma login_connected_ok:
  assumes "user_ok pu" "length (bu_passwd u) = 8" "send_bounded os" "bu_online u = 2"
  shows "\<exists>r. login_connected os start pu u net = Some r \<and> round_ok pu u net r"
proof -
  let ?req = "body_conn_set u" and ?pu = "pu\<lparr>pu_msg_sz := pu_msg_sz pu + 1\<rparr>"
  have l: "length ?req = 46" using assms(2) by (simp add: body_conn_set_def)
  obtain pkg plen r net1 where e: "encode_fresh os pu \<lparr>pb_msg_id = UP_CONNECT_REQ, pb_body = Some ?req, pb_blen = of_nat (length ?req)\<rparr> net
      = Some ((pkg, plen, ?pu, r), net1)" "0 \<le> plen" "plen \<le> int (length pkg)"
    using encode_fresh_total [OF assms(1), of "\<lparr>pb_msg_id = UP_CONNECT_REQ, pb_body = Some ?req, pb_blen = of_nat (length ?req)\<rparr>" ?req os net] l
    by (auto simp: body_of_def)
  obtain r2 net2 where s: "jtt_send os (bu_sockfd u) pkg plen net1 = Some (r2, net2)"
    using jtt_send_total [OF assms(3) e(2,3)] by blast
  obtain tm net3 where n3: "sys (os_time os) net2 = (tm, net3)" by force
  have k1: "no_leak u net u net1" using encode_fresh_socks [OF e(1)] by (simp add: no_leak_same)
  have k2: "no_leak u net u net2" using same_socks_trans [OF encode_fresh_socks [OF e(1)] jtt_send_socks [OF s]] by (simp add: no_leak_same)
  have k3: "no_leak u net (u\<lparr>bu_online := 3, bu_logon_time := tm\<rparr>) net3" by (rule no_leak_sys [OF k2 n3]) simp
  show ?thesis using e(1) s n3 fail_login_ok [OF k1] fail_login_ok [OF k2] k3 assms(2,4)
    by (simp add: login_connected_def Let_def round_ok_simps offline_closed_def)
qed

lemma recv_cases:
  assumes "recv_bounded os" "long_packages os"
  obtains (got) bs net1 where "jtt_recv os fd (replicate (nat GPS_PKG_LEN) 0) GPS_PKG_LEN net =
      Some ((0, bs @ replicate (nat GPS_PKG_LEN - length bs) 0, int (length bs)), net1)" "long_enough bs" "bs \<noteq> []"
      "length bs \<le> nat GPS_PKG_LEN"
  | (no) v b n net1 where "jtt_recv os fd (replicate (nat GPS_PKG_LEN) 0) GPS_PKG_LEN net = Some ((v, b, n), net1)" "v \<noteq> 0"
proof -
  obtain ret n1 where s: "sys (os_select_r os fd) net = (ret, n1)" by force
  obtain r bs n2 where v: "sys (os_recv os fd GPS_PKG_LEN) n1 = ((r, bs), n2)" by (metis prod.exhaust)
  then obtain o2 where o2: "os_recv os fd GPS_PKG_LEN (nt_os n1) = ((r, bs), o2)" by (auto simp: sys_def split: prod.splits)
  have b: "r = -1 \<or> 0 \<le> r \<and> r \<le> GPS_PKG_LEN \<and> r = int (length bs)" using assms(1) o2 unfolding recv_bounded_def by (fastforce split: prod.splits)
  have l: "0 < r \<longrightarrow> long_enough bs" using assms(2) o2 unfolding long_packages_def by (fastforce split: prod.splits)
  show thesis
  proof (cases "ret = -1 \<or> ret = 0 \<or> r = -1 \<or> r = 0")
    case True
    then have "\<exists>w b n net1. jtt_recv os fd (replicate (nat GPS_PKG_LEN) 0) GPS_PKG_LEN net = Some ((w, b, n), net1) \<and> w \<noteq> 0"
      using s v by (cases "ret = -1 \<or> ret = 0") (auto simp: jtt_recv_def recvn_def)
    then obtain w b n net1 where "jtt_recv os fd (replicate (nat GPS_PKG_LEN) 0) GPS_PKG_LEN net = Some ((w, b, n), net1)" "w \<noteq> 0" by blast
    then show thesis by (rule no)
  next
    case False
    then have c: "r = int (length bs)" "0 < r" "int (length bs) \<le> GPS_PKG_LEN" using b by auto
    then have "mwrites (replicate (nat GPS_PKG_LEN) 0) 0 bs = Some (bs @ replicate (nat GPS_PKG_LEN - length bs) 0)"
      by (simp add: mwrites_def GPS_PKG_LEN_def)
    then have "jtt_recv os fd (replicate (nat GPS_PKG_LEN) 0) GPS_PKG_LEN net =
        Some ((0, bs @ replicate (nat GPS_PKG_LEN - length bs) 0, int (length bs)), n2)"
      using s v False c(1) by (simp add: jtt_recv_def recvn_def)
    then show thesis using l c by (intro got) auto
  qed
qed

lemma login_requested_ok:
  assumes "user_ok pu" "recv_bounded os" "long_packages os" "bu_online u = 3"
  shows "\<exists>r. login_requested os pu u net = Some r \<and> round_ok pu u net r"
proof (rule recv_cases [OF assms(2,3), where fd = "bu_sockfd u" and net = net])
  fix bs net1
  assume got: "jtt_recv os (bu_sockfd u) (replicate (nat GPS_PKG_LEN) 0) GPS_PKG_LEN net =
      Some ((0, bs @ replicate (nat GPS_PKG_LEN - length bs) 0, int (length bs)), net1)" "long_enough bs" "bs \<noteq> []"
      "length bs \<le> nat GPS_PKG_LEN"
  have k: "no_leak u net u net1" "no_leak u net (u\<lparr>bu_online := 4\<rparr>) net1" using jtt_recv_socks [OF got(1)] by (simp_all add: no_leak_same)
  obtain m n r where d: "pkg_decode pu (bs @ replicate (nat GPS_PKG_LEN - length bs) 0) (int (length bs)) = Some (m, n, r)"
      "length m = length (bs @ replicate (nat GPS_PKG_LEN - length bs) (0::byte))"
    using pkg_decode_total [OF assms(1) got(2,3), of "replicate (nat GPS_PKG_LEN - length bs) 0"] got(4) by (auto simp: GPS_PKG_LEN_def)
  then have "JTT_HEAD_SIZE < int (length m)" using got(4) by (simp add: JTT_HEAD_SIZE_def GPS_PKG_LEN_def)
  then obtain b where "mread m JTT_HEAD_SIZE = Some b" by (auto simp: mread_def JTT_HEAD_SIZE_def)
  then show ?thesis using got(1) d(1) fail_login_ok [OF k(1)] k(2)
    by (simp add: login_requested_def Let_def round_ok_simps login_outcome_def)
next
  fix v b n net1
  assume no: "jtt_recv os (bu_sockfd u) (replicate (nat GPS_PKG_LEN) 0) GPS_PKG_LEN net = Some ((v, b, n), net1)" "v \<noteq> 0"
  obtain tm net2 where n2: "sys (os_time os) net1 = (tm, net2)" by force
  have k: "no_leak u net u net1" using jtt_recv_socks [OF no(1)] by (simp add: no_leak_same)
  have k2: "no_leak u net u net2" by (rule no_leak_sys [OF k n2]) simp
  show ?thesis using no n2 fail_login_ok [OF k2] k2 assms(4)
    by (simp add: login_requested_def Let_def round_ok_simps login_outcome_def)
qed

lemma login_round_ok:
  assumes "user_ok pu" "recv_bounded os" "long_packages os" "send_bounded os" "length (bu_passwd u) = 8" "offline_closed u"
    and "bu_online u \<in> {-1, 0, 1, 2, 3, 4}"
  shows "\<exists>r. login_round os (start, pu, u, net) = Some r \<and> round_ok pu u net r"
proof -
  consider "bu_online u = -1" | "bu_online u = 0" | "bu_online u = 1" | "bu_online u = 2" | "bu_online u = 3" | "bu_online u = 4"
    using assms(7) by blast
  then show ?thesis
  proof cases
    case 1
    then show ?thesis using assms(5,6) by (auto simp: login_round_def round_ok_def offline_closed_def no_leak_same)
  next
    case 2
    then show ?thesis using login_offline_ok [OF assms(5)] assms(6) by (simp add: login_round_def offline_closed_def)
  next
    case 3
    then show ?thesis using login_connecting_ok [OF assms(5)] by (simp add: login_round_def)
  next
    case 4
    then show ?thesis using login_connected_ok [OF assms(1,5,4)] by (simp add: login_round_def)
  next
    case 5
    then show ?thesis using login_requested_ok [OF assms(1-3)] by (simp add: login_round_def)
  next
    case 6
    then show ?thesis by (simp add: login_round_def round_ok_def login_outcome_def no_leak_same)
  qed
qed

lemma login_loop_ok:
  assumes "user_ok pu" "recv_bounded os" "long_packages os" "send_bounded os"
    and "length (bu_passwd u) = 8" "offline_closed u" "bu_online u \<in> {-1, 0, 1, 2, 3, 4}" "4 - bu_online u \<le> int i" "0 < i"
  shows "\<exists>ret pu' u' net'. login_loop i os (start, pu, u, net) = Some (ret, pu', u', net') \<and> login_outcome ret u' \<and> no_leak u net u' net'"
  using assms(1,5-)
proof (induction i arbitrary: start pu u net)
  case 0
  then show ?case by simp
next
  case (Suc i)
  obtain r where r: "login_round os (start, pu, u, net) = Some r" "round_ok pu u net r"
    using login_round_ok [OF Suc.prems(1) assms(2-4) Suc.prems(2-4)] by blast
  show ?case
  proof (cases r)
    case (Return y)
    then show ?thesis using r by (cases y) (auto simp: round_ok_def)
  next
    case (Again st)
    then obtain s' pu' u' n' where st: "st = (s', pu', u', n')" by (cases st)
    then have a: "bu_online u' = bu_online u + 1" "bu_online u < 3" "length (bu_passwd u') = 8" "offline_closed u'" "no_leak u net u' n'"
      using r(2) Again by (auto simp: round_ok_def)
    have "user_ok pu'" using r(2) Again st Suc.prems(1) by (auto simp: round_ok_def)
    moreover have "bu_online u' \<in> {-1, 0, 1, 2, 3, 4}" "4 - bu_online u' \<le> int i" "0 < i" using a(1,2) Suc.prems(4,5) by auto
    ultimately obtain ret pu'' u'' net' where l: "login_loop i os (s', pu', u', n') = Some (ret, pu'', u'', net')" "login_outcome ret u''"
      "no_leak u' n' u'' net'" using Suc.IH [of pu' u' s' n'] a(3,4) by blast
    then show ?thesis using r(1) Again st no_leak_trans [OF a(5)] by simp
  qed
qed

section \<open>Properties\<close>

text \<open>C19: logging in. Whatever connecting, sending, receiving and the clock do, as long as a piece the peer
  sends between delimiters holds at least a header and a checksum (\<open>long_packages\<close>; \<^verbatim>\<open>pkg_decode\<close> reads in
  front of its buffer otherwise, \<open>decode_short_package\<close>), and a user that is off line has no socket: one call of
  \<^verbatim>\<open>async_user_connect\<close> returns, with 0 only when the user is logged in, with 1 only in one of the waiting
  states, and with -1 only off line without a socket. Its five rounds are enough to go from start to
  logged in and are never used up on the way. No socket is leaked or closed twice: the socket the user had and those
  that were opened are those that were closed, in this order, and the one the user has now; so after
  -1 all of them are closed.\<close>

theorem async_login_outcome:
  assumes "user_ok pu" "recv_bounded os" "long_packages os" "send_bounded os" "length (bu_passwd u) = 8"
    and "bu_online u \<in> {-1, 0, 1, 2, 3, 4}" "bu_online u \<le> 0 \<longrightarrow> bu_sockfd u = -1"
  shows "\<exists>ret pu' u' net' new old. async_user_connect os pu u net = Some (ret, pu', u', net')
    \<and> ((ret = 0 \<and> async_user_is_online u' = 1) \<or> (ret = 1 \<and> bu_online u' \<in> {0, 1, 3})
       \<or> (ret = -1 \<and> bu_online u' = 0 \<and> bu_sockfd u' = -1))
    \<and> nt_opened net' = nt_opened net @ new \<and> nt_closed net' = nt_closed net @ old
    \<and> (if bu_sockfd u = -1 then [] else [bu_sockfd u]) @ new = old @ (if bu_sockfd u' = -1 then [] else [bu_sockfd u'])"
proof -
  have "4 - bu_online u \<le> int 5" "offline_closed u" using assms(6,7) by (auto simp: offline_closed_def)
  then obtain ret pu' u' net' where o: "login_loop 5 os (False, pu, u, net) = Some (ret, pu', u', net')"
      "login_outcome ret u'" "no_leak u net u' net'"
    using login_loop_ok [OF assms(1-5) _ assms(6)] by (metis zero_less_numeral)
  from o(3) obtain new old where n: "nt_opened net' = nt_opened net @ new" "nt_closed net' = nt_closed net @ old"
    "owned u @ new = old @ owned u'" unfolding no_leak_def by blast
  have "(ret = 0 \<and> async_user_is_online u' = 1) \<or> (ret = 1 \<and> bu_online u' \<in> {0, 1, 3})
      \<or> (ret = -1 \<and> bu_online u' = 0 \<and> bu_sockfd u' = -1)"
    using o(2) by (auto simp: login_outcome_def async_user_is_online_def)
  then show ?thesis using o(1) n unfolding async_user_connect_def owned_def by blast
qed

text \<open>A system on which every call succeeds and the clock stands still; its state counts the calls
  of \<^verbatim>\<open>recv\<close>, which answer with the package the peer sends.\<close>

definition answer_user :: pkg_user where
  "answer_user = demo_user\<lparr>pu_encrypt := 0\<rparr>"

definition answer_body :: pkg_body where
  "answer_body = \<lparr>pb_msg_id = 0x1002, pb_body = Some [0, 0, 0, 0, 1], pb_blen = 5\<rparr>"

definition login_answer :: bytes where
  "login_answer = HEAD_FLAG # escape_all (inner answer_user 0 answer_body [0, 0, 0, 0, 1]) @ [END_FLAG]"

definition demo_os :: "nat os" where
  "demo_os = \<lparr>os_calloc = (\<lambda>n. (True, n)), os_rand = (\<lambda>n. (9, n)), os_time = (\<lambda>n. (100, n)), os_select_w = (\<lambda>_ n. (1, n)),
     os_select_r = (\<lambda>_ n. (1, n)), os_send = (\<lambda>_ bs n. ((int (length bs), False), n)),
     os_recv = (\<lambda>_ len n. if len < int (length login_answer) then ((-1, []), n) else ((int (length login_answer), login_answer), Suc n)), os_so_error = (\<lambda>_ n. (0, n)),
     os_gethostbyname = (\<lambda>ip n. (Some ip, n)), os_socket = (\<lambda>n. (3, n)), os_connect = (\<lambda>_ _ _ n. ((0, False), n)), os_close = (\<lambda>_ n. n)\<rparr>"

definition demo_peer :: body_user where
  "demo_peer = \<lparr>bu_online = -1, bu_conn_time = 0, bu_logon_time = 0, bu_logout_time = 0, bu_sd_space = (0, 0), bu_last_space = (0, 0),
     bu_srv_id = [0], bu_heart_cnt = 0, bu_ip = [0x31, 0], bu_port = 80, bu_sockfd = -1, bu_uid = 5, bu_passwd = replicate 8 0x61\<rparr>"

lemma answer_user_ok: "user_ok answer_user"
  by (simp add: answer_user_def user_ok_def demo_user_def HEAD_FLAG_def END_FLAG_def)

lemma pkg_decode_answer: "pkg_decode demo_user m n = pkg_decode answer_user m n"
  by (simp add: pkg_decode_def answer_user_def)

lemma length_login_answer: "length login_answer \<le> 60"
  using length_escape_all_le [of "inner answer_user 0 answer_body [0, 0, 0, 0, 1]"]
    length_inner [OF answer_user_ok, of 0 answer_body "[0, 0, 0, 0, 1]"]
  by (simp add: login_answer_def)

lemma unescaped_length_escape: "unescaped_length (escape_all xs) = length xs"
proof (induction xs)
  case (Cons x xs)
  then show ?case by (cases x rule: escape_cases) (auto simp: escape_all_def)
qed (simp add: escape_all_def)

lemma demo_os_ok: "recv_bounded demo_os" "long_packages demo_os" "send_bounded demo_os"
proof -
  have "long_enough login_answer"
    using length_inner [OF answer_user_ok, of 0 answer_body "[0, 0, 0, 0, 1]"]
    by (simp add: long_enough_def login_answer_def butlast_append unescaped_length_escape)
  then show "long_packages demo_os" by (simp add: long_packages_def demo_os_def)
  show "send_bounded demo_os" by (simp add: send_bounded_def demo_os_def)
  show "recv_bounded demo_os" by (simp add: recv_bounded_def demo_os_def)
qed

theorem async_login_outcome_witness:
  "\<exists>ret pu' u' net' new old. async_user_connect demo_os demo_user demo_peer \<lparr>nt_os = 0, nt_sent = (\<lambda>_. []), nt_opened = [], nt_closed = []\<rparr>
      = Some (ret, pu', u', net')
    \<and> ((ret = 0 \<and> async_user_is_online u' = 1) \<or> (ret = 1 \<and> bu_online u' \<in> {0, 1, 3})
       \<or> (ret = -1 \<and> bu_online u' = 0 \<and> bu_sockfd u' = -1))
    \<and> nt_opened net' = new \<and> nt_closed net' = old \<and> new = old @ (if bu_sockfd u' = -1 then [] else [bu_sockfd u'])"
  using async_login_outcome [OF demo_user_ok(1) demo_os_ok, of demo_peer "\<lparr>nt_os = 0, nt_sent = (\<lambda>_. []), nt_opened = [], nt_closed = []\<rparr>"]
  by (simp add: demo_peer_def)

text \<open>C27: sending. Whatever the socket does, \<^verbatim>\<open>jtt_send\<close> returns 0, -1 or -2; the bytes the socket has
  accepted of the message are a prefix of it, nothing is sent twice, and a return of 0 means
  the whole message was accepted. Other sockets are not touched.\<close>

theorem jtt_send_prefix:
  assumes "send_bounded os" "0 \<le> len" "len \<le> int (length buf)"
  shows "\<exists>r net' k. jtt_send os fd buf len net = Some (r, net') \<and> k \<le> nat len
    \<and> nt_sent net' fd = nt_sent net fd @ take k buf \<and> (\<forall>fd'. fd' \<noteq> fd \<longrightarrow> nt_sent net' fd' = nt_sent net fd')
    \<and> r \<in> {0, -1, -2} \<and> (r = 0 \<longrightarrow> k = nat len)"
  using sendn_loop_prefix [OF assms(1,3,2) order_refl, where base = "nt_sent net fd" and other = "nt_sent net" and net = net and fd = fd
      and tms = OUT_WR_TRY_TIMES]
  by (fastforce simp: jtt_send_def sendn_def)

theorem jtt_send_prefix_witness:
  "\<exists>r net' k. jtt_send demo_os 3 [1, 2, 3] 3 \<lparr>nt_os = 0, nt_sent = (\<lambda>_. [9]), nt_opened = [], nt_closed = []\<rparr> = Some (r, net') \<and> k \<le> nat 3
    \<and> nt_sent net' 3 = nt_sent \<lparr>nt_os = 0::nat, nt_sent = (\<lambda>_. [9]), nt_opened = [], nt_closed = []\<rparr> 3 @ take k [1, 2, 3]
    \<and> (\<forall>fd'. fd' \<noteq> 3 \<longrightarrow> nt_sent net' fd' = nt_sent \<lparr>nt_os = 0::nat, nt_sent = (\<lambda>_. [9]), nt_opened = [], nt_closed = []\<rparr> fd')
    \<and> r \<in> {0, -1, -2} \<and> (r = 0 \<longrightarrow> k = nat 3)"
  by (rule jtt_send_prefix [OF demo_os_ok(3)]) simp_all

lemma jtt_recv_code: "jtt_recv os fd buf n net = Some ((v, m, k), net1) \<Longrightarrow> v = 0 \<or> v = -1 \<or> v = -2"
  by (auto simp: jtt_recv_def split: bind_split_asm if_splits)

lemma heart_answer_count:
  assumes "jtt_recv os (bu_sockfd bu) (replicate (nat GPS_PKG_LEN) 0) GPS_PKG_LEN net = Some ((v, m, k), net1)"
  shows "\<exists>go net2. heart_answer os bu net = Some ((go, bu\<lparr>bu_heart_cnt :=
      (if bu_heart_cnt bu = 0 \<or> v = 0 then 1 else if bu_heart_cnt bu = HEART_COUNT then 0 else bu_heart_cnt bu + 1)\<rparr>), net2)
    \<and> (go \<longleftrightarrow> \<not> (bu_heart_cnt bu = HEART_COUNT \<and> v \<noteq> 0))"
  using assms jtt_recv_code [OF assms] by (auto simp: heart_answer_def HEART_COUNT_def)

text \<open>heartbeats. \<^verbatim>\<open>jtt_heart\<close> always returns 0 or -1. An answer received (\<open>v = 0\<close>) sets the count of unanswered
  heartbeats to one, a failed receive adds one; it never exceeds 3: at the third failure in a
  row the link is given up. A call that fails leaves the count at 0, ready for the next connection.\<close>

lemma jtt_heart_count:
  assumes "user_ok pu" "send_bounded os" "0 \<le> bu_heart_cnt bu" "bu_heart_cnt bu \<le> HEART_COUNT"
    and "jtt_recv os (bu_sockfd bu) (replicate (nat GPS_PKG_LEN) 0) GPS_PKG_LEN net = Some ((v, m, k), net1)"
  shows "\<exists>ret pu' bu' net'. jtt_heart os pu bu net = Some ((ret, pu', bu'), net') \<and> ret \<in> {0, -1}
    \<and> (ret = -1 \<longrightarrow> bu_heart_cnt bu' = 0)
    \<and> (ret = 0 \<longrightarrow> bu_heart_cnt bu' = (if bu_heart_cnt bu = 0 \<or> v = 0 then 1 else bu_heart_cnt bu + 1) \<and> bu_heart_cnt bu' \<le> HEART_COUNT)
    \<and> (bu_heart_cnt bu = HEART_COUNT \<and> v \<noteq> 0 \<longrightarrow> ret = -1)"
proof -
  let ?bu = "bu\<lparr>bu_heart_cnt := (if bu_heart_cnt bu = 0 \<or> v = 0 then 1 else if bu_heart_cnt bu = HEART_COUNT then 0 else bu_heart_cnt bu + 1)\<rparr>"
  let ?b = "\<lparr>pb_msg_id = UP_LINKTEST_REQ, pb_body = Some [], pb_blen = 0\<rparr>"
  obtain go net2 where h: "heart_answer os bu net = Some ((go, ?bu), net2)" "go \<longleftrightarrow> \<not> (bu_heart_cnt bu = HEART_COUNT \<and> v \<noteq> 0)"
    using heart_answer_count [OF assms(5)] by blast
  obtain pkg plen r net3 where e: "encode_fresh os pu ?b net2 = Some ((pkg, plen, pu\<lparr>pu_msg_sz := pu_msg_sz pu + 1\<rparr>, r), net3)"
      "0 \<le> plen" "plen \<le> int (length pkg)"
    using encode_fresh_total [OF assms(1), of ?b "[]" os net2] by (auto simp: body_of_def)
  obtain r2 net4 where s: "jtt_send os (bu_sockfd ?bu) pkg plen net3 = Some (r2, net4)" using jtt_send_total [OF assms(2) e(2,3)] by blast
  show ?thesis
  proof (cases go)
    case False
    then show ?thesis using h by (auto simp: jtt_heart_def HEART_COUNT_def)
  next
    case True
    then show ?thesis using h e(1) s assms(3,4) by (simp add: jtt_heart_def) (auto simp: HEART_COUNT_def)
  qed
qed

lemma demo_recv:
  "\<exists>m k net1. jtt_recv demo_os 3 (replicate (nat GPS_PKG_LEN) 0) GPS_PKG_LEN net = Some ((0, m, k), net1)"
  using length_login_answer
  by (auto simp: jtt_recv_def recvn_def demo_os_def sys_def mwrites_def GPS_PKG_LEN_def login_answer_def)

lemma jtt_heart_count_witness:
  "\<exists>ret pu' bu' net'. jtt_heart demo_os demo_user (demo_peer\<lparr>bu_heart_cnt := 2, bu_sockfd := 3\<rparr>) \<lparr>nt_os = 0, nt_sent = (\<lambda>_. []), nt_opened = [], nt_closed = []\<rparr>
      = Some ((ret, pu', bu'), net') \<and> ret \<in> {0, -1} \<and> (ret = 0 \<longrightarrow> bu_heart_cnt bu' = 1)"
proof -
  let ?bu = "demo_peer\<lparr>bu_heart_cnt := 2, bu_sockfd := 3\<rparr>"
  obtain m k net1 where "jtt_recv demo_os (bu_sockfd ?bu) (replicate (nat GPS_PKG_LEN) 0) GPS_PKG_LEN \<lparr>nt_os = 0, nt_sent = (\<lambda>_. []), nt_opened = [], nt_closed = []\<rparr>
      = Some ((0, m, k), net1)" using demo_recv [of "\<lparr>nt_os = 0, nt_sent = (\<lambda>_. []), nt_opened = [], nt_closed = []\<rparr>"] by auto
  from jtt_heart_count [OF demo_user_ok(1) demo_os_ok(3) _ _ this] show ?thesis by (fastforce simp: HEART_COUNT_def)
qed

lemma extra_loop_cong:
  "list_all2 (\<lambda>a b. gps_body a state = gps_body b state) gps hs \<Longrightarrow>
   extra_loop buf hlen gps state len i n = extra_loop buf hlen hs state len i n"
proof (induction n arbitrary: buf len i)
  case (Suc n)
  show ?case
  proof (cases "i < length gps")
    case True
    then have "gps_body (gps ! i) state = gps_body (hs ! i) state" "length gps = length hs"
      using Suc.prems by (auto simp: list_all2_conv_all_nth)
    then show ?thesis using Suc.IH [OF Suc.prems] True by (simp add: mread_def)
  next
    case False
    then show ?thesis using Suc.prems by (simp add: mread_def list_all2_lengthD)
  qed
qed simp

text \<open>supplementary points lose their state. In a supplementary message every point
  carries the state of the first point: lists of points that agree on their first point and
  differ only in the states of the others are packed into the same bytes.\<close>

theorem extra_state_lost:
  assumes "map (\<lambda>g. g\<lparr>gp_state := 0\<rparr>) gps = map (\<lambda>g. g\<lparr>gp_state := 0\<rparr>) hs" "gps = g # gs" "hs = g # hs'"
  shows "body_extra_gps_set buf hlen gps n = body_extra_gps_set buf hlen hs n"
proof -
  have b: "gps_body x st = gps_body y st" if "x\<lparr>gp_state := 0\<rparr> = y\<lparr>gp_state := 0\<rparr>" for x y st
  proof -
    have "gps_body (x\<lparr>gp_state := 0\<rparr>) st = gps_body (y\<lparr>gp_state := 0\<rparr>) st" using that by simp
    then show ?thesis by (simp add: gps_body_def)
  qed
  have "list_all2 (\<lambda>a b. gps_body a st = gps_body b st) gps hs" for st
  proof (rule list_all2_all_nthI)
    show len: "length gps = length hs" using assms(1) by (rule map_eq_imp_length_eq)
    fix i assume "i < length gps"
    then have "map (\<lambda>g. g\<lparr>gp_state := 0\<rparr>) gps ! i = map (\<lambda>g. g\<lparr>gp_state := 0\<rparr>) hs ! i" "i < length hs" using assms(1) len by simp_all
    then have "(gps ! i)\<lparr>gp_state := 0\<rparr> = (hs ! i)\<lparr>gp_state := 0\<rparr>" using \<open>i < length gps\<close> by simp
    then show "gps_body (gps ! i) st = gps_body (hs ! i) st" by (rule b)
  qed
  then have "extra_loop bf hlen gps (gp_state g) len 0 k = extra_loop bf hlen hs (gp_state g) len 0 k" for bf len k
    by (rule extra_loop_cong)
  moreover have "mread gps 0 = Some g" "mread hs 0 = Some g" by (simp_all add: assms(2,3) mread_def)
  ultimately show ?thesis unfolding body_extra_gps_set_def by (simp only: Option.bind.bind_lunit)
qed

definition demo_point :: body_gps where
  "demo_point = \<lparr>gp_imei = replicate 15 0x31 @ [0], gp_date = [1, 2, 7, 223], gp_time = [1, 2, 3], gp_lon = 1, gp_lat = 2,
     gp_vec1 = 3, gp_direction = 4, gp_altitude = 5, gp_state = 6\<rparr>"

theorem extra_state_lost_witness:
  "body_extra_gps_set (replicate 300 0) 300 [demo_point, demo_point] 2
    = body_extra_gps_set (replicate 300 0) 300 [demo_point, demo_point\<lparr>gp_state := 7\<rparr>] 2"
  by (rule extra_state_lost) simp_all

end
