(* ===== verification/Xmq_Store.thy ===== *)
theory Xmq_Store
  imports Supex_Prelude
begin

text \<open>
  The lower layer of \<^verbatim>\<open>lib/libmixmq\<close>: messages (\<^verbatim>\<open>xmq_msg.c\<close>), the comma separated
  name lists (\<^verbatim>\<open>xmq_csv.c\<close>), the storage callbacks an application hands to a context
  and the LevelDB driver that implements them (\<^verbatim>\<open>app_demo/ldb_cb.c\<close>).

  A C string is the list of its bytes without the terminator. LevelDB itself is not
  part of the repository: its calls are the fields of the record \<open>leveldb\<close>, and what
  its documentation promises of them is the locale \<open>leveldb_api\<close>. The locale
  \<open>kv_store\<close> is what the queue relies on; a sublocale proves it for the driver.
\<close>

section \<open>Strings\<close>

definition cstr :: "string \<Rightarrow> bytes" where
  "cstr s = map of_char s"

definition comma :: byte where
  "comma = 0x2C"

text \<open>The string a pointer into \<open>bin\<close> denotes; with no terminator the read runs on.\<close>

definition c_string :: "bytes \<Rightarrow> bytes option" where
  "c_string bin = (if 0 \<in> set bin then Some (takeWhile (\<lambda>b. b \<noteq> 0) bin) else None)"

text \<open>\<^verbatim>\<open>!strncmp(a, b, strlen(b) + 1)\<close>\<close>

definition same_name :: "bytes \<Rightarrow> bytes \<Rightarrow> bool" where
  "same_name a b \<longleftrightarrow> take (length b + 1) (a @ [0]) = b @ [0]"

section \<open>Messages\<close>

record xmq_msg =
  msg_index :: u64
  msg_len :: u64
  msg_data :: bytes

definition MSG_HEAD_SIZE :: u64 where
  "MSG_HEAD_SIZE = 16"

definition xmq_msg_total_size :: "xmq_msg \<Rightarrow> u64" where
  "xmq_msg_total_size m = MSG_HEAD_SIZE + msg_len m"

text \<open>\<open>Some None\<close> is the null pointer; \<open>None\<close> a write of the header outside its block,
  which happens when \<^verbatim>\<open>size + MSG_HEAD_SIZE\<close> wraps around.\<close>

definition xmq_msg_new_size :: "bool \<Rightarrow> u64 \<Rightarrow> xmq_msg option option" where
  "xmq_msg_new_size ok sz = (let block = unat (sz + MSG_HEAD_SIZE) in
     if \<not> ok then Some None
     else if block < 16 then None
     else Some (Some \<lparr>msg_index = 0, msg_len = sz, msg_data = replicate (block - 16) 0\<rparr>))"

definition xmq_msg_new_data :: "bool \<Rightarrow> bytes option \<Rightarrow> u64 \<Rightarrow> xmq_msg option option" where
  "xmq_msg_new_data ok d sz =
     (case d of
        None \<Rightarrow> Some None
      | Some src \<Rightarrow>
          if sz = 0 then Some None
          else do {
            m \<leftarrow> xmq_msg_new_size ok sz;
            case m of
              None \<Rightarrow> Some None
            | Some msg \<Rightarrow> do {
                bs \<leftarrow> mreads src 0 (int (unat sz));
                dst \<leftarrow> mwrites (msg_data msg) 0 bs;
                Some (Some (msg\<lparr>msg_data := dst\<rparr>)) } })"

definition xmq_msg_dup :: "bool \<Rightarrow> xmq_msg option \<Rightarrow> xmq_msg option option" where
  "xmq_msg_dup ok src =
     (case src of None \<Rightarrow> Some None | Some m \<Rightarrow> xmq_msg_new_data ok (Some (msg_data m)) (msg_len m))"

definition xmq_msg_set_index :: "xmq_msg \<Rightarrow> u64 \<Rightarrow> u64 \<times> xmq_msg" where
  "xmq_msg_set_index m i = (msg_index m, m\<lparr>msg_index := i\<rparr>)"

text \<open>The memory of a message on a little-endian machine, and a message read from memory.\<close>

definition msg_bytes :: "xmq_msg \<Rightarrow> bytes" where
  "msg_bytes m = le64 (msg_index m) @ le64 (msg_len m) @ msg_data m"

definition msg_at :: "bytes \<Rightarrow> xmq_msg option" where
  "msg_at bin = do {
     i \<leftarrow> of_le64 (take 8 bin);
     l \<leftarrow> of_le64 (take 8 (drop 8 bin));
     Some \<lparr>msg_index = i, msg_len = l, msg_data = drop 16 bin\<rparr> }"

text \<open>The entry \<^verbatim>\<open>set_bin_entry\<close> makes of a message: its length is cut to 32 bits.\<close>

definition msg_entry :: "xmq_msg \<Rightarrow> bytes" where
  "msg_entry m = take (unat (ucast (xmq_msg_total_size m) :: u32)) (msg_bytes m)"

definition msg_wf :: "xmq_msg \<Rightarrow> bool" where
  "msg_wf m \<longleftrightarrow> length (msg_data m) = unat (msg_len m) \<and> length (msg_data m) + 16 < 2 ^ 32"

section \<open>Comma separated names\<close>

text \<open>A field is a position in the parsed string (or the null pointer) and a length.\<close>

record csv_field =
  f_ptr :: "nat option"
  f_len :: nat

record csv_parser =
  csv_string :: "bytes option"
  csv_fields :: "csv_field list option"
  csv_count :: nat

definition FIELD_MAX_LEN :: nat where
  "FIELD_MAX_LEN = 256"

primrec number_of_char :: "bytes \<Rightarrow> byte \<Rightarrow> nat" where
  "number_of_char [] c = 0"
| "number_of_char (b # bs) c = (if b = c then 1 else 0) + number_of_char bs c"

text \<open>\<^verbatim>\<open>strchr\<close> as a distance.\<close>

primrec strchr :: "bytes \<Rightarrow> byte \<Rightarrow> nat option" where
  "strchr [] c = None"
| "strchr (b # bs) c = (if b = c then Some 0 else map_option Suc (strchr bs c))"

lemma strchr_less: "strchr s c = Some l \<Longrightarrow> l < length s"
  by (induction s arbitrary: l) (auto split: if_splits)

text \<open>The do-while loop from position \<open>pos\<close>, with the fields found so far; \<open>None\<close> is
  the return of \<^verbatim>\<open>-1\<close>.\<close>

function csv_loop :: "bytes \<Rightarrow> nat \<Rightarrow> csv_field list \<Rightarrow> csv_field list option" where
  "csv_loop s pos acc =
     (if pos < length s \<and> s ! pos = comma then
        (let acc' = acc @ [\<lparr>f_ptr = None, f_len = 0\<rparr>] in
         if pos + 1 < length s then csv_loop s (pos + 1) acc' else Some acc')
      else (case strchr (drop pos s) comma of
          None \<Rightarrow> None
        | Some l \<Rightarrow>
            if l \<ge> FIELD_MAX_LEN then None
            else (let acc' = acc @ [\<lparr>f_ptr = Some pos, f_len = l\<rparr>] in
              if pos + l + 1 < length s then csv_loop s (pos + l + 1) acc' else Some acc')))"
  by pat_completeness auto
termination by (relation "measure (\<lambda>(s, pos, acc). length s - pos)") auto

declare csv_loop.simps [simp del]

definition xmq_csv_parser_init :: csv_parser where
  "xmq_csv_parser_init = \<lparr>csv_string = None, csv_fields = None, csv_count = 0\<rparr>"

definition csv_parse :: "bool \<Rightarrow> csv_parser \<Rightarrow> int \<times> csv_parser" where
  "csv_parse ok csv =
     (case csv_string csv of
        None \<Rightarrow> (0, xmq_csv_parser_init)
      | Some s \<Rightarrow>
          if \<not> ok then (0, csv)
          else (case csv_loop s 0 [] of
              None \<Rightarrow> (-1, csv\<lparr>csv_fields := None, csv_count := 0\<rparr>)
            | Some fs \<Rightarrow> (int (length fs), csv\<lparr>csv_fields := Some fs, csv_count := length fs\<rparr>)))"

text \<open>\<open>dup_ok\<close> and \<open>ok\<close>: whether \<^verbatim>\<open>strdup\<close> and the allocation of the fields succeed.\<close>

definition xmq_csv_parse_string :: "bool \<Rightarrow> bool \<Rightarrow> csv_parser \<Rightarrow> bytes \<Rightarrow> int \<times> csv_parser" where
  "xmq_csv_parse_string dup_ok ok csv str =
     (if dup_ok then csv_parse ok (csv\<lparr>csv_string := Some str\<rparr>)
      else (-1, csv\<lparr>csv_string := None\<rparr>))"

definition xmq_csv_parser_destroy :: "csv_parser \<Rightarrow> csv_parser" where
  "xmq_csv_parser_destroy csv = csv\<lparr>csv_string := None, csv_fields := None, csv_count := 0\<rparr>"

text \<open>\<^verbatim>\<open>snprintf(buf, len + 1, "%s", ptr)\<close>: the string at the field's position, cut to its
  length; the null pointer of an empty field is undefined.\<close>

definition xmq_csv_field_to_string :: "bool \<Rightarrow> csv_parser \<Rightarrow> csv_field \<Rightarrow> bytes option option" where
  "xmq_csv_field_to_string ok csv f =
     (if \<not> ok then Some None
      else do {
        s \<leftarrow> csv_string csv;
        p \<leftarrow> f_ptr f;
        Some (Some (take (f_len f) (drop p s))) })"

text \<open>\<^verbatim>\<open>strncpy(name, ptr, 256); name[min(256, len)] = 0\<close> as in \<^verbatim>\<open>__csv_to_list\<close>: 256 bytes of
  the rest of the string, then a terminator, which for a length of 256 lies behind the
  array.\<close>

definition field_name :: "csv_parser \<Rightarrow> csv_field \<Rightarrow> bytes option" where
  "field_name csv f = do {
     s \<leftarrow> csv_string csv;
     p \<leftarrow> f_ptr f;
     asserting (min 256 (f_len f) < 256);
     Some (take (min 256 (f_len f)) (take 256 (drop p s))) }"

section \<open>The storage callbacks\<close>

type_synonym 'd put_KVs_fn = "'d \<Rightarrow> (bytes \<times> bytes) list \<Rightarrow> int \<times> 'd"
type_synonym 'd get_KVs_fn = "'d \<Rightarrow> bytes list \<Rightarrow> int \<times> bytes option list"
type_synonym 'd pvt_free_fn = "'d \<Rightarrow> int \<times> 'd"

definition put_all :: "(bytes \<times> bytes) list \<Rightarrow> (bytes \<rightharpoonup> bytes) \<Rightarrow> (bytes \<rightharpoonup> bytes)" where
  "put_all kvs m = fold (\<lambda>(k, v) m. m(k \<mapsto> v)) kvs m"

text \<open>What a context needs of its callbacks, over the key-value pairs \<open>view\<close> sees in the
  storage: a put stores all its pairs and returns 0, or stores none and returns -1; a get
  returns the stored values, or -1.\<close>

locale kv_store =
  fixes view :: "'d \<Rightarrow> bytes \<rightharpoonup> bytes"
    and put :: "'d put_KVs_fn"
    and get :: "'d get_KVs_fn"
  assumes put_stores: "put d kvs = (0, d') \<Longrightarrow> view d' = put_all kvs (view d)"
    and put_fails: "put d kvs = (r, d') \<Longrightarrow> r \<noteq> 0 \<Longrightarrow> r = -1 \<and> view d' = view d"
    and get_result: "get d ks = (r, vs) \<Longrightarrow> r = 0 \<and> vs = map (view d) ks \<or> r = -1"
begin

lemma get_one: "get d [k] = (r, vs) \<Longrightarrow> r \<noteq> -1 \<Longrightarrow> r = 0 \<and> vs = [view d k]"
  using get_result [of d "[k]" r vs] by auto

lemma put_one: "put d [(k, v)] = (0, d') \<Longrightarrow> view d' = (view d)(k \<mapsto> v)"
  using put_stores [of d "[(k, v)]" d'] by (simp add: put_all_def)

lemma put_get_one:
  "put d [(k, v)] = (0, d') \<Longrightarrow> get d' [k'] = (r, vs) \<Longrightarrow> r \<noteq> -1 \<Longrightarrow>
   vs = [if k' = k then Some v else view d k']"
  using put_one get_one by fastforce

end

text \<open>A storage none of whose calls fails.\<close>

locale reliable_store = kv_store +
  assumes put_ok: "kvs \<noteq> [] \<Longrightarrow> fst (put d kvs) = 0"
    and get_ok: "fst (get d ks) = 0"
begin

lemma get_reads: "get d ks = (0, map (view d) ks)"
  using get_ok [of d ks] get_result [of d ks] by (metis eq_fst_iff fst_conv zero_neq_neg_one)

lemma put_does: "kvs \<noteq> [] \<Longrightarrow> \<exists>d'. put d kvs = (0, d') \<and> view d' = put_all kvs (view d)"
  using put_ok [of kvs d] put_stores [of d kvs] by (metis prod.collapse)

end

section \<open>The LevelDB driver\<close>

text \<open>The calls of \<^verbatim>\<open>leveldb/c.h\<close> the driver uses; the boolean is whether \<^verbatim>\<open>*errptr\<close> is set.\<close>

record 'd leveldb =
  leveldb_put :: "'d \<Rightarrow> bytes \<Rightarrow> bytes \<Rightarrow> bool \<times> 'd"
  leveldb_writebatch_create :: "'d \<Rightarrow> bool"
  leveldb_write :: "'d \<Rightarrow> (bytes \<times> bytes) list \<Rightarrow> bool \<times> 'd"
  leveldb_get :: "'d \<Rightarrow> bytes \<Rightarrow> bool \<times> bytes option"

definition driver_ldb_put :: "'d leveldb \<Rightarrow> 'd put_KVs_fn" where
  "driver_ldb_put L d kvs =
     (case kvs of
        [] \<Rightarrow> (-1, d)
      | [(k, v)] \<Rightarrow> (case leveldb_put L d k v of (err, d') \<Rightarrow> (if err then -1 else 0, d'))
      | _ \<Rightarrow>
          if \<not> leveldb_writebatch_create L d then (-1, d)
          else (case leveldb_write L d kvs of (err, d') \<Rightarrow> (if err then -1 else 0, d')))"

primrec ldb_get_loop :: "'d leveldb \<Rightarrow> 'd \<Rightarrow> bytes list \<Rightarrow> bytes option list \<Rightarrow> int \<times> bytes option list" where
  "ldb_get_loop L d [] vs = (0, vs)"
| "ldb_get_loop L d (k # ks) vs =
     (case leveldb_get L d k of (err, v) \<Rightarrow>
        if err then (-1, []) else ldb_get_loop L d ks (vs @ [v]))"

definition driver_ldb_get :: "'d leveldb \<Rightarrow> 'd get_KVs_fn" where
  "driver_ldb_get L d ks = ldb_get_loop L d ks []"

text \<open>LevelDB's promise: a put or a write batch that reports no error is visible as a
  whole, one that reports an error is not visible, a get that reports no error returns the
  value last stored.\<close>

locale leveldb_api =
  fixes L :: "'d leveldb"
    and view :: "'d \<Rightarrow> bytes \<rightharpoonup> bytes"
  assumes ldb_put: "leveldb_put L d k v = (err, d') \<Longrightarrow>
      view d' = (if err then view d else (view d)(k \<mapsto> v))"
    and ldb_write: "leveldb_write L d kvs = (err, d') \<Longrightarrow>
      view d' = (if err then view d else put_all kvs (view d))"
    and ldb_get: "leveldb_get L d k = (False, res) \<Longrightarrow> res = view d k"
begin

lemma ldb_get_loop_values:
  "ldb_get_loop L d ks acc = (r, vs) \<Longrightarrow> r = 0 \<and> vs = acc @ map (view d) ks \<or> r = -1"
proof (induction ks arbitrary: acc)
  case Nil
  then show ?case by simp
next
  case (Cons k ks)
  obtain err v where v: "leveldb_get L d k = (err, v)" by fastforce
  show ?case
    using Cons.IH [of "acc @ [v]"] Cons.prems v ldb_get [of d k v] by (cases err) auto
qed

end

sublocale leveldb_api \<subseteq> kv_store view "driver_ldb_put L" "driver_ldb_get L"
proof
  fix d d' kvs
  show "driver_ldb_put L d kvs = (0, d') \<Longrightarrow> view d' = put_all kvs (view d)"
    by (auto simp: driver_ldb_put_def put_all_def split: list.splits prod.splits if_splits
        dest: ldb_put ldb_write)
next
  fix d r d' kvs
  show "driver_ldb_put L d kvs = (r, d') \<Longrightarrow> r \<noteq> 0 \<Longrightarrow> r = -1 \<and> view d' = view d"
    by (auto simp: driver_ldb_put_def split: list.splits prod.splits if_splits
        dest: ldb_put ldb_write)
next
  fix d ks r vs
  show "driver_ldb_get L d ks = (r, vs) \<Longrightarrow> r = 0 \<and> vs = map (view d) ks \<or> r = -1"
    using ldb_get_loop_values [of d ks "[]"] by (simp add: driver_ldb_get_def)
qed

text \<open>A database none of whose calls reports an error gives a storage that does not fail.\<close>

locale leveldb_healthy = leveldb_api +
  assumes no_put_error: "\<not> fst (leveldb_put L d k v)"
    and no_batch_error: "leveldb_writebatch_create L d"
    and no_write_error: "\<not> fst (leveldb_write L d kvs)"
    and no_get_error: "\<not> fst (leveldb_get L d k)"
begin

lemma ldb_get_loop_ok: "fst (ldb_get_loop L d ks acc) = 0"
  using no_get_error by (induction ks arbitrary: acc) (auto simp: case_prod_beta)

end

sublocale leveldb_healthy \<subseteq> reliable_store view "driver_ldb_put L" "driver_ldb_get L"
proof
  fix kvs :: "(bytes \<times> bytes) list" and d
  show "kvs \<noteq> [] \<Longrightarrow> fst (driver_ldb_put L d kvs) = 0"
    using no_put_error no_batch_error no_write_error
    by (auto simp: driver_ldb_put_def case_prod_beta split: list.splits)
next
  fix d ks
  show "fst (driver_ldb_get L d ks) = 0"
    by (simp add: driver_ldb_get_def ldb_get_loop_ok)
qed

text \<open>A table in memory that never fails.\<close>

definition mem_leveldb :: "(bytes \<times> bytes) list leveldb" where
  "mem_leveldb = \<lparr>
     leveldb_put = (\<lambda>d k v. (False, (k, v) # d)),
     leveldb_writebatch_create = (\<lambda>_. True),
     leveldb_write = (\<lambda>d kvs. (False, rev kvs @ d)),
     leveldb_get = (\<lambda>d k. (False, map_of d k))\<rparr>"

lemma put_all_map_of: "put_all kvs (map_of d) = map_of (rev kvs @ d)"
  unfolding put_all_def
proof (induction kvs arbitrary: d)
  case Nil
  show ?case by simp
next
  case (Cons kv kvs)
  have "(map_of d)(fst kv \<mapsto> snd kv) = map_of (kv # d)" by simp
  then show ?case using Cons.IH [of "kv # d"] by (simp add: case_prod_beta)
qed

interpretation mem_ldb: leveldb_healthy mem_leveldb map_of
  by unfold_locales (auto simp: mem_leveldb_def put_all_map_of)

section \<open>Opening and closing the database\<close>

text \<open>Handles of the driver, and what the creating calls return.\<close>

datatype ldb_handle = Block | Options | Read_Options | Write_Options | Database

record ldb_pvt =
  pvt_options :: bool
  pvt_roptions :: bool
  pvt_woptions :: bool
  pvt_db :: bool

definition ldb_pvt_destroy :: "ldb_handle list \<Rightarrow> ldb_pvt \<Rightarrow> ldb_handle list" where
  "ldb_pvt_destroy live p =
     (let live = if pvt_db p then remove1 Database live else live;
          live = if pvt_woptions p then remove1 Write_Options live else live;
          live = if pvt_roptions p then remove1 Read_Options live else live;
          live = if pvt_options p then remove1 Options live else live
      in remove1 Block live)"

text \<open>\<open>ok h\<close>: whether the call that creates \<open>h\<close> succeeds; the list is the handles alive.\<close>

definition ldb_pvt_create ::
  "(ldb_handle \<Rightarrow> bool) \<Rightarrow> ldb_handle list \<Rightarrow> ldb_pvt option \<times> ldb_handle list" where
  "ldb_pvt_create ok live =
     (let p = \<lparr>pvt_options = False, pvt_roptions = False, pvt_woptions = False, pvt_db = False\<rparr> in
      if \<not> ok Block then (None, live)
      else let live = Block # live in
      if \<not> ok Options then (None, ldb_pvt_destroy live p)
      else let p = p\<lparr>pvt_options := True\<rparr>; live = Options # live in
      if \<not> ok Read_Options then (None, ldb_pvt_destroy live p)
      else let p = p\<lparr>pvt_roptions := True\<rparr>; live = Read_Options # live in
      if \<not> ok Write_Options then (None, ldb_pvt_destroy live p)
      else let p = p\<lparr>pvt_woptions := True\<rparr>; live = Write_Options # live in
      if \<not> ok Database then (None, ldb_pvt_destroy live p)
      else (Some (p\<lparr>pvt_db := True\<rparr>), Database # live))"

lemma ldb_pvt_create_leaks_nothing:
  "ldb_pvt_create ok live = (None, live') \<Longrightarrow> live' = live"
  "ldb_pvt_create ok live = (Some p, live') \<Longrightarrow> ldb_pvt_destroy live' p = live"
  by (auto simp: ldb_pvt_create_def ldb_pvt_destroy_def Let_def split: if_splits)

section \<open>Lemmas on strings and messages\<close>

lemma same_name_refl [simp]: "same_name a a"
  by (simp add: same_name_def)

lemma same_name_eq: "0 \<notin> set a \<Longrightarrow> same_name a b \<longleftrightarrow> a = b"
proof
  assume z: "0 \<notin> set a" and "same_name a b"
  then have t: "take (length b + 1) (a @ [0]) = b @ [0]" by (simp add: same_name_def)
  show "a = b"
  proof (cases "length b < length a")
    case True
    with t have "take (length b + 1) a = b @ [0]" by simp
    then have "0 \<in> set a" by (metis in_set_conv_decomp in_set_takeD)
    with z show ?thesis by simp
  next
    case False
    with t show ?thesis by simp
  qed
qed simp

lemma c_string_stored [simp]: "0 \<notin> set s \<Longrightarrow> c_string (s @ [0]) = Some s"
  unfolding c_string_def by (auto simp: takeWhile_append)

lemma length_msg_bytes [simp]: "length (msg_bytes m) = 16 + length (msg_data m)"
  by (simp add: msg_bytes_def)

lemma msg_entry_wf: "msg_wf m \<Longrightarrow> msg_entry m = msg_bytes m"
proof -
  assume wf: "msg_wf m"
  then have "unat (xmq_msg_total_size m) = length (msg_bytes m)"
    by (simp add: msg_wf_def xmq_msg_total_size_def MSG_HEAD_SIZE_def unat_word_ariths)
  moreover have "length (msg_bytes m) < 2 ^ 32" using wf by (simp add: msg_wf_def)
  ultimately show ?thesis
    by (simp add: msg_entry_def unsigned_ucast_eq take_bit_nat_eq_self)
qed

lemma msg_at_bytes [simp]: "msg_at (msg_bytes m) = Some m"
  by (simp add: msg_at_def msg_bytes_def of_le64_le64)

lemma msg_total_size_wf: "msg_wf m \<Longrightarrow> unat (xmq_msg_total_size m) = length (msg_bytes m)"
  by (simp add: msg_wf_def xmq_msg_total_size_def MSG_HEAD_SIZE_def unat_word_ariths)

interpretation msg_codec: codec msg_wf msg_entry msg_at
  by unfold_locales (simp add: msg_entry_wf)

lemma xmq_msg_new_data_wf:
  assumes "ds \<noteq> []" "length ds + 16 < 2 ^ 32"
  shows "xmq_msg_new_data True (Some ds) (of_nat (length ds)) =
    Some (Some \<lparr>msg_index = 0, msg_len = of_nat (length ds), msg_data = ds\<rparr>)"
    and "msg_wf \<lparr>msg_index = i, msg_len = of_nat (length ds), msg_data = ds\<rparr>"
proof -
  have u: "unat (of_nat (length ds) :: u64) = length ds"
    using assms by (simp add: unat_of_nat)
  moreover have "unat (of_nat (length ds) + 16 :: u64) = length ds + 16"
    using assms by (simp add: unat_word_ariths u)
  moreover have "(of_nat (length ds) :: u64) \<noteq> 0"
    using assms u by (metis length_0_conv unat_0)
  ultimately show "xmq_msg_new_data True (Some ds) (of_nat (length ds)) =
    Some (Some \<lparr>msg_index = 0, msg_len = of_nat (length ds), msg_data = ds\<rparr>)"
    by (simp add: xmq_msg_new_data_def xmq_msg_new_size_def MSG_HEAD_SIZE_def Let_def
        mreads_def mwrites_def)
  show "msg_wf \<lparr>msg_index = i, msg_len = of_nat (length ds), msg_data = ds\<rparr>"
    using assms u by (simp add: msg_wf_def)
qed

section \<open>Lemmas on comma separated names\<close>

text \<open>The string the queue keeps for a list of names.\<close>

definition csv_join :: "bytes list \<Rightarrow> bytes" where
  "csv_join names = concat (map (\<lambda>n. n @ [comma]) names)"

definition csv_name :: "bytes \<Rightarrow> bool" where
  "csv_name n \<longleftrightarrow> n \<noteq> [] \<and> comma \<notin> set n \<and> 0 \<notin> set n \<and> length n < FIELD_MAX_LEN"

primrec fields_at :: "nat \<Rightarrow> bytes list \<Rightarrow> csv_field list" where
  "fields_at p [] = []"
| "fields_at p (n # ns) = \<lparr>f_ptr = Some p, f_len = length n\<rparr> # fields_at (p + length n + 1) ns"

lemma csv_join_simps [simp]:
  "csv_join [] = []"
  "csv_join (n # ns) = n @ comma # csv_join ns"
  "csv_join (ns @ ms) = csv_join ns @ csv_join ms"
  by (simp_all add: csv_join_def)

lemma csv_join_no_nul: "list_all csv_name names \<Longrightarrow> 0 \<notin> set (csv_join names)"
  by (induction names) (auto simp: csv_name_def comma_def)

lemma length_fields_at [simp]: "length (fields_at p ns) = length ns"
  by (induction ns arbitrary: p) simp_all

lemma strchr_name: "c \<notin> set n \<Longrightarrow> strchr (n @ c # r) c = Some (length n)"
  by (induction n) auto

lemma csv_loop_join:
  "list_all csv_name names \<Longrightarrow> names \<noteq> [] \<Longrightarrow>
   csv_loop (pre @ csv_join names) (length pre) acc = Some (acc @ fields_at (length pre) names)"
proof (induction names arbitrary: pre acc)
  case Nil
  then show ?case by simp
next
  case (Cons n ns)
  then have "csv_name n" and ns: "list_all csv_name ns" by simp_all
  then have n: "n \<noteq> []" "comma \<notin> set n" "length n < FIELD_MAX_LEN"
    by (simp_all add: csv_name_def)
  have first: "(n @ comma # r) ! 0 \<noteq> comma" for r
    using n by (cases n) auto
  have len: "length (pre @ n @ [comma]) = length pre + length n + 1" by simp
  show ?case
  proof (cases ns)
    case Nil
    then show ?thesis
      using n first by (subst csv_loop.simps) (simp add: nth_append strchr_name)
  next
    case (Cons m ms)
    then have "ns \<noteq> []" "csv_join ns \<noteq> []" by simp_all
    then show ?thesis
      using n first Cons.IH [of "pre @ n @ [comma]" "acc @ [\<lparr>f_ptr = Some (length pre), f_len = length n\<rparr>]"] ns
      by (subst csv_loop.simps) (simp add: nth_append strchr_name Let_def)
  qed
qed

lemma field_names_at:
  "csv_string csv = Some (pre @ csv_join names) \<Longrightarrow> list_all csv_name names \<Longrightarrow>
   map (field_name csv) (fields_at (length pre) names) = map Some names"
proof (induction names arbitrary: pre)
  case (Cons n ns)
  then show ?case
    using Cons.IH [of "pre @ n @ [comma]"]
    by (simp add: field_name_def csv_name_def FIELD_MAX_LEN_def min_def)
qed simp

text \<open>The fields found are as many as the commas, so the array of \<^verbatim>\<open>commas + 1\<close> entries is
  never overrun.\<close>

lemma number_of_char_append: "number_of_char (s @ t) c = number_of_char s c + number_of_char t c"
  by (induction s) simp_all

lemma number_of_char_drop:
  "strchr s c = Some l \<Longrightarrow> number_of_char s c = Suc (number_of_char (drop (Suc l) s) c)"
  by (induction s arbitrary: l) (auto split: if_splits)

lemma csv_loop_count:
  "csv_loop s pos acc = Some fs \<Longrightarrow> length fs = length acc + number_of_char (drop pos s) comma"
proof (induction s pos acc rule: csv_loop.induct)
  case (1 s pos acc)
  show ?case
  proof (cases "pos < length s \<and> s ! pos = comma")
    case True
    then have d: "drop pos s = comma # drop (Suc pos) s" by (metis Cons_nth_drop_Suc)
    have "csv_loop s pos acc =
      (if pos + 1 < length s then csv_loop s (pos + 1) (acc @ [\<lparr>f_ptr = None, f_len = 0\<rparr>])
       else Some (acc @ [\<lparr>f_ptr = None, f_len = 0\<rparr>]))"
      using True by (subst csv_loop.simps) (simp add: Let_def)
    then show ?thesis
      using 1(1) [OF True refl] 1(3) d by (cases "pos + 1 < length s") auto
  next
    case False
    then obtain l where l: "strchr (drop pos s) comma = Some l" "l < FIELD_MAX_LEN"
      using 1(3) by (subst (asm) csv_loop.simps) (auto split: option.splits if_splits)
    have n: "number_of_char (drop pos s) comma = Suc (number_of_char (drop (pos + l + 1) s) comma)"
      using number_of_char_drop [OF l(1)] by (simp add: add.commute)
    show ?thesis
    proof (cases "pos + l + 1 < length s")
      case True
      have "csv_loop s pos acc = csv_loop s (pos + l + 1) (acc @ [\<lparr>f_ptr = Some pos, f_len = l\<rparr>])"
        using False l True by (subst csv_loop.simps) (auto simp: Let_def)
      then show ?thesis
        using 1(2) [OF False l(1) _ refl True] 1(3) l(2) n by simp
    next
      case notlt: False
      have "csv_loop s pos acc = Some (acc @ [\<lparr>f_ptr = Some pos, f_len = l\<rparr>])"
        using False l notlt by (subst csv_loop.simps) (auto simp: Let_def)
      then show ?thesis
        using 1(3) n notlt by simp
    qed
  qed
qed

end
