(* ===== verification/Xmq_Queue.thy ===== *)
theory Xmq_Queue
  imports Xmq_Store
begin

text \<open>
  The persistent queues of \<^verbatim>\<open>lib/libmixmq/src/xmq.c\<close>: a context over a key-value storage,
  its queues, their producers and consumers, and the operations on them.

  The state is the context together with the objects reached from it. Pointers are
  natural numbers, a linked list is the list of the addresses of its nodes, a freed
  object has no entry in its store. \<open>allocs\<close> lists the outcomes of the next allocations
  (all succeed when it is empty) and \<open>slack\<close> is the number of bytes the allocator leaves
  behind a block. Locking a mutex the thread already holds, releasing one that is free,
  using one that is not initialised, reaching a freed object and writing behind a block
  and its slack give \<^term>\<open>None\<close>.
\<close>

type_synonym addr = nat

text \<open>A result of pointer type: \<^verbatim>\<open>(T *)-1\<close>, \<^verbatim>\<open>NULL\<close> or a value.\<close>

datatype 'a ptr = Bad | Null | Ptr 'a

section \<open>State\<close>

record xmq_producer =
  p_identity :: bytes
  p_owner_queue :: addr

record xmq_consumer =
  c_identity :: bytes
  c_slot :: u32
  last_fetch_index :: u64
  last_mark_index :: u64
  c_owner_queue :: addr

record xmq_queue =
  q_name :: bytes
  q_id :: u64
  msg_capacity :: u64
  q_flag :: u32
  waiters :: u32
  wait_lock :: "bool option"
  active_producers :: "addr list"
  active_consumers :: "addr list"
  dead_producers :: "addr list"
  dead_consumers :: "addr list"
  producer_amount :: int
  consumer_amount :: int

record 'd xmq_context =
  pvt :: 'd
  has_pvt :: bool
  pvt_free_cb :: "'d pvt_free_fn option"
  put_KVs_cb :: "'d put_KVs_fn option"
  get_KVs_cb :: "'d get_KVs_fn option"
  active_queues :: "addr list"
  dead_queues :: "addr list"
  queue_amount :: int
  node_tree_lock :: "bool option"
  queues :: "addr \<Rightarrow> xmq_queue option"
  producers :: "addr \<Rightarrow> xmq_producer option"
  consumers :: "addr \<Rightarrow> xmq_consumer option"
  fresh :: addr
  allocs :: "bool list"
  slack :: nat

definition F_QUEUE_BLOCK :: u32 where
  "F_QUEUE_BLOCK = 1"

definition blocking :: "xmq_queue \<Rightarrow> bool" where
  "blocking q \<longleftrightarrow> q_flag q AND F_QUEUE_BLOCK \<noteq> 0"

section \<open>Memory and locks\<close>

definition calloc :: "'d xmq_context \<Rightarrow> bool \<times> 'd xmq_context" where
  "calloc s = (case allocs s of [] \<Rightarrow> (True, s) | b # bs \<Rightarrow> (b, s\<lparr>allocs := bs\<rparr>))"

definition lock_tree :: "'d xmq_context \<Rightarrow> 'd xmq_context option" where
  "lock_tree s = (if node_tree_lock s = Some False
     then Some (s\<lparr>node_tree_lock := Some True\<rparr>) else None)"

definition unlock_tree :: "'d xmq_context \<Rightarrow> 'd xmq_context option" where
  "unlock_tree s = (if node_tree_lock s = Some True
     then Some (s\<lparr>node_tree_lock := Some False\<rparr>) else None)"

definition set_queue :: "addr \<Rightarrow> xmq_queue \<Rightarrow> 'd xmq_context \<Rightarrow> 'd xmq_context" where
  "set_queue a q s = s\<lparr>queues := (queues s)(a := Some q)\<rparr>"

definition set_consumer :: "addr \<Rightarrow> xmq_consumer \<Rightarrow> 'd xmq_context \<Rightarrow> 'd xmq_context" where
  "set_consumer a c s = s\<lparr>consumers := (consumers s)(a := Some c)\<rparr>"

definition free_queue :: "addr \<Rightarrow> 'd xmq_context \<Rightarrow> 'd xmq_context" where
  "free_queue a s = s\<lparr>queues := (queues s)(a := None)\<rparr>"

text \<open>\<^verbatim>\<open>list_del\<close> of a queue's node takes it from the list it is in.\<close>

definition unlink_queue :: "addr \<Rightarrow> 'd xmq_context \<Rightarrow> 'd xmq_context" where
  "unlink_queue a s = s\<lparr>active_queues := remove1 a (active_queues s),
     dead_queues := remove1 a (dead_queues s)\<rparr>"

definition lock_wait :: "addr \<Rightarrow> 'd xmq_context \<Rightarrow> 'd xmq_context option" where
  "lock_wait a s = do {
     q \<leftarrow> queues s a;
     asserting (wait_lock q = Some False);
     Some (set_queue a (q\<lparr>wait_lock := Some True\<rparr>) s) }"

definition unlock_wait :: "addr \<Rightarrow> 'd xmq_context \<Rightarrow> 'd xmq_context option" where
  "unlock_wait a s = do {
     q \<leftarrow> queues s a;
     asserting (wait_lock q = Some True);
     Some (set_queue a (q\<lparr>wait_lock := Some False\<rparr>) s) }"

section \<open>Keys\<close>

definition opt_str :: "bytes option \<Rightarrow> bytes" where
  "opt_str x = (case x of None \<Rightarrow> [] | Some s \<Rightarrow> s)"

text \<open>The size \<^verbatim>\<open>__string_append_3rd\<close> allocates, and the string it builds there.\<close>

definition append_total ::
  "bytes option \<Rightarrow> bytes option \<Rightarrow> bytes option \<Rightarrow> bytes option \<Rightarrow> bytes option \<Rightarrow> nat" where
  "append_total prfix sep first second three =
     1 + length (opt_str prfix) + 2 * length (opt_str sep) +
     (case first of None \<Rightarrow> 0 | Some f \<Rightarrow> length f +
       (case second of None \<Rightarrow> 0 | Some g \<Rightarrow> length g + length (opt_str three)))"

definition append_merge ::
  "bytes option \<Rightarrow> bytes option \<Rightarrow> bytes option \<Rightarrow> bytes option \<Rightarrow> bytes option \<Rightarrow> bytes" where
  "append_merge prfix sep first second three =
     opt_str prfix @
     (case first of None \<Rightarrow> [] | Some f \<Rightarrow> f @ opt_str sep @
       (case second of None \<Rightarrow> [] | Some g \<Rightarrow> g @ opt_str sep @
         (case three of None \<Rightarrow> [] | Some h \<Rightarrow> h @ opt_str sep)))"

definition string_append_3rd ::
  "'d xmq_context \<Rightarrow> bytes option \<Rightarrow> bytes option \<Rightarrow> bytes option \<Rightarrow> bytes option \<Rightarrow> bytes option
   \<Rightarrow> (bytes option \<times> 'd xmq_context) option" where
  "string_append_3rd s prfix sep first second three =
     (case calloc s of (ok, s) \<Rightarrow>
        if \<not> ok then Some (None, s)
        else do {
          asserting (length (append_merge prfix sep first second three) + 1
            \<le> append_total prfix sep first second three + slack s);
          Some (Some (append_merge prfix sep first second three), s) })"

definition xmq_prefix :: bytes where
  "xmq_prefix = cstr ''__XMQ__''"

definition xmq_sep :: bytes where
  "xmq_sep = cstr ''__''"

definition get_key_of_queues :: "'d xmq_context \<Rightarrow> (bytes option \<times> 'd xmq_context) option" where
  "get_key_of_queues s =
     string_append_3rd s (Some xmq_prefix) (Some xmq_sep) (Some (cstr ''QUEUES'')) None None"

definition get_key_of_producers ::
  "'d xmq_context \<Rightarrow> bytes \<Rightarrow> (bytes option \<times> 'd xmq_context) option" where
  "get_key_of_producers s q =
     string_append_3rd s (Some xmq_prefix) (Some xmq_sep) (Some q) (Some (cstr ''PRODUCERS'')) None"

definition get_key_of_consumers ::
  "'d xmq_context \<Rightarrow> bytes \<Rightarrow> (bytes option \<times> 'd xmq_context) option" where
  "get_key_of_consumers s q =
     string_append_3rd s (Some xmq_prefix) (Some xmq_sep) (Some q) (Some (cstr ''CONSUMERS'')) None"

definition get_key_of_capacity ::
  "'d xmq_context \<Rightarrow> bytes \<Rightarrow> (bytes option \<times> 'd xmq_context) option" where
  "get_key_of_capacity s q =
     string_append_3rd s (Some xmq_prefix) (Some xmq_sep) (Some q) (Some (cstr ''CAPACITY'')) None"

definition get_key_of_fetchpos ::
  "'d xmq_context \<Rightarrow> bytes \<Rightarrow> bytes \<Rightarrow> (bytes option \<times> 'd xmq_context) option" where
  "get_key_of_fetchpos s q u =
     string_append_3rd s (Some xmq_prefix) (Some xmq_sep) (Some q) (Some u) (Some (cstr ''FETCHPOS''))"

definition get_key_of_markpos ::
  "'d xmq_context \<Rightarrow> bytes \<Rightarrow> bytes \<Rightarrow> (bytes option \<times> 'd xmq_context) option" where
  "get_key_of_markpos s q u =
     string_append_3rd s (Some xmq_prefix) (Some xmq_sep) (Some q) (Some u) (Some (cstr ''MARKPOS''))"

section \<open>Reading and writing values\<close>

text \<open>The return code, and the value stored behind \<^verbatim>\<open>bin_value\<close> when the code is not -1.\<close>

definition load_string_bin :: "'d xmq_context \<Rightarrow> bytes \<Rightarrow> (int \<times> bytes option) option" where
  "load_string_bin s key =
     (case get_KVs_cb s of
        None \<Rightarrow> Some (-1, None)
      | Some get \<Rightarrow> (case get (pvt s) [key] of (res, vs) \<Rightarrow>
          if res = -1 then Some (-1, None)
          else (case vs of [v] \<Rightarrow> Some (res, v) | _ \<Rightarrow> None)))"

definition load_string_string :: "'d xmq_context \<Rightarrow> bytes \<Rightarrow> bytes ptr option" where
  "load_string_string s key = do {
     (res, v) \<leftarrow> load_string_bin s key;
     Some (if res = -1 then Bad else (case v of None \<Rightarrow> Null | Some b \<Rightarrow> Ptr b)) }"

definition write_string_bin :: "'d xmq_context \<Rightarrow> bytes \<Rightarrow> bytes \<Rightarrow> int \<times> 'd xmq_context" where
  "write_string_bin s key v =
     (case put_KVs_cb s of
        None \<Rightarrow> (-1, s)
      | Some put \<Rightarrow>
          if v = [] then (-1, s)
          else (case put (pvt s) [(key, v)] of (r, d) \<Rightarrow> (r, s\<lparr>pvt := d\<rparr>)))"

definition write_string_string :: "'d xmq_context \<Rightarrow> bytes \<Rightarrow> bytes \<Rightarrow> int \<times> 'd xmq_context" where
  "write_string_string s key str = write_string_bin s key (str @ [0])"

text \<open>The second component is what is stored through the pointer argument, if anything.\<close>

definition uint64_read :: "'d xmq_context \<Rightarrow> bytes \<Rightarrow> (int \<times> u64 option) option" where
  "uint64_read s key = do {
     (res, v) \<leftarrow> load_string_bin s key;
     Some (if res = -1 then (-1, None)
       else (case v of
           None \<Rightarrow> (res, None)
         | Some b \<Rightarrow> (case of_le64 b of None \<Rightarrow> (-1, None) | Some n \<Rightarrow> (res + 1, Some n)))) }"

definition uint64_write :: "'d xmq_context \<Rightarrow> bytes \<Rightarrow> u64 \<Rightarrow> int \<times> 'd xmq_context" where
  "uint64_write s key n = write_string_bin s key (le64 n)"

definition uint64_test_init ::
  "'d xmq_context \<Rightarrow> bytes \<Rightarrow> u64 \<Rightarrow> (int \<times> u64 option \<times> 'd xmq_context) option" where
  "uint64_test_init s key init = do {
     (res, cur) \<leftarrow> uint64_read s key;
     if res = 0 then (case uint64_write s key init of (r, s) \<Rightarrow> Some (r, Some init, s))
     else Some (res, cur, s) }"

definition write_back_append ::
  "'d xmq_context \<Rightarrow> bytes \<Rightarrow> bytes \<Rightarrow> bytes \<Rightarrow> (bytes ptr \<times> 'd xmq_context) option" where
  "write_back_append s key more_part sep = do {
     old \<leftarrow> load_string_string s key;
     if old = Bad then Some (Bad, s)
     else do {
       old_str \<leftarrow> (case old of Ptr b \<Rightarrow> map_option Some (c_string b) | _ \<Rightarrow> Some None);
       (new, s) \<leftarrow> string_append_3rd s old_str (Some sep) (Some more_part) None None;
       case new of
         None \<Rightarrow> Some (Bad, s)
       | Some str \<Rightarrow> (case write_string_string s key str of (rc, s) \<Rightarrow>
           Some (if rc = -1 then Bad else old, s)) } }"

section \<open>Lists of names\<close>

definition TYPE_XMQ_QUEUE :: nat where "TYPE_XMQ_QUEUE = 1"
definition TYPE_XMQ_PRODUCER :: nat where "TYPE_XMQ_PRODUCER = 2"
definition TYPE_XMQ_CONSUMER :: nat where "TYPE_XMQ_CONSUMER = 3"

text \<open>The name of a node: the outer option is a dangling node, the inner one an invalid
  type code.\<close>

definition node_name :: "'d xmq_context \<Rightarrow> nat \<Rightarrow> addr \<Rightarrow> bytes option option" where
  "node_name s type_code a =
     (if type_code = TYPE_XMQ_QUEUE then map_option (Some \<circ> q_name) (queues s a)
      else if type_code = TYPE_XMQ_PRODUCER then map_option (Some \<circ> p_identity) (producers s a)
      else if type_code = TYPE_XMQ_CONSUMER then map_option (Some \<circ> c_identity) (consumers s a)
      else Some None)"

primrec join_names ::
  "'d xmq_context \<Rightarrow> nat \<Rightarrow> bytes option \<Rightarrow> addr list \<Rightarrow> (bytes option option \<times> 'd xmq_context) option" where
  "join_names s type_code cur [] = Some (Some cur, s)"
| "join_names s type_code cur (a # as) = do {
     nm \<leftarrow> node_name s type_code a;
     case nm of
       None \<Rightarrow> Some (None, s)
     | Some m \<Rightarrow> do {
         (tmp, s) \<leftarrow> string_append_3rd s cur (Some [comma]) (Some m) None None;
         case tmp of None \<Rightarrow> Some (None, s) | Some t \<Rightarrow> join_names s type_code (Some t) as } }"

text \<open>Parsing a string takes up to two allocations, \<^verbatim>\<open>strdup\<close> and the fields.\<close>

definition parse_names ::
  "'d xmq_context \<Rightarrow> csv_parser \<Rightarrow> bytes \<Rightarrow> int \<times> csv_parser \<times> 'd xmq_context" where
  "parse_names s csv str =
     (case calloc s of (dup_ok, s) \<Rightarrow>
      case (if dup_ok then calloc s else (False, s)) of (ok, s) \<Rightarrow>
      case xmq_csv_parse_string dup_ok ok csv str of (n, csv) \<Rightarrow> (n, csv, s))"

definition list_to_csv ::
  "'d xmq_context \<Rightarrow> addr list \<Rightarrow> csv_parser \<Rightarrow> nat \<Rightarrow> (int \<times> csv_parser \<times> 'd xmq_context) option" where
  "list_to_csv s head csv type_code =
     (if head = [] then Some (-1, csv, s)
      else do {
        (cur, s) \<leftarrow> join_names s type_code None head;
        case cur of
          Some (Some str) \<Rightarrow> Some (parse_names s csv str)
        | _ \<Rightarrow> Some (-1, csv, s) })"

definition queue_zero :: "bytes \<Rightarrow> xmq_queue" where
  "queue_zero name = \<lparr>q_name = name, q_id = 0, msg_capacity = 0, q_flag = 0, waiters = 0,
     wait_lock = None, active_producers = [], active_consumers = [], dead_producers = [],
     dead_consumers = [], producer_amount = 0, consumer_amount = 0\<rparr>"

definition consumer_zero :: "bytes \<Rightarrow> addr \<Rightarrow> xmq_consumer" where
  "consumer_zero name parent = \<lparr>c_identity = name, c_slot = 0, last_fetch_index = 0,
     last_mark_index = 0, c_owner_queue = parent\<rparr>"

text \<open>\<^verbatim>\<open>list_del_all_entrys\<close>: every node of the list is freed.\<close>

definition free_nodes :: "nat \<Rightarrow> addr list \<Rightarrow> 'd xmq_context \<Rightarrow> 'd xmq_context" where
  "free_nodes type_code as s =
     (if type_code = TYPE_XMQ_QUEUE then s\<lparr>queues := (\<lambda>a. if a \<in> set as then None else queues s a)\<rparr>
      else if type_code = TYPE_XMQ_PRODUCER
        then s\<lparr>producers := (\<lambda>a. if a \<in> set as then None else producers s a)\<rparr>
      else s\<lparr>consumers := (\<lambda>a. if a \<in> set as then None else consumers s a)\<rparr>)"

text \<open>One node of \<^verbatim>\<open>__csv_to_list\<close>, placed at the next free address.\<close>

definition new_node :: "nat \<Rightarrow> bytes \<Rightarrow> addr \<Rightarrow> nat \<Rightarrow> 'd xmq_context \<Rightarrow> 'd xmq_context" where
  "new_node type_code name parent index s =
     (let a = fresh s; s = s\<lparr>fresh := a + 1\<rparr> in
      if type_code = TYPE_XMQ_QUEUE
        then set_queue a ((queue_zero name)\<lparr>q_id := of_nat index\<rparr>) s
      else if type_code = TYPE_XMQ_PRODUCER
        then s\<lparr>producers := (producers s)(a := Some \<lparr>p_identity = name, p_owner_queue = parent\<rparr>)\<rparr>
      else set_consumer a ((consumer_zero name parent)\<lparr>c_slot := of_nat index\<rparr>) s)"

primrec csv_to_nodes ::
  "'d xmq_context \<Rightarrow> csv_parser \<Rightarrow> nat \<Rightarrow> addr \<Rightarrow> nat \<Rightarrow> addr list \<Rightarrow> csv_field list
   \<Rightarrow> (int \<times> addr list \<times> 'd xmq_context) option" where
  "csv_to_nodes s csv type_code parent index head [] = Some (int index, head, s)"
| "csv_to_nodes s csv type_code parent index head (f # fs) =
     (case calloc s of (ok, s) \<Rightarrow>
        if \<not> ok then Some (-1, [], free_nodes type_code head s)
        else do {
          name \<leftarrow> field_name csv f;
          csv_to_nodes (new_node type_code name parent index s) csv type_code parent
            (index + 1) (head @ [fresh s]) fs })"

definition csv_to_list ::
  "'d xmq_context \<Rightarrow> csv_parser \<Rightarrow> addr list \<Rightarrow> nat \<Rightarrow> addr
   \<Rightarrow> (int \<times> addr list \<times> 'd xmq_context) option" where
  "csv_to_list s csv head type_code parent =
     (if head \<noteq> [] then Some (-1, head, s)
      else (case csv_fields csv of
          None \<Rightarrow> Some (0, head, s)
        | Some [] \<Rightarrow> Some (0, head, s)
        | Some fs \<Rightarrow>
            if type_code \<in> {TYPE_XMQ_QUEUE, TYPE_XMQ_PRODUCER, TYPE_XMQ_CONSUMER}
            then csv_to_nodes s csv type_code parent 0 head fs
            else Some (-1, head, s)))"

text \<open>The result, the list in \<open>head\<close> afterwards, and the state.\<close>

definition load_string_list ::
  "'d xmq_context \<Rightarrow> bytes \<Rightarrow> addr list \<Rightarrow> nat \<Rightarrow> addr
   \<Rightarrow> (int \<times> addr list \<times> 'd xmq_context) option" where
  "load_string_list s key head type_code parent =
     (if get_KVs_cb s = None then Some (-1, head, s)
      else if head \<noteq> [] then Some (-1, head, s)
      else do {
        value \<leftarrow> load_string_string s key;
        case value of
          Bad \<Rightarrow> Some (-1, head, s)
        | Null \<Rightarrow> Some (0, head, s)
        | Ptr b \<Rightarrow> do {
            str \<leftarrow> c_string b;
            case parse_names s xmq_csv_parser_init str of (n, csv, s) \<Rightarrow>
              if n = -1 then Some (-1, head, s)
              else do {
                (r, head, s) \<leftarrow> csv_to_list s csv head type_code parent;
                Some (if r = -1 then -1 else n, head, s) } } })"

definition queues_load :: "'d xmq_context \<Rightarrow> (int \<times> 'd xmq_context) option" where
  "queues_load s =
     (if get_KVs_cb s = None then Some (-1, s)
      else do {
        (key, s) \<leftarrow> get_key_of_queues s;
        case key of
          None \<Rightarrow> Some (-1, s)
        | Some k \<Rightarrow> do {
            (n, head, s) \<leftarrow> load_string_list s k (dead_queues s) TYPE_XMQ_QUEUE 0;
            let s = s\<lparr>dead_queues := head, queue_amount := n\<rparr>;
            Some (if n = -1 then (-1, s\<lparr>queue_amount := 0\<rparr>) else (0, s)) } })"

definition producers_load :: "'d xmq_context \<Rightarrow> addr \<Rightarrow> (int \<times> 'd xmq_context) option" where
  "producers_load s qa =
     (if get_KVs_cb s = None then Some (-1, s)
      else do {
        q \<leftarrow> queues s qa;
        (key, s) \<leftarrow> get_key_of_producers s (q_name q);
        case key of
          None \<Rightarrow> Some (-1, s)
        | Some k \<Rightarrow> do {
            (n, head, s) \<leftarrow> load_string_list s k (dead_producers q) TYPE_XMQ_PRODUCER qa;
            let s = set_queue qa (q\<lparr>dead_producers := head,
                      producer_amount := (if n = -1 then 0 else n)\<rparr>) s;
            Some (if n = -1 then -1 else 0, s) } })"

definition consumers_load :: "'d xmq_context \<Rightarrow> addr \<Rightarrow> (int \<times> 'd xmq_context) option" where
  "consumers_load s qa =
     (if get_KVs_cb s = None then Some (-1, s)
      else do {
        q \<leftarrow> queues s qa;
        (key, s) \<leftarrow> get_key_of_consumers s (q_name q);
        case key of
          None \<Rightarrow> Some (-1, s)
        | Some k \<Rightarrow> do {
            (n, head, s) \<leftarrow> load_string_list s k (dead_consumers q) TYPE_XMQ_CONSUMER qa;
            let s = set_queue qa (q\<lparr>dead_consumers := head,
                      consumer_amount := (if n = -1 then 0 else n)\<rparr>) s;
            Some (if n = -1 then -1 else 0, s) } })"

section \<open>Contexts\<close>

text \<open>The memory of a new context is zero; \<open>d\<close> is the storage the callbacks will work on.\<close>

definition xmq_context_new :: "bool \<Rightarrow> 'd \<Rightarrow> bool list \<Rightarrow> nat \<Rightarrow> 'd xmq_context option" where
  "xmq_context_new ok d bs sl =
     (if ok then Some \<lparr>pvt = d, has_pvt = False, pvt_free_cb = None, put_KVs_cb = None,
        get_KVs_cb = None, active_queues = [], dead_queues = [], queue_amount = 0,
        node_tree_lock = None, queues = (\<lambda>_. None), producers = (\<lambda>_. None),
        consumers = (\<lambda>_. None), fresh = 1, allocs = bs, slack = sl\<rparr>
      else None)"

definition xmq_context_init ::
  "'d xmq_context \<Rightarrow> 'd \<Rightarrow> bool \<Rightarrow> 'd pvt_free_fn option \<Rightarrow> 'd put_KVs_fn option \<Rightarrow>
   'd get_KVs_fn option \<Rightarrow> (int \<times> 'd xmq_context) option" where
  "xmq_context_init s d has pvt_free put_kvs get_kvs =
     (let s = s\<lparr>pvt := d, has_pvt := has\<rparr> in
      if has \<and> pvt_free = None then Some (-1, s)
      else queues_load (s\<lparr>pvt_free_cb := pvt_free, put_KVs_cb := put_kvs, get_KVs_cb := get_kvs,
        dead_queues := [], active_queues := [], node_tree_lock := Some False\<rparr>))"

definition xmq_context_term :: "'d xmq_context \<Rightarrow> (int \<times> 'd xmq_context) option" where
  "xmq_context_term s = do {
     s \<leftarrow> lock_tree s;
     if active_queues s \<noteq> [] then do { s \<leftarrow> unlock_tree s; Some (-1, s) }
     else do {
       (n, s) \<leftarrow> (if has_pvt s
          then map_option (\<lambda>free. case free (pvt s) of (n, d) \<Rightarrow> (n, s\<lparr>pvt := d\<rparr>)) (pvt_free_cb s)
          else Some (0, s));
       if n = -1 then do { s \<leftarrow> unlock_tree s; Some (-1, s) }
       else do {
         s \<leftarrow> unlock_tree ((free_nodes TYPE_XMQ_QUEUE (dead_queues s) s)\<lparr>dead_queues := []\<rparr>);
         Some (0, s\<lparr>node_tree_lock := None\<rparr>) } } }"

section \<open>Queues\<close>

text \<open>The search loop over a list, with the names its nodes have; a dangling node is undefined.\<close>

primrec find_node :: "(addr \<Rightarrow> bytes option) \<Rightarrow> bytes \<Rightarrow> addr list \<Rightarrow> addr option option" where
  "find_node names name [] = Some None"
| "find_node names name (a # as) = do {
     n \<leftarrow> names a;
     if same_name n name then Some (Some a) else find_node names name as }"

definition find_queue :: "'d xmq_context \<Rightarrow> bytes \<Rightarrow> addr list \<Rightarrow> addr option option" where
  "find_queue s = find_node (\<lambda>a. map_option q_name (queues s a))"

definition xmq_queue_is_active ::
  "'d xmq_context \<Rightarrow> bytes option \<Rightarrow> (addr option \<times> 'd xmq_context) option" where
  "xmq_queue_is_active s qname =
     (case qname of
        None \<Rightarrow> Some (None, s)
      | Some name \<Rightarrow> do {
          s \<leftarrow> lock_tree s;
          r \<leftarrow> find_queue s name (active_queues s);
          s \<leftarrow> unlock_tree s;
          Some (r, s) })"

definition xmq_queue_exist ::
  "'d xmq_context \<Rightarrow> bytes option \<Rightarrow> (addr option \<times> 'd xmq_context) option" where
  "xmq_queue_exist s qname =
     (case qname of
        None \<Rightarrow> Some (None, s)
      | Some name \<Rightarrow> do {
          (r, s) \<leftarrow> xmq_queue_is_active s (Some name);
          if r \<noteq> None then Some (r, s)
          else do {
            s \<leftarrow> lock_tree s;
            r \<leftarrow> find_queue s name (dead_queues s);
            s \<leftarrow> unlock_tree s;
            Some (r, s) } })"

definition queue_active :: "'d xmq_context \<Rightarrow> addr \<Rightarrow> (addr option \<times> 'd xmq_context) option" where
  "queue_active s qa = do {
     q \<leftarrow> queues s qa;
     (key, s) \<leftarrow> get_key_of_capacity s (q_name q);
     case key of
       None \<Rightarrow> Some (None, s)
     | Some k \<Rightarrow> do {
         (rc, cur, s) \<leftarrow> uint64_test_init s k 0;
         let s = (case cur of None \<Rightarrow> s | Some n \<Rightarrow> set_queue qa (q\<lparr>msg_capacity := n\<rparr>) s);
         if rc = -1 then Some (None, s)
         else do {
           (r1, s) \<leftarrow> (if dead_producers q = [] then producers_load s qa else Some (0, s));
           if r1 \<noteq> 0 then Some (None, s)
           else do {
             (r2, s) \<leftarrow> (if dead_consumers q = [] then consumers_load s qa else Some (0, s));
             if r2 \<noteq> 0 then Some (None, s)
             else do {
               let s = unlink_queue qa s;
               Some (Some qa, s\<lparr>active_queues := active_queues s @ [qa]\<rparr>) } } } } }"

definition queue_new_active :: "'d xmq_context \<Rightarrow> bytes \<Rightarrow> (addr option \<times> 'd xmq_context) option" where
  "queue_new_active s name =
     (case calloc s of (ok, s) \<Rightarrow>
      if \<not> ok then Some (None, s)
      else do {
        let qa = fresh s;
        let s = set_queue qa (queue_zero name) (s\<lparr>fresh := qa + 1\<rparr>);
        let s = s\<lparr>dead_queues := dead_queues s @ [qa]\<rparr>;
        (r, s) \<leftarrow> queue_active s qa;
        if r = None then Some (None, free_queue qa s)
        else do {
          (key, s) \<leftarrow> get_key_of_queues s;
          case key of
            None \<Rightarrow> Some (None, free_queue qa (unlink_queue qa s))
          | Some k \<Rightarrow> do {
              (old, s) \<leftarrow> write_back_append s k name [comma];
              if old = Bad then Some (None, free_queue qa (unlink_queue qa s))
              else do {
                q \<leftarrow> queues s qa;
                let s = set_queue qa (q\<lparr>q_id := of_int (queue_amount s)\<rparr>) s;
                Some (Some qa, s\<lparr>queue_amount := s32 (queue_amount s + 1)\<rparr>) } } } })"

definition xmq_queue_open ::
  "'d xmq_context \<Rightarrow> bytes option \<Rightarrow> u32 \<Rightarrow> (addr option \<times> 'd xmq_context) option" where
  "xmq_queue_open s name flag =
     (case name of
        None \<Rightarrow> Some (None, s)
      | Some n \<Rightarrow>
          if \<not> length n < 256 then Some (None, s)
          else do {
            (r, s) \<leftarrow> xmq_queue_is_active s (Some n);
            (r, s) \<leftarrow> (case r of
                Some qa \<Rightarrow> Some (Some qa, s)
              | None \<Rightarrow> do {
                  (r, s) \<leftarrow> xmq_queue_exist s (Some n);
                  s \<leftarrow> lock_tree s;
                  case r of
                    Some qa \<Rightarrow> queue_active s qa
                  | None \<Rightarrow> queue_new_active s n });
            s \<leftarrow> unlock_tree s;
            case r of
              None \<Rightarrow> Some (None, s)
            | Some qa \<Rightarrow> do {
                q \<leftarrow> queues s qa;
                Some (Some qa, set_queue qa (q\<lparr>q_flag := flag, wait_lock := Some False\<rparr>) s) } })"

definition xmq_queue_close :: "'d xmq_context \<Rightarrow> addr option \<Rightarrow> (int \<times> 'd xmq_context) option" where
  "xmq_queue_close s queue =
     (case queue of
        None \<Rightarrow> Some (-1, s)
      | Some qa \<Rightarrow> do {
          q \<leftarrow> queues s qa;
          (r, s) \<leftarrow> xmq_queue_is_active s (Some (q_name q));
          if r \<noteq> None then do {
            s \<leftarrow> lock_tree s;
            if active_producers q \<noteq> [] \<or> active_consumers q \<noteq> []
            then do { s \<leftarrow> unlock_tree s; Some (-1, s) }
            else do {
              let s = free_nodes TYPE_XMQ_PRODUCER (dead_producers q) s;
              let s = free_nodes TYPE_XMQ_CONSUMER (dead_consumers q) s;
              let s = set_queue qa (q\<lparr>dead_producers := [], dead_consumers := [], wait_lock := None\<rparr>) s;
              let s = unlink_queue qa s;
              s \<leftarrow> unlock_tree (s\<lparr>dead_queues := dead_queues s @ [qa]\<rparr>);
              Some (0, s) } }
          else do {
            (r, s) \<leftarrow> xmq_queue_exist s (Some (q_name q));
            Some (if r \<noteq> None then 0 else -1, s) } })"

section \<open>Producers\<close>

definition find_producer :: "'d xmq_context \<Rightarrow> bytes \<Rightarrow> addr list \<Rightarrow> addr option option" where
  "find_producer s = find_node (\<lambda>a. map_option p_identity (producers s a))"

text \<open>The guard of the functions that take a queue and an identity.\<close>

definition named :: "addr option \<Rightarrow> bytes option \<Rightarrow> (addr \<times> bytes) option" where
  "named queue ident = (case queue of None \<Rightarrow> None | Some qa \<Rightarrow>
     (case ident of None \<Rightarrow> None | Some n \<Rightarrow> if n = [] then None else Some (qa, n)))"

definition xmq_producer_is_active ::
  "'d xmq_context \<Rightarrow> addr option \<Rightarrow> bytes option \<Rightarrow> (addr option \<times> 'd xmq_context) option" where
  "xmq_producer_is_active s queue ident =
     (case named queue ident of
        None \<Rightarrow> Some (None, s)
      | Some (qa, n) \<Rightarrow> do {
          s \<leftarrow> lock_tree s;
          q \<leftarrow> queues s qa;
          r \<leftarrow> find_producer s n (active_producers q);
          s \<leftarrow> unlock_tree s;
          Some (r, s) })"

definition xmq_producer_exist ::
  "'d xmq_context \<Rightarrow> addr option \<Rightarrow> bytes option \<Rightarrow> (addr option \<times> 'd xmq_context) option" where
  "xmq_producer_exist s queue ident =
     (case named queue ident of
        None \<Rightarrow> Some (None, s)
      | Some (qa, n) \<Rightarrow> do {
          (r, s) \<leftarrow> xmq_producer_is_active s queue ident;
          if r \<noteq> None then Some (r, s)
          else do {
            s \<leftarrow> lock_tree s;
            q \<leftarrow> queues s qa;
            r \<leftarrow> find_producer s n (dead_producers q);
            s \<leftarrow> unlock_tree s;
            Some (r, s) } })"

definition move_producer :: "bool \<Rightarrow> addr \<Rightarrow> xmq_queue \<Rightarrow> xmq_queue" where
  "move_producer activate a q =
     (let act = remove1 a (active_producers q); dead = remove1 a (dead_producers q) in
      if activate then q\<lparr>active_producers := act @ [a], dead_producers := dead\<rparr>
      else q\<lparr>active_producers := act, dead_producers := dead @ [a]\<rparr>)"

text \<open>The branch that makes a new producer returns without releasing the lock when the key
  cannot be built or the name cannot be stored.\<close>

definition new_producer ::
  "'d xmq_context \<Rightarrow> addr \<Rightarrow> bytes \<Rightarrow> (addr option \<times> 'd xmq_context) option" where
  "new_producer s qa ident = do {
     s \<leftarrow> lock_tree s;
     case calloc s of (ok, s) \<Rightarrow>
       if \<not> ok then do { s \<leftarrow> unlock_tree s; Some (None, s) }
       else do {
         q \<leftarrow> queues s qa;
         let name = take 255 ident;
         (key, s) \<leftarrow> get_key_of_producers s (q_name q);
         case key of
           None \<Rightarrow> Some (None, s)
         | Some k \<Rightarrow> do {
             (old, s) \<leftarrow> write_back_append s k name [comma];
             if old = Bad then Some (None, s)
             else do {
               let pa = fresh s;
               let s = s\<lparr>fresh := pa + 1,
                 producers := (producers s)(pa := Some \<lparr>p_identity = name, p_owner_queue = qa\<rparr>)\<rparr>;
               let s = set_queue qa (q\<lparr>active_producers := active_producers q @ [pa],
                 producer_amount := s32 (producer_amount q + 1)\<rparr>) s;
               s \<leftarrow> unlock_tree s;
               Some (Some pa, s) } } } }"

definition xmq_register_as_producer ::
  "'d xmq_context \<Rightarrow> addr option \<Rightarrow> bytes option \<Rightarrow> (addr option \<times> 'd xmq_context) option" where
  "xmq_register_as_producer s queue ident =
     (case named queue ident of
        None \<Rightarrow> Some (None, s)
      | Some (qa, n) \<Rightarrow> do {
          (r, s) \<leftarrow> xmq_producer_is_active s queue ident;
          if r \<noteq> None then Some (r, s)
          else do {
            (r, s) \<leftarrow> xmq_producer_exist s queue ident;
            case r of
              Some pa \<Rightarrow> do {
                s \<leftarrow> lock_tree s;
                q \<leftarrow> queues s qa;
                s \<leftarrow> unlock_tree (set_queue qa (move_producer True pa q) s);
                Some (Some pa, s) }
            | None \<Rightarrow> new_producer s qa n } })"

definition xmq_unregister_producer ::
  "'d xmq_context \<Rightarrow> addr option \<Rightarrow> bytes option \<Rightarrow> (int \<times> 'd xmq_context) option" where
  "xmq_unregister_producer s queue ident =
     (case named queue ident of
        None \<Rightarrow> Some (-1, s)
      | Some (qa, n) \<Rightarrow> do {
          (r, s) \<leftarrow> xmq_producer_is_active s queue ident;
          case r of
            None \<Rightarrow> Some (0, s)
          | Some pa \<Rightarrow> do {
              s \<leftarrow> lock_tree s;
              q \<leftarrow> queues s qa;
              s \<leftarrow> unlock_tree (set_queue qa (move_producer False pa q) s);
              Some (0, s) } })"

section \<open>Consumers\<close>

definition find_consumer :: "'d xmq_context \<Rightarrow> bytes \<Rightarrow> addr list \<Rightarrow> addr option option" where
  "find_consumer s = find_node (\<lambda>a. map_option c_identity (consumers s a))"

definition xmq_consumer_is_active ::
  "'d xmq_context \<Rightarrow> addr option \<Rightarrow> bytes option \<Rightarrow> (addr option \<times> 'd xmq_context) option" where
  "xmq_consumer_is_active s queue ident =
     (case named queue ident of
        None \<Rightarrow> Some (None, s)
      | Some (qa, n) \<Rightarrow> do {
          s \<leftarrow> lock_tree s;
          q \<leftarrow> queues s qa;
          r \<leftarrow> find_consumer s n (active_consumers q);
          s \<leftarrow> unlock_tree s;
          Some (r, s) })"

definition xmq_consumer_exist ::
  "'d xmq_context \<Rightarrow> addr option \<Rightarrow> bytes option \<Rightarrow> (addr option \<times> 'd xmq_context) option" where
  "xmq_consumer_exist s queue ident =
     (case named queue ident of
        None \<Rightarrow> Some (None, s)
      | Some (qa, n) \<Rightarrow> do {
          (r, s) \<leftarrow> xmq_consumer_is_active s queue ident;
          if r \<noteq> None then Some (r, s)
          else do {
            s \<leftarrow> lock_tree s;
            q \<leftarrow> queues s qa;
            r \<leftarrow> find_consumer s n (dead_consumers q);
            s \<leftarrow> unlock_tree s;
            Some (r, s) } })"

definition move_consumer :: "bool \<Rightarrow> addr \<Rightarrow> xmq_queue \<Rightarrow> xmq_queue" where
  "move_consumer activate a q =
     (let act = remove1 a (active_consumers q); dead = remove1 a (dead_consumers q) in
      if activate then q\<lparr>active_consumers := act @ [a], dead_consumers := dead\<rparr>
      else q\<lparr>active_consumers := act, dead_consumers := dead @ [a]\<rparr>)"

definition consumer_active :: "'d xmq_context \<Rightarrow> addr \<Rightarrow> (addr option \<times> 'd xmq_context) option" where
  "consumer_active s ca = do {
     c \<leftarrow> consumers s ca;
     q \<leftarrow> queues s (c_owner_queue c);
     (fkey, s) \<leftarrow> get_key_of_fetchpos s (q_name q) (c_identity c);
     case fkey of
       None \<Rightarrow> Some (None, s)
     | Some fk \<Rightarrow> do {
         (rc, cur, s) \<leftarrow> uint64_test_init s fk 0;
         let c = (case cur of None \<Rightarrow> c | Some n \<Rightarrow> c\<lparr>last_fetch_index := n\<rparr>);
         let s = set_consumer ca c s;
         if rc = -1 then Some (None, s)
         else do {
           (mkey, s) \<leftarrow> get_key_of_markpos s (q_name q) (c_identity c);
           case mkey of
             None \<Rightarrow> Some (None, s)
           | Some mk \<Rightarrow> do {
               (rc, cur, s) \<leftarrow> uint64_test_init s mk 0;
               let c = (case cur of None \<Rightarrow> c | Some n \<Rightarrow> c\<lparr>last_mark_index := n\<rparr>);
               let s = set_consumer ca c s;
               if rc = -1 then Some (None, s)
               else Some (Some ca, set_queue (c_owner_queue c) (move_consumer True ca q) s) } } } }"

text \<open>Writing a zero position under a key; the first component is false on every failure.\<close>

definition init_pos ::
  "(bytes option \<times> 'd xmq_context) option \<Rightarrow> (bool \<times> 'd xmq_context) option" where
  "init_pos keyed = do {
     (key, s) \<leftarrow> keyed;
     case key of
       None \<Rightarrow> Some (False, s)
     | Some k \<Rightarrow> (case uint64_write s k 0 of (rc, s) \<Rightarrow> Some (rc \<noteq> -1, s)) }"

definition consumer_new_active ::
  "'d xmq_context \<Rightarrow> addr \<Rightarrow> bytes \<Rightarrow> (addr option \<times> 'd xmq_context) option" where
  "consumer_new_active s qa ident =
     (case calloc s of (ok, s) \<Rightarrow>
      if \<not> ok then Some (None, s)
      else do {
        q \<leftarrow> queues s qa;
        let name = take 255 ident;
        (key, s) \<leftarrow> get_key_of_consumers s (q_name q);
        case key of
          None \<Rightarrow> Some (None, s)
        | Some k \<Rightarrow> do {
            (old, s) \<leftarrow> write_back_append s k name [comma];
            if old = Bad then Some (None, s)
            else do {
              (ok, s) \<leftarrow> init_pos (get_key_of_fetchpos s (q_name q) name);
              if \<not> ok then Some (None, s)
              else do {
                (ok, s) \<leftarrow> init_pos (get_key_of_markpos s (q_name q) name);
                if \<not> ok then Some (None, s)
                else do {
                  let ca = fresh s;
                  let s = set_consumer ca ((consumer_zero name qa)\<lparr>c_slot := of_int (consumer_amount q)\<rparr>)
                    (s\<lparr>fresh := ca + 1\<rparr>);
                  let s = set_queue qa (q\<lparr>active_consumers := active_consumers q @ [ca],
                    consumer_amount := s32 (consumer_amount q + 1)\<rparr>) s;
                  Some (Some ca, s) } } } } })"

definition xmq_register_as_consumer ::
  "'d xmq_context \<Rightarrow> addr option \<Rightarrow> bytes option \<Rightarrow> (addr option \<times> 'd xmq_context) option" where
  "xmq_register_as_consumer s queue ident =
     (case named queue ident of
        None \<Rightarrow> Some (None, s)
      | Some (qa, n) \<Rightarrow> do {
          (r, s) \<leftarrow> xmq_consumer_is_active s queue ident;
          (r, s) \<leftarrow> (case r of
              Some ca \<Rightarrow> Some (Some ca, s)
            | None \<Rightarrow> do {
                (r, s) \<leftarrow> xmq_consumer_exist s queue ident;
                s \<leftarrow> lock_tree s;
                case r of
                  Some ca \<Rightarrow> consumer_active s ca
                | None \<Rightarrow> consumer_new_active s qa n });
          s \<leftarrow> unlock_tree s;
          Some (r, s) })"

definition xmq_unregister_consumer ::
  "'d xmq_context \<Rightarrow> addr option \<Rightarrow> bytes option \<Rightarrow> (int \<times> 'd xmq_context) option" where
  "xmq_unregister_consumer s queue ident =
     (case named queue ident of
        None \<Rightarrow> Some (-1, s)
      | Some (qa, n) \<Rightarrow> do {
          (r, s) \<leftarrow> xmq_consumer_is_active s queue ident;
          case r of
            None \<Rightarrow> Some (0, s)
          | Some ca \<Rightarrow> do {
              s \<leftarrow> lock_tree s;
              q \<leftarrow> queues s qa;
              s \<leftarrow> unlock_tree (set_queue qa (move_consumer False ca q) s);
              Some (0, s) } })"

section \<open>Pushing\<close>

text \<open>\<open>None\<close> as the capacity: the capacity could not be read.\<close>

definition current_capacity ::
  "'d xmq_context \<Rightarrow> addr \<Rightarrow> bytes \<Rightarrow> (u64 option \<times> 'd xmq_context) option" where
  "current_capacity s qa key = do {
     q \<leftarrow> queues s qa;
     if msg_capacity q = 0 then do {
       (rc, cur, s) \<leftarrow> uint64_test_init s key 0;
       if rc = -1 then Some (None, s)
       else do {
         n \<leftarrow> cur;
         Some (Some n, set_queue qa (q\<lparr>msg_capacity := n\<rparr>) s) } }
     else Some (Some (msg_capacity q), s) }"

text \<open>A push has two parts that other threads may come between: the first reads the capacity and
  stores the message, without a lock; the second advances the capacity under \<^verbatim>\<open>wait_lock\<close>. The first
  gives the result, the message with its index, the queue the second part is still to be done for,
  and the state.\<close>

definition push_store ::
  "'d xmq_context \<Rightarrow> addr option \<Rightarrow> xmq_msg option \<Rightarrow>
   (int \<times> xmq_msg option \<times> addr option \<times> 'd xmq_context) option" where
  "push_store s producer msg =
     (case producer of None \<Rightarrow> Some (-1, msg, None, s) | Some pa \<Rightarrow>
      case msg of None \<Rightarrow> Some (-1, msg, None, s) | Some m \<Rightarrow> do {
        p \<leftarrow> producers s pa;
        let qa = p_owner_queue p;
        q \<leftarrow> queues s qa;
        (key, s) \<leftarrow> get_key_of_capacity s (q_name q);
        case key of
          None \<Rightarrow> Some (-1, msg, None, s)
        | Some k \<Rightarrow> do {
            (cap, s) \<leftarrow> current_capacity s qa k;
            case cap of
              None \<Rightarrow> Some (-1, msg, None, s)
            | Some c \<Rightarrow> do {
                let index = c + 1;
                let m = snd (xmq_msg_set_index m index);
                put \<leftarrow> put_KVs_cb s;
                case put (pvt s) [(le64 index, msg_entry m), (k, le64 index)] of (res, d) \<Rightarrow>
                  Some (res, Some m, if res = 0 \<and> blocking q then Some qa else None, s\<lparr>pvt := d\<rparr>) } } })"

definition push_publish :: "'d xmq_context \<Rightarrow> addr \<Rightarrow> 'd xmq_context option" where
  "push_publish s qa = do {
     s \<leftarrow> lock_wait qa s;
     q \<leftarrow> queues s qa;
     unlock_wait qa (set_queue qa (q\<lparr>msg_capacity := msg_capacity q + 1\<rparr>) s) }"

definition queue_push_tail ::
  "'d xmq_context \<Rightarrow> addr option \<Rightarrow> xmq_msg option \<Rightarrow>
   (int \<times> xmq_msg option \<times> 'd xmq_context) option" where
  "queue_push_tail s producer msg = do {
     (res, m, rest, s) \<leftarrow> push_store s producer msg;
     case rest of
       None \<Rightarrow> Some (res, m, s)
     | Some qa \<Rightarrow> do { s \<leftarrow> push_publish s qa; Some (res, m, s) } }"

section \<open>Fetching\<close>

definition ETIMEDOUT :: int where "ETIMEDOUT = 110"
definition EINVAL :: int where "EINVAL = 22"

text \<open>The absolute deadline in seconds and nanoseconds.\<close>

definition wait_deadline :: "int \<Rightarrow> int \<Rightarrow> u32 \<Rightarrow> int \<times> int" where
  "wait_deadline tv_sec tv_usec millis =
     (let ms = 1000 * uint millis in
      if tv_usec + ms \<ge> 1000000 then (tv_sec + 1, (tv_usec + (1000000 - ms)) * 1000)
      else (tv_sec, (tv_usec + ms) * 1000))"

text \<open>One wake-up of a waiting consumer: the clock before the wait, what the other threads
  do to the state meanwhile and the return value of the wait.\<close>

record 'd wake =
  now_sec :: int
  now_usec :: int
  resume :: "'d xmq_context \<Rightarrow> int \<times> 'd xmq_context"

text \<open>\<^verbatim>\<open>pthread_cond_timedwait\<close> refuses a nanosecond value outside 0 to 999999999 at once, with the
  mutex still held; otherwise it releases the mutex while it waits.\<close>

definition cond_wait ::
  "'d xmq_context \<Rightarrow> addr \<Rightarrow> (int \<times> int) option \<Rightarrow> 'd wake \<Rightarrow> (int \<times> 'd xmq_context) option" where
  "cond_wait s qa deadline w =
     (case deadline of
        Some (sec, nsec) \<Rightarrow>
          if nsec < 0 \<or> nsec \<ge> 1000000000 then Some (EINVAL, s)
          else do {
            s \<leftarrow> unlock_wait qa s;
            let (res, s) = resume w s;
            s \<leftarrow> lock_wait qa s;
            Some (res, s) }
      | None \<Rightarrow> do {
          s \<leftarrow> unlock_wait qa s;
          let (res, s) = resume w s;
          s \<leftarrow> lock_wait qa s;
          Some (res, s) })"

definition wait_round ::
  "'d xmq_context \<Rightarrow> addr \<Rightarrow> u32 \<Rightarrow> 'd wake \<Rightarrow> (int \<times> 'd xmq_context) option" where
  "wait_round s qa millis w = do {
     q \<leftarrow> queues s qa;
     let s = set_queue qa (q\<lparr>waiters := waiters q + 1\<rparr>) s;
     (res, s) \<leftarrow> cond_wait s qa
       (if millis \<noteq> 0 then Some (wait_deadline (now_sec w) (now_usec w) millis) else None) w;
     q \<leftarrow> queues s qa;
     Some (res, set_queue qa (q\<lparr>waiters := waiters q - 1\<rparr>) s) }"

datatype wait_result = Ready | Timed_Out | Still_Waiting

text \<open>The loop over a list of wake-ups; when they run out the call has not returned yet.\<close>

primrec fetch_wait ::
  "'d xmq_context \<Rightarrow> addr \<Rightarrow> u64 \<Rightarrow> u32 \<Rightarrow> 'd wake list \<Rightarrow> (wait_result \<times> 'd xmq_context) option" where
  "fetch_wait s qa index millis [] = do {
     q \<leftarrow> queues s qa;
     Some (if index > msg_capacity q then Still_Waiting else Ready, s) }"
| "fetch_wait s qa index millis (w # ws) = do {
     q \<leftarrow> queues s qa;
     if index > msg_capacity q then do {
       (res, s) \<leftarrow> wait_round s qa millis w;
       if millis \<noteq> 0 \<and> res = ETIMEDOUT then do { s \<leftarrow> unlock_wait qa s; Some (Timed_Out, s) }
       else fetch_wait s qa index millis ws }
     else Some (Ready, s) }"

text \<open>A key without a value leaves a null pointer whose length field is then read.\<close>

definition msg_fetch :: "'d xmq_context \<Rightarrow> addr \<Rightarrow> u64 \<Rightarrow> xmq_msg ptr option" where
  "msg_fetch s ca index = do {
     c \<leftarrow> consumers s ca;
     q \<leftarrow> queues s (c_owner_queue c);
     if \<not> (index \<noteq> 0 \<and> index \<le> msg_capacity q) then Some Bad
     else do {
       get \<leftarrow> get_KVs_cb s;
       case get (pvt s) [le64 index] of (res, vs) \<Rightarrow>
         if res = -1 then Some Bad
         else (case vs of
             [Some b] \<Rightarrow> do {
               m \<leftarrow> msg_at b;
               Some (if unat (xmq_msg_total_size m) \<noteq> length b then Bad else Ptr m) }
           | _ \<Rightarrow> None) } }"

text \<open>The part of \<^verbatim>\<open>queue_fetch_nth\<close> behind the wait: it tests for \<^verbatim>\<open>NULL\<close> only, so an error
  pointer is followed by a new fetch position, and is passed to \<^verbatim>\<open>free\<close> when that cannot be
  stored.\<close>

definition fetch_commit ::
  "'d xmq_context \<Rightarrow> addr \<Rightarrow> u64 \<Rightarrow> (xmq_msg ptr \<times> 'd xmq_context) option" where
  "fetch_commit s ca index = do {
     msg \<leftarrow> msg_fetch s ca index;
     c \<leftarrow> consumers s ca;
     q \<leftarrow> queues s (c_owner_queue c);
     if msg = Null then Some (Null, s)
     else do {
       (key, s) \<leftarrow> get_key_of_fetchpos s (q_name q) (c_identity c);
       let (rc, s) = (case key of None \<Rightarrow> (-1, s) | Some k \<Rightarrow> uint64_write s k index);
       if rc = -1 then (if msg = Bad then None else Some (Bad, s))
       else Some (msg, set_consumer ca (c\<lparr>last_fetch_index := index\<rparr>) s) } }"

text \<open>The part up to the end of the wait: on a blocking queue the capacity is compared under
  \<^verbatim>\<open>wait_lock\<close>, which is released before the message is read. On another queue a message that is not
  there ends the call as a time-out does, with a null pointer.\<close>

definition fetch_admit ::
  "'d xmq_context \<Rightarrow> addr \<Rightarrow> u64 \<Rightarrow> u32 \<Rightarrow> 'd wake list \<Rightarrow> (wait_result \<times> 'd xmq_context) option" where
  "fetch_admit s qa index millis wakes = do {
     q \<leftarrow> queues s qa;
     if blocking q then do {
       s \<leftarrow> lock_wait qa s;
       (w, s) \<leftarrow> fetch_wait s qa index millis wakes;
       case w of
         Ready \<Rightarrow> do { s \<leftarrow> unlock_wait qa s; Some (Ready, s) }
       | _ \<Rightarrow> Some (w, s) }
     else Some (if index \<le> msg_capacity q then Ready else Timed_Out, s) }"

text \<open>\<open>None\<close> as the message: the call is still waiting.\<close>

definition queue_fetch_nth ::
  "'d xmq_context \<Rightarrow> addr option \<Rightarrow> u64 \<Rightarrow> u32 \<Rightarrow> 'd wake list \<Rightarrow>
   (xmq_msg ptr option \<times> 'd xmq_context) option" where
  "queue_fetch_nth s consumer index millis wakes =
     (case consumer of None \<Rightarrow> Some (Some Bad, s) | Some ca \<Rightarrow> do {
        c \<leftarrow> consumers s ca;
        (w, s) \<leftarrow> fetch_admit s (c_owner_queue c) index millis wakes;
        case w of
          Still_Waiting \<Rightarrow> Some (None, s)
        | Timed_Out \<Rightarrow> Some (Some Null, s)
        | Ready \<Rightarrow> do {
            (m, s) \<leftarrow> fetch_commit s ca index;
            Some (Some m, s) } })"

definition queue_fetch_next ::
  "'d xmq_context \<Rightarrow> addr option \<Rightarrow> u32 \<Rightarrow> 'd wake list \<Rightarrow>
   (xmq_msg ptr option \<times> 'd xmq_context) option" where
  "queue_fetch_next s consumer millis wakes = do {
     ca \<leftarrow> consumer;
     c \<leftarrow> consumers s ca;
     queue_fetch_nth s consumer (last_fetch_index c + 1) millis wakes }"

definition queue_fetch_pos :: "'d xmq_context \<Rightarrow> addr option \<Rightarrow> u64 option" where
  "queue_fetch_pos s consumer =
     (case consumer of None \<Rightarrow> Some (-1) | Some ca \<Rightarrow> map_option last_fetch_index (consumers s ca))"

section \<open>Marks\<close>

definition queue_mark_nth ::
  "'d xmq_context \<Rightarrow> addr option \<Rightarrow> u64 \<Rightarrow> (u64 \<times> 'd xmq_context) option" where
  "queue_mark_nth s consumer index =
     (case consumer of None \<Rightarrow> Some (-1, s) | Some ca \<Rightarrow> do {
        c \<leftarrow> consumers s ca;
        q \<leftarrow> queues s (c_owner_queue c);
        if \<not> index \<le> msg_capacity q then Some (-1, s)
        else do {
          (key, s) \<leftarrow> get_key_of_markpos s (q_name q) (c_identity c);
          case key of
            None \<Rightarrow> Some (-1, s)
          | Some k \<Rightarrow> do {
              put \<leftarrow> put_KVs_cb s;
              case put (pvt s) [(k, le64 index)] of (res, d) \<Rightarrow>
                Some (if res = 0 then last_mark_index c else -1, s\<lparr>pvt := d\<rparr>) } } })"

definition queue_mark_next :: "'d xmq_context \<Rightarrow> addr option \<Rightarrow> (u64 \<times> 'd xmq_context) option" where
  "queue_mark_next s consumer = do {
     ca \<leftarrow> consumer;
     c \<leftarrow> consumers s ca;
     queue_mark_nth s consumer (last_mark_index c + 1) }"

definition queue_mark_pos :: "'d xmq_context \<Rightarrow> addr option \<Rightarrow> u64 option" where
  "queue_mark_pos s consumer =
     (case consumer of None \<Rightarrow> Some 0 | Some ca \<Rightarrow> map_option last_mark_index (consumers s ca))"

end
