(* ===== verification/Xmq_Log.thy ===== *)
theory Xmq_Log
  imports Xmq_Queue
begin

text \<open>
  The queue as a message log. The keys of the storage are computed and told apart; the
  interface \<open>message_log\<close> says what a log with a reading position promises, and a
  sublocale proves it of pushing and fetching on a blocking queue over any storage
  that does not fail.
\<close>

section \<open>Keys\<close>

named_theorems xmq_keys \<open>the keys under which the queue stores its data\<close>

definition queues_key :: bytes where
  "queues_key = xmq_prefix @ cstr ''QUEUES'' @ xmq_sep"

definition user_key :: "string \<Rightarrow> bytes \<Rightarrow> bytes" where
  "user_key what q = xmq_prefix @ q @ xmq_sep @ cstr what @ xmq_sep"

definition pos_key :: "string \<Rightarrow> bytes \<Rightarrow> bytes \<Rightarrow> bytes" where
  "pos_key what q u = xmq_prefix @ q @ xmq_sep @ u @ xmq_sep @ cstr what @ xmq_sep"

lemma calloc_ok [simp]: "allocs s = [] \<Longrightarrow> calloc s = (True, s)"
  by (simp add: calloc_def)

text \<open>With up to two strings the block is large enough; with three strings the third
  separator lies behind it.\<close>

lemma append_room:
  "length (append_merge p sep f g None) + 1 \<le> append_total p sep f g None"
  by (auto simp: append_merge_def append_total_def opt_str_def split: option.splits)

lemma append_overrun:
  "length (append_merge p (Some sep) (Some f) (Some g) (Some h)) + 1 =
   append_total p (Some sep) (Some f) (Some g) (Some h) + length sep"
  by (simp add: append_merge_def append_total_def opt_str_def)

lemma append_two:
  "allocs s = [] \<Longrightarrow> string_append_3rd s p sep f g None = Some (Some (append_merge p sep f g None), s)"
  using append_room [of p sep f g] by (simp add: string_append_3rd_def)

lemma append_three:
  "allocs s = [] \<Longrightarrow> string_append_3rd s p (Some sep) (Some f) (Some g) (Some h) =
   (if length sep \<le> slack s then Some (Some (append_merge p (Some sep) (Some f) (Some g) (Some h)), s)
    else None)"
  using append_overrun [of p sep f g h] by (simp add: string_append_3rd_def asserting_def)

lemma length_xmq_sep [simp]: "length xmq_sep = 2"
  by (simp add: xmq_sep_def cstr_def)

lemma get_keys [xmq_keys]:
  assumes "allocs s = []"
  shows "get_key_of_queues s = Some (Some queues_key, s)"
    and "get_key_of_producers s q = Some (Some (user_key ''PRODUCERS'' q), s)"
    and "get_key_of_consumers s q = Some (Some (user_key ''CONSUMERS'' q), s)"
    and "get_key_of_capacity s q = Some (Some (user_key ''CAPACITY'' q), s)"
  using assms
  by (simp_all add: get_key_of_queues_def get_key_of_producers_def get_key_of_consumers_def
      get_key_of_capacity_def append_two append_merge_def opt_str_def queues_key_def user_key_def)

lemma get_pos_keys [xmq_keys]:
  assumes "allocs s = []"
  shows "get_key_of_fetchpos s q u = (if 2 \<le> slack s then Some (Some (pos_key ''FETCHPOS'' q u), s) else None)"
    and "get_key_of_markpos s q u = (if 2 \<le> slack s then Some (Some (pos_key ''MARKPOS'' q u), s) else None)"
  using assms
  by (simp_all add: get_key_of_fetchpos_def get_key_of_markpos_def append_three append_merge_def
      opt_str_def pos_key_def)

text \<open>Keys of different kinds differ in their last six bytes, and every named key is longer
  than the eight bytes of a message key.\<close>

definition key_kind :: "bytes \<Rightarrow> bytes" where
  "key_kind k = take 6 (rev k)"

lemma key_kind_keys [simp]:
  "key_kind queues_key = map of_char ''__SEUE''"
  "key_kind (user_key ''PRODUCERS'' q) = map of_char ''__SREC''"
  "key_kind (user_key ''CONSUMERS'' q) = map of_char ''__SREM''"
  "key_kind (user_key ''CAPACITY'' q) = map of_char ''__YTIC''"
  "key_kind (pos_key ''FETCHPOS'' q u) = map of_char ''__SOPH''"
  "key_kind (pos_key ''MARKPOS'' q u) = map of_char ''__SOPK''"
  by (simp_all add: key_kind_def queues_key_def user_key_def pos_key_def cstr_def xmq_sep_def)

lemma key_kind_neq: "key_kind a \<noteq> key_kind b \<Longrightarrow> a \<noteq> b"
  by auto

lemma neq_keys [simp]:
  "queues_key \<noteq> user_key ''PRODUCERS'' a" "queues_key \<noteq> user_key ''CONSUMERS'' a"
  "queues_key \<noteq> user_key ''CAPACITY'' a" "queues_key \<noteq> pos_key ''FETCHPOS'' a u"
  "queues_key \<noteq> pos_key ''MARKPOS'' a u"
  "user_key ''PRODUCERS'' a \<noteq> user_key ''CONSUMERS'' b" "user_key ''PRODUCERS'' a \<noteq> user_key ''CAPACITY'' b"
  "user_key ''PRODUCERS'' a \<noteq> pos_key ''FETCHPOS'' b u" "user_key ''PRODUCERS'' a \<noteq> pos_key ''MARKPOS'' b u"
  "user_key ''CONSUMERS'' a \<noteq> user_key ''CAPACITY'' b" "user_key ''CONSUMERS'' a \<noteq> pos_key ''FETCHPOS'' b u"
  "user_key ''CONSUMERS'' a \<noteq> pos_key ''MARKPOS'' b u"
  "user_key ''CAPACITY'' a \<noteq> pos_key ''FETCHPOS'' b u" "user_key ''CAPACITY'' a \<noteq> pos_key ''MARKPOS'' b u"
  "pos_key ''FETCHPOS'' a u \<noteq> pos_key ''MARKPOS'' b v"
  by (rule key_kind_neq, simp)+

lemmas neq_keys_sym [simp] = neq_keys [symmetric]

lemma long_keys [xmq_keys]:
  "8 < length queues_key" "8 < length (user_key what q)" "8 < length (pos_key what q u)"
  by (simp_all add: queues_key_def user_key_def pos_key_def xmq_prefix_def cstr_def)

lemma le64_not_named [simp]:
  "le64 i \<noteq> queues_key" "le64 i \<noteq> user_key what q" "le64 i \<noteq> pos_key what q u"
  "queues_key \<noteq> le64 i" "user_key what q \<noteq> le64 i" "pos_key what q u \<noteq> le64 i"
  using long_keys length_be(3) by (metis less_irrefl)+

lemma le64_inject [simp]: "le64 i = le64 j \<longleftrightarrow> i = j"
  using of_le64_le64 by (metis option.inject)

section \<open>Interface: message logs\<close>

text \<open>A log that is written at its end and read from a position onwards.\<close>

datatype 'm log_op = Push 'm | Next

primrec run_log ::
  "('s \<Rightarrow> 'm \<Rightarrow> 's option) \<Rightarrow> ('s \<Rightarrow> ('m \<times> 's) option) \<Rightarrow> 'm log_op list \<Rightarrow> 's \<Rightarrow> ('m list \<times> 's) option" where
  "run_log push next [] s = Some ([], s)"
| "run_log push next (x # xs) s = (case x of
     Push m \<Rightarrow> Option.bind (push s m) (run_log push next xs)
   | Next \<Rightarrow> Option.bind (next s) (\<lambda>(m, s1).
       Option.bind (run_log push next xs s1) (\<lambda>(out, s2). Some (m # out, s2))))"

primrec pushed :: "'m log_op list \<Rightarrow> 'm list" where
  "pushed [] = []"
| "pushed (x # xs) = (case x of Push m \<Rightarrow> m # pushed xs | Next \<Rightarrow> pushed xs)"

primrec nexts :: "'m log_op list \<Rightarrow> nat" where
  "nexts [] = 0"
| "nexts (x # xs) = (case x of Push m \<Rightarrow> nexts xs | Next \<Rightarrow> Suc (nexts xs))"

text \<open>With \<open>n\<close> unread messages at the start, no read comes before its message.\<close>

primrec readable :: "nat \<Rightarrow> 'm log_op list \<Rightarrow> bool" where
  "readable n [] \<longleftrightarrow> True"
| "readable n (x # xs) \<longleftrightarrow> (case x of Push m \<Rightarrow> readable (Suc n) xs | Next \<Rightarrow> 0 < n \<and> readable (n - 1) xs)"

locale message_log =
  fixes inv :: "'s \<Rightarrow> bool"
    and log :: "'s \<Rightarrow> 'm list"
    and pos :: "'s \<Rightarrow> nat"
    and room :: nat
    and ok :: "'m \<Rightarrow> bool"
    and push :: "'s \<Rightarrow> 'm \<Rightarrow> 's option"
    and "next" :: "'s \<Rightarrow> ('m \<times> 's) option"
  assumes push_appends: "inv s \<Longrightarrow> ok m \<Longrightarrow> length (log s) < room \<Longrightarrow>
      \<exists>s'. push s m = Some s' \<and> inv s' \<and> log s' = log s @ [m] \<and> pos s' = pos s"
    and next_reads: "inv s \<Longrightarrow> pos s < length (log s) \<Longrightarrow>
      \<exists>s'. next s = Some (log s ! pos s, s') \<and> inv s' \<and> log s' = log s \<and> pos s' = Suc (pos s)"
    and pos_in_log: "inv s \<Longrightarrow> pos s \<le> length (log s)"
begin

text \<open>In every interleaving of pushes and reads the messages come out in the order in which
  they were pushed, none lost and none twice.\<close>

lemma run_delivers:
  "inv s \<Longrightarrow> list_all ok (pushed xs) \<Longrightarrow> length (log s) + length (pushed xs) \<le> room \<Longrightarrow>
   readable (length (log s) - pos s) xs \<Longrightarrow>
   \<exists>s'. run_log push next xs s = Some (take (nexts xs) (drop (pos s) (log s @ pushed xs)), s')
     \<and> inv s' \<and> log s' = log s @ pushed xs \<and> pos s' = pos s + nexts xs"
proof (induction xs arbitrary: s)
  case Nil
  then show ?case by simp
next
  case (Cons x xs)
  show ?case
  proof (cases x)
    case (Push m)
    then obtain s1 where s1: "push s m = Some s1" "inv s1" "log s1 = log s @ [m]" "pos s1 = pos s"
      using push_appends [of s m] Cons.prems by auto
    have "length (log s1) - pos s1 = Suc (length (log s) - pos s)"
      using s1 pos_in_log Cons.prems(1) by (simp add: Suc_diff_le)
    then show ?thesis
      using Cons.IH [OF s1(2)] Cons.prems Push s1 by auto
  next
    case Next
    then have lt: "pos s < length (log s)" using Cons.prems by simp
    then obtain s1 where s1: "next s = Some (log s ! pos s, s1)" "inv s1" "log s1 = log s"
        "pos s1 = Suc (pos s)"
      using next_reads Cons.prems by blast
    have d: "drop (pos s) (log s @ ys) = log s ! pos s # drop (Suc (pos s)) (log s @ ys)" for ys
      using lt by (metis Cons_nth_drop_Suc length_append nth_append trans_less_add1)
    obtain s2 where "run_log push next xs s1 =
        Some (take (nexts xs) (drop (pos s1) (log s1 @ pushed xs)), s2)"
      "inv s2" "log s2 = log s1 @ pushed xs" "pos s2 = pos s1 + nexts xs"
      using Cons.IH [OF s1(2)] Cons.prems Next s1 by auto
    then show ?thesis
      using Next s1 d [of "pushed xs"] by simp
  qed
qed

end

section \<open>Queues as message logs\<close>

definition msg_of :: "u64 \<Rightarrow> bytes \<Rightarrow> xmq_msg" where
  "msg_of i d = \<lparr>msg_index = i, msg_len = of_nat (length d), msg_data = d\<rparr>"

definition sendable :: "bytes \<Rightarrow> bool" where
  "sendable d \<longleftrightarrow> d \<noteq> [] \<and> length d + 16 < 2 ^ 32"

definition stored_msg :: "(bytes \<rightharpoonup> bytes) \<Rightarrow> u64 \<Rightarrow> bytes" where
  "stored_msg m i = (case m (le64 i) of None \<Rightarrow> [] | Some b \<Rightarrow> drop 16 b)"

definition queue_log :: "('d \<Rightarrow> bytes \<rightharpoonup> bytes) \<Rightarrow> addr \<Rightarrow> 'd xmq_context \<Rightarrow> bytes list" where
  "queue_log view qa s = (case queues s qa of
     None \<Rightarrow> []
   | Some q \<Rightarrow> map (\<lambda>i. stored_msg (view (pvt s)) (of_nat (Suc i))) [0..<unat (msg_capacity q)])"

definition fetched :: "addr \<Rightarrow> 'd xmq_context \<Rightarrow> nat" where
  "fetched ca s = (case consumers s ca of None \<Rightarrow> 0 | Some c \<Rightarrow> unat (last_fetch_index c))"

definition uses :: "'d put_KVs_fn \<Rightarrow> 'd get_KVs_fn \<Rightarrow> 'd xmq_context \<Rightarrow> bool" where
  "uses put get s \<longleftrightarrow> put_KVs_cb s = Some put \<and> get_KVs_cb s = Some get \<and> allocs s = [] \<and> 2 \<le> slack s"

text \<open>The storage agrees with the queue: its capacity, and a message under every index up to it.\<close>

definition stored_queue :: "(bytes \<rightharpoonup> bytes) \<Rightarrow> xmq_queue \<Rightarrow> bool" where
  "stored_queue m q \<longleftrightarrow> m (user_key ''CAPACITY'' (q_name q)) = Some (le64 (msg_capacity q)) \<and>
     (\<forall>i. i \<noteq> 0 \<and> i \<le> msg_capacity q \<longrightarrow> (\<exists>d. sendable d \<and> m (le64 i) = Some (msg_bytes (msg_of i d))))"

text \<open>An open blocking queue with a producer and a consumer registered with it.\<close>

definition queue_ready ::
  "('d \<Rightarrow> bytes \<rightharpoonup> bytes) \<Rightarrow> 'd put_KVs_fn \<Rightarrow> 'd get_KVs_fn \<Rightarrow> addr \<Rightarrow> addr \<Rightarrow> addr \<Rightarrow> 'd xmq_context \<Rightarrow> bool" where
  "queue_ready view put get qa pa ca s \<longleftrightarrow> uses put get s \<and>
     (case queues s qa of None \<Rightarrow> False | Some q \<Rightarrow>
        blocking q \<and> wait_lock q = Some False \<and> stored_queue (view (pvt s)) q \<and>
        (case producers s pa of None \<Rightarrow> False | Some p \<Rightarrow> p_owner_queue p = qa) \<and>
        (case consumers s ca of None \<Rightarrow> False | Some c \<Rightarrow>
           c_owner_queue c = qa \<and> last_fetch_index c \<le> msg_capacity q))"

text \<open>The same queue while a push may be under way: \<open>pend\<close> is the message that is stored and not yet
  counted in the capacity of the queue.\<close>

definition mid_push ::
  "('d \<Rightarrow> bytes \<rightharpoonup> bytes) \<Rightarrow> 'd put_KVs_fn \<Rightarrow> 'd get_KVs_fn \<Rightarrow> addr \<Rightarrow> addr \<Rightarrow> addr \<Rightarrow> bytes option \<Rightarrow> 'd xmq_context \<Rightarrow> bool" where
  "mid_push view put get qa pa ca pend s \<longleftrightarrow> uses put get s \<and>
     (case queues s qa of None \<Rightarrow> False | Some q \<Rightarrow>
        blocking q \<and> wait_lock q = Some False \<and>
        (case pend of
           None \<Rightarrow> stored_queue (view (pvt s)) q
         | Some m \<Rightarrow> sendable m \<and> stored_queue (view (pvt s)) (q\<lparr>msg_capacity := msg_capacity q + 1\<rparr>)
             \<and> unat (msg_capacity q) < 2 ^ 64 - 1
             \<and> view (pvt s) (le64 (msg_capacity q + 1)) = Some (msg_bytes (msg_of (msg_capacity q + 1) m))) \<and>
        (case producers s pa of None \<Rightarrow> False | Some p \<Rightarrow> p_owner_queue p = qa) \<and>
        (case consumers s ca of None \<Rightarrow> False | Some c \<Rightarrow>
           c_owner_queue c = qa \<and> last_fetch_index c \<le> msg_capacity q))"

lemma mid_push_None [simp]: "mid_push view put get qa pa ca None s = queue_ready view put get qa pa ca s"
  by (auto simp: mid_push_def queue_ready_def split: option.splits)

text \<open>What an application does to send and to receive.\<close>

definition xmq_send :: "addr \<Rightarrow> 'd xmq_context \<Rightarrow> bytes \<Rightarrow> 'd xmq_context option" where
  "xmq_send pa s d = do {
     m \<leftarrow> xmq_msg_new_data True (Some d) (of_nat (length d));
     (r, m, s) \<leftarrow> queue_push_tail s (Some pa) m;
     if r = 0 then Some s else None }"

definition xmq_receive :: "addr \<Rightarrow> 'd xmq_context \<Rightarrow> (bytes \<times> 'd xmq_context) option" where
  "xmq_receive ca s = do {
     (m, s) \<leftarrow> queue_fetch_next s (Some ca) 0 [];
     case m of Some (Ptr m) \<Rightarrow> Some (msg_data m, s) | _ \<Rightarrow> None }"

lemma set_queue_simps [simp]:
  "queues (set_queue a q s) = (queues s)(a := Some q)" "pvt (set_queue a q s) = pvt s"
  "producers (set_queue a q s) = producers s" "consumers (set_queue a q s) = consumers s"
  "put_KVs_cb (set_queue a q s) = put_KVs_cb s" "get_KVs_cb (set_queue a q s) = get_KVs_cb s"
  "allocs (set_queue a q s) = allocs s" "slack (set_queue a q s) = slack s"
  "node_tree_lock (set_queue a q s) = node_tree_lock s" "fresh (set_queue a q s) = fresh s"
  "active_queues (set_queue a q s) = active_queues s" "dead_queues (set_queue a q s) = dead_queues s"
  "queue_amount (set_queue a q s) = queue_amount s"
  by (simp_all add: set_queue_def)

lemma set_consumer_simps [simp]:
  "consumers (set_consumer a c s) = (consumers s)(a := Some c)" "pvt (set_consumer a c s) = pvt s"
  "producers (set_consumer a c s) = producers s" "queues (set_consumer a c s) = queues s"
  "put_KVs_cb (set_consumer a c s) = put_KVs_cb s" "get_KVs_cb (set_consumer a c s) = get_KVs_cb s"
  "allocs (set_consumer a c s) = allocs s" "slack (set_consumer a c s) = slack s"
  "node_tree_lock (set_consumer a c s) = node_tree_lock s" "fresh (set_consumer a c s) = fresh s"
  "active_queues (set_consumer a c s) = active_queues s" "dead_queues (set_consumer a c s) = dead_queues s"
  by (simp_all add: set_consumer_def)

lemma set_queue_triv [simp]: "queues s a = Some q \<Longrightarrow> set_queue a q s = s"
  by (simp add: set_queue_def fun_upd_idem)

lemma set_queue_twice [simp]: "set_queue a q (set_queue a r s) = set_queue a q s"
  by (simp add: set_queue_def)

lemma msg_of_wf: "sendable d \<Longrightarrow> msg_wf (msg_of i d)"
  using xmq_msg_new_data_wf(2) [of d i] by (simp add: sendable_def msg_of_def)

text \<open>The locking of the wait mutex around an update of the capacity.\<close>

lemma push_publish_bumps:
  assumes "queues s qa = Some q" "wait_lock q = Some False"
  shows "push_publish s qa = Some (set_queue qa (q\<lparr>msg_capacity := msg_capacity q + 1\<rparr>) s)"
proof -
  have e: "q\<lparr>msg_capacity := msg_capacity q + 1, wait_lock := Some False\<rparr> =
      q\<lparr>msg_capacity := msg_capacity q + 1\<rparr>"
    using assms(2) by (cases q) simp
  show ?thesis
    using assms by (simp add: push_publish_def lock_wait_def unlock_wait_def) (subst e, rule refl)
qed

lemma lock_unlock_wait:
  assumes "queues s qa = Some q" "wait_lock q = Some False"
  shows "lock_wait qa s = Some (set_queue qa (q\<lparr>wait_lock := Some True\<rparr>) s)"
    and "unlock_wait qa (set_queue qa (q\<lparr>wait_lock := Some True\<rparr>) s) = Some s"
proof -
  show "lock_wait qa s = Some (set_queue qa (q\<lparr>wait_lock := Some True\<rparr>) s)"
    using assms by (simp add: lock_wait_def)
  have e: "q\<lparr>wait_lock := Some False\<rparr> = q"
    using assms(2) by (cases q) simp
  show "unlock_wait qa (set_queue qa (q\<lparr>wait_lock := Some True\<rparr>) s) = Some s"
    using assms by (simp add: unlock_wait_def e)
qed

context reliable_store
begin

lemma load_bin: "uses put get s \<Longrightarrow> load_string_bin s k = Some (0, view (pvt s) k)"
  by (simp add: load_string_bin_def uses_def get_reads)

lemma read_u64: "uses put get s \<Longrightarrow> view (pvt s) k = Some (le64 n) \<Longrightarrow> uint64_read s k = Some (1, Some n)"
  by (simp add: uint64_read_def load_bin of_le64_le64)

lemma write_bin:
  assumes "uses put get s" "v \<noteq> []"
  obtains d where "write_string_bin s k v = (0, s\<lparr>pvt := d\<rparr>)" "view d = (view (pvt s))(k \<mapsto> v)"
proof -
  obtain d where "put (pvt s) [(k, v)] = (0, d)" "view d = put_all [(k, v)] (view (pvt s))"
    using put_does [of "[(k, v)]" "pvt s"] by auto
  then show ?thesis
    using that assms by (simp add: write_string_bin_def uses_def put_all_def)
qed

lemma write_u64:
  assumes "uses put get s"
  obtains d where "uint64_write s k n = (0, s\<lparr>pvt := d\<rparr>)" "view d = (view (pvt s))(k \<mapsto> le64 n)"
proof -
  have "le64 n \<noteq> []" using length_be(3) [of n] by (metis list.size(3) zero_neq_numeral)
  then show ?thesis
    using write_bin [OF assms] that by (metis uint64_write_def)
qed

lemma current_capacity_stored:
  assumes "uses put get s" "queues s qa = Some q"
    and "msg_capacity q \<noteq> 0 \<or> view (pvt s) k = Some (le64 (msg_capacity q))"
  shows "current_capacity s qa k = Some (Some (msg_capacity q), s)"
proof (cases "msg_capacity q = 0")
  case True
  then have "view (pvt s) k = Some (le64 (msg_capacity q))" using assms(3) by simp
  from read_u64 [OF assms(1) this] show ?thesis
    using assms(2) by (auto simp: current_capacity_def uint64_test_init_def)
next
  case False
  then show ?thesis using assms(2) by (simp add: current_capacity_def)
qed

lemma push_store_puts:
  assumes u: "uses put get s" and q: "queues s qa = Some q" "blocking q"
    and p: "producers s pa = Some p" "p_owner_queue p = qa"
    and st: "msg_capacity q \<noteq> 0 \<or> view (pvt s) (user_key ''CAPACITY'' (q_name q)) = Some (le64 (msg_capacity q))"
    and m: "msg_wf m"
  obtains d where
    "push_store s (Some pa) (Some m) = Some (0, Some (m\<lparr>msg_index := msg_capacity q + 1\<rparr>), Some qa, s\<lparr>pvt := d\<rparr>)"
    "view d = (view (pvt s))(le64 (msg_capacity q + 1) \<mapsto> msg_bytes (m\<lparr>msg_index := msg_capacity q + 1\<rparr>),
       user_key ''CAPACITY'' (q_name q) \<mapsto> le64 (msg_capacity q + 1))"
proof -
  let ?i = "msg_capacity q + 1" and ?k = "user_key ''CAPACITY'' (q_name q)"
  let ?m = "m\<lparr>msg_index := ?i\<rparr>"
  have e: "msg_entry ?m = msg_bytes ?m"
    using m by (intro msg_entry_wf) (simp add: msg_wf_def)
  obtain d where d: "put (pvt s) [(le64 ?i, msg_bytes ?m), (?k, le64 ?i)] = (0, d)"
      "view d = put_all [(le64 ?i, msg_bytes ?m), (?k, le64 ?i)] (view (pvt s))"
    using put_does [of "[(le64 ?i, msg_bytes ?m), (?k, le64 ?i)]"] by auto
  have "push_store s (Some pa) (Some m) = Some (0, Some ?m, Some qa, s\<lparr>pvt := d\<rparr>)"
    using u q p d(1) current_capacity_stored [OF u q(1) st]
    by (simp add: push_store_def xmq_keys uses_def xmq_msg_set_index_def e)
  then show ?thesis
    using that d(2) by (simp add: put_all_def)
qed

lemma fetch_stored:
  assumes u: "uses put get s" and q: "queues s (c_owner_queue c) = Some q"
    and c: "consumers s ca = Some c"
    and i: "i \<noteq> 0" "i \<le> msg_capacity q"
    and st: "view (pvt s) (le64 i) = Some (msg_bytes m)" "msg_wf m"
  obtains d where
    "fetch_commit s ca i = Some (Ptr m, set_consumer ca (c\<lparr>last_fetch_index := i\<rparr>) (s\<lparr>pvt := d\<rparr>))"
    "view d = (view (pvt s))(pos_key ''FETCHPOS'' (q_name q) (c_identity c) \<mapsto> le64 i)"
proof -
  have f: "msg_fetch s ca i = Some (Ptr m)"
    using u q c i st by (simp add: msg_fetch_def uses_def get_reads msg_total_size_wf)
  obtain d where "uint64_write s (pos_key ''FETCHPOS'' (q_name q) (c_identity c)) i = (0, s\<lparr>pvt := d\<rparr>)"
      "view d = (view (pvt s))(pos_key ''FETCHPOS'' (q_name q) (c_identity c) \<mapsto> le64 i)"
    using write_u64 [OF u] by blast
  then show ?thesis
    using that u q c f by (simp add: fetch_commit_def xmq_keys uses_def)
qed

end

lemma unat_plus1: "unat (x :: u64) < 2 ^ 64 - 1 \<Longrightarrow> unat (x + 1) = Suc (unat x)"
  by (simp add: unat_word_ariths)

lemma le_plus1: "unat (x :: u64) < 2 ^ 64 - 1 \<Longrightarrow> i \<le> x + 1 \<longleftrightarrow> i \<le> x \<or> i = x + 1"
  by (auto simp: word_le_nat_alt unat_plus1 word_unat_eq_iff)

lemma length_queue_log: "queues s qa = Some q \<Longrightarrow> length (queue_log view qa s) = unat (msg_capacity q)"
  by (simp add: queue_log_def)

lemma queue_log_nth:
  "queues s qa = Some q \<Longrightarrow> i < msg_capacity q \<Longrightarrow>
   queue_log view qa s ! unat i = stored_msg (view (pvt s)) (i + 1)"
  by (simp add: queue_log_def word_less_nat_alt add.commute)

lemma stored_msg_of [simp]: "m (le64 i) = Some (msg_bytes (msg_of j d)) \<Longrightarrow> stored_msg m i = d"
  by (simp add: stored_msg_def msg_bytes_def msg_of_def)

context reliable_store
begin

text \<open>The four steps of two threads, with a push of the one possibly under way while the other
  reads.\<close>

lemma store_step:
  assumes r: "mid_push view put get qa pa ca None s" and m: "sendable m"
    and room: "length (queue_log view qa s) < 2 ^ 64 - 1"
  shows "\<exists>m' s'. push_store s (Some pa) (Some (msg_of 0 m)) = Some (0, Some m', Some qa, s')
    \<and> mid_push view put get qa pa ca (Some m) s'
    \<and> queue_log view qa s' = queue_log view qa s \<and> consumers s' = consumers s"
proof -
  obtain q p c where u: "uses put get s" and q: "queues s qa = Some q" "blocking q" "wait_lock q = Some False"
    and st: "stored_queue (view (pvt s)) q" and p: "producers s pa = Some p" "p_owner_queue p = qa"
    and c: "consumers s ca = Some c" "c_owner_queue c = qa" "last_fetch_index c \<le> msg_capacity q"
    using r by (auto simp: queue_ready_def split: option.splits)
  let ?i = "msg_capacity q + 1"
  have cap: "unat (msg_capacity q) < 2 ^ 64 - 1" using room q by (simp add: length_queue_log)
  note i = unat_plus1 [OF cap]
  have key: "view (pvt s) (user_key ''CAPACITY'' (q_name q)) = Some (le64 (msg_capacity q))"
    using st by (simp add: stored_queue_def)
  obtain d where
    d: "push_store s (Some pa) (Some (msg_of 0 m)) = Some (0, Some ((msg_of 0 m)\<lparr>msg_index := ?i\<rparr>), Some qa, s\<lparr>pvt := d\<rparr>)"
    and vd: "view d = (view (pvt s))(le64 ?i \<mapsto> msg_bytes ((msg_of 0 m)\<lparr>msg_index := ?i\<rparr>),
       user_key ''CAPACITY'' (q_name q) \<mapsto> le64 ?i)"
    using push_store_puts [OF u q(1,2) p disjI2 [OF key] msg_of_wf [OF m]] by metis
  have mi: "(msg_of 0 m)\<lparr>msg_index := ?i\<rparr> = msg_of ?i m" by (simp add: msg_of_def)
  have new: "view d (le64 ?i) = Some (msg_bytes (msg_of ?i m))" using vd mi by simp
  have old: "i \<noteq> ?i \<Longrightarrow> view d (le64 i) = view (pvt s) (le64 i)" for i using vd by simp
  have neq: "i \<le> msg_capacity q \<Longrightarrow> i \<noteq> ?i" for i using i by (auto simp: word_le_nat_alt)
  have st': "stored_queue (view d) (q\<lparr>msg_capacity := ?i\<rparr>)"
    using st m new old neq vd by (auto simp: stored_queue_def le_plus1 [OF cap])
  have "stored_msg (view d) (of_nat (Suc i)) = stored_msg (view (pvt s)) (of_nat (Suc i))"
    if "i < unat (msg_capacity q)" for i
  proof -
    have "unat (of_nat (Suc i) :: u64) = Suc i"
      using that cap by (simp add: unat_of_nat take_bit_nat_eq_self del: of_nat_Suc)
    then have "(of_nat (Suc i) :: u64) \<noteq> ?i"
      using that i by (metis nat_neq_iff Suc_inject)
    then show ?thesis using old by (simp add: stored_msg_def)
  qed
  then have "queue_log view qa (s\<lparr>pvt := d\<rparr>) = queue_log view qa s"
    using q by (simp add: queue_log_def)
  moreover have "mid_push view put get qa pa ca (Some m) (s\<lparr>pvt := d\<rparr>)"
    using u q p c st' m new cap by (simp add: mid_push_def uses_def)
  ultimately show ?thesis using d by auto
qed

text \<open>Two producers that both read the capacity before either has advanced it store under the same
  index.\<close>

lemma stores_collide:
  assumes r: "queue_ready view put get qa pa ca s" and ab: "sendable a" "sendable b"
    and pb: "producers s pb = Some p2" "p_owner_queue p2 = qa"
    and q: "queues s qa = Some q" "msg_capacity q \<noteq> 0"
  shows "\<exists>m1 m2 s1 s2 s3. push_store s (Some pa) (Some (msg_of 0 a)) = Some (0, Some m1, Some qa, s1)
    \<and> push_store s1 (Some pb) (Some (msg_of 0 b)) = Some (0, Some m2, Some qa, s2)
    \<and> push_publish s2 qa = Some s3 \<and> push_publish s3 qa = Some (set_queue qa (q\<lparr>msg_capacity := msg_capacity q + 2\<rparr>) s2)
    \<and> msg_index m1 = msg_index m2
    \<and> view (pvt s2) = (view (pvt s))(le64 (msg_capacity q + 1) \<mapsto> msg_bytes (msg_of (msg_capacity q + 1) b),
        user_key ''CAPACITY'' (q_name q) \<mapsto> le64 (msg_capacity q + 1))"
proof -
  obtain p where u: "uses put get s" and bq: "blocking q" "wait_lock q = Some False"
    and p: "producers s pa = Some p" "p_owner_queue p = qa"
    using r q by (auto simp: queue_ready_def split: option.splits)
  let ?i = "msg_capacity q + 1"
  have mi: "(msg_of 0 x)\<lparr>msg_index := ?i\<rparr> = msg_of ?i x" for x by (simp add: msg_of_def)
  obtain d where d: "push_store s (Some pa) (Some (msg_of 0 a)) = Some (0, Some (msg_of ?i a), Some qa, s\<lparr>pvt := d\<rparr>)"
      "view d = (view (pvt s))(le64 ?i \<mapsto> msg_bytes (msg_of ?i a), user_key ''CAPACITY'' (q_name q) \<mapsto> le64 ?i)"
    using push_store_puts [OF u q(1) bq(1) p disjI1 [OF q(2)] msg_of_wf [OF ab(1)], of 0] unfolding mi by blast
  have u1: "uses put get (s\<lparr>pvt := d\<rparr>)" "queues (s\<lparr>pvt := d\<rparr>) qa = Some q" "producers (s\<lparr>pvt := d\<rparr>) pb = Some p2"
    using u q pb by (simp_all add: uses_def)
  obtain e where e: "push_store (s\<lparr>pvt := d\<rparr>) (Some pb) (Some (msg_of 0 b)) = Some (0, Some (msg_of ?i b), Some qa, s\<lparr>pvt := e\<rparr>)"
      "view e = (view d)(le64 ?i \<mapsto> msg_bytes (msg_of ?i b), user_key ''CAPACITY'' (q_name q) \<mapsto> le64 ?i)"
    using push_store_puts [OF u1(1,2) bq(1) u1(3) pb(2) disjI1 [OF q(2)] msg_of_wf [OF ab(2)], of 0] unfolding mi by auto
  let ?s2 = "s\<lparr>pvt := e\<rparr>"
  have s2: "queues ?s2 qa = Some q" using q by simp
  let ?s3 = "set_queue qa (q\<lparr>msg_capacity := ?i\<rparr>) ?s2"
  have "push_publish ?s2 qa = Some ?s3" by (rule push_publish_bumps [OF s2 bq(2)])
  moreover have "push_publish ?s3 qa = Some (set_queue qa (q\<lparr>msg_capacity := msg_capacity q + 2\<rparr>) ?s2)"
    using push_publish_bumps [of ?s3 qa "q\<lparr>msg_capacity := ?i\<rparr>"] bq by (simp add: add.assoc)
  moreover have "view e = (view (pvt s))(le64 ?i \<mapsto> msg_bytes (msg_of ?i b), user_key ''CAPACITY'' (q_name q) \<mapsto> le64 ?i)"
    using d(2) e(2) by (auto simp: fun_eq_iff)
  ultimately show ?thesis using d(1) e(1) by (auto simp: msg_of_def)
qed

lemma publish_step:
  assumes r: "mid_push view put get qa pa ca (Some m) s"
  shows "\<exists>s'. push_publish s qa = Some s' \<and> queue_ready view put get qa pa ca s'
    \<and> queue_log view qa s' = queue_log view qa s @ [m] \<and> consumers s' = consumers s"
proof -
  obtain q p c where u: "uses put get s" and q: "queues s qa = Some q" "blocking q" "wait_lock q = Some False"
    and st: "stored_queue (view (pvt s)) (q\<lparr>msg_capacity := msg_capacity q + 1\<rparr>)"
    and cap: "unat (msg_capacity q) < 2 ^ 64 - 1"
    and new: "view (pvt s) (le64 (msg_capacity q + 1)) = Some (msg_bytes (msg_of (msg_capacity q + 1) m))"
    and p: "producers s pa = Some p" "p_owner_queue p = qa"
    and c: "consumers s ca = Some c" "c_owner_queue c = qa" "last_fetch_index c \<le> msg_capacity q"
    using r by (auto simp: mid_push_def split: option.splits)
  let ?i = "msg_capacity q + 1"
  note i = unat_plus1 [OF cap]
  define s' where "s' = set_queue qa (q\<lparr>msg_capacity := ?i\<rparr>) s"
  have "last_fetch_index c \<le> ?i" using c(3) le_plus1 [OF cap] by simp
  then have "queue_ready view put get qa pa ca s'"
    using u q p c st by (simp add: queue_ready_def s'_def uses_def blocking_def)
  moreover have "stored_msg (view (pvt s)) (of_nat (Suc (unat (msg_capacity q)))) = m"
    using new by (simp add: add.commute)
  then have "queue_log view qa s' = queue_log view qa s @ [m]"
    using q by (simp add: queue_log_def s'_def i)
  ultimately show ?thesis using push_publish_bumps [OF q(1,3)] by (simp add: s'_def)
qed

lemma look_step:
  assumes r: "mid_push view put get qa pa ca pend s" and c: "consumers s ca = Some c"
    and lt: "fetched ca s < length (queue_log view qa s)"
  shows "fetch_admit s (c_owner_queue c) (last_fetch_index c + 1) 0 [] = Some (Ready, s)"
proof -
  obtain q where q: "queues s qa = Some q" "blocking q" "wait_lock q = Some False" and qa: "c_owner_queue c = qa"
    using r c by (auto simp: mid_push_def split: option.splits)
  have "unat (last_fetch_index c) < unat (msg_capacity q)" using lt q c by (simp add: fetched_def length_queue_log)
  moreover have "unat (msg_capacity q) < 2 ^ 64" using unsigned_less [of "msg_capacity q"] by simp
  ultimately have "\<not> last_fetch_index c + 1 > msg_capacity q"
    using unat_plus1 [of "last_fetch_index c"] by (simp add: word_less_nat_alt not_less)
  then show ?thesis using q qa lock_unlock_wait [OF q(1,3)] by (simp add: fetch_admit_def)
qed

lemma take_step:
  assumes r: "mid_push view put get qa pa ca pend s" and cc: "consumers s ca = Some c"
    and lt: "fetched ca s < length (queue_log view qa s)"
  shows "\<exists>msg s'. fetch_commit s ca (last_fetch_index c + 1) = Some (Ptr msg, s')
    \<and> msg_data msg = queue_log view qa s ! fetched ca s
    \<and> mid_push view put get qa pa ca pend s' \<and> queue_log view qa s' = queue_log view qa s
    \<and> fetched ca s' = Suc (fetched ca s)"
proof -
  obtain q p where u: "uses put get s" and q: "queues s qa = Some q" "blocking q" "wait_lock q = Some False"
    and st: "stored_queue (view (pvt s)) (if pend = None then q else q\<lparr>msg_capacity := msg_capacity q + 1\<rparr>)"
    and pend: "\<And>m. pend = Some m \<Longrightarrow> sendable m \<and> unat (msg_capacity q) < 2 ^ 64 - 1
             \<and> view (pvt s) (le64 (msg_capacity q + 1)) = Some (msg_bytes (msg_of (msg_capacity q + 1) m))"
    and p: "producers s pa = Some p" "p_owner_queue p = qa"
    and c: "c_owner_queue c = qa" "last_fetch_index c \<le> msg_capacity q"
    using r cc by (auto simp: mid_push_def split: option.splits)
  let ?i = "last_fetch_index c + 1"
  have lt': "last_fetch_index c < msg_capacity q"
    using lt q cc by (simp add: fetched_def length_queue_log word_less_nat_alt)
  have "unat (msg_capacity q) < 2 ^ 64" using unsigned_less [of "msg_capacity q"] by simp
  with lt' have cap: "unat (last_fetch_index c) < 2 ^ 64 - 1"
    by (simp add: word_less_nat_alt)
  note i = unat_plus1 [OF cap]
  have i0: "?i \<noteq> 0" "?i \<le> msg_capacity q"
    using i lt' by (auto simp: word_le_nat_alt word_less_nat_alt)
  have "pend \<noteq> None \<Longrightarrow> ?i \<le> msg_capacity q + 1" using pend i0 le_plus1 [of "msg_capacity q" ?i] by blast
  then obtain m where m: "sendable m" "view (pvt s) (le64 ?i) = Some (msg_bytes (msg_of ?i m))"
    using st i0 by (auto simp: stored_queue_def split: if_splits)
  obtain d where d: "fetch_commit s ca ?i = Some (Ptr (msg_of ?i m),
      set_consumer ca (c\<lparr>last_fetch_index := ?i\<rparr>) (s\<lparr>pvt := d\<rparr>))"
    and vd: "view d = (view (pvt s))(pos_key ''FETCHPOS'' (q_name q) (c_identity c) \<mapsto> le64 ?i)"
    using fetch_stored [OF u _ cc i0 m(2) msg_of_wf [OF m(1)]] q c by metis
  define s' where "s' = set_consumer ca (c\<lparr>last_fetch_index := ?i\<rparr>) (s\<lparr>pvt := d\<rparr>)"
  have "stored_queue (view d) (if pend = None then q else q\<lparr>msg_capacity := msg_capacity q + 1\<rparr>)"
    using st vd by (simp add: stored_queue_def split: if_splits)
  then have "mid_push view put get qa pa ca pend s'"
    using u q p c i0 pend vd by (auto simp: mid_push_def s'_def uses_def split: option.splits)
  moreover have "queue_log view qa s' = queue_log view qa s"
    using q vd by (simp add: queue_log_def s'_def stored_msg_def)
  moreover have "queue_log view qa s ! fetched ca s = m"
    using queue_log_nth [OF q(1) lt', of view] m cc by (simp add: fetched_def)
  moreover have "fetched ca s' = Suc (fetched ca s)" using cc i by (simp add: fetched_def s'_def)
  ultimately show ?thesis using d by (auto simp: s'_def [symmetric] msg_of_def)
qed

lemma send_appends:
  assumes r: "queue_ready view put get qa pa ca s" and m: "sendable m"
    and room: "length (queue_log view qa s) < 2 ^ 64 - 1"
  shows "\<exists>s'. xmq_send pa s m = Some s' \<and> queue_ready view put get qa pa ca s'
    \<and> queue_log view qa s' = queue_log view qa s @ [m] \<and> fetched ca s' = fetched ca s"
proof -
  obtain m' s1 where s1: "push_store s (Some pa) (Some (msg_of 0 m)) = Some (0, Some m', Some qa, s1)"
      "mid_push view put get qa pa ca (Some m) s1" "queue_log view qa s1 = queue_log view qa s" "consumers s1 = consumers s"
    using store_step [OF _ m room, of pa ca] r by auto
  obtain s2 where s2: "push_publish s1 qa = Some s2" "queue_ready view put get qa pa ca s2"
      "queue_log view qa s2 = queue_log view qa s1 @ [m]" "consumers s2 = consumers s1"
    using publish_step [OF s1(2)] by blast
  have "xmq_send pa s m = Some s2"
    using s1(1) s2(1) xmq_msg_new_data_wf(1) [of m] m
    by (simp add: xmq_send_def queue_push_tail_def sendable_def msg_of_def)
  then show ?thesis using s1 s2 by (simp add: fetched_def)
qed

lemma receive_reads:
  assumes r: "queue_ready view put get qa pa ca s" and lt: "fetched ca s < length (queue_log view qa s)"
  shows "\<exists>s'. xmq_receive ca s = Some (queue_log view qa s ! fetched ca s, s')
    \<and> queue_ready view put get qa pa ca s' \<and> queue_log view qa s' = queue_log view qa s
    \<and> fetched ca s' = Suc (fetched ca s)"
proof -
  obtain c where c: "consumers s ca = Some c" using r by (auto simp: queue_ready_def split: option.splits)
  have mp: "mid_push view put get qa pa ca None s" using r by simp
  obtain msg s' where "fetch_commit s ca (last_fetch_index c + 1) = Some (Ptr msg, s')"
      "msg_data msg = queue_log view qa s ! fetched ca s" "queue_ready view put get qa pa ca s'"
      "queue_log view qa s' = queue_log view qa s" "fetched ca s' = Suc (fetched ca s)"
    using take_step [OF mp c lt] by auto
  then show ?thesis using look_step [OF mp c lt] c
    by (simp add: xmq_receive_def queue_fetch_next_def queue_fetch_nth_def)
qed

end

sublocale reliable_store \<subseteq> xlog: message_log "queue_ready view put get qa pa ca" "queue_log view qa"
    "fetched ca" "2 ^ 64 - 1" sendable "xmq_send pa" "xmq_receive ca" for qa pa ca
proof
  fix s
  assume "queue_ready view put get qa pa ca s"
  then show "fetched ca s \<le> length (queue_log view qa s)"
    by (auto simp: queue_ready_def fetched_def length_queue_log word_le_nat_alt split: option.splits)
qed (rule send_appends receive_reads; assumption)+

section \<open>A producer and a consumer thread\<close>

text \<open>Two threads on one queue. A push is the two steps \<open>Store\<close> and \<open>Publish\<close>, a fetch of the next
  message that does not have to wait the two steps \<open>Look\<close> and \<open>Take\<close>; the steps of the two threads
  come in any order. The state keeps what each thread has under way: the queue whose capacity is
  still to be advanced, and the index that was found to be there.\<close>

datatype thread_step = Store bytes | Publish | Look | Take

record 'd threads =
  th_push :: "addr option"
  th_fetch :: "u64 option"
  th_ctx :: "'d xmq_context"

definition thread_does :: "addr \<Rightarrow> addr \<Rightarrow> thread_step \<Rightarrow> 'd threads \<Rightarrow> (bytes option \<times> 'd threads) option" where
  "thread_does pa ca x t = (case x of
     Store d \<Rightarrow> do {
       asserting (th_push t = None);
       m \<leftarrow> xmq_msg_new_data True (Some d) (of_nat (length d));
       (r, m, rest, s) \<leftarrow> push_store (th_ctx t) (Some pa) m;
       asserting (r = 0);
       Some (None, t\<lparr>th_push := rest, th_ctx := s\<rparr>) }
   | Publish \<Rightarrow> do {
       qa \<leftarrow> th_push t;
       s \<leftarrow> push_publish (th_ctx t) qa;
       Some (None, t\<lparr>th_push := None, th_ctx := s\<rparr>) }
   | Look \<Rightarrow> do {
       asserting (th_fetch t = None);
       c \<leftarrow> consumers (th_ctx t) ca;
       (w, s) \<leftarrow> fetch_admit (th_ctx t) (c_owner_queue c) (last_fetch_index c + 1) 0 [];
       asserting (w = Ready);
       Some (None, t\<lparr>th_fetch := Some (last_fetch_index c + 1), th_ctx := s\<rparr>) }
   | Take \<Rightarrow> do {
       i \<leftarrow> th_fetch t;
       (m, s) \<leftarrow> fetch_commit (th_ctx t) ca i;
       case m of Ptr m \<Rightarrow> Some (Some (msg_data m), t\<lparr>th_fetch := None, th_ctx := s\<rparr>) | _ \<Rightarrow> None })"

primrec run_threads :: "addr \<Rightarrow> addr \<Rightarrow> thread_step list \<Rightarrow> 'd threads \<Rightarrow> (bytes list \<times> 'd threads) option" where
  "run_threads pa ca [] t = Some ([], t)"
| "run_threads pa ca (x # xs) t = do {
     (out, t) \<leftarrow> thread_does pa ca x t;
     (outs, t) \<leftarrow> run_threads pa ca xs t;
     Some ((case out of None \<Rightarrow> outs | Some m \<Rightarrow> m # outs), t) }"

primrec stored :: "thread_step list \<Rightarrow> bytes list" where
  "stored [] = []"
| "stored (x # xs) = (case x of Store d \<Rightarrow> d # stored xs | _ \<Rightarrow> stored xs)"

primrec takes :: "thread_step list \<Rightarrow> nat" where
  "takes [] = 0"
| "takes (x # xs) = (if x = Take then Suc (takes xs) else takes xs)"

text \<open>Each thread does its own steps in turn, and with \<open>n\<close> published and unread messages at the start
  the consumer looks only when there is one.\<close>

primrec in_turn :: "nat \<Rightarrow> bool \<Rightarrow> bool \<Rightarrow> thread_step list \<Rightarrow> bool" where
  "in_turn n pushing fetching [] \<longleftrightarrow> True"
| "in_turn n pushing fetching (x # xs) \<longleftrightarrow> (case x of
     Store d \<Rightarrow> \<not> pushing \<and> sendable d \<and> in_turn n True fetching xs
   | Publish \<Rightarrow> pushing \<and> in_turn (Suc n) False fetching xs
   | Look \<Rightarrow> \<not> fetching \<and> 0 < n \<and> in_turn (n - 1) pushing True xs
   | Take \<Rightarrow> fetching \<and> in_turn n pushing False xs)"

abbreviation pending :: "'a option \<Rightarrow> 'a list" where
  "pending pend \<equiv> (case pend of None \<Rightarrow> [] | Some m \<Rightarrow> [m])"

definition threads_at ::
  "('d \<Rightarrow> bytes \<rightharpoonup> bytes) \<Rightarrow> 'd put_KVs_fn \<Rightarrow> 'd get_KVs_fn \<Rightarrow> addr \<Rightarrow> addr \<Rightarrow> addr \<Rightarrow> bytes option \<Rightarrow> 'd threads \<Rightarrow> bool" where
  "threads_at view put get qa pa ca pend t \<longleftrightarrow> mid_push view put get qa pa ca pend (th_ctx t)
     \<and> th_push t = map_option (\<lambda>_. qa) pend
     \<and> (\<forall>i. th_fetch t = Some i \<longrightarrow> fetched ca (th_ctx t) < length (queue_log view qa (th_ctx t))
          \<and> (\<exists>c. consumers (th_ctx t) ca = Some c \<and> i = last_fetch_index c + 1))"

lemma mid_push_fetched: "mid_push view put get qa pa ca pend s \<Longrightarrow> fetched ca s \<le> length (queue_log view qa s)"
  by (auto simp: mid_push_def fetched_def length_queue_log word_le_nat_alt split: option.splits)

lemma mid_push_consumer: "mid_push view put get qa pa ca pend s \<Longrightarrow> \<exists>c. consumers s ca = Some c"
  by (auto simp: mid_push_def split: option.splits)

text \<open>The messages that have been published and that the consumer has not looked for.\<close>

definition unread :: "('d \<Rightarrow> bytes \<rightharpoonup> bytes) \<Rightarrow> addr \<Rightarrow> addr \<Rightarrow> 'd threads \<Rightarrow> nat" where
  "unread view qa ca t = length (queue_log view qa (th_ctx t)) - fetched ca (th_ctx t) - (if th_fetch t = None then 0 else 1)"

context reliable_store
begin

lemma thread_stores:
  assumes "threads_at view put get qa pa ca None t" "sendable d" "length (queue_log view qa (th_ctx t)) < 2 ^ 64 - 1"
  shows "\<exists>t1. thread_does pa ca (Store d) t = Some (None, t1) \<and> threads_at view put get qa pa ca (Some d) t1
    \<and> queue_log view qa (th_ctx t1) = queue_log view qa (th_ctx t) \<and> fetched ca (th_ctx t1) = fetched ca (th_ctx t)
    \<and> th_fetch t1 = th_fetch t"
proof -
  have mp: "mid_push view put get qa pa ca None (th_ctx t)" using assms(1) by (simp add: threads_at_def)
  obtain m' s' where s': "push_store (th_ctx t) (Some pa) (Some (msg_of 0 d)) = Some (0, Some m', Some qa, s')"
      "mid_push view put get qa pa ca (Some d) s'" "queue_log view qa s' = queue_log view qa (th_ctx t)"
      "consumers s' = consumers (th_ctx t)"
    using store_step [OF mp assms(2,3)] by blast
  have "thread_does pa ca (Store d) t = Some (None, t\<lparr>th_push := Some qa, th_ctx := s'\<rparr>)"
    using s'(1) assms(1,2) xmq_msg_new_data_wf(1) [of d]
    by (simp add: thread_does_def threads_at_def sendable_def msg_of_def)
  moreover have "threads_at view put get qa pa ca (Some d) (t\<lparr>th_push := Some qa, th_ctx := s'\<rparr>)"
    using assms(1) s' by (simp add: threads_at_def fetched_def)
  ultimately show ?thesis using s' by (simp add: fetched_def)
qed

lemma thread_publishes:
  assumes "threads_at view put get qa pa ca (Some m) t"
  shows "\<exists>t1. thread_does pa ca Publish t = Some (None, t1) \<and> threads_at view put get qa pa ca None t1
    \<and> queue_log view qa (th_ctx t1) = queue_log view qa (th_ctx t) @ [m] \<and> fetched ca (th_ctx t1) = fetched ca (th_ctx t)
    \<and> th_fetch t1 = th_fetch t"
proof -
  have mp: "mid_push view put get qa pa ca (Some m) (th_ctx t)" using assms by (simp add: threads_at_def)
  obtain s' where s': "push_publish (th_ctx t) qa = Some s'" "queue_ready view put get qa pa ca s'"
      "queue_log view qa s' = queue_log view qa (th_ctx t) @ [m]" "consumers s' = consumers (th_ctx t)"
    using publish_step [OF mp] by blast
  have "thread_does pa ca Publish t = Some (None, t\<lparr>th_push := None, th_ctx := s'\<rparr>)"
    using s'(1) assms by (simp add: thread_does_def threads_at_def)
  moreover have "threads_at view put get qa pa ca None (t\<lparr>th_push := None, th_ctx := s'\<rparr>)"
    using assms s' by (auto simp: threads_at_def fetched_def)
  ultimately show ?thesis using s' by (simp add: fetched_def)
qed

lemma thread_looks:
  assumes "threads_at view put get qa pa ca pend t" "th_fetch t = None"
    and lt: "fetched ca (th_ctx t) < length (queue_log view qa (th_ctx t))"
  shows "\<exists>t1 i. thread_does pa ca Look t = Some (None, t1) \<and> threads_at view put get qa pa ca pend t1
    \<and> th_ctx t1 = th_ctx t \<and> th_fetch t1 = Some i"
proof -
  have mp: "mid_push view put get qa pa ca pend (th_ctx t)" using assms by (simp add: threads_at_def)
  obtain c where c: "consumers (th_ctx t) ca = Some c" using mid_push_consumer [OF mp] by blast
  have "thread_does pa ca Look t = Some (None, t\<lparr>th_fetch := Some (last_fetch_index c + 1), th_ctx := th_ctx t\<rparr>)"
    using look_step [OF mp c lt] assms(2) c by (simp add: thread_does_def)
  moreover have "threads_at view put get qa pa ca pend (t\<lparr>th_fetch := Some (last_fetch_index c + 1), th_ctx := th_ctx t\<rparr>)"
    using assms c by (simp add: threads_at_def)
  ultimately show ?thesis by simp
qed

lemma thread_takes:
  assumes "threads_at view put get qa pa ca pend t" "th_fetch t = Some i"
  shows "\<exists>t1. thread_does pa ca Take t = Some (Some (queue_log view qa (th_ctx t) ! fetched ca (th_ctx t)), t1)
    \<and> threads_at view put get qa pa ca pend t1 \<and> queue_log view qa (th_ctx t1) = queue_log view qa (th_ctx t)
    \<and> fetched ca (th_ctx t1) = Suc (fetched ca (th_ctx t)) \<and> th_fetch t1 = None
    \<and> fetched ca (th_ctx t) < length (queue_log view qa (th_ctx t))"
proof -
  have mp: "mid_push view put get qa pa ca pend (th_ctx t)" using assms by (simp add: threads_at_def)
  obtain c where c: "consumers (th_ctx t) ca = Some c" "i = last_fetch_index c + 1"
      and lt: "fetched ca (th_ctx t) < length (queue_log view qa (th_ctx t))"
    using assms by (auto simp: threads_at_def)
  obtain msg s' where s': "fetch_commit (th_ctx t) ca i = Some (Ptr msg, s')"
      "msg_data msg = queue_log view qa (th_ctx t) ! fetched ca (th_ctx t)"
      "mid_push view put get qa pa ca pend s'" "queue_log view qa s' = queue_log view qa (th_ctx t)"
      "fetched ca s' = Suc (fetched ca (th_ctx t))"
    using take_step [OF mp c(1) lt] c(2) by blast
  have "thread_does pa ca Take t = Some (Some (msg_data msg), t\<lparr>th_fetch := None, th_ctx := s'\<rparr>)"
    using s'(1) assms(2) by (simp add: thread_does_def)
  moreover have "threads_at view put get qa pa ca pend (t\<lparr>th_fetch := None, th_ctx := s'\<rparr>)"
    using assms(1) s'(3) by (simp add: threads_at_def)
  ultimately show ?thesis using s' lt by simp
qed

lemma threads_deliver:
  "threads_at view put get qa pa ca pend t \<Longrightarrow>
   in_turn (unread view qa ca t) (pend \<noteq> None) (th_fetch t \<noteq> None) xs \<Longrightarrow>
   length (queue_log view qa (th_ctx t)) + length (pending pend) + length (stored xs) < 2 ^ 64 \<Longrightarrow>
   \<exists>t' pend'. run_threads pa ca xs t =
       Some (take (takes xs) (drop (fetched ca (th_ctx t)) (queue_log view qa (th_ctx t) @ pending pend @ stored xs)), t')
     \<and> threads_at view put get qa pa ca pend' t'
     \<and> queue_log view qa (th_ctx t') @ pending pend' = queue_log view qa (th_ctx t) @ pending pend @ stored xs
     \<and> fetched ca (th_ctx t') = fetched ca (th_ctx t) + takes xs"
proof (induction xs arbitrary: t pend)
  case Nil
  then show ?case by auto
next
  case (Cons x xs)
  let ?log = "queue_log view qa (th_ctx t)" and ?f = "fetched ca (th_ctx t)"
  have fl: "?f \<le> length ?log" using Cons.prems(1) mid_push_fetched by (auto simp: threads_at_def)
  show ?case
  proof (cases x)
    case (Store d)
    then have p: "pend = None" "sendable d" using Cons.prems(2) by simp_all
    obtain t1 where t1: "thread_does pa ca (Store d) t = Some (None, t1)" "threads_at view put get qa pa ca (Some d) t1"
        "queue_log view qa (th_ctx t1) = ?log" "fetched ca (th_ctx t1) = ?f" "th_fetch t1 = th_fetch t"
      using thread_stores [of qa pa ca t d] Cons.prems p Store by auto
    have "unread view qa ca t1 = unread view qa ca t" using t1 by (simp add: unread_def)
    then show ?thesis using Cons.IH [OF t1(2)] Cons.prems t1 p Store by simp
  next
    case Publish
    then obtain m where p: "pend = Some m" using Cons.prems(2) by auto
    obtain t1 where t1: "thread_does pa ca Publish t = Some (None, t1)" "threads_at view put get qa pa ca None t1"
        "queue_log view qa (th_ctx t1) = ?log @ [m]" "fetched ca (th_ctx t1) = ?f" "th_fetch t1 = th_fetch t"
      using thread_publishes [of qa pa ca m t] Cons.prems p by auto
    have "th_fetch t \<noteq> None \<Longrightarrow> ?f < length ?log" using Cons.prems(1) by (auto simp: threads_at_def)
    then have "unread view qa ca t1 = Suc (unread view qa ca t)" using t1 fl by (auto simp: unread_def)
    then show ?thesis using Cons.IH [OF t1(2)] Cons.prems t1 p Publish by simp
  next
    case Look
    then have n: "th_fetch t = None" "0 < unread view qa ca t" using Cons.prems(2) by auto
    then obtain t1 i where t1: "thread_does pa ca Look t = Some (None, t1)" "threads_at view put get qa pa ca pend t1"
        "th_ctx t1 = th_ctx t" "th_fetch t1 = Some i"
      using thread_looks [OF Cons.prems(1)] by (auto simp: unread_def)
    have "unread view qa ca t1 = unread view qa ca t - 1" using t1 n by (simp add: unread_def)
    then show ?thesis using Cons.IH [OF t1(2)] Cons.prems t1 Look by simp
  next
    case Take
    then obtain i where i: "th_fetch t = Some i" using Cons.prems(2) by auto
    obtain t1 where t1: "thread_does pa ca Take t = Some (Some (?log ! ?f), t1)" "threads_at view put get qa pa ca pend t1"
        "queue_log view qa (th_ctx t1) = ?log" "fetched ca (th_ctx t1) = Suc ?f" "th_fetch t1 = None" "?f < length ?log"
      using thread_takes [OF Cons.prems(1) i] by blast
    have d: "drop ?f (?log @ ys) = ?log ! ?f # drop (Suc ?f) (?log @ ys)" for ys
      using t1(6) by (metis Cons_nth_drop_Suc length_append nth_append trans_less_add1)
    have "unread view qa ca t1 = unread view qa ca t" using t1 i by (simp add: unread_def)
    then show ?thesis using Cons.IH [OF t1(2)] Cons.prems t1 i Take d [of "pending pend @ stored xs"] by auto
  qed
qed

end

context leveldb_healthy
begin

lemmas queue_delivers = xlog.run_delivers
lemmas driver_threads_deliver = threads_deliver
lemmas driver_stores_collide = stores_collide

end

end
