(* ===== verification/Xmq_Session.thy ===== *)
theory Xmq_Session
  imports Xmq_Log
begin

text \<open>
  Bringing a queue into use: loading the stored lists of names, initialising a context,
  opening a queue that is new or known, registering a producer and a consumer. All lemmas
  are proved for a storage that does not fail and end in a queue ready for use.
\<close>

section \<open>Loading names\<close>

definition csv_stored :: "(bytes \<rightharpoonup> bytes) \<Rightarrow> bytes \<Rightarrow> bytes list \<Rightarrow> bool" where
  "csv_stored m k names \<longleftrightarrow> list_all csv_name names \<and>
     m k = (if names = [] then None else Some (csv_join names @ [0]))"

primrec new_nodes :: "nat \<Rightarrow> addr \<Rightarrow> nat \<Rightarrow> bytes list \<Rightarrow> 'd xmq_context \<Rightarrow> 'd xmq_context" where
  "new_nodes ty parent i [] s = s"
| "new_nodes ty parent i (n # ns) s = new_nodes ty parent (i + 1) ns (new_node ty n parent i s)"

lemma new_node_simps [simp]:
  "allocs (new_node ty n parent i s) = allocs s" "slack (new_node ty n parent i s) = slack s"
  "fresh (new_node ty n parent i s) = Suc (fresh s)" "pvt (new_node ty n parent i s) = pvt s"
  "put_KVs_cb (new_node ty n parent i s) = put_KVs_cb s" "get_KVs_cb (new_node ty n parent i s) = get_KVs_cb s"
  "node_tree_lock (new_node ty n parent i s) = node_tree_lock s"
  "active_queues (new_node ty n parent i s) = active_queues s"
  "dead_queues (new_node ty n parent i s) = dead_queues s"
  by (simp_all add: new_node_def Let_def)

lemma new_nodes_simps [simp]:
  "allocs (new_nodes ty parent i ns s) = allocs s" "slack (new_nodes ty parent i ns s) = slack s"
  "fresh (new_nodes ty parent i ns s) = fresh s + length ns" "pvt (new_nodes ty parent i ns s) = pvt s"
  "put_KVs_cb (new_nodes ty parent i ns s) = put_KVs_cb s" "get_KVs_cb (new_nodes ty parent i ns s) = get_KVs_cb s"
  "node_tree_lock (new_nodes ty parent i ns s) = node_tree_lock s"
  "active_queues (new_nodes ty parent i ns s) = active_queues s"
  "dead_queues (new_nodes ty parent i ns s) = dead_queues s"
  by (induction ns arbitrary: i s) simp_all

lemmas type_codes = TYPE_XMQ_QUEUE_def TYPE_XMQ_PRODUCER_def TYPE_XMQ_CONSUMER_def

lemma new_node_stores:
  "queues (new_node TYPE_XMQ_QUEUE n parent i s) =
     (queues s)(fresh s \<mapsto> (queue_zero n)\<lparr>q_id := of_nat i\<rparr>)"
  "producers (new_node TYPE_XMQ_QUEUE n parent i s) = producers s"
  "consumers (new_node TYPE_XMQ_QUEUE n parent i s) = consumers s"
  "queues (new_node TYPE_XMQ_PRODUCER n parent i s) = queues s"
  "producers (new_node TYPE_XMQ_PRODUCER n parent i s) =
     (producers s)(fresh s \<mapsto> \<lparr>p_identity = n, p_owner_queue = parent\<rparr>)"
  "consumers (new_node TYPE_XMQ_PRODUCER n parent i s) = consumers s"
  "queues (new_node TYPE_XMQ_CONSUMER n parent i s) = queues s"
  "producers (new_node TYPE_XMQ_CONSUMER n parent i s) = producers s"
  "consumers (new_node TYPE_XMQ_CONSUMER n parent i s) =
     (consumers s)(fresh s \<mapsto> (consumer_zero n parent)\<lparr>c_slot := of_nat i\<rparr>)"
  by (simp_all add: new_node_def type_codes Let_def)

text \<open>The block of nodes that loading a list of names adds to a store.\<close>

definition block :: "addr \<Rightarrow> (nat \<Rightarrow> bytes \<Rightarrow> 'n) \<Rightarrow> bytes list \<Rightarrow> (addr \<rightharpoonup> 'n) \<Rightarrow> (addr \<rightharpoonup> 'n)" where
  "block base mk ns m a = (if base \<le> a \<and> a < base + length ns
     then Some (mk (a - base) (ns ! (a - base))) else m a)"

lemma block_Nil [simp]: "block base mk [] m = m"
  by (auto simp: block_def fun_eq_iff)

lemma block_Cons:
  "block (Suc base) (\<lambda>j. mk (Suc j)) ns (m(base \<mapsto> mk 0 n)) = block base mk (n # ns) m"
proof
  fix a
  show "block (Suc base) (\<lambda>j. mk (Suc j)) ns (m(base \<mapsto> mk 0 n)) a = block base mk (n # ns) m a"
  proof (cases "base < a")
    case True
    then obtain j where "a = base + Suc j" using less_iff_Suc_add by auto
    then show ?thesis by (simp add: block_def)
  qed (auto simp: block_def)
qed

lemma new_nodes_queues:
  "queues (new_nodes TYPE_XMQ_QUEUE parent i ns s) =
     block (fresh s) (\<lambda>j n. (queue_zero n)\<lparr>q_id := of_nat (i + j)\<rparr>) ns (queues s)"
proof (induction ns arbitrary: i s)
  case (Cons n ns)
  show ?case
    using Cons.IH [of "i + 1" "new_node TYPE_XMQ_QUEUE n parent i s"]
      block_Cons [of "fresh s" "\<lambda>j n. (queue_zero n)\<lparr>q_id := of_nat (i + j)\<rparr>" ns "queues s" n]
    by (simp add: new_node_stores fun_upd_def)
qed simp

lemma new_nodes_producers:
  "producers (new_nodes TYPE_XMQ_PRODUCER parent i ns s) =
     block (fresh s) (\<lambda>j n. \<lparr>p_identity = n, p_owner_queue = parent\<rparr>) ns (producers s)"
proof (induction ns arbitrary: i s)
  case (Cons n ns)
  show ?case
    using Cons.IH [of "i + 1" "new_node TYPE_XMQ_PRODUCER n parent i s"]
      block_Cons [of "fresh s" "\<lambda>j n. \<lparr>p_identity = n, p_owner_queue = parent\<rparr>" ns "producers s" n]
    by (simp add: new_node_stores fun_upd_def)
qed simp

lemma new_nodes_consumers:
  "consumers (new_nodes TYPE_XMQ_CONSUMER parent i ns s) =
     block (fresh s) (\<lambda>j n. (consumer_zero n parent)\<lparr>c_slot := of_nat (i + j)\<rparr>) ns (consumers s)"
proof (induction ns arbitrary: i s)
  case (Cons n ns)
  show ?case
    using Cons.IH [of "i + 1" "new_node TYPE_XMQ_CONSUMER n parent i s"]
      block_Cons [of "fresh s" "\<lambda>j n. (consumer_zero n parent)\<lparr>c_slot := of_nat (i + j)\<rparr>" ns "consumers s" n]
    by (simp add: new_node_stores fun_upd_def)
qed simp

lemma new_nodes_others [simp]:
  "producers (new_nodes TYPE_XMQ_QUEUE parent i ns s) = producers s"
  "consumers (new_nodes TYPE_XMQ_QUEUE parent i ns s) = consumers s"
  "queues (new_nodes TYPE_XMQ_PRODUCER parent i ns s) = queues s"
  "consumers (new_nodes TYPE_XMQ_PRODUCER parent i ns s) = consumers s"
  "queues (new_nodes TYPE_XMQ_CONSUMER parent i ns s) = queues s"
  "producers (new_nodes TYPE_XMQ_CONSUMER parent i ns s) = producers s"
  by (induction ns arbitrary: i s) (simp_all add: new_node_stores)

lemma csv_to_nodes_names:
  "allocs s = [] \<Longrightarrow> map (field_name csv) fs = map Some ns \<Longrightarrow>
   csv_to_nodes s csv ty parent i head fs =
     Some (int (i + length ns), head @ [fresh s..<fresh s + length ns], new_nodes ty parent i ns s)"
proof (induction fs arbitrary: i head s ns)
  case (Cons f fs)
  then obtain n ns' where ns: "ns = n # ns'" "field_name csv f = Some n" by (cases ns) auto
  have u: "[fresh s..<fresh s + length ns] = fresh s # [Suc (fresh s)..<fresh s + length ns]"
    using ns by (intro upt_conv_Cons) simp
  have "csv_to_nodes s csv ty parent i head (f # fs) =
      csv_to_nodes (new_node ty n parent i s) csv ty parent (i + 1) (head @ [fresh s]) fs"
    using Cons.prems ns by simp
  also have "\<dots> = Some (int (i + length ns), (head @ [fresh s]) @ [Suc (fresh s)..<fresh s + length ns],
      new_nodes ty parent i ns s)"
    using Cons.IH [of "new_node ty n parent i s" ns' "i + 1" "head @ [fresh s]"] Cons.prems ns
    by (simp del: upt_Suc)
  finally show ?case using u by (simp del: upt_Suc)
qed simp

lemma parse_names_stored:
  assumes "allocs s = []" "list_all csv_name names" "names \<noteq> []"
  shows "parse_names s xmq_csv_parser_init (csv_join names) =
    (int (length names), \<lparr>csv_string = Some (csv_join names), csv_fields = Some (fields_at 0 names),
       csv_count = length names\<rparr>, s)"
  using assms csv_loop_join [of names "[]" "[]"]
  by (simp add: parse_names_def xmq_csv_parse_string_def csv_parse_def xmq_csv_parser_init_def)

context reliable_store
begin

lemma load_list:
  assumes u: "uses put get s" and st: "csv_stored (view (pvt s)) k names"
    and ty: "ty \<in> {TYPE_XMQ_QUEUE, TYPE_XMQ_PRODUCER, TYPE_XMQ_CONSUMER}"
  shows "load_string_list s k [] ty parent =
    Some (int (length names), [fresh s..<fresh s + length names], new_nodes ty parent 0 names s)"
proof (cases "names = []")
  case True
  then show ?thesis
    using u st load_bin [OF u, of k]
    by (simp add: load_string_list_def load_string_string_def csv_stored_def uses_def)
next
  case False
  have names: "list_all csv_name names" and v: "view (pvt s) k = Some (csv_join names @ [0])"
    using st False by (simp_all add: csv_stored_def)
  have a: "allocs s = []" and g: "get_KVs_cb s \<noteq> None" using u by (simp_all add: uses_def)
  let ?csv = "\<lparr>csv_string = Some (csv_join names), csv_fields = Some (fields_at 0 names), csv_count = length names\<rparr>"
  have f: "map (field_name ?csv) (fields_at 0 names) = map Some names"
    using field_names_at [of ?csv "[]" names] names by simp
  obtain x xs where "fields_at 0 names = x # xs"
    using False by (cases names) simp_all
  then have "csv_to_list s ?csv [] ty parent = csv_to_nodes s ?csv ty parent 0 [] (fields_at 0 names)"
    using ty by (simp add: csv_to_list_def)
  also have "\<dots> = Some (int (length names), [fresh s..<fresh s + length names], new_nodes ty parent 0 names s)"
    using csv_to_nodes_names [OF a f] by simp
  finally show ?thesis
    using v g parse_names_stored [OF a names False] c_string_stored [OF csv_join_no_nul [OF names]]
      load_bin [OF u, of k]
    by (simp add: load_string_list_def load_string_string_def)
qed

end

section \<open>Opening and registering\<close>

text \<open>A search over nodes that exist finds one with the name, or there is none.\<close>

lemma find_node_result:
  assumes "list_all (\<lambda>a. \<exists>n. names a = Some n \<and> 0 \<notin> set n) as"
  obtains (found) a where "a \<in> set as" "names a = Some name" "find_node names name as = Some (Some a)"
    | (missing) "find_node names name as = Some None" "\<forall>a\<in>set as. names a \<noteq> Some name"
proof -
  have "(\<exists>a\<in>set as. names a = Some name \<and> find_node names name as = Some (Some a)) \<or>
      find_node names name as = Some None \<and> (\<forall>a\<in>set as. names a \<noteq> Some name)"
    using assms by (induction as) (auto simp: same_name_eq split: if_splits)
  then show ?thesis using that by blast
qed

lemma csv_stored_append:
  "csv_stored m k names \<Longrightarrow> csv_name n \<Longrightarrow>
   csv_stored (m(k \<mapsto> csv_join (names @ [n]) @ [0])) k (names @ [n])"
  by (simp add: csv_stored_def)

context reliable_store
begin

lemma append_name:
  assumes u: "uses put get s" and st: "csv_stored (view (pvt s)) k names" and n: "csv_name n"
  obtains old d where "write_back_append s k n [comma] = Some (old, s\<lparr>pvt := d\<rparr>)" "old \<noteq> Bad"
    "view d = (view (pvt s))(k \<mapsto> csv_join (names @ [n]) @ [0])"
proof -
  have names: "list_all csv_name names" using st by (simp add: csv_stored_def)
  obtain d where d: "write_string_bin s k (csv_join (names @ [n]) @ [0]) = (0, s\<lparr>pvt := d\<rparr>)"
      "view d = (view (pvt s))(k \<mapsto> csv_join (names @ [n]) @ [0])"
    using write_bin [OF u, of "csv_join (names @ [n]) @ [0]" k] by auto
  have a: "allocs s = []" using u by (simp add: uses_def)
  show ?thesis
  proof (cases "names = []")
    case True
    then have "write_back_append s k n [comma] = Some (Null, s\<lparr>pvt := d\<rparr>)"
      using st load_bin [OF u, of k] append_two [OF a] d(1)
      by (simp add: write_back_append_def load_string_string_def csv_stored_def append_merge_def
          opt_str_def write_string_string_def)
    then show ?thesis using that d(2) by blast
  next
    case False
    then have "write_back_append s k n [comma] = Some (Ptr (csv_join names @ [0]), s\<lparr>pvt := d\<rparr>)"
      using st load_bin [OF u, of k] append_two [OF a] d(1) c_string_stored [OF csv_join_no_nul [OF names]]
      by (simp add: write_back_append_def load_string_string_def csv_stored_def append_merge_def
          opt_str_def write_string_string_def)
    then show ?thesis using that d(2) by blast
  qed
qed

text \<open>A counter that is read, or written with its initial value when there is none.\<close>

lemma test_init:
  assumes u: "uses put get s" and m: "view (pvt s) k = Some (le64 n) \<or> view (pvt s) k = None \<and> n = 0"
  obtains r d where "uint64_test_init s k 0 = Some (r, Some n, s\<lparr>pvt := d\<rparr>)" "r \<noteq> -1"
    "view d = (view (pvt s))(k \<mapsto> le64 n)"
proof (cases "view (pvt s) k")
  case None
  obtain d where "uint64_write s k 0 = (0, s\<lparr>pvt := d\<rparr>)" "view d = (view (pvt s))(k \<mapsto> le64 0)"
    using write_u64 [OF u] by blast
  then show ?thesis
    using None m that [of 0 d] load_bin [OF u, of k] by (simp add: uint64_test_init_def uint64_read_def)
next
  case (Some v)
  then have v: "view (pvt s) k = Some (le64 n)" using m by auto
  then have "uint64_test_init s k 0 = Some (1, Some n, s\<lparr>pvt := pvt s\<rparr>)"
    using read_u64 [OF u v] by (simp add: uint64_test_init_def)
  then show ?thesis using that [of 1 "pvt s"] v by (simp add: fun_upd_idem)
qed

lemma uses_updates [simp]:
  "uses put get (s\<lparr>pvt := d\<rparr>) = uses put get s" "uses put get (set_queue a q s) = uses put get s"
  "uses put get (set_consumer a c s) = uses put get s"
  "uses put get (new_nodes ty parent i ns s) = uses put get s"
  "uses put get (s\<lparr>active_queues := as\<rparr>) = uses put get s"
  "uses put get (s\<lparr>dead_queues := as\<rparr>) = uses put get s"
  "uses put get (s\<lparr>queue_amount := z\<rparr>) = uses put get s"
  "uses put get (s\<lparr>node_tree_lock := l\<rparr>) = uses put get s"
  "uses put get (s\<lparr>fresh := a\<rparr>) = uses put get s"
  "uses put get (s\<lparr>producers := ps\<rparr>) = uses put get s"
  by (simp_all add: uses_def)

lemma producers_load_stored:
  assumes u: "uses put get s" and q: "queues s qa = Some q" "dead_producers q = []"
    and st: "csv_stored (view (pvt s)) (user_key ''PRODUCERS'' (q_name q)) ps"
  shows "producers_load s qa = Some (0, set_queue qa
    (q\<lparr>dead_producers := [fresh s..<fresh s + length ps], producer_amount := int (length ps)\<rparr>)
    (new_nodes TYPE_XMQ_PRODUCER qa 0 ps s))"
  using u q load_list [OF u st, of TYPE_XMQ_PRODUCER qa]
  by (simp add: producers_load_def xmq_keys uses_def)

lemma consumers_load_stored:
  assumes u: "uses put get s" and q: "queues s qa = Some q" "dead_consumers q = []"
    and st: "csv_stored (view (pvt s)) (user_key ''CONSUMERS'' (q_name q)) cs"
  shows "consumers_load s qa = Some (0, set_queue qa
    (q\<lparr>dead_consumers := [fresh s..<fresh s + length cs], consumer_amount := int (length cs)\<rparr>)
    (new_nodes TYPE_XMQ_CONSUMER qa 0 cs s))"
  using u q load_list [OF u st, of TYPE_XMQ_CONSUMER qa]
  by (simp add: consumers_load_def xmq_keys uses_def)

end

text \<open>A queue after its capacity, its producers and its consumers are loaded.\<close>

definition loaded_queue :: "u64 \<Rightarrow> addr \<Rightarrow> nat \<Rightarrow> nat \<Rightarrow> xmq_queue \<Rightarrow> xmq_queue" where
  "loaded_queue k base np nc q = q\<lparr>msg_capacity := k,
     dead_producers := [base..<base + np], producer_amount := int np,
     dead_consumers := [base + np..<base + np + nc], consumer_amount := int nc\<rparr>"

definition loaded_producers :: "addr \<Rightarrow> addr \<Rightarrow> bytes list \<Rightarrow> (addr \<rightharpoonup> xmq_producer) \<Rightarrow> (addr \<rightharpoonup> xmq_producer)" where
  "loaded_producers qa base = block base (\<lambda>j n. \<lparr>p_identity = n, p_owner_queue = qa\<rparr>)"

definition loaded_consumers :: "addr \<Rightarrow> addr \<Rightarrow> bytes list \<Rightarrow> (addr \<rightharpoonup> xmq_consumer) \<Rightarrow> (addr \<rightharpoonup> xmq_consumer)" where
  "loaded_consumers qa base = block base (\<lambda>j n. (consumer_zero n qa)\<lparr>c_slot := of_nat j\<rparr>)"

text \<open>What the storage holds of a queue: producers, consumers and capacity.\<close>

definition queue_stored :: "(bytes \<rightharpoonup> bytes) \<Rightarrow> bytes \<Rightarrow> bytes list \<Rightarrow> bytes list \<Rightarrow> u64 \<Rightarrow> bool" where
  "queue_stored m n ps cs k \<longleftrightarrow> csv_stored m (user_key ''PRODUCERS'' n) ps \<and>
     csv_stored m (user_key ''CONSUMERS'' n) cs \<and>
     (m (user_key ''CAPACITY'' n) = Some (le64 k) \<or> m (user_key ''CAPACITY'' n) = None \<and> k = 0)"

lemma csv_stored_upd [simp]: "k' \<noteq> k \<Longrightarrow> csv_stored (m(k' := v)) k ns = csv_stored m k ns"
  by (simp add: csv_stored_def)

context reliable_store
begin

lemma queue_active_loads:
  assumes u: "uses put get s" and q: "queues s qa = Some q" "dead_producers q = []" "dead_consumers q = []"
    and st: "queue_stored (view (pvt s)) (q_name q) ps cs k"
  obtains s' where "queue_active s qa = Some (Some qa, s')"
    "queues s' = (queues s)(qa \<mapsto> loaded_queue k (fresh s) (length ps) (length cs) q)"
    "producers s' = loaded_producers qa (fresh s) ps (producers s)"
    "consumers s' = loaded_consumers qa (fresh s + length ps) cs (consumers s)"
    "view (pvt s') = (view (pvt s))(user_key ''CAPACITY'' (q_name q) \<mapsto> le64 k)"
    "uses put get s'" "node_tree_lock s' = node_tree_lock s"
    "active_queues s' = remove1 qa (active_queues s) @ [qa]"
    "dead_queues s' = remove1 qa (dead_queues s)" "fresh s' = fresh s + length ps + length cs"
proof -
  let ?ck = "user_key ''CAPACITY'' (q_name q)"
  obtain r d where r: "uint64_test_init s ?ck 0 = Some (r, Some k, s\<lparr>pvt := d\<rparr>)" "r \<noteq> -1"
      and vd: "view d = (view (pvt s))(?ck \<mapsto> le64 k)"
    using test_init [OF u, of ?ck k] st by (auto simp: queue_stored_def)
  define q1 where "q1 = q\<lparr>msg_capacity := k\<rparr>"
  define s1 where "s1 = set_queue qa q1 (s\<lparr>pvt := d\<rparr>)"
  have u1: "uses put get s1" and q1: "queues s1 qa = Some q1" "dead_producers q1 = []"
    and v1: "pvt s1 = d" and n1: "q_name q1 = q_name q"
    using u q by (simp_all add: s1_def q1_def)
  have st1: "csv_stored (view (pvt s1)) (user_key ''PRODUCERS'' (q_name q1)) ps"
    using st by (simp add: v1 n1 vd queue_stored_def)
  define q2 where "q2 = q1\<lparr>dead_producers := [fresh s1..<fresh s1 + length ps], producer_amount := int (length ps)\<rparr>"
  define s2 where "s2 = set_queue qa q2 (new_nodes TYPE_XMQ_PRODUCER qa 0 ps s1)"
  have p: "producers_load s1 qa = Some (0, s2)"
    unfolding s2_def q2_def by (rule producers_load_stored [OF u1 q1 st1])
  have u2: "uses put get s2" and q2: "queues s2 qa = Some q2" "dead_consumers q2 = []"
    and v2: "pvt s2 = d" and n2: "q_name q2 = q_name q"
    using u1 q by (simp_all add: s2_def q2_def q1_def v1)
  have st2: "csv_stored (view (pvt s2)) (user_key ''CONSUMERS'' (q_name q2)) cs"
    using st by (simp add: v2 n2 vd queue_stored_def)
  define q3 where "q3 = q2\<lparr>dead_consumers := [fresh s2..<fresh s2 + length cs], consumer_amount := int (length cs)\<rparr>"
  define s3 where "s3 = set_queue qa q3 (new_nodes TYPE_XMQ_CONSUMER qa 0 cs s2)"
  have c: "consumers_load s2 qa = Some (0, s3)"
    unfolding s3_def q3_def by (rule consumers_load_stored [OF u2 q2 st2])
  have f: "fresh s1 = fresh s" "fresh s2 = fresh s + length ps"
    by (simp_all add: s1_def s2_def)
  have q3: "q3 = loaded_queue k (fresh s) (length ps) (length cs) q"
    by (simp add: q3_def q2_def q1_def loaded_queue_def f)
  have lists: "active_queues s3 = active_queues s" "dead_queues s3 = dead_queues s"
    by (simp_all add: s3_def s2_def s1_def)
  have a: "allocs s = []" using u by (simp add: uses_def)
  define s' where "s' = (unlink_queue qa s3)\<lparr>active_queues := remove1 qa (active_queues s) @ [qa]\<rparr>"
  have act: "queue_active s qa = Some (Some qa, s')"
    using q r p c a lists
    by (simp add: queue_active_def xmq_keys s1_def [symmetric] q1_def [symmetric] s'_def unlink_queue_def)
  have "uses put get s3" "queues s3 = (queues s)(qa \<mapsto> q3)" "pvt s3 = d"
    "node_tree_lock s3 = node_tree_lock s" "fresh s3 = fresh s + length ps + length cs"
    "producers s3 = loaded_producers qa (fresh s) ps (producers s)"
    "consumers s3 = loaded_consumers qa (fresh s + length ps) cs (consumers s)"
    using u2 v2 f by (simp_all add: s3_def s2_def s1_def loaded_producers_def loaded_consumers_def
        new_nodes_producers new_nodes_consumers)
  then show ?thesis
    using act vd lists
    by (intro that [of s']) (simp_all add: s'_def unlink_queue_def q3 uses_def)
qed

end

text \<open>The searches leave a state whose tree lock is free as it is.\<close>

lemma relock: "node_tree_lock s = Some False \<Longrightarrow> s\<lparr>node_tree_lock := Some False\<rparr> = s"
  by (cases s) simp

lemma find_lock [simp]:
  "find_queue (s\<lparr>node_tree_lock := l\<rparr>) = find_queue s"
  "find_producer (s\<lparr>node_tree_lock := l\<rparr>) = find_producer s"
  "find_consumer (s\<lparr>node_tree_lock := l\<rparr>) = find_consumer s"
  by (simp_all add: find_queue_def find_producer_def find_consumer_def)

lemma find_Nil [simp]:
  "find_queue s n [] = Some None" "find_producer s n [] = Some None" "find_consumer s n [] = Some None"
  by (simp_all add: find_queue_def find_producer_def find_consumer_def)

lemma search_free:
  assumes "node_tree_lock s = Some False"
  shows "xmq_queue_is_active s (Some n) = map_option (\<lambda>r. (r, s)) (find_queue s n (active_queues s))"
    and "n \<noteq> [] \<Longrightarrow> queues s qa = Some q \<Longrightarrow> xmq_producer_is_active s (Some qa) (Some n) =
      map_option (\<lambda>r. (r, s)) (find_producer s n (active_producers q))"
    and "n \<noteq> [] \<Longrightarrow> queues s qa = Some q \<Longrightarrow> xmq_consumer_is_active s (Some qa) (Some n) =
      map_option (\<lambda>r. (r, s)) (find_consumer s n (active_consumers q))"
  using assms relock [OF assms]
  by (simp_all add: xmq_queue_is_active_def xmq_producer_is_active_def xmq_consumer_is_active_def
      named_def lock_tree_def unlock_tree_def map_option_case split: option.splits)

lemma exist_free:
  assumes "node_tree_lock s = Some False"
  shows "find_queue s n (active_queues s) = Some None \<Longrightarrow>
      xmq_queue_exist s (Some n) = map_option (\<lambda>r. (r, s)) (find_queue s n (dead_queues s))"
    and "n \<noteq> [] \<Longrightarrow> queues s qa = Some q \<Longrightarrow> find_producer s n (active_producers q) = Some None \<Longrightarrow>
      xmq_producer_exist s (Some qa) (Some n) = map_option (\<lambda>r. (r, s)) (find_producer s n (dead_producers q))"
    and "n \<noteq> [] \<Longrightarrow> queues s qa = Some q \<Longrightarrow> find_consumer s n (active_consumers q) = Some None \<Longrightarrow>
      xmq_consumer_exist s (Some qa) (Some n) = map_option (\<lambda>r. (r, s)) (find_consumer s n (dead_consumers q))"
  using assms relock [OF assms] search_free [OF assms]
  by (simp_all add: xmq_queue_exist_def xmq_producer_exist_def xmq_consumer_exist_def
      named_def lock_tree_def unlock_tree_def map_option_case split: option.splits)

lemma block_nodes:
  "list_all2 (\<lambda>a n. block base mk ns m a = Some (mk (a - base) n)) [base..<base + length ns] ns"
  by (auto simp: list_all2_conv_all_nth block_def)

text \<open>A context that has been initialised and has no open queue.\<close>

definition idle_context ::
  "('d \<Rightarrow> bytes \<rightharpoonup> bytes) \<Rightarrow> 'd put_KVs_fn \<Rightarrow> 'd get_KVs_fn \<Rightarrow> bytes list \<Rightarrow> 'd xmq_context \<Rightarrow> bool" where
  "idle_context view put get names s \<longleftrightarrow> uses put get s \<and> node_tree_lock s = Some False \<and>
     active_queues s = [] \<and> csv_stored (view (pvt s)) queues_key names \<and>
     list_all2 (\<lambda>a n. \<exists>i. queues s a = Some ((queue_zero n)\<lparr>q_id := i\<rparr>)) (dead_queues s) names \<and>
     list_all (\<lambda>a. a < fresh s) (dead_queues s)"

text \<open>An open queue without registered users, with the users the storage knows.\<close>

definition opened ::
  "('d \<Rightarrow> bytes \<rightharpoonup> bytes) \<Rightarrow> 'd put_KVs_fn \<Rightarrow> 'd get_KVs_fn \<Rightarrow> bytes \<Rightarrow> u32 \<Rightarrow> bytes list \<Rightarrow> bytes list \<Rightarrow>
   u64 \<Rightarrow> addr \<Rightarrow> 'd xmq_context \<Rightarrow> bool" where
  "opened view put get n flag ps cs k qa s \<longleftrightarrow> uses put get s \<and> node_tree_lock s = Some False \<and>
     queue_stored (view (pvt s)) n ps cs k \<and> view (pvt s) (user_key ''CAPACITY'' n) = Some (le64 k) \<and>
     (\<exists>q. queues s qa = Some q \<and> q_name q = n \<and> msg_capacity q = k \<and> q_flag q = flag \<and>
        wait_lock q = Some False \<and> active_producers q = [] \<and> active_consumers q = [] \<and>
        list_all2 (\<lambda>a p. producers s a = Some \<lparr>p_identity = p, p_owner_queue = qa\<rparr>) (dead_producers q) ps \<and>
        list_all2 (\<lambda>a c. \<exists>i. consumers s a = Some ((consumer_zero c qa)\<lparr>c_slot := i\<rparr>)) (dead_consumers q) cs)"

lemma queue_zero_simps [simp]:
  "q_name (queue_zero n) = n" "dead_producers (queue_zero n) = []" "dead_consumers (queue_zero n) = []"
  "active_producers (queue_zero n) = []" "active_consumers (queue_zero n) = []" "msg_capacity (queue_zero n) = 0"
  by (simp_all add: queue_zero_def)

lemma loaded_queue_simps [simp]:
  "q_name (loaded_queue k b np nc q) = q_name q" "msg_capacity (loaded_queue k b np nc q) = k"
  "active_producers (loaded_queue k b np nc q) = active_producers q"
  "active_consumers (loaded_queue k b np nc q) = active_consumers q"
  "dead_producers (loaded_queue k b np nc q) = [b..<b + np]"
  "dead_consumers (loaded_queue k b np nc q) = [b + np..<b + np + nc]"
  by (simp_all add: loaded_queue_def)

lemma loaded_nodes:
  "list_all2 (\<lambda>a p. loaded_producers qa b ps m a = Some \<lparr>p_identity = p, p_owner_queue = qa\<rparr>) [b..<b + length ps] ps"
  "list_all2 (\<lambda>a c. \<exists>i. loaded_consumers qa b cs m' a = Some ((consumer_zero c qa)\<lparr>c_slot := i\<rparr>))
     [b..<b + length cs] cs"
  using block_nodes [of b "\<lambda>j n. \<lparr>p_identity = n, p_owner_queue = qa\<rparr>" ps m]
    block_nodes [of b "\<lambda>j n. (consumer_zero n qa)\<lparr>c_slot := of_nat j\<rparr>" cs m']
  by (auto simp: loaded_producers_def loaded_consumers_def elim: list_all2_mono)

context reliable_store
begin

lemma init_idle:
  assumes "xmq_context_new True d0 [] sl = Some ctx" "2 \<le> sl"
    and "csv_stored (view d) queues_key names" "has \<longrightarrow> free \<noteq> None"
  obtains s where "xmq_context_init ctx d has free (Some put) (Some get) = Some (0, s)"
    "idle_context view put get names s" "pvt s = d"
proof -
  define s0 where "s0 = ctx\<lparr>pvt := d, has_pvt := has, pvt_free_cb := free, put_KVs_cb := Some put,
    get_KVs_cb := Some get, dead_queues := [], active_queues := [], node_tree_lock := Some False\<rparr>"
  have u: "uses put get s0" and a: "allocs s0 = []" "get_KVs_cb s0 = Some get" "dead_queues s0 = []"
    "active_queues s0 = []" "node_tree_lock s0 = Some False" "pvt s0 = d"
    using assms(1,2) by (auto simp: uses_def s0_def xmq_context_new_def)
  have st: "csv_stored (view (pvt s0)) queues_key names" using assms(3) a by simp
  define s where "s = (new_nodes TYPE_XMQ_QUEUE 0 0 names s0)\<lparr>dead_queues := [fresh s0..<fresh s0 + length names],
    queue_amount := int (length names)\<rparr>"
  have "queues_load s0 = Some (0, s)"
    using a load_list [OF u st, of TYPE_XMQ_QUEUE 0] by (simp add: queues_load_def xmq_keys s_def)
  then have "xmq_context_init ctx d has free (Some put) (Some get) = Some (0, s)"
    using assms(4) by (auto simp: xmq_context_init_def s0_def Let_def)
  moreover have "list_all2 (\<lambda>a n. \<exists>i. queues s a = Some ((queue_zero n)\<lparr>q_id := i\<rparr>)) (dead_queues s) names"
    using block_nodes [of "fresh s0" "\<lambda>j n. (queue_zero n)\<lparr>q_id := of_nat (0 + j)\<rparr>" names "queues s0"]
    by (auto simp: s_def new_nodes_queues elim: list_all2_mono)
  then have "idle_context view put get names s"
    using u a st by (simp add: idle_context_def s_def list_all_iff)
  moreover have "pvt s = d" using a by (simp add: s_def)
  ultimately show ?thesis using that by blast
qed

end

lemma list_all2_named:
  "list_all2 (\<lambda>a n. \<exists>x. m a = Some x \<and> nm x = n) as ns \<Longrightarrow> list_all csv_name ns \<Longrightarrow>
   list_all (\<lambda>a. \<exists>n. map_option nm (m a) = Some n \<and> 0 \<notin> set n) as"
  by (induction as ns rule: list_all2_induct) (auto simp: csv_name_def)

lemma list_all2_mem: "list_all2 P as ns \<Longrightarrow> a \<in> set as \<Longrightarrow> \<exists>n\<in>set ns. P a n"
  by (induction as ns rule: list_all2_induct) auto

lemma list_all2_mem2: "list_all2 P as ns \<Longrightarrow> n \<in> set ns \<Longrightarrow> \<exists>a\<in>set as. P a n"
  by (induction as ns rule: list_all2_induct) auto

definition add_name :: "bytes \<Rightarrow> bytes list \<Rightarrow> bytes list" where
  "add_name n names = (if n \<in> set names then names else names @ [n])"

context reliable_store
begin

text \<open>Opening behind the lookup: both branches end in a loaded queue.\<close>

lemma open_known:
  assumes u: "uses put get s" and l: "node_tree_lock s = Some False"
    and q: "queues s qa = Some ((queue_zero n)\<lparr>q_id := i\<rparr>)"
    and st: "queue_stored (view (pvt s)) n ps cs k"
  obtains s' where "queue_active (s\<lparr>node_tree_lock := Some True\<rparr>) qa = Some (Some qa, s')"
    "queues s' qa = Some (loaded_queue k (fresh s) (length ps) (length cs) ((queue_zero n)\<lparr>q_id := i\<rparr>))"
    "producers s' = loaded_producers qa (fresh s) ps (producers s)"
    "consumers s' = loaded_consumers qa (fresh s + length ps) cs (consumers s)"
    "view (pvt s') = (view (pvt s))(user_key ''CAPACITY'' n \<mapsto> le64 k)"
    "uses put get s'" "node_tree_lock s' = Some True"
proof -
  let ?s = "s\<lparr>node_tree_lock := Some True\<rparr>"
  have u': "uses put get ?s" using u by simp
  have q': "queues ?s qa = Some ((queue_zero n)\<lparr>q_id := i\<rparr>)" using q by simp
  have st': "queue_stored (view (pvt ?s)) (q_name ((queue_zero n)\<lparr>q_id := i\<rparr>)) ps cs k"
    using st by simp
  show ?thesis
    by (rule queue_active_loads [OF u' q' _ _ st']) (simp_all add: that)
qed

lemma open_new:
  assumes u: "uses put get s" and names: "csv_stored (view (pvt s)) queues_key names" "csv_name n"
    and st: "queue_stored (view (pvt s)) n ps cs k"
  obtains qa s' q where "queue_new_active (s\<lparr>node_tree_lock := Some True\<rparr>) n = Some (Some qa, s')"
    "queues s' qa = Some q" "\<exists>i. q = (loaded_queue k (Suc (fresh s)) (length ps) (length cs) (queue_zero n))\<lparr>q_id := i\<rparr>"
    "producers s' = loaded_producers qa (Suc (fresh s)) ps (producers s)"
    "consumers s' = loaded_consumers qa (Suc (fresh s) + length ps) cs (consumers s)"
    "view (pvt s') = (view (pvt s))(user_key ''CAPACITY'' n \<mapsto> le64 k,
       queues_key \<mapsto> csv_join (names @ [n]) @ [0])"
    "uses put get s'" "node_tree_lock s' = Some True"
proof -
  let ?qa = "fresh s"
  define s0 where "s0 = (set_queue ?qa (queue_zero n) (s\<lparr>node_tree_lock := Some True, fresh := Suc (fresh s)\<rparr>))
    \<lparr>dead_queues := dead_queues s @ [?qa]\<rparr>"
  have s0: "uses put get s0" "queues s0 ?qa = Some (queue_zero n)" "pvt s0 = pvt s" "fresh s0 = Suc (fresh s)"
    "node_tree_lock s0 = Some True" "producers s0 = producers s" "consumers s0 = consumers s"
    using u by (simp_all add: s0_def)
  have st0: "queue_stored (view (pvt s0)) (q_name (queue_zero n)) ps cs k" using st s0 by simp
  obtain s1 where s1: "queue_active s0 ?qa = Some (Some ?qa, s1)"
      "queues s1 = (queues s0)(?qa \<mapsto> loaded_queue k (fresh s0) (length ps) (length cs) (queue_zero n))"
      "producers s1 = loaded_producers ?qa (fresh s0) ps (producers s0)"
      "consumers s1 = loaded_consumers ?qa (fresh s0 + length ps) cs (consumers s0)"
      "view (pvt s1) = (view (pvt s0))(user_key ''CAPACITY'' (q_name (queue_zero n)) \<mapsto> le64 k)"
      "uses put get s1" "node_tree_lock s1 = node_tree_lock s0"
    by (rule queue_active_loads [OF s0(1,2) _ _ st0]) simp_all
  have a: "allocs s = []" "allocs s1 = []" using u s1 by (simp_all add: uses_def)
  have "csv_stored (view (pvt s1)) queues_key names" using names s1 s0 by simp
  then obtain old d where d: "write_back_append s1 queues_key n [comma] = Some (old, s1\<lparr>pvt := d\<rparr>)" "old \<noteq> Bad"
      "view d = (view (pvt s1))(queues_key \<mapsto> csv_join (names @ [n]) @ [0])"
    using append_name [OF s1(6) _ names(2)] by blast
  define q where "q = (loaded_queue k (fresh s0) (length ps) (length cs) (queue_zero n))
    \<lparr>q_id := of_int (queue_amount s1)\<rparr>"
  define s' where "s' = (set_queue ?qa q (s1\<lparr>pvt := d\<rparr>))\<lparr>queue_amount := s32 (queue_amount s1 + 1)\<rparr>"
  have "queue_new_active (s\<lparr>node_tree_lock := Some True\<rparr>) n = Some (Some ?qa, s')"
    using a s1(1,2) d(1,2)
    by (simp add: queue_new_active_def xmq_keys s0_def s'_def q_def Let_def)
  then show ?thesis
    using that [of ?qa s' q] s0 s1 d(3) by (auto simp: s'_def q_def)
qed

end

context reliable_store
begin

text \<open>What the caller sees of a loaded queue, however it was reached.\<close>

lemma open_finish:
  assumes n: "csv_name n" and l: "node_tree_lock s = Some False" and ac: "active_queues s = []"
    and e: "xmq_queue_exist s (Some n) = Some (r, s)"
    and a: "(case r of Some qa \<Rightarrow> queue_active (s\<lparr>node_tree_lock := Some True\<rparr>) qa
        | None \<Rightarrow> queue_new_active (s\<lparr>node_tree_lock := Some True\<rparr>) n) = Some (Some qa, s1)"
    and q: "queues s1 qa = Some ((loaded_queue k b (length ps) (length cs) (queue_zero n))\<lparr>q_id := i\<rparr>)"
    and nodes: "producers s1 = loaded_producers qa b ps pm" "consumers s1 = loaded_consumers qa (b + length ps) cs cm"
    and u1: "uses put get s1" "node_tree_lock s1 = Some True"
    and v1: "queue_stored (view (pvt s1)) n ps cs k" "view (pvt s1) (user_key ''CAPACITY'' n) = Some (le64 k)"
  obtains s' where "xmq_queue_open s (Some n) flag = Some (Some qa, s')"
    "opened view put get n flag ps cs k qa s'" "pvt s' = pvt s1"
proof -
  let ?q = "(loaded_queue k b (length ps) (length cs) (queue_zero n))\<lparr>q_id := i, q_flag := flag, wait_lock := Some False\<rparr>"
  define s' where "s' = set_queue qa ?q (s1\<lparr>node_tree_lock := Some False\<rparr>)"
  have len: "length n < 256" using n by (simp add: csv_name_def FIELD_MAX_LEN_def)
  have none: "xmq_queue_is_active s (Some n) = Some (None, s)"
    using l ac by (simp add: search_free)
  have "xmq_queue_open s (Some n) flag = Some (Some qa, s')"
    using len none e a q u1 l
    by (simp add: xmq_queue_open_def lock_tree_def unlock_tree_def s'_def split: option.splits)
  moreover have "opened view put get n flag ps cs k qa s'"
    using u1 v1 nodes loaded_nodes(1) [of qa b ps pm] loaded_nodes(2) [of qa "b + length ps" cs cm]
    by (simp add: opened_def s'_def)
  ultimately show ?thesis using that by (simp add: s'_def)
qed

lemma open_idle:
  assumes idle: "idle_context view put get names s" and n: "csv_name n"
    and st: "queue_stored (view (pvt s)) n ps cs k"
  obtains qa s' where "xmq_queue_open s (Some n) flag = Some (Some qa, s')"
    "opened view put get n flag ps cs k qa s'"
    "view (pvt s') queues_key = Some (csv_join (add_name n names) @ [0])"
    "\<And>x. x \<noteq> queues_key \<Longrightarrow> x \<noteq> user_key ''CAPACITY'' n \<Longrightarrow> view (pvt s') x = view (pvt s) x"
proof -
  have u: "uses put get s" and l: "node_tree_lock s = Some False" and ac: "active_queues s = []"
    and csv: "csv_stored (view (pvt s)) queues_key names"
    and dead: "list_all2 (\<lambda>a n. \<exists>i. queues s a = Some ((queue_zero n)\<lparr>q_id := i\<rparr>)) (dead_queues s) names"
    using idle by (simp_all add: idle_context_def)
  have named: "list_all (\<lambda>a. \<exists>n. map_option q_name (queues s a) = Some n \<and> 0 \<notin> set n) (dead_queues s)"
    by (rule list_all2_named [of _ _ _ names])
      (use dead csv in \<open>auto simp: csv_stored_def elim!: list_all2_mono\<close>)
  show ?thesis
  proof (rule find_node_result [OF named, of n])
    fix qa
    assume qa: "qa \<in> set (dead_queues s)" "map_option q_name (queues s qa) = Some n"
      "find_node (\<lambda>a. map_option q_name (queues s a)) n (dead_queues s) = Some (Some qa)"
    then have e: "xmq_queue_exist s (Some n) = Some (Some qa, s)"
      using exist_free(1) [OF l] ac by (simp add: find_queue_def)
    obtain m i where "m \<in> set names" "queues s qa = Some ((queue_zero m)\<lparr>q_id := i\<rparr>)"
      using list_all2_mem [OF dead qa(1)] by auto
    moreover from this qa(2) have "m = n" by simp
    ultimately have mem: "n \<in> set names" and q: "queues s qa = Some ((queue_zero n)\<lparr>q_id := i\<rparr>)" by simp_all
    have qk: "view (pvt s) queues_key = Some (csv_join names @ [0])"
      using csv mem by (auto simp: csv_stored_def)
    show ?thesis
    proof (rule open_known [OF u l q st])
      fix s1
      assume s1: "queue_active (s\<lparr>node_tree_lock := Some True\<rparr>) qa = Some (Some qa, s1)"
        "queues s1 qa = Some (loaded_queue k (fresh s) (length ps) (length cs) ((queue_zero n)\<lparr>q_id := i\<rparr>))"
        "producers s1 = loaded_producers qa (fresh s) ps (producers s)"
        "consumers s1 = loaded_consumers qa (fresh s + length ps) cs (consumers s)"
        "view (pvt s1) = (view (pvt s))(user_key ''CAPACITY'' n \<mapsto> le64 k)"
        "uses put get s1" "node_tree_lock s1 = Some True"
      have q1: "queues s1 qa = Some ((loaded_queue k (fresh s) (length ps) (length cs) (queue_zero n))\<lparr>q_id := i\<rparr>)"
        using s1(2) by (simp add: loaded_queue_def)
      have v: "queue_stored (view (pvt s1)) n ps cs k" "view (pvt s1) (user_key ''CAPACITY'' n) = Some (le64 k)"
        using st s1(5) by (simp_all add: queue_stored_def)
      obtain s' where "xmq_queue_open s (Some n) flag = Some (Some qa, s')"
          "opened view put get n flag ps cs k qa s'" "pvt s' = pvt s1"
        using open_finish [OF n l ac e _ q1 s1(3,4,6,7) v, where flag = flag] s1(1) by auto
      then show thesis
        using that [of qa s'] s1(5) qk mem by (simp add: add_name_def)
    qed
  next
    assume miss: "find_node (\<lambda>a. map_option q_name (queues s a)) n (dead_queues s) = Some None"
      "\<forall>a\<in>set (dead_queues s). map_option q_name (queues s a) \<noteq> Some n"
    then have e: "xmq_queue_exist s (Some n) = Some (None, s)"
      using exist_free(1) [OF l] ac by (simp add: find_queue_def)
    have mem: "n \<notin> set names"
      using list_all2_mem2 [OF dead, of n] miss(2) by fastforce
    show ?thesis
    proof (rule open_new [OF u csv n st])
      fix qa s1 q
      assume s1: "queue_new_active (s\<lparr>node_tree_lock := Some True\<rparr>) n = Some (Some qa, s1)"
        "queues s1 qa = Some q" "\<exists>i. q = (loaded_queue k (Suc (fresh s)) (length ps) (length cs) (queue_zero n))\<lparr>q_id := i\<rparr>"
        "producers s1 = loaded_producers qa (Suc (fresh s)) ps (producers s)"
        "consumers s1 = loaded_consumers qa (Suc (fresh s) + length ps) cs (consumers s)"
        "view (pvt s1) = (view (pvt s))(user_key ''CAPACITY'' n \<mapsto> le64 k,
           queues_key \<mapsto> csv_join (names @ [n]) @ [0])"
        "uses put get s1" "node_tree_lock s1 = Some True"
      then obtain i where q1: "queues s1 qa =
          Some ((loaded_queue k (Suc (fresh s)) (length ps) (length cs) (queue_zero n))\<lparr>q_id := i\<rparr>)"
        by auto
      have v: "queue_stored (view (pvt s1)) n ps cs k" "view (pvt s1) (user_key ''CAPACITY'' n) = Some (le64 k)"
        using st s1(6) by (simp_all add: queue_stored_def)
      obtain s' where "xmq_queue_open s (Some n) flag = Some (Some qa, s')"
          "opened view put get n flag ps cs k qa s'" "pvt s' = pvt s1"
        using open_finish [OF n l ac e _ q1 s1(4,5,7,8) v, where flag = flag] s1(1) by auto
      then show thesis
        using that [of qa s'] s1(6) mem by (simp add: add_name_def)
    qed
  qed
qed

end

text \<open>An open queue and the consumers the storage knows, whatever its producers are.\<close>

definition consumers_idle ::
  "('d \<Rightarrow> bytes \<rightharpoonup> bytes) \<Rightarrow> 'd put_KVs_fn \<Rightarrow> 'd get_KVs_fn \<Rightarrow> bytes \<Rightarrow> u32 \<Rightarrow> bytes list \<Rightarrow>
   u64 \<Rightarrow> addr \<Rightarrow> 'd xmq_context \<Rightarrow> bool" where
  "consumers_idle view put get n flag cs k qa s \<longleftrightarrow> uses put get s \<and> node_tree_lock s = Some False \<and>
     csv_stored (view (pvt s)) (user_key ''CONSUMERS'' n) cs \<and>
     (\<exists>q. queues s qa = Some q \<and> q_name q = n \<and> msg_capacity q = k \<and> q_flag q = flag \<and>
        wait_lock q = Some False \<and> active_consumers q = [] \<and>
        list_all2 (\<lambda>a c. \<exists>i. consumers s a = Some ((consumer_zero c qa)\<lparr>c_slot := i\<rparr>)) (dead_consumers q) cs)"

lemma move_producer_simps [simp]:
  "q_name (move_producer b a q) = q_name q" "msg_capacity (move_producer b a q) = msg_capacity q"
  "q_flag (move_producer b a q) = q_flag q" "wait_lock (move_producer b a q) = wait_lock q"
  "active_consumers (move_producer b a q) = active_consumers q"
  "dead_consumers (move_producer b a q) = dead_consumers q"
  by (simp_all add: move_producer_def Let_def)

lemma move_consumer_simps [simp]:
  "q_name (move_consumer b a q) = q_name q" "msg_capacity (move_consumer b a q) = msg_capacity q"
  "q_flag (move_consumer b a q) = q_flag q" "wait_lock (move_consumer b a q) = wait_lock q"
  by (simp_all add: move_consumer_def Let_def)

lemma csv_name_take [simp]: "csv_name n \<Longrightarrow> take 255 n = n"
  by (simp add: csv_name_def FIELD_MAX_LEN_def)

context reliable_store
begin

lemma new_producer_stored:
  assumes u: "uses put get s" and l: "node_tree_lock s = Some False" and q: "queues s qa = Some q"
    and st: "csv_stored (view (pvt s)) (user_key ''PRODUCERS'' (q_name q)) ps" and p: "csv_name p"
  obtains pa s' where "new_producer s qa p = Some (Some pa, s')"
    "producers s' pa = Some \<lparr>p_identity = p, p_owner_queue = qa\<rparr>"
    "queues s' qa = Some (q\<lparr>active_producers := active_producers q @ [pa],
       producer_amount := s32 (producer_amount q + 1)\<rparr>)" "consumers s' = consumers s"
    "uses put get s'" "node_tree_lock s' = Some False"
    "view (pvt s') = (view (pvt s))(user_key ''PRODUCERS'' (q_name q) \<mapsto> csv_join (ps @ [p]) @ [0])"
proof -
  let ?s = "s\<lparr>node_tree_lock := Some True\<rparr>"
  have u': "uses put get ?s" using u by simp
  have st': "csv_stored (view (pvt ?s)) (user_key ''PRODUCERS'' (q_name q)) ps" using st by simp
  obtain old d where d: "write_back_append ?s (user_key ''PRODUCERS'' (q_name q)) p [comma] = Some (old, ?s\<lparr>pvt := d\<rparr>)"
      "old \<noteq> Bad" "view d = (view (pvt s))(user_key ''PRODUCERS'' (q_name q) \<mapsto> csv_join (ps @ [p]) @ [0])"
    using append_name [OF u' st' p] by auto
  have a: "allocs s = []" using u by (simp add: uses_def)
  define s' where "s' = (set_queue qa (q\<lparr>active_producers := active_producers q @ [fresh s],
          producer_amount := s32 (producer_amount q + 1)\<rparr>) (s\<lparr>pvt := d, fresh := fresh s + 1,
          producers := (producers s)(fresh s \<mapsto> \<lparr>p_identity = p, p_owner_queue = qa\<rparr>)\<rparr>))
       \<lparr>node_tree_lock := Some False\<rparr>"
  have "new_producer s qa p = Some (Some (fresh s), s')"
    using a l q d(1,2) csv_name_take [OF p]
    by (simp add: new_producer_def lock_tree_def unlock_tree_def xmq_keys set_queue_def Let_def s'_def)
  then show ?thesis using that [of "fresh s" s'] u d(3) by (simp add: s'_def)
qed

lemma register_producer:
  assumes op: "opened view put get n flag ps cs k qa s" and p: "csv_name p"
  obtains pa s' where "xmq_register_as_producer s (Some qa) (Some p) = Some (Some pa, s')"
    "producers s' pa = Some \<lparr>p_identity = p, p_owner_queue = qa\<rparr>"
    "consumers_idle view put get n flag cs k qa s'"
    "\<And>x. x \<noteq> user_key ''PRODUCERS'' n \<Longrightarrow> view (pvt s') x = view (pvt s) x"
proof -
  obtain q where u: "uses put get s" and l: "node_tree_lock s = Some False"
    and st: "queue_stored (view (pvt s)) n ps cs k"
    and q: "queues s qa = Some q" "q_name q = n" "msg_capacity q = k" "q_flag q = flag"
      "wait_lock q = Some False" "active_producers q = []" "active_consumers q = []"
    and dp: "list_all2 (\<lambda>a p. producers s a = Some \<lparr>p_identity = p, p_owner_queue = qa\<rparr>) (dead_producers q) ps"
    and dc: "list_all2 (\<lambda>a c. \<exists>i. consumers s a = Some ((consumer_zero c qa)\<lparr>c_slot := i\<rparr>)) (dead_consumers q) cs"
    using op by (auto simp: opened_def)
  have p0: "p \<noteq> []" using p by (simp add: csv_name_def)
  have none: "xmq_producer_is_active s (Some qa) (Some p) = Some (None, s)"
    using search_free(2) [OF l p0 q(1)] q by simp
  have ex: "xmq_producer_exist s (Some qa) (Some p) = map_option (\<lambda>r. (r, s)) (find_producer s p (dead_producers q))"
    using exist_free(2) [OF l p0 q(1)] q by simp
  have csv: "csv_stored (view (pvt s)) (user_key ''PRODUCERS'' (q_name q)) ps"
    using st q by (simp add: queue_stored_def)
  have named: "list_all (\<lambda>a. \<exists>n. map_option p_identity (producers s a) = Some n \<and> 0 \<notin> set n) (dead_producers q)"
    by (rule list_all2_named [of _ _ _ ps])
      (use dp csv in \<open>auto simp: csv_stored_def elim!: list_all2_mono\<close>)
  show ?thesis
  proof (rule find_node_result [OF named, of p])
    fix pa
    assume pa: "pa \<in> set (dead_producers q)" "map_option p_identity (producers s pa) = Some p"
      "find_node (\<lambda>a. map_option p_identity (producers s a)) p (dead_producers q) = Some (Some pa)"
    have own: "producers s pa = Some \<lparr>p_identity = p, p_owner_queue = qa\<rparr>"
      using list_all2_mem [OF dp pa(1)] pa(2) by auto
    define s' where "s' = (set_queue qa (move_producer True pa q) s)\<lparr>node_tree_lock := Some False\<rparr>"
    have "xmq_register_as_producer s (Some qa) (Some p) = Some (Some pa, s')"
      using p0 none ex pa(3) l q
      by (simp add: xmq_register_as_producer_def named_def find_producer_def lock_tree_def unlock_tree_def
          s'_def set_queue_def)
    moreover have "consumers_idle view put get n flag cs k qa s'"
      using u st q dc by (simp add: consumers_idle_def s'_def queue_stored_def)
    ultimately show thesis using that [of pa s'] own by (simp add: s'_def)
  next
    assume "find_node (\<lambda>a. map_option p_identity (producers s a)) p (dead_producers q) = Some None"
    then have reg: "xmq_register_as_producer s (Some qa) (Some p) = new_producer s qa p"
      using p0 none ex by (simp add: xmq_register_as_producer_def named_def find_producer_def)
    show thesis
    proof (rule new_producer_stored [OF u l q(1) csv p])
      fix pa s'
      assume s': "new_producer s qa p = Some (Some pa, s')"
        "producers s' pa = Some \<lparr>p_identity = p, p_owner_queue = qa\<rparr>"
        "queues s' qa = Some (q\<lparr>active_producers := active_producers q @ [pa],
           producer_amount := s32 (producer_amount q + 1)\<rparr>)" "consumers s' = consumers s"
        "uses put get s'" "node_tree_lock s' = Some False"
        "view (pvt s') = (view (pvt s))(user_key ''PRODUCERS'' (q_name q) \<mapsto> csv_join (ps @ [p]) @ [0])"
      then have "consumers_idle view put get n flag cs k qa s'"
        using st q dc by (simp add: consumers_idle_def queue_stored_def)
      then show thesis using that [of pa s'] s' reg q by simp
    qed
  qed
qed

end

text \<open>A position in the storage, zero when there is none.\<close>

definition pos_stored :: "(bytes \<rightharpoonup> bytes) \<Rightarrow> bytes \<Rightarrow> u64 \<Rightarrow> bool" where
  "pos_stored m k f \<longleftrightarrow> m k = Some (le64 f) \<or> m k = None \<and> f = 0"

text \<open>The names whose values registering consumer \<open>c\<close> of queue \<open>n\<close> may change.\<close>

definition consumer_keys :: "bytes \<Rightarrow> bytes \<Rightarrow> bytes set" where
  "consumer_keys n c = {user_key ''CONSUMERS'' n, pos_key ''FETCHPOS'' n c, pos_key ''MARKPOS'' n c}"

lemma consumer_zero_simps [simp]:
  "c_identity (consumer_zero n qa) = n" "c_owner_queue (consumer_zero n qa) = qa"
  "last_fetch_index (consumer_zero n qa) = 0" "last_mark_index (consumer_zero n qa) = 0"
  by (simp_all add: consumer_zero_def)

context reliable_store
begin

lemma consumer_active_stored:
  assumes u: "uses put get s" and q: "queues s qa = Some q"
    and c: "consumers s ca = Some c" "c_owner_queue c = qa"
    and f: "pos_stored (view (pvt s)) (pos_key ''FETCHPOS'' (q_name q) (c_identity c)) f"
    and g: "pos_stored (view (pvt s)) (pos_key ''MARKPOS'' (q_name q) (c_identity c)) g"
  obtains s' where "consumer_active s ca = Some (Some ca, s')"
    "consumers s' ca = Some (c\<lparr>last_fetch_index := f, last_mark_index := g\<rparr>)"
    "queues s' qa = Some (move_consumer True ca q)" "producers s' = producers s"
    "uses put get s'" "node_tree_lock s' = node_tree_lock s"
    "\<And>x. x \<notin> consumer_keys (q_name q) (c_identity c) \<Longrightarrow> view (pvt s') x = view (pvt s) x"
proof -
  let ?fk = "pos_key ''FETCHPOS'' (q_name q) (c_identity c)" and ?mk = "pos_key ''MARKPOS'' (q_name q) (c_identity c)"
  obtain r d where r: "uint64_test_init s ?fk 0 = Some (r, Some f, s\<lparr>pvt := d\<rparr>)" "r \<noteq> -1"
      and vd: "view d = (view (pvt s))(?fk \<mapsto> le64 f)"
    using test_init [OF u, of ?fk f] f by (auto simp: pos_stored_def)
  define s1 where "s1 = set_consumer ca (c\<lparr>last_fetch_index := f\<rparr>) (s\<lparr>pvt := d\<rparr>)"
  have u1: "uses put get s1" and v1: "pvt s1 = d" using u by (simp_all add: s1_def)
  obtain r' d' where r': "uint64_test_init s1 ?mk 0 = Some (r', Some g, s1\<lparr>pvt := d'\<rparr>)" "r' \<noteq> -1"
      and vd': "view d' = (view d)(?mk \<mapsto> le64 g)"
    using test_init [OF u1, of ?mk g] g by (auto simp: pos_stored_def v1 vd)
  define s' where "s' = set_queue qa (move_consumer True ca q)
    (set_consumer ca (c\<lparr>last_fetch_index := f, last_mark_index := g\<rparr>) (s1\<lparr>pvt := d'\<rparr>))"
  have a: "allocs s = []" "2 \<le> slack s" using u by (simp_all add: uses_def)
  have a1: "allocs s1 = []" "2 \<le> slack s1" using u1 by (simp_all add: uses_def)
  have "consumer_active s ca = Some (Some ca, s')"
    using q c r r' a a1 get_pos_keys [OF a(1)] get_pos_keys [OF a1(1)]
    by (simp add: consumer_active_def s'_def s1_def [symmetric])
  then show ?thesis
    using that [of s'] u1 vd vd' by (simp add: s'_def s1_def consumer_keys_def)
qed

lemma init_pos_stored:
  assumes u: "uses put get s"
  obtains d where "init_pos (Some (Some k, s)) = Some (True, s\<lparr>pvt := d\<rparr>)" "view d = (view (pvt s))(k \<mapsto> le64 0)"
proof -
  obtain d where "uint64_write s k 0 = (0, s\<lparr>pvt := d\<rparr>)" "view d = (view (pvt s))(k \<mapsto> le64 0)"
    using write_u64 [OF u] by blast
  then show ?thesis using that [of d] by (simp add: init_pos_def)
qed

lemma consumer_new_stored:
  assumes u: "uses put get s" and q: "queues s qa = Some q"
    and st: "csv_stored (view (pvt s)) (user_key ''CONSUMERS'' (q_name q)) cs" and c: "csv_name c"
  obtains ca s' i where "consumer_new_active s qa c = Some (Some ca, s')"
    "consumers s' ca = Some ((consumer_zero c qa)\<lparr>c_slot := i\<rparr>)"
    "queues s' qa = Some (q\<lparr>active_consumers := active_consumers q @ [ca],
       consumer_amount := s32 (consumer_amount q + 1)\<rparr>)" "producers s' = producers s"
    "uses put get s'" "node_tree_lock s' = node_tree_lock s"
    "\<And>x. x \<notin> consumer_keys (q_name q) c \<Longrightarrow> view (pvt s') x = view (pvt s) x"
proof -
  let ?ck = "user_key ''CONSUMERS'' (q_name q)"
  let ?fk = "pos_key ''FETCHPOS'' (q_name q) c" and ?mk = "pos_key ''MARKPOS'' (q_name q) c"
  obtain old d where d: "write_back_append s ?ck c [comma] = Some (old, s\<lparr>pvt := d\<rparr>)" "old \<noteq> Bad"
      "view d = (view (pvt s))(?ck \<mapsto> csv_join (cs @ [c]) @ [0])"
    using append_name [OF u st c] by blast
  have u1: "uses put get (s\<lparr>pvt := d\<rparr>)" using u by simp
  obtain e where e: "init_pos (Some (Some ?fk, s\<lparr>pvt := d\<rparr>)) = Some (True, s\<lparr>pvt := e\<rparr>)"
      "view e = (view d)(?fk \<mapsto> le64 0)"
    using init_pos_stored [OF u1, of ?fk] by auto
  have u2: "uses put get (s\<lparr>pvt := e\<rparr>)" using u by simp
  obtain h where h: "init_pos (Some (Some ?mk, s\<lparr>pvt := e\<rparr>)) = Some (True, s\<lparr>pvt := h\<rparr>)"
      "view h = (view e)(?mk \<mapsto> le64 0)"
    using init_pos_stored [OF u2, of ?mk] by auto
  define s' where "s' = set_queue qa (q\<lparr>active_consumers := active_consumers q @ [fresh s],
      consumer_amount := s32 (consumer_amount q + 1)\<rparr>)
    (set_consumer (fresh s) ((consumer_zero c qa)\<lparr>c_slot := of_int (consumer_amount q)\<rparr>)
      (s\<lparr>pvt := h, fresh := fresh s + 1\<rparr>))"
  have a: "allocs s = []" "2 \<le> slack s" using u by (simp_all add: uses_def)
  have "consumer_new_active s qa c = Some (Some (fresh s), s')"
    using a q d(1,2) e(1) h(1) csv_name_take [OF c]
    by (simp add: consumer_new_active_def xmq_keys Let_def s'_def set_queue_def set_consumer_def)
  then show ?thesis
    using that [of "fresh s" s' "of_int (consumer_amount q)"] u d(3) e(2) h(2)
    by (simp add: s'_def consumer_keys_def)
qed

end

text \<open>The position from which a consumer will read on.\<close>

definition resumes_at :: "(bytes \<rightharpoonup> bytes) \<Rightarrow> bytes \<Rightarrow> bytes list \<Rightarrow> bytes \<Rightarrow> u64 \<Rightarrow> bool" where
  "resumes_at m n cs c f \<longleftrightarrow> (if c \<in> set cs
     then pos_stored m (pos_key ''FETCHPOS'' n c) f \<and> (\<exists>g. pos_stored m (pos_key ''MARKPOS'' n c) g)
     else f = 0)"

context reliable_store
begin

lemma register_consumer:
  assumes ci: "consumers_idle view put get n flag cs k qa s" and c: "csv_name c"
    and f: "resumes_at (view (pvt s)) n cs c f"
  obtains ca s' x q where "xmq_register_as_consumer s (Some qa) (Some c) = Some (Some ca, s')"
    "consumers s' ca = Some x" "c_owner_queue x = qa" "last_fetch_index x = f"
    "queues s' qa = Some q" "q_name q = n" "msg_capacity q = k" "q_flag q = flag" "wait_lock q = Some False"
    "producers s' = producers s" "uses put get s'"
    "\<And>y. y \<notin> consumer_keys n c \<Longrightarrow> view (pvt s') y = view (pvt s) y"
proof -
  obtain q where u: "uses put get s" and l: "node_tree_lock s = Some False"
    and st: "csv_stored (view (pvt s)) (user_key ''CONSUMERS'' n) cs"
    and q: "queues s qa = Some q" "q_name q = n" "msg_capacity q = k" "q_flag q = flag"
      "wait_lock q = Some False" "active_consumers q = []"
    and dc: "list_all2 (\<lambda>a c. \<exists>i. consumers s a = Some ((consumer_zero c qa)\<lparr>c_slot := i\<rparr>)) (dead_consumers q) cs"
    using ci by (auto simp: consumers_idle_def)
  have c0: "c \<noteq> []" using c by (simp add: csv_name_def)
  have none: "xmq_consumer_is_active s (Some qa) (Some c) = Some (None, s)"
    using search_free(3) [OF l c0 q(1)] q by simp
  have ex: "xmq_consumer_exist s (Some qa) (Some c) = map_option (\<lambda>r. (r, s)) (find_consumer s c (dead_consumers q))"
    using exist_free(3) [OF l c0 q(1)] q by simp
  have named: "list_all (\<lambda>a. \<exists>n. map_option c_identity (consumers s a) = Some n \<and> 0 \<notin> set n) (dead_consumers q)"
    by (rule list_all2_named [of _ _ _ cs])
      (use dc st in \<open>auto simp: csv_stored_def elim!: list_all2_mono\<close>)
  define s0 where "s0 = s\<lparr>node_tree_lock := Some True\<rparr>"
  have s0: "uses put get s0" "queues s0 qa = Some q" "pvt s0 = pvt s" "consumers s0 = consumers s"
    "producers s0 = producers s" "node_tree_lock s0 = Some True"
    using u q by (simp_all add: s0_def)
  have reg: "xmq_register_as_consumer s (Some qa) (Some c) = Some (Some ca, s1\<lparr>node_tree_lock := Some False\<rparr>)"
    if "find_consumer s c (dead_consumers q) = Some r" "node_tree_lock s1 = Some True"
      "(case r of Some ca \<Rightarrow> consumer_active s0 ca | None \<Rightarrow> consumer_new_active s0 qa c) = Some (Some ca, s1)"
    for r ca s1
    using that c0 none ex l
    by (simp add: xmq_register_as_consumer_def named_def lock_tree_def unlock_tree_def s0_def split: option.splits)
  show ?thesis
  proof (rule find_node_result [OF named, of c])
    fix ca
    assume ca: "ca \<in> set (dead_consumers q)" "map_option c_identity (consumers s ca) = Some c"
      "find_node (\<lambda>a. map_option c_identity (consumers s a)) c (dead_consumers q) = Some (Some ca)"
    obtain i where x: "consumers s ca = Some ((consumer_zero c qa)\<lparr>c_slot := i\<rparr>)" and mem: "c \<in> set cs"
      using list_all2_mem [OF dc ca(1)] ca(2) by auto
    let ?x = "(consumer_zero c qa)\<lparr>c_slot := i\<rparr>"
    obtain g where fg: "pos_stored (view (pvt s0)) (pos_key ''FETCHPOS'' (q_name q) (c_identity ?x)) f"
        "pos_stored (view (pvt s0)) (pos_key ''MARKPOS'' (q_name q) (c_identity ?x)) g"
      using f mem q s0 by (auto simp: resumes_at_def)
    have x0: "consumers s0 ca = Some ?x" "c_owner_queue ?x = qa" using x s0 by simp_all
    show thesis
    proof (rule consumer_active_stored [OF s0(1,2) x0 fg])
      fix s1
      assume s1: "consumer_active s0 ca = Some (Some ca, s1)"
        "consumers s1 ca = Some (?x\<lparr>last_fetch_index := f, last_mark_index := g\<rparr>)"
        "queues s1 qa = Some (move_consumer True ca q)" "producers s1 = producers s0"
        "uses put get s1" "node_tree_lock s1 = node_tree_lock s0"
        "\<And>y. y \<notin> consumer_keys (q_name q) (c_identity ?x) \<Longrightarrow> view (pvt s1) y = view (pvt s0) y"
      have "xmq_register_as_consumer s (Some qa) (Some c) = Some (Some ca, s1\<lparr>node_tree_lock := Some False\<rparr>)"
        using reg [of "Some ca" s1 ca] ca(3) s1(1,6) s0 by (simp add: find_consumer_def)
      then show thesis
        using that [of ca "s1\<lparr>node_tree_lock := Some False\<rparr>"] s1 s0 q by simp
    qed
  next
    assume miss: "find_node (\<lambda>a. map_option c_identity (consumers s a)) c (dead_consumers q) = Some None"
      "\<forall>a\<in>set (dead_consumers q). map_option c_identity (consumers s a) \<noteq> Some c"
    have "c \<notin> set cs" using list_all2_mem2 [OF dc, of c] miss(2) by fastforce
    then have f0: "f = 0" using f by (simp add: resumes_at_def)
    have st0: "csv_stored (view (pvt s0)) (user_key ''CONSUMERS'' (q_name q)) cs" using st q s0 by simp
    show thesis
    proof (rule consumer_new_stored [OF s0(1,2) st0 c])
      fix ca s1 i
      assume s1: "consumer_new_active s0 qa c = Some (Some ca, s1)"
        "consumers s1 ca = Some ((consumer_zero c qa)\<lparr>c_slot := i\<rparr>)"
        "queues s1 qa = Some (q\<lparr>active_consumers := active_consumers q @ [ca],
           consumer_amount := s32 (consumer_amount q + 1)\<rparr>)" "producers s1 = producers s0"
        "uses put get s1" "node_tree_lock s1 = node_tree_lock s0"
        "\<And>y. y \<notin> consumer_keys (q_name q) c \<Longrightarrow> view (pvt s1) y = view (pvt s0) y"
      have "xmq_register_as_consumer s (Some qa) (Some c) = Some (Some ca, s1\<lparr>node_tree_lock := Some False\<rparr>)"
        using reg [of None s1 ca] miss(1) s1(1,6) s0 by (simp add: find_consumer_def)
      then show thesis
        using that [of ca "s1\<lparr>node_tree_lock := Some False\<rparr>"] s1 s0 q f0 by simp
    qed
  qed
qed

text \<open>From a storage to a queue in use: initialise, open, register a producer and a consumer.\<close>

lemma session_ready:
  assumes names: "csv_stored (view d) queues_key names" and n: "csv_name n" "csv_name p" "csv_name c"
    and st: "queue_stored (view d) n ps cs k"
    and msgs: "\<forall>i. i \<noteq> 0 \<and> i \<le> k \<longrightarrow> (\<exists>x. sendable x \<and> view d (le64 i) = Some (msg_bytes (msg_of i x)))"
    and f: "resumes_at (view d) n cs c f" "f \<le> k"
    and new: "xmq_context_new True d0 [] sl = Some ctx" "2 \<le> sl" "has \<longrightarrow> free \<noteq> None"
  shows "\<exists>s1 qa s2 pa s3 ca s4. xmq_context_init ctx d has free (Some put) (Some get) = Some (0, s1) \<and>
    xmq_queue_open s1 (Some n) F_QUEUE_BLOCK = Some (Some qa, s2) \<and>
    xmq_register_as_producer s2 (Some qa) (Some p) = Some (Some pa, s3) \<and>
    xmq_register_as_consumer s3 (Some qa) (Some c) = Some (Some ca, s4) \<and>
    queue_ready view put get qa pa ca s4 \<and>
    queue_log view qa s4 = map (\<lambda>i. stored_msg (view d) (of_nat (Suc i))) [0..<unat k] \<and>
    fetched ca s4 = unat f"
proof -
  obtain s1 where s1: "xmq_context_init ctx d has free (Some put) (Some get) = Some (0, s1)"
      "idle_context view put get names s1" "pvt s1 = d"
    using init_idle [OF new(1,2) names new(3)] by blast
  have st1: "queue_stored (view (pvt s1)) n ps cs k" using st s1(3) by simp
  obtain qa s2 where s2: "xmq_queue_open s1 (Some n) F_QUEUE_BLOCK = Some (Some qa, s2)"
      "opened view put get n F_QUEUE_BLOCK ps cs k qa s2"
      "\<And>x. x \<noteq> queues_key \<Longrightarrow> x \<noteq> user_key ''CAPACITY'' n \<Longrightarrow> view (pvt s2) x = view d x"
    using open_idle [OF s1(2) n(1) st1, of F_QUEUE_BLOCK] unfolding s1(3) by metis
  obtain pa s3 where s3: "xmq_register_as_producer s2 (Some qa) (Some p) = Some (Some pa, s3)"
      "producers s3 pa = Some \<lparr>p_identity = p, p_owner_queue = qa\<rparr>"
      "consumers_idle view put get n F_QUEUE_BLOCK cs k qa s3"
      "\<And>x. x \<noteq> user_key ''PRODUCERS'' n \<Longrightarrow> view (pvt s3) x = view (pvt s2) x"
    using register_producer [OF s2(2) n(2)] by blast
  have pos: "pos_stored (view (pvt s3)) (pos_key w n c) = pos_stored (view d) (pos_key w n c)"
    if "w \<in> {''FETCHPOS'', ''MARKPOS''}" for w
    using that by (auto simp: pos_stored_def fun_eq_iff s2(3) s3(4))
  have "resumes_at (view (pvt s3)) n cs c f"
    using f(1) by (simp add: resumes_at_def pos)
  then obtain ca s4 x q where s4: "xmq_register_as_consumer s3 (Some qa) (Some c) = Some (Some ca, s4)"
      "consumers s4 ca = Some x" "c_owner_queue x = qa" "last_fetch_index x = f"
      "queues s4 qa = Some q" "q_name q = n" "msg_capacity q = k" "q_flag q = F_QUEUE_BLOCK" "wait_lock q = Some False"
      "producers s4 = producers s3" "uses put get s4"
      "\<And>y. y \<notin> consumer_keys n c \<Longrightarrow> view (pvt s4) y = view (pvt s3) y"
    using register_consumer [OF s3(3) n(3)] by metis
  have le: "view (pvt s4) (le64 i) = view d (le64 i)" for i
    using s4(12) [of "le64 i"] s3(4) s2(3) by (simp add: consumer_keys_def)
  have cap: "view (pvt s4) (user_key ''CAPACITY'' n) = Some (le64 k)"
    using s4(12) [of "user_key ''CAPACITY'' n"] s3(4) s2(2) by (simp add: consumer_keys_def opened_def)
  have "stored_queue (view (pvt s4)) q"
    using cap msgs s4(6,7) by (simp add: stored_queue_def le)
  moreover have "blocking q" using s4(8) by (simp add: blocking_def F_QUEUE_BLOCK_def)
  ultimately have "queue_ready view put get qa pa ca s4"
    using s3(2) s4 f(2) by (simp add: queue_ready_def)
  moreover have "queue_log view qa s4 = map (\<lambda>i. stored_msg (view d) (of_nat (Suc i))) [0..<unat k]"
    using s4(5,7) by (simp add: queue_log_def stored_msg_def le)
  moreover have "fetched ca s4 = unat f" using s4 by (simp add: fetched_def)
  ultimately show ?thesis using s1(1) s2(1) s3(1) s4(1) by blast
qed

end

context leveldb_healthy
begin

lemmas driver_session_ready = session_ready

end

end
