(* ===== verification/Xmq_Correct.thy ===== *)
theory Xmq_Correct
  imports Xmq_Session
begin

text \<open>
  The properties of the persistent queues: delivery in order and across restarts on
  LevelDB, waking a waiting consumer, and the behaviour of the paths that do not work
  as their comments say.
\<close>

section \<open>Queues on LevelDB\<close>

text \<open>C2: One producer thread and one consumer thread on an open blocking queue stored in a LevelDB
  that reports no errors. A push is the two steps of the code, storing the message under the capacity
  read without a lock and advancing the capacity under \<^verbatim>\<open>wait_lock\<close>; a fetch is the two steps of
  comparing with the capacity under \<^verbatim>\<open>wait_lock\<close> and reading. In every interleaving of these steps in
  which each thread does its own in turn and the consumer looks only when an unread message has been
  published, the consumer receives the messages in the order in which they were pushed, from its
  stored position on, none lost and none twice; when no push is under way the queue holds exactly
  the old messages and the pushed ones. Assumed by \<open>queue_ready\<close>: no allocation fails and the
  allocator leaves two spare bytes behind the block of a position key, past which \<^verbatim>\<open>xmq.c\<close> writes
  (\<open>position_keys_overrun\<close>). Messages are not empty and shorter than 4 GB. With two producers the
  property fails (\<open>xmq_two_producers_collide\<close>).\<close>

theorem xmq_delivers_in_order:
  assumes "leveldb_healthy L view"
    and "queue_ready view (driver_ldb_put L) (driver_ldb_get L) qa pa ca s"
    and "in_turn (length (queue_log view qa s) - fetched ca s) False False xs"
    and "length (queue_log view qa s) + length (stored xs) < 2 ^ 64"
  shows "\<exists>t'. run_threads pa ca xs \<lparr>th_push = None, th_fetch = None, th_ctx = s\<rparr> =
      Some (take (takes xs) (drop (fetched ca s) (queue_log view qa s @ stored xs)), t')
    \<and> fetched ca (th_ctx t') = fetched ca s + takes xs
    \<and> (th_push t' = None \<longrightarrow> queue_ready view (driver_ldb_put L) (driver_ldb_get L) qa pa ca (th_ctx t')
        \<and> queue_log view qa (th_ctx t') = queue_log view qa s @ stored xs)"
proof -
  let ?t = "\<lparr>th_push = None, th_fetch = None, th_ctx = s\<rparr>"
  have "threads_at view (driver_ldb_put L) (driver_ldb_get L) qa pa ca None ?t"
    using assms(2) by (simp add: threads_at_def)
  moreover have "in_turn (unread view qa ca ?t) (None \<noteq> (None :: bytes option)) (th_fetch ?t \<noteq> None) xs"
    using assms(3) by (simp add: unread_def)
  ultimately obtain t' pend' where "run_threads pa ca xs ?t =
       Some (take (takes xs) (drop (fetched ca s) (queue_log view qa s @ stored xs)), t')"
     "threads_at view (driver_ldb_put L) (driver_ldb_get L) qa pa ca pend' t'"
     "queue_log view qa (th_ctx t') @ pending pend' = queue_log view qa s @ stored xs"
     "fetched ca (th_ctx t') = fetched ca s + takes xs"
    using leveldb_healthy.driver_threads_deliver [OF assms(1), of qa pa ca None ?t xs] assms(4) by auto
  then show ?thesis by (cases pend') (auto simp: threads_at_def)
qed

text \<open>The hypotheses of the properties on an empty table in memory.\<close>

lemma empty_storage:
  "csv_stored (map_of []) queues_key []" "queue_stored (map_of []) n [] [] 0" "resumes_at (map_of []) n [] c 0"
  by (simp_all add: csv_stored_def queue_stored_def resumes_at_def)

lemma demo_session:
  obtains qa pa ca s where
    "queue_ready map_of (driver_ldb_put mem_leveldb) (driver_ldb_get mem_leveldb) qa pa ca s"
    "queue_log map_of qa s = []" "fetched ca s = 0"
proof -
  obtain ctx where "xmq_context_new True ([] :: (bytes \<times> bytes) list) [] 8 = Some ctx"
    by (simp add: xmq_context_new_def)
  note session = mem_ldb.session_ready [OF empty_storage(1) _ _ _ empty_storage(2) _ empty_storage(3) _ this,
      of "[0x71]" "[0x70]" "[0x63]" False None]
  show ?thesis
    using session that by (auto simp: csv_name_def FIELD_MAX_LEN_def comma_def)
qed

theorem xmq_delivers_in_order_witness:
  "\<exists>pa ca (s :: (bytes \<times> bytes) list xmq_context) t'. run_threads pa ca
     [Store [1], Publish, Store [2, 0], Look, Publish, Take, Look, Store [3], Take, Publish, Look, Take]
     \<lparr>th_push = None, th_fetch = None, th_ctx = s\<rparr> = Some ([[1], [2, 0], [3]], t')"
proof -
  obtain qa pa ca s where r: "queue_ready map_of (driver_ldb_put mem_leveldb) (driver_ldb_get mem_leveldb) qa pa ca s"
      "queue_log map_of qa s = []" "fetched ca s = 0"
    by (rule demo_session)
  show ?thesis
    using xmq_delivers_in_order [OF mem_ldb.leveldb_healthy_axioms r(1),
        of "[Store [1], Publish, Store [2, 0], Look, Publish, Take, Look, Store [3], Take, Publish, Look, Take]"] r(2,3)
    by (auto simp: sendable_def)
qed

text \<open>C31: two producers lose a message. The capacity is read outside \<^verbatim>\<open>wait_lock\<close>: when two producers of
  a blocking queue that is not empty both store before either advances the capacity, both pushes
  return 0 and give their messages the same index; the second message replaces the first in the
  storage, which holds nothing else new, while the queue counts two messages more than before and
  the storage one.\<close>

theorem xmq_two_producers_collide:
  assumes "leveldb_healthy L view"
    and "queue_ready view (driver_ldb_put L) (driver_ldb_get L) qa pa ca s" "sendable a" "sendable b"
    and "producers s pb = Some p2" "p_owner_queue p2 = qa"
    and "queues s qa = Some q" "msg_capacity q \<noteq> 0"
  shows "\<exists>m1 m2 s1 s2 s3. push_store s (Some pa) (Some (msg_of 0 a)) = Some (0, Some m1, Some qa, s1)
    \<and> push_store s1 (Some pb) (Some (msg_of 0 b)) = Some (0, Some m2, Some qa, s2)
    \<and> push_publish s2 qa = Some s3 \<and> push_publish s3 qa = Some (set_queue qa (q\<lparr>msg_capacity := msg_capacity q + 2\<rparr>) s2)
    \<and> msg_index m1 = msg_index m2
    \<and> view (pvt s2) = (view (pvt s))(le64 (msg_capacity q + 1) \<mapsto> msg_bytes (msg_of (msg_capacity q + 1) b),
        user_key ''CAPACITY'' (q_name q) \<mapsto> le64 (msg_capacity q + 1))"
  by (rule leveldb_healthy.driver_stores_collide [OF assms])

theorem xmq_two_producers_collide_witness:
  "\<exists>pa pb (s :: (bytes \<times> bytes) list xmq_context) m1 m2 s1 s2 qa. pa \<noteq> pb
    \<and> push_store s (Some pa) (Some (msg_of 0 [1])) = Some (0, Some m1, Some qa, s1)
    \<and> push_store s1 (Some pb) (Some (msg_of 0 [2])) = Some (0, Some m2, Some qa, s2) \<and> msg_index m1 = msg_index m2"
proof -
  obtain qa pa ca s0 where r0: "queue_ready map_of (driver_ldb_put mem_leveldb) (driver_ldb_get mem_leveldb) qa pa ca s0"
      "queue_log map_of qa s0 = []" "fetched ca s0 = 0"
    by (rule demo_session)
  obtain s1 where r1: "queue_ready map_of (driver_ldb_put mem_leveldb) (driver_ldb_get mem_leveldb) qa pa ca s1"
      "queue_log map_of qa s1 = [[9]]"
    using mem_ldb.send_appends [OF r0(1), of "[9]"] r0(2) by (auto simp: sendable_def)
  obtain q p where q: "queues s1 qa = Some q" "producers s1 pa = Some p" "p_owner_queue p = qa"
    using r1(1) by (auto simp: queue_ready_def split: option.splits)
  define s where "s = s1\<lparr>producers := (producers s1)(Suc pa \<mapsto> p)\<rparr>"
  have r: "queue_ready map_of (driver_ldb_put mem_leveldb) (driver_ldb_get mem_leveldb) qa pa ca s"
    using r1(1) q by (auto simp: queue_ready_def s_def uses_def split: option.splits)
  have pb: "producers s (Suc pa) = Some p" "queues s qa = Some q" using q by (simp_all add: s_def)
  have "msg_capacity q \<noteq> 0" using length_queue_log [OF q(1), of map_of] r1(2) by auto
  from xmq_two_producers_collide [OF mem_ldb.leveldb_healthy_axioms r _ _ pb(1) q(3) pb(2) this, of "[1]" "[2]"]
  obtain m1 m2 s1 s2 where "push_store s (Some pa) (Some (msg_of 0 [1])) = Some (0, Some m1, Some qa, s1)"
    "push_store s1 (Some (Suc pa)) (Some (msg_of 0 [2])) = Some (0, Some m2, Some qa, s2)" "msg_index m1 = msg_index m2"
    by (auto simp: sendable_def)
  moreover have "pa \<noteq> Suc pa" by simp
  ultimately show ?thesis by blast
qed

text \<open>C9: Restart: whatever well-formed names, messages and positions a LevelDB that reports no errors
  holds, creating and initialising a context, opening a queue as blocking and registering a producer
  and a consumer succeeds; the queue then has exactly the stored messages and the consumer reads on
  at its stored position. Assumed: no allocation fails, and the allocator leaves at least two spare
  bytes (\<open>2 \<le> sl\<close>) behind the block of a position key, past which \<^verbatim>\<open>xmq.c\<close> line 93 writes; with fewer,
  registering the consumer is undefined (\<open>position_keys_overrun\<close>).\<close>

theorem xmq_session_resumes:
  assumes "leveldb_healthy L view"
    and "csv_stored (view d) queues_key names" "csv_name n" "csv_name p" "csv_name c"
    and "queue_stored (view d) n ps cs k"
    and "\<forall>i. i \<noteq> 0 \<and> i \<le> k \<longrightarrow> (\<exists>x. sendable x \<and> view d (le64 i) = Some (msg_bytes (msg_of i x)))"
    and "resumes_at (view d) n cs c f" "f \<le> k"
    and "xmq_context_new True d0 [] sl = Some ctx" "2 \<le> sl" "has \<longrightarrow> free \<noteq> None"
  shows "\<exists>s1 qa s2 pa s3 ca s4.
    xmq_context_init ctx d has free (Some (driver_ldb_put L)) (Some (driver_ldb_get L)) = Some (0, s1) \<and>
    xmq_queue_open s1 (Some n) F_QUEUE_BLOCK = Some (Some qa, s2) \<and>
    xmq_register_as_producer s2 (Some qa) (Some p) = Some (Some pa, s3) \<and>
    xmq_register_as_consumer s3 (Some qa) (Some c) = Some (Some ca, s4) \<and>
    queue_ready view (driver_ldb_put L) (driver_ldb_get L) qa pa ca s4 \<and>
    queue_log view qa s4 = map (\<lambda>i. stored_msg (view d) (of_nat (Suc i))) [0..<unat k] \<and>
    fetched ca s4 = unat f"
  by (rule leveldb_healthy.driver_session_ready [OF assms])

definition demo_storage :: "(bytes \<times> bytes) list" where
  "demo_storage = [(queues_key, csv_join [[0x61], [0x71]] @ [0]),
     (user_key ''CONSUMERS'' [0x71], csv_join [[0x63]] @ [0]),
     (user_key ''CAPACITY'' [0x71], le64 2), (pos_key ''FETCHPOS'' [0x71] [0x63], le64 1),
     (le64 1, msg_bytes (msg_of 1 [10])), (le64 2, msg_bytes (msg_of 2 [20, 30]))]"

theorem xmq_session_resumes_witness:
  "\<exists>qa ca s. queue_log map_of qa s = [[10], [20, 30]] \<and> fetched ca s = 1"
proof -
  obtain ctx where ctx: "xmq_context_new True ([] :: (bytes \<times> bytes) list) [] 8 = Some ctx"
    by (simp add: xmq_context_new_def)
  have names: "csv_name [0x71]" "csv_name [0x70]" "csv_name [0x63]" "csv_name [0x61]"
    by (simp_all add: csv_name_def FIELD_MAX_LEN_def comma_def)
  have i2: "i \<noteq> 0 \<and> i \<le> 2 \<longleftrightarrow> i = 1 \<or> i = 2" for i :: u64
    by (auto simp: word_le_nat_alt word_unat_eq_iff)
  have e: "csv_stored (map_of demo_storage) queues_key [[0x61], [0x71]]"
    "queue_stored (map_of demo_storage) [0x71] [] [[0x63]] 2"
    "resumes_at (map_of demo_storage) [0x71] [[0x63]] [0x63] 1"
    using names
    by (auto simp: demo_storage_def csv_stored_def queue_stored_def resumes_at_def pos_stored_def)
  have m: "sendable [10]" "map_of demo_storage (le64 1) = Some (msg_bytes (msg_of 1 [10]))"
    "sendable [20, 30]" "map_of demo_storage (le64 2) = Some (msg_bytes (msg_of 2 [20, 30]))"
    by (simp_all add: demo_storage_def sendable_def)
  have msgs: "\<forall>i. i \<noteq> 0 \<and> i \<le> 2 \<longrightarrow>
      (\<exists>x. sendable x \<and> map_of demo_storage (le64 i) = Some (msg_bytes (msg_of i x)))"
    unfolding i2 using m by blast
  have log: "map (\<lambda>i. stored_msg (map_of demo_storage) (of_nat (Suc i))) [0..<unat (2 :: u64)] = [[10], [20, 30]]"
    using m by (simp add: upt_rec)
  show ?thesis
    using xmq_session_resumes [OF mem_ldb.leveldb_healthy_axioms e(1) names(1-3) e(2) msgs e(3) _ ctx, of False None]
    unfolding log by auto
qed

section \<open>Waiting\<close>

lemma queue_ready_waiters:
  assumes "queues s qa = Some q"
  shows "queue_ready view put get qa pa ca (set_queue qa (q\<lparr>waiters := w\<rparr>) s) = queue_ready view put get qa pa ca s"
    and "queue_log view qa (set_queue qa (q\<lparr>waiters := w\<rparr>) s) = queue_log view qa s"
    and "fetched ca (set_queue qa (q\<lparr>waiters := w\<rparr>) s) = fetched ca s"
  using assms
  by (auto simp: queue_ready_def queue_log_def fetched_def uses_def blocking_def stored_queue_def
      split: option.splits)

text \<open>One round of the wait: the mutex is free while the other threads run.\<close>

lemma wait_round_resumes:
  assumes q: "queues s qa = Some q" "wait_lock q = Some False"
    and r: "resume w (set_queue qa (q\<lparr>waiters := waiters q + 1\<rparr>) s) = (res, s1)"
    and q1: "queues s1 qa = Some q1" "wait_lock q1 = Some False"
  shows "wait_round (set_queue qa (q\<lparr>wait_lock := Some True\<rparr>) s) qa 0 w =
    Some (res, set_queue qa (q1\<lparr>waiters := waiters q1 - 1, wait_lock := Some True\<rparr>) s1)"
proof -
  have e: "q\<lparr>wait_lock := Some True, waiters := waiters q + 1, wait_lock := Some False\<rparr> = q\<lparr>waiters := waiters q + 1\<rparr>"
    using q(2) by (cases q) simp
  have e1: "q1\<lparr>wait_lock := Some True, waiters := waiters q1 - 1\<rparr> = q1\<lparr>waiters := waiters q1 - 1, wait_lock := Some True\<rparr>"
    by (cases q1) simp
  have u: "unlock_wait qa (set_queue qa (q\<lparr>wait_lock := Some True, waiters := waiters q + 1\<rparr>) s) =
      Some (set_queue qa (q\<lparr>waiters := waiters q + 1\<rparr>) s)"
    unfolding e [symmetric] by (simp add: unlock_wait_def)
  show ?thesis
    using u r lock_unlock_wait(1) [OF q1] by (simp add: wait_round_def cond_wait_def) (simp only: e1)
qed

context reliable_store
begin

lemma waiting_fetch:
  assumes rd: "queue_ready view put get qa pa ca s" and m: "sendable m"
    and none: "fetched ca s = length (queue_log view qa s)" "length (queue_log view qa s) < 2 ^ 64 - 1"
    and w: "resume w = (\<lambda>s. (0, case xmq_send pa s m of Some s' \<Rightarrow> s' | None \<Rightarrow> s))"
  shows "\<exists>msg s'. queue_fetch_next s (Some ca) 0 [w] = Some (Some (Ptr msg), s') \<and> msg_data msg = m
    \<and> queue_ready view put get qa pa ca s'
    \<and> queue_log view qa s' = queue_log view qa s @ [m] \<and> fetched ca s' = Suc (fetched ca s)"
proof -
  obtain q c where q: "queues s qa = Some q" "blocking q" "wait_lock q = Some False"
    and c: "consumers s ca = Some c" "c_owner_queue c = qa"
    using rd by (auto simp: queue_ready_def split: option.splits)
  have idx: "last_fetch_index c = msg_capacity q"
    using none(1) q c by (simp add: fetched_def length_queue_log word_unat_eq_iff)
  have cap: "unat (msg_capacity q) < 2 ^ 64 - 1" using none(2) q by (simp add: length_queue_log)
  define s0 where "s0 = set_queue qa (q\<lparr>waiters := waiters q + 1\<rparr>) s"
  have s0: "queue_ready view put get qa pa ca s0" "queue_log view qa s0 = queue_log view qa s"
    "fetched ca s0 = fetched ca s"
    using rd queue_ready_waiters [OF q(1)] by (simp_all add: s0_def)
  obtain s1 where s1: "xmq_send pa s0 m = Some s1" "queue_ready view put get qa pa ca s1"
      "queue_log view qa s1 = queue_log view qa s @ [m]" "fetched ca s1 = fetched ca s"
    using send_appends [OF s0(1) m] none(2) s0 by auto
  obtain q1 c1 where q1: "queues s1 qa = Some q1" "blocking q1" "wait_lock q1 = Some False"
    and c1: "consumers s1 ca = Some c1" "c_owner_queue c1 = qa"
    using s1(2) by (auto simp: queue_ready_def split: option.splits)
  have cap1: "unat (msg_capacity q1) = Suc (unat (msg_capacity q))"
    using s1(3) q1 q length_queue_log [OF q1(1), of view] length_queue_log [OF q(1), of view] by simp
  define s2 where "s2 = set_queue qa (q1\<lparr>waiters := waiters q1 - 1\<rparr>) s1"
  have s2: "queue_ready view put get qa pa ca s2" "queue_log view qa s2 = queue_log view qa s @ [m]"
    "fetched ca s2 = fetched ca s"
    using s1 queue_ready_waiters [OF q1(1)] by (simp_all add: s2_def)
  obtain s3 where s3: "xmq_receive ca s2 = Some (m, s3)" "queue_ready view put get qa pa ca s3"
      "queue_log view qa s3 = queue_log view qa s @ [m]" "fetched ca s3 = Suc (fetched ca s)"
    using receive_reads [OF s2(1)] s2 none(1) by (auto simp: nth_append)
  have idx1: "last_fetch_index c1 = msg_capacity q"
    using s1(4) none(1) q c1 by (simp add: fetched_def length_queue_log word_unat_eq_iff)
  let ?i = "msg_capacity q + 1"
  have i: "unat ?i = Suc (unat (msg_capacity q))" using cap by (rule unat_plus1)
  have gt: "?i > msg_capacity q" and le: "?i \<le> msg_capacity q1"
    using i cap1 by (simp_all add: word_less_nat_alt word_le_nat_alt)
  let ?q2 = "q1\<lparr>waiters := waiters q1 - 1\<rparr>"
  have q2: "queues s2 qa = Some ?q2" "wait_lock ?q2 = Some False" and c2: "consumers s2 ca = Some c1"
    using q1 c1 by (simp_all add: s2_def)
  obtain msg where msg: "fetch_commit s2 ca ?i = Some (Ptr msg, s3)" "msg_data msg = m"
    using s3(1) c2 c1(2) q2 q1(2) leD [OF le] lock_unlock_wait [OF q2] idx1
    by (auto simp: xmq_receive_def queue_fetch_next_def queue_fetch_nth_def fetch_admit_def blocking_def
        split: bind_split_asm option.split_asm ptr.split_asm)
  have "resume w (set_queue qa (q\<lparr>waiters := waiters q + 1\<rparr>) s) = (0, s1)"
    using w s1(1) by (simp add: s0_def)
  note round = wait_round_resumes [OF q(1,3) this q1(1,3)]
  have sW: "set_queue qa (q1\<lparr>waiters := waiters q1 - 1, wait_lock := Some True\<rparr>) s1 =
      set_queue qa (?q2\<lparr>wait_lock := Some True\<rparr>) s2"
    by (simp add: s2_def)
  have "fetch_wait (set_queue qa (q\<lparr>wait_lock := Some True\<rparr>) s) qa ?i 0 [w] =
      Some (Ready, set_queue qa (?q2\<lparr>wait_lock := Some True\<rparr>) s2)"
    using round gt le unfolding sW by simp
  then have "queue_fetch_next s (Some ca) 0 [w] = Some (Some (Ptr msg), s3)"
    using c q lock_unlock_wait(1) [OF q(1,3)] lock_unlock_wait(2) [OF q2] idx msg(1)
    by (simp add: queue_fetch_next_def queue_fetch_nth_def fetch_admit_def del: fetch_wait.simps)
  then show ?thesis using msg(2) s3 by blast
qed

end

context leveldb_healthy
begin

lemmas driver_waiting_fetch = waiting_fetch

end

text \<open>A consumer that has read everything and waits without time limit is woken by the next
  push: the fetch returns the message pushed while it waited, and the queue is ready again.\<close>

lemma waiting_consumer_is_woken:
  assumes "leveldb_healthy L view"
    and "queue_ready view (driver_ldb_put L) (driver_ldb_get L) qa pa ca s" "sendable m"
    and "fetched ca s = length (queue_log view qa s)" "length (queue_log view qa s) < 2 ^ 64 - 1"
    and "resume w = (\<lambda>s. (0, case xmq_send pa s m of Some s' \<Rightarrow> s' | None \<Rightarrow> s))"
  shows "\<exists>msg s'. queue_fetch_next s (Some ca) 0 [w] = Some (Some (Ptr msg), s') \<and> msg_data msg = m
    \<and> queue_ready view (driver_ldb_put L) (driver_ldb_get L) qa pa ca s'
    \<and> queue_log view qa s' = queue_log view qa s @ [m] \<and> fetched ca s' = Suc (fetched ca s)"
  by (rule leveldb_healthy.driver_waiting_fetch [OF assms])

lemma waiting_consumer_is_woken_witness:
  "\<exists>ca pa (s :: (bytes \<times> bytes) list xmq_context) msg s'. queue_fetch_next s (Some ca) 0
     [\<lparr>now_sec = 0, now_usec = 0, resume = (\<lambda>s. (0, case xmq_send pa s [7] of Some s' \<Rightarrow> s' | None \<Rightarrow> s))\<rparr>] =
     Some (Some (Ptr msg), s') \<and> msg_data msg = [7]"
proof -
  obtain qa pa ca s where r: "queue_ready map_of (driver_ldb_put mem_leveldb) (driver_ldb_get mem_leveldb) qa pa ca s"
      "queue_log map_of qa s = []" "fetched ca s = 0"
    by (rule demo_session)
  let ?w = "\<lparr>now_sec = 0, now_usec = 0, resume = (\<lambda>s. (0, case xmq_send pa s [7] of Some s' \<Rightarrow> s' | None \<Rightarrow> s))\<rparr>"
  obtain msg s' where "queue_fetch_next s (Some ca) 0 [?w] = Some (Some (Ptr msg), s')" "msg_data msg = [7]"
    using waiting_consumer_is_woken [OF mem_ldb.leveldb_healthy_axioms r(1), of "[7]" ?w] r(2,3)
    by (auto simp: sendable_def)
  then show ?thesis by blast
qed

text \<open>The deadline of a timed fetch is the current time plus the time limit exactly when the
  microseconds do not carry into the next second (or the limit is one second); the carry
  branch adds the complement of the limit instead of subtracting it.\<close>

lemma wait_deadline_exact:
  assumes "wait_deadline sec usec millis = (dsec, dnsec)"
  shows "dsec * 1000000000 + dnsec = sec * 1000000000 + (usec + 1000 * uint millis) * 1000 \<longleftrightarrow>
    usec + 1000 * uint millis < 1000000 \<or> uint millis = 1000"
  using assms by (auto simp: wait_deadline_def Let_def split: if_splits)

lemma wait_deadline_exact_witness:
  "wait_deadline 5 600000 500 = (6, 1100000000) \<and>
   (6 * 1000000000 + 1100000000 = 5 * 1000000000 + (600000 + 1000 * uint (500 :: u32)) * (1000 :: int) \<longleftrightarrow>
    (600000 + 1000 * uint (500 :: u32) < 1000000 \<or> uint (500 :: u32) = 1000))"
proof -
  have "wait_deadline 5 600000 500 = (6, 1100000000)" by (simp add: wait_deadline_def)
  with wait_deadline_exact [OF this] show ?thesis by blast
qed

text \<open>When the deadline of every wake-up is out of range, the fetch of a message that is not
  there never returns: each wait is refused at once, the state stays as it was, and the
  mutex a producer needs stays locked.\<close>

lemma timed_fetch_spins:
  assumes "queues s qa = Some q" "wait_lock q = Some True" "index > msg_capacity q" "millis \<noteq> 0"
    and "list_all (\<lambda>w. snd (wait_deadline (now_sec w) (now_usec w) millis) \<notin> {0..<1000000000}) ws"
  shows "fetch_wait s qa index millis ws = Some (Still_Waiting, s) \<and> lock_wait qa s = None"
proof -
  have round: "wait_round s qa millis w = Some (EINVAL, s)"
    if "snd (wait_deadline (now_sec w) (now_usec w) millis) \<notin> {0..<1000000000}" for w
  proof -
    obtain sec nsec where d: "wait_deadline (now_sec w) (now_usec w) millis = (sec, nsec)" by fastforce
    then have "nsec < 0 \<or> 1000000000 \<le> nsec" using that by auto
    then show ?thesis
      using assms(1,4) d by (simp add: wait_round_def cond_wait_def Let_def)
  qed
  have "fetch_wait s qa index millis ws = Some (Still_Waiting, s)"
    using assms(5) by (induction ws) (use assms(1,3) round in \<open>simp_all add: EINVAL_def ETIMEDOUT_def\<close>)
  then show ?thesis using assms(1,2) by (simp add: lock_wait_def)
qed

lemma timed_fetch_spins_witness:
  "\<exists>s :: unit xmq_context. fetch_wait s 1 1 500
     [\<lparr>now_sec = 5, now_usec = 600000, resume = (\<lambda>s. (0, s))\<rparr>] = Some (Still_Waiting, s) \<and> lock_wait 1 s = None"
proof -
  define s :: "unit xmq_context" where "s = set_queue 1 ((queue_zero [0x71])\<lparr>wait_lock := Some True\<rparr>)
    (the (xmq_context_new True () [] 8))"
  have "fetch_wait s 1 1 500 [\<lparr>now_sec = 5, now_usec = 600000, resume = (\<lambda>s. (0, s))\<rparr>] = Some (Still_Waiting, s)
      \<and> lock_wait 1 s = None"
    by (rule timed_fetch_spins [of s 1 "(queue_zero [0x71])\<lparr>wait_lock := Some True\<rparr>" 1 500])
      (simp_all add: s_def wait_deadline_def)
  then show ?thesis by blast
qed

section \<open>Locking\<close>

text \<open>Opening a queue that is already open, and registering a consumer that is already
  registered, release the tree lock without having taken it, which is undefined.\<close>

lemma reopen_releases_free_lock:
  assumes "node_tree_lock s = Some False"
  shows "(length n < 256 \<and> find_queue s n (active_queues s) = Some (Some qa) \<longrightarrow>
      xmq_queue_open s (Some n) flag = None) \<and>
    (c \<noteq> [] \<and> queues s qb = Some q \<and> find_consumer s c (active_consumers q) = Some (Some ca) \<longrightarrow>
      xmq_register_as_consumer s (Some qb) (Some c) = None)"
  using assms
  by (simp add: xmq_queue_open_def xmq_register_as_consumer_def search_free named_def unlock_tree_def)

text \<open>A context over a storage whose puts fail.\<close>

definition broken_ctx :: "unit xmq_context" where
  "broken_ctx = set_queue 3 ((queue_zero [0x71])\<lparr>active_consumers := [2]\<rparr>)
     (set_consumer 2 (consumer_zero [0x63] 3)
     ((the (xmq_context_new True () [] 8))\<lparr>put_KVs_cb := Some (\<lambda>d _. (-1, d)),
        get_KVs_cb := Some (\<lambda>_ ks. (0, map (\<lambda>_. None) ks)), node_tree_lock := Some False,
        active_queues := [3]\<rparr>))"

lemma broken_ctx_simps [simp]:
  "node_tree_lock broken_ctx = Some False" "active_queues broken_ctx = [3]" "allocs broken_ctx = []"
  "queues broken_ctx 3 = Some ((queue_zero [0x71])\<lparr>active_consumers := [2]\<rparr>)"
  "consumers broken_ctx 2 = Some (consumer_zero [0x63] 3)" "put_KVs_cb broken_ctx = Some (\<lambda>d _. (-1, d))"
  "get_KVs_cb broken_ctx = Some (\<lambda>_ ks. (0, map (\<lambda>_. None) ks))"
  by (simp_all add: broken_ctx_def xmq_context_new_def)

lemma load_lock [simp]: "load_string_bin (s\<lparr>node_tree_lock := l\<rparr>) k = load_string_bin s k"
  by (cases "get_KVs_cb s") (simp_all add: load_string_bin_def)

lemma reopen_releases_free_lock_witness:
  "xmq_queue_open broken_ctx (Some [0x71]) 0 = None \<and>
   xmq_register_as_consumer broken_ctx (Some 3) (Some [0x63]) = None"
  using reopen_releases_free_lock [of broken_ctx "[0x71]" 3 0 "[0x63]" 3 "(queue_zero [0x71])\<lparr>active_consumers := [2]\<rparr>" 2]
  by (simp add: find_queue_def find_consumer_def)

lemma append_keeps_lock:
  "write_back_append s k n sep = Some (r, s') \<Longrightarrow> node_tree_lock s' = node_tree_lock s"
  by (auto simp: write_back_append_def string_append_3rd_def calloc_def write_string_string_def write_string_bin_def
      split: bind_split_asm if_split_asm option.split_asm list.split_asm prod.split_asm)

text \<open>C30: When the name of a new producer cannot be stored, the registration fails and returns with
  the tree lock held: the next call that takes the lock waits for ever.\<close>

theorem failed_registration_keeps_lock:
  assumes "node_tree_lock s = Some False" "allocs s = []" "p \<noteq> []" "queues s qa = Some q"
    and "find_producer s p (active_producers q) = Some None" "find_producer s p (dead_producers q) = Some None"
    and "write_back_append (s\<lparr>node_tree_lock := Some True\<rparr>) (user_key ''PRODUCERS'' (q_name q))
      (take 255 p) [comma] = Some (Bad, s')"
  shows "xmq_register_as_producer s (Some qa) (Some p) = Some (None, s') \<and>
    xmq_queue_is_active s' (Some n) = None \<and> xmq_register_as_producer s' (Some qa) (Some p) = None"
proof -
  have "xmq_register_as_producer s (Some qa) (Some p) = new_producer s qa p"
    using assms(1,3-6) search_free(2) [OF assms(1,3,4)] exist_free(2) [OF assms(1,3,4)]
    by (simp add: xmq_register_as_producer_def named_def)
  moreover have "new_producer s qa p = Some (None, s')"
    using assms(1,2,4,7) by (simp add: new_producer_def lock_tree_def get_keys)
  moreover have "node_tree_lock s' = Some True"
    using append_keeps_lock [OF assms(7)] by simp
  ultimately show ?thesis
    using assms(3)
    by (simp add: xmq_queue_is_active_def xmq_register_as_producer_def xmq_producer_is_active_def named_def lock_tree_def)
qed

theorem failed_registration_keeps_lock_witness:
  "\<exists>s'. xmq_register_as_producer broken_ctx (Some 3) (Some [0x70]) = Some (None, s') \<and>
    xmq_queue_is_active s' (Some [0x71]) = None"
proof -
  have "write_back_append (broken_ctx\<lparr>node_tree_lock := Some True\<rparr>) (user_key ''PRODUCERS'' [0x71]) [0x70] [comma] =
      Some (Bad, broken_ctx\<lparr>node_tree_lock := Some True\<rparr>)"
    by (simp add: write_back_append_def load_string_string_def load_string_bin_def append_two
        write_string_string_def write_string_bin_def)
  then show ?thesis
    using failed_registration_keeps_lock [of broken_ctx "[0x70]" 3 "(queue_zero [0x71])\<lparr>active_consumers := [2]\<rparr>"]
    by simp
qed

section \<open>Positions and capacities\<close>

text \<open>Building the key of a consumer position writes the closing separator behind the allocated
  block: two bytes more than \<^verbatim>\<open>__string_append_3rd\<close> reserves, whatever the names are. Where the
  allocator leaves less than that, registering, fetching and marking are undefined.\<close>

lemma position_keys_overrun:
  "length (append_merge (Some xmq_prefix) (Some xmq_sep) (Some q) (Some u) (Some what)) + 1 =
     append_total (Some xmq_prefix) (Some xmq_sep) (Some q) (Some u) (Some what) + 2 \<and>
   (allocs s = [] \<and> slack s < 2 \<longrightarrow>
     get_key_of_fetchpos s q u = None \<and> get_key_of_markpos s q u = None)"
  using append_overrun [of "Some xmq_prefix" xmq_sep q u what] by (simp add: get_pos_keys)

lemma position_keys_overrun_witness:
  "get_key_of_fetchpos (broken_ctx\<lparr>slack := 0\<rparr>) [0x71] [0x63] = None"
  using position_keys_overrun [of "[0x71]" "[0x63]" "[]" "broken_ctx\<lparr>slack := 0\<rparr>"] by simp

text \<open>Marking a message stores the new mark but leaves \<^verbatim>\<open>last_mark_index\<close> as it was: the mark position
  does not move, and marking the next message twice marks the same message twice.\<close>

theorem mark_next_does_not_move:
  assumes "uses put get s" "consumers s ca = Some c" "queues s (c_owner_queue c) = Some q"
    and "last_mark_index c + 1 \<le> msg_capacity q" "\<And>d kvs. fst (put d kvs) = 0"
  shows "\<exists>s1 s2. queue_mark_next s (Some ca) = Some (last_mark_index c, s1) \<and>
    queue_mark_next s1 (Some ca) = Some (last_mark_index c, s2) \<and>
    queue_mark_pos s2 (Some ca) = Some (last_mark_index c) \<and>
    pvt s2 = snd (put (pvt s1) [(pos_key ''MARKPOS'' (q_name q) (c_identity c), le64 (last_mark_index c + 1))])"
proof -
  have step: "queue_mark_next (s\<lparr>pvt := d\<rparr>) (Some ca) = Some (last_mark_index c, s\<lparr>pvt := snd
      (put d [(pos_key ''MARKPOS'' (q_name q) (c_identity c), le64 (last_mark_index c + 1))])\<rparr>)" for d
    using assms by (simp add: queue_mark_next_def queue_mark_nth_def uses_def get_pos_keys case_prod_beta)
  show ?thesis
    using step [of "pvt s"] step assms(2) by (simp add: queue_mark_pos_def)
qed

theorem mark_next_does_not_move_witness:
  "\<exists>(s :: (bytes \<times> bytes) list xmq_context) s1 s2. queue_mark_next s (Some 2) = Some (0, s1) \<and> queue_mark_next s1 (Some 2) = Some (0, s2)"
proof -
  define s :: "(bytes \<times> bytes) list xmq_context" where "s = set_queue 3 ((queue_zero [0x71])\<lparr>msg_capacity := 5\<rparr>)
    (set_consumer 2 (consumer_zero [0x63] 3) ((the (xmq_context_new True [] [] 8))
      \<lparr>put_KVs_cb := Some (\<lambda>d kvs. (0, kvs @ d)), get_KVs_cb := Some (\<lambda>d ks. (0, map (map_of d) ks))\<rparr>))"
  have "uses (\<lambda>d kvs. (0, kvs @ d)) (\<lambda>d ks. (0, map (map_of d) ks)) s" "consumers s 2 = Some (consumer_zero [0x63] 3)"
    "queues s 3 = Some ((queue_zero [0x71])\<lparr>msg_capacity := 5\<rparr>)"
    by (simp_all add: s_def uses_def xmq_context_new_def)
  from mark_next_does_not_move [OF this(1,2)] this(3) show ?thesis by (simp) blast
qed

text \<open>On a queue that is not opened as blocking the capacity in memory is not advanced by a push:
  from the second message on, every push replaces the message pushed before it.\<close>

lemma nonblocking_push_overwrites:
  assumes "uses put get s" "queues s qa = Some q" "\<not> blocking q" "msg_capacity q \<noteq> 0"
    and "producers s pa = Some p" "p_owner_queue p = qa" "\<And>d kvs. fst (put d kvs) = 0"
  shows "\<exists>s1 s2. queue_push_tail s (Some pa) (Some m1) =
      Some (0, Some (m1\<lparr>msg_index := msg_capacity q + 1\<rparr>), s1) \<and>
    queue_push_tail s1 (Some pa) (Some m2) =
      Some (0, Some (m2\<lparr>msg_index := msg_capacity q + 1\<rparr>), s2) \<and>
    pvt s2 = snd (put (pvt s1) [(le64 (msg_capacity q + 1), msg_entry (m2\<lparr>msg_index := msg_capacity q + 1\<rparr>)),
      (user_key ''CAPACITY'' (q_name q), le64 (msg_capacity q + 1))])"
proof -
  have step: "queue_push_tail (s\<lparr>pvt := d\<rparr>) (Some pa) (Some m) = Some (0, Some (m\<lparr>msg_index := msg_capacity q + 1\<rparr>),
      s\<lparr>pvt := snd (put d [(le64 (msg_capacity q + 1), msg_entry (m\<lparr>msg_index := msg_capacity q + 1\<rparr>)),
        (user_key ''CAPACITY'' (q_name q), le64 (msg_capacity q + 1))])\<rparr>)" for d m
    using assms by (simp add: queue_push_tail_def push_store_def current_capacity_def uses_def get_keys xmq_msg_set_index_def case_prod_beta Let_def)
  show ?thesis
    using step [of "pvt s"] step by simp
qed

lemma nonblocking_push_overwrites_witness:
  "\<exists>(s :: (bytes \<times> bytes) list xmq_context) s1 s2 m1 m2. queue_push_tail s (Some 2) (Some (msg_of 0 [1])) = Some (0, Some m1, s1) \<and>
     queue_push_tail s1 (Some 2) (Some (msg_of 0 [9])) = Some (0, Some m2, s2) \<and> msg_index m1 = msg_index m2"
proof -
  define s :: "(bytes \<times> bytes) list xmq_context" where "s = set_queue 3 ((queue_zero [0x71])\<lparr>msg_capacity := 1\<rparr>)
    ((the (xmq_context_new True [] [] 8))\<lparr>producers := [2 \<mapsto> \<lparr>p_identity = [0x70], p_owner_queue = 3\<rparr>],
      put_KVs_cb := Some (\<lambda>d kvs. (0, kvs @ d)), get_KVs_cb := Some (\<lambda>d ks. (0, map (map_of d) ks))\<rparr>)"
  have "uses (\<lambda>d kvs. (0, kvs @ d)) (\<lambda>d ks. (0, map (map_of d) ks)) s"
    "queues s 3 = Some ((queue_zero [0x71])\<lparr>msg_capacity := 1\<rparr>)"
    "\<not> blocking ((queue_zero [0x71])\<lparr>msg_capacity := 1\<rparr>)"
    "producers s 2 = Some \<lparr>p_identity = [0x70], p_owner_queue = 3\<rparr>"
    by (simp_all add: s_def uses_def xmq_context_new_def blocking_def queue_zero_def)
  from nonblocking_push_overwrites [OF this(1,2,3) _ this(4), of "msg_of 0 [1]" "msg_of 0 [9]"]
  show ?thesis by fastforce
qed

text \<open>Fetching index 0 reports an error, yet stores 0 as the fetch position: the consumer
  starts again with the first message.\<close>

theorem fetch_zero_rewinds:
  assumes "uses put get s" "consumers s ca = Some c" "queues s (c_owner_queue c) = Some q" "\<not> blocking q"
    and "\<And>d kvs. fst (put d kvs) = 0"
  shows "\<exists>s'. queue_fetch_nth s (Some ca) 0 millis wakes = Some (Some Bad, s') \<and>
    queue_fetch_pos s' (Some ca) = Some 0 \<and>
    pvt s' = snd (put (pvt s) [(pos_key ''FETCHPOS'' (q_name q) (c_identity c), le64 0)])"
proof -
  have ne: "le64 0 \<noteq> []" using length_be(3) [of 0] by (metis list.size(3) zero_neq_numeral)
  show ?thesis
    using assms ne
    by (simp add: queue_fetch_nth_def fetch_admit_def fetch_commit_def msg_fetch_def get_pos_keys uses_def uint64_write_def
        write_string_bin_def case_prod_beta queue_fetch_pos_def)
qed

theorem fetch_zero_rewinds_witness:
  "\<exists>(s :: (bytes \<times> bytes) list xmq_context) s'. queue_fetch_pos s (Some 2) = Some 4 \<and>
     queue_fetch_nth s (Some 2) 0 0 [] = Some (Some Bad, s') \<and> queue_fetch_pos s' (Some 2) = Some 0"
proof -
  define s :: "(bytes \<times> bytes) list xmq_context" where "s = set_queue 3 ((queue_zero [0x71])\<lparr>msg_capacity := 5\<rparr>)
    (set_consumer 2 ((consumer_zero [0x63] 3)\<lparr>last_fetch_index := 4\<rparr>) ((the (xmq_context_new True [] [] 8))
      \<lparr>put_KVs_cb := Some (\<lambda>d kvs. (0, kvs @ d)), get_KVs_cb := Some (\<lambda>d ks. (0, map (map_of d) ks))\<rparr>))"
  have s: "uses (\<lambda>d kvs. (0, kvs @ d)) (\<lambda>d ks. (0, map (map_of d) ks)) s"
    "consumers s 2 = Some ((consumer_zero [0x63] 3)\<lparr>last_fetch_index := 4\<rparr>)"
    "queues s (c_owner_queue ((consumer_zero [0x63] 3)\<lparr>last_fetch_index := 4\<rparr>)) =
       Some ((queue_zero [0x71])\<lparr>msg_capacity := 5\<rparr>)"
    "\<not> blocking ((queue_zero [0x71])\<lparr>msg_capacity := 5\<rparr>)"
    by (simp_all add: s_def uses_def xmq_context_new_def blocking_def queue_zero_def)
  obtain s' where "queue_fetch_nth s (Some 2) 0 0 [] = Some (Some Bad, s')" "queue_fetch_pos s' (Some 2) = Some 0"
    using fetch_zero_rewinds [OF s, of 0 "[]"] by auto
  moreover have "queue_fetch_pos s (Some 2) = Some 4" using s(2) by (simp add: queue_fetch_pos_def)
  ultimately show ?thesis by blast
qed

text \<open>C28: A list of names that the queue has joined parses back into these names; and for any string
  the parser finds exactly as many fields as it counted commas, so that it stays inside the
  array it allocated.\<close>

theorem names_roundtrip:
  "(list_all csv_name names \<and> names \<noteq> [] \<longrightarrow>
     (case xmq_csv_parse_string True True csv (csv_join names) of (r, csv') \<Rightarrow>
        r = int (length names) \<and>
        (\<exists>fs. csv_fields csv' = Some fs \<and> map (field_name csv') fs = map Some names))) \<and>
   (case xmq_csv_parse_string True True csv str of (r, csv') \<Rightarrow>
      r = -1 \<or> r = int (number_of_char str comma) \<and> csv_count csv' = number_of_char str comma)"
proof -
  have "map (field_name (csv\<lparr>csv_string := Some (csv_join names), csv_fields := Some (fields_at 0 names),
      csv_count := length names\<rparr>)) (fields_at 0 names) = map Some names" if "list_all csv_name names"
    by (rule field_names_at [of _ "[]", simplified]) (use that in simp_all)
  then show ?thesis
    using csv_loop_join [of names "[]" "[]"]
    by (auto simp: xmq_csv_parse_string_def csv_parse_def split: option.split dest: csv_loop_count)
qed

theorem names_roundtrip_witness:
  "\<exists>csv' fs. xmq_csv_parse_string True True xmq_csv_parser_init (csv_join [[0x61], [0x62, 0x63]]) = (2, csv') \<and>
     csv_fields csv' = Some fs \<and> map (field_name csv') fs = [Some [0x61], Some [0x62, 0x63]]"
  using names_roundtrip [of "[[0x61], [0x62, 0x63]]" xmq_csv_parser_init "[]"]
  by (auto simp: csv_name_def FIELD_MAX_LEN_def comma_def split: prod.splits)

end
