(* ===== verification/Supex_Text.thy ===== *)
theory Supex_Text
  imports Supex_Prelude
begin

text \<open>
  Text as the C library makes and reads it: \<^verbatim>\<open>snprintf\<close>, \<^verbatim>\<open>atoi\<close>, \<^verbatim>\<open>strtok\<close>, and the lemmas that a printed
  number is read back and a token is found. A C string is the list of its bytes without the
  terminator.
\<close>

section \<open>The C library\<close>

definition ascii :: "string \<Rightarrow> bytes" where
  "ascii s = map of_char s"

text \<open>\<^verbatim>\<open>snprintf(buf, n, "%s", s)\<close>\<close>

definition snprintf :: "nat \<Rightarrow> bytes \<Rightarrow> bytes" where
  "snprintf n s = take (n - 1) s"

text \<open>The C string at the start of a zero-filled array into which \<open>bs\<close> was copied.\<close>

definition c_str_of :: "bytes \<Rightarrow> bytes" where
  "c_str_of bs = takeWhile (\<lambda>b. b \<noteq> 0) bs"

fun dec_nat :: "nat \<Rightarrow> bytes" where
  "dec_nat n = (if n < 10 then [0x30 + of_nat n] else dec_nat (n div 10) @ [0x30 + of_nat (n mod 10)])"

declare dec_nat.simps [simp del]

text \<open>\<^verbatim>\<open>%d\<close>\<close>

definition print_int :: "int \<Rightarrow> bytes" where
  "print_int x = (if x < 0 then 0x2D # dec_nat (nat (- x)) else dec_nat (nat x))"

definition is_digit :: "byte \<Rightarrow> bool" where
  "is_digit b \<longleftrightarrow> 0x30 \<le> b \<and> b \<le> 0x39"

definition is_space :: "byte \<Rightarrow> bool" where
  "is_space b \<longleftrightarrow> b = 0x20 \<or> 0x09 \<le> b \<and> b \<le> 0x0D"

definition digits_value :: "bytes \<Rightarrow> nat" where
  "digits_value ds = foldl (\<lambda>acc b. 10 * acc + unat (b - 0x30)) 0 ds"

text \<open>\<^verbatim>\<open>atoi\<close>; a value outside the range of \<^verbatim>\<open>int\<close> is undefined.\<close>

definition atoi :: "bytes \<Rightarrow> int option" where
  "atoi s =
     (let t = dropWhile is_space s;
          neg = (t \<noteq> [] \<and> hd t = 0x2D);
          u = (if t \<noteq> [] \<and> (hd t = 0x2D \<or> hd t = 0x2B) then tl t else t);
          v = int (digits_value (takeWhile is_digit u));
          x = (if neg then - v else v)
      in if - 2147483648 \<le> x \<and> x \<le> 2147483647 then Some x else None)"

text \<open>\<^verbatim>\<open>strtok\<close>: the token, and what the next call continues with.\<close>

definition strtok :: "bytes \<Rightarrow> bytes \<Rightarrow> bytes option \<times> bytes" where
  "strtok s ds =
     (let t = dropWhile (\<lambda>c. c \<in> set ds) s in
      if t = [] then (None, [])
      else (Some (takeWhile (\<lambda>c. c \<notin> set ds) t), drop 1 (dropWhile (\<lambda>c. c \<notin> set ds) t)))"

section \<open>Numbers in text\<close>

lemma digit_byte: "d < 10 \<Longrightarrow> is_digit (0x30 + of_nat d) \<and> unat (0x30 + of_nat d - 0x30 :: byte) = d"
proof -
  assume d: "d < 10"
  then have u: "unat (of_nat d :: byte) = d" by (simp add: unat_of_nat)
  then have "unat (0x30 + of_nat d :: byte) = 0x30 + d" using d by (simp add: unat_word_ariths)
  then show ?thesis using d u by (simp add: is_digit_def word_le_nat_alt)
qed

lemma dec_nat_digits: "list_all is_digit (dec_nat n) \<and> dec_nat n \<noteq> []"
proof (induction n rule: dec_nat.induct)
  case (1 n)
  then show ?case
    using digit_byte [of n] digit_byte [of "n mod 10"] by (subst dec_nat.simps, subst (2) dec_nat.simps) auto
qed

lemma digits_value_snoc: "digits_value (ds @ [b]) = 10 * digits_value ds + unat (b - 0x30)"
  by (simp add: digits_value_def)

lemma digits_value_dec: "digits_value (dec_nat n) = n"
proof (induction n rule: dec_nat.induct)
  case (1 n)
  show ?case
  proof (cases "n < 10")
    case True
    then show ?thesis using digit_byte [OF True] by (subst dec_nat.simps) (simp add: digits_value_def)
  next
    case False
    then have "dec_nat n = dec_nat (n div 10) @ [0x30 + of_nat (n mod 10)]" by (subst dec_nat.simps) simp
    then show ?thesis using 1 [OF False] digit_byte [of "n mod 10"] by (simp add: digits_value_snoc)
  qed
qed

lemma digit_not_special:
  "is_digit b \<Longrightarrow> \<not> is_space b \<and> b \<noteq> 0x2D \<and> b \<noteq> 0x2B \<and> b \<noteq> 0 \<and> b \<noteq> 0x7C \<and> b \<noteq> 0x3A \<and> b \<noteq> 0x20 \<and> b \<noteq> 0x2C"
  by (auto simp: is_digit_def is_space_def word_le_nat_alt)


lemma dec_nat_cons: obtains b bs where "dec_nat n = b # bs" "is_digit b" "list_all is_digit bs"
  using dec_nat_digits [of n] by (cases "dec_nat n") auto

lemma takeWhile_digits: "list_all is_digit ds \<Longrightarrow> takeWhile is_digit ds = ds"
  by (simp add: list_all_iff)

lemma atoi_print:
  assumes "- 2147483648 \<le> x" "x \<le> 2147483647"
  shows "atoi (print_int x) = Some x"
proof -
  obtain b bs where d: "dec_nat (nat \<bar>x\<bar>) = b # bs" "is_digit b" "list_all is_digit bs"
    by (rule dec_nat_cons)
  then have "takeWhile is_digit (b # bs) = b # bs" by (intro takeWhile_digits) simp
  then have v: "digits_value (takeWhile is_digit (b # bs)) = nat \<bar>x\<bar>"
    using digits_value_dec [of "nat \<bar>x\<bar>"] d(1) by simp
  show ?thesis
  proof (cases "x < 0")
    case True
    then have "print_int x = 0x2D # b # bs" using d(1) by (simp add: print_int_def)
    moreover have "\<not> is_space 0x2D" by (simp add: is_space_def word_le_nat_alt)
    ultimately show ?thesis using v assms True by (simp add: atoi_def Let_def del: takeWhile.simps)
  next
    case False
    then have "print_int x = b # bs" using d(1) by (simp add: print_int_def)
    then show ?thesis using v assms False digit_not_special [OF d(2)]
      by (simp add: atoi_def Let_def del: takeWhile.simps)
  qed
qed

lemma atoi_print_nat: "n \<le> 2147483647 \<Longrightarrow> atoi (dec_nat n) = Some (int n)"
  using atoi_print [of "int n"] by (simp add: print_int_def)

lemma dec_nat_length: "0 < k \<Longrightarrow> n < 10 ^ k \<Longrightarrow> length (dec_nat n) \<le> k"
proof (induction n arbitrary: k rule: dec_nat.induct)
  case (1 n)
  show ?case
  proof (cases "n < 10")
    case True
    then show ?thesis using 1 by (subst dec_nat.simps) simp
  next
    case False
    then obtain j where k: "k = Suc j" "0 < j" using 1(2,3) by (cases k; cases "k - 1") auto
    then have "n div 10 < 10 ^ j" using 1(3) by (simp add: less_mult_imp_div_less mult.commute)
    then have "length (dec_nat (n div 10)) \<le> j" using 1(1) [OF False] k(2) by blast
    then show ?thesis using False k(1) by (subst dec_nat.simps) simp
  qed
qed

section \<open>Tokens\<close>

lemma strtok_split:
  assumes "t \<noteq> []" "c \<notin> set t"
  shows "strtok (t @ c # r) [c] = (Some t, r)"
proof -
  obtain x xs where t: "t = x # xs" using assms(1) by (cases t) auto
  have d: "dropWhile (\<lambda>b. b \<in> set [c]) (t @ c # r) = t @ c # r" using assms t by auto
  have "takeWhile (\<lambda>b. b \<notin> set [c]) (t @ c # r) = t" using assms(2)
    by (subst takeWhile_append2) auto
  moreover have "dropWhile (\<lambda>b. b \<notin> set [c]) (t @ c # r) = c # r" using assms(2)
    by (subst dropWhile_append2) auto
  ultimately show ?thesis using d assms(1) unfolding strtok_def by simp
qed

lemma dropWhile_all [simp]: "dropWhile (\<lambda>c. True) t = []"
  by (induction t) auto

lemma strtok_rest: "t \<noteq> [] \<Longrightarrow> strtok t [] = (Some t, [])"
  by (simp add: strtok_def Let_def)

end
