(* ===== verification/Exc_Maps.thy ===== *)
theory Exc_Maps
  imports Supex_Text
begin

text \<open>
  The tables of the message exchange (\<^verbatim>\<open>programs/IMX/openChat/exchange\<close>): user, client and group
  maps kept in libkv (\<^verbatim>\<open>exc_uid_map.c\<close>, \<^verbatim>\<open>exc_cid_map.c\<close>, \<^verbatim>\<open>exc_gid_map.c\<close>), the gateway lists and
  the socket slots (\<^verbatim>\<open>exc_sockfd_manager.c\<close>).

  libkv is not part of the repository: \<open>kv_spl\<close> is a parameter that takes the database, its
  index and the text of a command, and the locale \<open>libkv\<close> states what the command list in
  \<^verbatim>\<open>libkv.h\<close> documents. A C string is the list of its bytes without the terminator. A failed
  assertion and an access outside an array are \<^term>\<open>None\<close>.
\<close>

section \<open>Gateway lists\<close>

definition FD_CAPACITY :: int where "FD_CAPACITY = 1024 * 100"
definition MAX_CID_SIZE :: nat where "MAX_CID_SIZE = 128"
definition MAX_UID_SIZE :: nat where "MAX_UID_SIZE = 128"
definition MAX_GID_SIZE :: nat where "MAX_GID_SIZE = 128"

datatype router_type = CLIENT_ROUTER | STATUS_ROUTER | STREAM_ROUTER | MANAGE_ROUTER

record fd_node =
  node_fd :: int
  node_status :: byte

type_synonym fd_list = "router_type \<Rightarrow> fd_node list"

definition fdman_list_init :: fd_list where
  "fdman_list_init = (\<lambda>_. [])"

definition fdman_list_free :: "fd_list \<Rightarrow> fd_list" where
  "fdman_list_free l = (\<lambda>_. [])"

primrec del_node :: "fd_node list \<Rightarrow> int \<Rightarrow> fd_node list option" where
  "del_node [] fd = None"
| "del_node (n # ns) fd = (if node_fd n = fd then Some ns else map_option ((#) n) (del_node ns fd))"

definition fdman_list_del :: "fd_list \<Rightarrow> router_type \<Rightarrow> int \<Rightarrow> int \<times> fd_list" where
  "fdman_list_del l type fd =
     (case del_node (l type) fd of None \<Rightarrow> (-1, l) | Some ns \<Rightarrow> (0, l(type := ns)))"

definition fdman_list_add :: "fd_list \<Rightarrow> router_type \<Rightarrow> fd_node \<Rightarrow> int \<times> fd_list" where
  "fdman_list_add l type node = (0, l(type := l type @ [node]))"

definition fdman_list_top :: "fd_list \<Rightarrow> router_type \<Rightarrow> fd_node option" where
  "fdman_list_top l type = (case l type of [] \<Rightarrow> None | n # ns \<Rightarrow> Some n)"

section \<open>Socket slots\<close>

record fd_info =
  info_host :: u32
  info_port :: u16
  info_status :: byte
  info_type :: router_type
  info_uuid :: bytes

definition fd_info_zero :: fd_info where
  "fd_info_zero = \<lparr>info_host = 0, info_port = 0, info_status = 0, info_type = CLIENT_ROUTER, info_uuid = []\<rparr>"

text \<open>The slots of the table that are not zero; the array itself is \<^term>\<open>None\<close> when freed.\<close>

record fd_slot =
  slot_info :: "(int \<rightharpoonup> fd_info) option"
  slot_max :: int
  slot_cap :: int

definition slot_at :: "fd_slot \<Rightarrow> int \<Rightarrow> fd_info option" where
  "slot_at g fd = do {
     info \<leftarrow> slot_info g;
     asserting (0 \<le> fd \<and> fd < slot_cap g);
     Some (case info fd of None \<Rightarrow> fd_info_zero | Some d \<Rightarrow> d) }"

definition slot_put :: "fd_slot \<Rightarrow> int \<Rightarrow> fd_info option \<Rightarrow> fd_slot option" where
  "slot_put g fd d = do {
     info \<leftarrow> slot_info g;
     asserting (0 \<le> fd \<and> fd < slot_cap g);
     Some (g\<lparr>slot_info := Some (info(fd := d))\<rparr>) }"

definition fdman_slot_init :: "bool \<Rightarrow> fd_slot option" where
  "fdman_slot_init ok = (if ok then Some \<lparr>slot_info = Some Map.empty, slot_max = 0, slot_cap = FD_CAPACITY\<rparr> else None)"

definition fdman_slot_free :: "fd_slot \<Rightarrow> fd_slot option" where
  "fdman_slot_free g = do {
     info \<leftarrow> slot_info g;
     Some \<lparr>slot_info = None, slot_max = 0, slot_cap = 0\<rparr> }"

text \<open>The test admits \<open>fd = cap\<close>, which is behind the array.\<close>

definition fdman_slot_set :: "fd_slot \<Rightarrow> int \<Rightarrow> fd_info \<Rightarrow> fd_slot option" where
  "fdman_slot_set g fd des = do {
     asserting (\<not> fd > slot_cap g);
     g \<leftarrow> slot_put g fd (Some des);
     Some (if slot_max g < fd then g\<lparr>slot_max := fd\<rparr> else g) }"

definition fdman_slot_del :: "fd_slot \<Rightarrow> int \<Rightarrow> fd_slot option" where
  "fdman_slot_del g fd = do {
     des \<leftarrow> slot_at g fd;
     asserting (info_status des = 1);
     slot_put g fd None }"

definition fdman_slot_get :: "fd_slot \<Rightarrow> int \<Rightarrow> fd_info option" where
  "fdman_slot_get g fd = slot_at g fd"

section \<open>Answers of libkv\<close>

datatype kv_value = Star bytes | Int_Value int | Nil_Value

record kv_answer =
  errnum :: nat
  answers :: "kv_value list"

definition ERR_NONE :: nat where "ERR_NONE = 0"

type_synonym 'k kv_spl = "'k \<Rightarrow> int \<Rightarrow> bytes \<Rightarrow> kv_answer \<times> 'k"

text \<open>The command buffers have 32 bytes more than the names they hold.\<close>

definition cmd1 :: "string \<Rightarrow> bytes \<Rightarrow> bytes" where
  "cmd1 head a = snprintf (32 + 128) (ascii head @ a)"

definition cmd2 :: "string \<Rightarrow> bytes \<Rightarrow> bytes \<Rightarrow> bytes" where
  "cmd2 head a b = snprintf (32 + 128 + 128) (ascii head @ a @ ascii '' '' @ b)"

definition kv_ask :: "'k kv_spl \<Rightarrow> 'k \<Rightarrow> int \<Rightarrow> bytes \<Rightarrow> int \<times> 'k" where
  "kv_ask kv_spl k db cmd = (case kv_spl k db cmd of (ans, k) \<Rightarrow>
     (if errnum ans \<noteq> ERR_NONE then -1 else 0, k))"

text \<open>A lookup: the code, and the string written to the caller's array of \<open>n\<close> bytes.\<close>

definition kv_get :: "'k kv_spl \<Rightarrow> 'k \<Rightarrow> int \<Rightarrow> bytes \<Rightarrow> nat \<Rightarrow> (int \<times> bytes option \<times> 'k) option" where
  "kv_get kv_spl k db cmd n =
     (case kv_spl k db cmd of (ans, k) \<Rightarrow>
      if errnum ans \<noteq> ERR_NONE then Some (-1, None, k)
      else (case answers ans of
          [] \<Rightarrow> None
        | Star str # _ \<Rightarrow> Some (0, Some (snprintf (min n (length str + 1)) str), k)
        | _ # _ \<Rightarrow> Some (-1, None, k)))"

text \<open>The members of a set, as the strings handed to the callback one by one; a nil member
  fails the assertion, a string of 128 bytes and more is cut (and has no terminator).\<close>

primrec member_names :: "kv_value list \<Rightarrow> bytes list option" where
  "member_names [] = Some []"
| "member_names (v # vs) = do {
     n \<leftarrow> (case v of Nil_Value \<Rightarrow> None
       | Star s \<Rightarrow> if length s < 128 then Some (c_str_of s) else None
       | Int_Value i \<Rightarrow> Some (snprintf 128 (print_int i)));
     ns \<leftarrow> member_names vs;
     Some (n # ns) }"

definition kv_members :: "'k kv_spl \<Rightarrow> 'k \<Rightarrow> int \<Rightarrow> bytes \<Rightarrow> (int \<times> bytes list \<times> 'k) option" where
  "kv_members kv_spl k db cmd =
     (case kv_spl k db cmd of (ans, k) \<Rightarrow>
      if errnum ans \<noteq> ERR_NONE then Some (-1, [], k)
      else do { ns \<leftarrow> member_names (answers ans); Some (0, ns, k) })"

section \<open>The maps\<close>

text \<open>The indices of the three databases.\<close>

record exc_dbs =
  g_cid_map :: int
  g_uid_map :: int
  g_gid_map :: int

text \<open>\<open>exc_*map_init\<close>: the index \<^verbatim>\<open>kv_load\<close> returns.\<close>

definition exc_cidmap_init :: "int \<Rightarrow> exc_dbs \<Rightarrow> exc_dbs" where
  "exc_cidmap_init loaded g = g\<lparr>g_cid_map := loaded\<rparr>"

definition exc_uidmap_init :: "int \<Rightarrow> exc_dbs \<Rightarrow> exc_dbs" where
  "exc_uidmap_init loaded g = g\<lparr>g_uid_map := loaded\<rparr>"

definition exc_gidmap_init :: "int \<Rightarrow> exc_dbs \<Rightarrow> exc_dbs" where
  "exc_gidmap_init loaded g = g\<lparr>g_gid_map := loaded\<rparr>"

definition exc_cidmap_set_uid :: "'k kv_spl \<Rightarrow> exc_dbs \<Rightarrow> 'k \<Rightarrow> bytes \<Rightarrow> bytes \<Rightarrow> int \<times> 'k" where
  "exc_cidmap_set_uid kv g k cid uid = kv_ask kv k (g_cid_map g) (cmd2 ''set CID_UID:'' cid uid)"

definition exc_cidmap_get_uid :: "'k kv_spl \<Rightarrow> exc_dbs \<Rightarrow> 'k \<Rightarrow> bytes \<Rightarrow> (int \<times> bytes option \<times> 'k) option" where
  "exc_cidmap_get_uid kv g k cid = kv_get kv k (g_cid_map g) (cmd1 ''get CID_UID:'' cid) MAX_UID_SIZE"

definition exc_cidmap_del_uid :: "'k kv_spl \<Rightarrow> exc_dbs \<Rightarrow> 'k \<Rightarrow> bytes \<Rightarrow> int \<times> 'k" where
  "exc_cidmap_del_uid kv g k cid = kv_ask kv k (g_cid_map g) (cmd1 ''del CID_UID:'' cid)"

definition exc_cidmap_get_gid :: "'k kv_spl \<Rightarrow> exc_dbs \<Rightarrow> 'k \<Rightarrow> bytes \<Rightarrow> (int \<times> bytes list \<times> 'k) option" where
  "exc_cidmap_get_gid kv g k cid = kv_members kv k (g_cid_map g) (cmd1 ''smembers CID_GID:'' cid)"

definition exc_cidmap_add_gid :: "'k kv_spl \<Rightarrow> exc_dbs \<Rightarrow> 'k \<Rightarrow> bytes \<Rightarrow> bytes \<Rightarrow> int \<times> 'k" where
  "exc_cidmap_add_gid kv g k cid gid = kv_ask kv k (g_cid_map g) (cmd2 ''sadd CID_GID:'' cid gid)"

definition exc_cidmap_rem_gid :: "'k kv_spl \<Rightarrow> exc_dbs \<Rightarrow> 'k \<Rightarrow> bytes \<Rightarrow> bytes \<Rightarrow> int \<times> 'k" where
  "exc_cidmap_rem_gid kv g k cid gid = kv_ask kv k (g_cid_map g) (cmd2 ''srem CID_GID:'' cid gid)"

definition exc_gidmap_get_cid :: "'k kv_spl \<Rightarrow> exc_dbs \<Rightarrow> 'k \<Rightarrow> bytes \<Rightarrow> (int \<times> bytes list \<times> 'k) option" where
  "exc_gidmap_get_cid kv g k gid = kv_members kv k (g_gid_map g) (cmd1 ''smembers GID_CID:'' gid)"

definition exc_gidmap_add_cid :: "'k kv_spl \<Rightarrow> exc_dbs \<Rightarrow> 'k \<Rightarrow> bytes \<Rightarrow> bytes \<Rightarrow> int \<times> 'k" where
  "exc_gidmap_add_cid kv g k gid cid = kv_ask kv k (g_gid_map g) (cmd2 ''sadd GID_CID:'' gid cid)"

definition exc_gidmap_rem_cid :: "'k kv_spl \<Rightarrow> exc_dbs \<Rightarrow> 'k \<Rightarrow> bytes \<Rightarrow> bytes \<Rightarrow> int \<times> 'k" where
  "exc_gidmap_rem_cid kv g k gid cid = kv_ask kv k (g_gid_map g) (cmd2 ''srem GID_CID:'' gid cid)"

definition exc_uidmap_get_cid :: "'k kv_spl \<Rightarrow> exc_dbs \<Rightarrow> 'k \<Rightarrow> bytes \<Rightarrow> (int \<times> bytes option \<times> 'k) option" where
  "exc_uidmap_get_cid kv g k uid = kv_get kv k (g_uid_map g) (cmd1 ''get UID_CID:'' uid) MAX_CID_SIZE"

definition exc_uidmap_set_cid :: "'k kv_spl \<Rightarrow> exc_dbs \<Rightarrow> 'k \<Rightarrow> bytes \<Rightarrow> bytes \<Rightarrow> int \<times> 'k" where
  "exc_uidmap_set_cid kv g k uid cid = kv_ask kv k (g_uid_map g) (cmd2 ''set UID_CID:'' uid cid)"

definition exc_uidmap_del_cid :: "'k kv_spl \<Rightarrow> exc_dbs \<Rightarrow> 'k \<Rightarrow> bytes \<Rightarrow> int \<times> 'k" where
  "exc_uidmap_del_cid kv g k uid = kv_ask kv k (g_uid_map g) (cmd1 ''del UID_CID:'' uid)"

end
