(* ===== verification/Exc_Server.thy ===== *)
theory Exc_Server
  imports Exc_Maps
begin

text \<open>
  The exchange server itself: client identifiers and message dispatch
  (\<^verbatim>\<open>exc_message_dispatch.c\<close>), status messages and the removal of clients (\<^verbatim>\<open>exc_status.c\<close>), the
  socket events (\<^verbatim>\<open>exc_event_notify.c\<close>), start and stop (\<^verbatim>\<open>exchange.c\<close>).

  The communication library and libuuid are not part of the repository: the operations on
  messages and the source of identifiers are the fields of the record \<open>exc_env\<close>. The model
  keeps the messages handed to \<^verbatim>\<open>commapi_send\<close> and the sockets handed to \<^verbatim>\<open>commapi_close\<close>. The
  context every callback asserts to be the server's is left out. \<^term>\<open>None\<close> is undefined
  behaviour or a failed assertion.
\<close>

section \<open>Messages and state\<close>

text \<open>The fields of a message the server touches, and the rest.\<close>

record 'x comm_message =
  m_fd :: int
  m_frames :: int
  m_fop :: int
  m_packages :: int
  m_content :: 'x

record ('k, 'x) exc_env =
  kv_cmd :: "'k kv_spl"
  frame_get :: "'x comm_message \<Rightarrow> nat \<Rightarrow> bytes option"
  frame_set :: "'x comm_message \<Rightarrow> nat \<Rightarrow> bytes \<Rightarrow> 'x comm_message"
  frame_del :: "'x comm_message \<Rightarrow> nat \<Rightarrow> nat \<Rightarrow> 'x comm_message"
  msg_gets :: "'x comm_message \<Rightarrow> int \<times> int"
  msg_sets :: "'x comm_message \<Rightarrow> int \<Rightarrow> int \<Rightarrow> int \<Rightarrow> 'x comm_message"
  msg_make :: "'x comm_message"
  push_method :: int
  new_uuid :: "nat \<Rightarrow> bytes"

record ('k, 'x) exc_state =
  kv :: 'k
  dbs :: exc_dbs
  g_list :: fd_list
  g_slot :: fd_slot
  serv_host :: bytes
  serv_port :: int
  stream_gateway_fd :: int
  manage_gateway_fd :: int
  status_gateway_fd :: int
  sent :: "'x comm_message list"
  closed :: "int list"
  uuid_count :: nat

definition commapi_send :: "'x comm_message \<Rightarrow> ('k, 'x) exc_state \<Rightarrow> ('k, 'x) exc_state" where
  "commapi_send m s = s\<lparr>sent := sent s @ [m]\<rparr>"

definition commapi_close :: "int \<Rightarrow> ('k, 'x) exc_state \<Rightarrow> ('k, 'x) exc_state" where
  "commapi_close fd s = s\<lparr>closed := closed s @ [fd]\<rparr>"

text \<open>\<^verbatim>\<open>commmsg_frame_set\<close> at index 0 with the two assignments that always follow it.\<close>

definition push_frame :: "('k, 'x) exc_env \<Rightarrow> bytes \<Rightarrow> 'x comm_message \<Rightarrow> 'x comm_message" where
  "push_frame E d m = (let m = frame_set E m 0 d in m\<lparr>m_fop := m_frames m, m_packages := 1\<rparr>)"

text \<open>\<^verbatim>\<open>commmsg_gets\<close> and \<^verbatim>\<open>commmsg_sets\<close> with a new destination.\<close>

definition retarget :: "('k, 'x) exc_env \<Rightarrow> int \<Rightarrow> 'x comm_message \<Rightarrow> 'x comm_message" where
  "retarget E fd m = (case msg_gets E m of (flags, ptype) \<Rightarrow> msg_sets E m fd flags ptype)"

text \<open>\<^verbatim>\<open>commmsg_frame_del(msg, 0, 3)\<close> with the assignment that follows it.\<close>

definition drop_route :: "('k, 'x) exc_env \<Rightarrow> 'x comm_message \<Rightarrow> 'x comm_message" where
  "drop_route E m = (let m = frame_del E m 0 3 in m\<lparr>m_fop := m_fop m - 3\<rparr>)"

text \<open>\<^verbatim>\<open>memcmp(frame, lit, n) == 0\<close>; a frame that is missing or too short is read outside.\<close>

definition frame_is :: "bytes option \<Rightarrow> string \<Rightarrow> bool option" where
  "frame_is frame lit = do {
     f \<leftarrow> frame;
     asserting (length lit \<le> length f);
     Some (take (length lit) f = ascii lit) }"

section \<open>Client identifiers\<close>

definition get_cid :: "('k, 'x) exc_state \<Rightarrow> int \<Rightarrow> bytes option" where
  "get_cid s fd = do {
     des \<leftarrow> fdman_slot_get (g_slot s) fd;
     Some (snprintf MAX_CID_SIZE (info_uuid des @ ascii ''|'' @ serv_host s @ ascii '':'' @
       print_int (serv_port s) @ ascii ''-'' @ print_int fd)) }"

text \<open>The four calls of \<^verbatim>\<open>strtok\<close> that take an identifier apart.\<close>

definition cid_parts :: "bytes \<Rightarrow> bytes option \<times> bytes option \<times> bytes option \<times> bytes option" where
  "cid_parts cid =
     (case strtok cid (ascii ''|'') of (uuid, r) \<Rightarrow>
      case strtok r (ascii '':'') of (host, r) \<Rightarrow>
      case strtok r (ascii ''-'') of (port, r) \<Rightarrow>
      case strtok r [] of (cfd, r) \<Rightarrow> (uuid, host, port, cfd))"

definition cid_is_ours :: "('k, 'x) exc_state \<Rightarrow> bytes \<Rightarrow> bool option" where
  "cid_is_ours s cid =
     (case cid_parts cid of (uuid, host, port, cfd) \<Rightarrow> do {
        h \<leftarrow> host;
        if h \<noteq> serv_host s then Some False
        else do { p \<leftarrow> port; n \<leftarrow> atoi p; Some (serv_port s = n) } })"

definition cid_fd :: "bytes \<Rightarrow> int option" where
  "cid_fd cid = (case cid_parts cid of (uuid, host, port, cfd) \<Rightarrow> do { c \<leftarrow> cfd; atoi c })"

text \<open>A frame copied into an identifier array of 128 bytes.\<close>

definition name_frame :: "('k, 'x) exc_env \<Rightarrow> 'x comm_message \<Rightarrow> nat \<Rightarrow> bytes option" where
  "name_frame E m i = do {
     f \<leftarrow> frame_get E m i;
     asserting (length f < 128);
     Some (c_str_of f) }"

section \<open>Upstream\<close>

definition find_best_gateway :: "('k, 'x) exc_state \<Rightarrow> int" where
  "find_best_gateway s =
     (if stream_gateway_fd s > 0 then stream_gateway_fd s
      else (case fdman_list_top (g_list s) STREAM_ROUTER of None \<Rightarrow> 0 | Some n \<Rightarrow> node_fd n))"

definition dispatch_client ::
  "('k, 'x) exc_env \<Rightarrow> ('k, 'x) exc_state \<Rightarrow> 'x comm_message \<Rightarrow> ('k, 'x) exc_state option" where
  "dispatch_client E s m =
     (let fd = find_best_gateway s in
      if fd > 0 then do {
        cid \<leftarrow> get_cid s (m_fd m);
        let m = push_frame E (ascii ''upstream'') (push_frame E cid m);
        Some (commapi_send (retarget E fd m) s) }
      else Some s)"

section \<open>Downstream\<close>

definition handle_cid_message ::
  "('k, 'x) exc_env \<Rightarrow> ('k, 'x) exc_state \<Rightarrow> 'x comm_message \<Rightarrow> ('k, 'x) exc_state option" where
  "handle_cid_message E s m = do {
     cid \<leftarrow> name_frame E m 2;
     ours \<leftarrow> cid_is_ours s cid;
     if ours then do {
       fd \<leftarrow> cid_fd cid;
       Some (commapi_send (drop_route E (retarget E fd m)) s) }
     else Some s }"

definition handle_uid_message ::
  "('k, 'x) exc_env \<Rightarrow> ('k, 'x) exc_state \<Rightarrow> 'x comm_message \<Rightarrow> (int \<times> ('k, 'x) exc_state) option" where
  "handle_uid_message E s m = do {
     uid \<leftarrow> name_frame E m 2;
     (err, cid, k) \<leftarrow> exc_uidmap_get_cid (kv_cmd E) (dbs s) (kv s) uid;
     let s = s\<lparr>kv := k\<rparr>;
     if err \<noteq> 0 then Some (-1, s)
     else do {
       c \<leftarrow> cid;
       cfd \<leftarrow> atoi c;
       Some (0, if cfd \<noteq> -1 then commapi_send (retarget E cfd (drop_route E m)) s else s) } }"

text \<open>\<^verbatim>\<open>each_cid_fcb\<close>: the message is retargeted in place and sent for every member.\<close>

primrec send_each ::
  "('k, 'x) exc_env \<Rightarrow> ('k, 'x) exc_state \<Rightarrow> 'x comm_message \<Rightarrow> bytes list \<Rightarrow> ('k, 'x) exc_state option" where
  "send_each E s m [] = Some s"
| "send_each E s m (cid # cids) = do {
     cfd \<leftarrow> atoi cid;
     let m = retarget E cfd m;
     send_each E (commapi_send m s) m cids }"

definition handle_gid_message ::
  "('k, 'x) exc_env \<Rightarrow> ('k, 'x) exc_state \<Rightarrow> 'x comm_message \<Rightarrow> ('k, 'x) exc_state option" where
  "handle_gid_message E s m = do {
     gid \<leftarrow> name_frame E m 2;
     let m = drop_route E m;
     (r, cids, k) \<leftarrow> exc_gidmap_get_cid (kv_cmd E) (dbs s) (kv s) gid;
     send_each E (s\<lparr>kv := k\<rparr>) m cids }"

definition downstream_msg ::
  "('k, 'x) exc_env \<Rightarrow> ('k, 'x) exc_state \<Rightarrow> 'x comm_message \<Rightarrow> ('k, 'x) exc_state option" where
  "downstream_msg E s m =
     (case frame_get E m 1 of
        None \<Rightarrow> Some s
      | Some f \<Rightarrow> do {
          cid \<leftarrow> frame_is (Some f) ''cid'';
          uid \<leftarrow> frame_is (Some f) ''uid'';
          gid \<leftarrow> frame_is (Some f) ''gid'';
          if cid then handle_cid_message E s m
          else if uid then map_option snd (handle_uid_message E s m)
          else if gid then handle_gid_message E s m
          else Some s })"

definition dispatch_stream ::
  "('k, 'x) exc_env \<Rightarrow> ('k, 'x) exc_state \<Rightarrow> 'x comm_message \<Rightarrow> ('k, 'x) exc_state option" where
  "dispatch_stream E s m = do {
     d \<leftarrow> frame_is (frame_get E m 0) ''downstream'';
     if d then downstream_msg E s m else Some s }"

section \<open>Removing a client and status messages\<close>

text \<open>\<^verbatim>\<open>each_gid_fcb\<close> for every group of the client.\<close>

primrec leave_each :: "'k kv_spl \<Rightarrow> exc_dbs \<Rightarrow> 'k \<Rightarrow> bytes \<Rightarrow> bytes list \<Rightarrow> 'k" where
  "leave_each kvc g k cid [] = k"
| "leave_each kvc g k cid (gid # gids) =
     (let k = snd (exc_cidmap_rem_gid kvc g k cid gid);
          k = snd (exc_gidmap_rem_cid kvc g k gid cid)
      in leave_each kvc g k cid gids)"

definition erase_client :: "('k, 'x) exc_env \<Rightarrow> ('k, 'x) exc_state \<Rightarrow> int \<Rightarrow> ('k, 'x) exc_state option" where
  "erase_client E s fd = do {
     let cid = snprintf MAX_CID_SIZE (print_int fd);
     (r, u, k) \<leftarrow> exc_cidmap_get_uid (kv_cmd E) (dbs s) (kv s) cid;
     let uid = (case u of None \<Rightarrow> [] | Some x \<Rightarrow> x);
     let k = snd (exc_uidmap_del_cid (kv_cmd E) (dbs s) k uid);
     let k = snd (exc_cidmap_del_uid (kv_cmd E) (dbs s) k cid);
     (r, gids, k) \<leftarrow> exc_cidmap_get_gid (kv_cmd E) (dbs s) k cid;
     Some (s\<lparr>kv := leave_each (kv_cmd E) (dbs s) k cid gids\<rparr>) }"

datatype step_code = STEP_INIT | STEP_ERRO | STEP_WAIT | STEP_STOP | STEP_OTHER

definition send_status_msg ::
  "('k, 'x) exc_env \<Rightarrow> ('k, 'x) exc_state \<Rightarrow> int \<Rightarrow> step_code \<Rightarrow> ('k, 'x) exc_state option" where
  "send_status_msg E s fd status = do {
     cid \<leftarrow> get_cid s fd;
     let m = msg_sets E (msg_make E) (status_gateway_fd s) 0 (push_method E);
     let m = push_frame E cid m;
     let m = (if status = STEP_INIT then push_frame E (ascii ''connected'') m
              else if status = STEP_STOP then push_frame E (ascii ''closed'') m else m);
     let m = push_frame E (ascii ''status'') m;
     Some (if status_gateway_fd s > 0 then commapi_send m s else s) }"

section \<open>Management messages\<close>

definition erased_client ::
  "('k, 'x) exc_env \<Rightarrow> ('k, 'x) exc_state \<Rightarrow> 'x comm_message \<Rightarrow> ('k, 'x) exc_state option" where
  "erased_client E s m = do {
     cid \<leftarrow> name_frame E m 2;
     ours \<leftarrow> cid_is_ours s cid;
     if \<not> ours then Some s
     else do {
       fd \<leftarrow> cid_fd cid;
       g \<leftarrow> fdman_slot_del (g_slot s) fd;
       s \<leftarrow> erase_client E (s\<lparr>g_slot := g\<rparr>) fd;
       Some (commapi_close fd s) } }"

definition handle_status ::
  "('k, 'x) exc_env \<Rightarrow> ('k, 'x) exc_state \<Rightarrow> 'x comm_message \<Rightarrow> ('k, 'x) exc_state option" where
  "handle_status E s m =
     (case frame_get E m 3 of
        None \<Rightarrow> Some s
      | Some f \<Rightarrow> do {
          c \<leftarrow> frame_is (Some f) ''closed'';
          if c then erased_client E s m else Some s })"

definition handle_uid_map ::
  "('k, 'x) exc_env \<Rightarrow> ('k, 'x) exc_state \<Rightarrow> 'x comm_message \<Rightarrow> (int \<times> ('k, 'x) exc_state) option" where
  "handle_uid_map E s m = do {
     cid \<leftarrow> name_frame E m 2;
     ours \<leftarrow> cid_is_ours s cid;
     if \<not> ours then Some (-1, s)
     else do {
       uid \<leftarrow> name_frame E m 3;
       fd \<leftarrow> cid_fd cid;
       let cid = snprintf MAX_CID_SIZE (print_int fd);
       let k = snd (exc_uidmap_set_cid (kv_cmd E) (dbs s) (kv s) uid cid);
       let k = snd (exc_cidmap_set_uid (kv_cmd E) (dbs s) k cid uid);
       Some (0, s\<lparr>kv := k\<rparr>) } }"

text \<open>Both sides of the membership of the group whose name is in the array \<open>gid\<close>; an array
  that is full has no terminator.\<close>

definition join_group :: "'k kv_spl \<Rightarrow> exc_dbs \<Rightarrow> 'k \<Rightarrow> bytes \<Rightarrow> bytes \<Rightarrow> 'k option" where
  "join_group kvc g k cid gid = do {
     asserting (length gid < MAX_GID_SIZE);
     let gid = c_str_of gid;
     let k = snd (exc_gidmap_add_cid kvc g k gid cid);
     Some (snd (exc_cidmap_add_gid kvc g k cid gid)) }"

text \<open>The loop over the group frame, with the bytes collected in the array \<open>gid\<close> so far: a
  128th byte is written behind the array.\<close>

primrec gid_loop ::
  "'k kv_spl \<Rightarrow> exc_dbs \<Rightarrow> 'k \<Rightarrow> bytes \<Rightarrow> bytes \<Rightarrow> bytes \<Rightarrow> (bytes \<times> 'k) option" where
  "gid_loop kvc g k cid gid [] = Some (gid, k)"
| "gid_loop kvc g k cid gid (b # bs) =
     (if b = 0x2C then do {
        k \<leftarrow> join_group kvc g k cid gid;
        gid_loop kvc g k cid [] bs }
      else do {
        asserting (length gid < MAX_GID_SIZE);
        gid_loop kvc g k cid (gid @ [b]) bs })"

definition handle_gid_map ::
  "('k, 'x) exc_env \<Rightarrow> ('k, 'x) exc_state \<Rightarrow> 'x comm_message \<Rightarrow> (int \<times> ('k, 'x) exc_state) option" where
  "handle_gid_map E s m = do {
     cid \<leftarrow> name_frame E m 2;
     ours \<leftarrow> cid_is_ours s cid;
     if \<not> ours then Some (-1, s)
     else do {
       fd \<leftarrow> cid_fd cid;
       let cid = snprintf MAX_CID_SIZE (print_int fd);
       f \<leftarrow> frame_get E m 3;
       (gid, k) \<leftarrow> gid_loop (kv_cmd E) (dbs s) (kv s) cid [] f;
       k \<leftarrow> join_group (kv_cmd E) (dbs s) k cid gid;
       Some (0, s\<lparr>kv := k\<rparr>) } }"

definition dispatch_manage ::
  "('k, 'x) exc_env \<Rightarrow> ('k, 'x) exc_state \<Rightarrow> 'x comm_message \<Rightarrow> ('k, 'x) exc_state option" where
  "dispatch_manage E s m = do {
     mg \<leftarrow> frame_is (frame_get E m 0) ''manage'';
     if \<not> mg then Some s
     else do {
       let cmd = frame_get E m 1;
       st \<leftarrow> frame_is cmd ''status'';
       um \<leftarrow> frame_is cmd ''uidmap'';
       gm \<leftarrow> frame_is cmd ''gidmap'';
       if st then handle_status E s m
       else if um then map_option snd (handle_uid_map E s m)
       else if gm then map_option snd (handle_gid_map E s m)
       else Some s } }"

text \<open>One round of the work loop with the message \<^verbatim>\<open>commapi_recv\<close> delivers.\<close>

definition exc_message_dispatch ::
  "('k, 'x) exc_env \<Rightarrow> ('k, 'x) exc_state \<Rightarrow> 'x comm_message \<Rightarrow> ('k, 'x) exc_state option" where
  "exc_message_dispatch E s m = do {
     des \<leftarrow> fdman_slot_get (g_slot s) (m_fd m);
     case info_type des of
       CLIENT_ROUTER \<Rightarrow> dispatch_client E s m
     | STREAM_ROUTER \<Rightarrow> dispatch_stream E s m
     | MANAGE_ROUTER \<Rightarrow> dispatch_manage E s m
     | STATUS_ROUTER \<Rightarrow> Some s }"

section \<open>Socket events\<close>

text \<open>A new slot of the given type with a fresh identifier.\<close>

definition occupy_slot ::
  "('k, 'x) exc_env \<Rightarrow> ('k, 'x) exc_state \<Rightarrow> int \<Rightarrow> router_type \<Rightarrow> ('k, 'x) exc_state option" where
  "occupy_slot E s socket type = do {
     g \<leftarrow> fdman_slot_set (g_slot s) socket (fd_info_zero\<lparr>info_status := 1, info_type := type,
       info_uuid := new_uuid E (uuid_count s)\<rparr>);
     Some (s\<lparr>g_slot := g, uuid_count := uuid_count s + 1\<rparr>) }"

definition exc_event_notify_from_client ::
  "('k, 'x) exc_env \<Rightarrow> ('k, 'x) exc_state \<Rightarrow> int \<Rightarrow> step_code \<Rightarrow> ('k, 'x) exc_state option" where
  "exc_event_notify_from_client E s socket step =
     (case step of
        STEP_INIT \<Rightarrow> do {
          s \<leftarrow> occupy_slot E s socket CLIENT_ROUTER;
          send_status_msg E s socket STEP_INIT }
      | STEP_ERRO \<Rightarrow> Some (commapi_close socket s)
      | STEP_STOP \<Rightarrow> do {
          g \<leftarrow> fdman_slot_del (g_slot s) socket;
          s \<leftarrow> erase_client E (s\<lparr>g_slot := g\<rparr>) socket;
          send_status_msg E s socket STEP_STOP }
      | _ \<Rightarrow> Some s)"

definition add_gateway :: "router_type \<Rightarrow> int \<Rightarrow> ('k, 'x) exc_state \<Rightarrow> ('k, 'x) exc_state" where
  "add_gateway type socket s =
     s\<lparr>g_list := snd (fdman_list_add (g_list s) type \<lparr>node_fd = socket, node_status = 1\<rparr>)\<rparr>"

definition del_gateway :: "router_type \<Rightarrow> int \<Rightarrow> ('k, 'x) exc_state \<Rightarrow> ('k, 'x) exc_state" where
  "del_gateway type socket s = s\<lparr>g_list := snd (fdman_list_del (g_list s) type socket)\<rparr>"

definition exc_event_notify_from_stream ::
  "('k, 'x) exc_env \<Rightarrow> ('k, 'x) exc_state \<Rightarrow> int \<Rightarrow> step_code \<Rightarrow> ('k, 'x) exc_state option" where
  "exc_event_notify_from_stream E s socket step =
     (case step of
        STEP_INIT \<Rightarrow> do {
          s \<leftarrow> occupy_slot E s socket STREAM_ROUTER;
          Some ((add_gateway STREAM_ROUTER socket s)\<lparr>stream_gateway_fd := socket\<rparr>) }
      | STEP_STOP \<Rightarrow> do {
          g \<leftarrow> fdman_slot_del (g_slot s) socket;
          let s = s\<lparr>g_slot := g\<rparr>;
          Some (if stream_gateway_fd s = socket
            then del_gateway STREAM_ROUTER socket (s\<lparr>stream_gateway_fd := 0\<rparr>) else s) }
      | _ \<Rightarrow> Some s)"

definition exc_event_notify_from_manage ::
  "('k, 'x) exc_env \<Rightarrow> ('k, 'x) exc_state \<Rightarrow> int \<Rightarrow> step_code \<Rightarrow> ('k, 'x) exc_state option" where
  "exc_event_notify_from_manage E s socket step =
     (case step of
        STEP_INIT \<Rightarrow> do {
          s \<leftarrow> occupy_slot E s socket MANAGE_ROUTER;
          Some ((add_gateway MANAGE_ROUTER socket s)\<lparr>manage_gateway_fd := socket\<rparr>) }
      | STEP_STOP \<Rightarrow> do {
          g \<leftarrow> fdman_slot_del (g_slot s) socket;
          let s = s\<lparr>g_slot := g\<rparr>;
          Some (if manage_gateway_fd s = socket
            then del_gateway MANAGE_ROUTER socket (s\<lparr>manage_gateway_fd := 0\<rparr>) else s) }
      | _ \<Rightarrow> Some s)"

definition exc_event_notify_from_status ::
  "('k, 'x) exc_env \<Rightarrow> ('k, 'x) exc_state \<Rightarrow> int \<Rightarrow> step_code \<Rightarrow> ('k, 'x) exc_state option" where
  "exc_event_notify_from_status E s socket step =
     (case step of
        STEP_INIT \<Rightarrow> do {
          s \<leftarrow> occupy_slot E s socket STATUS_ROUTER;
          Some ((add_gateway STATUS_ROUTER socket s)\<lparr>status_gateway_fd := socket\<rparr>) }
      | STEP_STOP \<Rightarrow> do {
          g \<leftarrow> fdman_slot_del (g_slot s) socket;
          let s = s\<lparr>g_slot := g\<rparr>;
          Some (if status_gateway_fd s = socket
            then del_gateway STATUS_ROUTER socket (s\<lparr>status_gateway_fd := 0\<rparr>) else s) }
      | _ \<Rightarrow> Some s)"

section \<open>Start and stop\<close>

text \<open>\<^verbatim>\<open>_do_init\<close> up to the creation of the communication context: the tables, and the host and
  port of the configuration; a missing entry is a null pointer, and a host name of 20 bytes
  and more overruns its array.\<close>

definition fill_server ::
  "('k, 'x) exc_state \<Rightarrow> bool \<Rightarrow> int \<Rightarrow> int \<Rightarrow> int \<Rightarrow> bytes option \<Rightarrow> bytes option \<Rightarrow> ('k, 'x) exc_state option" where
  "fill_server s ok uid_db cid_db gid_db host port = do {
     g \<leftarrow> fdman_slot_init ok;
     let s = s\<lparr>g_list := fdman_list_init, g_slot := g,
       dbs := exc_gidmap_init gid_db (exc_cidmap_init cid_db (exc_uidmap_init uid_db (dbs s)))\<rparr>;
     h \<leftarrow> host;
     asserting (length h < 20);
     p \<leftarrow> port;
     n \<leftarrow> atoi p;
     Some (s\<lparr>serv_host := h, serv_port := n mod 65536\<rparr>) }"

text \<open>The four sockets, in order, with the descriptors \<^verbatim>\<open>commapi_socket\<close> returns.\<close>

definition do_init ::
  "('k, 'x) exc_state \<Rightarrow> bool \<Rightarrow> int \<Rightarrow> int \<Rightarrow> int \<Rightarrow> bytes option \<Rightarrow> bytes option \<Rightarrow>
   int \<Rightarrow> int \<Rightarrow> int \<Rightarrow> int \<Rightarrow> (int \<times> ('k, 'x) exc_state) option" where
  "do_init s ok uid_db cid_db gid_db host port stream_fd manage_fd status_fd client_rc = do {
     s \<leftarrow> fill_server s ok uid_db cid_db gid_db host port;
     let s = s\<lparr>stream_gateway_fd := stream_fd\<rparr>;
     if stream_fd \<le> 0 then Some (-1, s)
     else do {
       let s = s\<lparr>manage_gateway_fd := manage_fd\<rparr>;
       if manage_fd \<le> 0 then Some (-1, s)
       else do {
         let s = s\<lparr>status_gateway_fd := status_fd\<rparr>;
         if status_fd \<le> 0 then Some (-1, s)
         else Some (if client_rc = -1 then -1 else 0, s) } } }"

definition exchange_stop :: "('k, 'x) exc_state \<Rightarrow> ('k, 'x) exc_state option" where
  "exchange_stop s = do {
     g \<leftarrow> fdman_slot_free (g_slot s);
     Some (s\<lparr>g_slot := g, g_list := fdman_list_free (g_list s)\<rparr>) }"

end
