(* ===== verification/Exc_Tables.thy ===== *)
theory Exc_Tables
  imports Exc_Server
begin

text \<open>
  The tables of the exchange as data: the locale \<open>libkv\<close> states the commands of libkv the
  exchange uses, a small store in memory satisfies it, and the operations on the maps refine
  the operations \<open>spec_bind\<close>, \<open>spec_join\<close>, \<open>spec_leave\<close> and \<open>spec_erase\<close> on four plain tables. A name that
  reaches libkv is made of printable characters without quotes and is shorter than 128 bytes.
\<close>

section \<open>The interface of libkv\<close>

definition printable :: "byte \<Rightarrow> bool" where
  "printable b \<longleftrightarrow> 0x21 \<le> b \<and> b \<le> 0x7E \<and> b \<noteq> 0x22 \<and> b \<noteq> 0x27 \<and> b \<noteq> 0x5C"

definition kv_word :: "bytes \<Rightarrow> bool" where
  "kv_word w \<longleftrightarrow> w \<noteq> [] \<and> list_all printable w"

definition set_key :: "(int \<Rightarrow> bytes \<Rightarrow> 'v) \<Rightarrow> int \<Rightarrow> bytes \<Rightarrow> 'v \<Rightarrow> int \<Rightarrow> bytes \<Rightarrow> 'v" where
  "set_key f db key v = f(db := (f db)(key := v))"

locale libkv =
  fixes kvs :: "'k kv_spl"
    and strs :: "'k \<Rightarrow> int \<Rightarrow> bytes \<Rightarrow> bytes option"
    and sets :: "'k \<Rightarrow> int \<Rightarrow> bytes \<Rightarrow> bytes set"
  assumes set_law: "\<lbrakk>kvs k db (ascii ''set '' @ key @ ascii '' '' @ v) = (a, k'); kv_word key; kv_word v;
      sets k db key = {}\<rbrakk>
      \<Longrightarrow> errnum a = ERR_NONE \<and> strs k' = set_key (strs k) db key (Some v) \<and> sets k' = sets k"
    and get_law: "\<lbrakk>kvs k db (ascii ''get '' @ key) = (a, k'); kv_word key; sets k db key = {}\<rbrakk>
      \<Longrightarrow> strs k' = strs k \<and> sets k' = sets k \<and>
        (case strs k db key of None \<Rightarrow> errnum a \<noteq> ERR_NONE
         | Some v \<Rightarrow> errnum a = ERR_NONE \<and> answers a = [Star v])"
    and del_law: "\<lbrakk>kvs k db (ascii ''del '' @ key) = (a, k'); kv_word key; sets k db key = {}\<rbrakk>
      \<Longrightarrow> strs k' = set_key (strs k) db key None \<and> sets k' = sets k"
    and sadd_law: "\<lbrakk>kvs k db (ascii ''sadd '' @ key @ ascii '' '' @ v) = (a, k'); kv_word key; kv_word v;
      strs k db key = None\<rbrakk>
      \<Longrightarrow> errnum a = ERR_NONE \<and> strs k' = strs k \<and> sets k' = set_key (sets k) db key (insert v (sets k db key))"
    and srem_law: "\<lbrakk>kvs k db (ascii ''srem '' @ key @ ascii '' '' @ v) = (a, k'); kv_word key; kv_word v;
      strs k db key = None\<rbrakk>
      \<Longrightarrow> strs k' = strs k \<and> sets k' = set_key (sets k) db key (sets k db key - {v})"
    and smembers_law: "\<lbrakk>kvs k db (ascii ''smembers '' @ key) = (a, k'); kv_word key; strs k db key = None\<rbrakk>
      \<Longrightarrow> strs k' = strs k \<and> sets k' = sets k \<and>
        (if sets k db key = {} then errnum a \<noteq> ERR_NONE
         else errnum a = ERR_NONE \<and> (\<exists>ms. answers a = map Star ms \<and> distinct ms \<and> set ms = sets k db key))"

section \<open>A store that keeps the laws\<close>

primrec split_on :: "byte \<Rightarrow> bytes \<Rightarrow> bytes list" where
  "split_on c [] = [[]]"
| "split_on c (b # bs) =
     (if b = c then [] # split_on c bs
      else (case split_on c bs of [] \<Rightarrow> [[b]] | w # ws \<Rightarrow> (b # w) # ws))"

type_synonym mem_kv = "(int \<Rightarrow> bytes \<Rightarrow> bytes option) \<times> (int \<Rightarrow> bytes \<Rightarrow> bytes list)"

definition kv_ok :: "kv_value list \<Rightarrow> kv_answer" where
  "kv_ok vs = \<lparr>errnum = ERR_NONE, answers = vs\<rparr>"

definition kv_fail :: kv_answer where
  "kv_fail = \<lparr>errnum = 3, answers = []\<rparr>"

definition mem_spl :: "mem_kv kv_spl" where
  "mem_spl k db cmd = (case k of (ss, ms) \<Rightarrow>
     (case filter (\<lambda>w. w \<noteq> []) (split_on 0x20 cmd) of
        [c, key] \<Rightarrow>
          if c = ascii ''get'' then
            (case ss db key of None \<Rightarrow> (kv_fail, k) | Some v \<Rightarrow> (kv_ok [Star v], k))
          else if c = ascii ''del'' then (kv_ok [], (set_key ss db key None, set_key ms db key []))
          else if c = ascii ''smembers'' then
            (if ms db key = [] then (kv_fail, k) else (kv_ok (map Star (remdups (ms db key))), k))
          else (kv_fail, k)
      | [c, key, v] \<Rightarrow>
          if c = ascii ''set'' then (kv_ok [], (set_key ss db key (Some v), ms))
          else if c = ascii ''sadd'' then (kv_ok [], (ss, set_key ms db key (List.insert v (ms db key))))
          else if c = ascii ''srem'' then (kv_ok [], (ss, set_key ms db key (filter (\<lambda>w. w \<noteq> v) (ms db key))))
          else (kv_fail, k)
      | _ \<Rightarrow> (kv_fail, k)))"

lemma split_on_word: "c \<notin> set w \<Longrightarrow> split_on c w = [w]"
  by (induction w) auto

lemma split_on_append: "c \<notin> set w \<Longrightarrow> split_on c (w @ c # r) = w # split_on c r"
  by (induction w) auto

lemma printable_not_special:
  "printable b \<Longrightarrow> b \<noteq> 0 \<and> b \<noteq> 0x20 \<and> \<not> is_space b"
  by (auto simp: printable_def is_space_def word_le_nat_alt)

lemma kv_word_space: "kv_word w \<Longrightarrow> w \<noteq> [] \<and> 0x20 \<notin> set w"
  using printable_not_special by (auto simp: kv_word_def list_all_iff)

lemma mem_words2:
  assumes "kv_word key" "0x20 \<notin> set (ascii c)" "c \<noteq> []"
  shows "filter (\<lambda>w. w \<noteq> []) (split_on 0x20 (ascii c @ 0x20 # key)) = [ascii c, key]"
  using assms kv_word_space [OF assms(1)] by (simp add: split_on_append split_on_word ascii_def)

lemma mem_words3:
  assumes "kv_word key" "kv_word v" "0x20 \<notin> set (ascii c)" "c \<noteq> []"
  shows "filter (\<lambda>w. w \<noteq> []) (split_on 0x20 (ascii c @ 0x20 # key @ 0x20 # v)) = [ascii c, key, v]"
  using assms kv_word_space [OF assms(1)] kv_word_space [OF assms(2)]
  by (simp add: split_on_append split_on_word ascii_def)

interpretation mem_kv: libkv mem_spl fst "\<lambda>k db key. set (snd k db key)"
proof (unfold_locales, goal_cases)
  case (1 k db key v a k')
  then show ?case using mem_words3 [of key v "''set''"]
    by (auto simp: mem_spl_def ascii_def kv_ok_def split: prod.splits)
next
  case (2 k db key a k')
  then show ?case using mem_words2 [of key "''get''"]
    by (auto simp: mem_spl_def ascii_def kv_ok_def kv_fail_def ERR_NONE_def split: prod.splits option.splits)
next
  case (3 k db key a k')
  then show ?case using mem_words2 [of key "''del''"]
    by (auto simp: mem_spl_def ascii_def set_key_def fun_eq_iff split: prod.splits if_splits)
next
  case (4 k db key v a k')
  then show ?case using mem_words3 [of key v "''sadd''"]
    by (auto simp: mem_spl_def ascii_def kv_ok_def set_key_def fun_eq_iff split: prod.splits if_splits)
next
  case (5 k db key v a k')
  then show ?case using mem_words3 [of key v "''srem''"]
    by (auto simp: mem_spl_def ascii_def set_key_def fun_eq_iff split: prod.splits if_splits)
next
  case (6 k db key a k')
  then show ?case using mem_words2 [of key "''smembers''"]
    by (auto simp: mem_spl_def ascii_def kv_ok_def kv_fail_def ERR_NONE_def split: prod.splits if_splits)
qed

section \<open>The tables\<close>

text \<open>What the exchange knows: the client of a user and the user of a client, the members of a
  group and the groups of a client.\<close>

record tables =
  user_cid :: "bytes \<Rightarrow> bytes option"
  client_uid :: "bytes \<Rightarrow> bytes option"
  group_members :: "bytes \<Rightarrow> bytes set"
  client_groups :: "bytes \<Rightarrow> bytes set"

definition tables_of ::
  "('k \<Rightarrow> int \<Rightarrow> bytes \<Rightarrow> bytes option) \<Rightarrow> ('k \<Rightarrow> int \<Rightarrow> bytes \<Rightarrow> bytes set) \<Rightarrow> exc_dbs \<Rightarrow> 'k \<Rightarrow> tables" where
  "tables_of strs sets g k =
     \<lparr>user_cid = (\<lambda>uid. strs k (g_uid_map g) (ascii ''UID_CID:'' @ uid)),
      client_uid = (\<lambda>cid. strs k (g_cid_map g) (ascii ''CID_UID:'' @ cid)),
      group_members = (\<lambda>gid. sets k (g_gid_map g) (ascii ''GID_CID:'' @ gid)),
      client_groups = (\<lambda>cid. sets k (g_cid_map g) (ascii ''CID_GID:'' @ cid))\<rparr>"

text \<open>Strings and sets are kept under keys of different kinds.\<close>

definition str_prefixes :: "string set" where "str_prefixes = {''UID_CID:'', ''CID_UID:''}"
definition set_prefixes :: "string set" where "set_prefixes = {''GID_CID:'', ''CID_GID:''}"

definition kv_typed ::
  "('k \<Rightarrow> int \<Rightarrow> bytes \<Rightarrow> bytes option) \<Rightarrow> ('k \<Rightarrow> int \<Rightarrow> bytes \<Rightarrow> bytes set) \<Rightarrow> 'k \<Rightarrow> bool" where
  "kv_typed strs sets k \<longleftrightarrow>
     (\<forall>db. \<forall>p \<in> set_prefixes. \<forall>n. strs k db (ascii p @ n) = None) \<and>
     (\<forall>db. \<forall>p \<in> str_prefixes. \<forall>n. sets k db (ascii p @ n) = {})"

definition name_ok :: "bytes \<Rightarrow> bool" where
  "name_ok n \<longleftrightarrow> list_all printable n \<and> length n < 128"

definition word_ok :: "bytes \<Rightarrow> bool" where
  "word_ok n \<longleftrightarrow> n \<noteq> [] \<and> name_ok n"

lemma word_ok_word: "word_ok n \<Longrightarrow> kv_word n"
  by (simp add: word_ok_def name_ok_def kv_word_def)

lemma word_ok_name: "word_ok n \<Longrightarrow> name_ok n"
  by (simp add: word_ok_def)

lemmas prefix_defs = str_prefixes_def set_prefixes_def

lemma ascii_append: "ascii (a @ b) = ascii a @ ascii b"
  by (simp add: ascii_def)

lemma prefix_word: "p \<in> str_prefixes \<union> set_prefixes \<Longrightarrow> name_ok n \<Longrightarrow> kv_word (ascii p @ n)"
  by (auto simp: prefix_defs ascii_def kv_word_def name_ok_def printable_def)

lemma prefix_inj:
  "p \<in> str_prefixes \<union> set_prefixes \<Longrightarrow> q \<in> str_prefixes \<union> set_prefixes \<Longrightarrow>
   ascii p @ m = ascii q @ n \<longleftrightarrow> p = q \<and> m = n"
  by (auto simp: prefix_defs ascii_def)

lemma prefix_length: "p \<in> str_prefixes \<union> set_prefixes \<Longrightarrow> length p = 8"
  by (auto simp: prefix_defs)

lemma snprintf_fits: "length s < n \<Longrightarrow> snprintf n s = s"
  by (simp add: snprintf_def)

text \<open>No command is cut by its buffer.\<close>

lemma cmd1_exact:
  "p \<in> str_prefixes \<union> set_prefixes \<Longrightarrow> name_ok n \<Longrightarrow> length c \<le> 9 \<Longrightarrow>
   cmd1 (c @ p) n = ascii c @ ascii p @ n"
  using prefix_length [of p] unfolding cmd1_def by (subst snprintf_fits) (auto simp: name_ok_def ascii_def)

lemma cmd2_exact:
  "p \<in> str_prefixes \<union> set_prefixes \<Longrightarrow> name_ok n \<Longrightarrow> name_ok v \<Longrightarrow> length c \<le> 9 \<Longrightarrow>
   cmd2 (c @ p) n v = ascii c @ (ascii p @ n) @ ascii '' '' @ v"
  using prefix_length [of p] unfolding cmd2_def by (subst snprintf_fits) (auto simp: name_ok_def ascii_def)

context libkv
begin

lemma typed_str: "kv_typed strs sets k \<Longrightarrow> p \<in> str_prefixes \<Longrightarrow> sets k db (ascii p @ n) = {}"
  by (auto simp: kv_typed_def)

lemma typed_set: "kv_typed strs sets k \<Longrightarrow> p \<in> set_prefixes \<Longrightarrow> strs k db (ascii p @ n) = None"
  by (auto simp: kv_typed_def)

lemma ask_set:
  assumes "kv_typed strs sets k" "p \<in> str_prefixes" "name_ok n" "word_ok v"
    and "kv_ask kvs k db (cmd2 (''set '' @ p) n v) = (r, k')"
  shows "r = 0 \<and> strs k' = set_key (strs k) db (ascii p @ n) (Some v) \<and> sets k' = sets k"
  using assms set_law [of k db "ascii p @ n" v] prefix_word [of p n] typed_str [OF assms(1,2)]
    cmd2_exact [of p n v "''set ''"] word_ok_word [OF assms(4)] word_ok_name [OF assms(4)]
  by (auto simp: kv_ask_def split: prod.splits)

lemma ask_del:
  assumes "kv_typed strs sets k" "p \<in> str_prefixes" "name_ok n"
    and "kv_ask kvs k db (cmd1 (''del '' @ p) n) = (r, k')"
  shows "strs k' = set_key (strs k) db (ascii p @ n) None \<and> sets k' = sets k"
  using assms del_law [of k db "ascii p @ n"] prefix_word [of p n] typed_str [OF assms(1,2)]
    cmd1_exact [of p n "''del ''"]
  by (auto simp: kv_ask_def split: prod.splits)

lemma ask_get:
  assumes "kv_typed strs sets k" "p \<in> str_prefixes" "name_ok n"
    and "\<And>v. strs k db (ascii p @ n) = Some v \<Longrightarrow> length v < 128"
  obtains k' where "kv_get kvs k db (cmd1 (''get '' @ p) n) 128 =
      Some (case strs k db (ascii p @ n) of None \<Rightarrow> (-1, None, k') | Some v \<Rightarrow> (0, Some v, k'))"
    and "strs k' = strs k" "sets k' = sets k"
proof -
  obtain a k' where e: "kvs k db (ascii ''get '' @ ascii p @ n) = (a, k')" by fastforce
  have l: "strs k' = strs k" "sets k' = sets k"
    "case strs k db (ascii p @ n) of None \<Rightarrow> errnum a \<noteq> ERR_NONE
     | Some v \<Rightarrow> errnum a = ERR_NONE \<and> answers a = [Star v]"
    using get_law [OF e] prefix_word [of p n] assms(2,3) typed_str [OF assms(1,2)] by auto
  have "kv_get kvs k db (cmd1 (''get '' @ p) n) 128 =
      Some (case strs k db (ascii p @ n) of None \<Rightarrow> (-1, None, k') | Some v \<Rightarrow> (0, Some v, k'))"
    using l(3) assms(4) cmd1_exact [of p n "''get ''"] assms(2,3) e
    by (auto simp: kv_get_def snprintf_def split: option.splits)
  then show ?thesis using that l(1,2) by blast
qed

lemma ask_sadd:
  assumes "kv_typed strs sets k" "p \<in> set_prefixes" "name_ok n" "word_ok v"
    and "kv_ask kvs k db (cmd2 (''sadd '' @ p) n v) = (r, k')"
  shows "r = 0 \<and> strs k' = strs k \<and>
    sets k' = set_key (sets k) db (ascii p @ n) (insert v (sets k db (ascii p @ n)))"
  using assms sadd_law [of k db "ascii p @ n" v] prefix_word [of p n] typed_set [OF assms(1,2)]
    cmd2_exact [of p n v "''sadd ''"] word_ok_word [OF assms(4)] word_ok_name [OF assms(4)]
  by (auto simp: kv_ask_def split: prod.splits)

lemma ask_srem:
  assumes "kv_typed strs sets k" "p \<in> set_prefixes" "name_ok n" "word_ok v"
    and "kv_ask kvs k db (cmd2 (''srem '' @ p) n v) = (r, k')"
  shows "strs k' = strs k \<and> sets k' = set_key (sets k) db (ascii p @ n) (sets k db (ascii p @ n) - {v})"
  using assms srem_law [of k db "ascii p @ n" v] prefix_word [of p n] typed_set [OF assms(1,2)]
    cmd2_exact [of p n v "''srem ''"] word_ok_word [OF assms(4)] word_ok_name [OF assms(4)]
  by (auto simp: kv_ask_def split: prod.splits)

end

text \<open>The text of a descriptor, under which the tables know a client.\<close>

definition int_range :: "int \<Rightarrow> bool" where
  "int_range x \<longleftrightarrow> - 2147483648 \<le> x \<and> x \<le> 2147483647"

definition fd_text :: "bytes \<Rightarrow> bool" where
  "fd_text c \<longleftrightarrow> (\<exists>fd. int_range fd \<and> c = print_int fd)"

lemma digit_printable: "is_digit b \<Longrightarrow> printable b"
  by (auto simp: is_digit_def printable_def word_le_nat_alt)

lemma print_int_printable: "int_range fd \<Longrightarrow> list_all printable (print_int fd) \<and> print_int fd \<noteq> [] \<and> length (print_int fd) \<le> 11"
proof -
  assume "int_range fd"
  then have "length (dec_nat (nat \<bar>fd\<bar>)) \<le> 10" by (intro dec_nat_length) (auto simp: int_range_def)
  moreover have "list_all printable (dec_nat (nat \<bar>fd\<bar>))" "dec_nat (nat \<bar>fd\<bar>) \<noteq> []"
    using dec_nat_digits [of "nat \<bar>fd\<bar>"] digit_printable by (auto simp: list_all_iff)
  moreover have "printable 0x2D" by (simp add: printable_def)
  ultimately show ?thesis by (auto simp: print_int_def)
qed

lemma fd_text_word: "fd_text c \<Longrightarrow> word_ok c"
  using print_int_printable by (fastforce simp: fd_text_def word_ok_def name_ok_def)

lemma fd_text_atoi: "fd_text c \<Longrightarrow> \<exists>fd. atoi c = Some fd"
  using atoi_print by (auto simp: fd_text_def int_range_def)

lemma printable_c_str: "list_all printable n \<Longrightarrow> c_str_of n = n"
  using printable_not_special by (auto simp: c_str_of_def list_all_iff takeWhile_eq_all_conv)

lemma word_c_str: "word_ok n \<Longrightarrow> c_str_of n = n"
  by (simp add: word_ok_def name_ok_def printable_c_str)

text \<open>The two group tables mirror each other, and every name in a table can be read back.\<close>

definition tables_ok :: "tables \<Rightarrow> bool" where
  "tables_ok t \<longleftrightarrow>
     (\<forall>u c. user_cid t u = Some c \<longrightarrow> fd_text c) \<and>
     (\<forall>c u. client_uid t c = Some u \<longrightarrow> word_ok u) \<and>
     (\<forall>g c. c \<in> group_members t g \<longleftrightarrow> g \<in> client_groups t c) \<and>
     (\<forall>g c. c \<in> group_members t g \<longrightarrow> fd_text c \<and> word_ok g)"

section \<open>What the operations promise\<close>

definition spec_bind :: "bytes \<Rightarrow> bytes \<Rightarrow> tables \<Rightarrow> tables" where
  "spec_bind cid uid t = t\<lparr>user_cid := (user_cid t)(uid := Some cid), client_uid := (client_uid t)(cid := Some uid)\<rparr>"

definition spec_join :: "bytes \<Rightarrow> bytes \<Rightarrow> tables \<Rightarrow> tables" where
  "spec_join cid gid t =
     t\<lparr>group_members := (group_members t)(gid := insert cid (group_members t gid)),
       client_groups := (client_groups t)(cid := insert gid (client_groups t cid))\<rparr>"

definition spec_leave :: "bytes \<Rightarrow> bytes \<Rightarrow> tables \<Rightarrow> tables" where
  "spec_leave cid gid t =
     t\<lparr>group_members := (group_members t)(gid := group_members t gid - {cid}),
       client_groups := (client_groups t)(cid := client_groups t cid - {gid})\<rparr>"

text \<open>Erasing a client: the user it last served is unknown afterwards, whoever serves it now.\<close>

definition spec_erase :: "bytes \<Rightarrow> tables \<Rightarrow> tables" where
  "spec_erase cid t =
     t\<lparr>user_cid := (user_cid t)((case client_uid t cid of None \<Rightarrow> [] | Some u \<Rightarrow> u) := None),
       client_uid := (client_uid t)(cid := None),
       group_members := (\<lambda>g. group_members t g - {cid}),
       client_groups := (client_groups t)(cid := {})\<rparr>"

lemma spec_bind_ok: "tables_ok t \<Longrightarrow> fd_text cid \<Longrightarrow> word_ok uid \<Longrightarrow> tables_ok (spec_bind cid uid t)"
  by (auto simp: tables_ok_def spec_bind_def)

lemma spec_join_ok: "tables_ok t \<Longrightarrow> fd_text cid \<Longrightarrow> word_ok gid \<Longrightarrow> tables_ok (spec_join cid gid t)"
  by (auto simp: tables_ok_def spec_join_def)

lemma spec_leave_ok: "tables_ok t \<Longrightarrow> tables_ok (spec_leave cid gid t)"
  by (auto simp: tables_ok_def spec_leave_def)

lemma spec_erase_ok: "tables_ok t \<Longrightarrow> tables_ok (spec_erase cid t)"
  by (auto simp: tables_ok_def spec_erase_def)

lemma spec_leave_fold:
  "fold (\<lambda>gid. spec_leave cid gid) gids t =
     t\<lparr>group_members := (\<lambda>g. if g \<in> set gids then group_members t g - {cid} else group_members t g),
       client_groups := (client_groups t)(cid := client_groups t cid - set gids)\<rparr>"
  by (induction gids arbitrary: t) (rule tables.equality; auto simp: spec_leave_def fun_eq_iff)+

lemma set_key_apply [simp]:
  "set_key f db key v db' key' = (if db' = db \<and> key' = key then v else f db' key')"
  by (simp add: set_key_def)

lemma kv_typed_str_step:
  "kv_typed strs sets k \<Longrightarrow> p \<in> str_prefixes \<Longrightarrow> strs k' = set_key (strs k) db (ascii p @ n) v \<Longrightarrow>
   sets k' = sets k \<Longrightarrow> kv_typed strs sets k'"
  by (auto simp: kv_typed_def prefix_inj) (auto simp: prefix_defs)

lemma kv_typed_set_step:
  "kv_typed strs sets k \<Longrightarrow> p \<in> set_prefixes \<Longrightarrow> sets k' = set_key (sets k) db (ascii p @ n) v \<Longrightarrow>
   strs k' = strs k \<Longrightarrow> kv_typed strs sets k'"
  by (auto simp: kv_typed_def prefix_inj) (auto simp: prefix_defs)

lemma kv_same:
  "strs k' = strs k \<Longrightarrow> sets k' = sets k \<Longrightarrow>
   kv_typed strs sets k' = kv_typed strs sets k \<and> tables_of strs sets g k' = tables_of strs sets g k"
  by (simp add: kv_typed_def tables_of_def)

lemma member_names_words: "list_all word_ok ms \<Longrightarrow> member_names (map Star ms) = Some ms"
  by (induction ms) (auto simp: word_c_str, auto simp: word_ok_def name_ok_def)

lemma prefix_members [simp]:
  "''UID_CID:'' \<in> str_prefixes" "''CID_UID:'' \<in> str_prefixes"
  "''GID_CID:'' \<in> set_prefixes" "''CID_GID:'' \<in> set_prefixes"
  by (simp_all add: prefix_defs)

lemma key_inj [simp]:
  "ascii ''UID_CID:'' @ m \<noteq> ascii ''CID_UID:'' @ n" "ascii ''CID_UID:'' @ m \<noteq> ascii ''UID_CID:'' @ n"
  "ascii ''GID_CID:'' @ m \<noteq> ascii ''CID_GID:'' @ n" "ascii ''CID_GID:'' @ m \<noteq> ascii ''GID_CID:'' @ n"
  by (simp_all add: ascii_def)

context libkv
begin

lemma ask_members:
  assumes "kv_typed strs sets k" "p \<in> set_prefixes" "name_ok n"
    and "\<And>v. v \<in> sets k db (ascii p @ n) \<Longrightarrow> word_ok v"
  obtains r ms k' where "kv_members kvs k db (cmd1 (''smembers '' @ p) n) = Some (r, ms, k')"
    and "strs k' = strs k" "sets k' = sets k" "distinct ms" "set ms = sets k db (ascii p @ n)"
proof -
  obtain a k' where e: "kvs k db (ascii ''smembers '' @ ascii p @ n) = (a, k')" by fastforce
  have l: "strs k' = strs k" "sets k' = sets k"
    "if sets k db (ascii p @ n) = {} then errnum a \<noteq> ERR_NONE
     else errnum a = ERR_NONE \<and> (\<exists>ms. answers a = map Star ms \<and> distinct ms \<and> set ms = sets k db (ascii p @ n))"
    using smembers_law [OF e] prefix_word [of p n] assms(2,3) typed_set [OF assms(1,2)] by auto
  have c: "cmd1 (''smembers '' @ p) n = ascii ''smembers '' @ ascii p @ n"
    using cmd1_exact [of p n "''smembers ''"] assms(2,3) by simp
  show ?thesis
  proof (cases "sets k db (ascii p @ n) = {}")
    case True
    then show ?thesis using that [of "-1" "[]" k'] l c e by (simp add: kv_members_def)
  next
    case False
    then obtain ms where ms: "answers a = map Star ms" "distinct ms" "set ms = sets k db (ascii p @ n)"
      "errnum a = ERR_NONE" using l(3) by auto
    then have "member_names (answers a) = Some ms"
      using member_names_words [of ms] assms(4) by (auto simp: list_all_iff)
    then show ?thesis using that [of 0 ms k'] l(1,2) c e ms by (simp add: kv_members_def)
  qed
qed

lemma bind_refines:
  assumes "kv_typed strs sets k" "word_ok cid" "word_ok uid"
    and "k' = snd (exc_cidmap_set_uid kvs g (snd (exc_uidmap_set_cid kvs g k uid cid)) cid uid)"
  shows "kv_typed strs sets k' \<and> tables_of strs sets g k' = spec_bind cid uid (tables_of strs sets g k)"
proof -
  obtain r1 k1 where e1: "exc_uidmap_set_cid kvs g k uid cid = (r1, k1)" by fastforce
  obtain r2 k2 where e2: "exc_cidmap_set_uid kvs g k1 cid uid = (r2, k2)" by fastforce
  have 1: "strs k1 = set_key (strs k) (g_uid_map g) (ascii ''UID_CID:'' @ uid) (Some cid)" "sets k1 = sets k"
    using ask_set [OF assms(1), of "''UID_CID:''" uid cid "g_uid_map g" r1 k1] e1 assms(2,3) word_ok_name
    by (simp_all add: exc_uidmap_set_cid_def)
  have t1: "kv_typed strs sets k1" using kv_typed_str_step [OF assms(1) _ 1] by simp
  have 2: "strs k2 = set_key (strs k1) (g_cid_map g) (ascii ''CID_UID:'' @ cid) (Some uid)" "sets k2 = sets k1"
    using ask_set [OF t1, of "''CID_UID:''" cid uid "g_cid_map g" r2 k2] e2 assms(2,3) word_ok_name
    by (simp_all add: exc_cidmap_set_uid_def)
  have "kv_typed strs sets k2" using kv_typed_str_step [OF t1 _ 2] by simp
  moreover have "k' = k2" using assms(4) e1 e2 by simp
  ultimately show ?thesis
    using 1 2 by (auto intro!: tables.equality simp: tables_of_def spec_bind_def fun_eq_iff)
qed

lemma join_refines:
  assumes "kv_typed strs sets k" "word_ok cid" "word_ok gid"
  obtains k' where "join_group kvs g k cid gid = Some k'" "kv_typed strs sets k'"
    "tables_of strs sets g k' = spec_join cid gid (tables_of strs sets g k)"
proof -
  obtain r1 k1 where e1: "exc_gidmap_add_cid kvs g k gid cid = (r1, k1)" by fastforce
  obtain r2 k2 where e2: "exc_cidmap_add_gid kvs g k1 cid gid = (r2, k2)" by fastforce
  have 1: "sets k1 = set_key (sets k) (g_gid_map g) (ascii ''GID_CID:'' @ gid)
      (insert cid (sets k (g_gid_map g) (ascii ''GID_CID:'' @ gid)))" "strs k1 = strs k"
    using ask_sadd [OF assms(1), of "''GID_CID:''" gid cid "g_gid_map g" r1 k1] e1 assms(2,3) word_ok_name
    by (simp_all add: exc_gidmap_add_cid_def)
  have t1: "kv_typed strs sets k1" using kv_typed_set_step [OF assms(1) _ 1] by simp
  have 2: "sets k2 = set_key (sets k1) (g_cid_map g) (ascii ''CID_GID:'' @ cid)
      (insert gid (sets k1 (g_cid_map g) (ascii ''CID_GID:'' @ cid)))" "strs k2 = strs k1"
    using ask_sadd [OF t1, of "''CID_GID:''" cid gid "g_cid_map g" r2 k2] e2 assms(2,3) word_ok_name
    by (simp_all add: exc_cidmap_add_gid_def)
  have t2: "kv_typed strs sets k2" using kv_typed_set_step [OF t1 _ 2] by simp
  have "join_group kvs g k cid gid = Some k2"
    using e1 e2 assms(3) by (simp add: join_group_def word_c_str Let_def word_ok_def name_ok_def MAX_GID_SIZE_def)
  moreover have "tables_of strs sets g k2 = spec_join cid gid (tables_of strs sets g k)"
    using 1 2 by (auto intro!: tables.equality simp: tables_of_def spec_join_def fun_eq_iff)
  ultimately show ?thesis using that t2 by blast
qed

lemma leave_refines:
  assumes "kv_typed strs sets k" "word_ok cid" "word_ok gid"
    and "k' = snd (exc_gidmap_rem_cid kvs g (snd (exc_cidmap_rem_gid kvs g k cid gid)) gid cid)"
  shows "kv_typed strs sets k' \<and> tables_of strs sets g k' = spec_leave cid gid (tables_of strs sets g k)"
proof -
  obtain r1 k1 where e1: "exc_cidmap_rem_gid kvs g k cid gid = (r1, k1)" by fastforce
  obtain r2 k2 where e2: "exc_gidmap_rem_cid kvs g k1 gid cid = (r2, k2)" by fastforce
  have 1: "sets k1 = set_key (sets k) (g_cid_map g) (ascii ''CID_GID:'' @ cid)
      (sets k (g_cid_map g) (ascii ''CID_GID:'' @ cid) - {gid})" "strs k1 = strs k"
    using ask_srem [OF assms(1), of "''CID_GID:''" cid gid "g_cid_map g" r1 k1] e1 assms(2,3) word_ok_name
    by (simp_all add: exc_cidmap_rem_gid_def)
  have t1: "kv_typed strs sets k1" using kv_typed_set_step [OF assms(1) _ 1] by simp
  have 2: "sets k2 = set_key (sets k1) (g_gid_map g) (ascii ''GID_CID:'' @ gid)
      (sets k1 (g_gid_map g) (ascii ''GID_CID:'' @ gid) - {cid})" "strs k2 = strs k1"
    using ask_srem [OF t1, of "''GID_CID:''" gid cid "g_gid_map g" r2 k2] e2 assms(2,3) word_ok_name
    by (simp_all add: exc_gidmap_rem_cid_def)
  have "kv_typed strs sets k2" using kv_typed_set_step [OF t1 _ 2] by simp
  moreover have "k' = k2" using assms(4) e1 e2 by simp
  ultimately show ?thesis
    using 1 2 by (auto intro!: tables.equality simp: tables_of_def spec_leave_def fun_eq_iff)
qed

lemma leave_each_refines:
  "kv_typed strs sets k \<Longrightarrow> word_ok cid \<Longrightarrow> list_all word_ok gids \<Longrightarrow>
   kv_typed strs sets (leave_each kvs g k cid gids) \<and>
   tables_of strs sets g (leave_each kvs g k cid gids) = fold (spec_leave cid) gids (tables_of strs sets g k)"
proof (induction gids arbitrary: k)
  case (Cons gid gids)
  define k1 where "k1 = snd (exc_gidmap_rem_cid kvs g (snd (exc_cidmap_rem_gid kvs g k cid gid)) gid cid)"
  have "kv_typed strs sets k1" "tables_of strs sets g k1 = spec_leave cid gid (tables_of strs sets g k)"
    using leave_refines [OF Cons.prems(1,2) _ k1_def] Cons.prems(3) by auto
  then show ?case using Cons.IH [of k1] Cons.prems by (simp add: k1_def Let_def)
qed simp

end

lemma split_on_cons: obtains w ws where "split_on c bs = w # ws"
  by (cases "split_on c bs") (cases bs; auto split: list.splits if_splits)+

lemma atoi_range: "atoi s = Some x \<Longrightarrow> int_range x"
  by (auto simp: atoi_def int_range_def Let_def split: if_splits)

lemma fd_text_print: "int_range fd \<Longrightarrow> fd_text (print_int fd)"
  by (auto simp: fd_text_def)

lemma print_fits: "int_range fd \<Longrightarrow> snprintf MAX_CID_SIZE (print_int fd) = print_int fd"
  using fd_text_word [OF fd_text_print, of fd] by (auto intro: snprintf_fits simp: word_ok_def name_ok_def MAX_CID_SIZE_def)

context libkv
begin

lemma gid_loop_refines:
  assumes "kv_typed strs sets k" "word_ok cid" "split_on 0x2C f = w # ws" "list_all word_ok ((acc @ w) # ws)"
  shows "\<exists>k'. Option.bind (gid_loop kvs g k cid acc f) (\<lambda>(gid, k). join_group kvs g k cid gid) = Some k' \<and>
    kv_typed strs sets k' \<and> tables_of strs sets g k' = fold (spec_join cid) ((acc @ w) # ws) (tables_of strs sets g k)"
  using assms
proof (induction f arbitrary: k acc w ws)
  case Nil
  then obtain k' where "join_group kvs g k cid acc = Some k'" "kv_typed strs sets k'"
    "tables_of strs sets g k' = spec_join cid acc (tables_of strs sets g k)"
    using join_refines [of k cid acc g] by auto
  then show ?case using Nil by simp
next
  case (Cons b f)
  obtain v vs where v: "split_on 0x2C f = v # vs" by (rule split_on_cons)
  show ?case
  proof (cases "b = 0x2C")
    case True
    then have w: "w = []" "ws = v # vs" using Cons.prems(3) v by auto
    obtain k1 where k1: "join_group kvs g k cid acc = Some k1" "kv_typed strs sets k1"
      "tables_of strs sets g k1 = spec_join cid acc (tables_of strs sets g k)"
      using join_refines [of k cid acc g] Cons.prems w by auto
    then show ?thesis using Cons.IH [OF k1(2) Cons.prems(2) v, of "[]"] Cons.prems(4) w True by simp
  next
    case False
    then have w: "w = b # v" "ws = vs" using Cons.prems(3) v by auto
    have "length acc < MAX_GID_SIZE"
      using Cons.prems(4) w by (auto simp: word_ok_def name_ok_def MAX_GID_SIZE_def)
    then show ?thesis
      using Cons.IH [OF Cons.prems(1,2) v, of "acc @ [b]"] Cons.prems(4) w False by simp
  qed
qed

text \<open>The first half of the removal: the binding of the user the client serves.\<close>

lemma unbind_refines:
  assumes "kv_typed strs sets k" "tables_ok (tables_of strs sets g k)" "word_ok cid"
    and "uid = (case client_uid (tables_of strs sets g k) cid of None \<Rightarrow> [] | Some u \<Rightarrow> u)"
  obtains r u k1 k3 where "exc_cidmap_get_uid kvs g k cid = Some (r, u, k1)"
    "(case u of None \<Rightarrow> [] | Some x \<Rightarrow> x) = uid"
    "snd (exc_cidmap_del_uid kvs g (snd (exc_uidmap_del_cid kvs g k1 uid)) cid) = k3"
    "kv_typed strs sets k3"
    "tables_of strs sets g k3 = (tables_of strs sets g k)
       \<lparr>user_cid := (user_cid (tables_of strs sets g k))(uid := None),
        client_uid := (client_uid (tables_of strs sets g k))(cid := None)\<rparr>"
proof -
  define t where "t = tables_of strs sets g k"
  have uid: "name_ok uid" using assms(2,4)
    by (auto simp: tables_ok_def name_ok_def word_ok_def split: option.splits)
  have cu: "client_uid t cid = strs k (g_cid_map g) (ascii ''CID_UID:'' @ cid)"
    by (simp add: t_def tables_of_def)
  have len: "length v < 128" if "strs k (g_cid_map g) (ascii ''CID_UID:'' @ cid) = Some v" for v
    using that assms(2) by (auto simp: tables_ok_def tables_of_def word_ok_def name_ok_def)
  obtain k1 where k1: "exc_cidmap_get_uid kvs g k cid =
      Some (case client_uid t cid of None \<Rightarrow> (-1, None, k1) | Some v \<Rightarrow> (0, Some v, k1))"
    "strs k1 = strs k" "sets k1 = sets k"
    using ask_get [of k "''CID_UID:''" cid "g_cid_map g", OF assms(1) _ word_ok_name [OF assms(3)] len] cu
    by (auto simp: exc_cidmap_get_uid_def MAX_UID_SIZE_def)
  have t1: "kv_typed strs sets k1" using kv_same [OF k1(2,3)] assms(1) by auto
  obtain r2 k2 where e2: "exc_uidmap_del_cid kvs g k1 uid = (r2, k2)" by fastforce
  have 2: "strs k2 = set_key (strs k1) (g_uid_map g) (ascii ''UID_CID:'' @ uid) None" "sets k2 = sets k1"
    using ask_del [OF t1, of "''UID_CID:''" uid "g_uid_map g" r2 k2] e2 uid by (simp_all add: exc_uidmap_del_cid_def)
  have t2: "kv_typed strs sets k2" using kv_typed_str_step [OF t1 _ 2] by simp
  obtain r3 k3 where e3: "exc_cidmap_del_uid kvs g k2 cid = (r3, k3)" by fastforce
  have 3: "strs k3 = set_key (strs k2) (g_cid_map g) (ascii ''CID_UID:'' @ cid) None" "sets k3 = sets k2"
    using ask_del [OF t2, of "''CID_UID:''" cid "g_cid_map g" r3 k3] e3 word_ok_name [OF assms(3)]
    by (simp_all add: exc_cidmap_del_uid_def)
  have "kv_typed strs sets k3" using kv_typed_str_step [OF t2 _ 3] by simp
  moreover have "tables_of strs sets g k3 =
      t\<lparr>user_cid := (user_cid t)(uid := None), client_uid := (client_uid t)(cid := None)\<rparr>"
    using 2 3 k1 by (auto intro!: tables.equality simp: tables_of_def t_def fun_eq_iff)
  ultimately show ?thesis
    using that [of _ "client_uid t cid" k1 k3] k1(1) e2 e3 assms(4) by (auto simp: t_def split: option.splits)
qed

text \<open>The second half: leaving the groups.\<close>

lemma leave_all_refines:
  assumes "kv_typed strs sets k" "word_ok cid"
    and "\<And>v. v \<in> client_groups (tables_of strs sets g k) cid \<Longrightarrow> word_ok v"
  obtains r gids k1 k' where "exc_cidmap_get_gid kvs g k cid = Some (r, gids, k1)"
    "leave_each kvs g k1 cid gids = k'" "kv_typed strs sets k'"
    "set gids = client_groups (tables_of strs sets g k) cid"
    "tables_of strs sets g k' = fold (spec_leave cid) gids (tables_of strs sets g k)"
proof -
  have w: "word_ok v" if "v \<in> sets k (g_cid_map g) (ascii ''CID_GID:'' @ cid)" for v
    using that assms(3) by (auto simp: tables_of_def)
  obtain r gids k1 where 1: "kv_members kvs k (g_cid_map g) (cmd1 (''smembers '' @ ''CID_GID:'') cid) = Some (r, gids, k1)"
    "strs k1 = strs k" "sets k1 = sets k" "distinct gids"
    "set gids = sets k (g_cid_map g) (ascii ''CID_GID:'' @ cid)"
    by (rule ask_members [OF assms(1) prefix_members(4) word_ok_name [OF assms(2)] w])
  then have e: "exc_cidmap_get_gid kvs g k cid = Some (r, gids, k1)" by (simp add: exc_cidmap_get_gid_def)
  have t1: "kv_typed strs sets k1" "tables_of strs sets g k1 = tables_of strs sets g k"
    using kv_same [OF 1(2,3)] assms(1) by auto
  have "list_all word_ok gids" using w 1(5) by (auto simp: list_all_iff)
  moreover have "set gids = client_groups (tables_of strs sets g k) cid" using 1(5) by (simp add: tables_of_def)
  ultimately show ?thesis
    using that [OF e refl] leave_each_refines [OF t1(1) assms(2), of gids g] t1(2) by simp
qed

lemma erase_refines:
  assumes "kv_cmd E = kvs" "kv_typed strs sets (kv s)" "tables_ok (tables_of strs sets (dbs s) (kv s))" "int_range fd"
  obtains k' where "erase_client E s fd = Some (s\<lparr>kv := k'\<rparr>)" "kv_typed strs sets k'"
    "tables_of strs sets (dbs s) k' = spec_erase (print_int fd) (tables_of strs sets (dbs s) (kv s))"
proof -
  define cid where "cid = print_int fd"
  define g where "g = dbs s"
  define t where "t = tables_of strs sets g (kv s)"
  define uid where "uid = (case client_uid t cid of None \<Rightarrow> [] | Some u \<Rightarrow> u)"
  have cid: "word_ok cid" "snprintf MAX_CID_SIZE (print_int fd) = cid"
    using fd_text_word [OF fd_text_print [OF assms(4)]] print_fits [OF assms(4)] by (simp_all add: cid_def)
  obtain r u k1 k3 where u: "exc_cidmap_get_uid kvs g (kv s) cid = Some (r, u, k1)"
    "(case u of None \<Rightarrow> [] | Some x \<Rightarrow> x) = uid"
    "snd (exc_cidmap_del_uid kvs g (snd (exc_uidmap_del_cid kvs g k1 uid)) cid) = k3"
    "kv_typed strs sets k3"
    "tables_of strs sets g k3 = t\<lparr>user_cid := (user_cid t)(uid := None), client_uid := (client_uid t)(cid := None)\<rparr>"
    unfolding t_def by (rule unbind_refines [OF assms(2) assms(3) [folded g_def] cid(1) uid_def [unfolded t_def]])
  have mem: "c \<in> group_members t h \<longleftrightarrow> h \<in> client_groups t c" "h \<in> client_groups t c \<Longrightarrow> word_ok h" for c h
    using assms(3) by (auto simp: tables_ok_def t_def g_def)
  obtain q gids k4 k' where l: "exc_cidmap_get_gid kvs g k3 cid = Some (q, gids, k4)"
    "leave_each kvs g k4 cid gids = k'" "kv_typed strs sets k'" "set gids = client_groups t cid"
    "tables_of strs sets g k' = fold (spec_leave cid) gids (tables_of strs sets g k3)"
    using leave_all_refines [OF u(4) cid(1), of g] mem(2) u(5) by simp blast
  have tab: "tables_of strs sets g k' = spec_erase cid t"
    unfolding l(5) spec_leave_fold u(5)
    using l(4) mem(1) by (auto intro!: tables.equality simp: spec_erase_def uid_def fun_eq_iff)
  have "erase_client E s fd = Some (s\<lparr>kv := k'\<rparr>)"
    unfolding erase_client_def assms(1) cid(2) g_def [symmetric] using u l by (simp add: Let_def)
  then show ?thesis using that l(3) tab by (simp add: g_def t_def cid_def)
qed

end

end
