(* ===== verification/Exc_Routing.thy ===== *)
theory Exc_Routing
  imports Exc_Tables
begin

text \<open>
  Routing in the exchange: the locale \<open>comm_lib\<close> states what the server relies on of the
  communication library, \<open>exchange\<close> joins it with libkv, and both are interpreted on messages
  kept as plain data and on the store in memory. The theory shows that an identifier made for a
  client is read back, that every handler keeps the tables well formed, and what each kind of
  message sends.
\<close>

section \<open>The interface of the communication library\<close>

text \<open>A message is a list of frames with a destination: a frame set at index 0 goes to the front,
  and the header fields are independent of the frames.\<close>

locale comm_lib =
  fixes E :: "('k, 'x) exc_env" and frames :: "'x comm_message \<Rightarrow> bytes list"
  assumes get_frame: "frame_get E m i = (if i < length (frames m) then Some (frames m ! i) else None)"
    and set_frame: "frames (frame_set E m 0 d) = d # frames m \<and> m_fd (frame_set E m 0 d) = m_fd m"
    and del_frame: "n \<le> length (frames m) \<Longrightarrow>
      frames (frame_del E m 0 n) = drop n (frames m) \<and> m_fd (frame_del E m 0 n) = m_fd m"
    and set_message: "frames (msg_sets E m fd flags ptype) = frames m \<and> m_fd (msg_sets E m fd flags ptype) = fd"
    and header_update: "frames (m\<lparr>m_fop := a\<rparr>) = frames m" "frames (m\<lparr>m_packages := a\<rparr>) = frames m"
begin

lemma push_frame_frames: "frames (push_frame E d m) = d # frames m \<and> m_fd (push_frame E d m) = m_fd m"
  using set_frame [of m d] header_update by (simp add: push_frame_def Let_def)

lemma retarget_frames: "frames (retarget E fd m) = frames m \<and> m_fd (retarget E fd m) = fd"
  using set_message by (simp add: retarget_def split: prod.splits)

lemma drop_route_frames:
  "3 \<le> length (frames m) \<Longrightarrow> frames (drop_route E m) = drop 3 (frames m) \<and> m_fd (drop_route E m) = m_fd m"
  using del_frame [of 3 m] header_update by (simp add: drop_route_def Let_def)

lemma name_frame_word:
  "i < length (frames m) \<Longrightarrow> list_all printable (frames m ! i) \<Longrightarrow> length (frames m ! i) < 128 \<Longrightarrow>
   name_frame E m i = Some (frames m ! i)"
  by (simp add: name_frame_def get_frame printable_c_str)

end

text \<open>Messages as plain data.\<close>

definition plain_message :: "bytes list \<Rightarrow> int \<Rightarrow> (bytes list \<times> int \<times> int) comm_message" where
  "plain_message fs fd = \<lparr>m_fd = fd, m_frames = int (length fs), m_fop = int (length fs), m_packages = 1,
     m_content = (fs, 0, 0)\<rparr>"

definition plain_frames :: "(bytes list \<times> int \<times> int) comm_message \<Rightarrow> bytes list" where
  "plain_frames m = fst (m_content m)"

definition plain_env :: "'k kv_spl \<Rightarrow> (nat \<Rightarrow> bytes) \<Rightarrow> ('k, bytes list \<times> int \<times> int) exc_env" where
  "plain_env kvc uuids =
     \<lparr>kv_cmd = kvc,
      frame_get = (\<lambda>m i. if i < length (plain_frames m) then Some (plain_frames m ! i) else None),
      frame_set = (\<lambda>m i d. m\<lparr>m_frames := m_frames m + 1,
        m_content := (take i (plain_frames m) @ d # drop i (plain_frames m), snd (m_content m))\<rparr>),
      frame_del = (\<lambda>m i n. m\<lparr>m_frames := m_frames m - int n,
        m_content := (take i (plain_frames m) @ drop (i + n) (plain_frames m), snd (m_content m))\<rparr>),
      msg_gets = (\<lambda>m. snd (m_content m)),
      msg_sets = (\<lambda>m fd flags ptype. m\<lparr>m_fd := fd, m_content := (plain_frames m, flags, ptype)\<rparr>),
      msg_make = plain_message [] 0,
      push_method = 1,
      new_uuid = uuids\<rparr>"

interpretation plain: comm_lib "plain_env kvc uuids" plain_frames
  by unfold_locales (simp_all add: plain_env_def plain_frames_def)

section \<open>Identifiers of clients\<close>

lemma cid_parts_roundtrip:
  assumes "u \<noteq> []" "0x7C \<notin> set u" "h \<noteq> []" "0x3A \<notin> set h" "p \<noteq> []" "0x2D \<notin> set p" "f \<noteq> []"
  shows "cid_parts (u @ 0x7C # h @ 0x3A # p @ 0x2D # f) = (Some u, Some h, Some p, Some f)"
  using assms by (simp add: cid_parts_def ascii_def strtok_split strtok_rest)

text \<open>A configuration the identifiers can be read back from.\<close>

definition host_ok :: "('k, 'x) exc_state \<Rightarrow> bool" where
  "host_ok s \<longleftrightarrow> serv_host s \<noteq> [] \<and> list_all printable (serv_host s) \<and> 0x3A \<notin> set (serv_host s) \<and>
     length (serv_host s) < 20 \<and> 0 \<le> serv_port s \<and> serv_port s < 65536"

definition uuid_ok :: "bytes \<Rightarrow> bool" where
  "uuid_ok u \<longleftrightarrow> u \<noteq> [] \<and> list_all printable u \<and> 0x7C \<notin> set u \<and> length u < 40"

definition cid_text :: "bytes \<Rightarrow> bytes \<Rightarrow> int \<Rightarrow> int \<Rightarrow> bytes" where
  "cid_text u h p fd = u @ 0x7C # h @ 0x3A # print_int p @ 0x2D # print_int fd"

lemma print_nonneg_digits: "0 \<le> p \<Longrightarrow> list_all is_digit (print_int p) \<and> print_int p \<noteq> []"
  using dec_nat_digits by (simp add: print_int_def)

lemma port_range: "0 \<le> p \<Longrightarrow> p < 65536 \<Longrightarrow> int_range p"
  by (simp add: int_range_def)

lemma cid_text_printable:
  assumes "host_ok s" "uuid_ok u" "int_range fd"
  shows "list_all printable (cid_text u (serv_host s) (serv_port s) fd) \<and>
    length (cid_text u (serv_host s) (serv_port s) fd) < 128"
  using assms print_int_printable [OF assms(3)] print_int_printable [OF port_range, of "serv_port s"]
  by (auto simp: cid_text_def host_ok_def uuid_ok_def, simp_all add: printable_def)

lemma get_cid_text:
  assumes "host_ok s" "fdman_slot_get (g_slot s) fd = Some des" "uuid_ok (info_uuid des)" "int_range fd"
  shows "get_cid s fd = Some (cid_text (info_uuid des) (serv_host s) (serv_port s) fd)"
proof -
  have "snprintf MAX_CID_SIZE (cid_text (info_uuid des) (serv_host s) (serv_port s) fd) =
      cid_text (info_uuid des) (serv_host s) (serv_port s) fd"
    using cid_text_printable [OF assms(1,3,4)] by (intro snprintf_fits) (simp add: MAX_CID_SIZE_def)
  then show ?thesis using assms(2) by (simp add: get_cid_def cid_text_def ascii_def)
qed

lemma cid_text_ours:
  assumes "host_ok s" "uuid_ok u" "int_range fd"
  shows "cid_is_ours s (cid_text u (serv_host s) (serv_port s) fd) = Some True"
    and "cid_fd (cid_text u (serv_host s) (serv_port s) fd) = Some fd"
proof -
  have p: "0x2D \<notin> set (print_int (serv_port s))" "print_int (serv_port s) \<noteq> []"
    using print_nonneg_digits [of "serv_port s"] assms(1) digit_not_special by (auto simp: host_ok_def list_all_iff)
  have c: "cid_parts (cid_text u (serv_host s) (serv_port s) fd) =
      (Some u, Some (serv_host s), Some (print_int (serv_port s)), Some (print_int fd))"
    unfolding cid_text_def using assms p print_int_printable [OF assms(3)]
    by (intro cid_parts_roundtrip) (auto simp: host_ok_def uuid_ok_def)
  show "cid_is_ours s (cid_text u (serv_host s) (serv_port s) fd) = Some True"
    using assms(1) atoi_print [of "serv_port s"] by (simp add: cid_is_ours_def c host_ok_def)
  show "cid_fd (cid_text u (serv_host s) (serv_port s) fd) = Some fd"
    using assms(3) atoi_print [of fd] by (simp add: cid_fd_def c int_range_def)
qed

context comm_lib
begin

text \<open>A message of a client goes to the gateway with the client's identifier in front.\<close>

lemma client_message_sent:
  assumes "fdman_slot_get (g_slot s) (m_fd m) = Some des" "info_type des = CLIENT_ROUTER"
    and "get_cid s (m_fd m) = Some cid" "find_best_gateway s > 0"
  obtains m1 where "exc_message_dispatch E s m = Some (commapi_send m1 s)"
    "m_fd m1 = find_best_gateway s" "frames m1 = ascii ''upstream'' # cid # frames m"
  using assms that [of "retarget E (find_best_gateway s) (push_frame E (ascii ''upstream'') (push_frame E cid m))"]
    push_frame_frames retarget_frames
  by (simp add: exc_message_dispatch_def dispatch_client_def Let_def)

lemma frame_is_at:
  "i < length (frames m) \<Longrightarrow> length lit \<le> length (frames m ! i) \<Longrightarrow>
   frame_is (frame_get E m i) lit = Some (take (length lit) (frames m ! i) = ascii lit)"
  by (simp add: frame_is_def get_frame)

text \<open>A message addressed to an identifier of this server goes to the descriptor in it.\<close>

lemma cid_message_sent:
  assumes "fdman_slot_get (g_slot s) (m_fd m) = Some des" "info_type des = STREAM_ROUTER"
    and "frames m = ascii ''downstream'' # ascii ''cid'' # cid # body"
    and "list_all printable cid" "length cid < 128" "cid_is_ours s cid = Some True" "cid_fd cid = Some fd"
  obtains m1 where "exc_message_dispatch E s m = Some (commapi_send m1 s)" "m_fd m1 = fd" "frames m1 = body"
proof -
  have "name_frame E m 2 = Some cid" using name_frame_word [of 2 m] assms(3-5) by simp
  then have "handle_cid_message E s m = Some (commapi_send (drop_route E (retarget E fd m)) s)"
    using assms(6,7) by (simp add: handle_cid_message_def)
  moreover have "frame_get E m 0 = Some (ascii ''downstream'')" "frame_get E m 1 = Some (ascii ''cid'')"
    using assms(3) by (simp_all add: get_frame)
  moreover have "3 \<le> length (frames (retarget E fd m))" using retarget_frames assms(3) by simp
  ultimately show ?thesis
    using that [of "drop_route E (retarget E fd m)"] assms(1-3) retarget_frames drop_route_frames [of "retarget E fd m"]
    by (simp add: exc_message_dispatch_def dispatch_stream_def downstream_msg_def frame_is_def ascii_def)
qed

end


section \<open>The tables under every input\<close>

text \<open>What the exchange reacts to: a message, or an event of one of its sockets.\<close>

datatype 'x exc_input = Message "'x comm_message" | From_Client int step_code | From_Stream int step_code
  | From_Manage int step_code | From_Status int step_code

definition exc_react :: "('k, 'x) exc_env \<Rightarrow> ('k, 'x) exc_state \<Rightarrow> 'x exc_input \<Rightarrow> ('k, 'x) exc_state option" where
  "exc_react E s i = (case i of
     Message m \<Rightarrow> exc_message_dispatch E s m
   | From_Client fd step \<Rightarrow> exc_event_notify_from_client E s fd step
   | From_Stream fd step \<Rightarrow> exc_event_notify_from_stream E s fd step
   | From_Manage fd step \<Rightarrow> exc_event_notify_from_manage E s fd step
   | From_Status fd step \<Rightarrow> exc_event_notify_from_status E s fd step)"

text \<open>The names a gateway sends are printable, and no group and no user has the empty name.
  Nothing is asked of the messages of clients.\<close>

definition gateway_names :: "('k, 'x) exc_env \<Rightarrow> 'x comm_message \<Rightarrow> bool" where
  "gateway_names E m \<longleftrightarrow>
     (case frame_get E m 2 of None \<Rightarrow> True | Some f \<Rightarrow> list_all printable f) \<and>
     (frame_is (frame_get E m 0) ''manage'' = Some True \<and> frame_is (frame_get E m 1) ''status'' = Some False \<longrightarrow>
      (case frame_get E m 3 of None \<Rightarrow> True | Some f \<Rightarrow> list_all word_ok (split_on 0x2C f)))"

definition input_ok :: "('k, 'x) exc_env \<Rightarrow> ('k, 'x) exc_state \<Rightarrow> 'x exc_input \<Rightarrow> bool" where
  "input_ok E s i \<longleftrightarrow> (case i of
     Message m \<Rightarrow> map_option info_type (fdman_slot_get (g_slot s) (m_fd m)) = Some CLIENT_ROUTER \<or> gateway_names E m
   | From_Client fd step \<Rightarrow> int_range fd
   | _ \<Rightarrow> True)"

inductive exc_run :: "('k, 'x) exc_env \<Rightarrow> ('k, 'x) exc_state \<Rightarrow> ('k, 'x) exc_state \<Rightarrow> bool" for E where
  exc_run_start: "exc_run E s s"
| exc_run_step: "exc_run E s t \<Longrightarrow> input_ok E t i \<Longrightarrow> exc_react E t i = Some u \<Longrightarrow> exc_run E s u"

definition exc_ok ::
  "('k \<Rightarrow> int \<Rightarrow> bytes \<Rightarrow> bytes option) \<Rightarrow> ('k \<Rightarrow> int \<Rightarrow> bytes \<Rightarrow> bytes set) \<Rightarrow> ('k, 'x) exc_state \<Rightarrow> bool" where
  "exc_ok strs sets s \<longleftrightarrow> kv_typed strs sets (kv s) \<and> tables_ok (tables_of strs sets (dbs s) (kv s))"

abbreviation exc_tables ::
  "('k \<Rightarrow> int \<Rightarrow> bytes \<Rightarrow> bytes option) \<Rightarrow> ('k \<Rightarrow> int \<Rightarrow> bytes \<Rightarrow> bytes set) \<Rightarrow> ('k, 'x) exc_state \<Rightarrow> tables" where
  "exc_tables strs sets s \<equiv> tables_of strs sets (dbs s) (kv s)"

lemma exc_ok_cong: "exc_ok strs sets s \<Longrightarrow> kv t = kv s \<Longrightarrow> dbs t = dbs s \<Longrightarrow> exc_ok strs sets t"
  by (simp add: exc_ok_def)

lemma commapi_kv [simp]:
  "kv (commapi_send m s) = kv s" "dbs (commapi_send m s) = dbs s"
  "kv (commapi_close fd s) = kv s" "dbs (commapi_close fd s) = dbs s"
  by (simp_all add: commapi_send_def commapi_close_def)

lemma exc_ok_close: "exc_ok strs sets (commapi_close fd s) = exc_ok strs sets s"
  by (simp add: exc_ok_def)

lemma send_each_kv: "send_each E s m cids = Some s' \<Longrightarrow> kv s' = kv s \<and> dbs s' = dbs s"
  by (induction cids arbitrary: s m) (auto simp: Let_def split: bind_split_asm)

lemma dispatch_client_kv: "dispatch_client E s m = Some s' \<Longrightarrow> kv s' = kv s \<and> dbs s' = dbs s"
  by (auto simp: dispatch_client_def Let_def split: if_splits bind_split_asm)

lemma send_status_kv: "send_status_msg E s fd st = Some s' \<Longrightarrow> kv s' = kv s \<and> dbs s' = dbs s"
  by (auto simp: send_status_msg_def Let_def split: if_splits bind_split_asm)

lemma handle_cid_kv: "handle_cid_message E s m = Some s' \<Longrightarrow> kv s' = kv s \<and> dbs s' = dbs s"
  by (auto simp: handle_cid_message_def split: if_splits bind_split_asm)

lemma handle_cid_ok: "exc_ok strs sets s \<Longrightarrow> handle_cid_message E s m = Some s' \<Longrightarrow> exc_ok strs sets s'"
  using handle_cid_kv [of E s m s'] exc_ok_cong [of strs sets s s'] by blast

lemma name_frame_ok:
  "name_frame E m i = Some n \<Longrightarrow> frame_get E m i = Some f \<Longrightarrow> list_all printable f \<Longrightarrow> name_ok n \<and> n = f"
  by (auto simp: name_frame_def name_ok_def printable_c_str split: bind_split_asm)

lemma name_frame_name_ok:
  "name_frame E m i = Some n \<Longrightarrow> (case frame_get E m i of None \<Rightarrow> True | Some f \<Rightarrow> list_all printable f) \<Longrightarrow> name_ok n"
  by (cases "frame_get E m i") (simp add: name_frame_def, simp add: name_frame_ok)

lemma split_on_printable: "list_all word_ok (split_on 0x2C f) \<Longrightarrow> list_all printable f \<and> f \<noteq> []"
proof -
  have c: "printable 0x2C" by (simp add: printable_def)
  have "list_all (list_all printable) (split_on 0x2C f) \<Longrightarrow> list_all printable f"
    using c by (induction f) (auto split: if_splits list.splits)
  moreover assume "list_all word_ok (split_on 0x2C f)"
  moreover from this have "list_all (list_all printable) (split_on 0x2C f)"
    by (auto simp: word_ok_def name_ok_def list_all_iff)
  ultimately show ?thesis by (cases f) (auto simp: word_ok_def)
qed

lemma cid_fd_range: "cid_fd cid = Some fd \<Longrightarrow> int_range fd"
  by (auto simp: cid_fd_def dest: atoi_range split: prod.splits bind_split_asm)

context libkv
begin

lemma exc_okD:
  "exc_ok strs sets s \<Longrightarrow> kv_typed strs sets (kv s)"
  "exc_ok strs sets s \<Longrightarrow> tables_ok (exc_tables strs sets s)"
  by (simp_all add: exc_ok_def)

text \<open>Lookups leave the tables alone and are always answered.\<close>

lemma user_lookup:
  assumes "exc_ok strs sets s" "name_ok uid"
  obtains k' where "exc_uidmap_get_cid kvs (dbs s) (kv s) uid =
      Some (case user_cid (exc_tables strs sets s) uid of None \<Rightarrow> (-1, None, k') | Some v \<Rightarrow> (0, Some v, k'))"
    "exc_ok strs sets (s\<lparr>kv := k'\<rparr>)" "exc_tables strs sets (s\<lparr>kv := k'\<rparr>) = exc_tables strs sets s"
proof -
  have len: "length v < 128" if "strs (kv s) (g_uid_map (dbs s)) (ascii ''UID_CID:'' @ uid) = Some v" for v
  proof -
    have "fd_text v" using that exc_okD(2) [OF assms(1)] by (auto simp: tables_ok_def tables_of_def)
    then show ?thesis using fd_text_word by (auto simp: word_ok_def name_ok_def)
  qed
  obtain k' where k': "kv_get kvs (kv s) (g_uid_map (dbs s)) (cmd1 (''get '' @ ''UID_CID:'') uid) 128 =
      Some (case strs (kv s) (g_uid_map (dbs s)) (ascii ''UID_CID:'' @ uid) of None \<Rightarrow> (-1, None, k') | Some v \<Rightarrow> (0, Some v, k'))"
    "strs k' = strs (kv s)" "sets k' = sets (kv s)"
    by (rule ask_get [OF exc_okD(1) [OF assms(1)] prefix_members(1) assms(2) len])
  then show ?thesis
    using that [of k'] kv_same [OF k'(2,3)] assms(1)
    by (simp add: exc_uidmap_get_cid_def MAX_CID_SIZE_def exc_ok_def) (simp add: tables_of_def)
qed

lemma group_lookup:
  assumes "exc_ok strs sets s" "name_ok gid"
  obtains r cids k' where "exc_gidmap_get_cid kvs (dbs s) (kv s) gid = Some (r, cids, k')"
    "distinct cids" "set cids = group_members (exc_tables strs sets s) gid"
    "exc_ok strs sets (s\<lparr>kv := k'\<rparr>)" "exc_tables strs sets (s\<lparr>kv := k'\<rparr>) = exc_tables strs sets s"
proof -
  have w: "word_ok v" if "v \<in> sets (kv s) (g_gid_map (dbs s)) (ascii ''GID_CID:'' @ gid)" for v
    using that exc_okD(2) [OF assms(1)] fd_text_word by (auto simp: tables_ok_def tables_of_def)
  obtain r cids k' where k': "kv_members kvs (kv s) (g_gid_map (dbs s)) (cmd1 (''smembers '' @ ''GID_CID:'') gid) = Some (r, cids, k')"
    "strs k' = strs (kv s)" "sets k' = sets (kv s)" "distinct cids"
    "set cids = sets (kv s) (g_gid_map (dbs s)) (ascii ''GID_CID:'' @ gid)"
    by (rule ask_members [OF exc_okD(1) [OF assms(1)] prefix_members(3) assms(2) w])
  then show ?thesis
    using that [of r cids k'] kv_same [OF k'(2,3)] assms(1)
    by (simp add: exc_gidmap_get_cid_def exc_ok_def) (simp add: tables_of_def)
qed

lemma erase_keeps_ok:
  assumes "kv_cmd E = kvs" "exc_ok strs sets s" "int_range fd" "erase_client E s fd = Some s'"
  shows "exc_ok strs sets s' \<and> exc_tables strs sets s' = spec_erase (print_int fd) (exc_tables strs sets s)"
proof -
  obtain k' where "s' = s\<lparr>kv := k'\<rparr>" "kv_typed strs sets k'"
    "tables_of strs sets (dbs s) k' = spec_erase (print_int fd) (exc_tables strs sets s)"
    using erase_refines [OF assms(1) exc_okD [OF assms(2)] assms(3)] assms(4) by (metis option.inject)
  then show ?thesis using spec_erase_ok exc_okD(2) [OF assms(2)] by (simp add: exc_ok_def)
qed

lemma handle_uid_message_ok:
  assumes "kv_cmd E = kvs" "exc_ok strs sets s" "gateway_names E m" "handle_uid_message E s m = Some (r, s')"
  shows "exc_ok strs sets s'"
proof -
  obtain uid where u: "name_frame E m 2 = Some uid" using assms(4) by (auto simp: handle_uid_message_def split: bind_split_asm)
  then have "name_ok uid" using name_frame_name_ok assms(3) by (auto simp: gateway_names_def)
  then obtain k' where "exc_uidmap_get_cid kvs (dbs s) (kv s) uid =
      Some (case user_cid (exc_tables strs sets s) uid of None \<Rightarrow> (-1, None, k') | Some v \<Rightarrow> (0, Some v, k'))"
    "exc_ok strs sets (s\<lparr>kv := k'\<rparr>)" by (rule user_lookup [OF assms(2)])
  then show ?thesis using assms(1,4) u
    by (auto simp: handle_uid_message_def Let_def split: option.splits if_splits bind_split_asm elim: exc_ok_cong)
qed

lemma handle_gid_message_ok:
  assumes "kv_cmd E = kvs" "exc_ok strs sets s" "gateway_names E m" "handle_gid_message E s m = Some s'"
  shows "exc_ok strs sets s'"
proof -
  obtain gid where u: "name_frame E m 2 = Some gid" using assms(4) by (auto simp: handle_gid_message_def split: bind_split_asm)
  then have "name_ok gid" using name_frame_name_ok assms(3) by (auto simp: gateway_names_def)
  then obtain r cids k' where "exc_gidmap_get_cid kvs (dbs s) (kv s) gid = Some (r, cids, k')"
    "exc_ok strs sets (s\<lparr>kv := k'\<rparr>)" by (rule group_lookup [OF assms(2)])
  then show ?thesis using assms(1,4) u
    by (auto simp: handle_gid_message_def Let_def dest!: send_each_kv elim: exc_ok_cong)
qed

lemma dispatch_stream_ok:
  assumes "kv_cmd E = kvs" "exc_ok strs sets s" "gateway_names E m" "dispatch_stream E s m = Some s'"
  shows "exc_ok strs sets s'"
  using assms(4) handle_uid_message_ok [OF assms(1-3)] handle_gid_message_ok [OF assms(1-3)]
    handle_cid_ok [OF assms(2)] assms(2)
  by (auto simp: dispatch_stream_def downstream_msg_def split: bind_split_asm if_splits option.splits)

lemma bind_message_refines:
  assumes "kv_cmd E = kvs" "exc_ok strs sets s" "name_frame E m 2 = Some cid" "cid_is_ours s cid = Some True"
    and "cid_fd cid = Some fd" "name_frame E m 3 = Some uid" "word_ok uid"
  obtains s' where "handle_uid_map E s m = Some (0, s')" "exc_ok strs sets s'"
    "exc_tables strs sets s' = spec_bind (print_int fd) uid (exc_tables strs sets s)"
proof -
  define c where "c = print_int fd"
  have c: "fd_text c" "word_ok c" "snprintf MAX_CID_SIZE (print_int fd) = c"
    using fd_text_print [OF cid_fd_range [OF assms(5)]] fd_text_word print_fits [OF cid_fd_range [OF assms(5)]]
    by (auto simp: c_def)
  define k' where "k' = snd (exc_cidmap_set_uid kvs (dbs s) (snd (exc_uidmap_set_cid kvs (dbs s) (kv s) uid c)) c uid)"
  have "kv_typed strs sets k'" "tables_of strs sets (dbs s) k' = spec_bind c uid (exc_tables strs sets s)"
    using bind_refines [OF exc_okD(1) [OF assms(2)] c(2) assms(7) k'_def] by auto
  moreover have "handle_uid_map E s m = Some (0, s\<lparr>kv := k'\<rparr>)"
    using assms by (simp add: handle_uid_map_def Let_def c(3) k'_def)
  ultimately show ?thesis
    using that [of "s\<lparr>kv := k'\<rparr>"] spec_bind_ok exc_okD(2) [OF assms(2)] c(1) assms(7) by (simp add: exc_ok_def c_def)
qed

lemma fold_join_ok:
  "tables_ok t \<Longrightarrow> fd_text cid \<Longrightarrow> list_all word_ok gids \<Longrightarrow> tables_ok (fold (spec_join cid) gids t)"
  by (induction gids arbitrary: t) (auto simp: spec_join_ok)

lemma join_message_refines:
  assumes "kv_cmd E = kvs" "exc_ok strs sets s" "name_frame E m 2 = Some cid" "cid_is_ours s cid = Some True"
    and "cid_fd cid = Some fd" "frame_get E m 3 = Some f" "list_all word_ok (split_on 0x2C f)"
  obtains s' where "handle_gid_map E s m = Some (0, s')" "exc_ok strs sets s'"
    "exc_tables strs sets s' = fold (spec_join (print_int fd)) (split_on 0x2C f) (exc_tables strs sets s)"
proof -
  define c where "c = print_int fd"
  have c: "fd_text c" "word_ok c" "snprintf MAX_CID_SIZE (print_int fd) = c"
    using fd_text_print [OF cid_fd_range [OF assms(5)]] fd_text_word print_fits [OF cid_fd_range [OF assms(5)]]
    by (auto simp: c_def)
  obtain w ws where w: "split_on 0x2C f = w # ws" by (rule split_on_cons)
  obtain k' where k': "Option.bind (gid_loop kvs (dbs s) (kv s) c [] f) (\<lambda>(gid, k). join_group kvs (dbs s) k c gid) = Some k'"
    "kv_typed strs sets k'" "tables_of strs sets (dbs s) k' = fold (spec_join c) (split_on 0x2C f) (exc_tables strs sets s)"
    using gid_loop_refines [OF exc_okD(1) [OF assms(2)] c(2) w, of "[]" "dbs s"] assms(7) w by auto
  then have "handle_gid_map E s m = Some (0, s\<lparr>kv := k'\<rparr>)"
    using assms by (auto simp: handle_gid_map_def Let_def c(3) split: bind_split_asm)
  then show ?thesis
    using that [of "s\<lparr>kv := k'\<rparr>"] k' fold_join_ok [OF exc_okD(2) [OF assms(2)] c(1) assms(7)] by (simp add: exc_ok_def c_def)
qed

lemma handle_uid_map_ok:
  assumes "kv_cmd E = kvs" "exc_ok strs sets s" "handle_uid_map E s m = Some (r, s')"
    and "case frame_get E m 3 of None \<Rightarrow> True | Some f \<Rightarrow> list_all word_ok (split_on 0x2C f)"
  shows "exc_ok strs sets s'"
proof -
  obtain cid ours where c: "name_frame E m 2 = Some cid" "cid_is_ours s cid = Some ours"
    using assms(3) by (auto simp: handle_uid_map_def split: bind_split_asm)
  show ?thesis
  proof (cases ours)
    case True
    then obtain uid fd where u: "name_frame E m 3 = Some uid" "cid_fd cid = Some fd"
      using assms(3) c by (auto simp: handle_uid_map_def split: bind_split_asm)
    obtain f where f: "frame_get E m 3 = Some f" using u(1) by (auto simp: name_frame_def split: bind_split_asm)
    have "list_all printable f" "f \<noteq> []" using split_on_printable assms(4) f by auto
    then have "word_ok uid" using name_frame_ok [OF u(1) f] by (auto simp: word_ok_def)
    then show ?thesis
      using bind_message_refines [OF assms(1,2) c(1) c(2) [unfolded True [THEN eqTrueI]] u(2,1)] assms(3) True
      by (metis option.inject prod.inject)
  next
    case False
    then show ?thesis using assms(2,3) c by (simp add: handle_uid_map_def)
  qed
qed

lemma handle_gid_map_ok:
  assumes "kv_cmd E = kvs" "exc_ok strs sets s" "handle_gid_map E s m = Some (r, s')"
    and "case frame_get E m 3 of None \<Rightarrow> True | Some f \<Rightarrow> list_all word_ok (split_on 0x2C f)"
  shows "exc_ok strs sets s'"
proof -
  obtain cid ours where c: "name_frame E m 2 = Some cid" "cid_is_ours s cid = Some ours"
    using assms(3) by (auto simp: handle_gid_map_def split: bind_split_asm)
  show ?thesis
  proof (cases ours)
    case True
    then obtain f fd where u: "frame_get E m 3 = Some f" "cid_fd cid = Some fd"
      using assms(3) c by (auto simp: handle_gid_map_def Let_def split: bind_split_asm)
    have "list_all word_ok (split_on 0x2C f)" using assms(4) u(1) by simp
    then show ?thesis
      using join_message_refines [OF assms(1,2) c(1) c(2) [unfolded True [THEN eqTrueI]] u(2,1)] assms(3) True
      by (metis option.inject prod.inject)
  next
    case False
    then show ?thesis using assms(2,3) c by (simp add: handle_gid_map_def)
  qed
qed

lemma handle_status_ok:
  assumes "kv_cmd E = kvs" "exc_ok strs sets s" "handle_status E s m = Some s'"
  shows "exc_ok strs sets s'"
proof -
  have er: "exc_ok strs sets u" if "erase_client E (s\<lparr>g_slot := g\<rparr>) fd = Some u" "cid_fd cid = Some fd" for u g fd cid
    using erase_keeps_ok [OF assms(1) _ cid_fd_range [OF that(2)] that(1)] exc_ok_cong [OF assms(2), of "s\<lparr>g_slot := g\<rparr>"]
    by simp
  have "exc_ok strs sets t" if "erased_client E s m = Some t" for t
  proof -
    from that consider "t = s" | cid fd g u where "cid_fd cid = Some fd" "erase_client E (s\<lparr>g_slot := g\<rparr>) fd = Some u"
      "t = commapi_close fd u"
      by (auto simp: erased_client_def split: bind_split_asm if_splits)
    then show ?thesis using assms(2) by cases (simp, metis er exc_ok_close)
  qed
  then show ?thesis using assms(2,3) by (auto simp: handle_status_def split: bind_split_asm option.splits if_splits)
qed

lemma dispatch_manage_ok:
  assumes "kv_cmd E = kvs" "exc_ok strs sets s" "gateway_names E m" "dispatch_manage E s m = Some s'"
  shows "exc_ok strs sets s'"
proof (cases "frame_is (frame_get E m 0) ''manage'' = Some True")
  case False
  then show ?thesis using assms(2,4) by (auto simp: dispatch_manage_def split: bind_split_asm if_splits)
next
  case True
  then obtain st where st: "frame_is (frame_get E m 1) ''status'' = Some st"
    using assms(4) by (auto simp: dispatch_manage_def Let_def split: bind_split_asm)
  show ?thesis
  proof (cases st)
    case True
    then show ?thesis using assms(2,4) st handle_status_ok [OF assms(1,2)]
      by (auto simp: dispatch_manage_def Let_def split: bind_split_asm if_splits)
  next
    case False
    then have "case frame_get E m 3 of None \<Rightarrow> True | Some f \<Rightarrow> list_all word_ok (split_on 0x2C f)"
      using assms(3) st \<open>frame_is (frame_get E m 0) ''manage'' = Some True\<close> by (auto simp: gateway_names_def)
    then show ?thesis using assms(2,4) st False handle_uid_map_ok [OF assms(1,2)] handle_gid_map_ok [OF assms(1,2)]
      by (auto simp: dispatch_manage_def Let_def split: bind_split_asm if_splits)
  qed
qed

lemma client_event_ok:
  assumes "kv_cmd E = kvs" "exc_ok strs sets s" "int_range fd" "exc_event_notify_from_client E s fd step = Some s'"
  shows "exc_ok strs sets s'"
proof (cases step)
  case STEP_STOP
  then obtain g u where u: "erase_client E (s\<lparr>g_slot := g\<rparr>) fd = Some u" "send_status_msg E u fd STEP_STOP = Some s'"
    using assms(4) by (auto simp: exc_event_notify_from_client_def split: bind_split_asm)
  have "exc_ok strs sets (s\<lparr>g_slot := g\<rparr>)" by (rule exc_ok_cong [OF assms(2)]) simp_all
  then have "exc_ok strs sets u" using erase_keeps_ok [OF assms(1) _ assms(3) u(1)] by blast
  then show ?thesis using exc_ok_cong send_status_kv [OF u(2)] by blast
qed (use assms exc_ok_cong [OF assms(2), of s'] in
  \<open>auto simp: exc_event_notify_from_client_def occupy_slot_def dest!: send_status_kv split: bind_split_asm\<close>)

lemma gateway_event_ok:
  assumes "exc_ok strs sets s"
  shows "exc_event_notify_from_stream E s fd step = Some s' \<Longrightarrow> exc_ok strs sets s'"
    and "exc_event_notify_from_manage E s fd step = Some s' \<Longrightarrow> exc_ok strs sets s'"
    and "exc_event_notify_from_status E s fd step = Some s' \<Longrightarrow> exc_ok strs sets s'"
  using assms exc_ok_cong [OF assms, of s']
  by (auto simp: exc_event_notify_from_stream_def exc_event_notify_from_manage_def exc_event_notify_from_status_def
      occupy_slot_def add_gateway_def del_gateway_def Let_def split: step_code.splits bind_split_asm if_splits)

lemma react_ok:
  assumes "kv_cmd E = kvs" "exc_ok strs sets s" "input_ok E s i" "exc_react E s i = Some s'"
  shows "exc_ok strs sets s'"
proof (cases i)
  case (Message m)
  then obtain des where d: "fdman_slot_get (g_slot s) (m_fd m) = Some des"
    using assms(4) by (auto simp: exc_react_def exc_message_dispatch_def split: bind_split_asm)
  show ?thesis
    using assms Message d dispatch_stream_ok [OF assms(1,2)] dispatch_manage_ok [OF assms(1,2)]
      exc_ok_cong [OF assms(2), of s'] dispatch_client_kv [of E s m s']
    by (cases "info_type des") (auto simp: exc_react_def exc_message_dispatch_def input_ok_def)
qed (use assms client_event_ok [OF assms(1,2)] gateway_event_ok [OF assms(2)] in
  \<open>auto simp: exc_react_def input_ok_def\<close>)

lemma run_ok:
  assumes "kv_cmd E = kvs" "exc_run E s t" "exc_ok strs sets s"
  shows "exc_ok strs sets t"
  using assms(2,3) by induction (auto intro: react_ok [OF assms(1)])

end

section \<open>The two libraries together\<close>

locale exchange = comm_lib E frames + libkv "kv_cmd E" strs sets
  for E :: "('k, 'x) exc_env" and frames :: "'x comm_message \<Rightarrow> bytes list"
    and strs :: "'k \<Rightarrow> int \<Rightarrow> bytes \<Rightarrow> bytes option" and sets :: "'k \<Rightarrow> int \<Rightarrow> bytes \<Rightarrow> bytes set"
begin

lemma send_each_sent:
  "list_all fd_text cids \<Longrightarrow>
   \<exists>ms. send_each E s m cids = Some (s\<lparr>sent := sent s @ ms\<rparr>) \<and> map (\<lambda>x. print_int (m_fd x)) ms = cids \<and>
     (\<forall>x \<in> set ms. frames x = frames m)"
proof (induction cids arbitrary: s m)
  case Nil
  have "s\<lparr>sent := sent s @ []\<rparr> = s" by simp
  then show ?case by (intro exI [of _ "[]"]) simp
next
  case (Cons cid cids)
  then obtain fd where fd: "cid = print_int fd" "atoi cid = Some fd"
    using atoi_print by (auto simp: fd_text_def int_range_def)
  define m1 where "m1 = retarget E fd m"
  obtain ms where "send_each E (commapi_send m1 s) m1 cids = Some ((commapi_send m1 s)\<lparr>sent := sent (commapi_send m1 s) @ ms\<rparr>)"
    "map (\<lambda>x. print_int (m_fd x)) ms = cids" "\<forall>x \<in> set ms. frames x = frames m1"
    using Cons by fastforce
  then show ?case using fd retarget_frames [of fd m]
    by (intro exI [of _ "m1 # ms"]) (simp add: m1_def commapi_send_def)
qed

lemma stream_frames:
  assumes "fdman_slot_get (g_slot s) (m_fd m) = Some des" "info_type des = STREAM_ROUTER"
    and "frames m = ascii ''downstream'' # kind # name # body"
  shows "kind = ascii ''uid'' \<Longrightarrow> exc_message_dispatch E s m = map_option snd (handle_uid_message E s m)"
    and "kind = ascii ''gid'' \<Longrightarrow> exc_message_dispatch E s m = handle_gid_message E s m"
  using assms by (simp_all add: exc_message_dispatch_def dispatch_stream_def downstream_msg_def
    frame_is_def get_frame ascii_def)

lemma manage_frames:
  assumes "fdman_slot_get (g_slot s) (m_fd m) = Some des" "info_type des = MANAGE_ROUTER"
    and "frames m = ascii ''manage'' # kind # name # rest"
  shows "kind = ascii ''uidmap'' \<Longrightarrow> exc_message_dispatch E s m = map_option snd (handle_uid_map E s m)"
    and "kind = ascii ''gidmap'' \<Longrightarrow> exc_message_dispatch E s m = map_option snd (handle_gid_map E s m)"
  using assms by (simp_all add: exc_message_dispatch_def dispatch_manage_def Let_def frame_is_def get_frame ascii_def)

lemma group_message_sent:
  assumes "exc_ok strs sets s" "fdman_slot_get (g_slot s) (m_fd m) = Some des" "info_type des = STREAM_ROUTER"
    and "frames m = ascii ''downstream'' # ascii ''gid'' # gid # body" "name_ok gid"
  shows "\<exists>s' ms. exc_message_dispatch E s m = Some s' \<and> sent s' = sent s @ ms \<and>
    distinct (map m_fd ms) \<and> (\<lambda>x. print_int (m_fd x)) ` set ms = group_members (exc_tables strs sets s) gid \<and>
    (\<forall>x \<in> set ms. frames x = body) \<and> exc_tables strs sets s' = exc_tables strs sets s"
proof -
  have n: "name_frame E m 2 = Some gid" using name_frame_word [of 2 m] assms(4,5) by (simp add: name_ok_def)
  obtain r cids k' where k': "exc_gidmap_get_cid (kv_cmd E) (dbs s) (kv s) gid = Some (r, cids, k')"
    "distinct cids" "set cids = group_members (exc_tables strs sets s) gid"
    "exc_ok strs sets (s\<lparr>kv := k'\<rparr>)" "exc_tables strs sets (s\<lparr>kv := k'\<rparr>) = exc_tables strs sets s"
    by (rule group_lookup [OF assms(1,5)])
  have "list_all fd_text cids"
    using k'(3) exc_okD(2) [OF assms(1)] by (auto simp: list_all_iff tables_ok_def)
  then obtain ms where ms: "send_each E (s\<lparr>kv := k'\<rparr>) (drop_route E m) cids =
      Some (s\<lparr>kv := k'\<rparr>\<lparr>sent := sent (s\<lparr>kv := k'\<rparr>) @ ms\<rparr>)"
    "map (\<lambda>x. print_int (m_fd x)) ms = cids" "\<forall>x \<in> set ms. frames x = frames (drop_route E m)"
    using send_each_sent by metis
  have "distinct (map m_fd ms)"
    using k'(2) ms(2) distinct_map [of print_int "map m_fd ms"] by (simp add: comp_def)
  moreover have "(\<lambda>x. print_int (m_fd x)) ` set ms = set cids" using ms(2) by (metis list.set_map)
  moreover have "frames (drop_route E m) = body" using drop_route_frames [of m] assms(4) by simp
  moreover have "exc_message_dispatch E s m = Some (s\<lparr>kv := k', sent := sent s @ ms\<rparr>)"
    using stream_frames(2) [OF assms(2-4)] n k'(1) ms(1) by (simp add: handle_gid_message_def Let_def)
  ultimately show ?thesis using ms(3) k'(3,5)
    by (intro exI [of _ "s\<lparr>kv := k', sent := sent s @ ms\<rparr>"] exI [of _ ms]) simp
qed

lemma user_message_sent:
  assumes "exc_ok strs sets s" "fdman_slot_get (g_slot s) (m_fd m) = Some des" "info_type des = STREAM_ROUTER"
    and "frames m = ascii ''downstream'' # ascii ''uid'' # uid # body" "name_ok uid"
    and "user_cid (exc_tables strs sets s) uid = Some (print_int fd)" "int_range fd" "fd \<noteq> -1"
  shows "\<exists>s' m1. exc_message_dispatch E s m = Some s' \<and> sent s' = sent s @ [m1] \<and> m_fd m1 = fd \<and> frames m1 = body"
proof -
  have n: "name_frame E m 2 = Some uid" using name_frame_word [of 2 m] assms(4,5) by (simp add: name_ok_def)
  obtain k' where k': "exc_uidmap_get_cid (kv_cmd E) (dbs s) (kv s) uid =
      Some (case user_cid (exc_tables strs sets s) uid of None \<Rightarrow> (-1, None, k') | Some v \<Rightarrow> (0, Some v, k'))"
    by (rule user_lookup [OF assms(1,5)])
  have a: "atoi (print_int fd) = Some fd" using atoi_print assms(7) by (simp add: int_range_def)
  have "exc_message_dispatch E s m = Some (commapi_send (retarget E fd (drop_route E m)) (s\<lparr>kv := k'\<rparr>))"
    using stream_frames(1) [OF assms(2-4)] n k' a assms(6,8) by (simp add: handle_uid_message_def Let_def)
  then show ?thesis using retarget_frames drop_route_frames [of m] assms(4) by (simp add: commapi_send_def)
qed

text \<open>A user nobody serves: the message is dropped.\<close>

lemma user_message_dropped:
  assumes "exc_ok strs sets s" "fdman_slot_get (g_slot s) (m_fd m) = Some des" "info_type des = STREAM_ROUTER"
    and "frames m = ascii ''downstream'' # ascii ''uid'' # uid # body" "name_ok uid"
    and "user_cid (exc_tables strs sets s) uid = None"
  shows "\<exists>s'. exc_message_dispatch E s m = Some s' \<and> sent s' = sent s"
proof -
  have n: "name_frame E m 2 = Some uid" using name_frame_word [of 2 m] assms(4,5) by (simp add: name_ok_def)
  obtain k' where k': "exc_uidmap_get_cid (kv_cmd E) (dbs s) (kv s) uid =
      Some (case user_cid (exc_tables strs sets s) uid of None \<Rightarrow> (-1, None, k') | Some v \<Rightarrow> (0, Some v, k'))"
    by (rule user_lookup [OF assms(1,5)])
  then show ?thesis
    using stream_frames(1) [OF assms(2-4)] n assms(6) by (simp add: handle_uid_message_def Let_def)
qed

end

interpretation plain_exchange: exchange "plain_env mem_spl uuids" plain_frames fst "\<lambda>k db key. set (snd k db key)"
  by (intro exchange.intro plain.comm_lib_axioms) (simp add: plain_env_def mem_kv.libkv_axioms)

end
