(* ===== verification/Exc_Correct.thy ===== *)
theory Exc_Correct
  imports Exc_Routing
begin

text \<open>
  The properties of the message exchange: identifiers bring replies back, users and groups are
  routed by tables that stay consistent under every input, closing a client refines its
  specification; and two effects of the removal of clients, on users who moved and on the status report.
\<close>

section \<open>Slots\<close>

lemma slot_del_effect:
  assumes "fdman_slot_del g fd = Some g'"
  shows "fdman_slot_get g' fd = Some fd_info_zero" "fdman_slot_del g' fd = None"
    and "fd' \<noteq> fd \<Longrightarrow> fdman_slot_get g' fd' = fdman_slot_get g fd'"
  using assms by (auto simp: fdman_slot_del_def fdman_slot_get_def slot_put_def slot_at_def fd_info_zero_def
    split: bind_split_asm)

lemma slot_del_open:
  assumes "fdman_slot_get g fd = Some des" "info_status des = 1"
  obtains g' where "fdman_slot_del g fd = Some g'"
proof -
  have "slot_at g fd = Some des" using assms(1) by (simp add: fdman_slot_get_def)
  then show ?thesis using assms(2) that
    by (auto simp: fdman_slot_del_def slot_put_def slot_at_def split: bind_split_asm)
qed

text \<open>The identifier of a slot that was given back has no uuid, and cannot be taken apart.\<close>

lemma empty_uuid_cid:
  assumes "host_ok s" "0x7C \<notin> set (serv_host s)" "fdman_slot_get (g_slot s) fd = Some fd_info_zero" "int_range fd"
  obtains cid where "get_cid s fd = Some cid" "cid_is_ours t cid = None"
proof -
  define r where "r = serv_host s @ 0x3A # print_int (serv_port s) @ 0x2D # print_int fd"
  have p: "0x7C \<notin> set (print_int fd)" "0x7C \<notin> set (print_int (serv_port s))"
    using dec_nat_digits digit_not_special by (auto simp: print_int_def list_all_iff)
  then have r: "0x7C \<notin> set r" "r \<noteq> []" using assms(2) by (auto simp: r_def)
  have "length (0x7C # r) < 128"
    using assms(1) print_int_printable [OF assms(4)] print_int_printable [OF port_range, of "serv_port s"]
    by (simp add: r_def host_ok_def)
  then have "get_cid s fd = Some (0x7C # r)"
    using assms(3) snprintf_fits [of "0x7C # r" 128] by (simp add: get_cid_def fd_info_zero_def ascii_def r_def MAX_CID_SIZE_def)
  moreover have "strtok (0x7C # r) (ascii ''|'') = (Some r, [])"
  proof -
    have a: "dropWhile (\<lambda>c. c = 0x7C) r = r" using r by (cases r) auto
    have b: "takeWhile (\<lambda>c. c \<noteq> 0x7C) r = r" "dropWhile (\<lambda>c. c \<noteq> 0x7C) r = []"
      using r(1) by (auto simp: takeWhile_eq_all_conv dropWhile_eq_Nil_conv)
    show ?thesis using r(2) by (simp add: strtok_def ascii_def Let_def a b)
  qed
  ultimately show ?thesis
    using that [of "0x7C # r"] by (simp add: cid_is_ours_def cid_parts_def) (simp add: strtok_def)
qed

lemma print_int_inj: "int_range a \<Longrightarrow> int_range b \<Longrightarrow> print_int a = print_int b \<Longrightarrow> a = b"
  unfolding int_range_def using atoi_print by (metis option.inject)

lemma map_message_keeps:
  "handle_uid_map E s m = Some (r, s') \<Longrightarrow> g_slot s' = g_slot s \<and> sent s' = sent s"
  "handle_gid_map E s m = Some (q, s') \<Longrightarrow> g_slot s' = g_slot s \<and> sent s' = sent s"
  by (auto simp: handle_uid_map_def handle_gid_map_def Let_def split: bind_split_asm if_splits)


context exchange
begin

text \<open>A client that closes: its slot is free, and the tables forget it.\<close>

lemma client_stop_refines:
  assumes "exc_ok strs sets s" "int_range fd" "fdman_slot_get (g_slot s) fd = Some des" "info_status des = 1"
  obtains g' k' s' where "fdman_slot_del (g_slot s) fd = Some g'"
    "send_status_msg E (s\<lparr>g_slot := g', kv := k'\<rparr>) fd STEP_STOP = Some s'"
    "exc_event_notify_from_client E s fd STEP_STOP = Some s'" "g_slot s' = g'" "exc_ok strs sets s'"
    "exc_tables strs sets s' = spec_erase (print_int fd) (exc_tables strs sets s)"
proof -
  obtain g' where g': "fdman_slot_del (g_slot s) fd = Some g'" by (rule slot_del_open [OF assms(3,4)])
  define t where "t = s\<lparr>g_slot := g'\<rparr>"
  have t: "exc_ok strs sets t" "exc_tables strs sets t = exc_tables strs sets s"
    using assms(1) exc_ok_cong [of strs sets s t] by (simp_all add: t_def)
  obtain k' where k': "erase_client E t fd = Some (t\<lparr>kv := k'\<rparr>)"
    by (rule erase_refines [OF refl exc_okD [OF t(1)] assms(2)])
  have e: "exc_ok strs sets (t\<lparr>kv := k'\<rparr>)"
    "exc_tables strs sets (t\<lparr>kv := k'\<rparr>) = spec_erase (print_int fd) (exc_tables strs sets s)"
    using erase_keeps_ok [OF refl t(1) assms(2) k'] t(2) by auto
  obtain s' where s': "send_status_msg E (t\<lparr>kv := k'\<rparr>) fd STEP_STOP = Some s'"
    using slot_del_effect(1) [OF g'] by (simp add: send_status_msg_def get_cid_def t_def Let_def)
  moreover have "kv s' = k'" "dbs s' = dbs s" "g_slot s' = g'"
    using s' by (auto simp: send_status_msg_def t_def Let_def commapi_send_def split: bind_split_asm if_splits)
  moreover have "exc_event_notify_from_client E s fd STEP_STOP = Some s'"
    using g' k' s' by (simp add: exc_event_notify_from_client_def t_def)
  ultimately show ?thesis using that [OF g'] e exc_ok_cong [of strs sets "t\<lparr>kv := k'\<rparr>" s'] by (simp add: t_def)
qed

lemma closed_status_frames:
  assumes "send_status_msg E s fd STEP_STOP = Some s'" "status_gateway_fd s > 0" "get_cid s fd = Some cid"
  obtains m where "s' = commapi_send m s" "m_fd m = status_gateway_fd s"
    "frames m = ascii ''status'' # ascii ''closed'' # cid # frames (msg_make E)"
  using assms that [of "push_frame E (ascii ''status'') (push_frame E (ascii ''closed'')
      (push_frame E cid (msg_sets E (msg_make E) (status_gateway_fd s) 0 (push_method E))))"]
    push_frame_frames set_message by (simp add: send_status_msg_def Let_def)

end

section \<open>A small exchange\<close>

text \<open>Two clients 2 and 4, a stream gateway 3 and a management gateway 5; nothing is bound yet.\<close>

definition demo_info :: "router_type \<Rightarrow> string \<Rightarrow> fd_info" where
  "demo_info type u = fd_info_zero\<lparr>info_status := 1, info_type := type, info_uuid := ascii u\<rparr>"

definition demo_exc :: "(mem_kv, bytes list \<times> int \<times> int) exc_state" where
  "demo_exc =
     \<lparr>kv = (\<lambda>db key. None, \<lambda>db key. []), dbs = \<lparr>g_cid_map = 0, g_uid_map = 1, g_gid_map = 2\<rparr>,
      g_list = fdman_list_init,
      g_slot = \<lparr>slot_info = Some [2 \<mapsto> demo_info CLIENT_ROUTER ''a1'', 4 \<mapsto> demo_info CLIENT_ROUTER ''b2'',
          3 \<mapsto> demo_info STREAM_ROUTER ''c3'', 5 \<mapsto> demo_info MANAGE_ROUTER ''d4''],
        slot_max = 5, slot_cap = FD_CAPACITY\<rparr>,
      serv_host = ascii ''10.0.0.2'', serv_port = 8082, stream_gateway_fd = 3, manage_gateway_fd = 5,
      status_gateway_fd = 6, sent = [], closed = [], uuid_count = 4\<rparr>"

abbreviation demo_env :: "(mem_kv, bytes list \<times> int \<times> int) exc_env" where
  "demo_env \<equiv> plain_env mem_spl (\<lambda>n. ascii ''u'')"

abbreviation mem_sets :: "mem_kv \<Rightarrow> int \<Rightarrow> bytes \<Rightarrow> bytes set" where
  "mem_sets \<equiv> (\<lambda>k db key. set (snd k db key))"

lemma demo_slots:
  "fdman_slot_get (g_slot demo_exc) 2 = Some (demo_info CLIENT_ROUTER ''a1'')"
  "fdman_slot_get (g_slot demo_exc) 4 = Some (demo_info CLIENT_ROUTER ''b2'')"
  "fdman_slot_get (g_slot demo_exc) 3 = Some (demo_info STREAM_ROUTER ''c3'')"
  "fdman_slot_get (g_slot demo_exc) 5 = Some (demo_info MANAGE_ROUTER ''d4'')"
  "info_type (demo_info ty u) = ty" "info_status (demo_info ty u) = 1" "info_uuid (demo_info ty u) = ascii u"
  by (simp_all add: demo_exc_def fdman_slot_get_def slot_at_def demo_info_def FD_CAPACITY_def)

lemma demo_ok: "exc_ok fst mem_sets demo_exc"
  by (simp add: exc_ok_def kv_typed_def tables_ok_def tables_of_def demo_exc_def)

lemma demo_host: "host_ok demo_exc" "0x7C \<notin> set (serv_host demo_exc)"
  by (simp_all add: host_ok_def demo_exc_def ascii_def printable_def)

lemma demo_uuids: "uuid_ok (ascii ''a1'')" "uuid_ok (ascii ''b2'')"
  by (simp_all add: uuid_ok_def ascii_def printable_def)

definition demo_cid :: "int \<Rightarrow> bytes" where
  "demo_cid fd = cid_text (ascii ''a1'') (serv_host demo_exc) (serv_port demo_exc) fd"

lemma demo_cid_ok:
  "name_ok (demo_cid 2)" "cid_is_ours demo_exc (demo_cid 2) = Some True" "cid_fd (demo_cid 2) = Some 2"
  using cid_text_printable [OF demo_host(1) demo_uuids(1), of 2] cid_text_ours [OF demo_host(1) demo_uuids(1), of 2]
  by (simp_all add: demo_cid_def name_ok_def int_range_def)

lemma demo_words: "word_ok (ascii ''bob'')" "list_all word_ok (split_on 0x2C (ascii ''red,blue''))" "name_ok (ascii ''red'')"
  by (simp_all add: word_ok_def name_ok_def ascii_def printable_def)

lemma plain_message_fields [simp]: "plain_frames (plain_message fs fd) = fs" "m_fd (plain_message fs fd) = fd"
  by (simp_all add: plain_frames_def plain_message_def)

text \<open>The user bob is bound to client 2, then to client 4.\<close>

definition demo_bind :: "int \<Rightarrow> (mem_kv, bytes list \<times> int \<times> int) exc_state \<Rightarrow> (mem_kv, bytes list \<times> int \<times> int) exc_state" where
  "demo_bind fd s = s\<lparr>kv := snd (exc_cidmap_set_uid mem_spl (dbs s)
     (snd (exc_uidmap_set_cid mem_spl (dbs s) (kv s) (ascii ''bob'') (print_int fd))) (print_int fd) (ascii ''bob''))\<rparr>"

lemma demo_bind_ok:
  assumes "exc_ok fst mem_sets s" "int_range fd"
  shows "exc_ok fst mem_sets (demo_bind fd s) \<and> g_slot (demo_bind fd s) = g_slot s \<and>
    exc_tables fst mem_sets (demo_bind fd s) = spec_bind (print_int fd) (ascii ''bob'') (exc_tables fst mem_sets s)"
proof -
  have "word_ok (print_int fd)" using fd_text_word [OF fd_text_print [OF assms(2)]] .
  then show ?thesis
    using mem_kv.bind_refines [OF mem_kv.exc_okD(1) [OF assms(1)] _ demo_words(1) refl]
      spec_bind_ok [OF mem_kv.exc_okD(2) [OF assms(1)] fd_text_print [OF assms(2)] demo_words(1)]
    by (simp add: exc_ok_def demo_bind_def)
qed

section \<open>Properties\<close>

text \<open>C13: the identifier the exchange puts in front of a client's message brings the reply back
  to that client: the gateway receives the frames of the client behind \<open>upstream\<close> and the
  identifier, and a reply addressed to that identifier is sent to the client's descriptor with
  exactly the remaining frames.
\<close>

theorem exc_reply_reaches_sender:
  assumes "comm_lib E frames" "host_ok s"
    and "fdman_slot_get (g_slot s) (m_fd m) = Some des" "info_type des = CLIENT_ROUTER"
    and "uuid_ok (info_uuid des)" "int_range (m_fd m)" "find_best_gateway s > 0"
    and "fdman_slot_get (g_slot s) (m_fd r) = Some gw" "info_type gw = STREAM_ROUTER"
  shows "\<exists>cid m1. exc_message_dispatch E s m = Some (commapi_send m1 s) \<and>
    m_fd m1 = find_best_gateway s \<and> frames m1 = ascii ''upstream'' # cid # frames m \<and>
    (frames r = ascii ''downstream'' # ascii ''cid'' # cid # body \<longrightarrow>
      (\<exists>r1. exc_message_dispatch E (commapi_send m1 s) r = Some (commapi_send r1 (commapi_send m1 s)) \<and>
        m_fd r1 = m_fd m \<and> frames r1 = body))"
proof -
  define cid where "cid = cid_text (info_uuid des) (serv_host s) (serv_port s) (m_fd m)"
  have cid: "get_cid s (m_fd m) = Some cid" "list_all printable cid \<and> length cid < 128"
    unfolding cid_def using get_cid_text [OF assms(2,3,5,6)] cid_text_printable [OF assms(2,5,6)] by auto
  obtain m1 where m1: "exc_message_dispatch E s m = Some (commapi_send m1 s)"
    "m_fd m1 = find_best_gateway s" "frames m1 = ascii ''upstream'' # cid # frames m"
    by (rule comm_lib.client_message_sent [OF assms(1,3,4) cid(1) assms(7)])
  define t where "t = commapi_send m1 s"
  have t: "host_ok t" "serv_host t = serv_host s" "serv_port t = serv_port s" "g_slot t = g_slot s"
    using assms(2) by (simp_all add: t_def commapi_send_def host_ok_def)
  have "cid_is_ours t cid = Some True" "cid_fd cid = Some (m_fd m)"
    using cid_text_ours [OF t(1) assms(5,6)] by (simp_all add: t cid_def)
  then have "\<exists>r1. exc_message_dispatch E t r = Some (commapi_send r1 t) \<and> m_fd r1 = m_fd m \<and> frames r1 = body"
    if "frames r = ascii ''downstream'' # ascii ''cid'' # cid # body"
    using comm_lib.cid_message_sent [OF assms(1) _ assms(9) that, of t] assms(8) cid(2) t(4) by metis
  then show ?thesis using m1 unfolding t_def by blast
qed

text \<open>C17: binding a user. After the management message \<open>uidmap\<close> for an identifier of this server the
  tables are those of the specification, and a message addressed to the user is sent to the
  client behind the identifier, with exactly the frames behind the route.
\<close>

theorem exc_user_route:
  assumes "exchange E frames strs sets" "exc_ok strs sets s"
    and "fdman_slot_get (g_slot s) (m_fd b) = Some mg" "info_type mg = MANAGE_ROUTER"
    and "frames b = [ascii ''manage'', ascii ''uidmap'', cid, uid]"
    and "name_ok cid" "cid_is_ours s cid = Some True" "cid_fd cid = Some fd" "fd \<noteq> -1" "word_ok uid"
    and "fdman_slot_get (g_slot s) (m_fd m) = Some gw" "info_type gw = STREAM_ROUTER"
    and "frames m = ascii ''downstream'' # ascii ''uid'' # uid # body"
  shows "\<exists>s1 s2 m1. exc_message_dispatch E s b = Some s1 \<and>
    exc_tables strs sets s1 = spec_bind (print_int fd) uid (exc_tables strs sets s) \<and>
    exc_message_dispatch E s1 m = Some s2 \<and> sent s2 = sent s @ [m1] \<and> m_fd m1 = fd \<and> frames m1 = body"
proof -
  have lib: "comm_lib E frames" "libkv (kv_cmd E) strs sets" using assms(1) by (simp_all add: exchange_def)
  have n: "name_frame E b 2 = Some cid" "name_frame E b 3 = Some uid"
    using comm_lib.name_frame_word [OF lib(1), of 2 b] comm_lib.name_frame_word [OF lib(1), of 3 b] assms(5,6,10)
    by (simp_all add: name_ok_def word_ok_def)
  obtain s1 where s1: "handle_uid_map E s b = Some (0, s1)" "exc_ok strs sets s1"
    "exc_tables strs sets s1 = spec_bind (print_int fd) uid (exc_tables strs sets s)"
    by (rule libkv.bind_message_refines [OF lib(2) refl assms(2) n(1) assms(7,8) n(2) assms(10)])
  have same: "g_slot s1 = g_slot s" "sent s1 = sent s" using map_message_keeps(1) [OF s1(1)] by auto
  have d: "exc_message_dispatch E s b = Some s1"
    using exchange.manage_frames(1) [OF assms(1,3,4,5) refl] s1(1) by simp
  have u: "user_cid (exc_tables strs sets s1) uid = Some (print_int fd)" by (simp add: s1(3) spec_bind_def)
  show ?thesis
    using exchange.user_message_sent [OF assms(1) s1(2) _ assms(12,13) word_ok_name [OF assms(10)] u cid_fd_range [OF assms(8)] assms(9)]
      assms(11) d s1(3) same by metis
qed

text \<open>C14: the group tables under every input. Whatever messages the clients send, and as long as
  the gateways send printable names and no empty ones, the two group tables mirror each
  other, strings and sets stay under keys of their own kind, and every name in a table is
  one the exchange can read back.
\<close>

theorem exc_tables_stay_ok:
  assumes "exchange E frames strs sets" "exc_run E s t" "exc_ok strs sets s"
  shows "kv_typed strs sets (kv t) \<and> tables_ok (exc_tables strs sets t)"
  using libkv.run_ok [OF _ refl assms(2,3)] assms(1) by (simp add: exchange_def exc_ok_def)

text \<open>C18: group messages. Every member of the group receives exactly one copy, nobody else
  receives one, and each copy has exactly the frames behind the route; the tables do not change.
\<close>

theorem exc_group_multicast:
  assumes "exchange E frames strs sets" "exc_ok strs sets s"
    and "fdman_slot_get (g_slot s) (m_fd m) = Some gw" "info_type gw = STREAM_ROUTER"
    and "frames m = ascii ''downstream'' # ascii ''gid'' # gid # body" "name_ok gid"
  shows "\<exists>s' ms. exc_message_dispatch E s m = Some s' \<and> sent s' = sent s @ ms \<and>
    distinct (map m_fd ms) \<and> (\<lambda>x. print_int (m_fd x)) ` set ms = group_members (exc_tables strs sets s) gid \<and>
    (\<forall>x \<in> set ms. frames x = body) \<and> exc_tables strs sets s' = exc_tables strs sets s"
  using exchange.group_message_sent [OF assms] .

text \<open>C15: joining groups and closing refine the specification. The management message \<open>gidmap\<close> adds
  the client to every group of its list, and a client that closes leaves all its groups,
  and is no longer the client of the user it served.
\<close>

theorem exc_join_and_close_refine:
  assumes "exchange E frames strs sets" "exc_ok strs sets s"
    and "fdman_slot_get (g_slot s) (m_fd m) = Some mg" "info_type mg = MANAGE_ROUTER"
    and "frames m = [ascii ''manage'', ascii ''gidmap'', cid, gids]" "list_all word_ok (split_on 0x2C gids)"
    and "name_ok cid" "cid_is_ours s cid = Some True" "cid_fd cid = Some fd"
    and "fdman_slot_get (g_slot s) fd = Some des" "info_status des = 1"
  shows "\<exists>s1 s2. exc_message_dispatch E s m = Some s1 \<and>
    exc_tables strs sets s1 = fold (spec_join (print_int fd)) (split_on 0x2C gids) (exc_tables strs sets s) \<and>
    exc_event_notify_from_client E s1 fd STEP_STOP = Some s2 \<and>
    exc_tables strs sets s2 = spec_erase (print_int fd) (exc_tables strs sets s1) \<and>
    fdman_slot_get (g_slot s2) fd = Some fd_info_zero"
proof -
  have lib: "comm_lib E frames" "libkv (kv_cmd E) strs sets" using assms(1) by (simp_all add: exchange_def)
  have n: "name_frame E m 2 = Some cid" "frame_get E m 3 = Some gids"
    using comm_lib.name_frame_word [OF lib(1), of 2 m] comm_lib.get_frame [OF lib(1), of m 3] assms(5,7)
    by (simp_all add: name_ok_def)
  obtain s1 where s1: "handle_gid_map E s m = Some (0, s1)" "exc_ok strs sets s1"
    "exc_tables strs sets s1 = fold (spec_join (print_int fd)) (split_on 0x2C gids) (exc_tables strs sets s)"
    by (rule libkv.join_message_refines [OF lib(2) refl assms(2) n(1) assms(8,9) n(2) assms(6)])
  have d: "exc_message_dispatch E s m = Some s1"
    using exchange.manage_frames(2) [OF assms(1,3,4,5) refl] s1(1) by simp
  have sl: "fdman_slot_get (g_slot s1) fd = Some des" using map_message_keeps(2) [OF s1(1)] assms(10) by simp
  obtain g' k' s2 where s2: "fdman_slot_del (g_slot s1) fd = Some g'"
    "exc_event_notify_from_client E s1 fd STEP_STOP = Some s2" "g_slot s2 = g'"
    "exc_tables strs sets s2 = spec_erase (print_int fd) (exc_tables strs sets s1)"
    by (rule exchange.client_stop_refines [OF assms(1) s1(2) cid_fd_range [OF assms(9)] sl assms(11)])
  then show ?thesis using d s1(3) slot_del_effect(1) [OF s2(1)] by blast
qed

text \<open>a user who moves to a second client is lost when the first one closes. After both bindings
  the second client serves the user; closing the first one removes the user's entry
  nevertheless, although the second client is still bound, and messages to the user are dropped.
\<close>

lemma exc_rebound_user_lost:
  assumes "exchange E frames strs sets" "exc_ok strs sets s"
    and "exc_tables strs sets s = spec_bind (print_int b) uid (spec_bind (print_int a) uid t)"
    and "a \<noteq> b" "int_range a" "int_range b" "word_ok uid"
    and "fdman_slot_get (g_slot s) a = Some des" "info_status des = 1"
    and "fdman_slot_get (g_slot s) (m_fd m) = Some gw" "info_type gw = STREAM_ROUTER" "m_fd m \<noteq> a"
    and "frames m = ascii ''downstream'' # ascii ''uid'' # uid # body"
  shows "user_cid (exc_tables strs sets s) uid = Some (print_int b) \<and>
    (\<exists>s1 s2. exc_event_notify_from_client E s a STEP_STOP = Some s1 \<and>
      client_uid (exc_tables strs sets s1) (print_int b) = Some uid \<and>
      exc_message_dispatch E s1 m = Some s2 \<and> sent s2 = sent s1)"
proof -
  have ne: "print_int a \<noteq> print_int b" using print_int_inj assms(4-6) by blast
  obtain g' k' s1 where s1: "fdman_slot_del (g_slot s) a = Some g'"
    "exc_event_notify_from_client E s a STEP_STOP = Some s1" "g_slot s1 = g'" "exc_ok strs sets s1"
    "exc_tables strs sets s1 = spec_erase (print_int a) (exc_tables strs sets s)"
    by (rule exchange.client_stop_refines [OF assms(1,2,5,8,9)])
  have u: "user_cid (exc_tables strs sets s1) uid = None" "client_uid (exc_tables strs sets s1) (print_int b) = Some uid"
    using ne by (simp_all add: s1(5) assms(3) spec_bind_def spec_erase_def)
  have "fdman_slot_get (g_slot s1) (m_fd m) = Some gw"
    using slot_del_effect(3) [OF s1(1) assms(12)] s1(3) assms(10) by simp
  then show ?thesis
    using exchange.user_message_dropped [OF assms(1) s1(4) _ assms(11,13) word_ok_name [OF assms(7)] u(1)] s1(2) u(2) assms(3)
    by (simp add: spec_bind_def)
qed

text \<open>a closed client in the status report. The slot is given back before the report is made, so
  the report carries an identifier without uuid which the exchange itself cannot take apart (it
  compares a null pointer); and a second close event of the descriptor fails an assertion.
\<close>

lemma exc_closed_status_unreadable:
  assumes "exchange E frames strs sets" "exc_ok strs sets s" "host_ok s" "0x7C \<notin> set (serv_host s)"
    and "int_range fd" "fdman_slot_get (g_slot s) fd = Some des" "info_status des = 1" "status_gateway_fd s > 0"
  shows "\<exists>s' m cid. exc_event_notify_from_client E s fd STEP_STOP = Some s' \<and> sent s' = sent s @ [m] \<and>
    frames m = ascii ''status'' # ascii ''closed'' # cid # frames (msg_make E) \<and>
    cid_is_ours s' cid = None \<and> exc_event_notify_from_client E s' fd STEP_STOP = None"
proof -
  obtain g' k' s' where s': "fdman_slot_del (g_slot s) fd = Some g'"
    "send_status_msg E (s\<lparr>g_slot := g', kv := k'\<rparr>) fd STEP_STOP = Some s'"
    "exc_event_notify_from_client E s fd STEP_STOP = Some s'" "g_slot s' = g'"
    by (rule exchange.client_stop_refines [OF assms(1,2,5,6,7)])
  define t where "t = s\<lparr>g_slot := g', kv := k'\<rparr>"
  have t: "host_ok t" "serv_host t = serv_host s" "fdman_slot_get (g_slot t) fd = Some fd_info_zero" "sent t = sent s"
    "status_gateway_fd t > 0"
    using assms(3,8) slot_del_effect(1) [OF s'(1)] by (simp_all add: t_def host_ok_def)
  obtain cid where cid: "get_cid t fd = Some cid" "cid_is_ours s' cid = None"
    using empty_uuid_cid [OF t(1) _ t(3) assms(5)] assms(4) t(2) by metis
  obtain m where m: "s' = commapi_send m t"
    "frames m = ascii ''status'' # ascii ''closed'' # cid # frames (msg_make E)"
    by (rule exchange.closed_status_frames [OF assms(1) s'(2) [folded t_def] t(5) cid(1)])
  have "exc_event_notify_from_client E s' fd STEP_STOP = None"
    using slot_del_effect(2) [OF s'(1)] s'(4) by (simp add: exc_event_notify_from_client_def)
  moreover have "sent s' = sent s @ [m]" using m(1) t(4) by (simp add: commapi_send_def)
  ultimately show ?thesis using s'(3) m(2) cid(2) by blast
qed

section \<open>The properties on the small exchange\<close>

lemma exc_reply_reaches_sender_witness:
  "\<exists>cid m1. exc_message_dispatch demo_env demo_exc (plain_message [ascii ''hello''] 2) = Some (commapi_send m1 demo_exc) \<and>
    m_fd m1 = find_best_gateway demo_exc \<and>
    plain_frames m1 = ascii ''upstream'' # cid # plain_frames (plain_message [ascii ''hello''] 2) \<and>
    (plain_frames (plain_message [ascii ''downstream'', ascii ''cid'', demo_cid 2, ascii ''hi''] 3) =
       ascii ''downstream'' # ascii ''cid'' # cid # [ascii ''hi''] \<longrightarrow>
      (\<exists>r1. exc_message_dispatch demo_env (commapi_send m1 demo_exc)
          (plain_message [ascii ''downstream'', ascii ''cid'', demo_cid 2, ascii ''hi''] 3) =
          Some (commapi_send r1 (commapi_send m1 demo_exc)) \<and>
        m_fd r1 = m_fd (plain_message [ascii ''hello''] 2) \<and> plain_frames r1 = [ascii ''hi'']))"
  by (rule exc_reply_reaches_sender [OF plain.comm_lib_axioms demo_host(1)])
    ((simp_all add: demo_slots demo_uuids int_range_def find_best_gateway_def)+, simp add: demo_exc_def)

lemma exc_user_route_witness:
  "\<exists>s1 s2 m1. exc_message_dispatch demo_env demo_exc
      (plain_message [ascii ''manage'', ascii ''uidmap'', demo_cid 2, ascii ''bob''] 5) = Some s1 \<and>
    exc_tables fst mem_sets s1 = spec_bind (print_int 2) (ascii ''bob'') (exc_tables fst mem_sets demo_exc) \<and>
    exc_message_dispatch demo_env s1 (plain_message [ascii ''downstream'', ascii ''uid'', ascii ''bob'', ascii ''hi''] 3) = Some s2 \<and>
    sent s2 = sent demo_exc @ [m1] \<and> m_fd m1 = 2 \<and> plain_frames m1 = [ascii ''hi'']"
  by (rule exc_user_route [OF plain_exchange.exchange_axioms demo_ok _ _ _ demo_cid_ok _ demo_words(1)])
    (simp_all add: demo_slots)+

lemma exc_tables_stay_ok_witness:
  "\<exists>t. exc_react demo_env demo_exc (From_Client 7 STEP_INIT) = Some t \<and>
    kv_typed fst mem_sets (kv t) \<and> tables_ok (exc_tables fst mem_sets t)"
proof -
  obtain t where t: "exc_react demo_env demo_exc (From_Client 7 STEP_INIT) = Some t"
    by (simp add: exc_react_def exc_event_notify_from_client_def occupy_slot_def fdman_slot_set_def slot_put_def
      send_status_msg_def get_cid_def fdman_slot_get_def slot_at_def Let_def demo_exc_def FD_CAPACITY_def)
  then have "exc_run demo_env demo_exc t"
    by (rule exc_run_step [OF exc_run_start, rotated]) (simp add: input_ok_def int_range_def)
  then show ?thesis using exc_tables_stay_ok [OF plain_exchange.exchange_axioms _ demo_ok] t by blast
qed

lemma exc_group_multicast_witness:
  "\<exists>s s' ms. group_members (exc_tables fst mem_sets s) (ascii ''red'') = {print_int 2} \<and>
    exc_message_dispatch demo_env s
      (plain_message [ascii ''downstream'', ascii ''gid'', ascii ''red'', ascii ''hi''] 3) = Some s' \<and>
    sent s' = sent s @ ms \<and> distinct (map m_fd ms) \<and>
    (\<lambda>x. print_int (m_fd x)) ` set ms = group_members (exc_tables fst mem_sets s) (ascii ''red'') \<and>
    (\<forall>x \<in> set ms. plain_frames x = [ascii ''hi'']) \<and> exc_tables fst mem_sets s' = exc_tables fst mem_sets s"
proof -
  have w: "fd_text (print_int 2)" "word_ok (ascii ''red'')"
    using fd_text_print [of 2] demo_words(3) by (simp_all add: int_range_def word_ok_def ascii_def)
  obtain k' where k': "kv_typed fst mem_sets k'"
    "tables_of fst mem_sets (dbs demo_exc) k' = spec_join (print_int 2) (ascii ''red'') (exc_tables fst mem_sets demo_exc)"
    by (rule mem_kv.join_refines [OF mem_kv.exc_okD(1) [OF demo_ok] fd_text_word [OF w(1)] w(2)])
  define s where "s = demo_exc\<lparr>kv := k'\<rparr>"
  have s: "exc_ok fst mem_sets s"
    using k' spec_join_ok [OF mem_kv.exc_okD(2) [OF demo_ok] w] by (simp add: s_def exc_ok_def)
  have "group_members (exc_tables fst mem_sets s) (ascii ''red'') = {print_int 2}"
    by (simp add: s_def k'(2)) (simp add: spec_join_def tables_of_def demo_exc_def)
  moreover have "\<exists>s' ms. exc_message_dispatch demo_env s
      (plain_message [ascii ''downstream'', ascii ''gid'', ascii ''red'', ascii ''hi''] 3) = Some s' \<and>
    sent s' = sent s @ ms \<and> distinct (map m_fd ms) \<and>
    (\<lambda>x. print_int (m_fd x)) ` set ms = group_members (exc_tables fst mem_sets s) (ascii ''red'') \<and>
    (\<forall>x \<in> set ms. plain_frames x = [ascii ''hi'']) \<and> exc_tables fst mem_sets s' = exc_tables fst mem_sets s"
    by (rule exc_group_multicast [OF plain_exchange.exchange_axioms s _ _ _ demo_words(3)])
      (simp_all add: s_def demo_slots)+
  ultimately show ?thesis by blast
qed

lemma exc_join_and_close_refine_witness:
  "\<exists>s1 s2. exc_message_dispatch demo_env demo_exc
      (plain_message [ascii ''manage'', ascii ''gidmap'', demo_cid 2, ascii ''red,blue''] 5) = Some s1 \<and>
    exc_tables fst mem_sets s1 =
      fold (spec_join (print_int 2)) (split_on 0x2C (ascii ''red,blue'')) (exc_tables fst mem_sets demo_exc) \<and>
    exc_event_notify_from_client demo_env s1 2 STEP_STOP = Some s2 \<and>
    exc_tables fst mem_sets s2 = spec_erase (print_int 2) (exc_tables fst mem_sets s1) \<and>
    fdman_slot_get (g_slot s2) 2 = Some fd_info_zero"
  by (rule exc_join_and_close_refine [OF plain_exchange.exchange_axioms demo_ok _ _ _ demo_words(2) demo_cid_ok])
    (simp_all add: demo_slots)+

lemma exc_rebound_user_lost_witness:
  "user_cid (exc_tables fst mem_sets (demo_bind 4 (demo_bind 2 demo_exc))) (ascii ''bob'') = Some (print_int 4) \<and>
    (\<exists>s1 s2. exc_event_notify_from_client demo_env (demo_bind 4 (demo_bind 2 demo_exc)) 2 STEP_STOP = Some s1 \<and>
      client_uid (exc_tables fst mem_sets s1) (print_int 4) = Some (ascii ''bob'') \<and>
      exc_message_dispatch demo_env s1 (plain_message [ascii ''downstream'', ascii ''uid'', ascii ''bob'', ascii ''hi''] 3) = Some s2 \<and>
      sent s2 = sent s1)"
proof -
  have r: "int_range 2" "int_range 4" by (simp_all add: int_range_def)
  note b = demo_bind_ok [OF demo_ok r(1)]
  note c = demo_bind_ok [OF conjunct1 [OF b] r(2)]
  show ?thesis
    by (rule exc_rebound_user_lost [OF plain_exchange.exchange_axioms conjunct1 [OF c] _ _ r demo_words(1)])
      (simp_all add: b c demo_slots)+
qed

lemma exc_closed_status_unreadable_witness:
  "\<exists>s' m cid. exc_event_notify_from_client demo_env demo_exc 2 STEP_STOP = Some s' \<and> sent s' = sent demo_exc @ [m] \<and>
    plain_frames m = ascii ''status'' # ascii ''closed'' # cid # plain_frames (msg_make demo_env) \<and>
    cid_is_ours s' cid = None \<and> exc_event_notify_from_client demo_env s' 2 STEP_STOP = None"
  by (rule exc_closed_status_unreadable [OF plain_exchange.exchange_axioms demo_ok demo_host _ demo_slots(1)])
    (simp_all add: demo_slots int_range_def, simp add: demo_exc_def)

end
