(* ===== verification/Gw_Gateways.thy ===== *)
theory Gw_Gateways
  imports Exc_Server
begin

unbundle bit_operations_syntax

text \<open>
  The three gateways between the exchanges and the application servers
  (\<^verbatim>\<open>programs/IMX/openChat/gateway\<close>): the table of sockets (\<^verbatim>\<open>manage_skts.c\<close>), the management gateway
  that hands every message to all exchanges, the stream gateway that does the same downstream
  and picks one application server upstream, and the status gateway.

  A table is an array of 32-bit integers. Each of its operations holds the read-write lock
  from its first to its last statement and is one step here. The communication library is
  the parameter of \<open>Exc_Server\<close>; the outcome of \<^verbatim>\<open>commapi_send\<close> is the argument \<open>rc\<close>, which may depend
  on the number of messages sent before. \<^term>\<open>None\<close> is an abort, a failed assertion or an access outside
  the array.
\<close>

section \<open>The socket table\<close>

definition MAX_MANAGE_SKTS :: nat where "MAX_MANAGE_SKTS = 10240"

record manage_skts =
  skts :: "nat \<Rightarrow> u32"
  used :: nat

definition manage_skts_init :: manage_skts where
  "manage_skts_init = \<lparr>skts = (\<lambda>_. 0), used = 0\<rparr>"

text \<open>The array after \<^verbatim>\<open>memcpy(&skts[i], &skts[i + 1], n)\<close>, where \<open>n\<close> counts bytes. The ranges are four bytes
  apart: with more than four bytes they overlap, which is undefined.\<close>

definition memcpy_down :: "(nat \<Rightarrow> u32) \<Rightarrow> nat \<Rightarrow> nat \<Rightarrow> (nat \<Rightarrow> u32) option" where
  "memcpy_down a i n = do {
     asserting (n \<le> 4);
     Some (a(i := of_le (take n (le_bytes 4 (a (i + 1))) @ drop n (le_bytes 4 (a i))))) }"

text \<open>The test admits a full table, whose next element is behind the array.\<close>

definition manage_skts_add :: "manage_skts \<Rightarrow> int \<Rightarrow> manage_skts option" where
  "manage_skts_add mng sockfd = do {
     asserting (\<not> used mng > MAX_MANAGE_SKTS);
     asserting (used mng < MAX_MANAGE_SKTS);
     Some (mng\<lparr>skts := (skts mng)(used mng := of_int sockfd), used := used mng + 1\<rparr>) }"

definition remove_at :: "manage_skts \<Rightarrow> nat \<Rightarrow> manage_skts option" where
  "remove_at mng i = do {
     a \<leftarrow> memcpy_down (skts mng) i (used mng - i - 1);
     Some (mng\<lparr>skts := a, used := used mng - 1\<rparr>) }"

definition manage_skts_del :: "manage_skts \<Rightarrow> int \<Rightarrow> manage_skts option" where
  "manage_skts_del mng sockfd =
     (case find (\<lambda>i. skts mng i = of_int sockfd) [0..<used mng] of
        None \<Rightarrow> Some mng
      | Some i \<Rightarrow> remove_at mng i)"

text \<open>A callback takes a socket, its index and the user data, and says whether to go on (or to
  discard).\<close>

type_synonym 'u skt_fcb = "int \<Rightarrow> nat \<Rightarrow> 'u \<Rightarrow> bool \<times> 'u"

function travel_loop ::
  "'u skt_fcb option \<Rightarrow> 'u skt_fcb option \<Rightarrow> manage_skts \<Rightarrow> 'u \<Rightarrow> nat \<Rightarrow> nat \<Rightarrow> (nat \<times> manage_skts \<times> 'u) option" where
  "travel_loop lfcb dfcb mng usr i j =
     (if i < used mng then
        (case (case lfcb of None \<Rightarrow> (True, usr) | Some f \<Rightarrow> f (sint (skts mng i)) i usr) of (inherit, usr) \<Rightarrow>
          if \<not> inherit then Some (j + 1, mng, usr)
          else (case (case dfcb of None \<Rightarrow> (False, usr) | Some f \<Rightarrow> f (sint (skts mng i)) i usr) of (discard, usr) \<Rightarrow>
            if discard then (case remove_at mng i of None \<Rightarrow> None | Some mng \<Rightarrow> travel_loop lfcb dfcb mng usr i (j + 1))
            else travel_loop lfcb dfcb mng usr (i + 1) (j + 1)))
      else Some (j, mng, usr))"
  by pat_completeness auto

termination
  by (relation "measure (\<lambda>(lf, df, mng, usr, i, j). used mng - i)") (auto simp: remove_at_def bind_eq_Some_conv)

declare travel_loop.simps [simp del]

definition manage_skts_travel ::
  "manage_skts \<Rightarrow> 'u skt_fcb option \<Rightarrow> 'u skt_fcb option \<Rightarrow> 'u \<Rightarrow> (nat \<times> manage_skts \<times> 'u) option" where
  "manage_skts_travel mng lfcb dfcb usr = travel_loop lfcb dfcb mng usr 0 0"

section \<open>One side of a gateway\<close>

text \<open>The sockets of a communication context, the messages handed to it and the sockets closed.\<close>

record 'x gw_side =
  side_skts :: manage_skts
  side_sent :: "'x comm_message list"
  side_closed :: "int list"

definition side_init :: "'x gw_side" where
  "side_init = \<lparr>side_skts = manage_skts_init, side_sent = [], side_closed = []\<rparr>"

definition wrap_send :: "(nat \<Rightarrow> 'x comm_message \<Rightarrow> int) \<Rightarrow> 'x comm_message \<Rightarrow> 'x gw_side \<Rightarrow> int \<times> 'x gw_side" where
  "wrap_send rc m g = (rc (length (side_sent g)) m, g\<lparr>side_sent := side_sent g @ [m]\<rparr>)"

text \<open>The callbacks of the sides that keep a table, and of those that do not.\<close>

definition tracked_cb :: "'x gw_side \<Rightarrow> int \<Rightarrow> step_code \<Rightarrow> 'x gw_side option" where
  "tracked_cb g socket step = (case step of
     STEP_INIT \<Rightarrow> map_option (\<lambda>t. g\<lparr>side_skts := t\<rparr>) (manage_skts_add (side_skts g) socket)
   | STEP_ERRO \<Rightarrow> Some (g\<lparr>side_closed := side_closed g @ [socket]\<rparr>)
   | STEP_STOP \<Rightarrow> map_option (\<lambda>t. g\<lparr>side_skts := t\<rparr>) (manage_skts_del (side_skts g) socket)
   | _ \<Rightarrow> Some g)"

definition untracked_cb :: "'x gw_side \<Rightarrow> int \<Rightarrow> step_code \<Rightarrow> 'x gw_side" where
  "untracked_cb g socket step =
     (if step = STEP_ERRO then g\<lparr>side_closed := side_closed g @ [socket]\<rparr> else g)"

definition exchange_node_cb :: "'x gw_side \<Rightarrow> int \<Rightarrow> step_code \<Rightarrow> 'x gw_side option" where
  "exchange_node_cb = tracked_cb"

definition core_exchange_node_cb :: "'x gw_side \<Rightarrow> int \<Rightarrow> step_code \<Rightarrow> 'x gw_side option" where
  "core_exchange_node_cb = tracked_cb"

definition stream_gateway_cb :: "'x gw_side \<Rightarrow> int \<Rightarrow> step_code \<Rightarrow> 'x gw_side option" where
  "stream_gateway_cb = tracked_cb"

definition status_gateway_cb :: "'x gw_side \<Rightarrow> int \<Rightarrow> step_code \<Rightarrow> 'x gw_side option" where
  "status_gateway_cb = tracked_cb"

definition manage_gateway_cb :: "'x gw_side \<Rightarrow> int \<Rightarrow> step_code \<Rightarrow> 'x gw_side" where
  "manage_gateway_cb = untracked_cb"

definition event_notify_from_exchange :: "'x gw_side \<Rightarrow> int \<Rightarrow> step_code \<Rightarrow> 'x gw_side" where
  "event_notify_from_exchange = untracked_cb"

definition notify_usrinfoapi_cb :: "'x gw_side \<Rightarrow> int \<Rightarrow> step_code \<Rightarrow> 'x gw_side" where
  "notify_usrinfoapi_cb g socket step = g"

text \<open>Opening a side: whether the context was created, and what binding the socket returned.\<close>

definition wrap_init :: "bool \<Rightarrow> int \<Rightarrow> int option" where
  "wrap_init ctx bound = (if \<not> ctx then Some (-1) else do { asserting (bound \<noteq> -1); Some 0 })"

definition status_o_wrap_init :: "bool \<Rightarrow> int \<Rightarrow> int \<Rightarrow> (int \<times> int) option" where
  "status_o_wrap_init ctx bound api =
     (if \<not> ctx then Some (-1, 0)
      else do { asserting (bound \<noteq> -1); Some (if api \<le> 0 then -1 else 0, api) })"

section \<open>The gateways\<close>

definition do_msg_for_each_fcb ::
  "('k, 'x) exc_env \<Rightarrow> (nat \<Rightarrow> 'x comm_message \<Rightarrow> int) \<Rightarrow> ('x comm_message \<times> 'x gw_side) skt_fcb" where
  "do_msg_for_each_fcb E rc sockfd idx usr = (case usr of (m, g) \<Rightarrow>
     let m = msg_sets E m sockfd 0 (push_method E); (r, g) = wrap_send rc m g in (True, (m, g)))"

definition do_msg_for_best_fcb ::
  "('k, 'x) exc_env \<Rightarrow> (nat \<Rightarrow> 'x comm_message \<Rightarrow> int) \<Rightarrow> ('x comm_message \<times> 'x gw_side) skt_fcb" where
  "do_msg_for_best_fcb E rc sockfd idx usr = (case usr of (m, g) \<Rightarrow>
     let m = msg_sets E m sockfd 0 (push_method E); (r, g) = wrap_send rc m g in (r = -1, (m, g)))"

text \<open>Towards the exchanges: of the management and of the stream gateway.\<close>

definition gw_downstream_msg ::
  "('k, 'x) exc_env \<Rightarrow> (nat \<Rightarrow> 'x comm_message \<Rightarrow> int) \<Rightarrow> 'x gw_side \<Rightarrow> 'x comm_message \<Rightarrow> (nat \<times> 'x gw_side) option" where
  "gw_downstream_msg E rc g m = do {
     (cnt, t, m, g) \<leftarrow> manage_skts_travel (side_skts g) (Some (do_msg_for_each_fcb E rc)) None (m, g);
     Some (cnt, g) }"

text \<open>Towards the application servers: of the stream gateway, and of the status gateway, which
  also informs the user interface server.\<close>

definition gw_upstream_msg ::
  "('k, 'x) exc_env \<Rightarrow> (nat \<Rightarrow> 'x comm_message \<Rightarrow> int) \<Rightarrow> 'x gw_side \<Rightarrow> 'x comm_message \<Rightarrow> (nat \<times> 'x comm_message \<times> 'x gw_side) option" where
  "gw_upstream_msg E rc g m = do {
     (cnt, t, m, g) \<leftarrow> manage_skts_travel (side_skts g) (Some (do_msg_for_best_fcb E rc)) None (m, g);
     Some (cnt, m, g) }"

definition status_upstream_msg ::
  "('k, 'x) exc_env \<Rightarrow> (nat \<Rightarrow> 'x comm_message \<Rightarrow> int) \<Rightarrow> int \<Rightarrow> 'x gw_side \<Rightarrow> 'x comm_message \<Rightarrow> (nat \<times> 'x gw_side) option" where
  "status_upstream_msg E rc api_sfd g m = do {
     (cnt, m, g) \<leftarrow> gw_upstream_msg E rc g m;
     Some (cnt, snd (wrap_send rc (msg_sets E m api_sfd 0 (push_method E)) g)) }"

end
