(* ===== verification/Gw_Correct.thy ===== *)
theory Gw_Correct
  imports Exc_Correct Gw_Gateways
begin

unbundle bit_operations_syntax

text \<open>
  The gateways, and the gateways together with the exchanges: what a gateway sends to whom, that a
  message for a client identifier is delivered by exactly one exchange, and what the removal of
  a socket does to the table.
\<close>

section \<open>Walking over the table\<close>

definition live :: "manage_skts \<Rightarrow> int list" where
  "live t = map (\<lambda>i. sint (skts t i)) [0..<used t]"

lemma upt_step: "i < n \<Longrightarrow> [i..<n] = i # [Suc i..<n]"
  by (rule upt_conv_Cons)

context comm_lib
begin

lemma travel_each:
  "\<exists>ms m'. travel_loop (Some (do_msg_for_each_fcb E rc)) None t (m, g) i j =
      Some (j + (used t - i), t, (m', g\<lparr>side_sent := side_sent g @ ms\<rparr>)) \<and>
    map m_fd ms = map (\<lambda>i. sint (skts t i)) [i..<used t] \<and> (\<forall>x \<in> set ms. frames x = frames m)"
proof (induction "used t - i" arbitrary: i j m g)
  case 0
  then have "used t \<le> i" by simp
  moreover have "g\<lparr>side_sent := side_sent g @ []\<rparr> = g" by simp
  ultimately show ?case by (intro exI [of _ "[]"] exI [of _ m]) (subst travel_loop.simps, simp)
next
  case (Suc n)
  define m1 where "m1 = msg_sets E m (sint (skts t i)) 0 (push_method E)"
  define g1 where "g1 = g\<lparr>side_sent := side_sent g @ [m1]\<rparr>"
  have i: "i < used t" "n = used t - Suc i" using Suc.hyps(2) by simp_all
  obtain ms m' where ms: "travel_loop (Some (do_msg_for_each_fcb E rc)) None t (m1, g1) (Suc i) (Suc j) =
      Some (Suc j + (used t - Suc i), t, (m', g1\<lparr>side_sent := side_sent g1 @ ms\<rparr>))"
    "map m_fd ms = map (\<lambda>i. sint (skts t i)) [Suc i..<used t]" "\<forall>x \<in> set ms. frames x = frames m1"
    using Suc.hyps(1) [OF i(2)] by blast
  have "travel_loop (Some (do_msg_for_each_fcb E rc)) None t (m, g) i j =
      travel_loop (Some (do_msg_for_each_fcb E rc)) None t (m1, g1) (Suc i) (Suc j)"
    using i by (subst travel_loop.simps) (simp add: do_msg_for_each_fcb_def wrap_send_def Let_def m1_def g1_def)
  then show ?case using ms i set_message [of m "sint (skts t i)" 0 "push_method E"]
    by (intro exI [of _ "m1 # ms"] exI [of _ m']) (simp add: g1_def m1_def upt_step)
qed

lemma downstream_sends:
  obtains ms where "gw_downstream_msg E rc g m = Some (length (live (side_skts g)), g\<lparr>side_sent := side_sent g @ ms\<rparr>)"
    "map m_fd ms = live (side_skts g)" "\<forall>x \<in> set ms. frames x = frames m"
  using travel_each [of rc "side_skts g" m g 0 0] that
  by (auto simp: gw_downstream_msg_def manage_skts_travel_def live_def)

text \<open>The messages tried until one is accepted.\<close>

lemma travel_best:
  "\<exists>ms m'. travel_loop (Some (do_msg_for_best_fcb E rc)) None t (m, g) i j =
      Some (j + length ms, t, (m', g\<lparr>side_sent := side_sent g @ ms\<rparr>)) \<and>
    map m_fd ms = take (length ms) (map (\<lambda>i. sint (skts t i)) [i..<used t]) \<and> (\<forall>x \<in> set ms. frames x = frames m) \<and>
    frames m' = frames m \<and>
    (\<forall>k. Suc k < length ms \<longrightarrow> rc (length (side_sent g) + k) (ms ! k) = -1) \<and>
    (length ms = used t - i \<or> ms \<noteq> [] \<and> rc (length (side_sent g) + (length ms - 1)) (last ms) \<noteq> -1)"
proof (induction "used t - i" arbitrary: i j m g)
  case 0
  then have "used t \<le> i" by simp
  moreover have "g\<lparr>side_sent := side_sent g @ []\<rparr> = g" by simp
  ultimately show ?case by (intro exI [of _ "[]"] exI [of _ m]) (subst travel_loop.simps, simp)
next
  case (Suc n)
  define m1 where "m1 = msg_sets E m (sint (skts t i)) 0 (push_method E)"
  define g1 where "g1 = g\<lparr>side_sent := side_sent g @ [m1]\<rparr>"
  have i: "i < used t" "n = used t - Suc i" using Suc.hyps(2) by simp_all
  have m1: "frames m1 = frames m" "m_fd m1 = sint (skts t i)"
    using set_message [of m "sint (skts t i)" 0 "push_method E"] by (simp_all add: m1_def)
  show ?case
  proof (cases "rc (length (side_sent g)) m1 = -1")
    case False
    then have "travel_loop (Some (do_msg_for_best_fcb E rc)) None t (m, g) i j = Some (Suc j, t, (m1, g1))"
      using i by (subst travel_loop.simps) (simp add: do_msg_for_best_fcb_def wrap_send_def Let_def m1_def g1_def)
    then show ?thesis using i m1 False
      by (intro exI [of _ "[m1]"] exI [of _ m1]) (simp add: g1_def upt_step)
  next
    case True
    obtain ms m' where ms: "travel_loop (Some (do_msg_for_best_fcb E rc)) None t (m1, g1) (Suc i) (Suc j) =
        Some (Suc j + length ms, t, (m', g1\<lparr>side_sent := side_sent g1 @ ms\<rparr>))"
      "map m_fd ms = take (length ms) (map (\<lambda>i. sint (skts t i)) [Suc i..<used t])" "\<forall>x \<in> set ms. frames x = frames m1"
      "frames m' = frames m1"
      "\<forall>k. Suc k < length ms \<longrightarrow> rc (length (side_sent g1) + k) (ms ! k) = -1"
      "length ms = used t - Suc i \<or> ms \<noteq> [] \<and> rc (length (side_sent g1) + (length ms - 1)) (last ms) \<noteq> -1"
      using Suc.hyps(1) [OF i(2)] by blast
    have l: "length (side_sent g1) = Suc (length (side_sent g))" by (simp add: g1_def)
    have "travel_loop (Some (do_msg_for_best_fcb E rc)) None t (m, g) i j =
        travel_loop (Some (do_msg_for_best_fcb E rc)) None t (m1, g1) (Suc i) (Suc j)"
      using i True by (subst travel_loop.simps) (simp add: do_msg_for_best_fcb_def wrap_send_def Let_def m1_def g1_def)
    moreover have "rc (length (side_sent g) + k) ((m1 # ms) ! k) = -1" if "Suc k < length (m1 # ms)" for k
      using that ms(5) True l by (cases k) auto
    moreover have "length (m1 # ms) = used t - i \<or>
        rc (length (side_sent g) + (length (m1 # ms) - 1)) (last (m1 # ms)) \<noteq> -1"
      using ms(6) i l by (cases ms) auto
    ultimately show ?thesis using ms i m1
      by (intro exI [of _ "m1 # ms"] exI [of _ m']) (simp add: g1_def upt_step)
  qed
qed

end

section \<open>Taking a socket out of the table\<close>

text \<open>Of a small descriptor only the lowest byte counts.\<close>

lemma small_word:
  fixes w :: u32
  assumes "0 \<le> sint w" "sint w < 256"
  shows "take_bit 8 w = w"
proof -
  have "w = word_of_int (sint w)" by simp
  moreover have "take_bit 8 (word_of_int (sint w) :: u32) = word_of_int (take_bit 8 (sint w))"
    by (rule bit_word_eqI) (simp add: bit_simps)
  moreover have "take_bit 8 (sint w) = sint w" using assms by (simp add: take_bit_int_eq_self)
  ultimately show ?thesis by simp
qed

lemma le_small:
  fixes w :: u32
  assumes "take_bit 8 w = w"
  shows "le_bytes 4 w = [ucast w, 0, 0, 0]" "of_le [ucast w, 0, 0, 0] = w"
proof -
  have "drop_bit 8 w = 0" using assms by (metis drop_bit_take_bit diff_self_eq_0 take_bit_0)
  then show l: "le_bytes 4 w = [ucast w, 0, 0, 0]" by (simp add: numeral_eq_Suc)
  show "of_le [ucast w, 0, 0, 0] = w"
    using of_le_le_bytes [of 4 w] take_bit_word_eq_self [of 32 w] unfolding l by simp
qed

lemma memcpy_down_small:
  assumes "take_bit 8 (a i) = a i" "take_bit 8 (a (i + 1)) = a (i + 1)"
  shows "memcpy_down a i n = (if n \<le> 4 then Some (if n = 0 then a else a(i := a (i + 1))) else None)"
proof -
  consider "n = 0" | "n = 1" | "n = 2" | "n = 3" | "n = 4" | "4 < n" by linarith
  then show ?thesis using le_small [OF assms(1)] le_small [OF assms(2)]
    by cases (simp_all add: memcpy_down_def del: le_bytes.simps)
qed

lemma live_nth: "j < used t \<Longrightarrow> live t ! j = sint (skts t j)"
  by (simp add: live_def)

lemma length_live [simp]: "length (live t) = used t"
  by (simp add: live_def)

lemma find_upt:
  assumes "i < n" "P i" "\<And>k. k < i \<Longrightarrow> \<not> P k"
  shows "find P [0..<n] = Some i"
  using assms by (auto simp: find_Some_iff intro!: exI [of _ i])

lemma sint_of_fd: "int_range fd \<Longrightarrow> sint (of_int fd :: u32) = fd"
  by (simp add: int_range_def signed_of_int signed_take_bit_int_eq_self)

lemma del_is_remove:
  assumes "i < used t" "distinct (live t)" "live t ! i = fd"
  shows "manage_skts_del t fd = remove_at t i"
proof -
  have fd: "of_int fd = skts t i" using assms(1,3) by (auto simp: live_nth)
  have "skts t k \<noteq> skts t i" if "k < i" for k
    using that assms(1,2) nth_eq_iff_index_eq [of "live t" k i] by (auto simp: live_nth)
  then have "find (\<lambda>k. skts t k = of_int fd) [0..<used t] = Some i"
    using assms(1) fd by (intro find_upt) auto
  then show ?thesis by (simp add: manage_skts_del_def)
qed

lemma remove_at_live:
  assumes "\<forall>x \<in> set (live t). 0 \<le> x \<and> x < 256" "i < used t"
  shows "map_option live (remove_at t i) =
    (if used t - i - 1 \<le> 4 then Some (take (used t - 1) (if i + 1 < used t then (live t)[i := live t ! (i + 1)] else live t)) else None)"
proof (cases "i + 1 < used t")
  case True
  have s: "take_bit 8 (skts t k) = skts t k" if "k < used t" for k
    using assms(1) that by (intro small_word) (auto simp: live_def)
  have m: "memcpy_down (skts t) i (used t - i - 1) =
      (if used t - i - 1 \<le> 4 then Some ((skts t)(i := skts t (i + 1))) else None)"
    using memcpy_down_small [where a = "skts t" and i = i and n = "used t - i - 1"] s [of i] s [of "i + 1"] True by simp
  have "live (t\<lparr>skts := (skts t)(i := skts t (i + 1)), used := used t - 1\<rparr>) = take (used t - 1) ((live t)[i := live t ! (i + 1)])"
    using True by (intro nth_equalityI) (auto simp: live_def nth_list_update)
  then show ?thesis using True m by (simp add: remove_at_def)
next
  case False
  then have z: "used t - i - 1 = 0" using assms(2) by simp
  have "of_le (le_bytes 4 (skts t i)) = skts t i"
    using of_le_le_bytes [of 4 "skts t i"] take_bit_word_eq_self [of 32 "skts t i"] by simp
  then have "memcpy_down (skts t) i (used t - i - 1) = Some (skts t)" unfolding z
    by (simp add: memcpy_down_def del: le_bytes.simps)
  moreover have "live (t\<lparr>used := used t - 1\<rparr>) = take (used t - 1) (live t)" by (simp add: live_def take_map)
  ultimately show ?thesis using False z by (simp add: remove_at_def)
qed

lemma cid_text_not_ours:
  assumes "host_ok s" "host_ok t" "uuid_ok u" "int_range fd"
    and "(serv_host s, serv_port s) \<noteq> (serv_host t, serv_port t)"
  shows "cid_is_ours t (cid_text u (serv_host s) (serv_port s) fd) = Some False"
proof -
  have p: "0x2D \<notin> set (print_int (serv_port s))" "print_int (serv_port s) \<noteq> []"
    using print_nonneg_digits [of "serv_port s"] assms(1) digit_not_special by (auto simp: host_ok_def list_all_iff)
  have c: "cid_parts (cid_text u (serv_host s) (serv_port s) fd) =
      (Some u, Some (serv_host s), Some (print_int (serv_port s)), Some (print_int fd))"
    unfolding cid_text_def using assms p print_int_printable [OF assms(4)]
    by (intro cid_parts_roundtrip) (auto simp: host_ok_def uuid_ok_def)
  then show ?thesis
    using assms(1,5) atoi_print [of "serv_port s"] by (auto simp: cid_is_ours_def host_ok_def)
qed

context comm_lib
begin

lemma cid_message_ignored:
  assumes "fdman_slot_get (g_slot s) (m_fd m) = Some des" "info_type des = STREAM_ROUTER"
    and "frames m = ascii ''downstream'' # ascii ''cid'' # cid # body"
    and "list_all printable cid" "length cid < 128" "cid_is_ours s cid = Some False"
  shows "exc_message_dispatch E s m = Some s"
proof -
  have "name_frame E m 2 = Some cid" using name_frame_word [of 2 m] assms(3-5) by simp
  then have "handle_cid_message E s m = Some s" using assms(6) by (simp add: handle_cid_message_def)
  moreover have "frame_get E m 0 = Some (ascii ''downstream'')" "frame_get E m 1 = Some (ascii ''cid'')"
    using assms(3) by (simp_all add: get_frame)
  ultimately show ?thesis
    using assms(1,2) by (simp add: exc_message_dispatch_def dispatch_stream_def downstream_msg_def frame_is_def ascii_def)
qed

end

section \<open>Properties\<close>

text \<open>C12: one client, one copy, across the whole system. Let \<open>conn\<close> give the exchange at each socket of the
  exchanges that are connected to the stream gateway, no two of them with the same address, and let
  the socket table hold each of these sockets once and no others, as it does while exchanges connect
  (\<open>gw_connected_table\<close>; closing one can break it, \<open>gw_del_loses_socket\<close>). The gateway then hands a message for
  a client identifier to every connected exchange exactly once; the exchange the identifier was made
  by, taking it as coming from the stream gateway, sends it to its client with the frames behind the
  route, and all others send nothing.\<close>

theorem openchat_cid_once:
  assumes "comm_lib E frames"
    and "distinct (live (side_skts g))" "set (live (side_skts g)) = dom conn"
    and "\<forall>a s. conn a = Some s \<longrightarrow> host_ok s"
    and "\<forall>a b s t. conn a = Some s \<and> conn b = Some t \<and> (serv_host s, serv_port s) = (serv_host t, serv_port t) \<longrightarrow> a = b"
    and "conn sk = Some e" "uuid_ok u" "int_range fd"
    and "cid = cid_text u (serv_host e) (serv_port e) fd"
    and "frames m = ascii ''downstream'' # ascii ''cid'' # cid # body"
  shows "\<exists>ms. gw_downstream_msg E rc g m = Some (length ms, g\<lparr>side_sent := side_sent g @ ms\<rparr>) \<and>
    distinct (map m_fd ms) \<and> set (map m_fd ms) = dom conn \<and>
    (\<forall>x \<in> set ms. \<forall>s r des. conn (m_fd x) = Some s \<and> frames r = frames x \<and> fdman_slot_get (g_slot s) (m_fd r) = Some des \<and>
        info_type des = STREAM_ROUTER \<longrightarrow>
      (if m_fd x = sk then \<exists>y. exc_message_dispatch E s r = Some (commapi_send y s) \<and> m_fd y = fd \<and> frames y = body
       else exc_message_dispatch E s r = Some s))"
proof -
  obtain ms where d: "gw_downstream_msg E rc g m = Some (length (live (side_skts g)), g\<lparr>side_sent := side_sent g @ ms\<rparr>)"
    and ms: "map m_fd ms = live (side_skts g)" "\<forall>x \<in> set ms. frames x = frames m"
    by (rule comm_lib.downstream_sends [OF assms(1)])
  have g': "gw_downstream_msg E rc g m = Some (length ms, g\<lparr>side_sent := side_sent g @ ms\<rparr>)"
    using d ms(1) by (metis length_map)
  have h: "host_ok s" if "conn a = Some s" for a s using that assms(4) by blast
  have cid: "list_all printable cid" "length cid < 128"
    using cid_text_printable [OF h [OF assms(6)] assms(7,8)] assms(9) by simp_all
  have fd: "cid_fd cid = Some fd" using cid_text_ours(2) [OF h [OF assms(6)] assms(7,8)] assms(9) by simp
  have ours: "cid_is_ours s cid = Some (a = sk)" if s: "conn a = Some s" for a s
  proof (cases "a = sk")
    case True
    then show ?thesis using cid_text_ours(1) [OF h [OF assms(6)] assms(7,8)] assms(6,9) s by simp
  next
    case False
    then have "(serv_host e, serv_port e) \<noteq> (serv_host s, serv_port s)" using assms(5,6) s by metis
    then show ?thesis using cid_text_not_ours [OF h [OF assms(6)] h [OF s] assms(7,8)] assms(9) False by simp
  qed
  have "if m_fd x = sk then \<exists>y. exc_message_dispatch E s r = Some (commapi_send y s) \<and> m_fd y = fd \<and> frames y = body
       else exc_message_dispatch E s r = Some s"
    if x: "x \<in> set ms" "conn (m_fd x) = Some s" "frames r = frames x" "fdman_slot_get (g_slot s) (m_fd r) = Some des"
      "info_type des = STREAM_ROUTER" for x s r des
  proof -
    have r: "frames r = ascii ''downstream'' # ascii ''cid'' # cid # body" using x(1,3) ms(2) assms(10) by simp
    show ?thesis
    proof (cases "m_fd x = sk")
      case True
      then show ?thesis
        using comm_lib.cid_message_sent [OF assms(1) x(4,5) r cid _ fd] ours [OF x(2)] by simp blast
    next
      case False
      then show ?thesis using comm_lib.cid_message_ignored [OF assms(1) x(4,5) r cid] ours [OF x(2)] by simp
    qed
  qed
  then show ?thesis using g' ms(1) assms(2,3) by (intro exI [of _ ms]) auto
qed

text \<open>upstream the stream gateway tries the application servers in the order of its table,
  each at most once and with the frames unchanged, until one accepts the message; when none
  does, all of them were tried.\<close>

lemma gw_upstream_tries_in_order:
  assumes "comm_lib E frames"
  shows "\<exists>ms m'. gw_upstream_msg E rc g m = Some (length ms, m', g\<lparr>side_sent := side_sent g @ ms\<rparr>) \<and>
    map m_fd ms = take (length ms) (live (side_skts g)) \<and> (\<forall>x \<in> set ms. frames x = frames m) \<and>
    (\<forall>k. Suc k < length ms \<longrightarrow> rc (length (side_sent g) + k) (ms ! k) = -1) \<and>
    (length ms = length (live (side_skts g)) \<or>
     ms \<noteq> [] \<and> rc (length (side_sent g) + (length ms - 1)) (last ms) \<noteq> -1)"
proof -
  obtain ms m' where
    "travel_loop (Some (do_msg_for_best_fcb E rc)) None (side_skts g) (m, g) 0 0 =
      Some (0 + length ms, side_skts g, (m', g\<lparr>side_sent := side_sent g @ ms\<rparr>))"
    "map m_fd ms = take (length ms) (map (\<lambda>i. sint (skts (side_skts g) i)) [0..<used (side_skts g)])"
    "\<forall>x \<in> set ms. frames x = frames m"
    "\<forall>k. Suc k < length ms \<longrightarrow> rc (length (side_sent g) + k) (ms ! k) = -1"
    "length ms = used (side_skts g) - 0 \<or> ms \<noteq> [] \<and> rc (length (side_sent g) + (length ms - 1)) (last ms) \<noteq> -1"
    using comm_lib.travel_best [OF assms, of rc "side_skts g" m g 0 0] by blast
  then show ?thesis
    by (intro exI [of _ ms] exI [of _ m']) (simp add: gw_upstream_msg_def manage_skts_travel_def live_def)
qed

text \<open>C32: taking a socket out of a table of different file descriptors below 256. The copy counts elements where
  it has to count bytes: with at most one socket behind the removed one the rest of the table is right; with
  two to four the last socket is lost and another one is in the table twice; with more the ranges of
  \<^verbatim>\<open>memcpy\<close> overlap, which is undefined. (Of a descriptor of 256 or more even the copy of one element loses
  the upper bytes.)\<close>

theorem gw_del_loses_socket:
  assumes "distinct (live t)" "\<forall>x \<in> set (live t). 0 \<le> x \<and> x < 256" "i < used t" "live t ! i = fd"
  shows "(used t \<le> i + 2 \<longrightarrow> map_option live (manage_skts_del t fd) = Some (take i (live t) @ drop (i + 1) (live t))) \<and>
    (i + 2 < used t \<and> used t \<le> i + 5 \<longrightarrow> (\<exists>t'. manage_skts_del t fd = Some t' \<and> length (live t') = used t - 1 \<and>
      last (live t) \<notin> set (live t') \<and> \<not> distinct (live t'))) \<and>
    (i + 5 < used t \<longrightarrow> manage_skts_del t fd = None)"
proof -
  define l where "l = live t"
  have len: "length l = used t" and dl: "distinct l" using assms(1) by (simp_all add: l_def)
  have del: "map_option live (manage_skts_del t fd) = (if used t - i - 1 \<le> 4
      then Some (take (used t - 1) (if i + 1 < used t then l[i := l ! (i + 1)] else l)) else None)"
    using del_is_remove [OF assms(3,1,4)] remove_at_live [OF assms(2,3)] by (simp add: l_def)
  have "take (used t - 1) (if i + 1 < used t then l[i := l ! (i + 1)] else l) = take i l @ drop (i + 1) l" if "used t \<le> i + 2"
    using that assms(3) len by (intro nth_equalityI) (auto simp: nth_append nth_list_update less_Suc_eq)
  moreover have "\<exists>t'. manage_skts_del t fd = Some t' \<and> length (live t') = used t - 1 \<and> last l \<notin> set (live t') \<and> \<not> distinct (live t')"
    if u: "i + 2 < used t" "used t \<le> i + 5"
  proof -
    have "map_option live (manage_skts_del t fd) = Some (take (used t - 1) (l[i := l ! (i + 1)]))" using del u by simp
    then obtain t' where t': "manage_skts_del t fd = Some t'" "live t' = take (used t - 1) (l[i := l ! (i + 1)])" by blast
    have n: "live t' ! j = (if j = i then l ! (i + 1) else l ! j)" if "j < used t - 1" for j using that len t'(2) by (simp add: nth_list_update)
    have l': "length (live t') = used t - 1" using len t'(2) by simp
    have "l \<noteq> []" using u len by auto
    then have last: "last l = l ! (used t - 1)" using len by (simp add: last_conv_nth)
    have "l ! (used t - 1) \<noteq> live t' ! j" if "j < used t - 1" for j
      using that n u len dl nth_eq_iff_index_eq [OF dl, of "used t - 1"] by (cases "j = i") auto
    then have lost: "last l \<notin> set (live t')" unfolding last using l' by (metis in_set_conv_nth)
    have "live t' ! i = live t' ! (i + 1)" using n u by simp
    moreover have "i + 1 < length (live t')" unfolding l' using u by linarith
    ultimately have "\<not> distinct (live t')" using nth_eq_iff_index_eq [of "live t'" i "i + 1"] by (metis add_lessD1 n_not_Suc_n Suc_eq_plus1)
    then show ?thesis using t'(1) l' lost by blast
  qed
  ultimately show ?thesis using del by (auto simp: l_def)
qed

text \<open>A socket added to a table with room is behind the others; a full table is overrun.\<close>

lemma gw_add_live:
  "int_range fd \<Longrightarrow> used t < MAX_MANAGE_SKTS \<Longrightarrow> map_option live (manage_skts_add t fd) = Some (live t @ [fd])"
  "used t = MAX_MANAGE_SKTS \<Longrightarrow> manage_skts_add t fd = None"
  by (simp_all add: manage_skts_add_def live_def sint_of_fd)

text \<open>After exchanges have connected at different sockets to an empty side, the table is exactly their
  sockets.\<close>

lemma gw_connected_table:
  assumes "list_all int_range fds" "length fds \<le> MAX_MANAGE_SKTS"
  shows "\<exists>g. fold (\<lambda>fd r. Option.bind r (\<lambda>g. core_exchange_node_cb g fd STEP_INIT)) fds (Some (side_init :: 'm gw_side)) = Some g \<and> live (side_skts g) = fds"
  using assms
proof (induction fds rule: rev_induct)
  case Nil
  then show ?case by (simp add: live_def side_init_def manage_skts_init_def)
next
  case (snoc fd fds)
  have "list_all int_range fds" "length fds \<le> MAX_MANAGE_SKTS" using snoc.prems by simp_all
  then obtain g where g: "fold (\<lambda>fd r. Option.bind r (\<lambda>g. core_exchange_node_cb g fd STEP_INIT)) fds (Some (side_init :: 'm gw_side)) = Some g"
    "live (side_skts g) = fds" using snoc.IH by blast
  have "used (side_skts g) = length fds" using g(2) length_live [of "side_skts g"] by simp
  then have "map_option live (manage_skts_add (side_skts g) fd) = Some (fds @ [fd])"
    using gw_add_live(1) [of fd "side_skts g"] snoc.prems g(2) by simp
  then obtain t where "manage_skts_add (side_skts g) fd = Some t" "live t = fds @ [fd]" by auto
  then show ?case using g(1) by (simp add: core_exchange_node_cb_def tracked_cb_def)
qed

section \<open>The properties on a small system\<close>

definition demo_side :: "(bytes list \<times> int \<times> int) gw_side" where
  "demo_side = side_init\<lparr>side_skts := \<lparr>skts = (\<lambda>i. if i = 0 then 7 else 8), used = 2\<rparr>\<rparr>"

definition demo_table :: manage_skts where
  "demo_table = \<lparr>skts = (\<lambda>i. of_nat (i + 7)), used = 3\<rparr>"

lemma demo_live: "live (side_skts demo_side) = [7, 8]" "live demo_table = [7, 8, 9]"
  by (simp_all add: demo_side_def demo_table_def live_def upt_step numeral_3_eq_3 numeral_2_eq_2)

definition demo_conn :: "int \<Rightarrow> (mem_kv, bytes list \<times> int \<times> int) exc_state option" where
  "demo_conn = [7 \<mapsto> demo_exc, 8 \<mapsto> demo_exc\<lparr>serv_port := 8083\<rparr>]"

lemma demo_port: "serv_port demo_exc = 8082"
  by (simp add: demo_exc_def)

theorem openchat_cid_once_witness:
  "\<exists>ms. gw_downstream_msg demo_env (\<lambda>n m. 0) demo_side
      (plain_message [ascii ''downstream'', ascii ''cid'', demo_cid 2, ascii ''hi''] 0) = Some (length ms, demo_side\<lparr>side_sent := side_sent demo_side @ ms\<rparr>) \<and>
    distinct (map m_fd ms) \<and> set (map m_fd ms) = dom demo_conn \<and>
    (\<forall>x \<in> set ms. \<forall>s r des. demo_conn (m_fd x) = Some s \<and> plain_frames r = plain_frames x \<and>
        fdman_slot_get (g_slot s) (m_fd r) = Some des \<and> info_type des = STREAM_ROUTER \<longrightarrow>
      (if m_fd x = 7 then \<exists>y. exc_message_dispatch demo_env s r = Some (commapi_send y s) \<and> m_fd y = 2 \<and> plain_frames y = [ascii ''hi'']
       else exc_message_dispatch demo_env s r = Some s))"
proof -
  have h: "host_ok (demo_exc\<lparr>serv_port := 8083\<rparr>)" using demo_host(1) by (simp add: host_ok_def)
  have l: "distinct (live (side_skts demo_side))" "set (live (side_skts demo_side)) = dom demo_conn"
    by (auto simp: demo_live demo_conn_def)
  have c: "\<forall>a s. demo_conn a = Some s \<longrightarrow> host_ok s" using demo_host(1) h by (auto simp: demo_conn_def split: if_splits)
  have i: "\<forall>a b s t. demo_conn a = Some s \<and> demo_conn b = Some t \<and> (serv_host s, serv_port s) = (serv_host t, serv_port t) \<longrightarrow> a = b"
    using demo_port by (auto simp: demo_conn_def split: if_splits)
  have k: "demo_conn 7 = Some demo_exc" "int_range 2" "demo_cid 2 = cid_text (ascii ''a1'') (serv_host demo_exc) (serv_port demo_exc) 2"
    by (simp_all add: demo_conn_def int_range_def demo_cid_def)
  show ?thesis
    by (rule openchat_cid_once [OF plain.comm_lib_axioms l c i k(1) demo_uuids(1) k(2,3)]) simp
qed

lemma gw_upstream_tries_in_order_witness:
  "\<exists>ms m'. gw_upstream_msg demo_env (\<lambda>n m. if n = 0 then -1 else 0) demo_side (plain_message [ascii ''hi''] 3) =
      Some (length ms, m', demo_side\<lparr>side_sent := side_sent demo_side @ ms\<rparr>) \<and>
    map m_fd ms = take (length ms) (live (side_skts demo_side)) \<and>
    (\<forall>x \<in> set ms. plain_frames x = plain_frames (plain_message [ascii ''hi''] 3)) \<and>
    (\<forall>k. Suc k < length ms \<longrightarrow> (if length (side_sent demo_side) + k = 0 then -1 else 0) = (-1::int)) \<and>
    (length ms = length (live (side_skts demo_side)) \<or>
     ms \<noteq> [] \<and> (if length (side_sent demo_side) + (length ms - 1) = 0 then -1 else 0) \<noteq> (-1::int))"
  by (rule gw_upstream_tries_in_order [OF plain.comm_lib_axioms])

theorem gw_del_loses_socket_witness:
  "\<exists>t'. manage_skts_del demo_table 7 = Some t' \<and> length (live t') = 2 \<and> 9 \<notin> set (live t') \<and> \<not> distinct (live t')"
proof -
  have "used demo_table = 3" by (simp add: demo_table_def)
  then show ?thesis using gw_del_loses_socket [of demo_table 0 7] by (simp add: demo_live)
qed

end
