(* ===== verification/Lxq_Queue.thy ===== *)
theory Lxq_Queue
  imports Supex_Text Xmq_Store
begin

text \<open>
  The message sequence of \<^verbatim>\<open>lib/libxmq\<close>: messages (\<^verbatim>\<open>src/xmq_msg.c\<close>), name lists (\<^verbatim>\<open>src/xmq_csv.c\<close>) and the
  context with its producers and consumers (\<^verbatim>\<open>src/xmq.c\<close>). Messages are numbered from 1 and kept
  in a chain of databases, each for a range of \<open>kv_max_records\<close> numbers; a further database
  keeps the write position, the names and the reading positions.

  The application supplies the storage as four callbacks, the fields of \<open>lxq_ops\<close>; \<open>'w\<close> is the state of
  the storage and \<open>'h\<close> the type of its handles. Objects have addresses; a pointer to
  an object that is no longer in its list is not followed. \<open>l_allocs\<close> lists the outcomes of the next
  allocations (empty: they succeed). Sequence numbers are natural numbers below \<open>2 ^ 64\<close>, and
  sums are reduced. The write lock is held from the first to the last statement of \<^verbatim>\<open>xmq_push_tail\<close> and
  released on every path, so a push is one step. \<^term>\<open>None\<close> is undefined behaviour or a failed assertion.
\<close>

section \<open>Messages\<close>

record lxq_msg =
  lm_len :: u64
  lm_data :: bytes

definition lxq_msg_total_size :: "lxq_msg \<Rightarrow> nat" where
  "lxq_msg_total_size m = unat (8 + lm_len m)"

definition lxq_msg_bytes :: "lxq_msg \<Rightarrow> bytes" where
  "lxq_msg_bytes m = le64 (lm_len m) @ lm_data m"

definition lxq_msg_at :: "bytes \<Rightarrow> lxq_msg option" where
  "lxq_msg_at bin = do {
     l \<leftarrow> of_le64 (take 8 bin);
     Some \<lparr>lm_len = l, lm_data = drop 8 bin\<rparr> }"

definition lxq_msg_new_size :: "bool \<Rightarrow> u64 \<Rightarrow> lxq_msg option option" where
  "lxq_msg_new_size ok sz = (let block = unat (sz + 8) in
     if \<not> ok then Some None
     else if block < 8 then None
     else Some (Some \<lparr>lm_len = sz, lm_data = replicate (block - 8) 0\<rparr>))"

definition lxq_msg_new_data :: "bool \<Rightarrow> bytes option \<Rightarrow> u64 \<Rightarrow> lxq_msg option option" where
  "lxq_msg_new_data ok d sz =
     (case d of
        None \<Rightarrow> Some None
      | Some src \<Rightarrow>
          if sz = 0 then Some None
          else do {
            m \<leftarrow> lxq_msg_new_size ok sz;
            case m of
              None \<Rightarrow> Some None
            | Some msg \<Rightarrow> do {
                bs \<leftarrow> mreads src 0 (int (unat sz));
                dst \<leftarrow> mwrites (lm_data msg) 0 bs;
                Some (Some (msg\<lparr>lm_data := dst\<rparr>)) } })"

definition lxq_msg_dup :: "bool \<Rightarrow> lxq_msg option \<Rightarrow> lxq_msg option option" where
  "lxq_msg_dup ok src =
     (case src of None \<Rightarrow> Some None | Some m \<Rightarrow> lxq_msg_new_data ok (Some (lm_data m)) (lm_len m))"

section \<open>Name lists\<close>

text \<open>The commas that end a name, with the character before the position.\<close>

primrec count_ends :: "byte \<Rightarrow> bytes \<Rightarrow> byte \<Rightarrow> nat" where
  "count_ends prev [] split = (if prev \<noteq> split then 1 else 0)"
| "count_ends prev (b # bs) split = (if b = split \<and> prev \<noteq> split then 1 else 0) + count_ends b bs split"

text \<open>Of an empty string the byte before its start is read.\<close>

definition number_of_fields :: "bytes \<Rightarrow> byte \<Rightarrow> nat option" where
  "number_of_fields str split = (case str of [] \<Rightarrow> None | b # bs \<Rightarrow> Some (count_ends b bs split))"

function lxq_csv_loop :: "bytes \<Rightarrow> bytes list" where
  "lxq_csv_loop [] = []"
| "lxq_csv_loop (b # bs) =
     (if b = comma then lxq_csv_loop bs
      else takeWhile (\<lambda>c. c \<noteq> comma) (b # bs) # lxq_csv_loop (dropWhile (\<lambda>c. c \<noteq> comma) (b # bs)))"
  by pat_completeness auto

termination
  by (relation "measure length") (auto simp: less_Suc_eq_le length_dropWhile_le)

text \<open>The fields found in a copy of the string; one more than counted is written behind the array.
  Outcomes: a failed copy is -1, a failed array 0 fields.\<close>

definition lxq_csv_parse_string :: "bool \<Rightarrow> bool \<Rightarrow> bytes \<Rightarrow> (int \<times> bytes list) option" where
  "lxq_csv_parse_string ok1 ok2 str =
     (if \<not> ok1 then Some (-1, [])
      else do {
        n \<leftarrow> number_of_fields str comma;
        if \<not> ok2 then Some (0, [])
        else do {
          asserting (length (lxq_csv_loop str) \<le> n);
          Some (int (length (lxq_csv_loop str)), lxq_csv_loop str) } })"

section \<open>The context\<close>

record ('w, 'h) lxq_ops =
  kv_ctx_init :: "'w \<Rightarrow> bytes \<Rightarrow> 'h option \<times> 'w"
  kv_put1 :: "'w \<Rightarrow> 'h \<Rightarrow> bytes \<Rightarrow> bytes \<Rightarrow> int \<times> 'w"
  kv_get1 :: "'w \<Rightarrow> 'h \<Rightarrow> bytes \<Rightarrow> int \<times> bytes option \<times> 'w"
  kv_ctx_free :: "'w \<Rightarrow> 'h \<Rightarrow> 'w"

record 'h lxq_db =
  db_start :: nat
  db_end :: nat
  db_name :: bytes
  db_handler :: 'h

record lxq_producer =
  lp_addr :: nat
  lp_identity :: bytes

record lxq_consumer =
  lc_addr :: nat
  lc_identity :: bytes
  fetch_key :: bytes
  last_fetch_seq :: nat

record ('w, 'h) lxq_ctx =
  l_kv :: 'w
  kv_db_path :: bytes
  kv_max_records :: nat
  g_state_ctx :: 'h
  list_databases :: "'h lxq_db list"
  list_producers :: "lxq_producer list"
  list_consumers :: "lxq_consumer list"
  indicator :: nat
  last_write_db :: "'h lxq_db option"
  last_write_db_seq :: nat
  l_fresh :: nat
  l_allocs :: "bool list"

definition lcalloc :: "('w, 'h) lxq_ctx \<Rightarrow> bool \<times> ('w, 'h) lxq_ctx" where
  "lcalloc s = (case l_allocs s of [] \<Rightarrow> (True, s) | b # bs \<Rightarrow> (b, s\<lparr>l_allocs := bs\<rparr>))"

definition XMQ_U64_MAX :: nat where "XMQ_U64_MAX = 2 ^ 64 - 1"
definition XMQ_KEY_LEN :: nat where "XMQ_KEY_LEN = 21"
definition XMQ_DBNAME_LEN :: nat where "XMQ_DBNAME_LEN = 42"
definition XMQ_IDENTITY_LEN :: nat where "XMQ_IDENTITY_LEN = 32"

definition XMQ_PRODUCERS :: bytes where "XMQ_PRODUCERS = ascii ''XMQ_PRODUCERS''"
definition XMQ_CONSUMERS :: bytes where "XMQ_CONSUMERS = ascii ''XMQ_CONSUMERS''"
definition XMQ_DATABASE_WRITEPOS :: bytes where "XMQ_DATABASE_WRITEPOS = ascii ''XMQ_DATABASE_WRITEPOS''"

text \<open>\<^verbatim>\<open>%020llu\<close> and \<^verbatim>\<open>strtoull\<close> on digits; a value that does not fit is the largest one.\<close>

definition pad20 :: "nat \<Rightarrow> bytes" where
  "pad20 n = replicate (20 - length (dec_nat n)) 0x30 @ dec_nat n"

definition strtoull :: "bytes \<Rightarrow> nat" where
  "strtoull s = min XMQ_U64_MAX (digits_value (takeWhile is_digit (dropWhile is_space s)))"

definition get_KV_dbname :: "nat \<Rightarrow> nat \<Rightarrow> bytes" where
  "get_KV_dbname start off =
     snprintf XMQ_DBNAME_LEN (snprintf XMQ_KEY_LEN (pad20 start) @ ascii ''-'' @
       snprintf XMQ_KEY_LEN (pad20 ((start + off) mod 2 ^ 64)))"

section \<open>Entries of the storage\<close>

datatype kv_load = KV_LOAD_FAIL | KV_LOAD_NULL | KV_LOAD_SUCC bytes

definition lxq_load_string_bin :: "('w, 'h) lxq_ops \<Rightarrow> 'h \<Rightarrow> bytes \<Rightarrow> ('w, 'h) lxq_ctx \<Rightarrow> kv_load \<times> ('w, 'h) lxq_ctx" where
  "lxq_load_string_bin ops h key s =
     (case kv_get1 ops (l_kv s) h (key @ [0]) of (res, val, w) \<Rightarrow>
      (if res = -1 then KV_LOAD_FAIL else (case val of None \<Rightarrow> KV_LOAD_NULL | Some v \<Rightarrow> KV_LOAD_SUCC v),
       s\<lparr>l_kv := w\<rparr>))"

definition lxq_write_string_bin :: "('w, 'h) lxq_ops \<Rightarrow> 'h \<Rightarrow> bytes \<Rightarrow> bytes \<Rightarrow> ('w, 'h) lxq_ctx \<Rightarrow> int \<times> ('w, 'h) lxq_ctx" where
  "lxq_write_string_bin ops h key val s =
     (if val = [] then (-1, s)
      else (case kv_put1 ops (l_kv s) h (key @ [0]) val of (res, w) \<Rightarrow> (res, s\<lparr>l_kv := w\<rparr>)))"

definition lxq_write_uint64 :: "('w, 'h) lxq_ops \<Rightarrow> 'h \<Rightarrow> bytes \<Rightarrow> nat \<Rightarrow> ('w, 'h) lxq_ctx \<Rightarrow> int \<times> ('w, 'h) lxq_ctx" where
  "lxq_write_uint64 ops h key n s = lxq_write_string_bin ops h key (le64 (of_nat n)) s"

text \<open>The code, and the number when the code is 0.\<close>

definition lxq_load_uint64 :: "('w, 'h) lxq_ops \<Rightarrow> 'h \<Rightarrow> bytes \<Rightarrow> ('w, 'h) lxq_ctx \<Rightarrow> (int \<times> nat \<times> ('w, 'h) lxq_ctx) option" where
  "lxq_load_uint64 ops h key s =
     (case lxq_load_string_bin ops h key s of (res, s) \<Rightarrow>
      case res of
        KV_LOAD_FAIL \<Rightarrow> Some (-1, 0, s)
      | KV_LOAD_NULL \<Rightarrow> Some (1, 0, s)
      | KV_LOAD_SUCC v \<Rightarrow> do { w \<leftarrow> of_le64 v; Some (0, unat w, s) })"

definition lxq_write_string_string :: "('w, 'h) lxq_ops \<Rightarrow> bytes \<Rightarrow> bytes \<Rightarrow> ('w, 'h) lxq_ctx \<Rightarrow> int \<times> ('w, 'h) lxq_ctx" where
  "lxq_write_string_string ops key val s = lxq_write_string_bin ops (g_state_ctx s) key (val @ [0]) s"

text \<open>The strings joined; the block is one byte longer than all strings and separators.\<close>

definition lxq_string_append_3rd :: "bytes option \<Rightarrow> bytes \<Rightarrow> bytes option \<Rightarrow> bytes option \<Rightarrow> bytes option \<Rightarrow> bytes" where
  "lxq_string_append_3rd prefix split first second third =
     (case prefix of None \<Rightarrow> [] | Some p \<Rightarrow> p) @
     (case first of None \<Rightarrow> []
      | Some f \<Rightarrow> (if prefix \<noteq> None then split else []) @ f @
          (case second of None \<Rightarrow> []
           | Some t \<Rightarrow> split @ t @ (case third of None \<Rightarrow> [] | Some u \<Rightarrow> split @ u)))"

definition key_of_consumer_fetchpos :: "bytes \<Rightarrow> bytes" where
  "key_of_consumer_fetchpos c = lxq_string_append_3rd (Some (ascii ''XMQ'')) (ascii ''_'') (Some c) (Some (ascii ''FETCHPOS'')) None"

definition lxq_write_back_append :: "('w, 'h) lxq_ops \<Rightarrow> bytes \<Rightarrow> bytes \<Rightarrow> ('w, 'h) lxq_ctx \<Rightarrow> (int \<times> ('w, 'h) lxq_ctx) option" where
  "lxq_write_back_append ops key name s =
     (case lxq_load_string_bin ops (g_state_ctx s) key s of (res, s) \<Rightarrow>
      if res = KV_LOAD_FAIL then Some (-1, s)
      else do {
        old \<leftarrow> (case res of KV_LOAD_SUCC v \<Rightarrow> map_option Some (c_string v) | _ \<Rightarrow> Some None);
        let (ok, s) = lcalloc s;
        if \<not> ok then Some (-1, s)
        else Some (lxq_write_string_string ops key (lxq_string_append_3rd old [comma] (Some name) None None) s) })"

text \<open>\<^verbatim>\<open>strstr\<close>: where the first occurrence starts.\<close>

fun strstr :: "bytes \<Rightarrow> bytes \<Rightarrow> nat option" where
  "strstr [] sub = (if sub = [] then Some 0 else None)"
| "strstr (b # bs) sub = (if take (length sub) (b # bs) = sub then Some 0 else map_option Suc (strstr bs sub))"

lemma strstr_le: "strstr bs sub = Some i \<Longrightarrow> i + length sub \<le> length bs"
proof (induction bs arbitrary: i)
  case (Cons b bs)
  show ?case
  proof (cases "take (length sub) (b # bs) = sub")
    case True
    then have "length sub \<le> length (b # bs)" by (metis length_take min.cobounded1)
    then show ?thesis using True Cons.prems by simp
  qed (use Cons in auto)
qed (simp split: if_splits)

text \<open>The loop of \<^verbatim>\<open>__string_delete_by_substr\<close>: \<open>pre\<close> is what lies before the position, \<open>bs\<close> the string from it on. An
  occurrence is taken out when nothing or exactly the separator follows it, and stepped over otherwise. With an empty
  name the loop does not end, and the \<^verbatim>\<open>strcpy\<close> of a tail that is not shorter than the name overlaps; both are \<^term>\<open>None\<close>.\<close>

function delete_loop :: "bytes \<Rightarrow> bytes \<Rightarrow> bytes \<Rightarrow> bytes \<Rightarrow> bytes option" where
  "delete_loop sub split pre bs =
     (if sub = [] then None
      else case strstr bs sub of
        None \<Rightarrow> Some (pre @ bs)
      | Some i \<Rightarrow>
          let tl = drop (i + length sub) bs in
          if tl \<noteq> split \<and> tl \<noteq> [] then delete_loop sub split (pre @ take (i + length sub) bs) tl
          else if length sub < length tl + 1 then None
          else delete_loop sub split (pre @ take i bs) tl)"
  by pat_completeness auto
termination
proof (relation "measure (\<lambda>(sub, split, pre, bs). length bs)")
  fix sub split pre bs :: bytes and i tl
  assume "sub \<noteq> []" "strstr bs sub = Some i" "tl = drop (i + length sub) bs"
  then show "((sub, split, pre @ take (i + length sub) bs, tl), sub, split, pre, bs) \<in> measure (\<lambda>(sub, split, pre, bs). length bs)"
    "((sub, split, pre @ take i bs, tl), sub, split, pre, bs) \<in> measure (\<lambda>(sub, split, pre, bs). length bs)"
    using strstr_le [of bs sub i] by (cases sub; cases bs; simp)+
qed simp

text \<open>The pointer \<^verbatim>\<open>src\<close> may be null (\<^term>\<open>None\<close>), and so may the result.\<close>

definition string_delete_by_substr :: "bytes option \<Rightarrow> bytes \<Rightarrow> bytes \<Rightarrow> bytes option option" where
  "string_delete_by_substr src sub split =
     (case src of None \<Rightarrow> Some None | Some bs \<Rightarrow> map_option Some (delete_loop sub split [] bs))"

text \<open>The test compares the loaded pointer, not the result code, with \<^verbatim>\<open>KV_LOAD_SUCC\<close>, which is 0: it is passed exactly by the
  null pointer of a value that was not found.\<close>

definition ptr_is_zero :: "bytes option \<Rightarrow> bool" where
  "ptr_is_zero p \<longleftrightarrow> p = None"

definition lxq_write_back_delete :: "('w, 'h) lxq_ops \<Rightarrow> bytes \<Rightarrow> bytes \<Rightarrow> ('w, 'h) lxq_ctx \<Rightarrow> (int \<times> ('w, 'h) lxq_ctx) option" where
  "lxq_write_back_delete ops key name s =
     (case lxq_load_string_bin ops (g_state_ctx s) key s of (res, s) \<Rightarrow>
      let value_old = (case res of KV_LOAD_SUCC v \<Rightarrow> Some v | _ \<Rightarrow> None) in
      if \<not> ptr_is_zero value_old then Some (-1, s)
      else do {
        src \<leftarrow> (case value_old of None \<Rightarrow> Some None | Some v \<Rightarrow> map_option Some (c_string v));
        value_new \<leftarrow> string_delete_by_substr src name [comma];
        case value_new of
          None \<Rightarrow> Some (-1, s)
        | Some v \<Rightarrow> (case lxq_write_string_string ops key v s of (rc, s) \<Rightarrow> Some (if rc \<noteq> 0 then -1 else 0, s)) })"

section \<open>Databases\<close>

definition get_db_handler :: "('w, 'h) lxq_ctx \<Rightarrow> nat \<Rightarrow> 'h lxq_db option" where
  "get_db_handler s fetchpos = find (\<lambda>db. db_start db \<le> fetchpos \<and> fetchpos \<le> db_end db) (rev (list_databases s))"

definition load_database :: "('w, 'h) lxq_ops \<Rightarrow> bytes \<Rightarrow> ('w, 'h) lxq_ctx \<Rightarrow> (int \<times> ('w, 'h) lxq_ctx) option" where
  "load_database ops name s =
     (case kv_ctx_init ops (l_kv s) (kv_db_path s @ ascii ''/'' @ name) of (h, w) \<Rightarrow>
      let s = s\<lparr>l_kv := w\<rparr> in
      case h of
        None \<Rightarrow> Some (-1, s)
      | Some kv_ctx \<Rightarrow>
          let (ok, s) = lcalloc s in
          if \<not> ok then Some (-1, s)
          else do {
            asserting (XMQ_KEY_LEN \<le> length name);
            let db = \<lparr>db_start = strtoull name, db_end = strtoull (drop XMQ_KEY_LEN name), db_name = name, db_handler = kv_ctx\<rparr>;
            Some (0, s\<lparr>list_databases := list_databases s @ [db]\<rparr>) })"

definition open_database :: "('w, 'h) lxq_ops \<Rightarrow> nat \<Rightarrow> ('w, 'h) lxq_ctx \<Rightarrow> (int \<times> ('w, 'h) lxq_ctx) option" where
  "open_database ops last_writepos s =
     (if get_db_handler s last_writepos \<noteq> None then Some (0, s)
      else do {
        (r, s) \<leftarrow> load_database ops (get_KV_dbname last_writepos (kv_max_records s - 1)) s;
        if r \<noteq> 0 then Some (-1, s)
        else do {
          db \<leftarrow> get_db_handler s last_writepos;
          Some (0, s\<lparr>last_write_db := Some db\<rparr>) } })"

definition unload_database :: "('w, 'h) lxq_ops \<Rightarrow> bytes \<Rightarrow> ('w, 'h) lxq_ctx \<Rightarrow> int \<times> ('w, 'h) lxq_ctx" where
  "unload_database ops name s =
     (case find (\<lambda>db. same_name (db_name db) name) (list_databases s) of
        None \<Rightarrow> (-1, s)
      | Some db \<Rightarrow> (0, s\<lparr>list_databases := remove1 db (list_databases s), l_kv := kv_ctx_free ops (l_kv s) (db_handler db)\<rparr>))"

section \<open>Loading the lists\<close>

text \<open>A field copied into an array of \<open>n\<close> zero bytes keeps its terminator when it is shorter.\<close>

definition lxq_field_name :: "nat \<Rightarrow> bytes \<Rightarrow> bytes option" where
  "lxq_field_name n f = do { asserting (length f < n); Some f }"

primrec load_databases :: "('w, 'h) lxq_ops \<Rightarrow> bytes list \<Rightarrow> ('w, 'h) lxq_ctx \<Rightarrow> (int \<times> ('w, 'h) lxq_ctx) option" where
  "load_databases ops [] s = Some (0, s)"
| "load_databases ops (f # fs) s = do {
     dbname \<leftarrow> lxq_field_name XMQ_DBNAME_LEN f;
     (r, s) \<leftarrow> load_database ops dbname s;
     if r \<noteq> 0 then Some (-1, s) else load_databases ops fs s }"

definition add_producer :: "bytes \<Rightarrow> ('w, 'h) lxq_ctx \<Rightarrow> ('w, 'h) lxq_ctx" where
  "add_producer name s =
     s\<lparr>list_producers := list_producers s @ [\<lparr>lp_addr = l_fresh s, lp_identity = name\<rparr>], l_fresh := l_fresh s + 1\<rparr>"

definition add_consumer :: "bytes \<Rightarrow> nat \<Rightarrow> ('w, 'h) lxq_ctx \<Rightarrow> ('w, 'h) lxq_ctx" where
  "add_consumer name pos s =
     s\<lparr>list_consumers := list_consumers s @
         [\<lparr>lc_addr = l_fresh s, lc_identity = name, fetch_key = key_of_consumer_fetchpos name, last_fetch_seq = pos\<rparr>],
       l_fresh := l_fresh s + 1\<rparr>"

primrec load_producers :: "bytes list \<Rightarrow> ('w, 'h) lxq_ctx \<Rightarrow> (int \<times> ('w, 'h) lxq_ctx) option" where
  "load_producers [] s = Some (0, s)"
| "load_producers (f # fs) s = do {
     let (ok, s) = lcalloc s;
     if \<not> ok then Some (-1, s)
     else do {
       name \<leftarrow> lxq_field_name XMQ_IDENTITY_LEN f;
       load_producers fs (add_producer name s) } }"

text \<open>The key of the position is made without a test of its allocation.\<close>

primrec load_consumers :: "('w, 'h) lxq_ops \<Rightarrow> bytes list \<Rightarrow> ('w, 'h) lxq_ctx \<Rightarrow> (int \<times> ('w, 'h) lxq_ctx) option" where
  "load_consumers ops [] s = Some (0, s)"
| "load_consumers ops (f # fs) s = do {
     let (ok, s) = lcalloc s;
     if \<not> ok then Some (-1, s)
     else do {
       name \<leftarrow> lxq_field_name XMQ_IDENTITY_LEN f;
       let (ok, s) = lcalloc s;
       asserting ok;
       (res, pos, s) \<leftarrow> lxq_load_uint64 ops (g_state_ctx s) (key_of_consumer_fetchpos name) s;
       if res \<noteq> 0 then Some (-1, s)
       else load_consumers ops fs (add_consumer name pos s) } }"

datatype xmq_type = XMQ_TYPE_DATABASE | XMQ_TYPE_PRODUCER | XMQ_TYPE_CONSUMER

definition lxq_csv_to_list :: "('w, 'h) lxq_ops \<Rightarrow> bytes list \<Rightarrow> xmq_type \<Rightarrow> ('w, 'h) lxq_ctx \<Rightarrow> (int \<times> ('w, 'h) lxq_ctx) option" where
  "lxq_csv_to_list ops fs type s =
     (case type of
        XMQ_TYPE_DATABASE \<Rightarrow> load_databases ops fs s
      | XMQ_TYPE_PRODUCER \<Rightarrow> load_producers fs s
      | XMQ_TYPE_CONSUMER \<Rightarrow> load_consumers ops fs s)"

text \<open>The names of the databases up to the write position, appended to a block of \<open>n\<close> bytes; a name
  that does not fit is written behind the block.\<close>

function dbname_loop :: "nat \<Rightarrow> nat \<Rightarrow> nat \<Rightarrow> nat \<Rightarrow> bytes \<Rightarrow> bytes option" where
  "dbname_loop last_pos recs n i val =
     (if i \<le> last_pos then
        let val' = val @ get_KV_dbname i (recs - 1) @ [comma] in
        if length val' < n then dbname_loop last_pos recs n ((i + recs) mod 2 ^ 64) val' else None
      else Some val)"
  by pat_completeness auto

termination
  by (relation "measure (\<lambda>(l, r, n, i, val). n - length val)") auto

declare dbname_loop.simps [simp del]

definition GET_NEED_COUNT :: "nat \<Rightarrow> nat \<Rightarrow> nat" where
  "GET_NEED_COUNT idx d = idx div d + (if idx mod d \<ge> 1 then 1 else 0)"

definition database_names :: "nat \<Rightarrow> ('w, 'h) lxq_ctx \<Rightarrow> (bytes \<times> ('w, 'h) lxq_ctx) option" where
  "database_names last_pos s = do {
     let n = GET_NEED_COUNT last_pos (kv_max_records s) * XMQ_DBNAME_LEN + 1;
     let (ok, s) = lcalloc s;
     asserting ok;
     val \<leftarrow> dbname_loop last_pos (kv_max_records s) n 1 [];
     asserting (2 \<le> n);
     Some (take (n - 2) val, s) }"

definition lxq_load_string_list :: "('w, 'h) lxq_ops \<Rightarrow> bytes \<Rightarrow> xmq_type \<Rightarrow> ('w, 'h) lxq_ctx \<Rightarrow> (int \<times> ('w, 'h) lxq_ctx) option" where
  "lxq_load_string_list ops key type s = do {
     (found, val, s) \<leftarrow>
       (if type = XMQ_TYPE_DATABASE then do { (v, s) \<leftarrow> database_names (strtoull key) s; Some (0, v, s) }
        else (case lxq_load_string_bin ops (g_state_ctx s) key s of (res, s) \<Rightarrow>
          case res of
            KV_LOAD_FAIL \<Rightarrow> Some (-1, [], s)
          | KV_LOAD_NULL \<Rightarrow> Some (1, [], s)
          | KV_LOAD_SUCC v \<Rightarrow> do { str \<leftarrow> c_string v; Some (0 :: int, str, s) }));
     if found = -1 then Some (-1, s)
     else if found = 1 then Some (0, s)
     else do {
       let (ok1, s) = lcalloc s;
       let (ok2, s) = (if ok1 then lcalloc s else (False, s));
       (n, fs) \<leftarrow> lxq_csv_parse_string ok1 ok2 val;
       if n = -1 then Some (-1, s)
       else do {
         (r, s) \<leftarrow> lxq_csv_to_list ops fs type s;
         Some (if r = -1 then 0 else n, s) } } }"

section \<open>Opening a context\<close>

definition load_all_resouces :: "('w, 'h) lxq_ops \<Rightarrow> ('w, 'h) lxq_ctx \<Rightarrow> (int \<times> ('w, 'h) lxq_ctx) option" where
  "load_all_resouces ops s =
     (case kv_ctx_init ops (l_kv s) (ascii ''./kvstate'') of (h, w) \<Rightarrow>
      let s = s\<lparr>l_kv := w\<rparr> in
      case h of
        None \<Rightarrow> Some (-1, s)
      | Some g \<Rightarrow> do {
          let s = s\<lparr>g_state_ctx := g\<rparr>;
          (res, write_pos, s) \<leftarrow> lxq_load_uint64 ops g XMQ_DATABASE_WRITEPOS s;
          if res = -1 then Some (-1, s)
          else do {
            let write_pos = (if res = 1 then 1 else write_pos);
            let (res, s) = (if res = 1 then lxq_write_uint64 ops g XMQ_DATABASE_WRITEPOS write_pos s else (0, s));
            if res \<noteq> 0 then Some (-1, s)
            else do {
              (databases, s) \<leftarrow> lxq_load_string_list ops (snprintf XMQ_KEY_LEN (dec_nat write_pos)) XMQ_TYPE_DATABASE s;
              if \<not> databases > 0 then Some (-1, s)
              else do {
                let s = s\<lparr>last_write_db_seq := write_pos\<rparr>;
                db \<leftarrow> get_db_handler s write_pos;
                let s = s\<lparr>last_write_db := Some db\<rparr>;
                (producers, s) \<leftarrow> lxq_load_string_list ops XMQ_PRODUCERS XMQ_TYPE_PRODUCER s;
                if producers < 0 then Some (-1, s)
                else do {
                  (consumers, s) \<leftarrow> lxq_load_string_list ops XMQ_CONSUMERS XMQ_TYPE_CONSUMER s;
                  Some (if consumers < 0 then -1 else 0, s) } } } } })"

text \<open>\<open>dir\<close> is the outcome of making the directory, \<open>bs\<close> that of the allocations and \<open>g\<close> any handle.
  \<open>Inl\<close> is the null pointer, with the state of the storage.\<close>

definition lxq_context_init ::
  "('w, 'h) lxq_ops \<Rightarrow> 'w \<Rightarrow> bytes option \<Rightarrow> nat \<Rightarrow> int \<Rightarrow> bool list \<Rightarrow> 'h \<Rightarrow> ('w + ('w, 'h) lxq_ctx) option" where
  "lxq_context_init ops w path recs dir bs g =
     (case path of
        None \<Rightarrow> Some (Inl w)
      | Some p \<Rightarrow>
          if \<not> recs > 0 then Some (Inl w)
          else (let s = \<lparr>l_kv = w, kv_db_path = take 255 p, kv_max_records = recs, g_state_ctx = g, list_databases = [],
                  list_producers = [], list_consumers = [], indicator = 0, last_write_db = None,
                  last_write_db_seq = 0, l_fresh = 1, l_allocs = bs\<rparr>;
                (ok, s) = lcalloc s in
            if \<not> ok then Some (Inl w)
            else if dir \<noteq> 0 then Some (Inl w)
            else do {
              (r, s) \<leftarrow> load_all_resouces ops s;
              Some (if r \<noteq> 0 then Inl (l_kv s) else Inr s) }))"

text \<open>The loops read the successor of an element they have freed, so no list may have an element.\<close>

definition lxq_context_destroy :: "('w, 'h) lxq_ops \<Rightarrow> ('w, 'h) lxq_ctx option \<Rightarrow> 'w option option" where
  "lxq_context_destroy ops ctx =
     (case ctx of
        None \<Rightarrow> Some None
      | Some s \<Rightarrow> do {
          asserting (list_producers s = [] \<and> list_consumers s = [] \<and> list_databases s = []);
          Some (Some (kv_ctx_free ops (l_kv s) (g_state_ctx s))) })"

section \<open>Producers and consumers\<close>

definition lxq_find_producer :: "('w, 'h) lxq_ctx \<Rightarrow> bytes \<Rightarrow> lxq_producer option" where
  "lxq_find_producer s key = find (\<lambda>p. same_name (lp_identity p) key) (list_producers s)"

definition lxq_find_consumer :: "('w, 'h) lxq_ctx \<Rightarrow> bytes \<Rightarrow> lxq_consumer option" where
  "lxq_find_consumer s key = find (\<lambda>c. same_name (lc_identity c) key) (list_consumers s)"

definition lxq_register_producer :: "('w, 'h) lxq_ops \<Rightarrow> bytes \<Rightarrow> ('w, 'h) lxq_ctx \<Rightarrow> (int \<times> ('w, 'h) lxq_ctx) option" where
  "lxq_register_producer ops pid s =
     (if lxq_find_producer s pid \<noteq> None then Some (1, s)
      else (let (ok, s) = lcalloc s in
        if \<not> ok then Some (-1, s)
        else do {
          let name = take (XMQ_IDENTITY_LEN - 1) pid;
          (r, s) \<leftarrow> lxq_write_back_append ops XMQ_PRODUCERS name s;
          Some (if r \<noteq> 0 then (-1, s) else (0, add_producer name s)) }))"

definition lxq_register_consumer :: "('w, 'h) lxq_ops \<Rightarrow> bytes \<Rightarrow> ('w, 'h) lxq_ctx \<Rightarrow> (int \<times> ('w, 'h) lxq_ctx) option" where
  "lxq_register_consumer ops cid s =
     (if lxq_find_consumer s cid \<noteq> None then Some (1, s)
      else (let (ok, s) = lcalloc s in
        if \<not> ok then Some (-1, s)
        else do {
          let name = take (XMQ_IDENTITY_LEN - 1) cid;
          let (ok, s) = lcalloc s;
          asserting ok;
          let (r, s) = lxq_write_uint64 ops (g_state_ctx s) (key_of_consumer_fetchpos name) 1 s;
          if r \<noteq> 0 then Some (-1, s)
          else do {
            (r, s) \<leftarrow> lxq_write_back_append ops XMQ_CONSUMERS name s;
            Some (if r \<noteq> 0 then (-1, s) else (0, add_consumer name 1 s)) } }))"

definition lxq_get_producer :: "('w, 'h) lxq_ctx \<Rightarrow> bytes \<Rightarrow> nat option" where
  "lxq_get_producer s pid = map_option lp_addr (lxq_find_producer s pid)"

definition lxq_get_consumer :: "('w, 'h) lxq_ctx \<Rightarrow> bytes \<Rightarrow> nat option" where
  "lxq_get_consumer s cid = map_option lc_addr (lxq_find_consumer s cid)"

text \<open>The iterator counts the consumers it has passed.\<close>

definition lxq_get_consumer_iterator :: "('w, 'h) lxq_ctx \<Rightarrow> ('w, 'h) lxq_ctx" where
  "lxq_get_consumer_iterator s = s\<lparr>indicator := 0\<rparr>"

definition lxq_has_next :: "('w, 'h) lxq_ctx \<Rightarrow> bool" where
  "lxq_has_next s \<longleftrightarrow> indicator s \<noteq> length (list_consumers s)"

definition lxq_next :: "('w, 'h) lxq_ctx \<Rightarrow> (nat \<times> ('w, 'h) lxq_ctx) option" where
  "lxq_next s = do {
     asserting (indicator s < length (list_consumers s));
     Some (lc_addr (list_consumers s ! indicator s), s\<lparr>indicator := indicator s + 1\<rparr>) }"

definition lxq_unregister_producer :: "('w, 'h) lxq_ops \<Rightarrow> bytes \<Rightarrow> ('w, 'h) lxq_ctx \<Rightarrow> (int \<times> ('w, 'h) lxq_ctx) option" where
  "lxq_unregister_producer ops pid s =
     (case lxq_find_producer s pid of
        None \<Rightarrow> Some (0, s)
      | Some p \<Rightarrow> do {
          (r, s) \<leftarrow> lxq_write_back_delete ops XMQ_PRODUCERS (lp_identity p) (s\<lparr>list_producers := remove1 p (list_producers s)\<rparr>);
          Some (if r \<noteq> 0 then -1 else 0, s) })"

definition lxq_unregister_consumer :: "('w, 'h) lxq_ops \<Rightarrow> bytes \<Rightarrow> ('w, 'h) lxq_ctx \<Rightarrow> (int \<times> ('w, 'h) lxq_ctx) option" where
  "lxq_unregister_consumer ops cid s =
     (case lxq_find_consumer s cid of
        None \<Rightarrow> Some (0, s)
      | Some c \<Rightarrow> do {
          (r, s) \<leftarrow> lxq_write_back_delete ops XMQ_CONSUMERS (lc_identity c) (s\<lparr>list_consumers := remove1 c (list_consumers s)\<rparr>);
          Some (if r \<noteq> 0 then -1 else 0, s) })"

section \<open>Messages in and out\<close>

text \<open>The producer only leads to the context.\<close>

definition lxq_push_tail :: "('w, 'h) lxq_ops \<Rightarrow> lxq_msg \<Rightarrow> ('w, 'h) lxq_ctx \<Rightarrow> (int \<times> ('w, 'h) lxq_ctx) option" where
  "lxq_push_tail ops msg s =
     (let seq = last_write_db_seq s in
      if seq = XMQ_U64_MAX then Some (-1, s)
      else do {
        (r, s) \<leftarrow> (if seq mod kv_max_records s = 1 then open_database ops seq s else Some (0, s));
        if r \<noteq> 0 then Some (-1, s)
        else do {
          db \<leftarrow> last_write_db s;
          asserting (lxq_msg_total_size msg \<le> length (lxq_msg_bytes msg));
          let (r, s) = lxq_write_string_bin ops (db_handler db) (snprintf XMQ_KEY_LEN (pad20 seq))
            (take (lxq_msg_total_size msg) (lxq_msg_bytes msg)) s;
          if r \<noteq> 0 then Some (-1, s)
          else do {
            let (r, s) = lxq_write_uint64 ops (g_state_ctx s) XMQ_DATABASE_WRITEPOS (seq + 1) s;
            Some (if r \<noteq> 0 then (-1, s) else (0, s\<lparr>last_write_db_seq := seq + 1\<rparr>)) } } })"

text \<open>The null pointer, or the memory of the message; the consumer only leads to the context.\<close>

definition lxq_pull_that :: "('w, 'h) lxq_ops \<Rightarrow> nat \<Rightarrow> ('w, 'h) lxq_ctx \<Rightarrow> (bytes option \<times> ('w, 'h) lxq_ctx) option" where
  "lxq_pull_that ops seq s =
     (if seq = XMQ_U64_MAX then Some (None, s)
      else (case get_db_handler s seq of
          None \<Rightarrow> Some (None, s)
        | Some db \<Rightarrow>
            (case lxq_load_string_bin ops (db_handler db) (snprintf XMQ_KEY_LEN (pad20 seq)) s of (res, s) \<Rightarrow>
             case res of
               KV_LOAD_FAIL \<Rightarrow> None
             | KV_LOAD_NULL \<Rightarrow> Some (None, s)
             | KV_LOAD_SUCC v \<Rightarrow> Some (Some v, s))))"

primrec put_consumer :: "lxq_consumer list \<Rightarrow> nat \<Rightarrow> nat \<Rightarrow> lxq_consumer list" where
  "put_consumer [] a pos = []"
| "put_consumer (c # cs) a pos = (if lc_addr c = a then c\<lparr>last_fetch_seq := pos\<rparr> # cs else c # put_consumer cs a pos)"

definition consumer_at :: "('w, 'h) lxq_ctx \<Rightarrow> nat \<Rightarrow> lxq_consumer option" where
  "consumer_at s a = find (\<lambda>c. lc_addr c = a) (list_consumers s)"

definition lxq_update_that :: "('w, 'h) lxq_ops \<Rightarrow> nat \<Rightarrow> nat \<Rightarrow> ('w, 'h) lxq_ctx \<Rightarrow> (int \<times> ('w, 'h) lxq_ctx) option" where
  "lxq_update_that ops a seq s = do {
     c \<leftarrow> consumer_at s a;
     let (r, s) = lxq_write_uint64 ops (g_state_ctx s) (fetch_key c) seq s;
     Some (if r \<noteq> 0 then (-1, s) else (0, s\<lparr>list_consumers := put_consumer (list_consumers s) a seq\<rparr>)) }"

definition lxq_fetch_position :: "('w, 'h) lxq_ctx \<Rightarrow> nat \<Rightarrow> nat option" where
  "lxq_fetch_position s a = map_option last_fetch_seq (consumer_at s a)"

end
