(* ===== verification/Lxq_Driver.thy ===== *)
theory Lxq_Driver
  imports Lxq_Queue
begin

text \<open>
  The storage of the message sequence: the locale \<open>lxq_store\<close> states what \<^verbatim>\<open>lib/libxmq\<close> relies on of its callbacks, the
  driver \<^verbatim>\<open>programs/pole-M/src/storage_impl.c\<close> implements them over LevelDB, and the sublocale of \<open>leveldb_dir\<close>
  discharges the laws for a LevelDB without errors.
\<close>

section \<open>The storage\<close>

text \<open>A storage that does not fail: a handle stands for a named database, and its entries are
  those put there last.\<close>

locale lxq_store =
  fixes ops :: "('w, 'h) lxq_ops" and dbname :: "'h \<Rightarrow> bytes" and content :: "'w \<Rightarrow> bytes \<Rightarrow> bytes \<Rightarrow> bytes option"
  assumes init_law: "kv_ctx_init ops w n = (res, w') \<Longrightarrow> (\<exists>k. res = Some k \<and> dbname k = n) \<and> content w' = content w"
    and put_law: "kv_put1 ops w h k v = (r, w') \<Longrightarrow>
      r = 0 \<and> content w' = (content w)(dbname h := (content w (dbname h))(k := Some v))"
    and get_law: "kv_get1 ops w h k = (r, val, w') \<Longrightarrow> r \<noteq> -1 \<and> val = content w (dbname h) k \<and> content w' = content w"

section \<open>The LevelDB driver of pole-M\<close>

text \<open>The calls of \<^verbatim>\<open>leveldb/c.h\<close> the driver uses. A boolean of a creating call is whether it returned an object,
  that of the others whether \<^verbatim>\<open>*errptr\<close> is set.\<close>

record ('w, 'd) leveldb_lib =
  ll_calloc :: "'w \<Rightarrow> bool \<times> 'w"
  ll_options_create :: "'w \<Rightarrow> bool \<times> 'w"
  ll_readoptions_create :: "'w \<Rightarrow> bool \<times> 'w"
  ll_writeoptions_create :: "'w \<Rightarrow> bool \<times> 'w"
  ll_open :: "'w \<Rightarrow> bytes \<Rightarrow> 'd option \<times> 'w"
  ll_put :: "'w \<Rightarrow> 'd \<Rightarrow> bytes \<Rightarrow> bytes \<Rightarrow> bool \<times> 'w"
  ll_writebatch_create :: "'w \<Rightarrow> bool \<times> 'w"
  ll_write :: "'w \<Rightarrow> 'd \<Rightarrow> (bytes \<times> bytes) list \<Rightarrow> bool \<times> 'w"
  ll_get :: "'w \<Rightarrow> 'd \<Rightarrow> bytes \<Rightarrow> bool \<times> bytes option \<times> 'w"
  ll_close :: "'w \<Rightarrow> 'd \<Rightarrow> 'w"
  ll_writeoptions_destroy :: "'w \<Rightarrow> 'w"
  ll_readoptions_destroy :: "'w \<Rightarrow> 'w"
  ll_options_destroy :: "'w \<Rightarrow> 'w"

record 'd pole_pvt =
  pp_db :: "'d option"
  pp_options :: bool
  pp_roptions :: bool
  pp_woptions :: bool

definition pole_pvt_destroy :: "('w, 'd) leveldb_lib \<Rightarrow> 'w \<Rightarrow> 'd pole_pvt option \<Rightarrow> 'w" where
  "pole_pvt_destroy L w pvt =
     (case pvt of
        None \<Rightarrow> w
      | Some p \<Rightarrow>
          let w = (case pp_db p of None \<Rightarrow> w | Some d \<Rightarrow> ll_close L w d);
              w = (if pp_woptions p then ll_writeoptions_destroy L w else w);
              w = (if pp_roptions p then ll_readoptions_destroy L w else w)
          in if pp_options p then ll_options_destroy L w else w)"

definition pole_pvt_create :: "('w, 'd) leveldb_lib \<Rightarrow> 'w \<Rightarrow> bytes \<Rightarrow> 'd pole_pvt option \<times> 'w" where
  "pole_pvt_create L w path =
     (let (ok, w) = ll_calloc L w; p = \<lparr>pp_db = None, pp_options = False, pp_roptions = False, pp_woptions = False\<rparr> in
      if \<not> ok then (None, w)
      else let (ok, w) = ll_options_create L w in
      if \<not> ok then (None, pole_pvt_destroy L w (Some p))
      else let p = p\<lparr>pp_options := True\<rparr>; (ok, w) = ll_readoptions_create L w in
      if \<not> ok then (None, pole_pvt_destroy L w (Some p))
      else let p = p\<lparr>pp_roptions := True\<rparr>; (ok, w) = ll_writeoptions_create L w in
      if \<not> ok then (None, pole_pvt_destroy L w (Some p))
      else let p = p\<lparr>pp_woptions := True\<rparr>; (db, w) = ll_open L w path in
      case db of
        None \<Rightarrow> (None, pole_pvt_destroy L w (Some p))
      | Some d \<Rightarrow> (Some (p\<lparr>pp_db := Some d\<rparr>), w))"

text \<open>\<^term>\<open>None\<close> is a call on a null database.\<close>

definition pole_ldb_put :: "('w, 'd) leveldb_lib \<Rightarrow> 'w \<Rightarrow> 'd pole_pvt \<Rightarrow> (bytes \<times> bytes) list \<Rightarrow> (int \<times> 'w) option" where
  "pole_ldb_put L w p kvs =
     (case kvs of
        [] \<Rightarrow> Some (-1, w)
      | [(k, v)] \<Rightarrow> do { d \<leftarrow> pp_db p; let (err, w) = ll_put L w d k v; Some (if err then -1 else 0, w) }
      | _ \<Rightarrow>
          let (ok, w) = ll_writebatch_create L w in
          if \<not> ok then Some (-1, w)
          else do { d \<leftarrow> pp_db p; let (err, w) = ll_write L w d kvs; Some (if err then -1 else 0, w) })"

text \<open>After an error every value is freed, the ones not yet read as well.\<close>

primrec pole_get_loop :: "('w, 'd) leveldb_lib \<Rightarrow> 'd \<Rightarrow> 'w \<Rightarrow> bytes list \<Rightarrow> bytes option list \<Rightarrow> (int \<times> bytes option list \<times> 'w) option" where
  "pole_get_loop L d w [] vs = Some (0, vs, w)"
| "pole_get_loop L d w (k # ks) vs =
     (let (err, v, w) = ll_get L w d k in
      if err then do { asserting (ks = []); Some (-1, [], w) } else pole_get_loop L d w ks (vs @ [v]))"

definition pole_ldb_get :: "('w, 'd) leveldb_lib \<Rightarrow> 'w \<Rightarrow> 'd pole_pvt \<Rightarrow> bytes list \<Rightarrow> (int \<times> bytes option list \<times> 'w) option" where
  "pole_ldb_get L w p ks = (if ks = [] then Some (0, [], w) else do { d \<leftarrow> pp_db p; pole_get_loop L d w ks [] })"

text \<open>The callbacks given to \<^verbatim>\<open>xmq_context_init\<close> by \<^verbatim>\<open>main\<close>. A handle that was created is complete, so it is
  known by its database; puts and gets of one pair on it are defined.\<close>

definition pole_pvt_of :: "'d \<Rightarrow> 'd pole_pvt" where
  "pole_pvt_of d = \<lparr>pp_db = Some d, pp_options = True, pp_roptions = True, pp_woptions = True\<rparr>"

lemma pole_pvt_create_complete: "pole_pvt_create L w path = (Some p, w') \<Longrightarrow> \<exists>d. p = pole_pvt_of d"
  by (auto simp: pole_pvt_create_def pole_pvt_of_def Let_def split: prod.splits if_splits option.splits)

definition pole_ops :: "('w, 'd) leveldb_lib \<Rightarrow> ('w, 'd) lxq_ops" where
  "pole_ops L =
     \<lparr>kv_ctx_init = (\<lambda>w n. case pole_pvt_create L w n of (p, w) \<Rightarrow> (Option.bind p pp_db, w)),
      kv_put1 = (\<lambda>w d k v. case pole_ldb_put L w (pole_pvt_of d) [(k, v)] of Some r \<Rightarrow> r | None \<Rightarrow> (-1, w)),
      kv_get1 = (\<lambda>w d k. case pole_ldb_get L w (pole_pvt_of d) [k] of
         Some (r, [v], w) \<Rightarrow> (r, v, w) | Some (r, _, w) \<Rightarrow> (r, None, w) | None \<Rightarrow> (-1, None, w)),
      kv_ctx_free = (\<lambda>w d. pole_pvt_destroy L w (Some (pole_pvt_of d)))\<rparr>"

lemma pole_ops_defined: "pole_ldb_put L w (pole_pvt_of d) [(k, v)] \<noteq> None" "pole_ldb_get L w (pole_pvt_of d) [k] \<noteq> None"
  by (auto simp: pole_ldb_put_def pole_ldb_get_def pole_pvt_of_def Let_def split: prod.splits)

text \<open>A LevelDB without errors: an open database stands for its directory, whose entries are those
  put there last.\<close>

locale leveldb_dir =
  fixes L :: "('w, 'd) leveldb_lib" and path_of :: "'d \<Rightarrow> bytes" and files :: "'w \<Rightarrow> bytes \<Rightarrow> bytes \<Rightarrow> bytes option"
  assumes calloc_law: "fst (ll_calloc L w) \<and> files (snd (ll_calloc L w)) = files w"
    and options_law: "fst (ll_options_create L w) \<and> files (snd (ll_options_create L w)) = files w"
    and readoptions_law: "fst (ll_readoptions_create L w) \<and> files (snd (ll_readoptions_create L w)) = files w"
    and writeoptions_law: "fst (ll_writeoptions_create L w) \<and> files (snd (ll_writeoptions_create L w)) = files w"
    and open_law: "\<exists>d w'. ll_open L w n = (Some d, w') \<and> path_of d = n \<and> files w' = files w"
    and put_law: "\<exists>w'. ll_put L w d k v = (False, w') \<and> files w' = (files w)(path_of d := (files w (path_of d))(k := Some v))"
    and get_law: "\<exists>w'. ll_get L w d k = (False, files w (path_of d) k, w') \<and> files w' = files w"

sublocale leveldb_dir \<subseteq> pole: lxq_store "pole_ops L" path_of files
proof
  fix w n res w'
  assume a: "kv_ctx_init (pole_ops L) w n = (res, w')"
  obtain w1 where w1: "ll_calloc L w = (True, w1)" "files w1 = files w" using calloc_law [of w] by (metis prod.collapse)
  obtain w2 where w2: "ll_options_create L w1 = (True, w2)" "files w2 = files w1" using options_law [of w1] by (metis prod.collapse)
  obtain w3 where w3: "ll_readoptions_create L w2 = (True, w3)" "files w3 = files w2" using readoptions_law [of w2] by (metis prod.collapse)
  obtain w4 where w4: "ll_writeoptions_create L w3 = (True, w4)" "files w4 = files w3" using writeoptions_law [of w3] by (metis prod.collapse)
  obtain d w5 where w5: "ll_open L w4 n = (Some d, w5)" "path_of d = n" "files w5 = files w4" using open_law [of w4 n] by blast
  have "kv_ctx_init (pole_ops L) w n = (Some d, w5)"
    using w1(1) w2(1) w3(1) w4(1) w5(1) by (simp add: pole_ops_def pole_pvt_create_def)
  then show "(\<exists>k. res = Some k \<and> path_of k = n) \<and> files w' = files w" using a w1(2) w2(2) w3(2) w4(2) w5(2,3) by simp
next
  fix w h k v r w'
  assume "kv_put1 (pole_ops L) w h k v = (r, w')"
  then show "r = 0 \<and> files w' = (files w)(path_of h := (files w (path_of h))(k := Some v))"
    using put_law [of w h k v] by (auto simp: pole_ops_def pole_ldb_put_def pole_pvt_of_def)
next
  fix w h k r val w'
  assume "kv_get1 (pole_ops L) w h k = (r, val, w')"
  then show "r \<noteq> -1 \<and> val = files w (path_of h) k \<and> files w' = files w"
    using get_law [of w h k] by (auto simp: pole_ops_def pole_ldb_get_def pole_pvt_of_def)
qed

context leveldb_dir
begin

lemma pole_laws: "lxq_store (pole_ops L) path_of files"
  by unfold_locales

end

text \<open>Directories in memory.\<close>

definition mem_dirs :: "(bytes \<Rightarrow> bytes \<Rightarrow> bytes option, bytes) leveldb_lib" where
  "mem_dirs = \<lparr>ll_calloc = Pair True, ll_options_create = Pair True, ll_readoptions_create = Pair True, ll_writeoptions_create = Pair True,
     ll_open = (\<lambda>w n. (Some n, w)), ll_put = (\<lambda>w d k v. (False, w(d := (w d)(k := Some v)))), ll_writebatch_create = Pair True,
     ll_write = (\<lambda>w d kvs. (False, w(d := put_all kvs (w d)))), ll_get = (\<lambda>w d k. (False, w d k, w)),
     ll_close = (\<lambda>w d. w), ll_writeoptions_destroy = id, ll_readoptions_destroy = id, ll_options_destroy = id\<rparr>"

interpretation mem_dir: leveldb_dir mem_dirs "\<lambda>d. d" "\<lambda>w. w"
  by unfold_locales (auto simp: mem_dirs_def)

end
