(* ===== verification/Lxq_Chain.thy ===== *)
theory Lxq_Chain
  imports Lxq_Driver
begin

text \<open>
  The chain of databases: names of the ranges and lists of names read back what was written, a push writes
  into the database of its number, a pull reads from it, and opening a context on a storage loads
  every range, every name and every position.
\<close>

section \<open>Numbers of fixed width\<close>

lemma pad20_length: "n < 10 ^ 20 \<Longrightarrow> length (pad20 n) = 20"
  using dec_nat_length [of 20 n] by (simp add: pad20_def)

lemma pad20_digits: "list_all is_digit (pad20 n)"
  using dec_nat_digits [of n] by (auto simp: pad20_def list_all_iff is_digit_def)

lemma digits_value_zeros: "digits_value (replicate k 0x30 @ ds) = digits_value ds"
  by (induction k) (simp_all add: digits_value_def)

lemma pad20_value: "digits_value (pad20 n) = n"
  by (simp add: pad20_def digits_value_zeros digits_value_dec)

lemma pad20_inj: "pad20 m = pad20 n \<longleftrightarrow> m = n"
  by (metis pad20_value)

lemma u64_bound: "n < 2 ^ 64 \<Longrightarrow> n < (10::nat) ^ 20"
  by simp

lemma pad20_fits: "n < 2 ^ 64 \<Longrightarrow> snprintf XMQ_KEY_LEN (pad20 n) = pad20 n"
  using pad20_length [OF u64_bound, of n] by (simp add: snprintf_def XMQ_KEY_LEN_def)

lemma strtoull_pad:
  assumes "n < 2 ^ 64" "r = [] \<or> \<not> is_digit (hd r)"
  shows "strtoull (pad20 n @ r) = n"
proof -
  obtain b bs where p: "pad20 n = b # bs" using pad20_length [OF u64_bound [OF assms(1)]] by (cases "pad20 n") auto
  have "is_digit b" using pad20_digits [of n] p by simp
  then have "dropWhile is_space (pad20 n @ r) = pad20 n @ r" using p digit_not_special by simp
  moreover have "takeWhile is_digit (pad20 n @ r) = pad20 n"
    using pad20_digits [of n] assms(2) by (subst takeWhile_append2) (auto simp: list_all_iff, cases r, auto)
  ultimately show ?thesis using assms(1) by (simp add: strtoull_def pad20_value XMQ_U64_MAX_def)
qed

lemma dbname_text:
  assumes "a < 2 ^ 64" "a + off < 2 ^ 64"
  shows "get_KV_dbname a off = pad20 a @ 0x2D # pad20 (a + off)" "length (get_KV_dbname a off) = 41"
proof -
  show "get_KV_dbname a off = pad20 a @ 0x2D # pad20 (a + off)"
    using assms pad20_length [OF u64_bound [OF assms(1)]] pad20_length [OF u64_bound [OF assms(2)]]
    unfolding get_KV_dbname_def by (simp add: pad20_fits) (simp add: ascii_def snprintf_def XMQ_DBNAME_LEN_def)
  then show "length (get_KV_dbname a off) = 41"
    using pad20_length [OF u64_bound [OF assms(1)]] pad20_length [OF u64_bound [OF assms(2)]] by simp
qed

lemma dbname_parts:
  assumes "a < 2 ^ 64" "a + off < 2 ^ 64"
  shows "strtoull (get_KV_dbname a off) = a" "strtoull (drop XMQ_KEY_LEN (get_KV_dbname a off)) = a + off"
proof -
  have "\<not> is_digit 0x2D" by (simp add: is_digit_def word_le_nat_alt)
  then show "strtoull (get_KV_dbname a off) = a"
    using strtoull_pad [OF assms(1), of "0x2D # pad20 (a + off)"] dbname_text(1) [OF assms] by simp
  have "drop XMQ_KEY_LEN (get_KV_dbname a off) = pad20 (a + off)"
    using dbname_text(1) [OF assms] pad20_length [OF u64_bound [OF assms(1)]] by (simp add: XMQ_KEY_LEN_def)
  then show "strtoull (drop XMQ_KEY_LEN (get_KV_dbname a off)) = a + off"
    using strtoull_pad [OF assms(2), of "[]"] by simp
qed

section \<open>Name lists\<close>

definition lxq_name :: "bytes \<Rightarrow> bool" where
  "lxq_name n \<longleftrightarrow> n \<noteq> [] \<and> comma \<notin> set n \<and> 0 \<notin> set n \<and> length n < XMQ_IDENTITY_LEN"

fun name_csv :: "bytes list \<Rightarrow> bytes" where
  "name_csv [] = []"
| "name_csv [n] = n"
| "name_csv (n # m # ns) = n @ comma # name_csv (m # ns)"

lemma lxq_csv_loop_comma [simp]: "lxq_csv_loop (comma # bs) = lxq_csv_loop bs"
  by simp

lemma lxq_csv_loop_name:
  assumes "n \<noteq> []" "comma \<notin> set n"
  shows "lxq_csv_loop n = [n]" "lxq_csv_loop (n @ comma # r) = n # lxq_csv_loop r"
proof -
  obtain b bs where n: "n = b # bs" "b \<noteq> comma" using assms by (cases n) auto
  have t: "takeWhile (\<lambda>c. c \<noteq> comma) n = n" "dropWhile (\<lambda>c. c \<noteq> comma) n = []"
    using assms(2) by (auto simp: takeWhile_eq_all_conv dropWhile_eq_Nil_conv)
  show "lxq_csv_loop n = [n]" using n t by (metis lxq_csv_loop.simps)
  have t: "takeWhile (\<lambda>c. c \<noteq> comma) (n @ comma # r) = n" "dropWhile (\<lambda>c. c \<noteq> comma) (n @ comma # r) = comma # r"
    using assms(2) by (auto simp: dropWhile_append3 takeWhile_tail)
  have "lxq_csv_loop (b # (bs @ comma # r)) = takeWhile (\<lambda>c. c \<noteq> comma) (b # bs @ comma # r) # lxq_csv_loop (dropWhile (\<lambda>c. c \<noteq> comma) (b # bs @ comma # r))"
    using n(2) by (simp only: lxq_csv_loop.simps if_False)
  then show "lxq_csv_loop (n @ comma # r) = n # lxq_csv_loop r" using t n(1) by simp
qed

lemma lxq_csv_loop_join: "\<forall>n \<in> set ns. n \<noteq> [] \<and> comma \<notin> set n \<Longrightarrow> lxq_csv_loop (name_csv ns) = ns"
  by (induction ns rule: name_csv.induct) (simp_all add: lxq_csv_loop_name del: lxq_csv_loop.simps(2))

text \<open>The count of the fields is never too small, so the array is not overrun.\<close>

lemma count_ends_fields:
  "count_ends prev bs comma =
     (if prev = comma then length (lxq_csv_loop bs) else 1 + length (lxq_csv_loop (dropWhile (\<lambda>c. c \<noteq> comma) bs)))"
  by (induction bs arbitrary: prev) auto

lemma lxq_csv_loop_count: "count_ends b bs comma = length (lxq_csv_loop (b # bs))"
  by (simp add: count_ends_fields)

lemma csv_parse_join:
  assumes "ns \<noteq> []" "\<forall>n \<in> set ns. n \<noteq> [] \<and> comma \<notin> set n"
  shows "lxq_csv_parse_string True True (name_csv ns) = Some (int (length ns), ns)"
proof -
  obtain b bs where j: "name_csv ns = b # bs"
    using assms by (cases ns rule: name_csv.cases; cases "name_csv ns") auto
  have l: "lxq_csv_loop (name_csv ns) = ns" by (rule lxq_csv_loop_join [OF assms(2)])
  then have "number_of_fields (name_csv ns) comma = Some (length ns)"
    using lxq_csv_loop_count [of b bs] j by (simp add: number_of_fields_def)
  then show ?thesis by (simp add: lxq_csv_parse_string_def l)
qed

section \<open>Stored messages\<close>

definition kvstate :: bytes where "kvstate = ascii ''./kvstate''"

definition range_path :: "bytes \<Rightarrow> nat \<Rightarrow> nat \<Rightarrow> bytes" where
  "range_path path R i = path @ ascii ''/'' @ get_KV_dbname (i * R + 1) (R - 1)"

text \<open>The message numbered \<open>q\<close> is in the database of its range, and nowhere else.\<close>

definition messages_stored ::
  "('w \<Rightarrow> bytes \<Rightarrow> bytes \<Rightarrow> bytes option) \<Rightarrow> bytes \<Rightarrow> nat \<Rightarrow> bytes list \<Rightarrow> 'w \<Rightarrow> bool" where
  "messages_stored content path R msgs w \<longleftrightarrow>
     (\<forall>i q. i * R + R < 2 ^ 64 \<longrightarrow> q < 2 ^ 64 \<longrightarrow>
        content w (range_path path R i) (pad20 q @ [0]) =
          (if 1 \<le> q \<and> q \<le> length msgs \<and> (q - 1) div R = i then Some (msgs ! (q - 1)) else None))"

definition is_chain :: "('h \<Rightarrow> bytes) \<Rightarrow> bytes \<Rightarrow> nat \<Rightarrow> nat \<Rightarrow> 'h lxq_db list \<Rightarrow> bool" where
  "is_chain dbname path R K dbs \<longleftrightarrow> length dbs = K \<and>
     (\<forall>i < K. db_start (dbs ! i) = i * R + 1 \<and> db_end (dbs ! i) = i * R + R \<and> dbname (db_handler (dbs ! i)) = range_path path R i)"

definition lxq_holds ::
  "('h \<Rightarrow> bytes) \<Rightarrow> ('w \<Rightarrow> bytes \<Rightarrow> bytes \<Rightarrow> bytes option) \<Rightarrow> bytes \<Rightarrow> nat \<Rightarrow> nat \<Rightarrow> bytes list \<Rightarrow> ('w, 'h) lxq_ctx \<Rightarrow> bool" where
  "lxq_holds dbname content path R K msgs s \<longleftrightarrow>
     kv_db_path s = path \<and> kv_max_records s = R \<and> dbname (g_state_ctx s) = kvstate \<and>
     last_write_db_seq s = length msgs + 1 \<and> l_allocs s = [] \<and>
     is_chain dbname path R K (list_databases s) \<and> 1 \<le> K \<and> (K - 1) * R \<le> length msgs \<and> length msgs \<le> K * R \<and>
     last_write_db s = Some (list_databases s ! (K - 1)) \<and>
     content (l_kv s) kvstate (XMQ_DATABASE_WRITEPOS @ [0]) = Some (le64 (of_nat (length msgs + 1))) \<and>
     messages_stored content path R msgs (l_kv s)"

text \<open>Everything but the messages is as before.\<close>

definition same_names :: "('w \<Rightarrow> bytes \<Rightarrow> bytes \<Rightarrow> bytes option) \<Rightarrow> ('w, 'h) lxq_ctx \<Rightarrow> ('w, 'h) lxq_ctx \<Rightarrow> bool" where
  "same_names content s t \<longleftrightarrow> list_producers t = list_producers s \<and> list_consumers t = list_consumers s \<and> l_fresh t = l_fresh s \<and>
     (\<forall>k. k \<noteq> XMQ_DATABASE_WRITEPOS @ [0] \<longrightarrow> content (l_kv t) kvstate k = content (l_kv s) kvstate k)"

lemma range_div:
  fixes i q R :: nat
  assumes "0 < R"
  shows "i * R + 1 \<le> q \<and> q \<le> i * R + R \<longleftrightarrow> 1 \<le> q \<and> (q - 1) div R = i"
proof
  assume a: "i * R + 1 \<le> q \<and> q \<le> i * R + R"
  have "(q - 1) div R = i" by (rule div_nat_eqI) (use a in \<open>auto simp: mult.commute\<close>)
  then show "1 \<le> q \<and> (q - 1) div R = i" using a by simp
next
  assume a: "1 \<le> q \<and> (q - 1) div R = i"
  have "i * R \<le> q - 1" using a by (metis div_times_less_eq_dividend)
  moreover have "q - 1 < i * R + R" using a dividend_less_div_times [OF assms, of "q - 1"] by simp
  ultimately show "i * R + 1 \<le> q \<and> q \<le> i * R + R" using a by (cases q) auto
qed

lemma find_unique:
  assumes "x \<in> set xs" "P x" "\<And>y. y \<in> set xs \<Longrightarrow> P y \<Longrightarrow> y = x"
  shows "find P xs = Some x"
proof (cases "find P xs")
  case None
  then show ?thesis using assms(1,2) by (simp add: find_None_iff)
next
  case (Some y)
  then have "y \<in> set xs" "P y" by (auto simp: find_Some_iff)
  then show ?thesis using Some assms(3) by simp
qed

lemma chain_handler:
  assumes "is_chain dbname path R K (list_databases s)" "0 < R"
  shows "get_db_handler s q = (if 1 \<le> q \<and> (q - 1) div R < K then Some (list_databases s ! ((q - 1) div R)) else None)"
proof -
  define P where "P = (\<lambda>db :: 'a lxq_db. db_start db \<le> q \<and> q \<le> db_end db)"
  have P: "P (list_databases s ! i) \<longleftrightarrow> 1 \<le> q \<and> (q - 1) div R = i" if "i < K" for i
    using that assms(1) range_div [OF assms(2), of i q] by (simp add: P_def is_chain_def)
  have el: "\<exists>i < K. db = list_databases s ! i" if "db \<in> set (list_databases s)" for db
    using that assms(1) by (auto simp: is_chain_def in_set_conv_nth)
  show ?thesis
  proof (cases "1 \<le> q \<and> (q - 1) div R < K")
    case True
    have "find P (rev (list_databases s)) = Some (list_databases s ! ((q - 1) div R))"
    proof (rule find_unique)
      show "list_databases s ! ((q - 1) div R) \<in> set (rev (list_databases s))"
        using True assms(1) by (simp add: is_chain_def)
      show "P (list_databases s ! ((q - 1) div R))" using True P by simp
      fix y assume "y \<in> set (rev (list_databases s))" "P y"
      then show "y = list_databases s ! ((q - 1) div R)" using el P by (metis set_rev)
    qed
    then show ?thesis using True by (simp add: get_db_handler_def P_def)
  next
    case False
    have "\<not> P db" if "db \<in> set (list_databases s)" for db using False P el [OF that] by auto
    then have "find P (rev (list_databases s)) = None" by (simp add: find_None_iff)
    then show ?thesis using False by (simp add: get_db_handler_def P_def)
  qed
qed

lemma range_bound: "i * R + R < 2 ^ 64 \<Longrightarrow> 1 \<le> R \<Longrightarrow> i * R + 1 < 2 ^ 64 \<and> i * R + 1 + (R - 1) < (2::nat) ^ 64"
  by simp

lemma range_start_inj:
  assumes "i * R + R < 2 ^ 64" "j * R + R < 2 ^ 64" "1 \<le> R"
    and "get_KV_dbname (i * R + 1) (R - 1) = get_KV_dbname (j * R + 1) (R - 1)"
  shows "i = j"
proof -
  have "i * R + 1 = j * R + 1"
    using dbname_parts(1) [OF conjunct1 [OF range_bound [OF assms(1,3)]] conjunct2 [OF range_bound [OF assms(1,3)]]]
      dbname_parts(1) [OF conjunct1 [OF range_bound [OF assms(2,3)]] conjunct2 [OF range_bound [OF assms(2,3)]]]
    unfolding assms(4) by (rule trans [OF sym])
  then show ?thesis using assms(3) by simp
qed

lemma range_path_inj:
  assumes "i * R + R < 2 ^ 64" "j * R + R < 2 ^ 64" "1 \<le> R"
  shows "range_path path R i = range_path path R j \<longleftrightarrow> i = j"
  using range_start_inj [OF assms] by (auto simp: range_path_def)

lemma range_path_state: "i * R + R < 2 ^ 64 \<Longrightarrow> 1 \<le> R \<Longrightarrow> range_path path R i \<noteq> kvstate"
proof
  assume a: "i * R + R < 2 ^ 64" "1 \<le> R" "range_path path R i = kvstate"
  have "length (range_path path R i) \<ge> 41"
    using dbname_text(2) [OF conjunct1 [OF range_bound [OF a(1,2)]] conjunct2 [OF range_bound [OF a(1,2)]]]
    by (simp add: range_path_def)
  then show False using a(3) by (simp add: kvstate_def ascii_def)
qed


context lxq_store
begin

abbreviation holds :: "bytes \<Rightarrow> nat \<Rightarrow> nat \<Rightarrow> bytes list \<Rightarrow> ('w, 'h) lxq_ctx \<Rightarrow> bool" where
  "holds \<equiv> lxq_holds dbname content"

lemma lx_load:
  obtains w where "lxq_load_string_bin ops h key s =
      (case content (l_kv s) (dbname h) (key @ [0]) of None \<Rightarrow> KV_LOAD_NULL | Some v \<Rightarrow> KV_LOAD_SUCC v, s\<lparr>l_kv := w\<rparr>)"
    "content w = content (l_kv s)"
proof -
  obtain r val w where g: "kv_get1 ops (l_kv s) h (key @ [0]) = (r, val, w)" by (metis prod_cases3)
  then have "r \<noteq> -1 \<and> val = content (l_kv s) (dbname h) (key @ [0]) \<and> content w = content (l_kv s)" by (rule get_law)
  then show ?thesis using that [of w] g by (simp add: lxq_load_string_bin_def)
qed

lemma lx_write:
  assumes "val \<noteq> []"
  obtains w where "lxq_write_string_bin ops h key val s = (0, s\<lparr>l_kv := w\<rparr>)"
    "content w = (content (l_kv s))(dbname h := (content (l_kv s) (dbname h))(key @ [0] := Some val))"
proof -
  obtain r w where g: "kv_put1 ops (l_kv s) h (key @ [0]) val = (r, w)" by fastforce
  then have "r = 0 \<and> content w = (content (l_kv s))(dbname h := (content (l_kv s) (dbname h))(key @ [0] := Some val))"
    by (rule put_law)
  then show ?thesis using that [of w] g assms by (simp add: lxq_write_string_bin_def)
qed

lemma lx_write64:
  obtains w where "lxq_write_uint64 ops h key n s = (0, s\<lparr>l_kv := w\<rparr>)"
    "content w = (content (l_kv s))(dbname h := (content (l_kv s) (dbname h))(key @ [0] := Some (le64 (of_nat n))))"
proof -
  have "le64 (of_nat n) \<noteq> []" by (simp add: le64_def numeral_eq_Suc)
  then show ?thesis using lx_write [of "le64 (of_nat n)" h key s] that by (auto simp: lxq_write_uint64_def)
qed

lemma load_db:
  assumes "l_allocs s = []" "i * R + R < 2 ^ 64" "1 \<le> R" "kv_db_path s = path"
  obtains w k where "load_database ops (get_KV_dbname (i * R + 1) (R - 1)) s =
      Some (0, s\<lparr>l_kv := w, list_databases := list_databases s @ [\<lparr>db_start = i * R + 1, db_end = i * R + R,
        db_name = get_KV_dbname (i * R + 1) (R - 1), db_handler = k\<rparr>]\<rparr>)"
    "content w = content (l_kv s)" "dbname k = range_path path R i"
proof -
  note b = range_bound [OF assms(2,3)]
  obtain h w where g: "kv_ctx_init ops (l_kv s) (kv_db_path s @ ascii ''/'' @ get_KV_dbname (i * R + 1) (R - 1)) = (h, w)"
    by fastforce
  then obtain k where k: "h = Some k" "dbname k = kv_db_path s @ ascii ''/'' @ get_KV_dbname (i * R + 1) (R - 1)"
    "content w = content (l_kv s)" using init_law [OF g] by auto
  have p: "strtoull (get_KV_dbname (i * R + 1) (R - 1)) = i * R + 1"
    "strtoull (drop XMQ_KEY_LEN (get_KV_dbname (i * R + 1) (R - 1))) = i * R + R"
    "XMQ_KEY_LEN \<le> length (get_KV_dbname (i * R + 1) (R - 1))"
    using dbname_parts [OF conjunct1 [OF b] conjunct2 [OF b]] dbname_text(2) [OF conjunct1 [OF b] conjunct2 [OF b]] assms(3)
    by (simp_all add: XMQ_KEY_LEN_def)
  have "load_database ops (get_KV_dbname (i * R + 1) (R - 1)) s =
      Some (0, s\<lparr>l_kv := w, list_databases := list_databases s @ [\<lparr>db_start = i * R + 1, db_end = i * R + R,
        db_name = get_KV_dbname (i * R + 1) (R - 1), db_handler = k\<rparr>]\<rparr>)"
    unfolding load_database_def g using k(1) p assms(1) by (simp add: Let_def lcalloc_def)
  then show ?thesis using that k assms(4) by (simp add: range_path_def)
qed

lemma chain_snoc:
  "is_chain dbname path R K dbs \<Longrightarrow> db_start db = K * R + 1 \<Longrightarrow> db_end db = K * R + R \<Longrightarrow>
   dbname (db_handler db) = range_path path R K \<Longrightarrow> is_chain dbname path R (K + 1) (dbs @ [db])"
  by (auto simp: is_chain_def nth_append less_Suc_eq)

text \<open>A full last database is followed by a new one.\<close>

lemma push_opens:
  assumes "holds path R K msgs s" "2 \<le> R" "length msgs + R < 2 ^ 64"
  obtains s1 where "(if last_write_db_seq s mod kv_max_records s = 1 then open_database ops (last_write_db_seq s) s else Some (0, s)) = Some (0, s1)"
    "holds path R (length msgs div R + 1) msgs s1" "same_names content s s1"
proof -
  define n where "n = length msgs"
  have s: "kv_max_records s = R" "last_write_db_seq s = n + 1" "is_chain dbname path R K (list_databases s)" "1 \<le> K"
    "(K - 1) * R \<le> n" "n \<le> K * R" "l_allocs s = []" "kv_db_path s = path" "length (list_databases s) = K"
    using assms(1) by (simp_all add: lxq_holds_def n_def is_chain_def)
  have R: "0 < R" "1 \<le> R" using assms(2) by simp_all
  have q: "K - 1 \<le> n div R" using s(5) R(1) by (simp add: less_eq_div_iff_mult_less_eq)
  have q2: "n div R \<le> K" using div_le_mono [OF s(6), of R] R(1) by simp
  have m: "(n + 1) mod R = 1 \<longleftrightarrow> n mod R = 0" using assms(2) by (simp add: mod_Suc)
  show ?thesis
  proof (cases "n div R = K")
    case False
    then have k: "K = n div R + 1" using q q2 s(4) by simp
    then have "get_db_handler s (n + 1) \<noteq> None" using chain_handler [OF s(3) R(1), of "n + 1"] by simp
    then show ?thesis using that [of s] assms(1) s k by (simp add: open_database_def same_names_def n_def)
  next
    case True
    then have n: "n = K * R" using s(6) by (metis div_mult_self_is_m div_times_less_eq_dividend le_antisym)
    have bound: "K * R + R < 2 ^ 64" using assms(3) n by (simp add: n_def)
    obtain w k where d: "load_database ops (get_KV_dbname (K * R + 1) (R - 1)) s =
      Some (0, s\<lparr>l_kv := w, list_databases := list_databases s @ [\<lparr>db_start = K * R + 1, db_end = K * R + R,
        db_name = get_KV_dbname (K * R + 1) (R - 1), db_handler = k\<rparr>]\<rparr>)"
      "content w = content (l_kv s)" "dbname k = range_path path R K"
      by (rule load_db [OF s(7) bound R(2) s(8)])
    define db where "db = \<lparr>db_start = K * R + 1, db_end = K * R + R, db_name = get_KV_dbname (K * R + 1) (R - 1), db_handler = k\<rparr>"
    define t where "t = s\<lparr>l_kv := w, list_databases := list_databases s @ [db]\<rparr>"
    have c: "is_chain dbname path R (K + 1) (list_databases t)"
      using chain_snoc [OF s(3), of db] d(3) by (simp add: t_def db_def)
    have h: "get_db_handler s (n + 1) = None" "get_db_handler t (n + 1) = Some db"
      using chain_handler [OF s(3) R(1), of "n + 1"] chain_handler [OF c R(1), of "n + 1"] True s(9)
      by (simp_all add: t_def nth_append)
    have "open_database ops (n + 1) s = Some (0, t\<lparr>last_write_db := Some db\<rparr>)"
      using h d(1) s(1) n by (simp add: open_database_def t_def db_def)
    moreover have "(n + 1) mod R = 1" using m n by simp
    moreover have "holds path R (n div R + 1) msgs (t\<lparr>last_write_db := Some db\<rparr>)"
      using assms(1) c True n s(9) d(2) by (auto simp: lxq_holds_def t_def n_def nth_append messages_stored_def)
    ultimately show ?thesis using that [of "t\<lparr>last_write_db := Some db\<rparr>"] s(1,2) d(2)
      by (simp add: n_def same_names_def t_def)
  qed
qed

end

lemma msg_stored_next:
  assumes "messages_stored content path R msgs w" "1 \<le> R" "length msgs + R < 2 ^ 64"
    and "content w' = (content w)(range_path path R (length msgs div R) :=
           (content w (range_path path R (length msgs div R)))(pad20 (length msgs + 1) @ [0] := Some b), kvstate := X)"
  shows "messages_stored content path R (msgs @ [b]) w'"
  unfolding messages_stored_def
proof (intro allI impI)
  fix i q :: nat
  define n where "n = length msgs"
  assume a: "i * R + R < 2 ^ 64" "q < 2 ^ 64"
  have "n div R * R \<le> n" by simp
  then have bound: "n div R * R + R < 2 ^ 64" using assms(3) unfolding n_def by linarith
  have old: "content w (range_path path R i) (pad20 q @ [0]) = (if 1 \<le> q \<and> q \<le> n \<and> (q - 1) div R = i then Some (msgs ! (q - 1)) else None)"
    using assms(1) a by (simp add: messages_stored_def n_def)
  have "content w' (range_path path R i) (pad20 q @ [0]) = (if i = n div R \<and> q = n + 1 then Some b else content w (range_path path R i) (pad20 q @ [0]))"
    using assms(4) range_path_state [OF a(1) assms(2), of path] range_path_inj [OF a(1) bound assms(2), of path]
    by (simp add: n_def pad20_inj)
  also have "\<dots> = (if 1 \<le> q \<and> q \<le> length (msgs @ [b]) \<and> (q - 1) div R = i then Some ((msgs @ [b]) ! (q - 1)) else None)"
    unfolding old by (auto simp: nth_append n_def le_Suc_eq Suc_le_eq)
  finally show "content w' (range_path path R i) (pad20 q @ [0]) =
     (if 1 \<le> q \<and> q \<le> length (msgs @ [b]) \<and> (q - 1) div R = i then Some ((msgs @ [b]) ! (q - 1)) else None)" .
qed

definition lxq_msg_ok :: "lxq_msg \<Rightarrow> bool" where
  "lxq_msg_ok m \<longleftrightarrow> lm_len m = of_nat (length (lm_data m)) \<and> 8 + length (lm_data m) < 2 ^ 64"

lemma msg_ok_bytes:
  assumes "lxq_msg_ok m"
  shows "lxq_msg_total_size m = length (lxq_msg_bytes m)" "lxq_msg_bytes m \<noteq> []"
proof -
  have "lxq_msg_total_size m = unat (of_nat (8 + length (lm_data m)) :: u64)"
    using assms unfolding lxq_msg_total_size_def lxq_msg_ok_def by simp
  also have "\<dots> = 8 + length (lm_data m)"
    using assms unfolding lxq_msg_ok_def unat_of_nat by (intro mod_less) simp
  finally show "lxq_msg_total_size m = length (lxq_msg_bytes m)" by (simp add: lxq_msg_bytes_def)
  have "length (lxq_msg_bytes m) \<noteq> 0" by (simp add: lxq_msg_bytes_def)
  then show "lxq_msg_bytes m \<noteq> []" by auto
qed

lemma same_names_trans: "same_names c s t \<Longrightarrow> same_names c t u \<Longrightarrow> same_names c s u"
  by (simp add: same_names_def)

context lxq_store
begin

lemma push_tail:
  assumes "holds path R K msgs s" "2 \<le> R" "length msgs + R + 1 < 2 ^ 64" "lxq_msg_ok m"
  obtains t K' where "lxq_push_tail ops m s = Some (0, t)" "holds path R K' (msgs @ [lxq_msg_bytes m]) t" "same_names content s t"
proof -
  define n where "n = length msgs"
  have R: "1 \<le> R" "length msgs + R < 2 ^ 64" using assms(2,3) by simp_all
  obtain s1 where s1: "(if last_write_db_seq s mod kv_max_records s = 1 then open_database ops (last_write_db_seq s) s else Some (0, s)) = Some (0, s1)"
    "holds path R (n div R + 1) msgs s1" "same_names content s s1"
    unfolding n_def by (rule push_opens [OF assms(1,2) R(2)])
  define db where "db = list_databases s1 ! (n div R)"
  have h: "last_write_db_seq s = n + 1" using assms(1) by (simp add: lxq_holds_def n_def)
  have g: "last_write_db s1 = Some db" "dbname (db_handler db) = range_path path R (n div R)" "dbname (g_state_ctx s1) = kvstate"
    "messages_stored content path R msgs (l_kv s1)"
    using s1(2) by (simp_all add: lxq_holds_def db_def is_chain_def)
  note b = msg_ok_bytes [OF assms(4)]
  obtain w1 where w1: "lxq_write_string_bin ops (db_handler db) (pad20 (n + 1)) (lxq_msg_bytes m) s1 = (0, s1\<lparr>l_kv := w1\<rparr>)"
    "content w1 = (content (l_kv s1))(range_path path R (n div R) := (content (l_kv s1) (range_path path R (n div R)))(pad20 (n + 1) @ [0] := Some (lxq_msg_bytes m)))"
    using lx_write [OF b(2)] unfolding g(2) [symmetric] by blast
  obtain w2 where w2: "lxq_write_uint64 ops (g_state_ctx s1) XMQ_DATABASE_WRITEPOS (n + 1 + 1) (s1\<lparr>l_kv := w1\<rparr>) = (0, s1\<lparr>l_kv := w2\<rparr>)"
    "content w2 = (content w1)(kvstate := (content w1 kvstate)(XMQ_DATABASE_WRITEPOS @ [0] := Some (le64 (of_nat (n + 1 + 1)))))"
    by (rule lx_write64 [of "g_state_ctx s1" XMQ_DATABASE_WRITEPOS "n + 1 + 1" "s1\<lparr>l_kv := w1\<rparr>"]) (simp add: g(3))
  define t where "t = s1\<lparr>l_kv := w2, last_write_db_seq := n + 1 + 1\<rparr>"
  have room: "n div R * R \<le> Suc n" "Suc n \<le> R + n div R * R"
    using dividend_less_div_times [of R n] R(1) div_times_less_eq_dividend [of n R] by linarith+
  have "n div R * R + R < 2 ^ 64" using div_times_less_eq_dividend [of n R] R(2) unfolding n_def by linarith
  then have apart: "kvstate \<noteq> range_path path R (n div R)" using range_path_state [of "n div R" R path] R(1) by metis
  have "n + 1 \<noteq> XMQ_U64_MAX" using assms(2,3) by (simp add: n_def XMQ_U64_MAX_def)
  then have "lxq_push_tail ops m s = Some (0, t)"
    unfolding lxq_push_tail_def Let_def s1(1) using w1(1) w2(1) b pad20_fits [of "n + 1"] assms(3) g(1)
    by (simp add: h t_def n_def)
  moreover have "messages_stored content path R (msgs @ [lxq_msg_bytes m]) w2"
    by (rule msg_stored_next [OF g(4) R]) (simp add: w2(2) w1(2) n_def)
  then have "holds path R (n div R + 1) (msgs @ [lxq_msg_bytes m]) t"
    using s1(2) w2(2) room by (simp add: lxq_holds_def t_def n_def)
  moreover have "same_names content s1 t"
    using apart by (simp add: same_names_def t_def w2(2) w1(2))
  then have "same_names content s t" using s1(3) by (rule same_names_trans [rotated])
  ultimately show ?thesis by (rule that)
qed

lemma pull_that:
  assumes "holds path R K msgs s" "1 \<le> R" "length msgs + R + 1 < 2 ^ 64" "q < 2 ^ 64"
  obtains w where "lxq_pull_that ops q s = Some (if 1 \<le> q \<and> q \<le> length msgs then Some (msgs ! (q - 1)) else None, s\<lparr>l_kv := w\<rparr>)"
    "content w = content (l_kv s)"
proof -
  have h: "is_chain dbname path R K (list_databases s)" "(K - 1) * R \<le> length msgs" "length msgs \<le> K * R" "1 \<le> K"
    "messages_stored content path R msgs (l_kv s)" using assms(1) by (simp_all add: lxq_holds_def)
  have R: "0 < R" using assms(2) by simp
  show ?thesis
  proof (cases "q \<noteq> XMQ_U64_MAX \<and> 1 \<le> q \<and> (q - 1) div R < K")
    case True
    define i where "i = (q - 1) div R"
    have i: "i < K" using True by (simp add: i_def)
    then have "i * R \<le> (K - 1) * R" by (intro mult_right_mono) simp_all
    then have b: "i * R + R < 2 ^ 64" using h(2) assms(3) by linarith
    have d: "dbname (db_handler (list_databases s ! i)) = range_path path R i" using h(1) i by (simp add: is_chain_def)
    obtain w where w: "lxq_load_string_bin ops (db_handler (list_databases s ! i)) (pad20 q) s =
      (case content (l_kv s) (range_path path R i) (pad20 q @ [0]) of None \<Rightarrow> KV_LOAD_NULL | Some v \<Rightarrow> KV_LOAD_SUCC v, s\<lparr>l_kv := w\<rparr>)"
      "content w = content (l_kv s)" unfolding d [symmetric] by (rule lx_load)
    have m: "content (l_kv s) (range_path path R i) (pad20 q @ [0]) = (if q \<le> length msgs then Some (msgs ! (q - 1)) else None)"
      using h(5) b assms(4) True by (simp add: messages_stored_def i_def)
    have "get_db_handler s q = Some (list_databases s ! i)" using chain_handler [OF h(1) R, of q] True by (simp add: i_def)
    then show ?thesis using that [of w] w m True pad20_fits [OF assms(4)] by (simp add: lxq_pull_that_def)
  next
    case False
    have "\<not> (1 \<le> q \<and> q \<le> length msgs)"
    proof
      assume a: "1 \<le> q \<and> q \<le> length msgs"
      then have "q - 1 < K * R" using h(3) by linarith
      then have "(q - 1) div R < K" using R by (simp add: less_mult_imp_div_less)
      then show False using False a assms(2,3) by (simp add: XMQ_U64_MAX_def)
    qed
    then show ?thesis using that [of "l_kv s"] False chain_handler [OF h(1) R, of q]
      by (auto simp: lxq_pull_that_def)
  qed
qed

end

section \<open>Opening\<close>

abbreviation range_name :: "nat \<Rightarrow> nat \<Rightarrow> bytes" where
  "range_name R i \<equiv> get_KV_dbname (i * R + 1) (R - 1)"

lemma name_csv_ends: "ns \<noteq> [] \<Longrightarrow> concat (map (\<lambda>n. n @ [comma]) ns) = name_csv ns @ [comma]"
  by (induction ns rule: name_csv.induct) simp_all

lemma name_csv_snoc: "name_csv (ns @ [n]) = (if ns = [] then n else name_csv ns @ comma # n)"
proof (induction ns rule: name_csv.induct)
  case (3 a b ns)
  then show ?case by simp
qed simp_all

lemma name_csv_bytes: "set (name_csv ns) \<subseteq> insert comma (\<Union>n \<in> set ns. set n)"
  by (induction ns rule: name_csv.induct) auto

lemma dbname_loop_names:
  assumes "1 \<le> R" "n + R + 1 < 2 ^ 64" "i \<le> n div R + 1" "length val = i * 42"
  shows "dbname_loop (n + 1) R ((n div R + 1) * 42 + 1) (i * R + 1) val =
     Some (val @ concat (map (\<lambda>j. range_name R j @ [comma]) [i..<n div R + 1]))"
  using assms(3,4)
proof (induction "n div R + 1 - i" arbitrary: i val)
  case 0
  then have i: "i = n div R + 1" by simp
  have "n < i * R" using dividend_less_div_times [of R n] assms(1) i by simp
  then show ?case by (subst dbname_loop.simps) (simp add: i)
next
  case (Suc k)
  then have i: "i \<le> n div R" by simp
  have "i * R \<le> n div R * R" using i by simp
  then have le: "i * R \<le> n" using div_times_less_eq_dividend [of n R] by linarith
  have b: "i * R + 1 < 2 ^ 64" "i * R + 1 + (R - 1) < 2 ^ 64" using le assms(1,2) by linarith+
  have len: "length (range_name R i) = 41" by (rule dbname_text(2) [OF b])
  have m: "(i * R + 1 + R) mod 2 ^ 64 = Suc i * R + 1" using le assms(2) by (subst mod_less) auto
  have "length (val @ range_name R i @ [comma]) = Suc i * 42" using Suc.prems(2) len by simp
  then have IH: "dbname_loop (n + 1) R ((n div R + 1) * 42 + 1) (Suc i * R + 1) (val @ range_name R i @ [comma]) =
      Some ((val @ range_name R i @ [comma]) @ concat (map (\<lambda>j. range_name R j @ [comma]) [Suc i..<n div R + 1]))"
    using Suc.hyps i by (intro Suc.hyps(1)) simp_all
  have room: "length (val @ range_name R i @ [comma]) < (n div R + 1) * 42 + 1" using Suc.prems(2) len i by simp
  have up: "[i..<n div R + 1] = i # [Suc i..<n div R + 1]" using i by (simp add: upt_conv_Cons)
  show ?case using le room IH m unfolding up by (subst dbname_loop.simps) (simp add: Let_def del: upt_Suc)
qed

lemma need_count: "1 \<le> R \<Longrightarrow> GET_NEED_COUNT (n + 1) R = n div R + 1"
  by (auto simp: GET_NEED_COUNT_def div_Suc mod_Suc)

lemma database_names_all:
  assumes "1 \<le> R" "n + R + 1 < 2 ^ 64" "l_allocs s = []" "kv_max_records s = R"
  shows "database_names (n + 1) s = Some (name_csv (map (range_name R) [0..<n div R + 1]), s)"
proof -
  define ns where "ns = map (range_name R) [0..<n div R + 1]"
  have c: "concat (map (\<lambda>j. range_name R j @ [comma]) [0..<n div R + 1]) = name_csv ns @ [comma]"
    using name_csv_ends [of ns] by (simp add: ns_def comp_def del: upt_Suc)
  have l: "dbname_loop (n + 1) R ((n div R + 1) * 42 + 1) 1 [] = Some (name_csv ns @ [comma])"
    using dbname_loop_names [OF assms(1,2), of 0 "[]"] c by simp
  have each: "length (range_name R j @ [comma]) = 42" if "j < n div R + 1" for j
  proof -
    have "j * R \<le> n div R * R" using that by simp
    then have "j * R + 1 + (R - 1) < 2 ^ 64" using assms(1,2) div_times_less_eq_dividend [of n R] by linarith
    then show ?thesis using dbname_text(2) [of "j * R + 1" "R - 1"] by simp
  qed
  have "length (name_csv ns @ [comma]) = sum_list (map (\<lambda>j. 42) [0..<n div R + 1])"
    unfolding c [symmetric] length_concat map_map using each by (intro arg_cong [where f = sum_list] map_cong) auto
  also have "\<dots> = (n div R + 1) * 42" by (simp add: sum_list_triv del: upt_Suc)
  finally have len: "length (name_csv ns) = (n div R + 1) * 42 - 1" by simp
  show ?thesis unfolding ns_def [symmetric] using assms(3,4) l len need_count [OF assms(1)]
    by (simp add: database_names_def lcalloc_def Let_def XMQ_DBNAME_LEN_def)
qed

lemma range_name_ok:
  assumes "1 \<le> R" "i * R + R < 2 ^ 64"
  shows "range_name R i \<noteq> []" "comma \<notin> set (range_name R i)" "lxq_field_name XMQ_DBNAME_LEN (range_name R i) = Some (range_name R i)"
proof -
  have b: "i * R + 1 < 2 ^ 64" "i * R + 1 + (R - 1) < 2 ^ 64" using assms by linarith+
  have "\<not> is_digit comma \<and> comma \<noteq> 0x2D" by (simp add: is_digit_def word_le_nat_alt comma_def)
  then show "comma \<notin> set (range_name R i)"
    using pad20_digits unfolding dbname_text(1) [OF b] list_all_iff by auto
  show "range_name R i \<noteq> []" using dbname_text(1) [OF b] by simp
  show "lxq_field_name XMQ_DBNAME_LEN (range_name R i) = Some (range_name R i)"
    using dbname_text(2) [OF b] by (simp add: lxq_field_name_def XMQ_DBNAME_LEN_def)
qed

lemma strtoull_dec:
  assumes "n < 2 ^ 64"
  shows "strtoull (snprintf XMQ_KEY_LEN (dec_nat n)) = n"
proof -
  have "length (dec_nat n) \<le> 20" using assms by (intro dec_nat_length) simp_all
  then have s: "snprintf XMQ_KEY_LEN (dec_nat n) = dec_nat n" by (simp add: snprintf_def XMQ_KEY_LEN_def)
  obtain b bs where d: "dec_nat n = b # bs" "is_digit b" "list_all is_digit bs" by (rule dec_nat_cons)
  have "dropWhile is_space (dec_nat n) = dec_nat n" using d digit_not_special by simp
  moreover have "takeWhile is_digit (dec_nat n) = dec_nat n" using dec_nat_digits [of n] by (intro takeWhile_digits) simp
  ultimately show ?thesis using s assms by (simp only: strtoull_def digits_value_dec) (simp add: XMQ_U64_MAX_def)
qed

text \<open>Names in the storage and in memory.\<close>

definition names_stored ::
  "('w \<Rightarrow> bytes \<Rightarrow> bytes \<Rightarrow> bytes option) \<Rightarrow> bytes list \<Rightarrow> (bytes \<times> nat) list \<Rightarrow> 'w \<Rightarrow> bool" where
  "names_stored content ps cs w \<longleftrightarrow>
     content w kvstate (XMQ_PRODUCERS @ [0]) = (if ps = [] then None else Some (name_csv ps @ [0])) \<and>
     content w kvstate (XMQ_CONSUMERS @ [0]) = (if cs = [] then None else Some (name_csv (map fst cs) @ [0])) \<and>
     (\<forall>(c, pos) \<in> set cs. pos < 2 ^ 64 \<and> content w kvstate (key_of_consumer_fetchpos c @ [0]) = Some (le64 (of_nat pos))) \<and>
     (\<forall>n \<in> set ps \<union> fst ` set cs. lxq_name n) \<and> distinct ps \<and> distinct (map fst cs)"

definition names_loaded :: "bytes list \<Rightarrow> (bytes \<times> nat) list \<Rightarrow> ('w, 'h) lxq_ctx \<Rightarrow> bool" where
  "names_loaded ps cs s \<longleftrightarrow> map lp_identity (list_producers s) = ps \<and>
     map (\<lambda>c. (lc_identity c, last_fetch_seq c)) (list_consumers s) = cs \<and>
     (\<forall>c \<in> set (list_consumers s). fetch_key c = key_of_consumer_fetchpos (lc_identity c) \<and> lc_addr c < l_fresh s) \<and>
     distinct (map lc_addr (list_consumers s))"

lemma names_no_zero: "\<forall>n \<in> set ns. lxq_name n \<Longrightarrow> 0 \<notin> set (name_csv ns)"
  using name_csv_bytes [of ns] by (auto simp: lxq_name_def comma_def)

lemma load_producers_all:
  assumes "l_allocs s = []" "\<forall>n \<in> set ns. lxq_name n"
  shows "\<exists>P f. load_producers ns s = Some (0, s\<lparr>list_producers := list_producers s @ P, l_fresh := f\<rparr>) \<and> map lp_identity P = ns"
  using assms
proof (induction ns arbitrary: s)
  case Nil
  have "load_producers [] s = Some (0, s\<lparr>list_producers := list_producers s @ [], l_fresh := l_fresh s\<rparr>)" by simp
  then show ?case by blast
next
  case (Cons n ns)
  let ?t = "add_producer n s"
  have "l_allocs ?t = []" using Cons.prems(1) by (simp add: add_producer_def)
  moreover have "load_producers (n # ns) s = load_producers ns ?t"
    using Cons.prems by (simp add: lcalloc_def lxq_field_name_def lxq_name_def)
  ultimately obtain P f where P: "load_producers (n # ns) s = Some (0, ?t\<lparr>list_producers := list_producers ?t @ P, l_fresh := f\<rparr>)"
    "map lp_identity P = ns" using Cons.IH [of ?t] Cons.prems(2) by auto
  then have "load_producers (n # ns) s = Some (0, s\<lparr>list_producers := list_producers s @
      (\<lparr>lp_addr = l_fresh s, lp_identity = n\<rparr> # P), l_fresh := f\<rparr>)" by (simp add: add_producer_def)
  moreover have "map lp_identity (\<lparr>lp_addr = l_fresh s, lp_identity = n\<rparr> # P) = n # ns" using P(2) by simp
  ultimately show ?case by - (intro exI conjI, assumption+)
qed

context lxq_store
begin

lemma lx_load64:
  assumes "content (l_kv s) (dbname h) (key @ [0]) = Some (le64 (of_nat n))" "n < 2 ^ 64"
  obtains w where "lxq_load_uint64 ops h key s = Some (0, n, s\<lparr>l_kv := w\<rparr>)" "content w = content (l_kv s)"
proof -
  obtain w where w: "lxq_load_string_bin ops h key s =
      (case content (l_kv s) (dbname h) (key @ [0]) of None \<Rightarrow> KV_LOAD_NULL | Some v \<Rightarrow> KV_LOAD_SUCC v, s\<lparr>l_kv := w\<rparr>)"
    "content w = content (l_kv s)" by (rule lx_load)
  have "unat (of_nat n :: u64) = n" using assms(2) unfolding unat_of_nat by simp
  then show ?thesis using that [of w] w assms(1) by (simp add: lxq_load_uint64_def of_le64_le64)
qed

lemma load_consumers_all:
  assumes "l_allocs s = []" "dbname (g_state_ctx s) = kvstate"
    and "\<forall>(c, pos) \<in> set cs. lxq_name c \<and> pos < 2 ^ 64 \<and> content (l_kv s) kvstate (key_of_consumer_fetchpos c @ [0]) = Some (le64 (of_nat pos))"
  shows "\<exists>C f w. load_consumers ops (map fst cs) s = Some (0, s\<lparr>l_kv := w, list_consumers := list_consumers s @ C, l_fresh := f\<rparr>) \<and>
    map (\<lambda>c. (lc_identity c, last_fetch_seq c)) C = cs \<and> content w = content (l_kv s) \<and> l_fresh s \<le> f \<and>
    (\<forall>c \<in> set C. fetch_key c = key_of_consumer_fetchpos (lc_identity c) \<and> l_fresh s \<le> lc_addr c \<and> lc_addr c < f) \<and> distinct (map lc_addr C)"
  using assms
proof (induction cs arbitrary: s)
  case Nil
  have "load_consumers ops (map fst []) s = Some (0, s\<lparr>l_kv := l_kv s, list_consumers := list_consumers s @ [], l_fresh := l_fresh s\<rparr>)" by simp
  then show ?case by fastforce
next
  case (Cons x cs)
  obtain c pos where x: "x = (c, pos)" by (cases x)
  have e: "lxq_name c" "pos < 2 ^ 64" "content (l_kv s) (dbname (g_state_ctx s)) (key_of_consumer_fetchpos c @ [0]) = Some (le64 (of_nat pos))"
    using Cons.prems x by auto
  obtain w0 where w0: "lxq_load_uint64 ops (g_state_ctx s) (key_of_consumer_fetchpos c) s = Some (0, pos, s\<lparr>l_kv := w0\<rparr>)"
    "content w0 = content (l_kv s)" by (rule lx_load64 [OF e(3,2)])
  define t where "t = add_consumer c pos (s\<lparr>l_kv := w0\<rparr>)"
  define n where "n = \<lparr>lc_addr = l_fresh s, lc_identity = c, fetch_key = key_of_consumer_fetchpos c, last_fetch_seq = pos\<rparr>"
  have step: "load_consumers ops (map fst (x # cs)) s = load_consumers ops (map fst cs) t"
    using Cons.prems(1) e(1) w0(1) by (simp add: x lcalloc_def lxq_field_name_def lxq_name_def t_def)
  have "\<exists>C f w. load_consumers ops (map fst cs) t = Some (0, t\<lparr>l_kv := w, list_consumers := list_consumers t @ C, l_fresh := f\<rparr>) \<and>
    map (\<lambda>c. (lc_identity c, last_fetch_seq c)) C = cs \<and> content w = content (l_kv t) \<and> l_fresh t \<le> f \<and>
    (\<forall>c \<in> set C. fetch_key c = key_of_consumer_fetchpos (lc_identity c) \<and> l_fresh t \<le> lc_addr c \<and> lc_addr c < f) \<and> distinct (map lc_addr C)"
    using Cons.prems w0(2) by (intro Cons.IH) (auto simp: t_def add_consumer_def)
  then obtain C f w where C: "load_consumers ops (map fst cs) t = Some (0, t\<lparr>l_kv := w, list_consumers := list_consumers t @ C, l_fresh := f\<rparr>)"
    "map (\<lambda>c. (lc_identity c, last_fetch_seq c)) C = cs" "content w = content (l_kv t)" "l_fresh t \<le> f"
    "\<forall>c \<in> set C. fetch_key c = key_of_consumer_fetchpos (lc_identity c) \<and> l_fresh t \<le> lc_addr c \<and> lc_addr c < f" "distinct (map lc_addr C)"
    by blast
  have t: "l_fresh t = l_fresh s + 1" "content (l_kv t) = content (l_kv s)"
    "t\<lparr>l_kv := w, list_consumers := list_consumers t @ C, l_fresh := f\<rparr> = s\<lparr>l_kv := w, list_consumers := list_consumers s @ (n # C), l_fresh := f\<rparr>"
    using w0(2) by (simp_all add: t_def add_consumer_def n_def)
  have "load_consumers ops (map fst (x # cs)) s = Some (0, s\<lparr>l_kv := w, list_consumers := list_consumers s @ (n # C), l_fresh := f\<rparr>)"
    using step C(1) t(3) by simp
  moreover have "map (\<lambda>c. (lc_identity c, last_fetch_seq c)) (n # C) = x # cs" using C(2) by (simp add: n_def x)
  moreover have "\<forall>c \<in> set (n # C). fetch_key c = key_of_consumer_fetchpos (lc_identity c) \<and> l_fresh s \<le> lc_addr c \<and> lc_addr c < f"
    using C(4,5) t(1) by (auto simp: n_def)
  moreover have "distinct (map lc_addr (n # C))" using C(5,6) t(1) by (fastforce simp: n_def)
  moreover have "content w = content (l_kv s)" using C(3) t(2) by simp
  moreover have "l_fresh s \<le> f" using C(4) t(1) by simp
  ultimately show ?case by - (intro exI conjI, assumption+)
qed

lemma load_chain:
  assumes "is_chain dbname path R i (list_databases s)" "l_allocs s = []" "kv_db_path s = path" "1 \<le> R" "i \<le> K"
    and "(K - 1) * R + R < 2 ^ 64"
  shows "\<exists>w dbs. load_databases ops (map (range_name R) [i..<K]) s = Some (0, s\<lparr>l_kv := w, list_databases := dbs\<rparr>) \<and>
    content w = content (l_kv s) \<and> is_chain dbname path R K dbs"
  using assms(1-3,5)
proof (induction "K - i" arbitrary: i s)
  case 0
  then have "load_databases ops (map (range_name R) [i..<K]) s = Some (0, s\<lparr>l_kv := l_kv s, list_databases := list_databases s\<rparr>)" "i = K" by simp_all
  then show ?case using 0 by blast
next
  case (Suc k)
  then have i: "i < K" by simp
  then have "i * R \<le> (K - 1) * R" by (intro mult_right_mono) simp_all
  then have b: "i * R + R < 2 ^ 64" using assms(6) by linarith
  obtain w h where d: "load_database ops (range_name R i) s =
      Some (0, s\<lparr>l_kv := w, list_databases := list_databases s @ [\<lparr>db_start = i * R + 1, db_end = i * R + R,
        db_name = range_name R i, db_handler = h\<rparr>]\<rparr>)"
    "content w = content (l_kv s)" "dbname h = range_path path R i"
    by (rule load_db [OF Suc.prems(2) b assms(4) Suc.prems(3)])
  define t where "t = s\<lparr>l_kv := w, list_databases := list_databases s @ [\<lparr>db_start = i * R + 1, db_end = i * R + R, db_name = range_name R i, db_handler = h\<rparr>]\<rparr>"
  have step: "load_databases ops (map (range_name R) [i..<K]) s = load_databases ops (map (range_name R) [Suc i..<K]) t"
    using d(1) range_name_ok(3) [OF assms(4) b] upt_conv_Cons [OF i] by (simp add: t_def)
  have "is_chain dbname path R (Suc i) (list_databases t)"
    using chain_snoc [OF Suc.prems(1), of "\<lparr>db_start = i * R + 1, db_end = i * R + R, db_name = range_name R i, db_handler = h\<rparr>"] d(3)
    by (simp add: t_def)
  then have "\<exists>w dbs. load_databases ops (map (range_name R) [Suc i..<K]) t = Some (0, t\<lparr>l_kv := w, list_databases := dbs\<rparr>) \<and>
    content w = content (l_kv t) \<and> is_chain dbname path R K dbs"
    using Suc.hyps(2) Suc.prems(2,3) i by (intro Suc.hyps(1)) (simp_all add: t_def)
  then obtain v dbs where "load_databases ops (map (range_name R) [Suc i..<K]) t = Some (0, t\<lparr>l_kv := v, list_databases := dbs\<rparr>)"
    "content v = content (l_kv t)" "is_chain dbname path R K dbs" by blast
  moreover have "t\<lparr>l_kv := v, list_databases := dbs\<rparr> = s\<lparr>l_kv := v, list_databases := dbs\<rparr>" by (simp add: t_def)
  ultimately show ?case using step d(2) by (auto simp: t_def)
qed

end

context lxq_store
begin

lemma load_database_list:
  assumes "1 \<le> R" "n + R + 1 < 2 ^ 64" "l_allocs s = []" "kv_max_records s = R" "kv_db_path s = path" "list_databases s = []"
  obtains w dbs where "lxq_load_string_list ops (snprintf XMQ_KEY_LEN (dec_nat (n + 1))) XMQ_TYPE_DATABASE s =
      Some (int (n div R + 1), s\<lparr>l_kv := w, list_databases := dbs\<rparr>)"
    "content w = content (l_kv s)" "is_chain dbname path R (n div R + 1) dbs"
proof -
  define ns where "ns = map (range_name R) [0..<n div R + 1]"
  have b: "(n div R + 1 - 1) * R + R < 2 ^ 64" using assms(2) div_times_less_eq_dividend [of n R] unfolding diff_add_inverse2 by linarith
  have "\<forall>m \<in> set ns. m \<noteq> [] \<and> comma \<notin> set m"
  proof
    fix m assume "m \<in> set ns"
    then obtain j where j: "m = range_name R j" "j \<le> n div R" by (auto simp: ns_def)
    then have "j * R \<le> n div R * R" by simp
    then have "j * R + R < 2 ^ 64" using b unfolding diff_add_inverse2 by linarith
    then show "m \<noteq> [] \<and> comma \<notin> set m" using range_name_ok(1,2) [OF assms(1)] j(1) by simp
  qed
  moreover have "ns \<noteq> []" "length ns = n div R + 1" by (simp_all add: ns_def)
  ultimately have parse: "lxq_csv_parse_string True True (name_csv ns) = Some (int (n div R + 1), ns)"
    using csv_parse_join [of ns] by simp
  have "is_chain dbname path R 0 (list_databases s)" using assms(6) by (simp add: is_chain_def)
  then obtain w dbs where l: "load_databases ops ns s = Some (0, s\<lparr>l_kv := w, list_databases := dbs\<rparr>)"
    "content w = content (l_kv s)" "is_chain dbname path R (n div R + 1) dbs"
    using load_chain [OF _ assms(3,5,1), of 0 "n div R + 1"] b unfolding ns_def by blast
  have "strtoull (snprintf XMQ_KEY_LEN (dec_nat (n + 1))) = n + 1" using assms(2) by (intro strtoull_dec) simp
  then have "lxq_load_string_list ops (snprintf XMQ_KEY_LEN (dec_nat (n + 1))) XMQ_TYPE_DATABASE s =
      Some (int (n div R + 1), s\<lparr>l_kv := w, list_databases := dbs\<rparr>)"
    using database_names_all [OF assms(1-4)] parse l(1) assms(3)
    unfolding ns_def [symmetric] by (simp add: lxq_load_string_list_def lcalloc_def lxq_csv_to_list_def)
  then show ?thesis using l(2,3) that by blast
qed

lemma load_name_list:
  assumes "l_allocs s = []" "dbname (g_state_ctx s) = kvstate" "type \<noteq> XMQ_TYPE_DATABASE" "\<forall>n \<in> set ns. lxq_name n"
    and "content (l_kv s) kvstate (key @ [0]) = (if ns = [] then None else Some (name_csv ns @ [0]))"
    and "\<And>w. content w = content (l_kv s) \<Longrightarrow> \<exists>t. lxq_csv_to_list ops ns type (s\<lparr>l_kv := w\<rparr>) = Some (0, t) \<and> Q t"
  obtains t where "lxq_load_string_list ops key type s = Some (int (length ns), t)" "Q t"
proof -
  obtain w where w: "lxq_load_string_bin ops (g_state_ctx s) key s =
      (case content (l_kv s) kvstate (key @ [0]) of None \<Rightarrow> KV_LOAD_NULL | Some v \<Rightarrow> KV_LOAD_SUCC v, s\<lparr>l_kv := w\<rparr>)"
    "content w = content (l_kv s)" unfolding assms(2) [symmetric] by (rule lx_load)
  obtain t where t: "lxq_csv_to_list ops ns type (s\<lparr>l_kv := w\<rparr>) = Some (0, t)" "Q t" using assms(6) [OF w(2)] by blast
  have p: "lxq_csv_parse_string True True (name_csv ns) = Some (int (length ns), ns)" if "ns \<noteq> []"
    using assms(4) that by (intro csv_parse_join) (auto simp: lxq_name_def)
  have "t = s\<lparr>l_kv := w\<rparr>" if "ns = []" using t(1) assms(3) that by (cases type) (simp_all add: lxq_csv_to_list_def)
  then have "lxq_load_string_list ops key type s = Some (int (length ns), t)"
    using w(1) assms(1,3,5) p names_no_zero [OF assms(4)] t(1)
    by (cases "ns = []") (simp_all add: lxq_load_string_list_def lcalloc_def)
  then show ?thesis using that t(2) by blast
qed

lemma load_producer_names:
  assumes "l_allocs s = []" "dbname (g_state_ctx s) = kvstate" "names_stored content ps cs (l_kv s)" "list_producers s = []"
  obtains w P f where "lxq_load_string_list ops XMQ_PRODUCERS XMQ_TYPE_PRODUCER s =
      Some (int (length ps), s\<lparr>l_kv := w, list_producers := P, l_fresh := f\<rparr>)"
    "content w = content (l_kv s)" "map lp_identity P = ps"
proof -
  have n: "\<forall>n \<in> set ps. lxq_name n"
    "content (l_kv s) kvstate (XMQ_PRODUCERS @ [0]) = (if ps = [] then None else Some (name_csv ps @ [0]))"
    using assms(3) by (simp_all add: names_stored_def)
  define Q where "Q t \<longleftrightarrow> (\<exists>w P f. t = s\<lparr>l_kv := w, list_producers := P, l_fresh := f\<rparr> \<and>
    content w = content (l_kv s) \<and> map lp_identity P = ps)" for t
  have "\<exists>t. lxq_csv_to_list ops ps XMQ_TYPE_PRODUCER (s\<lparr>l_kv := w\<rparr>) = Some (0, t) \<and> Q t" if "content w = content (l_kv s)" for w
    using load_producers_all [of "s\<lparr>l_kv := w\<rparr>" ps] assms(1,4) n(1) that by (auto simp: lxq_csv_to_list_def Q_def)
  then obtain t where "lxq_load_string_list ops XMQ_PRODUCERS XMQ_TYPE_PRODUCER s = Some (int (length ps), t)" "Q t"
    by (rule load_name_list [OF assms(1,2) _ n, rotated]) simp_all
  then show ?thesis using that by (auto simp: Q_def)
qed

lemma load_consumer_names:
  assumes "l_allocs s = []" "dbname (g_state_ctx s) = kvstate" "names_stored content ps cs (l_kv s)" "list_consumers s = []"
  obtains w C f where "lxq_load_string_list ops XMQ_CONSUMERS XMQ_TYPE_CONSUMER s =
      Some (int (length cs), s\<lparr>l_kv := w, list_consumers := C, l_fresh := f\<rparr>)"
    "content w = content (l_kv s)" "map (\<lambda>c. (lc_identity c, last_fetch_seq c)) C = cs"
    "\<forall>c \<in> set C. fetch_key c = key_of_consumer_fetchpos (lc_identity c) \<and> lc_addr c < f" "distinct (map lc_addr C)"
proof -
  have n: "\<forall>n \<in> set (map fst cs). lxq_name n"
    "content (l_kv s) kvstate (XMQ_CONSUMERS @ [0]) = (if map fst cs = [] then None else Some (name_csv (map fst cs) @ [0]))"
    using assms(3) by (auto simp: names_stored_def)
  define Q where "Q t \<longleftrightarrow> (\<exists>w C f. t = s\<lparr>l_kv := w, list_consumers := C, l_fresh := f\<rparr> \<and>
    content w = content (l_kv s) \<and> map (\<lambda>c. (lc_identity c, last_fetch_seq c)) C = cs \<and>
    (\<forall>c \<in> set C. fetch_key c = key_of_consumer_fetchpos (lc_identity c) \<and> lc_addr c < f) \<and> distinct (map lc_addr C))" for t
  have "\<exists>t. lxq_csv_to_list ops (map fst cs) XMQ_TYPE_CONSUMER (s\<lparr>l_kv := w\<rparr>) = Some (0, t) \<and> Q t" if c: "content w = content (l_kv s)" for w
  proof -
    have "\<forall>(c, pos) \<in> set cs. lxq_name c \<and> pos < 2 ^ 64 \<and> content w kvstate (key_of_consumer_fetchpos c @ [0]) = Some (le64 (of_nat pos))"
      using assms(3) c by (force simp: names_stored_def)
    then obtain C f v where C: "load_consumers ops (map fst cs) (s\<lparr>l_kv := w\<rparr>) = Some (0, s\<lparr>l_kv := v, list_consumers := C, l_fresh := f\<rparr>)"
      "map (\<lambda>c. (lc_identity c, last_fetch_seq c)) C = cs" "content v = content w"
      "\<forall>c \<in> set C. fetch_key c = key_of_consumer_fetchpos (lc_identity c) \<and> lc_addr c < f" "distinct (map lc_addr C)"
      using load_consumers_all [of "s\<lparr>l_kv := w\<rparr>" cs] assms(1,2,4) by auto
    have "Q (s\<lparr>l_kv := v, list_consumers := C, l_fresh := f\<rparr>)" unfolding Q_def
      by (rule exI [of _ v], rule exI [of _ C], rule exI [of _ f]) (use C(2-5) c in simp)
    then show ?thesis using C(1) by (simp add: lxq_csv_to_list_def)
  qed
  then obtain t where t: "lxq_load_string_list ops XMQ_CONSUMERS XMQ_TYPE_CONSUMER s = Some (int (length (map fst cs)), t)" "Q t"
    by (rule load_name_list [OF assms(1,2) _ n, rotated]) simp_all
  obtain w C f where "t = s\<lparr>l_kv := w, list_consumers := C, l_fresh := f\<rparr>"
    "content w = content (l_kv s)" "map (\<lambda>c. (lc_identity c, last_fetch_seq c)) C = cs"
    "\<forall>c \<in> set C. fetch_key c = key_of_consumer_fetchpos (lc_identity c) \<and> lc_addr c < f" "distinct (map lc_addr C)"
    using t(2) unfolding Q_def by blast
  then show ?thesis using that [of f C w] t(1) by simp
qed

end

definition store_holds ::
  "('w \<Rightarrow> bytes \<Rightarrow> bytes \<Rightarrow> bytes option) \<Rightarrow> bytes \<Rightarrow> nat \<Rightarrow> bytes list \<Rightarrow> bytes list \<Rightarrow> (bytes \<times> nat) list \<Rightarrow> 'w \<Rightarrow> bool" where
  "store_holds content path R msgs ps cs w \<longleftrightarrow>
     (content w kvstate (XMQ_DATABASE_WRITEPOS @ [0]) = Some (le64 (of_nat (length msgs + 1))) \<or>
      msgs = [] \<and> content w kvstate (XMQ_DATABASE_WRITEPOS @ [0]) = None) \<and>
     messages_stored content path R msgs w \<and> names_stored content ps cs w"

lemma key_apart:
  "key_of_consumer_fetchpos c \<noteq> XMQ_DATABASE_WRITEPOS" "key_of_consumer_fetchpos c \<noteq> XMQ_PRODUCERS"
  "key_of_consumer_fetchpos c \<noteq> XMQ_CONSUMERS" "XMQ_PRODUCERS \<noteq> XMQ_DATABASE_WRITEPOS" "XMQ_CONSUMERS \<noteq> XMQ_DATABASE_WRITEPOS"
  "XMQ_PRODUCERS \<noteq> XMQ_CONSUMERS"
proof -
  have k: "take 5 (rev (key_of_consumer_fetchpos c)) = [0x53, 0x4F, 0x50, 0x48, 0x43]"
    by (simp add: key_of_consumer_fetchpos_def lxq_string_append_3rd_def ascii_def)
  have p: "take 5 (rev XMQ_DATABASE_WRITEPOS) = [0x53, 0x4F, 0x50, 0x45, 0x54]" "take 5 (rev XMQ_PRODUCERS) = [0x53, 0x52, 0x45, 0x43, 0x55]"
    "take 5 (rev XMQ_CONSUMERS) = [0x53, 0x52, 0x45, 0x4D, 0x55]"
    by (simp_all add: XMQ_DATABASE_WRITEPOS_def XMQ_PRODUCERS_def XMQ_CONSUMERS_def ascii_def)
  show "key_of_consumer_fetchpos c \<noteq> XMQ_DATABASE_WRITEPOS" "key_of_consumer_fetchpos c \<noteq> XMQ_PRODUCERS"
    "key_of_consumer_fetchpos c \<noteq> XMQ_CONSUMERS" "XMQ_PRODUCERS \<noteq> XMQ_DATABASE_WRITEPOS" "XMQ_CONSUMERS \<noteq> XMQ_DATABASE_WRITEPOS"
    "XMQ_PRODUCERS \<noteq> XMQ_CONSUMERS" using k p by auto
qed

lemma fetch_key_inj: "key_of_consumer_fetchpos c = key_of_consumer_fetchpos d \<longleftrightarrow> c = d"
  by (simp add: key_of_consumer_fetchpos_def lxq_string_append_3rd_def)

lemmas lxq_keys [simp] = key_apart key_apart [symmetric] fetch_key_inj

lemma stored_cong:
  assumes "content w' = content w"
  shows "messages_stored content path R msgs w' = messages_stored content path R msgs w"
    "names_stored content ps cs w' = names_stored content ps cs w"
  using assms by (simp_all add: messages_stored_def names_stored_def)

lemma names_stored_other:
  assumes "\<And>k. k \<noteq> XMQ_DATABASE_WRITEPOS @ [0] \<Longrightarrow> content w' kvstate k = content w kvstate k"
  shows "names_stored content ps cs w' = names_stored content ps cs w"
  by (simp add: names_stored_def assms)

lemma messages_stored_other:
  assumes "1 \<le> R" "\<And>n. n \<noteq> kvstate \<Longrightarrow> content w' n = content w n"
  shows "messages_stored content path R msgs w' = messages_stored content path R msgs w"
  using range_path_state [OF _ assms(1), of _ path] by (simp add: messages_stored_def assms(2))

context lxq_store
begin

text \<open>The write position is there after the first step of loading.\<close>

lemma load_write_pos:
  assumes "store_holds content path R msgs ps cs (l_kv s)" "dbname (g_state_ctx s) = kvstate" "length msgs + R + 1 < 2 ^ 64" "1 \<le> R"
  obtains w0 p r w where "lxq_load_uint64 ops (g_state_ctx s) XMQ_DATABASE_WRITEPOS s = Some (r, p, s\<lparr>l_kv := w0\<rparr>)" "r \<noteq> -1"
    "(if r = 1 then 1 else p) = length msgs + 1"
    "(if r = 1 then lxq_write_uint64 ops (g_state_ctx s) XMQ_DATABASE_WRITEPOS (length msgs + 1) (s\<lparr>l_kv := w0\<rparr>) else (0, s\<lparr>l_kv := w0\<rparr>)) = (0, s\<lparr>l_kv := w\<rparr>)"
    "content w kvstate (XMQ_DATABASE_WRITEPOS @ [0]) = Some (le64 (of_nat (length msgs + 1)))"
    "messages_stored content path R msgs w" "names_stored content ps cs w"
proof (cases "content (l_kv s) kvstate (XMQ_DATABASE_WRITEPOS @ [0])")
  case None
  then have m: "msgs = []" and st: "messages_stored content path R msgs (l_kv s)" "names_stored content ps cs (l_kv s)"
    using assms(1) unfolding store_holds_def by auto
  obtain w0 where w0: "lxq_load_string_bin ops (g_state_ctx s) XMQ_DATABASE_WRITEPOS s = (KV_LOAD_NULL, s\<lparr>l_kv := w0\<rparr>)"
    "content w0 = content (l_kv s)"
    using None assms(2) by (auto intro: lx_load [of "g_state_ctx s" XMQ_DATABASE_WRITEPOS s])
  obtain w where w: "lxq_write_uint64 ops (g_state_ctx s) XMQ_DATABASE_WRITEPOS 1 (s\<lparr>l_kv := w0\<rparr>) = (0, s\<lparr>l_kv := w\<rparr>)"
    "content w = (content w0)(kvstate := (content w0 kvstate)(XMQ_DATABASE_WRITEPOS @ [0] := Some (le64 (of_nat 1))))"
    by (rule lx_write64 [of "g_state_ctx s" XMQ_DATABASE_WRITEPOS 1 "s\<lparr>l_kv := w0\<rparr>"]) (simp add: assms(2))
  have "messages_stored content path R msgs w" "names_stored content ps cs w"
    using st messages_stored_other [OF assms(4), of content w "l_kv s" path msgs] names_stored_other [of content w "l_kv s" ps cs] w(2) w0(2)
    by simp_all
  then show ?thesis using that [of 1 0 w0 w] w0(1) w m by (simp add: lxq_load_uint64_def)
next
  case (Some v)
  then have st: "content (l_kv s) (dbname (g_state_ctx s)) (XMQ_DATABASE_WRITEPOS @ [0]) = Some (le64 (of_nat (length msgs + 1)))"
    "messages_stored content path R msgs (l_kv s)" "names_stored content ps cs (l_kv s)"
    using assms(1,2) by (simp_all add: store_holds_def)
  have lt: "length msgs + 1 < 2 ^ 64" using assms(3) by simp
  obtain w where w: "lxq_load_uint64 ops (g_state_ctx s) XMQ_DATABASE_WRITEPOS s = Some (0, length msgs + 1, s\<lparr>l_kv := w\<rparr>)" "content w = content (l_kv s)"
    by (rule lx_load64 [OF st(1) lt])
  show ?thesis using that [of 0 "length msgs + 1" w w] w st assms(2) stored_cong [OF w(2)] by simp
qed

lemma context_init:
  assumes "store_holds content path R msgs ps cs w" "1 \<le> R" "length msgs + R + 1 < 2 ^ 64" "length path \<le> 255"
  obtains s where "lxq_context_init ops w (Some path) R 0 [] g = Some (Inr s)" "holds path R (length msgs div R + 1) msgs s"
    "names_stored content ps cs (l_kv s)" "names_loaded ps cs s"
proof -
  define n where "n = length msgs"
  obtain h w1 where i: "kv_ctx_init ops w (ascii ''./kvstate'') = (h, w1)" by fastforce
  then obtain k where k: "h = Some k" "dbname k = kvstate" "content w1 = content w" using init_law [OF i] by (auto simp: kvstate_def)
  define s0 where "s0 = \<lparr>l_kv = w1, kv_db_path = path, kv_max_records = R, g_state_ctx = k, list_databases = [],
                  list_producers = [], list_consumers = [], indicator = 0, last_write_db = None,
                  last_write_db_seq = 0, l_fresh = 1, l_allocs = []\<rparr>"
  have s0: "store_holds content path R msgs ps cs (l_kv s0)" "dbname (g_state_ctx s0) = kvstate"
    using assms(1) k by (simp_all add: s0_def store_holds_def stored_cong [OF k(3)])
  have g0: "g_state_ctx s0 = k" by (simp add: s0_def)
  obtain w2 p r w3 where a: "lxq_load_uint64 ops k XMQ_DATABASE_WRITEPOS s0 = Some (r, p, s0\<lparr>l_kv := w2\<rparr>)" "r \<noteq> -1"
    "(if r = 1 then 1 else p) = n + 1"
    "(if r = 1 then lxq_write_uint64 ops k XMQ_DATABASE_WRITEPOS (n + 1) (s0\<lparr>l_kv := w2\<rparr>) else (0, s0\<lparr>l_kv := w2\<rparr>)) = (0, s0\<lparr>l_kv := w3\<rparr>)"
    "content w3 kvstate (XMQ_DATABASE_WRITEPOS @ [0]) = Some (le64 (of_nat (n + 1)))"
    "messages_stored content path R msgs w3" "names_stored content ps cs w3"
    by (rule load_write_pos [OF s0 assms(3,2), unfolded g0, folded n_def])
  obtain w4 dbs where b: "lxq_load_string_list ops (snprintf XMQ_KEY_LEN (dec_nat (n + 1))) XMQ_TYPE_DATABASE (s0\<lparr>l_kv := w3\<rparr>) =
      Some (int (n div R + 1), s0\<lparr>l_kv := w4, list_databases := dbs\<rparr>)" "content w4 = content w3" "is_chain dbname path R (n div R + 1) dbs"
    by (rule load_database_list [of R n "s0\<lparr>l_kv := w3\<rparr>" path]) (use assms in \<open>simp_all add: s0_def n_def\<close>)
  define s1 where "s1 = s0\<lparr>l_kv := w4, list_databases := dbs, last_write_db_seq := n + 1, last_write_db := Some (dbs ! (n div R))\<rparr>"
  have handler: "get_db_handler (s0\<lparr>l_kv := w4, list_databases := dbs, last_write_db_seq := n + 1\<rparr>) (n + 1) = Some (dbs ! (n div R))"
    using chain_handler [of dbname path R "n div R + 1" "s0\<lparr>l_kv := w4, list_databases := dbs, last_write_db_seq := n + 1\<rparr>" "n + 1"] b(3) assms(2)
    by simp
  have s1: "l_allocs s1 = []" "dbname (g_state_ctx s1) = kvstate" "names_stored content ps cs (l_kv s1)" "list_producers s1 = []"
    using a(7) k(2) by (simp_all add: s1_def s0_def stored_cong [OF b(2)])
  obtain w5 P f5 where c: "lxq_load_string_list ops XMQ_PRODUCERS XMQ_TYPE_PRODUCER s1 = Some (int (length ps), s1\<lparr>l_kv := w5, list_producers := P, l_fresh := f5\<rparr>)"
    "content w5 = content (l_kv s1)" "map lp_identity P = ps" by (rule load_producer_names [OF s1])
  define s2 where "s2 = s1\<lparr>l_kv := w5, list_producers := P, l_fresh := f5\<rparr>"
  have s2: "l_allocs s2 = []" "dbname (g_state_ctx s2) = kvstate" "names_stored content ps cs (l_kv s2)" "list_consumers s2 = []"
    using s1 by (simp_all add: s2_def stored_cong [OF c(2)]) (simp add: s1_def s0_def)
  obtain w6 C f6 where d: "lxq_load_string_list ops XMQ_CONSUMERS XMQ_TYPE_CONSUMER s2 = Some (int (length cs), s2\<lparr>l_kv := w6, list_consumers := C, l_fresh := f6\<rparr>)"
    "content w6 = content (l_kv s2)" "map (\<lambda>c. (lc_identity c, last_fetch_seq c)) C = cs"
    "\<forall>c \<in> set C. fetch_key c = key_of_consumer_fetchpos (lc_identity c) \<and> lc_addr c < f6" "distinct (map lc_addr C)"
    by (rule load_consumer_names [OF s2])
  define s3 where "s3 = s2\<lparr>l_kv := w6, list_consumers := C, l_fresh := f6\<rparr>"
  have "load_all_resouces ops (s0\<lparr>l_kv := w, g_state_ctx := g\<rparr>) = Some (0, s3)"
  proof -
    have e: "s0\<lparr>l_kv := w1, g_state_ctx := k\<rparr> = s0" by (simp add: s0_def)
    show ?thesis unfolding load_all_resouces_def using i k(1) e a(1-4) b(1) handler c(1) d(1)
      by (cases "r = 1") (simp_all add: s1_def s2_def s3_def Let_def)
  qed
  then have "lxq_context_init ops w (Some path) R 0 [] g = Some (Inr s3)"
    using assms(2,4) by (simp add: lxq_context_init_def lcalloc_def s0_def)
  moreover have c3: "content w6 = content w3" using d(2) c(2) b(2) by (simp add: s2_def s1_def)
  then have "holds path R (n div R + 1) msgs s3"
    using a(5,6) b(3) k(2) div_times_less_eq_dividend [of n R] dividend_less_div_times [of R n] assms(2)
    by (simp add: lxq_holds_def s3_def s2_def s1_def s0_def stored_cong [OF c3] n_def)
  moreover have "names_stored content ps cs (l_kv s3)" using a(7) by (simp add: s3_def stored_cong [OF c3])
  moreover have "names_loaded ps cs s3" using c(3) d(3-5) by (simp add: names_loaded_def s3_def s2_def)
  ultimately show ?thesis unfolding n_def by (rule that)
qed

end

end
