(* ===== verification/Lxq_Correct.thy ===== *)
theory Lxq_Correct
  imports Lxq_Chain
begin

text \<open>
  Correctness of \<^verbatim>\<open>lib/libxmq\<close> over the driver of pole-M: the calls of an application refine an abstract log of
  messages, names and positions that outlives the process, and what the code does with one number per
  database, with unregistered consumers and with long names.
\<close>

section \<open>The queue as a log with names and positions\<close>

record lxq_spec =
  sp_msgs :: "lxq_msg list"
  sp_prods :: "bytes list"
  sp_cons :: "(bytes \<times> nat) list"

datatype lxq_call = LPush lxq_msg | LPull nat | LRegisterProducer bytes | LRegisterConsumer bytes
  | LUpdate bytes nat | LPosition bytes | LReopen

datatype lxq_answer = LCode int | LMessage "lxq_msg option" | LAt "nat option"

fun lxq_spec_do :: "lxq_call \<Rightarrow> lxq_spec \<Rightarrow> lxq_answer \<times> lxq_spec" where
  "lxq_spec_do (LPush m) a = (LCode 0, a\<lparr>sp_msgs := sp_msgs a @ [m]\<rparr>)"
| "lxq_spec_do (LPull q) a = (LMessage (if 1 \<le> q \<and> q \<le> length (sp_msgs a) then Some (sp_msgs a ! (q - 1)) else None), a)"
| "lxq_spec_do (LRegisterProducer n) a =
     (if n \<in> set (sp_prods a) then (LCode 1, a) else (LCode 0, a\<lparr>sp_prods := sp_prods a @ [n]\<rparr>))"
| "lxq_spec_do (LRegisterConsumer n) a =
     (if n \<in> fst ` set (sp_cons a) then (LCode 1, a) else (LCode 0, a\<lparr>sp_cons := sp_cons a @ [(n, 1)]\<rparr>))"
| "lxq_spec_do (LUpdate n q) a =
     (if n \<in> fst ` set (sp_cons a) then (LCode 0, a\<lparr>sp_cons := map (\<lambda>(c, p). (c, if c = n then q else p)) (sp_cons a)\<rparr>)
      else (LCode (-1), a))"
| "lxq_spec_do (LPosition n) a = (LAt (map_of (sp_cons a) n), a)"
| "lxq_spec_do LReopen a = (LCode 0, a)"

primrec lxq_spec_run :: "lxq_call list \<Rightarrow> lxq_spec \<Rightarrow> lxq_answer list" where
  "lxq_spec_run [] a = []"
| "lxq_spec_run (c # cs) a = (case lxq_spec_do c a of (r, b) \<Rightarrow> r # lxq_spec_run cs b)"

text \<open>The calls of an application; it uses a consumer it has looked up, and it opens a new context on the
  storage after the process was ended.\<close>

fun lxq_do :: "('w, 'h) lxq_ops \<Rightarrow> bytes \<Rightarrow> nat \<Rightarrow> lxq_call \<Rightarrow> ('w, 'h) lxq_ctx \<Rightarrow> (lxq_answer \<times> ('w, 'h) lxq_ctx) option" where
  "lxq_do ops path R (LPush m) s = do { (r, s) \<leftarrow> lxq_push_tail ops m s; Some (LCode r, s) }"
| "lxq_do ops path R (LPull q) s = do {
     (v, s) \<leftarrow> lxq_pull_that ops q s;
     case v of None \<Rightarrow> Some (LMessage None, s) | Some bin \<Rightarrow> do { m \<leftarrow> lxq_msg_at bin; Some (LMessage (Some m), s) } }"
| "lxq_do ops path R (LRegisterProducer n) s = do { (r, s) \<leftarrow> lxq_register_producer ops n s; Some (LCode r, s) }"
| "lxq_do ops path R (LRegisterConsumer n) s = do { (r, s) \<leftarrow> lxq_register_consumer ops n s; Some (LCode r, s) }"
| "lxq_do ops path R (LUpdate n q) s =
     (case lxq_get_consumer s n of None \<Rightarrow> Some (LCode (-1), s)
      | Some a \<Rightarrow> do { (r, s) \<leftarrow> lxq_update_that ops a q s; Some (LCode r, s) })"
| "lxq_do ops path R (LPosition n) s =
     (case lxq_get_consumer s n of None \<Rightarrow> Some (LAt None, s)
      | Some a \<Rightarrow> do { p \<leftarrow> lxq_fetch_position s a; Some (LAt (Some p), s) })"
| "lxq_do ops path R LReopen s = do {
     r \<leftarrow> lxq_context_init ops (l_kv s) (Some path) R 0 [] (g_state_ctx s);
     case r of Inl w \<Rightarrow> None | Inr s \<Rightarrow> Some (LCode 0, s) }"

primrec lxq_run :: "('w, 'h) lxq_ops \<Rightarrow> bytes \<Rightarrow> nat \<Rightarrow> lxq_call list \<Rightarrow> ('w, 'h) lxq_ctx \<Rightarrow> lxq_answer list option" where
  "lxq_run ops path R [] s = Some []"
| "lxq_run ops path R (c # cs) s = do {
     (r, s) \<leftarrow> lxq_do ops path R c s;
     rs \<leftarrow> lxq_run ops path R cs s;
     Some (r # rs) }"

fun lxq_call_ok :: "lxq_call \<Rightarrow> bool" where
  "lxq_call_ok (LPush m) = lxq_msg_ok m"
| "lxq_call_ok (LPull q) = (q < 2 ^ 64)"
| "lxq_call_ok (LUpdate n q) = (lxq_name n \<and> q < 2 ^ 64)"
| "lxq_call_ok (LRegisterProducer n) = lxq_name n"
| "lxq_call_ok (LRegisterConsumer n) = lxq_name n"
| "lxq_call_ok (LPosition n) = lxq_name n"
| "lxq_call_ok LReopen = True"

definition lxq_is :: "('h \<Rightarrow> bytes) \<Rightarrow> ('w \<Rightarrow> bytes \<Rightarrow> bytes \<Rightarrow> bytes option) \<Rightarrow> bytes \<Rightarrow> nat \<Rightarrow> lxq_spec \<Rightarrow> ('w, 'h) lxq_ctx \<Rightarrow> bool" where
  "lxq_is dbname content path R a s \<longleftrightarrow>
     (\<exists>K. lxq_holds dbname content path R K (map lxq_msg_bytes (sp_msgs a)) s) \<and>
     names_stored content (sp_prods a) (sp_cons a) (l_kv s) \<and> names_loaded (sp_prods a) (sp_cons a) s"

text \<open>The names of the consumers with the addresses of their objects.\<close>

definition cons_addrs :: "('w, 'h) lxq_ctx \<Rightarrow> (bytes \<times> nat) list" where
  "cons_addrs s = map (\<lambda>c. (lc_identity c, lc_addr c)) (list_consumers s)"

lemma lxq_msg_at_bytes: "lxq_msg_at (lxq_msg_bytes m) = Some m"
  by (simp add: lxq_msg_at_def lxq_msg_bytes_def of_le64_le64)

lemma same_names_keeps:
  "same_names content s t \<Longrightarrow>
   names_stored content ps cs (l_kv t) = names_stored content ps cs (l_kv s) \<and> names_loaded ps cs t = names_loaded ps cs s"
  using names_stored_other [of content "l_kv t" "l_kv s" ps cs] by (simp add: same_names_def names_loaded_def)

lemma holds_other:
  assumes "lxq_holds dbname content path R K msgs s" "1 \<le> R"
    and "\<And>n. n \<noteq> kvstate \<Longrightarrow> content w n = content (l_kv s) n"
    and "content w kvstate (XMQ_DATABASE_WRITEPOS @ [0]) = content (l_kv s) kvstate (XMQ_DATABASE_WRITEPOS @ [0])"
  shows "lxq_holds dbname content path R K msgs (s\<lparr>l_kv := w, list_producers := P, list_consumers := C, l_fresh := f\<rparr>)"
  using assms(1,4) messages_stored_other [of R content w "l_kv s", OF assms(2,3)] by (simp add: lxq_holds_def)

lemma found_producer:
  assumes "names_stored content ps cs w" "names_loaded ps cs s"
  shows "lxq_find_producer s n \<noteq> None \<longleftrightarrow> n \<in> set ps"
proof -
  have "\<forall>p \<in> set (list_producers s). same_name (lp_identity p) n \<longleftrightarrow> lp_identity p = n"
    using assms same_name_eq by (auto simp: names_stored_def names_loaded_def lxq_name_def)
  then show ?thesis using assms(2) by (auto simp: lxq_find_producer_def find_None_iff names_loaded_def)
qed

lemma loaded_name: "names_loaded ps cs s \<Longrightarrow> c \<in> set (list_consumers s) \<Longrightarrow> lc_identity c \<in> fst ` set cs"
  by (force simp: names_loaded_def)

lemma found_consumer:
  assumes "names_stored content ps cs w" "names_loaded ps cs s"
  shows "lxq_find_consumer s n = find (\<lambda>c. lc_identity c = n) (list_consumers s)"
    "lxq_find_consumer s n \<noteq> None \<longleftrightarrow> n \<in> fst ` set cs"
proof -
  have "same_name (lc_identity c) n \<longleftrightarrow> lc_identity c = n" if "c \<in> set (list_consumers s)" for c
  proof -
    have "lc_identity c \<in> fst ` set cs" by (rule loaded_name [OF assms(2) that])
    then show ?thesis using assms(1) by (intro same_name_eq) (auto simp: names_stored_def lxq_name_def)
  qed
  then show f: "lxq_find_consumer s n = find (\<lambda>c. lc_identity c = n) (list_consumers s)"
    unfolding lxq_find_consumer_def by (intro find_cong) auto
  show "lxq_find_consumer s n \<noteq> None \<longleftrightarrow> n \<in> fst ` set cs"
    unfolding f using assms(2) by (force simp: find_None_iff names_loaded_def)
qed

lemma names_add_producer:
  assumes "names_stored content ps cs w" "lxq_name n" "n \<notin> set ps"
    and "content w' = (content w)(kvstate := (content w kvstate)(XMQ_PRODUCERS @ [0] := Some (name_csv (ps @ [n]) @ [0])))"
  shows "names_stored content (ps @ [n]) cs w'"
  using assms(1-3) unfolding names_stored_def assms(4) by (auto split: if_splits)

lemma names_add_consumer:
  assumes "names_stored content ps cs w" "lxq_name n" "n \<notin> fst ` set cs"
    and "content w' = (content w)(kvstate := (content w kvstate)(key_of_consumer_fetchpos n @ [0] := Some (le64 (of_nat 1)),
           XMQ_CONSUMERS @ [0] := Some (name_csv (map fst cs @ [n]) @ [0])))"
  shows "names_stored content ps (cs @ [(n, 1)]) w'"
  using assms(1-3) unfolding names_stored_def assms(4) by (auto split: if_splits) force+

lemma names_set_position:
  assumes "names_stored content ps cs w" "q < 2 ^ 64"
    and "content w' = (content w)(kvstate := (content w kvstate)(key_of_consumer_fetchpos n @ [0] := Some (le64 (of_nat q))))"
  shows "names_stored content ps (map (\<lambda>(c, p). (c, if c = n then q else p)) cs) w'"
proof -
  have e: "fst \<circ> (\<lambda>(c, p). (c, if c = n then q else p)) = fst" by (auto simp: fun_eq_iff)
  show ?thesis using assms(1,2) unfolding names_stored_def assms(3) by (auto simp: e split: if_splits) force
qed

lemma names_distinct:
  assumes "names_stored content ps cs w" "names_loaded ps cs s"
  shows "distinct (map lc_addr (list_consumers s))" "distinct (map lc_identity (list_consumers s))"
proof -
  have "map lc_identity (list_consumers s) = map fst cs" using assms(2) by (auto simp: names_loaded_def)
  then show "distinct (map lc_addr (list_consumers s))" "distinct (map lc_identity (list_consumers s))"
    using assms by (simp_all add: names_stored_def names_loaded_def)
qed

lemma put_consumer_map:
  assumes "distinct (map lc_addr C)" "distinct (map lc_identity C)" "c \<in> set C"
  shows "put_consumer C (lc_addr c) q = map (\<lambda>d. if lc_identity d = lc_identity c then d\<lparr>last_fetch_seq := q\<rparr> else d) C"
  using assms
proof (induction C)
  case (Cons d C)
  show ?case
  proof (cases "d = c")
    case True
    then have "map (\<lambda>d. if lc_identity d = lc_identity c then d\<lparr>last_fetch_seq := q\<rparr> else d) C = C"
      using Cons.prems(2) by (intro map_idI) (auto simp: image_iff)
    then show ?thesis using True by simp
  next
    case False
    then have "c \<in> set C" "lc_addr d \<noteq> lc_addr c" "lc_identity d \<noteq> lc_identity c" using Cons.prems by auto
    then show ?thesis using Cons by simp
  qed
qed simp

lemma find_distinct:
  assumes "distinct (map f xs)" "x \<in> set xs"
  shows "find (\<lambda>y. f y = f x) xs = Some x"
  using assms(2) by (intro find_unique) (use assms in \<open>auto dest: inj_onD simp: distinct_map\<close>)

context lxq_store
begin

abbreviation is_log :: "bytes \<Rightarrow> nat \<Rightarrow> lxq_spec \<Rightarrow> ('w, 'h) lxq_ctx \<Rightarrow> bool" where
  "is_log \<equiv> lxq_is dbname content"

lemma append_name:
  assumes "dbname (g_state_ctx s) = kvstate" "l_allocs s = []" "\<forall>n \<in> set ns. lxq_name n"
    and "content (l_kv s) kvstate (key @ [0]) = (if ns = [] then None else Some (name_csv ns @ [0]))"
  obtains w where "lxq_write_back_append ops key n s = Some (0, s\<lparr>l_kv := w\<rparr>)"
    "content w = (content (l_kv s))(kvstate := (content (l_kv s) kvstate)(key @ [0] := Some (name_csv (ns @ [n]) @ [0])))"
proof -
  obtain w0 where w0: "lxq_load_string_bin ops (g_state_ctx s) key s =
      (case content (l_kv s) kvstate (key @ [0]) of None \<Rightarrow> KV_LOAD_NULL | Some v \<Rightarrow> KV_LOAD_SUCC v, s\<lparr>l_kv := w0\<rparr>)"
    "content w0 = content (l_kv s)" unfolding assms(1) [symmetric] by (rule lx_load)
  have ne: "name_csv (ns @ [n]) @ [0] \<noteq> []" by simp
  obtain w where w: "lxq_write_string_bin ops (g_state_ctx s) key (name_csv (ns @ [n]) @ [0]) (s\<lparr>l_kv := w0\<rparr>) = (0, s\<lparr>l_kv := w\<rparr>)"
    "content w = (content w0)(kvstate := (content w0 kvstate)(key @ [0] := Some (name_csv (ns @ [n]) @ [0])))"
    by (rule lx_write [OF ne, of "g_state_ctx s" key "s\<lparr>l_kv := w0\<rparr>"]) (simp add: assms(1))
  have "lxq_write_back_append ops key n s = Some (0, s\<lparr>l_kv := w\<rparr>)"
    using w0(1) w(1) assms(2,4) names_no_zero [OF assms(3)]
    by (cases "ns = []") (simp_all add: lxq_write_back_append_def lcalloc_def lxq_write_string_string_def lxq_string_append_3rd_def name_csv_snoc)
  then show ?thesis using that w(2) w0(2) by simp
qed

lemma log_parts:
  assumes "is_log path R a s"
  obtains K where "holds path R K (map lxq_msg_bytes (sp_msgs a)) s" "names_stored content (sp_prods a) (sp_cons a) (l_kv s)"
    "names_loaded (sp_prods a) (sp_cons a) s" "dbname (g_state_ctx s) = kvstate" "l_allocs s = []"
  using assms unfolding lxq_is_def by (auto simp: lxq_holds_def)

lemma do_register_producer:
  assumes "is_log path R a s" "1 \<le> R" "lxq_name n"
  obtains t where "lxq_do ops path R (LRegisterProducer n) s = Some (fst (lxq_spec_do (LRegisterProducer n) a), t)"
    "is_log path R (snd (lxq_spec_do (LRegisterProducer n) a)) t"
proof (cases "n \<in> set (sp_prods a)")
  case True
  obtain K where "names_stored content (sp_prods a) (sp_cons a) (l_kv s)" "names_loaded (sp_prods a) (sp_cons a) s"
    using assms(1) by (rule log_parts)
  then show ?thesis using that [of s] True assms(1) found_producer [of content "sp_prods a" "sp_cons a" "l_kv s" s n] by (simp add: lxq_register_producer_def)
next
  case False
  obtain K where h: "holds path R K (map lxq_msg_bytes (sp_msgs a)) s" "names_stored content (sp_prods a) (sp_cons a) (l_kv s)"
    "names_loaded (sp_prods a) (sp_cons a) s" "dbname (g_state_ctx s) = kvstate" "l_allocs s = []" using assms(1) by (rule log_parts)
  have ns: "\<forall>n \<in> set (sp_prods a). lxq_name n"
    "content (l_kv s) kvstate (XMQ_PRODUCERS @ [0]) = (if sp_prods a = [] then None else Some (name_csv (sp_prods a) @ [0]))"
    using h(2) by (simp_all add: names_stored_def)
  obtain w where w: "lxq_write_back_append ops XMQ_PRODUCERS n s = Some (0, s\<lparr>l_kv := w\<rparr>)"
    "content w = (content (l_kv s))(kvstate := (content (l_kv s) kvstate)(XMQ_PRODUCERS @ [0] := Some (name_csv (sp_prods a @ [n]) @ [0])))"
    by (rule append_name [OF h(4,5) ns])
  define t where "t = s\<lparr>l_kv := w, list_producers := list_producers s @ [\<lparr>lp_addr = l_fresh s, lp_identity = n\<rparr>], list_consumers := list_consumers s, l_fresh := l_fresh s + 1\<rparr>"
  have "take (XMQ_IDENTITY_LEN - 1) n = n" using assms(3) by (simp add: lxq_name_def XMQ_IDENTITY_LEN_def)
  then have "lxq_do ops path R (LRegisterProducer n) s = Some (LCode 0, t)"
    using found_producer [OF h(2,3)] False w(1) h(5) by (simp add: lxq_register_producer_def lcalloc_def add_producer_def t_def)
  moreover have "holds path R K (map lxq_msg_bytes (sp_msgs a)) t"
    unfolding t_def by (intro holds_other [OF h(1) assms(2)]) (simp_all add: w(2))
  moreover have "names_stored content (sp_prods a @ [n]) (sp_cons a) w" by (rule names_add_producer [OF h(2) assms(3) False w(2)])
  moreover have "names_loaded (sp_prods a @ [n]) (sp_cons a) t" using h(3) by (auto simp: names_loaded_def t_def less_SucI)
  ultimately show ?thesis using that [of t] False by (auto simp: lxq_is_def t_def)
qed

lemma do_register_consumer:
  assumes "is_log path R a s" "1 \<le> R" "lxq_name n"
  obtains t where "lxq_do ops path R (LRegisterConsumer n) s = Some (fst (lxq_spec_do (LRegisterConsumer n) a), t)"
    "is_log path R (snd (lxq_spec_do (LRegisterConsumer n) a)) t"
    "cons_addrs t = (if n \<in> fst ` set (sp_cons a) then cons_addrs s else cons_addrs s @ [(n, l_fresh s)])"
proof (cases "n \<in> fst ` set (sp_cons a)")
  case True
  obtain K where "names_stored content (sp_prods a) (sp_cons a) (l_kv s)" "names_loaded (sp_prods a) (sp_cons a) s"
    using assms(1) by (rule log_parts)
  then show ?thesis using that [of s] True assms(1) found_consumer(2) [of content "sp_prods a" "sp_cons a" "l_kv s" s n]
    by (simp add: lxq_register_consumer_def)
next
  case False
  obtain K where h: "holds path R K (map lxq_msg_bytes (sp_msgs a)) s" "names_stored content (sp_prods a) (sp_cons a) (l_kv s)"
    "names_loaded (sp_prods a) (sp_cons a) s" "dbname (g_state_ctx s) = kvstate" "l_allocs s = []" using assms(1) by (rule log_parts)
  obtain w1 where w1: "lxq_write_uint64 ops (g_state_ctx s) (key_of_consumer_fetchpos n) 1 s = (0, s\<lparr>l_kv := w1\<rparr>)"
    "content w1 = (content (l_kv s))(kvstate := (content (l_kv s) kvstate)(key_of_consumer_fetchpos n @ [0] := Some (le64 (of_nat 1))))"
    unfolding h(4) [symmetric] by (rule lx_write64)
  have ns: "dbname (g_state_ctx (s\<lparr>l_kv := w1\<rparr>)) = kvstate" "l_allocs (s\<lparr>l_kv := w1\<rparr>) = []" "\<forall>m \<in> set (map fst (sp_cons a)). lxq_name m"
    "content (l_kv (s\<lparr>l_kv := w1\<rparr>)) kvstate (XMQ_CONSUMERS @ [0]) =
       (if map fst (sp_cons a) = [] then None else Some (name_csv (map fst (sp_cons a)) @ [0]))"
    using h(2,4,5) by (auto simp: names_stored_def w1(2))
  obtain w where w: "lxq_write_back_append ops XMQ_CONSUMERS n (s\<lparr>l_kv := w1\<rparr>) = Some (0, s\<lparr>l_kv := w\<rparr>)"
    "content w = (content w1)(kvstate := (content w1 kvstate)(XMQ_CONSUMERS @ [0] := Some (name_csv (map fst (sp_cons a) @ [n]) @ [0])))"
    by (rule append_name [OF ns, of n]) simp
  define c where "c = \<lparr>lc_addr = l_fresh s, lc_identity = n, fetch_key = key_of_consumer_fetchpos n, last_fetch_seq = 1\<rparr>"
  define t where "t = s\<lparr>l_kv := w, list_producers := list_producers s, list_consumers := list_consumers s @ [c], l_fresh := l_fresh s + 1\<rparr>"
  have "take (XMQ_IDENTITY_LEN - 1) n = n" using assms(3) by (simp add: lxq_name_def XMQ_IDENTITY_LEN_def)
  then have "lxq_do ops path R (LRegisterConsumer n) s = Some (LCode 0, t)"
    using found_consumer(2) [OF h(2,3)] False w1(1) w(1) h(5)
    by (simp add: lxq_register_consumer_def lcalloc_def add_consumer_def t_def c_def)
  moreover have "holds path R K (map lxq_msg_bytes (sp_msgs a)) t"
    unfolding t_def by (intro holds_other [OF h(1) assms(2)]) (simp_all add: w(2) w1(2))
  moreover have "names_stored content (sp_prods a) (sp_cons a @ [(n, 1)]) w"
    by (rule names_add_consumer [OF h(2) assms(3) False]) (simp add: w(2) w1(2))
  moreover have "names_loaded (sp_prods a) (sp_cons a @ [(n, 1)]) t"
    using h(3) by (auto simp: names_loaded_def t_def c_def less_SucI)
  moreover have "cons_addrs t = cons_addrs s @ [(n, l_fresh s)]" by (simp add: cons_addrs_def t_def c_def)
  ultimately show ?thesis using that [of t] False by (auto simp: lxq_is_def t_def)
qed

lemma consumer_of:
  assumes "names_stored content ps cs w" "names_loaded ps cs s" "n \<in> fst ` set cs"
  obtains c where "c \<in> set (list_consumers s)" "lc_identity c = n" "lxq_find_consumer s n = Some c" "consumer_at s (lc_addr c) = Some c"
    "map_of cs n = Some (last_fetch_seq c)"
proof -
  have d: "distinct (map fst cs)" using assms(1) by (simp add: names_stored_def)
  note e = names_distinct [OF assms(1,2)]
  obtain c where c: "c \<in> set (list_consumers s)" "lc_identity c = n" using assms(2,3) by (auto simp: names_loaded_def)
  then have "(n, last_fetch_seq c) \<in> set cs" using assms(2) by (auto simp: names_loaded_def)
  then have "map_of cs n = Some (last_fetch_seq c)" using d by simp
  then show ?thesis using that [OF c] found_consumer(1) [OF assms(1,2)] find_distinct [OF e(2) c(1)] find_distinct [OF e(1) c(1)] c(2)
    by (simp add: consumer_at_def)
qed

lemma do_update:
  assumes "is_log path R a s" "1 \<le> R" "q < 2 ^ 64"
  obtains t where "lxq_do ops path R (LUpdate n q) s = Some (fst (lxq_spec_do (LUpdate n q) a), t)"
    "is_log path R (snd (lxq_spec_do (LUpdate n q) a)) t" "cons_addrs t = cons_addrs s"
proof (cases "n \<in> fst ` set (sp_cons a)")
  case False
  obtain K where "names_stored content (sp_prods a) (sp_cons a) (l_kv s)" "names_loaded (sp_prods a) (sp_cons a) s"
    using assms(1) by (rule log_parts)
  then show ?thesis using that [of s] False assms(1) found_consumer(2) [of content "sp_prods a" "sp_cons a" "l_kv s" s n]
    by (simp add: lxq_get_consumer_def)
next
  case True
  obtain K where h: "holds path R K (map lxq_msg_bytes (sp_msgs a)) s" "names_stored content (sp_prods a) (sp_cons a) (l_kv s)"
    "names_loaded (sp_prods a) (sp_cons a) s" "dbname (g_state_ctx s) = kvstate" "l_allocs s = []" using assms(1) by (rule log_parts)
  obtain c where c: "c \<in> set (list_consumers s)" "lc_identity c = n" "lxq_find_consumer s n = Some c" "consumer_at s (lc_addr c) = Some c"
    by (rule consumer_of [OF h(2,3) True])
  have k: "fetch_key c = key_of_consumer_fetchpos n" using h(3) c(1,2) by (auto simp: names_loaded_def)
  obtain w where w: "lxq_write_uint64 ops (g_state_ctx s) (fetch_key c) q s = (0, s\<lparr>l_kv := w\<rparr>)"
    "content w = (content (l_kv s))(kvstate := (content (l_kv s) kvstate)(key_of_consumer_fetchpos n @ [0] := Some (le64 (of_nat q))))"
    unfolding h(4) [symmetric] k by (rule lx_write64)
  define C where "C = put_consumer (list_consumers s) (lc_addr c) q"
  define t where "t = s\<lparr>l_kv := w, list_producers := list_producers s, list_consumers := C, l_fresh := l_fresh s\<rparr>"
  have C: "C = map (\<lambda>d. if lc_identity d = n then d\<lparr>last_fetch_seq := q\<rparr> else d) (list_consumers s)"
    unfolding C_def c(2) [symmetric] by (rule put_consumer_map [OF names_distinct [OF h(2,3)] c(1)])
  have e: "sp_cons a = map (\<lambda>c. (lc_identity c, last_fetch_seq c)) (list_consumers s)" using h(3) by (simp add: names_loaded_def)
  have set_pos: "map (\<lambda>x. if lc_identity x = n then (n, q) else (lc_identity x, last_fetch_seq x)) (list_consumers s) =
      map (\<lambda>(c, p). if c = n then (n, q) else (c, p)) (sp_cons a)" unfolding e by simp
  have "lxq_do ops path R (LUpdate n q) s = Some (LCode 0, t)"
    using c(3,4) w(1) by (simp add: lxq_get_consumer_def lxq_update_that_def t_def C_def)
  moreover have "holds path R K (map lxq_msg_bytes (sp_msgs a)) t"
    unfolding t_def by (intro holds_other [OF h(1) assms(2)]) (simp_all add: w(2))
  moreover have "names_stored content (sp_prods a) (map (\<lambda>(c, p). (c, if c = n then q else p)) (sp_cons a)) w"
    by (rule names_set_position [OF h(2) assms(3) w(2)])
  moreover have "names_loaded (sp_prods a) (map (\<lambda>(c, p). (c, if c = n then q else p)) (sp_cons a)) t"
    using h(3) set_pos by (auto simp: names_loaded_def t_def C comp_def if_distrib cong: if_cong)
  moreover have "cons_addrs t = cons_addrs s" by (simp add: cons_addrs_def t_def C comp_def if_distrib cong: if_cong)
  ultimately show ?thesis using that [of t] True by (auto simp: lxq_is_def t_def)
qed

end

context lxq_store
begin

lemma do_push:
  assumes "is_log path R a s" "2 \<le> R" "length (sp_msgs a) + R + 1 < 2 ^ 64" "lxq_msg_ok m"
  obtains t where "lxq_do ops path R (LPush m) s = Some (fst (lxq_spec_do (LPush m) a), t)" "is_log path R (snd (lxq_spec_do (LPush m) a)) t"
    "cons_addrs t = cons_addrs s"
proof -
  obtain K where h: "holds path R K (map lxq_msg_bytes (sp_msgs a)) s" "names_stored content (sp_prods a) (sp_cons a) (l_kv s)"
    "names_loaded (sp_prods a) (sp_cons a) s" using assms(1) by (rule log_parts)
  have len: "length (map lxq_msg_bytes (sp_msgs a)) + R + 1 < 2 ^ 64" using assms(3) by simp
  obtain t K' where t: "lxq_push_tail ops m s = Some (0, t)" "holds path R K' (map lxq_msg_bytes (sp_msgs a) @ [lxq_msg_bytes m]) t"
    "same_names content s t" by (rule push_tail [OF h(1) assms(2) len assms(4)])
  then show ?thesis using that [of t] h(2,3) same_names_keeps [OF t(3)] by (auto simp: lxq_is_def same_names_def cons_addrs_def)
qed

lemma do_pull:
  assumes "is_log path R a s" "1 \<le> R" "length (sp_msgs a) + R + 1 < 2 ^ 64" "q < 2 ^ 64"
  obtains t where "lxq_do ops path R (LPull q) s = Some (fst (lxq_spec_do (LPull q) a), t)" "is_log path R (snd (lxq_spec_do (LPull q) a)) t"
    "cons_addrs t = cons_addrs s"
proof -
  obtain K where h: "holds path R K (map lxq_msg_bytes (sp_msgs a)) s" "names_stored content (sp_prods a) (sp_cons a) (l_kv s)"
    "names_loaded (sp_prods a) (sp_cons a) s" using assms(1) by (rule log_parts)
  have len: "length (map lxq_msg_bytes (sp_msgs a)) + R + 1 < 2 ^ 64" using assms(3) by simp
  obtain w where w: "lxq_pull_that ops q s = Some (if 1 \<le> q \<and> q \<le> length (map lxq_msg_bytes (sp_msgs a)) then Some (map lxq_msg_bytes (sp_msgs a) ! (q - 1)) else None, s\<lparr>l_kv := w\<rparr>)"
    "content w = content (l_kv s)" by (rule pull_that [OF h(1) assms(2) len assms(4)])
  have "is_log path R a (s\<lparr>l_kv := w\<rparr>)"
    using h w(2) by (auto simp: lxq_is_def lxq_holds_def names_loaded_def stored_cong [OF w(2)])
  then show ?thesis using that [of "s\<lparr>l_kv := w\<rparr>"] w(1) by (auto simp: lxq_msg_at_bytes cons_addrs_def split: if_splits)
qed

lemma do_position:
  assumes "is_log path R a s"
  shows "lxq_do ops path R (LPosition n) s = Some (fst (lxq_spec_do (LPosition n) a), s)"
proof -
  obtain K where h: "names_stored content (sp_prods a) (sp_cons a) (l_kv s)" "names_loaded (sp_prods a) (sp_cons a) s"
    using assms(1) by (rule log_parts)
  show ?thesis
  proof (cases "n \<in> fst ` set (sp_cons a)")
    case True
    obtain c where "lxq_find_consumer s n = Some c" "consumer_at s (lc_addr c) = Some c" "map_of (sp_cons a) n = Some (last_fetch_seq c)"
      by (rule consumer_of [OF h True])
    then show ?thesis by (simp add: lxq_get_consumer_def lxq_fetch_position_def)
  next
    case False
    then have "map_of (sp_cons a) n = None" by (simp add: map_of_eq_None_iff)
    moreover have "lxq_find_consumer s n = None" using False found_consumer(2) [OF h, of n] by blast
    ultimately show ?thesis by (simp add: lxq_get_consumer_def)
  qed
qed

lemma do_reopen:
  assumes "is_log path R a s" "1 \<le> R" "length (sp_msgs a) + R + 1 < 2 ^ 64" "length path \<le> 255"
  obtains t where "lxq_do ops path R LReopen s = Some (LCode 0, t)" "is_log path R a t"
proof -
  obtain K where h: "holds path R K (map lxq_msg_bytes (sp_msgs a)) s" "names_stored content (sp_prods a) (sp_cons a) (l_kv s)"
    using assms(1) by (rule log_parts)
  have st: "store_holds content path R (map lxq_msg_bytes (sp_msgs a)) (sp_prods a) (sp_cons a) (l_kv s)"
    using h by (simp add: store_holds_def lxq_holds_def)
  have len: "length (map lxq_msg_bytes (sp_msgs a)) + R + 1 < 2 ^ 64" using assms(3) by simp
  obtain t where "lxq_context_init ops (l_kv s) (Some path) R 0 [] (g_state_ctx s) = Some (Inr t)"
    "holds path R (length (map lxq_msg_bytes (sp_msgs a)) div R + 1) (map lxq_msg_bytes (sp_msgs a)) t"
    "names_stored content (sp_prods a) (sp_cons a) (l_kv t)" "names_loaded (sp_prods a) (sp_cons a) t"
    by (rule context_init [OF st assms(2) len assms(4)])
  then show ?thesis using that [of t] by (auto simp: lxq_is_def)
qed

lemma do_step:
  assumes "is_log path R a s" "2 \<le> R" "length (sp_msgs a) + R + 1 < 2 ^ 64" "length path \<le> 255" "lxq_call_ok c"
  obtains t where "lxq_do ops path R c s = Some (fst (lxq_spec_do c a), t)" "is_log path R (snd (lxq_spec_do c a)) t"
proof -
  have R: "1 \<le> R" using assms(2) by simp
  show ?thesis
  proof (cases c)
    case (LPush m)
    then show ?thesis using assms(5) that do_push [OF assms(1-3), of m] by auto
  next
    case (LPull q)
    then show ?thesis using assms(5) that do_pull [OF assms(1) R assms(3), of q] by auto
  next
    case (LRegisterProducer n)
    then show ?thesis using assms(5) that do_register_producer [OF assms(1) R, of n] by auto
  next
    case (LRegisterConsumer n)
    then show ?thesis using assms(5) that do_register_consumer [OF assms(1) R, of n] by auto
  next
    case (LUpdate n q)
    then show ?thesis using assms(5) that do_update [OF assms(1) R, of q n] by auto
  next
    case (LPosition n)
    then show ?thesis using that do_position [OF assms(1), of n] assms(1) by auto
  next
    case LReopen
    then show ?thesis using that do_reopen [OF assms(1) R assms(3,4)] by auto
  qed
qed

lemma spec_grows: "length (sp_msgs (snd (lxq_spec_do c a))) \<le> length (sp_msgs a) + 1"
  by (cases c) auto

lemma run_refines:
  assumes "is_log path R a s" "2 \<le> R" "length (sp_msgs a) + length cs + R + 1 < 2 ^ 64" "length path \<le> 255" "\<forall>c \<in> set cs. lxq_call_ok c"
  shows "lxq_run ops path R cs s = Some (lxq_spec_run cs a)"
  using assms(1,3,5)
proof (induction cs arbitrary: a s)
  case (Cons c cs)
  have "length (sp_msgs a) + R + 1 < 2 ^ 64" "lxq_call_ok c" using Cons.prems(2,3) by simp_all
  then obtain t where t: "lxq_do ops path R c s = Some (fst (lxq_spec_do c a), t)" "is_log path R (snd (lxq_spec_do c a)) t"
    by (rule do_step [OF Cons.prems(1) assms(2) _ assms(4)])
  have "length (sp_msgs (snd (lxq_spec_do c a))) + length cs + R + 1 < 2 ^ 64" using Cons.prems(2) spec_grows [of c a] by simp
  then have "lxq_run ops path R cs t = Some (lxq_spec_run cs (snd (lxq_spec_do c a)))" using Cons.IH [OF t(2)] Cons.prems(3) by simp
  then show ?case using t(1) by (simp add: case_prod_beta)
qed simp

lemma empty_store:
  assumes "\<And>n k. content w n k = None"
  shows "store_holds content path R [] [] [] w"
  using assms by (simp add: store_holds_def messages_stored_def names_stored_def)

end

text \<open>With one number per database no push ever opens a new database.\<close>

context lxq_store
begin

lemma push_into:
  assumes "kv_max_records s = 1" "last_write_db_seq s = q" "last_write_db s = Some db" "dbname (db_handler db) \<noteq> dbname (g_state_ctx s)"
    and "lxq_msg_ok m" "q < 2 ^ 64" "q \<noteq> XMQ_U64_MAX" "r = q + 1"
  obtains w where "lxq_push_tail ops m s = Some (0, s\<lparr>l_kv := w, last_write_db_seq := r\<rparr>)"
    "content w (dbname (db_handler db)) = (content (l_kv s) (dbname (db_handler db)))(pad20 q @ [0] := Some (lxq_msg_bytes m))"
proof -
  note b = msg_ok_bytes [OF assms(5)]
  obtain w1 where w1: "lxq_write_string_bin ops (db_handler db) (pad20 q) (lxq_msg_bytes m) s = (0, s\<lparr>l_kv := w1\<rparr>)"
    "content w1 = (content (l_kv s))(dbname (db_handler db) := (content (l_kv s) (dbname (db_handler db)))(pad20 q @ [0] := Some (lxq_msg_bytes m)))"
    by (rule lx_write [OF b(2)])
  obtain w2 where w2: "lxq_write_uint64 ops (g_state_ctx s) XMQ_DATABASE_WRITEPOS (q + 1) (s\<lparr>l_kv := w1\<rparr>) = (0, s\<lparr>l_kv := w2\<rparr>)"
    "content w2 = (content w1)(dbname (g_state_ctx s) := (content w1 (dbname (g_state_ctx s)))(XMQ_DATABASE_WRITEPOS @ [0] := Some (le64 (of_nat (q + 1)))))"
    by (rule lx_write64 [of "g_state_ctx s" XMQ_DATABASE_WRITEPOS "q + 1" "s\<lparr>l_kv := w1\<rparr>"]) simp
  have "lxq_push_tail ops m s = Some (0, s\<lparr>l_kv := w2, last_write_db_seq := q + 1\<rparr>)"
    unfolding lxq_push_tail_def Let_def using assms(1-3,6,7) w1(1) w2(1) b pad20_fits [of q] by simp
  then show ?thesis using that w1(2) w2(2) assms(4,8) by simp
qed

lemma one_record:
  assumes "store_holds content path 1 [] [] [] w" "length path \<le> 255" "lxq_msg_ok m" "lxq_msg_ok m'"
  shows "\<exists>s. lxq_context_init ops w (Some path) 1 0 [] g = Some (Inr s) \<and>
    lxq_run ops path 1 [LPush m, LPush m', LPull 1, LPull 2] s = Some [LCode 0, LCode 0, LMessage (Some m), LMessage None]"
proof -
  have R: "(1::nat) \<le> 1" "length ([] :: bytes list) + 1 + 1 < 2 ^ 64" by simp_all
  obtain s where s: "lxq_context_init ops w (Some path) 1 0 [] g = Some (Inr s)" "holds path 1 (length ([] :: bytes list) div 1 + 1) [] s"
    by (rule lxq_store.context_init [OF lxq_store_axioms assms(1) R assms(2)])
  obtain db where db: "list_databases s = [db]" "dbname (db_handler db) = range_path path 1 0" "db_start db = 1" "db_end db = 1"
    "last_write_db s = Some db" "last_write_db_seq s = 1" "kv_max_records s = 1" "dbname (g_state_ctx s) = kvstate"
    using s(2) by (auto simp: lxq_holds_def is_chain_def length_Suc_conv)
  have ne: "range_path path 1 0 \<noteq> kvstate" by (rule range_path_state) simp_all
  obtain w1 where w1: "lxq_push_tail ops m s = Some (0, s\<lparr>l_kv := w1, last_write_db_seq := 2\<rparr>)"
    "content w1 (dbname (db_handler db)) = (content (l_kv s) (dbname (db_handler db)))(pad20 1 @ [0] := Some (lxq_msg_bytes m))"
    by (rule push_into [OF db(7,6,5) _ assms(3), of 2]) (use db ne in \<open>simp_all add: XMQ_U64_MAX_def\<close>)
  define s1 where "s1 = s\<lparr>l_kv := w1, last_write_db_seq := 2\<rparr>"
  have s1: "kv_max_records s1 = 1" "last_write_db_seq s1 = 2" "last_write_db s1 = Some db" "dbname (db_handler db) \<noteq> dbname (g_state_ctx s1)"
    using db ne by (simp_all add: s1_def)
  obtain w2 where w2: "lxq_push_tail ops m' s1 = Some (0, s1\<lparr>l_kv := w2, last_write_db_seq := 3\<rparr>)"
    "content w2 (dbname (db_handler db)) = (content (l_kv s1) (dbname (db_handler db)))(pad20 2 @ [0] := Some (lxq_msg_bytes m'))"
    by (rule push_into [OF s1 assms(4), of 3]) (simp_all add: XMQ_U64_MAX_def)
  define t where "t = s1\<lparr>l_kv := w2, last_write_db_seq := 3\<rparr>"
  have dbs: "list_databases t = [db]" using db(1) by (simp add: t_def s1_def)
  have h: "get_db_handler u 1 = Some db" "get_db_handler u 2 = None" if "list_databases u = [db]" for u :: "('w, 'h) lxq_ctx"
    using that db(3,4) by (simp_all add: get_db_handler_def)
  obtain w3 where w3: "lxq_load_string_bin ops (db_handler db) (pad20 1) t = (KV_LOAD_SUCC (lxq_msg_bytes m), t\<lparr>l_kv := w3\<rparr>)"
    by (rule lx_load [of "db_handler db" "pad20 1" t]) (simp add: t_def w2(2) s1_def w1(2) pad20_inj)
  have "lxq_pull_that ops 1 t = Some (Some (lxq_msg_bytes m), t\<lparr>l_kv := w3\<rparr>)"
    using h(1) [OF dbs] w3 pad20_fits [of 1] by (simp add: lxq_pull_that_def XMQ_U64_MAX_def)
  moreover have "lxq_pull_that ops 2 (t\<lparr>l_kv := w3\<rparr>) = Some (None, t\<lparr>l_kv := w3\<rparr>)"
    using h(2) [of "t\<lparr>l_kv := w3\<rparr>"] dbs by (simp add: lxq_pull_that_def)
  ultimately show ?thesis using s(1) w1(1) w2(1) by (simp add: t_def [symmetric] s1_def [symmetric] lxq_msg_at_bytes)
qed

text \<open>The stored list keeps the name of an unregistered consumer.\<close>

lemma unregister_keeps:
  assumes "is_log path R a s" "1 \<le> R" "length (sp_msgs a) + R + 1 < 2 ^ 64" "length path \<le> 255" "n \<in> fst ` set (sp_cons a)"
  shows "\<exists>t u. lxq_unregister_consumer ops n s = Some (-1, t) \<and> lxq_get_consumer t n = None \<and>
    lxq_do ops path R LReopen t = Some (LCode 0, u) \<and> lxq_do ops path R (LPosition n) u = Some (LAt (map_of (sp_cons a) n), u)"
proof -
  obtain K where h: "holds path R K (map lxq_msg_bytes (sp_msgs a)) s" "names_stored content (sp_prods a) (sp_cons a) (l_kv s)"
    "names_loaded (sp_prods a) (sp_cons a) s" "dbname (g_state_ctx s) = kvstate" using assms(1) by (rule log_parts)
  obtain c where c: "c \<in> set (list_consumers s)" "lc_identity c = n" "lxq_find_consumer s n = Some c" by (rule consumer_of [OF h(2,3) assms(5)])
  define s' where "s' = s\<lparr>list_consumers := remove1 c (list_consumers s)\<rparr>"
  obtain w where w: "lxq_load_string_bin ops (g_state_ctx s') XMQ_CONSUMERS s' =
      (case content (l_kv s') (dbname (g_state_ctx s')) (XMQ_CONSUMERS @ [0]) of None \<Rightarrow> KV_LOAD_NULL | Some v \<Rightarrow> KV_LOAD_SUCC v, s'\<lparr>l_kv := w\<rparr>)"
    "content w = content (l_kv s')" by (rule lx_load)
  define t where "t = s'\<lparr>l_kv := w\<rparr>"
  have "lxq_unregister_consumer ops n s = Some (-1, t)"
    using c(3) w(1) by (simp add: lxq_unregister_consumer_def lxq_write_back_delete_def ptr_is_zero_def string_delete_by_substr_def
        s'_def [symmetric] t_def split: option.split)
  moreover have "lxq_find_consumer t n = None"
  proof -
    have d: "distinct (map lc_identity (list_consumers s))" by (rule names_distinct(2) [OF h(2,3)])
    have "\<not> same_name (lc_identity e) n" if e: "e \<in> set (remove1 c (list_consumers s))" for e
    proof -
      have m: "e \<in> set (list_consumers s)" using e by (meson notin_set_remove1)
      moreover have "e \<noteq> c" using e d by (metis distinct_map set_remove1_eq DiffE singletonI)
      ultimately have "lc_identity e \<noteq> n" using d c(1,2) by (auto simp: distinct_map dest: inj_onD)
      moreover have "lc_identity e \<in> fst ` set (sp_cons a)" by (rule loaded_name [OF h(3) m])
      then have "0 \<notin> set (lc_identity e)" using h(2) by (auto simp: names_stored_def lxq_name_def)
      ultimately show ?thesis by (simp add: same_name_eq)
    qed
    then show ?thesis by (simp add: lxq_find_consumer_def find_None_iff t_def s'_def)
  qed
  moreover have st: "store_holds content path R (map lxq_msg_bytes (sp_msgs a)) (sp_prods a) (sp_cons a) (l_kv t)"
    using h(1,2) w(2) by (simp add: store_holds_def lxq_holds_def t_def s'_def stored_cong [OF w(2)])
  have len: "length (map lxq_msg_bytes (sp_msgs a)) + R + 1 < 2 ^ 64" using assms(3) by simp
  obtain u where u: "lxq_context_init ops (l_kv t) (Some path) R 0 [] (g_state_ctx t) = Some (Inr u)"
    "holds path R (length (map lxq_msg_bytes (sp_msgs a)) div R + 1) (map lxq_msg_bytes (sp_msgs a)) u"
    "names_stored content (sp_prods a) (sp_cons a) (l_kv u)" "names_loaded (sp_prods a) (sp_cons a) u"
    by (rule context_init [OF st assms(2) len assms(4)])
  then have "is_log path R a u" by (auto simp: lxq_is_def)
  then have "lxq_do ops path R (LPosition n) u = Some (LAt (map_of (sp_cons a) n), u)" using do_position [of path R a u n] by simp
  ultimately show ?thesis using u(1) by (auto simp: lxq_get_consumer_def)
qed

lemma long_name:
  assumes "is_log path R a s" "32 \<le> length n" "0 \<notin> set n"
  shows "\<exists>t. lxq_register_producer ops n s = Some (0, t) \<and> lxq_get_producer t n = None \<and> length (list_producers t) = length (list_producers s) + 1"
proof -
  obtain K where h: "names_stored content (sp_prods a) (sp_cons a) (l_kv s)"
    "names_loaded (sp_prods a) (sp_cons a) s" "dbname (g_state_ctx s) = kvstate" "l_allocs s = []" using assms(1) by (rule log_parts)
  have ns: "\<forall>n \<in> set (sp_prods a). lxq_name n"
    "content (l_kv s) kvstate (XMQ_PRODUCERS @ [0]) = (if sp_prods a = [] then None else Some (name_csv (sp_prods a) @ [0]))"
    using h(1) by (simp_all add: names_stored_def)
  have out: "n \<notin> set (sp_prods a)" using ns(1) assms(2) by (auto simp: lxq_name_def XMQ_IDENTITY_LEN_def)
  then have f: "lxq_find_producer s n = None" using found_producer [OF h(1,2)] by blast
  define k where "k = take 31 n"
  have "length k < length n" using assms(2) by (simp add: k_def)
  then have k: "k \<noteq> n" "0 \<notin> set k" using assms(3) in_set_takeD [of 0 31 n] by (auto simp: k_def)
  obtain w where w: "lxq_write_back_append ops XMQ_PRODUCERS k s = Some (0, s\<lparr>l_kv := w\<rparr>)"
    by (rule append_name [OF h(3,4) ns])
  then have "lxq_register_producer ops n s = Some (0, add_producer k (s\<lparr>l_kv := w\<rparr>))"
    using f h(4) by (simp add: lxq_register_producer_def lcalloc_def k_def XMQ_IDENTITY_LEN_def)
  moreover have "lxq_get_producer (add_producer k (s\<lparr>l_kv := w\<rparr>)) n = None"
    using f k(1) same_name_eq [OF k(2)] by (auto simp: lxq_get_producer_def lxq_find_producer_def add_producer_def find_None_iff)
  ultimately show ?thesis by (auto simp: add_producer_def)
qed

end

section \<open>Properties\<close>

lemma pole_store: "leveldb_dir L path_of files \<Longrightarrow> lxq_store (pole_ops L) path_of files"
  by (rule leveldb_dir.pole_laws)

text \<open>C3: On a storage that answers and keeps what was put, a context on an empty storage opens, and every sequence of
  valid calls then gets the answers of the abstract log: messages are numbered from 1 in push order, a
  pull returns exactly the message of that number, names are registered once, positions are
  read as last stored, and ending the process and opening the context anew loses none of it.
  A range of at least two numbers per database and room in the 64-bit numbers are required.\<close>

theorem lxq_is_a_persistent_log:
  assumes "leveldb_dir L path_of files" "\<forall>n k. files w n k = None" "2 \<le> R" "length calls + R + 1 < 2 ^ 64"
    and "length path \<le> 255" "list_all lxq_call_ok calls"
  shows "\<exists>s. lxq_context_init (pole_ops L) w (Some path) R 0 [] g = Some (Inr s) \<and>
    lxq_run (pole_ops L) path R calls s = Some (lxq_spec_run calls \<lparr>sp_msgs = [], sp_prods = [], sp_cons = []\<rparr>)"
proof -
  have st: "store_holds files path R [] [] [] w" using assms(2) by (intro lxq_store.empty_store [OF pole_store [OF assms(1)]]) simp
  have R: "1 \<le> R" "length [] + R + 1 < 2 ^ 64" using assms(3,4) by simp_all
  obtain s where s: "lxq_context_init (pole_ops L) w (Some path) R 0 [] g = Some (Inr s)" "lxq_holds path_of files path R (length ([] :: bytes list) div R + 1) [] s"
    "names_stored files [] [] (l_kv s)" "names_loaded [] [] s" by (rule lxq_store.context_init [OF pole_store [OF assms(1)] st R assms(5)])
  then have "lxq_is path_of files path R \<lparr>sp_msgs = [], sp_prods = [], sp_cons = []\<rparr> s" by (auto simp: lxq_is_def)
  then have "lxq_run (pole_ops L) path R calls s = Some (lxq_spec_run calls \<lparr>sp_msgs = [], sp_prods = [], sp_cons = []\<rparr>)"
    using assms(3-6) by (intro lxq_store.run_refines [OF pole_store [OF assms(1)]]) (simp_all add: list_all_iff)
  then show ?thesis using s(1) by blast
qed

definition demo_msg :: "bytes \<Rightarrow> lxq_msg" where
  "demo_msg d = \<lparr>lm_len = of_nat (length d), lm_data = d\<rparr>"

definition demo_calls :: "lxq_call list" where
  "demo_calls = [LRegisterProducer [0x70], LRegisterConsumer [0x63], LPush (demo_msg [1]), LPush (demo_msg [2, 2]), LPush (demo_msg [3]),
     LUpdate [0x63] 3, LReopen, LPull 3, LPull 2, LPull 4, LPosition [0x63], LRegisterConsumer [0x63]]"

theorem lxq_is_a_persistent_log_witness:
  "\<exists>s. lxq_context_init (pole_ops mem_dirs) (\<lambda>n k. None) (Some [0x2E]) 2 0 [] [] = Some (Inr s) \<and>
    lxq_run (pole_ops mem_dirs) [0x2E] 2 demo_calls s = Some (map LCode (replicate 7 0) @
      [LMessage (Some (demo_msg [3])), LMessage (Some (demo_msg [2, 2])), LMessage None, LAt (Some 3), LCode 1])"
proof -
  have "list_all lxq_call_ok demo_calls"
    by (simp add: demo_calls_def lxq_msg_ok_def demo_msg_def lxq_name_def XMQ_IDENTITY_LEN_def comma_def)
  moreover have "lxq_spec_run demo_calls \<lparr>sp_msgs = [], sp_prods = [], sp_cons = []\<rparr> = map LCode (replicate 7 0) @
      [LMessage (Some (demo_msg [3])), LMessage (Some (demo_msg [2, 2])), LMessage None, LAt (Some 3), LCode 1]"
    by (simp add: demo_calls_def numeral_eq_Suc)
  ultimately show ?thesis
    using lxq_is_a_persistent_log [OF mem_dir.leveldb_dir_axioms, of "\<lambda>n k. None" 2 demo_calls "[0x2E]" "[]"]
    by (simp add: demo_calls_def [THEN arg_cong [where f = length], simplified])
qed

text \<open>With \<open>kv_max_records\<close> 1 the second push reports success and its message cannot be pulled: the
  test \<^verbatim>\<open>seq % kv_max_records == 1\<close> never holds, so no further database is opened.\<close>

lemma lxq_single_record_loses:
  assumes "leveldb_dir L path_of files" "\<forall>n k. files w n k = None" "length path \<le> 255" "lxq_msg_ok m" "lxq_msg_ok m'"
  shows "\<exists>s. lxq_context_init (pole_ops L) w (Some path) 1 0 [] g = Some (Inr s) \<and>
    lxq_run (pole_ops L) path 1 [LPush m, LPush m', LPull 1, LPull 2] s = Some [LCode 0, LCode 0, LMessage (Some m), LMessage None]"
  using assms(2) by (intro lxq_store.one_record [OF pole_store [OF assms(1)] lxq_store.empty_store [OF pole_store [OF assms(1)]] assms(3-5)]) simp

lemma lxq_single_record_loses_witness:
  "\<exists>s. lxq_context_init (pole_ops mem_dirs) (\<lambda>n k. None) (Some [0x2E]) 1 0 [] [] = Some (Inr s) \<and>
    lxq_run (pole_ops mem_dirs) [0x2E] 1 [LPush (demo_msg [1]), LPush (demo_msg [2]), LPull 1, LPull 2] s =
      Some [LCode 0, LCode 0, LMessage (Some (demo_msg [1])), LMessage None]"
  by (rule lxq_single_record_loses [OF mem_dir.leveldb_dir_axioms]) (simp_all add: lxq_msg_ok_def demo_msg_def)

text \<open>C37: Unregistering a registered consumer of an open log returns -1 and only takes it out of memory. \<^verbatim>\<open>__write_back_delete\<close>
  compares the loaded pointer instead of the result code with \<^verbatim>\<open>KV_LOAD_SUCC\<close> and gives up when the list of names is there,
  before the name is deleted from it: the name stays in the storage, and a context opened later has the consumer
  again, at its position.\<close>

theorem lxq_unregistered_comes_back:
  assumes "leveldb_dir L path_of files" "lxq_is path_of files path R a s" "1 \<le> R" "length (sp_msgs a) + R + 1 < 2 ^ 64"
    and "length path \<le> 255" "n \<in> fst ` set (sp_cons a)"
  shows "\<exists>t u. lxq_unregister_consumer (pole_ops L) n s = Some (-1, t) \<and> lxq_get_consumer t n = None \<and>
    lxq_do (pole_ops L) path R LReopen t = Some (LCode 0, u) \<and> lxq_do (pole_ops L) path R (LPosition n) u = Some (LAt (map_of (sp_cons a) n), u)"
  by (rule lxq_store.unregister_keeps [OF pole_store [OF assms(1)] assms(2-6)])

text \<open>A log with one consumer, for the examples.\<close>

definition demo_log :: lxq_spec where
  "demo_log = \<lparr>sp_msgs = [], sp_prods = [], sp_cons = [([0x63], 1)]\<rparr>"

lemma demo_log_open: "\<exists>s. lxq_is (\<lambda>h. h) (\<lambda>w. w) [0x2E] 2 demo_log (s :: (bytes \<Rightarrow> bytes \<Rightarrow> bytes option, bytes) lxq_ctx)"
proof -
  have p: "length [0x2E :: byte] \<le> 255" "(1::nat) \<le> 2" "length ([] :: bytes list) + 2 + 1 < 2 ^ 64" by simp_all
  have st: "store_holds (\<lambda>w. w) [0x2E] 2 [] [] [] (\<lambda>n k. None)" by (rule mem_dir.pole.empty_store) simp
  obtain s where "lxq_holds (\<lambda>h. h) (\<lambda>w. w) [0x2E] 2 (length ([] :: bytes list) div 2 + 1) [] s"
    "names_stored (\<lambda>w. w) [] [] (l_kv s)" "names_loaded [] [] (s :: (bytes \<Rightarrow> bytes \<Rightarrow> bytes option, bytes) lxq_ctx)"
    by (rule mem_dir.pole.context_init [OF st p(2,3,1)])
  then have l: "lxq_is (\<lambda>h. h) (\<lambda>w. w) [0x2E] 2 \<lparr>sp_msgs = [], sp_prods = [], sp_cons = []\<rparr> s" by (auto simp: lxq_is_def)
  have n: "lxq_name [0x63]" by (simp add: lxq_name_def XMQ_IDENTITY_LEN_def comma_def)
  obtain t where "lxq_is (\<lambda>h. h) (\<lambda>w. w) [0x2E] 2 (snd (lxq_spec_do (LRegisterConsumer [0x63]) \<lparr>sp_msgs = [], sp_prods = [], sp_cons = []\<rparr>)) t"
    by (rule mem_dir.pole.do_register_consumer [OF l p(2) n])
  then show ?thesis by (auto simp: demo_log_def)
qed

theorem lxq_unregistered_comes_back_witness:
  "\<exists>s t u. lxq_unregister_consumer (pole_ops mem_dirs) [0x63] s = Some (-1, t) \<and> lxq_get_consumer t [0x63] = None \<and>
    lxq_do (pole_ops mem_dirs) [0x2E] 2 LReopen t = Some (LCode 0, u) \<and> lxq_do (pole_ops mem_dirs) [0x2E] 2 (LPosition [0x63]) u = Some (LAt (Some 1), u)"
proof -
  obtain s where s: "lxq_is (\<lambda>h. h) (\<lambda>w. w) [0x2E] 2 demo_log (s :: (bytes \<Rightarrow> bytes \<Rightarrow> bytes option, bytes) lxq_ctx)"
    using demo_log_open by blast
  show ?thesis using lxq_unregistered_comes_back [OF mem_dir.leveldb_dir_axioms s, of "[0x63]"] by (auto simp: demo_log_def)
qed

text \<open>A producer whose name has 32 bytes or more is registered under its first 31 bytes: the call reports success
  and adds an entry each time, and the producer is not found under its name.\<close>

lemma lxq_long_name_not_found:
  assumes "leveldb_dir L path_of files" "lxq_is path_of files path R a s" "32 \<le> length n" "0 \<notin> set n"
  shows "\<exists>t. lxq_register_producer (pole_ops L) n s = Some (0, t) \<and> lxq_get_producer t n = None \<and> length (list_producers t) = length (list_producers s) + 1"
  by (rule lxq_store.long_name [OF pole_store [OF assms(1)] assms(2-4)])

lemma lxq_long_name_not_found_witness:
  "\<exists>(s :: (bytes \<Rightarrow> bytes \<Rightarrow> bytes option, bytes) lxq_ctx) t. lxq_register_producer (pole_ops mem_dirs) (replicate 40 0x61) s = Some (0, t) \<and>
     lxq_get_producer t (replicate 40 0x61) = None"
proof -
  obtain s where s: "lxq_is (\<lambda>h. h) (\<lambda>w. w) [0x2E] 2 demo_log (s :: (bytes \<Rightarrow> bytes \<Rightarrow> bytes option, bytes) lxq_ctx)"
    using demo_log_open by blast
  show ?thesis using lxq_long_name_not_found [OF mem_dir.leveldb_dir_axioms s, of "replicate 40 0x61"] by auto
qed

end
