(* ===== verification/Pole_Store.thy ===== *)
theory Pole_Store
  imports Lxq_Correct
begin

text \<open>
  The interface between pole-M and its message sequence: the locale \<open>sync_store\<close> has what the server relies on of
  \<^verbatim>\<open>lib/libxmq\<close>, in terms of the stored data and of the address and position of each consumer. The
  sequence over LevelDB provides it.
\<close>

section \<open>What the server needs of the message sequence\<close>

definition data_msg :: "bytes \<Rightarrow> lxq_msg" where
  "data_msg d = \<lparr>lm_len = of_nat (length d), lm_data = d\<rparr>"

definition data_ok :: "bytes \<Rightarrow> bool" where
  "data_ok d \<longleftrightarrow> d \<noteq> [] \<and> 8 + length d < 2 ^ 64"

text \<open>Address and position of a consumer.\<close>

definition cons_pos :: "('w, 'h) lxq_ctx \<Rightarrow> bytes \<Rightarrow> (nat \<times> nat) option" where
  "cons_pos x n = map_option (\<lambda>c. (lc_addr c, last_fetch_seq c)) (find (\<lambda>c. lc_identity c = n) (list_consumers x))"

locale sync_store =
  fixes ops :: "('w, 'h) lxq_ops" and keeps :: "bytes list \<Rightarrow> ('w, 'h) lxq_ctx \<Rightarrow> bool" and limit :: nat
  assumes write_seq: "keeps ms x \<Longrightarrow> last_write_db_seq x = length ms + 1"
    and small: "keeps ms x \<Longrightarrow> length ms + 1 < 2 ^ 64"
    and data: "keeps ms x \<Longrightarrow> d \<in> set ms \<Longrightarrow> data_ok d"
    and get: "keeps ms x \<Longrightarrow> lxq_get_consumer x n = map_option fst (cons_pos x n)"
    and at: "keeps ms x \<Longrightarrow> cons_pos x n = Some (a, p) \<Longrightarrow> \<exists>c. consumer_at x a = Some c \<and> last_fetch_seq c = p"
    and update: "keeps ms x \<Longrightarrow> cons_pos x n = Some (a, p) \<Longrightarrow> q < 2 ^ 64 \<Longrightarrow>
      \<exists>y. lxq_update_that ops a q x = Some (0, y) \<and> keeps ms y \<and> cons_pos y = (cons_pos x)(n \<mapsto> (a, q))"
    and register: "keeps ms x \<Longrightarrow> lxq_name n \<Longrightarrow> cons_pos x n = None \<Longrightarrow>
      \<exists>y a. lxq_register_consumer ops n x = Some (0, y) \<and> keeps ms y \<and> cons_pos y = (cons_pos x)(n \<mapsto> (a, 1))"
    and push: "keeps ms x \<Longrightarrow> length ms < limit \<Longrightarrow> data_ok d \<Longrightarrow>
      \<exists>y. lxq_push_tail ops (data_msg d) x = Some (0, y) \<and> keeps (ms @ [d]) y \<and> cons_pos y = cons_pos x"
    and pull: "keeps ms x \<Longrightarrow> 1 \<le> q \<Longrightarrow> q < 2 ^ 64 \<Longrightarrow>
      \<exists>y. lxq_pull_that ops q x = Some (if q \<le> length ms then Some (lxq_msg_bytes (data_msg (ms ! (q - 1)))) else None, y) \<and>
        keeps ms y \<and> cons_pos y = cons_pos x"

definition log_keeps ::
  "('h \<Rightarrow> bytes) \<Rightarrow> ('w \<Rightarrow> bytes \<Rightarrow> bytes \<Rightarrow> bytes option) \<Rightarrow> bytes \<Rightarrow> nat \<Rightarrow> bytes list \<Rightarrow> ('w, 'h) lxq_ctx \<Rightarrow> bool" where
  "log_keeps dbname content path R ms x \<longleftrightarrow>
     2 \<le> R \<and> length ms + R + 1 < 2 ^ 64 \<and> (\<forall>d \<in> set ms. data_ok d) \<and>
     (\<exists>ps cs. lxq_is dbname content path R \<lparr>sp_msgs = map data_msg ms, sp_prods = ps, sp_cons = cs\<rparr> x)"

lemma cons_pos_pairs:
  "cons_pos x n = (case map_of (cons_addrs x) n of None \<Rightarrow> None
     | Some a \<Rightarrow> map_option (Pair a) (map_of (map (\<lambda>c. (lc_identity c, last_fetch_seq c)) (list_consumers x)) n))"
proof -
  have "map_option (\<lambda>c. (lc_addr c, last_fetch_seq c)) (find (\<lambda>c. lc_identity c = n) C) =
      (case map_of (map (\<lambda>c. (lc_identity c, lc_addr c)) C) n of None \<Rightarrow> None
       | Some a \<Rightarrow> map_option (Pair a) (map_of (map (\<lambda>c. (lc_identity c, last_fetch_seq c)) C) n))" for C :: "lxq_consumer list"
    by (induction C) (auto split: option.split)
  then show ?thesis by (simp add: cons_pos_def cons_addrs_def)
qed

lemma cons_pos_cong: "list_consumers y = list_consumers x \<Longrightarrow> cons_pos y = cons_pos x"
  by (simp add: cons_pos_def fun_eq_iff)

lemma map_of_set: "map_of (map (\<lambda>(c, p). (c, if c = n then q else p)) cs) m =
    (if m = n then map_option (\<lambda>_. q) (map_of cs n) else map_of cs m)"
  by (induction cs) auto

context lxq_store
begin

lemma cons_pos_of:
  assumes "is_log path R a x"
  shows "cons_pos x n = (case map_of (cons_addrs x) n of None \<Rightarrow> None | Some b \<Rightarrow> map_option (Pair b) (map_of (sp_cons a) n))"
proof -
  have "map (\<lambda>c. (lc_identity c, last_fetch_seq c)) (list_consumers x) = sp_cons a" using assms by (simp add: lxq_is_def names_loaded_def)
  then show ?thesis unfolding cons_pos_pairs by (simp split: option.split)
qed

lemma addrs_names:
  assumes "is_log path R a x"
  shows "map_of (cons_addrs x) n = None \<longleftrightarrow> map_of (sp_cons a) n = None"
proof -
  have e: "map (\<lambda>c. (lc_identity c, last_fetch_seq c)) (list_consumers x) = sp_cons a" using assms by (simp add: lxq_is_def names_loaded_def)
  show ?thesis unfolding map_of_eq_None_iff e [symmetric] by (simp add: cons_addrs_def image_image)
qed

lemma found_at:
  assumes "is_log path R a x" "cons_pos x n = Some (b, p)"
  obtains c where "lxq_find_consumer x n = Some c" "consumer_at x b = Some c" "lc_addr c = b" "last_fetch_seq c = p" "n \<in> fst ` set (sp_cons a)"
proof -
  obtain K where h: "names_stored content (sp_prods a) (sp_cons a) (l_kv x)" "names_loaded (sp_prods a) (sp_cons a) x"
    using assms(1) by (rule log_parts)
  obtain c where c: "find (\<lambda>c. lc_identity c = n) (list_consumers x) = Some c" "lc_addr c = b" "last_fetch_seq c = p"
    using assms(2) by (auto simp: cons_pos_def)
  then have m: "c \<in> set (list_consumers x)" "lc_identity c = n" by (auto simp: find_Some_iff)
  show ?thesis
    using that [of c] c found_consumer(1) [OF h] find_distinct [OF names_distinct(1) [OF h] m(1)] loaded_name [OF h(2) m(1)] m(2)
    by (simp add: consumer_at_def)
qed

lemma log_sync_store: "sync_store ops (log_keeps dbname content path R) (2 ^ 64 - R - 2)"
proof
  fix ms x
  assume k: "log_keeps dbname content path R ms x"
  then obtain ps cs where R: "2 \<le> R" "1 \<le> R" and len: "length ms + R + 1 < 2 ^ 64" and ok: "\<forall>d \<in> set ms. data_ok d"
    and a: "is_log path R \<lparr>sp_msgs = map data_msg ms, sp_prods = ps, sp_cons = cs\<rparr> x" by (auto simp: log_keeps_def)
  let ?a = "\<lparr>sp_msgs = map data_msg ms, sp_prods = ps, sp_cons = cs\<rparr>"
  have len': "length (sp_msgs ?a) + R + 1 < 2 ^ 64" using len by simp
  obtain K where h: "holds path R K (map lxq_msg_bytes (sp_msgs ?a)) x" "names_stored content ps cs (l_kv x)" "names_loaded ps cs x"
    using log_parts [OF a] by auto
  have keep: "log_keeps dbname content path R ms y" if "is_log path R \<lparr>sp_msgs = map data_msg ms, sp_prods = ps', sp_cons = cs'\<rparr> y" for y ps' cs'
    using that R len ok by (auto simp: log_keeps_def)
  show "last_write_db_seq x = length ms + 1" using h(1) by (simp add: lxq_holds_def)
  show "length ms + 1 < 2 ^ 64" using len by simp
  show "data_ok d" if "d \<in> set ms" for d using ok that by blast
  show "lxq_get_consumer x n = map_option fst (cons_pos x n)" for n
    using found_consumer(1) [OF h(2,3)] by (simp add: lxq_get_consumer_def cons_pos_def option.map_comp comp_def)
  show "\<exists>c. consumer_at x b = Some c \<and> last_fetch_seq c = p" if "cons_pos x n = Some (b, p)" for n b p
    by (rule found_at [OF a that]) blast
  show "\<exists>y. lxq_update_that ops b q x = Some (0, y) \<and> log_keeps dbname content path R ms y \<and> cons_pos y = (cons_pos x)(n \<mapsto> (b, q))"
    if p: "cons_pos x n = Some (b, p)" and q: "q < 2 ^ 64" for n b p q
  proof -
    obtain c where c: "lxq_find_consumer x n = Some c" "lc_addr c = b" "n \<in> fst ` set (sp_cons ?a)" by (rule found_at [OF a p])
    obtain y where y: "lxq_do ops path R (LUpdate n q) x = Some (fst (lxq_spec_do (LUpdate n q) ?a), y)"
      "is_log path R (snd (lxq_spec_do (LUpdate n q) ?a)) y" "cons_addrs y = cons_addrs x" by (rule do_update [OF a R(2) q])
    have "lxq_update_that ops b q x = Some (0, y)" using y(1) c by (auto simp: lxq_get_consumer_def bind_eq_Some_conv)
    moreover have "is_log path R (?a\<lparr>sp_cons := map (\<lambda>(c, p). (c, if c = n then q else p)) cs\<rparr>) y" using y(2) c(3) by simp
    moreover have "cons_pos y = (cons_pos x)(n \<mapsto> (b, q))"
      using p cons_pos_of [OF a] cons_pos_of [OF calculation(2)] y(3) by (auto simp: fun_eq_iff map_of_set split: option.splits)
    ultimately show ?thesis using keep by auto
  qed
  show "\<exists>y b. lxq_register_consumer ops n x = Some (0, y) \<and> log_keeps dbname content path R ms y \<and> cons_pos y = (cons_pos x)(n \<mapsto> (b, 1))"
    if n: "lxq_name n" and p: "cons_pos x n = None" for n
  proof -
    have c: "map_of cs n = None" "map_of (cons_addrs x) n = None" using p addrs_names [OF a, of n] cons_pos_of [OF a, of n] by (auto split: option.splits)
    then have c': "n \<notin> fst ` set cs" by (simp add: map_of_eq_None_iff)
    obtain y where y: "lxq_do ops path R (LRegisterConsumer n) x = Some (fst (lxq_spec_do (LRegisterConsumer n) ?a), y)"
      "is_log path R (snd (lxq_spec_do (LRegisterConsumer n) ?a)) y"
      "cons_addrs y = (if n \<in> fst ` set (sp_cons ?a) then cons_addrs x else cons_addrs x @ [(n, l_fresh x)])"
      by (rule do_register_consumer [OF a R(2) n])
    have "lxq_register_consumer ops n x = Some (0, y)" using y(1) c' by (auto simp: bind_eq_Some_conv)
    moreover have "is_log path R (?a\<lparr>sp_cons := cs @ [(n, 1)]\<rparr>) y" using y(2) c' by simp
    moreover have "cons_pos y = (cons_pos x)(n \<mapsto> (l_fresh x, 1))"
      using c c' cons_pos_of [OF a] cons_pos_of [OF calculation(2)] y(3) by (auto simp: fun_eq_iff map_add_def split: option.splits)
    ultimately show ?thesis using keep by auto
  qed
  show "\<exists>y. lxq_push_tail ops (data_msg d) x = Some (0, y) \<and> log_keeps dbname content path R (ms @ [d]) y \<and> cons_pos y = cons_pos x"
    if l: "length ms < 2 ^ 64 - R - 2" and d: "data_ok d" for d
  proof -
    have m: "lxq_msg_ok (data_msg d)" using d by (simp add: lxq_msg_ok_def data_msg_def data_ok_def)
    obtain y where y: "lxq_do ops path R (LPush (data_msg d)) x = Some (fst (lxq_spec_do (LPush (data_msg d)) ?a), y)"
      "is_log path R (snd (lxq_spec_do (LPush (data_msg d)) ?a)) y" "cons_addrs y = cons_addrs x" by (rule do_push [OF a R(1) len' m])
    have "lxq_push_tail ops (data_msg d) x = Some (0, y)" using y(1) by (auto simp: bind_eq_Some_conv)
    moreover have i: "is_log path R \<lparr>sp_msgs = map data_msg (ms @ [d]), sp_prods = ps, sp_cons = cs\<rparr> y" using y(2) by simp
    moreover have "length (ms @ [d]) + R + 1 < 2 ^ 64" using l by simp
    moreover have "cons_pos y = cons_pos x" using cons_pos_of [OF a] cons_pos_of [OF i] y(3) by (simp add: fun_eq_iff split: option.split)
    ultimately show ?thesis using R ok d unfolding log_keeps_def by (intro exI [of _ y]) auto
  qed
  show "\<exists>y. lxq_pull_that ops q x = Some (if q \<le> length ms then Some (lxq_msg_bytes (data_msg (ms ! (q - 1)))) else None, y) \<and>
      log_keeps dbname content path R ms y \<and> cons_pos y = cons_pos x" if r: "1 \<le> q" "q < 2 ^ 64" for q
  proof -
    have l: "length (map lxq_msg_bytes (sp_msgs ?a)) + R + 1 < 2 ^ 64" using len by simp
    obtain w where w: "lxq_pull_that ops q x = Some (if 1 \<le> q \<and> q \<le> length (map lxq_msg_bytes (sp_msgs ?a)) then Some (map lxq_msg_bytes (sp_msgs ?a) ! (q - 1)) else None, x\<lparr>l_kv := w\<rparr>)"
      "content w = content (l_kv x)" by (rule pull_that [OF h(1) R(2) l r(2)])
    have "is_log path R ?a (x\<lparr>l_kv := w\<rparr>)"
      using h w(2) by (auto simp: lxq_is_def lxq_holds_def names_loaded_def stored_cong [OF w(2)])
    then show ?thesis using w(1) r(1) keep [of ps cs "x\<lparr>l_kv := w\<rparr>"] by (intro exI [of _ "x\<lparr>l_kv := w\<rparr>"]) (auto simp: cons_pos_def)
  qed
qed

end

lemma pole_sync_store:
  "leveldb_dir L path_of files \<Longrightarrow> sync_store (pole_ops L) (log_keeps path_of files path R) (2 ^ 64 - R - 2)"
  by (rule lxq_store.log_sync_store [OF pole_store])

interpretation mem_log: sync_store "pole_ops mem_dirs" "log_keeps (\<lambda>d. d) (\<lambda>w. w) path R" "2 ^ 64 - R - 2" for path R
  by (rule mem_dir.pole.log_sync_store)

end
