(* ===== verification/Pole_Net.thy ===== *)
theory Pole_Net
  imports Lxq_Queue
begin

text \<open>
  Events between the pole-M server and its pole-S clients: \<^verbatim>\<open>lib/libnetmod/src/netmod.c\<close>. A thread moves events between
  a ZeroMQ socket and two queues; the programs send and receive on the queues.

  The queue library is not part of the repository (only \<^verbatim>\<open>qlist.h\<close>): its calls are a parameter \<open>'q qlist_lib\<close>, and the locale
  \<open>qlist_fifo\<close> states that a queue gives back what was put in, in order. A ZeroMQ message is a
  list of frames. An allocation that fails ends the process by an assertion; it is taken to
  succeed. Type and state codes are integers, sequence numbers natural numbers below
  \<open>2 ^ 64\<close>. \<^term>\<open>None\<close> is a failed assertion or undefined behaviour.
\<close>

section \<open>Events\<close>

definition NET_EV_DUMP_REQ :: int where "NET_EV_DUMP_REQ = 1"
definition NET_EV_DUMP_REP :: int where "NET_EV_DUMP_REP = 2"
definition NET_EV_INCREMENT_REQ :: int where "NET_EV_INCREMENT_REQ = 3"
definition NET_EV_INCREMENT_REP :: int where "NET_EV_INCREMENT_REP = 4"

definition NET_EV_NONE :: int where "NET_EV_NONE = -1"
definition NET_EV_SUCC :: int where "NET_EV_SUCC = 0"
definition NET_EV_FAIL :: int where "NET_EV_FAIL = 1"
definition NET_EV_FATAL :: int where "NET_EV_FATAL = 2"

lemmas net_codes = NET_EV_DUMP_REQ_def NET_EV_DUMP_REP_def NET_EV_INCREMENT_REQ_def NET_EV_INCREMENT_REP_def
  NET_EV_NONE_def NET_EV_SUCC_def NET_EV_FAIL_def NET_EV_FATAL_def

definition IDENTITY_SIZE :: nat where "IDENTITY_SIZE = 32"

text \<open>The id is the string in its array; \<open>ev_data\<close> is the memory behind the head, of which \<open>ev_size\<close> bytes are sent.\<close>

record evt_head =
  ev_id :: bytes
  ev_type :: int
  ev_state :: int
  task_seq :: nat
  incr_rows :: int
  ev_size :: nat

record evt = evt_head +
  ev_data :: bytes

definition evt_new_by_size :: "nat \<Rightarrow> evt" where
  "evt_new_by_size n =
     \<lparr>ev_id = [], ev_type = 0, ev_state = 0, task_seq = 0, incr_rows = 0, ev_size = n, ev_data = replicate n 0\<rparr>"

text \<open>\<^verbatim>\<open>memcpy(dst, src, evt_head_size())\<close>\<close>

definition copy_head :: "evt \<Rightarrow> evt_head \<Rightarrow> evt" where
  "copy_head dst src = evt_head.extend src \<lparr>ev_data = ev_data dst\<rparr>"

definition copy_evt :: "evt \<Rightarrow> evt option" where
  "copy_evt e = do {
     asserting (ev_size e \<le> length (ev_data e));
     Some (copy_head ((evt_new_by_size (ev_size e))\<lparr>ev_data := take (ev_size e) (ev_data e)\<rparr>) (evt_head.truncate e)) }"

section \<open>Queues\<close>

record 'q qlist_lib =
  ql_init :: 'q
  ql_pull :: "'q \<Rightarrow> evt option \<times> 'q"
  ql_push :: "'q \<Rightarrow> evt \<Rightarrow> 'q"
  ql_view :: "'q \<Rightarrow> int"

locale qlist_fifo =
  fixes Q :: "'q qlist_lib" and items :: "'q \<Rightarrow> evt list"
  assumes items_init: "items (ql_init Q) = []"
    and pull_empty: "items q = [] \<Longrightarrow> \<exists>q'. ql_pull Q q = (None, q') \<and> items q' = []"
    and pull_item: "items q = e # es \<Longrightarrow> \<exists>q'. ql_pull Q q = (Some e, q') \<and> items q' = es"
    and items_push: "items (ql_push Q q e) = items q @ [e]"
    and view_length: "ql_view Q q = int (length (items q))"

definition list_qlist :: "evt list qlist_lib" where
  "list_qlist = \<lparr>ql_init = [], ql_pull = (\<lambda>q. case q of [] \<Rightarrow> (None, []) | e # es \<Rightarrow> (Some e, es)),
     ql_push = (\<lambda>q e. q @ [e]), ql_view = (\<lambda>q. int (length q))\<rparr>"

interpretation list_queue: qlist_fifo list_qlist "\<lambda>q. q"
  by unfold_locales (simp_all add: list_qlist_def)

section \<open>The event context\<close>

datatype node_type = SOCK_SERVER | SOCK_CLIENT

record 'q evt_ctx =
  ec_type :: node_type
  qrecv :: 'q
  qsend :: 'q

definition evt_ctx_init :: "'q qlist_lib \<Rightarrow> node_type \<Rightarrow> 'q evt_ctx" where
  "evt_ctx_init Q type = \<lparr>ec_type = type, qrecv = ql_init Q, qsend = ql_init Q\<rparr>"

definition recv_evt :: "'q qlist_lib \<Rightarrow> 'q evt_ctx \<Rightarrow> evt option \<times> 'q evt_ctx" where
  "recv_evt Q c = (case ql_pull Q (qrecv c) of (e, q) \<Rightarrow> (e, c\<lparr>qrecv := q\<rparr>))"

definition send_evt :: "'q qlist_lib \<Rightarrow> 'q evt_ctx \<Rightarrow> evt \<Rightarrow> int \<times> 'q evt_ctx" where
  "send_evt Q c e = (0, c\<lparr>qsend := ql_push Q (qsend c) e\<rparr>)"

section \<open>The network thread\<close>

datatype frame = Frame_Id bytes | Frame_Head evt_head | Frame_Body bytes

text \<open>A server reads the identity frame first and does not use it. A body is read when the head announces one;
  a body of another length, or none, leaves the stream out of step.\<close>

definition evt_of_frames :: "node_type \<Rightarrow> frame list \<Rightarrow> evt option" where
  "evt_of_frames type fs = do {
     fs \<leftarrow> (case (type, fs) of (SOCK_SERVER, Frame_Id i # fs) \<Rightarrow> Some fs | (SOCK_SERVER, _) \<Rightarrow> None | (SOCK_CLIENT, fs) \<Rightarrow> Some fs);
     case fs of
       Frame_Head h # rest \<Rightarrow>
         let e = copy_head (evt_new_by_size (ev_size h)) h in
         if ev_size h = 0 then do { asserting (rest = []); Some e }
         else (case rest of
             [Frame_Body b] \<Rightarrow> do { asserting (length b = ev_size h); Some (e\<lparr>ev_data := b\<rparr>) }
           | _ \<Rightarrow> None)
     | _ \<Rightarrow> None }"

definition frames_of_evt :: "node_type \<Rightarrow> evt \<Rightarrow> frame list option" where
  "frames_of_evt type e = do {
     asserting (ev_size e \<le> length (ev_data e));
     Some ((if type = SOCK_SERVER then [Frame_Id (ev_id e @ [0])] else []) @ [Frame_Head (evt_head.truncate e)] @
       (if ev_size e > 0 then [Frame_Body (take (ev_size e) (ev_data e))] else [])) }"

text \<open>One round of the thread with a readable and with a writable socket.\<close>

definition work_evt_in :: "'q qlist_lib \<Rightarrow> 'q evt_ctx \<Rightarrow> frame list \<Rightarrow> 'q evt_ctx option" where
  "work_evt_in Q c fs = do {
     e \<leftarrow> evt_of_frames (ec_type c) fs;
     Some (c\<lparr>qrecv := ql_push Q (qrecv c) e\<rparr>) }"

definition work_evt_out :: "'q qlist_lib \<Rightarrow> 'q evt_ctx \<Rightarrow> (frame list option \<times> 'q evt_ctx) option" where
  "work_evt_out Q c =
     (case ql_pull Q (qsend c) of (item, q) \<Rightarrow>
      case item of
        None \<Rightarrow> Some (None, c\<lparr>qsend := q\<rparr>)
      | Some e \<Rightarrow> do { fs \<leftarrow> frames_of_evt (ec_type c) e; Some (Some fs, c\<lparr>qsend := q\<rparr>) })"

section \<open>Lemmas\<close>

text \<open>What is sent is received, without the memory that is not part of the event.\<close>

definition evt_wire :: "evt \<Rightarrow> evt" where
  "evt_wire e = e\<lparr>ev_data := take (ev_size e) (ev_data e)\<rparr>"

lemma evt_ext: "evt_head.truncate e = evt_head.truncate e' \<Longrightarrow> ev_data e = ev_data e' \<Longrightarrow> e = (e' :: evt)"
  by (cases e; cases e') (simp add: evt_head.truncate_def)

lemma client_to_server:
  "ev_size e \<le> length (ev_data e) \<Longrightarrow>
   (do { fs \<leftarrow> frames_of_evt SOCK_CLIENT e; evt_of_frames SOCK_SERVER (Frame_Id i # fs) }) = Some (evt_wire e)"
  by (cases e) (simp add: frames_of_evt_def evt_of_frames_def evt_wire_def copy_head_def evt_new_by_size_def
      evt_head.defs Let_def)

lemma server_to_client:
  "ev_size e \<le> length (ev_data e) \<Longrightarrow>
   (do { fs \<leftarrow> frames_of_evt SOCK_SERVER e; evt_of_frames SOCK_CLIENT (tl fs) }) = Some (evt_wire e)"
  by (cases e) (simp add: frames_of_evt_def evt_of_frames_def evt_wire_def copy_head_def evt_new_by_size_def
      evt_head.defs Let_def)

end
