(* ===== verification/Pole_Server.thy ===== *)
theory Pole_Server
  imports Pole_Net
begin

text \<open>
  The server \<^verbatim>\<open>programs/pole-M\<close>: the worker that keeps one client in step with the message sequence
  (\<^verbatim>\<open>evt_worker.c\<close>, compiled with \<^verbatim>\<open>OPEN_BATCH\<close>), the dispatcher that hands events to the workers (\<^verbatim>\<open>evt_hander.c\<close>), the input
  thread (\<^verbatim>\<open>main.c\<close>) and the hash that spreads clients over threads (\<^verbatim>\<open>pole_common.c\<close>).

  The storage callbacks, the queues, the hash map and the thread pool are parameters of \<open>pole_env\<close>. A round
  of a worker between two switches of its coroutine is one step; the queues have locks of their own.
  \<^term>\<open>None\<close> is a failed assertion, which ends the server, or undefined behaviour.
\<close>

section \<open>Clients\<close>

datatype evt_phase = EVT_STATE_INCR | EVT_STATE_WAIT | EVT_STATE_DUMP | EVT_STATE_EXIT | EVT_STATE_RUIN

record 'q client_info =
  ci_id :: bytes
  ci_phase :: evt_phase
  ci_waits :: u64
  qdump :: 'q
  qevts :: 'q
  qincr :: 'q
  ci_consumer :: "nat option"

record 'm hash_lib =
  hm_get :: "'m \<Rightarrow> bytes \<Rightarrow> nat option"
  hm_set :: "'m \<Rightarrow> bytes \<Rightarrow> nat \<Rightarrow> 'm"
  hm_del :: "'m \<Rightarrow> bytes \<Rightarrow> 'm"

record ('w, 'h, 'q, 'm) pole_env =
  pe_ops :: "('w, 'h) lxq_ops"
  pe_queues :: "'q qlist_lib"
  pe_hash :: "'m hash_lib"
  pe_threads :: int

definition MAX_SYNC_STEP :: nat where "MAX_SYNC_STEP = 10"

definition client_info_create :: "'q qlist_lib \<Rightarrow> bytes \<Rightarrow> 'q client_info" where
  "client_info_create Q cid = \<lparr>ci_id = cid, ci_phase = EVT_STATE_INCR, ci_waits = 0, qdump = ql_init Q, qevts = ql_init Q,
     qincr = ql_init Q, ci_consumer = None\<rparr>"

definition client_info_init :: "'q qlist_lib \<Rightarrow> 'q client_info \<Rightarrow> 'q client_info" where
  "client_info_init Q c =
     c\<lparr>qdump := ql_init Q, qevts := ql_init Q, qincr := ql_init Q, ci_phase := EVT_STATE_INCR, ci_waits := 0\<rparr>"

text \<open>What a worker changes.\<close>

record ('w, 'h, 'q) work =
  wk_xmq :: "('w, 'h) lxq_ctx"
  wk_net :: "'q evt_ctx"
  wk_client :: "'q client_info"

definition the_consumer :: "('w, 'h, 'q) work \<Rightarrow> lxq_consumer option" where
  "the_consumer k = do { a \<leftarrow> ci_consumer (wk_client k); consumer_at (wk_xmq k) a }"

definition set_position :: "('w, 'h) lxq_ops \<Rightarrow> nat \<Rightarrow> ('w, 'h, 'q) work \<Rightarrow> ('w, 'h, 'q) work option" where
  "set_position ops pos k = do {
     a \<leftarrow> ci_consumer (wk_client k);
     (r, x) \<leftarrow> lxq_update_that ops a pos (wk_xmq k);
     asserting (r = 0);
     Some (k\<lparr>wk_xmq := x\<rparr>) }"

definition send_to :: "'q qlist_lib \<Rightarrow> evt \<Rightarrow> ('w, 'h, 'q) work \<Rightarrow> ('w, 'h, 'q) work option" where
  "send_to Q e k = (case send_evt Q (wk_net k) e of (r, net) \<Rightarrow> do { asserting (r = 0); Some (k\<lparr>wk_net := net\<rparr>) })"

section \<open>Increments\<close>

text \<open>\<open>serial\<close>: the distance to the write position, in unsigned arithmetic, at least one and at most ten.\<close>

definition batch_size :: "nat \<Rightarrow> nat \<Rightarrow> nat" where
  "batch_size write_seq fetch_seq = max 1 (min MAX_SYNC_STEP (unat (of_nat write_seq - of_nat fetch_seq :: u64)))"

primrec push_batch :: "'q qlist_lib \<Rightarrow> evt \<Rightarrow> nat \<Rightarrow> nat \<Rightarrow> nat \<Rightarrow> 'q \<Rightarrow> 'q option" where
  "push_batch Q old pos 0 idx q = Some q"
| "push_batch Q old pos (Suc n) idx q = do {
     e \<leftarrow> copy_evt old;
     push_batch Q old pos n (idx + 1)
       (ql_push Q q (e\<lparr>task_seq := (pos + idx) mod 2 ^ 64, ev_state := NET_EV_SUCC, ev_type := NET_EV_INCREMENT_REP\<rparr>)) }"

text \<open>The answered request: the phase when the work ends here, else the event with its number.\<close>

definition incr_accept :: "('w, 'h, 'q, 'm) pole_env \<Rightarrow> evt \<Rightarrow> ('w, 'h, 'q) work \<Rightarrow> ((evt_phase + evt) \<times> ('w, 'h, 'q) work) option" where
  "incr_accept E e k =
     (if ev_state e = NET_EV_NONE \<and> task_seq e = 0 then do {
        let k = k\<lparr>wk_client := client_info_init (pe_queues E) (wk_client k)\<rparr>;
        c \<leftarrow> the_consumer k;
        Some (Inr (e\<lparr>task_seq := last_fetch_seq c\<rparr>), k) }
      else if ev_state e = NET_EV_NONE then do {
        let k = k\<lparr>wk_client := client_info_init (pe_queues E) (wk_client k)\<rparr>;
        k \<leftarrow> set_position (pe_ops E) (task_seq e) k;
        c \<leftarrow> the_consumer k;
        Some (Inr (e\<lparr>task_seq := last_fetch_seq c\<rparr>), k) }
      else if ev_state e = NET_EV_FATAL then Some (Inl EVT_STATE_RUIN, k)
      else if ev_state e = NET_EV_FAIL then Some (Inl EVT_STATE_EXIT, k)
      else do {
        c \<leftarrow> the_consumer k;
        asserting (task_seq e = (last_fetch_seq c + 1) mod 2 ^ 64);
        k \<leftarrow> set_position (pe_ops E) (task_seq e) k;
        c \<leftarrow> the_consumer k;
        Some (Inr (e\<lparr>task_seq := last_fetch_seq c\<rparr>), k\<lparr>wk_client := (wk_client k)\<lparr>ci_waits := ci_waits (wk_client k) - 1\<rparr>\<rparr>) })"

definition do_incr_rep_task :: "('w, 'h, 'q, 'm) pole_env \<Rightarrow> ('w, 'h, 'q) work \<Rightarrow> (evt_phase \<times> ('w, 'h, 'q) work) option" where
  "do_incr_rep_task E k =
     (case ql_pull (pe_queues E) (qevts (wk_client k)) of (item, q) \<Rightarrow> do {
      e \<leftarrow> item;
      let k = k\<lparr>wk_client := (wk_client k)\<lparr>qevts := q\<rparr>\<rparr>;
      asserting (ev_type e = NET_EV_INCREMENT_REQ);
      asserting (task_seq e \<noteq> 0 \<or> ev_state e = NET_EV_NONE);
      (r, k) \<leftarrow> incr_accept E e k;
      case r of
        Inl phase \<Rightarrow> Some (phase, k)
      | Inr e \<Rightarrow>
          if ci_waits (wk_client k) > 0 then Some (EVT_STATE_INCR, k)
          else do {
            c \<leftarrow> the_consumer k;
            q \<leftarrow> push_batch (pe_queues E) e (last_fetch_seq c) (batch_size (last_write_db_seq (wk_xmq k)) (last_fetch_seq c)) 0
                  (qincr (wk_client k));
            Some (EVT_STATE_WAIT, k\<lparr>wk_client := (wk_client k)\<lparr>qincr := q\<rparr>\<rparr>) } })"

definition do_incr_chk_task :: "('w, 'h, 'q, 'm) pole_env \<Rightarrow> ('w, 'h, 'q) work \<Rightarrow> (evt_phase \<times> ('w, 'h, 'q) work) option" where
  "do_incr_chk_task E k =
     (case ql_pull (pe_queues E) (qevts (wk_client k)) of (item, q) \<Rightarrow> do {
      e \<leftarrow> item;
      asserting (ev_type e = NET_EV_INCREMENT_REQ);
      asserting (ev_state e = NET_EV_NONE);
      let c = client_info_init (pe_queues E) ((wk_client k)\<lparr>qevts := q\<rparr>);
      Some (EVT_STATE_INCR, k\<lparr>wk_client := c\<lparr>qevts := ql_push (pe_queues E) (qevts c) e\<rparr>\<rparr>) })"

text \<open>The answer that carries a message.\<close>

definition message_evt :: "evt \<Rightarrow> lxq_msg \<Rightarrow> evt option" where
  "message_evt e m = do {
     asserting (lm_len m > 0);
     asserting (unat (lm_len m) \<le> length (lm_data m));
     let rsp = copy_head (evt_new_by_size (unat (lm_len m))) (evt_head.truncate e);
     Some (rsp\<lparr>ev_size := unat (lm_len m), ev_type := NET_EV_INCREMENT_REP, ev_data := take (unat (lm_len m)) (lm_data m)\<rparr>) }"

text \<open>\<open>fuel\<close> is the number of queued events; the loop takes one out in each round.\<close>

primrec incr_req_loop ::
  "('w, 'h, 'q, 'm) pole_env \<Rightarrow> int \<Rightarrow> nat \<Rightarrow> ('w, 'h, 'q) work \<Rightarrow> (evt_phase \<times> ('w, 'h, 'q) work) option" where
  "incr_req_loop E have_n 0 k =
     (if ql_view (pe_queues E) (qincr (wk_client k)) = 0 then Some (EVT_STATE_INCR, k) else None)"
| "incr_req_loop E have_n (Suc fuel) k =
     (if ql_view (pe_queues E) (qincr (wk_client k)) = 0 then Some (EVT_STATE_INCR, k)
      else (case ql_pull (pe_queues E) (qincr (wk_client k)) of (item, q) \<Rightarrow> do {
        e \<leftarrow> item;
        let k = k\<lparr>wk_client := (wk_client k)\<lparr>qincr := q\<rparr>\<rparr>;
        asserting (ev_type e = NET_EV_INCREMENT_REP);
        the_consumer k;
        (v, x) \<leftarrow> lxq_pull_that (pe_ops E) (task_seq e) (wk_xmq k);
        let k = k\<lparr>wk_xmq := x\<rparr>;
        case v of
          None \<Rightarrow> do {
            asserting (have_n = 1);
            Some (EVT_STATE_WAIT, k\<lparr>wk_client := (wk_client k)\<lparr>qincr := ql_push (pe_queues E) q e\<rparr>\<rparr>) }
        | Some bin \<Rightarrow> do {
            m \<leftarrow> lxq_msg_at bin;
            rsp \<leftarrow> message_evt e m;
            k \<leftarrow> send_to (pe_queues E) rsp k;
            incr_req_loop E have_n fuel (k\<lparr>wk_client := (wk_client k)\<lparr>ci_waits := ci_waits (wk_client k) + 1\<rparr>\<rparr>) } }))"

definition do_incr_req_task :: "('w, 'h, 'q, 'm) pole_env \<Rightarrow> ('w, 'h, 'q) work \<Rightarrow> (evt_phase \<times> ('w, 'h, 'q) work) option" where
  "do_incr_req_task E k = (let n = ql_view (pe_queues E) (qincr (wk_client k)) in
     do { asserting (n \<noteq> 0); incr_req_loop E n (nat n) k })"

section \<open>Dumps\<close>

text \<open>The id and the text of the body change places; the id array has 32 bytes.\<close>

definition swap_id :: "evt \<Rightarrow> evt option" where
  "swap_id e = do {
     d \<leftarrow> c_string (ev_data e);
     asserting (length d < IDENTITY_SIZE);
     let i = ev_id e;
     Some (if length i \<le> length d
           then e\<lparr>ev_id := d, ev_data := i @ [0] @ drop (length i + 1) (ev_data e)\<rparr>
           else (copy_head (evt_new_by_size (length i + 1)) (evt_head.truncate e))
                  \<lparr>ev_id := d, ev_data := i @ [0], ev_size := length i + 1\<rparr>) }"

definition do_dump_req_task :: "('w, 'h, 'q, 'm) pole_env \<Rightarrow> ('w, 'h, 'q) work \<Rightarrow> (evt_phase \<times> ('w, 'h, 'q) work) option" where
  "do_dump_req_task E k =
     (case ql_pull (pe_queues E) (qdump (wk_client k)) of (item, q) \<Rightarrow> do {
      e \<leftarrow> item;
      let k = k\<lparr>wk_client := (wk_client k)\<lparr>qdump := q\<rparr>\<rparr>;
      asserting (ev_type e = NET_EV_DUMP_REQ \<and> ev_state e = NET_EV_NONE);
      k \<leftarrow> send_to (pe_queues E) e k;
      Some (EVT_STATE_DUMP, k\<lparr>wk_client := (wk_client k)\<lparr>ci_waits := ci_waits (wk_client k) + 1\<rparr>\<rparr>) })"

text \<open>A finished dump puts the client that asked for it at the position of the client that made it.\<close>

definition dump_consumer :: "('w, 'h) lxq_ops \<Rightarrow> bytes \<Rightarrow> ('w, 'h) lxq_ctx \<Rightarrow> (nat \<times> ('w, 'h) lxq_ctx) option" where
  "dump_consumer ops n x =
     (case lxq_get_consumer x n of
        Some a \<Rightarrow> Some (a, x)
      | None \<Rightarrow> do {
          (r, x) \<leftarrow> lxq_register_consumer ops n x;
          asserting (r = 0);
          a \<leftarrow> lxq_get_consumer x n;
          Some (a, x) })"

definition dump_answer :: "('w, 'h, 'q, 'm) pole_env \<Rightarrow> evt \<Rightarrow> ('w, 'h, 'q) work \<Rightarrow> ('w, 'h, 'q) work option" where
  "dump_answer E e k = do {
     e \<leftarrow> swap_id e;
     if ev_state e \<noteq> NET_EV_SUCC then send_to (pe_queues E) (e\<lparr>ev_type := NET_EV_DUMP_REP, ev_state := NET_EV_FAIL\<rparr>) k
     else do {
       c \<leftarrow> the_consumer k;
       let e = e\<lparr>task_seq := last_fetch_seq c\<rparr>;
       (a, x) \<leftarrow> dump_consumer (pe_ops E) (ev_id e) (wk_xmq k);
       (r, x) \<leftarrow> lxq_update_that (pe_ops E) a (task_seq e) x;
       asserting (r = 0);
       send_to (pe_queues E) e (k\<lparr>wk_xmq := x\<rparr>) } }"

primrec dump_rep_loop :: "('w, 'h, 'q, 'm) pole_env \<Rightarrow> nat \<Rightarrow> ('w, 'h, 'q) work \<Rightarrow> ('w, 'h, 'q) work option" where
  "dump_rep_loop E 0 k = None"
| "dump_rep_loop E (Suc fuel) k =
     (case ql_pull (pe_queues E) (qdump (wk_client k)) of (item, q) \<Rightarrow>
      let k = k\<lparr>wk_client := (wk_client k)\<lparr>qdump := q\<rparr>\<rparr> in
      case item of
        None \<Rightarrow> Some k
      | Some e \<Rightarrow> do {
          asserting (ev_type e = NET_EV_DUMP_REP \<or> ev_type e = NET_EV_DUMP_REQ \<and> ev_state e = NET_EV_NONE);
          k \<leftarrow> (if ev_type e = NET_EV_DUMP_REQ then do {
                  k \<leftarrow> send_to (pe_queues E) e k;
                  Some (k\<lparr>wk_client := (wk_client k)\<lparr>ci_waits := ci_waits (wk_client k) + 1\<rparr>\<rparr>) }
                else do {
                  k \<leftarrow> dump_answer E e k;
                  Some (k\<lparr>wk_client := (wk_client k)\<lparr>ci_waits := ci_waits (wk_client k) - 1\<rparr>\<rparr>) });
          dump_rep_loop E fuel k })"

definition do_dump_rep_task :: "('w, 'h, 'q, 'm) pole_env \<Rightarrow> ('w, 'h, 'q) work \<Rightarrow> (evt_phase \<times> ('w, 'h, 'q) work) option" where
  "do_dump_rep_task E k = do {
     k \<leftarrow> dump_rep_loop E (nat (ql_view (pe_queues E) (qdump (wk_client k))) + 1) k;
     Some (if ci_waits (wk_client k) = 0 then EVT_STATE_WAIT else EVT_STATE_DUMP, k) }"

section \<open>A round of a worker\<close>

text \<open>\<open>False\<close>: the client has left.\<close>

definition to_phase :: "(evt_phase \<times> ('w, 'h, 'q) work) option \<Rightarrow> (bool \<times> ('w, 'h, 'q) work) option" where
  "to_phase r = do { (p, k) \<leftarrow> r; Some (True, k\<lparr>wk_client := (wk_client k)\<lparr>ci_phase := p\<rparr>\<rparr>) }"

definition task_round :: "('w, 'h, 'q, 'm) pole_env \<Rightarrow> ('w, 'h, 'q) work \<Rightarrow> (bool \<times> ('w, 'h, 'q) work) option" where
  "task_round E k =
     (let c = wk_client k; view = (\<lambda>q. ql_view (pe_queues E) q \<noteq> 0) in
      case ci_phase c of
        EVT_STATE_INCR \<Rightarrow> if view (qevts c) then to_phase (do_incr_rep_task E k) else Some (True, k)
      | EVT_STATE_WAIT \<Rightarrow>
          if view (qevts c) then to_phase (do_incr_chk_task E k)
          else if view (qdump c) then to_phase (do_dump_req_task E k)
          else if view (qincr c) then to_phase (do_incr_req_task E k)
          else Some (True, k)
      | EVT_STATE_DUMP \<Rightarrow>
          if view (qevts c) then to_phase (do_incr_chk_task E k)
          else if view (qdump c) then to_phase (do_dump_rep_task E k)
          else Some (True, k)
      | EVT_STATE_RUIN \<Rightarrow> do { (r, x) \<leftarrow> lxq_unregister_consumer (pe_ops E) (ci_id c) (wk_xmq k); Some (False, k\<lparr>wk_xmq := x\<rparr>) }
      | EVT_STATE_EXIT \<Rightarrow> Some (False, k))"

section \<open>The server\<close>

text \<open>The thread of a client: the bytes are added as signed characters.\<close>

definition custom_hash :: "bytes option \<Rightarrow> int \<Rightarrow> int \<Rightarrow> int" where
  "custom_hash key num fix_n =
     (case key of
        None \<Rightarrow> -1
      | Some p \<Rightarrow>
          if p = [] \<or> num \<le> 0 then -1
          else uint (foldl (\<lambda>h b. h + of_int (sint b)) (0 :: u32) p) mod num + fix_n)"

text \<open>\<open>pm_clients\<close> is the memory of the clients by address; \<open>pm_tasks\<close> the clients given to the threads of the pool.\<close>

record ('w, 'h, 'q, 'm) pole_m =
  pm_xmq :: "('w, 'h) lxq_ctx"
  pm_net :: "'q evt_ctx"
  pm_hash :: 'm
  pm_clients :: "nat \<Rightarrow> 'q client_info option"
  pm_tasks :: "(int \<times> nat) list"
  pm_fresh :: nat

definition task_handle :: "('w, 'h, 'q, 'm) pole_env \<Rightarrow> nat \<Rightarrow> ('w, 'h, 'q, 'm) pole_m \<Rightarrow> ('w, 'h, 'q, 'm) pole_m option" where
  "task_handle E a s = do {
     c \<leftarrow> pm_clients s a;
     (go, k) \<leftarrow> task_round E \<lparr>wk_xmq = pm_xmq s, wk_net = pm_net s, wk_client = c\<rparr>;
     let s = s\<lparr>pm_xmq := wk_xmq k, pm_net := wk_net k\<rparr>;
     Some (if go then s\<lparr>pm_clients := (pm_clients s)(a := Some (wk_client k))\<rparr>
           else s\<lparr>pm_hash := hm_del (pe_hash E) (pm_hash s) (ci_id (wk_client k)),
                  pm_clients := (pm_clients s)(a := None), pm_tasks := filter (\<lambda>(t, b). b \<noteq> a) (pm_tasks s)\<rparr>) }"

text \<open>A null pointer when the consumer could not be registered.\<close>

definition new_regist_one_client ::
  "('w, 'h, 'q, 'm) pole_env \<Rightarrow> bytes \<Rightarrow> ('w, 'h, 'q, 'm) pole_m \<Rightarrow> (nat option \<times> ('w, 'h, 'q, 'm) pole_m) option" where
  "new_regist_one_client E cid s =
     (let c = client_info_init (pe_queues E) (client_info_create (pe_queues E) cid);
          a = pm_fresh s in
      case lxq_get_consumer (pm_xmq s) cid of
        Some p \<Rightarrow> Some (Some a, s\<lparr>pm_clients := (pm_clients s)(a := Some (c\<lparr>ci_consumer := Some p\<rparr>)), pm_fresh := a + 1\<rparr>)
      | None \<Rightarrow> do {
          (r, x) \<leftarrow> lxq_register_consumer (pe_ops E) cid (pm_xmq s);
          let s = s\<lparr>pm_xmq := x\<rparr>;
          if r \<noteq> 0 then Some (None, s)
          else do {
            p \<leftarrow> lxq_get_consumer x cid;
            Some (Some a, s\<lparr>pm_clients := (pm_clients s)(a := Some (c\<lparr>ci_consumer := Some p\<rparr>)), pm_fresh := a + 1\<rparr>) } })"

definition queue_evt :: "('w, 'h, 'q, 'm) pole_env \<Rightarrow> evt \<Rightarrow> nat \<Rightarrow> ('w, 'h, 'q, 'm) pole_m \<Rightarrow> ('w, 'h, 'q, 'm) pole_m option" where
  "queue_evt E e a s = do {
     c \<leftarrow> pm_clients s a;
     let c = (if ev_type e = NET_EV_DUMP_REQ \<or> ev_type e = NET_EV_DUMP_REP
              then c\<lparr>qdump := ql_push (pe_queues E) (qdump c) e\<rparr> else c\<lparr>qevts := ql_push (pe_queues E) (qevts c) e\<rparr>);
     Some (s\<lparr>pm_clients := (pm_clients s)(a := Some c)\<rparr>) }"

definition push_event_to_work ::
  "('w, 'h, 'q, 'm) pole_env \<Rightarrow> evt \<Rightarrow> ('w, 'h, 'q, 'm) pole_m \<Rightarrow> (int \<times> ('w, 'h, 'q, 'm) pole_m) option" where
  "push_event_to_work E e s =
     (case hm_get (pe_hash E) (pm_hash s) (ev_id e) of
        Some a \<Rightarrow> do { s \<leftarrow> queue_evt E e a s; Some (0, s) }
      | None \<Rightarrow>
          if ev_type e = NET_EV_DUMP_REQ then do {
            e \<leftarrow> swap_id e;
            let (r, net) = send_evt (pe_queues E) (pm_net s) (e\<lparr>ev_type := NET_EV_DUMP_REP, ev_state := NET_EV_FAIL\<rparr>);
            asserting (r = 0);
            Some (-1, s\<lparr>pm_net := net\<rparr>) }
          else do {
            (p, s) \<leftarrow> new_regist_one_client E (ev_id e) s;
            a \<leftarrow> p;
            let s = s\<lparr>pm_hash := hm_set (pe_hash E) (pm_hash s) (ev_id e) a, pm_tasks := pm_tasks s @ [(custom_hash (Some (ev_id e)) (pe_threads E) 0, a)]\<rparr>;
            s \<leftarrow> queue_evt E e a s;
            Some (0, s) })"

text \<open>One event of the dispatcher. The texts are read only when the sizes before them allow it.\<close>

definition dump_target_bad :: "evt \<Rightarrow> bool option" where
  "dump_target_bad e =
     (if ev_size e = 0 \<or> IDENTITY_SIZE \<le> ev_size e then Some True
      else do { d \<leftarrow> c_string (ev_data e); Some (length d = 0 \<or> IDENTITY_SIZE \<le> length d) })"

definition event_dispenser :: "('w, 'h, 'q, 'm) pole_env \<Rightarrow> ('w, 'h, 'q, 'm) pole_m \<Rightarrow> ('w, 'h, 'q, 'm) pole_m option" where
  "event_dispenser E s =
     (case recv_evt (pe_queues E) (pm_net s) of (item, net) \<Rightarrow>
      let s = s\<lparr>pm_net := net\<rparr> in
      case item of
        None \<Rightarrow> Some s
      | Some e \<Rightarrow>
          if ev_type e = NET_EV_DUMP_REQ then do {
            bad \<leftarrow> dump_target_bad e;
            if bad then Some s
            else do { e \<leftarrow> swap_id e; (r, s) \<leftarrow> push_event_to_work E e s; Some s } }
          else do { (r, s) \<leftarrow> push_event_to_work E e s; Some s })"

text \<open>A message on the input socket: \<open>None\<close> in the result ends the thread, else the answer \<^verbatim>\<open>OK\<close> is sent, whatever the push returned.\<close>

definition data_write_zmq :: "('w, 'h) lxq_ops \<Rightarrow> bytes \<Rightarrow> ('w, 'h) lxq_ctx \<Rightarrow> (bytes option \<times> ('w, 'h) lxq_ctx) option" where
  "data_write_zmq ops d x = do {
     m \<leftarrow> lxq_msg_new_data True (Some d) (of_nat (length d));
     case m of
       None \<Rightarrow> Some (None, x)
     | Some msg \<Rightarrow> do {
         (r, x) \<leftarrow> lxq_push_tail ops msg x;
         Some (Some (ascii ''OK'' @ [0]), x) } }"

lemma custom_hash_range: "k \<noteq> [] \<Longrightarrow> 0 < num \<Longrightarrow> 0 \<le> custom_hash (Some k) num 0 \<and> custom_hash (Some k) num 0 < num"
  by (simp add: custom_hash_def)

end
