(* ===== verification/Pole_Client.thy ===== *)
theory Pole_Client
  imports Pole_Net
begin

text \<open>
  The client \<^verbatim>\<open>programs/pole-S\<close>: the table of businesses (\<^verbatim>\<open>register.c\<close>), the businesses \<^verbatim>\<open>main.c\<close> registers (writing increments
  to a file in \<^verbatim>\<open>busi_w2file.h\<close>, dumping in \<^verbatim>\<open>busi_dump.h\<close>) and the two loops of \<^verbatim>\<open>main\<close>. The outcome of a write to the file
  is an argument, with writes that come to the file in part and flushes whose failure is not looked at. \<^term>\<open>None\<close> is a failed assertion or undefined behaviour.
\<close>

section \<open>Businesses\<close>

datatype business = Busi_Dump | Busi_W2file

definition BUSINESS_MAX_SIZE :: int where "BUSINESS_MAX_SIZE = 30"
definition BUSI_DUMP :: int where "BUSI_DUMP = NET_EV_DUMP_REQ"
definition BUSI_INCR :: int where "BUSI_INCR = NET_EV_INCREMENT_REP"

text \<open>The table, and the file: its pointer, which keeps its value when the file is closed, and what it holds.\<close>

datatype file_ptr = Fp_Null | Fp_Open | Fp_Closed

record busi_env =
  g_busi_ary :: "int \<Rightarrow> business option"
  g_fp :: file_ptr
  fp_data :: bytes

definition register_business :: "int \<Rightarrow> business \<Rightarrow> busi_env \<Rightarrow> int \<times> busi_env" where
  "register_business type b s =
     (if type < 0 \<or> BUSINESS_MAX_SIZE \<le> type then (-1, s) else (0, s\<lparr>g_busi_ary := (g_busi_ary s)(type \<mapsto> b)\<rparr>))"

text \<open>\<open>opened\<close>: whether the file can be opened.\<close>

definition busi_init :: "bool \<Rightarrow> business \<Rightarrow> busi_env \<Rightarrow> int \<times> busi_env" where
  "busi_init opened b s =
     (case b of
        Busi_Dump \<Rightarrow> (0, s)
      | Busi_W2file \<Rightarrow> (if opened then 0 else -1, s\<lparr>g_fp := if opened then Fp_Open else Fp_Null\<rparr>))"

primrec startup_from :: "bool \<Rightarrow> nat \<Rightarrow> int \<Rightarrow> busi_env \<Rightarrow> int \<times> busi_env" where
  "startup_from opened 0 i s = (0, s)"
| "startup_from opened (Suc n) i s =
     (case g_busi_ary s i of
        None \<Rightarrow> startup_from opened n (i + 1) s
      | Some b \<Rightarrow> (case busi_init opened b s of (r, s) \<Rightarrow> if r = -1 then (i, s) else startup_from opened n (i + 1) s))"

definition startup_businesses :: "bool \<Rightarrow> busi_env \<Rightarrow> int \<times> busi_env" where
  "startup_businesses opened s = startup_from opened (nat BUSINESS_MAX_SIZE) 0 s"

text \<open>What becomes of a write: it gets to the file; \<^verbatim>\<open>fwrite\<close> fails when the first \<open>n\<close> bytes have got there; or \<^verbatim>\<open>fwrite\<close>
  takes the bytes into its buffer and the \<^verbatim>\<open>fflush\<close> behind it fails when the first \<open>n\<close> have got there, which
  drops the others and which nobody looks at.\<close>

datatype write_outcome = Written | Write_Fails nat | Flush_Fails nat

text \<open>\<^verbatim>\<open>fwrite\<close> of one element: of no bytes it returns 0, which counts as a failure.\<close>

definition w2file_done :: "write_outcome \<Rightarrow> bytes \<Rightarrow> busi_env \<Rightarrow> (int \<times> busi_env) option" where
  "w2file_done w d s =
     (case g_fp s of
        Fp_Null \<Rightarrow> Some (-1, s)
      | Fp_Closed \<Rightarrow> None
      | Fp_Open \<Rightarrow> Some (
          if d = [] then (NET_EV_FAIL, s)
          else case w of
            Written \<Rightarrow> (0, s\<lparr>fp_data := fp_data s @ d\<rparr>)
          | Write_Fails n \<Rightarrow> (NET_EV_FAIL, s\<lparr>fp_data := fp_data s @ take n d\<rparr>)
          | Flush_Fails n \<Rightarrow> (0, s\<lparr>fp_data := fp_data s @ take n d\<rparr>)))"

definition w2file_destroy :: "busi_env \<Rightarrow> busi_env option" where
  "w2file_destroy s =
     (case g_fp s of Fp_Null \<Rightarrow> Some s | Fp_Closed \<Rightarrow> None | Fp_Open \<Rightarrow> Some (s\<lparr>g_fp := Fp_Closed\<rparr>))"

text \<open>A number outside the table is read from other memory.\<close>

definition do_business :: "write_outcome \<Rightarrow> int \<Rightarrow> bytes \<Rightarrow> busi_env \<Rightarrow> (int \<times> busi_env) option" where
  "do_business w type d s = do {
     asserting (0 \<le> type \<and> type < BUSINESS_MAX_SIZE);
     case g_busi_ary s type of
       None \<Rightarrow> Some (-1, s)
     | Some Busi_Dump \<Rightarrow> Some (0, s)
     | Some Busi_W2file \<Rightarrow> w2file_done w d s }"

definition unregister_business :: "int \<Rightarrow> busi_env \<Rightarrow> busi_env option" where
  "unregister_business type s = do {
     asserting (0 \<le> type \<and> type < BUSINESS_MAX_SIZE);
     case g_busi_ary s type of
       Some Busi_W2file \<Rightarrow> do { s \<leftarrow> w2file_destroy s; Some (s\<lparr>g_busi_ary := (g_busi_ary s)(type := None)\<rparr>) }
     | _ \<Rightarrow> Some s }"

section \<open>The increment loop\<close>

record 'q pole_s =
  ps_net :: "'q evt_ctx"
  ps_busi :: busi_env
  last_type :: int
  busi_state :: int
  last_seq :: nat

text \<open>The context, the businesses and the first request.\<close>

definition first_request :: "bytes \<Rightarrow> nat \<Rightarrow> evt" where
  "first_request uid seq = (evt_new_by_size 0)
     \<lparr>ev_id := uid, ev_type := NET_EV_INCREMENT_REQ, ev_state := NET_EV_NONE, ev_size := 0, task_seq := seq, incr_rows := 1\<rparr>"

definition pole_s_start :: "'q qlist_lib \<Rightarrow> bool \<Rightarrow> bytes \<Rightarrow> nat \<Rightarrow> 'q pole_s option" where
  "pole_s_start Q opened uid seq =
     (let net = evt_ctx_init Q SOCK_CLIENT;
          b = \<lparr>g_busi_ary = (\<lambda>_. None), g_fp = Fp_Null, fp_data = []\<rparr>;
          b = snd (register_business BUSI_DUMP Busi_Dump b);
          b = snd (register_business BUSI_INCR Busi_W2file b);
          (res, b) = startup_businesses opened b in
      do {
        asserting (res = 0);
        let (r, net) = send_evt Q net (first_request uid seq);
        asserting (r = 0);
        Some \<lparr>ps_net = net, ps_busi = b, last_type = NET_EV_INCREMENT_REQ, busi_state = NET_EV_NONE, last_seq = 0\<rparr> })"

text \<open>The answer of the client: the event it received, changed.\<close>

definition answer_evt :: "int \<Rightarrow> int \<Rightarrow> evt \<Rightarrow> evt option" where
  "answer_evt type state e =
     (if type = BUSI_DUMP then Some (e\<lparr>ev_type := NET_EV_DUMP_REP, ev_state := state, incr_rows := 0, task_seq := 0\<rparr>)
      else if type = BUSI_INCR then
        Some (e\<lparr>ev_type := NET_EV_INCREMENT_REQ, ev_state := state, incr_rows := 1, task_seq := (task_seq e + 1) mod 2 ^ 64, ev_size := 0\<rparr>)
      else None)"

text \<open>One event of the loop; \<open>False\<close> when the program then ends.\<close>

definition handle_evt :: "'q qlist_lib \<Rightarrow> write_outcome \<Rightarrow> evt \<Rightarrow> 'q pole_s \<Rightarrow> (bool \<times> 'q pole_s) option" where
  "handle_evt Q w e s =
     (if ev_type e = NET_EV_INCREMENT_REP \<and> task_seq e = last_seq s then Some (True, s)
      else do {
        asserting (ev_type e = NET_EV_INCREMENT_REP \<longrightarrow> last_seq s \<le> task_seq e);
        let s = (if ev_type e = NET_EV_INCREMENT_REP then s\<lparr>last_seq := task_seq e\<rparr> else s);
        s \<leftarrow> (if last_type s = NET_EV_DUMP_REQ \<and> ev_type e = NET_EV_DUMP_REQ then Some s
              else do {
                asserting (ev_size e \<le> length (ev_data e));
                (r, b) \<leftarrow> do_business w (ev_type e) (take (ev_size e) (ev_data e)) (ps_busi s);
                Some (s\<lparr>ps_busi := b, busi_state := r\<rparr>) });
        let s = s\<lparr>last_type := ev_type e\<rparr>;
        a \<leftarrow> answer_evt (last_type s) (busi_state s) e;
        let (r, net) = send_evt Q (ps_net s) a;
        asserting (r = 0);
        Some (busi_state s = NET_EV_SUCC, s\<lparr>ps_net := net\<rparr>) })"

definition pole_s_round :: "'q qlist_lib \<Rightarrow> write_outcome \<Rightarrow> 'q pole_s \<Rightarrow> (bool \<times> 'q pole_s) option" where
  "pole_s_round Q w s =
     (case recv_evt Q (ps_net s) of (item, net) \<Rightarrow>
      let s = s\<lparr>ps_net := net\<rparr> in
      case item of None \<Rightarrow> Some (True, s) | Some e \<Rightarrow> handle_evt Q w e s)"

section \<open>The dump request\<close>

definition dump_request :: "bytes \<Rightarrow> bytes \<Rightarrow> evt" where
  "dump_request uid target = (evt_new_by_size (length target + 1))
     \<lparr>ev_id := uid, ev_type := NET_EV_DUMP_REQ, ev_state := NET_EV_NONE, ev_size := length target + 1, ev_data := target @ [0]\<rparr>"

text \<open>The program ends with -1 without a target, else it sends the request and waits for one answer.\<close>

definition pole_s_dump :: "'q qlist_lib \<Rightarrow> bytes \<Rightarrow> bytes \<Rightarrow> 'q evt_ctx \<Rightarrow> (int option \<times> 'q evt_ctx) option" where
  "pole_s_dump Q uid target net =
     (if target = [] then Some (Some (-1), net)
      else (case send_evt Q net (dump_request uid target) of (r, net) \<Rightarrow> do { asserting (r = 0); Some (None, net) }))"

definition pole_s_dump_answer :: "evt \<Rightarrow> int" where
  "pole_s_dump_answer e = (if ev_state e = NET_EV_FAIL then -1 else 0)"

end
