(* ===== verification/Pole_System.thy ===== *)
theory Pole_System
  imports Pole_Server Pole_Client
begin

text \<open>
  The server and its clients together. The threads of the server, the clients and ZeroMQ act in any order; an action is
  what one of them does between two points where another can come in. ZeroMQ delivers whole messages in
  order per connection, and drops what is sent to an identity that never connected.
\<close>

record ('w, 'h, 'q, 'm) pole_sys =
  sy_m :: "('w, 'h, 'q, 'm) pole_m"
  sy_s :: "bytes \<Rightarrow> (bool \<times> 'q pole_s) option"
  sy_up :: "bytes \<Rightarrow> frame list list"
  sy_down :: "bytes \<Rightarrow> frame list list"

text \<open>A client is started once, without a position of its own; \<open>Act_Client\<close> says what becomes of its next write to the file. The network
  thread of a client that has ended still sends, since \<^verbatim>\<open>main\<close> sleeps before it returns.\<close>

datatype pole_act =
    Act_Data bytes | Act_Dispatch | Act_Work nat | Act_Server_Out | Act_Server_In bytes
  | Act_Start bytes | Act_Client bytes write_outcome | Act_Client_Out bytes | Act_Client_In bytes

definition client_action ::
  "bytes \<Rightarrow> ('w, 'h, 'q, 'm) pole_sys \<Rightarrow> (bool \<times> 'q pole_s \<Rightarrow> ((bool \<times> 'q pole_s) \<times> ('w, 'h, 'q, 'm) pole_sys) option) \<Rightarrow> ('w, 'h, 'q, 'm) pole_sys option" where
  "client_action i y f =
     (case sy_s y i of
        None \<Rightarrow> Some y
      | Some s \<Rightarrow> do { (s, y) \<leftarrow> f s; Some (y\<lparr>sy_s := (sy_s y)(i \<mapsto> s)\<rparr>) })"

fun pole_do :: "('w, 'h, 'q, 'm) pole_env \<Rightarrow> pole_act \<Rightarrow> ('w, 'h, 'q, 'm) pole_sys \<Rightarrow> ('w, 'h, 'q, 'm) pole_sys option" where
  "pole_do E (Act_Data d) y = do {
     (r, x) \<leftarrow> data_write_zmq (pe_ops E) d (pm_xmq (sy_m y));
     Some (y\<lparr>sy_m := (sy_m y)\<lparr>pm_xmq := x\<rparr>\<rparr>) }"
| "pole_do E Act_Dispatch y = do { m \<leftarrow> event_dispenser E (sy_m y); Some (y\<lparr>sy_m := m\<rparr>) }"
| "pole_do E (Act_Work a) y =
     (if a \<in> snd ` set (pm_tasks (sy_m y)) then do { m \<leftarrow> task_handle E a (sy_m y); Some (y\<lparr>sy_m := m\<rparr>) } else Some y)"
| "pole_do E Act_Server_Out y = do {
     (out, net) \<leftarrow> work_evt_out (pe_queues E) (pm_net (sy_m y));
     let y = y\<lparr>sy_m := (sy_m y)\<lparr>pm_net := net\<rparr>\<rparr>;
     case out of
       Some (Frame_Id j # fs) \<Rightarrow>
         Some (if sy_s y (butlast j) = None then y else y\<lparr>sy_down := (sy_down y)(butlast j := sy_down y (butlast j) @ [fs])\<rparr>)
     | _ \<Rightarrow> Some y }"
| "pole_do E (Act_Server_In i) y =
     (case sy_up y i of
        [] \<Rightarrow> Some y
      | fs # r \<Rightarrow> do {
          net \<leftarrow> work_evt_in (pe_queues E) (pm_net (sy_m y)) (Frame_Id (i @ [0]) # fs);
          Some (y\<lparr>sy_m := (sy_m y)\<lparr>pm_net := net\<rparr>, sy_up := (sy_up y)(i := r)\<rparr>) })"
| "pole_do E (Act_Start i) y =
     (if sy_s y i = None then do {
        s \<leftarrow> pole_s_start (pe_queues E) True i 0;
        Some (y\<lparr>sy_s := (sy_s y)(i \<mapsto> (True, s))\<rparr>) }
      else Some y)"
| "pole_do E (Act_Client i w) y = client_action i y (\<lambda>(go, s).
     if go then do { r \<leftarrow> pole_s_round (pe_queues E) w s; Some (r, y) } else Some ((go, s), y))"
| "pole_do E (Act_Client_Out i) y = client_action i y (\<lambda>(go, s). do {
     (out, net) \<leftarrow> work_evt_out (pe_queues E) (ps_net s);
     Some ((go, s\<lparr>ps_net := net\<rparr>),
       case out of None \<Rightarrow> y | Some fs \<Rightarrow> y\<lparr>sy_up := (sy_up y)(i := sy_up y i @ [fs])\<rparr>) })"
| "pole_do E (Act_Client_In i) y = client_action i y (\<lambda>(go, s).
     case sy_down y i of
       [] \<Rightarrow> Some ((go, s), y)
     | fs # r \<Rightarrow> do {
         net \<leftarrow> work_evt_in (pe_queues E) (ps_net s) fs;
         Some ((go, s\<lparr>ps_net := net\<rparr>), y\<lparr>sy_down := (sy_down y)(i := r)\<rparr>) })"

primrec pole_run :: "('w, 'h, 'q, 'm) pole_env \<Rightarrow> pole_act list \<Rightarrow> ('w, 'h, 'q, 'm) pole_sys \<Rightarrow> ('w, 'h, 'q, 'm) pole_sys option" where
  "pole_run E [] y = Some y"
| "pole_run E (c # cs) y = do { y \<leftarrow> pole_do E c y; pole_run E cs y }"

text \<open>The server started on a message sequence, and no client yet.\<close>

definition pole_boot :: "('w, 'h, 'q, 'm) pole_env \<Rightarrow> ('w, 'h) lxq_ctx \<Rightarrow> 'm \<Rightarrow> ('w, 'h, 'q, 'm) pole_sys" where
  "pole_boot E x h =
     \<lparr>sy_m = \<lparr>pm_xmq = x, pm_net = evt_ctx_init (pe_queues E) SOCK_SERVER, pm_hash = h, pm_clients = (\<lambda>_. None), pm_tasks = [], pm_fresh = 0\<rparr>,
      sy_s = (\<lambda>_. None), sy_up = (\<lambda>_. []), sy_down = (\<lambda>_. [])\<rparr>"

text \<open>What the input received.\<close>

definition pole_input :: "pole_act list \<Rightarrow> bytes list" where
  "pole_input cs = concat (map (\<lambda>c. case c of Act_Data d \<Rightarrow> [d] | _ \<Rightarrow> []) cs)"

text \<open>The hash map: what is relied on, and functions as its instance.\<close>

locale hash_map =
  fixes H :: "'m hash_lib" and lookup :: "'m \<Rightarrow> bytes \<Rightarrow> nat option"
  assumes hm_get: "hm_get H m k = lookup m k"
    and hm_set: "lookup (hm_set H m k v) = (lookup m)(k \<mapsto> v)"
    and hm_del: "lookup (hm_del H m k) = (lookup m)(k := None)"

definition fun_hash :: "(bytes \<Rightarrow> nat option) hash_lib" where
  "fun_hash = \<lparr>hm_get = (\<lambda>m k. m k), hm_set = (\<lambda>m k v. m(k \<mapsto> v)), hm_del = (\<lambda>m k. m(k := None))\<rparr>"

interpretation fun_map: hash_map fun_hash "\<lambda>m. m"
  by unfold_locales (simp_all add: fun_hash_def)

end
