(* ===== verification/Pole_Worker.thy ===== *)
theory Pole_Worker
  imports Pole_Store Pole_System
begin

text \<open>
  The worker of pole-M for one client of the increment protocol, on a message sequence and queues that keep their
  laws: what it does with the first request, with an acknowledgement, with a failure and with a prepared batch.
\<close>

section \<open>Events of the increment protocol\<close>

definition req_evt :: "bytes \<Rightarrow> int \<Rightarrow> nat \<Rightarrow> evt" where
  "req_evt i st q = \<lparr>ev_id = i, ev_type = NET_EV_INCREMENT_REQ, ev_state = st, task_seq = q, incr_rows = 1, ev_size = 0, ev_data = []\<rparr>"

definition rep_evt :: "bytes \<Rightarrow> nat \<Rightarrow> bytes \<Rightarrow> evt" where
  "rep_evt i q d = \<lparr>ev_id = i, ev_type = NET_EV_INCREMENT_REP, ev_state = NET_EV_SUCC, task_seq = q, incr_rows = 1, ev_size = length d, ev_data = d\<rparr>"

lemma evt_fields [simp]:
  "ev_id (req_evt i st q) = i" "ev_type (req_evt i st q) = NET_EV_INCREMENT_REQ" "ev_state (req_evt i st q) = st"
  "task_seq (req_evt i st q) = q" "ev_id (rep_evt i q d) = i" "ev_type (rep_evt i q d) = NET_EV_INCREMENT_REP" "task_seq (rep_evt i q d) = q"
  "ev_size (rep_evt i q d) = length d" "ev_data (rep_evt i q d) = d" "ev_size (req_evt i st q) = 0"
  by (simp_all add: req_evt_def rep_evt_def)

lemma req_copies:
  "copy_evt (req_evt i st q) = Some (req_evt i st q)"
  "(req_evt i st q)\<lparr>task_seq := r\<rparr> = req_evt i st r"
  "(req_evt i st q)\<lparr>ev_state := NET_EV_SUCC, ev_type := NET_EV_INCREMENT_REP\<rparr> = rep_evt i q []"
  by (simp_all add: req_evt_def rep_evt_def copy_evt_def copy_head_def evt_new_by_size_def evt_head.defs)

lemma first_request_evt: "evt_wire (first_request i q) = req_evt i NET_EV_NONE q" "ev_size (first_request i q) \<le> length (ev_data (first_request i q))"
  by (simp_all add: first_request_def evt_new_by_size_def evt_wire_def req_evt_def)

lemma unat_u64: "n < 2 ^ 64 \<Longrightarrow> unat (of_nat n :: u64) = n"
  by (simp add: unat_of_nat)

lemma message_evt_rep:
  assumes "data_ok d"
  shows "message_evt (rep_evt i q []) (data_msg d) = Some (rep_evt i q d)"
proof -
  have l: "unat (of_nat (length d) :: u64) = length d" using assms by (intro unat_u64) (simp add: data_ok_def)
  then have "(of_nat (length d) :: u64) > 0" using assms by (metis data_ok_def length_greater_0_conv unat_0 word_gt_0 not_less_zero)
  then show ?thesis
    using l by (simp add: message_evt_def data_msg_def rep_evt_def copy_head_def evt_new_by_size_def evt_head.defs)
qed

lemma answer_rep:
  assumes "q + 1 < 2 ^ 64"
  obtains a where "answer_evt NET_EV_INCREMENT_REP st (rep_evt i q d) = Some a" "evt_wire a = req_evt i st (q + 1)" "ev_size a \<le> length (ev_data a)"
  using that assms by (simp add: answer_evt_def BUSI_DUMP_def BUSI_INCR_def net_codes rep_evt_def evt_wire_def req_evt_def)

lemma batch_size_bounds:
  assumes "1 \<le> F" "F \<le> W" "W < 2 ^ 64"
  shows "1 \<le> batch_size W F" "batch_size W F \<le> 10" "batch_size W F = 1 \<or> F + batch_size W F \<le> W"
proof -
  have "unat (of_nat W - of_nat F :: u64) = W - F"
    using assms unat_u64 [of "W - F"] by (simp add: of_nat_diff)
  then have "batch_size W F = max 1 (min 10 (W - F))" by (simp add: batch_size_def MAX_SYNC_STEP_def)
  then show "1 \<le> batch_size W F" "batch_size W F \<le> 10" "batch_size W F = 1 \<or> F + batch_size W F \<le> W" by auto
qed

text \<open>Frames carry the event they were made of.\<close>

definition evt_of :: "frame list \<Rightarrow> evt" where
  "evt_of fs = the (evt_of_frames SOCK_CLIENT fs)"

definition sound_frames :: "frame list \<Rightarrow> bool" where
  "sound_frames fs \<longleftrightarrow> evt_of_frames SOCK_CLIENT fs \<noteq> None"

lemma frames_in:
  "sound_frames fs \<Longrightarrow> evt_of_frames SOCK_CLIENT fs = Some (evt_of fs)"
  "sound_frames fs \<Longrightarrow> evt_of_frames SOCK_SERVER (Frame_Id j # fs) = Some (evt_of fs)"
  by (auto simp: sound_frames_def evt_of_def evt_of_frames_def)

lemma frames_out:
  assumes "ev_size e \<le> length (ev_data e)"
  obtains fs where "frames_of_evt SOCK_CLIENT e = Some fs" "frames_of_evt SOCK_SERVER e = Some (Frame_Id (ev_id e @ [0]) # fs)"
    "sound_frames fs" "evt_of fs = evt_wire e"
proof -
  obtain fs where "frames_of_evt SOCK_CLIENT e = Some fs" using assms by (simp add: frames_of_evt_def)
  moreover have "evt_of_frames SOCK_CLIENT fs = Some (evt_wire e)"
    using client_to_server [OF assms, of "[]"] calculation by (simp add: evt_of_frames_def)
  moreover have "frames_of_evt SOCK_SERVER e = Some (Frame_Id (ev_id e @ [0]) # fs)" using calculation(1) assms by (simp add: frames_of_evt_def)
  ultimately show ?thesis using that by (simp add: sound_frames_def evt_of_def)
qed

section \<open>The worker\<close>

locale pole_system = sync_store "pe_ops E" keeps limit + qlist_fifo "pe_queues E" items + hash_map "pe_hash E" lookup
  for E :: "('w, 'h, 'q, 'm) pole_env" and keeps :: "bytes list \<Rightarrow> ('w, 'h) lxq_ctx \<Rightarrow> bool" and limit :: nat
    and items :: "'q \<Rightarrow> evt list" and lookup :: "'m \<Rightarrow> bytes \<Rightarrow> nat option"
begin

lemma pull_some:
  assumes "items q = e # es"
  obtains q' where "ql_pull (pe_queues E) q = (Some e, q')" "items q' = es"
  using pull_item [OF assms] by blast

lemma pull_none:
  assumes "items q = []"
  obtains q' where "ql_pull (pe_queues E) q = (None, q')" "items q' = []"
  using pull_empty [OF assms] by blast

lemma batch_items:
  assumes "pos + idx + n \<le> 2 ^ 64"
  shows "\<exists>q'. push_batch (pe_queues E) (req_evt i st f) pos n idx q = Some q' \<and> items q' = items q @ map (\<lambda>j. rep_evt i j []) [pos + idx..<pos + idx + n]"
  using assms
proof (induction n arbitrary: idx q)
  case (Suc n)
  have m: "(pos + idx) mod 2 ^ 64 = pos + idx" using Suc.prems by simp
  have l: "[pos + idx..<pos + idx + Suc n] = (pos + idx) # [pos + (idx + 1)..<pos + (idx + 1) + n]" by (simp add: upt_conv_Cons)
  show ?case
    using Suc.IH [of "idx + 1" "ql_push (pe_queues E) q (rep_evt i (pos + idx) [])"] Suc.prems m
    unfolding l by (simp add: req_copies items_push del: upt_Suc)
qed simp

text \<open>The work on a client that waits for its next batch.\<close>

definition batch_ready :: "bytes list \<Rightarrow> bytes \<Rightarrow> nat \<Rightarrow> 'q client_info \<Rightarrow> bool" where
  "batch_ready ms i F c \<longleftrightarrow> ci_waits c = 0 \<and>
     (\<exists>n. 1 \<le> n \<and> n \<le> 10 \<and> (n = 1 \<or> F + n \<le> length ms + 1) \<and> items (qincr c) = map (\<lambda>q. rep_evt i q []) [F..<F + n])"

text \<open>The worker of client \<open>i\<close> at position \<open>F\<close>.\<close>

definition serves :: "bytes list \<Rightarrow> bytes \<Rightarrow> nat \<Rightarrow> ('w, 'h, 'q) work \<Rightarrow> bool" where
  "serves ms i F k \<longleftrightarrow> keeps ms (wk_xmq k) \<and> 1 \<le> F \<and> F \<le> length ms + 1 \<and> ci_id (wk_client k) = i \<and> items (qdump (wk_client k)) = [] \<and>
     (\<exists>b. ci_consumer (wk_client k) = Some b \<and> cons_pos (wk_xmq k) i = Some (b, F))"

lemma serves_consumer: "serves ms i F k \<Longrightarrow> \<exists>c. the_consumer k = Some c \<and> last_fetch_seq c = F"
  unfolding serves_def the_consumer_def using at by fastforce

lemma fill_batch:
  assumes "serves ms i F k" "items (qincr (wk_client k)) = []" "ci_waits (wk_client k) = 0"
  shows "\<exists>q n. (do { c \<leftarrow> the_consumer k;
            push_batch (pe_queues E) (req_evt i st f) (last_fetch_seq c) (batch_size (last_write_db_seq (wk_xmq k)) (last_fetch_seq c)) 0 (qincr (wk_client k)) }) = Some q \<and>
    1 \<le> n \<and> n \<le> 10 \<and> (n = 1 \<or> F + n \<le> length ms + 1) \<and> items q = map (\<lambda>q. rep_evt i q []) [F..<F + n]"
proof -
  obtain c where c: "the_consumer k = Some c" "last_fetch_seq c = F" using serves_consumer [OF assms(1)] by blast
  have k: "keeps ms (wk_xmq k)" "1 \<le> F" "F \<le> length ms + 1" using assms(1) by (simp_all add: serves_def)
  define n where "n = batch_size (last_write_db_seq (wk_xmq k)) F"
  have n: "1 \<le> n" "n \<le> 10" "n = 1 \<or> F + n \<le> length ms + 1"
    using batch_size_bounds [OF k(2,3) small [OF k(1)]] write_seq [OF k(1)] by (simp_all add: n_def)
  then have "F + n \<le> 2 ^ 64" using small [OF k(1)] k(3) by auto
  then show ?thesis using batch_items [of F 0 n i st f "qincr (wk_client k)"] c n assms(2) by (auto simp: n_def)
qed

text \<open>The first request.\<close>

lemma rep_first:
  assumes "serves ms i F k" "items (qevts (wk_client k)) = [req_evt i NET_EV_NONE 0]"
  shows "\<exists>k'. do_incr_rep_task E k = Some (EVT_STATE_WAIT, k') \<and> serves ms i F k' \<and> batch_ready ms i F (wk_client k') \<and>
    items (qevts (wk_client k')) = [] \<and> wk_xmq k' = wk_xmq k \<and> wk_net k' = wk_net k"
proof -
  obtain q where q: "ql_pull (pe_queues E) (qevts (wk_client k)) = (Some (req_evt i NET_EV_NONE 0), q)" "items q = []"
    using assms(2) by (rule pull_some)
  define k1 where "k1 = k\<lparr>wk_client := client_info_init (pe_queues E) ((wk_client k)\<lparr>qevts := q\<rparr>)\<rparr>"
  have s1: "serves ms i F k1" "items (qincr (wk_client k1)) = []" "ci_waits (wk_client k1) = 0" "items (qevts (wk_client k1)) = []"
    using assms(1) by (simp_all add: serves_def k1_def client_info_init_def items_init)
  obtain c where c: "the_consumer k1 = Some c" "last_fetch_seq c = F" using serves_consumer [OF s1(1)] by blast
  obtain q1 n where b: "(do { c \<leftarrow> the_consumer k1; push_batch (pe_queues E) (req_evt i NET_EV_NONE F) (last_fetch_seq c) (batch_size (last_write_db_seq (wk_xmq k1)) (last_fetch_seq c)) 0
      (qincr (wk_client k1)) }) = Some q1" "1 \<le> n" "n \<le> 10" "n = 1 \<or> F + n \<le> length ms + 1" "items q1 = map (\<lambda>q. rep_evt i q []) [F..<F + n]"
    using fill_batch [OF s1(1-3)] by blast
  define k2 where "k2 = k1\<lparr>wk_client := (wk_client k1)\<lparr>qincr := q1\<rparr>\<rparr>"
  have "incr_accept E (req_evt i NET_EV_NONE 0) (k\<lparr>wk_client := (wk_client k)\<lparr>qevts := q\<rparr>\<rparr>) = Some (Inr (req_evt i NET_EV_NONE F), k1)"
    using c by (simp add: incr_accept_def k1_def req_copies)
  then have "do_incr_rep_task E k = Some (EVT_STATE_WAIT, k2)"
    using b(1) c s1(3) by (simp add: do_incr_rep_task_def q(1) k2_def)
  moreover have "serves ms i F k2 \<and> batch_ready ms i F (wk_client k2) \<and> items (qevts (wk_client k2)) = [] \<and> wk_xmq k2 = wk_xmq k \<and> wk_net k2 = wk_net k"
    using s1 b(2-5) by (auto simp: serves_def batch_ready_def k2_def) (simp_all add: k1_def)
  ultimately show ?thesis by blast
qed

text \<open>An acknowledged message: the position moves on, and with the last one of the batch the next batch is prepared.\<close>

lemma u64_pred: "(of_nat (Suc n) :: u64) - 1 = of_nat n"
  by simp

lemma rep_succ:
  assumes "serves ms i F k" "F \<le> length ms" "items (qevts (wk_client k)) = req_evt i NET_EV_SUCC (F + 1) # es"
    and "ci_waits (wk_client k) = of_nat (Suc n)" "n < 10" "items (qincr (wk_client k)) = []"
  shows "\<exists>k'. do_incr_rep_task E k = Some (if n = 0 then EVT_STATE_WAIT else EVT_STATE_INCR, k') \<and> serves ms i (F + 1) k' \<and>
    (if n = 0 then batch_ready ms i (F + 1) (wk_client k') else ci_waits (wk_client k') = of_nat n \<and> items (qincr (wk_client k')) = []) \<and>
    items (qevts (wk_client k')) = es \<and> (\<exists>b. cons_pos (wk_xmq k') = (cons_pos (wk_xmq k))(i \<mapsto> (b, F + 1))) \<and> wk_net k' = wk_net k"
proof -
  obtain q where q: "ql_pull (pe_queues E) (qevts (wk_client k)) = (Some (req_evt i NET_EV_SUCC (F + 1)), q)" "items q = es"
    using assms(3) by (rule pull_some)
  obtain b where k: "keeps ms (wk_xmq k)" "1 \<le> F" "ci_consumer (wk_client k) = Some b" "cons_pos (wk_xmq k) i = Some (b, F)"
    using assms(1) by (auto simp: serves_def)
  have F: "F + 1 < 2 ^ 64" "(F + 1) mod 2 ^ 64 = F + 1" using small [OF k(1)] assms(2) by simp_all
  obtain x where x: "lxq_update_that (pe_ops E) b (F + 1) (wk_xmq k) = Some (0, x)" "keeps ms x" "cons_pos x = (cons_pos (wk_xmq k))(i \<mapsto> (b, F + 1))"
    using update [OF k(1,4) F(1)] by blast
  obtain c where c: "the_consumer k = Some c" "last_fetch_seq c = F" using serves_consumer [OF assms(1)] by blast
  define k1 where "k1 = \<lparr>wk_xmq = x, wk_net = wk_net k, wk_client = (wk_client k)\<lparr>qevts := q, ci_waits := of_nat n\<rparr>\<rparr>"
  have s1: "serves ms i (F + 1) k1" using assms(1,2) x k(3) by (auto simp: serves_def k1_def)
  obtain c1 where c1: "the_consumer k1 = Some c1" "last_fetch_seq c1 = F + 1" using serves_consumer [OF s1] by blast
  have a: "incr_accept E (req_evt i NET_EV_SUCC (F + 1)) (k\<lparr>wk_client := (wk_client k)\<lparr>qevts := q\<rparr>\<rparr>) = Some (Inr (req_evt i NET_EV_SUCC (F + 1)), k1)"
    using c c1 x(1) F(2) k(3) assms(4) unfolding incr_accept_def
    by (simp add: net_codes req_copies set_position_def the_consumer_def k1_def)
  have e: "the_consumer (k1\<lparr>wk_client := (wk_client k1)\<lparr>qincr := u\<rparr>\<rparr>) = the_consumer k1" for u by (simp add: the_consumer_def)
  show ?thesis
  proof (cases "n = 0")
    case True
    then have z: "items (qincr (wk_client k1)) = []" "ci_waits (wk_client k1) = 0" using assms(6) by (simp_all add: k1_def)
    obtain q1 m where b: "(do { c \<leftarrow> the_consumer k1; push_batch (pe_queues E) (req_evt i NET_EV_SUCC (F + 1)) (last_fetch_seq c) (batch_size (last_write_db_seq (wk_xmq k1)) (last_fetch_seq c)) 0
        (qincr (wk_client k1)) }) = Some q1" "1 \<le> m" "m \<le> 10" "m = 1 \<or> F + 1 + m \<le> length ms + 1" "items q1 = map (\<lambda>q. rep_evt i q []) [F + 1..<F + 1 + m]"
      using fill_batch [OF s1 z] by blast
    define k2 where "k2 = k1\<lparr>wk_client := (wk_client k1)\<lparr>qincr := q1\<rparr>\<rparr>"
    have "do_incr_rep_task E k = Some (EVT_STATE_WAIT, k2)"
      using b(1) c1 z(2) a by (simp add: do_incr_rep_task_def q(1) k2_def)
    moreover have "serves ms i (F + 1) k2" using s1 by (simp add: serves_def k2_def)
    moreover have "batch_ready ms i (F + 1) (wk_client k2)" unfolding batch_ready_def using z(2) b(2-5) by (auto simp: k2_def)
    moreover have "items (qevts (wk_client k2)) = es \<and> (\<exists>b. cons_pos (wk_xmq k2) = (cons_pos (wk_xmq k))(i \<mapsto> (b, F + 1))) \<and> wk_net k2 = wk_net k"
      using q(2) x(3) by (auto simp: k2_def k1_def)
    ultimately show ?thesis using True by auto
  next
    case False
    have "(of_nat n :: u64) \<noteq> 0" using assms(5) False unat_u64 [of n] by auto
    then have "ci_waits (wk_client k1) > 0" by (simp add: k1_def word_gt_0)
    then have "do_incr_rep_task E k = Some (EVT_STATE_INCR, k1)" using a by (simp add: do_incr_rep_task_def q(1))
    moreover have "ci_waits (wk_client k1) = of_nat n \<and> items (qincr (wk_client k1)) = [] \<and> items (qevts (wk_client k1)) = es \<and>
        (\<exists>b. cons_pos (wk_xmq k1) = (cons_pos (wk_xmq k))(i \<mapsto> (b, F + 1))) \<and> wk_net k1 = wk_net k"
      using q(2) x(3) assms(6) by (auto simp: k1_def)
    ultimately show ?thesis using False s1 by auto
  qed
qed

lemma rep_fail:
  assumes "serves ms i F k" "items (qevts (wk_client k)) = req_evt i NET_EV_FAIL (Suc c) # es"
  shows "\<exists>q. do_incr_rep_task E k = Some (EVT_STATE_EXIT, k\<lparr>wk_client := (wk_client k)\<lparr>qevts := q\<rparr>\<rparr>) \<and> items q = es"
proof -
  obtain q where "ql_pull (pe_queues E) (qevts (wk_client k)) = (Some (req_evt i NET_EV_FAIL (Suc c)), q)" "items q = es"
    using assms(2) by (rule pull_some)
  then show ?thesis by (intro exI [of _ q]) (simp add: do_incr_rep_task_def incr_accept_def net_codes)
qed

text \<open>The batch is sent when its messages are there.\<close>

lemma req_loop:
  assumes "serves ms i F k" "items (qincr (wk_client k)) = map (\<lambda>q. rep_evt i q []) [f..<f + n]" "1 \<le> f" "f + n \<le> length ms + 1"
  shows "\<exists>k'. incr_req_loop E h n k = Some (EVT_STATE_INCR, k') \<and> serves ms i F k' \<and> cons_pos (wk_xmq k') = cons_pos (wk_xmq k) \<and>
    ci_waits (wk_client k') = ci_waits (wk_client k) + of_nat n \<and> items (qincr (wk_client k')) = [] \<and>
    qevts (wk_client k') = qevts (wk_client k) \<and> ec_type (wk_net k') = ec_type (wk_net k) \<and> qrecv (wk_net k') = qrecv (wk_net k) \<and>
    items (qsend (wk_net k')) = items (qsend (wk_net k)) @ map (\<lambda>q. rep_evt i q (ms ! (q - 1))) [f..<f + n]"
  using assms
proof (induction n arbitrary: f k)
  case 0
  then show ?case by (simp add: view_length)
next
  case (Suc n)
  have l: "[f..<f + Suc n] = f # [Suc f..<Suc f + n]" by (simp add: upt_conv_Cons)
  have p: "items (qincr (wk_client k)) = rep_evt i f [] # map (\<lambda>q. rep_evt i q []) [Suc f..<Suc f + n]" using Suc.prems(2) unfolding l by simp
  obtain q where q: "ql_pull (pe_queues E) (qincr (wk_client k)) = (Some (rep_evt i f []), q)" "items q = map (\<lambda>q. rep_evt i q []) [Suc f..<Suc f + n]"
    using p by (rule pull_some)
  obtain b where k: "keeps ms (wk_xmq k)" "ci_consumer (wk_client k) = Some b" "cons_pos (wk_xmq k) i = Some (b, F)" using Suc.prems(1) by (auto simp: serves_def)
  have f: "f \<le> length ms" "f < 2 ^ 64" using Suc.prems(4) small [OF k(1)] by simp_all
  obtain x where x: "lxq_pull_that (pe_ops E) f (wk_xmq k) = Some (Some (lxq_msg_bytes (data_msg (ms ! (f - 1)))), x)" "keeps ms x" "cons_pos x = cons_pos (wk_xmq k)"
    using pull [OF k(1) Suc.prems(3) f(2)] f(1) by auto
  have d: "data_ok (ms ! (f - 1))" using data [OF k(1)] f(1) Suc.prems(3) by simp
  obtain c where c: "the_consumer k = Some c" using serves_consumer [OF Suc.prems(1)] by blast
  define e where "e = rep_evt i f (ms ! (f - 1))"
  define k1 where "k1 = k\<lparr>wk_xmq := x, wk_net := (wk_net k)\<lparr>qsend := ql_push (pe_queues E) (qsend (wk_net k)) e\<rparr>, wk_client := (wk_client k)\<lparr>qincr := q, ci_waits := ci_waits (wk_client k) + 1\<rparr>\<rparr>"
  have s1: "serves ms i F k1" using Suc.prems(1) x by (simp add: serves_def k1_def)
  have q1: "items (qincr (wk_client k1)) = map (\<lambda>q. rep_evt i q []) [Suc f..<Suc f + n]" using q(2) by (simp add: k1_def)
  have ne: "ql_view (pe_queues E) (qincr (wk_client k)) \<noteq> 0" using p by (simp add: view_length)
  have c': "the_consumer (k\<lparr>wk_client := (wk_client k)\<lparr>qincr := q\<rparr>\<rparr>) = Some c" using c by (simp add: the_consumer_def)
  have step: "incr_req_loop E h (Suc n) k = incr_req_loop E h n k1"
    using ne q(1) c' x(1) message_evt_rep [OF d, of i f]
    by (simp add: lxq_msg_at_bytes send_to_def send_evt_def k1_def e_def)
  have w: "ci_waits (wk_client k1) = ci_waits (wk_client k) + 1" "cons_pos (wk_xmq k1) = cons_pos (wk_xmq k)" "qevts (wk_client k1) = qevts (wk_client k)"
    "ec_type (wk_net k1) = ec_type (wk_net k)" "qrecv (wk_net k1) = qrecv (wk_net k)" "items (qsend (wk_net k1)) = items (qsend (wk_net k)) @ [e]"
    using x(3) by (simp_all add: k1_def items_push)
  show ?case
    unfolding step l using Suc.IH [OF s1 q1] Suc.prems(4) w by (simp add: e_def add.assoc del: upt_Suc)
qed

lemma req_send:
  assumes "serves ms i F k" "items (qincr (wk_client k)) = map (\<lambda>q. rep_evt i q []) [F..<F + n]" "1 \<le> n" "F + n \<le> length ms + 1" "ci_waits (wk_client k) = 0"
  shows "\<exists>k'. do_incr_req_task E k = Some (EVT_STATE_INCR, k') \<and> serves ms i F k' \<and> cons_pos (wk_xmq k') = cons_pos (wk_xmq k) \<and>
    ci_waits (wk_client k') = of_nat n \<and> items (qincr (wk_client k')) = [] \<and>
    qevts (wk_client k') = qevts (wk_client k) \<and> ec_type (wk_net k') = ec_type (wk_net k) \<and> qrecv (wk_net k') = qrecv (wk_net k) \<and>
    items (qsend (wk_net k')) = items (qsend (wk_net k)) @ map (\<lambda>q. rep_evt i q (ms ! (q - 1))) [F..<F + n]"
proof -
  have "ql_view (pe_queues E) (qincr (wk_client k)) = int n" using assms(2) by (simp add: view_length)
  moreover have "1 \<le> F" using assms(1) by (simp add: serves_def)
  ultimately show ?thesis using req_loop [OF assms(1,2) _ assms(4), of "int n"] assms(3,5) by (simp add: do_incr_req_task_def)
qed

lemma req_none:
  assumes "serves ms i F k" "items (qincr (wk_client k)) = [rep_evt i F []]" "length ms < F"
  shows "\<exists>k'. do_incr_req_task E k = Some (EVT_STATE_WAIT, k') \<and> serves ms i F k' \<and> cons_pos (wk_xmq k') = cons_pos (wk_xmq k) \<and>
    ci_waits (wk_client k') = ci_waits (wk_client k) \<and> items (qincr (wk_client k')) = [rep_evt i F []] \<and>
    qevts (wk_client k') = qevts (wk_client k) \<and> wk_net k' = wk_net k"
proof -
  obtain q where q: "ql_pull (pe_queues E) (qincr (wk_client k)) = (Some (rep_evt i F []), q)" "items q = []" using assms(2) by (rule pull_some)
  obtain b where k: "keeps ms (wk_xmq k)" "ci_consumer (wk_client k) = Some b" "cons_pos (wk_xmq k) i = Some (b, F)" "1 \<le> F" "F \<le> length ms + 1"
    using assms(1) by (auto simp: serves_def)
  have F: "F < 2 ^ 64" using k(5) small [OF k(1)] by simp
  obtain x where x: "lxq_pull_that (pe_ops E) F (wk_xmq k) = Some (None, x)" "keeps ms x" "cons_pos x = cons_pos (wk_xmq k)"
    using pull [OF k(1,4) F] assms(3) by auto
  obtain c where c: "the_consumer k = Some c" using serves_consumer [OF assms(1)] by blast
  have c': "the_consumer (k\<lparr>wk_client := (wk_client k)\<lparr>qincr := q\<rparr>\<rparr>) = Some c" using c by (simp add: the_consumer_def)
  have v: "ql_view (pe_queues E) (qincr (wk_client k)) = 1" using assms(2) by (simp add: view_length)
  define k1 where "k1 = k\<lparr>wk_xmq := x, wk_client := (wk_client k)\<lparr>qincr := ql_push (pe_queues E) q (rep_evt i F [])\<rparr>\<rparr>"
  have "do_incr_req_task E k = Some (EVT_STATE_WAIT, k1)"
    using v q(1) c' x(1) by (simp add: do_incr_req_task_def numeral_eq_Suc k1_def)
  moreover have "serves ms i F k1 \<and> cons_pos (wk_xmq k1) = cons_pos (wk_xmq k) \<and> ci_waits (wk_client k1) = ci_waits (wk_client k) \<and> items (qincr (wk_client k1)) = [rep_evt i F []] \<and>
      qevts (wk_client k1) = qevts (wk_client k) \<and> wk_net k1 = wk_net k"
    using assms(1) x(2,3) q(2) by (simp add: k1_def serves_def items_push)
  ultimately show ?thesis by blast
qed

end

end
