(* ===== verification/Pole_Stage.thy ===== *)
theory Pole_Stage
  imports Pole_Worker
begin

text \<open>
  The stages of one client and its worker: what has been written, what is under way in both directions, and the
  state at both ends. The predicate \<open>client_sync\<close> lists them; new messages leave a stage as it is.
\<close>

section \<open>One client and the server\<close>

text \<open>What is on the way between a client and its worker, in order, with the states at both ends.\<close>

record sync_view =
  sv_pos :: "nat option"
  sv_srv :: "(evt_phase \<times> u64 \<times> evt list) option"
  sv_up :: "evt list"
  sv_down :: "evt list"
  sv_slave :: "(bool \<times> busi_env \<times> int \<times> nat) option"

definition written :: "bytes list \<Rightarrow> nat \<Rightarrow> nat \<Rightarrow> bytes" where
  "written ms p c = concat (map (\<lambda>q. ms ! (q - 1)) [p..<c])"

text \<open>The acknowledgements of the messages from \<open>a\<close> to before \<open>b\<close>, and the answers that carry them.\<close>

definition acks :: "bytes \<Rightarrow> nat \<Rightarrow> nat \<Rightarrow> evt list" where
  "acks i a b = map (req_evt i NET_EV_SUCC) [a + 1..<b + 1]"

definition answers :: "bytes list \<Rightarrow> bytes \<Rightarrow> nat \<Rightarrow> nat \<Rightarrow> evt list" where
  "answers ms i a b = map (\<lambda>q. rep_evt i q (ms ! (q - 1))) [a..<b]"

lemma acks_simps [simp]: "acks i a a = []" "a \<le> b \<Longrightarrow> acks i a (Suc b) = acks i a b @ [req_evt i NET_EV_SUCC (Suc b)]"
  by (auto simp: acks_def)

lemma acks_evt: "e \<in> set (acks i a b) \<Longrightarrow> ev_id e = i \<and> ev_type e = NET_EV_INCREMENT_REQ"
  by (auto simp: acks_def)

lemma acks_next: "a < b \<Longrightarrow> acks i a b = req_evt i NET_EV_SUCC (Suc a) # acks i (Suc a) b"
  by (simp add: acks_def upt_conv_Cons del: upt_Suc)

lemma answers_none [simp]: "answers ms i a a = []"
  by (simp add: answers_def)

lemma answers_next: "a < b \<Longrightarrow> answers ms i a b = rep_evt i a (ms ! (a - 1)) # answers ms i (Suc a) b"
  by (simp add: answers_def upt_conv_Cons)

definition busi_at :: "bytes \<Rightarrow> busi_env" where
  "busi_at d = \<lparr>g_busi_ary = Map.empty(BUSI_DUMP \<mapsto> Busi_Dump, BUSI_INCR \<mapsto> Busi_W2file), g_fp = Fp_Open, fp_data = d\<rparr>"

definition pos_of :: "nat option \<Rightarrow> nat" where
  "pos_of P = (case P of None \<Rightarrow> 1 | Some p \<Rightarrow> p)"

text \<open>The stages: not started; the first request on its way; the worker waits for messages; the client works on \<open>k\<close> messages
  from \<open>F\<close> of which it has written those before \<open>c\<close>; the write of \<open>c\<close> has failed, with \<open>w\<close> bytes in the file, and the server
  does not know; and it knows.\<close>

inductive client_sync :: "bytes list \<Rightarrow> nat \<Rightarrow> bytes \<Rightarrow> sync_view \<Rightarrow> bool" for ms p i where
  cs_idle: "pos_of P = p \<Longrightarrow> client_sync ms p i \<lparr>sv_pos = P, sv_srv = None, sv_up = [], sv_down = [], sv_slave = None\<rparr>"
| cs_request: "lxq_name i \<Longrightarrow> pos_of P = p \<Longrightarrow> S = None \<or> S = Some (EVT_STATE_INCR, 0, []) \<and> P \<noteq> None \<Longrightarrow>
    client_sync ms p i \<lparr>sv_pos = P, sv_srv = S, sv_up = [req_evt i NET_EV_NONE 0], sv_down = [],
      sv_slave = Some (True, busi_at (written ms p p), NET_EV_INCREMENT_REQ, 0)\<rparr>"
| cs_wait: "p \<le> F \<Longrightarrow> F \<le> length ms + 1 \<Longrightarrow> 1 \<le> n \<Longrightarrow> n \<le> 10 \<Longrightarrow> n = 1 \<or> F + n \<le> length ms + 1 \<Longrightarrow> l < F \<Longrightarrow> t \<noteq> NET_EV_DUMP_REQ \<Longrightarrow>
    client_sync ms p i \<lparr>sv_pos = Some F, sv_srv = Some (EVT_STATE_WAIT, 0, map (\<lambda>q. rep_evt i q []) [F..<F + n]), sv_up = [], sv_down = [],
      sv_slave = Some (True, busi_at (written ms p F), t, l)\<rparr>"
| cs_work: "p \<le> F \<Longrightarrow> F \<le> c \<Longrightarrow> c \<le> F + k \<Longrightarrow> F + k \<le> length ms + 1 \<Longrightarrow> 1 \<le> k \<Longrightarrow> k \<le> 10 \<Longrightarrow> l < c \<Longrightarrow> t \<noteq> NET_EV_DUMP_REQ \<Longrightarrow>
    client_sync ms p i \<lparr>sv_pos = Some F, sv_srv = Some (EVT_STATE_INCR, of_nat k, []), sv_up = acks i F c,
      sv_down = answers ms i c (F + k), sv_slave = Some (True, busi_at (written ms p c), t, l)\<rparr>"
| cs_failed: "p \<le> F \<Longrightarrow> F \<le> c \<Longrightarrow> c < F + k \<Longrightarrow> F + k \<le> length ms + 1 \<Longrightarrow> k \<le> 10 \<Longrightarrow>
    client_sync ms p i \<lparr>sv_pos = Some F, sv_srv = Some (EVT_STATE_INCR, of_nat k, []), sv_up = acks i F c @ [req_evt i NET_EV_FAIL (c + 1)],
      sv_down = D, sv_slave = Some (False, busi_at (written ms p c @ take w (ms ! (c - 1))), t, l)\<rparr>"
| cs_gone: "p \<le> F \<Longrightarrow> F \<le> c \<Longrightarrow> c \<le> length ms \<Longrightarrow> S = None \<or> S = Some (EVT_STATE_EXIT, k, []) \<Longrightarrow>
    client_sync ms p i \<lparr>sv_pos = Some F, sv_srv = S, sv_up = [], sv_down = D,
      sv_slave = Some (False, busi_at (written ms p c @ take w (ms ! (c - 1))), t, l)\<rparr>"

lemma client_sync_up:
  assumes "client_sync ms p i v" "e \<in> set (sv_up v)"
  shows "ev_id e = i \<and> ev_type e = NET_EV_INCREMENT_REQ"
  using assms by (cases rule: client_sync.cases) (auto dest: acks_evt)

lemma client_sync_idle: "client_sync ms p i v \<Longrightarrow> sv_slave v = None \<Longrightarrow> sv_up v = [] \<and> sv_down v = [] \<and> sv_srv v = None \<and> pos_of (sv_pos v) = p"
  by (cases rule: client_sync.cases) auto

lemma client_sync_no_server:
  "client_sync ms p i v \<Longrightarrow> sv_srv v = None \<Longrightarrow> e \<in> set (sv_up v) \<Longrightarrow>
   lxq_name i \<and> pos_of (sv_pos v) = p \<and> sv_up v = [req_evt i NET_EV_NONE 0] \<and> sv_down v = [] \<and>
   sv_slave v = Some (True, busi_at (written ms p p), NET_EV_INCREMENT_REQ, 0)"
  by (cases rule: client_sync.cases) auto

lemma client_sync_pos:
  assumes "client_sync ms p i v" "1 \<le> p" "p \<le> length ms + 1" "sv_pos v = Some F"
  shows "1 \<le> F \<and> F \<le> length ms + 1"
  using assms by (cases rule: client_sync.cases) (auto simp: pos_of_def)

lemma msgs_snoc:
  assumes "1 \<le> p" "c \<le> length ms + 1"
  shows "map (\<lambda>q. f q ((ms @ [d]) ! (q - 1))) [p..<c] = map (\<lambda>q. f q (ms ! (q - 1))) [p..<c]"
  using assms by (intro map_cong) (auto simp: nth_append)

lemma written_snoc: "1 \<le> p \<Longrightarrow> c \<le> length ms + 1 \<Longrightarrow> written (ms @ [d]) p c = written ms p c"
  unfolding written_def by (simp only: msgs_snoc [of p c ms "\<lambda>q m. m" d])

lemma answers_snoc: "1 \<le> a \<Longrightarrow> b \<le> length ms + 1 \<Longrightarrow> answers (ms @ [d]) i a b = answers ms i a b"
  unfolding answers_def by (simp only: msgs_snoc)

lemma client_sync_more:
  assumes "client_sync ms p i v" "1 \<le> p" "p \<le> length ms + 1"
  shows "client_sync (ms @ [d]) p i v"
  using assms(1)
proof (cases rule: client_sync.cases)
  case (cs_idle P)
  then show ?thesis by (simp add: client_sync.cs_idle)
next
  case (cs_request P S)
  then show ?thesis using written_snoc [OF assms(2,3), of d] client_sync.cs_request [of i P p S "ms @ [d]"] by simp
next
  case (cs_wait F n l t)
  then show ?thesis using written_snoc [OF assms(2), of F ms d] client_sync.cs_wait [of p F "ms @ [d]" n l t i] by auto
next
  case (cs_work F c k l t)
  have "answers (ms @ [d]) i c (F + k) = answers ms i c (F + k)" using cs_work assms(2) by (intro answers_snoc) simp_all
  then show ?thesis using cs_work written_snoc [OF assms(2), of c ms d] client_sync.cs_work [of p F c k "ms @ [d]" l t i] by simp
next
  case (cs_failed F c k D w t l)
  have "c - 1 < length ms" using cs_failed assms(2) by linarith
  then have "(ms @ [d]) ! (c - 1) = ms ! (c - 1)" by (simp add: nth_append)
  then show ?thesis using cs_failed written_snoc [OF assms(2), of c ms d] client_sync.cs_failed [of p F c k "ms @ [d]" i D w t l] by simp
next
  case (cs_gone F c S k D w t l)
  have "c - 1 < length ms" using cs_gone assms(2) by linarith
  then have "(ms @ [d]) ! (c - 1) = ms ! (c - 1)" by (simp add: nth_append)
  then show ?thesis using cs_gone written_snoc [OF assms(2), of c ms d] client_sync.cs_gone [of p F c "ms @ [d]" S k i D w t l] by simp
qed

lemma written_next: "p \<le> c \<Longrightarrow> written ms p (c + 1) = written ms p c @ ms ! (c - 1)"
  by (simp add: written_def)

lemma client_sync_file:
  assumes "client_sync ms p i v" "p \<le> length ms + 1" "sv_slave v = Some (go, b, t, l)"
  shows "\<exists>c w. b = busi_at (written ms p c @ take w (ms ! (c - 1))) \<and> p \<le> c \<and> c \<le> length ms + 1 \<and> (go \<or> length ms < c \<longrightarrow> w = 0) \<and>
    (\<forall>F. sv_pos v = Some F \<longrightarrow> p \<le> F \<and> F \<le> c)"
  using assms
proof (cases rule: client_sync.cases)
  case (cs_request P S)
  then show ?thesis using assms(2,3) by (intro exI [of _ p] exI [of _ 0]) (auto simp: pos_of_def)
next
  case (cs_wait F n l t)
  then show ?thesis using assms(3) by (intro exI [of _ F] exI [of _ 0]) auto
next
  case (cs_work F c k l t)
  then show ?thesis using assms(3) by (intro exI [of _ c] exI [of _ 0]) auto
next
  case (cs_failed F c k D w t l)
  then show ?thesis using assms(3) by (intro exI [of _ c] exI [of _ w]) auto
next
  case (cs_gone F c S k D w t l)
  then show ?thesis using assms(3) by (intro exI [of _ c] exI [of _ w]) auto
qed auto

lemma written_take:
  assumes "1 \<le> p" "p \<le> c" "c \<le> length ms + 1"
  shows "written ms p c = concat (take (c - p) (drop (p - 1) ms))"
proof -
  have "map (\<lambda>q. ms ! (q - 1)) [p..<c] = take (c - p) (drop (p - 1) ms)"
    using assms by (intro nth_equalityI) simp_all
  then show ?thesis by (simp add: written_def)
qed

text \<open>What the properties ask of an action: a message that can be stored, a client name that can be registered, and no
  failure of \<^verbatim>\<open>fflush\<close> behind a successful \<^verbatim>\<open>fwrite\<close>, which the client cannot notice.\<close>

fun pole_act_ok :: "pole_act \<Rightarrow> bool" where
  "pole_act_ok (Act_Data d) = data_ok d"
| "pole_act_ok (Act_Start i) = lxq_name i"
| "pole_act_ok (Act_Client i w) = (\<forall>n. w \<noteq> Flush_Fails n)"
| "pole_act_ok c = True"


lemma new_data_msg:
  assumes "data_ok d"
  shows "lxq_msg_new_data True (Some d) (of_nat (length d)) = Some (Some (data_msg d))"
proof -
  have l: "unat (of_nat (length d) :: u64) = length d" "unat (of_nat (length d) + 8 :: u64) = length d + 8"
    using assms unat_u64 [of "length d"] unat_u64 [of "length d + 8"] by (simp_all add: data_ok_def)
  then have "(of_nat (length d) :: u64) \<noteq> 0" using assms by (auto simp: data_ok_def)
  then show ?thesis using l
    by (simp add: lxq_msg_new_data_def lxq_msg_new_size_def data_msg_def Let_def mreads_def mwrites_def)
qed

lemma start_state:
  "pole_s_start Q True i q = Some \<lparr>ps_net = (evt_ctx_init Q SOCK_CLIENT)\<lparr>qsend := ql_push Q (qsend (evt_ctx_init Q SOCK_CLIENT)) (first_request i q)\<rparr>,
     ps_busi = busi_at [], last_type = NET_EV_INCREMENT_REQ, busi_state = NET_EV_NONE, last_seq = 0\<rparr>"
proof -
  have "startup_businesses True \<lparr>g_busi_ary = Map.empty(1 \<mapsto> Busi_Dump, 4 \<mapsto> Busi_W2file), g_fp = Fp_Null, fp_data = []\<rparr> =
      (0, \<lparr>g_busi_ary = Map.empty(1 \<mapsto> Busi_Dump, 4 \<mapsto> Busi_W2file), g_fp = Fp_Open, fp_data = []\<rparr>)"
    by (simp add: startup_businesses_def BUSINESS_MAX_SIZE_def busi_init_def numeral_eq_Suc)
  then show ?thesis
    by (simp add: pole_s_start_def register_business_def BUSINESS_MAX_SIZE_def BUSI_DUMP_def BUSI_INCR_def net_codes busi_at_def send_evt_def Let_def)
qed

end
