(* ===== verification/Pole_Sync.thy ===== *)
theory Pole_Sync
  imports Pole_Stage
begin

text \<open>
  The invariant of the system of \<open>Pole_System\<close>: every client is in one of the stages of \<open>Pole_Stage\<close>. Every action
  keeps it, and while the file of a running client is not complete some action lowers a count of what is left to do.
\<close>

section \<open>The invariant of the system\<close>

context pole_system
begin

definition srv_client :: "('w, 'h, 'q, 'm) pole_m \<Rightarrow> bytes \<Rightarrow> 'q client_info option" where
  "srv_client m i = Option.bind (lookup (pm_hash m) i) (pm_clients m)"

definition srv_queue :: "('w, 'h, 'q, 'm) pole_m \<Rightarrow> bytes \<Rightarrow> evt list" where
  "srv_queue m i = (case srv_client m i of None \<Rightarrow> [] | Some c \<Rightarrow> items (qevts c))"

definition own :: "bytes \<Rightarrow> 'q \<Rightarrow> evt list" where
  "own i q = filter (\<lambda>e. ev_id e = i) (items q)"

definition sync_of :: "('w, 'h, 'q, 'm) pole_sys \<Rightarrow> bytes \<Rightarrow> sync_view" where
  "sync_of y i =
     \<lparr>sv_pos = map_option snd (cons_pos (pm_xmq (sy_m y)) i),
      sv_srv = map_option (\<lambda>c. (ci_phase c, ci_waits c, items (qincr c))) (srv_client (sy_m y) i),
      sv_up = srv_queue (sy_m y) i @ own i (qrecv (pm_net (sy_m y))) @ map evt_of (sy_up y i) @
        (case sy_s y i of None \<Rightarrow> [] | Some (go, s) \<Rightarrow> map evt_wire (items (qsend (ps_net s)))),
      sv_down = (case sy_s y i of None \<Rightarrow> [] | Some (go, s) \<Rightarrow> items (qrecv (ps_net s))) @ map evt_of (sy_down y i) @
        own i (qsend (pm_net (sy_m y))),
      sv_slave = map_option (\<lambda>(go, s). (go, ps_busi s, last_type s, last_seq s)) (sy_s y i)\<rparr>"

definition client_ok :: "('w, 'h, 'q, 'm) pole_m \<Rightarrow> nat \<Rightarrow> 'q client_info \<Rightarrow> bool" where
  "client_ok m a c \<longleftrightarrow> lookup (pm_hash m) (ci_id c) = Some a \<and> a < pm_fresh m \<and> items (qdump c) = [] \<and>
     (\<exists>b p. ci_consumer c = Some b \<and> cons_pos (pm_xmq m) (ci_id c) = Some (b, p))"

definition server_ok :: "bytes list \<Rightarrow> ('w, 'h, 'q, 'm) pole_m \<Rightarrow> bool" where
  "server_ok ms m \<longleftrightarrow> keeps ms (pm_xmq m) \<and> ec_type (pm_net m) = SOCK_SERVER \<and>
     (\<forall>e \<in> set (items (qsend (pm_net m))). ev_size e = length (ev_data e)) \<and>
     (\<forall>i a. lookup (pm_hash m) i = Some a \<longrightarrow> (\<exists>c. pm_clients m a = Some c \<and> ci_id c = i)) \<and>
     (\<forall>a c. pm_clients m a = Some c \<longrightarrow> client_ok m a c) \<and>
     snd ` set (pm_tasks m) = dom (pm_clients m)"

definition slave_ok :: "bool \<times> 'q pole_s \<Rightarrow> bool" where
  "slave_ok g \<longleftrightarrow> ec_type (ps_net (snd g)) = SOCK_CLIENT \<and> (\<forall>e \<in> set (items (qsend (ps_net (snd g)))). ev_size e \<le> length (ev_data e))"

definition links_ok :: "('w, 'h, 'q, 'm) pole_sys \<Rightarrow> bool" where
  "links_ok y \<longleftrightarrow> (\<forall>i. list_all sound_frames (sy_up y i) \<and> list_all sound_frames (sy_down y i) \<and> (\<forall>g. sy_s y i = Some g \<longrightarrow> slave_ok g))"

definition sys_inv :: "bytes list \<Rightarrow> (bytes \<Rightarrow> nat) \<Rightarrow> ('w, 'h, 'q, 'm) pole_sys \<Rightarrow> bool" where
  "sys_inv ms p y \<longleftrightarrow> server_ok ms (sy_m y) \<and> links_ok y \<and> (\<forall>i. 1 \<le> p i \<and> p i \<le> length ms + 1 \<and> client_sync ms (p i) i (sync_of y i))"

text \<open>What is left to do for a client: unsent messages and events under way, with weights such that every step of an
  event lowers the sum.\<close>

definition rank :: "bytes list \<Rightarrow> bytes \<Rightarrow> ('w, 'h) lxq_ctx \<Rightarrow> 'q client_info option \<Rightarrow> nat" where
  "rank ms i x c = 10 * (length ms + 1 - (pos_of (map_option snd (cons_pos x i)) + (case c of None \<Rightarrow> 0 | Some c \<Rightarrow> unat (ci_waits c)))) +
     (case c of None \<Rightarrow> 0 | Some c \<Rightarrow> length (items (qevts c)))"

definition load :: "bytes list \<Rightarrow> ('w, 'h, 'q, 'm) pole_sys \<Rightarrow> bytes \<Rightarrow> nat" where
  "load ms y i = rank ms i (pm_xmq (sy_m y)) (srv_client (sy_m y) i) + 8 * length (items (qsend (pm_net (sy_m y)))) + 7 * length (sy_down y i) +
     (case sy_s y i of None \<Rightarrow> 0 | Some (go, s) \<Rightarrow> 6 * length (items (qrecv (ps_net s))) + 4 * length (items (qsend (ps_net s)))) +
     3 * length (sy_up y i) + 2 * length (items (qrecv (pm_net (sy_m y))))"

definition running :: "('w, 'h, 'q, 'm) pole_sys \<Rightarrow> bytes \<Rightarrow> bool" where
  "running y i \<longleftrightarrow> (\<exists>s. sy_s y i = Some (True, s))"

lemma sys_inv_same:
  assumes "sys_inv ms p y" "server_ok ms (sy_m y')" "links_ok y'" "\<And>i. sync_of y' i = sync_of y i"
  shows "sys_inv ms p y'"
  using assms by (simp add: sys_inv_def)

lemma sys_inv_at:
  assumes "sys_inv ms p y" "server_ok ms (sy_m y')" "links_ok y'" "\<And>j. j \<noteq> i \<Longrightarrow> sync_of y' j = sync_of y j" "client_sync ms (p i) i (sync_of y' i)"
  shows "sys_inv ms p y'"
  using assms unfolding sys_inv_def by metis

lemma srv_net [simp]: "srv_client (m\<lparr>pm_net := n\<rparr>) i = srv_client m i" "srv_queue (m\<lparr>pm_net := n\<rparr>) i = srv_queue m i"
  by (simp_all add: srv_client_def srv_queue_def)

lemma wire_id: "ev_size e = length (ev_data e) \<Longrightarrow> evt_wire e = e"
  by (simp add: evt_wire_def)

text \<open>The network threads.\<close>

lemma act_server_in:
  assumes "sys_inv ms p y"
  shows "\<exists>y'. pole_do E (Act_Server_In i) y = Some y' \<and> sys_inv ms p y' \<and> running y' = running y \<and> (sy_up y i \<noteq> [] \<longrightarrow> load ms y' i < load ms y i)"
proof (cases "sy_up y i")
  case Nil
  then show ?thesis using assms by simp
next
  case (Cons fs r)
  have s: "server_ok ms (sy_m y)" "links_ok y" "client_sync ms (p i) i (sync_of y i)" using assms by (simp_all add: sys_inv_def)
  have f: "sound_frames fs" "list_all sound_frames r" using s(2) Cons by (auto simp: links_ok_def dest: spec [of _ i])
  have "evt_of fs \<in> set (sv_up (sync_of y i))" using Cons by (simp add: sync_of_def)
  then have e: "ev_id (evt_of fs) = i" using client_sync_up [OF s(3)] by simp
  define m where "m = (sy_m y)\<lparr>pm_net := (pm_net (sy_m y))\<lparr>qrecv := ql_push (pe_queues E) (qrecv (pm_net (sy_m y))) (evt_of fs)\<rparr>\<rparr>"
  define y' where "y' = y\<lparr>sy_m := m, sy_up := (sy_up y)(i := r)\<rparr>"
  have d: "pole_do E (Act_Server_In i) y = Some y'"
    using Cons frames_in(2) [OF f(1)] s(1) by (simp add: work_evt_in_def server_ok_def y'_def m_def)
  have ok: "server_ok ms (sy_m y')" using s(1) by (simp add: y'_def m_def server_ok_def client_ok_def)
  have lk: "links_ok y'" using s(2) f(2) by (simp add: y'_def links_ok_def)
  have v: "sync_of y' j = sync_of y j" for j
    using Cons e by (cases "j = i") (simp_all add: sync_of_def y'_def m_def own_def items_push)
  have "load ms y' i < load ms y i \<and> running y' = running y" using Cons by (simp add: load_def running_def fun_eq_iff y'_def m_def items_push)
  then show ?thesis using d sys_inv_same [OF assms ok lk v] by blast
qed

lemma act_server_out:
  assumes "sys_inv ms p y"
  shows "\<exists>y'. pole_do E Act_Server_Out y = Some y' \<and> sys_inv ms p y' \<and> running y' = running y \<and>
    (items (qsend (pm_net (sy_m y))) \<noteq> [] \<longrightarrow> (\<forall>j. load ms y' j < load ms y j))"
proof (cases "items (qsend (pm_net (sy_m y)))")
  case Nil
  obtain q where q: "ql_pull (pe_queues E) (qsend (pm_net (sy_m y))) = (None, q)" "items q = []" using Nil by (rule pull_none)
  have s: "server_ok ms (sy_m y)" "links_ok y" using assms by (simp_all add: sys_inv_def)
  define y' where "y' = y\<lparr>sy_m := (sy_m y)\<lparr>pm_net := (pm_net (sy_m y))\<lparr>qsend := q\<rparr>\<rparr>\<rparr>"
  have d: "pole_do E Act_Server_Out y = Some y'" using q(1) by (simp add: work_evt_out_def y'_def)
  have ok: "server_ok ms (sy_m y')" using s(1) q(2) by (simp add: y'_def server_ok_def client_ok_def)
  have lk: "links_ok y'" using s(2) by (simp add: y'_def links_ok_def)
  have v: "sync_of y' j = sync_of y j" for j using Nil q(2) by (simp add: sync_of_def y'_def own_def)
  have "running y' = running y" by (simp add: running_def fun_eq_iff y'_def)
  then show ?thesis using d sys_inv_same [OF assms ok lk v] Nil by blast
next
  case (Cons e es)
  obtain q where q: "ql_pull (pe_queues E) (qsend (pm_net (sy_m y))) = (Some e, q)" "items q = es" using Cons by (rule pull_some)
  have s: "server_ok ms (sy_m y)" "links_ok y" "client_sync ms (p (ev_id e)) (ev_id e) (sync_of y (ev_id e))" using assms by (simp_all add: sys_inv_def)
  have sz: "ev_size e = length (ev_data e)" using s(1) Cons by (simp add: server_ok_def)
  obtain fs where fs: "frames_of_evt SOCK_SERVER e = Some (Frame_Id (ev_id e @ [0]) # fs)" "sound_frames fs" "evt_of fs = evt_wire e"
    by (rule frames_out [of e]) (simp add: sz)
  have "sv_down (sync_of y (ev_id e)) \<noteq> []" using Cons by (simp add: sync_of_def own_def)
  then have "sv_slave (sync_of y (ev_id e)) \<noteq> None" using client_sync_idle [OF s(3)] by blast
  then obtain g where g: "sy_s y (ev_id e) = Some g" by (auto simp: sync_of_def)
  define y' where "y' = y\<lparr>sy_m := (sy_m y)\<lparr>pm_net := (pm_net (sy_m y))\<lparr>qsend := q\<rparr>\<rparr>, sy_down := (sy_down y)(ev_id e := sy_down y (ev_id e) @ [fs])\<rparr>"
  have t: "ec_type (pm_net (sy_m y)) = SOCK_SERVER" using s(1) by (simp add: server_ok_def)
  have d: "pole_do E Act_Server_Out y = Some y'" using q(1) fs(1) g t by (simp add: work_evt_out_def y'_def)
  have ok: "server_ok ms (sy_m y')" using s(1) q(2) Cons by (simp add: y'_def server_ok_def client_ok_def)
  have lk: "links_ok y'" using s(2) fs(2) by (simp add: y'_def links_ok_def)
  have v: "sync_of y' j = sync_of y j" for j
    using Cons q(2) fs(3) wire_id [OF sz] by (simp add: sync_of_def y'_def own_def)
  have "running y' = running y \<and> (\<forall>j. load ms y' j < load ms y j)" using Cons q(2) by (auto simp: load_def running_def fun_eq_iff y'_def)
  then show ?thesis using d sys_inv_same [OF assms ok lk v] by blast
qed

lemma act_client_in:
  assumes "sys_inv ms p y"
  shows "\<exists>y'. pole_do E (Act_Client_In i) y = Some y' \<and> sys_inv ms p y' \<and> running y' = running y \<and>
    (sy_s y i \<noteq> None \<and> sy_down y i \<noteq> [] \<longrightarrow> load ms y' i < load ms y i)"
proof (cases "sy_s y i")
  case None
  then show ?thesis using assms by (simp add: client_action_def)
next
  case (Some g)
  obtain go s where g: "g = (go, s)" by fastforce
  have h: "server_ok ms (sy_m y)" "links_ok y" using assms by (simp_all add: sys_inv_def)
  have sl: "slave_ok (go, s)" "list_all sound_frames (sy_down y i)" using h(2) Some g by (simp_all add: links_ok_def)
  show ?thesis
  proof (cases "sy_down y i")
    case Nil
    then show ?thesis using assms Some g by (simp add: client_action_def fun_upd_idem)
  next
    case (Cons fs r)
    have f: "sound_frames fs" "list_all sound_frames r" using sl(2) Cons by auto
    define n where "n = (ps_net s)\<lparr>qrecv := ql_push (pe_queues E) (qrecv (ps_net s)) (evt_of fs)\<rparr>"
    define y' where "y' = y\<lparr>sy_down := (sy_down y)(i := r), sy_s := (sy_s y)(i \<mapsto> (go, s\<lparr>ps_net := n\<rparr>))\<rparr>"
    have d: "pole_do E (Act_Client_In i) y = Some y'"
      using Some g Cons frames_in(1) [OF f(1)] sl(1) by (simp add: client_action_def work_evt_in_def slave_ok_def y'_def n_def)
    have ok: "server_ok ms (sy_m y')" using h(1) by (simp add: y'_def)
    have lk: "links_ok y'" using h(2) f(2) sl(1) by (simp add: y'_def links_ok_def slave_ok_def n_def)
    have v: "sync_of y' j = sync_of y j" for j
      using Cons Some g by (simp add: sync_of_def y'_def n_def items_push)
    have "load ms y' i < load ms y i \<and> running y' = running y" using Cons Some g by (simp add: load_def running_def fun_eq_iff y'_def n_def items_push)
    then show ?thesis using d sys_inv_same [OF assms ok lk v] by blast
  qed
qed

lemma act_client_out:
  assumes "sys_inv ms p y"
  shows "\<exists>y'. pole_do E (Act_Client_Out i) y = Some y' \<and> sys_inv ms p y' \<and> running y' = running y \<and>
    (\<forall>go s. sy_s y i = Some (go, s) \<longrightarrow> items (qsend (ps_net s)) \<noteq> [] \<longrightarrow> load ms y' i < load ms y i)"
proof (cases "sy_s y i")
  case None
  then show ?thesis using assms by (simp add: client_action_def)
next
  case (Some g)
  obtain go s where g: "g = (go, s)" by fastforce
  have h: "server_ok ms (sy_m y)" "links_ok y" using assms by (simp_all add: sys_inv_def)
  have sl: "slave_ok (go, s)" using h(2) Some g by (simp add: links_ok_def)
  show ?thesis
  proof (cases "items (qsend (ps_net s))")
    case Nil
    obtain q where q: "ql_pull (pe_queues E) (qsend (ps_net s)) = (None, q)" "items q = []" using Nil by (rule pull_none)
    define y' where "y' = y\<lparr>sy_s := (sy_s y)(i \<mapsto> (go, s\<lparr>ps_net := (ps_net s)\<lparr>qsend := q\<rparr>\<rparr>))\<rparr>"
    have d: "pole_do E (Act_Client_Out i) y = Some y'" using q(1) Some g by (simp add: client_action_def work_evt_out_def y'_def)
    have ok: "server_ok ms (sy_m y')" using h(1) by (simp add: y'_def)
    have lk: "links_ok y'" using h(2) q(2) sl by (simp add: y'_def links_ok_def slave_ok_def)
    have v: "sync_of y' j = sync_of y j" for j using Nil q(2) Some g by (simp add: sync_of_def y'_def)
    have "running y' = running y" using Some g by (simp add: running_def fun_eq_iff y'_def)
    then show ?thesis using d sys_inv_same [OF assms ok lk v] Nil Some g by auto
  next
    case (Cons e es)
    obtain q where q: "ql_pull (pe_queues E) (qsend (ps_net s)) = (Some e, q)" "items q = es" using Cons by (rule pull_some)
    obtain fs where fs: "frames_of_evt SOCK_CLIENT e = Some fs" "sound_frames fs" "evt_of fs = evt_wire e"
      by (rule frames_out [of e]) (use sl Cons in \<open>simp add: slave_ok_def\<close>)
    define y' where "y' = y\<lparr>sy_up := (sy_up y)(i := sy_up y i @ [fs]), sy_s := (sy_s y)(i \<mapsto> (go, s\<lparr>ps_net := (ps_net s)\<lparr>qsend := q\<rparr>\<rparr>))\<rparr>"
    have d: "pole_do E (Act_Client_Out i) y = Some y'" using q(1) fs(1) Some g sl by (simp add: client_action_def work_evt_out_def y'_def slave_ok_def)
    have ok: "server_ok ms (sy_m y')" using h(1) by (simp add: y'_def)
    have lk: "links_ok y'" using h(2) fs(2) q(2) sl Cons by (simp add: y'_def links_ok_def slave_ok_def)
    have v: "sync_of y' j = sync_of y j" for j using Cons q(2) fs(3) Some g by (simp add: sync_of_def y'_def)
    have "load ms y' i < load ms y i \<and> running y' = running y" using Cons Some g q(2) by (simp add: load_def running_def fun_eq_iff y'_def)
    then show ?thesis using d sys_inv_same [OF assms ok lk v] by blast
  qed
qed

text \<open>The input thread and the client.\<close>

lemma act_data:
  assumes "sys_inv ms p y" "data_ok d" "length ms < limit"
  shows "\<exists>y'. pole_do E (Act_Data d) y = Some y' \<and> sys_inv (ms @ [d]) p y'"
proof -
  have s: "server_ok ms (sy_m y)" "links_ok y" using assms(1) by (simp_all add: sys_inv_def)
  have k: "keeps ms (pm_xmq (sy_m y))" using s(1) by (simp add: server_ok_def)
  obtain x where x: "lxq_push_tail (pe_ops E) (data_msg d) (pm_xmq (sy_m y)) = Some (0, x)" "keeps (ms @ [d]) x" "cons_pos x = cons_pos (pm_xmq (sy_m y))"
    using push [OF k assms(3,2)] by blast
  define y' where "y' = y\<lparr>sy_m := (sy_m y)\<lparr>pm_xmq := x\<rparr>\<rparr>"
  have d: "pole_do E (Act_Data d) y = Some y'" using x(1) new_data_msg [OF assms(2)] by (simp add: data_write_zmq_def y'_def)
  have "server_ok (ms @ [d]) (sy_m y')" using s(1) x(2,3) by (simp add: y'_def server_ok_def client_ok_def)
  moreover have "links_ok y'" using s(2) by (simp add: y'_def links_ok_def)
  moreover have "client_sync (ms @ [d]) (p i) i (sync_of y' i)" for i
  proof -
    have "sync_of y' i = sync_of y i" using x(3) by (simp add: sync_of_def y'_def srv_queue_def srv_client_def)
    then show ?thesis using assms(1) client_sync_more [of ms "p i" i "sync_of y i" d] by (simp add: sys_inv_def)
  qed
  ultimately show ?thesis using d assms(1) by (auto simp: sys_inv_def le_SucI)
qed

lemma act_start:
  assumes "sys_inv ms p y" "lxq_name i"
  shows "\<exists>y'. pole_do E (Act_Start i) y = Some y' \<and> sys_inv ms p y'"
proof (cases "sy_s y i")
  case (Some g)
  then show ?thesis using assms by simp
next
  case None
  have s: "server_ok ms (sy_m y)" "links_ok y" "client_sync ms (p i) i (sync_of y i)" using assms(1) by (simp_all add: sys_inv_def)
  have o: "sv_up (sync_of y i) = []" "sv_down (sync_of y i) = []" "sv_srv (sync_of y i) = None" "pos_of (sv_pos (sync_of y i)) = p i"
    using client_sync_idle [OF s(3)] None by (simp_all add: sync_of_def)
  obtain st where st: "pole_s_start (pe_queues E) True i 0 = Some st" "ec_type (ps_net st) = SOCK_CLIENT" "items (qrecv (ps_net st)) = []"
    "items (qsend (ps_net st)) = [first_request i 0]" "ps_busi st = busi_at []" "last_type st = NET_EV_INCREMENT_REQ" "last_seq st = 0"
    using start_state [of "pe_queues E" i 0] by (auto simp: evt_ctx_init_def items_init items_push)
  define y' where "y' = y\<lparr>sy_s := (sy_s y)(i \<mapsto> (True, st))\<rparr>"
  have d: "pole_do E (Act_Start i) y = Some y'" using None st(1) by (simp add: y'_def)
  have ok: "server_ok ms (sy_m y')" using s(1) by (simp add: y'_def)
  have lk: "links_ok y'" using s(2) st(2,4) first_request_evt(2) [of i 0] by (simp add: y'_def links_ok_def slave_ok_def)
  have v: "sync_of y' j = sync_of y j" if "j \<noteq> i" for j using that by (simp add: sync_of_def y'_def)
  have "sync_of y' i = \<lparr>sv_pos = sv_pos (sync_of y i), sv_srv = None, sv_up = [req_evt i NET_EV_NONE 0], sv_down = [],
      sv_slave = Some (True, busi_at (written ms (p i) (p i)), NET_EV_INCREMENT_REQ, 0)\<rparr>"
    using o None st(3-7) first_request_evt(1) [of i 0] by (simp add: sync_of_def y'_def written_def)
  then have "client_sync ms (p i) i (sync_of y' i)" using cs_request [OF assms(2) o(4)] by simp
  then show ?thesis using d sys_inv_at [OF assms(1) ok lk v] by blast
qed

lemma client_step:
  assumes "client_sync ms q i v" "1 \<le> q" "\<forall>d \<in> set ms. data_ok d" "length ms + 1 < 2 ^ 64"
    and "sv_slave v = Some (True, ps_busi s, last_type s, last_seq s)" "sv_down v = e # D" "\<forall>n. w \<noteq> Flush_Fails n"
  shows "\<exists>s' a. handle_evt Q w e s = Some (w = Written, s'\<lparr>ps_net := (ps_net s)\<lparr>qsend := ql_push Q (qsend (ps_net s)) a\<rparr>\<rparr>) \<and> ev_size a \<le> length (ev_data a) \<and>
    client_sync ms q i (v\<lparr>sv_down := D, sv_up := sv_up v @ [evt_wire a], sv_slave := Some (w = Written, ps_busi s', last_type s', last_seq s')\<rparr>)"
  using assms(1)
proof (cases rule: client_sync.cases)
  case (cs_work F c k l t)
  have c: "c < F + k" using cs_work(1) assms(6) by (cases "c = F + k") (use cs_work(4) in auto)
  then have e: "e = rep_evt i c (ms ! (c - 1))" "D = answers ms i (Suc c) (F + k)" using cs_work(1) assms(6) by (simp_all add: answers_next)
  have m: "ms ! (c - 1) \<noteq> []" "c + 1 < 2 ^ 64" using assms(2-4) cs_work c by (auto simp: data_ok_def)
  have sl: "ps_busi s = busi_at (written ms q c)" "last_seq s < c" "last_type s \<noteq> NET_EV_DUMP_REQ" using cs_work assms(5) by simp_all
  define st where "st = (if w = Written then NET_EV_SUCC else NET_EV_FAIL)"
  define b where "b = busi_at (case w of Write_Fails n \<Rightarrow> written ms q c @ take n (ms ! (c - 1)) | _ \<Rightarrow> written ms q (c + 1))"
  obtain a where a: "answer_evt NET_EV_INCREMENT_REP st e = Some a" "evt_wire a = req_evt i st (c + 1)" "ev_size a \<le> length (ev_data a)"
    unfolding e(1) by (rule answer_rep [OF m(2)])
  define s' where "s' = s\<lparr>ps_busi := b, busi_state := st, last_type := NET_EV_INCREMENT_REP, last_seq := c\<rparr>"
  have bus: "do_business w NET_EV_INCREMENT_REP (ms ! (c - 1)) (ps_busi s) = Some (st, b)"
    using m(1) sl(1) written_next [of q c ms] cs_work assms(7)
    by (cases w) (simp_all add: do_business_def net_codes BUSINESS_MAX_SIZE_def BUSI_INCR_def BUSI_DUMP_def busi_at_def w2file_done_def st_def b_def)
  have h: "handle_evt Q w e s = Some (w = Written, s'\<lparr>ps_net := (ps_net s)\<lparr>qsend := ql_push Q (qsend (ps_net s)) a\<rparr>\<rparr>)"
    using sl(2,3) bus a(1) e(1) by (simp add: handle_evt_def send_evt_def s'_def st_def) (simp add: net_codes)
  have "client_sync ms q i (v\<lparr>sv_down := D, sv_up := sv_up v @ [req_evt i st (c + 1)], sv_slave := Some (w = Written, b, NET_EV_INCREMENT_REP, c)\<rparr>)"
  proof (cases w)
    case Written
    then show ?thesis using cs_work c e(2) client_sync.cs_work [of q F "c + 1" k ms c NET_EV_INCREMENT_REP i]
      by (simp add: st_def b_def) (simp add: net_codes)
  next
    case (Write_Fails n)
    then show ?thesis using cs_work c client_sync.cs_failed [of q F c k ms i D n NET_EV_INCREMENT_REP c] by (simp add: st_def b_def)
  qed (use assms(7) in simp)
  then show ?thesis
    using h a(2,3) by (intro exI [of _ s'] exI [of _ a]) (simp add: s'_def)
qed (use assms(5,6) in auto)

lemma act_client:
  assumes "sys_inv ms p y" "\<forall>n. w \<noteq> Flush_Fails n"
  shows "\<exists>y'. pole_do E (Act_Client i w) y = Some y' \<and> sys_inv ms p y' \<and> (w = Written \<longrightarrow> running y' = running y) \<and>
    (\<forall>s. w = Written \<longrightarrow> sy_s y i = Some (True, s) \<longrightarrow> items (qrecv (ps_net s)) \<noteq> [] \<longrightarrow> load ms y' i < load ms y i)"
proof (cases "sy_s y i")
  case None
  then show ?thesis using assms(1) by (simp add: client_action_def)
next
  case (Some g)
  obtain go s where g: "g = (go, s)" by fastforce
  have h: "server_ok ms (sy_m y)" "links_ok y" "client_sync ms (p i) i (sync_of y i)" "1 \<le> p i" using assms(1) by (simp_all add: sys_inv_def)
  have sl: "slave_ok (go, s)" using h(2) Some g by (simp add: links_ok_def)
  show ?thesis
  proof (cases go)
    case False
    then show ?thesis using assms(1) Some g by (simp add: client_action_def fun_upd_idem)
  next
    case True
    show ?thesis
    proof (cases "items (qrecv (ps_net s))")
      case Nil
      obtain q where q: "ql_pull (pe_queues E) (qrecv (ps_net s)) = (None, q)" "items q = []" using Nil by (rule pull_none)
      define y' where "y' = y\<lparr>sy_s := (sy_s y)(i \<mapsto> (True, s\<lparr>ps_net := (ps_net s)\<lparr>qrecv := q\<rparr>\<rparr>))\<rparr>"
      have d: "pole_do E (Act_Client i w) y = Some y'" using q(1) Some g True by (simp add: client_action_def pole_s_round_def recv_evt_def y'_def)
      have ok: "server_ok ms (sy_m y')" using h(1) by (simp add: y'_def)
      have lk: "links_ok y'" using h(2) sl by (simp add: y'_def links_ok_def slave_ok_def)
      have v: "sync_of y' j = sync_of y j" for j using Nil q(2) Some g True by (simp add: sync_of_def y'_def)
      have "running y' = running y" using Some g True by (simp add: running_def fun_eq_iff y'_def)
      then show ?thesis using d sys_inv_same [OF assms(1) ok lk v] Nil Some g by auto
    next
      case (Cons e es)
      obtain q where q: "ql_pull (pe_queues E) (qrecv (ps_net s)) = (Some e, q)" "items q = es" using Cons by (rule pull_some)
      define s1 where "s1 = s\<lparr>ps_net := (ps_net s)\<lparr>qrecv := q\<rparr>\<rparr>"
      define D where "D = es @ map evt_of (sy_down y i) @ own i (qsend (pm_net (sy_m y)))"
      have k: "keeps ms (pm_xmq (sy_m y))" using h(1) by (simp add: server_ok_def)
      have v1: "sv_slave (sync_of y i) = Some (True, ps_busi s1, last_type s1, last_seq s1)" "sv_down (sync_of y i) = e # D"
        using Some g True Cons by (simp_all add: sync_of_def s1_def D_def)
      have dk: "\<forall>d \<in> set ms. data_ok d" using data [OF k] by blast
      obtain s' a where r: "handle_evt (pe_queues E) w e s1 = Some (w = Written, s'\<lparr>ps_net := (ps_net s1)\<lparr>qsend := ql_push (pe_queues E) (qsend (ps_net s1)) a\<rparr>\<rparr>)"
        "ev_size a \<le> length (ev_data a)"
        "client_sync ms (p i) i ((sync_of y i)\<lparr>sv_down := D, sv_up := sv_up (sync_of y i) @ [evt_wire a], sv_slave := Some (w = Written, ps_busi s', last_type s', last_seq s')\<rparr>)"
        using client_step [OF h(3,4) dk small [OF k] v1 assms(2), of "pe_queues E"] by blast
      define s2 where "s2 = s'\<lparr>ps_net := (ps_net s1)\<lparr>qsend := ql_push (pe_queues E) (qsend (ps_net s1)) a\<rparr>\<rparr>"
      define y' where "y' = y\<lparr>sy_s := (sy_s y)(i \<mapsto> (w = Written, s2))\<rparr>"
      have d: "pole_do E (Act_Client i w) y = Some y'"
        using q(1) Some g True r(1) by (simp add: client_action_def pole_s_round_def recv_evt_def y'_def s2_def s1_def)
      have ok: "server_ok ms (sy_m y')" using h(1) by (simp add: y'_def)
      have lk: "links_ok y'" using h(2) sl r(2) by (simp add: y'_def links_ok_def slave_ok_def s2_def s1_def items_push)
      have v: "sync_of y' j = sync_of y j" if "j \<noteq> i" for j using that by (simp add: sync_of_def y'_def)
      have "sync_of y' i = (sync_of y i)\<lparr>sv_down := D, sv_up := sv_up (sync_of y i) @ [evt_wire a], sv_slave := Some (w = Written, ps_busi s', last_type s', last_seq s')\<rparr>"
        using Some g q(2) by (simp add: sync_of_def y'_def s2_def s1_def D_def items_push)
      then have "client_sync ms (p i) i (sync_of y' i)" using r(3) by simp
      then have inv: "sys_inv ms p y'" using sys_inv_at [OF assms(1) ok lk v] by blast
      have "w = Written \<longrightarrow> running y' = running y \<and> load ms y' i < load ms y i"
        using Cons Some g True q(2) by (simp add: load_def running_def fun_eq_iff y'_def s2_def s1_def items_push)
      then show ?thesis using d inv by blast
    qed
  qed
qed

text \<open>A round of the worker, as the client sees it: \<open>R\<close> are the requests that have not reached the worker.\<close>

definition busy :: "bytes list \<Rightarrow> bytes \<Rightarrow> ('w, 'h, 'q) work \<Rightarrow> bool" where
  "busy ms i k \<longleftrightarrow> items (qevts (wk_client k)) \<noteq> [] \<or> ci_phase (wk_client k) = EVT_STATE_WAIT \<and> pos_of (map_option snd (cons_pos (wk_xmq k) i)) \<le> length ms"

abbreviation work_rank :: "bytes list \<Rightarrow> bytes \<Rightarrow> ('w, 'h, 'q) work \<Rightarrow> nat" where
  "work_rank ms i k \<equiv> rank ms i (wk_xmq k) (Some (wk_client k))"

lemma rank_serves: "serves ms i F k \<Longrightarrow>
    work_rank ms i k = 10 * (length ms + 1 - (F + unat (ci_waits (wk_client k)))) + length (items (qevts (wk_client k)))"
  by (auto simp: serves_def rank_def pos_of_def)

definition round_ok :: "bytes list \<Rightarrow> nat \<Rightarrow> bytes \<Rightarrow> sync_view \<Rightarrow> evt list \<Rightarrow> ('w, 'h, 'q) work \<Rightarrow> ('w, 'h, 'q) work \<Rightarrow> bool" where
  "round_ok ms q i v R k k' \<longleftrightarrow> (\<exists>A F. serves ms i F k' \<and> (\<forall>j. j \<noteq> i \<longrightarrow> cons_pos (wk_xmq k') j = cons_pos (wk_xmq k) j) \<and>
     ec_type (wk_net k') = ec_type (wk_net k) \<and> qrecv (wk_net k') = qrecv (wk_net k) \<and> items (qsend (wk_net k')) = items (qsend (wk_net k)) @ A \<and>
     (\<forall>e \<in> set A. ev_id e = i \<and> ev_size e = length (ev_data e)) \<and> (busy ms i k \<longrightarrow> work_rank ms i k' + 8 * length A < work_rank ms i k) \<and>
     client_sync ms q i (v\<lparr>sv_pos := Some F, sv_srv := Some (ci_phase (wk_client k'), ci_waits (wk_client k'), items (qincr (wk_client k'))),
       sv_up := items (qevts (wk_client k')) @ R, sv_down := sv_down v @ A\<rparr>))"

lemma round_okI:
  assumes "serves ms i F k'" "\<And>j. j \<noteq> i \<Longrightarrow> cons_pos (wk_xmq k') j = cons_pos (wk_xmq k) j"
    and "ec_type (wk_net k') = ec_type (wk_net k)" "qrecv (wk_net k') = qrecv (wk_net k)" "items (qsend (wk_net k')) = items (qsend (wk_net k)) @ A"
    and "\<And>e. e \<in> set A \<Longrightarrow> ev_id e = i \<and> ev_size e = length (ev_data e)"
    and "busy ms i k \<Longrightarrow> work_rank ms i k' + 8 * length A < work_rank ms i k"
    and "client_sync ms q i (v\<lparr>sv_pos := Some F, sv_srv := Some (st, ci_waits (wk_client k'), items (qincr (wk_client k'))),
       sv_up := items (qevts (wk_client k')) @ R, sv_down := sv_down v @ A\<rparr>)"
  shows "round_ok ms q i v R k (k'\<lparr>wk_client := (wk_client k')\<lparr>ci_phase := st\<rparr>\<rparr>)"
  unfolding round_ok_def using assms by (intro exI [of _ A] exI [of _ F]) (auto simp: serves_def rank_def)

lemma round_same:
  assumes "client_sync ms q i v" "serves ms i F k" "sv_pos v = Some F" "sv_srv v = Some (ci_phase (wk_client k), ci_waits (wk_client k), items (qincr (wk_client k)))"
    and "sv_up v = items (qevts (wk_client k)) @ R" "\<not> busy ms i k"
  shows "round_ok ms q i v R k k"
proof -
  have "v\<lparr>sv_pos := Some F, sv_srv := Some (ci_phase (wk_client k), ci_waits (wk_client k), items (qincr (wk_client k))),
       sv_up := items (qevts (wk_client k)) @ R, sv_down := sv_down v @ []\<rparr> = v" using assms(3-5) by (cases v) simp
  then show ?thesis unfolding round_ok_def using assms(1,2,6) by (intro exI [of _ "[]"] exI [of _ F]) simp
qed

lemma idle_round: "ci_phase (wk_client k) = EVT_STATE_INCR \<Longrightarrow> items (qevts (wk_client k)) = [] \<Longrightarrow> task_round E k = Some (True, k)"
  by (simp add: task_round_def view_length)

lemma rep_round: "ci_phase (wk_client k) = EVT_STATE_INCR \<Longrightarrow> items (qevts (wk_client k)) \<noteq> [] \<Longrightarrow> task_round E k = to_phase (do_incr_rep_task E k)"
  by (simp add: task_round_def view_length)

lemma req_round:
  "ci_phase (wk_client k) = EVT_STATE_WAIT \<Longrightarrow> items (qevts (wk_client k)) = [] \<Longrightarrow> items (qdump (wk_client k)) = [] \<Longrightarrow>
   items (qincr (wk_client k)) \<noteq> [] \<Longrightarrow> task_round E k = to_phase (do_incr_req_task E k)"
  by (simp add: task_round_def view_length)

lemma worker_request:
  assumes "lxq_name i" "pos_of P = q" "1 \<le> q" "q \<le> length ms + 1" "serves ms i F k" "P = Some F"
    and "ci_phase (wk_client k) = EVT_STATE_INCR" "items (qevts (wk_client k)) @ R = [req_evt i NET_EV_NONE 0]" "items (qevts (wk_client k)) \<noteq> []" "ci_waits (wk_client k) = 0"
    and "v = \<lparr>sv_pos = P, sv_srv = S, sv_up = [req_evt i NET_EV_NONE 0], sv_down = [], sv_slave = Some (True, busi_at (written ms q q), NET_EV_INCREMENT_REQ, 0)\<rparr>"
  shows "\<exists>k'. task_round E k = Some (True, k') \<and> round_ok ms q i v R k k'"
proof -
  have e: "items (qevts (wk_client k)) = [req_evt i NET_EV_NONE 0]" "R = []" using assms(8,9) by (auto simp: append_eq_Cons_conv)
  obtain k' where k': "do_incr_rep_task E k = Some (EVT_STATE_WAIT, k')" "serves ms i F k'" "batch_ready ms i F (wk_client k')"
    "items (qevts (wk_client k')) = []" "wk_xmq k' = wk_xmq k" "wk_net k' = wk_net k" using rep_first [OF assms(5) e(1)] by blast
  obtain n where n: "1 \<le> n" "n \<le> 10" "n = 1 \<or> F + n \<le> length ms + 1" "items (qincr (wk_client k')) = map (\<lambda>q. rep_evt i q []) [F..<F + n]" "ci_waits (wk_client k') = 0"
    using k'(3) by (auto simp: batch_ready_def)
  have F: "F = q" using assms(2,6) by (simp add: pos_of_def)
  have "client_sync ms q i (v\<lparr>sv_pos := Some F, sv_srv := Some (EVT_STATE_WAIT, ci_waits (wk_client k'), items (qincr (wk_client k'))),
       sv_up := items (qevts (wk_client k')) @ R, sv_down := sv_down v @ []\<rparr>)"
    using cs_wait [of q F ms n 0 NET_EV_INCREMENT_REQ i] assms(3,4,11) n F k'(4) e(2) by (simp add: net_codes)
  moreover have "work_rank ms i k' < work_rank ms i k" using rank_serves [OF k'(2)] rank_serves [OF assms(5)] n(5) assms(10) e(1) k'(4) by simp
  ultimately have "round_ok ms q i v R k (k'\<lparr>wk_client := (wk_client k')\<lparr>ci_phase := EVT_STATE_WAIT\<rparr>\<rparr>)"
    by (intro round_okI [where A = "[]"]) (simp_all add: k'(2,4-6))
  then show ?thesis using rep_round [OF assms(7,9)] k'(1) by (simp add: to_phase_def)
qed

lemma worker_wait:
  assumes "q \<le> F" "F \<le> length ms + 1" "1 \<le> n" "n \<le> 10" "n = 1 \<or> F + n \<le> length ms + 1" "l < F" "t \<noteq> NET_EV_DUMP_REQ"
    and "serves ms i F k" "ci_phase (wk_client k) = EVT_STATE_WAIT" "items (qevts (wk_client k)) = []" "R = []" "ci_waits (wk_client k) = 0"
    and "items (qincr (wk_client k)) = map (\<lambda>q. rep_evt i q []) [F..<F + n]"
    and "v = \<lparr>sv_pos = Some F, sv_srv = S, sv_up = [], sv_down = [], sv_slave = Some (True, busi_at (written ms q F), t, l)\<rparr>"
  shows "\<exists>k'. task_round E k = Some (True, k') \<and> round_ok ms q i v R k k'"
proof -
  have d: "items (qdump (wk_client k)) = []" using assms(8) by (simp add: serves_def)
  have ne: "items (qincr (wk_client k)) \<noteq> []" using assms(3,13) by simp
  have r: "task_round E k = to_phase (do_incr_req_task E k)" by (rule req_round [OF assms(9,10) d ne])
  show ?thesis
  proof (cases "F + n \<le> length ms + 1")
    case True
    obtain k' where k': "do_incr_req_task E k = Some (EVT_STATE_INCR, k')" "serves ms i F k'" "cons_pos (wk_xmq k') = cons_pos (wk_xmq k)"
      "ci_waits (wk_client k') = of_nat n" "items (qincr (wk_client k')) = []" "qevts (wk_client k') = qevts (wk_client k)"
      "ec_type (wk_net k') = ec_type (wk_net k)" "qrecv (wk_net k') = qrecv (wk_net k)"
      "items (qsend (wk_net k')) = items (qsend (wk_net k)) @ answers ms i F (F + n)"
      using req_send [OF assms(8,13,3) True assms(12)] unfolding answers_def by blast
    have cs: "client_sync ms q i (v\<lparr>sv_pos := Some F, sv_srv := Some (EVT_STATE_INCR, ci_waits (wk_client k'), items (qincr (wk_client k'))),
       sv_up := items (qevts (wk_client k')) @ R, sv_down := sv_down v @ answers ms i F (F + n)\<rparr>)"
      using cs_work [of q F F n ms l t i] assms(1,3,4,6,7,10,11) True k'(4-6) by (simp add: assms(14))
    have "round_ok ms q i v R k (k'\<lparr>wk_client := (wk_client k')\<lparr>ci_phase := EVT_STATE_INCR\<rparr>\<rparr>)"
      
    proof (rule round_okI [OF k'(2) _ k'(7-9) _ _ cs])
      have "unat (of_nat n :: u64) = n" using assms(4) unat_u64 [of n] by simp
      then show "work_rank ms i k' + 8 * length (answers ms i F (F + n)) < work_rank ms i k"
        using rank_serves [OF k'(2)] rank_serves [OF assms(8)] assms(3,10,12) k'(4,6) True by (simp add: answers_def)
    qed (auto simp: k'(3) answers_def)
    then show ?thesis using r k'(1) by (simp add: to_phase_def)
  next
    case False
    then have n: "n = 1" "length ms < F" using assms(2,5) by auto
    have nb: "\<not> busy ms i k" using assms(8,10) n(2) by (auto simp: busy_def serves_def pos_of_def)
    obtain k' where k': "do_incr_req_task E k = Some (EVT_STATE_WAIT, k')" "serves ms i F k'" "cons_pos (wk_xmq k') = cons_pos (wk_xmq k)"
      "ci_waits (wk_client k') = ci_waits (wk_client k)" "items (qincr (wk_client k')) = [rep_evt i F []]" "qevts (wk_client k') = qevts (wk_client k)" "wk_net k' = wk_net k"
      using req_none [OF assms(8) _ n(2)] assms(13) n(1) by auto
    have cs: "client_sync ms q i (v\<lparr>sv_pos := Some F, sv_srv := Some (EVT_STATE_WAIT, ci_waits (wk_client k'), items (qincr (wk_client k'))),
       sv_up := items (qevts (wk_client k')) @ R, sv_down := sv_down v @ []\<rparr>)"
      using cs_wait [of q F ms 1 l t i] assms(1,2,6,7,10,11,12) k'(4-6) by (simp add: assms(14))
    have "round_ok ms q i v R k (k'\<lparr>wk_client := (wk_client k')\<lparr>ci_phase := EVT_STATE_WAIT\<rparr>\<rparr>)"
      by (rule round_okI [OF k'(2) _ _ _ _ _ _ cs]) (use nb in \<open>simp_all add: k'(3,7)\<close>)
    then show ?thesis using r k'(1) by (simp add: to_phase_def)
  qed
qed

text \<open>An acknowledgement is the next request; \<open>T\<close> is what follows the acknowledgements.\<close>

lemma worker_ack:
  assumes "serves ms i F k" "F < c" "c \<le> F + n" "F + n \<le> length ms + 1" "n \<le> 10" "ci_phase (wk_client k) = EVT_STATE_INCR"
    and "ci_waits (wk_client k) = of_nat n" "items (qincr (wk_client k)) = []" "items (qevts (wk_client k)) @ R = acks i F c @ T" "items (qevts (wk_client k)) \<noteq> []"
  obtains k' st where "task_round E k = Some (True, k'\<lparr>wk_client := (wk_client k')\<lparr>ci_phase := st\<rparr>\<rparr>)" "serves ms i (F + 1) k'"
    "\<forall>j. j \<noteq> i \<longrightarrow> cons_pos (wk_xmq k') j = cons_pos (wk_xmq k) j" "wk_net k' = wk_net k" "items (qevts (wk_client k')) @ R = acks i (F + 1) c @ T"
    "work_rank ms i k' < work_rank ms i k"
    "if n = 1 then st = EVT_STATE_WAIT \<and> batch_ready ms i (F + 1) (wk_client k')
     else st = EVT_STATE_INCR \<and> ci_waits (wk_client k') = of_nat (n - 1) \<and> items (qincr (wk_client k')) = []"
proof -
  obtain m where m: "n = Suc m" using assms(2,3) by (cases n) auto
  obtain es where es: "items (qevts (wk_client k)) = req_evt i NET_EV_SUCC (F + 1) # es" "es @ R = acks i (F + 1) c @ T"
    using assms(9,10) acks_next [OF assms(2), of i] by (cases "items (qevts (wk_client k))") auto
  have w: "ci_waits (wk_client k) = of_nat (Suc m)" "m < 10" "F \<le> length ms" using assms(2,3,4,5,7) m by simp_all
  obtain k' where k': "do_incr_rep_task E k = Some (if m = 0 then EVT_STATE_WAIT else EVT_STATE_INCR, k')" "serves ms i (F + 1) k'"
    "if m = 0 then batch_ready ms i (F + 1) (wk_client k') else ci_waits (wk_client k') = of_nat m \<and> items (qincr (wk_client k')) = []"
    "items (qevts (wk_client k')) = es" "\<exists>b. cons_pos (wk_xmq k') = (cons_pos (wk_xmq k))(i \<mapsto> (b, F + 1))" "wk_net k' = wk_net k"
    using rep_succ [OF assms(1) w(3) es(1) w(1,2) assms(8)] by blast
  have t: "task_round E k = Some (True, k'\<lparr>wk_client := (wk_client k')\<lparr>ci_phase := (if m = 0 then EVT_STATE_WAIT else EVT_STATE_INCR)\<rparr>\<rparr>)"
    using rep_round [OF assms(6,10)] k'(1) by (simp add: to_phase_def)
  have rk: "work_rank ms i k' < work_rank ms i k"
    using rank_serves [OF k'(2)] rank_serves [OF assms(1)] k'(3,4) es(1) w(1,2) m unat_u64 [of m] unat_u64 [of "Suc m"]
    by (cases "m = 0") (simp_all add: batch_ready_def)
  show ?thesis by (rule that [OF t]) (use k' es(2) m rk in auto)
qed

lemma worker_work:
  assumes "serves ms i F k" "ci_phase (wk_client k) = EVT_STATE_INCR" "ci_waits (wk_client k) = of_nat n" "items (qincr (wk_client k)) = []"
    and "items (qevts (wk_client k)) @ R = acks i F c @ []" "items (qevts (wk_client k)) \<noteq> []"
    and "q \<le> F" "F \<le> c" "c \<le> F + n" "F + n \<le> length ms + 1" "1 \<le> n" "n \<le> 10" "l < c" "t \<noteq> NET_EV_DUMP_REQ"
    and "v = \<lparr>sv_pos = Some F, sv_srv = S, sv_up = U, sv_down = answers ms i c (F + n), sv_slave = Some (True, busi_at (written ms q c), t, l)\<rparr>"
  shows "\<exists>k'. task_round E k = Some (True, k') \<and> round_ok ms q i v R k k'"
proof -
  have c: "F < c" using assms(5,6,8) by (cases "F = c") auto
  obtain k' st where k': "task_round E k = Some (True, k'\<lparr>wk_client := (wk_client k')\<lparr>ci_phase := st\<rparr>\<rparr>)" "serves ms i (F + 1) k'"
    "\<forall>j. j \<noteq> i \<longrightarrow> cons_pos (wk_xmq k') j = cons_pos (wk_xmq k) j" "wk_net k' = wk_net k" "items (qevts (wk_client k')) @ R = acks i (F + 1) c @ []"
    "work_rank ms i k' < work_rank ms i k"
    "if n = 1 then st = EVT_STATE_WAIT \<and> batch_ready ms i (F + 1) (wk_client k')
     else st = EVT_STATE_INCR \<and> ci_waits (wk_client k') = of_nat (n - 1) \<and> items (qincr (wk_client k')) = []"
    by (rule worker_ack [OF assms(1) c assms(9,10,12,2-6)])
  have cs: "client_sync ms q i (v\<lparr>sv_pos := Some (F + 1), sv_srv := Some (st, ci_waits (wk_client k'), items (qincr (wk_client k'))),
      sv_up := items (qevts (wk_client k')) @ R, sv_down := sv_down v @ []\<rparr>)"
  proof (cases "n = 1")
    case True
    then have "c = F + 1" using c assms(9) by simp
    moreover obtain m where "1 \<le> m" "m \<le> 10" "m = 1 \<or> F + 1 + m \<le> length ms + 1" "items (qincr (wk_client k')) = map (\<lambda>q. rep_evt i q []) [F + 1..<F + 1 + m]"
      "ci_waits (wk_client k') = 0" "st = EVT_STATE_WAIT" using k'(7) True by (auto simp: batch_ready_def)
    ultimately show ?thesis using k'(5) True assms(7,10,13,14) client_sync.cs_wait [of q "F + 1" ms m l t i] by (simp add: assms(15))
  next
    case False
    then show ?thesis
      using k'(5,7) c assms(7,9-14) client_sync.cs_work [of q "F + 1" c "n - 1" ms l t i] by (simp add: assms(15))
  qed
  have "round_ok ms q i v R k (k'\<lparr>wk_client := (wk_client k')\<lparr>ci_phase := st\<rparr>\<rparr>)"
    by (rule round_okI [OF k'(2) _ _ _ _ _ _ cs]) (use k'(6) in \<open>simp_all add: k'(3,4)\<close>)
  then show ?thesis using k'(1) by blast
qed

lemma worker_failed:
  assumes "serves ms i F k" "ci_phase (wk_client k) = EVT_STATE_INCR" "ci_waits (wk_client k) = of_nat n" "items (qincr (wk_client k)) = []"
    and "items (qevts (wk_client k)) @ R = acks i F c @ [req_evt i NET_EV_FAIL (c + 1)]" "items (qevts (wk_client k)) \<noteq> []"
    and "q \<le> F" "F \<le> c" "c < F + n" "F + n \<le> length ms + 1" "n \<le> 10"
    and "v = \<lparr>sv_pos = Some F, sv_srv = S, sv_up = U, sv_down = D, sv_slave = Some (False, busi_at (written ms q c @ take w (ms ! (c - 1))), t, l)\<rparr>"
  shows "\<exists>k'. task_round E k = Some (True, k') \<and> round_ok ms q i v R k k'"
proof (cases "F < c")
  case True
  have le: "c \<le> F + n" using assms(9) by simp
  obtain k' st where k': "task_round E k = Some (True, k'\<lparr>wk_client := (wk_client k')\<lparr>ci_phase := st\<rparr>\<rparr>)" "serves ms i (F + 1) k'"
    "\<forall>j. j \<noteq> i \<longrightarrow> cons_pos (wk_xmq k') j = cons_pos (wk_xmq k) j" "wk_net k' = wk_net k"
    "items (qevts (wk_client k')) @ R = acks i (F + 1) c @ [req_evt i NET_EV_FAIL (c + 1)]"
    "work_rank ms i k' < work_rank ms i k"
    "if n = 1 then st = EVT_STATE_WAIT \<and> batch_ready ms i (F + 1) (wk_client k')
     else st = EVT_STATE_INCR \<and> ci_waits (wk_client k') = of_nat (n - 1) \<and> items (qincr (wk_client k')) = []"
    by (rule worker_ack [OF assms(1) True le assms(10,11,2-6)])
  have n: "n \<noteq> 1" using True assms(9) by simp
  have cs: "client_sync ms q i (v\<lparr>sv_pos := Some (F + 1), sv_srv := Some (st, ci_waits (wk_client k'), items (qincr (wk_client k'))),
      sv_up := items (qevts (wk_client k')) @ R, sv_down := sv_down v @ []\<rparr>)"
    using n k'(5,7) True assms(7,9-11) client_sync.cs_failed [of q "F + 1" c "n - 1" ms i D w t l] by (simp add: assms(12))
  have "round_ok ms q i v R k (k'\<lparr>wk_client := (wk_client k')\<lparr>ci_phase := st\<rparr>\<rparr>)"
    by (rule round_okI [OF k'(2) _ _ _ _ _ _ cs]) (use k'(6) in \<open>simp_all add: k'(3,4)\<close>)
  then show ?thesis using k'(1) by blast
next
  case False
  then have c: "c = F" using assms(8) by simp
  then have e: "items (qevts (wk_client k)) = req_evt i NET_EV_FAIL (Suc F) # []" "R = []" using assms(5,6) by (auto simp: append_eq_Cons_conv)
  obtain u where u: "do_incr_rep_task E k = Some (EVT_STATE_EXIT, k\<lparr>wk_client := (wk_client k)\<lparr>qevts := u\<rparr>\<rparr>)" "items u = []"
    using rep_fail [OF assms(1) e(1)] by blast
  define k' where "k' = k\<lparr>wk_client := (wk_client k)\<lparr>qevts := u\<rparr>\<rparr>"
  have s': "serves ms i F k'" using assms(1) by (simp add: serves_def k'_def)
  have cs: "client_sync ms q i (v\<lparr>sv_pos := Some F, sv_srv := Some (EVT_STATE_EXIT, ci_waits (wk_client k'), items (qincr (wk_client k'))),
      sv_up := items (qevts (wk_client k')) @ R, sv_down := sv_down v @ []\<rparr>)"
    using assms(4,7,9,10) c e(2) u(2) client_sync.cs_gone [of q F F ms "Some (EVT_STATE_EXIT, ci_waits (wk_client k), [])" "ci_waits (wk_client k)" i D w t l]
    by (simp add: assms(12) k'_def)
  have "round_ok ms q i v R k (k'\<lparr>wk_client := (wk_client k')\<lparr>ci_phase := EVT_STATE_EXIT\<rparr>\<rparr>)"
    by (rule round_okI [OF s' _ _ _ _ _ _ cs]) (use e(1) u(2) in \<open>simp_all add: k'_def rank_def\<close>)
  moreover have "task_round E k = Some (True, k'\<lparr>wk_client := (wk_client k')\<lparr>ci_phase := EVT_STATE_EXIT\<rparr>\<rparr>)"
    using rep_round [OF assms(2,6)] u(1) by (simp add: to_phase_def k'_def)
  ultimately show ?thesis by blast
qed

lemma worker_step:
  assumes "client_sync ms q i v" "1 \<le> q" "q \<le> length ms + 1" "serves ms i F k" "sv_pos v = Some F"
    and "sv_srv v = Some (ci_phase (wk_client k), ci_waits (wk_client k), items (qincr (wk_client k)))" "sv_up v = items (qevts (wk_client k)) @ R"
  shows "(\<exists>k'. task_round E k = Some (True, k') \<and> round_ok ms q i v R k k') \<or> (task_round E k = Some (False, k) \<and> sv_up v = [] \<and> (\<exists>r. sv_slave v = Some (False, r)) \<and> client_sync ms q i (v\<lparr>sv_srv := None\<rparr>))"
proof (cases "ci_phase (wk_client k) = EVT_STATE_INCR \<and> items (qevts (wk_client k)) = []")
  case True
  then show ?thesis using idle_round round_same [OF assms(1,4-7)] by (auto simp: busy_def)
next
  case pending: False
  show ?thesis using assms(1)
  proof (cases rule: client_sync.cases)
    case (cs_idle P)
    then show ?thesis using assms(6) by simp
  next
    case (cs_request P S)
    then have "ci_phase (wk_client k) = EVT_STATE_INCR" "items (qevts (wk_client k)) @ R = [req_evt i NET_EV_NONE 0]" "P = Some F" "ci_waits (wk_client k) = 0"
      using assms(5-7) by auto
    then show ?thesis using worker_request [OF cs_request(2,3) assms(2-4)] pending cs_request(1) by blast
  next
    case (cs_wait G n l t)
    then have "ci_phase (wk_client k) = EVT_STATE_WAIT" "items (qevts (wk_client k)) = []" "R = []" "ci_waits (wk_client k) = 0" "G = F"
      "items (qincr (wk_client k)) = map (\<lambda>q. rep_evt i q []) [F..<F + n]" using assms(5-7) by auto
    then show ?thesis using worker_wait [of q F ms n l t i k R v] cs_wait assms(4) by blast
  next
    case (cs_work G c n l t)
    have w: "ci_phase (wk_client k) = EVT_STATE_INCR" "ci_waits (wk_client k) = of_nat n" "items (qincr (wk_client k)) = []" "G = F"
      "items (qevts (wk_client k)) @ R = acks i F c @ []" using cs_work(1) assms(5-7) by auto
    then have ne: "items (qevts (wk_client k)) \<noteq> []" using pending by blast
    show ?thesis using worker_work [OF assms(4) w(1-3,5) ne cs_work(2-9,1) [unfolded w(4)]] by blast
  next
    case (cs_failed G c n D w t l)
    have w: "ci_phase (wk_client k) = EVT_STATE_INCR" "ci_waits (wk_client k) = of_nat n" "items (qincr (wk_client k)) = []" "G = F"
      "items (qevts (wk_client k)) @ R = acks i F c @ [req_evt i NET_EV_FAIL (c + 1)]" using cs_failed(1) assms(5-7) by auto
    then have ne: "items (qevts (wk_client k)) \<noteq> []" using pending by blast
    show ?thesis using worker_failed [OF assms(4) w(1-3,5) ne cs_failed(2-6,1) [unfolded w(4)]] by blast
  next
    case (cs_gone G c S n D w t l)
    then have "ci_phase (wk_client k) = EVT_STATE_EXIT" using assms(6) by auto
    then have "task_round E k = Some (False, k)" by (simp add: task_round_def)
    then show ?thesis using cs_gone client_sync.cs_gone [of q G c ms None n i D w t l] by simp
  qed
qed

text \<open>The worker and the dispatcher in the system.\<close>

lemma server_ok_hash:
  assumes "server_ok ms m" "lookup (pm_hash m) i = Some a"
  obtains c where "pm_clients m a = Some c" "ci_id c = i"
  using assms unfolding server_ok_def by blast

lemma server_ok_client: "server_ok ms m \<Longrightarrow> pm_clients m a = Some c \<Longrightarrow> client_ok m a c"
  by (simp add: server_ok_def)

lemma server_ok_uniq:
  assumes "server_ok ms m" "pm_clients m a = Some c"
  shows "lookup (pm_hash m) j = Some a \<longleftrightarrow> j = ci_id c"
proof
  assume "lookup (pm_hash m) j = Some a"
  then obtain d where "pm_clients m a = Some d" "ci_id d = j" by (rule server_ok_hash [OF assms(1)])
  then show "j = ci_id c" using assms(2) by simp
qed (use server_ok_client [OF assms] in \<open>simp add: client_ok_def\<close>)

lemma srv_client_put:
  assumes "server_ok ms m" "lookup (pm_hash m) i = Some a" "pm_clients m' = (pm_clients m)(a := c)" "pm_hash m' = pm_hash m"
  shows "srv_client m' j = (if j = i then c else srv_client m j)"
proof -
  obtain d where d: "pm_clients m a = Some d" "ci_id d = i" by (rule server_ok_hash [OF assms(1,2)])
  then have "lookup (pm_hash m) j = Some a \<longleftrightarrow> j = i" using server_ok_uniq [OF assms(1) d(1)] by simp
  then show ?thesis using assms(3,4) by (cases "lookup (pm_hash m) j") (auto simp: srv_client_def)
qed

text \<open>The requests of a client that are not in the queue of its worker.\<close>

definition coming :: "('w, 'h, 'q, 'm) pole_sys \<Rightarrow> bytes \<Rightarrow> evt list" where
  "coming y i = own i (qrecv (pm_net (sy_m y))) @ map evt_of (sy_up y i) @
     (case sy_s y i of None \<Rightarrow> [] | Some (go, s) \<Rightarrow> map evt_wire (items (qsend (ps_net s))))"

definition work_of :: "('w, 'h, 'q, 'm) pole_m \<Rightarrow> 'q client_info \<Rightarrow> ('w, 'h, 'q) work" where
  "work_of m c = \<lparr>wk_xmq = pm_xmq m, wk_net = pm_net m, wk_client = c\<rparr>"

lemma server_ok_put:
  assumes "server_ok ms m" "pm_clients m a = Some c" "ci_id c = i"
    and "serves ms i G k'" "\<forall>j. j \<noteq> i \<longrightarrow> cons_pos (wk_xmq k') j = cons_pos (pm_xmq m) j" "ec_type (wk_net k') = ec_type (pm_net m)"
    and "items (qsend (wk_net k')) = items (qsend (pm_net m)) @ A" "\<forall>e \<in> set A. ev_id e = i \<and> ev_size e = length (ev_data e)"
  shows "server_ok ms (m\<lparr>pm_xmq := wk_xmq k', pm_net := wk_net k', pm_clients := (pm_clients m)(a := Some (wk_client k'))\<rparr>)"
    (is "server_ok ms ?m")
proof -
  have cid: "ci_id (wk_client k') = i" using assms(4) by (simp add: serves_def)
  note co = server_ok_client [OF assms(1,2)]
  have "client_ok ?m e f" if f: "pm_clients ?m e = Some f" for e f
  proof (cases "e = a")
    case True
    then show ?thesis using assms(3,4) co f cid by (auto simp: client_ok_def serves_def)
  next
    case False
    then have o: "client_ok m e f" using server_ok_client [OF assms(1)] f by simp
    then have "ci_id f \<noteq> i" using co False assms(3) by (auto simp: client_ok_def)
    then show ?thesis using o assms(5) by (simp add: client_ok_def)
  qed
  moreover have "\<exists>f. pm_clients ?m e = Some f \<and> ci_id f = j" if l: "lookup (pm_hash ?m) j = Some e" for j e
  proof -
    have "lookup (pm_hash m) j = Some e" using l by simp
    then obtain f where "pm_clients m e = Some f" "ci_id f = j" by (rule server_ok_hash [OF assms(1)])
    then show ?thesis using assms(2,3) cid by (cases "e = a") auto
  qed
  moreover have "keeps ms (wk_xmq k')" using assms(4) by (simp add: serves_def)
  moreover have "snd ` set (pm_tasks m) = insert a (dom (pm_clients m))" "ec_type (wk_net k') = SOCK_SERVER"
    "\<forall>e \<in> set (items (qsend (wk_net k'))). ev_size e = length (ev_data e)" using assms(1,2,6,7,8) by (auto simp: server_ok_def)
  ultimately show ?thesis unfolding server_ok_def by simp
qed

lemma put_work:
  assumes "sys_inv ms p y" "pm_clients (sy_m y) a = Some c" "ci_id c = i"
    and "round_ok ms (p i) i (sync_of y i) (coming y i) (work_of (sy_m y) c) k'"
    and "m = (sy_m y)\<lparr>pm_xmq := wk_xmq k', pm_net := wk_net k', pm_clients := (pm_clients (sy_m y))(a := Some (wk_client k'))\<rparr>"
  shows "sys_inv ms p (y\<lparr>sy_m := m\<rparr>)" "busy ms i (work_of (sy_m y) c) \<Longrightarrow> load ms (y\<lparr>sy_m := m\<rparr>) i < load ms y i"
proof -
  obtain A G where r: "serves ms i G k'" "\<forall>j. j \<noteq> i \<longrightarrow> cons_pos (wk_xmq k') j = cons_pos (pm_xmq (sy_m y)) j"
    "ec_type (wk_net k') = ec_type (pm_net (sy_m y))" "qrecv (wk_net k') = qrecv (pm_net (sy_m y))" "items (qsend (wk_net k')) = items (qsend (pm_net (sy_m y))) @ A"
    "\<forall>e \<in> set A. ev_id e = i \<and> ev_size e = length (ev_data e)"
    "busy ms i (work_of (sy_m y) c) \<longrightarrow> work_rank ms i k' + 8 * length A < rank ms i (pm_xmq (sy_m y)) (Some c)"
    "client_sync ms (p i) i ((sync_of y i)\<lparr>sv_pos := Some G, sv_srv := Some (ci_phase (wk_client k'), ci_waits (wk_client k'), items (qincr (wk_client k'))),
       sv_up := items (qevts (wk_client k')) @ coming y i, sv_down := sv_down (sync_of y i) @ A\<rparr>)"
    using assms(4) unfolding round_ok_def by (auto simp: work_of_def)
  have h: "server_ok ms (sy_m y)" "links_ok y" using assms(1) by (simp_all add: sys_inv_def)
  have F: "lookup (pm_hash (sy_m y)) i = Some a" using server_ok_client [OF h(1) assms(2)] assms(3) by (simp add: client_ok_def)
  have ok: "server_ok ms m" unfolding assms(5) by (rule server_ok_put [OF h(1) assms(2,3) r(1-3,5,6)])
  have sj: "srv_client m j = (if j = i then Some (wk_client k') else srv_client (sy_m y) j)" for j
    by (rule srv_client_put [OF h(1) F]) (simp_all add: assms(5))
  have own_send: "own j (qsend (wk_net k')) = own j (qsend (pm_net (sy_m y))) @ (if j = i then A else [])" for j
    using r(5,6) by (auto simp: own_def filter_empty_conv intro!: filter_True)
  have vj: "sync_of (y\<lparr>sy_m := m\<rparr>) j = sync_of y j" if "j \<noteq> i" for j
    using that sj [of j] r(2,4) own_send [of j] by (simp add: sync_of_def srv_queue_def) (simp add: assms(5))
  have "cons_pos (wk_xmq k') i = Some (the (ci_consumer (wk_client k')), G)" using r(1) by (auto simp: serves_def)
  then have "sync_of (y\<lparr>sy_m := m\<rparr>) i = (sync_of y i)\<lparr>sv_pos := Some G, sv_srv := Some (ci_phase (wk_client k'), ci_waits (wk_client k'), items (qincr (wk_client k'))),
       sv_up := items (qevts (wk_client k')) @ coming y i, sv_down := sv_down (sync_of y i) @ A\<rparr>"
    using sj [of i] r(4) own_send [of i] by (simp add: sync_of_def srv_queue_def coming_def) (simp add: assms(5))
  then have "client_sync ms (p i) i (sync_of (y\<lparr>sy_m := m\<rparr>) i)" using r(8) by simp
  then show "sys_inv ms p (y\<lparr>sy_m := m\<rparr>)" using sys_inv_at [OF assms(1) _ _ vj, of i] ok h(2) by (simp add: links_ok_def)
  have "srv_client (sy_m y) i = Some c" using F assms(2) by (simp add: srv_client_def)
  then show "load ms (y\<lparr>sy_m := m\<rparr>) i < load ms y i" if "busy ms i (work_of (sy_m y) c)"
    using that r(4,5,7) sj [of i] by (simp add: load_def) (simp add: assms(5))
qed

lemma drop_work:
  assumes "sys_inv ms p y" "pm_clients (sy_m y) a = Some c" "ci_id c = i" "sv_up (sync_of y i) = []" "client_sync ms (p i) i ((sync_of y i)\<lparr>sv_srv := None\<rparr>)"
  shows "sys_inv ms p (y\<lparr>sy_m := (sy_m y)\<lparr>pm_hash := hm_del (pe_hash E) (pm_hash (sy_m y)) i, pm_clients := (pm_clients (sy_m y))(a := None),
    pm_tasks := filter (\<lambda>(t, b). b \<noteq> a) (pm_tasks (sy_m y))\<rparr>\<rparr>)" (is "sys_inv ms p (y\<lparr>sy_m := ?m\<rparr>)")
proof -
  have h: "server_ok ms (sy_m y)" "links_ok y" using assms(1) by (simp_all add: sys_inv_def)
  have F: "lookup (pm_hash (sy_m y)) i = Some a" using server_ok_client [OF h(1) assms(2)] assms(3) by (simp add: client_ok_def)
  have uniq: "lookup (pm_hash (sy_m y)) j = Some a \<longleftrightarrow> j = i" for j
    using server_ok_uniq [OF h(1) assms(2)] assms(3) by simp
  have "client_ok ?m e f" if f: "pm_clients ?m e = Some f" for e f
  proof -
    have e: "e \<noteq> a" "client_ok (sy_m y) e f" using f server_ok_client [OF h(1)] by (auto split: if_splits)
    then have "ci_id f \<noteq> i" using uniq [of "ci_id f"] by (auto simp: client_ok_def)
    then show ?thesis using e(2) by (simp add: client_ok_def hm_del)
  qed
  moreover have "\<exists>f. pm_clients ?m e = Some f \<and> ci_id f = j" if l: "lookup (pm_hash ?m) j = Some e" for j e
  proof -
    have j: "j \<noteq> i" "lookup (pm_hash (sy_m y)) j = Some e" using l by (auto simp: hm_del split: if_splits)
    then have "e \<noteq> a" using uniq [of j] by auto
    then show ?thesis using server_ok_hash [OF h(1) j(2)] by auto
  qed
  moreover have "snd ` set (filter (\<lambda>(t, b). b \<noteq> a) (pm_tasks (sy_m y))) = dom (pm_clients (sy_m y)) - {a}"
    using h(1) unfolding server_ok_def by (auto simp: image_iff) force
  ultimately have ok: "server_ok ms ?m" using h(1) unfolding server_ok_def by auto
  have sj: "srv_client ?m j = (if j = i then None else srv_client (sy_m y) j)" for j
    using uniq [of j] by (cases "lookup (pm_hash (sy_m y)) j") (auto simp: srv_client_def hm_del)
  have vj: "sync_of (y\<lparr>sy_m := ?m\<rparr>) j = sync_of y j" if "j \<noteq> i" for j using that sj [of j] by (simp add: sync_of_def srv_queue_def)
  have "srv_queue (sy_m y) i = []" using assms(4) by (simp add: sync_of_def)
  then have "sync_of (y\<lparr>sy_m := ?m\<rparr>) i = (sync_of y i)\<lparr>sv_srv := None\<rparr>" using sj [of i] by (simp add: sync_of_def srv_queue_def)
  then show ?thesis using sys_inv_at [OF assms(1) _ _ vj, of i] ok h(2) assms(5) by (simp add: links_ok_def)
qed

lemma act_work:
  assumes "sys_inv ms p y"
  shows "\<exists>y'. pole_do E (Act_Work a) y = Some y' \<and> sys_inv ms p y' \<and> running y' = running y \<and>
    (\<forall>c. pm_clients (sy_m y) a = Some c \<longrightarrow> running y (ci_id c) \<longrightarrow> busy ms (ci_id c) (work_of (sy_m y) c) \<longrightarrow> load ms y' (ci_id c) < load ms y (ci_id c))"
proof (cases "a \<in> snd ` set (pm_tasks (sy_m y))")
  case False
  then have "pm_clients (sy_m y) a = None" using assms by (auto simp: sys_inv_def server_ok_def)
  then show ?thesis using False assms by simp
next
  case True
  have h: "server_ok ms (sy_m y)" using assms by (simp add: sys_inv_def)
  have "a \<in> dom (pm_clients (sy_m y))" using h True by (auto simp: server_ok_def)
  then obtain c where c: "pm_clients (sy_m y) a = Some c" by blast
  define i where "i = ci_id c"
  obtain b F where F: "lookup (pm_hash (sy_m y)) i = Some a" "ci_consumer c = Some b" "cons_pos (pm_xmq (sy_m y)) i = Some (b, F)" "items (qdump c) = []"
    using server_ok_client [OF h c] by (auto simp: client_ok_def i_def)
  have sy: "client_sync ms (p i) i (sync_of y i)" "1 \<le> p i" "p i \<le> length ms + 1" using assms by (simp_all add: sys_inv_def)
  have sc: "srv_client (sy_m y) i = Some c" using F(1) c by (simp add: srv_client_def)
  define k where "k = work_of (sy_m y) c"
  have v: "sv_pos (sync_of y i) = Some F" "sv_srv (sync_of y i) = Some (ci_phase (wk_client k), ci_waits (wk_client k), items (qincr (wk_client k)))"
    "sv_up (sync_of y i) = items (qevts (wk_client k)) @ coming y i"
    using F(3) sc by (simp_all add: sync_of_def k_def work_of_def srv_queue_def coming_def)
  have sv: "serves ms i F k" using h F client_sync_pos [OF sy v(1)] by (simp add: serves_def k_def work_of_def server_ok_def i_def)
  have cid: "ci_id c = i" by (simp add: i_def)
  from worker_step [OF sy sv v] show ?thesis
  proof
    assume "\<exists>k'. task_round E k = Some (True, k') \<and> round_ok ms (p i) i (sync_of y i) (coming y i) k k'"
    then obtain k' where k': "task_round E k = Some (True, k')" "round_ok ms (p i) i (sync_of y i) (coming y i) k k'" by blast
    show ?thesis using True c k'(1) put_work [OF assms c cid k'(2) [unfolded k_def] refl] by (simp add: task_handle_def k_def work_of_def running_def fun_eq_iff i_def)
  next
    assume r: "task_round E k = Some (False, k) \<and> sv_up (sync_of y i) = [] \<and> (\<exists>r. sv_slave (sync_of y i) = Some (False, r)) \<and> client_sync ms (p i) i ((sync_of y i)\<lparr>sv_srv := None\<rparr>)"
    then have "\<not> running y i" by (auto simp: running_def sync_of_def)
    then show ?thesis using True c r drop_work [OF assms c cid] by (simp add: task_handle_def k_def work_of_def i_def running_def fun_eq_iff)
  qed
qed

lemma server_ok_new:
  assumes "server_ok ms m" "lookup (pm_hash m) i = None" "keeps ms x" "pm_clients m a = None"
    and "pm_xmq m' = x" "pm_clients m' = (pm_clients m)(a \<mapsto> c)" "pm_fresh m' = pm_fresh m + 1" "lookup (pm_hash m') = (lookup (pm_hash m))(i \<mapsto> a)"
    and "a = pm_fresh m" "ci_id c = i" "items (qdump c) = []" "ci_consumer c = Some b" "cons_pos x i = Some (b, p)"
    and "\<forall>j. j \<noteq> i \<longrightarrow> cons_pos x j = cons_pos (pm_xmq m) j" "ec_type (pm_net m') = ec_type (pm_net m)" "qsend (pm_net m') = qsend (pm_net m)"
    and "snd ` set (pm_tasks m') = insert a (snd ` set (pm_tasks m))"
  shows "server_ok ms m'"
proof -
  have "client_ok m' e f" if f: "pm_clients m' e = Some f" for e f
  proof (cases "e = a")
    case True
    then show ?thesis using f assms(5-13) by (simp add: client_ok_def)
  next
    case False
    then have o: "client_ok m e f" using server_ok_client [OF assms(1)] f assms(6) by simp
    then have "ci_id f \<noteq> i" using assms(2) by (auto simp: client_ok_def)
    then show ?thesis using o assms(5,7,8,14) by (simp add: client_ok_def)
  qed
  moreover have "\<exists>f. pm_clients m' e = Some f \<and> ci_id f = j" if l: "lookup (pm_hash m') j = Some e" for j e
  proof (cases "j = i")
    case True
    then show ?thesis using l assms(6,8,10) by simp
  next
    case False
    then have "lookup (pm_hash m) j = Some e" using l assms(8) by simp
    then obtain f where "pm_clients m e = Some f" "ci_id f = j" by (rule server_ok_hash [OF assms(1)])
    then show ?thesis using assms(4,6) by (cases "e = a") auto
  qed
  moreover have "snd ` set (pm_tasks m') = dom (pm_clients m')" using assms(1,6,17) by (auto simp: server_ok_def)
  ultimately show ?thesis using assms(1,3,5,15,16) by (simp add: server_ok_def)
qed

lemma regist:
  assumes "keeps ms (pm_xmq m)" "lxq_name i"
  obtains x b where "new_regist_one_client E i m = Some (Some (pm_fresh m), m\<lparr>pm_xmq := x,
      pm_clients := (pm_clients m)(pm_fresh m \<mapsto> (client_info_create (pe_queues E) i)\<lparr>ci_consumer := Some b\<rparr>), pm_fresh := pm_fresh m + 1\<rparr>)"
    "keeps ms x" "cons_pos x i = Some (b, pos_of (map_option snd (cons_pos (pm_xmq m) i)))" "\<forall>j. j \<noteq> i \<longrightarrow> cons_pos x j = cons_pos (pm_xmq m) j"
proof -
  have c: "client_info_init (pe_queues E) (client_info_create (pe_queues E) i) = client_info_create (pe_queues E) i"
    by (simp add: client_info_init_def client_info_create_def)
  show ?thesis
  proof (cases "cons_pos (pm_xmq m) i")
    case (Some r)
    obtain b p where r: "r = (b, p)" by fastforce
    have "new_regist_one_client E i m = Some (Some (pm_fresh m), m\<lparr>pm_xmq := pm_xmq m,
      pm_clients := (pm_clients m)(pm_fresh m \<mapsto> (client_info_create (pe_queues E) i)\<lparr>ci_consumer := Some b\<rparr>), pm_fresh := pm_fresh m + 1\<rparr>)"
      using Some r get [OF assms(1), of i] c by (simp add: new_regist_one_client_def Let_def)
    then show ?thesis by (rule that) (use assms(1) Some r in \<open>simp_all add: pos_of_def\<close>)
  next
    case None
    obtain x b where x: "lxq_register_consumer (pe_ops E) i (pm_xmq m) = Some (0, x)" "keeps ms x" "cons_pos x = (cons_pos (pm_xmq m))(i \<mapsto> (b, 1))"
      using register [OF assms None] by blast
    have "new_regist_one_client E i m = Some (Some (pm_fresh m), m\<lparr>pm_xmq := x,
      pm_clients := (pm_clients m)(pm_fresh m \<mapsto> (client_info_create (pe_queues E) i)\<lparr>ci_consumer := Some b\<rparr>), pm_fresh := pm_fresh m + 1\<rparr>)"
      using None x(1,3) get [OF assms(1), of i] get [OF x(2), of i] c by (simp add: new_regist_one_client_def Let_def)
    then show ?thesis by (rule that) (use x None in \<open>simp_all add: pos_of_def\<close>)
  qed
qed

text \<open>An event for a client that is known joins the queue of its worker.\<close>

lemma dispatch_known:
  assumes "sys_inv ms p y" "items (qrecv (pm_net (sy_m y))) = e # es" "items q = es" "lookup (pm_hash (sy_m y)) (ev_id e) = Some a" "ev_type e = NET_EV_INCREMENT_REQ"
  shows "\<exists>m. push_event_to_work E e ((sy_m y)\<lparr>pm_net := (pm_net (sy_m y))\<lparr>qrecv := q\<rparr>\<rparr>) = Some (0, m) \<and> sys_inv ms p (y\<lparr>sy_m := m\<rparr>) \<and>
    (\<forall>j. load ms (y\<lparr>sy_m := m\<rparr>) j < load ms y j)"
proof -
  define i where "i = ev_id e"
  have h: "server_ok ms (sy_m y)" "links_ok y" using assms(1) by (simp_all add: sys_inv_def)
  have sy: "client_sync ms (p i) i (sync_of y i)" "1 \<le> p i" "p i \<le> length ms + 1" using assms(1) by (simp_all add: sys_inv_def)
  have l: "lookup (pm_hash (sy_m y)) i = Some a" using assms(4) by (simp add: i_def)
  obtain c where c: "pm_clients (sy_m y) a = Some c" "ci_id c = i" by (rule server_ok_hash [OF h(1) l])
  obtain b F where F: "ci_consumer c = Some b" "cons_pos (pm_xmq (sy_m y)) i = Some (b, F)" "items (qdump c) = []"
    using server_ok_client [OF h(1) c(1)] c(2) by (auto simp: client_ok_def)
  have vF: "sv_pos (sync_of y i) = Some F" using F(2) by (simp add: sync_of_def)
  define k' where "k' = \<lparr>wk_xmq = pm_xmq (sy_m y), wk_net = (pm_net (sy_m y))\<lparr>qrecv := q\<rparr>, wk_client = c\<lparr>qevts := ql_push (pe_queues E) (qevts c) e\<rparr>\<rparr>"
  define m where "m = (sy_m y)\<lparr>pm_xmq := wk_xmq k', pm_net := wk_net k', pm_clients := (pm_clients (sy_m y))(a := Some (wk_client k'))\<rparr>"
  have sv: "serves ms i F k'" using h(1) F c(2) client_sync_pos [OF sy vF] by (simp add: serves_def k'_def server_ok_def)
  have d: "push_event_to_work E e ((sy_m y)\<lparr>pm_net := (pm_net (sy_m y))\<lparr>qrecv := q\<rparr>\<rparr>) = Some (0, m)"
    using assms(4,5) c(1) by (simp add: push_event_to_work_def queue_evt_def hm_get net_codes m_def k'_def)
  have ok: "server_ok ms m" unfolding m_def
    by (rule server_ok_put [OF h(1) c sv, where A = "[]"]) (simp_all add: k'_def)
  have sj: "srv_client m j = (if j = i then Some (wk_client k') else srv_client (sy_m y) j)" for j
    by (rule srv_client_put [OF h(1) l]) (simp_all add: m_def)
  have sc: "srv_client (sy_m y) i = Some c" using l c(1) by (simp add: srv_client_def)
  have v: "sync_of (y\<lparr>sy_m := m\<rparr>) j = sync_of y j" for j
    using sj [of j] sc assms(2,3) i_def by (cases "j = i") (simp_all add: sync_of_def srv_queue_def own_def m_def k'_def items_push)
  have "sys_inv ms p (y\<lparr>sy_m := m\<rparr>)" by (rule sys_inv_same [OF assms(1) _ _ v]) (use ok h(2) in \<open>simp_all add: links_ok_def\<close>)
  moreover have "load ms (y\<lparr>sy_m := m\<rparr>) j < load ms y j" for j
    using sj [of j] sc assms(2,3) by (cases "j = i") (simp_all add: load_def rank_def m_def k'_def items_push)
  ultimately show ?thesis using d by blast
qed

text \<open>The first request of a client brings its worker into being.\<close>

lemma dispatch_new:
  assumes "sys_inv ms p y" "items (qrecv (pm_net (sy_m y))) = e # es" "items q = es" "lookup (pm_hash (sy_m y)) (ev_id e) = None" "ev_type e = NET_EV_INCREMENT_REQ"
  shows "\<exists>m. push_event_to_work E e ((sy_m y)\<lparr>pm_net := (pm_net (sy_m y))\<lparr>qrecv := q\<rparr>\<rparr>) = Some (0, m) \<and> sys_inv ms p (y\<lparr>sy_m := m\<rparr>) \<and>
    (\<forall>j. load ms (y\<lparr>sy_m := m\<rparr>) j < load ms y j)"
proof -
  define i where "i = ev_id e"
  have h: "server_ok ms (sy_m y)" "links_ok y" using assms(1) by (simp_all add: sys_inv_def)
  have sy: "client_sync ms (p i) i (sync_of y i)" using assms(1) by (simp add: sys_inv_def)
  have l: "lookup (pm_hash (sy_m y)) i = None" "srv_client (sy_m y) i = None" using assms(4) by (simp_all add: i_def srv_client_def)
  have up: "sv_srv (sync_of y i) = None" "e \<in> set (sv_up (sync_of y i))" using l(2) assms(2) by (simp_all add: sync_of_def own_def i_def)
  have v: "lxq_name i" "pos_of (sv_pos (sync_of y i)) = p i" "sv_up (sync_of y i) = [req_evt i NET_EV_NONE 0]" "sv_down (sync_of y i) = []"
    "sv_slave (sync_of y i) = Some (True, busi_at (written ms (p i) (p i)), NET_EV_INCREMENT_REQ, 0)"
    using client_sync_no_server [OF sy up] by blast+
  define m1 where "m1 = (sy_m y)\<lparr>pm_net := (pm_net (sy_m y))\<lparr>qrecv := q\<rparr>\<rparr>"
  define a where "a = pm_fresh m1"
  have k1: "keeps ms (pm_xmq m1)" using h(1) by (simp add: server_ok_def m1_def)
  obtain x b where x: "new_regist_one_client E i m1 = Some (Some (pm_fresh m1), m1\<lparr>pm_xmq := x,
      pm_clients := (pm_clients m1)(pm_fresh m1 \<mapsto> (client_info_create (pe_queues E) i)\<lparr>ci_consumer := Some b\<rparr>), pm_fresh := pm_fresh m1 + 1\<rparr>)"
    "keeps ms x" "cons_pos x i = Some (b, pos_of (map_option snd (cons_pos (pm_xmq m1) i)))" "\<forall>j. j \<noteq> i \<longrightarrow> cons_pos x j = cons_pos (pm_xmq m1) j"
    by (rule regist [OF k1 v(1)])
  define c where "c = (client_info_create (pe_queues E) i)\<lparr>ci_consumer := Some b, qevts := ql_push (pe_queues E) (ql_init (pe_queues E)) e\<rparr>"
  define m where "m = m1\<lparr>pm_xmq := x, pm_clients := (pm_clients m1)(a \<mapsto> c), pm_fresh := a + 1, pm_hash := hm_set (pe_hash E) (pm_hash m1) i a,
    pm_tasks := pm_tasks m1 @ [(custom_hash (Some i) (pe_threads E) 0, a)]\<rparr>"
  have d: "push_event_to_work E e m1 = Some (0, m)"
    using x(1) assms(4,5) i_def
    by (simp add: push_event_to_work_def queue_evt_def hm_get net_codes m_def m1_def a_def) (simp add: c_def client_info_create_def)
  have pos: "pos_of (map_option snd (cons_pos (pm_xmq m1) i)) = p i" using v(2) by (simp add: sync_of_def m1_def)
  have fr: "pm_clients (sy_m y) a = None" using server_ok_client [OF h(1), of a] by (cases "pm_clients (sy_m y) a") (auto simp: client_ok_def a_def m1_def)
  have ok: "server_ok ms m" 
    by (rule server_ok_new [where c = c and b = b and p = "p i", OF h(1) l(1) x(2) fr])
      (use x(3,4) pos in \<open>simp_all add: m_def m1_def a_def c_def client_info_create_def items_init hm_set\<close>)
  have la: "lookup (pm_hash (sy_m y)) j \<noteq> Some a" for j
  proof
    assume "lookup (pm_hash (sy_m y)) j = Some a"
    then obtain d where "pm_clients (sy_m y) a = Some d" "ci_id d = j" by (rule server_ok_hash [OF h(1)])
    then show False using fr by simp
  qed
  have sj: "srv_client m j = (if j = i then Some c else srv_client (sy_m y) j)" for j
    using la [of j] by (cases "lookup (pm_hash (sy_m y)) j") (auto simp: srv_client_def m_def m1_def hm_set)
  have vj: "sync_of (y\<lparr>sy_m := m\<rparr>) j = sync_of y j" if "j \<noteq> i" for j
    using that sj [of j] assms(2,3) x(4) i_def by (auto simp: sync_of_def srv_queue_def own_def m_def m1_def)
  have "sync_of (y\<lparr>sy_m := m\<rparr>) i = (sync_of y i)\<lparr>sv_pos := Some (p i), sv_srv := Some (EVT_STATE_INCR, 0, [])\<rparr>"
    using sj [of i] l(2) assms(2,3) x(3) pos i_def
    by (simp add: sync_of_def srv_queue_def own_def m_def m1_def c_def client_info_create_def items_init items_push)
  then have "sync_of (y\<lparr>sy_m := m\<rparr>) i = \<lparr>sv_pos = Some (p i), sv_srv = Some (EVT_STATE_INCR, 0, []), sv_up = [req_evt i NET_EV_NONE 0], sv_down = [],
      sv_slave = Some (True, busi_at (written ms (p i) (p i)), NET_EV_INCREMENT_REQ, 0)\<rparr>" using v(3-5) by (cases "sync_of y i") simp
  then have "client_sync ms (p i) i (sync_of (y\<lparr>sy_m := m\<rparr>) i)"
    using cs_request [of i "Some (p i)" "p i" "Some (EVT_STATE_INCR, 0, [])" ms] v(1) by (simp add: pos_of_def)
  then have "sys_inv ms p (y\<lparr>sy_m := m\<rparr>)" using sys_inv_at [OF assms(1) _ _ vj, of i] ok h(2) by (simp add: links_ok_def)
  moreover have "load ms (y\<lparr>sy_m := m\<rparr>) j < load ms y j" for j
  proof (cases "j = i")
    case True
    then have "rank ms j x (srv_client m j) = rank ms j (pm_xmq (sy_m y)) (srv_client (sy_m y) j) + 1"
      using sj [of i] l(2) x(3) pos by (simp add: rank_def c_def client_info_create_def items_push items_init pos_of_def m1_def)
    then show ?thesis using assms(2,3) by (simp add: load_def m_def m1_def)
  next
    case False
    then show ?thesis using sj [of j] x(4) assms(2,3) by (simp add: load_def rank_def m_def m1_def)
  qed
  ultimately show ?thesis using d by (auto simp: m1_def)
qed

lemma act_dispatch:
  assumes "sys_inv ms p y"
  shows "\<exists>y'. pole_do E Act_Dispatch y = Some y' \<and> sys_inv ms p y' \<and> running y' = running y \<and>
    (items (qrecv (pm_net (sy_m y))) \<noteq> [] \<longrightarrow> (\<forall>j. load ms y' j < load ms y j))"
proof (cases "items (qrecv (pm_net (sy_m y)))")
  case Nil
  obtain q where q: "ql_pull (pe_queues E) (qrecv (pm_net (sy_m y))) = (None, q)" "items q = []" using Nil by (rule pull_none)
  have s: "server_ok ms (sy_m y)" "links_ok y" using assms by (simp_all add: sys_inv_def)
  define y' where "y' = y\<lparr>sy_m := (sy_m y)\<lparr>pm_net := (pm_net (sy_m y))\<lparr>qrecv := q\<rparr>\<rparr>\<rparr>"
  have d: "pole_do E Act_Dispatch y = Some y'" using q(1) by (simp add: event_dispenser_def recv_evt_def y'_def)
  have ok: "server_ok ms (sy_m y')" using s(1) q(2) by (simp add: y'_def server_ok_def client_ok_def)
  have lk: "links_ok y'" using s(2) by (simp add: y'_def links_ok_def)
  have v: "sync_of y' j = sync_of y j" for j using Nil q(2) by (simp add: sync_of_def y'_def own_def)
  have "running y' = running y" by (simp add: running_def fun_eq_iff y'_def)
  then show ?thesis using d sys_inv_same [OF assms ok lk v] Nil by blast
next
  case (Cons e es)
  obtain q where q: "ql_pull (pe_queues E) (qrecv (pm_net (sy_m y))) = (Some e, q)" "items q = es" using Cons by (rule pull_some)
  have sy: "client_sync ms (p (ev_id e)) (ev_id e) (sync_of y (ev_id e))" using assms by (simp add: sys_inv_def)
  have "e \<in> set (sv_up (sync_of y (ev_id e)))" using Cons by (simp add: sync_of_def own_def)
  then have t: "ev_type e = NET_EV_INCREMENT_REQ" using client_sync_up [OF sy] by blast
  obtain m where m: "push_event_to_work E e ((sy_m y)\<lparr>pm_net := (pm_net (sy_m y))\<lparr>qrecv := q\<rparr>\<rparr>) = Some (0, m)" "sys_inv ms p (y\<lparr>sy_m := m\<rparr>)"
    "\<forall>j. load ms (y\<lparr>sy_m := m\<rparr>) j < load ms y j"
    using dispatch_known [OF assms Cons q(2) _ t] dispatch_new [OF assms Cons q(2) _ t] by (cases "lookup (pm_hash (sy_m y)) (ev_id e)") blast+
  have "pole_do E Act_Dispatch y = Some (y\<lparr>sy_m := m\<rparr>)"
    using q(1) m(1) t by (simp add: event_dispenser_def recv_evt_def) (simp add: net_codes)
  moreover have "running (y\<lparr>sy_m := m\<rparr>) = running y" by (simp add: running_def fun_eq_iff)
  ultimately show ?thesis using m(2,3) by blast
qed

text \<open>All actions.\<close>

lemma act_any:
  assumes "sys_inv ms p y" "pole_act_ok c" "length ms + length (pole_input [c]) \<le> limit"
  shows "\<exists>y'. pole_do E c y = Some y' \<and> sys_inv (ms @ pole_input [c]) p y'"
proof (cases "\<exists>d. c = Act_Data d")
  case True
  then obtain d where "c = Act_Data d" by blast
  then show ?thesis using act_data [OF assms(1), of d] assms(2,3) by (simp add: pole_input_def del: pole_do.simps)
next
  case False
  then have "pole_input [c] = []" by (cases c) (simp_all add: pole_input_def)
  moreover have "\<exists>y'. pole_do E c y = Some y' \<and> sys_inv ms p y'"
  proof (cases c)
    case (Act_Start i)
    then show ?thesis using act_start [OF assms(1), of i] assms(2) by (simp del: pole_do.simps)
  next
    case Act_Dispatch
    then show ?thesis using act_dispatch [OF assms(1)] by blast
  next
    case (Act_Work a)
    then show ?thesis using act_work [OF assms(1), of a] by blast
  next
    case Act_Server_Out
    then show ?thesis using act_server_out [OF assms(1)] by blast
  next
    case (Act_Server_In i)
    then show ?thesis using act_server_in [OF assms(1), of i] by blast
  next
    case (Act_Client i w)
    then show ?thesis using act_client [OF assms(1), of w i] assms(2) by auto
  next
    case (Act_Client_Out i)
    then show ?thesis using act_client_out [OF assms(1), of i] by blast
  next
    case (Act_Client_In i)
    then show ?thesis using act_client_in [OF assms(1), of i] by blast
  qed (use False in blast)
  ultimately show ?thesis by simp
qed

lemma run_inv:
  assumes "sys_inv ms p y" "list_all pole_act_ok cs" "length ms + length (pole_input cs) \<le> limit"
  shows "\<exists>y'. pole_run E cs y = Some y' \<and> sys_inv (ms @ pole_input cs) p y'"
  using assms
proof (induction cs arbitrary: ms y)
  case Nil
  then show ?case by (simp add: pole_input_def)
next
  case (Cons c cs)
  have i: "pole_input (c # cs) = pole_input [c] @ pole_input cs" by (simp add: pole_input_def)
  obtain y1 where y1: "pole_do E c y = Some y1" "sys_inv (ms @ pole_input [c]) p y1"
    using act_any [of ms p y c] Cons.prems unfolding i by auto
  show ?case using Cons.IH [OF y1(2)] Cons.prems(2,3) y1(1) unfolding i by simp
qed

lemma boot_inv:
  assumes "keeps ms x" "lookup h = Map.empty" "\<And>i. p i = pos_of (map_option snd (cons_pos x i))" "\<And>i. 1 \<le> p i \<and> p i \<le> length ms + 1"
  shows "sys_inv ms p (pole_boot E x h)"
proof -
  have "sync_of (pole_boot E x h) i = \<lparr>sv_pos = map_option snd (cons_pos x i), sv_srv = None, sv_up = [], sv_down = [], sv_slave = None\<rparr>" for i
    by (simp add: sync_of_def pole_boot_def srv_queue_def srv_client_def own_def evt_ctx_init_def items_init assms(2))
  then have "client_sync ms (p i) i (sync_of (pole_boot E x h) i)" for i using cs_idle assms(3) [of i] by simp
  moreover have "server_ok ms (sy_m (pole_boot E x h))"
    using assms(1,2) by (simp add: server_ok_def pole_boot_def evt_ctx_init_def items_init)
  moreover have "links_ok (pole_boot E x h)" by (simp add: links_ok_def pole_boot_def)
  ultimately show ?thesis using assms(4) by (simp add: sys_inv_def)
qed

lemma inv_file:
  assumes "sys_inv ms p y" "sy_s y i = Some (go, s)"
  shows "\<exists>n w. n \<le> length ms + 1 - p i \<and> (go \<longrightarrow> w = 0) \<and>
    fp_data (ps_busi s) = concat (take n (drop (p i - 1) ms)) @ take w (concat (take 1 (drop n (drop (p i - 1) ms)))) \<and>
    (\<forall>b. lxq_get_consumer (pm_xmq (sy_m y)) i = Some b \<longrightarrow> (\<exists>q. lxq_fetch_position (pm_xmq (sy_m y)) b = Some q \<and> p i \<le> q \<and> q \<le> p i + n))"
proof -
  have h: "client_sync ms (p i) i (sync_of y i)" "1 \<le> p i" "p i \<le> length ms + 1" "keeps ms (pm_xmq (sy_m y))"
    using assms(1) by (simp_all add: sys_inv_def server_ok_def)
  have v: "sv_slave (sync_of y i) = Some (go, ps_busi s, last_type s, last_seq s)" "sv_pos (sync_of y i) = map_option snd (cons_pos (pm_xmq (sy_m y)) i)"
    using assms(2) by (simp_all add: sync_of_def)
  obtain c w where c: "ps_busi s = busi_at (written ms (p i) c @ take w (ms ! (c - 1)))" "p i \<le> c" "c \<le> length ms + 1"
      "go \<or> length ms < c \<longrightarrow> w = 0" "\<forall>F. sv_pos (sync_of y i) = Some F \<longrightarrow> p i \<le> F \<and> F \<le> c"
    using client_sync_file [OF h(1,3) v(1)] by blast
  have "\<exists>q. lxq_fetch_position (pm_xmq (sy_m y)) b = Some q \<and> p i \<le> q \<and> q \<le> c" if b: "lxq_get_consumer (pm_xmq (sy_m y)) i = Some b" for b
  proof -
    obtain F where F: "cons_pos (pm_xmq (sy_m y)) i = Some (b, F)" using b get [OF h(4), of i] by auto
    then show ?thesis using at [OF h(4) F] c(5) v(2) by (auto simp: lxq_fetch_position_def)
  qed
  moreover have "take w (ms ! (c - 1)) = take w (concat (take 1 (drop (c - p i) (drop (p i - 1) ms))))"
  proof (cases "length ms < c")
    case False
    then have "drop (c - 1) ms = ms ! (c - 1) # drop c ms" using h(2) c(2) Cons_nth_drop_Suc [of "c - 1" ms] by simp
    moreover have "c - p i + (p i - 1) = c - 1" using h(2) c(2) by simp
    ultimately show ?thesis by (simp add: drop_drop)
  qed (use c(4) in simp)
  ultimately show ?thesis using c(1-4) written_take [OF h(2) c(2,3)] by (intro exI [of _ "c - p i"] exI [of _ w]) (auto simp: busi_at_def)
qed

text \<open>A running client whose file is not complete: some action gets its events on.\<close>

lemma quiet_waits:
  assumes "client_sync ms q i v" "sv_up v = []" "sv_down v = []" "sv_slave v = Some (True, b, t, l)"
  obtains F Q where "sv_pos v = Some F" "sv_srv v = Some (EVT_STATE_WAIT, 0, Q)" "b = busi_at (written ms q F)" "q \<le> F" "F \<le> length ms + 1"
  using assms(1)
proof (cases rule: client_sync.cases)
  case (cs_work F c k l t)
  have "F = c" using cs_work(1,3) assms(2) by (cases "F < c") (simp_all add: acks_next)
  moreover have "c = F + k" using cs_work(1,4) assms(3) by (cases "c < F + k") (simp_all add: answers_next)
  ultimately show ?thesis using cs_work(6) by simp
next
  case (cs_wait F n l t)
  then show ?thesis using that assms(4) by simp
qed (use assms(2,4) in simp_all)

lemma getting_on:
  assumes "sys_inv ms p y" "sy_s y i = Some (True, s)" "fp_data (ps_busi s) \<noteq> written ms (p i) (length ms + 1)"
  shows "\<exists>c y'. (\<forall>d. c \<noteq> Act_Data d) \<and> (\<forall>j w. c = Act_Client j w \<longrightarrow> w = Written) \<and> pole_act_ok c \<and> pole_do E c y = Some y' \<and> sys_inv ms p y' \<and> running y' i \<and> load ms y' i < load ms y i"
proof -
  have ru: "running y i" using assms(2) by (simp add: running_def)
  have h: "server_ok ms (sy_m y)" "client_sync ms (p i) i (sync_of y i)" using assms(1) by (simp_all add: sys_inv_def)
  consider "items (qsend (pm_net (sy_m y))) \<noteq> []" | "items (qrecv (pm_net (sy_m y))) \<noteq> []" | "sy_down y i \<noteq> []" | "sy_up y i \<noteq> []" |
    "items (qrecv (ps_net s)) \<noteq> []" | "items (qsend (ps_net s)) \<noteq> []" | "srv_queue (sy_m y) i \<noteq> []" |
    "items (qsend (pm_net (sy_m y))) = []" "items (qrecv (pm_net (sy_m y))) = []" "sy_down y i = []" "sy_up y i = []" "items (qrecv (ps_net s)) = []"
    "items (qsend (ps_net s)) = []" "srv_queue (sy_m y) i = []" by blast
  then show ?thesis
  proof cases
    case 1
    then show ?thesis using act_server_out [OF assms(1)] ru by (intro exI [of _ Act_Server_Out]) (auto simp del: pole_do.simps)
  next
    case 2
    then show ?thesis using act_dispatch [OF assms(1)] ru by (intro exI [of _ Act_Dispatch]) (auto simp del: pole_do.simps)
  next
    case 3
    then show ?thesis using act_client_in [OF assms(1), of i] ru assms(2) by (intro exI [of _ "Act_Client_In i"]) (auto simp del: pole_do.simps)
  next
    case 4
    then show ?thesis using act_server_in [OF assms(1), of i] ru by (intro exI [of _ "Act_Server_In i"]) (auto simp del: pole_do.simps)
  next
    case 5
    then show ?thesis using act_client [OF assms(1), of Written i] ru assms(2) by (intro exI [of _ "Act_Client i Written"]) (auto simp del: pole_do.simps)
  next
    case 6
    then show ?thesis using act_client_out [OF assms(1), of i] ru assms(2) by (intro exI [of _ "Act_Client_Out i"]) (auto simp del: pole_do.simps)
  next
    case 7
    then obtain c where c: "srv_client (sy_m y) i = Some c" "items (qevts c) \<noteq> []" by (auto simp: srv_queue_def split: option.splits)
    then obtain a where a: "lookup (pm_hash (sy_m y)) i = Some a" "pm_clients (sy_m y) a = Some c" by (auto simp: srv_client_def bind_eq_Some_conv)
    have "ci_id c = i" using server_ok_uniq [OF h(1) a(2), of i] a(1) by simp
    moreover have "busy ms i (work_of (sy_m y) c)" using c(2) by (simp add: busy_def work_of_def)
    ultimately show ?thesis using act_work [OF assms(1), of a] a(2) ru by (intro exI [of _ "Act_Work a"]) (auto simp del: pole_do.simps)
  next
    case 8
    have v: "sv_up (sync_of y i) = []" "sv_down (sync_of y i) = []" "sv_slave (sync_of y i) = Some (True, ps_busi s, last_type s, last_seq s)"
      using 8 assms(2) by (simp_all add: sync_of_def own_def)
    obtain F Q where F: "sv_pos (sync_of y i) = Some F" "sv_srv (sync_of y i) = Some (EVT_STATE_WAIT, 0, Q)" "ps_busi s = busi_at (written ms (p i) F)" "F \<le> length ms + 1"
      by (rule quiet_waits [OF h(2) v])
    have "F \<noteq> length ms + 1" using F(3) assms(3) by (auto simp: busi_at_def)
    then have le: "F \<le> length ms" using F(4) by simp
    obtain c where c: "srv_client (sy_m y) i = Some c" "ci_phase c = EVT_STATE_WAIT" using F(2) by (auto simp: sync_of_def)
    then obtain a where a: "lookup (pm_hash (sy_m y)) i = Some a" "pm_clients (sy_m y) a = Some c" by (auto simp: srv_client_def bind_eq_Some_conv)
    have "ci_id c = i" using server_ok_uniq [OF h(1) a(2), of i] a(1) by simp
    moreover have "busy ms i (work_of (sy_m y) c)" using c(2) F(1) le by (auto simp: busy_def work_of_def sync_of_def pos_of_def)
    ultimately show ?thesis using act_work [OF assms(1), of a] a(2) ru by (intro exI [of _ "Act_Work a"]) (auto simp del: pole_do.simps)
  qed
qed

lemma catches_up:
  assumes "sys_inv ms p y" "running y i"
  shows "\<exists>cs y' s. list_all pole_act_ok cs \<and> pole_input cs = [] \<and> (\<forall>j w. Act_Client j w \<in> set cs \<longrightarrow> w = Written) \<and> pole_run E cs y = Some y' \<and> sy_s y' i = Some (True, s) \<and>
    fp_data (ps_busi s) = written ms (p i) (length ms + 1)"
  using assms
proof (induction "load ms y i" arbitrary: y rule: less_induct)
  case less
  obtain s where s: "sy_s y i = Some (True, s)" using less.prems(2) by (auto simp: running_def)
  show ?case
  proof (cases "fp_data (ps_busi s) = written ms (p i) (length ms + 1)")
    case True
    then show ?thesis using s by (intro exI [of _ "[]"] exI [of _ y] exI [of _ s]) (simp add: pole_input_def)
  next
    case False
    obtain c y1 where c: "\<forall>d. c \<noteq> Act_Data d" "\<forall>j w. c = Act_Client j w \<longrightarrow> w = Written" "pole_act_ok c" "pole_do E c y = Some y1" "sys_inv ms p y1" "running y1 i" "load ms y1 i < load ms y i"
      using getting_on [OF less.prems(1) s False] by blast
    obtain cs y' s' where r: "list_all pole_act_ok cs" "pole_input cs = []" "\<forall>j w. Act_Client j w \<in> set cs \<longrightarrow> w = Written" "pole_run E cs y1 = Some y'" "sy_s y' i = Some (True, s')"
      "fp_data (ps_busi s') = written ms (p i) (length ms + 1)" using less.hyps [OF c(7,5,6)] by blast
    have "pole_input (c # cs) = []" using r(2) c(1) by (cases c) (simp_all add: pole_input_def)
    then show ?thesis using c r by (intro exI [of _ "c # cs"] exI [of _ y'] exI [of _ s']) (auto simp del: pole_do.simps)
  qed
qed

end

text \<open>Over LevelDB, and the executable instance.\<close>

lemma pole_system_of:
  assumes "leveldb_dir L path_of files" "qlist_fifo Q items" "hash_map H lookup"
  shows "pole_system \<lparr>pe_ops = pole_ops L, pe_queues = Q, pe_hash = H, pe_threads = n\<rparr> (log_keeps path_of files path R) (2 ^ 64 - R - 2) items lookup"
  using pole_sync_store [OF assms(1)] assms(2,3) by (simp add: pole_system_def)

interpretation mem_pole: pole_system "\<lparr>pe_ops = pole_ops mem_dirs, pe_queues = list_qlist, pe_hash = fun_hash, pe_threads = n\<rparr>"
  "log_keeps (\<lambda>d. d) (\<lambda>w. w) path R" "2 ^ 64 - R - 2" "\<lambda>q. q" "\<lambda>m. m" for n path R
  by (rule pole_system_of [OF mem_dir.leveldb_dir_axioms list_queue.qlist_fifo_axioms fun_map.hash_map_axioms])

end
