(* ===== verification/Pole_Correct.thy ===== *)
theory Pole_Correct
  imports Pole_Sync
begin

text \<open>
  Properties of pole-M and pole-S together: clients are kept in step with the message sequence under every order of
  actions, a dump hands the position of one client to another, and two ways in which a client
  ends the server.
\<close>

section \<open>Increments\<close>

text \<open>A message sequence that holds the data \<open>ms\<close>, with consumers at the positions \<open>cs\<close>; a consumer that is not there starts at 1.\<close>

definition sequence_is :: "('h \<Rightarrow> bytes) \<Rightarrow> ('w \<Rightarrow> bytes \<Rightarrow> bytes \<Rightarrow> bytes option) \<Rightarrow> bytes \<Rightarrow> nat \<Rightarrow> bytes list \<Rightarrow> (bytes \<times> nat) list \<Rightarrow> ('w, 'h) lxq_ctx \<Rightarrow> bool" where
  "sequence_is path_of files path R ms cs x \<longleftrightarrow> 2 \<le> R \<and> length ms + R + 1 < 2 ^ 64 \<and> list_all data_ok ms \<and> list_all (\<lambda>(n, q). 1 \<le> q \<and> q \<le> length ms + 1) cs \<and>
     (\<exists>ps. lxq_is path_of files path R \<lparr>sp_msgs = map data_msg ms, sp_prods = ps, sp_cons = cs\<rparr> x)"

definition start_at :: "(bytes \<times> nat) list \<Rightarrow> bytes \<Rightarrow> nat" where
  "start_at cs i = (case map_of cs i of None \<Rightarrow> 1 | Some q \<Rightarrow> q)"

lemma sequence_positions:
  assumes "lxq_store ops path_of files" "sequence_is path_of files path R ms cs x"
  shows "log_keeps path_of files path R ms x" "pos_of (map_option snd (cons_pos x i)) = start_at cs i" "1 \<le> start_at cs i" "start_at cs i \<le> length ms + 1"
proof -
  obtain ps where a: "lxq_is path_of files path R \<lparr>sp_msgs = map data_msg ms, sp_prods = ps, sp_cons = cs\<rparr> x" using assms(2) by (auto simp: sequence_is_def)
  show "log_keeps path_of files path R ms x" using assms(2) by (auto simp: sequence_is_def log_keeps_def list_all_iff)
  have "map_option snd (cons_pos x i) = map_of cs i"
    using lxq_store.cons_pos_of [OF assms(1) a, of i] lxq_store.addrs_names [OF assms(1) a, of i] by (cases "map_of cs i") (auto split: option.splits)
  then show "pos_of (map_option snd (cons_pos x i)) = start_at cs i" by (simp add: pos_of_def start_at_def)
  have "1 \<le> q \<and> q \<le> length ms + 1" if "map_of cs i = Some q" for q
    using map_of_SomeD [OF that] assms(2) by (auto simp: sequence_is_def list_all_iff)
  then show "1 \<le> start_at cs i" "start_at cs i \<le> length ms + 1" by (auto simp: start_at_def split: option.split)
qed



text \<open>A log of two messages and two clients, for the examples.\<close>

definition demo_env :: "(bytes \<Rightarrow> bytes \<Rightarrow> bytes option, bytes, evt list, bytes \<Rightarrow> nat option) pole_env" where
  "demo_env = \<lparr>pe_ops = pole_ops mem_dirs, pe_queues = list_qlist, pe_hash = fun_hash, pe_threads = 4\<rparr>"


lemma demo_sequence: "\<exists>x. sequence_is (\<lambda>h. h) (\<lambda>w. w) [0x2E] 2 [] [([0x63], 1)] (x :: (bytes \<Rightarrow> bytes \<Rightarrow> bytes option, bytes) lxq_ctx)"
  using demo_log_open by (auto simp: sequence_is_def demo_log_def)

lemma demo_consumer:
  "\<exists>x n. sequence_is (\<lambda>h. h) (\<lambda>w. w) [0x2E] 2 [] [([0x63], 1)] (x :: (bytes \<Rightarrow> bytes \<Rightarrow> bytes option, bytes) lxq_ctx) \<and> lxq_get_consumer x [0x63] = Some n"
proof -
  note st = pole_store [OF mem_dir.leveldb_dir_axioms]
  obtain x :: "(bytes \<Rightarrow> bytes \<Rightarrow> bytes option, bytes) lxq_ctx" where x: "sequence_is (\<lambda>h. h) (\<lambda>w. w) [0x2E] 2 [] [([0x63], 1)] x" using demo_sequence by blast
  obtain ps where a: "lxq_is (\<lambda>h. h) (\<lambda>w. w) [0x2E] 2 \<lparr>sp_msgs = [], sp_prods = ps, sp_cons = [([0x63], 1)]\<rparr> x" using x by (auto simp: sequence_is_def)
  have "lxq_get_consumer x [0x63] \<noteq> None"
    using mem_log.get [OF sequence_positions(1) [OF st x], of "[0x63]"] lxq_store.cons_pos_of [OF st a, of "[0x63]"] lxq_store.addrs_names [OF st a, of "[0x63]"]
    by (auto split: option.splits)
  then show ?thesis using x by blast
qed




context pole_system
begin

lemma ahead_batch:
  assumes "W < q" "q + 10 \<le> 2 ^ 64"
  shows "batch_size W q = 10"
proof -
  have "unat (of_nat W - of_nat q :: u64) = 2 ^ 64 - (q - W)"
    using assms unat_u64 [of W] unat_u64 [of q] by (simp add: unat_sub_if')
  then show ?thesis using assms by (simp add: batch_size_def MAX_SYNC_STEP_def)
qed

lemma ahead_aborts:
  assumes "keeps ms x" "lxq_get_consumer x i = Some b" "ci_consumer c = Some b" "ci_phase c = EVT_STATE_INCR"
    and "items (qevts c) = [req_evt i NET_EV_NONE q]" "length ms + 1 < q" "q + 10 \<le> 2 ^ 64"
  shows "\<exists>k. task_round E \<lparr>wk_xmq = x, wk_net = net, wk_client = c\<rparr> = Some (True, k) \<and> task_round E k = None"
proof -
  obtain F where F: "cons_pos x i = Some (b, F)" using assms(1,2) get [OF assms(1), of i] by auto
  have q: "q < 2 ^ 64" "q \<noteq> 0" "1 \<le> q" using assms(6,7) by simp_all
  obtain y where y: "lxq_update_that (pe_ops E) b q x = Some (0, y)" "keeps ms y" "cons_pos y = (cons_pos x)(i \<mapsto> (b, q))"
    using update [OF assms(1) F q(1)] by blast
  obtain u where u: "ql_pull (pe_queues E) (qevts c) = (Some (req_evt i NET_EV_NONE q), u)" using assms(5) by (rule pull_some)
  define c1 where "c1 = client_info_init (pe_queues E) (c\<lparr>qevts := u\<rparr>)"
  define k1 where "k1 = \<lparr>wk_xmq = y, wk_net = net, wk_client = c1\<rparr>"
  have con: "ci_consumer c1 = Some b" "ci_waits c1 = 0" "items (qincr c1) = []" "items (qevts c1) = []" "items (qdump c1) = []"
    using assms(3) by (simp_all add: c1_def client_info_init_def items_init)
  have pos: "cons_pos y i = Some (b, q)" using y(3) by simp
  obtain d where d: "consumer_at y b = Some d" "last_fetch_seq d = q" using at [OF y(2) pos] by blast
  have w: "last_write_db_seq y = length ms + 1" by (rule write_seq [OF y(2)])
  obtain u1 where u1: "push_batch (pe_queues E) (req_evt i NET_EV_NONE q) q 10 0 (qincr c1) = Some u1" "items u1 = map (\<lambda>j. rep_evt i j []) [q..<q + 10]"
    using batch_items [of q 0 10 i NET_EV_NONE q "qincr c1"] assms(7) con(3) by auto
  have a: "incr_accept E (req_evt i NET_EV_NONE q) \<lparr>wk_xmq = x, wk_net = net, wk_client = c\<lparr>qevts := u\<rparr>\<rparr> = Some (Inr (req_evt i NET_EV_NONE q), k1)"
    using q(2) y(1) d con(1) by (simp add: incr_accept_def set_position_def the_consumer_def c1_def [symmetric] k1_def req_copies)
  define k2 where "k2 = k1\<lparr>wk_client := c1\<lparr>qincr := u1, ci_phase := EVT_STATE_WAIT\<rparr>\<rparr>"
  have "do_incr_rep_task E \<lparr>wk_xmq = x, wk_net = net, wk_client = c\<rparr> = Some (EVT_STATE_WAIT, k1\<lparr>wk_client := c1\<lparr>qincr := u1\<rparr>\<rparr>)"
    using u a con(1,2) d w u1(1) ahead_batch [OF assms(6,7)] by (simp add: do_incr_rep_task_def the_consumer_def k1_def)
  then have r1: "task_round E \<lparr>wk_xmq = x, wk_net = net, wk_client = c\<rparr> = Some (True, k2)"
    using rep_round [of "\<lparr>wk_xmq = x, wk_net = net, wk_client = c\<rparr>"] assms(4,5) by (simp add: to_phase_def k2_def k1_def)
  obtain z where z: "lxq_pull_that (pe_ops E) q y = Some (None, z)" using pull [OF y(2) q(3,1)] assms(6) by auto
  have i2: "items (qincr (wk_client k2)) = rep_evt i q [] # map (\<lambda>j. rep_evt i j []) [Suc q..<q + 10]"
    using u1(2) by (simp add: k2_def upt_conv_Cons)
  obtain u2 where u2: "ql_pull (pe_queues E) (qincr (wk_client k2)) = (Some (rep_evt i q []), u2)" using i2 by (rule pull_some)
  have v: "ql_view (pe_queues E) (qincr (wk_client k2)) = 10" using i2 by (simp add: view_length)
  have "do_incr_req_task E k2 = None"
    using v u2 z con(1) d(1) by (simp add: do_incr_req_task_def numeral_eq_Suc the_consumer_def k2_def k1_def)
  then have "task_round E k2 = None"
    using req_round [of k2] con(4,5) i2 by (simp add: k2_def k1_def to_phase_def)
  then show ?thesis using r1 by blast
qed

end

text \<open>C35: A client that starts with a position beyond the last message brings the server down: the distance to the
  write position is computed without sign, so a batch of ten is prepared, and the first pull that finds no message
  meets an assertion that the batch had one element.\<close>

theorem pole_ahead_request_aborts:
  assumes "leveldb_dir L path_of files" "qlist_fifo Q items" "hash_map H lookup" "sequence_is path_of files path R ms cs x" "lxq_get_consumer x i = Some b"
    and "ci_consumer c = Some b" "ci_phase c = EVT_STATE_INCR" "items (qevts c) = [evt_wire (first_request i q)]" "length ms + 1 < q" "q + 10 \<le> 2 ^ 64"
    and "E = \<lparr>pe_ops = pole_ops L, pe_queues = Q, pe_hash = H, pe_threads = n\<rparr>"
  shows "\<exists>k. task_round E \<lparr>wk_xmq = x, wk_net = net, wk_client = c\<rparr> = Some (True, k) \<and> task_round E k = None"
proof -
  have ps: "pole_system E (log_keeps path_of files path R) (2 ^ 64 - R - 2) items lookup"
    unfolding assms(11) by (rule pole_system_of [OF assms(1-3)])
  have q: "items (qevts c) = [req_evt i NET_EV_NONE q]" using assms(8) first_request_evt(1) by simp
  show ?thesis
    by (rule pole_system.ahead_aborts [OF ps sequence_positions(1) [OF pole_store [OF assms(1)] assms(4)] assms(5-7) q assms(9,10)])
qed

theorem pole_ahead_request_aborts_witness:
  "\<exists>(x :: (bytes \<Rightarrow> bytes \<Rightarrow> bytes option, bytes) lxq_ctx) b k. task_round demo_env
      \<lparr>wk_xmq = x, wk_net = evt_ctx_init list_qlist SOCK_SERVER, wk_client = (client_info_create list_qlist [0x63])\<lparr>ci_consumer := Some b, qevts := [evt_wire (first_request [0x63] 5)]\<rparr>\<rparr> = Some (True, k) \<and>
    task_round demo_env k = None"
proof -
  obtain x :: "(bytes \<Rightarrow> bytes \<Rightarrow> bytes option, bytes) lxq_ctx" and b where x: "sequence_is (\<lambda>h. h) (\<lambda>w. w) [0x2E] 2 [] [([0x63], 1)] x" "lxq_get_consumer x [0x63] = Some b"
    using demo_consumer by blast
  define c where "c = (client_info_create list_qlist [0x63])\<lparr>ci_consumer := Some b, qevts := [evt_wire (first_request [0x63] 5)]\<rparr>"
  have c: "ci_consumer c = Some b" "ci_phase c = EVT_STATE_INCR" "qevts c = [evt_wire (first_request [0x63] 5)]" by (simp_all add: c_def client_info_create_def)
  show ?thesis
    using pole_ahead_request_aborts [OF mem_dir.leveldb_dir_axioms list_queue.qlist_fifo_axioms fun_map.hash_map_axioms x c _ _ demo_env_def, of "evt_ctx_init list_qlist SOCK_SERVER"]
    unfolding c_def by (intro exI [of _ x] exI [of _ b]) simp
qed


section \<open>Restarted clients\<close>

context pole_system
begin

lemma late_ack:
  assumes "ci_phase (wk_client k) = EVT_STATE_WAIT" "items (qevts (wk_client k)) = [req_evt i NET_EV_SUCC q]"
  shows "task_round E k = None"
proof -
  obtain u where "ql_pull (pe_queues E) (qevts (wk_client k)) = (Some (req_evt i NET_EV_SUCC q), u)" using assms(2) by (rule pull_some)
  then show ?thesis using assms by (simp add: task_round_def view_length do_incr_chk_task_def to_phase_def net_codes)
qed

lemma restart_aborts:
  assumes "serves ms i F \<lparr>wk_xmq = x, wk_net = net, wk_client = c\<rparr>" "ci_phase c = EVT_STATE_INCR" "items (qevts c) = [req_evt i NET_EV_NONE 0]"
  shows "\<exists>k. task_round E \<lparr>wk_xmq = x, wk_net = net, wk_client = c\<rparr> = Some (True, k) \<and>
    task_round E (k\<lparr>wk_client := (wk_client k)\<lparr>qevts := ql_push (pe_queues E) (qevts (wk_client k)) (req_evt i NET_EV_SUCC q)\<rparr>\<rparr>) = None"
proof -
  obtain k' where k': "do_incr_rep_task E \<lparr>wk_xmq = x, wk_net = net, wk_client = c\<rparr> = Some (EVT_STATE_WAIT, k')" "items (qevts (wk_client k')) = []"
    using rep_first [OF assms(1)] assms(3) by auto
  have "task_round E \<lparr>wk_xmq = x, wk_net = net, wk_client = c\<rparr> = Some (True, k'\<lparr>wk_client := (wk_client k')\<lparr>ci_phase := EVT_STATE_WAIT\<rparr>\<rparr>)"
    using rep_round [of "\<lparr>wk_xmq = x, wk_net = net, wk_client = c\<rparr>"] assms(2,3) k'(1) by (simp add: to_phase_def)
  moreover have "task_round E (k'\<lparr>wk_client := (wk_client k')\<lparr>ci_phase := EVT_STATE_WAIT, qevts := ql_push (pe_queues E) (qevts (wk_client k')) (req_evt i NET_EV_SUCC q)\<rparr>\<rparr>) = None"
    by (rule late_ack [of _ i q]) (simp_all add: items_push k'(2))
  ultimately show ?thesis by auto
qed

end

text \<open>A client that is restarted while an answer to it is on its way can bring the server down: the worker starts anew with the
  first request of the restarted client and waits; the client, which does not know its position, writes the old answer to its file
  and acknowledges it; and when this acknowledgement is there before the worker has sent anything, the worker meets an assertion
  that only a restart can come now.\<close>

lemma pole_restart_aborts:
  assumes "leveldb_dir L path_of files" "qlist_fifo Q items" "hash_map H lookup" "sequence_is path_of files path R ms cs x" "lxq_get_consumer x i = Some b"
    and "ci_id c = i" "ci_consumer c = Some b" "ci_phase c = EVT_STATE_INCR" "items (qdump c) = []" "items (qevts c) = [evt_wire (first_request i 0)]"
    and "pole_s_start Q True i 0 = Some s" "1 \<le> q" "q + 1 < 2 ^ 64" "d \<noteq> []" "E = \<lparr>pe_ops = pole_ops L, pe_queues = Q, pe_hash = H, pe_threads = n\<rparr>"
  shows "\<exists>k s' a. task_round E \<lparr>wk_xmq = x, wk_net = net, wk_client = c\<rparr> = Some (True, k) \<and>
    handle_evt Q Written (rep_evt i q d) s = Some (True, s') \<and> fp_data (ps_busi s') = d \<and> qsend (ps_net s') = ql_push Q (qsend (ps_net s)) a \<and>
    task_round E (k\<lparr>wk_client := (wk_client k)\<lparr>qevts := ql_push Q (qevts (wk_client k)) (evt_wire a)\<rparr>\<rparr>) = None"
proof -
  have ps: "pole_system E (log_keeps path_of files path R) (2 ^ 64 - R - 2) items lookup"
    unfolding assms(15) by (rule pole_system_of [OF assms(1-3)])
  note kp = sequence_positions [OF pole_store [OF assms(1)] assms(4)]
  have "map_option fst (cons_pos x i) = Some b" using pole_system.axioms(1) [OF ps, THEN sync_store.get, OF kp(1), of i] assms(5) by simp
  then obtain F where F: "cons_pos x i = Some (b, F)" by auto
  have "1 \<le> F" "F \<le> length ms + 1" using kp(2) [of i] kp(3,4) [of i] F by (simp_all add: pos_of_def)
  then have sv: "pole_system.serves (log_keeps path_of files path R) items ms i F \<lparr>wk_xmq = x, wk_net = net, wk_client = c\<rparr>"
    using kp(1) F assms(6,7,9) by (simp add: pole_system.serves_def [OF ps])
  have r: "items (qevts c) = [req_evt i NET_EV_NONE 0]" using assms(10) first_request_evt(1) by simp
  obtain k where k: "task_round E \<lparr>wk_xmq = x, wk_net = net, wk_client = c\<rparr> = Some (True, k)"
    "task_round E (k\<lparr>wk_client := (wk_client k)\<lparr>qevts := ql_push (pe_queues E) (qevts (wk_client k)) (req_evt i NET_EV_SUCC (q + 1))\<rparr>\<rparr>) = None"
    using pole_system.restart_aborts [OF ps sv assms(8) r, of "q + 1"] by blast
  obtain a where a: "answer_evt NET_EV_INCREMENT_REP NET_EV_SUCC (rep_evt i q d) = Some a" "evt_wire a = req_evt i NET_EV_SUCC (q + 1)"
    by (rule answer_rep [OF assms(13)])
  have s: "ps_busi s = busi_at []" "last_seq s = 0" "last_type s \<noteq> NET_EV_DUMP_REQ" using assms(11) start_state [of Q i 0] by (auto simp: net_codes)
  have bus: "do_business Written NET_EV_INCREMENT_REP d (ps_busi s) = Some (NET_EV_SUCC, busi_at d)"
    using assms(14) s(1) by (simp add: do_business_def net_codes BUSINESS_MAX_SIZE_def BUSI_INCR_def BUSI_DUMP_def busi_at_def w2file_done_def)
  define s' where "s' = s\<lparr>ps_net := (ps_net s)\<lparr>qsend := ql_push Q (qsend (ps_net s)) a\<rparr>, ps_busi := busi_at d,
    last_type := NET_EV_INCREMENT_REP, busi_state := NET_EV_SUCC, last_seq := q\<rparr>"
  have "handle_evt Q Written (rep_evt i q d) s = Some (True, s')"
    using s(2,3) assms(12) bus a(1) by (simp add: handle_evt_def send_evt_def s'_def)
  moreover have "fp_data (ps_busi s') = d" "qsend (ps_net s') = ql_push Q (qsend (ps_net s)) a" by (simp_all add: s'_def busi_at_def)
  moreover have "pe_queues E = Q" using assms(15) by simp
  ultimately show ?thesis using k a(2) by auto
qed

lemma pole_restart_aborts_witness:
  "\<exists>(x :: (bytes \<Rightarrow> bytes \<Rightarrow> bytes option, bytes) lxq_ctx) b k a. task_round demo_env
      \<lparr>wk_xmq = x, wk_net = evt_ctx_init list_qlist SOCK_SERVER,
       wk_client = (client_info_create list_qlist [0x63])\<lparr>ci_consumer := Some b, ci_waits := 1, qevts := [evt_wire (first_request [0x63] 0)]\<rparr>\<rparr> = Some (True, k) \<and>
    task_round demo_env (k\<lparr>wk_client := (wk_client k)\<lparr>qevts := ql_push list_qlist (qevts (wk_client k)) (evt_wire a)\<rparr>\<rparr>) = None"
proof -
  obtain x :: "(bytes \<Rightarrow> bytes \<Rightarrow> bytes option, bytes) lxq_ctx" and b where x: "sequence_is (\<lambda>h. h) (\<lambda>w. w) [0x2E] 2 [] [([0x63], 1)] x" "lxq_get_consumer x [0x63] = Some b"
    using demo_consumer by blast
  define c where "c = (client_info_create list_qlist [0x63])\<lparr>ci_consumer := Some b, ci_waits := 1, qevts := [evt_wire (first_request [0x63] 0)]\<rparr>"
  have c: "ci_id c = [0x63]" "ci_consumer c = Some b" "ci_phase c = EVT_STATE_INCR" "qdump c = []" "qevts c = [evt_wire (first_request [0x63] 0)]"
    by (simp_all add: c_def client_info_create_def list_qlist_def)
  have q: "(1::nat) \<le> 1" "(1::nat) + 1 < 2 ^ 64" "[7 :: byte] \<noteq> []" by simp_all
  show ?thesis
    using pole_restart_aborts [OF mem_dir.leveldb_dir_axioms list_queue.qlist_fifo_axioms fun_map.hash_map_axioms x c start_state q demo_env_def, of "evt_ctx_init list_qlist SOCK_SERVER"]
    unfolding c_def by blast
qed

section \<open>Writes that are lost\<close>

lemma increment_handled:
  assumes "ps_busi s = busi_at f" "last_seq s < q" "last_type s \<noteq> NET_EV_DUMP_REQ" "q + 1 < 2 ^ 64" "d \<noteq> []" "w = Written \<or> w = Flush_Fails n"
  shows "\<exists>s' a. handle_evt Q w (rep_evt i q d) s = Some (True, s') \<and> evt_wire a = req_evt i NET_EV_SUCC (q + 1) \<and>
    ps_net s' = (ps_net s)\<lparr>qsend := ql_push Q (qsend (ps_net s)) a\<rparr> \<and>
    ps_busi s' = busi_at (f @ (if w = Written then d else take n d)) \<and> last_seq s' = q \<and> last_type s' = NET_EV_INCREMENT_REP"
proof -
  obtain a where a: "answer_evt NET_EV_INCREMENT_REP NET_EV_SUCC (rep_evt i q d) = Some a" "evt_wire a = req_evt i NET_EV_SUCC (q + 1)"
    by (rule answer_rep [OF assms(4)])
  let ?b = "busi_at (f @ (if w = Written then d else take n d))"
  have "do_business w NET_EV_INCREMENT_REP d (ps_busi s) = Some (NET_EV_SUCC, ?b)"
    using assms(1,5,6) by (auto simp: do_business_def net_codes BUSINESS_MAX_SIZE_def BUSI_INCR_def BUSI_DUMP_def busi_at_def w2file_done_def)
  then have "handle_evt Q w (rep_evt i q d) s = Some (True, s\<lparr>ps_net := (ps_net s)\<lparr>qsend := ql_push Q (qsend (ps_net s)) a\<rparr>,
      ps_busi := ?b, last_type := NET_EV_INCREMENT_REP, busi_state := NET_EV_SUCC, last_seq := q\<rparr>)"
    using assms(2,3) a(1) by (simp add: handle_evt_def send_evt_def)
  then show ?thesis using a(2) by (intro exI [of _ "s\<lparr>ps_net := (ps_net s)\<lparr>qsend := ql_push Q (qsend (ps_net s)) a\<rparr>,
      ps_busi := ?b, last_type := NET_EV_INCREMENT_REP, busi_state := NET_EV_SUCC, last_seq := q\<rparr>"] exI [of _ a]) simp
qed

text \<open>C36: A write that is lost in \<^verbatim>\<open>fflush\<close> is acknowledged. When \<^verbatim>\<open>fwrite\<close> takes an increment into its buffer and the \<^verbatim>\<open>fflush\<close> behind it
  fails with only \<open>n\<close> of its bytes in the file, the client goes on and sends the server the same acknowledgement as after a
  successful write; the next increment is written right behind the \<open>n\<close> bytes, so the file has a hole that neither side knows of.\<close>

theorem pole_lost_flush_acknowledged:
  assumes "ps_busi s = busi_at f" "last_seq s < q" "last_type s \<noteq> NET_EV_DUMP_REQ" "q + 2 < 2 ^ 64" "d \<noteq> []" "d' \<noteq> []"
  shows "\<exists>s1 a s2 b. handle_evt Q (Flush_Fails n) (rep_evt i q d) s = Some (True, s1) \<and>
    qsend (ps_net s1) = ql_push Q (qsend (ps_net s)) a \<and> evt_wire a = req_evt i NET_EV_SUCC (q + 1) \<and>
    handle_evt Q Written (rep_evt i (q + 1) d') s1 = Some (True, s2) \<and>
    qsend (ps_net s2) = ql_push Q (ql_push Q (qsend (ps_net s)) a) b \<and> evt_wire b = req_evt i NET_EV_SUCC (q + 2) \<and>
    fp_data (ps_busi s2) = f @ take n d @ d'"
proof -
  obtain s1 a where s1: "handle_evt Q (Flush_Fails n) (rep_evt i q d) s = Some (True, s1)" "evt_wire a = req_evt i NET_EV_SUCC (q + 1)"
    "ps_net s1 = (ps_net s)\<lparr>qsend := ql_push Q (qsend (ps_net s)) a\<rparr>" "ps_busi s1 = busi_at (f @ take n d)" "last_seq s1 = q" "last_type s1 = NET_EV_INCREMENT_REP"
    using increment_handled [OF assms(1-3) _ assms(5), of "Flush_Fails n" n Q i] assms(4) by auto
  have t: "last_type s1 \<noteq> NET_EV_DUMP_REQ" "last_seq s1 < q + 1" "q + 1 + 1 < 2 ^ 64" using s1(5,6) assms(4) by (simp_all add: net_codes)
  obtain s2 b where s2: "handle_evt Q Written (rep_evt i (q + 1) d') s1 = Some (True, s2)" "evt_wire b = req_evt i NET_EV_SUCC (q + 1 + 1)"
    "ps_net s2 = (ps_net s1)\<lparr>qsend := ql_push Q (qsend (ps_net s1)) b\<rparr>" "ps_busi s2 = busi_at ((f @ take n d) @ d')"
    using increment_handled [OF s1(4) t(2,1,3) assms(6), of Written 0 Q i] by auto
  show ?thesis using s1(1-3) s2 by (intro exI [of _ s1] exI [of _ a] exI [of _ s2] exI [of _ b]) (simp add: busi_at_def)
qed

theorem pole_lost_flush_acknowledged_witness:
  "\<exists>(s :: evt list pole_s) s1 a s2. pole_s_start list_qlist True [0x61] 0 = Some s \<and>
    handle_evt list_qlist (Flush_Fails 1) (rep_evt [0x61] 1 [7, 7]) s = Some (True, s1) \<and>
    handle_evt list_qlist Written (rep_evt [0x61] 2 [8]) s1 = Some (True, s2) \<and>
    qsend (ps_net s1) = ql_push list_qlist (qsend (ps_net s)) a \<and> evt_wire a = req_evt [0x61] NET_EV_SUCC 2 \<and> fp_data (ps_busi s2) = [7, 8]"
proof -
  obtain s :: "evt list pole_s" where s: "pole_s_start list_qlist True [0x61] 0 = Some s" "ps_busi s = busi_at []" "last_seq s = 0" "last_type s = NET_EV_INCREMENT_REQ"
    using start_state [of list_qlist "[0x61]" 0] by auto
  have t: "last_seq s < 1" "last_type s \<noteq> NET_EV_DUMP_REQ" "(1 :: nat) + 2 < 2 ^ 64" "[7, 7 :: byte] \<noteq> []" "[8 :: byte] \<noteq> []" using s(3,4) by (simp_all add: net_codes)
  have e: "(1 :: nat) + 1 = 2" by simp
  note w = pole_lost_flush_acknowledged [OF s(2) t, of list_qlist 1 "[0x61]", unfolded e]
  then obtain s1 a s2 where "handle_evt list_qlist (Flush_Fails 1) (rep_evt [0x61] 1 [7, 7]) s = Some (True, s1)"
    "handle_evt list_qlist Written (rep_evt [0x61] 2 [8]) s1 = Some (True, s2)"
    "qsend (ps_net s1) = ql_push list_qlist (qsend (ps_net s)) a" "evt_wire a = req_evt [0x61] NET_EV_SUCC 2"
    "fp_data (ps_busi s2) = [] @ take 1 [7, 7] @ [8]" by blast
  then show ?thesis using s(1) by auto
qed

section \<open>Dumps\<close>

text \<open>An event whose body is the text \<open>d\<close>.\<close>

definition names_node :: "bytes \<Rightarrow> evt \<Rightarrow> bool" where
  "names_node d e \<longleftrightarrow> (\<exists>r. ev_data e = d @ 0 # r) \<and> length d + 1 \<le> ev_size e \<and> ev_size e \<le> length (ev_data e)"

lemma names_node_text: "names_node d e \<Longrightarrow> 0 \<notin> set d \<Longrightarrow> c_string (ev_data e) = Some d"
  by (auto simp: names_node_def c_string_def takeWhile_tail)

lemma names_node_wire:
  assumes "names_node d e"
  shows "names_node d (evt_wire e)"
proof -
  obtain r where r: "ev_data e = d @ 0 # r" "length d + 1 \<le> ev_size e" "ev_size e \<le> length (ev_data e)" using assms by (auto simp: names_node_def)
  then have "take (ev_size e) (ev_data e) = d @ 0 # take (ev_size e - length d - 1) r" by (cases "ev_size e - length d") auto
  then show ?thesis using r by (simp add: names_node_def evt_wire_def)
qed

lemma swap_names:
  assumes "names_node d e" "0 \<notin> set d" "length d < IDENTITY_SIZE"
  obtains e' where "swap_id e = Some e'" "ev_id e' = d" "names_node (ev_id e) e'" "ev_type e' = ev_type e" "ev_state e' = ev_state e"
proof (cases "length (ev_id e) \<le> length d")
  case True
  show ?thesis
  proof (rule that)
    show "swap_id e = Some (e\<lparr>ev_id := d, ev_data := ev_id e @ [0] @ drop (length (ev_id e) + 1) (ev_data e)\<rparr>)"
      using True names_node_text [OF assms(1,2)] assms(3) by (simp add: swap_id_def Let_def)
  qed (use assms(1) True in \<open>auto simp: names_node_def\<close>)
next
  case False
  show ?thesis
  proof (rule that)
    show "swap_id e = Some ((copy_head (evt_new_by_size (length (ev_id e) + 1)) (evt_head.truncate e))
        \<lparr>ev_id := d, ev_data := ev_id e @ [0], ev_size := length (ev_id e) + 1\<rparr>)"
      using False names_node_text [OF assms(1,2)] assms(3) by (simp add: swap_id_def Let_def)
  qed (auto simp: names_node_def copy_head_def evt_head.defs)
qed

context pole_system
begin

lemma dump_consumer_at:
  assumes "keeps ms x" "lxq_name a" "F < 2 ^ 64"
  obtains x1 n x2 where "dump_consumer (pe_ops E) a x = Some (n, x1)" "lxq_update_that (pe_ops E) n F x1 = Some (0, x2)" "keeps ms x2" "cons_pos x2 = (cons_pos x)(a \<mapsto> (n, F))"
proof (cases "cons_pos x a")
  case (Some r)
  obtain n p where r: "r = (n, p)" by fastforce
  obtain x2 where "lxq_update_that (pe_ops E) n F x = Some (0, x2)" "keeps ms x2" "cons_pos x2 = (cons_pos x)(a \<mapsto> (n, F))"
    using update [OF assms(1) Some [unfolded r] assms(3)] by blast
  then show ?thesis using that [of n x] Some r get [OF assms(1), of a] by (simp add: dump_consumer_def)
next
  case None
  obtain x1 n where x1: "lxq_register_consumer (pe_ops E) a x = Some (0, x1)" "keeps ms x1" "cons_pos x1 = (cons_pos x)(a \<mapsto> (n, 1))"
    using register [OF assms(1,2) None] by blast
  have p: "cons_pos x1 a = Some (n, 1)" using x1(3) by simp
  obtain x2 where "lxq_update_that (pe_ops E) n F x1 = Some (0, x2)" "keeps ms x2" "cons_pos x2 = (cons_pos x1)(a \<mapsto> (n, F))"
    using update [OF x1(2) p assms(3)] by blast
  then show ?thesis using that [of n x1] None x1 get [OF assms(1), of a] get [OF x1(2), of a] by (simp add: dump_consumer_def)
qed

text \<open>The worker of the node that is to dump sends it the request.\<close>

lemma dump_ask:
  assumes "ci_phase (wk_client k) = EVT_STATE_WAIT" "items (qevts (wk_client k)) = []" "items (qdump (wk_client k)) = [e]"
    and "ev_type e = NET_EV_DUMP_REQ" "ev_state e = NET_EV_NONE"
  obtains k1 where "task_round E k = Some (True, k1)" "wk_xmq k1 = wk_xmq k" "items (qsend (wk_net k1)) = items (qsend (wk_net k)) @ [e]"
    "ci_phase (wk_client k1) = EVT_STATE_DUMP" "ci_waits (wk_client k1) = ci_waits (wk_client k) + 1" "items (qdump (wk_client k1)) = []"
    "qevts (wk_client k1) = qevts (wk_client k)" "qincr (wk_client k1) = qincr (wk_client k)" "ci_consumer (wk_client k1) = ci_consumer (wk_client k)"
proof -
  obtain q where q: "ql_pull (pe_queues E) (qdump (wk_client k)) = (Some e, q)" "items q = []" using assms(3) by (rule pull_some)
  have "task_round E k = to_phase (do_dump_req_task E k)" using assms(1-3) by (simp add: task_round_def view_length)
  also have "\<dots> = Some (True, k\<lparr>wk_net := (wk_net k)\<lparr>qsend := ql_push (pe_queues E) (qsend (wk_net k)) e\<rparr>,
      wk_client := (wk_client k)\<lparr>qdump := q, ci_waits := ci_waits (wk_client k) + 1, ci_phase := EVT_STATE_DUMP\<rparr>\<rparr>)"
    using q(1) assms(4,5) by (simp add: do_dump_req_task_def send_to_def send_evt_def to_phase_def)
  finally show ?thesis by (rule that) (use q(2) in \<open>simp_all add: items_push\<close>)
qed

text \<open>The answer of that node goes to the one that asked, which gets its position.\<close>

lemma dump_relayed:
  assumes "keeps ms (wk_xmq k)" "lxq_name a" "cons_pos (wk_xmq k) b = Some (n, F)" "F < 2 ^ 64" "ci_consumer (wk_client k) = Some n"
    and "ci_phase (wk_client k) = EVT_STATE_DUMP" "items (qevts (wk_client k)) = []" "items (qdump (wk_client k)) = [e]" "ci_waits (wk_client k) = 1"
    and "names_node a e" "ev_type e = NET_EV_DUMP_REP" "ev_state e = NET_EV_SUCC"
  obtains k1 e' where "task_round E k = Some (True, k1)" "items (qsend (wk_net k1)) = items (qsend (wk_net k)) @ [e']"
    "ev_id e' = a" "names_node (ev_id e) e'" "ev_type e' = NET_EV_DUMP_REP" "ev_state e' = NET_EV_SUCC" "task_seq e' = F"
    "keeps ms (wk_xmq k1)" "\<exists>m. cons_pos (wk_xmq k1) = (cons_pos (wk_xmq k))(a \<mapsto> (m, F))"
    "ci_phase (wk_client k1) = EVT_STATE_WAIT" "ci_waits (wk_client k1) = 0" "qincr (wk_client k1) = qincr (wk_client k)"
proof -
  obtain q where q: "ql_pull (pe_queues E) (qdump (wk_client k)) = (Some e, q)" "items q = []" using assms(8) by (rule pull_some)
  obtain q2 where q2: "ql_pull (pe_queues E) q = (None, q2)" using q(2) by (rule pull_none)
  have z: "0 \<notin> set a" "length a < IDENTITY_SIZE" using assms(2) by (simp_all add: lxq_name_def XMQ_IDENTITY_LEN_def IDENTITY_SIZE_def)
  obtain e' where e': "swap_id e = Some e'" "ev_id e' = a" "names_node (ev_id e) e'" "ev_type e' = ev_type e" "ev_state e' = ev_state e"
    by (rule swap_names [OF assms(10) z])
  obtain c where c: "consumer_at (wk_xmq k) n = Some c" "last_fetch_seq c = F" using at [OF assms(1,3)] by blast
  obtain x1 m x2 where x: "dump_consumer (pe_ops E) a (wk_xmq k) = Some (m, x1)" "lxq_update_that (pe_ops E) m F x1 = Some (0, x2)" "keeps ms x2"
    "cons_pos x2 = (cons_pos (wk_xmq k))(a \<mapsto> (m, F))" by (rule dump_consumer_at [OF assms(1,2,4)])
  define e2 where "e2 = e'\<lparr>task_seq := F\<rparr>"
  define k1 where "k1 = k\<lparr>wk_xmq := x2, wk_net := (wk_net k)\<lparr>qsend := ql_push (pe_queues E) (qsend (wk_net k)) e2\<rparr>,
    wk_client := (wk_client k)\<lparr>qdump := q, ci_waits := 0\<rparr>\<rparr>"
  have ans: "dump_answer E e (k\<lparr>wk_client := (wk_client k)\<lparr>qdump := q\<rparr>\<rparr>) =
      Some (k\<lparr>wk_xmq := x2, wk_net := (wk_net k)\<lparr>qsend := ql_push (pe_queues E) (qsend (wk_net k)) e2\<rparr>, wk_client := (wk_client k)\<lparr>qdump := q\<rparr>\<rparr>)"
    using e'(1,2,5) assms(5,12) c x(1,2) by (simp add: dump_answer_def the_consumer_def send_to_def send_evt_def e2_def)
  have t: "ev_type e \<noteq> NET_EV_DUMP_REQ" using assms(11) by (simp add: net_codes)
  have v: "ql_view (pe_queues E) (qdump (wk_client k)) = 1" using assms(8) by (simp add: view_length)
  have "do_dump_rep_task E k = Some (EVT_STATE_WAIT, k1\<lparr>wk_client := (wk_client k1)\<lparr>qdump := q2\<rparr>\<rparr>)"
    using q(1) q2 ans t assms(9,11) v by (simp add: do_dump_rep_task_def numeral_eq_Suc k1_def)
  then have "task_round E k = Some (True, k1\<lparr>wk_client := (wk_client k1)\<lparr>qdump := q2, ci_phase := EVT_STATE_WAIT\<rparr>\<rparr>)"
    using assms(6-8) by (simp add: task_round_def view_length to_phase_def k1_def)
  then show ?thesis by (rule that [of _ e2]) (use e' assms(11,12) x(3,4) in \<open>auto simp: k1_def e2_def items_push names_node_def\<close>)
qed

end

text \<open>The two programs in the middle: the request of a client and the answer of the client that dumps.\<close>

lemma dump_request_names: "names_node t (dump_request u t)" "ev_type (dump_request u t) = NET_EV_DUMP_REQ" "ev_state (dump_request u t) = NET_EV_NONE" "ev_id (dump_request u t) = u"
  by (simp_all add: dump_request_def names_node_def evt_new_by_size_def)

lemma dump_made:
  assumes "ps_busi s = busi_at d" "last_type s \<noteq> NET_EV_DUMP_REQ" "ev_type e = NET_EV_DUMP_REQ" "names_node a e"
  obtains s' r where "handle_evt Q w e s = Some (True, s')" "qsend (ps_net s') = ql_push Q (qsend (ps_net s)) r"
    "ev_type r = NET_EV_DUMP_REP" "ev_state r = NET_EV_SUCC" "names_node a r" "ev_id r = ev_id e"
proof -
  have l: "ev_size e \<le> length (ev_data e)" using assms(4) by (simp add: names_node_def)
  have b: "do_business w NET_EV_DUMP_REQ (take (ev_size e) (ev_data e)) (ps_busi s) = Some (0, ps_busi s)"
    using assms(1) by (simp add: do_business_def busi_at_def BUSINESS_MAX_SIZE_def BUSI_DUMP_def BUSI_INCR_def net_codes)
  have t: "NET_EV_DUMP_REQ \<noteq> NET_EV_INCREMENT_REP" "NET_EV_SUCC = 0" by (simp_all add: net_codes)
  define r where "r = e\<lparr>ev_type := NET_EV_DUMP_REP, ev_state := 0, incr_rows := 0, task_seq := 0\<rparr>"
  have "handle_evt Q w e s = Some (True, s\<lparr>ps_net := (ps_net s)\<lparr>qsend := ql_push Q (qsend (ps_net s)) r\<rparr>, busi_state := 0, last_type := NET_EV_DUMP_REQ\<rparr>)"
    using assms(2,3) b t l by (simp add: handle_evt_def answer_evt_def BUSI_DUMP_def send_evt_def r_def)
  then show ?thesis by (rule that [of _ r]) (use assms(4) t(2) in \<open>simp_all add: r_def names_node_def\<close>)
qed

text \<open>C26: A dump request reaches the client it names and comes back answered. The request of \<open>a\<close> for \<open>b\<close> is addressed to \<open>b\<close> with the name of \<open>a\<close> inside, the
  worker of \<open>b\<close> sends it on, the client \<open>b\<close> answers, and its worker addresses the answer to \<open>a\<close>, reports success, and stores for
  \<open>a\<close> the position of \<open>b\<close> (registering \<open>a\<close> when it is unknown), so that \<open>a\<close> continues where the dump of \<open>b\<close> stands. The worker of \<open>b\<close>
  then goes on with the increments it had prepared.\<close>

theorem pole_dump_hands_over_position:
  assumes "leveldb_dir L path_of files" "qlist_fifo Q items" "hash_map H lookup" "sequence_is path_of files path R ms cs x" "lxq_name a" "lxq_name b" "a \<noteq> b"
    and "lxq_get_consumer x b = Some n" "ci_consumer c = Some n" "ci_phase c = EVT_STATE_WAIT" "items (qevts c) = []" "items (qdump c) = []" "ci_waits c = 0"
    and "ps_busi s = busi_at d" "last_type s \<noteq> NET_EV_DUMP_REQ" "E = \<lparr>pe_ops = pole_ops L, pe_queues = Q, pe_hash = H, pe_threads = t\<rparr>"
  shows "\<exists>e1 k1 s' e2 k2 e3 m. swap_id (evt_wire (dump_request a b)) = Some e1 \<and> ev_id e1 = b \<and>
    task_round E \<lparr>wk_xmq = x, wk_net = net, wk_client = c\<lparr>qdump := ql_push Q (qdump c) e1\<rparr>\<rparr> = Some (True, k1) \<and> items (qsend (wk_net k1)) = items (qsend net) @ [e1] \<and>
    handle_evt Q w (evt_wire e1) s = Some (True, s') \<and> qsend (ps_net s') = ql_push Q (qsend (ps_net s)) e2 \<and> ev_id e2 = b \<and>
    task_round E (k1\<lparr>wk_client := (wk_client k1)\<lparr>qdump := ql_push Q (qdump (wk_client k1)) (evt_wire e2)\<rparr>\<rparr>) = Some (True, k2) \<and>
    items (qsend (wk_net k2)) = items (qsend net) @ [e1, e3] \<and> ev_id e3 = a \<and> pole_s_dump_answer e3 = 0 \<and>
    lxq_get_consumer (wk_xmq k2) a = Some m \<and> lxq_fetch_position (wk_xmq k2) m = lxq_fetch_position x n \<and>
    lxq_fetch_position (wk_xmq k2) n = lxq_fetch_position x n \<and> ci_phase (wk_client k2) = EVT_STATE_WAIT \<and> qincr (wk_client k2) = qincr c"
proof -
  have ps: "pole_system E (log_keeps path_of files path R) (2 ^ 64 - R - 2) items lookup"
    unfolding assms(16) by (rule pole_system_of [OF assms(1-3)])
  have Q: "pe_queues E = Q" using assms(16) by simp
  have push: "items (ql_push Q q e) = items q @ [e]" for q e using assms(2) by (simp add: qlist_fifo_def)
  note kp = sequence_positions [OF pole_store [OF assms(1)] assms(4)]
  have "map_option fst (cons_pos x b) = Some n" using pole_system.axioms(1) [OF ps, THEN sync_store.get, OF kp(1), of b] assms(8) by simp
  then obtain F where F: "cons_pos x b = Some (n, F)" by auto
  have "1 \<le> F \<and> F \<le> length ms + 1" using kp(2) [of b] kp(3,4) [of b] F by (simp add: pos_of_def)
  then have F64: "F < 2 ^ 64" using pole_system.axioms(1) [OF ps, THEN sync_store.small, OF kp(1)] by simp
  have z: "0 \<notin> set a" "0 \<notin> set b" "length b < IDENTITY_SIZE" using assms(5,6) by (simp_all add: lxq_name_def XMQ_IDENTITY_LEN_def IDENTITY_SIZE_def)
  obtain e1 where e1: "swap_id (evt_wire (dump_request a b)) = Some e1" "ev_id e1 = b" "names_node (ev_id (evt_wire (dump_request a b))) e1"
    "ev_type e1 = ev_type (evt_wire (dump_request a b))" "ev_state e1 = ev_state (evt_wire (dump_request a b))"
    by (rule swap_names [OF names_node_wire [OF dump_request_names(1)] z(2,3)])
  have n1: "names_node a e1" "ev_type e1 = NET_EV_DUMP_REQ" "ev_state e1 = NET_EV_NONE"
    using e1(3-5) dump_request_names(2-4) [of a b] by (simp_all add: evt_wire_def)
  define k where "k = \<lparr>wk_xmq = x, wk_net = net, wk_client = c\<lparr>qdump := ql_push Q (qdump c) e1\<rparr>\<rparr>"
  have k: "ci_phase (wk_client k) = EVT_STATE_WAIT" "items (qevts (wk_client k)) = []" "items (qdump (wk_client k)) = [e1]"
    using assms(10-12) push by (simp_all add: k_def)
  obtain k1 where k1: "task_round E k = Some (True, k1)" "wk_xmq k1 = wk_xmq k" "items (qsend (wk_net k1)) = items (qsend (wk_net k)) @ [e1]"
    "ci_phase (wk_client k1) = EVT_STATE_DUMP" "ci_waits (wk_client k1) = ci_waits (wk_client k) + 1" "items (qdump (wk_client k1)) = []"
    "qevts (wk_client k1) = qevts (wk_client k)" "qincr (wk_client k1) = qincr (wk_client k)" "ci_consumer (wk_client k1) = ci_consumer (wk_client k)"
    by (rule pole_system.dump_ask [OF ps k n1(2,3)])
  have w1: "ev_type (evt_wire e1) = NET_EV_DUMP_REQ" using n1(2) by (simp add: evt_wire_def)
  obtain s' e2 where e2: "handle_evt Q w (evt_wire e1) s = Some (True, s')" "qsend (ps_net s') = ql_push Q (qsend (ps_net s)) e2"
    "ev_type e2 = NET_EV_DUMP_REP" "ev_state e2 = NET_EV_SUCC" "names_node a e2" "ev_id e2 = ev_id (evt_wire e1)"
    by (rule dump_made [OF assms(14,15) w1 names_node_wire [OF n1(1)]])
  define k' where "k' = k1\<lparr>wk_client := (wk_client k1)\<lparr>qdump := ql_push Q (qdump (wk_client k1)) (evt_wire e2)\<rparr>\<rparr>"
  have k': "log_keeps path_of files path R ms (wk_xmq k')" "cons_pos (wk_xmq k') b = Some (n, F)" "ci_consumer (wk_client k') = Some n"
    "ci_phase (wk_client k') = EVT_STATE_DUMP" "items (qevts (wk_client k')) = []" "items (qdump (wk_client k')) = [evt_wire e2]" "ci_waits (wk_client k') = 1"
    using kp(1) F k(2) k1(2,4-9) assms(9,13) push by (simp_all add: k'_def k_def)
  have w2: "ev_type (evt_wire e2) = NET_EV_DUMP_REP" "ev_state (evt_wire e2) = NET_EV_SUCC" using e2(3,4) by (simp_all add: evt_wire_def)
  obtain k2 e3 where k2: "task_round E k' = Some (True, k2)" "items (qsend (wk_net k2)) = items (qsend (wk_net k')) @ [e3]"
    "ev_id e3 = a" "ev_state e3 = NET_EV_SUCC" "log_keeps path_of files path R ms (wk_xmq k2)" "\<exists>m. cons_pos (wk_xmq k2) = (cons_pos (wk_xmq k'))(a \<mapsto> (m, F))"
    "ci_phase (wk_client k2) = EVT_STATE_WAIT" "qincr (wk_client k2) = qincr (wk_client k')"
    by (rule pole_system.dump_relayed [OF ps k'(1) assms(5) k'(2) F64 k'(3-7) names_node_wire [OF e2(5)] w2])
  obtain m where m: "cons_pos (wk_xmq k2) a = Some (m, F)" "cons_pos (wk_xmq k2) b = Some (n, F)" using k2(6) k'(2) assms(7) by auto
  have fetch: "lxq_fetch_position y j = Some p" if "log_keeps path_of files path R ms y" "cons_pos y u = Some (j, p)" for y u j p
    using pole_system.axioms(1) [OF ps, THEN sync_store.at, OF that] by (auto simp: lxq_fetch_position_def)
  have "lxq_get_consumer (wk_xmq k2) a = Some m" using pole_system.axioms(1) [OF ps, THEN sync_store.get, OF k2(5), of a] m(1) by simp
  then show ?thesis
    using e1(1,2) k1(1,3,8) e2(1,2,6) k2(1-4,7,8) fetch [OF k2(5) m(1)] fetch [OF k2(5) m(2)] fetch [OF kp(1) F]
    by (intro exI [of _ e1] exI [of _ k1] exI [of _ s'] exI [of _ e2] exI [of _ k2] exI [of _ e3] exI [of _ m])
      (simp add: k_def k'_def evt_wire_def pole_s_dump_answer_def net_codes)
qed

theorem pole_dump_hands_over_position_witness:
  "\<exists>(x :: (bytes \<Rightarrow> bytes \<Rightarrow> bytes option, bytes) lxq_ctx) n e1 k1 e2 k2 e3 m. swap_id (evt_wire (dump_request [0x61, 0x62] [0x63])) = Some e1 \<and>
    task_round demo_env \<lparr>wk_xmq = x, wk_net = evt_ctx_init list_qlist SOCK_SERVER,
      wk_client = (client_info_create list_qlist [0x63])\<lparr>ci_consumer := Some n, ci_phase := EVT_STATE_WAIT, qdump := [e1]\<rparr>\<rparr> = Some (True, k1) \<and>
    task_round demo_env (k1\<lparr>wk_client := (wk_client k1)\<lparr>qdump := ql_push list_qlist (qdump (wk_client k1)) (evt_wire e2)\<rparr>\<rparr>) = Some (True, k2) \<and>
    qsend (wk_net k2) = [e1, e3] \<and> ev_id e3 = [0x61, 0x62] \<and> lxq_get_consumer (wk_xmq k2) [0x61, 0x62] = Some m \<and>
    lxq_fetch_position (wk_xmq k2) m = lxq_fetch_position x n"
proof -
  obtain x :: "(bytes \<Rightarrow> bytes \<Rightarrow> bytes option, bytes) lxq_ctx" and n where x: "sequence_is (\<lambda>h. h) (\<lambda>w. w) [0x2E] 2 [] [([0x63], 1)] x" "lxq_get_consumer x [0x63] = Some n"
    using demo_consumer by blast
  define c where "c = (client_info_create list_qlist [0x63])\<lparr>ci_consumer := Some n, ci_phase := EVT_STATE_WAIT\<rparr>"
  define s where "s = \<lparr>ps_net = evt_ctx_init list_qlist SOCK_CLIENT, ps_busi = busi_at [], last_type = NET_EV_INCREMENT_REQ, busi_state = NET_EV_NONE, last_seq = 0\<rparr>"
  have c: "ci_consumer c = Some n" "ci_phase c = EVT_STATE_WAIT" "qevts c = []" "qdump c = []" "ci_waits c = 0"
    by (simp_all add: c_def client_info_create_def list_qlist_def)
  have s: "ps_busi s = busi_at []" "last_type s \<noteq> NET_EV_DUMP_REQ" by (simp_all add: s_def net_codes)
  have ab: "lxq_name [0x61, 0x62]" "lxq_name [0x63]" "[0x61, 0x62 :: byte] \<noteq> [0x63]" by (simp_all add: lxq_name_def XMQ_IDENTITY_LEN_def comma_def)
  have q: "ql_push list_qlist [] e = [e]" for e by (simp add: list_qlist_def)
  note t = pole_dump_hands_over_position [OF mem_dir.leveldb_dir_axioms list_queue.qlist_fifo_axioms fun_map.hash_map_axioms x(1) ab x(2) c s demo_env_def,
    of "evt_ctx_init list_qlist SOCK_SERVER" Written]
  have i: "qsend (evt_ctx_init list_qlist SOCK_SERVER) = []" by (simp add: evt_ctx_init_def list_qlist_def)
  obtain e1 k1 e2 k2 e3 m where "swap_id (evt_wire (dump_request [0x61, 0x62] [0x63])) = Some e1"
    "task_round demo_env \<lparr>wk_xmq = x, wk_net = evt_ctx_init list_qlist SOCK_SERVER, wk_client = c\<lparr>qdump := [e1]\<rparr>\<rparr> = Some (True, k1)"
    "task_round demo_env (k1\<lparr>wk_client := (wk_client k1)\<lparr>qdump := ql_push list_qlist (qdump (wk_client k1)) (evt_wire e2)\<rparr>\<rparr>) = Some (True, k2)"
    "qsend (wk_net k2) = [e1, e3]" "ev_id e3 = [0x61, 0x62]" "lxq_get_consumer (wk_xmq k2) [0x61, 0x62] = Some m"
    "lxq_fetch_position (wk_xmq k2) m = lxq_fetch_position x n"
    using t unfolding i c(4) q append_Nil by blast
  then show ?thesis unfolding c_def by (intro exI conjI)
qed

end
