(* ===== verification/Tsdb_Store.thy ===== *)
theory Tsdb_Store
  imports Supex_Text "HOL-Library.List_Lexorder"
begin

text \<open>
  The storage of TSDB: the calls of \<^verbatim>\<open>leveldb/c.h\<close> on one database as an argument, the wrapper
  \<^verbatim>\<open>programs/ldb.c\<close> over them, and the locale \<open>ordered_store\<close> of a LevelDB that reports no errors, with an
  executable store that keeps the log of its writes as instance.
\<close>

section \<open>LevelDB\<close>

datatype batch_op = Bat_Put bytes bytes | Bat_Del bytes

record ldb_options =
  lo_cache_lru :: nat
  lo_bloom :: int
  lo_block_size :: nat
  lo_write_buffer_size :: nat
  lo_snappy :: bool
  lo_create_if_missing :: bool

text \<open>A boolean is whether \<^verbatim>\<open>*errptr\<close> is set. A value is returned with its length; for a key without a value the
  pointer is null and the length 0. An iterator is a value of its own: it stands on a snapshot.\<close>

record ('w, 'i) ldb_lib =
  lb_open :: "ldb_options \<Rightarrow> 'w \<Rightarrow> bytes \<Rightarrow> bool \<times> 'w"
  lb_close :: "'w \<Rightarrow> 'w"
  lb_destroy_db :: "ldb_options \<Rightarrow> 'w \<Rightarrow> bytes \<Rightarrow> bool \<times> 'w"
  lb_get :: "'w \<Rightarrow> bytes \<Rightarrow> bool \<times> bytes option \<times> 'w"
  lb_put :: "'w \<Rightarrow> bytes \<Rightarrow> bytes \<Rightarrow> bool \<times> 'w"
  lb_delete :: "'w \<Rightarrow> bytes \<Rightarrow> bool \<times> 'w"
  lb_write :: "'w \<Rightarrow> batch_op list \<Rightarrow> bool \<times> 'w"
  lb_compact_range :: "'w \<Rightarrow> 'w"
  lb_create_iterator :: "'w \<Rightarrow> 'i"
  lb_iter_valid :: "'i \<Rightarrow> bool"
  lb_iter_seek :: "'i \<Rightarrow> bytes \<Rightarrow> 'i"
  lb_iter_seek_to_first :: "'i \<Rightarrow> 'i"
  lb_iter_seek_to_last :: "'i \<Rightarrow> 'i"
  lb_iter_next :: "'i \<Rightarrow> 'i"
  lb_iter_key :: "'i \<Rightarrow> bytes"
  lb_iter_value :: "'i \<Rightarrow> bytes"
  lb_iter_error :: "'i \<Rightarrow> bool"

definition val_len :: "bytes option \<Rightarrow> nat" where
  "val_len v = (case v of None \<Rightarrow> 0 | Some b \<Rightarrow> length b)"

section \<open>The wrapper\<close>

record 'w leveldb_stuff =
  ls_db :: 'w
  ls_options :: ldb_options
  ls_wbatch :: "batch_op list"
  ls_dbname :: bytes

definition PATH_MAX :: nat where
  "PATH_MAX = 4096"

text \<open>\<open>snappy\<close> is whether \<^verbatim>\<open>OPEN_COMPRESSION\<close> is defined.\<close>

definition ldb_initialize ::
  "('w, 'i) ldb_lib \<Rightarrow> bool \<Rightarrow> 'w \<Rightarrow> bytes \<Rightarrow> nat \<Rightarrow> nat \<Rightarrow> nat \<Rightarrow> int \<Rightarrow> 'w leveldb_stuff option \<times> 'w" where
  "ldb_initialize L snappy w name block_size wb_size lru_size bloom_size =
     (let dbname = snprintf PATH_MAX name;
          options = \<lparr>lo_cache_lru = lru_size, lo_bloom = bloom_size, lo_block_size = block_size,
             lo_write_buffer_size = wb_size, lo_snappy = snappy, lo_create_if_missing = True\<rparr>;
          (err, w) = lb_open L options w dbname
      in if err then (None, w)
         else (Some \<lparr>ls_db = w, ls_options = options, ls_wbatch = [], ls_dbname = dbname\<rparr>, w))"

definition ldb_close :: "('w, 'i) ldb_lib \<Rightarrow> 'w leveldb_stuff \<Rightarrow> 'w" where
  "ldb_close L s = lb_close L (ls_db s)"

definition ldb_destroy :: "('w, 'i) ldb_lib \<Rightarrow> 'w leveldb_stuff \<Rightarrow> 'w" where
  "ldb_destroy L s = snd (lb_destroy_db L (ls_options s) (lb_close L (ls_db s)) (ls_dbname s))"

definition ldb_get :: "('w, 'i) ldb_lib \<Rightarrow> 'w leveldb_stuff \<Rightarrow> bytes \<Rightarrow> bytes option \<times> nat \<times> 'w leveldb_stuff" where
  "ldb_get L s key = (let (err, val, w) = lb_get L (ls_db s) key in (val, val_len val, s\<lparr>ls_db := w\<rparr>))"

definition ldb_put :: "('w, 'i) ldb_lib \<Rightarrow> 'w leveldb_stuff \<Rightarrow> bytes \<Rightarrow> bytes \<Rightarrow> int \<times> 'w leveldb_stuff" where
  "ldb_put L s key value = (let (err, w) = lb_put L (ls_db s) key value in (if err then -1 else 0, s\<lparr>ls_db := w\<rparr>))"

text \<open>The bytes copied to the caller's buffer of length \<open>vlen\<close>, if any.\<close>

definition ldb_pull ::
  "('w, 'i) ldb_lib \<Rightarrow> 'w leveldb_stuff \<Rightarrow> bytes \<Rightarrow> nat \<Rightarrow> int \<times> bytes option \<times> 'w leveldb_stuff" where
  "ldb_pull L s key vlen =
     (let (err, val, w) = lb_get L (ls_db s) key; s = s\<lparr>ls_db := w\<rparr> in
      if err then (-1, None, s)
      else case val of
        None \<Rightarrow> (-1, None, s)
      | Some v \<Rightarrow> if vlen = length v then (0, Some v, s) else (-1, None, s))"

definition ldb_delete :: "('w, 'i) ldb_lib \<Rightarrow> 'w leveldb_stuff \<Rightarrow> bytes \<Rightarrow> int \<times> 'w leveldb_stuff" where
  "ldb_delete L s key =
     (let (err, val, w) = lb_get L (ls_db s) key; s = s\<lparr>ls_db := w\<rparr> in
      if err then (-1, s)
      else if val_len val = 0 then (0, s)
      else let (err, w) = lb_delete L w key; s = s\<lparr>ls_db := w\<rparr> in if err then (-1, s) else (1, s))"

definition ldb_batch_put :: "'w leveldb_stuff \<Rightarrow> bytes \<Rightarrow> bytes \<Rightarrow> int \<times> 'w leveldb_stuff" where
  "ldb_batch_put s key value = (0, s\<lparr>ls_wbatch := ls_wbatch s @ [Bat_Put key value]\<rparr>)"

definition ldb_batch_delete :: "'w leveldb_stuff \<Rightarrow> bytes \<Rightarrow> int \<times> 'w leveldb_stuff" where
  "ldb_batch_delete s key = (0, s\<lparr>ls_wbatch := ls_wbatch s @ [Bat_Del key]\<rparr>)"

definition ldb_batch_commit :: "('w, 'i) ldb_lib \<Rightarrow> 'w leveldb_stuff \<Rightarrow> int \<times> 'w leveldb_stuff" where
  "ldb_batch_commit L s =
     (let (err, w) = lb_write L (ls_db s) (ls_wbatch s)
      in (if err then -1 else 0, s\<lparr>ls_db := w, ls_wbatch := []\<rparr>))"

definition ldb_exists :: "('w, 'i) ldb_lib \<Rightarrow> 'w leveldb_stuff \<Rightarrow> bytes \<Rightarrow> int \<times> 'w leveldb_stuff" where
  "ldb_exists L s key =
     (let (err, val, w) = lb_get L (ls_db s) key; s = s\<lparr>ls_db := w\<rparr> in
      if err then (-1, s) else (if val_len val \<noteq> 0 then 1 else 0, s))"

definition ldb_compact :: "('w, 'i) ldb_lib \<Rightarrow> 'w leveldb_stuff \<Rightarrow> 'w leveldb_stuff" where
  "ldb_compact L s = s\<lparr>ls_db := lb_compact_range L (ls_db s)\<rparr>"

section \<open>A LevelDB without errors\<close>

primrec batch_op_apply :: "batch_op \<Rightarrow> (bytes \<rightharpoonup> bytes) \<Rightarrow> bytes \<rightharpoonup> bytes" where
  "batch_op_apply (Bat_Put k v) m = m(k \<mapsto> v)"
| "batch_op_apply (Bat_Del k) m = m(k := None)"

definition batch_apply :: "batch_op list \<Rightarrow> (bytes \<rightharpoonup> bytes) \<Rightarrow> bytes \<rightharpoonup> bytes" where
  "batch_apply ops m = fold batch_op_apply ops m"

lemma batch_apply_simps [simp]:
  "batch_apply [] m = m"
  "batch_apply (b # ops) m = batch_apply ops (batch_op_apply b m)"
  "batch_apply (ops @ ops') m = batch_apply ops' (batch_apply ops m)"
  by (simp_all add: batch_apply_def)

text \<open>What a database holds.\<close>

definition holding :: "('w \<Rightarrow> (bytes \<times> bytes) list) \<Rightarrow> 'w leveldb_stuff \<Rightarrow> bytes \<rightharpoonup> bytes" where
  "holding entries s = map_of (entries (ls_db s))"

text \<open>The entries are kept in the bytewise order of their keys, which is the lexicographic order on
  lists of bytes, and an iterator walks them in this order.\<close>

locale ordered_store =
  fixes L :: "('w, 'i) ldb_lib"
    and entries :: "'w \<Rightarrow> (bytes \<times> bytes) list"
    and ahead :: "'i \<Rightarrow> (bytes \<times> bytes) list"
  assumes ordered: "sorted_wrt (<) (map fst (entries w))"
    and open_law: "\<exists>w'. lb_open L opts w n = (False, w') \<and> entries w' = entries w"
    and get_law: "\<exists>w'. lb_get L w k = (False, map_of (entries w) k, w') \<and> entries w' = entries w"
    and put_law: "\<exists>w'. lb_put L w k v = (False, w') \<and> map_of (entries w') = (map_of (entries w))(k \<mapsto> v)"
    and delete_law: "\<exists>w'. lb_delete L w k = (False, w') \<and> map_of (entries w') = (map_of (entries w))(k := None)"
    and write_law: "\<exists>w'. lb_write L w ops = (False, w') \<and> map_of (entries w') = batch_apply ops (map_of (entries w))"
    and compact_law: "entries (lb_compact_range L w) = entries w"
    and iter_law: "ahead (lb_create_iterator L w) = []"
    and seek_law: "ahead (lb_iter_seek L (lb_create_iterator L w) k) = filter (\<lambda>e. k \<le> fst e) (entries w)"
    and seek_again_law: "ahead (lb_iter_seek_to_last L (lb_iter_seek L (lb_create_iterator L w) k)) =
      (if entries w = [] then [] else [last (entries w)])"
    and first_law: "ahead (lb_iter_seek_to_first L (lb_create_iterator L w)) = entries w"
    and next_law: "ahead i \<noteq> [] \<Longrightarrow> ahead (lb_iter_next L i) = tl (ahead i)"
    and valid_law: "lb_iter_valid L i \<longleftrightarrow> ahead i \<noteq> []"
    and key_law: "ahead i \<noteq> [] \<Longrightarrow> lb_iter_key L i = fst (hd (ahead i))"
    and value_law: "ahead i \<noteq> [] \<Longrightarrow> lb_iter_value L i = snd (hd (ahead i))"
    and error_law: "\<not> lb_iter_error L i"
begin

lemma ldb_get_is: "\<exists>s'. ldb_get L s k = (holding entries s k, val_len (holding entries s k), s') \<and> holding entries s' = holding entries s \<and> ls_wbatch s' = ls_wbatch s"
  using get_law [of "ls_db s" k] by (auto simp: ldb_get_def holding_def)

lemma ldb_put_is: "\<exists>s'. ldb_put L s k v = (0, s') \<and> holding entries s' = (holding entries s)(k \<mapsto> v)"
  using put_law [of "ls_db s" k v] by (auto simp: ldb_put_def holding_def)

lemma ldb_exists_is: "\<exists>s'. ldb_exists L s k = ((if holding entries s k \<in> {None, Some []} then 0 else 1), s') \<and> holding entries s' = holding entries s"
  using get_law [of "ls_db s" k] by (auto simp: ldb_exists_def holding_def val_len_def split: option.splits)

text \<open>A key with an empty value is not deleted.\<close>

lemma ldb_delete_is:
  "\<exists>s'. ldb_delete L s k = ((if holding entries s k \<in> {None, Some []} then 0 else 1), s')
    \<and> holding entries s' = (if holding entries s k \<in> {None, Some []} then holding entries s else (holding entries s)(k := None))"
proof -
  obtain w' where g: "lb_get L (ls_db s) k = (False, map_of (entries (ls_db s)) k, w')" "entries w' = entries (ls_db s)"
    using get_law by blast
  obtain w'' where d: "lb_delete L w' k = (False, w'')" "map_of (entries w'') = (map_of (entries w'))(k := None)"
    using delete_law by blast
  show ?thesis using g d by (auto simp: ldb_delete_def holding_def val_len_def split: option.splits)
qed

lemma ldb_batch_commit_is:
  "\<exists>s'. ldb_batch_commit L s = (0, s') \<and> holding entries s' = batch_apply (ls_wbatch s) (holding entries s) \<and> ls_wbatch s' = []"
  using write_law [of "ls_db s" "ls_wbatch s"] by (auto simp: ldb_batch_commit_def holding_def)

end

section \<open>A store in memory\<close>

text \<open>Its state is the log of its writes.\<close>

fun put_entry :: "bytes \<Rightarrow> bytes \<Rightarrow> (bytes \<times> bytes) list \<Rightarrow> (bytes \<times> bytes) list" where
  "put_entry k v [] = [(k, v)]"
| "put_entry k v (e # es) =
     (if k < fst e then (k, v) # e # es else if k = fst e then (k, v) # es else e # put_entry k v es)"

definition replay_op :: "batch_op \<Rightarrow> (bytes \<times> bytes) list \<Rightarrow> (bytes \<times> bytes) list" where
  "replay_op b es = (case b of Bat_Put k v \<Rightarrow> put_entry k v es | Bat_Del k \<Rightarrow> filter (\<lambda>e. fst e \<noteq> k) es)"

definition replay :: "batch_op list \<Rightarrow> (bytes \<times> bytes) list" where
  "replay ops = fold replay_op ops []"

lemma put_entry_keys: "fst ` set (put_entry k v es) = insert k (fst ` set es)"
  by (induction es) auto

lemma put_entry_ordered: "sorted_wrt (<) (map fst es) \<Longrightarrow> sorted_wrt (<) (map fst (put_entry k v es))"
proof (induction es)
  case Nil
  then show ?case by simp
next
  case (Cons e es)
  show ?case
  proof (cases "k < fst e")
    case True
    then show ?thesis using Cons.prems by (fastforce)
  next
    case False
    have "\<forall>x \<in> fst ` set (put_entry k v es). x = k \<or> x \<in> fst ` set es" by (simp add: put_entry_keys)
    then show ?thesis using Cons False by fastforce
  qed
qed

lemma put_entry_map: "map_of (put_entry k v es) = (map_of es)(k \<mapsto> v)"
  by (induction es) (auto simp: fun_eq_iff)

lemma filter_map_of: "map_of (filter (\<lambda>e. fst e \<noteq> k) es) = (map_of es)(k := None)"
  by (induction es) (auto simp: fun_eq_iff)

lemma ordered_filter: "sorted_wrt (<) (map fst es) \<Longrightarrow> sorted_wrt (<) (map fst (filter P es))"
  by (simp add: sorted_wrt_map sorted_wrt_filter)

lemma replay_snoc [simp]: "replay (ops @ [b]) = replay_op b (replay ops)"
  by (simp add: replay_def)

lemma replay_op_is: "sorted_wrt (<) (map fst es) \<Longrightarrow>
   sorted_wrt (<) (map fst (replay_op b es)) \<and> map_of (replay_op b es) = batch_op_apply b (map_of es)"
  by (cases b) (auto simp: replay_op_def put_entry_ordered put_entry_map filter_map_of ordered_filter)

lemma replay_ordered: "sorted_wrt (<) (map fst (replay ops))"
  by (induction ops rule: rev_induct) (simp_all add: replay_op_is replay_def [of "[]"])

lemma replay_map: "map_of (replay (ops @ ops')) = batch_apply ops' (map_of (replay ops))"
proof (induction ops' rule: rev_induct)
  case Nil
  then show ?case by simp
next
  case (snoc b ops')
  have "replay (ops @ ops' @ [b]) = replay_op b (replay (ops @ ops'))" using replay_snoc [of "ops @ ops'" b] by simp
  then show ?case using snoc replay_op_is [OF replay_ordered [of "ops @ ops'"], of b] by simp
qed

definition mem_store :: "(batch_op list, (bytes \<times> bytes) list \<times> (bytes \<times> bytes) list) ldb_lib" where
  "mem_store =
     \<lparr>lb_open = (\<lambda>o' w n. (False, w)), lb_close = id, lb_destroy_db = (\<lambda>o' w n. (False, [])),
      lb_get = (\<lambda>w k. (False, map_of (replay w) k, w)),
      lb_put = (\<lambda>w k v. (False, w @ [Bat_Put k v])),
      lb_delete = (\<lambda>w k. (False, w @ [Bat_Del k])),
      lb_write = (\<lambda>w ops. (False, w @ ops)),
      lb_compact_range = id,
      lb_create_iterator = (\<lambda>w. (replay w, [])),
      lb_iter_valid = (\<lambda>i. snd i \<noteq> []),
      lb_iter_seek = (\<lambda>i k. (fst i, filter (\<lambda>e. k \<le> fst e) (fst i))),
      lb_iter_seek_to_first = (\<lambda>i. (fst i, fst i)),
      lb_iter_seek_to_last = (\<lambda>i. (fst i, if fst i = [] then [] else [last (fst i)])),
      lb_iter_next = (\<lambda>i. (fst i, tl (snd i))),
      lb_iter_key = (\<lambda>i. fst (hd (snd i))),
      lb_iter_value = (\<lambda>i. snd (hd (snd i))),
      lb_iter_error = (\<lambda>i. False)\<rparr>"

interpretation mem_db: ordered_store mem_store replay snd
  by unfold_locales (simp_all add: mem_store_def replay_ordered replay_map del: replay_snoc)

end
