(* ===== verification/Tsdb_Misc.thy ===== *)
theory Tsdb_Misc
  imports Tsdb_Store
begin

text \<open>
  The helpers of \<^verbatim>\<open>programs/TSDB/src/misc.c\<close> that write and compare text: the number of digits of a length, a bulk
  string of the Redis protocol written into a buffer, and the prefix comparison, with the wire form they are to produce.
\<close>

section \<open>The helpers\<close>

fun number_len_loop :: "nat \<Rightarrow> nat \<Rightarrow> nat" where
  "number_len_loop i mlen = (if mlen div 10 \<ge> 1 then number_len_loop (i + 1) (mlen div 10) else i)"

declare number_len_loop.simps [simp del]

definition get_number_len :: "nat \<Rightarrow> nat" where
  "get_number_len len = number_len_loop 1 len"

definition crlf :: bytes where
  "crlf = [0x0D, 0x0A]"

text \<open>\<^verbatim>\<open>dst\<close> is a position in a buffer; \<^verbatim>\<open>sprintf\<close> also writes the terminating zero byte. \<^term>\<open>None\<close> is an access
  outside the buffer or outside the bytes to put.\<close>

definition set_bulk :: "bytes \<Rightarrow> nat \<Rightarrow> bytes \<Rightarrow> int \<Rightarrow> (bytes \<times> nat) option" where
  "set_bulk buf dst put len = do {
     buf \<leftarrow> mwrites buf (int dst) (0x24 # print_int len @ crlf @ [0]);
     let hlen = length (c_str_of (drop dst buf));
     d \<leftarrow> mreads put 0 len;
     buf \<leftarrow> mwrites buf (int (dst + hlen)) d;
     buf \<leftarrow> mwrites buf (int (dst + hlen) + len) crlf;
     Some (buf, dst + hlen + nat len + 2) }"

text \<open>\<^verbatim>\<open>strncmp\<close>: up to \<open>n\<close> bytes, not past a zero byte. \<^term>\<open>None\<close> is a read behind one of the two arrays.\<close>

fun strncmp :: "bytes \<Rightarrow> bytes \<Rightarrow> nat \<Rightarrow> int option" where
  "strncmp a b 0 = Some 0"
| "strncmp (x # a) (y # b) (Suc n) =
     (if x \<noteq> y then Some (uint x - uint y) else if x = 0 then Some 0 else strncmp a b n)"
| "strncmp [] b (Suc n) = None"
| "strncmp a [] (Suc n) = None"

definition prefix_match_len :: "bytes \<Rightarrow> bytes \<Rightarrow> bool option" where
  "prefix_match_len pre str =
     (if length str < length pre then Some False
      else do { c \<leftarrow> strncmp pre str (length pre); Some (c = 0) })"

section \<open>The Redis protocol\<close>

definition bulk :: "bytes \<Rightarrow> bytes" where
  "bulk x = 0x24 # dec_nat (length x) @ crlf @ x @ crlf"

definition resp_array :: "bytes list \<Rightarrow> bytes" where
  "resp_array xs = 0x2A # dec_nat (length xs) @ crlf @ concat (map bulk xs)"

section \<open>Lemmas\<close>

lemma number_len_loop_is: "number_len_loop i n = i + length (dec_nat n) - 1"
proof (induction i n rule: number_len_loop.induct)
  case (1 i n)
  show ?case
  proof (cases "n div 10 \<ge> 1")
    case True
    then have "number_len_loop i n = i + 1 + length (dec_nat (n div 10)) - 1"
      using 1 [OF True] by (subst number_len_loop.simps) simp
    moreover have "length (dec_nat n) = length (dec_nat (n div 10)) + 1" using True
      by (subst dec_nat.simps) (auto simp: div_less)
    ultimately show ?thesis by simp
  next
    case False
    then have "n < 10" by (simp add: not_le div_eq_0_iff)
    then show ?thesis by (subst number_len_loop.simps, subst dec_nat.simps) simp
  qed
qed

lemma get_number_len_is [simp]: "get_number_len n = length (dec_nat n)"
  using dec_nat_digits [of n] by (simp add: get_number_len_def number_len_loop_is)

lemma length_bulk: "length (bulk x) = 5 + get_number_len (length x) + length x"
  by (simp add: bulk_def crlf_def)

lemma digits_no_zero: "list_all is_digit ds \<Longrightarrow> 0 \<notin> set ds"
  by (auto simp: list_all_iff dest: digit_not_special)

lemma c_str_of_zero: "0 \<notin> set xs \<Longrightarrow> c_str_of (xs @ 0 # ys) = xs"
  by (simp add: c_str_of_def takeWhile_append2) (metis (mono_tags, lifting) takeWhile_append2 takeWhile.simps(2) append_Nil2)

lemma take_drop_write:
  "length bs = n \<Longrightarrow> p + n \<le> length m \<Longrightarrow> take (p + n) (take p m @ bs @ drop (p + n) m) = take p m @ bs"
  by simp

text \<open>A bulk string is written as the protocol has it, where the buffer has room for it.\<close>

lemma set_bulk_writes:
  assumes room: "dst + length (bulk x) \<le> length buf" and len: "length x \<le> 2147483647"
  shows "\<exists>buf'. set_bulk buf dst x (int (length x)) = Some (buf', dst + length (bulk x))
    \<and> length buf' = length buf \<and> take (dst + length (bulk x)) buf' = take dst buf @ bulk x"
proof -
  define h where "h = 0x24 # dec_nat (length x) @ crlf"
  have hz: "0 \<notin> set h" using digits_no_zero [of "dec_nat (length x)"] dec_nat_digits by (auto simp: h_def crlf_def)
  have hb: "bulk x = h @ x @ crlf" by (simp add: h_def bulk_def)
  have r: "dst + length h + length x + 2 \<le> length buf" using room by (simp add: hb crlf_def)
  define pre where "pre = take dst buf"
  have lp: "length pre = dst" using r by (simp add: pre_def)
  define buf1 where "buf1 = pre @ (h @ [0]) @ drop (dst + length h + 1) buf"
  have w1: "mwrites buf (int dst) (h @ [0]) = Some buf1"
    using r by (simp add: mwrites_def buf1_def pre_def add.assoc)
  have d1: "drop dst buf1 = h @ 0 # drop (dst + length h + 1) buf" using lp by (simp add: buf1_def)
  have hl: "length (c_str_of (drop dst buf1)) = length h" using c_str_of_zero [OF hz] d1 by simp
  have l1: "length buf1 = length buf" using lp r by (simp add: buf1_def)
  define rest where "rest = drop (dst + length h) buf1"
  have t1: "take (dst + length h) buf1 = pre @ h" using lp by (simp add: buf1_def)
  have b1: "buf1 = (pre @ h) @ rest" using t1 append_take_drop_id [of "dst + length h" buf1] by (simp add: rest_def)
  have lr: "length x + 2 \<le> length rest" using r l1 by (simp add: rest_def)
  define buf2 where "buf2 = pre @ h @ x @ drop (length x) rest"
  have w2: "mwrites buf1 (int (dst + length h)) x = Some buf2"
    using lr lp mwrites_append [of "take (length x) rest" x "pre @ h" "drop (length x) rest"]
    by (subst b1) (simp add: buf2_def)
  define buf3 where "buf3 = pre @ h @ x @ crlf @ drop (length x + 2) rest"
  have w3: "mwrites buf2 (int (dst + length h) + int (length x)) crlf = Some buf3"
  proof -
    have "buf2 = (pre @ h @ x) @ take 2 (drop (length x) rest) @ drop (length x + 2) rest"
      using append_take_drop_id [of 2 "drop (length x) rest"] by (simp add: buf2_def)
    moreover have "length (take 2 (drop (length x) rest)) = length crlf" using lr by (simp add: crlf_def)
    moreover have "int (dst + length h) + int (length x) = int (length (pre @ h @ x))" using lp by simp
    ultimately show ?thesis using mwrites_append [of "take 2 (drop (length x) rest)" crlf "pre @ h @ x" "drop (length x + 2) rest"]
      by (simp add: buf3_def add.assoc)
  qed
  have p: "print_int (int (length x)) = dec_nat (length x)" by (simp add: print_int_def)
  have hh: "0x24 # dec_nat (length x) @ crlf @ [0] = h @ [0]" by (simp add: h_def)
  have rd: "mreads x 0 (int (length x)) = Some x" by (simp add: mreads_def)
  have "set_bulk buf dst x (int (length x)) = Some (buf3, dst + length h + length x + 2)"
    unfolding set_bulk_def p hh w1 using w2 w3 by (simp add: hl rd Let_def)
  moreover have "length buf3 = length buf" using w3 w2 l1 mwrites_length by metis
  moreover have "take (dst + length (bulk x)) buf3 = pre @ bulk x" using lp by (simp add: buf3_def hb)
  ultimately show ?thesis by (simp add: hb crlf_def pre_def add.assoc)
qed

lemma strncmp_self_prefix:
  assumes "0 \<notin> set a" "length a \<le> length b"
  shows "\<exists>c. strncmp a b (length a) = Some c \<and> (c = 0 \<longleftrightarrow> take (length a) b = a)"
  using assms
proof (induction a arbitrary: b)
  case Nil
  then show ?case by simp
next
  case (Cons x a)
  then obtain y b' where b: "b = y # b'" by (cases b) auto
  show ?case
  proof (cases "x = y")
    case True
    then show ?thesis using Cons.IH [of b'] Cons.prems b by auto
  next
    case False
    then have "uint x - uint y \<noteq> 0" by (simp add: word_uint_eq_iff)
    then show ?thesis using False b by auto
  qed
qed

lemma prefix_match_len_is: "0 \<notin> set pre \<Longrightarrow> prefix_match_len pre str = Some (take (length pre) str = pre)"
  using strncmp_self_prefix [of pre str] by (auto simp: prefix_match_len_def)

end
