(* ===== verification/Tsdb_Binlog.thy ===== *)
theory Tsdb_Binlog
  imports Tsdb_Misc
begin

text \<open>
  The binary log of TSDB, \<^verbatim>\<open>programs/TSDB/src/binlog.c\<close>: every write puts, in the same LevelDB batch, an entry
  under the next sequence number that names the command and the key. The entry is turned into the request
  that brings the slave up to date, with the value the key has by then.
\<close>

section \<open>Entries\<close>

definition BINLOG_MAX_KEY_SIZE :: nat where "BINLOG_MAX_KEY_SIZE = 16"
definition BINLOG_MAX_VAL_SIZE :: nat where "BINLOG_MAX_VAL_SIZE = 512"

definition CMD_SET :: byte where "CMD_SET = 1"
definition CMD_DEL :: byte where "CMD_DEL = 2"

definition big_endian_u16 :: "u16 \<Rightarrow> u16" where
  "big_endian_u16 v = drop_bit 8 v OR push_bit 8 v"

definition big_endian_u32 :: "u32 \<Rightarrow> u32" where
  "big_endian_u32 v =
     drop_bit 24 v OR (drop_bit 8 v AND 0xff00) OR (push_bit 8 v AND 0xff0000) OR push_bit 24 v"

definition big_endian_u64 :: "u64 \<Rightarrow> u64" where
  "big_endian_u64 v =
     (let h = ucast (drop_bit 32 v) :: u32; l = ucast (v AND 0xffffffff) :: u32
      in ucast (big_endian_u32 h) OR push_bit 32 (ucast (big_endian_u32 l)))"

text \<open>The host is little endian. An encoder returns the length and the buffer; \<^term>\<open>None\<close> is an access outside it.\<close>

definition encode_seq_key :: "u64 \<Rightarrow> bytes \<Rightarrow> (nat \<times> bytes) option" where
  "encode_seq_key seq key = do {
     key \<leftarrow> mwrite key 0 0xff;
     key \<leftarrow> mwrites key 1 (le64 (big_endian_u64 seq));
     Some (9, key) }"

definition decode_seq_key :: "bytes \<Rightarrow> u64" where
  "decode_seq_key key = (if length key \<noteq> 9 then -1 else big_endian_u64 (of_le (drop 1 key)))"

definition encode_seq_value :: "bytes \<Rightarrow> byte \<Rightarrow> bytes \<Rightarrow> (nat \<times> bytes) option" where
  "encode_seq_value val cmd seq_val = do {
     seq_val \<leftarrow> mwrite seq_val 0 cmd;
     seq_val \<leftarrow> mwrites seq_val 1 val;
     Some (1 + length val, seq_val) }"

definition SIZE_MAX :: nat where "SIZE_MAX = 2 ^ 64 - 1"

text \<open>The length, the buffer \<^verbatim>\<open>val\<close> and, where it is set, the command.\<close>

definition decode_seq_value :: "bytes \<Rightarrow> bytes \<Rightarrow> (nat \<times> bytes \<times> byte option) option" where
  "decode_seq_value seq_val val =
     (if length seq_val < 1 then Some (SIZE_MAX, val, None)
      else do { val \<leftarrow> mwrites val 0 (tl seq_val); Some (length seq_val - 1, val, Some (hd seq_val)) })"

section \<open>The log\<close>

record binlog_t =
  min_seq :: u64
  cur_seq :: u64
  last_seq :: u64

record bl_buf_t =
  w_key :: bytes
  w_val :: bytes
  wk_len :: nat
  wv_len :: nat
  r_key :: bytes
  r_val :: bytes
  rk_len :: nat
  rv_len :: nat

text \<open>The database and the two globals \<^verbatim>\<open>binlog\<close> and \<^verbatim>\<open>bl_buf\<close>.\<close>

record 'w tsdb_log =
  tl_ldbs :: "'w leveldb_stuff"
  tl_binlog :: "binlog_t option"
  tl_buf :: "bl_buf_t option"

definition tl_db :: "'w tsdb_log \<Rightarrow> 'w" where
  "tl_db s = ls_db (tl_ldbs s)"

definition set_db :: "'w \<Rightarrow> 'w tsdb_log \<Rightarrow> 'w tsdb_log" where
  "set_db w s = s\<lparr>tl_ldbs := (tl_ldbs s)\<lparr>ls_db := w\<rparr>\<rparr>"

definition batch_add :: "batch_op list \<Rightarrow> 'w tsdb_log \<Rightarrow> 'w tsdb_log" where
  "batch_add ops s = s\<lparr>tl_ldbs := (tl_ldbs s)\<lparr>ls_wbatch := ls_wbatch (tl_ldbs s) @ ops\<rparr>\<rparr>"

text \<open>\<^verbatim>\<open>leveldb_write\<close> and \<^verbatim>\<open>leveldb_writebatch_clear\<close>\<close>

definition batch_write :: "('w, 'i) ldb_lib \<Rightarrow> 'w tsdb_log \<Rightarrow> bool \<times> 'w tsdb_log" where
  "batch_write L s =
     (let (err, w) = lb_write L (tl_db s) (ls_wbatch (tl_ldbs s))
      in (err, s\<lparr>tl_ldbs := (tl_ldbs s)\<lparr>ls_db := w, ls_wbatch := []\<rparr>\<rparr>))"

text \<open>The arrays of a new \<^verbatim>\<open>bl_buf\<close> are not read before they are written.\<close>

definition bl_buf_new :: bl_buf_t where
  "bl_buf_new = \<lparr>w_key = replicate BINLOG_MAX_KEY_SIZE 0, w_val = replicate BINLOG_MAX_VAL_SIZE 0, wk_len = 0, wv_len = 0,
     r_key = replicate BINLOG_MAX_KEY_SIZE 0, r_val = replicate BINLOG_MAX_VAL_SIZE 0, rk_len = 0, rv_len = 0\<rparr>"

definition binlog_open :: "('w, 'i) ldb_lib \<Rightarrow> 'w tsdb_log \<Rightarrow> bool \<Rightarrow> (int \<times> 'w tsdb_log) option" where
  "binlog_open L s is_log =
     (if \<not> is_log then Some (0, s)
      else do {
        let b = bl_buf_new;
        (n, k) \<leftarrow> encode_seq_key 0 (w_key b);
        let b = b\<lparr>w_key := k, wk_len := n\<rparr>;
        key \<leftarrow> mreads k 0 (int n);
        let iter = lb_iter_seek L (lb_create_iterator L (tl_db s)) key;
        let mn = (if lb_iter_valid L iter
                  then let q = decode_seq_key (lb_iter_key L iter) in if q = -1 then 1 else q
                  else 1);
        let iter = lb_iter_seek_to_last L iter;
        let la = (if lb_iter_valid L iter
                  then let q = decode_seq_key (lb_iter_key L iter) in if q = -1 then 0 else q
                  else 0);
        Some (0, s\<lparr>tl_binlog := Some \<lparr>min_seq = mn, cur_seq = 0, last_seq = la\<rparr>, tl_buf := Some b\<rparr>) })"

definition binlog_close :: "'w tsdb_log \<Rightarrow> 'w tsdb_log" where
  "binlog_close s = s\<lparr>tl_binlog := None\<rparr>"

text \<open>The block commented \<open>write log\<close> of the writing functions.\<close>

definition write_log :: "'w tsdb_log \<Rightarrow> u64 \<Rightarrow> byte \<Rightarrow> bytes \<Rightarrow> 'w tsdb_log option" where
  "write_log s seq cmd key = do {
     b \<leftarrow> tl_buf s;
     (n, k) \<leftarrow> encode_seq_key seq (w_key b);
     (m, v) \<leftarrow> encode_seq_value key cmd (w_val b);
     let s = s\<lparr>tl_buf := Some (b\<lparr>w_key := k, wk_len := n, w_val := v, wv_len := m\<rparr>)\<rparr>;
     kb \<leftarrow> mreads k 0 (int n);
     vb \<leftarrow> mreads v 0 (int m);
     Some (batch_add [Bat_Put kb vb] s) }"

definition next_seq :: "binlog_t \<Rightarrow> binlog_t" where
  "next_seq b = b\<lparr>last_seq := last_seq b + 1\<rparr>"

definition bump_seq :: "'w tsdb_log \<Rightarrow> 'w tsdb_log" where
  "bump_seq s = s\<lparr>tl_binlog := map_option next_seq (tl_binlog s)\<rparr>"

definition binlog_put :: "('w, 'i) ldb_lib \<Rightarrow> 'w tsdb_log \<Rightarrow> bytes \<Rightarrow> bytes \<Rightarrow> (int \<times> 'w tsdb_log) option" where
  "binlog_put L s key value = do {
     s \<leftarrow> (case tl_binlog s of None \<Rightarrow> Some s | Some b \<Rightarrow> write_log s (last_seq b + 1) CMD_SET key);
     let s = batch_add [Bat_Put key value] s;
     let (err, s) = batch_write L s;
     if err then Some (-1, s) else Some (0, bump_seq s) }"

definition binlog_delete :: "('w, 'i) ldb_lib \<Rightarrow> 'w tsdb_log \<Rightarrow> bytes \<Rightarrow> (int \<times> 'w tsdb_log) option" where
  "binlog_delete L s key = do {
     s \<leftarrow> (case tl_binlog s of None \<Rightarrow> Some s | Some b \<Rightarrow> write_log s (last_seq b + 1) CMD_DEL key);
     let s = batch_add [Bat_Del key] s;
     let (err, s) = batch_write L s;
     if err then Some (-1, s) else Some (0, bump_seq s) }"

definition binlog_batch_put :: "'w tsdb_log \<Rightarrow> bytes \<Rightarrow> bytes \<Rightarrow> (int \<times> 'w tsdb_log) option" where
  "binlog_batch_put s key value = do {
     s \<leftarrow> (case tl_binlog s of None \<Rightarrow> Some s | Some b \<Rightarrow> write_log (bump_seq s) (last_seq b + 1) CMD_SET key);
     Some (0, batch_add [Bat_Put key value] s) }"

definition binlog_batch_delete :: "'w tsdb_log \<Rightarrow> bytes \<Rightarrow> (int \<times> 'w tsdb_log) option" where
  "binlog_batch_delete s key = do {
     s \<leftarrow> (case tl_binlog s of None \<Rightarrow> Some s | Some b \<Rightarrow> write_log (bump_seq s) (last_seq b + 1) CMD_DEL key);
     Some (0, batch_add [Bat_Del key] s) }"

definition binlog_batch_commit :: "('w, 'i) ldb_lib \<Rightarrow> 'w tsdb_log \<Rightarrow> int \<times> 'w tsdb_log" where
  "binlog_batch_commit L s = (let (err, s) = batch_write L s in (if err then -1 else 0, s))"

definition binlog_syncset :: "('w, 'i) ldb_lib \<Rightarrow> 'w tsdb_log \<Rightarrow> bytes \<Rightarrow> bytes \<Rightarrow> int \<times> 'w tsdb_log" where
  "binlog_syncset L s key value =
     (let (err, w) = lb_put L (tl_db s) key value in (if err then -1 else 0, set_db w s))"

definition binlog_syncdel :: "('w, 'i) ldb_lib \<Rightarrow> 'w tsdb_log \<Rightarrow> bytes \<Rightarrow> int \<times> 'w tsdb_log" where
  "binlog_syncdel L s key =
     (let (err, val, w) = lb_get L (tl_db s) key; s = set_db w s in
      if err then (-1, s)
      else if val_len val = 0 then (0, s)
      else let (err, w) = lb_delete L w key; s = set_db w s in if err then (-1, s) else (1, s))"

section \<open>Requests to the slave\<close>

definition syncset_head :: bytes where
  "syncset_head = ascii ''*3'' @ crlf @ ascii ''$7'' @ crlf @ ascii ''SYNCSET'' @ crlf"

definition syncdel_head :: bytes where
  "syncdel_head = ascii ''*2'' @ crlf @ ascii ''$7'' @ crlf @ ascii ''SYNCDEL'' @ crlf"

text \<open>\<^verbatim>\<open>bzero\<close> of one byte more than the length, and \<^verbatim>\<open>strcpy\<close> with its terminating zero byte.\<close>

definition start_msg :: "bytes \<Rightarrow> nat \<Rightarrow> bytes \<Rightarrow> bytes option" where
  "start_msg msg len head = do { msg \<leftarrow> mwrites msg 0 (replicate (len + 1) 0); mwrites msg 0 (head @ [0]) }"

text \<open>The blocks \<open>set-cmd\<close> and \<open>del-cmd\<close> of \<^verbatim>\<open>get_binlog\<close>: the result, the message buffer, the length and the state.
  \<^verbatim>\<open>msg\<close> is the whole array, \<^verbatim>\<open>*length\<close> the size the caller gives for it, \<open>v\<close> is \<^verbatim>\<open>r_val\<close> and \<open>m\<close> is \<^verbatim>\<open>rv_len\<close>.\<close>

definition get_binlog_set ::
  "('w, 'i) ldb_lib \<Rightarrow> 'w tsdb_log \<Rightarrow> bytes \<Rightarrow> nat \<Rightarrow> bytes \<Rightarrow> nat \<Rightarrow> (int \<times> bytes \<times> nat \<times> 'w tsdb_log) option" where
  "get_binlog_set L s v m msg len = do {
     key \<leftarrow> mreads v 0 (int m);
     let (err, val, w) = lb_get L (tl_db s) key;
     let s = set_db w s;
     if err then Some (-1, msg, len, s)
     else if val_len val = 0 then Some (0, msg, 0, s)
     else do {
       value \<leftarrow> val;
       let vlen = length value;
       let bvlen = 2 + 3 + 7 * 2 + 1 + 7 + get_number_len m + m + get_number_len vlen + vlen;
       if len < bvlen then Some (-1, msg, len, s)
       else do {
         msg \<leftarrow> start_msg msg bvlen syncset_head;
         (msg, tmp) \<leftarrow> set_bulk msg (length (c_str_of msg)) v (s32 (int m));
         (msg, tmp) \<leftarrow> set_bulk msg tmp value (s32 (int vlen));
         Some (if tmp \<noteq> bvlen then -1 else 1, msg, bvlen, s) } } }"

definition get_binlog_del :: "'w tsdb_log \<Rightarrow> bytes \<Rightarrow> nat \<Rightarrow> bytes \<Rightarrow> nat \<Rightarrow> (int \<times> bytes \<times> nat \<times> 'w tsdb_log) option" where
  "get_binlog_del s v m msg len = do {
     let bvlen = 2 + 2 + 5 * 2 + 1 + 7 + get_number_len m + m;
     if len < bvlen then Some (-1, msg, len, s)
     else do {
       msg \<leftarrow> start_msg msg bvlen syncdel_head;
       (msg, tmp) \<leftarrow> set_bulk msg (length (c_str_of msg)) v (s32 (int m));
       Some (if tmp \<noteq> bvlen then -1 else 1, msg, bvlen, s) } }"

definition get_binlog ::
  "('w, 'i) ldb_lib \<Rightarrow> 'w tsdb_log \<Rightarrow> u64 \<Rightarrow> bytes \<Rightarrow> nat \<Rightarrow> (int \<times> bytes \<times> nat \<times> 'w tsdb_log) option" where
  "get_binlog L s seq msg len = do {
     b \<leftarrow> tl_buf s;
     (n, k) \<leftarrow> encode_seq_key seq (r_key b);
     let b = b\<lparr>r_key := k, rk_len := n\<rparr>;
     key \<leftarrow> mreads k 0 (int n);
     let (err, bin_value, w) = lb_get L (tl_db s) key;
     let s = set_db w (s\<lparr>tl_buf := Some b\<rparr>);
     if err then Some (-1, msg, len, s)
     else if val_len bin_value = 0 then Some (0, msg, 0, s)
     else do {
       seq_val \<leftarrow> bin_value;
       (m, v, cmd) \<leftarrow> decode_seq_value seq_val (r_val b);
       let s = s\<lparr>tl_buf := Some (b\<lparr>r_val := v, rv_len := m\<rparr>)\<rparr>;
       if m = SIZE_MAX then Some (-1, msg, len, s)
       else if cmd = Some CMD_SET then get_binlog_set L s v m msg len
       else if cmd = Some CMD_DEL then get_binlog_del s v m msg len
       else Some (-1, msg, len, s) } }"

definition del_binlog :: "('w, 'i) ldb_lib \<Rightarrow> 'w tsdb_log \<Rightarrow> u64 \<Rightarrow> (int \<times> 'w tsdb_log) option" where
  "del_binlog L s seq = do {
     b \<leftarrow> tl_buf s;
     (n, k) \<leftarrow> encode_seq_key seq (r_key b);
     key \<leftarrow> mreads k 0 (int n);
     let s = s\<lparr>tl_buf := Some (b\<lparr>r_key := k, rk_len := n\<rparr>)\<rparr>;
     let (err, w) = lb_delete L (tl_db s) key;
     Some (if err then -1 else 0, set_db w s) }"

section \<open>Keys of entries\<close>

lemma be32_masks: "(0xff00 :: u32) = push_bit 8 (mask 8)" "(0xff0000 :: u32) = push_bit 16 (mask 8)" "(0xffffffff :: u64) = mask 32"
  by (simp_all add: mask_eq_exp_minus_1 push_bit_eq_mult)

lemma be64_bytes:
  "(ucast (big_endian_u64 v) :: byte) = ucast (drop_bit 56 v)"
  "(ucast (drop_bit 8 (big_endian_u64 v)) :: byte) = ucast (drop_bit 48 v)"
  "(ucast (drop_bit 16 (big_endian_u64 v)) :: byte) = ucast (drop_bit 40 v)"
  "(ucast (drop_bit 24 (big_endian_u64 v)) :: byte) = ucast (drop_bit 32 v)"
  "(ucast (drop_bit 32 (big_endian_u64 v)) :: byte) = ucast (drop_bit 24 v)"
  "(ucast (drop_bit 40 (big_endian_u64 v)) :: byte) = ucast (drop_bit 16 v)"
  "(ucast (drop_bit 48 (big_endian_u64 v)) :: byte) = ucast (drop_bit 8 v)"
  "(ucast (drop_bit 56 (big_endian_u64 v)) :: byte) = ucast v"
  unfolding big_endian_u64_def big_endian_u32_def be32_masks Let_def
  by (rule bit_word_eqI, auto simp: bit_simps)+

lemma le64_bytes:
  "le64 w = [ucast w, ucast (drop_bit 8 w), ucast (drop_bit 16 w), ucast (drop_bit 24 w),
     ucast (drop_bit 32 w), ucast (drop_bit 40 w), ucast (drop_bit 48 w), ucast (drop_bit 56 w)]"
  by (simp add: le64_def numeral_eq_Suc)

lemma le64_big_endian: "le64 (big_endian_u64 v) = rev (le64 v)"
  by (simp add: le64_bytes be64_bytes)

lemma le64_bytes_inject: "le64 v = le64 w \<longleftrightarrow> v = w"
  by (metis le64_codec.enc_inject)

lemma big_endian_twice: "big_endian_u64 (big_endian_u64 v) = v"
  by (metis le64_big_endian le64_bytes_inject rev_rev_ident)

text \<open>The key of an entry: a byte \<^verbatim>\<open>0xff\<close> and the sequence number, most significant byte first.\<close>

definition seq_key :: "u64 \<Rightarrow> bytes" where
  "seq_key seq = 0xff # rev (le64 seq)"

lemma length_seq_key [simp]: "length (seq_key s) = 9"
  by (simp add: seq_key_def)

lemma seq_key_inject [simp]: "seq_key s = seq_key t \<longleftrightarrow> s = t"
  by (simp add: seq_key_def le64_bytes_inject)

lemma decode_seq_key_is [simp]: "decode_seq_key (seq_key s) = s"
proof -
  have "of_le (rev (le64 s)) = big_endian_u64 s"
    unfolding le64_big_endian [symmetric] by (simp add: le64_def of_le_le_bytes take_bit_word_eq_self)
  then show ?thesis by (simp add: decode_seq_key_def big_endian_twice, simp add: seq_key_def big_endian_twice)
qed

lemma encode_seq_key_is:
  assumes "9 \<le> length buf"
  shows "encode_seq_key s buf = Some (9, seq_key s @ drop 9 buf)"
proof -
  obtain b bs where b: "buf = b # bs" using assms by (cases buf) auto
  then have "mwrites (0xff # bs) 1 (rev (le64 s)) = Some (seq_key s @ drop 8 bs)"
    using assms mwrites_append [of "take 8 bs" "rev (le64 s)" "[0xff]" "drop 8 bs"] by (simp add: seq_key_def)
  then show ?thesis by (simp add: encode_seq_key_def b mwrite_def le64_big_endian)
qed

text \<open>The order of the keys is the order of the sequence numbers.\<close>

lemma snoc_less:
  fixes xs :: "'a::linorder list"
  shows "length xs = length ys \<Longrightarrow> xs @ [a] < ys @ [b] \<longleftrightarrow> xs < ys \<or> xs = ys \<and> a < b"
  by (induction xs ys rule: list_induct2) auto

lemma split_less: "(a::nat) < k \<Longrightarrow> b < k \<Longrightarrow> k * x + a < k * y + b \<longleftrightarrow> x < y \<or> x = y \<and> a < b"
proof -
  assume k: "a < k" "b < k"
  have lt: "k * u + c < k * v + d" if "u < v" "c < k" for u v c d :: nat
  proof -
    have "k * u + c < k * Suc u" using that(2) by simp
    also have "\<dots> \<le> k * v" using that(1) by (intro mult_le_mono2) simp
    finally show ?thesis by simp
  qed
  show ?thesis using lt [of x y a b] lt [of y x b a] k by (cases x y rule: linorder_cases) auto
qed

lemma byte_split: "unat w mod 2 ^ (8 * Suc n) = 256 * (unat (drop_bit 8 w) mod 2 ^ (8 * n)) + unat (ucast w :: byte)"
proof -
  have "unat w mod 2 ^ (8 * Suc n) = unat w mod (256 * 2 ^ (8 * n))" by (simp add: power_add)
  also have "\<dots> = 256 * (unat w div 256 mod 2 ^ (8 * n)) + unat w mod 256" by (simp add: mod_mult2_eq)
  also have "unat w div 256 = unat (drop_bit 8 w)" by (simp only: unat_drop_bit_eq) (simp add: drop_bit_eq_div)
  also have "unat w mod 256 = unat (ucast w :: byte)" by (simp add: unsigned_ucast_eq take_bit_eq_mod)
  finally show ?thesis .
qed

lemma rev_le_bytes_less:
  fixes v w :: "'a::len word"
  shows "rev (le_bytes n v) < rev (le_bytes n w) \<longleftrightarrow> unat v mod 2 ^ (8 * n) < unat w mod 2 ^ (8 * n)"
proof (induction n arbitrary: v w)
  case 0
  then show ?case by simp
next
  case (Suc n)
  have eq: "rev (le_bytes n (drop_bit 8 v)) = rev (le_bytes n (drop_bit 8 w)) \<longleftrightarrow>
      unat (drop_bit 8 v) mod 2 ^ (8 * n) = unat (drop_bit 8 w) mod 2 ^ (8 * n)"
    using Suc [of "drop_bit 8 v" "drop_bit 8 w"] Suc [of "drop_bit 8 w" "drop_bit 8 v"]
    by (metis linorder_neq_iff)
  have "unat (ucast x :: byte) < 256" for x :: "'a word" using unsigned_less [of "ucast x :: byte"] by simp
  then show ?case
    unfolding byte_split by (simp only: le_bytes.simps rev.simps snoc_less length_rev length_le_bytes Suc eq split_less word_less_nat_alt)
qed

lemma seq_key_less: "seq_key s < seq_key t \<longleftrightarrow> s < t"
proof -
  have "unat x < 2 ^ LENGTH(64)" for x :: u64 by (rule unsigned_less)
  then have "unat x mod 2 ^ (8 * 8) = unat x" for x :: u64 by simp
  then show ?thesis using rev_le_bytes_less [of 8 s t] by (simp add: seq_key_def le64_def word_less_nat_alt)
qed

lemma seq_key_le: "seq_key s \<le> seq_key t \<longleftrightarrow> s \<le> t"
  by (metis linorder_not_less seq_key_less)

section \<open>Writing entries\<close>

definition buf_ok :: "bl_buf_t \<Rightarrow> bool" where
  "buf_ok b \<longleftrightarrow> length (w_key b) = BINLOG_MAX_KEY_SIZE \<and> length (w_val b) = BINLOG_MAX_VAL_SIZE
     \<and> length (r_key b) = BINLOG_MAX_KEY_SIZE \<and> length (r_val b) = BINLOG_MAX_VAL_SIZE"

definition log_ok :: "'w tsdb_log \<Rightarrow> bool" where
  "log_ok s \<longleftrightarrow> (\<exists>b. tl_buf s = Some b \<and> buf_ok b)"

lemmas buf_sizes = BINLOG_MAX_KEY_SIZE_def BINLOG_MAX_VAL_SIZE_def

lemma buf_ok_new: "buf_ok bl_buf_new"
  by (simp add: buf_ok_def bl_buf_new_def)

lemma buf_ok_upd [simp]:
  "buf_ok b \<Longrightarrow> length k = 16 \<Longrightarrow> buf_ok (b\<lparr>r_key := k, rk_len := n\<rparr>)"
  "buf_ok b \<Longrightarrow> length v = 512 \<Longrightarrow> buf_ok (b\<lparr>r_val := v, rv_len := n\<rparr>)"
  "buf_ok b \<Longrightarrow> length k = 16 \<Longrightarrow> length v = 512 \<Longrightarrow> buf_ok (b\<lparr>w_key := k, wk_len := n, w_val := v, wv_len := m\<rparr>)"
  by (simp_all add: buf_ok_def buf_sizes)

lemma mreads_prefix [simp]: "mreads (xs @ ys) 0 (int (length xs)) = Some xs"
  using mreads_append [of "[]" xs ys] by simp

lemma mreads_seq_key [simp]: "mreads (seq_key s @ ys) 0 9 = Some (seq_key s)"
  using mreads_prefix [of "seq_key s" ys] by simp

lemma encode_seq_value_is:
  assumes "length val < length buf"
  shows "encode_seq_value val cmd buf = Some (1 + length val, (cmd # val) @ drop (1 + length val) buf)"
proof -
  obtain b bs where b: "buf = b # bs" using assms by (cases buf) auto
  then show ?thesis
    using assms mwrites_append [of "take (length val) bs" val "[cmd]" "drop (length val) bs"]
    by (simp add: encode_seq_value_def mwrite_def)
qed

lemma decode_seq_value_is:
  assumes "length val \<le> length buf"
  shows "decode_seq_value (cmd # val) buf = Some (length val, val @ drop (length val) buf, Some cmd)"
  using assms mwrites_append [of "take (length val) buf" val "[]" "drop (length val) buf"]
  by (simp add: decode_seq_value_def)

lemma write_log_is:
  assumes "tl_buf s = Some b" "buf_ok b" "length key \<le> 511"
  shows "\<exists>b'. buf_ok b' \<and> write_log s seq cmd key = Some (batch_add [Bat_Put (seq_key seq) (cmd # key)] (s\<lparr>tl_buf := Some b'\<rparr>))"
proof -
  have l: "length (w_key b) = 16" "length (w_val b) = 512" using assms(2) by (simp_all add: buf_ok_def buf_sizes)
  have k: "encode_seq_key seq (w_key b) = Some (9, seq_key seq @ drop 9 (w_key b))" by (simp add: encode_seq_key_is l)
  have v: "encode_seq_value key cmd (w_val b) = Some (1 + length key, (cmd # key) @ drop (1 + length key) (w_val b))"
    using assms(3) by (intro encode_seq_value_is) (simp add: l)
  have r: "mreads ((cmd # key) @ drop (1 + length key) (w_val b)) 0 (int (1 + length key)) = Some (cmd # key)"
    using mreads_prefix [of "cmd # key"] by simp
  define b' where "b' = b\<lparr>w_key := seq_key seq @ drop 9 (w_key b), wk_len := 9,
     w_val := (cmd # key) @ drop (1 + length key) (w_val b), wv_len := 1 + length key\<rparr>"
  have "buf_ok b'" unfolding b'_def using assms(2,3) l by (intro buf_ok_upd) simp_all
  moreover have "write_log s seq cmd key = Some (batch_add [Bat_Put (seq_key seq) (cmd # key)] (s\<lparr>tl_buf := Some b'\<rparr>))"
    using r unfolding b'_def by (simp add: write_log_def assms(1) k v Let_def)
  ultimately show ?thesis by blast
qed

text \<open>What the database holds, and a step that only reads.\<close>

definition tsdb_data :: "('w \<Rightarrow> (bytes \<times> bytes) list) \<Rightarrow> 'w tsdb_log \<Rightarrow> bytes \<rightharpoonup> bytes" where
  "tsdb_data entries s = map_of (entries (tl_db s))"

definition log_same :: "('w \<Rightarrow> (bytes \<times> bytes) list) \<Rightarrow> 'w tsdb_log \<Rightarrow> 'w tsdb_log \<Rightarrow> bool" where
  "log_same entries s s' \<longleftrightarrow> tsdb_data entries s' = tsdb_data entries s \<and> tl_binlog s' = tl_binlog s
     \<and> ls_wbatch (tl_ldbs s') = ls_wbatch (tl_ldbs s) \<and> log_ok s'"

lemma tl_upd [simp]:
  "tl_db (set_db w s) = w" "tl_binlog (set_db w s) = tl_binlog s" "tl_buf (set_db w s) = tl_buf s"
  "ls_wbatch (tl_ldbs (set_db w s)) = ls_wbatch (tl_ldbs s)"
  "tl_db (batch_add ops s) = tl_db s" "tl_binlog (batch_add ops s) = tl_binlog s" "tl_buf (batch_add ops s) = tl_buf s"
  "ls_wbatch (tl_ldbs (batch_add ops s)) = ls_wbatch (tl_ldbs s) @ ops"
  "tl_db (bump_seq s) = tl_db s" "tl_buf (bump_seq s) = tl_buf s" "tl_ldbs (bump_seq s) = tl_ldbs s"
  "tl_binlog (bump_seq s) = map_option next_seq (tl_binlog s)"
  "tl_db (s\<lparr>tl_buf := x\<rparr>) = tl_db s"
  "tl_db (s\<lparr>tl_binlog := y\<rparr>) = tl_db s"
  by (simp_all add: tl_db_def set_db_def batch_add_def bump_seq_def)

lemma tsdb_data_upd [simp]:
  "tsdb_data entries (s\<lparr>tl_buf := x\<rparr>) = tsdb_data entries s" "tsdb_data entries (batch_add ops s) = tsdb_data entries s"
  "tsdb_data entries (bump_seq s) = tsdb_data entries s" "tsdb_data entries (set_db w s) = map_of (entries w)"
  by (simp_all add: tsdb_data_def)

context ordered_store
begin

lemma batch_write_is:
  "\<exists>w. batch_write L s = (False, s\<lparr>tl_ldbs := (tl_ldbs s)\<lparr>ls_db := w, ls_wbatch := []\<rparr>\<rparr>)
     \<and> map_of (entries w) = batch_apply (ls_wbatch (tl_ldbs s)) (tsdb_data entries s)"
  using write_law [of "tl_db s" "ls_wbatch (tl_ldbs s)"] by (auto simp: batch_write_def tsdb_data_def)

text \<open>A logged batch: each write is preceded by its entry.\<close>

lemma logged_write:
  assumes "tl_buf s = Some b" "buf_ok b" "length key \<le> 511"
  shows "\<exists>s'. write_log s seq cmd key = Some s' \<and> tl_binlog s' = tl_binlog s \<and> log_ok s' \<and> tsdb_data entries s' = tsdb_data entries s
     \<and> ls_wbatch (tl_ldbs s') = ls_wbatch (tl_ldbs s) @ [Bat_Put (seq_key seq) (cmd # key)]"
  using write_log_is [OF assms, of seq cmd] by (auto simp: log_ok_def)

lemma batch_written:
  "\<exists>s'. batch_write L s = (False, s') \<and> tl_binlog s' = tl_binlog s \<and> tl_buf s' = tl_buf s \<and> ls_wbatch (tl_ldbs s') = []
     \<and> tsdb_data entries s' = batch_apply (ls_wbatch (tl_ldbs s)) (tsdb_data entries s)"
  using batch_write_is [of s] by (auto simp: tsdb_data_def tl_db_def)

lemma binlog_put_is:
  assumes "log_ok s" "tl_binlog s = Some b" "ls_wbatch (tl_ldbs s) = []" "length key \<le> 511"
  shows "\<exists>s'. binlog_put L s key value = Some (0, s') \<and> log_ok s' \<and> tl_binlog s' = Some (next_seq b) \<and> ls_wbatch (tl_ldbs s') = []
     \<and> tsdb_data entries s' = (tsdb_data entries s)(seq_key (last_seq b + 1) \<mapsto> CMD_SET # key, key \<mapsto> value)"
proof -
  obtain s1 where s1: "write_log s (last_seq b + 1) CMD_SET key = Some s1" "tl_binlog s1 = Some b" "log_ok s1"
      "tsdb_data entries s1 = tsdb_data entries s" "ls_wbatch (tl_ldbs s1) = [Bat_Put (seq_key (last_seq b + 1)) (CMD_SET # key)]"
    using logged_write [of s _ key "last_seq b + 1" CMD_SET] assms by (auto simp: log_ok_def)
  define s2 where "s2 = batch_add [Bat_Put key value] s1"
  obtain s3 where s3: "batch_write L s2 = (False, s3)" "tl_binlog s3 = tl_binlog s2" "tl_buf s3 = tl_buf s2" "ls_wbatch (tl_ldbs s3) = []"
      "tsdb_data entries s3 = batch_apply (ls_wbatch (tl_ldbs s2)) (tsdb_data entries s2)"
    using batch_written [of s2] by blast
  show ?thesis using s1 s3 by (auto simp: binlog_put_def assms(2) s2_def log_ok_def)
qed

lemma binlog_batch_put_is:
  assumes "log_ok s" "tl_binlog s = Some b" "length key \<le> 511"
  shows "\<exists>s'. binlog_batch_put s key value = Some (0, s') \<and> log_ok s' \<and> tl_binlog s' = Some (next_seq b)
     \<and> ls_wbatch (tl_ldbs s') = ls_wbatch (tl_ldbs s) @ [Bat_Put (seq_key (last_seq b + 1)) (CMD_SET # key), Bat_Put key value]
     \<and> tsdb_data entries s' = tsdb_data entries s"
  using logged_write [of "bump_seq s" _ key "last_seq b + 1" CMD_SET] assms
  by (auto simp: log_ok_def binlog_batch_put_def)

lemma binlog_batch_delete_is:
  assumes "log_ok s" "tl_binlog s = Some b" "length key \<le> 511"
  shows "\<exists>s'. binlog_batch_delete s key = Some (0, s') \<and> log_ok s' \<and> tl_binlog s' = Some (next_seq b)
     \<and> ls_wbatch (tl_ldbs s') = ls_wbatch (tl_ldbs s) @ [Bat_Put (seq_key (last_seq b + 1)) (CMD_DEL # key), Bat_Del key]
     \<and> tsdb_data entries s' = tsdb_data entries s"
  using logged_write [of "bump_seq s" _ key "last_seq b + 1" CMD_DEL] assms
  by (auto simp: log_ok_def binlog_batch_delete_def)

lemma binlog_batch_commit_is:
  "\<exists>s'. binlog_batch_commit L s = (0, s') \<and> tl_binlog s' = tl_binlog s \<and> tl_buf s' = tl_buf s \<and> ls_wbatch (tl_ldbs s') = []
     \<and> tsdb_data entries s' = batch_apply (ls_wbatch (tl_ldbs s)) (tsdb_data entries s)"
  using batch_written [of s] by (auto simp: binlog_batch_commit_def)

lemma binlog_syncset_is:
  "\<exists>s'. binlog_syncset L s key value = (0, s') \<and> tsdb_data entries s' = (tsdb_data entries s)(key \<mapsto> value)"
  using put_law [of "tl_db s" key "value"] by (auto simp: binlog_syncset_def tsdb_data_def)

lemma binlog_syncdel_is:
  "\<exists>s' r. binlog_syncdel L s key = (r, s') \<and> r \<in> {0, 1}
     \<and> tsdb_data entries s' = (if tsdb_data entries s key = Some [] then tsdb_data entries s else (tsdb_data entries s)(key := None))"
proof -
  obtain w' where g: "lb_get L (tl_db s) key = (False, map_of (entries (tl_db s)) key, w')" "entries w' = entries (tl_db s)"
    using get_law by blast
  obtain w'' where d: "lb_delete L w' key = (False, w'')" "map_of (entries w'') = (map_of (entries w'))(key := None)"
    using delete_law by blast
  show ?thesis using g d by (auto simp: binlog_syncdel_def tsdb_data_def val_len_def split: option.splits)
qed

end

end
