(* ===== verification/Tsdb_Request.thy ===== *)
theory Tsdb_Request
  imports Tsdb_Binlog
begin

text \<open>
  The requests \<^verbatim>\<open>get_binlog\<close> writes for the slave: its outcome by what the log and the database hold, and that
  the message is the Redis protocol's form of the command.
\<close>

section \<open>Requests\<close>

definition sync_set_req :: "bytes \<Rightarrow> bytes \<Rightarrow> bytes" where
  "sync_set_req k v = resp_array [ascii ''SYNCSET'', k, v]"

definition sync_del_req :: "bytes \<Rightarrow> bytes" where
  "sync_del_req k = resp_array [ascii ''SYNCDEL'', k]"

lemma dec_nat_digit: "n < 10 \<Longrightarrow> dec_nat n = [0x30 + of_nat n]"
  by (subst dec_nat.simps) simp

lemma sync_heads: "sync_set_req k v = syncset_head @ bulk k @ bulk v" "sync_del_req k = syncdel_head @ bulk k"
  by (simp_all add: sync_set_req_def sync_del_req_def resp_array_def bulk_def syncset_head_def syncdel_head_def dec_nat_digit ascii_def)

lemma head_facts: "0 \<notin> set syncset_head" "0 \<notin> set syncdel_head" "length syncset_head = 17" "length syncdel_head = 17"
  by (simp_all add: syncset_head_def syncdel_head_def ascii_def crlf_def)

lemma sync_req_lengths:
  "length (sync_set_req k v) = 2 + 3 + 7 * 2 + 1 + 7 + get_number_len (length k) + length k + get_number_len (length v) + length v"
  "length (sync_del_req k) = 2 + 2 + 5 * 2 + 1 + 7 + get_number_len (length k) + length k"
  by (simp_all add: sync_heads length_bulk head_facts)

lemma start_msg_is:
  assumes "0 \<notin> set head" "length head \<le> len" "len < length msg"
  shows "\<exists>msg'. start_msg msg len head = Some msg' \<and> length msg' = length msg \<and> c_str_of msg' = head \<and> take (length head) msg' = head"
proof -
  define z :: bytes where "z = replicate (len - length head) 0 @ drop (len + 1) msg"
  have r: "replicate (len + 1) 0 @ drop (len + 1) msg = replicate (length head + 1) (0 :: byte) @ z"
    using assms(2) by (simp add: z_def flip: append_assoc replicate_add)
  have w1: "mwrites msg 0 (replicate (len + 1) 0) = Some (replicate (len + 1) 0 @ drop (len + 1) msg)"
    using assms(3) by (simp add: mwrites_def)
  have w2: "mwrites (replicate (length head + 1) (0 :: byte) @ z) 0 (head @ [0]) = Some ((head @ [0]) @ z)"
    using mwrites_append [of "replicate (length head + 1) (0 :: byte)" "head @ [0]" "[]" z] by simp
  have s: "start_msg msg len head = Some ((head @ [0]) @ z)" unfolding start_msg_def w1 option.simps by (simp only: r w2 bind.bind_lunit)
  moreover have "length ((head @ [0]) @ z) = length msg" using assms(2,3) by (simp add: z_def)
  ultimately show ?thesis using c_str_of_zero [OF assms(1), of z] by simp
qed

lemma set_bulk_part:
  assumes "dst + length (bulk x) \<le> length buf" "length x \<le> length put" "take (length x) put = x" "length x \<le> 2147483647"
  shows "\<exists>buf'. set_bulk buf dst put (s32 (int (length x))) = Some (buf', dst + length (bulk x))
    \<and> length buf' = length buf \<and> take (dst + length (bulk x)) buf' = take dst buf @ bulk x"
proof -
  have "mreads put 0 (int (length x)) = mreads x 0 (int (length x))" using assms(2,3) by (simp add: mreads_def)
  then have "set_bulk buf dst put (int (length x)) = set_bulk buf dst x (int (length x))" by (simp add: set_bulk_def)
  then show ?thesis using set_bulk_writes [OF assms(1,4)] assms(4) by simp
qed

text \<open>The request is written at the start of the buffer.\<close>

lemma request_two:
  assumes "0 \<notin> set head" "length (head @ bulk k @ bulk v) < length msg" "length k \<le> 512" "length v \<le> 2147483647"
  shows "\<exists>msg1 msg2 msg3. start_msg msg (length (head @ bulk k @ bulk v)) head = Some msg1 \<and> c_str_of msg1 = head
    \<and> set_bulk msg1 (length head) (k @ rest) (s32 (int (length k))) = Some (msg2, length (head @ bulk k))
    \<and> set_bulk msg2 (length (head @ bulk k)) v (s32 (int (length v))) = Some (msg3, length (head @ bulk k @ bulk v))
    \<and> length msg3 = length msg \<and> take (length (head @ bulk k @ bulk v)) msg3 = head @ bulk k @ bulk v"
proof -
  obtain msg1 where m1: "start_msg msg (length (head @ bulk k @ bulk v)) head = Some msg1" "length msg1 = length msg"
      "c_str_of msg1 = head" "take (length head) msg1 = head"
    using start_msg_is [OF assms(1), of "length (head @ bulk k @ bulk v)" msg] assms(2) by auto
  obtain msg2 where m2: "set_bulk msg1 (length head) (k @ rest) (s32 (int (length k))) = Some (msg2, length head + length (bulk k))"
      "length msg2 = length msg1" "take (length head + length (bulk k)) msg2 = take (length head) msg1 @ bulk k"
    using set_bulk_part [of "length head" k msg1 "k @ rest"] m1(2) assms(2,3) by auto
  obtain msg3 where m3: "set_bulk msg2 (length head + length (bulk k)) v (s32 (int (length v))) = Some (msg3, length head + length (bulk k) + length (bulk v))"
      "length msg3 = length msg2"
      "take (length head + length (bulk k) + length (bulk v)) msg3 = take (length head + length (bulk k)) msg2 @ bulk v"
    using set_bulk_part [of "length head + length (bulk k)" v msg2 v] m1(2) m2(2) assms(2,4) by auto
  show ?thesis
    by (rule exI [of _ msg1], rule exI [of _ msg2], rule exI [of _ msg3]) (use m1 m2 m3 in \<open>simp add: add.assoc\<close>)
qed

lemma request_one:
  assumes "0 \<notin> set head" "length (head @ bulk k) < length msg" "length k \<le> 512"
  shows "\<exists>msg1 msg2. start_msg msg (length (head @ bulk k)) head = Some msg1 \<and> c_str_of msg1 = head
    \<and> set_bulk msg1 (length head) (k @ rest) (s32 (int (length k))) = Some (msg2, length (head @ bulk k))
    \<and> length msg2 = length msg \<and> take (length (head @ bulk k)) msg2 = head @ bulk k"
proof -
  obtain msg1 where m1: "start_msg msg (length (head @ bulk k)) head = Some msg1" "length msg1 = length msg"
      "c_str_of msg1 = head" "take (length head) msg1 = head"
    using start_msg_is [OF assms(1), of "length (head @ bulk k)" msg] assms(2) by auto
  obtain msg2 where m2: "set_bulk msg1 (length head) (k @ rest) (s32 (int (length k))) = Some (msg2, length head + length (bulk k))"
      "length msg2 = length msg1" "take (length head + length (bulk k)) msg2 = take (length head) msg1 @ bulk k"
    using set_bulk_part [of "length head" k msg1 "k @ rest"] m1(2) assms(2,3) by auto
  show ?thesis by (rule exI [of _ msg1], rule exI [of _ msg2]) (use m1 m2 in simp)
qed

context ordered_store
begin

lemma read_is: "\<exists>w'. lb_get L (tl_db s) k = (False, tsdb_data entries s k, w') \<and> entries w' = entries (tl_db s)"
  using get_law [of "tl_db s" k] by (simp add: tsdb_data_def)

text \<open>The outcome by what is stored under the sequence number.\<close>

lemma get_binlog_start:
  assumes "log_ok s"
  shows "\<exists>b w. tl_buf s = Some b \<and> length (r_key b) = 16 \<and> length (r_val b) = 512 \<and> buf_ok b
    \<and> encode_seq_key seq (r_key b) = Some (9, seq_key seq @ drop 9 (r_key b))
    \<and> lb_get L (tl_db s) (seq_key seq) = (False, tsdb_data entries s (seq_key seq), w) \<and> entries w = entries (tl_db s)"
proof -
  obtain b where b: "tl_buf s = Some b" "buf_ok b" using assms by (auto simp: log_ok_def)
  then have l: "length (r_key b) = 16" "length (r_val b) = 512" by (simp_all add: buf_ok_def buf_sizes)
  then have "encode_seq_key seq (r_key b) = Some (9, seq_key seq @ drop 9 (r_key b))" by (simp add: encode_seq_key_is)
  then show ?thesis using b l read_is [of s "seq_key seq"] by blast
qed

lemma get_binlog_absent:
  assumes "log_ok s" "tsdb_data entries s (seq_key seq) = None"
  shows "\<exists>s'. get_binlog L s seq msg len = Some (0, msg, 0, s') \<and> log_same entries s s'"
proof -
  obtain b w1 where b: "tl_buf s = Some b" "length (r_key b) = 16" "buf_ok b" "encode_seq_key seq (r_key b) = Some (9, seq_key seq @ drop 9 (r_key b))"
      "lb_get L (tl_db s) (seq_key seq) = (False, None, w1)" "entries w1 = entries (tl_db s)"
    using get_binlog_start [OF assms(1), of seq] assms(2) by auto
  then show ?thesis by (auto simp: get_binlog_def val_len_def Let_def log_same_def log_ok_def tsdb_data_def)
qed

lemma get_binlog_entry:
  assumes "log_ok s" "tsdb_data entries s (seq_key seq) = Some (c # k)" "length k \<le> 511"
  shows "\<exists>s1 rest. get_binlog L s seq msg len =
      (if c = CMD_SET then get_binlog_set L s1 (k @ rest) (length k) msg len
       else if c = CMD_DEL then get_binlog_del s1 (k @ rest) (length k) msg len
       else Some (-1, msg, len, s1)) \<and> log_same entries s s1"
proof -
  obtain b w1 where b: "tl_buf s = Some b" "length (r_key b) = 16" "length (r_val b) = 512" "buf_ok b"
      "encode_seq_key seq (r_key b) = Some (9, seq_key seq @ drop 9 (r_key b))"
      "lb_get L (tl_db s) (seq_key seq) = (False, Some (c # k), w1)" "entries w1 = entries (tl_db s)"
    using get_binlog_start [OF assms(1), of seq] assms(2) by auto
  have d: "decode_seq_value (c # k) (r_val b) = Some (length k, k @ drop (length k) (r_val b), Some c)"
    using assms(3) b(3) by (intro decode_seq_value_is) simp
  have n: "length k \<noteq> SIZE_MAX" using assms(3) by (simp add: SIZE_MAX_def)
  define b1 where "b1 = b\<lparr>r_key := seq_key seq @ drop 9 (r_key b), rk_len := 9\<rparr>"
  define b2 where "b2 = b1\<lparr>r_val := k @ drop (length k) (r_val b), rv_len := length k\<rparr>"
  define s1 where "s1 = (set_db w1 (s\<lparr>tl_buf := Some b1\<rparr>))\<lparr>tl_buf := Some b2\<rparr>"
  have "buf_ok b2" unfolding b2_def b1_def using b(2,3,4) assms(3) by (intro buf_ok_upd) simp_all
  then have "log_same entries s s1" using b(7) by (simp add: log_same_def log_ok_def s1_def tsdb_data_def)
  moreover have "get_binlog L s seq msg len =
      (if c = CMD_SET then get_binlog_set L s1 (k @ drop (length k) (r_val b)) (length k) msg len
       else if c = CMD_DEL then get_binlog_del s1 (k @ drop (length k) (r_val b)) (length k) msg len
       else Some (-1, msg, len, s1))"
    using d n by (simp add: get_binlog_def b(1,5,6) Let_def val_len_def b2_def b1_def s1_def)
  ultimately show ?thesis by blast
qed

lemma log_same_trans: "log_same entries s s1 \<Longrightarrow> log_same entries s1 s2 \<Longrightarrow> log_same entries s s2"
  by (simp add: log_same_def)

lemma get_binlog_sets:
  assumes "log_ok s" "tsdb_data entries s (seq_key seq) = Some (CMD_SET # k)" "length k \<le> 511"
    and "tsdb_data entries s k = Some v" "v \<noteq> []" "length v \<le> 2147483647"
    and "length (sync_set_req k v) \<le> len" "length (sync_set_req k v) < length msg"
  shows "\<exists>msg' s'. get_binlog L s seq msg len = Some (1, msg', length (sync_set_req k v), s') \<and> log_same entries s s'
    \<and> length msg' = length msg \<and> take (length (sync_set_req k v)) msg' = sync_set_req k v"
proof -
  obtain s1 rest where s1: "get_binlog L s seq msg len = get_binlog_set L s1 (k @ rest) (length k) msg len" "log_same entries s s1"
    using get_binlog_entry [OF assms(1-3), of msg len] by auto
  obtain w2 where g2: "lb_get L (tl_db s1) k = (False, Some v, w2)" "entries w2 = entries (tl_db s1)"
    using read_is [of s1 k] s1(2) assms(4) by (auto simp: log_same_def)
  define n where "n = length (sync_set_req k v)"
  obtain msg1 msg2 msg3 where m: "start_msg msg n syncset_head = Some msg1" "c_str_of msg1 = syncset_head"
      "set_bulk msg1 (length syncset_head) (k @ rest) (s32 (int (length k))) = Some (msg2, length (syncset_head @ bulk k))"
      "set_bulk msg2 (length (syncset_head @ bulk k)) v (s32 (int (length v))) = Some (msg3, n)"
      "length msg3 = length msg" "take n msg3 = sync_set_req k v"
    using request_two [OF head_facts(1), of k v msg rest] assms(3,6,8) by (auto simp: sync_heads n_def)
  have sz: "27 + get_number_len (length k) + length k + get_number_len (length v) + length v = n"
    using sync_req_lengths(1) [of k v] by (simp add: n_def)
  have "\<not> len < n" using assms(7) by (simp add: n_def)
  then have "get_binlog L s seq msg len = Some (1, msg3, n, set_db w2 s1)"
    unfolding s1(1) get_binlog_set_def mreads_prefix
    using m assms(5) g2(1) by (simp add: sz val_len_def Let_def del: get_number_len_is length_append)
  moreover have "log_same entries s (set_db w2 s1)" using s1(2) g2(2) by (simp add: log_same_def log_ok_def tsdb_data_def)
  ultimately show ?thesis using m(5,6) unfolding n_def by blast
qed

lemma get_binlog_gone:
  assumes "log_ok s" "tsdb_data entries s (seq_key seq) = Some (CMD_SET # k)" "length k \<le> 511"
    and "tsdb_data entries s k \<in> {None, Some []}"
  shows "\<exists>s'. get_binlog L s seq msg len = Some (0, msg, 0, s') \<and> log_same entries s s'"
proof -
  obtain s1 rest where s1: "get_binlog L s seq msg len = get_binlog_set L s1 (k @ rest) (length k) msg len" "log_same entries s s1"
    using get_binlog_entry [OF assms(1-3), of msg len] by auto
  obtain w2 where g2: "lb_get L (tl_db s1) k = (False, tsdb_data entries s k, w2)" "entries w2 = entries (tl_db s1)"
    using read_is [of s1 k] s1(2) by (auto simp: log_same_def)
  have "val_len (tsdb_data entries s k) = 0" using assms(4) by (auto simp: val_len_def)
  then have "get_binlog L s seq msg len = Some (0, msg, 0, set_db w2 s1)"
    unfolding s1(1) get_binlog_set_def mreads_prefix using g2(1) by simp
  moreover have "log_same entries s (set_db w2 s1)" using s1(2) g2(2) by (simp add: log_same_def log_ok_def tsdb_data_def)
  ultimately show ?thesis by blast
qed

text \<open>A value too long for the buffer.\<close>

lemma get_binlog_too_long:
  assumes "log_ok s" "tsdb_data entries s (seq_key seq) = Some (CMD_SET # k)" "length k \<le> 511"
    and "tsdb_data entries s k = Some v" "v \<noteq> []" "len < length (sync_set_req k v)"
  shows "\<exists>s'. get_binlog L s seq msg len = Some (-1, msg, len, s') \<and> log_same entries s s'"
proof -
  obtain s1 rest where s1: "get_binlog L s seq msg len = get_binlog_set L s1 (k @ rest) (length k) msg len" "log_same entries s s1"
    using get_binlog_entry [OF assms(1-3), of msg len] by auto
  obtain w2 where g2: "lb_get L (tl_db s1) k = (False, Some v, w2)" "entries w2 = entries (tl_db s1)"
    using read_is [of s1 k] s1(2) assms(4) by (auto simp: log_same_def)
  have "get_binlog L s seq msg len = Some (-1, msg, len, set_db w2 s1)"
    unfolding s1(1) get_binlog_set_def mreads_prefix
    using assms(5,6) g2(1) sync_req_lengths(1) [of k v] by (simp add: val_len_def Let_def)
  moreover have "log_same entries s (set_db w2 s1)" using s1(2) g2(2) by (simp add: log_same_def log_ok_def tsdb_data_def)
  ultimately show ?thesis by blast
qed

lemma get_binlog_dels:
  assumes "log_ok s" "tsdb_data entries s (seq_key seq) = Some (CMD_DEL # k)" "length k \<le> 511"
    and "length (sync_del_req k) \<le> len" "length (sync_del_req k) < length msg"
  shows "\<exists>msg' s'. get_binlog L s seq msg len = Some (1, msg', length (sync_del_req k), s') \<and> log_same entries s s'
    \<and> length msg' = length msg \<and> take (length (sync_del_req k)) msg' = sync_del_req k"
proof -
  have c: "CMD_DEL \<noteq> CMD_SET" by (simp add: CMD_DEL_def CMD_SET_def)
  obtain s1 rest where s1: "get_binlog L s seq msg len = get_binlog_del s1 (k @ rest) (length k) msg len" "log_same entries s s1"
    using get_binlog_entry [OF assms(1-3), of msg len] c by auto
  define n where "n = length (sync_del_req k)"
  obtain msg1 msg2 where m: "start_msg msg n syncdel_head = Some msg1" "c_str_of msg1 = syncdel_head"
      "set_bulk msg1 (length syncdel_head) (k @ rest) (s32 (int (length k))) = Some (msg2, n)"
      "length msg2 = length msg" "take n msg2 = sync_del_req k"
    using request_one [OF head_facts(2), of k msg rest] assms(3,5) by (auto simp: sync_heads n_def)
  have sz: "2 + 2 + 5 * 2 + 1 + 7 + get_number_len (length k) + length k = n"
    using sync_req_lengths(2) [of k] by (simp add: n_def)
  have "\<not> len < n" using assms(4) by (simp add: n_def)
  then have "get_binlog L s seq msg len = Some (1, msg2, n, s1)"
    unfolding s1(1) get_binlog_del_def sz using m by (simp add: Let_def)
  then show ?thesis using m(4,5) s1(2) unfolding n_def by blast
qed

lemma del_binlog_is:
  assumes "log_ok s"
  shows "\<exists>s'. del_binlog L s seq = Some (0, s') \<and> tsdb_data entries s' = (tsdb_data entries s)(seq_key seq := None)
    \<and> tl_binlog s' = tl_binlog s \<and> ls_wbatch (tl_ldbs s') = ls_wbatch (tl_ldbs s) \<and> log_ok s'"
proof -
  obtain b where b: "tl_buf s = Some b" "length (r_key b) = 16" "buf_ok b" "encode_seq_key seq (r_key b) = Some (9, seq_key seq @ drop 9 (r_key b))"
    using get_binlog_start [OF assms, of seq] by auto
  obtain w where "lb_delete L (tl_db s) (seq_key seq) = (False, w)" "map_of (entries w) = (map_of (entries (tl_db s)))(seq_key seq := None)"
    using delete_law by blast
  then show ?thesis using b by (auto simp: del_binlog_def Let_def log_ok_def tsdb_data_def)
qed

end

end
