(* ===== verification/Tsdb_Slave.thy ===== *)
theory Tsdb_Slave
  imports Tsdb_Request
begin

text \<open>
  The thread that brings the slave up to date, \<^verbatim>\<open>programs/TSDB/src/slave.c\<close>, as a step function between its program
  points. What the socket calls return is an argument of the step.
\<close>

section \<open>The socket\<close>

definition SEND_BUF_SIZE :: nat where "SEND_BUF_SIZE = 33554432"
definition RECV_BUF_SIZE :: nat where "RECV_BUF_SIZE = 512"

record slave_t =
  is_quit :: bool
  sl_ip :: bytes
  sl_port :: u16
  sl_sock :: int

text \<open>\<open>fd\<close> is what \<^verbatim>\<open>socket\<close> returns, \<open>conn\<close> whether \<^verbatim>\<open>connect\<close> succeeds.\<close>

definition sock_connect :: "int \<Rightarrow> bool \<Rightarrow> slave_t \<Rightarrow> int \<times> slave_t" where
  "sock_connect fd conn sl =
     (if fd = -1 \<or> \<not> conn then (-1, sl\<lparr>sl_sock := -1\<rparr>) else (0, sl\<lparr>sl_sock := fd\<rparr>))"

text \<open>The list is what the calls of \<^verbatim>\<open>send\<close> return; \<^term>\<open>None\<close> is a call that does not return.\<close>

fun send_request :: "int list \<Rightarrow> bytes \<Rightarrow> int option" where
  "send_request rs [] = Some 0"
| "send_request [] (b # msg) = None"
| "send_request (r # rs) (b # msg) = (if r < 0 then Some (-1) else send_request rs (drop (nat r) (b # msg)))"

datatype recv_ans = Rcv_data bytes | Rcv_closed | Rcv_again | Rcv_broken

fun recv_response :: "recv_ans list \<Rightarrow> bytes \<Rightarrow> (int \<times> bytes) option" where
  "recv_response [] buf = None"
| "recv_response (Rcv_data d # rs) buf = do { buf \<leftarrow> mwrites buf 0 d; Some (0, buf) }"
| "recv_response (Rcv_closed # rs) buf = Some (-1, buf)"
| "recv_response (Rcv_again # rs) buf = recv_response rs buf"
| "recv_response (Rcv_broken # rs) buf = Some (-1, buf)"

text \<open>\<^verbatim>\<open>strstr\<close>; the buffer is a C string only where it has a zero byte.\<close>

fun strstr :: "bytes \<Rightarrow> bytes \<Rightarrow> bool" where
  "strstr s p \<longleftrightarrow> take (length p) s = p \<or> (case s of [] \<Rightarrow> False | _ # s' \<Rightarrow> strstr s' p)"

declare strstr.simps [simp del]

definition check_response :: "bytes \<Rightarrow> bytes \<Rightarrow> int option" where
  "check_response buf pat = do { asserting (0 \<in> set buf); Some (if strstr (c_str_of buf) pat then 0 else -1) }"

section \<open>The thread\<close>

text \<open>The head of the outer loop, \<^verbatim>\<open>heart_beat\<close>, the head of the inner loop, \<^verbatim>\<open>send_syncdata\<close>, \<^verbatim>\<open>delete_binlog\<close> and
  the end of the thread.\<close>

datatype slave_pc = Sl_Loop | Sl_Beat | Sl_Sync | Sl_Send | Sl_Delete | Sl_End

record slave_thread =
  st_pc :: slave_pc
  st_len :: nat
  st_send :: bytes
  st_recv :: bytes
  st_slave :: slave_t

record net_ans =
  na_fd :: int
  na_conn :: bool
  na_sends :: "int list"
  na_recvs :: "recv_ans list"

definition ping_req :: bytes where
  "ping_req = ascii ''*1'' @ crlf @ ascii ''$4'' @ crlf @ ascii ''PING'' @ crlf"

definition go :: "slave_pc \<Rightarrow> slave_thread \<Rightarrow> slave_thread" where
  "go pc th = th\<lparr>st_pc := pc\<rparr>"

text \<open>\<^verbatim>\<open>close(slave->sock); slave->sock = -1;\<close> and back to the outer loop.\<close>

definition hang_up :: "slave_thread \<Rightarrow> slave_thread" where
  "hang_up th = th\<lparr>st_pc := Sl_Loop, st_slave := (st_slave th)\<lparr>sl_sock := -1\<rparr>\<rparr>"

text \<open>Sending a request, receiving and checking the response; \<open>retry\<close> and \<open>done\<close> are the points it goes on at.\<close>

definition slave_exchange ::
  "net_ans \<Rightarrow> bytes \<Rightarrow> bytes \<Rightarrow> slave_pc \<Rightarrow> slave_pc \<Rightarrow> slave_thread \<Rightarrow> slave_thread option" where
  "slave_exchange a req pat retry ok th = do {
     r \<leftarrow> send_request (na_sends a) req;
     if r \<noteq> 0 then Some (hang_up th)
     else do {
       (r, buf) \<leftarrow> recv_response (na_recvs a) (st_recv th);
       let th = th\<lparr>st_recv := buf\<rparr>;
       if r \<noteq> 0 then Some (hang_up th)
       else do { c \<leftarrow> check_response buf pat; Some (go (if c \<noteq> 0 then retry else ok) th) } } }"

definition set_cur :: "u64 \<Rightarrow> 'w tsdb_log \<Rightarrow> 'w tsdb_log" where
  "set_cur q s = s\<lparr>tl_binlog := map_option (\<lambda>b. b\<lparr>cur_seq := q\<rparr>) (tl_binlog s)\<rparr>"

definition slave_start :: "slave_thread \<Rightarrow> 'w tsdb_log \<Rightarrow> (slave_thread \<times> 'w tsdb_log) option" where
  "slave_start th s = do { b \<leftarrow> tl_binlog s; Some (go Sl_Loop th, set_cur (min_seq b) s) }"

definition slave_step ::
  "('w, 'i) ldb_lib \<Rightarrow> net_ans \<Rightarrow> slave_thread \<Rightarrow> 'w tsdb_log \<Rightarrow> (slave_thread \<times> 'w tsdb_log) option" where
  "slave_step L a th s =
     (case st_pc th of
        Sl_Loop \<Rightarrow>
          if is_quit (st_slave th) then Some (go Sl_End th, s)
          else if sl_sock (st_slave th) = -1 then
            (let (r, sl) = sock_connect (na_fd a) (na_conn a) (st_slave th); th = th\<lparr>st_slave := sl\<rparr>
             in if r = -1 then Some (th, s) else Some (go Sl_Beat th, s))
          else Some (go Sl_Beat th, s)
      | Sl_Beat \<Rightarrow> do { th \<leftarrow> slave_exchange a ping_req (ascii ''PONG'') Sl_Beat Sl_Sync th; Some (th, s) }
      | Sl_Sync \<Rightarrow> do {
          b \<leftarrow> tl_binlog s;
          if cur_seq b \<le> last_seq b then do {
            (ret, msg, len, s) \<leftarrow> get_binlog L s (cur_seq b) (st_send th) SEND_BUF_SIZE;
            let th = th\<lparr>st_send := msg, st_len := len\<rparr>;
            Some (go (if ret = -1 then Sl_Sync else if ret = 0 then Sl_Delete else Sl_Send) th, s) }
          else Some (go Sl_Loop th, s) }
      | Sl_Send \<Rightarrow> do {
          req \<leftarrow> mreads (st_send th) 0 (int (st_len th));
          th \<leftarrow> slave_exchange a req (ascii ''OK'') Sl_Send Sl_Delete th;
          Some (th, s) }
      | Sl_Delete \<Rightarrow> do {
          b \<leftarrow> tl_binlog s;
          (ret, s) \<leftarrow> del_binlog L s (cur_seq b);
          Some (go Sl_Sync th, set_cur (cur_seq b + 1) s) }
      | Sl_End \<Rightarrow> Some (th, s))"

section \<open>Opening and closing\<close>

text \<open>The two buffers are static, so zero at the start. \<^verbatim>\<open>strcpy\<close> into \<^verbatim>\<open>ip[16]\<close>; \<open>created\<close> is whether
  \<^verbatim>\<open>pthread_create\<close> succeeds.\<close>

definition slave_open :: "bool \<Rightarrow> bool \<Rightarrow> bytes \<Rightarrow> u16 \<Rightarrow> (int \<times> slave_thread option) option" where
  "slave_open is_slave created ip port =
     (if \<not> is_slave then Some (0, None)
      else do {
        asserting (length ip < 16);
        Some (if created then 0 else -1, Some
          \<lparr>st_pc = Sl_Loop, st_len = 0, st_send = replicate SEND_BUF_SIZE 0, st_recv = replicate RECV_BUF_SIZE 0,
           st_slave = \<lparr>is_quit = False, sl_ip = ip, sl_port = port, sl_sock = -1\<rparr>\<rparr>) })"

text \<open>\<^verbatim>\<open>slave_close\<close> up to the join.\<close>

definition slave_close :: "slave_thread option \<Rightarrow> slave_thread option" where
  "slave_close t = map_option (\<lambda>th. th\<lparr>st_slave := (st_slave th)\<lparr>is_quit := True\<rparr>\<rparr>) t"

end
