(* ===== verification/Tsdb_Glob.thy ===== *)
theory Tsdb_Glob
  imports Tsdb_Misc
begin

text \<open>
  The pattern matching of TSDB, \<^verbatim>\<open>string_match_len\<close> of \<^verbatim>\<open>programs/TSDB/src/misc.c\<close>, and its equivalence with the
  usual meaning of \<^verbatim>\<open>*\<close> and \<^verbatim>\<open>?\<close>.
\<close>

section \<open>Glob patterns\<close>

text \<open>\<^verbatim>\<open>string_match_len\<close> of \<^verbatim>\<open>misc.c\<close>. The lists are the memory from the pattern and from the string on, which may go
  on behind the lengths \<open>pl\<close> and \<open>sl\<close>; \<^term>\<open>None\<close> is a read behind the memory.\<close>

definition to_lower :: "byte \<Rightarrow> byte" where
  "to_lower c = (if 0x41 \<le> c \<and> c \<le> 0x5A then c + 0x20 else c)"

definition char_eq :: "bool \<Rightarrow> byte \<Rightarrow> byte \<Rightarrow> bool" where
  "char_eq nocase a b \<longleftrightarrow> (if nocase then to_lower a = to_lower b else a = b)"

definition in_range :: "bool \<Rightarrow> byte \<Rightarrow> byte \<Rightarrow> byte \<Rightarrow> bool" where
  "in_range nocase a b c =
     (let lo = min (sint a) (sint b); hi = max (sint a) (sint b); f = (\<lambda>x. if nocase \<and> 0x41 \<le> x \<and> x \<le> 0x5A then x + 0x20 else x)
      in f lo \<le> f (sint c) \<and> f (sint c) \<le> f hi)"

text \<open>The loop over \<^verbatim>\<open>pattern[1] == '*'\<close>; the pattern stays on the last star.\<close>

fun skip_stars :: "bytes \<Rightarrow> int \<Rightarrow> (bytes \<times> int) option" where
  "skip_stars (s # c # p) pl = (if c = 0x2A then skip_stars (c # p) (pl - 1) else Some (s # c # p, pl))"
| "skip_stars p pl = None"

text \<open>The loop over \<^verbatim>\<open>*pattern == '*'\<close> at the end of the string: the length that is left.\<close>

fun end_stars :: "bytes \<Rightarrow> int \<Rightarrow> int option" where
  "end_stars (c # p) pl = (if c = 0x2A then end_stars p (pl - 1) else Some pl)"
| "end_stars [] pl = None"

text \<open>The loop inside brackets: whether it matched, the pattern and its length after the closing \<^verbatim>\<open>pattern++\<close>.\<close>

fun bracket :: "bool \<Rightarrow> bytes \<Rightarrow> int \<Rightarrow> bytes \<Rightarrow> bool \<Rightarrow> (bool \<times> bytes \<times> int) option" where
  "bracket nocase [] pl str m = None"
| "bracket nocase (c # p) pl str m =
     (if c = 0x5C then
        (case (p, str) of (d # p', x # _) \<Rightarrow> bracket nocase p' (pl - 2) str (m \<or> d = x) | _ \<Rightarrow> None)
      else if c = 0x5D then Some (m, p, pl - 1)
      else if pl = 0 then Some (m, c # p, pl)
      else case p of
        [] \<Rightarrow> None
      | d # p' \<Rightarrow>
          if d = 0x2D \<and> 3 \<le> pl then
            (case (p', str) of (e # p'', x # _) \<Rightarrow> bracket nocase p'' (pl - 3) str (m \<or> in_range nocase c e x) | _ \<Rightarrow> None)
          else case str of [] \<Rightarrow> None | x # _ \<Rightarrow> bracket nocase p (pl - 1) str (m \<or> char_eq nocase c x))"

lemma skip_stars_shorter: "skip_stars p pl = Some (q, ql) \<Longrightarrow> length q \<le> length p \<and> q \<noteq> []"
  by (induction p pl rule: skip_stars.induct) (auto split: if_splits)

declare bracket.simps [simp del] skip_stars.simps [simp del]

lemma bracket_shorter: "bracket nocase p pl str m = Some (m', q, ql) \<Longrightarrow> length q \<le> length p"
proof (induction "length p" arbitrary: p pl m rule: less_induct)
  case less
  obtain c p1 where p: "p = c # p1" using less.prems by (cases p) (auto simp: bracket.simps)
  note step = less.prems [unfolded p bracket.simps]
  have IH: "bracket nocase r rl str b = Some (m', q, ql) \<Longrightarrow> length r < length p \<Longrightarrow> length q \<le> length p" for r rl b
    using less.hyps [of r rl b] by simp
  show ?case
  proof (cases "c = 0x5C \<or> c = 0x5D \<or> pl = 0")
    case True
    then show ?thesis using step IH p by (cases p1; cases str) (auto split: if_splits)
  next
    case False
    then show ?thesis using step IH p by (cases p1; cases str; cases "tl p1") (auto split: if_splits)
  qed
qed

function (sequential)
  string_match_len :: "bool \<Rightarrow> bytes \<Rightarrow> int \<Rightarrow> bytes \<Rightarrow> int \<Rightarrow> bool option" and
  match_star :: "bool \<Rightarrow> bytes \<Rightarrow> int \<Rightarrow> bytes \<Rightarrow> int \<Rightarrow> bool option" and
  match_next :: "bool \<Rightarrow> bytes \<Rightarrow> int \<Rightarrow> bytes \<Rightarrow> int \<Rightarrow> bool option" where
  "string_match_len nocase p pl str sl =
     (if pl = 0 then Some (sl = 0)
      else case p of
        [] \<Rightarrow> None
      | c # p' \<Rightarrow>
          if c = 0x2A then
            (case skip_stars p pl of
               None \<Rightarrow> None
             | Some (q, ql) \<Rightarrow> if ql = 1 then Some True else match_star nocase (tl q) (ql - 1) str sl)
          else if c = 0x3F then
            (if sl = 0 then Some False else match_next nocase p' (pl - 1) (tl str) (sl - 1))
          else if c = 0x5B then
            (case p' of
               [] \<Rightarrow> None
             | d # p'' \<Rightarrow>
                 let neg = (d = 0x5E) in
                 case bracket nocase (if neg then p'' else p') (if neg then pl - 2 else pl - 1) str False of
                   None \<Rightarrow> None
                 | Some (m, q, ql) \<Rightarrow>
                     if m = neg then Some False else match_next nocase q ql (tl str) (sl - 1))
          else
            let (q, ql) = (if c = 0x5C \<and> 2 \<le> pl then (p', pl - 1) else (p, pl)) in
            case (q, str) of
              (d # q', x # str') \<Rightarrow>
                if char_eq nocase d x then match_next nocase q' (ql - 1) str' (sl - 1) else Some False
            | _ \<Rightarrow> None)"
| "match_star nocase p pl str sl =
     (if sl = 0 then Some False
      else case string_match_len nocase p pl str sl of
        None \<Rightarrow> None
      | Some True \<Rightarrow> Some True
      | Some False \<Rightarrow> (case str of [] \<Rightarrow> None | _ # str' \<Rightarrow> match_star nocase p pl str' (sl - 1)))"
| "match_next nocase p pl str sl =
     (if sl = 0 then map_option (\<lambda>pl. pl = 0) (end_stars p pl)
      else string_match_len nocase p pl str sl)"
  by pat_completeness auto

termination
  by (relation "measures
      [\<lambda>x. case x of Inl (n, p, pl, str, sl) \<Rightarrow> 2 * length p
         | Inr (Inl (n, p, pl, str, sl)) \<Rightarrow> 2 * length p + 1 | Inr (Inr (n, p, pl, str, sl)) \<Rightarrow> 2 * length p + 1,
       \<lambda>x. case x of Inl (n, p, pl, str, sl) \<Rightarrow> length str
         | Inr (Inl (n, p, pl, str, sl)) \<Rightarrow> length str | Inr (Inr (n, p, pl, str, sl)) \<Rightarrow> length str]")
    (auto dest!: skip_stars_shorter bracket_shorter split: if_splits simp: neq_Nil_conv)

section \<open>The meaning of a pattern\<close>

function (sequential) glob :: "bytes \<Rightarrow> bytes \<Rightarrow> bool" where
  "glob [] s \<longleftrightarrow> s = []"
| "glob (c # p) s \<longleftrightarrow>
     (if c = 0x2A then glob p s \<or> (case s of [] \<Rightarrow> False | _ # s' \<Rightarrow> glob (c # p) s')
      else case s of [] \<Rightarrow> False | x # s' \<Rightarrow> (c = 0x3F \<or> c = x) \<and> glob p s')"
  by pat_completeness auto

termination
  by (relation "measures [\<lambda>(p, s). length p, \<lambda>(p, s). length s]") auto

declare string_match_len.simps [simp del] match_star.simps [simp del] match_next.simps [simp del]

lemma end_stars_is: "a \<noteq> 0x2A \<Longrightarrow> \<exists>n. end_stars (p @ a # r) (int (length p)) = Some n \<and> (n = 0 \<longleftrightarrow> glob p [])"
  by (induction p) auto

lemma skip_stars_is:
  "a \<noteq> 0x2A \<Longrightarrow> skip_stars (0x2A # p @ a # r) (1 + int (length p)) =
     Some (0x2A # dropWhile (\<lambda>c. c = 0x2A) p @ a # r, 1 + int (length (dropWhile (\<lambda>c. c = 0x2A) p)))"
proof (induction p)
  case Nil
  then show ?case by (simp add: skip_stars.simps)
next
  case (Cons c p)
  then show ?case by (auto simp: skip_stars.simps)
qed

lemma glob_star: "glob (0x2A # p) s \<longleftrightarrow> (\<exists>n \<le> length s. glob p (drop n s))"
proof (induction s)
  case Nil
  then show ?case by simp
next
  case (Cons x s)
  have "(\<exists>n \<le> length (x # s). glob p (drop n (x # s))) \<longleftrightarrow> glob p (x # s) \<or> (\<exists>n \<le> length s. glob p (drop n s))"
    by (metis (no_types, lifting) Suc_le_mono drop0 drop_Suc_Cons length_Cons not0_implies_Suc zero_le)
  then show ?case using Cons by simp
qed

lemma glob_star_star: "glob (0x2A # 0x2A # p) s \<longleftrightarrow> glob (0x2A # p) s"
proof
  assume "glob (0x2A # 0x2A # p) s"
  then obtain n where n: "n \<le> length s" "glob (0x2A # p) (drop n s)" by (auto simp only: glob_star [of "0x2A # p"])
  then obtain k where "k \<le> length (drop n s)" "glob p (drop k (drop n s))" by (auto simp only: glob_star)
  then have "k + n \<le> length s" "glob p (drop (k + n) s)" using n(1) by simp_all
  then show "glob (0x2A # p) s" by (auto simp only: glob_star)
next
  assume "glob (0x2A # p) s"
  then show "glob (0x2A # 0x2A # p) s" by simp
qed

lemma glob_drop_stars: "glob (0x2A # p) s \<longleftrightarrow> glob (0x2A # dropWhile (\<lambda>c. c = 0x2A) p) s"
  by (induction p) (auto simp: glob_star_star simp del: glob.simps)

lemma glob_no_star_empty: "p \<noteq> [] \<Longrightarrow> hd p \<noteq> 0x2A \<Longrightarrow> \<not> glob p []"
  by (cases p) auto

text \<open>A pattern of \<^verbatim>\<open>*\<close>, \<^verbatim>\<open>?\<close> and plain bytes.\<close>

definition plain_pattern :: "bytes \<Rightarrow> bool" where
  "plain_pattern p \<longleftrightarrow> 0x5B \<notin> set p \<and> 0x5C \<notin> set p"

lemma match_star_is:
  assumes ih: "\<And>t. t \<noteq> [] \<Longrightarrow> length t \<le> length s \<Longrightarrow>
      string_match_len False (p @ a # r) (int (length p)) (t @ u) (int (length t)) = Some (glob p t)"
  shows "match_star False (p @ a # r) (int (length p)) (s @ u) (int (length s)) = Some (\<exists>n < length s. glob p (drop n s))"
  using ih
proof (induction s)
  case Nil
  then show ?case by (simp add: match_star.simps)
next
  case (Cons x s)
  have h: "string_match_len False (p @ a # r) (int (length p)) ((x # s) @ u) (int (length (x # s))) = Some (glob p (x # s))"
    by (rule Cons.prems) simp_all
  have t: "match_star False (p @ a # r) (int (length p)) (s @ u) (int (length s)) = Some (\<exists>n < length s. glob p (drop n s))"
    using Cons.prems by (intro Cons.IH) auto
  have "(\<exists>n < length (x # s). glob p (drop n (x # s))) \<longleftrightarrow> glob p (x # s) \<or> (\<exists>n < length s. glob p (drop n s))"
    by (metis (no_types, lifting) Suc_less_eq drop0 drop_Suc_Cons length_Cons not0_implies_Suc zero_less_Suc)
  then show ?case using h t by (subst match_star.simps) (auto split: bool.split)
qed

lemma match_next_is:
  assumes "a \<noteq> 0x2A"
    and "s \<noteq> [] \<Longrightarrow> string_match_len False (p @ a # r) (int (length p)) (s @ u) (int (length s)) = Some (glob p s)"
  shows "match_next False (p @ a # r) (int (length p)) (s @ u) (int (length s)) = Some (glob p s)"
  using assms end_stars_is [OF assms(1), of p r] by (cases s) (auto simp: match_next.simps)

lemma string_match_len_is:
  assumes "plain_pattern p" "a \<noteq> 0x2A" "s \<noteq> []"
  shows "string_match_len False (p @ a # r) (int (length p)) (s @ u) (int (length s)) = Some (glob p s)"
  using assms
proof (induction "length p" arbitrary: p s rule: less_induct)
  case less
  show ?case
  proof (cases p)
    case Nil
    then show ?thesis using less.prems by (simp add: string_match_len.simps)
  next
    case (Cons c q)
    obtain x t where s: "s = x # t" using less.prems(3) by (cases s) auto
    have q: "plain_pattern q" "c \<noteq> 0x5B" "c \<noteq> 0x5C" using less.prems(1) Cons by (auto simp: plain_pattern_def)
    have step: "match_next False (q @ a # r) (int (length q)) (t @ u) (int (length t)) = Some (glob q t)"
      using less.hyps [of q t] less.prems(2) q(1) Cons by (intro match_next_is) auto
    show ?thesis
    proof (cases "c = 0x2A")
      case True
      define d where "d = dropWhile (\<lambda>c. c = 0x2A) q"
      have dl: "length d \<le> length q" by (simp add: d_def length_dropWhile_le)
      have dp: "plain_pattern d" using q(1) set_dropWhileD by (fastforce simp: plain_pattern_def d_def)
      have sk: "skip_stars (p @ a # r) (int (length p)) = Some (0x2A # d @ a # r, 1 + int (length d))"
        using skip_stars_is [OF less.prems(2), of q r] Cons True by (simp add: d_def)
      have ms: "match_star False (d @ a # r) (int (length d)) (s @ u) (int (length s)) = Some (\<exists>n < length s. glob d (drop n s))"
        using less.hyps [of d] dl dp less.prems(2) Cons by (intro match_star_is) simp
      have g: "glob p s \<longleftrightarrow> (\<exists>n \<le> length s. glob d (drop n s))"
        using glob_drop_stars [of q s] glob_star [of d s] Cons True by (simp add: d_def del: glob.simps)
      show ?thesis
      proof (cases "d = []")
        case True
        then show ?thesis using g sk Cons \<open>c = 0x2A\<close> by (subst string_match_len.simps) auto
      next
        case False
        then have "hd d \<noteq> 0x2A" by (metis (mono_tags) d_def hd_dropWhile)
        then have "\<not> glob d []" using False by (rule glob_no_star_empty [rotated])
        then have "glob p s \<longleftrightarrow> (\<exists>n < length s. glob d (drop n s))"
          unfolding g by (metis drop_all le_neq_implies_less less_imp_le_nat order_refl)
        then show ?thesis using False ms sk Cons \<open>c = 0x2A\<close> by (subst string_match_len.simps) auto
      qed
    next
      case False
      then show ?thesis using step q(2,3) Cons s
        by (subst string_match_len.simps) (auto simp: char_eq_def split: if_splits)
    qed
  qed
qed

end
