(* ===== verification/Tsdb_Range.thy ===== *)
theory Tsdb_Range
  imports Tsdb_Glob "HOL-Library.Sublist"
begin

text \<open>
  The commands of TSDB that walk the database, \<^verbatim>\<open>programs/TSDB/src/ldb_priv.c\<close>: a range of keys, the keys with a
  prefix, the keys whose value matches a pattern. The entries found are kept in blocks of 1024 nodes, then written
  as an array of the Redis protocol. Allocation does not fail, and a result longer than an \<^verbatim>\<open>int\<close> is undefined.
\<close>

section \<open>Entries found\<close>

definition SOME_KV_NODES_COUNT :: nat where "SOME_KV_NODES_COUNT = 1024"

definition GET_NEED_COUNT :: "nat \<Rightarrow> nat \<Rightarrow> nat" where
  "GET_NEED_COUNT idx d = idx div d + (if idx mod d \<ge> 1 then 1 else 0)"

text \<open>A node holds copies of a key and of a value; \<^verbatim>\<open>ldb_keys\<close> and \<^verbatim>\<open>ldb_values\<close> leave the value out.\<close>

record kv_list =
  kl_count :: nat
  kl_klens :: nat
  kl_vlens :: nat
  kl_knubs :: nat
  kl_vnubs :: nat
  kl_blocks :: "(bytes \<times> bytes) option list list"

definition some_kv_new :: "(bytes \<times> bytes) option list" where
  "some_kv_new = replicate SOME_KV_NODES_COUNT None"

definition kv_list_new :: kv_list where
  "kv_list_new = \<lparr>kl_count = 0, kl_klens = 0, kl_vlens = 0, kl_knubs = 0, kl_vnubs = 0, kl_blocks = [some_kv_new]\<rparr>"

text \<open>The blocks commented \<open>save parse\<close>, \<open>save key\<close> and \<open>save val\<close> of the loops; \<^verbatim>\<open>p_new\<close> is the last block.\<close>

definition kv_save :: "bool \<Rightarrow> kv_list \<Rightarrow> bytes \<Rightarrow> bytes \<Rightarrow> kv_list" where
  "kv_save vals l key val =
     (let count = kl_count l + 1;
          index = count mod SOME_KV_NODES_COUNT;
          blocks = (if count div SOME_KV_NODES_COUNT \<ge> 1 \<and> index = 1 then kl_blocks l @ [some_kv_new] else kl_blocks l);
          index = (if index = 0 then SOME_KV_NODES_COUNT else index)
      in \<lparr>kl_count = count, kl_klens = kl_klens l + length key,
          kl_vlens = (if vals then kl_vlens l + length val else kl_vlens l),
          kl_knubs = kl_knubs l + get_number_len (length key),
          kl_vnubs = (if vals then kl_vnubs l + get_number_len (length val) else kl_vnubs l),
          kl_blocks = butlast blocks @ [(last blocks)[index - 1 := Some (key, val)]]\<rparr>)"

fun write_nodes :: "bool \<Rightarrow> (bytes \<times> bytes) option list \<Rightarrow> nat \<Rightarrow> bytes \<times> nat \<Rightarrow> (nat \<times> bytes \<times> nat) option" where
  "write_nodes vals [] z b = Some (z, b)"
| "write_nodes vals (n # ns) z b =
     (if z = 0 then Some (z, b)
      else do {
        (key, val) \<leftarrow> n;
        b \<leftarrow> set_bulk (fst b) (snd b) key (s32 (int (length key)));
        b \<leftarrow> (if vals then set_bulk (fst b) (snd b) val (s32 (int (length val))) else Some b);
        write_nodes vals ns (z - 1) b })"

fun write_blocks :: "bool \<Rightarrow> nat \<Rightarrow> (bytes \<times> bytes) option list list \<Rightarrow> nat \<Rightarrow> bytes \<times> nat \<Rightarrow> (bytes \<times> nat) option" where
  "write_blocks vals 0 bs z b = Some b"
| "write_blocks vals (Suc i) [] z b = Some b"
| "write_blocks vals (Suc i) (ns # bs) z b = do { (z, b) \<leftarrow> write_nodes vals ns z b; write_blocks vals i bs z b }"

text \<open>\<open>create result\<close>: the buffer, of whole pages, and the size. Without a result the buffer is null.\<close>

definition kv_result :: "bool \<Rightarrow> nat \<Rightarrow> kv_list \<Rightarrow> (bytes option \<times> int) option" where
  "kv_result vals page l =
     (if kl_count l > 0 then do {
        let n = (if vals then kl_count l * 2 else kl_count l);
        let size = 3 + get_number_len n + 5 * n + kl_knubs l + kl_klens l + kl_vnubs l + kl_vlens l;
        asserting (size \<le> 2147483647);
        let buf = replicate (GET_NEED_COUNT size page * page) 0;
        buf \<leftarrow> mwrites buf 0 (0x2A # print_int (int n) @ crlf @ [0]);
        (buf, dst) \<leftarrow> write_blocks vals (GET_NEED_COUNT (kl_count l) SOME_KV_NODES_COUNT) (kl_blocks l) (kl_count l)
          (buf, length (c_str_of buf));
        Some (Some buf, int size) }
      else Some (None, 0))"

section \<open>The commands\<close>

text \<open>A left result is the exit \<^verbatim>\<open>FAIL_ITER_PARSE\<close>.\<close>

partial_function (option) lrange_loop :: "('w, 'i) ldb_lib \<Rightarrow> bytes \<Rightarrow> 'i \<Rightarrow> kv_list \<Rightarrow> (unit + kv_list) option" where
  "lrange_loop L ed_key iter l =
     (if \<not> lb_iter_valid L iter then Some (Inr l)
      else if lb_iter_error L iter then Some (Inl ())
      else Option.bind (strncmp ed_key (lb_iter_key L iter) (length ed_key)) (\<lambda>c.
        if 0 > c then Some (Inr l)
        else lrange_loop L ed_key (lb_iter_next L iter) (kv_save True l (lb_iter_key L iter) (lb_iter_value L iter))))"

definition ldb_lrangeget ::
  "('w, 'i) ldb_lib \<Rightarrow> nat \<Rightarrow> 'w leveldb_stuff \<Rightarrow> bytes \<Rightarrow> bytes \<Rightarrow> bytes \<Rightarrow> (bytes option \<times> int) option" where
  "ldb_lrangeget L page s pre_key st_time ed_time = do {
     let st_key = pre_key @ st_time;
     let ed_key = pre_key @ ed_time;
     let iter = lb_create_iterator L (ls_db s);
     if lb_iter_valid L iter then Some (None, -1)
     else do {
       c \<leftarrow> strncmp ed_key st_key (length ed_key);
       r \<leftarrow> (if 0 \<le> c then lrange_loop L ed_key (lb_iter_seek L iter st_key) kv_list_new else Some (Inr kv_list_new));
       case r of Inl _ \<Rightarrow> Some (None, -1) | Inr l \<Rightarrow> kv_result True page l } }"

partial_function (option) keys_loop :: "('w, 'i) ldb_lib \<Rightarrow> bytes \<Rightarrow> 'i \<Rightarrow> kv_list \<Rightarrow> (unit + kv_list) option" where
  "keys_loop L ptn iter l =
     (if \<not> lb_iter_valid L iter then Some (Inr l)
      else if lb_iter_error L iter then Some (Inl ())
      else Option.bind (prefix_match_len ptn (lb_iter_key L iter)) (\<lambda>m.
        if \<not> m then Some (Inr l)
        else keys_loop L ptn (lb_iter_next L iter) (kv_save False l (lb_iter_key L iter) [])))"

definition ldb_keys :: "('w, 'i) ldb_lib \<Rightarrow> nat \<Rightarrow> 'w leveldb_stuff \<Rightarrow> bytes \<Rightarrow> (bytes option \<times> int) option" where
  "ldb_keys L page s ptn = do {
     let iter = lb_create_iterator L (ls_db s);
     if lb_iter_valid L iter then Some (None, -1)
     else do {
       r \<leftarrow> keys_loop L ptn (lb_iter_seek L iter ptn) kv_list_new;
       case r of Inl _ \<Rightarrow> Some (None, -1) | Inr l \<Rightarrow> kv_result False page l } }"

text \<open>\<open>mem\<close> is the memory from the pattern on.\<close>

partial_function (option) values_loop :: "('w, 'i) ldb_lib \<Rightarrow> bytes \<Rightarrow> nat \<Rightarrow> 'i \<Rightarrow> kv_list \<Rightarrow> (unit + kv_list) option" where
  "values_loop L mem n iter l =
     (if \<not> lb_iter_valid L iter then Some (Inr l)
      else if lb_iter_error L iter then Some (Inl ())
      else Option.bind (string_match_len False mem (int n) (lb_iter_value L iter) (int (length (lb_iter_value L iter)))) (\<lambda>m.
        if \<not> m then values_loop L mem n (lb_iter_next L iter) l
        else values_loop L mem n (lb_iter_next L iter) (kv_save False l (lb_iter_key L iter) [])))"

definition ldb_values :: "('w, 'i) ldb_lib \<Rightarrow> nat \<Rightarrow> 'w leveldb_stuff \<Rightarrow> bytes \<Rightarrow> nat \<Rightarrow> (bytes option \<times> int) option" where
  "ldb_values L page s mem n = do {
     let iter = lb_create_iterator L (ls_db s);
     if lb_iter_valid L iter then Some (None, -1)
     else do {
       r \<leftarrow> values_loop L mem n (lb_iter_seek_to_first L iter) kv_list_new;
       case r of Inl _ \<Rightarrow> Some (None, -1) | Inr l \<Rightarrow> kv_result False page l } }"

section \<open>The blocks hold the entries\<close>

definition kv_holds :: "bool \<Rightarrow> kv_list \<Rightarrow> (bytes \<times> bytes) list \<Rightarrow> bool" where
  "kv_holds vals l es \<longleftrightarrow>
     kl_count l = length es \<and> kl_klens l = sum_list (map (length \<circ> fst) es)
     \<and> kl_knubs l = sum_list (map (get_number_len \<circ> length \<circ> fst) es)
     \<and> kl_vlens l = (if vals then sum_list (map (length \<circ> snd) es) else 0)
     \<and> kl_vnubs l = (if vals then sum_list (map (get_number_len \<circ> length \<circ> snd) es) else 0)
     \<and> (\<forall>b \<in> set (kl_blocks l). length b = 1024) \<and> kl_blocks l \<noteq> []
     \<and> length (kl_blocks l) = (if es = [] then 1 else (length es + 1023) div 1024)
     \<and> (\<exists>m. concat (kl_blocks l) = map Some es @ replicate m None)"

lemma kv_holds_new: "kv_holds vals kv_list_new []"
  by (auto simp: kv_holds_def kv_list_new_def some_kv_new_def SOME_KV_NODES_COUNT_def intro: exI [of _ 1024])

lemma length_concat_blocks: "(\<forall>b \<in> set bs. length b = n) \<Longrightarrow> length (concat bs) = n * length bs"
  by (induction bs) (auto simp: algebra_simps)

lemma concat_update_last:
  assumes "bs \<noteq> []"
  shows "concat (butlast bs @ [(last bs)[i := x]]) = (concat bs)[length (concat (butlast bs)) + i := x]"
proof -
  have "concat bs = concat (butlast bs) @ last bs" using assms by (metis append_butlast_last_id concat.simps concat_append append_Nil2)
  then show ?thesis by (simp add: list_update_append)
qed

lemma block_arith:
  "(n + 1) div 1024 \<ge> (1 :: nat) \<and> (n + 1) mod 1024 = 1 \<longleftrightarrow> n mod 1024 = 0 \<and> n \<noteq> 0"
  "(if (n + 1) mod 1024 = 0 then 1024 else (n + 1) mod 1024) - 1 = (n :: nat) mod 1024"
  by (auto simp: mod_Suc div_Suc split: if_splits)

lemma block_count: "(n + 1023) div 1024 = (n :: nat) div 1024 + (if n mod 1024 = 0 then 0 else 1)"
proof -
  have "(n + 1023) div 1024 = (1024 * (n div 1024) + (n mod 1024 + 1023)) div 1024" by (simp add: add.assoc [symmetric])
  also have "\<dots> = n div 1024 + (n mod 1024 + 1023) div 1024" by (rule div_mult_self4) simp
  also have "(n mod 1024 + 1023) div 1024 = (if n mod 1024 = 0 then 0 else 1)"
  proof (cases "n mod 1024 = 0")
    case False
    then have "1024 \<le> n mod 1024 + 1023" "n mod 1024 + 1023 < 2 * 1024" by simp_all
    then show ?thesis using False by (simp add: div_nat_eqI)
  qed simp
  finally show ?thesis .
qed

lemma kv_save_room:
  assumes "kv_holds vals l es"
  defines "bs \<equiv> (if length es mod 1024 = 0 \<and> length es \<noteq> 0 then kl_blocks l @ [some_kv_new] else kl_blocks l)"
  shows "bs \<noteq> [] \<and> (\<forall>b \<in> set bs. length b = 1024) \<and> length bs = length es div 1024 + 1
    \<and> (\<exists>m. concat bs = map Some es @ replicate m None)"
proof -
  note h = assms(1) [unfolded kv_holds_def]
  have n: "length (kl_blocks l) = (if es = [] then 1 else (length es + 1023) div 1024)" using h by blast
  obtain m where m: "concat (kl_blocks l) = map Some es @ replicate m None" using h by blast
  show ?thesis
  proof (cases "length es mod 1024 = 0 \<and> length es \<noteq> 0")
    case True
    have "concat bs = map Some es @ replicate (m + 1024) None"
      using True m by (simp add: bs_def some_kv_new_def SOME_KV_NODES_COUNT_def replicate_add)
    moreover have "bs = kl_blocks l @ [some_kv_new]" using True by (simp add: bs_def)
    moreover have "length (kl_blocks l) = length es div 1024" using True n block_count [of "length es"] by auto
    ultimately show ?thesis using h by (auto simp: some_kv_new_def SOME_KV_NODES_COUNT_def)
  next
    case False
    then have "length (kl_blocks l) = length es div 1024 + 1" using n block_count [of "length es"] by auto
    moreover have "bs = kl_blocks l" using False by (auto simp: bs_def)
    ultimately show ?thesis using h m by auto
  qed
qed

lemma kv_save_blocks:
  assumes "kl_count l = n"
  shows "kl_blocks (kv_save vals l k v) =
    (let bs = (if n mod 1024 = 0 \<and> n \<noteq> 0 then kl_blocks l @ [some_kv_new] else kl_blocks l)
     in butlast bs @ [(last bs)[n mod 1024 := Some (k, v)]])"
  unfolding kv_save_def Let_def SOME_KV_NODES_COUNT_def assms block_arith by simp

lemma kv_save_holds:
  assumes "kv_holds vals l es"
  shows "kv_holds vals (kv_save vals l k v) (es @ [(k, v)])"
proof -
  define n where "n = length es"
  define bs where "bs = (if n mod 1024 = 0 \<and> n \<noteq> 0 then kl_blocks l @ [some_kv_new] else kl_blocks l)"
  have bs: "bs \<noteq> []" "\<forall>b \<in> set bs. length b = 1024" "length bs = n div 1024 + 1"
    using kv_save_room [OF assms] unfolding bs_def n_def by blast+
  obtain m where m: "concat bs = map Some es @ replicate m None" using kv_save_room [OF assms] unfolding bs_def n_def by blast
  have c: "kl_count l = n" using assms by (simp add: kv_holds_def n_def)
  have k: "kl_blocks (kv_save vals l k v) = butlast bs @ [(last bs)[n mod 1024 := Some (k, v)]]"
    unfolding kv_save_blocks [OF c] by (simp add: bs_def Let_def)
  have p: "length (concat (butlast bs)) + n mod 1024 = n"
  proof -
    have "length (concat (butlast bs)) = 1024 * (n div 1024)"
      using length_concat_blocks [of "butlast bs" 1024] bs by (auto dest: in_set_butlastD)
    then show ?thesis by simp
  qed
  have "n + m = 1024 * (n div 1024 + 1)" using length_concat_blocks [OF bs(2)] bs(3) m by (simp add: n_def)
  moreover have "n < 1024 * (n div 1024 + 1)" using mult_div_mod_eq [of 1024 n] by simp
  ultimately obtain m' where m': "m = Suc m'" by (cases m) simp_all
  have cc: "concat (kl_blocks (kv_save vals l k v)) = map Some (es @ [(k, v)]) @ replicate m' None"
    unfolding k concat_update_last [OF bs(1)] p m m' by (simp add: list_update_append n_def)
  have "length (kl_blocks (kv_save vals l k v)) = (length (es @ [(k, v)]) + 1023) div 1024"
    using bs(1,3) by (simp add: k n_def)
  moreover have "\<forall>b \<in> set (kl_blocks (kv_save vals l k v)). length b = 1024"
    using bs(1,2) by (auto simp: k dest: in_set_butlastD)
  moreover have "kl_blocks (kv_save vals l k v) \<noteq> []" by (simp add: k)
  ultimately show ?thesis using assms cc unfolding kv_holds_def
    by (intro conjI) (auto simp: kv_save_def Let_def)
qed
section \<open>The result is an array\<close>

text \<open>The strings of an entry.\<close>

definition kv_strings :: "bool \<Rightarrow> bytes \<times> bytes \<Rightarrow> bytes list" where
  "kv_strings vals e = (if vals then [fst e, snd e] else [fst e])"

lemma write_nodes_append:
  "write_nodes vals (xs @ ys) z b = Option.bind (write_nodes vals xs z b) (\<lambda>(z, b). write_nodes vals ys z b)"
proof (induction xs arbitrary: z b)
  case (Cons x xs)
  show ?case
  proof (cases "z = 0")
    case True
    then show ?thesis by (cases ys) auto
  next
    case False
    then show ?thesis using Cons by (auto split: option.split prod.split bind_split)
  qed
qed simp

lemma write_blocks_concat: "length bs \<le> i \<Longrightarrow> write_blocks vals i bs z b = map_option snd (write_nodes vals (concat bs) z b)"
proof (induction bs arbitrary: i z b)
  case Nil
  then show ?case by (cases i) auto
next
  case (Cons ns bs)
  then obtain j where j: "i = Suc j" "length bs \<le> j" by (cases i) auto
  show ?case unfolding j(1) write_blocks.simps concat.simps write_nodes_append
    by (cases "write_nodes vals ns z b") (auto simp: Cons.IH [OF j(2)])
qed

lemma write_nodes_done: "write_nodes vals ns 0 b = Some (0, b)"
  by (cases ns) auto

lemma set_bulk_next:
  assumes "snd b + length (bulk x) \<le> length (fst b)" "length x \<le> 2147483647"
  shows "\<exists>b'. set_bulk (fst b) (snd b) x (s32 (int (length x))) = Some b' \<and> length (fst b') = length (fst b)
    \<and> snd b' = snd b + length (bulk x) \<and> take (snd b') (fst b') = take (snd b) (fst b) @ bulk x"
  using set_bulk_writes [OF assms] assms(2) by auto

lemma write_nodes_is:
  assumes "snd b + length (concat (map bulk (concat (map (kv_strings vals) es)))) \<le> length (fst b)"
    "\<forall>e \<in> set es. \<forall>x \<in> set (kv_strings vals e). length x \<le> 2147483647"
  shows "\<exists>b'. write_nodes vals (map Some es @ rest) (length es) b = Some (0, b') \<and> length (fst b') = length (fst b)
    \<and> take (snd b') (fst b') = take (snd b) (fst b) @ concat (map bulk (concat (map (kv_strings vals) es)))
    \<and> snd b' = snd b + length (concat (map bulk (concat (map (kv_strings vals) es))))"
  using assms
proof (induction es arbitrary: b)
  case Nil
  then show ?case by (simp add: write_nodes_done)
next
  case (Cons e es)
  obtain k v where e: "e = (k, v)" by (cases e)
  let ?tail = "concat (map bulk (concat (map (kv_strings vals) es)))"
  obtain b1 where b1: "set_bulk (fst b) (snd b) k (s32 (int (length k))) = Some b1" "length (fst b1) = length (fst b)"
      "snd b1 = snd b + length (bulk k)" "take (snd b1) (fst b1) = take (snd b) (fst b) @ bulk k"
    using set_bulk_next [of b k] Cons.prems e by (auto simp: kv_strings_def split: if_splits)
  obtain b2 where b2: "(if vals then set_bulk (fst b1) (snd b1) v (s32 (int (length v))) else Some b1) = Some b2" "length (fst b2) = length (fst b)"
      "snd b2 = snd b + length (concat (map bulk (kv_strings vals e)))"
      "take (snd b2) (fst b2) = take (snd b) (fst b) @ concat (map bulk (kv_strings vals e))"
  proof (cases vals)
    case True
    then show ?thesis using that set_bulk_next [of b1 v] b1 Cons.prems e by (fastforce simp: kv_strings_def)
  next
    case False
    then show ?thesis using that b1 e by (simp add: kv_strings_def)
  qed
  obtain b3 where b3: "write_nodes vals (map Some es @ rest) (length es) b2 = Some (0, b3)" "length (fst b3) = length (fst b2)"
      "take (snd b3) (fst b3) = take (snd b2) (fst b2) @ ?tail" "snd b3 = snd b2 + length ?tail"
    using Cons.IH [of b2] Cons.prems b2(2,3) by auto
  have "write_nodes vals (map Some (e # es) @ rest) (length (e # es)) b = Some (0, b3)"
    using b1(1) b2(1) b3(1) e by simp
  then show ?case using b2(2-4) b3(2-4) by simp
qed

lemma sum_bulks:
  "length (concat (map bulk (concat (map (kv_strings vals) es)))) =
     5 * ((if vals then 2 else 1) * length es) + sum_list (map (get_number_len \<circ> length \<circ> fst) es) + sum_list (map (length \<circ> fst) es)
     + (if vals then sum_list (map (get_number_len \<circ> length \<circ> snd) es) + sum_list (map (length \<circ> snd) es) else 0)"
  by (induction es) (auto simp: kv_strings_def length_bulk)

definition kv_array :: "bool \<Rightarrow> (bytes \<times> bytes) list \<Rightarrow> bytes" where
  "kv_array vals es = resp_array (concat (map (kv_strings vals) es))"

lemma kv_need_count: "0 < page \<Longrightarrow> n \<le> GET_NEED_COUNT n page * page"
proof -
  assume "0 < page"
  then have m: "n mod page < page" by simp
  have d: "n div page * page + n mod page = n" by simp
  have "n \<le> n div page * page + page" using m d by linarith
  moreover have "n \<le> n div page * page" if "n mod page = 0" using d that by linarith
  ultimately show ?thesis by (auto simp: GET_NEED_COUNT_def add_mult_distrib)
qed

lemma kv_array_length:
  "length (kv_array vals es) = 3 + get_number_len (length (concat (map (kv_strings vals) es)))
     + length (concat (map bulk (concat (map (kv_strings vals) es))))"
  by (simp add: kv_array_def resp_array_def crlf_def)

lemma array_small:
  assumes "length (kv_array vals es) \<le> n"
  shows "\<forall>e \<in> set es. \<forall>x \<in> set (kv_strings vals e). length x \<le> n"
proof (intro ballI)
  fix e x assume "e \<in> set es" "x \<in> set (kv_strings vals e)"
  then have "x \<in> set (concat (map (kv_strings vals) es))" by auto
  then obtain ys zs where "concat (map (kv_strings vals) es) = ys @ x # zs" by (meson in_set_conv_decomp)
  then have "length x \<le> length (kv_array vals es)" by (simp add: kv_array_def resp_array_def bulk_def)
  then show "length x \<le> n" using assms by simp
qed

lemma strings_count: "length (concat (map (kv_strings vals) es)) = (if vals then length es * 2 else length es)"
  by (induction es) (auto simp: kv_strings_def)

lemma kv_result_is:
  assumes h: "kv_holds vals l es" and ne: "es \<noteq> []" and page: "0 < page" and sz: "length (kv_array vals es) \<le> 2147483647"
  shows "\<exists>buf. kv_result vals page l = Some (Some buf, int (length (kv_array vals es))) \<and> take (length (kv_array vals es)) buf = kv_array vals es"
proof -
  note small = array_small [OF sz]
  define n where "n = length (concat (map (kv_strings vals) es))"
  define size where "size = length (kv_array vals es)"
  let ?body = "concat (map bulk (concat (map (kv_strings vals) es)))"
  define buf where "buf = replicate (GET_NEED_COUNT size page * page) (0 :: byte)"
  have n: "(if vals then length es * 2 else length es) = n" by (simp add: n_def strings_count)
  have size: "3 + get_number_len n + 5 * n + kl_knubs l + kl_klens l + kl_vnubs l + kl_vlens l = size"
    using h unfolding size_def kv_array_length sum_bulks kv_holds_def n_def [symmetric]
    by (simp add: n_def strings_count)
  define hd where "hd = 0x2A # dec_nat n @ crlf"
  have room: "length hd + length ?body \<le> length buf" "length hd + length ?body = size" "size \<le> length buf"
    using kv_need_count [OF page, of size] by (simp_all add: buf_def hd_def size_def kv_array_length n_def crlf_def)
  have body: "0 < length ?body" using ne by (cases es) (auto simp: kv_strings_def bulk_def)
  have r1: "length hd < length buf" using room(1) body by linarith
  define buf1 where "buf1 = (hd @ [0]) @ drop (length hd + 1) buf"
  have w: "mwrites buf 0 (0x2A # print_int (int n) @ crlf @ [0]) = Some buf1"
    using r1 by (simp add: mwrites_def buf1_def hd_def print_int_def)
  have "0 \<notin> set hd" using digits_no_zero [of "dec_nat n"] dec_nat_digits by (auto simp: hd_def crlf_def)
  then have c: "c_str_of buf1 = hd" by (simp add: buf1_def c_str_of_zero)
  have l1: "length buf1 = length buf" using r1 by (simp add: buf1_def)
  obtain m where m: "concat (kl_blocks l) = map Some es @ replicate m None" using h by (auto simp: kv_holds_def)
  have cnt: "kl_count l = length es" using h by (simp add: kv_holds_def)
  have bl: "length (kl_blocks l) \<le> GET_NEED_COUNT (length es) 1024"
    using h ne block_count [of "length es"] by (auto simp: kv_holds_def GET_NEED_COUNT_def)
  obtain b where b: "write_nodes vals (map Some es @ replicate m None) (length es) (buf1, length hd) = Some (0, b)"
      "take (snd b) (fst b) = take (length hd) buf1 @ ?body" "snd b = length hd + length ?body"
    using write_nodes_is [of "(buf1, length hd)" vals es "replicate m None"] room(1) l1 small by auto
  have wb: "write_blocks vals (GET_NEED_COUNT (length es) 1024) (kl_blocks l) (length es) (buf1, length hd) = Some b"
    unfolding write_blocks_concat [OF bl] m b(1) by simp
  have "kv_result vals page l = Some (Some (fst b), int size)"
    unfolding kv_result_def Let_def cnt n size SOME_KV_NODES_COUNT_def buf_def [symmetric] w
    using ne sz by (simp add: c wb size_def [symmetric] split: prod.split)
  moreover have "take size (fst b) = kv_array vals es"
    using b(2,3) room(2) by (simp add: buf1_def hd_def kv_array_def resp_array_def n_def)
  ultimately show ?thesis unfolding size_def by blast
qed
section \<open>Walking in order\<close>

lemma take_mono_le: "(k :: bytes) \<le> k' \<Longrightarrow> take n k \<le> take n k'"
proof (induction n arbitrary: k k')
  case (Suc n)
  then show ?case by (cases k; cases k') auto
qed simp

lemma take_le: "take n (k :: bytes) \<le> k"
proof (induction n arbitrary: k)
  case (Suc n)
  then show ?case by (cases k) auto
qed simp

lemma takeWhile_ordered:
  assumes "sorted_wrt (<) (map fst es)" "\<And>x y. x \<in> fst ` set es \<Longrightarrow> y \<in> fst ` set es \<Longrightarrow> x \<le> y \<Longrightarrow> Q y \<Longrightarrow> Q (x :: bytes)"
  shows "takeWhile (\<lambda>e. Q (fst e)) es = filter (\<lambda>e. Q (fst e)) es"
  using assms
proof (induction es)
  case (Cons e es)
  show ?case
  proof (cases "Q (fst e)")
    case True
    then show ?thesis using Cons by auto
  next
    case False
    then have "filter (\<lambda>e. Q (fst e)) es = []" using Cons.prems by (fastforce simp: filter_empty_conv)
    then show ?thesis using False by simp
  qed
qed simp

lemma strncmp_order:
  assumes "0 \<notin> set ed" "\<not> strict_prefix k ed"
  shows "\<exists>c. strncmp ed k (length ed) = Some c \<and> (0 > c \<longleftrightarrow> \<not> take (length ed) k \<le> ed)"
  using assms
proof (induction ed arbitrary: k)
  case (Cons x ed)
  obtain y k' where k: "k = y # k'" using Cons.prems(2) by (cases k) auto
  show ?case
  proof (cases "x = y")
    case True
    then have "\<not> strict_prefix k' ed" using Cons.prems(2) k by (auto simp: strict_prefix_def)
    then show ?thesis using Cons.IH [of k'] Cons.prems(1) True k by auto
  next
    case False
    then have "uint x \<noteq> uint y" by (simp add: word_uint_eq_iff)
    then show ?thesis using False k by (auto simp: word_less_def word_le_def not_le linorder_not_le)
  qed
qed simp

context ordered_store
begin

lemma iter_induct:
  assumes "\<And>i. ahead i = [] \<Longrightarrow> P i" "\<And>i e es. ahead i = e # es \<Longrightarrow> ahead (lb_iter_next L i) = es \<Longrightarrow> P (lb_iter_next L i) \<Longrightarrow> P i"
  shows "P i"
proof (induction "ahead i" arbitrary: i)
  case Nil
  then show ?case using assms(1) by simp
next
  case (Cons e es)
  then have "ahead (lb_iter_next L i) = es" using next_law [of i] by (metis list.sel(3) list.discI)
  then show ?case using assms(2) [of i e es] Cons by simp
qed

lemma lrange_loop_is:
  assumes "0 \<notin> set ed" "\<forall>e \<in> set (ahead i). \<not> strict_prefix (fst e) ed" "kv_holds True l es0"
  shows "\<exists>l'. lrange_loop L ed i l = Some (Inr l') \<and> kv_holds True l' (es0 @ takeWhile (\<lambda>e. take (length ed) (fst e) \<le> ed) (ahead i))"
  using assms(2,3)
proof (induction i arbitrary: l es0 rule: iter_induct)
  case (1 i)
  then show ?case using valid_law [of i] by (subst lrange_loop.simps) simp
next
  case (2 i e es)
  obtain c where c: "strncmp ed (fst e) (length ed) = Some c" "0 > c \<longleftrightarrow> \<not> take (length ed) (fst e) \<le> ed"
    using strncmp_order [OF assms(1), of "fst e"] 2(1,4) by auto
  have i: "lb_iter_valid L i" "\<not> lb_iter_error L i" "lb_iter_key L i = fst e" "lb_iter_value L i = snd e"
    using valid_law [of i] error_law [of i] key_law [of i] value_law [of i] 2(1) by auto
  show ?case
  proof (cases "0 > c")
    case True
    then show ?thesis using i c 2(1,5) by (subst lrange_loop.simps) simp
  next
    case False
    have "kv_holds True (kv_save True l (fst e) (snd e)) (es0 @ [e])" using kv_save_holds [OF 2(5), of "fst e" "snd e"] by simp
    then obtain l' where "lrange_loop L ed (lb_iter_next L i) (kv_save True l (fst e) (snd e)) = Some (Inr l')"
        "kv_holds True l' ((es0 @ [e]) @ takeWhile (\<lambda>e. take (length ed) (fst e) \<le> ed) es)"
      using 2(3) [of "kv_save True l (fst e) (snd e)" "es0 @ [e]"] 2(1,2,4) by auto
    then show ?thesis using False i c 2(1) by (subst lrange_loop.simps) simp
  qed
qed

lemma keys_loop_is:
  assumes "0 \<notin> set ptn" "kv_holds False l es0"
  shows "\<exists>l'. keys_loop L ptn i l = Some (Inr l')
    \<and> kv_holds False l' (es0 @ map (\<lambda>e. (fst e, [])) (takeWhile (\<lambda>e. take (length ptn) (fst e) = ptn) (ahead i)))"
  using assms(2)
proof (induction i arbitrary: l es0 rule: iter_induct)
  case (1 i)
  then show ?case using valid_law [of i] by (subst keys_loop.simps) simp
next
  case (2 i e es)
  have i: "lb_iter_valid L i" "\<not> lb_iter_error L i" "lb_iter_key L i = fst e"
    using valid_law [of i] error_law [of i] key_law [of i] 2(1) by auto
  show ?case
  proof (cases "take (length ptn) (fst e) = ptn")
    case False
    then show ?thesis using i prefix_match_len_is [OF assms(1)] 2(1,4) by (subst keys_loop.simps) simp
  next
    case True
    obtain l' where "keys_loop L ptn (lb_iter_next L i) (kv_save False l (fst e) []) = Some (Inr l')"
        "kv_holds False l' ((es0 @ [(fst e, [])]) @ map (\<lambda>e. (fst e, [])) (takeWhile (\<lambda>e. take (length ptn) (fst e) = ptn) es))"
      using 2(3) [OF kv_save_holds [OF 2(4)], of "fst e" "[]"] 2(2) by auto
    then show ?thesis using True i prefix_match_len_is [OF assms(1)] 2(1) by (subst keys_loop.simps) simp
  qed
qed

lemma values_loop_is:
  assumes "plain_pattern p" "a \<noteq> 0x2A" "\<forall>e \<in> set (ahead i). snd e \<noteq> []" "kv_holds False l es0"
  shows "\<exists>l'. values_loop L (p @ a # r) (length p) i l = Some (Inr l')
    \<and> kv_holds False l' (es0 @ map (\<lambda>e. (fst e, [])) (filter (\<lambda>e. glob p (snd e)) (ahead i)))"
  using assms(3,4)
proof (induction i arbitrary: l es0 rule: iter_induct)
  case (1 i)
  then show ?case using valid_law [of i] by (subst values_loop.simps) simp
next
  case (2 i e es)
  have i: "lb_iter_valid L i" "\<not> lb_iter_error L i" "lb_iter_key L i = fst e" "lb_iter_value L i = snd e"
    using valid_law [of i] error_law [of i] key_law [of i] value_law [of i] 2(1) by auto
  have m: "string_match_len False (p @ a # r) (int (length p)) (snd e) (int (length (snd e))) = Some (glob p (snd e))"
    using string_match_len_is [OF assms(1,2), of "snd e" r "[]"] 2(1,4) by simp
  show ?case
  proof (cases "glob p (snd e)")
    case False
    then show ?thesis using i m 2 by (subst values_loop.simps) auto
  next
    case True
    obtain l' where "values_loop L (p @ a # r) (length p) (lb_iter_next L i) (kv_save False l (fst e) []) = Some (Inr l')"
        "kv_holds False l' ((es0 @ [(fst e, [])]) @ map (\<lambda>e. (fst e, [])) (filter (\<lambda>e. glob p (snd e)) es))"
      using 2(3) [OF _ kv_save_holds [OF 2(5)], of "fst e" "[]"] 2(1,2,4) by auto
    then show ?thesis using True i m 2(1) by (subst values_loop.simps) simp
  qed
qed

end
section \<open>The answers\<close>

text \<open>The array of the strings, or the null result that stands for none.\<close>

definition answers :: "bytes list \<Rightarrow> (bytes option \<times> int) option \<Rightarrow> bool" where
  "answers xs r \<longleftrightarrow> (if xs = [] then r = Some (None, 0)
     else \<exists>buf. r = Some (Some buf, int (length (resp_array xs))) \<and> take (length (resp_array xs)) buf = resp_array xs)"

lemma kv_result_answers:
  assumes "kv_holds vals l es" "0 < page" "length (kv_array vals es) \<le> 2147483647"
  shows "answers (concat (map (kv_strings vals) es)) (kv_result vals page l)"
proof (cases "es = []")
  case True
  then show ?thesis using assms(1) by (simp add: answers_def kv_result_def kv_holds_def)
next
  case False
  then have "concat (map (kv_strings vals) es) \<noteq> []" by (cases es) (auto simp: kv_strings_def)
  then show ?thesis using kv_result_is [OF assms(1) False assms(2,3)]
    unfolding answers_def kv_array_def by (simp only: if_False)
qed

text \<open>The comparison with the end of a range looks at its bytes only: a key that goes on behind them is not told from
  the end itself.\<close>

lemma take_le_iff:
  fixes k :: bytes
  assumes "\<not> strict_prefix ed k"
  shows "take (length ed) k \<le> ed \<longleftrightarrow> k \<le> ed"
  using assms
proof (induction ed arbitrary: k)
  case Nil
  then have "k = []" by (auto simp: strict_prefix_def)
  then show ?case by simp
next
  case (Cons e ed)
  show ?case
  proof (cases k)
    case (Cons x k')
    then have "x = e \<longrightarrow> \<not> strict_prefix ed k'" using Cons.prems by (auto simp: strict_prefix_def)
    then show ?thesis using Cons Cons.IH [of k'] by (cases "x = e") simp_all
  qed simp
qed

lemma key_strings: "concat (map (kv_strings False) (map (\<lambda>e. (fst e, [])) es)) = map fst es"
  by (induction es) (auto simp: kv_strings_def)

lemma entry_strings: "concat (map (kv_strings True) es) = concat (map (\<lambda>e. [fst e, snd e]) es)"
  by (rule arg_cong [of _ _ concat]) (simp add: kv_strings_def)

context ordered_store
begin

lemma ldb_keys_is:
  assumes "0 \<notin> set ptn" "0 < page"
    and "length (resp_array (filter (\<lambda>k. take (length ptn) k = ptn) (map fst (entries (ls_db s))))) \<le> 2147483647"
  shows "answers (filter (\<lambda>k. take (length ptn) k = ptn) (map fst (entries (ls_db s)))) (ldb_keys L page s ptn)"
proof -
  let ?i = "lb_create_iterator L (ls_db s)" and ?es = "entries (ls_db s)"
  let ?found = "filter (\<lambda>e. take (length ptn) (fst e) = ptn) ?es"
  have "takeWhile (\<lambda>e. take (length ptn) (fst e) = ptn) (filter (\<lambda>e. ptn \<le> fst e) ?es)
      = filter (\<lambda>e. take (length ptn) (fst e) = ptn) (filter (\<lambda>e. ptn \<le> fst e) ?es)"
  proof (rule takeWhile_ordered)
    show "sorted_wrt (<) (map fst (filter (\<lambda>e. ptn \<le> fst e) ?es))" by (rule ordered_filter [OF ordered])
    fix x y assume "x \<in> fst ` set (filter (\<lambda>e. ptn \<le> fst e) ?es)" "x \<le> y" "take (length ptn) y = ptn"
    then show "take (length ptn) x = ptn" using take_mono_le [of ptn x "length ptn"] take_mono_le [of x y "length ptn"] by auto
  qed
  also have "\<dots> = ?found" using take_le [of "length ptn"] by (auto intro!: filter_cong) (metis)
  finally have w: "takeWhile (\<lambda>e. take (length ptn) (fst e) = ptn) (ahead (lb_iter_seek L ?i ptn)) = ?found" by (simp add: seek_law)
  obtain l where l: "keys_loop L ptn (lb_iter_seek L ?i ptn) kv_list_new = Some (Inr l)" "kv_holds False l (map (\<lambda>e. (fst e, [])) ?found)"
    using keys_loop_is [OF assms(1) kv_holds_new, of "lb_iter_seek L ?i ptn"] w by auto
  have m: "map fst ?found = filter (\<lambda>k. take (length ptn) k = ptn) (map fst ?es)" by (simp add: filter_map comp_def)
  have "\<not> lb_iter_valid L ?i" by (simp add: valid_law iter_law)
  then have "ldb_keys L page s ptn = kv_result False page l" using l(1) by (simp add: ldb_keys_def Let_def)
  then show ?thesis using kv_result_answers [OF l(2) assms(2)] assms(3) unfolding kv_array_def key_strings m by simp
qed

lemma ldb_lrangeget_is:
  assumes "0 \<notin> set (pre @ ed)" "\<not> strict_prefix (pre @ st) (pre @ ed)" "\<forall>k \<in> fst ` set (entries (ls_db s)). \<not> strict_prefix k (pre @ ed)"
    and "0 < page"
    and "found = filter (\<lambda>e. pre @ st \<le> fst e \<and> take (length (pre @ ed)) (fst e) \<le> pre @ ed) (entries (ls_db s))"
    and "length (resp_array (concat (map (\<lambda>e. [fst e, snd e]) found))) \<le> 2147483647"
  shows "answers (concat (map (\<lambda>e. [fst e, snd e]) found)) (ldb_lrangeget L page s pre st ed)"
proof -
  define ek where "ek = pre @ ed"
  define sk where "sk = pre @ st"
  let ?i = "lb_create_iterator L (ls_db s)" and ?es = "entries (ls_db s)"
  let ?tail = "filter (\<lambda>e. sk \<le> fst e) ?es"
  have f: "takeWhile (\<lambda>e. take (length ek) (fst e) \<le> ek) ?tail = found"
  proof -
    have "takeWhile (\<lambda>e. take (length ek) (fst e) \<le> ek) ?tail = filter (\<lambda>e. take (length ek) (fst e) \<le> ek) ?tail"
      by (rule takeWhile_ordered [OF ordered_filter [OF ordered]]) (metis take_mono_le order_trans)
    then show ?thesis by (simp add: assms(5) sk_def ek_def conj_commute)
  qed
  obtain c where c: "strncmp ek sk (length ek) = Some c" "0 > c \<longleftrightarrow> \<not> take (length ek) sk \<le> ek"
    using strncmp_order assms(1,2) unfolding ek_def sk_def by blast
  have v: "\<not> lb_iter_valid L ?i" by (simp add: valid_law iter_law)
  show ?thesis
  proof (cases "0 \<le> c")
    case True
    have "\<forall>e \<in> set (ahead (lb_iter_seek L ?i sk)). \<not> strict_prefix (fst e) ek" using assms(3) by (auto simp: seek_law ek_def)
    then obtain l where l: "lrange_loop L ek (lb_iter_seek L ?i sk) kv_list_new = Some (Inr l)" "kv_holds True l found"
      using lrange_loop_is [OF assms(1) [folded ek_def] _ kv_holds_new, of "lb_iter_seek L ?i sk"] f by (auto simp: seek_law)
    then have "ldb_lrangeget L page s pre st ed = kv_result True page l"
      using v True c(1) by (simp add: ldb_lrangeget_def Let_def flip: ek_def sk_def)
    then show ?thesis using kv_result_answers [OF l(2) assms(4)] assms(6) unfolding kv_array_def entry_strings by simp
  next
    case False
    then have "found = []" using c(2) take_mono_le [of sk _ "length ek"] order_trans
      by (auto simp: assms(5) filter_empty_conv simp flip: sk_def ek_def)
    moreover have "ldb_lrangeget L page s pre st ed = Some (None, 0)"
      using v False c(1) by (simp add: ldb_lrangeget_def Let_def kv_result_def kv_list_new_def flip: ek_def sk_def)
    ultimately show ?thesis by (simp add: answers_def)
  qed
qed

lemma ldb_values_is:
  assumes "plain_pattern p" "a \<noteq> 0x2A" "\<forall>e \<in> set (entries (ls_db s)). snd e \<noteq> []" "0 < page"
    and "length (resp_array (map fst (filter (\<lambda>e. glob p (snd e)) (entries (ls_db s))))) \<le> 2147483647"
  shows "answers (map fst (filter (\<lambda>e. glob p (snd e)) (entries (ls_db s)))) (ldb_values L page s (p @ a # r) (length p))"
proof -
  let ?i = "lb_iter_seek_to_first L (lb_create_iterator L (ls_db s))"
  obtain l where l: "values_loop L (p @ a # r) (length p) ?i kv_list_new = Some (Inr l)"
      "kv_holds False l (map (\<lambda>e. (fst e, [])) (filter (\<lambda>e. glob p (snd e)) (entries (ls_db s))))"
    using values_loop_is [OF assms(1,2) _ kv_holds_new, of ?i r] assms(3) by (auto simp: first_law)
  have "\<not> lb_iter_valid L (lb_create_iterator L (ls_db s))" by (simp add: valid_law iter_law)
  then have "ldb_values L page s (p @ a # r) (length p) = kv_result False page l" using l(1) by (simp add: ldb_values_def Let_def)
  then show ?thesis using kv_result_answers [OF l(2) assms(4)] assms(5) unfolding kv_array_def key_strings by simp
qed

end

end
