(* ===== verification/Tsdb_Command.thy ===== *)
theory Tsdb_Command
  imports Tsdb_Slave Tsdb_Range
begin

text \<open>
  The commands of TSDB over LevelDB, \<^verbatim>\<open>programs/TSDB/src/tsdb_ldb.c\<close>. The receive buffer holds the request; the
  parser of the server framework has found the fields in it. The send buffer of the framework is an argument.
\<close>

section \<open>Requests and answers\<close>

record 'c cache_lib =
  ca_initial :: 'c
  ca_append :: "'c \<Rightarrow> bytes \<Rightarrow> int \<times> 'c"
  ca_clean :: "'c \<Rightarrow> 'c"
  ca_buff :: "'c \<Rightarrow> bytes"
  ca_data :: "'c \<Rightarrow> bytes"

record 'c data_node =
  nd_recv :: bytes
  nd_field :: "(nat \<times> int) list"
  nd_send :: 'c

definition OPT_OK :: bytes where "OPT_OK = ascii ''+OK'' @ crlf"
definition OPT_CMD_ERROR :: bytes where "OPT_CMD_ERROR = ascii ''-CMD ERROR'' @ crlf"
definition OPT_NO_THIS_CMD :: bytes where "OPT_NO_THIS_CMD = ascii ''-NO THIS COMMAND'' @ crlf"
definition OPT_INTERIOR_ERROR :: bytes where "OPT_INTERIOR_ERROR = ascii ''-INTERIOR ERROR!'' @ crlf"
definition OPT_NO_MEMORY :: bytes where "OPT_NO_MEMORY = ascii ''-NO MORE MEMORY!'' @ crlf"
definition OPT_PONG :: bytes where "OPT_PONG = ascii ''+PONG'' @ crlf"
definition OPT_NULL :: bytes where "OPT_NULL = ascii ''$-1'' @ crlf"
definition OPT_EMPTY_MULTI :: bytes where "OPT_EMPTY_MULTI = ascii ''*0'' @ crlf"

definition OPT_NUMBER :: "int \<Rightarrow> bytes" where
  "OPT_NUMBER n = ascii '':'' @ print_int n @ crlf"

definition X_DONE_OK :: int where "X_DONE_OK = 0"
definition X_MALLOC_FAILED :: int where "X_MALLOC_FAILED = -3"
definition X_INTERIOR_ERROR :: int where "X_INTERIOR_ERROR = -5"
definition X_EXECUTE_ERROR :: int where "X_EXECUTE_ERROR = -7"

definition nfields :: "'c data_node \<Rightarrow> nat" where
  "nfields p = length (nd_field p)"

text \<open>The bytes of a field; \<^term>\<open>None\<close> is a field that was not found by the parser.\<close>

definition field :: "'c data_node \<Rightarrow> nat \<Rightarrow> bytes option" where
  "field p i = (if i < nfields p then let (off, len) = nd_field p ! i in mreads (nd_recv p) (int off) len else None)"

definition reply :: "'c cache_lib \<Rightarrow> 'c data_node \<Rightarrow> bytes \<Rightarrow> 'c data_node" where
  "reply C p x = p\<lparr>nd_send := snd (ca_append C (nd_send p) x)\<rparr>"

text \<open>An answer and the value returned with it.\<close>

definition answer :: "'c cache_lib \<Rightarrow> 'c data_node \<Rightarrow> bytes \<Rightarrow> int \<Rightarrow> 's \<Rightarrow> (int \<times> 'c data_node \<times> 's) option" where
  "answer C p x r s = Some (r, reply C p x, s)"

section \<open>Writes\<close>

definition tsdb_ldb_set ::
  "('w, 'i) ldb_lib \<Rightarrow> 'c cache_lib \<Rightarrow> bool \<Rightarrow> 'c data_node \<Rightarrow> 'w tsdb_log \<Rightarrow> (int \<times> 'c data_node \<times> 'w tsdb_log) option" where
  "tsdb_ldb_set L C readonly p s =
     (if readonly \<or> nfields p \<noteq> 2 then answer C p OPT_CMD_ERROR X_EXECUTE_ERROR s
      else do {
        key \<leftarrow> field p 0;
        val \<leftarrow> field p 1;
        (ok, s) \<leftarrow> binlog_put L s key val;
        if ok = 0 \<or> ok = 1 then answer C p OPT_OK X_DONE_OK s
        else answer C p OPT_INTERIOR_ERROR X_EXECUTE_ERROR s })"

text \<open>A left result is the early return of the loop with an interior error.\<close>

fun del_fields :: "'c data_node \<Rightarrow> nat list \<Rightarrow> 'w tsdb_log \<Rightarrow> ('w tsdb_log + 'w tsdb_log) option" where
  "del_fields p [] s = Some (Inr s)"
| "del_fields p (i # is) s = do {
     key \<leftarrow> field p i;
     (ok, s) \<leftarrow> binlog_batch_delete s key;
     if ok < 0 then Some (Inl s) else del_fields p is s }"

definition commit_answer ::
  "('w, 'i) ldb_lib \<Rightarrow> 'c cache_lib \<Rightarrow> 'c data_node \<Rightarrow> bytes \<Rightarrow> ('w tsdb_log + 'w tsdb_log) \<Rightarrow> (int \<times> 'c data_node \<times> 'w tsdb_log) option" where
  "commit_answer L C p x r =
     (case r of
        Inl s \<Rightarrow> answer C p OPT_INTERIOR_ERROR X_EXECUTE_ERROR s
      | Inr s \<Rightarrow> (let (ok, s) = binlog_batch_commit L s in
          if ok < 0 then answer C p OPT_INTERIOR_ERROR X_EXECUTE_ERROR s else answer C p x X_DONE_OK s))"

definition tsdb_ldb_del ::
  "('w, 'i) ldb_lib \<Rightarrow> 'c cache_lib \<Rightarrow> bool \<Rightarrow> 'c data_node \<Rightarrow> 'w tsdb_log \<Rightarrow> (int \<times> 'c data_node \<times> 'w tsdb_log) option" where
  "tsdb_ldb_del L C readonly p s =
     (if readonly \<or> nfields p < 1 then answer C p OPT_CMD_ERROR X_EXECUTE_ERROR s
      else do {
        r \<leftarrow> del_fields p [0..<nfields p] s;
        commit_answer L C p (OPT_NUMBER (int (nfields p))) r })"

fun mset_fields :: "'c data_node \<Rightarrow> nat list \<Rightarrow> 'w tsdb_log \<Rightarrow> ('w tsdb_log + 'w tsdb_log) option" where
  "mset_fields p [] s = Some (Inr s)"
| "mset_fields p (i # is) s = do {
     key \<leftarrow> field p (2 * i);
     val \<leftarrow> field p (2 * i + 1);
     (ok, s) \<leftarrow> binlog_batch_put s key val;
     if ok < 0 then Some (Inl s) else mset_fields p is s }"

definition tsdb_ldb_mset ::
  "('w, 'i) ldb_lib \<Rightarrow> 'c cache_lib \<Rightarrow> bool \<Rightarrow> 'c data_node \<Rightarrow> 'w tsdb_log \<Rightarrow> (int \<times> 'c data_node \<times> 'w tsdb_log) option" where
  "tsdb_ldb_mset L C readonly p s =
     (if readonly \<or> nfields p < 1 \<or> nfields p mod 2 \<noteq> 0 then answer C p OPT_CMD_ERROR X_EXECUTE_ERROR s
      else do {
        r \<leftarrow> mset_fields p [0..<nfields p div 2] s;
        commit_answer L C p OPT_OK r })"

section \<open>Sets kept as text\<close>

text \<open>A C string read from an array of exactly these bytes: \<^term>\<open>None\<close> where no zero byte ends it.\<close>

definition c_string :: "bytes \<Rightarrow> bytes option" where
  "c_string m = (if 0 \<in> set m then Some (c_str_of m) else None)"

lemma strtok_shorter: "strtok s ds = (Some t, r) \<Longrightarrow> length r < length s"
proof -
  assume a: "strtok s ds = (Some t, r)"
  define u where "u = dropWhile (\<lambda>c. c \<in> set ds) s"
  have u: "u \<noteq> []" "r = drop 1 (dropWhile (\<lambda>c. c \<notin> set ds) u)" using a by (auto simp: strtok_def Let_def u_def split: if_splits)
  have "length (dropWhile (\<lambda>c. c \<notin> set ds) u) \<le> length u" "length u \<le> length s" by (simp_all add: u_def length_dropWhile_le)
  moreover have "0 < length u" using u(1) by simp
  ultimately show ?thesis using u(2) by (cases "dropWhile (\<lambda>c. c \<notin> set ds) u") auto
qed

text \<open>The walk over the tokens between bars.\<close>

function sadd_has :: "bytes \<Rightarrow> bytes \<Rightarrow> bool" where
  "sadd_has target rest =
     (case strtok rest [0x7C] of
        (None, _) \<Rightarrow> False
      | (Some t, rest') \<Rightarrow> if target = t then True else sadd_has target rest')"
  by pat_completeness auto

termination
  by (relation "measure (\<lambda>(t, r). length r)") (auto dest!: strtok_shorter [OF sym])

declare sadd_has.simps [simp del]

text \<open>The stored text with the member added, and the same with the number in its head increased.\<close>

definition sadd_text :: "bytes option \<Rightarrow> bytes \<Rightarrow> bytes option option" where
  "sadd_text val target =
     (case val of
        Some v \<Rightarrow> do {
          str \<leftarrow> c_string v;
          let (_, rest) = strtok str [0x40];
          Some (if sadd_has target rest then None else Some (str @ target @ [0x7C])) }
      | None \<Rightarrow> Some (Some (ascii ''0*1@'' @ target @ [0x7C])))"

definition sadd_head :: "bytes \<Rightarrow> bytes option" where
  "sadd_head new_str = do {
     asserting (0x2A \<in> set new_str);
     let str_tmp = dropWhile (\<lambda>c. c \<noteq> 0x2A) new_str;
     case fst (strtok new_str [0x2A]) of
       None \<Rightarrow> Some []
     | Some r \<Rightarrow> do {
         n \<leftarrow> atoi r;
         let string = print_int (n + 1) @ str_tmp;
         asserting (length string < length new_str + 2);
         Some string } }"

fun sadd_fields ::
  "('w, 'i) ldb_lib \<Rightarrow> 'c data_node \<Rightarrow> nat list \<Rightarrow> 'w tsdb_log \<Rightarrow> ('w tsdb_log + 'w tsdb_log) option" where
  "sadd_fields L p [] s = Some (Inr s)"
| "sadd_fields L p (i # is) s = do {
     key \<leftarrow> field p 0;
     member \<leftarrow> field p i;
     let (result, size, ldbs) = ldb_get L (tl_ldbs s) key;
     let s = s\<lparr>tl_ldbs := ldbs\<rparr>;
     added \<leftarrow> sadd_text result (c_str_of member);
     case added of
       None \<Rightarrow> sadd_fields L p is s
     | Some new_str \<Rightarrow> do {
         string \<leftarrow> sadd_head new_str;
         (ok, s) \<leftarrow> binlog_put L s key string;
         if ok = 0 \<or> ok = 1 then sadd_fields L p is s else Some (Inl s) } }"

definition tsdb_ldb_sadd ::
  "('w, 'i) ldb_lib \<Rightarrow> 'c cache_lib \<Rightarrow> bool \<Rightarrow> 'c data_node \<Rightarrow> 'w tsdb_log \<Rightarrow> (int \<times> 'c data_node \<times> 'w tsdb_log) option" where
  "tsdb_ldb_sadd L C readonly p s =
     (if readonly \<or> nfields p < 2 then answer C p OPT_CMD_ERROR X_EXECUTE_ERROR s
      else do {
        r \<leftarrow> sadd_fields L p [1..<nfields p] s;
        case r of
          Inl s \<Rightarrow> answer C p OPT_INTERIOR_ERROR X_EXECUTE_ERROR s
        | Inr s \<Rightarrow> answer C p OPT_OK X_DONE_OK s })"

section \<open>Reads\<close>

definition tsdb_ldb_get ::
  "('w, 'i) ldb_lib \<Rightarrow> 'c cache_lib \<Rightarrow> 'c data_node \<Rightarrow> 'w tsdb_log \<Rightarrow> (int \<times> 'c data_node \<times> 'w tsdb_log) option" where
  "tsdb_ldb_get L C p s = do {
     key \<leftarrow> field p 0;
     let (result, size, ldbs) = ldb_get L (tl_ldbs s) key;
     let s = s\<lparr>tl_ldbs := ldbs\<rparr>;
     case result of
       Some v \<Rightarrow>
         if size = 0 then answer C p OPT_INTERIOR_ERROR X_EXECUTE_ERROR s
         else let p = reply C p (0x24 # print_int (s32 (int size)) @ crlf);
                  (ret, c) = ca_append C (nd_send p) v;
                  p = p\<lparr>nd_send := c\<rparr>
              in if ret = X_MALLOC_FAILED
                 then answer C (p\<lparr>nd_send := ca_clean C (nd_send p)\<rparr>) OPT_NO_MEMORY X_MALLOC_FAILED s
                 else answer C p crlf X_DONE_OK s
     | None \<Rightarrow>
         if size = 0 then answer C p OPT_NULL X_DONE_OK s
         else answer C p OPT_INTERIOR_ERROR X_EXECUTE_ERROR s }"

text \<open>The end of the commands that return an array.\<close>

definition array_answer ::
  "'c cache_lib \<Rightarrow> 'c data_node \<Rightarrow> 'w tsdb_log \<Rightarrow> (bytes option \<times> int) \<Rightarrow> (int \<times> 'c data_node \<times> 'w tsdb_log) option" where
  "array_answer C p s r =
     (case fst r of
        Some buf \<Rightarrow> do { x \<leftarrow> mreads buf 0 (snd r); answer C p x X_DONE_OK s }
      | None \<Rightarrow>
          if snd r = 0 then answer C p OPT_EMPTY_MULTI X_DONE_OK s
          else answer C p OPT_INTERIOR_ERROR X_EXECUTE_ERROR s)"

definition tsdb_ldb_lrange ::
  "('w, 'i) ldb_lib \<Rightarrow> 'c cache_lib \<Rightarrow> nat \<Rightarrow> 'c data_node \<Rightarrow> 'w tsdb_log \<Rightarrow> (int \<times> 'c data_node \<times> 'w tsdb_log) option" where
  "tsdb_ldb_lrange L C page p s =
     (if nfields p \<noteq> 3 then answer C p OPT_CMD_ERROR X_EXECUTE_ERROR s
      else do {
        pre \<leftarrow> field p 0;
        st \<leftarrow> field p 1;
        ed \<leftarrow> field p 2;
        r \<leftarrow> ldb_lrangeget L page (tl_ldbs s) pre st ed;
        array_answer C p s r })"

definition tsdb_ldb_keys ::
  "('w, 'i) ldb_lib \<Rightarrow> 'c cache_lib \<Rightarrow> nat \<Rightarrow> 'c data_node \<Rightarrow> 'w tsdb_log \<Rightarrow> (int \<times> 'c data_node \<times> 'w tsdb_log) option" where
  "tsdb_ldb_keys L C page p s =
     (if nfields p \<noteq> 1 then answer C p OPT_CMD_ERROR X_EXECUTE_ERROR s
      else do {
        ptn \<leftarrow> field p 0;
        r \<leftarrow> ldb_keys L page (tl_ldbs s) ptn;
        array_answer C p s r })"

definition tsdb_ldb_values ::
  "('w, 'i) ldb_lib \<Rightarrow> 'c cache_lib \<Rightarrow> nat \<Rightarrow> 'c data_node \<Rightarrow> 'w tsdb_log \<Rightarrow> (int \<times> 'c data_node \<times> 'w tsdb_log) option" where
  "tsdb_ldb_values L C page p s =
     (if nfields p \<noteq> 1 then answer C p OPT_CMD_ERROR X_EXECUTE_ERROR s
      else do {
        ptn \<leftarrow> field p 0;
        r \<leftarrow> ldb_values L page (tl_ldbs s) (drop (fst (nd_field p ! 0)) (nd_recv p)) (length ptn);
        array_answer C p s r })"

text \<open>\<open>info\<close> is the result of \<^verbatim>\<open>ldb_info\<close>, a text about the process and its host.\<close>

definition tsdb_ldb_info ::
  "'c cache_lib \<Rightarrow> (bytes option \<times> int) \<Rightarrow> 'c data_node \<Rightarrow> 'w tsdb_log \<Rightarrow> (int \<times> 'c data_node \<times> 'w tsdb_log) option" where
  "tsdb_ldb_info C info p s = array_answer C p s info"

definition tsdb_ldb_ping :: "'c cache_lib \<Rightarrow> 'c data_node \<Rightarrow> 'w tsdb_log \<Rightarrow> (int \<times> 'c data_node \<times> 'w tsdb_log) option" where
  "tsdb_ldb_ping C p s = answer C p OPT_PONG 0 s"

definition tsdb_ldb_exists ::
  "('w, 'i) ldb_lib \<Rightarrow> 'c cache_lib \<Rightarrow> 'c data_node \<Rightarrow> 'w tsdb_log \<Rightarrow> (int \<times> 'c data_node \<times> 'w tsdb_log) option" where
  "tsdb_ldb_exists L C p s = do {
     key \<leftarrow> field p 0;
     let (ok, ldbs) = ldb_exists L (tl_ldbs s) key;
     answer C p (OPT_NUMBER ok) 0 (s\<lparr>tl_ldbs := ldbs\<rparr>) }"

definition tsdb_ldb_compact ::
  "('w, 'i) ldb_lib \<Rightarrow> 'c cache_lib \<Rightarrow> 'c data_node \<Rightarrow> 'w tsdb_log \<Rightarrow> (int \<times> 'c data_node \<times> 'w tsdb_log) option" where
  "tsdb_ldb_compact L C p s = answer C p OPT_OK X_DONE_OK (s\<lparr>tl_ldbs := ldb_compact L (tl_ldbs s)\<rparr>)"

section \<open>Synchronisation\<close>

definition tsdb_ldb_syncset ::
  "('w, 'i) ldb_lib \<Rightarrow> 'c cache_lib \<Rightarrow> 'c data_node \<Rightarrow> 'w tsdb_log \<Rightarrow> (int \<times> 'c data_node \<times> 'w tsdb_log) option" where
  "tsdb_ldb_syncset L C p s =
     (if nfields p \<noteq> 2 then answer C p OPT_CMD_ERROR X_EXECUTE_ERROR s
      else do {
        key \<leftarrow> field p 0;
        val \<leftarrow> field p 1;
        let (ok, s) = binlog_syncset L s key val;
        if ok = 0 \<or> ok = 1 then answer C p OPT_OK X_DONE_OK s
        else answer C p OPT_INTERIOR_ERROR X_EXECUTE_ERROR s })"

definition tsdb_ldb_syncdel ::
  "('w, 'i) ldb_lib \<Rightarrow> 'c cache_lib \<Rightarrow> 'c data_node \<Rightarrow> 'w tsdb_log \<Rightarrow> (int \<times> 'c data_node \<times> 'w tsdb_log) option" where
  "tsdb_ldb_syncdel L C p s =
     (if nfields p < 1 then answer C p OPT_CMD_ERROR X_EXECUTE_ERROR s
      else do {
        key \<leftarrow> field p 0;
        let (ok, s) = binlog_syncdel L s key;
        if ok = 0 \<or> ok = 1 then answer C p OPT_OK X_DONE_OK s
        else answer C p OPT_INTERIOR_ERROR X_EXECUTE_ERROR s })"

end
