(* ===== verification/Tsdb_Api.thy ===== *)
theory Tsdb_Api
  imports Tsdb_Command
begin

text \<open>
  The process: the in-memory engine over libkv (\<^verbatim>\<open>programs/TSDB/src/tsdb_kv.c\<close>), opening and closing the LevelDB
  engine (\<^verbatim>\<open>tsdb_ldb.c\<close>), and the commands with their choice of the engine (\<^verbatim>\<open>tsdb_api.c\<close>, \<^verbatim>\<open>main.c\<close>).
\<close>

section \<open>The engine over libkv\<close>

text \<open>The answer of libkv: an error number, and values with their type, bytes and number.\<close>

record kv_value =
  vl_type :: int
  vl_data :: bytes
  vl_int :: int

record kv_answer =
  an_errnum :: int
  an_values :: "kv_value list"

record 'v kv_lib =
  kvl_load :: "'v \<Rightarrow> bytes \<Rightarrow> int \<times> 'v"
  kvl_call :: "'v \<Rightarrow> int \<Rightarrow> bytes \<Rightarrow> bytes list \<Rightarrow> kv_answer \<times> 'v"
  kvl_destroy :: "'v \<Rightarrow> 'v"

definition VALUE_TYPE_NIL :: int where "VALUE_TYPE_NIL = -1"
definition VALUE_TYPE_INT :: int where "VALUE_TYPE_INT = 2"

text \<open>The handle \<^verbatim>\<open>s_kv\<close> and the state of the library.\<close>

record 'v tsdb_kv =
  tk_kv :: int
  tk_store :: 'v

definition tsdb_kv_init :: "'v kv_lib \<Rightarrow> bytes \<Rightarrow> 'v tsdb_kv \<Rightarrow> int \<times> 'v tsdb_kv" where
  "tsdb_kv_init K ident k =
     (if tk_kv k \<noteq> -1 then (0, k)
      else let (h, v) = kvl_load K (tk_store k) ident; k = k\<lparr>tk_kv := h, tk_store := v\<rparr>
           in if h = -1 then (-1, k) else (0, k))"

definition tsdb_kv_close :: "'v kv_lib \<Rightarrow> 'v tsdb_kv \<Rightarrow> int \<times> 'v tsdb_kv" where
  "tsdb_kv_close K k =
     (if tk_kv k \<noteq> -1 then (0, k\<lparr>tk_kv := -1, tk_store := kvl_destroy K (tk_store k)\<rparr>) else (0, k))"

definition strncasecmp :: "bytes \<Rightarrow> bytes \<Rightarrow> nat \<Rightarrow> int option" where
  "strncasecmp a b n = strncmp (map to_lower a) (map to_lower b) n"

text \<open>All fields of the request.\<close>

definition all_fields :: "'c data_node \<Rightarrow> bytes list option" where
  "all_fields p = those (map (field p) [0..<nfields p])"

text \<open>A call, and its one value; a left result is the answer of an interior error.\<close>

definition kv_one :: "'v kv_lib \<Rightarrow> 'v tsdb_kv \<Rightarrow> bytes \<Rightarrow> bytes list \<Rightarrow> (unit + kv_value) \<times> 'v tsdb_kv" where
  "kv_one K k cmd args =
     (let (ans, v) = kvl_call K (tk_store k) (tk_kv k) cmd args; k = k\<lparr>tk_store := v\<rparr> in
      if an_errnum ans \<noteq> 0 then (Inl (), k)
      else case an_values ans of [x] \<Rightarrow> (Inr x, k) | _ \<Rightarrow> (Inl (), k))"

text \<open>The end of \<^verbatim>\<open>tsdb_kv_set\<close> and \<^verbatim>\<open>tsdb_kv_mset\<close>: the value is the text OK.\<close>

definition kv_ok_answer ::
  "'c cache_lib \<Rightarrow> 'c data_node \<Rightarrow> (unit + kv_value) \<times> 'v tsdb_kv \<Rightarrow> (int \<times> 'c data_node \<times> 'v tsdb_kv) option" where
  "kv_ok_answer C p r =
     (case r of
        (Inl _, k) \<Rightarrow> answer C p OPT_INTERIOR_ERROR X_EXECUTE_ERROR k
      | (Inr x, k) \<Rightarrow> do {
          c \<leftarrow> strncasecmp (ascii ''OK'' @ [0]) (vl_data x) (length (vl_data x));
          if c \<noteq> 0 then answer C p OPT_INTERIOR_ERROR X_EXECUTE_ERROR k else answer C p OPT_OK X_DONE_OK k })"

definition tsdb_kv_set ::
  "'v kv_lib \<Rightarrow> 'c cache_lib \<Rightarrow> 'c data_node \<Rightarrow> 'v tsdb_kv \<Rightarrow> (int \<times> 'c data_node \<times> 'v tsdb_kv) option" where
  "tsdb_kv_set K C p k = do {
     asserting (tk_kv k = 0);
     if nfields p \<noteq> 2 then answer C p OPT_CMD_ERROR X_EXECUTE_ERROR k
     else do { args \<leftarrow> all_fields p; kv_ok_answer C p (kv_one K k (ascii ''set'') args) } }"

definition tsdb_kv_mset ::
  "'v kv_lib \<Rightarrow> 'c cache_lib \<Rightarrow> 'c data_node \<Rightarrow> 'v tsdb_kv \<Rightarrow> (int \<times> 'c data_node \<times> 'v tsdb_kv) option" where
  "tsdb_kv_mset K C p k =
     (if nfields p < 1 \<or> nfields p mod 2 \<noteq> 0 then answer C p OPT_CMD_ERROR X_EXECUTE_ERROR k
      else do {
        asserting (tk_kv k = 0);
        args \<leftarrow> all_fields p;
        kv_ok_answer C p (kv_one K k (ascii ''mset'') args) })"

definition tsdb_kv_del ::
  "'v kv_lib \<Rightarrow> 'c cache_lib \<Rightarrow> 'c data_node \<Rightarrow> 'v tsdb_kv \<Rightarrow> (int \<times> 'c data_node \<times> 'v tsdb_kv) option" where
  "tsdb_kv_del K C p k =
     (if nfields p < 1 then answer C p OPT_CMD_ERROR X_EXECUTE_ERROR k
      else do {
        asserting (tk_kv k = 0);
        args \<leftarrow> all_fields p;
        case kv_one K k (ascii ''del'') args of
          (Inl _, k) \<Rightarrow> answer C p OPT_INTERIOR_ERROR X_EXECUTE_ERROR k
        | (Inr x, k) \<Rightarrow> do {
            asserting (vl_type x = VALUE_TYPE_INT);
            answer C p (OPT_NUMBER (vl_int x)) X_DONE_OK k } })"

definition tsdb_kv_get ::
  "'v kv_lib \<Rightarrow> 'c cache_lib \<Rightarrow> 'c data_node \<Rightarrow> 'v tsdb_kv \<Rightarrow> (int \<times> 'c data_node \<times> 'v tsdb_kv) option" where
  "tsdb_kv_get K C p k =
     (if nfields p < 1 then answer C p OPT_CMD_ERROR X_EXECUTE_ERROR k
      else do {
        asserting (tk_kv k = 0);
        key \<leftarrow> field p 0;
        case kv_one K k (ascii ''get'') [key] of
          (Inl _, k) \<Rightarrow> answer C p OPT_INTERIOR_ERROR X_EXECUTE_ERROR k
        | (Inr x, k) \<Rightarrow>
            if vl_type x = VALUE_TYPE_NIL then answer C p OPT_NULL X_DONE_OK k
            else let p = reply C p (0x24 # print_int (s32 (int (length (vl_data x)))) @ crlf);
                     (ret, c) = ca_append C (nd_send p) (vl_data x);
                     p = p\<lparr>nd_send := c\<rparr>
                 in if ret = X_MALLOC_FAILED
                    then answer C (p\<lparr>nd_send := ca_clean C (nd_send p)\<rparr>) OPT_NO_MEMORY X_MALLOC_FAILED k
                    else answer C p crlf X_DONE_OK k })"

section \<open>The process\<close>

datatype tsdb_engine = TSDB_ENGINE_UNKNOWN | TSDB_ENGINE_LDB | TSDB_ENGINE_KV | TSDB_ENGINE_MIX

definition has_ldb :: "tsdb_engine \<Rightarrow> bool" where
  "has_ldb e \<longleftrightarrow> e = TSDB_ENGINE_LDB \<or> e = TSDB_ENGINE_MIX"

definition has_kv :: "tsdb_engine \<Rightarrow> bool" where
  "has_kv e \<longleftrightarrow> e = TSDB_ENGINE_KV \<or> e = TSDB_ENGINE_MIX"

record tsdb_cfg =
  cf_engine_type :: tsdb_engine
  cf_work_path :: bytes
  cf_readonly :: int
  cf_write_buffer_size :: nat
  cf_block_size :: nat
  cf_cache_lru_size :: nat
  cf_bloom_key_size :: int
  cf_has_slave :: bool
  cf_slave_ip :: bytes
  cf_slave_wport :: u16

text \<open>The libraries, and what the system calls of the start return.\<close>

record ('w, 'i, 'c, 'v) tsdb_env =
  te_ldb :: "('w, 'i) ldb_lib"
  te_cache :: "'c cache_lib"
  te_kv :: "'v kv_lib"
  te_snappy :: bool
  te_pagesize :: nat
  te_thread :: bool
  te_info :: "bytes option \<times> int"

text \<open>\<open>ts_ldb\<close> is \<^verbatim>\<open>s_ldb\<close> with the log, \<open>ts_disk\<close> the database while it is not open.\<close>

record ('w, 'v) tsdb =
  ts_engine :: tsdb_engine
  ts_ldb :: "'w tsdb_log option"
  ts_disk :: 'w
  ts_thread :: "slave_thread option"
  ts_readonly :: bool
  ts_page :: nat
  ts_kv :: "'v tsdb_kv"

definition LDB_DB_NAME :: bytes where "LDB_DB_NAME = ascii ''data''"

definition tsdb_ldb_init ::
  "('w, 'i, 'c, 'v) tsdb_env \<Rightarrow> bytes \<Rightarrow> tsdb_cfg \<Rightarrow> ('w, 'v) tsdb \<Rightarrow> (int \<times> ('w, 'v) tsdb) option" where
  "tsdb_ldb_init E db_name cfg t =
     (if db_name = [] then Some (-1, t)
      else case ts_ldb t of
        Some _ \<Rightarrow> Some (0, t)
      | None \<Rightarrow> do {
          let L = te_ldb E;
          let t = t\<lparr>ts_page := te_pagesize E, ts_readonly := (cf_readonly cfg = 1)\<rparr>;
          let path = snprintf 1024 (cf_work_path cfg @ ascii ''/'' @ db_name);
          let (ldbs, w) = ldb_initialize L (te_snappy E) (ts_disk t) path (cf_block_size cfg) (cf_write_buffer_size cfg)
                            (cf_cache_lru_size cfg) (cf_bloom_key_size cfg);
          case ldbs of
            None \<Rightarrow> Some (-1, t\<lparr>ts_disk := w\<rparr>)
          | Some l \<Rightarrow> do {
              (_, s) \<leftarrow> binlog_open L \<lparr>tl_ldbs = l, tl_binlog = None, tl_buf = None\<rparr> (cf_has_slave cfg);
              (r, th) \<leftarrow> slave_open (cf_has_slave cfg) (te_thread E) (cf_slave_ip cfg) (cf_slave_wport cfg);
              if r \<noteq> 0 then Some (-1, t\<lparr>ts_disk := ldb_close L (tl_ldbs (binlog_close s))\<rparr>)
              else case th of
                None \<Rightarrow> Some (0, t\<lparr>ts_ldb := Some s\<rparr>)
              | Some th \<Rightarrow> do { (th, s) \<leftarrow> slave_start th s; Some (0, t\<lparr>ts_ldb := Some s, ts_thread := Some th\<rparr>) } } })"

text \<open>\<^verbatim>\<open>tsdb_ldb_close\<close> up to the join of the thread, and from there on.\<close>

definition tsdb_ldb_quit :: "('w, 'v) tsdb \<Rightarrow> ('w, 'v) tsdb" where
  "tsdb_ldb_quit t = t\<lparr>ts_thread := slave_close (ts_thread t)\<rparr>"

definition tsdb_ldb_close :: "('w, 'i) ldb_lib \<Rightarrow> ('w, 'v) tsdb \<Rightarrow> (int \<times> ('w, 'v) tsdb) option" where
  "tsdb_ldb_close L t = do {
     s \<leftarrow> ts_ldb t;
     Some (0, t\<lparr>ts_ldb := None, ts_thread := None, ts_disk := ldb_close L (tl_ldbs (binlog_close s))\<rparr>) }"

text \<open>The results of the two engines are dropped.\<close>

definition tsdb_cmd_init ::
  "('w, 'i, 'c, 'v) tsdb_env \<Rightarrow> tsdb_cfg \<Rightarrow> ('w, 'v) tsdb \<Rightarrow> (int \<times> ('w, 'v) tsdb) option" where
  "tsdb_cmd_init E cfg t =
     (if cf_engine_type cfg = TSDB_ENGINE_UNKNOWN then Some (-1, t)
      else do {
        let t = t\<lparr>ts_engine := cf_engine_type cfg\<rparr>;
        (_, t) \<leftarrow> (if has_ldb (ts_engine t) then tsdb_ldb_init E LDB_DB_NAME cfg t else Some (0, t));
        let (_, k) = (if has_kv (ts_engine t) then tsdb_kv_init (te_kv E) LDB_DB_NAME (ts_kv t) else (0, ts_kv t));
        Some (0, t\<lparr>ts_kv := k\<rparr>) })"

definition tsdb_cmd_close :: "('w, 'i, 'c, 'v) tsdb_env \<Rightarrow> ('w, 'v) tsdb \<Rightarrow> (int \<times> ('w, 'v) tsdb) option" where
  "tsdb_cmd_close E t = do {
     (_, t) \<leftarrow> (if has_ldb (ts_engine t) then tsdb_ldb_close (te_ldb E) t else Some (0, t));
     let (_, k) = (if has_kv (ts_engine t) then tsdb_kv_close (te_kv E) (ts_kv t) else (0, ts_kv t));
     Some (0, t\<lparr>ts_kv := k\<rparr>) }"

section \<open>The commands\<close>

datatype tsdb_cmd =
  Cmd_set | Cmd_del | Cmd_mset | Cmd_get | Cmd_sadd | Cmd_lrange | Cmd_keys | Cmd_values | Cmd_info | Cmd_ping
| Cmd_exists | Cmd_syncset | Cmd_syncdel | Cmd_compact

text \<open>A command of one engine; \<^term>\<open>None\<close> is the use of a null database.\<close>

definition on_ldb ::
  "('c data_node \<Rightarrow> 'w tsdb_log \<Rightarrow> (int \<times> 'c data_node \<times> 'w tsdb_log) option) \<Rightarrow> ('w, 'v) tsdb \<Rightarrow> 'c data_node
   \<Rightarrow> (int \<times> 'c data_node \<times> ('w, 'v) tsdb) option" where
  "on_ldb f t p = do { s \<leftarrow> ts_ldb t; (r, p, s) \<leftarrow> f p s; Some (r, p, t\<lparr>ts_ldb := Some s\<rparr>) }"

definition on_kv ::
  "('c data_node \<Rightarrow> 'v tsdb_kv \<Rightarrow> (int \<times> 'c data_node \<times> 'v tsdb_kv) option) \<Rightarrow> ('w, 'v) tsdb \<Rightarrow> 'c data_node
   \<Rightarrow> (int \<times> 'c data_node \<times> ('w, 'v) tsdb) option" where
  "on_kv f t p = do { (r, p, k) \<leftarrow> f p (ts_kv t); Some (r, p, t\<lparr>ts_kv := k\<rparr>) }"

definition clean :: "'c cache_lib \<Rightarrow> 'c data_node \<Rightarrow> 'c data_node" where
  "clean C p = p\<lparr>nd_send := ca_clean C (nd_send p)\<rparr>"

text \<open>\<^verbatim>\<open>tsdb_cmd_set\<close>, \<^verbatim>\<open>tsdb_cmd_del\<close> and \<^verbatim>\<open>tsdb_cmd_mset\<close>: with both engines, the answer is that of LevelDB.\<close>

definition on_engines ::
  "'c cache_lib \<Rightarrow> ('c data_node \<Rightarrow> 'v tsdb_kv \<Rightarrow> (int \<times> 'c data_node \<times> 'v tsdb_kv) option)
   \<Rightarrow> ('c data_node \<Rightarrow> 'w tsdb_log \<Rightarrow> (int \<times> 'c data_node \<times> 'w tsdb_log) option) \<Rightarrow> ('w, 'v) tsdb \<Rightarrow> 'c data_node
   \<Rightarrow> (int \<times> 'c data_node \<times> ('w, 'v) tsdb) option" where
  "on_engines C kv ldb t p =
     (case ts_engine t of
        TSDB_ENGINE_LDB \<Rightarrow> on_ldb ldb t p
      | TSDB_ENGINE_KV \<Rightarrow> on_kv kv t p
      | TSDB_ENGINE_MIX \<Rightarrow> do { (_, p, t) \<leftarrow> on_kv kv t p; on_ldb ldb t (clean C p) }
      | TSDB_ENGINE_UNKNOWN \<Rightarrow> answer C p OPT_INTERIOR_ERROR X_INTERIOR_ERROR t)"

definition tsdb_cmd_get ::
  "('w, 'i, 'c, 'v) tsdb_env \<Rightarrow> ('w, 'v) tsdb \<Rightarrow> 'c data_node \<Rightarrow> (int \<times> 'c data_node \<times> ('w, 'v) tsdb) option" where
  "tsdb_cmd_get E t p =
     (let C = te_cache E; ldb = tsdb_ldb_get (te_ldb E) C; kv = tsdb_kv_get (te_kv E) C in
      case ts_engine t of
        TSDB_ENGINE_LDB \<Rightarrow> on_ldb ldb t p
      | TSDB_ENGINE_KV \<Rightarrow> on_kv kv t p
      | TSDB_ENGINE_MIX \<Rightarrow> do {
          (r, p, t) \<leftarrow> on_kv kv t p;
          c \<leftarrow> (if r = X_DONE_OK then strncmp (ca_buff C (nd_send p)) OPT_NULL 5 else Some 0);
          if r = X_DONE_OK \<and> c \<noteq> 0 then Some (X_DONE_OK, p, t) else on_ldb ldb t (clean C p) }
      | TSDB_ENGINE_UNKNOWN \<Rightarrow> answer C p OPT_INTERIOR_ERROR X_INTERIOR_ERROR t)"

definition tsdb_cmd_sadd ::
  "('w, 'i, 'c, 'v) tsdb_env \<Rightarrow> ('w, 'v) tsdb \<Rightarrow> 'c data_node \<Rightarrow> (int \<times> 'c data_node \<times> ('w, 'v) tsdb) option" where
  "tsdb_cmd_sadd E t p =
     (case ts_engine t of
        TSDB_ENGINE_LDB \<Rightarrow> on_ldb (tsdb_ldb_sadd (te_ldb E) (te_cache E) (ts_readonly t)) t p
      | TSDB_ENGINE_KV \<Rightarrow> Some (X_INTERIOR_ERROR, p, t)
      | TSDB_ENGINE_MIX \<Rightarrow> Some (X_INTERIOR_ERROR, p, t)
      | TSDB_ENGINE_UNKNOWN \<Rightarrow> answer (te_cache E) p OPT_INTERIOR_ERROR X_INTERIOR_ERROR t)"

text \<open>The commands of LevelDB only.\<close>

definition ldb_only ::
  "'c cache_lib \<Rightarrow> ('c data_node \<Rightarrow> 'w tsdb_log \<Rightarrow> (int \<times> 'c data_node \<times> 'w tsdb_log) option) \<Rightarrow> ('w, 'v) tsdb
   \<Rightarrow> 'c data_node \<Rightarrow> (int \<times> 'c data_node \<times> ('w, 'v) tsdb) option" where
  "ldb_only C f t p =
     (if has_ldb (ts_engine t) then on_ldb f t p else answer C p OPT_NO_THIS_CMD X_INTERIOR_ERROR t)"

definition tsdb_cmd_run ::
  "('w, 'i, 'c, 'v) tsdb_env \<Rightarrow> tsdb_cmd \<Rightarrow> ('w, 'v) tsdb \<Rightarrow> 'c data_node \<Rightarrow> (int \<times> 'c data_node \<times> ('w, 'v) tsdb) option" where
  "tsdb_cmd_run E cmd t p =
     (let L = te_ldb E; C = te_cache E; K = te_kv E; ro = ts_readonly t in
      case cmd of
        Cmd_set \<Rightarrow> on_engines C (tsdb_kv_set K C) (tsdb_ldb_set L C ro) t p
      | Cmd_del \<Rightarrow> on_engines C (tsdb_kv_del K C) (tsdb_ldb_del L C ro) t p
      | Cmd_mset \<Rightarrow> on_engines C (tsdb_kv_mset K C) (tsdb_ldb_mset L C ro) t p
      | Cmd_get \<Rightarrow> tsdb_cmd_get E t p
      | Cmd_sadd \<Rightarrow> tsdb_cmd_sadd E t p
      | Cmd_lrange \<Rightarrow> ldb_only C (tsdb_ldb_lrange L C (ts_page t)) t p
      | Cmd_keys \<Rightarrow> ldb_only C (tsdb_ldb_keys L C (ts_page t)) t p
      | Cmd_values \<Rightarrow> ldb_only C (tsdb_ldb_values L C (ts_page t)) t p
      | Cmd_info \<Rightarrow> ldb_only C (tsdb_ldb_info C (te_info E)) t p
      | Cmd_ping \<Rightarrow> answer C p OPT_PONG X_DONE_OK t
      | Cmd_exists \<Rightarrow> ldb_only C (tsdb_ldb_exists L C) t p
      | Cmd_syncset \<Rightarrow> ldb_only C (tsdb_ldb_syncset L C) t p
      | Cmd_syncdel \<Rightarrow> ldb_only C (tsdb_ldb_syncdel L C) t p
      | Cmd_compact \<Rightarrow> ldb_only C (tsdb_ldb_compact L C) t p)"

end
