(* ===== verification/Tsdb_Replica.thy ===== *)
theory Tsdb_Replica
  imports Tsdb_Slave
begin

text \<open>
  What the log promises, on the contents of the two databases alone: which entries are pending, that a key without
  a pending entry has the same value on both sides, and that logged writes, applied requests and deleted entries
  keep this.
\<close>

section \<open>Keys and entries\<close>

text \<open>A key that fits the buffers of the log and that is not taken for a key of the log.\<close>

definition data_key :: "bytes \<Rightarrow> bool" where
  "data_key k \<longleftrightarrow> length k \<le> 511 \<and> length k \<noteq> 9 \<and> (k = [] \<or> hd k \<noteq> 0xff)"

definition val_ok :: "bytes \<Rightarrow> bytes \<Rightarrow> bool" where
  "val_ok k v \<longleftrightarrow> v \<noteq> [] \<and> length (sync_set_req k v) < SEND_BUF_SIZE"

definition pending :: "(bytes \<rightharpoonup> bytes) \<Rightarrow> binlog_t \<Rightarrow> bytes \<Rightarrow> u64 \<Rightarrow> bool" where
  "pending M b k q \<longleftrightarrow> cur_seq b \<le> q \<and> q \<le> last_seq b \<and> (\<exists>c. M (seq_key q) = Some (c # k))"

definition newest :: "(bytes \<rightharpoonup> bytes) \<Rightarrow> binlog_t \<Rightarrow> bytes \<Rightarrow> u64 \<Rightarrow> bool" where
  "newest M b k q \<longleftrightarrow> pending M b k q \<and> (\<forall>r. pending M b k r \<longrightarrow> r \<le> q)"

text \<open>The database of the master: its log has an entry for each sequence number from the current one to the last.\<close>

definition log_wf :: "(bytes \<rightharpoonup> bytes) \<Rightarrow> binlog_t \<Rightarrow> bool" where
  "log_wf M b \<longleftrightarrow>
     (\<forall>q. cur_seq b \<le> q \<and> q \<le> last_seq b \<longrightarrow> (\<exists>c k. M (seq_key q) = Some (c # k) \<and> (c = CMD_SET \<or> c = CMD_DEL) \<and> data_key k))
     \<and> (\<forall>q. \<not> (cur_seq b \<le> q \<and> q \<le> last_seq b) \<longrightarrow> M (seq_key q) = None)
     \<and> (\<forall>k v. M k = Some v \<longrightarrow> data_key k \<and> val_ok k v \<or> (\<exists>q. k = seq_key q))
     \<and> unat (cur_seq b) \<le> unat (last_seq b) + 1"

text \<open>The slave has the value of every key without a pending entry; the newest entry of a key says whether it
  has a value. The slave holds no empty values.\<close>

definition synced :: "(bytes \<rightharpoonup> bytes) \<Rightarrow> (bytes \<rightharpoonup> bytes) \<Rightarrow> binlog_t \<Rightarrow> bool" where
  "synced M P b \<longleftrightarrow>
     (\<forall>k. data_key k \<longrightarrow> (\<forall>q. \<not> pending M b k q) \<longrightarrow> P k = M k)
     \<and> (\<forall>k q c. data_key k \<and> newest M b k q \<and> M (seq_key q) = Some (c # k) \<longrightarrow> (c = CMD_SET) = (M k \<noteq> None))
     \<and> (\<forall>k. P k \<noteq> Some [])"

lemma data_key_not_seq [simp]: "data_key k \<Longrightarrow> k \<noteq> seq_key q" "data_key k \<Longrightarrow> seq_key q \<noteq> k"
  by (auto simp: data_key_def seq_key_def)

lemma cmd_distinct [simp]: "CMD_SET \<noteq> CMD_DEL" "CMD_DEL \<noteq> CMD_SET"
  by (simp_all add: CMD_SET_def CMD_DEL_def)

section \<open>Logged writes\<close>

lemma seq_suc: "unat (x :: u64) + 1 < 2 ^ 64 \<Longrightarrow> unat (x + 1) = unat x + 1"
  by (simp add: unat_word_ariths)

text \<open>A write of \<open>x\<close> at the key \<open>k\<close> with its entry.\<close>

definition logged :: "byte \<Rightarrow> bytes \<Rightarrow> bytes option \<Rightarrow> (bytes \<rightharpoonup> bytes) \<times> binlog_t \<Rightarrow> (bytes \<rightharpoonup> bytes) \<times> binlog_t" where
  "logged c k x Mb = (((fst Mb)(seq_key (last_seq (snd Mb) + 1) \<mapsto> c # k))(k := x), next_seq (snd Mb))"

definition write_ok :: "(bytes \<rightharpoonup> bytes) \<Rightarrow> binlog_t \<Rightarrow> byte \<Rightarrow> bytes \<Rightarrow> bytes option \<Rightarrow> bool" where
  "write_ok M b c k x \<longleftrightarrow> log_wf M b \<and> unat (last_seq b) + 1 < 2 ^ 64 \<and> data_key k
     \<and> (c = CMD_SET \<and> (\<exists>v. x = Some v \<and> val_ok k v) \<or> c = CMD_DEL \<and> x = None)"

lemma next_facts:
  assumes "write_ok M b c k x"
  shows "q \<le> last_seq b + 1 \<longleftrightarrow> q \<le> last_seq b \<or> q = last_seq b + 1" "cur_seq b \<le> last_seq b + 1" "\<not> last_seq b + 1 \<le> last_seq b"
proof -
  have up: "unat (last_seq b + 1) = unat (last_seq b) + 1" using assms by (intro seq_suc) (simp add: write_ok_def)
  show "q \<le> last_seq b + 1 \<longleftrightarrow> q \<le> last_seq b \<or> q = last_seq b + 1"
    using up by (auto simp: word_le_nat_alt word_unat_eq_iff)
  show "cur_seq b \<le> last_seq b + 1" using assms up by (simp add: write_ok_def log_wf_def word_le_nat_alt)
  show "\<not> last_seq b + 1 \<le> last_seq b" using up by (simp add: word_le_nat_alt)
qed

lemma logged_seq: "data_key k \<Longrightarrow> fst (logged c k x (M, b)) (seq_key q) = (if q = last_seq b + 1 then Some (c # k) else M (seq_key q))"
  by (simp add: logged_def)

lemma next_seqs [simp]: "cur_seq (next_seq b) = cur_seq b" "last_seq (next_seq b) = last_seq b + 1" "min_seq (next_seq b) = min_seq b"
  by (simp_all add: next_seq_def)

lemma logged_wf:
  assumes w: "write_ok M b c k x"
  shows "log_wf (fst (logged c k x (M, b))) (next_seq b)"
proof -
  note wf = w [unfolded write_ok_def, THEN conjunct1] and nf = next_facts [OF w]
  have key: "data_key k" using w by (simp add: write_ok_def)
  note ls = logged_seq [OF key]
  have wf1: "cur_seq b \<le> q \<and> q \<le> last_seq b \<Longrightarrow> \<exists>d j. M (seq_key q) = Some (d # j) \<and> (d = CMD_SET \<or> d = CMD_DEL) \<and> data_key j"
    and wf2: "\<not> (cur_seq b \<le> q \<and> q \<le> last_seq b) \<Longrightarrow> M (seq_key q) = None"
    and wf4: "unat (cur_seq b) \<le> unat (last_seq b) + 1" for q
    using wf unfolding log_wf_def by blast+
  have wf3: "M j = Some v \<Longrightarrow> data_key j \<and> val_ok j v \<or> (\<exists>q. j = seq_key q)" for j v
    using wf unfolding log_wf_def by blast
  show ?thesis unfolding log_wf_def next_seqs
  proof (intro conjI allI impI)
    fix q assume "cur_seq b \<le> q \<and> q \<le> last_seq b + 1"
    then show "\<exists>d j. fst (logged c k x (M, b)) (seq_key q) = Some (d # j) \<and> (d = CMD_SET \<or> d = CMD_DEL) \<and> data_key j"
      using wf1 [of q] w key unfolding ls nf(1) write_ok_def by auto
  next
    fix q assume "\<not> (cur_seq b \<le> q \<and> q \<le> last_seq b + 1)"
    then show "fst (logged c k x (M, b)) (seq_key q) = None" using wf2 [of q] nf(2) unfolding ls by (auto simp: nf(1) [of q])
  next
    fix j v assume "fst (logged c k x (M, b)) j = Some v"
    then show "data_key j \<and> val_ok j v \<or> (\<exists>q. j = seq_key q)"
      using wf3 [of j v] w by (auto simp: logged_def write_ok_def split: if_splits)
  next
    show "unat (cur_seq b) \<le> unat (last_seq b + 1) + 1" using nf(2) by (simp add: word_le_nat_alt)
  qed
qed

lemma logged_pending:
  assumes w: "write_ok M b c k x"
  shows "pending (fst (logged c k x (M, b))) (next_seq b) j q \<longleftrightarrow> pending M b j q \<or> q = last_seq b + 1 \<and> j = k"
proof -
  have key: "data_key k" using w by (simp add: write_ok_def)
  show ?thesis using next_facts(2,3) [OF w] unfolding pending_def logged_seq [OF key] next_seqs next_facts(1) [OF w] by auto
qed

lemma logged_newest:
  assumes w: "write_ok M b c k x"
  shows "newest (fst (logged c k x (M, b))) (next_seq b) j q \<longleftrightarrow> (if j = k then q = last_seq b + 1 else newest M b j q)"
proof (cases "j = k")
  case True
  have "pending M b k r \<Longrightarrow> r \<le> last_seq b + 1" for r by (simp add: pending_def next_facts(1) [OF w])
  then show ?thesis using True unfolding newest_def logged_pending [OF w] by (metis antisym order_refl)
next
  case False
  then show ?thesis unfolding newest_def logged_pending [OF w] by auto
qed

lemma logged_synced:
  assumes w: "write_ok M b c k x" and sy: "synced M P b"
  shows "synced (fst (logged c k x (M, b))) P (next_seq b)"
proof -
  have key: "data_key k" using w by (simp add: write_ok_def)
  have other: "j \<noteq> k \<Longrightarrow> data_key j \<Longrightarrow> fst (logged c k x (M, b)) j = M j" for j by (simp add: logged_def)
  have own: "fst (logged c k x (M, b)) k = x" by (simp add: logged_def)
  have same: "newest M b j q \<Longrightarrow> fst (logged c k x (M, b)) (seq_key q) = M (seq_key q)" for j q
    using next_facts(3) [OF w] unfolding logged_seq [OF key] newest_def pending_def by auto
  have sy1: "data_key j \<Longrightarrow> \<forall>q. \<not> pending M b j q \<Longrightarrow> P j = M j"
    and sy2: "data_key j \<Longrightarrow> newest M b j q \<Longrightarrow> M (seq_key q) = Some (d # j) \<Longrightarrow> (d = CMD_SET) = (M j \<noteq> None)" for j q d
    using sy unfolding synced_def by blast+
  show ?thesis unfolding synced_def
  proof (intro conjI allI impI)
    fix j assume "data_key j" "\<forall>q. \<not> pending (fst (logged c k x (M, b))) (next_seq b) j q"
    then show "P j = fst (logged c k x (M, b)) j" using sy1 [of j] other [of j] unfolding logged_pending [OF w] by auto
  next
    fix j q d assume "data_key j \<and> newest (fst (logged c k x (M, b))) (next_seq b) j q \<and> fst (logged c k x (M, b)) (seq_key q) = Some (d # j)"
    then have h: "data_key j" "if j = k then q = last_seq b + 1 else newest M b j q" "fst (logged c k x (M, b)) (seq_key q) = Some (d # j)"
      by (simp_all add: logged_newest [OF w])
    show "(d = CMD_SET) = (fst (logged c k x (M, b)) j \<noteq> None)"
    proof (cases "j = k")
      case True
      then show ?thesis using h(2,3) w own unfolding logged_seq [OF key] write_ok_def by auto
    next
      case False
      then show ?thesis using h sy2 [of j q d] same [of j q] other [of j] by auto
    qed
  next
    fix j show "P j \<noteq> Some []" using sy by (simp add: synced_def)
  qed
qed

section \<open>Requests and deleted entries\<close>

text \<open>A request for a key with a pending entry.\<close>

lemma applied_synced:
  assumes "synced M P b" "pending M b k q" "x \<noteq> Some []"
  shows "synced M (P(k := x)) b"
  using assms by (auto simp: synced_def)

lemma finished_synced:
  assumes wf: "log_wf M b" and sy: "synced M P b" and cur: "cur_seq b \<le> last_seq b" and room: "unat (last_seq b) + 1 < 2 ^ 64"
    and ent: "M (seq_key (cur_seq b)) = Some (c # k)" and eq: "newest M b k (cur_seq b) \<longrightarrow> P k = M k"
    and b': "b' = b\<lparr>cur_seq := cur_seq b + 1\<rparr>" and M': "M' = M(seq_key (cur_seq b) := None)"
  shows "log_wf M' b' \<and> synced M' P b'"
proof -
  have up: "unat (cur_seq b + 1) = unat (cur_seq b) + 1" using cur room by (intro seq_suc) (simp add: word_le_nat_alt)
  have ge: "cur_seq b + 1 \<le> q \<longleftrightarrow> cur_seq b \<le> q \<and> q \<noteq> cur_seq b" for q
    using up by (auto simp: word_le_nat_alt word_unat_eq_iff)
  have kk: "data_key k" using wf cur ent unfolding log_wf_def by fastforce
  have seq: "M' (seq_key q) = (if q = cur_seq b then None else M (seq_key q))" for q by (simp add: M')
  have dat: "data_key j \<Longrightarrow> M' j = M j" for j by (simp add: M')
  have s: "cur_seq b' = cur_seq b + 1" "last_seq b' = last_seq b" by (simp_all add: b')
  have pend: "pending M' b' j q \<longleftrightarrow> pending M b j q \<and> q \<noteq> cur_seq b" for j q
    unfolding pending_def seq s ge by auto
  have "log_wf M' b'" unfolding log_wf_def s
  proof (intro conjI allI impI)
    fix q assume "cur_seq b + 1 \<le> q \<and> q \<le> last_seq b"
    then show "\<exists>c k. M' (seq_key q) = Some (c # k) \<and> (c = CMD_SET \<or> c = CMD_DEL) \<and> data_key k"
      using wf unfolding ge seq log_wf_def by auto
  next
    fix q assume "\<not> (cur_seq b + 1 \<le> q \<and> q \<le> last_seq b)"
    then show "M' (seq_key q) = None" using wf unfolding ge seq log_wf_def by auto
  next
    fix j v assume "M' j = Some v"
    then show "data_key j \<and> val_ok j v \<or> (\<exists>q. j = seq_key q)" using wf by (auto simp: M' log_wf_def split: if_splits)
  next
    show "unat (cur_seq b + 1) \<le> unat (last_seq b) + 1" using up cur by (simp add: word_le_nat_alt)
  qed
  moreover have "synced M' P b'" unfolding synced_def
  proof (intro conjI allI impI)
    fix j assume j: "data_key j" "\<forall>q. \<not> pending M' b' j q"
    show "P j = M' j"
    proof (cases "j = k")
      case True
      have "pending M b k (cur_seq b)" using cur ent by (simp add: pending_def)
      moreover have "r \<le> cur_seq b" if "pending M b k r" for r using j(2) True that unfolding pend by (metis order_refl)
      ultimately have "newest M b k (cur_seq b)" unfolding newest_def by blast
      then show ?thesis using eq j(1) True dat by simp
    next
      case False
      have "\<not> pending M b j (cur_seq b)" using ent False by (simp add: pending_def)
      then have "\<not> pending M b j q" for q using j(2) unfolding pend by (cases "q = cur_seq b") auto
      then show ?thesis using sy j(1) dat by (simp add: synced_def)
    qed
  next
    fix j q d assume h: "data_key j \<and> newest M' b' j q \<and> M' (seq_key q) = Some (d # j)"
    then have q: "q \<noteq> cur_seq b" "pending M b j q" unfolding newest_def pend by auto
    have "newest M b j q" unfolding newest_def
    proof (intro conjI allI impI)
      show "pending M b j q" by (rule q(2))
      fix r assume "pending M b j r"
      then show "r \<le> q" using h q unfolding newest_def pend by (cases "r = cur_seq b") (auto simp: pending_def)
    qed
    then have "M (seq_key q) = Some (d # j) \<Longrightarrow> (d = CMD_SET) = (M j \<noteq> None)" using h sy unfolding synced_def by blast
    then show "(d = CMD_SET) = (M' j \<noteq> None)" using h q(1) dat [of j] unfolding seq by simp
  next
    fix j show "P j \<noteq> Some []" using sy by (simp add: synced_def)
  qed
  ultimately show ?thesis by blast
qed

lemma caught_up_equal:
  assumes "synced M P b" "\<not> cur_seq b \<le> last_seq b" "data_key k"
  shows "P k = M k"
proof -
  have "\<not> pending M b k q" for q using assms(2) by (auto simp: pending_def)
  then show ?thesis using assms(1,3) by (simp add: synced_def)
qed

section \<open>Opening the log\<close>

lemma ordered_hd: "sorted_wrt (<) (map fst es) \<Longrightarrow> e \<in> set es \<Longrightarrow> fst (hd es) \<le> (fst e :: bytes)"
  by (cases es) auto

lemma ordered_last: "sorted_wrt (<) (map fst es) \<Longrightarrow> e \<in> set es \<Longrightarrow> (fst e :: bytes) \<le> fst (last es)"
proof (induction es)
  case (Cons d es)
  then show ?case by (cases "es = []") (auto intro: less_imp_le)
qed simp

lemma data_key_below: "data_key k \<Longrightarrow> k < seq_key q"
proof -
  assume k: "data_key k"
  show ?thesis
  proof (cases k)
    case (Cons x xs)
    then have "x \<noteq> 0xff" using k by (simp add: data_key_def)
    moreover have "unat x < 256" using unsigned_less [of x] by simp
    ultimately have "x < 0xff" by (simp add: word_less_nat_alt word_unat_eq_iff)
    then show ?thesis using Cons by (simp add: seq_key_def)
  qed (simp add: seq_key_def)
qed

lemma decode_data_key: "data_key k \<Longrightarrow> decode_seq_key k = -1"
  by (simp add: data_key_def decode_seq_key_def)

context ordered_store
begin

lemma binlog_open_is:
  assumes wf: "log_wf (tsdb_data entries s) b" and room: "unat (last_seq b) + 1 < 2 ^ 64"
  defines "mn \<equiv> if cur_seq b \<le> last_seq b then cur_seq b else 1" and "la \<equiv> if cur_seq b \<le> last_seq b then last_seq b else 0"
  shows "\<exists>s'. binlog_open L s True = Some (0, s') \<and> tsdb_data entries s' = tsdb_data entries s \<and> log_ok s'
    \<and> ls_wbatch (tl_ldbs s') = ls_wbatch (tl_ldbs s) \<and> tl_binlog s' = Some \<lparr>min_seq = mn, cur_seq = 0, last_seq = la\<rparr>"
proof -
  define es where "es = entries (tl_db s)"
  define tl where "tl = filter (\<lambda>e. seq_key 0 \<le> fst e) es"
  have M: "tsdb_data entries s = map_of es" by (simp add: tsdb_data_def es_def)
  have srt: "sorted_wrt (<) (map fst es)" "sorted_wrt (<) (map fst tl)"
    using ordered [of "tl_db s"] ordered_filter by (simp_all add: es_def tl_def)
  have dist: "distinct (map fst es)" using srt(1) by (simp add: strict_sorted_iff)
  have mem: "map_of es k = Some v \<longleftrightarrow> (k, v) \<in> set es" for k v using dist by (simp add: map_of_eq_Some_iff)
  have wf1: "cur_seq b \<le> q \<Longrightarrow> q \<le> last_seq b \<Longrightarrow> \<exists>v. (seq_key q, v) \<in> set es" for q
    using wf unfolding log_wf_def M mem by blast
  have wf2: "(seq_key q, v) \<in> set es \<Longrightarrow> cur_seq b \<le> q \<and> q \<le> last_seq b" for q v
    using wf unfolding log_wf_def M by (metis mem option.distinct(1))
  have wf3: "e \<in> set es \<Longrightarrow> data_key (fst e) \<or> (\<exists>q. fst e = seq_key q)" for e
    using wf unfolding log_wf_def M mem by (metis prod.collapse)
  have tls: "e \<in> set tl \<Longrightarrow> \<exists>q. fst e = seq_key q \<and> cur_seq b \<le> q \<and> q \<le> last_seq b" for e
  proof -
    assume e: "e \<in> set tl"
    then have "\<not> data_key (fst e)" using data_key_below [of "fst e" 0] by (auto simp: tl_def)
    then obtain q where q: "fst e = seq_key q" using wf3 [of e] e by (auto simp: tl_def)
    then have "(seq_key q, snd e) \<in> set es" using e by (auto simp: tl_def) (metis prod.collapse)
    then show ?thesis using wf2 q by blast
  qed
  have first: "(if tl \<noteq> [] then let q = decode_seq_key (fst (hd tl)) in if q = -1 then 1 else q else 1) = mn"
  proof (cases "cur_seq b \<le> last_seq b")
    case True
    then obtain v where v: "(seq_key (cur_seq b), v) \<in> set tl" using wf1 [of "cur_seq b"] by (auto simp: tl_def seq_key_le)
    then have ne: "tl \<noteq> []" by auto
    then obtain q where q: "fst (hd tl) = seq_key q" "cur_seq b \<le> q" "q \<le> last_seq b" using tls [of "hd tl"] by auto
    have "q \<le> cur_seq b" using ordered_hd [OF srt(2) v] q(1) by (simp add: seq_key_le)
    then have "q = cur_seq b" using q(2) by simp
    moreover have "q \<noteq> -1" using room q(3) by (auto simp: word_le_nat_alt unsigned_minus_1_eq_mask mask_eq_exp_minus_1)
    ultimately show ?thesis using ne q(1) True by (simp add: mn_def Let_def)
  next
    case False
    then have "tl = []" using tls by (cases tl) (fastforce)+
    then show ?thesis using False by (simp add: mn_def)
  qed
  have final: "(if es \<noteq> [] then let q = decode_seq_key (fst (last es)) in if q = -1 then 0 else q else 0) = la"
  proof (cases "cur_seq b \<le> last_seq b")
    case True
    then obtain v where v: "(seq_key (last_seq b), v) \<in> set es" using wf1 [of "last_seq b"] by auto
    then have ne: "es \<noteq> []" by auto
    have ge: "seq_key (last_seq b) \<le> fst (last es)" using ordered_last [OF srt(1) v] by simp
    then have "\<not> data_key (fst (last es))" using data_key_below by (meson linorder_not_less)
    then obtain q where q: "fst (last es) = seq_key q" using wf3 [of "last es"] ne by auto
    then have "(seq_key q, snd (last es)) \<in> set es" using ne by (metis last_in_set prod.collapse)
    then have "q = last_seq b" using wf2 ge q by (metis antisym seq_key_le)
    moreover have "last_seq b \<noteq> -1" using room by (auto simp: unsigned_minus_1_eq_mask mask_eq_exp_minus_1)
    ultimately show ?thesis using ne q True by (simp add: la_def Let_def)
  next
    case False
    show ?thesis
    proof (cases "es = []")
      case ne: False
      have "data_key (fst (last es))" using wf3 [of "last es"] wf2 False ne by (metis last_in_set order_trans prod.collapse)
      then show ?thesis using ne False by (simp add: decode_data_key la_def)
    qed (simp add: la_def False)
  qed
  define b1 where "b1 = bl_buf_new\<lparr>w_key := seq_key 0 @ replicate 7 0, wk_len := 9\<rparr>"
  have en: "encode_seq_key 0 (w_key bl_buf_new) = Some (9, seq_key 0 @ replicate 7 0)"
    by (simp add: encode_seq_key_is bl_buf_new_def buf_sizes)
  have bo: "buf_ok b1" by (simp add: b1_def buf_ok_def bl_buf_new_def buf_sizes)
  let ?i = "lb_iter_seek L (lb_create_iterator L (tl_db s)) (seq_key 0)"
  have i1: "ahead ?i = tl" by (simp add: seek_law tl_def es_def)
  have i2: "ahead (lb_iter_seek_to_last L ?i) = (if es = [] then [] else [last es])" by (simp add: seek_again_law es_def)
  have f1: "(if lb_iter_valid L ?i then let q = decode_seq_key (lb_iter_key L ?i) in if q = -1 then 1 else q else 1) = mn"
    using first key_law [of ?i] by (auto simp: valid_law i1 split: if_splits)
  have f2: "(if lb_iter_valid L (lb_iter_seek_to_last L ?i)
      then let q = decode_seq_key (lb_iter_key L (lb_iter_seek_to_last L ?i)) in if q = -1 then 0 else q else 0) = la"
    using final key_law [of "lb_iter_seek_to_last L ?i"] by (auto simp: valid_law i2 split: if_splits)
  have "binlog_open L s True = Some (0, s\<lparr>tl_binlog := Some \<lparr>min_seq = mn, cur_seq = 0, last_seq = la\<rparr>, tl_buf := Some b1\<rparr>)"
    using f1 f2 by (simp add: binlog_open_def en Let_def b1_def)
  then show ?thesis using bo by (simp add: log_ok_def tsdb_data_def tl_db_def)
qed

end

text \<open>What holds of the log holds of the log found at the next start.\<close>

lemma reopened:
  assumes "log_wf M b" "synced M P b"
    and "cur_seq b' = (if cur_seq b \<le> last_seq b then cur_seq b else 1)" "last_seq b' = (if cur_seq b \<le> last_seq b then last_seq b else 0)"
  shows "log_wf M b' \<and> synced M P b'"
proof (cases "cur_seq b \<le> last_seq b")
  case True
  then show ?thesis using assms by (simp add: log_wf_def synced_def newest_def pending_def)
next
  case False
  have e: "\<not> (cur_seq b \<le> q \<and> q \<le> last_seq b)" for q using False by auto
  have e': "\<not> (cur_seq b' \<le> q \<and> q \<le> last_seq b')" for q using assms(3,4) False by (auto simp: word_le_nat_alt)
  have "pending M b k q = False" "pending M b' k q = False" for k q using e e' by (auto simp: pending_def)
  then have "synced M P b'" using assms(2) by (simp add: synced_def newest_def)
  moreover have "log_wf M b'" using assms(1,3,4) e e' False by (simp add: log_wf_def)
  ultimately show ?thesis by blast
qed

end
