(* ===== verification/Tsdb_System.thy ===== *)
theory Tsdb_System
  imports Tsdb_Api Tsdb_Replica
begin

text \<open>
  A master and a slave process of TSDB with clients and a connection that may fail: serving a request, the fate of a
  request of the synchronising thread, restarts of the master. The parser and the send buffer of the server
  framework are arguments; the locales \<open>redis_parser\<close> and \<open>send_cache\<close> state what is relied on.
\<close>

section \<open>The server framework\<close>

definition cmd_name :: "tsdb_cmd \<Rightarrow> bytes" where
  "cmd_name c = ascii (case c of
     Cmd_set \<Rightarrow> ''SET'' | Cmd_del \<Rightarrow> ''DEL'' | Cmd_mset \<Rightarrow> ''MSET'' | Cmd_get \<Rightarrow> ''GET'' | Cmd_sadd \<Rightarrow> ''SADD''
   | Cmd_lrange \<Rightarrow> ''LRANGE'' | Cmd_keys \<Rightarrow> ''KEYS'' | Cmd_values \<Rightarrow> ''VALUES'' | Cmd_info \<Rightarrow> ''INFO''
   | Cmd_ping \<Rightarrow> ''PING'' | Cmd_exists \<Rightarrow> ''EXISTS'' | Cmd_syncset \<Rightarrow> ''SYNCSET'' | Cmd_syncdel \<Rightarrow> ''SYNCDEL''
   | Cmd_compact \<Rightarrow> ''COMPACT'')"

text \<open>A request is the array of the name of a command and its arguments.\<close>

definition request :: "tsdb_cmd \<Rightarrow> bytes list \<Rightarrow> bytes" where
  "request c args = resp_array (cmd_name c # args)"

text \<open>The parser finds the command of a request and the places of its arguments.\<close>

locale redis_parser =
  fixes parse :: "bytes \<Rightarrow> (tsdb_cmd \<times> (nat \<times> int) list) option"
  assumes parses: "\<exists>fs. parse (request c args) = Some (c, fs) \<and> length fs = length args
    \<and> (\<forall>i < length args. mreads (request c args) (int (fst (fs ! i))) (snd (fs ! i)) = Some (args ! i))"

locale send_cache =
  fixes C :: "'c cache_lib"
  assumes initial_law: "ca_data C (ca_initial C) = []"
    and append_law: "ca_data C (snd (ca_append C c x)) = ca_data C c @ x"
    and append_ok: "fst (ca_append C c x) \<noteq> X_MALLOC_FAILED"
    and clean_law: "ca_data C (ca_clean C c) = []"

text \<open>A request served: the bytes sent back and the process.\<close>

definition serve ::
  "('w, 'i, 'c, 'v) tsdb_env \<Rightarrow> (bytes \<Rightarrow> (tsdb_cmd \<times> (nat \<times> int) list) option) \<Rightarrow> ('w, 'v) tsdb \<Rightarrow> bytes
   \<Rightarrow> (bytes \<times> ('w, 'v) tsdb) option" where
  "serve E parse t msg = do {
     (cmd, fs) \<leftarrow> parse msg;
     (r, p, t) \<leftarrow> tsdb_cmd_run E cmd t \<lparr>nd_recv = msg, nd_field = fs, nd_send = ca_initial (te_cache E)\<rparr>;
     Some (ca_data (te_cache E) (nd_send p), t) }"

text \<open>Requests served one after the other: all that is sent back and the process.\<close>

fun serve_all ::
  "('w, 'i, 'c, 'v) tsdb_env \<Rightarrow> (bytes \<Rightarrow> (tsdb_cmd \<times> (nat \<times> int) list) option) \<Rightarrow> ('w, 'v) tsdb \<Rightarrow> bytes list
   \<Rightarrow> (bytes \<times> ('w, 'v) tsdb) option" where
  "serve_all E parse t [] = Some ([], t)"
| "serve_all E parse t (r # rs) = do {
     (rep, t) \<leftarrow> serve E parse t r;
     (reps, t) \<leftarrow> serve_all E parse t rs;
     Some (rep @ reps, t) }"

section \<open>The connection\<close>

text \<open>The connection holds the requests that are sent and not served and the bytes sent back and not received.
  The fate of a request of the thread, sent in pieces: the connection breaks before all of it is sent
  (\<open>Ex_lost\<close>); it is sent, all requests are served or none, and the connection breaks or is closed by the slave
  (\<open>Ex_silent\<close>); it is sent, all requests are served or none, and \<^verbatim>\<open>recv\<close> returns up to a number of bytes of what has
  come back (\<open>Ex_reply\<close>), which may be a part of a response or an older one; it does not return where nothing has. A number of
  interrupted receives comes before the last.\<close>

datatype exchange = Ex_lost "nat list" | Ex_silent "nat list" bool nat bool | Ex_reply "nat list" nat bool nat

fun lost_answers :: "nat list \<Rightarrow> nat \<Rightarrow> int list" where
  "lost_answers [] n = [-1]"
| "lost_answers (c # cs) n = (if c < n then int c # lost_answers cs (n - c) else [-1])"

fun send_answers :: "nat list \<Rightarrow> nat \<Rightarrow> int list" where
  "send_answers [] n = [int n]"
| "send_answers (c # cs) n = int (min c n) # send_answers cs (n - min c n)"

definition exchange_answers ::
  "('w, 'i, 'c, 'v) tsdb_env \<Rightarrow> (bytes \<Rightarrow> (tsdb_cmd \<times> (nat \<times> int) list) option) \<Rightarrow> exchange \<Rightarrow> bytes
   \<Rightarrow> bytes list \<Rightarrow> bytes \<Rightarrow> ('w, 'v) tsdb \<Rightarrow> (int list \<times> recv_ans list \<times> ('w, 'v) tsdb \<times> bytes list \<times> bytes) option" where
  "exchange_answers E parse ex req wire unread peer =
     (case ex of
        Ex_lost cs \<Rightarrow> Some (lost_answers cs (length req), [Rcv_broken], peer, [], [])
      | Ex_silent cs served n closed \<Rightarrow> do {
          (reps, peer) \<leftarrow> (if served then serve_all E parse peer (wire @ [req]) else Some ([], peer));
          Some (send_answers cs (length req), replicate n Rcv_again @ [if closed \<and> unread = [] then Rcv_closed else Rcv_broken], peer, [], []) }
      | Ex_reply cs n served m \<Rightarrow> do {
          (reps, peer) \<leftarrow> (if served then serve_all E parse peer (wire @ [req]) else Some ([], peer));
          let got = take (min m RECV_BUF_SIZE) (unread @ reps);
          Some (send_answers cs (length req), replicate n Rcv_again @ (if got = [] then [] else [Rcv_data got]), peer,
            if served then [] else wire @ [req], drop (length got) (unread @ reps)) })"

section \<open>Clients\<close>

datatype client_req = Req_set bytes bytes | Req_del "bytes list" | Req_mset "(bytes \<times> bytes) list" | Req_get bytes

primrec client_msg :: "client_req \<Rightarrow> bytes" where
  "client_msg (Req_set k v) = request Cmd_set [k, v]"
| "client_msg (Req_del ks) = request Cmd_del ks"
| "client_msg (Req_mset kvs) = request Cmd_mset (concat (map (\<lambda>(k, v). [k, v]) kvs))"
| "client_msg (Req_get k) = request Cmd_get [k]"

text \<open>The writes of a request: the command in the log, the key, the value it gets.\<close>

primrec client_writes :: "client_req \<Rightarrow> (byte \<times> bytes \<times> bytes option) list" where
  "client_writes (Req_set k v) = [(CMD_SET, k, Some v)]"
| "client_writes (Req_del ks) = map (\<lambda>k. (CMD_DEL, k, None)) ks"
| "client_writes (Req_mset kvs) = map (\<lambda>(k, v). (CMD_SET, k, Some v)) kvs"
| "client_writes (Req_get k) = []"

section \<open>The system\<close>

record ('w, 'v) tsdb_sys =
  sy_master :: "('w, 'v) tsdb"
  sy_peer :: "('w, 'v) tsdb"
  sy_wire :: "bytes list"
  sy_unread :: bytes

definition pair_up :: "('w, 'v) tsdb \<Rightarrow> ('w, 'v) tsdb \<Rightarrow> ('w, 'v) tsdb_sys" where
  "pair_up m peer = \<lparr>sy_master = m, sy_peer = peer, sy_wire = [], sy_unread = []\<rparr>"

text \<open>A client's request to the master, a step of the thread with what its socket calls meet, a new start of the
  master on what its database holds. A request is served in one step. With its socket the thread loses what is on the
  connection.\<close>

datatype tsdb_act = Client client_req | Thread int bool exchange | Restart

definition thread_request :: "slave_thread \<Rightarrow> bytes" where
  "thread_request th = (if st_pc th = Sl_Beat then ping_req else take (st_len th) (st_send th))"

definition thread_step ::
  "('w, 'i, 'c, 'v) tsdb_env \<Rightarrow> (bytes \<Rightarrow> (tsdb_cmd \<times> (nat \<times> int) list) option) \<Rightarrow> int \<Rightarrow> bool \<Rightarrow> exchange
   \<Rightarrow> ('w, 'v) tsdb_sys \<Rightarrow> ('w, 'v) tsdb_sys option" where
  "thread_step E parse fd conn ex sys = do {
     th \<leftarrow> ts_thread (sy_master sys);
     s \<leftarrow> ts_ldb (sy_master sys);
     (sends, recvs, peer, wire, unread) \<leftarrow> (if st_pc th = Sl_Beat \<or> st_pc th = Sl_Send
        then exchange_answers E parse ex (thread_request th) (sy_wire sys) (sy_unread sys) (sy_peer sys)
        else Some ([], [], sy_peer sys, sy_wire sys, sy_unread sys));
     (th, s) \<leftarrow> slave_step (te_ldb E) \<lparr>na_fd = fd, na_conn = conn, na_sends = sends, na_recvs = recvs\<rparr> th s;
     Some (sys\<lparr>sy_master := (sy_master sys)\<lparr>ts_ldb := Some s, ts_thread := Some th\<rparr>, sy_peer := peer,
       sy_wire := if sl_sock (st_slave th) = -1 then [] else wire, sy_unread := if sl_sock (st_slave th) = -1 then [] else unread\<rparr>) }"

definition tsdb_down :: "'w \<Rightarrow> 'v \<Rightarrow> ('w, 'v) tsdb" where
  "tsdb_down w v = \<lparr>ts_engine = TSDB_ENGINE_UNKNOWN, ts_ldb = None, ts_disk = w, ts_thread = None, ts_readonly = False,
     ts_page = 0, ts_kv = \<lparr>tk_kv = -1, tk_store = v\<rparr>\<rparr>"

definition tsdb_do ::
  "('w, 'i, 'c, 'v) tsdb_env \<Rightarrow> (bytes \<Rightarrow> (tsdb_cmd \<times> (nat \<times> int) list) option) \<Rightarrow> tsdb_cfg \<Rightarrow> tsdb_act
   \<Rightarrow> ('w, 'v) tsdb_sys \<Rightarrow> ('w, 'v) tsdb_sys option" where
  "tsdb_do E parse cfg act sys =
     (case act of
        Client r \<Rightarrow> do { (rep, m) \<leftarrow> serve E parse (sy_master sys) (client_msg r); Some (sys\<lparr>sy_master := m\<rparr>) }
      | Thread fd conn ex \<Rightarrow> thread_step E parse fd conn ex sys
      | Restart \<Rightarrow> do {
          s \<leftarrow> ts_ldb (sy_master sys);
          (r, m) \<leftarrow> tsdb_cmd_init E cfg (tsdb_down (tl_db s) (tk_store (ts_kv (sy_master sys))));
          Some (sys\<lparr>sy_master := m, sy_wire := [], sy_unread := []\<rparr>) })"

fun tsdb_run ::
  "('w, 'i, 'c, 'v) tsdb_env \<Rightarrow> (bytes \<Rightarrow> (tsdb_cmd \<times> (nat \<times> int) list) option) \<Rightarrow> tsdb_cfg \<Rightarrow> tsdb_act list
   \<Rightarrow> ('w, 'v) tsdb_sys \<Rightarrow> ('w, 'v) tsdb_sys option" where
  "tsdb_run E parse cfg [] sys = Some sys"
| "tsdb_run E parse cfg (a # as) sys = do { sys \<leftarrow> tsdb_do E parse cfg a sys; tsdb_run E parse cfg as sys }"

text \<open>The contents of the database of a process.\<close>

definition ldb_of :: "('w \<Rightarrow> (bytes \<times> bytes) list) \<Rightarrow> ('w, 'v) tsdb \<Rightarrow> bytes \<rightharpoonup> bytes" where
  "ldb_of entries t = (case ts_ldb t of None \<Rightarrow> Map.empty | Some s \<Rightarrow> tsdb_data entries s)"

section \<open>A parser and a buffer\<close>

definition read_num :: "bytes \<Rightarrow> (nat \<times> bytes) option" where
  "read_num b =
     (let ds = takeWhile is_digit b; r = drop (length ds) b in
      if ds \<noteq> [] \<and> take 2 r = crlf then Some (digits_value ds, drop 2 r) else None)"

text \<open>The places of \<open>n\<close> bulk strings in what is left of \<open>b\<close>, which starts at \<open>off\<close>.\<close>

fun read_bulks :: "nat \<Rightarrow> nat \<Rightarrow> bytes \<Rightarrow> (nat \<times> int) list option" where
  "read_bulks 0 off b = Some []"
| "read_bulks (Suc n) off b =
     (case b of
        [] \<Rightarrow> None
      | x # b' \<Rightarrow>
          if x \<noteq> 0x24 then None
          else case read_num b' of
            None \<Rightarrow> None
          | Some (len, r) \<Rightarrow>
              let at = off + (length b - length r) in
              map_option (Cons (at, int len)) (read_bulks n (at + len + 2) (drop (len + 2) r)))"

definition all_cmds :: "tsdb_cmd list" where
  "all_cmds = [Cmd_set, Cmd_del, Cmd_mset, Cmd_get, Cmd_sadd, Cmd_lrange, Cmd_keys, Cmd_values, Cmd_info, Cmd_ping,
     Cmd_exists, Cmd_syncset, Cmd_syncdel, Cmd_compact]"

definition read_request :: "bytes \<Rightarrow> (tsdb_cmd \<times> (nat \<times> int) list) option" where
  "read_request b =
     (case b of
        [] \<Rightarrow> None
      | x # b' \<Rightarrow>
          if x \<noteq> 0x2A then None
          else do {
            (n, r) \<leftarrow> read_num b';
            fs \<leftarrow> read_bulks n (length b - length r) r;
            case fs of
              [] \<Rightarrow> None
            | f # fs \<Rightarrow> do {
                name \<leftarrow> mreads b (int (fst f)) (snd f);
                c \<leftarrow> find (\<lambda>c. cmd_name c = name) all_cmds;
                Some (c, fs) } })"

lemma read_num_is: "read_num (dec_nat n @ crlf @ r) = Some (n, r)"
proof -
  have "takeWhile is_digit (dec_nat n @ crlf @ r) = dec_nat n"
    using dec_nat_digits [of n] by (subst takeWhile_append2) (auto simp: list_all_iff crlf_def is_digit_def word_le_nat_alt)
  then show ?thesis using dec_nat_digits [of n] by (simp add: read_num_def digits_value_dec crlf_def)
qed

lemma read_bulks_is:
  "\<exists>fs. read_bulks (length xs) (length pre) (concat (map bulk xs) @ post) = Some fs \<and> length fs = length xs
     \<and> (\<forall>i < length xs. mreads (pre @ concat (map bulk xs) @ post) (int (fst (fs ! i))) (snd (fs ! i)) = Some (xs ! i))"
proof (induction xs arbitrary: pre)
  case Nil
  then show ?case by simp
next
  case (Cons x xs)
  define h where "h = 0x24 # dec_nat (length x) @ crlf"
  define rest where "rest = concat (map bulk xs) @ post"
  have all: "concat (map bulk (x # xs)) @ post = h @ x @ crlf @ rest" by (simp add: h_def rest_def bulk_def)
  obtain fs where fs: "read_bulks (length xs) (length (pre @ h @ x @ crlf)) rest = Some fs" "length fs = length xs"
      "\<forall>i < length xs. mreads ((pre @ h @ x @ crlf) @ rest) (int (fst (fs ! i))) (snd (fs ! i)) = Some (xs ! i)"
    using Cons.IH [of "pre @ h @ x @ crlf"] by (auto simp: rest_def)
  have l: "length (pre @ h @ x @ crlf) = 5 + (length pre + (length (dec_nat (length x)) + length x))" by (simp add: h_def crlf_def)
  have "read_bulks (length (x # xs)) (length pre) (h @ x @ crlf @ rest) = Some ((length (pre @ h), int (length x)) # fs)"
    using fs(1) [unfolded l] read_num_is [of "length x" "x @ crlf @ rest"] by (simp add: h_def crlf_def Let_def add.assoc)
  moreover have "mreads (pre @ h @ x @ crlf @ rest) (int (length (pre @ h))) (int (length x)) = Some x"
    using mreads_append [of "pre @ h" x "crlf @ rest"] by simp
  ultimately show ?case unfolding all using fs(2,3)
    by (intro exI [of _ "(length (pre @ h), int (length x)) # fs"]) (auto simp: nth_Cons split: nat.split)
qed

lemma cmd_name_inject: "cmd_name c = cmd_name d \<longleftrightarrow> c = d"
  by (cases c; cases d) (simp_all add: cmd_name_def ascii_def)

lemma find_cmd: "find (\<lambda>d. cmd_name d = cmd_name c) all_cmds = Some c"
  by (cases c) (simp_all add: all_cmds_def cmd_name_inject)

interpretation resp_parser: redis_parser read_request
proof
  fix c args
  define h where "h = 0x2A # dec_nat (length (cmd_name c # args)) @ crlf"
  have r: "request c args = h @ concat (map bulk (cmd_name c # args))" by (simp add: request_def resp_array_def h_def)
  obtain fs where fs: "read_bulks (length (cmd_name c # args)) (length h) (concat (map bulk (cmd_name c # args))) = Some fs"
      "length fs = length (cmd_name c # args)"
      "\<forall>i < length (cmd_name c # args). mreads (request c args) (int (fst (fs ! i))) (snd (fs ! i)) = Some ((cmd_name c # args) ! i)"
    using read_bulks_is [of "cmd_name c # args" h "[]"] by (auto simp: r)
  then obtain f fs' where f: "fs = f # fs'" by (cases fs) auto
  have "mreads (request c args) (int (fst f)) (snd f) = Some (cmd_name c)" using fs(3) f by auto
  then have "read_request (request c args) = Some (c, fs')"
    using fs(1) read_num_is [of "length (cmd_name c # args)" "concat (map bulk (cmd_name c # args))"] f
    by (simp add: read_request_def r h_def find_cmd del: concat.simps list.map read_bulks.simps)
  then show "\<exists>fs. read_request (request c args) = Some (c, fs) \<and> length fs = length args
    \<and> (\<forall>i < length args. mreads (request c args) (int (fst (fs ! i))) (snd (fs ! i)) = Some (args ! i))"
    using fs(2,3) f by (intro exI [of _ fs']) fastforce
qed

definition list_cache :: "bytes cache_lib" where
  "list_cache = \<lparr>ca_initial = [], ca_append = (\<lambda>c x. (int (length x), c @ x)), ca_clean = (\<lambda>c. []), ca_buff = id, ca_data = id\<rparr>"

interpretation list_cache: send_cache list_cache
  by unfold_locales (simp_all add: list_cache_def X_MALLOC_FAILED_def)

end
