(* ===== verification/Tsdb_Serve.thy ===== *)
theory Tsdb_Serve
  imports Tsdb_System
begin

text \<open>
  What serving a request does to the database: a client's writes are logged writes in their order, the requests of the
  synchronising thread set and delete. The locale \<open>tsdb_pair\<close> puts together what is relied on of the store, the
  parser and the send buffer.
\<close>

section \<open>Logged writes\<close>

definition client_ok :: "client_req \<Rightarrow> bool" where
  "client_ok r \<longleftrightarrow> r \<noteq> Req_del [] \<and> r \<noteq> Req_mset []
     \<and> (\<forall>(c, k, x) \<in> set (client_writes r). data_key k \<and> (\<forall>v. x = Some v \<longrightarrow> val_ok k v))"

definition log_all ::
  "(byte \<times> bytes \<times> bytes option) list \<Rightarrow> (bytes \<rightharpoonup> bytes) \<times> binlog_t \<Rightarrow> (bytes \<rightharpoonup> bytes) \<times> binlog_t" where
  "log_all ws Mb = fold (\<lambda>(c, k, x). logged c k x) ws Mb"

lemma log_all_simps [simp]: "log_all [] Mb = Mb" "log_all ((c, k, x) # ws) Mb = log_all ws (logged c k x Mb)"
  by (simp_all add: log_all_def)

lemma snd_logged [simp]: "snd (logged c k x Mb) = next_seq (snd Mb)"
  by (simp add: logged_def)

text \<open>A log the writer can add to, with the contents \<open>M\<close> and the counters \<open>b\<close>.\<close>

definition log_state :: "('w \<Rightarrow> (bytes \<times> bytes) list) \<Rightarrow> 'w tsdb_log \<Rightarrow> (bytes \<rightharpoonup> bytes) \<Rightarrow> binlog_t \<Rightarrow> bool" where
  "log_state entries s M b \<longleftrightarrow> log_ok s \<and> tl_binlog s = Some b \<and> ls_wbatch (tl_ldbs s) = [] \<and> tsdb_data entries s = M"

text \<open>A batch in the making: its operations lead to the contents and counters so far.\<close>

definition batching ::
  "('w \<Rightarrow> (bytes \<times> bytes) list) \<Rightarrow> 'w tsdb_log \<Rightarrow> (bytes \<rightharpoonup> bytes) \<Rightarrow> (bytes \<rightharpoonup> bytes) \<times> binlog_t \<Rightarrow> bool" where
  "batching entries s M Mb \<longleftrightarrow> log_ok s \<and> tl_binlog s = Some (snd Mb) \<and> tsdb_data entries s = M
     \<and> batch_apply (ls_wbatch (tl_ldbs s)) M = fst Mb"

section \<open>Serving\<close>

locale tsdb_pair = ordered_store "te_ldb E" entries ahead + send_cache "te_cache E" + redis_parser parse
  for E :: "('w, 'i, 'c, 'v) tsdb_env" and entries :: "'w \<Rightarrow> (bytes \<times> bytes) list" and ahead :: "'i \<Rightarrow> (bytes \<times> bytes) list"
    and parse :: "bytes \<Rightarrow> (tsdb_cmd \<times> (nat \<times> int) list) option"
begin

lemma serve_node:
  "\<exists>p. serve E parse t (request c args) = Option.bind (tsdb_cmd_run E c t p) (\<lambda>(r, p, t). Some (ca_data (te_cache E) (nd_send p), t))
     \<and> nfields p = length args \<and> (\<forall>i < length args. field p i = Some (args ! i)) \<and> ca_data (te_cache E) (nd_send p) = []"
proof -
  obtain fs where fs: "parse (request c args) = Some (c, fs)" "length fs = length args"
      "\<forall>i < length args. mreads (request c args) (int (fst (fs ! i))) (snd (fs ! i)) = Some (args ! i)"
    using parses [of c args] by blast
  define p where "p = \<lparr>nd_recv = request c args, nd_field = fs, nd_send = ca_initial (te_cache E)\<rparr>"
  have "field p i = Some (args ! i)" if "i < length args" for i
    using fs(2,3) that by (simp add: field_def nfields_def p_def Let_def split: prod.split) (metis prod.sel)
  then show ?thesis using fs(1,2) initial_law
    by (intro exI [of _ p]) (simp add: serve_def p_def nfields_def)
qed

lemma reply_data [simp]: "ca_data (te_cache E) (nd_send (reply (te_cache E) p x)) = ca_data (te_cache E) (nd_send p) @ x"
  by (simp add: reply_def append_law)

lemma serve_ldb:
  assumes "ts_ldb t = Some s" "f p s = Some (r, reply (te_cache E) p x, s')" "ca_data (te_cache E) (nd_send p) = []"
  shows "Option.bind (on_ldb f t p) (\<lambda>(r, p, t). Some (ca_data (te_cache E) (nd_send p), t)) = Some (x, t\<lparr>ts_ldb := Some s'\<rparr>)"
  using assms by (simp add: on_ldb_def)

lemma set_served:
  assumes "log_state entries s M b" "ts_ldb t = Some s" "ts_engine t = TSDB_ENGINE_LDB" "\<not> ts_readonly t" "length k \<le> 511"
  shows "\<exists>s'. serve E parse t (request Cmd_set [k, v]) = Some (OPT_OK, t\<lparr>ts_ldb := Some s'\<rparr>)
    \<and> log_state entries s' (fst (logged CMD_SET k (Some v) (M, b))) (next_seq b)"
proof -
  obtain p where p: "serve E parse t (request Cmd_set [k, v]) = Option.bind (tsdb_cmd_run E Cmd_set t p) (\<lambda>(r, p, t). Some (ca_data (te_cache E) (nd_send p), t))"
      "nfields p = 2" "field p 0 = Some k" "field p (Suc 0) = Some v" "ca_data (te_cache E) (nd_send p) = []"
    using serve_node [of t Cmd_set "[k, v]"] by (auto simp: numeral_2_eq_2)
  obtain s' where s': "binlog_put (te_ldb E) s k v = Some (0, s')" "log_ok s'" "tl_binlog s' = Some (next_seq b)" "ls_wbatch (tl_ldbs s') = []"
      "tsdb_data entries s' = (tsdb_data entries s)(seq_key (last_seq b + 1) \<mapsto> CMD_SET # k, k \<mapsto> v)"
    using binlog_put_is [of s b k v] assms(1,5) by (auto simp: log_state_def)
  have h: "tsdb_ldb_set (te_ldb E) (te_cache E) False p s = Some (X_DONE_OK, reply (te_cache E) p OPT_OK, s')"
    using p s'(1) by (simp add: tsdb_ldb_set_def answer_def)
  have "serve E parse t (request Cmd_set [k, v]) = Some (OPT_OK, t\<lparr>ts_ldb := Some s'\<rparr>)"
    unfolding p(1) using serve_ldb [of t s "tsdb_ldb_set (te_ldb E) (te_cache E) False" p, OF assms(2) h p(5)] assms(3,4)
    by (simp add: tsdb_cmd_run_def on_engines_def)
  then show ?thesis using s' assms(1) by (auto simp: log_state_def logged_def)
qed

lemma del_fields_is:
  assumes "batching entries s M Mb" "\<forall>i \<in> set is. \<exists>k. field p i = Some k \<and> length k \<le> 511"
  shows "\<exists>s'. del_fields p is s = Some (Inr s') \<and> batching entries s' M (log_all (map (\<lambda>i. (CMD_DEL, the (field p i), None)) is) Mb)"
  using assms
proof (induction "is" arbitrary: s Mb)
  case (Cons i "is")
  then obtain k where k: "field p i = Some k" "length k \<le> 511" by auto
  obtain s1 where s1: "binlog_batch_delete s k = Some (0, s1)" "log_ok s1" "tl_binlog s1 = Some (next_seq (snd Mb))"
      "ls_wbatch (tl_ldbs s1) = ls_wbatch (tl_ldbs s) @ [Bat_Put (seq_key (last_seq (snd Mb) + 1)) (CMD_DEL # k), Bat_Del k]"
      "tsdb_data entries s1 = tsdb_data entries s"
    using binlog_batch_delete_is [of s "snd Mb" k] Cons.prems(1) k(2) by (auto simp: batching_def)
  have "batching entries s1 M (logged CMD_DEL k None Mb)" using s1 Cons.prems(1) by (auto simp: batching_def logged_def)
  then show ?case using Cons.IH [of s1] Cons.prems(2) k s1(1) by auto
qed simp

lemma mset_fields_is:
  assumes "batching entries s M Mb" "\<forall>i \<in> set is. \<exists>k v. field p (2 * i) = Some k \<and> field p (2 * i + 1) = Some v \<and> length k \<le> 511"
  shows "\<exists>s'. mset_fields p is s = Some (Inr s')
    \<and> batching entries s' M (log_all (map (\<lambda>i. (CMD_SET, the (field p (2 * i)), Some (the (field p (2 * i + 1))))) is) Mb)"
  using assms
proof (induction "is" arbitrary: s Mb)
  case (Cons i "is")
  then obtain k v where k: "field p (2 * i) = Some k" "field p (2 * i + 1) = Some v" "length k \<le> 511" by auto
  obtain s1 where s1: "binlog_batch_put s k v = Some (0, s1)" "log_ok s1" "tl_binlog s1 = Some (next_seq (snd Mb))"
      "ls_wbatch (tl_ldbs s1) = ls_wbatch (tl_ldbs s) @ [Bat_Put (seq_key (last_seq (snd Mb) + 1)) (CMD_SET # k), Bat_Put k v]"
      "tsdb_data entries s1 = tsdb_data entries s"
    using binlog_batch_put_is [of s "snd Mb" k v] Cons.prems(1) k(3) by (auto simp: batching_def)
  have "batching entries s1 M (logged CMD_SET k (Some v) Mb)" using s1 Cons.prems(1) by (auto simp: batching_def logged_def)
  then show ?case using Cons.IH [of s1] Cons.prems(2) k s1(1) by auto
qed simp

lemma commit_answer_is:
  assumes "batching entries s M Mb"
  shows "\<exists>s'. commit_answer (te_ldb E) (te_cache E) p x (Inr s) = Some (X_DONE_OK, reply (te_cache E) p x, s')
    \<and> log_state entries s' (fst Mb) (snd Mb)"
  using binlog_batch_commit_is [of s] assms by (auto simp: commit_answer_def answer_def batching_def log_state_def log_ok_def)

lemma del_served:
  assumes st: "log_state entries s M b" "ts_ldb t = Some s" "ts_engine t = TSDB_ENGINE_LDB" "\<not> ts_readonly t"
    and ks: "ks \<noteq> []" "\<forall>k \<in> set ks. length k \<le> 511"
  shows "\<exists>s' Mb. serve E parse t (request Cmd_del ks) = Some (OPT_NUMBER (int (length ks)), t\<lparr>ts_ldb := Some s'\<rparr>)
    \<and> Mb = log_all (map (\<lambda>k. (CMD_DEL, k, None)) ks) (M, b) \<and> log_state entries s' (fst Mb) (snd Mb)"
proof -
  obtain p where p: "serve E parse t (request Cmd_del ks) = Option.bind (tsdb_cmd_run E Cmd_del t p) (\<lambda>(r, p, t). Some (ca_data (te_cache E) (nd_send p), t))"
      "nfields p = length ks" "\<forall>i < length ks. field p i = Some (ks ! i)" "ca_data (te_cache E) (nd_send p) = []"
    using serve_node [of t Cmd_del ks] by auto
  have "batching entries s M (M, b)" using st(1) by (simp add: batching_def log_state_def)
  moreover have "map (\<lambda>i. (CMD_DEL, the (field p i), None :: bytes option)) [0..<length ks] = map (\<lambda>k. (CMD_DEL, k, None)) ks"
    using p(3) by (intro nth_equalityI) simp_all
  ultimately obtain s1 where s1: "del_fields p [0..<length ks] s = Some (Inr s1)" "batching entries s1 M (log_all (map (\<lambda>k. (CMD_DEL, k, None)) ks) (M, b))"
    using del_fields_is [of s M "(M, b)" "[0..<length ks]" p] p(3) ks(2) by auto
  obtain s2 where s2: "commit_answer (te_ldb E) (te_cache E) p (OPT_NUMBER (int (length ks))) (Inr s1)
      = Some (X_DONE_OK, reply (te_cache E) p (OPT_NUMBER (int (length ks))), s2)"
      "log_state entries s2 (fst (log_all (map (\<lambda>k. (CMD_DEL, k, None)) ks) (M, b))) (snd (log_all (map (\<lambda>k. (CMD_DEL, k, None)) ks) (M, b)))"
    using commit_answer_is [OF s1(2)] by blast
  have h: "tsdb_ldb_del (te_ldb E) (te_cache E) False p s = Some (X_DONE_OK, reply (te_cache E) p (OPT_NUMBER (int (length ks))), s2)"
    using p(2) ks(1) s1(1) s2(1) by (simp add: tsdb_ldb_del_def)
  have "serve E parse t (request Cmd_del ks) = Some (OPT_NUMBER (int (length ks)), t\<lparr>ts_ldb := Some s2\<rparr>)"
    unfolding p(1) using serve_ldb [of t s "tsdb_ldb_del (te_ldb E) (te_cache E) False" p, OF st(2) h p(4)] st(3,4)
    by (simp add: tsdb_cmd_run_def on_engines_def)
  then show ?thesis using s2(2) by blast
qed

lemma pairs_nth:
  "i < length kvs \<Longrightarrow> concat (map (\<lambda>(k, v). [k, v]) kvs) ! (2 * i) = fst (kvs ! i) \<and> concat (map (\<lambda>(k, v). [k, v]) kvs) ! (2 * i + 1) = snd (kvs ! i)"
proof (induction kvs arbitrary: i)
  case (Cons kv kvs)
  then show ?case by (cases i; cases kv) auto
qed simp

lemma pairs_length: "length (concat (map (\<lambda>(k, v). [k, v]) kvs)) = 2 * length kvs"
  by (induction kvs) auto

lemma mset_served:
  assumes st: "log_state entries s M b" "ts_ldb t = Some s" "ts_engine t = TSDB_ENGINE_LDB" "\<not> ts_readonly t"
    and kvs: "kvs \<noteq> []" "\<forall>(k, v) \<in> set kvs. length k \<le> 511"
  shows "\<exists>s' Mb. serve E parse t (request Cmd_mset (concat (map (\<lambda>(k, v). [k, v]) kvs))) = Some (OPT_OK, t\<lparr>ts_ldb := Some s'\<rparr>)
    \<and> Mb = log_all (map (\<lambda>(k, v). (CMD_SET, k, Some v)) kvs) (M, b) \<and> log_state entries s' (fst Mb) (snd Mb)"
proof -
  let ?args = "concat (map (\<lambda>(k, v). [k, v]) kvs)" and ?n = "length kvs"
  obtain p where p: "serve E parse t (request Cmd_mset ?args) = Option.bind (tsdb_cmd_run E Cmd_mset t p) (\<lambda>(r, p, t). Some (ca_data (te_cache E) (nd_send p), t))"
      "nfields p = 2 * ?n" "\<forall>i < 2 * ?n. field p i = Some (?args ! i)" "ca_data (te_cache E) (nd_send p) = []"
    using serve_node [of t Cmd_mset ?args] unfolding pairs_length by blast
  have f: "field p (2 * i) = Some (fst (kvs ! i))" "field p (2 * i + 1) = Some (snd (kvs ! i))" if "i < ?n" for i
    using p(3) pairs_nth [OF that] that by simp_all
  have "batching entries s M (M, b)" using st(1) by (simp add: batching_def log_state_def)
  moreover have "map (\<lambda>i. (CMD_SET, the (field p (2 * i)), Some (the (field p (2 * i + 1))))) [0..<?n] = map (\<lambda>(k, v). (CMD_SET, k, Some v)) kvs"
    using f by (intro nth_equalityI) (simp_all add: case_prod_beta)
  moreover have "\<forall>i \<in> set [0..<?n]. \<exists>k v. field p (2 * i) = Some k \<and> field p (2 * i + 1) = Some v \<and> length k \<le> 511"
  proof
    fix i assume "i \<in> set [0..<?n]"
    then have i: "i < ?n" by simp
    have "length (fst (kvs ! i)) \<le> 511" using kvs(2) nth_mem [OF i] by (cases "kvs ! i") auto
    then show "\<exists>k v. field p (2 * i) = Some k \<and> field p (2 * i + 1) = Some v \<and> length k \<le> 511" using f [OF i] by blast
  qed
  ultimately obtain s1 where s1: "mset_fields p [0..<?n] s = Some (Inr s1)" "batching entries s1 M (log_all (map (\<lambda>(k, v). (CMD_SET, k, Some v)) kvs) (M, b))"
    using mset_fields_is [of s M "(M, b)" "[0..<?n]" p] by auto
  obtain s2 where s2: "commit_answer (te_ldb E) (te_cache E) p OPT_OK (Inr s1) = Some (X_DONE_OK, reply (te_cache E) p OPT_OK, s2)"
      "log_state entries s2 (fst (log_all (map (\<lambda>(k, v). (CMD_SET, k, Some v)) kvs) (M, b))) (snd (log_all (map (\<lambda>(k, v). (CMD_SET, k, Some v)) kvs) (M, b)))"
    using commit_answer_is [OF s1(2)] by blast
  have h: "tsdb_ldb_mset (te_ldb E) (te_cache E) False p s = Some (X_DONE_OK, reply (te_cache E) p OPT_OK, s2)"
    using p(2) kvs(1) s1(1) s2(1) by (simp add: tsdb_ldb_mset_def)
  have "serve E parse t (request Cmd_mset ?args) = Some (OPT_OK, t\<lparr>ts_ldb := Some s2\<rparr>)"
    unfolding p(1) using serve_ldb [of t s "tsdb_ldb_mset (te_ldb E) (te_cache E) False" p, OF st(2) h p(4)] st(3,4)
    by (simp add: tsdb_cmd_run_def on_engines_def)
  then show ?thesis using s2(2) by blast
qed

lemma get_served:
  assumes "ts_ldb t = Some s" "ts_engine t = TSDB_ENGINE_LDB" "log_state entries s M b"
  shows "\<exists>s'. serve E parse t (request Cmd_get [k]) =
      Some (case M k of None \<Rightarrow> OPT_NULL | Some v \<Rightarrow> if v = [] then OPT_INTERIOR_ERROR else 0x24 # print_int (s32 (int (length v))) @ crlf @ v @ crlf,
        t\<lparr>ts_ldb := Some s'\<rparr>) \<and> log_state entries s' M b"
proof -
  obtain p where p: "serve E parse t (request Cmd_get [k]) = Option.bind (tsdb_cmd_run E Cmd_get t p) (\<lambda>(r, p, t). Some (ca_data (te_cache E) (nd_send p), t))"
      "nfields p = 1" "field p 0 = Some k" "ca_data (te_cache E) (nd_send p) = []"
    using serve_node [of t Cmd_get "[k]"] by auto
  obtain w where w: "lb_get (te_ldb E) (tl_db s) k = (False, M k, w)" "entries w = entries (tl_db s)"
    using read_is [of s k] assms(3) by (auto simp: log_state_def)
  define s' where "s' = s\<lparr>tl_ldbs := (tl_ldbs s)\<lparr>ls_db := w\<rparr>\<rparr>"
  have g: "ldb_get (te_ldb E) (tl_ldbs s) k = (M k, val_len (M k), (tl_ldbs s)\<lparr>ls_db := w\<rparr>)"
    using w(1) by (simp add: ldb_get_def tl_db_def)
  have st: "log_state entries s' M b" using assms(3) w(2) by (auto simp: log_state_def s'_def log_ok_def tsdb_data_def tl_db_def)
  let ?ans = "case M k of None \<Rightarrow> OPT_NULL | Some v \<Rightarrow> if v = [] then OPT_INTERIOR_ERROR else 0x24 # print_int (s32 (int (length v))) @ crlf @ v @ crlf"
  have "\<exists>r p'. tsdb_ldb_get (te_ldb E) (te_cache E) p s = Some (r, p', s') \<and> ca_data (te_cache E) (nd_send p') = ?ans"
  proof (cases "M k")
    case None
    then show ?thesis using p(3,4) g by (simp add: tsdb_ldb_get_def val_len_def answer_def s'_def)
  next
    case (Some v)
    define p1 where "p1 = reply (te_cache E) p (0x24 # print_int (s32 (int (length v))) @ crlf)"
    obtain n c where c: "ca_append (te_cache E) (nd_send p1) v = (n, c)" by fastforce
    have n: "n \<noteq> X_MALLOC_FAILED" using append_ok [of "nd_send p1" v] c by simp
    have "ca_data (te_cache E) c = ca_data (te_cache E) (nd_send p1) @ v" using append_law [of "nd_send p1" v] c by simp
    then have d: "ca_data (te_cache E) c = 0x24 # print_int (s32 (int (length v))) @ crlf @ v" using p(4) by (simp add: p1_def)
    show ?thesis
    proof (cases "v = []")
      case True
      then show ?thesis using Some p(3,4) g by (simp add: tsdb_ldb_get_def val_len_def answer_def s'_def)
    next
      case False
      then have "tsdb_ldb_get (te_ldb E) (te_cache E) p s = Some (X_DONE_OK, reply (te_cache E) (p1\<lparr>nd_send := c\<rparr>) crlf, s')"
        using Some p(3) g c n by (simp add: tsdb_ldb_get_def val_len_def answer_def s'_def p1_def Let_def)
      then show ?thesis using False Some d by simp
    qed
  qed
  then have "Option.bind (on_ldb (tsdb_ldb_get (te_ldb E) (te_cache E)) t p) (\<lambda>(r, p, t). Some (ca_data (te_cache E) (nd_send p), t)) =
      Some (?ans, t\<lparr>ts_ldb := Some s'\<rparr>)"
    using assms(1) by (auto simp: on_ldb_def)
  then have "serve E parse t (request Cmd_get [k]) = Some (?ans, t\<lparr>ts_ldb := Some s'\<rparr>)"
    unfolding p(1) using assms(2) by (simp add: tsdb_cmd_run_def tsdb_cmd_get_def Let_def)
  then show ?thesis using st by blast
qed

lemma ping_served: "serve E parse t ping_req = Some (OPT_PONG, t)"
proof -
  have r: "ping_req = request Cmd_ping []"
    by (simp add: ping_req_def request_def resp_array_def cmd_name_def ascii_def bulk_def dec_nat_digit)
  obtain p where p: "serve E parse t (request Cmd_ping []) = Option.bind (tsdb_cmd_run E Cmd_ping t p) (\<lambda>(r, p, t). Some (ca_data (te_cache E) (nd_send p), t))"
      "ca_data (te_cache E) (nd_send p) = []"
    using serve_node [of t Cmd_ping "[]"] by auto
  then show ?thesis by (simp add: r tsdb_cmd_run_def answer_def)
qed

lemma syncset_served:
  assumes "ts_ldb t = Some s" "has_ldb (ts_engine t)"
  shows "\<exists>s'. serve E parse t (sync_set_req k v) = Some (OPT_OK, t\<lparr>ts_ldb := Some s'\<rparr>)
    \<and> tsdb_data entries s' = (tsdb_data entries s)(k \<mapsto> v)"
proof -
  have r: "sync_set_req k v = request Cmd_syncset [k, v]" by (simp add: sync_set_req_def request_def cmd_name_def)
  obtain p where p: "serve E parse t (request Cmd_syncset [k, v]) = Option.bind (tsdb_cmd_run E Cmd_syncset t p) (\<lambda>(r, p, t). Some (ca_data (te_cache E) (nd_send p), t))"
      "nfields p = 2" "field p 0 = Some k" "field p (Suc 0) = Some v" "ca_data (te_cache E) (nd_send p) = []"
    using serve_node [of t Cmd_syncset "[k, v]"] by (auto simp: numeral_2_eq_2)
  obtain s' where s': "binlog_syncset (te_ldb E) s k v = (0, s')" "tsdb_data entries s' = (tsdb_data entries s)(k \<mapsto> v)"
    using binlog_syncset_is by blast
  have h: "tsdb_ldb_syncset (te_ldb E) (te_cache E) p s = Some (X_DONE_OK, reply (te_cache E) p OPT_OK, s')"
    using p s'(1) by (simp add: tsdb_ldb_syncset_def answer_def)
  show ?thesis unfolding r p(1) using serve_ldb [of t s "tsdb_ldb_syncset (te_ldb E) (te_cache E)" p, OF assms(1) h p(5)] assms(2) s'(2)
    by (auto simp: tsdb_cmd_run_def ldb_only_def)
qed

lemma syncdel_served:
  assumes "ts_ldb t = Some s" "has_ldb (ts_engine t)"
  shows "\<exists>s'. serve E parse t (sync_del_req k) = Some (OPT_OK, t\<lparr>ts_ldb := Some s'\<rparr>)
    \<and> tsdb_data entries s' = (if tsdb_data entries s k = Some [] then tsdb_data entries s else (tsdb_data entries s)(k := None))"
proof -
  have r: "sync_del_req k = request Cmd_syncdel [k]" by (simp add: sync_del_req_def request_def cmd_name_def)
  obtain p where p: "serve E parse t (request Cmd_syncdel [k]) = Option.bind (tsdb_cmd_run E Cmd_syncdel t p) (\<lambda>(r, p, t). Some (ca_data (te_cache E) (nd_send p), t))"
      "nfields p = 1" "field p 0 = Some k" "ca_data (te_cache E) (nd_send p) = []"
    using serve_node [of t Cmd_syncdel "[k]"] by auto
  obtain s' r where s': "binlog_syncdel (te_ldb E) s k = (r, s')" "r \<in> {0, 1}"
      "tsdb_data entries s' = (if tsdb_data entries s k = Some [] then tsdb_data entries s else (tsdb_data entries s)(k := None))"
    using binlog_syncdel_is by blast
  have h: "tsdb_ldb_syncdel (te_ldb E) (te_cache E) p s = Some (X_DONE_OK, reply (te_cache E) p OPT_OK, s')"
    using p s'(1,2) by (auto simp: tsdb_ldb_syncdel_def answer_def)
  show ?thesis unfolding \<open>sync_del_req k = _\<close> p(1)
    using serve_ldb [of t s "tsdb_ldb_syncdel (te_ldb E) (te_cache E)" p, OF assms(1) h p(4)] assms(2) s'(3)
    by (auto simp: tsdb_cmd_run_def ldb_only_def)
qed

text \<open>A client's request is served, and its writes are logged in their order.\<close>

lemma client_served:
  assumes st: "log_state entries s M b" "ts_ldb t = Some s" "ts_engine t = TSDB_ENGINE_LDB" "\<not> ts_readonly t" and ok: "client_ok r"
  shows "\<exists>rep s' Mb. serve E parse t (client_msg r) = Some (rep, t\<lparr>ts_ldb := Some s'\<rparr>)
    \<and> Mb = log_all (client_writes r) (M, b) \<and> log_state entries s' (fst Mb) (snd Mb)"
proof (cases r)
  case (Req_set k v)
  then have "length k \<le> 511" using ok by (simp add: client_ok_def data_key_def)
  then show ?thesis using set_served [OF st] Req_set by fastforce
next
  case (Req_del ks)
  then have "ks \<noteq> []" "\<forall>k \<in> set ks. length k \<le> 511" using ok by (auto simp: client_ok_def data_key_def)
  then show ?thesis using del_served [OF st] Req_del by fastforce
next
  case (Req_mset kvs)
  then have "kvs \<noteq> []" "\<forall>(k, v) \<in> set kvs. length k \<le> 511" using ok by (auto simp: client_ok_def data_key_def)
  then show ?thesis using mset_served [OF st] Req_mset by fastforce
next
  case (Req_get k)
  then show ?thesis using get_served [OF st(2,3,1)] by fastforce
qed

end

end
