(* ===== verification/Tsdb_Sync.thy ===== *)
theory Tsdb_Sync
  imports Tsdb_Serve
begin

text \<open>
  The master and its slave together: the invariant of the pair and of the synchronising thread, that every request of
  a client, every step of the thread whatever its socket calls meet, and every restart of the master keeps it, and that
  the thread catches up where the connection holds.
\<close>

section \<open>Writes of a client\<close>

lemma log_all_keeps:
  assumes "\<forall>(c, k, x) \<in> set ws. data_key k \<and> (c = CMD_SET \<and> (\<exists>v. x = Some v \<and> val_ok k v) \<or> c = CMD_DEL \<and> x = None)"
    and "log_wf M b" "synced M P b" "unat (last_seq b) + length ws < 2 ^ 64"
  shows "log_wf (fst (log_all ws (M, b))) (snd (log_all ws (M, b))) \<and> synced (fst (log_all ws (M, b))) P (snd (log_all ws (M, b)))
    \<and> unat (last_seq (snd (log_all ws (M, b)))) = unat (last_seq b) + length ws \<and> cur_seq (snd (log_all ws (M, b))) = cur_seq b"
  using assms
proof (induction ws arbitrary: M b)
  case (Cons w ws)
  obtain c k x where w: "w = (c, k, x)" by (cases w)
  have ok: "write_ok M b c k x" using Cons.prems w by (auto simp: write_ok_def)
  define M1 b1 where "M1 = fst (logged c k x (M, b))" and "b1 = next_seq b"
  have l: "logged c k x (M, b) = (M1, b1)" by (simp add: M1_def b1_def logged_def)
  have up: "unat (last_seq b1) = unat (last_seq b) + 1" using Cons.prems(4) unfolding b1_def by (simp add: seq_suc)
  have "log_wf M1 b1" "synced M1 P b1" using logged_wf [OF ok] logged_synced [OF ok Cons.prems(3)] by (simp_all add: M1_def b1_def)
  then show ?case using Cons.IH [of M1 b1] Cons.prems(1,4) up by (simp add: w l) (simp add: b1_def)
qed simp

lemma log_all_newest:
  assumes "\<forall>(c, k, x) \<in> set ws. data_key k \<and> (c = CMD_SET \<and> (\<exists>v. x = Some v \<and> val_ok k v) \<or> c = CMD_DEL \<and> x = None)"
    and "log_wf M b" "synced M P b" "unat (last_seq b) + length ws < 2 ^ 64" "q \<le> last_seq b" "data_key j"
    and n: "newest (fst (log_all ws (M, b))) (snd (log_all ws (M, b))) j q"
  shows "newest M b j q \<and> fst (log_all ws (M, b)) j = M j"
  using assms
proof (induction ws arbitrary: M b)
  case (Cons w ws)
  obtain c k x where w: "w = (c, k, x)" by (cases w)
  have ok: "write_ok M b c k x" using Cons.prems w by (auto simp: write_ok_def)
  define M1 b1 where "M1 = fst (logged c k x (M, b))" and "b1 = next_seq b"
  have l: "logged c k x (M, b) = (M1, b1)" by (simp add: M1_def b1_def logged_def)
  have up: "unat (last_seq b1) = unat (last_seq b) + 1" using Cons.prems(4) unfolding b1_def by (simp add: seq_suc)
  have wf: "log_wf M1 b1" "synced M1 P b1" using logged_wf [OF ok] logged_synced [OF ok Cons.prems(3)] by (simp_all add: M1_def b1_def)
  have q: "q \<le> last_seq b1" "q \<noteq> last_seq b + 1" using Cons.prems(5) next_facts [OF ok] by (auto simp: b1_def)
  have "newest M1 b1 j q \<and> fst (log_all ws (M1, b1)) j = M1 j"
    using Cons.IH [of M1 b1] Cons.prems(1,4,6,7) wf up q(1) by (simp add: w l)
  moreover from this have "j \<noteq> k \<and> newest M b j q" using logged_newest [OF ok, of j q] q(2) by (auto simp: M1_def b1_def split: if_splits)
  moreover have "j \<noteq> k \<Longrightarrow> M1 j = M j" using Cons.prems(6) by (simp add: M1_def logged_def)
  ultimately show ?case by (simp add: w l)
qed simp

lemma log_all_entry:
  assumes "\<forall>(c, k, x) \<in> set ws. data_key k \<and> (c = CMD_SET \<and> (\<exists>v. x = Some v \<and> val_ok k v) \<or> c = CMD_DEL \<and> x = None)"
    and "log_wf M b" "unat (last_seq b) + length ws < 2 ^ 64" "q \<le> last_seq b"
  shows "fst (log_all ws (M, b)) (seq_key q) = M (seq_key q) \<and> q \<le> last_seq (snd (log_all ws (M, b)))"
  using assms
proof (induction ws arbitrary: M b)
  case (Cons w ws)
  obtain c k x where w: "w = (c, k, x)" by (cases w)
  have ok: "write_ok M b c k x" using Cons.prems w by (auto simp: write_ok_def)
  define M1 b1 where "M1 = fst (logged c k x (M, b))" and "b1 = next_seq b"
  have l: "logged c k x (M, b) = (M1, b1)" by (simp add: M1_def b1_def logged_def)
  have up: "unat (last_seq b1) = unat (last_seq b) + 1" using Cons.prems(3) unfolding b1_def by (simp add: seq_suc)
  have q: "q \<le> last_seq b1" "q \<noteq> last_seq b + 1" using Cons.prems(4) next_facts [OF ok] by (auto simp: b1_def)
  have "data_key k" using ok by (simp add: write_ok_def)
  then have "M1 (seq_key q) = M (seq_key q)" using q(2) logged_seq [of k c x M b q] by (simp add: M1_def)
  then show ?case using Cons.IH [of M1 b1] Cons.prems(1,3) logged_wf [OF ok] up q(1) by (simp add: w l) (simp add: M1_def b1_def)
qed simp

lemma client_writes_ok:
  "client_ok r \<Longrightarrow> \<forall>(c, k, x) \<in> set (client_writes r). data_key k \<and> (c = CMD_SET \<and> (\<exists>v. x = Some v \<and> val_ok k v) \<or> c = CMD_DEL \<and> x = None)"
  by (cases r) (auto simp: client_ok_def)

section \<open>Exchanges\<close>

lemma send_request_all: "send_request (send_answers cs (length msg)) msg = Some 0"
proof (induction cs arbitrary: msg)
  case Nil
  then show ?case by (cases msg) simp_all
next
  case (Cons c cs)
  show ?case
  proof (cases msg)
    case (Cons x xs)
    have "length (drop (min c (length msg)) msg) = length msg - min c (length msg)" by simp
    then show ?thesis using Cons Cons.IH [of "drop (min c (length msg)) msg"] by (simp del: of_nat_min)
  qed simp
qed

lemma send_request_lost: "msg \<noteq> [] \<Longrightarrow> send_request (lost_answers cs (length msg)) msg = Some (-1)"
proof (induction cs arbitrary: msg)
  case Nil
  then show ?case by (cases msg) simp_all
next
  case (Cons c cs)
  then show ?case
  proof (cases msg)
    case (Cons x xs)
    then show ?thesis using Cons.IH [of "drop c msg"] Cons by auto
  qed simp
qed

lemma recv_again: "recv_response (replicate n Rcv_again @ rs) buf = recv_response rs buf"
  by (induction n) simp_all

lemma strstr_found: "strstr (xs @ p @ ys) p"
  by (induction xs) (auto simp: strstr.simps [of _ p])

text \<open>A reply that fits the buffer and has no zero byte, in a buffer that ends with one.\<close>

definition recv_ok :: "bytes \<Rightarrow> bool" where
  "recv_ok buf \<longleftrightarrow> length buf = RECV_BUF_SIZE \<and> buf ! 511 = 0"

lemma reply_checked:
  assumes "recv_ok buf" "length rep \<le> 511" "rep = xs @ pat @ ys" "0 \<notin> set rep"
  shows "\<exists>buf'. recv_response (replicate n Rcv_again @ [Rcv_data rep]) buf = Some (0, buf') \<and> recv_ok buf' \<and> check_response buf' pat = Some 0"
proof -
  define buf' where "buf' = rep @ drop (length rep) buf"
  have l: "length buf = 512" "buf ! 511 = 0" using assms(1) by (simp_all add: recv_ok_def RECV_BUF_SIZE_def)
  have w: "mwrites buf 0 rep = Some buf'" using l assms(2) by (simp add: mwrites_def buf'_def)
  have ok: "recv_ok buf'" using l assms(2) by (simp add: recv_ok_def RECV_BUF_SIZE_def buf'_def nth_append)
  have "buf' ! 511 \<in> set buf'" using ok by (intro nth_mem) (simp add: recv_ok_def RECV_BUF_SIZE_def)
  then have z: "0 \<in> set buf'" using ok by (simp add: recv_ok_def)
  have "c_str_of buf' = rep @ c_str_of (drop (length rep) buf)"
    unfolding buf'_def c_str_of_def using assms(4) by (intro takeWhile_append2) auto
  then have "strstr (c_str_of buf') pat" using strstr_found [of xs pat] assms(3) by simp
  then show ?thesis using w ok z by (simp add: recv_again check_response_def)
qed

section \<open>The invariant\<close>

definition sync_req :: "bytes \<Rightarrow> bytes option \<Rightarrow> bytes" where
  "sync_req k x = (case x of None \<Rightarrow> sync_del_req k | Some v \<Rightarrow> sync_set_req k v)"

text \<open>The request in the send buffer is for the entry at the current sequence number, and it is the last word on its key
  where no newer entry is; the entry to be deleted has been applied.\<close>

definition thread_ok :: "(bytes \<rightharpoonup> bytes) \<Rightarrow> (bytes \<rightharpoonup> bytes) \<Rightarrow> binlog_t \<Rightarrow> slave_thread \<Rightarrow> bool" where
  "thread_ok M P b th \<longleftrightarrow> length (st_send th) = SEND_BUF_SIZE \<and> recv_ok (st_recv th) \<and> \<not> is_quit (st_slave th) \<and> st_pc th \<noteq> Sl_End
     \<and> (st_pc th = Sl_Send \<longrightarrow> cur_seq b \<le> last_seq b \<and> st_len th \<le> SEND_BUF_SIZE
          \<and> (\<exists>c k x. M (seq_key (cur_seq b)) = Some (c # k) \<and> x \<noteq> Some [] \<and> take (st_len th) (st_send th) = sync_req k x
               \<and> (newest M b k (cur_seq b) \<longrightarrow> M k = x)))
     \<and> (st_pc th = Sl_Delete \<longrightarrow> cur_seq b \<le> last_seq b
          \<and> (\<exists>c k. M (seq_key (cur_seq b)) = Some (c # k) \<and> (newest M b k (cur_seq b) \<longrightarrow> P k = M k)))"

text \<open>The states of the two processes; \<open>n\<close> more writes leave the sequence numbers below their end.\<close>

definition pair_ok ::
  "('w \<Rightarrow> (bytes \<times> bytes) list) \<Rightarrow> nat \<Rightarrow> ('w, 'v) tsdb_sys \<Rightarrow> 'w tsdb_log \<Rightarrow> binlog_t \<Rightarrow> slave_thread \<Rightarrow> 'w tsdb_log \<Rightarrow> bool" where
  "pair_ok entries n sys s b th p \<longleftrightarrow>
     ts_engine (sy_master sys) = TSDB_ENGINE_LDB \<and> \<not> ts_readonly (sy_master sys) \<and> ts_ldb (sy_master sys) = Some s
     \<and> ts_thread (sy_master sys) = Some th \<and> has_ldb (ts_engine (sy_peer sys)) \<and> ts_ldb (sy_peer sys) = Some p
     \<and> log_state entries s (tsdb_data entries s) b \<and> log_wf (tsdb_data entries s) b
     \<and> synced (tsdb_data entries s) (tsdb_data entries p) b \<and> thread_ok (tsdb_data entries s) (tsdb_data entries p) b th
     \<and> unat (last_seq b) + n + 1 < 2 ^ 64 \<and> sy_wire sys = [] \<and> sy_unread sys = []"

definition sys_ok :: "('w \<Rightarrow> (bytes \<times> bytes) list) \<Rightarrow> nat \<Rightarrow> ('w, 'v) tsdb_sys \<Rightarrow> bool" where
  "sys_ok entries n sys \<longleftrightarrow> (\<exists>s b th p. pair_ok entries n sys s b th p)"

text \<open>A configuration that starts the thread.\<close>

definition cfg_ok :: "tsdb_cfg \<Rightarrow> bool" where
  "cfg_ok cfg \<longleftrightarrow> cf_engine_type cfg = TSDB_ENGINE_LDB \<and> cf_readonly cfg \<noteq> 1 \<and> cf_has_slave cfg \<and> length (cf_slave_ip cfg) < 16"

text \<open>Responses that are received whole: when \<^verbatim>\<open>recv\<close> returns, the request has been served and all that came back is
  received.\<close>

definition whole_reply :: "exchange \<Rightarrow> bool" where
  "whole_reply ex \<longleftrightarrow> (case ex of Ex_reply cs n served m \<Rightarrow> served \<and> RECV_BUF_SIZE \<le> m | _ \<Rightarrow> True)"

definition act_ok :: "tsdb_act \<Rightarrow> bool" where
  "act_ok a \<longleftrightarrow> (case a of Client r \<Rightarrow> client_ok r | Thread fd conn ex \<Rightarrow> whole_reply ex | Restart \<Rightarrow> True)"

definition act_writes :: "tsdb_act \<Rightarrow> (byte \<times> bytes \<times> bytes option) list" where
  "act_writes a = (case a of Client r \<Rightarrow> client_writes r | _ \<Rightarrow> [])"

text \<open>What a database holds after a list of writes.\<close>

definition written :: "(byte \<times> bytes \<times> bytes option) list \<Rightarrow> (bytes \<rightharpoonup> bytes) \<Rightarrow> bytes \<rightharpoonup> bytes" where
  "written ws m = fold (\<lambda>(c, k, x) m. m(k := x)) ws m"

lemma written_simps [simp]: "written [] m = m" "written ((c, k, x) # ws) m = written ws (m(k := x))" "written (ws @ vs) m = written vs (written ws m)"
  by (simp_all add: written_def)

lemma written_cong: "m j = m' j \<Longrightarrow> written ws m j = written ws m' j"
proof (induction ws arbitrary: m m')
  case (Cons w ws)
  obtain c k x where "w = (c, k, x)" by (cases w)
  then show ?case using Cons.IH [of "m(k := x)" "m'(k := x)"] Cons.prems by (simp add: fun_upd_def)
qed simp

lemma log_all_written: "data_key j \<Longrightarrow> fst (log_all ws (M, b)) j = written ws M j"
proof (induction ws arbitrary: M b)
  case (Cons w ws)
  obtain c k x where w: "w = (c, k, x)" by (cases w)
  define M1 b1 where "M1 = fst (logged c k x (M, b))" and "b1 = next_seq b"
  have "logged c k x (M, b) = (M1, b1)" by (simp add: M1_def b1_def logged_def)
  moreover have "M1 j = (M(k := x)) j" using Cons.prems by (simp add: M1_def logged_def)
  ultimately show ?case using Cons.IH [OF Cons.prems, of M1 b1] written_cong [of M1 j "M(k := x)" ws] by (simp add: w)
qed simp

lemma thread_ok_go:
  "thread_ok M P b th \<Longrightarrow> pc \<in> {Sl_Loop, Sl_Beat, Sl_Sync} \<Longrightarrow> thread_ok M P b (go pc th)"
  "thread_ok M P b th \<Longrightarrow> thread_ok M P b (hang_up th)"
  "thread_ok M P b th \<Longrightarrow> recv_ok buf \<Longrightarrow> thread_ok M P b (th\<lparr>st_recv := buf\<rparr>)"
  by (auto simp: thread_ok_def go_def hang_up_def)

text \<open>The thread while the client writes.\<close>

lemma thread_ok_writes:
  assumes ws: "\<forall>(c, k, x) \<in> set ws. data_key k \<and> (c = CMD_SET \<and> (\<exists>v. x = Some v \<and> val_ok k v) \<or> c = CMD_DEL \<and> x = None)"
    and wf: "log_wf M b" and sy: "synced M P b" and room: "unat (last_seq b) + length ws < 2 ^ 64" and th: "thread_ok M P b th"
    and M': "log_all ws (M, b) = (M', b')"
  shows "thread_ok M' P b' th"
proof (cases "cur_seq b \<le> last_seq b")
  case True
  have e: "M' (seq_key (cur_seq b)) = M (seq_key (cur_seq b))" "cur_seq b \<le> last_seq b'" "cur_seq b' = cur_seq b"
    using log_all_entry [OF ws wf room True] log_all_keeps [OF ws wf sy room] M' by auto
  have n: "newest M b k (cur_seq b) \<and> M' k = M k" if "newest M' b' k (cur_seq b)" "M (seq_key (cur_seq b)) = Some (c # k)" for c k
  proof -
    have "data_key k" using wf True that(2) unfolding log_wf_def by fastforce
    then show ?thesis using log_all_newest [OF ws wf sy room True] that(1) M' by simp
  qed
  then show ?thesis using th e unfolding thread_ok_def e(3) by (metis (no_types, lifting))
next
  case False
  then show ?thesis using th by (simp add: thread_ok_def)
qed

section \<open>Progress\<close>

definition log_left :: "binlog_t \<Rightarrow> nat" where
  "log_left b = unat (last_seq b) + 1 - unat (cur_seq b)"

text \<open>The steps of the thread until it has caught up, when all goes well.\<close>

definition rank :: "slave_thread \<Rightarrow> binlog_t \<Rightarrow> nat" where
  "rank th b =
     (case st_pc th of
        Sl_Loop \<Rightarrow> 3 * log_left b + 2 | Sl_Beat \<Rightarrow> 3 * log_left b + 1 | Sl_Send \<Rightarrow> 3 * log_left b - 1
      | Sl_Delete \<Rightarrow> 3 * log_left b - 2 | _ \<Rightarrow> 3 * log_left b)"

definition fair :: "tsdb_act \<Rightarrow> bool" where
  "fair a \<longleftrightarrow> (case a of Thread fd conn ex \<Rightarrow> fd \<noteq> -1 \<and> conn \<and> (case ex of Ex_reply cs n served m \<Rightarrow> served \<and> RECV_BUF_SIZE \<le> m | _ \<Rightarrow> False) | _ \<Rightarrow> False)"

text \<open>A step of the thread: it keeps the data and does not lengthen the log.\<close>

definition stepped ::
  "('w \<Rightarrow> (bytes \<times> bytes) list) \<Rightarrow> nat \<Rightarrow> tsdb_act \<Rightarrow> ('w, 'v) tsdb_sys \<Rightarrow> 'w tsdb_log \<Rightarrow> binlog_t \<Rightarrow> slave_thread \<Rightarrow> bool" where
  "stepped entries n a sys' s b th \<longleftrightarrow>
     (\<exists>s' b' th' p'. pair_ok entries n sys' s' b' th' p'
       \<and> (\<forall>k. data_key k \<longrightarrow> tsdb_data entries s' k = tsdb_data entries s k)
       \<and> log_left b' \<le> log_left b \<and> (fair a \<and> 0 < log_left b \<longrightarrow> rank th' b' < rank th b))"

section \<open>The steps\<close>

context tsdb_pair
begin

lemma client_step:
  assumes ok: "pair_ok entries (length (client_writes r) + n) sys s b th p" and r: "client_ok r"
  shows "\<exists>sys' s' b'. tsdb_do E parse cfg (Client r) sys = Some sys' \<and> pair_ok entries n sys' s' b' th p \<and> log_left b' \<le> log_left b + length (client_writes r)
    \<and> (\<forall>k. data_key k \<longrightarrow> tsdb_data entries s' k = written (client_writes r) (tsdb_data entries s) k)"
proof -
  let ?M = "tsdb_data entries s" and ?P = "tsdb_data entries p"
  obtain M' b' where M': "log_all (client_writes r) (?M, b) = (M', b')" by fastforce
  have st: "log_state entries s ?M b" "ts_ldb (sy_master sys) = Some s" "ts_engine (sy_master sys) = TSDB_ENGINE_LDB" "\<not> ts_readonly (sy_master sys)"
    using ok by (simp_all add: pair_ok_def)
  obtain rep s' where s': "serve E parse (sy_master sys) (client_msg r) = Some (rep, (sy_master sys)\<lparr>ts_ldb := Some s'\<rparr>)" "log_state entries s' M' b'"
    using client_served [OF st r] M' by auto
  have D: "tsdb_data entries s' = M'" using s'(2) by (simp add: log_state_def)
  note ws = client_writes_ok [OF r]
  have wf: "log_wf ?M b" "synced ?M ?P b" "thread_ok ?M ?P b th" "unat (last_seq b) + length (client_writes r) < 2 ^ 64"
    using ok by (simp_all add: pair_ok_def)
  have k: "log_wf M' b'" "synced M' ?P b'" "unat (last_seq b') = unat (last_seq b) + length (client_writes r)" "cur_seq b' = cur_seq b"
    using log_all_keeps [OF ws wf(1,2,4)] M' by auto
  have t: "thread_ok M' ?P b' th" by (rule thread_ok_writes [OF ws wf(1,2,4,3) M'])
  have "pair_ok entries n (sys\<lparr>sy_master := (sy_master sys)\<lparr>ts_ldb := Some s'\<rparr>\<rparr>) s' b' th p"
    using ok s'(2) k t unfolding pair_ok_def D by (simp add: D)
  moreover have "log_left b' \<le> log_left b + length (client_writes r)" using k(3,4) by (simp add: log_left_def)
  ultimately show ?thesis using s'(1) D log_all_written [of _ "client_writes r" ?M b] M' by (auto simp: tsdb_do_def)
qed

lemma exchanged:
  assumes "serve E parse peer req = Some (rep, peer')" "req \<noteq> []" "recv_ok (st_recv th)" "length rep \<le> 511" "rep = xs @ pat @ ys" "0 \<notin> set rep"
    and "pat \<noteq> []" "whole_reply ex"
  shows "\<exists>sends recvs peer1 th' buf. exchange_answers E parse ex req [] [] peer = Some (sends, recvs, peer1, [], [])
    \<and> slave_exchange \<lparr>na_fd = fd, na_conn = conn, na_sends = sends, na_recvs = recvs\<rparr> req pat retry ok th = Some th' \<and> recv_ok buf
    \<and> (th' = go ok (th\<lparr>st_recv := buf\<rparr>) \<and> peer1 = peer' \<or> th' = hang_up (th\<lparr>st_recv := buf\<rparr>) \<and> peer1 \<in> {peer, peer'})
    \<and> ((\<exists>cs n served m. ex = Ex_reply cs n served m) \<longrightarrow> th' = go ok (th\<lparr>st_recv := buf\<rparr>))"
proof (cases ex)
  case (Ex_lost cs)
  then show ?thesis using assms(2,3) send_request_lost [of req cs] by (auto simp: exchange_answers_def slave_exchange_def intro!: exI [of _ "st_recv th"])
next
  case (Ex_silent cs served n closed)
  then show ?thesis using assms(1,3) send_request_all [of cs req]
    by (auto simp: exchange_answers_def slave_exchange_def recv_again intro!: exI [of _ "st_recv th"])
next
  case (Ex_reply cs n served m)
  then have m: "served" "min m RECV_BUF_SIZE = RECV_BUF_SIZE" using assms(8) by (simp_all add: whole_reply_def)
  have g: "take RECV_BUF_SIZE rep = rep" "rep \<noteq> []" using assms(4,5,7) by (auto simp: RECV_BUF_SIZE_def)
  have pos: "0 < RECV_BUF_SIZE" by (simp add: RECV_BUF_SIZE_def)
  obtain buf where buf: "recv_response (replicate n Rcv_again @ [Rcv_data rep]) (st_recv th) = Some (0, buf)" "recv_ok buf" "check_response buf pat = Some 0"
    using reply_checked [OF assms(3-6)] by blast
  have "exchange_answers E parse ex req [] [] peer = Some (send_answers cs (length req), replicate n Rcv_again @ [Rcv_data rep], peer', [], [])"
    using assms(1) m g pos by (simp add: exchange_answers_def Ex_reply)
  then show ?thesis using buf send_request_all [of cs req] by (auto simp: slave_exchange_def intro!: exI [of _ buf])
qed

lemma reply_texts: "OPT_PONG = [0x2B] @ ascii ''PONG'' @ crlf" "OPT_OK = [0x2B] @ ascii ''OK'' @ crlf"
  by (simp_all add: OPT_PONG_def OPT_OK_def ascii_def crlf_def)

lemma pair_thread:
  assumes "pair_ok entries n sys s b th p" "thread_ok (tsdb_data entries s) (tsdb_data entries p) b th'"
  shows "pair_ok entries n (sys\<lparr>sy_master := (sy_master sys)\<lparr>ts_ldb := Some s, ts_thread := Some th'\<rparr>, sy_peer := sy_peer sys, sy_wire := [], sy_unread := []\<rparr>) s b th' p"
  using assms by (simp add: pair_ok_def)

lemma loop_step:
  assumes ok: "pair_ok entries n sys s b th p" and pc: "st_pc th = Sl_Loop"
  shows "\<exists>sys'. tsdb_do E parse cfg (Thread fd conn ex) sys = Some sys' \<and> stepped entries n (Thread fd conn ex) sys' s b th"
proof -
  have h: "ts_thread (sy_master sys) = Some th" "ts_ldb (sy_master sys) = Some s" "\<not> is_quit (st_slave th)" "thread_ok (tsdb_data entries s) (tsdb_data entries p) b th"
    using ok by (simp_all add: pair_ok_def thread_ok_def)
  have w: "sy_wire sys = []" "sy_unread sys = []" using ok by (simp_all add: pair_ok_def)
  define sl where "sl = (if sl_sock (st_slave th) = -1 then snd (sock_connect fd conn (st_slave th)) else st_slave th)"
  define th' where "th' = (if sl_sock (st_slave th) = -1 \<and> (fd = -1 \<or> \<not> conn) then th\<lparr>st_slave := sl\<rparr> else go Sl_Beat (th\<lparr>st_slave := sl\<rparr>))"
  have d: "tsdb_do E parse cfg (Thread fd conn ex) sys =
      Some (sys\<lparr>sy_master := (sy_master sys)\<lparr>ts_ldb := Some s, ts_thread := Some th'\<rparr>, sy_peer := sy_peer sys, sy_wire := [], sy_unread := []\<rparr>)"
    using h pc w by (simp add: tsdb_do_def thread_step_def slave_step_def th'_def sl_def sock_connect_def Let_def)
  have t: "thread_ok (tsdb_data entries s) (tsdb_data entries p) b th'"
    using h(4) pc by (auto simp: th'_def sl_def thread_ok_def sock_connect_def go_def)
  have "fair (Thread fd conn ex) \<Longrightarrow> st_pc th' = Sl_Beat" by (simp add: fair_def th'_def go_def)
  then have r: "fair (Thread fd conn ex) \<Longrightarrow> rank th' b < rank th b" using pc by (simp add: rank_def)
  show ?thesis unfolding stepped_def using d pair_thread [OF ok t] r by blast
qed

lemma beat_step:
  assumes ok: "pair_ok entries n sys s b th p" and wh: "whole_reply ex" and pc: "st_pc th = Sl_Beat"
  shows "\<exists>sys'. tsdb_do E parse cfg (Thread fd conn ex) sys = Some sys' \<and> stepped entries n (Thread fd conn ex) sys' s b th"
proof -
  have h: "ts_thread (sy_master sys) = Some th" "ts_ldb (sy_master sys) = Some s" "recv_ok (st_recv th)"
      "thread_ok (tsdb_data entries s) (tsdb_data entries p) b th" "sy_wire sys = []" "sy_unread sys = []"
    using ok by (simp_all add: pair_ok_def thread_ok_def)
  have req: "ping_req \<noteq> []" "length OPT_PONG \<le> 511" "0 \<notin> set OPT_PONG" "ascii ''PONG'' \<noteq> []" by (simp_all add: ping_req_def OPT_PONG_def ascii_def crlf_def)
  obtain sends recvs th' buf where x: "exchange_answers E parse ex ping_req [] [] (sy_peer sys) = Some (sends, recvs, sy_peer sys, [], [])"
      "slave_exchange \<lparr>na_fd = fd, na_conn = conn, na_sends = sends, na_recvs = recvs\<rparr> ping_req (ascii ''PONG'') Sl_Beat Sl_Sync th = Some th'"
      "recv_ok buf" "th' = go Sl_Sync (th\<lparr>st_recv := buf\<rparr>) \<or> th' = hang_up (th\<lparr>st_recv := buf\<rparr>)"
      "(\<exists>cs n served m. ex = Ex_reply cs n served m) \<longrightarrow> th' = go Sl_Sync (th\<lparr>st_recv := buf\<rparr>)"
    using exchanged [OF ping_served [of "sy_peer sys"] req(1) h(3) req(2) reply_texts(1) req(3,4) wh, of fd conn Sl_Beat Sl_Sync] by blast
  have d: "tsdb_do E parse cfg (Thread fd conn ex) sys =
      Some (sys\<lparr>sy_master := (sy_master sys)\<lparr>ts_ldb := Some s, ts_thread := Some th'\<rparr>, sy_peer := sy_peer sys, sy_wire := [], sy_unread := []\<rparr>)"
    using h(1,2,5,6) pc x(1,2) by (simp add: tsdb_do_def thread_step_def slave_step_def thread_request_def)
  have t: "thread_ok (tsdb_data entries s) (tsdb_data entries p) b th'"
    using x(4) thread_ok_go [OF thread_ok_go(3) [OF h(4) x(3)]] by auto
  have r: "fair (Thread fd conn ex) \<Longrightarrow> rank th' b < rank th b" using pc x(5) by (cases ex) (auto simp: fair_def rank_def go_def)
  show ?thesis unfolding stepped_def using d pair_thread [OF ok t] r by blast
qed

lemma send_step:
  assumes ok: "pair_ok entries n sys s b th p" and wh: "whole_reply ex" and pc: "st_pc th = Sl_Send"
  shows "\<exists>sys'. tsdb_do E parse cfg (Thread fd conn ex) sys = Some sys' \<and> stepped entries n (Thread fd conn ex) sys' s b th"
proof -
  let ?M = "tsdb_data entries s" and ?P = "tsdb_data entries p"
  have h: "ts_thread (sy_master sys) = Some th" "ts_ldb (sy_master sys) = Some s" "ts_ldb (sy_peer sys) = Some p" "has_ldb (ts_engine (sy_peer sys))"
      "recv_ok (st_recv th)" "thread_ok ?M ?P b th" "synced ?M ?P b" "length (st_send th) = SEND_BUF_SIZE" "st_len th \<le> SEND_BUF_SIZE" "cur_seq b \<le> last_seq b"
      "sy_wire sys = []" "sy_unread sys = []"
    using ok pc by (simp_all add: pair_ok_def thread_ok_def)
  obtain c k x where e: "?M (seq_key (cur_seq b)) = Some (c # k)" "x \<noteq> Some []" "take (st_len th) (st_send th) = sync_req k x"
      "newest ?M b k (cur_seq b) \<longrightarrow> ?M k = x"
    using h(6) pc by (auto simp: thread_ok_def)
  have pk: "?P k \<noteq> Some []" using h(7) by (simp add: synced_def)
  obtain p' where p': "serve E parse (sy_peer sys) (sync_req k x) = Some (OPT_OK, (sy_peer sys)\<lparr>ts_ldb := Some p'\<rparr>)" "tsdb_data entries p' = ?P(k := x)"
    using syncset_served [OF h(3,4), of k] syncdel_served [OF h(3,4), of k] pk by (cases x) (auto simp: sync_req_def)
  have req: "sync_req k x \<noteq> []" "length OPT_OK \<le> 511" "0 \<notin> set OPT_OK" "ascii ''OK'' \<noteq> []"
    by (auto simp: sync_req_def sync_set_req_def sync_del_req_def resp_array_def OPT_OK_def ascii_def crlf_def split: option.split)
  obtain sends recvs peer1 th' buf where xch: "exchange_answers E parse ex (sync_req k x) [] [] (sy_peer sys) = Some (sends, recvs, peer1, [], [])"
      "slave_exchange \<lparr>na_fd = fd, na_conn = conn, na_sends = sends, na_recvs = recvs\<rparr> (sync_req k x) (ascii ''OK'') Sl_Send Sl_Delete th = Some th'"
      "recv_ok buf" "th' = go Sl_Delete (th\<lparr>st_recv := buf\<rparr>) \<and> peer1 = (sy_peer sys)\<lparr>ts_ldb := Some p'\<rparr>
        \<or> th' = hang_up (th\<lparr>st_recv := buf\<rparr>) \<and> peer1 \<in> {sy_peer sys, (sy_peer sys)\<lparr>ts_ldb := Some p'\<rparr>}"
      "(\<exists>cs n served m. ex = Ex_reply cs n served m) \<longrightarrow> th' = go Sl_Delete (th\<lparr>st_recv := buf\<rparr>)"
    using exchanged [OF p'(1) req(1) h(5) req(2) reply_texts(2) req(3,4) wh, of fd conn Sl_Send Sl_Delete] by blast
  have "mreads (st_send th) 0 (int (st_len th)) = Some (sync_req k x)" using h(8,9) e(3) by (simp add: mreads_def)
  then have d: "tsdb_do E parse cfg (Thread fd conn ex) sys =
      Some (sys\<lparr>sy_master := (sy_master sys)\<lparr>ts_ldb := Some s, ts_thread := Some th'\<rparr>, sy_peer := peer1, sy_wire := [], sy_unread := []\<rparr>)"
    using h(1,2,11,12) pc xch(1,2) e(3) by (simp add: tsdb_do_def thread_step_def slave_step_def thread_request_def)
  obtain p1 where p1: "ts_ldb peer1 = Some p1" "ts_engine peer1 = ts_engine (sy_peer sys)"
      "th' = go Sl_Delete (th\<lparr>st_recv := buf\<rparr>) \<and> p1 = p' \<or> th' = hang_up (th\<lparr>st_recv := buf\<rparr>) \<and> p1 \<in> {p, p'}"
    using xch(4) h(3) by auto
  have s1: "synced ?M (tsdb_data entries p1) b" 
    using applied_synced [OF h(7), of k "cur_seq b" x] e(1,2) h(7,10) p1(3) p'(2) by (auto simp: pending_def)
  have "thread_ok ?M (?P(k := x)) b (go Sl_Delete (th\<lparr>st_recv := buf\<rparr>))"
    using h(6,10) e(1,4) xch(3) by (auto simp: thread_ok_def go_def)
  moreover have "thread_ok ?M Q b (hang_up (th\<lparr>st_recv := buf\<rparr>))" for Q
    using h(6) xch(3) by (auto simp: thread_ok_def hang_up_def)
  ultimately have t: "thread_ok ?M (tsdb_data entries p1) b th'" using p1(3) p'(2) by auto
  have "0 < log_left b" using h(10) by (simp add: log_left_def word_le_nat_alt)
  then have r: "fair (Thread fd conn ex) \<Longrightarrow> rank th' b < rank th b" using pc xch(5) by (cases ex) (auto simp: fair_def rank_def go_def)
  have "pair_ok entries n (sys\<lparr>sy_master := (sy_master sys)\<lparr>ts_ldb := Some s, ts_thread := Some th'\<rparr>, sy_peer := peer1, sy_wire := [], sy_unread := []\<rparr>) s b th' p1"
    using ok s1 t p1(1,2) by (simp add: pair_ok_def)
  then show ?thesis unfolding stepped_def using d r by blast
qed

text \<open>What \<^verbatim>\<open>get_binlog\<close> leaves in the send buffer for the entry at the current sequence number.\<close>

lemma entry_read:
  assumes ok: "pair_ok entries n sys s b th p" and cur: "cur_seq b \<le> last_seq b"
  shows "\<exists>ret msg len s'. get_binlog (te_ldb E) s (cur_seq b) (st_send th) SEND_BUF_SIZE = Some (ret, msg, len, s') \<and> log_same entries s s'
    \<and> (ret = 0 \<and> msg = st_send th \<and> thread_ok (tsdb_data entries s) (tsdb_data entries p) b (go Sl_Delete (th\<lparr>st_send := msg, st_len := len\<rparr>))
     \<or> ret = 1 \<and> thread_ok (tsdb_data entries s) (tsdb_data entries p) b (go Sl_Send (th\<lparr>st_send := msg, st_len := len\<rparr>)))"
proof -
  let ?M = "tsdb_data entries s" and ?P = "tsdb_data entries p"
  have h: "log_ok s" "log_wf ?M b" "synced ?M ?P b" "thread_ok ?M ?P b th" "length (st_send th) = SEND_BUF_SIZE"
    using ok by (simp_all add: pair_ok_def thread_ok_def log_state_def)
  have wf1: "\<exists>c k. ?M (seq_key (cur_seq b)) = Some (c # k) \<and> (c = CMD_SET \<or> c = CMD_DEL) \<and> data_key k" using h(2) cur unfolding log_wf_def by blast
  then obtain c k where e: "?M (seq_key (cur_seq b)) = Some (c # k)" "c = CMD_SET \<or> c = CMD_DEL" "data_key k" by blast
  have kl: "length k \<le> 511" using e(3) by (simp add: data_key_def)
  have new: "(c = CMD_SET) = (?M k \<noteq> None)" if "newest ?M b k (cur_seq b)" using h(3) that e(1,3) unfolding synced_def by blast
  have wf3: "val_ok k v" if "?M k = Some v" for v using h(2) that e(3) data_key_not_seq(1) [OF e(3)] unfolding log_wf_def by blast
  have fin: ?thesis if "get_binlog (te_ldb E) s (cur_seq b) (st_send th) SEND_BUF_SIZE = Some (1, msg, length (sync_req k x), s')" "log_same entries s s'"
      "length msg = SEND_BUF_SIZE" "take (length (sync_req k x)) msg = sync_req k x" "x \<noteq> Some []" "newest ?M b k (cur_seq b) \<longrightarrow> ?M k = x" for msg s' x
  proof -
    have "length (sync_req k x) \<le> SEND_BUF_SIZE" using that(3,4) by (metis length_take min.cobounded1)
    then have "thread_ok ?M ?P b (go Sl_Send (th\<lparr>st_send := msg, st_len := length (sync_req k x)\<rparr>))"
      using h(4) cur e(1) that(3-6) unfolding thread_ok_def go_def by auto
    then show ?thesis using that(1,2) by blast
  qed
  show ?thesis
  proof (cases "c = CMD_SET")
    case True
    show ?thesis
    proof (cases "?M k")
      case None
      then obtain s' where "get_binlog (te_ldb E) s (cur_seq b) (st_send th) SEND_BUF_SIZE = Some (0, st_send th, 0, s')" "log_same entries s s'"
        using get_binlog_gone [OF h(1), of "cur_seq b" k] e(1) kl True by auto
      moreover have "thread_ok ?M ?P b (go Sl_Delete (th\<lparr>st_send := st_send th, st_len := 0\<rparr>))"
        using h(4) cur e(1) new None True by (auto simp: thread_ok_def go_def)
      ultimately show ?thesis by blast
    next
      case (Some v)
      have v: "v \<noteq> []" "length (sync_set_req k v) < SEND_BUF_SIZE" using wf3 [OF Some] by (simp_all add: val_ok_def)
      then have "length v \<le> 2147483647" by (simp add: sync_req_lengths SEND_BUF_SIZE_def)
      then obtain msg s' where "get_binlog (te_ldb E) s (cur_seq b) (st_send th) SEND_BUF_SIZE = Some (1, msg, length (sync_set_req k v), s')" "log_same entries s s'"
          "length msg = SEND_BUF_SIZE" "take (length (sync_set_req k v)) msg = sync_set_req k v"
        using get_binlog_sets [OF h(1), of "cur_seq b" k v SEND_BUF_SIZE "st_send th"] e(1) kl True Some v h(5) by auto
      then show ?thesis using fin [of msg "Some v" s'] Some v by (simp add: sync_req_def)
    qed
  next
    case False
    have "length (dec_nat (length k)) \<le> 3" using dec_nat_length [of 3 "length k"] kl by simp
    then have "length (sync_del_req k) < SEND_BUF_SIZE" using kl by (simp add: sync_req_lengths SEND_BUF_SIZE_def)
    then obtain msg s' where "get_binlog (te_ldb E) s (cur_seq b) (st_send th) SEND_BUF_SIZE = Some (1, msg, length (sync_del_req k), s')" "log_same entries s s'"
        "length msg = SEND_BUF_SIZE" "take (length (sync_del_req k)) msg = sync_del_req k"
      using get_binlog_dels [OF h(1), of "cur_seq b" k SEND_BUF_SIZE "st_send th"] e(1,2) kl False h(5) by auto
    then show ?thesis using fin [of msg None s'] new False by (simp add: sync_req_def)
  qed
qed

lemma sync_step:
  assumes ok: "pair_ok entries n sys s b th p" and pc: "st_pc th = Sl_Sync"
  shows "\<exists>sys'. tsdb_do E parse cfg (Thread fd conn ex) sys = Some sys' \<and> stepped entries n (Thread fd conn ex) sys' s b th"
proof (cases "cur_seq b \<le> last_seq b")
  case True
  let ?M = "tsdb_data entries s" and ?P = "tsdb_data entries p"
  have h: "ts_thread (sy_master sys) = Some th" "ts_ldb (sy_master sys) = Some s" "tl_binlog s = Some b" "thread_ok ?M ?P b th"
    using ok by (simp_all add: pair_ok_def log_state_def)
  obtain ret msg len s' where g: "get_binlog (te_ldb E) s (cur_seq b) (st_send th) SEND_BUF_SIZE = Some (ret, msg, len, s')" "log_same entries s s'"
      "ret = 0 \<and> msg = st_send th \<and> thread_ok ?M ?P b (go Sl_Delete (th\<lparr>st_send := msg, st_len := len\<rparr>))
       \<or> ret = 1 \<and> thread_ok ?M ?P b (go Sl_Send (th\<lparr>st_send := msg, st_len := len\<rparr>))"
    using entry_read [OF ok True] by blast
  define th' where "th' = go (if ret = 0 then Sl_Delete else Sl_Send) (th\<lparr>st_send := msg, st_len := len\<rparr>)"
  have t: "thread_ok ?M ?P b th'" using g(3) by (auto simp: th'_def)
  have w: "sy_wire sys = []" "sy_unread sys = []" using ok by (simp_all add: pair_ok_def)
  have d: "tsdb_do E parse cfg (Thread fd conn ex) sys =
      Some (sys\<lparr>sy_master := (sy_master sys)\<lparr>ts_ldb := Some s', ts_thread := Some th'\<rparr>, sy_peer := sy_peer sys, sy_wire := [], sy_unread := []\<rparr>)"
    using h(1-3) w pc True g(1,3) by (auto simp: tsdb_do_def thread_step_def slave_step_def th'_def Let_def)
  have same: "tsdb_data entries s' = ?M" using g(2) by (simp add: log_same_def)
  have p: "pair_ok entries n (sys\<lparr>sy_master := (sy_master sys)\<lparr>ts_ldb := Some s', ts_thread := Some th'\<rparr>, sy_peer := sy_peer sys, sy_wire := [], sy_unread := []\<rparr>) s' b th' p"
    using ok t g(2) unfolding pair_ok_def same by (simp add: log_state_def log_same_def)
  have "0 < log_left b" using True by (simp add: log_left_def word_le_nat_alt)
  then have r: "rank th' b < rank th b" using pc by (simp add: rank_def th'_def go_def)
  show ?thesis unfolding stepped_def using d p r same by (intro exI conjI) (assumption | simp)+
next
  case False
  have h: "ts_thread (sy_master sys) = Some th" "ts_ldb (sy_master sys) = Some s" "tl_binlog s = Some b" "thread_ok (tsdb_data entries s) (tsdb_data entries p) b th"
    using ok by (simp_all add: pair_ok_def log_state_def)
  have w: "sy_wire sys = []" "sy_unread sys = []" using ok by (simp_all add: pair_ok_def)
  have d: "tsdb_do E parse cfg (Thread fd conn ex) sys =
      Some (sys\<lparr>sy_master := (sy_master sys)\<lparr>ts_ldb := Some s, ts_thread := Some (go Sl_Loop th)\<rparr>, sy_peer := sy_peer sys, sy_wire := [], sy_unread := []\<rparr>)"
    using h(1-3) w pc False by (simp add: tsdb_do_def thread_step_def slave_step_def)
  have t: "thread_ok (tsdb_data entries s) (tsdb_data entries p) b (go Sl_Loop th)" using thread_ok_go(1) [OF h(4)] by simp
  have "log_left b = 0" using False by (simp add: log_left_def word_le_nat_alt)
  then show ?thesis unfolding stepped_def using d pair_thread [OF ok t] by (metis order_refl less_numeral_extra(3))
qed

lemma delete_step:
  assumes ok: "pair_ok entries n sys s b th p" and pc: "st_pc th = Sl_Delete"
  shows "\<exists>sys'. tsdb_do E parse cfg (Thread fd conn ex) sys = Some sys' \<and> stepped entries n (Thread fd conn ex) sys' s b th"
proof -
  let ?M = "tsdb_data entries s" and ?P = "tsdb_data entries p"
  have h: "ts_thread (sy_master sys) = Some th" "ts_ldb (sy_master sys) = Some s" "tl_binlog s = Some b" "thread_ok ?M ?P b th" "log_ok s"
      "log_wf ?M b" "synced ?M ?P b" "unat (last_seq b) + 1 < 2 ^ 64" "cur_seq b \<le> last_seq b"
    using ok pc by (simp_all add: pair_ok_def log_state_def thread_ok_def)
  obtain c k where e: "?M (seq_key (cur_seq b)) = Some (c # k)" "newest ?M b k (cur_seq b) \<longrightarrow> ?P k = ?M k"
    using h(4) pc by (auto simp: thread_ok_def)
  obtain s1 where s1: "del_binlog (te_ldb E) s (cur_seq b) = Some (0, s1)" "tsdb_data entries s1 = ?M(seq_key (cur_seq b) := None)"
      "tl_binlog s1 = Some b" "ls_wbatch (tl_ldbs s1) = ls_wbatch (tl_ldbs s)" "log_ok s1"
    using del_binlog_is [OF h(5), of "cur_seq b"] h(3) by auto
  define b' s' th' where "b' = b\<lparr>cur_seq := cur_seq b + 1\<rparr>" and "s' = set_cur (cur_seq b + 1) s1" and "th' = go Sl_Sync th"
  have s': "tsdb_data entries s' = ?M(seq_key (cur_seq b) := None)" "tl_binlog s' = Some b'" "ls_wbatch (tl_ldbs s') = ls_wbatch (tl_ldbs s)" "log_ok s'"
    using s1 by (simp_all add: s'_def b'_def set_cur_def tsdb_data_def tl_db_def log_ok_def)
  have w: "sy_wire sys = []" "sy_unread sys = []" using ok by (simp_all add: pair_ok_def)
  have d: "tsdb_do E parse cfg (Thread fd conn ex) sys =
      Some (sys\<lparr>sy_master := (sy_master sys)\<lparr>ts_ldb := Some s', ts_thread := Some th'\<rparr>, sy_peer := sy_peer sys, sy_wire := [], sy_unread := []\<rparr>)"
    using h(1-3) w pc s1(1) by (simp add: tsdb_do_def thread_step_def slave_step_def s'_def th'_def)
  have f: "log_wf (tsdb_data entries s') b'" "synced (tsdb_data entries s') ?P b'"
    using finished_synced [OF h(6,7,9,8) e b'_def s'(1)] by simp_all
  have t: "thread_ok (tsdb_data entries s') ?P b' th'" using h(4) by (auto simp: thread_ok_def th'_def go_def)
  have p: "pair_ok entries n (sys\<lparr>sy_master := (sy_master sys)\<lparr>ts_ldb := Some s', ts_thread := Some th'\<rparr>, sy_peer := sy_peer sys, sy_wire := [], sy_unread := []\<rparr>) s' b' th' p"
    using ok f t s'(2-4) by (simp add: pair_ok_def log_state_def b'_def)
  have "unat (cur_seq b + 1) = unat (cur_seq b) + 1" using h(8,9) by (intro seq_suc) (simp add: word_le_nat_alt)
  then have l: "log_left b = log_left b' + 1" using h(9) by (simp add: log_left_def b'_def word_le_nat_alt)
  then have r: "rank th' b' < rank th b" using pc by (simp add: rank_def th'_def go_def)
  have k: "\<forall>k. data_key k \<longrightarrow> tsdb_data entries s' k = ?M k" by (simp add: s'(1))
  show ?thesis unfolding stepped_def using d p r k l by (intro exI conjI) (assumption | simp)+
qed

lemma thread_stepped:
  assumes ok: "pair_ok entries n sys s b th p" and wh: "whole_reply ex"
  shows "\<exists>sys'. tsdb_do E parse cfg (Thread fd conn ex) sys = Some sys' \<and> stepped entries n (Thread fd conn ex) sys' s b th"
proof (cases "st_pc th")
  case Sl_End
  then show ?thesis using ok by (simp add: pair_ok_def thread_ok_def)
qed (fact loop_step [OF ok] beat_step [OF ok wh] sync_step [OF ok] send_step [OF ok wh] delete_step [OF ok])+

lemma initialize_is:
  "\<exists>l w'. ldb_initialize (te_ldb E) snappy w path bs wb lru bloom = (Some l, w') \<and> ls_db l = w' \<and> entries w' = entries w \<and> ls_wbatch l = []"
proof -
  define opts where "opts = \<lparr>lo_cache_lru = lru, lo_bloom = bloom, lo_block_size = bs, lo_write_buffer_size = wb, lo_snappy = snappy, lo_create_if_missing = True\<rparr>"
  obtain w' where "lb_open (te_ldb E) opts w (snprintf PATH_MAX path) = (False, w')" "entries w' = entries w" using open_law by blast
  then show ?thesis by (simp add: ldb_initialize_def opts_def Let_def)
qed

text \<open>A start of the master on a database with a log in order.\<close>

lemma start_is:
  assumes cfg: "cfg_ok cfg" "te_thread E" and wf: "log_wf (map_of (entries w)) b" "synced (map_of (entries w)) P b"
    and room: "unat (last_seq b) + n + 1 < 2 ^ 64"
    and peer: "has_ldb (ts_engine peer)" "ts_ldb peer = Some p" "tsdb_data entries p = P"
  shows "\<exists>m s' b' th'. tsdb_cmd_init E cfg (tsdb_down w v) = Some (0, m) \<and> pair_ok entries n (pair_up m peer) s' b' th' p
    \<and> tsdb_data entries s' = map_of (entries w) \<and> log_left b' \<le> log_left b"
proof -
  define t where "t = (tsdb_down w v)\<lparr>ts_engine := TSDB_ENGINE_LDB, ts_page := te_pagesize E, ts_readonly := False\<rparr>"
  let ?path = "snprintf 1024 (cf_work_path cfg @ ascii ''/'' @ LDB_DB_NAME)"
  obtain l w' where l: "ldb_initialize (te_ldb E) (te_snappy E) w ?path (cf_block_size cfg) (cf_write_buffer_size cfg) (cf_cache_lru_size cfg) (cf_bloom_key_size cfg) = (Some l, w')"
      "ls_db l = w'" "entries w' = entries w" "ls_wbatch l = []"
    using initialize_is by blast
  define s0 where "s0 = \<lparr>tl_ldbs = l, tl_binlog = None, tl_buf = None\<rparr>"
  have D0: "tsdb_data entries s0 = map_of (entries w)" using l(2,3) by (simp add: s0_def tsdb_data_def tl_db_def)
  define mn la where "mn = (if cur_seq b \<le> last_seq b then cur_seq b else 1)" and "la = (if cur_seq b \<le> last_seq b then last_seq b else 0)"
  obtain s1 where s1: "binlog_open (te_ldb E) s0 True = Some (0, s1)" "tsdb_data entries s1 = map_of (entries w)" "log_ok s1" "ls_wbatch (tl_ldbs s1) = []"
      "tl_binlog s1 = Some \<lparr>min_seq = mn, cur_seq = 0, last_seq = la\<rparr>"
    using binlog_open_is [of s0 b] wf(1) room l(4) unfolding D0 mn_def la_def by (auto simp: s0_def)
  define th where "th = \<lparr>st_pc = Sl_Loop, st_len = 0, st_send = replicate SEND_BUF_SIZE 0, st_recv = replicate RECV_BUF_SIZE 0,
    st_slave = \<lparr>is_quit = False, sl_ip = cf_slave_ip cfg, sl_port = cf_slave_wport cfg, sl_sock = -1\<rparr>\<rparr>"
  define b' s' where "b' = \<lparr>min_seq = mn, cur_seq = mn, last_seq = la\<rparr>" and "s' = set_cur mn s1"
  define m where "m = t\<lparr>ts_ldb := Some s', ts_thread := Some th\<rparr>"
  have "LDB_DB_NAME \<noteq> []" by (simp add: LDB_DB_NAME_def ascii_def)
  then have "tsdb_cmd_init E cfg (tsdb_down w v) = Some (0, m)"
    using cfg l(1) s1(1,5) by (simp add: tsdb_cmd_init_def tsdb_ldb_init_def cfg_ok_def has_ldb_def has_kv_def tsdb_down_def slave_open_def slave_start_def
      Let_def go_def m_def t_def th_def s'_def s0_def)
  moreover have "log_wf (map_of (entries w)) b' \<and> synced (map_of (entries w)) P b'"
    using wf by (rule reopened) (simp_all add: b'_def mn_def la_def)
  moreover have s': "tsdb_data entries s' = map_of (entries w)" "log_state entries s' (map_of (entries w)) b'"
    using s1 by (simp_all add: s'_def set_cur_def tsdb_data_def tl_db_def log_ok_def log_state_def b'_def)
  moreover have "thread_ok M P b' th" for M
    by (simp add: thread_ok_def th_def recv_ok_def RECV_BUF_SIZE_def)
  moreover have "unat (last_seq b') + n + 1 < 2 ^ 64" using room by (simp add: b'_def la_def)
  ultimately have "tsdb_cmd_init E cfg (tsdb_down w v) = Some (0, m) \<and> pair_ok entries n (pair_up m peer) s' b' th p"
    using peer by (simp add: pair_ok_def pair_up_def m_def t_def)
  moreover have "log_left b' \<le> log_left b" by (simp add: b'_def mn_def la_def log_left_def)
  ultimately show ?thesis using s'(1) by blast
qed

lemma restart_step:
  assumes ok: "pair_ok entries n sys s b th p" and cfg: "cfg_ok cfg" "te_thread E"
  shows "\<exists>sys' s' b' th'. tsdb_do E parse cfg Restart sys = Some sys' \<and> pair_ok entries n sys' s' b' th' p
    \<and> tsdb_data entries s' = tsdb_data entries s \<and> log_left b' \<le> log_left b"
proof -
  have h: "log_wf (map_of (entries (tl_db s))) b" "synced (map_of (entries (tl_db s))) (tsdb_data entries p) b" "unat (last_seq b) + n + 1 < 2 ^ 64"
      "has_ldb (ts_engine (sy_peer sys))" "ts_ldb (sy_peer sys) = Some p" "ts_ldb (sy_master sys) = Some s"
    using ok by (simp_all add: pair_ok_def tsdb_data_def)
  obtain m s' b' th' where "tsdb_cmd_init E cfg (tsdb_down (tl_db s) (tk_store (ts_kv (sy_master sys)))) = Some (0, m)"
      "pair_ok entries n (pair_up m (sy_peer sys)) s' b' th' p" "tsdb_data entries s' = tsdb_data entries s" "log_left b' \<le> log_left b"
    using start_is [OF cfg h(1-5) refl, of "tk_store (ts_kv (sy_master sys))"] unfolding tsdb_data_def by blast
  then show ?thesis using h(6) by (simp add: tsdb_do_def pair_ok_def pair_up_def) blast
qed

section \<open>Runs\<close>

lemma act_step:
  assumes ok: "pair_ok entries (length (act_writes a) + n) sys s b th p" and a: "act_ok a" and cfg: "cfg_ok cfg" "te_thread E"
  shows "\<exists>sys' s' b' th' p'. tsdb_do E parse cfg a sys = Some sys' \<and> pair_ok entries n sys' s' b' th' p'
    \<and> log_left b' \<le> log_left b + length (act_writes a)
    \<and> (\<forall>k. data_key k \<longrightarrow> tsdb_data entries s' k = written (act_writes a) (tsdb_data entries s) k)"
proof (cases a)
  case (Client r)
  then have "pair_ok entries (length (client_writes r) + n) sys s b th p" "client_ok r" using ok a by (simp_all add: act_writes_def act_ok_def)
  from client_step [OF this] show ?thesis unfolding Client act_writes_def tsdb_act.case by blast
next
  case (Thread fd conn ex)
  then have "pair_ok entries n sys s b th p" "whole_reply ex" using ok a by (simp_all add: act_writes_def act_ok_def)
  from thread_stepped [OF this] show ?thesis unfolding Thread act_writes_def tsdb_act.case stepped_def written_simps by fastforce
next
  case Restart
  then have "pair_ok entries n sys s b th p" using ok by (simp add: act_writes_def)
  from restart_step [OF this cfg] show ?thesis unfolding Restart act_writes_def tsdb_act.case written_simps by fastforce
qed

lemma run_keeps:
  assumes "pair_ok entries (length (concat (map act_writes as)) + n) sys s b th p" "\<forall>a \<in> set as. act_ok a" and cfg: "cfg_ok cfg" "te_thread E"
  shows "\<exists>sys' s' b' th' p'. tsdb_run E parse cfg as sys = Some sys' \<and> pair_ok entries n sys' s' b' th' p'
    \<and> log_left b' \<le> log_left b + length (concat (map act_writes as))
    \<and> (\<forall>k. data_key k \<longrightarrow> tsdb_data entries s' k = written (concat (map act_writes as)) (tsdb_data entries s) k)"
  using assms(1,2)
proof (induction as arbitrary: sys s b th p)
  case Nil
  then show ?case by auto
next
  case (Cons a as)
  let ?n = "length (concat (map act_writes as)) + n"
  have "pair_ok entries (length (act_writes a) + ?n) sys s b th p" "act_ok a" using Cons.prems by (simp_all add: add.assoc)
  from act_step [OF this cfg] obtain sys1 s1 b1 th1 p1 where 1: "tsdb_do E parse cfg a sys = Some sys1" "pair_ok entries ?n sys1 s1 b1 th1 p1"
      "log_left b1 \<le> log_left b + length (act_writes a)"
      "\<forall>k. data_key k \<longrightarrow> tsdb_data entries s1 k = written (act_writes a) (tsdb_data entries s) k"
    by blast
  obtain sys' s' b' th' p' where 2: "tsdb_run E parse cfg as sys1 = Some sys'" "pair_ok entries n sys' s' b' th' p'"
      "log_left b' \<le> log_left b1 + length (concat (map act_writes as))"
      "\<forall>k. data_key k \<longrightarrow> tsdb_data entries s' k = written (concat (map act_writes as)) (tsdb_data entries s1) k"
    using Cons.IH [OF 1(2)] Cons.prems(2) by auto
  have k: "tsdb_data entries s' k = written (concat (map act_writes (a # as))) (tsdb_data entries s) k" if "data_key k" for k
    using 2(4) written_cong [of "tsdb_data entries s1" k "written (act_writes a) (tsdb_data entries s)"] 1(4) that by simp
  have "tsdb_run E parse cfg (a # as) sys = Some sys'" using 1(1) 2(1) by simp
  moreover have "log_left b' \<le> log_left b + length (concat (map act_writes (a # as)))" using 1(3) 2(3) by simp
  ultimately show ?case using 2(2) k by blast
qed

lemma fair_thread: "fair a \<Longrightarrow> \<exists>fd conn ex. a = Thread fd conn ex"
  by (cases a) (auto simp: fair_def)

lemma fair_whole: "fair (Thread fd conn ex) \<Longrightarrow> whole_reply ex"
  by (cases ex) (simp_all add: fair_def whole_reply_def)

lemma rank_pos: "0 < log_left b \<Longrightarrow> 0 < rank th b"
  by (auto simp: rank_def split: slave_pc.split)

lemma run_drains:
  assumes "pair_ok entries n sys s b th p" "\<forall>a \<in> set as. fair a" "log_left b = 0 \<or> rank th b \<le> length as"
  shows "\<exists>sys' s' b' th' p'. tsdb_run E parse cfg as sys = Some sys' \<and> pair_ok entries n sys' s' b' th' p' \<and> log_left b' = 0
    \<and> (\<forall>k. data_key k \<longrightarrow> tsdb_data entries s' k = tsdb_data entries s k)"
  using assms
proof (induction as arbitrary: sys s b th p)
  case Nil
  then have "log_left b = 0" using rank_pos [of b th] by (cases "log_left b = 0") auto
  then show ?case using Nil.prems(1) by auto
next
  case (Cons a as)
  obtain fd conn ex where a: "a = Thread fd conn ex" using fair_thread [of a] Cons.prems(2) by auto
  have wh: "whole_reply ex" using fair_whole [of fd conn ex] Cons.prems(2) by (simp add: a)
  obtain sys1 s1 b1 th1 p1 where 1: "tsdb_do E parse cfg a sys = Some sys1" "pair_ok entries n sys1 s1 b1 th1 p1"
      "\<forall>k. data_key k \<longrightarrow> tsdb_data entries s1 k = tsdb_data entries s k" "log_left b1 \<le> log_left b" "0 < log_left b \<longrightarrow> rank th1 b1 < rank th b"
    using thread_stepped [OF Cons.prems(1) wh, of cfg fd conn] Cons.prems(2) unfolding a stepped_def by auto
  have "log_left b1 = 0 \<or> rank th1 b1 \<le> length as" using 1(4,5) Cons.prems(3) by auto
  then show ?case using Cons.IH [OF 1(2)] Cons.prems(2) 1(1,3) by auto
qed

text \<open>From the first start on empty databases.\<close>

lemma fresh_start:
  assumes cfg: "cfg_ok cfg" "te_thread E" and w: "entries w = []" and room: "n + 1 < 2 ^ 64"
    and peer: "has_ldb (ts_engine peer)" "ts_ldb peer = Some p" "entries (tl_db p) = []"
  shows "\<exists>m s b th. tsdb_cmd_init E cfg (tsdb_down w v) = Some (0, m) \<and> pair_ok entries n (pair_up m peer) s b th p
    \<and> tsdb_data entries s = Map.empty \<and> log_left b = 0"
proof -
  define b where "b = \<lparr>min_seq = 1, cur_seq = 1, last_seq = 0\<rparr>"
  have r: "\<not> (1 \<le> q \<and> q \<le> 0)" for q :: u64 by (auto simp: word_le_nat_alt)
  have b: "log_wf (map_of (entries w)) b" "synced (map_of (entries w)) Map.empty b" "unat (last_seq b) + n + 1 < 2 ^ 64" "log_left b = 0"
    using w room r by (auto simp: log_wf_def synced_def b_def pending_def newest_def log_left_def)
  have "tsdb_data entries p = Map.empty" using peer(3) by (simp add: tsdb_data_def)
  from start_is [OF cfg b(1-3) peer(1,2) this] show ?thesis using w b(4) by fastforce
qed

text \<open>A key without an entry in the log, and all of them when the log is empty.\<close>

lemma pair_ok_equal:
  assumes ok: "pair_ok entries n sys s b th p" and k: "data_key k" "\<forall>q c. tsdb_data entries s (seq_key q) \<noteq> Some (c # k)"
  shows "tsdb_data entries p k = tsdb_data entries s k"
  using assms unfolding pair_ok_def synced_def pending_def by blast

lemma pair_ok_drained:
  assumes ok: "pair_ok entries n sys s b th p" and k: "data_key k" "log_left b = 0"
  shows "tsdb_data entries p k = tsdb_data entries s k"
proof -
  have "\<not> cur_seq b \<le> last_seq b" using k(2) by (simp add: log_left_def word_le_nat_alt)
  then show ?thesis using caught_up_equal [of _ "tsdb_data entries p" b k] ok k(1) by (auto simp: pair_ok_def)
qed

lemma pair_ok_ldb_of:
  "pair_ok entries n sys s b th p \<Longrightarrow> ldb_of entries (sy_master sys) = tsdb_data entries s \<and> ldb_of entries (sy_peer sys) = tsdb_data entries p"
  by (simp add: pair_ok_def ldb_of_def)

end

section \<open>An instance\<close>

text \<open>A store in memory, a list as buffer, a libkv without values.\<close>

definition no_kv :: "unit kv_lib" where
  "no_kv = \<lparr>kvl_load = (\<lambda>v ident. (0, v)), kvl_call = (\<lambda>v h cmd args. (\<lparr>an_errnum = 0, an_values = []\<rparr>, v)), kvl_destroy = id\<rparr>"

definition list_env :: "(batch_op list, (bytes \<times> bytes) list \<times> (bytes \<times> bytes) list, bytes, unit) tsdb_env" where
  "list_env = \<lparr>te_ldb = mem_store, te_cache = list_cache, te_kv = no_kv, te_snappy = False, te_pagesize = 4096, te_thread = True, te_info = (None, 0)\<rparr>"

interpretation list_pair: tsdb_pair list_env replay snd read_request
  unfolding tsdb_pair_def list_env_def
  by (simp add: mem_db.ordered_store_axioms list_cache.send_cache_axioms resp_parser.redis_parser_axioms)

end
