(* ===== verification/Tsdb_Correct.thy ===== *)
theory Tsdb_Correct
  imports Tsdb_Sync
begin

text \<open>
  The theorems of TSDB: what master and slave hold after any history, that the slave catches up, what reads answer, and
  the situations in which the code does not do what it means to.
\<close>

section \<open>Starting\<close>

text \<open>Empty databases of the master and of a running slave.\<close>

definition fresh :: "('w \<Rightarrow> (bytes \<times> bytes) list) \<Rightarrow> 'w \<Rightarrow> ('w, 'v) tsdb \<Rightarrow> bool" where
  "fresh entries w peer \<longleftrightarrow> entries w = [] \<and> has_ldb (ts_engine peer) \<and> (\<exists>p. ts_ldb peer = Some p \<and> entries (tl_db p) = [])"

definition all_writes :: "tsdb_act list \<Rightarrow> (byte \<times> bytes \<times> bytes option) list" where
  "all_writes as = concat (map act_writes as)"

context tsdb_pair
begin

lemma history_is:
  assumes "cfg_ok cfg" "te_thread E" "fresh entries w peer" "\<forall>a \<in> set as. act_ok a" "length (all_writes as) + 1 < 2 ^ 64"
  shows "\<exists>m sys s b th p. tsdb_cmd_init E cfg (tsdb_down w v) = Some (0, m) \<and> tsdb_run E parse cfg as (pair_up m peer) = Some sys
    \<and> pair_ok entries 0 sys s b th p \<and> log_left b \<le> length (all_writes as)
    \<and> (\<forall>k. data_key k \<longrightarrow> tsdb_data entries s k = written (all_writes as) Map.empty k)"
proof -
  obtain p where p: "entries w = []" "has_ldb (ts_engine peer)" "ts_ldb peer = Some p" "entries (tl_db p) = []"
    using assms(3) by (auto simp: fresh_def)
  obtain m s b th where 1: "tsdb_cmd_init E cfg (tsdb_down w v) = Some (0, m)"
      "pair_ok entries (length (all_writes as) + 0) (pair_up m peer) s b th p" "tsdb_data entries s = Map.empty" "log_left b = 0"
    using fresh_start [OF assms(1,2) p(1) assms(5) p(2-4), of v] by (simp only: add_0_right) blast
  from run_keeps [OF 1(2) [unfolded all_writes_def] assms(4,1,2)] obtain sys s' b' th' p' where
      "tsdb_run E parse cfg as (pair_up m peer) = Some sys" "pair_ok entries 0 sys s' b' th' p'"
      "log_left b' \<le> log_left b + length (all_writes as)"
      "\<forall>k. data_key k \<longrightarrow> tsdb_data entries s' k = written (all_writes as) (tsdb_data entries s) k"
    unfolding all_writes_def [symmetric] by blast
  then show ?thesis using 1(1,3,4) unfolding 1(3,4) by (metis add_0)
qed

lemma run_append: "tsdb_run E parse cfg (as @ bs) sys = Option.bind (tsdb_run E parse cfg as sys) (tsdb_run E parse cfg bs)"
  by (induction as arbitrary: sys) (auto split: bind_splits)

lemma rank_le: "rank th b \<le> 3 * log_left b + 2"
  by (cases "st_pc th") (simp_all add: rank_def)

lemma replicates:
  assumes "cfg_ok cfg" "te_thread E" "fresh entries w peer" "\<forall>a \<in> set as. act_ok a" "length (all_writes as) + 1 < 2 ^ 64"
  shows "\<exists>m sys. tsdb_cmd_init E cfg (tsdb_down w v) = Some (0, m) \<and> tsdb_run E parse cfg as (pair_up m peer) = Some sys
    \<and> (\<forall>k. data_key k \<longrightarrow> ldb_of entries (sy_master sys) k = written (all_writes as) Map.empty k
         \<and> ((\<forall>q c. ldb_of entries (sy_master sys) (seq_key q) \<noteq> Some (c # k)) \<longrightarrow> ldb_of entries (sy_peer sys) k = ldb_of entries (sy_master sys) k))"
proof -
  obtain m sys s b th p where h: "tsdb_cmd_init E cfg (tsdb_down w v) = Some (0, m)" "tsdb_run E parse cfg as (pair_up m peer) = Some sys"
      "pair_ok entries 0 sys s b th p" "\<forall>k. data_key k \<longrightarrow> tsdb_data entries s k = written (all_writes as) Map.empty k"
    using history_is [OF assms(1-5), of v] by blast
  show ?thesis using h pair_ok_ldb_of [OF h(3)] pair_ok_equal [OF h(3)] by (intro exI conjI) (assumption | simp)+
qed

lemma drained:
  assumes "cfg_ok cfg" "te_thread E" "fresh entries w peer" "\<forall>a \<in> set as. act_ok a" "length (all_writes as) + 1 < 2 ^ 64"
    and "\<forall>a \<in> set fs. fair a" "3 * length (all_writes as) + 2 \<le> length fs"
  shows "\<exists>m sys. tsdb_cmd_init E cfg (tsdb_down w v) = Some (0, m) \<and> tsdb_run E parse cfg (as @ fs) (pair_up m peer) = Some sys
    \<and> (\<forall>k. data_key k \<longrightarrow> ldb_of entries (sy_peer sys) k = written (all_writes as) Map.empty k)
    \<and> (\<forall>q. ldb_of entries (sy_master sys) (seq_key q) = None)"
proof -
  obtain m sys s b th p where h: "tsdb_cmd_init E cfg (tsdb_down w v) = Some (0, m)" "tsdb_run E parse cfg as (pair_up m peer) = Some sys"
      "pair_ok entries 0 sys s b th p" "log_left b \<le> length (all_writes as)" "\<forall>k. data_key k \<longrightarrow> tsdb_data entries s k = written (all_writes as) Map.empty k"
    using history_is [OF assms(1-5), of v] by blast
  have "log_left b = 0 \<or> rank th b \<le> length fs" using rank_le [of th b] h(4) assms(7) by simp
  from run_drains [OF h(3) assms(6) this] obtain sys' s' b' th' p' where d: "tsdb_run E parse cfg fs sys = Some sys'"
      "pair_ok entries 0 sys' s' b' th' p'" "log_left b' = 0" "\<forall>k. data_key k \<longrightarrow> tsdb_data entries s' k = tsdb_data entries s k"
    by blast
  have "tsdb_data entries p' k = written (all_writes as) Map.empty k" if "data_key k" for k
    using pair_ok_drained [OF d(2) that d(3)] d(4) h(5) that by simp
  moreover have "tsdb_data entries s' (seq_key q) = None" for q
  proof -
    have "\<not> (cur_seq b' \<le> q \<and> q \<le> last_seq b')" using d(3) by (auto simp: log_left_def word_le_nat_alt)
    then show ?thesis using d(2) unfolding pair_ok_def log_wf_def by blast
  qed
  ultimately show ?thesis using h(1,2) d(1) pair_ok_ldb_of [OF d(2)] by (simp add: run_append)
qed

lemma get_latest:
  assumes "cfg_ok cfg" "te_thread E" "fresh entries w peer" "\<forall>a \<in> set as. act_ok a" "length (all_writes as) + 1 < 2 ^ 64" "data_key k"
  shows "\<exists>m sys t. tsdb_cmd_init E cfg (tsdb_down w v) = Some (0, m) \<and> tsdb_run E parse cfg as (pair_up m peer) = Some sys
    \<and> serve E parse (sy_master sys) (request Cmd_get [k]) = Some (case written (all_writes as) Map.empty k of None \<Rightarrow> OPT_NULL | Some x \<Rightarrow> bulk x, t)
    \<and> ldb_of entries t = ldb_of entries (sy_master sys)"
proof -
  obtain m sys s b th p where h: "tsdb_cmd_init E cfg (tsdb_down w v) = Some (0, m)" "tsdb_run E parse cfg as (pair_up m peer) = Some sys"
      "pair_ok entries 0 sys s b th p" "tsdb_data entries s k = written (all_writes as) Map.empty k"
    using history_is [OF assms(1-5), of v] assms(6) by blast
  have st: "ts_ldb (sy_master sys) = Some s" "ts_engine (sy_master sys) = TSDB_ENGINE_LDB" "log_state entries s (tsdb_data entries s) b" "log_wf (tsdb_data entries s) b"
    using h(3) by (simp_all add: pair_ok_def)
  have v: "x \<noteq> [] \<and> length x \<le> 2147483647" if "written (all_writes as) Map.empty k = Some x" for x
  proof -
    have "val_ok k x" using st(4) that assms(6) data_key_not_seq(1) [OF assms(6)] unfolding h(4) [symmetric] log_wf_def by blast
    then show ?thesis by (simp add: val_ok_def sync_req_lengths SEND_BUF_SIZE_def)
  qed
  obtain s' where g: "serve E parse (sy_master sys) (request Cmd_get [k]) =
      Some (case written (all_writes as) Map.empty k of None \<Rightarrow> OPT_NULL
        | Some v \<Rightarrow> if v = [] then OPT_INTERIOR_ERROR else 0x24 # print_int (s32 (int (length v))) @ crlf @ v @ crlf, (sy_master sys)\<lparr>ts_ldb := Some s'\<rparr>)"
      "log_state entries s' (tsdb_data entries s) b"
    using get_served [OF st(1-3), of k] unfolding h(4) by blast
  have "serve E parse (sy_master sys) (request Cmd_get [k]) =
      Some (case written (all_writes as) Map.empty k of None \<Rightarrow> OPT_NULL | Some x \<Rightarrow> bulk x, (sy_master sys)\<lparr>ts_ldb := Some s'\<rparr>)"
    using g(1) v by (cases "written (all_writes as) Map.empty k") (simp_all add: bulk_def print_int_def)
  then show ?thesis using h(1,2) st(1) g(2) by (auto simp: ldb_of_def log_state_def)
qed

end

section \<open>Failures\<close>

context ordered_store
begin

text \<open>The sequence number is raised before the batch is written: a thread that has caught up finds no entry in between.\<close>

lemma batch_overtaken:
  assumes st: "log_state entries s M b" "cur_seq b = last_seq b + 1" "unat (last_seq b) + 2 < 2 ^ 64" "M (seq_key (last_seq b + 1)) = None"
    and k: "length k \<le> 511" and pc: "st_pc th = Sl_Sync"
  shows "\<exists>s1 th1 s2 th2 s3 s4 b'. binlog_batch_put s k v = Some (0, s1) \<and> slave_step L a th s1 = Some (th1, s2)
    \<and> slave_step L a' th1 s2 = Some (th2, s3) \<and> binlog_batch_commit L s3 = (0, s4)
    \<and> tsdb_data entries s4 = M(seq_key (last_seq b + 1) \<mapsto> CMD_SET # k, k \<mapsto> v) \<and> tl_binlog s4 = Some b' \<and> last_seq b' = last_seq b + 1
    \<and> last_seq b' < cur_seq b' \<and> st_pc th2 = Sl_Sync"
proof -
  have h: "log_ok s" "tl_binlog s = Some b" "ls_wbatch (tl_ldbs s) = []" "tsdb_data entries s = M" using st(1) by (simp_all add: log_state_def)
  obtain s1 where s1: "binlog_batch_put s k v = Some (0, s1)" "log_ok s1" "tl_binlog s1 = Some (next_seq b)"
      "ls_wbatch (tl_ldbs s1) = [Bat_Put (seq_key (last_seq b + 1)) (CMD_SET # k), Bat_Put k v]" "tsdb_data entries s1 = M"
    using binlog_batch_put_is [OF h(1,2) k, of v] h(3,4) by auto
  obtain s2 where g: "get_binlog L s1 (last_seq b + 1) (st_send th) SEND_BUF_SIZE = Some (0, st_send th, 0, s2)" "log_same entries s1 s2"
    using get_binlog_absent [OF s1(2), of "last_seq b + 1"] s1(5) st(4) by auto
  define th1 where "th1 = go Sl_Delete (th\<lparr>st_send := st_send th, st_len := 0\<rparr>)"
  have 1: "slave_step L a th s1 = Some (th1, s2)" using pc s1(3) st(2) g(1) by (simp add: slave_step_def th1_def)
  have s2: "log_ok s2" "tl_binlog s2 = Some (next_seq b)" "ls_wbatch (tl_ldbs s2) = ls_wbatch (tl_ldbs s1)" "tsdb_data entries s2 = M"
    using g(2) s1(3,5) by (simp_all add: log_same_def)
  obtain s2' where d: "del_binlog L s2 (last_seq b + 1) = Some (0, s2')" "tsdb_data entries s2' = M(seq_key (last_seq b + 1) := None)"
      "tl_binlog s2' = tl_binlog s2" "ls_wbatch (tl_ldbs s2') = ls_wbatch (tl_ldbs s2)" "log_ok s2'"
    using del_binlog_is [OF s2(1), of "last_seq b + 1"] s2(4) by auto
  define s3 where "s3 = set_cur (last_seq b + 1 + 1) s2'"
  have 2: "slave_step L a' th1 s2 = Some (go Sl_Sync th1, s3)" using s2(2) st(2) d(1) by (simp add: slave_step_def th1_def go_def s3_def)
  have s3: "tsdb_data entries s3 = M(seq_key (last_seq b + 1) := None)" "tl_binlog s3 = Some ((next_seq b)\<lparr>cur_seq := last_seq b + 1 + 1\<rparr>)"
      "ls_wbatch (tl_ldbs s3) = ls_wbatch (tl_ldbs s1)"
    using d s2(2,3) by (simp_all add: s3_def set_cur_def tsdb_data_def tl_db_def)
  obtain s4 where 4: "binlog_batch_commit L s3 = (0, s4)" "tl_binlog s4 = tl_binlog s3"
      "tsdb_data entries s4 = batch_apply (ls_wbatch (tl_ldbs s3)) (tsdb_data entries s3)"
    using binlog_batch_commit_is [of s3] by blast
  have D: "tsdb_data entries s4 = M(seq_key (last_seq b + 1) \<mapsto> CMD_SET # k, k \<mapsto> v)" using 4(3) s3(1,3) s1(4) by simp
  have "unat (last_seq b + 1) = unat (last_seq b) + 1" using st(3) by (intro seq_suc) simp
  moreover from this have "unat (last_seq b + 1 + 1) = unat (last_seq b + 1) + 1" using st(3) by (intro seq_suc) simp
  ultimately have "last_seq b + 1 < last_seq b + 1 + 1" by (simp add: word_less_nat_alt)
  then show ?thesis using s1(1) 1 2 4(1,2) D s3(2)
    by (intro exI [of _ s1] exI [of _ th1] exI [of _ s2] exI [of _ "go Sl_Sync th1"] exI [of _ s3] exI [of _ s4]
      exI [of _ "(next_seq b)\<lparr>cur_seq := last_seq b + 1 + 1\<rparr>"]) (simp add: go_def)
qed

lemma decode_any_first: "decode_seq_key (c # drop 1 (seq_key q)) = q"
proof -
  have "drop 1 (c # drop 1 (seq_key q)) = drop 1 (seq_key q)" "length (c # drop 1 (seq_key q)) = length (seq_key q)" by (simp_all add: seq_key_def)
  then have "decode_seq_key (c # drop 1 (seq_key q)) = decode_seq_key (seq_key q)" unfolding decode_seq_key_def by presburger
  then show ?thesis by simp
qed

lemma open_misled:
  assumes ne: "entries (tl_db s) \<noteq> []" and key: "fst (last (entries (tl_db s))) = c # drop 1 (seq_key q)" and c: "c < 0xff" and q: "q \<noteq> -1"
  shows "\<exists>s'. binlog_open L s True = Some (0, s') \<and> tl_binlog s' = Some \<lparr>min_seq = 1, cur_seq = 0, last_seq = q\<rparr>"
proof -
  define es where "es = entries (tl_db s)"
  have below: "c # drop 1 (seq_key q) < seq_key 0" using c by (simp add: seq_key_def)
  have none: "filter (\<lambda>e. seq_key 0 \<le> fst e) es = []"
  proof -
    have "fst e < seq_key 0" if "e \<in> set es" for e
      using ordered_last [OF ordered [of "tl_db s"], of e] that below key by (simp add: es_def)
    then show ?thesis by (auto simp: filter_empty_conv not_le)
  qed
  have en: "encode_seq_key 0 (w_key bl_buf_new) = Some (9, seq_key 0 @ replicate 7 0)"
    by (simp add: encode_seq_key_is bl_buf_new_def buf_sizes)
  let ?i = "lb_iter_seek L (lb_create_iterator L (tl_db s)) (seq_key 0)"
  have i1: "\<not> lb_iter_valid L ?i" using none by (simp add: valid_law seek_law es_def)
  have "ahead (lb_iter_seek_to_last L ?i) = [last es]" using ne by (simp add: seek_again_law es_def)
  then have i2: "lb_iter_valid L (lb_iter_seek_to_last L ?i)" "decode_seq_key (lb_iter_key L (lb_iter_seek_to_last L ?i)) = q"
    using key key_law [of "lb_iter_seek_to_last L ?i"] decode_any_first [of c q] by (simp_all add: valid_law es_def)
  show ?thesis using i1 i2 q by (simp add: binlog_open_def en Let_def)
qed

end

context tsdb_pair
begin

text \<open>An empty value: \<^verbatim>\<open>ldb_get\<close> returns its length 0, which is taken for a key that is gone.\<close>

lemma empty_skipped:
  assumes m: "ts_thread (sy_master sys) = Some th" "st_pc th = Sl_Sync" "ts_ldb (sy_master sys) = Some s" "log_state entries s M b"
    and e: "cur_seq b \<le> last_seq b" "M (seq_key (cur_seq b)) = Some (CMD_SET # k)" "length k \<le> 511" "M k = Some []"
  shows "\<exists>sys'. tsdb_run E parse cfg [Thread fd conn ex, Thread fd' conn' ex'] sys = Some sys' \<and> sy_peer sys' = sy_peer sys
    \<and> ldb_of entries (sy_master sys') = M(seq_key (cur_seq b) := None)"
proof -
  have h: "log_ok s" "tl_binlog s = Some b" "tsdb_data entries s = M" using m(4) by (simp_all add: log_state_def)
  obtain s1 where g: "get_binlog (te_ldb E) s (cur_seq b) (st_send th) SEND_BUF_SIZE = Some (0, st_send th, 0, s1)" "log_same entries s s1"
    using get_binlog_gone [OF h(1), of "cur_seq b" k] h(3) e by auto
  have s1: "log_ok s1" "tl_binlog s1 = Some b" "tsdb_data entries s1 = M" using g(2) h by (simp_all add: log_same_def)
  obtain s2 where d: "del_binlog (te_ldb E) s1 (cur_seq b) = Some (0, s2)" "tsdb_data entries s2 = M(seq_key (cur_seq b) := None)"
    using del_binlog_is [OF s1(1), of "cur_seq b"] s1(3) by auto
  have "tsdb_data entries (set_cur q s2) = M(seq_key (cur_seq b) := None)" for q using d(2) by (simp add: set_cur_def tsdb_data_def tl_db_def)
  then show ?thesis using m(1-3) e(1) g(1) d(1) h(2) s1(2)
    by (simp add: tsdb_do_def thread_step_def slave_step_def go_def ldb_of_def)
qed

text \<open>A value whose request does not fit the send buffer: the inner loop starts again with the same entry.\<close>

lemma long_stays:
  assumes m: "ts_thread (sy_master sys) = Some th" "st_pc th = Sl_Sync" "ts_ldb (sy_master sys) = Some s" "log_state entries s M b"
    and e: "cur_seq b \<le> last_seq b" "M (seq_key (cur_seq b)) = Some (CMD_SET # k)" "length k \<le> 511" "M k = Some v" "SEND_BUF_SIZE < length (sync_set_req k v)"
    and acts: "\<forall>a \<in> set as. \<exists>fd conn ex. a = Thread fd conn ex"
  shows "\<exists>sys' th' s'. tsdb_run E parse cfg as sys = Some sys' \<and> sy_peer sys' = sy_peer sys \<and> ts_thread (sy_master sys') = Some th' \<and> st_pc th' = Sl_Sync
    \<and> ts_ldb (sy_master sys') = Some s' \<and> log_state entries s' M b"
  using m acts
proof (induction as arbitrary: sys th s)
  case Nil
  then show ?case by simp
next
  case (Cons a as)
  obtain fd conn ex where a: "a = Thread fd conn ex" using Cons.prems(5) by auto
  have h: "log_ok s" "tl_binlog s = Some b" "tsdb_data entries s = M" using Cons.prems(4) by (simp_all add: log_state_def)
  have v: "v \<noteq> []"
  proof
    assume "v = []"
    then show False using e(3,5) dec_nat_length [of 3 "length k"] by (simp add: sync_req_lengths SEND_BUF_SIZE_def dec_nat_digit)
  qed
  obtain s1 where g: "get_binlog (te_ldb E) s (cur_seq b) (st_send th) SEND_BUF_SIZE = Some (-1, st_send th, SEND_BUF_SIZE, s1)" "log_same entries s s1"
    using get_binlog_too_long [OF h(1), of "cur_seq b" k v SEND_BUF_SIZE "st_send th"] h(3) e v by auto
  define th1 where "th1 = go Sl_Sync (th\<lparr>st_send := st_send th, st_len := SEND_BUF_SIZE\<rparr>)"
  define sys1 where "sys1 = sys\<lparr>sy_master := (sy_master sys)\<lparr>ts_ldb := Some s1, ts_thread := Some th1\<rparr>, sy_peer := sy_peer sys,
    sy_wire := if sl_sock (st_slave th1) = -1 then [] else sy_wire sys, sy_unread := if sl_sock (st_slave th1) = -1 then [] else sy_unread sys\<rparr>"
  have d: "tsdb_do E parse cfg a sys = Some sys1"
    using Cons.prems(1-3) h(2) e(1) g(1) by (simp add: a tsdb_do_def thread_step_def slave_step_def sys1_def th1_def)
  have "log_state entries s1 M b" using g(2) Cons.prems(4) by (simp add: log_state_def log_same_def)
  then show ?case using Cons.IH [of sys1 th1 s1] Cons.prems(5) d by (simp add: sys1_def th1_def go_def)
qed

end

text \<open>\<^verbatim>\<open>tsdb_cmd_init\<close> does not look at the results of the engines.\<close>

lemma init_reports_success:
  assumes "cf_engine_type cfg = TSDB_ENGINE_LDB" "\<And>opts w n. fst (lb_open (te_ldb E) opts w n)"
  shows "\<exists>t. tsdb_cmd_init E cfg (tsdb_down w v) = Some (0, t) \<and> (\<forall>p. tsdb_cmd_run E Cmd_set t p = None)"
proof -
  let ?o = "ldb_initialize (te_ldb E) (te_snappy E) w (snprintf 1024 (cf_work_path cfg @ ascii ''/'' @ LDB_DB_NAME)) (cf_block_size cfg)
    (cf_write_buffer_size cfg) (cf_cache_lru_size cfg) (cf_bloom_key_size cfg)"
  have "fst ?o = None" using assms(2) by (simp add: ldb_initialize_def Let_def case_prod_beta)
  then obtain w' where "?o = (None, w')" by (metis prod.collapse)
  moreover have "LDB_DB_NAME \<noteq> []" by (simp add: LDB_DB_NAME_def ascii_def)
  ultimately show ?thesis using assms(1)
    by (simp add: tsdb_cmd_init_def tsdb_ldb_init_def has_ldb_def has_kv_def tsdb_down_def Let_def tsdb_cmd_run_def on_engines_def on_ldb_def)
qed

text \<open>\<^verbatim>\<open>recv_response\<close> writes over the beginning of the buffer and \<^verbatim>\<open>check_response\<close> looks at all of it: after a good
  response any beginning of the next one is taken for the whole, and the rest of it for the response to the request after that.\<close>

lemma old_response_accepted:
  assumes "buf = OPT_OK @ 0 # rest" "got = take m OPT_OK" "0 < m"
  shows "recv_response [Rcv_data got] buf = Some (0, buf) \<and> check_response buf (ascii ''OK'') = Some 0"
proof -
  have "buf = got @ drop m OPT_OK @ 0 # rest" using assms(1,2) by simp
  then have "mwrites buf 0 got = Some buf" by (simp add: mwrites_def)
  moreover have "c_str_of buf = OPT_OK" using assms(1) by (simp add: c_str_of_def OPT_OK_def ascii_def crlf_def)
  moreover have "strstr OPT_OK (ascii ''OK'')" using strstr_found [of "[0x2B]" "ascii ''OK''" crlf] by (simp add: OPT_OK_def ascii_def crlf_def)
  ultimately show ?thesis using assms(1) by (simp add: check_response_def)
qed

section \<open>Replication\<close>

definition pair_cfg :: tsdb_cfg where
  "pair_cfg = \<lparr>cf_engine_type = TSDB_ENGINE_LDB, cf_work_path = ascii ''/tsdb'', cf_readonly = 0, cf_write_buffer_size = 4194304, cf_block_size = 4096,
     cf_cache_lru_size = 8388608, cf_bloom_key_size = 10, cf_has_slave = True, cf_slave_ip = ascii ''10.0.0.2'', cf_slave_wport = 7502\<rparr>"

definition pair_log :: "batch_op list \<Rightarrow> batch_op list tsdb_log" where
  "pair_log w = \<lparr>tl_ldbs = \<lparr>ls_db = w, ls_options = \<lparr>lo_cache_lru = 0, lo_bloom = 0, lo_block_size = 0, lo_write_buffer_size = 0, lo_snappy = False,
     lo_create_if_missing = True\<rparr>, ls_wbatch = [], ls_dbname = []\<rparr>, tl_binlog = None, tl_buf = None\<rparr>"

definition pair_peer :: "(batch_op list, unit) tsdb" where
  "pair_peer = (tsdb_down [] ())\<lparr>ts_engine := TSDB_ENGINE_LDB, ts_ldb := Some (pair_log [])\<rparr>"

text \<open>A write, the steps of the thread with a lost request and a silent slave, a restart, a second write.\<close>

definition pair_acts :: "tsdb_act list" where
  "pair_acts = [Client (Req_set [0x61] [0x31]), Thread 3 True (Ex_lost []), Thread 3 True (Ex_lost [4]), Thread 3 True (Ex_reply [2] 1 True 512),
     Thread 3 True (Ex_silent [] True 0 True), Restart, Thread 3 True (Ex_reply [] 0 True 512), Client (Req_mset [([0x62], [0x32]), ([0x61], [0x33])])]"

lemma replay_Nil [simp]: "replay [] = []"
  by (simp add: replay_def)

lemma pair_facts: "cfg_ok pair_cfg" "te_thread list_env" "fresh replay [] pair_peer"
  by (simp_all add: cfg_ok_def pair_cfg_def list_env_def fresh_def pair_peer_def pair_log_def tsdb_down_def tl_db_def has_ldb_def ascii_def)

lemma pair_acts_ok: "\<forall>a \<in> set pair_acts. act_ok a" "all_writes pair_acts = [(CMD_SET, [0x61], Some [0x31]), (CMD_SET, [0x62], Some [0x32]), (CMD_SET, [0x61], Some [0x33])]"
  by (simp_all add: pair_acts_def act_ok_def whole_reply_def RECV_BUF_SIZE_def client_ok_def data_key_def val_ok_def sync_req_lengths SEND_BUF_SIZE_def dec_nat_digit all_writes_def act_writes_def)

text \<open>C5: master and slave of TSDB, both started on empty databases, under every sequence of client requests, each served in
  one step, steps of the synchronising thread and restarts of the master, within these bounds (\<open>act_ok\<close>): the requests are SET,
  DEL, MSET and GET with at least one key; a key that is written has at most 511 bytes, not nine, and does not begin with 0xff; a
  value is not empty and its request fits the send buffer of 32 MB; a response of the slave is received whole, in one
  \<^verbatim>\<open>recv\<close> (\<open>whole_reply\<close>; connections may be refused or break at any point, requests be served but not answered, receives be
  interrupted); there are less than 2^64 - 1 writes. Then every step is defined (no access out of bounds), the master holds what
  its clients wrote, and the slave holds the master's value of every such key without an entry in the log. What happens outside of
  these bounds: \<open>tsdb_batch_write_overtaken\<close>, \<open>tsdb_long_value_blocks\<close>, \<open>tsdb_empty_value_not_sent\<close>, \<open>tsdb_open_misled_by_key\<close>,
  \<open>old_response_accepted\<close>.\<close>
theorem tsdb_replication:
  assumes "tsdb_pair E entries ahead parse" "cfg_ok cfg" "te_thread E" "fresh entries w peer"
    and "\<forall>a \<in> set as. act_ok a" "length (all_writes as) + 1 < 2 ^ 64"
  shows "\<exists>m sys. tsdb_cmd_init E cfg (tsdb_down w v) = Some (0, m) \<and> tsdb_run E parse cfg as (pair_up m peer) = Some sys
    \<and> (\<forall>k. data_key k \<longrightarrow> ldb_of entries (sy_master sys) k = written (all_writes as) Map.empty k
         \<and> ((\<forall>q c. ldb_of entries (sy_master sys) (seq_key q) \<noteq> Some (c # k)) \<longrightarrow> ldb_of entries (sy_peer sys) k = ldb_of entries (sy_master sys) k))"
  by (rule tsdb_pair.replicates [OF assms])

theorem tsdb_replication_witness:
  "\<exists>m sys. tsdb_cmd_init list_env pair_cfg (tsdb_down [] ()) = Some (0, m)
    \<and> tsdb_run list_env read_request pair_cfg pair_acts (pair_up m pair_peer) = Some sys
    \<and> ldb_of replay (sy_master sys) [0x61] = Some [0x33]"
proof -
  have "data_key [0x61]" by (simp add: data_key_def)
  then show ?thesis
    using tsdb_replication [OF list_pair.tsdb_pair_axioms pair_facts pair_acts_ok(1), of "()"] by (fastforce simp: pair_acts_ok(2))
qed

text \<open>C8: the thread catches up: after a history within the same bounds (keys of at most 511 bytes, not nine, not beginning with 0xff;
  values that are not empty and fit the send buffer; responses received whole) with \<open>n\<close> writes, \<open>3 n + 2\<close> steps of the thread in
  which the connection can be made and holds and every request is answered leave the log empty and the slave with exactly what
  the clients wrote.\<close>
theorem tsdb_catches_up:
  assumes "tsdb_pair E entries ahead parse" "cfg_ok cfg" "te_thread E" "fresh entries w peer"
    and "\<forall>a \<in> set as. act_ok a" "length (all_writes as) + 1 < 2 ^ 64" "\<forall>a \<in> set fs. fair a" "3 * length (all_writes as) + 2 \<le> length fs"
  shows "\<exists>m sys. tsdb_cmd_init E cfg (tsdb_down w v) = Some (0, m) \<and> tsdb_run E parse cfg (as @ fs) (pair_up m peer) = Some sys
    \<and> (\<forall>k. data_key k \<longrightarrow> ldb_of entries (sy_peer sys) k = written (all_writes as) Map.empty k)
    \<and> (\<forall>q. ldb_of entries (sy_master sys) (seq_key q) = None)"
  by (rule tsdb_pair.drained [OF assms])

theorem tsdb_catches_up_witness:
  "\<exists>m sys. tsdb_cmd_init list_env pair_cfg (tsdb_down [] ()) = Some (0, m)
    \<and> tsdb_run list_env read_request pair_cfg (pair_acts @ replicate 11 (Thread 3 True (Ex_reply [] 0 True 512))) (pair_up m pair_peer) = Some sys
    \<and> ldb_of replay (sy_peer sys) [0x61] = Some [0x33] \<and> ldb_of replay (sy_peer sys) [0x62] = Some [0x32]"
proof -
  have "data_key [0x61]" "data_key [0x62]" by (simp_all add: data_key_def)
  moreover have "\<forall>a \<in> set (replicate 11 (Thread 3 True (Ex_reply [] 0 True 512))). fair a" by (simp add: fair_def RECV_BUF_SIZE_def)
  ultimately show ?thesis
    using tsdb_catches_up [OF list_pair.tsdb_pair_axioms pair_facts pair_acts_ok(1), of "replicate 11 (Thread 3 True (Ex_reply [] 0 True 512))" "()"]
    by (fastforce simp: pair_acts_ok(2))
qed

text \<open>C21: a GET request to the master for a key of at most 511 bytes, not nine, not beginning with 0xff, after a history within
  the same bounds, so that no value written is empty, is answered with the value last written to the key, as a bulk string of the Redis
  protocol, or with the null bulk string where the key has none, and it changes nothing.\<close>
theorem tsdb_get_answers_last_write:
  assumes "tsdb_pair E entries ahead parse" "cfg_ok cfg" "te_thread E" "fresh entries w peer"
    and "\<forall>a \<in> set as. act_ok a" "length (all_writes as) + 1 < 2 ^ 64" "data_key k"
  shows "\<exists>m sys t. tsdb_cmd_init E cfg (tsdb_down w v) = Some (0, m) \<and> tsdb_run E parse cfg as (pair_up m peer) = Some sys
    \<and> serve E parse (sy_master sys) (request Cmd_get [k]) = Some (case written (all_writes as) Map.empty k of None \<Rightarrow> OPT_NULL | Some x \<Rightarrow> bulk x, t)
    \<and> ldb_of entries t = ldb_of entries (sy_master sys)"
  by (rule tsdb_pair.get_latest [OF assms])

theorem tsdb_get_answers_last_write_witness:
  "\<exists>m sys t. tsdb_cmd_init list_env pair_cfg (tsdb_down [] ()) = Some (0, m)
    \<and> tsdb_run list_env read_request pair_cfg pair_acts (pair_up m pair_peer) = Some sys
    \<and> serve list_env read_request (sy_master sys) (request Cmd_get [[0x61]]) = Some (bulk [0x33], t)"
proof -
  have "data_key [0x61]" by (simp add: data_key_def)
  then show ?thesis
    using tsdb_get_answers_last_write [OF list_pair.tsdb_pair_axioms pair_facts pair_acts_ok(1), of "[0x61]" "()"] by (fastforce simp: pair_acts_ok(2))
qed

section \<open>Ranges and patterns\<close>

lemma array_answer_is:
  assumes "answers xs r"
  shows "\<exists>x. r = Some x \<and> (\<forall>p. array_answer C p s x = Some (X_DONE_OK, reply C p (resp_array xs), s))"
proof (cases "xs = []")
  case True
  then show ?thesis using assms
    by (simp add: answers_def array_answer_def answer_def resp_array_def OPT_EMPTY_MULTI_def dec_nat_digit ascii_def)
next
  case False
  then obtain buf where b: "r = Some (Some buf, int (length (resp_array xs)))" "take (length (resp_array xs)) buf = resp_array xs"
    using assms by (auto simp: answers_def)
  have "length (resp_array xs) \<le> length buf" using arg_cong [OF b(2), of length] by simp
  then show ?thesis using b by (simp add: array_answer_def answer_def mreads_def)
qed

context tsdb_pair
begin

lemma lrange_served:
  assumes t: "ts_ldb t = Some s" "has_ldb (ts_engine t)" "0 < ts_page t"
    and k: "0 \<notin> set (pre @ ed)" "\<not> strict_prefix (pre @ st) (pre @ ed)" "\<forall>k \<in> fst ` set (entries (tl_db s)). \<not> strict_prefix k (pre @ ed)"
    and found: "found = filter (\<lambda>e. pre @ st \<le> fst e \<and> take (length (pre @ ed)) (fst e) \<le> pre @ ed) (entries (tl_db s))"
    and "length (resp_array (concat (map (\<lambda>e. [fst e, snd e]) found))) \<le> 2147483647"
  shows "serve E parse t (request Cmd_lrange [pre, st, ed]) = Some (resp_array (concat (map (\<lambda>e. [fst e, snd e]) found)), t)"
proof -
  have "answers (concat (map (\<lambda>e. [fst e, snd e]) found)) (ldb_lrangeget (te_ldb E) (ts_page t) (tl_ldbs s) pre st ed)"
    using ldb_lrangeget_is [OF k(1,2) _ t(3), of "tl_ldbs s" found] k(3) found assms(8) by (simp add: tl_db_def)
  then obtain x where x: "ldb_lrangeget (te_ldb E) (ts_page t) (tl_ldbs s) pre st ed = Some x"
      "\<forall>p. array_answer (te_cache E) p s x = Some (X_DONE_OK, reply (te_cache E) p (resp_array (concat (map (\<lambda>e. [fst e, snd e]) found))), s)"
    using array_answer_is [of _ _ "te_cache E" s] by blast
  obtain p where p: "serve E parse t (request Cmd_lrange [pre, st, ed]) = Option.bind (tsdb_cmd_run E Cmd_lrange t p) (\<lambda>(r, p, t). Some (ca_data (te_cache E) (nd_send p), t))"
      "nfields p = 3" "field p 0 = Some pre" "field p (Suc 0) = Some st" "field p 2 = Some ed" "ca_data (te_cache E) (nd_send p) = []"
    using serve_node [of t Cmd_lrange "[pre, st, ed]"] by (force simp: numeral_3_eq_3 numeral_2_eq_2)
  have h: "tsdb_ldb_lrange (te_ldb E) (te_cache E) (ts_page t) p s = Some (X_DONE_OK, reply (te_cache E) p (resp_array (concat (map (\<lambda>e. [fst e, snd e]) found))), s)"
    using p(2-5) x by (simp add: tsdb_ldb_lrange_def)
  show ?thesis unfolding p(1) using serve_ldb [of t s "tsdb_ldb_lrange (te_ldb E) (te_cache E) (ts_page t)" p, OF t(1) h p(6)] t(1,2)
    by (simp add: tsdb_cmd_run_def ldb_only_def)
qed

lemma keys_served:
  assumes t: "ts_ldb t = Some s" "has_ldb (ts_engine t)" "0 < ts_page t" and k: "0 \<notin> set ptn"
    and found: "found = filter (\<lambda>k. take (length ptn) k = ptn) (map fst (entries (tl_db s)))" and "length (resp_array found) \<le> 2147483647"
  shows "serve E parse t (request Cmd_keys [ptn]) = Some (resp_array found, t)"
proof -
  have "answers found (ldb_keys (te_ldb E) (ts_page t) (tl_ldbs s) ptn)"
    using ldb_keys_is [OF k t(3), of "tl_ldbs s"] found assms(6) by (simp add: tl_db_def)
  then obtain x where x: "ldb_keys (te_ldb E) (ts_page t) (tl_ldbs s) ptn = Some x"
      "\<forall>p. array_answer (te_cache E) p s x = Some (X_DONE_OK, reply (te_cache E) p (resp_array found), s)"
    using array_answer_is [of _ _ "te_cache E" s] by blast
  obtain p where p: "serve E parse t (request Cmd_keys [ptn]) = Option.bind (tsdb_cmd_run E Cmd_keys t p) (\<lambda>(r, p, t). Some (ca_data (te_cache E) (nd_send p), t))"
      "nfields p = 1" "field p 0 = Some ptn" "ca_data (te_cache E) (nd_send p) = []"
    using serve_node [of t Cmd_keys "[ptn]"] by auto
  have h: "tsdb_ldb_keys (te_ldb E) (te_cache E) (ts_page t) p s = Some (X_DONE_OK, reply (te_cache E) p (resp_array found), s)"
    using p(2,3) x by (simp add: tsdb_ldb_keys_def)
  show ?thesis unfolding p(1) using serve_ldb [of t s "tsdb_ldb_keys (te_ldb E) (te_cache E) (ts_page t)" p, OF t(1) h p(4)] t(1,2)
    by (simp add: tsdb_cmd_run_def ldb_only_def)
qed

end

definition range_peer :: "(batch_op list, unit) tsdb" where
  "range_peer = pair_peer\<lparr>ts_page := 4096, ts_ldb := Some (pair_log [Bat_Put [0x61, 0x31] [0x41], Bat_Put [0x61, 0x32] [0x42], Bat_Put [0x61, 0x35] [0x43], Bat_Put [0x62, 0x31] [0x44]])\<rparr>"

lemma range_entries: "replay [Bat_Put [0x61, 0x31] [0x41], Bat_Put [0x61, 0x32] [0x42], Bat_Put [0x61, 0x35] [0x43], Bat_Put [0x62, 0x31] [0x44]] =
  [([0x61, 0x31], [0x41]), ([0x61, 0x32], [0x42]), ([0x61, 0x35], [0x43]), ([0x62, 0x31], [0x44])]"
  by (simp add: replay_def replay_op_def)

lemma range_facts: "ts_ldb range_peer = Some (pair_log [Bat_Put [0x61, 0x31] [0x41], Bat_Put [0x61, 0x32] [0x42], Bat_Put [0x61, 0x35] [0x43], Bat_Put [0x62, 0x31] [0x44]])"
    "has_ldb (ts_engine range_peer)" "0 < ts_page range_peer"
  by (simp_all add: range_peer_def pair_peer_def has_ldb_def)

text \<open>C22: an LRANGE request with a prefix, a start and an end is answered with the keys and values of the range, in the order of
  the keys and as one array of the Redis protocol, whatever number of blocks the result list takes. The keys of the range are
  those from the prefix with the start on whose first bytes, as many as the prefix with the end has, are not behind it: the end
  stands for all keys that go on behind it. Where the database has none of these, the range is exactly the keys from the
  prefix with the start to the prefix with the end. It is assumed that prefix and end have no zero byte, that neither the
  start of the range nor a key of the database is a proper beginning of its end (the comparison would read behind it), and that
  the answer is shorter than 2 GB.\<close>
theorem tsdb_lrange_exact:
  assumes "tsdb_pair E entries ahead parse" "ts_ldb t = Some s" "has_ldb (ts_engine t)" "0 < ts_page t"
    and "0 \<notin> set (pre @ ed)" "\<not> strict_prefix (pre @ st) (pre @ ed)" "\<forall>k \<in> fst ` set (entries (tl_db s)). \<not> strict_prefix k (pre @ ed)"
    and "found = filter (\<lambda>e. pre @ st \<le> fst e \<and> take (length (pre @ ed)) (fst e) \<le> pre @ ed) (entries (tl_db s))"
    and "length (resp_array (concat (map (\<lambda>e. [fst e, snd e]) found))) \<le> 2147483647"
  shows "serve E parse t (request Cmd_lrange [pre, st, ed]) = Some (resp_array (concat (map (\<lambda>e. [fst e, snd e]) found)), t)
    \<and> ((\<forall>k \<in> fst ` set (entries (tl_db s)). \<not> strict_prefix (pre @ ed) k) \<longrightarrow>
         found = filter (\<lambda>e. pre @ st \<le> fst e \<and> fst e \<le> pre @ ed) (entries (tl_db s)))"
proof
  show "serve E parse t (request Cmd_lrange [pre, st, ed]) = Some (resp_array (concat (map (\<lambda>e. [fst e, snd e]) found)), t)"
    by (rule tsdb_pair.lrange_served [OF assms])
  show "(\<forall>k \<in> fst ` set (entries (tl_db s)). \<not> strict_prefix (pre @ ed) k) \<longrightarrow>
      found = filter (\<lambda>e. pre @ st \<le> fst e \<and> fst e \<le> pre @ ed) (entries (tl_db s))"
    unfolding assms(8) by (intro impI filter_cong refl) (metis take_le_iff image_eqI)
qed

theorem tsdb_lrange_exact_witness:
  "serve list_env read_request range_peer (request Cmd_lrange [[0x61], [0x32], [0x39]]) =
     Some (resp_array [[0x61, 0x32], [0x42], [0x61, 0x35], [0x43]], range_peer)"
  using tsdb_lrange_exact [OF list_pair.tsdb_pair_axioms range_facts, of "[0x61]" "[0x39]" "[0x32]"]
  by (simp add: pair_log_def tl_db_def range_entries strict_prefix_def resp_array_def bulk_def dec_nat_digit crlf_def)





section \<open>Where it fails\<close>

definition pair_thread_at :: "slave_pc \<Rightarrow> slave_thread" where
  "pair_thread_at pc = \<lparr>st_pc = pc, st_len = 0, st_send = replicate SEND_BUF_SIZE 0, st_recv = replicate RECV_BUF_SIZE 0,
     st_slave = \<lparr>is_quit = False, sl_ip = [], sl_port = 0, sl_sock = 3\<rparr>\<rparr>"

definition pair_state :: "batch_op list \<Rightarrow> binlog_t \<Rightarrow> batch_op list tsdb_log" where
  "pair_state w b = (pair_log w)\<lparr>tl_binlog := Some b, tl_buf := Some bl_buf_new\<rparr>"

definition pair_sys :: "batch_op list \<Rightarrow> binlog_t \<Rightarrow> (batch_op list, unit) tsdb_sys" where
  "pair_sys w b = \<lparr>sy_master = (tsdb_down [] ())\<lparr>ts_engine := TSDB_ENGINE_LDB, ts_ldb := Some (pair_state w b), ts_thread := Some (pair_thread_at Sl_Sync)\<rparr>,
     sy_peer = pair_peer, sy_wire = [], sy_unread = []\<rparr>"

lemma pair_state_log: "log_state replay (pair_state w b) (map_of (replay w)) b"
  by (simp add: log_state_def pair_state_def pair_log_def log_ok_def buf_ok_def bl_buf_new_def buf_sizes tsdb_data_def tl_db_def)

lemma pair_sys_master: "ts_thread (sy_master (pair_sys w b)) = Some (pair_thread_at Sl_Sync)" "st_pc (pair_thread_at pc) = pc"
    "ts_ldb (sy_master (pair_sys w b)) = Some (pair_state w b)" "sy_peer (pair_sys w b) = pair_peer"
  by (simp_all add: pair_sys_def pair_thread_at_def)

text \<open>C33: MSET, DEL and SADD raise the sequence number before they write their batch. A thread that has caught up and looks
  in between takes the missing entry for an expired one and steps over it; when the batch is then written, the key has
  its new value and an entry in the log, and the thread counts as caught up without having sent it.\<close>
theorem tsdb_batch_write_overtaken:
  assumes "ordered_store L entries ahead" "log_state entries s M b" "cur_seq b = last_seq b + 1" "unat (last_seq b) + 2 < 2 ^ 64"
    and "M (seq_key (last_seq b + 1)) = None" "length k \<le> 511" "st_pc th = Sl_Sync"
  shows "\<exists>s1 th1 s2 th2 s3 s4 b'. binlog_batch_put s k v = Some (0, s1) \<and> slave_step L a th s1 = Some (th1, s2)
    \<and> slave_step L a' th1 s2 = Some (th2, s3) \<and> binlog_batch_commit L s3 = (0, s4)
    \<and> tsdb_data entries s4 = M(seq_key (last_seq b + 1) \<mapsto> CMD_SET # k, k \<mapsto> v) \<and> tl_binlog s4 = Some b' \<and> last_seq b' = last_seq b + 1
    \<and> last_seq b' < cur_seq b' \<and> st_pc th2 = Sl_Sync"
  by (rule ordered_store.batch_overtaken [OF assms])

theorem tsdb_batch_write_overtaken_witness:
  "\<exists>s1 th1 s2 th2 s3 s4 b'. binlog_batch_put (pair_state [] \<lparr>min_seq = 1, cur_seq = 1, last_seq = 0\<rparr>) [0x61] [0x31] = Some (0, s1)
    \<and> slave_step mem_store \<lparr>na_fd = 3, na_conn = True, na_sends = [], na_recvs = []\<rparr> (pair_thread_at Sl_Sync) s1 = Some (th1, s2)
    \<and> slave_step mem_store \<lparr>na_fd = 3, na_conn = True, na_sends = [], na_recvs = []\<rparr> th1 s2 = Some (th2, s3)
    \<and> binlog_batch_commit mem_store s3 = (0, s4) \<and> tsdb_data replay s4 [0x61] = Some [0x31] \<and> tl_binlog s4 = Some b' \<and> last_seq b' < cur_seq b'"
  using tsdb_batch_write_overtaken [OF mem_db.ordered_store_axioms pair_state_log [of "[]" "\<lparr>min_seq = 1, cur_seq = 1, last_seq = 0\<rparr>"], of "[0x61]" "pair_thread_at Sl_Sync" "[0x31]"
      "\<lparr>na_fd = 3, na_conn = True, na_sends = [], na_recvs = []\<rparr>" "\<lparr>na_fd = 3, na_conn = True, na_sends = [], na_recvs = []\<rparr>"]
  by (fastforce simp: pair_thread_at_def)

text \<open>C38: An empty value is never sent: the thread takes it for a value that is gone, deletes the entry and leaves the slave
  with what it had.\<close>
theorem tsdb_empty_value_not_sent:
  assumes "tsdb_pair E entries ahead parse" "ts_thread (sy_master sys) = Some th" "st_pc th = Sl_Sync" "ts_ldb (sy_master sys) = Some s"
    and "log_state entries s M b" "cur_seq b \<le> last_seq b" "M (seq_key (cur_seq b)) = Some (CMD_SET # k)" "length k \<le> 511" "M k = Some []"
  shows "\<exists>sys'. tsdb_run E parse cfg [Thread fd conn ex, Thread fd' conn' ex'] sys = Some sys' \<and> sy_peer sys' = sy_peer sys
    \<and> ldb_of entries (sy_master sys') = M(seq_key (cur_seq b) := None)"
  by (rule tsdb_pair.empty_skipped [OF assms])

theorem tsdb_empty_value_not_sent_witness:
  "\<exists>sys'. tsdb_run list_env read_request pair_cfg [Thread 3 True (Ex_reply [] 0 True 512), Thread 3 True (Ex_reply [] 0 True 512)]
      (pair_sys [Bat_Put (seq_key 1) (CMD_SET # [0x61]), Bat_Put [0x61] []] \<lparr>min_seq = 1, cur_seq = 1, last_seq = 1\<rparr>) = Some sys'
    \<and> ldb_of replay (sy_peer sys') [0x61] = None \<and> ldb_of replay (sy_master sys') [0x61] = Some [] \<and> ldb_of replay (sy_master sys') (seq_key 1) = None"
proof -
  let ?w = "[Bat_Put (seq_key 1) (CMD_SET # [0x61]), Bat_Put [0x61] []]" and ?b = "\<lparr>min_seq = 1, cur_seq = 1, last_seq = 1\<rparr>"
  have "map_of (replay ?w) = [seq_key 1 \<mapsto> CMD_SET # [0x61], [0x61] \<mapsto> []]" using replay_map [of "[]" ?w] by simp
  then have log: "log_state replay (pair_state ?w ?b) [seq_key 1 \<mapsto> CMD_SET # [0x61], [0x61] \<mapsto> []] ?b"
    using pair_state_log [of ?w ?b] by simp
  have d: "[0x61] \<noteq> seq_key 1" by (simp add: seq_key_def)
  have p: "ldb_of replay pair_peer = Map.empty" by (simp add: ldb_of_def pair_peer_def pair_log_def tsdb_data_def tl_db_def)
  show ?thesis
    using tsdb_empty_value_not_sent [OF list_pair.tsdb_pair_axioms pair_sys_master(1) [of ?w ?b] pair_sys_master(2) pair_sys_master(3) [of ?w ?b] log,
        of "[0x61]" pair_cfg 3 True "Ex_reply [] 0 True 512" 3 True "Ex_reply [] 0 True 512"] d p
    by (auto simp: pair_sys_master)
qed

text \<open>C34: A value whose request does not fit the 32 MB send buffer stops the synchronisation: the thread reads the same
  entry again for ever, sends nothing and does not leave its inner loop.\<close>
theorem tsdb_long_value_blocks:
  assumes "tsdb_pair E entries ahead parse" "ts_thread (sy_master sys) = Some th" "st_pc th = Sl_Sync" "ts_ldb (sy_master sys) = Some s"
    and "log_state entries s M b" "cur_seq b \<le> last_seq b" "M (seq_key (cur_seq b)) = Some (CMD_SET # k)" "length k \<le> 511" "M k = Some v"
    and "SEND_BUF_SIZE < length (sync_set_req k v)" "\<forall>a \<in> set as. \<exists>fd conn ex. a = Thread fd conn ex"
  shows "\<exists>sys' th' s'. tsdb_run E parse cfg as sys = Some sys' \<and> sy_peer sys' = sy_peer sys \<and> ts_thread (sy_master sys') = Some th' \<and> st_pc th' = Sl_Sync
    \<and> ts_ldb (sy_master sys') = Some s' \<and> log_state entries s' M b"
  by (rule tsdb_pair.long_stays [OF assms])

theorem tsdb_long_value_blocks_witness:
  "\<exists>sys' th'. tsdb_run list_env read_request pair_cfg (replicate 1000000 (Thread 3 True (Ex_reply [] 0 True 512)))
      (pair_sys [Bat_Put (seq_key 1) (CMD_SET # [0x61]), Bat_Put [0x61] (replicate 33554432 0x31)] \<lparr>min_seq = 1, cur_seq = 1, last_seq = 1\<rparr>) = Some sys'
    \<and> sy_peer sys' = pair_peer \<and> ts_thread (sy_master sys') = Some th' \<and> st_pc th' = Sl_Sync"
proof -
  let ?v = "replicate 33554432 0x31" and ?b = "\<lparr>min_seq = 1, cur_seq = 1, last_seq = 1\<rparr>"
  let ?w = "[Bat_Put (seq_key 1) (CMD_SET # [0x61]), Bat_Put [0x61] ?v]"
  have "map_of (replay ?w) = [seq_key 1 \<mapsto> CMD_SET # [0x61], [0x61] \<mapsto> ?v]" using replay_map [of "[]" ?w] by simp
  then have log: "log_state replay (pair_state ?w ?b) [seq_key 1 \<mapsto> CMD_SET # [0x61], [0x61] \<mapsto> ?v] ?b"
    using pair_state_log [of ?w ?b] by simp
  have d: "[0x61] \<noteq> seq_key 1" by (simp add: seq_key_def)
  have l: "SEND_BUF_SIZE < length (sync_set_req [0x61] ?v)" by (simp add: sync_req_lengths SEND_BUF_SIZE_def)
  show ?thesis
    using tsdb_long_value_blocks [OF list_pair.tsdb_pair_axioms pair_sys_master(1) [of ?w ?b] pair_sys_master(2) pair_sys_master(3) [of ?w ?b] log _ _ _ _ l,
        of "replicate 1000000 (Thread 3 True (Ex_reply [] 0 True 512))" pair_cfg] d
    by (auto simp: pair_sys_master)
qed

text \<open>C39: At the start the last key of the database is taken for a key of the log when it has nine bytes: where the log is
  empty, eight bytes of a user's key become the last sequence number, and the thread is to go through all numbers from
  one on.\<close>
theorem tsdb_open_misled_by_key:
  assumes "ordered_store L entries ahead" "entries (tl_db s) \<noteq> []" "fst (last (entries (tl_db s))) = c # drop 1 (seq_key q)" "c < 0xff" "q \<noteq> -1"
  shows "\<exists>s'. binlog_open L s True = Some (0, s') \<and> tl_binlog s' = Some \<lparr>min_seq = 1, cur_seq = 0, last_seq = q\<rparr>"
  by (rule ordered_store.open_misled [OF assms])

theorem tsdb_open_misled_by_key_witness:
  "\<exists>s'. binlog_open mem_store (pair_log [Bat_Put (0x74 # drop 1 (seq_key 0x656d703a32303135)) [0x31]]) True = Some (0, s')
    \<and> tl_binlog s' = Some \<lparr>min_seq = 1, cur_seq = 0, last_seq = 7308621165544616245\<rparr>"
proof -
  have r: "replay [Bat_Put k v] = [(k, v)]" for k v by (simp add: replay_def replay_op_def)
  show ?thesis
    using tsdb_open_misled_by_key [OF mem_db.ordered_store_axioms, of "pair_log [Bat_Put (0x74 # drop 1 (seq_key 0x656d703a32303135)) [0x31]]" "0x74" "0x656d703a32303135"]
    by (simp add: pair_log_def tl_db_def r)
qed

end
